(* ===== verification/Prelude.thy ===== *)
theory Prelude
  imports Main "HOL-Library.Word" "HOL-Library.Multiset" "HOL-Library.AList"
begin

text \<open>
  The vocabulary every component shares: bytes, Go slices with their spare capacity, Go errors,
  the outcome of a function that mutates its receiver and returns \<open>(int, error)\<close>, the
  collections of facts the components fill, and the generic lemmas on lists and association
  lists their proofs use.

  A Go map is an association list with distinct keys. Go iterates a map in an unspecified
  order; the order of the list is that order, and every property of an iteration is stated on
  sets or multisets, so that it holds for all orders.
\<close>

unbundle bit_operations_syntax

type_synonym byte = "8 word"
type_synonym bytes = "byte list"
type_synonym u16 = "16 word"
type_synonym u32 = "32 word"
type_synonym u64 = "64 word"

named_theorems codec_simps \<open>what the codec primitives do on a well-formed input\<close>
named_theorems tree_simps \<open>unfolding of the topic tree operations\<close>

section \<open>Errors and outcomes\<close>

text \<open>
  An error value of the program: a \<open>ReasonCode\<close> returned as an error, a \<open>*Code\<close> built by
  \<open>NewCodeErr\<close>, \<open>io.EOF\<close>, or a text built by \<open>fmt.Errorf\<close> / \<open>errors.New\<close> (the format
  string names it, the arguments of the text are dropped).
\<close>

datatype goerr = Reason byte | CodeErr byte | EOF | Errorf string

text \<open>
  Outcome of a Go call that mutates a state \<open>'s\<close> while it advances an offset: it returns
  normally, returns the offset with an error, or panics.
\<close>

datatype 's outcome = Ret 's nat | Fail 's int goerr | Panic

fun run :: "('s \<Rightarrow> nat \<Rightarrow> 's outcome) list \<Rightarrow> 's \<Rightarrow> nat \<Rightarrow> 's outcome" where
  "run [] s t = Ret s t"
| "run (b # bs) s t =
     (case b s t of Ret s' t' \<Rightarrow> run bs s' t' | Fail s' t' e \<Rightarrow> Fail s' t' e | Panic \<Rightarrow> Panic)"

lemma run_last [simp]:
  "(case r of Ret s t \<Rightarrow> run [] s t | Fail s t e \<Rightarrow> Fail s t e | Panic \<Rightarrow> Panic) = r"
  by (cases r) simp_all

lemma run_append:
  "run (bs @ cs) s t =
     (case run bs s t of Ret s' t' \<Rightarrow> run cs s' t' | Fail s' t' e \<Rightarrow> Fail s' t' e | Panic \<Rightarrow> Panic)"
  by (induction bs arbitrary: s t) (auto split: outcome.split)

lemma run_Ret_step: "b s t = Ret s' t' \<Longrightarrow> run (b # bs) s t = run bs s' t'"
  by simp

definition guarded :: "bool \<Rightarrow> ('s \<Rightarrow> nat \<Rightarrow> 's outcome) \<Rightarrow> 's \<Rightarrow> nat \<Rightarrow> 's outcome" where
  "guarded c b s t = (if c then b s t else Ret s t)"

lemma guarded_simps [simp]: "guarded True b = b" "guarded False b = Ret"
  by (simp_all add: guarded_def fun_eq_iff)

section \<open>Slices\<close>

text \<open>
  A byte slice: the visible elements (up to \<open>len\<close>) and the elements of the backing array
  between \<open>len\<close> and \<open>cap\<close>. Indexing is bounded by \<open>len\<close>; a slice expression with an explicit
  upper bound is bounded by \<open>cap\<close> only. \<open>None\<close> is the run-time panic.
\<close>

datatype slice = Slice (vis: bytes) (spare: bytes)

definition slen :: "slice \<Rightarrow> nat" where "slen s = length (vis s)"

definition sat :: "slice \<Rightarrow> nat \<Rightarrow> byte option" where
  "sat s i = (if i < slen s then Some (vis s ! i) else None)"

definition sfrom :: "slice \<Rightarrow> nat \<Rightarrow> slice option" where
  "sfrom s i = (if i \<le> slen s then Some (Slice (drop i (vis s)) (spare s)) else None)"

definition srange :: "slice \<Rightarrow> nat \<Rightarrow> nat \<Rightarrow> slice option" where
  "srange s i j =
     (let a = vis s @ spare s
      in if i \<le> j \<and> j \<le> length a then Some (Slice (take (j - i) (drop i a)) (drop j a)) else None)"

text \<open>\<open>total < len(src) && src[total] == id\<close>, the test in front of every property.\<close>

definition at_is :: "slice \<Rightarrow> nat \<Rightarrow> byte \<Rightarrow> bool" where
  "at_is s i x \<longleftrightarrow> i < slen s \<and> vis s ! i = x"

lemma sat_app [codec_simps]: "sat (Slice (xs @ x # ys) ex) (length xs) = Some x"
  by (simp add: sat_def slen_def)

lemma sfrom_app [codec_simps]: "sfrom (Slice (xs @ ys) ex) (length xs) = Some (Slice ys ex)"
  by (simp add: sfrom_def slen_def)

lemma at_is_app [codec_simps]:
  "at_is (Slice (xs @ ys) ex) (length xs) x \<longleftrightarrow> (ys \<noteq> [] \<and> hd ys = x)"
  by (cases ys) (auto simp: at_is_def slen_def)

section \<open>Lists and association lists\<close>

text \<open>Index of the first element equal to \<open>x\<close>: the search loops of the program.\<close>

fun find_index :: "'a \<Rightarrow> 'a list \<Rightarrow> nat option" where
  "find_index x [] = None"
| "find_index x (y # ys) = (if y = x then Some 0 else map_option Suc (find_index x ys))"

lemma find_index_None: "find_index x xs = None \<longleftrightarrow> x \<notin> set xs"
  by (induction xs) auto

lemma find_index_notin [simp]: "x \<notin> set xs \<Longrightarrow> find_index x xs = None"
  by (simp add: find_index_None)

lemma find_index_Some: "find_index x xs = Some i \<Longrightarrow> i < length xs \<and> xs ! i = x"
  by (induction xs arbitrary: i) (auto split: if_splits)

lemma find_index_in_set: "find_index x xs = Some i \<Longrightarrow> x \<in> set xs"
  using find_index_Some by (metis nth_mem)

text \<open>\<open>append(xs[:i], xs[i+1:]...)\<close>\<close>

definition remove_at :: "nat \<Rightarrow> 'a list \<Rightarrow> 'a list" where
  "remove_at i xs = take i xs @ drop (Suc i) xs"

lemma remove_at_Cons [simp]:
  "remove_at 0 (x # xs) = xs" "remove_at (Suc i) (x # xs) = x # remove_at i xs"
  by (simp_all add: remove_at_def)

lemma length_remove_at: "i < length xs \<Longrightarrow> length (remove_at i xs) = length xs - 1"
  by (auto simp: remove_at_def)

lemma zip_remove_at:
  "length xs = length ys \<Longrightarrow> zip (remove_at i xs) (remove_at i ys) = remove_at i (zip xs ys)"
  by (simp add: remove_at_def drop_zip take_zip)

lemma zip_list_update: "zip (xs[i := x]) (ys[i := y]) = (zip xs ys)[i := (x, y)]"
  by (rule update_zip [symmetric, where xy = "(x, y)", simplified])

lemma set_remove_at_subset: "set (remove_at i xs) \<subseteq> set xs"
  unfolding remove_at_def by (auto dest: in_set_takeD in_set_dropD)

lemma distinct_remove_at: "distinct xs \<Longrightarrow> distinct (remove_at i xs)"
proof (induction xs arbitrary: i)
  case Nil
  then show ?case by (simp add: remove_at_def)
next
  case (Cons x xs)
  then show ?case using set_remove_at_subset [of _ xs] by (cases i) auto
qed

lemma map_of_update_AList: "map_of (AList.update k v xs) = (map_of xs)(k \<mapsto> v)"
  by (rule update_conv')

lemma map_of_delete_AList: "map_of (AList.delete k xs) = (map_of xs)(k := None)"
  by (rule delete_conv')

lemma distinct_keys_update: "distinct (map fst xs) \<Longrightarrow> distinct (map fst (AList.update k v xs))"
  by (rule distinct_update)

lemma distinct_keys_delete: "distinct (map fst xs) \<Longrightarrow> distinct (map fst (AList.delete k xs))"
  by (rule distinct_delete)

lemma set_AList_update:
  "distinct (map fst xs) \<Longrightarrow> set (AList.update k v xs) = {(a, b) \<in> set xs. a \<noteq> k} \<union> {(k, v)}"
  by (induction xs) (auto simp: image_iff)

lemma set_AList_delete: "set (AList.delete k xs) = {(a, b) \<in> set xs. a \<noteq> k}"
  by (induction xs) auto

lemma AList_delete_notin: "k \<notin> fst ` set xs \<Longrightarrow> AList.delete k xs = xs"
  by (induction xs) auto

lemma AList_delete_zip_notin: "k \<notin> set xs \<Longrightarrow> AList.delete k (zip xs ys) = zip xs ys"
  by (rule AList_delete_notin) (auto dest: set_zip_leftD)

lemma AList_delete_update_same: "AList.delete k (AList.update k v xs) = AList.delete k xs"
  by (induction xs) auto

text \<open>Collecting over an association list in which only one key contributes.\<close>

lemma concat_one_key:
  "distinct (map fst xs) \<Longrightarrow> (\<And>k' n. (k', n) \<in> set xs \<Longrightarrow> k' \<noteq> k \<Longrightarrow> f (k', n) = []) \<Longrightarrow>
     concat (map f xs) = (case map_of xs k of None \<Rightarrow> [] | Some n \<Rightarrow> f (k, n))"
proof (induction xs)
  case Nil
  then show ?case by simp
next
  case (Cons x xs)
  obtain a n where x: "x = (a, n)" by (cases x)
  have none: "map_of xs a = None"
    using Cons.prems(1) by (auto simp: x map_of_eq_None_iff)
  have "concat (map f xs) = (case map_of xs k of None \<Rightarrow> [] | Some n \<Rightarrow> f (k, n))"
    using Cons by simp
  moreover have "f (a, n) = []" if "a \<noteq> k" using Cons.prems(2) that by (simp add: x)
  ultimately show ?case using none by (auto simp: x)
qed

lemma sum_one_key:
  "distinct (map fst xs) \<Longrightarrow>
     sum_list (map (\<lambda>(k, n). if l = k then f n else {#}) xs) = (case map_of xs l of None \<Rightarrow> {#} | Some n \<Rightarrow> f n)"
proof (induction xs)
  case Nil
  then show ?case by simp
next
  case (Cons x xs)
  obtain a n where x: "x = (a, n)" by (cases x)
  have none: "map_of xs a = None" using Cons.prems by (auto simp: x map_of_eq_None_iff)
  show ?case using Cons none by (cases "l = a") (auto simp: x)
qed

text \<open>The part of a tree's listing that lies under one child.\<close>

lemma filter_kids:
  assumes "distinct (map fst kids)"
  shows "filter (\<lambda>e. fst e = k # p) (concat (map (\<lambda>(k, n). map (\<lambda>(q, x). (k # q, x)) (f n)) kids)) =
     (case map_of kids k of None \<Rightarrow> []
      | Some n \<Rightarrow> map (\<lambda>(q, x). (k # q, x)) (filter (\<lambda>e. fst e = p) (f n)))"
proof -
  have one: "filter (\<lambda>e. fst e = k # p) (map (\<lambda>(q, x). (k' # q, x)) (f n)) =
      (if k' = k then map (\<lambda>(q, x). (k # q, x)) (filter (\<lambda>e. fst e = p) (f n)) else [])" for k' n
    by (auto simp: filter_map o_def split_def)
  have "filter (\<lambda>e. fst e = k # p) (concat (map (\<lambda>(k, n). map (\<lambda>(q, x). (k # q, x)) (f n)) kids)) =
      concat (map (\<lambda>(k', n). if k' = k then map (\<lambda>(q, x). (k # q, x)) (filter (\<lambda>e. fst e = p) (f n)) else []) kids)"
    by (simp add: filter_concat o_def split_def one [unfolded split_def] cong: if_cong)
  also have "\<dots> = (case map_of kids k of None \<Rightarrow> []
      | Some n \<Rightarrow> map (\<lambda>(q, x). (k # q, x)) (filter (\<lambda>e. fst e = p) (f n)))"
    using assms by (subst concat_one_key [where k = k]) (auto split: option.splits)
  finally show ?thesis .
qed

lemma filter_kids_Nil:
  "filter (\<lambda>e. fst e = []) (concat (map (\<lambda>(k, n). map (\<lambda>(q, x). (k # q, x)) (f n)) kids)) = []"
  by (auto simp: filter_empty_conv)

text \<open>What the entries of a listing contribute, whatever their order.\<close>

definition gather :: "('e \<Rightarrow> 'b list) \<Rightarrow> ('p \<times> 'e) list \<Rightarrow> 'b multiset" where
  "gather g es = mset (concat (map (\<lambda>e. g (snd e)) es))"

lemma gather_simps [simp]:
  "gather g [] = {#}" "gather g (e # es) = mset (g (snd e)) + gather g es"
  "gather g (xs @ ys) = gather g xs + gather g ys"
  by (simp_all add: gather_def)

lemma gather_or:
  "(\<And>e. e \<in> set xs \<Longrightarrow> \<not> (P e \<and> Q e)) \<Longrightarrow>
     gather g (filter (\<lambda>e. P e \<or> Q e) xs) = gather g (filter P xs) + gather g (filter Q xs)"
  by (induction xs) auto

lemma gather_map_snd: "gather g (map (\<lambda>(q, x). (h q, x)) es) = gather g es"
  by (simp add: gather_def o_def split_def)

lemma gather_under:
  "gather g (filter (\<lambda>e. M (fst e)) (map (\<lambda>(q, x). (k # q, x)) es)) = gather g (filter (\<lambda>e. M (k # fst e)) es)"
  by (induction es) auto

lemma gather_kids:
  "gather g (filter (\<lambda>e. M (fst e)) (concat (map (\<lambda>(k, n). map (\<lambda>(q, x). (k # q, x)) (f n)) kids))) =
     sum_list (map (\<lambda>(k, n). gather g (filter (\<lambda>e. M (k # fst e)) (f n))) kids)"
  by (induction kids) (auto simp: gather_under)

text \<open>
  Draws between two accumulators that carry the state of a random generator: one result per source
  of a multiset was appended, the sources taken in some order.
\<close>

definition drawn :: "('x \<Rightarrow> 'g \<Rightarrow> bool) \<Rightarrow> 'g multiset \<Rightarrow> 'x list \<times> 'r \<Rightarrow> 'x list \<times> 'r \<Rightarrow> bool" where
  "drawn R M acc acc' \<longleftrightarrow> (\<exists>us gs. fst acc' = fst acc @ us \<and> mset gs = M \<and> list_all2 R us gs)"

lemma drawn_refl: "drawn R {#} acc acc"
  by (simp add: drawn_def)

lemma drawn_trans: "drawn R M a b \<Longrightarrow> drawn R N b c \<Longrightarrow> drawn R (M + N) a c"
  unfolding drawn_def by (metis append_assoc list_all2_appendI mset_append)

lemma drawn_one: "R x g \<Longrightarrow> drawn R {#g#} acc (fst acc @ [x], r)"
  unfolding drawn_def by (rule exI [of _ "[x]"], rule exI [of _ "[g]"]) simp

lemmas alist_simps = map_of_update_AList map_of_delete_AList distinct_keys_update distinct_keys_delete

end
