(* ===== verification/TopicLevel.thy ===== *)
theory TopicLevel
  imports Prelude
begin

text \<open>
  Topic names and topic filters: the constants of \<open>corev5/v2/consts/const.go\<close>, the validity
  tests of \<open>corev5/v2/message/message.go\<close>, and \<open>nextTopicLevel\<close>, which the four topic trees
  (\<open>topics/impl\<close>, \<open>topics/sys\<close>, \<open>topics/share\<close>, \<open>topic_map_node\<close>) use to walk a topic. The
  whole walk is \<open>topic_path\<close>: the levels a topic is split into, and whether the walk ended in
  an empty rest (the topic is empty or ends with the separator). The four copies of
  \<open>nextTopicLevel\<close> differ only in the package name at the head of their error texts, which is
  left out here.
\<close>

section \<open>Constants and validity\<close>

definition MWC :: bytes where "MWC = [35]"
definition SWC :: bytes where "SWC = [43]"

definition QosAtMostOnce :: byte where "QosAtMostOnce = 0"
definition QosAtLeastOnce :: byte where "QosAtLeastOnce = 1"
definition QosExactlyOnce :: byte where "QosExactlyOnce = 2"
definition QosFailure :: byte where "QosFailure = 0x80"
definition MaxQosAllowed :: byte where "MaxQosAllowed = QosExactlyOnce"

lemmas qos_defs = QosAtMostOnce_def QosAtLeastOnce_def QosExactlyOnce_def QosFailure_def MaxQosAllowed_def

definition ValidTopic :: "bytes \<Rightarrow> bool" where
  "ValidTopic topic \<longleftrightarrow> length topic > 0 \<and> find_index 35 topic = None \<and> find_index 43 topic = None"

definition ValidQos :: "byte \<Rightarrow> bool" where
  "ValidQos qos \<longleftrightarrow> qos = QosAtMostOnce \<or> qos = QosAtLeastOnce \<or> qos = QosExactlyOnce"

lemma MWC_neq_SWC [simp]: "MWC \<noteq> SWC" "SWC \<noteq> MWC"
  by (simp_all add: MWC_def SWC_def)

section \<open>One level\<close>

datatype topic_state = StateCHR | StateMWC | StateSWC | StateSEP | StateSYS

text \<open>
  The loop of \<open>nextTopicLevel\<close> at index \<open>i\<close> in state \<open>s\<close>; the last argument is what is left to
  scan. The rest of the topic is \<open>None\<close> (nil) where no separator was found.
\<close>

fun ntl_loop :: "bytes \<Rightarrow> nat \<Rightarrow> topic_state \<Rightarrow> bytes \<Rightarrow> goerr + bytes \<times> bytes option" where
  "ntl_loop topic i s [] = Inr (topic, None)"
| "ntl_loop topic i s (c # cs) =
     (if c = 47 then
        (if s = StateMWC then Inl (Errorf ''Multi-level wildcard found in topic and it's not at the last level'')
         else if i = 0 then Inr (SWC, Some (drop (i + 1) topic))
         else Inr (take i topic, Some (drop (i + 1) topic)))
      else if c = 35 then
        (if i \<noteq> 0 then Inl (Errorf ''Wildcard character '#' must occupy entire topic level'')
         else ntl_loop topic (i + 1) StateMWC cs)
      else if c = 43 then
        (if i \<noteq> 0 then Inl (Errorf ''Wildcard character '+' must occupy entire topic level'')
         else ntl_loop topic (i + 1) StateSWC cs)
      else if c = 36 then
        (if i = 0 then Inl (Errorf ''Cannot publish to $ topics'')
         else ntl_loop topic (i + 1) StateSYS cs)
      else
        (if s = StateMWC \<or> s = StateSWC
         then Inl (Errorf ''Wildcard characters '#' and '+' must occupy entire topic level'')
         else ntl_loop topic (i + 1) StateCHR cs))"

definition nextTopicLevel :: "bytes \<Rightarrow> goerr + bytes \<times> bytes option" where
  "nextTopicLevel topic = ntl_loop topic 0 StateCHR topic"

lemma ntl_loop_rest:
  "ntl_loop topic i s cs = Inr (l, Some r) \<Longrightarrow> topic = pre @ cs \<Longrightarrow> length pre = i \<Longrightarrow>
     length r < length topic"
  by (induction topic i s cs arbitrary: pre rule: ntl_loop.induct) (auto split: if_splits)

lemma nextTopicLevel_shorter: "nextTopicLevel topic = Inr (l, Some r) \<Longrightarrow> length r < length topic"
  unfolding nextTopicLevel_def by (rule ntl_loop_rest [where pre = "[]"]) auto

text \<open>A level in which no separator, wildcard or \<open>$\<close> occurs is scanned to its end.\<close>

definition plain :: "bytes \<Rightarrow> bool" where
  "plain l \<longleftrightarrow> l \<noteq> [] \<and> set l \<inter> {47, 35, 43, 36} = {}"

lemma ntl_loop_plain:
  "set cs \<inter> {47, 35, 43, 36} = {} \<Longrightarrow>
     ntl_loop topic i StateCHR (cs @ ds) = ntl_loop topic (i + length cs) StateCHR ds"
  by (induction cs arbitrary: i) auto

lemma nextTopicLevel_last: "plain l \<Longrightarrow> nextTopicLevel l = Inr (l, None)"
  using ntl_loop_plain [of l l 0 "[]"] by (simp add: nextTopicLevel_def plain_def)

lemma nextTopicLevel_plain: "plain l \<Longrightarrow> nextTopicLevel (l @ 47 # r) = Inr (l, Some r)"
  using ntl_loop_plain [of l "l @ 47 # r" 0 "47 # r"]
  by (simp add: nextTopicLevel_def plain_def)

lemma nextTopicLevel_sep: "nextTopicLevel (47 # r) = Inr (SWC, Some r)"
  by (simp add: nextTopicLevel_def)

lemma nextTopicLevel_wild:
  "nextTopicLevel MWC = Inr (MWC, None)" "nextTopicLevel SWC = Inr (SWC, None)"
  "nextTopicLevel (SWC @ 47 # r) = Inr (SWC, Some r)"
  "\<exists>e. nextTopicLevel (MWC @ 47 # r) = Inl e"
  by (simp_all add: nextTopicLevel_def MWC_def SWC_def)

section \<open>The whole walk\<close>

text \<open>
  The levels a topic is walked through, and whether the rest became empty but not nil (an empty
  topic, or a separator at the end). A walk fails where one of its levels is malformed.
\<close>

function topic_path :: "bytes \<Rightarrow> goerr + bytes list \<times> bool" where
  "topic_path topic =
     (if topic = [] then Inr ([], True)
      else case nextTopicLevel topic of
        Inl e \<Rightarrow> Inl e
      | Inr (l, None) \<Rightarrow> Inr ([l], False)
      | Inr (l, Some r) \<Rightarrow>
          (case topic_path r of Inl e \<Rightarrow> Inl e | Inr (ls, tr) \<Rightarrow> Inr (l # ls, tr)))"
  by pat_completeness auto
termination
  by (relation "measure length") (auto dest: nextTopicLevel_shorter)

declare topic_path.simps [simp del]

lemma topic_path_Nil [simp]: "topic_path [] = Inr ([], True)"
  by (simp add: topic_path.simps)

lemma topic_path_step:
  "topic \<noteq> [] \<Longrightarrow> nextTopicLevel topic = Inr (l, rem) \<Longrightarrow>
     topic_path topic =
       (case topic_path (case rem of None \<Rightarrow> [] | Some r \<Rightarrow> r) of
          Inl e \<Rightarrow> Inl e | Inr (ls, tr) \<Rightarrow> Inr (l # ls, tr \<and> rem \<noteq> None))"
  by (subst topic_path.simps) (auto split: option.splits sum.splits)

lemma topic_path_error: "topic \<noteq> [] \<Longrightarrow> nextTopicLevel topic = Inl e \<Longrightarrow> topic_path topic = Inl e"
  by (subst topic_path.simps) simp

text \<open>Joining plain levels with the separator and walking the result gives the levels back.\<close>

fun join_levels :: "bytes list \<Rightarrow> bytes" where
  "join_levels [] = []"
| "join_levels [l] = l"
| "join_levels (l # ls) = l @ 47 # join_levels ls"

lemma topic_path_join:
  "ls \<noteq> [] \<Longrightarrow> \<forall>l\<in>set ls. plain l \<Longrightarrow> topic_path (join_levels ls) = Inr (ls, False)"
proof (induction ls rule: join_levels.induct)
  case 1
  then show ?case by simp
next
  case (2 l)
  then show ?case
    by (subst topic_path.simps) (auto simp: nextTopicLevel_last plain_def)
next
  case (3 l k ls)
  then show ?case
    by (subst topic_path.simps) (auto simp: nextTopicLevel_plain)
qed

end
