(* ===== verification/SubStore.thy ===== *)
theory SubStore
  imports TopicLevel
begin

text \<open>
  The contract the three subscription trees share, whatever they keep at a node: subscribing a
  client under a topic filter updates the client's entry at the filter's path and nothing else,
  unsubscribing deletes it and nothing else, and a call that fails changes no entry. What follows
  from the contract alone is proved here once: after any sequence of calls, failing ones included,
  the tree holds for every path and client what the last effective call left there.
\<close>

section \<open>The specification\<close>

datatype ('k, 'u, 'v) sub_op = Subscribe_op 'k 'u 'v | Unsubscribe_op 'k 'u

text \<open>One call on the abstract store, a map from path and client to the stored options.\<close>

definition spec_op :: "('k \<Rightarrow> 'p option) \<Rightarrow> ('k, 'u, 'v) sub_op \<Rightarrow> ('p \<times> 'u \<Rightarrow> 'v option) \<Rightarrow>
    ('p \<times> 'u \<Rightarrow> 'v option)" where
  "spec_op path c m =
     (case c of
        Subscribe_op k u v \<Rightarrow> (case path k of None \<Rightarrow> m | Some p \<Rightarrow> m((p, u) \<mapsto> v))
      | Unsubscribe_op k u \<Rightarrow> (case path k of None \<Rightarrow> m | Some p \<Rightarrow> m((p, u) := None)))"

definition path_of :: "bytes \<Rightarrow> bytes list option" where
  "path_of topic = (case topic_path topic of Inl e \<Rightarrow> None | Inr (p, tr) \<Rightarrow> Some p)"

lemma path_of_simps:
  "path_of topic = None \<longleftrightarrow> (\<exists>e. topic_path topic = Inl e)"
  "path_of topic = Some p \<longleftrightarrow> (\<exists>tr. topic_path topic = Inr (p, tr))"
  by (auto simp: path_of_def split: sum.splits)

section \<open>The contract\<close>

locale sub_store =
  fixes path :: "'k \<Rightarrow> 'p option"
    and ins :: "'k \<Rightarrow> 'u \<Rightarrow> 'v \<Rightarrow> 't \<Rightarrow> 't \<times> goerr option"
    and del :: "'k \<Rightarrow> 'u \<Rightarrow> 't \<Rightarrow> 't \<times> goerr option"
    and at :: "'t \<Rightarrow> 'p \<Rightarrow> ('u \<times> 'v) list"
    and ok :: "'t \<Rightarrow> bool"
  assumes ins_ok: "ok t \<Longrightarrow> path k = Some p \<Longrightarrow>
      ok (fst (ins k u v t)) \<and> snd (ins k u v t) = None \<and>
      at (fst (ins k u v t)) = (at t)(p := AList.update u v (at t p))"
    and ins_err: "ok t \<Longrightarrow> path k = None \<Longrightarrow>
      ok (fst (ins k u v t)) \<and> snd (ins k u v t) \<noteq> None \<and> at (fst (ins k u v t)) = at t"
    and del_ok: "ok t \<Longrightarrow> path k = Some p \<Longrightarrow> u \<in> fst ` set (at t p) \<Longrightarrow>
      ok (fst (del k u t)) \<and> snd (del k u t) = None \<and>
      at (fst (del k u t)) = (at t)(p := AList.delete u (at t p))"
    and del_absent: "ok t \<Longrightarrow> path k = Some p \<Longrightarrow> u \<notin> fst ` set (at t p) \<Longrightarrow>
      ok (fst (del k u t)) \<and> snd (del k u t) \<noteq> None \<and> at (fst (del k u t)) = at t"
    and del_err: "ok t \<Longrightarrow> path k = None \<Longrightarrow>
      ok (fst (del k u t)) \<and> snd (del k u t) \<noteq> None \<and> at (fst (del k u t)) = at t"
begin

definition exec :: "('k, 'u, 'v) sub_op \<Rightarrow> 't \<Rightarrow> 't" where
  "exec c t = (case c of Subscribe_op k u v \<Rightarrow> fst (ins k u v t) | Unsubscribe_op k u \<Rightarrow> fst (del k u t))"

definition view :: "'t \<Rightarrow> 'p \<times> 'u \<Rightarrow> 'v option" where
  "view t pu = map_of (at t (fst pu)) (snd pu)"

lemma exec_refines:
  assumes "ok t"
  shows "ok (exec c t) \<and> view (exec c t) = spec_op path c (view t)"
proof (cases c)
  case (Subscribe_op k u v)
  show ?thesis
  proof (cases "path k")
    case None
    then show ?thesis
      using ins_err [OF assms None, of u v] by (simp add: Subscribe_op exec_def view_def spec_op_def fun_eq_iff)
  next
    case (Some p)
    then show ?thesis
      using ins_ok [OF assms Some, of u v]
      by (auto simp: Subscribe_op exec_def view_def spec_op_def fun_eq_iff map_of_update_AList)
  qed
next
  case (Unsubscribe_op k u)
  show ?thesis
  proof (cases "path k")
    case None
    then show ?thesis
      using del_err [OF assms None, of u] by (simp add: Unsubscribe_op exec_def view_def spec_op_def fun_eq_iff)
  next
    case (Some p)
    show ?thesis
    proof (cases "u \<in> fst ` set (at t p)")
      case True
      then show ?thesis
        using del_ok [OF assms Some True] Some
        by (auto simp: Unsubscribe_op exec_def view_def spec_op_def fun_eq_iff map_of_delete_AList)
    next
      case False
      then have "map_of (at t p) u = None" by (simp add: map_of_eq_None_iff)
      then show ?thesis
        using del_absent [OF assms Some False] Some
        by (auto simp: Unsubscribe_op exec_def view_def spec_op_def fun_eq_iff)
    qed
  qed
qed

lemma history:
  "ok t \<Longrightarrow> ok (fold exec cs t) \<and> view (fold exec cs t) = fold (spec_op path) cs (view t)"
  by (induction cs arbitrary: t) (simp_all add: exec_refines)

text \<open>One call, entry by entry.\<close>

lemma ins_spec:
  assumes "ok t"
  shows "ok (fst (ins k u v t)) \<and> (snd (ins k u v t) = None \<longleftrightarrow> path k \<noteq> None) \<and>
    map_of (at (fst (ins k u v t)) p') u' =
      (if path k = Some p' \<and> u' = u then Some v else map_of (at t p') u')"
proof (cases "path k")
  case None
  then show ?thesis using ins_err [OF assms None, of u v] by simp
next
  case (Some p)
  then show ?thesis using ins_ok [OF assms Some, of u v] by (simp add: map_of_update_AList)
qed

lemma del_spec:
  assumes "ok t"
  shows "ok (fst (del k u t)) \<and>
    (snd (del k u t) = None \<longleftrightarrow> (\<exists>p. path k = Some p \<and> map_of (at t p) u \<noteq> None)) \<and>
    map_of (at (fst (del k u t)) p') u' =
      (if path k = Some p' \<and> u' = u then None else map_of (at t p') u')"
proof (cases "path k")
  case None
  then show ?thesis using del_err [OF assms None, of u] by simp
next
  case (Some p)
  show ?thesis
  proof (cases "u \<in> fst ` set (at t p)")
    case True
    then show ?thesis
      using del_ok [OF assms Some True] Some by (simp add: map_of_delete_AList map_of_eq_None_iff)
  next
    case False
    then have n: "map_of (at t p) u = None" by (simp add: map_of_eq_None_iff)
    then show ?thesis using del_absent [OF assms Some False] Some by auto
  qed
qed

lemma ins_del:
  assumes "ok t" "path k = Some p" "u \<notin> fst ` set (at t p)"
  shows "snd (del k u (fst (ins k u v t))) = None \<and> at (fst (del k u (fst (ins k u v t)))) = at t"
proof -
  have i: "ok (fst (ins k u v t))" "at (fst (ins k u v t)) = (at t)(p := AList.update u v (at t p))"
    using ins_ok [OF assms(1,2)] by auto
  have "u \<in> fst ` set (at (fst (ins k u v t)) p)"
    using i(2) by (simp add: dom_update)
  moreover have "AList.delete u (AList.update u v (at t p)) = at t p"
    using assms(3) by (simp add: AList_delete_update_same AList_delete_notin)
  ultimately show ?thesis
    using del_ok [OF i(1) assms(2)] i(2) by (simp add: fun_eq_iff)
qed

end

end
