(* ===== verification/SubTree.thy ===== *)
theory SubTree
  imports SubStore
begin

text \<open>
  The subscription tree of \<open>corev5/v2/topics/impl/memtopics.go\<close> (\<open>snode\<close>): insertion, removal
  and matching of subscribers. A node keeps the parallel slices \<open>subs\<close> and \<open>qos\<close> of the source
  and its children by level. Subscribers are the pointers \<open>*OnPublishFunc\<close>, which \<open>equal\<close>
  compares by identity, so they are a type \<open>'u\<close> with equality.
\<close>

section \<open>State\<close>

record sub =
  subTopic :: bytes
  subQos :: byte
  subNoLocal :: bool
  subRetainAsPublished :: bool
  subRetainHandling :: byte
  subSubIdentifier :: u32

datatype 'u snode = SNode (sn_subs: "'u list") (sn_qos: "sub list") (sn_kids: "(bytes \<times> 'u snode) list")

definition newSNode :: "'u snode" where "newSNode = SNode [] [] []"

section \<open>Operations\<close>

function sinsert :: "sub \<Rightarrow> 'u \<Rightarrow> 'u snode \<Rightarrow> 'u snode \<times> goerr option" where
  "sinsert subs u (SNode us qs kids) =
     (if subTopic subs = [] then
        (case find_index u us of
           Some i \<Rightarrow> (SNode us (qs[i := subs]) kids, None)
         | None \<Rightarrow> (SNode (us @ [u]) (qs @ [subs]) kids, None))
      else case nextTopicLevel (subTopic subs) of
        Inl e \<Rightarrow> (SNode us qs kids, Some e)
      | Inr (level, rem) \<Rightarrow>
          (let n = (case map_of kids level of Some n \<Rightarrow> n | None \<Rightarrow> newSNode);
               r = sinsert (subs\<lparr>subTopic := (case rem of None \<Rightarrow> [] | Some r \<Rightarrow> r)\<rparr>) u n
           in (SNode us qs (AList.update level (fst r) kids), snd r)))"
  by pat_completeness auto
termination
  by (relation "measure (\<lambda>(s, u, t). length (subTopic s))")
     (auto dest: nextTopicLevel_shorter split: option.splits)

text \<open>
  Removal of one subscriber, or of all of them where the subscriber is nil. The child is changed
  in place even where it is not deleted from the map.
\<close>

function sremove :: "bytes \<Rightarrow> 'u option \<Rightarrow> 'u snode \<Rightarrow> 'u snode \<times> goerr option" where
  "sremove topic sub (SNode us qs kids) =
     (if topic = [] then
        (case sub of
           None \<Rightarrow> (SNode [] [] kids, None)
         | Some u \<Rightarrow>
             (case find_index u us of
                Some i \<Rightarrow> (SNode (remove_at i us) (remove_at i qs) kids, None)
              | None \<Rightarrow> (SNode us qs kids, Some (Errorf ''memtopics/remove: No topic found for subscriber''))))
      else case nextTopicLevel topic of
        Inl e \<Rightarrow> (SNode us qs kids, Some e)
      | Inr (level, rem) \<Rightarrow>
          (case map_of kids level of
             None \<Rightarrow> (SNode us qs kids, Some (Errorf ''memtopics/remove: No topic found''))
           | Some n \<Rightarrow>
               (case sremove (case rem of None \<Rightarrow> [] | Some r \<Rightarrow> r) sub n of
                  (n', Some e) \<Rightarrow> (SNode us qs (AList.update level n' kids), Some e)
                | (n', None) \<Rightarrow>
                    (if sn_subs n' = [] \<and> sn_kids n' = []
                     then (SNode us qs (AList.delete level kids), None)
                     else (SNode us qs (AList.update level n' kids), None)))))"
  by pat_completeness auto
termination
  by (relation "measure (\<lambda>(topic, u, t). length topic)")
     (auto dest: nextTopicLevel_shorter split: option.splits)

declare sinsert.simps [simp del] sremove.simps [simp del]

text \<open>The subscribers of a node with the smaller of the two QoS levels.\<close>

definition grant :: "byte \<Rightarrow> sub \<Rightarrow> sub" where
  "grant qos s = (if qos \<le> subQos s then s\<lparr>subQos := qos\<rparr> else s)"

type_synonym 'u acc = "'u list \<times> sub list"

definition matchQos :: "byte \<Rightarrow> 'u snode \<Rightarrow> 'u acc \<Rightarrow> 'u acc" where
  "matchQos qos t acc =
     (fst acc @ sn_subs t,
      snd acc @ map (\<lambda>i. grant qos (sn_qos t ! i)) [0..<length (sn_subs t)])"

definition matchChild :: "bytes \<Rightarrow> byte \<Rightarrow> 'u snode \<Rightarrow> 'u acc \<Rightarrow> 'u acc" where
  "matchChild k qos t acc =
     (case map_of (sn_kids t) k of Some v \<Rightarrow> matchQos qos v acc | None \<Rightarrow> acc)"

fun smatch :: "bytes \<Rightarrow> byte \<Rightarrow> 'u snode \<Rightarrow> 'u acc \<Rightarrow> 'u acc \<times> goerr option"
  and smatch_kids :: "bytes \<Rightarrow> bytes option \<Rightarrow> byte \<Rightarrow> (bytes \<times> 'u snode) list \<Rightarrow> 'u acc \<Rightarrow>
      'u acc \<times> goerr option" where
  "smatch topic qos (SNode us qs kids) acc =
     (if topic = [] then
        (matchChild SWC qos (SNode us qs kids)
          (matchChild MWC qos (SNode us qs kids)
            (matchQos qos (SNode us qs kids) acc)), None)
      else case nextTopicLevel topic of
        Inl e \<Rightarrow> (acc, Some e)
      | Inr (level, rem) \<Rightarrow> smatch_kids level rem qos kids acc)"
| "smatch_kids level rem qos [] acc = (acc, None)"
| "smatch_kids level rem qos ((k, n) # ks) acc =
     (if k = MWC then smatch_kids level rem qos ks (matchQos qos n acc)
      else if k = SWC \<or> k = level then
        (case rem of
           Some r \<Rightarrow>
             (case smatch r qos n acc of
                (acc', Some e) \<Rightarrow> (acc', Some e)
              | (acc', None) \<Rightarrow> smatch_kids level rem qos ks acc')
         | None \<Rightarrow> smatch_kids level rem qos ks (matchChild MWC qos n (matchQos qos n acc)))
      else smatch_kids level rem qos ks acc)"

section \<open>Well-formedness\<close>

text \<open>
  The parallel slices have one length, no subscriber is listed twice at a node, and no child is
  listed twice.
\<close>

fun wf_snode :: "'u snode \<Rightarrow> bool" where
  "wf_snode (SNode us qs kids) \<longleftrightarrow>
     length us = length qs \<and> distinct us \<and> distinct (map fst kids) \<and> list_all (\<lambda>(k, n). wf_snode n) kids"

text \<open>No child is a leaf without subscribers.\<close>

fun pruned :: "'u snode \<Rightarrow> bool" where
  "pruned (SNode us qs kids) \<longleftrightarrow>
     list_all (\<lambda>(k, n). (sn_subs n \<noteq> [] \<or> sn_kids n \<noteq> []) \<and> pruned n) kids"

text \<open>The subscriptions stored under a path of levels, and all of them with their paths.\<close>

fun subs_at :: "'u snode \<Rightarrow> bytes list \<Rightarrow> ('u \<times> sub) list" where
  "subs_at (SNode us qs kids) [] = zip us qs"
| "subs_at (SNode us qs kids) (k # p) =
     (case map_of kids k of None \<Rightarrow> [] | Some n \<Rightarrow> subs_at n p)"

fun entries :: "'u snode \<Rightarrow> (bytes list \<times> 'u \<times> sub) list" where
  "entries (SNode us qs kids) =
     map (\<lambda>x. ([], x)) (zip us qs)
     @ concat (map (\<lambda>(k, n). map (\<lambda>(p, x). (k # p, x)) (entries n)) kids)"

lemma wf_newSNode [simp]: "wf_snode newSNode" and pruned_newSNode [simp]: "pruned newSNode"
  and subs_at_newSNode [simp]: "subs_at newSNode p = []"
  by (simp_all add: newSNode_def) (cases p; simp)

lemma wf_kidD: "wf_snode (SNode us qs kids) \<Longrightarrow> map_of kids k = Some n \<Longrightarrow> wf_snode n"
  by (auto simp: list_all_iff dest: map_of_SomeD)

lemma pruned_kidD:
  "pruned (SNode us qs kids) \<Longrightarrow> map_of kids k = Some n \<Longrightarrow> pruned n"
  by (auto simp: list_all_iff dest: map_of_SomeD)

lemma list_all_AList_update:
  "distinct (map fst xs) \<Longrightarrow> list_all P xs \<Longrightarrow> P (k, v) \<Longrightarrow> list_all P (AList.update k v xs)"
  by (auto simp: list_all_iff set_AList_update)

lemma list_all_AList_delete: "list_all P xs \<Longrightarrow> list_all P (AList.delete k xs)"
  by (auto simp: list_all_iff set_AList_delete)

lemmas tree_alist = alist_simps list_all_AList_update list_all_AList_delete

lemma update_zip_find:
  "length us = length qs \<Longrightarrow>
     AList.update u s (zip us qs) =
       (case find_index u us of Some i \<Rightarrow> zip us (qs[i := s]) | None \<Rightarrow> zip (us @ [u]) (qs @ [s]))"
  by (induction us qs rule: list_induct2) (auto split: option.splits dest: find_index_Some)

lemma delete_zip_find:
  "length us = length qs \<Longrightarrow> distinct us \<Longrightarrow> find_index u us = Some i \<Longrightarrow>
     zip (remove_at i us) (remove_at i qs) = AList.delete u (zip us qs)"
proof (induction us qs arbitrary: i rule: list_induct2)
  case Nil
  then show ?case by simp
next
  case (Cons x xs y ys)
  show ?case
    using Cons by (cases "x = u") (auto simp: AList_delete_zip_notin)
qed

section \<open>Insertion\<close>

lemma sinsert_topic:
  "sinsert s u (SNode us qs kids) = (SNode us qs kids, Some e)"
  if "subTopic s \<noteq> []" "nextTopicLevel (subTopic s) = Inl e"
  using that by (subst sinsert.simps) simp

lemma sinsert_Nil:
  "subTopic s = [] \<Longrightarrow> sinsert s u (SNode us qs kids) =
     (case find_index u us of
        Some i \<Rightarrow> (SNode us (qs[i := s]) kids, None)
      | None \<Rightarrow> (SNode (us @ [u]) (qs @ [s]) kids, None))"
  by (subst sinsert.simps) simp

lemma sinsert_here:
  "subTopic s = [] \<Longrightarrow> length us = length qs \<Longrightarrow> sinsert s u (SNode us qs kids) = (SNode us' qs' kids', r) \<Longrightarrow>
     r = None \<and> kids' = kids \<and> length us' = length qs' \<and> zip us' qs' = AList.update u s (zip us qs)"
  by (auto simp: sinsert_Nil update_zip_find split: option.splits dest: find_index_in_set)

lemma sinsert_distinct:
  "subTopic s = [] \<Longrightarrow> distinct us \<Longrightarrow> distinct (sn_subs (fst (sinsert s u (SNode us qs kids))))"
  by (simp add: sinsert_Nil find_index_None split: option.splits)

lemma subs_at_node:
  "subs_at (SNode us qs kids) p =
     (case p of [] \<Rightarrow> zip us qs | k # p' \<Rightarrow> (case map_of kids k of None \<Rightarrow> [] | Some n \<Rightarrow> subs_at n p'))"
  by (cases p) simp_all

lemma sinsert_correct:
  "wf_snode t \<Longrightarrow>
     wf_snode (fst (sinsert s u t)) \<and>
     (case topic_path (subTopic s) of
        Inl e \<Rightarrow> snd (sinsert s u t) = Some e \<and> subs_at (fst (sinsert s u t)) = subs_at t
      | Inr (p, tr) \<Rightarrow> snd (sinsert s u t) = None \<and>
          subs_at (fst (sinsert s u t)) = (subs_at t)(p := AList.update u (s\<lparr>subTopic := []\<rparr>) (subs_at t p)))"
proof (induction s u t rule: sinsert.induct)
  case (1 s u us qs kids)
  show ?case
  proof (cases "subTopic s = []")
    case True
    have s: "s\<lparr>subTopic := []\<rparr> = s" using True by (cases s) simp
    obtain us' qs' kids' r where x: "sinsert s u (SNode us qs kids) = (SNode us' qs' kids', r)"
      by (metis snode.exhaust surj_pair)
    show ?thesis
      using sinsert_here [OF True _ x] sinsert_distinct [OF True, of us u qs kids] 1(2) True
      by (auto simp: x s fun_eq_iff subs_at_node split: list.splits)
  next
    case False
    show ?thesis
    proof (cases "nextTopicLevel (subTopic s)")
      case (Inl e)
      then show ?thesis
        using 1(2) by (simp add: sinsert_topic [OF False] topic_path_error [OF False])
    next
      case (Inr lr)
      obtain l rem where lr: "lr = (l, rem)" by (cases lr)
      define n where "n = (case map_of kids l of Some n \<Rightarrow> n | None \<Rightarrow> newSNode)"
      define s' where "s' = s\<lparr>subTopic := (case rem of None \<Rightarrow> [] | Some r \<Rightarrow> r)\<rparr>"
      have wfn: "wf_snode n"
        using wf_kidD [OF 1(2)] by (simp add: n_def split: option.splits)
      have here: "sinsert s u (SNode us qs kids) =
          (SNode us qs (AList.update l (fst (sinsert s' u n)) kids), snd (sinsert s' u n))"
        using False Inr by (subst sinsert.simps) (simp add: lr n_def s'_def Let_def)
      have at_n: "subs_at n q = subs_at (SNode us qs kids) (l # q)" for q
        by (simp add: n_def split: option.splits)
      have s2: "s'\<lparr>subTopic := []\<rparr> = s\<lparr>subTopic := []\<rparr>" by (simp add: s'_def)
      have IH: "wf_snode (fst (sinsert s' u n)) \<and>
        (case topic_path (subTopic s') of
          Inl e \<Rightarrow> snd (sinsert s' u n) = Some e \<and> subs_at (fst (sinsert s' u n)) = subs_at n
        | Inr (p, tr) \<Rightarrow> snd (sinsert s' u n) = None \<and>
          subs_at (fst (sinsert s' u n)) = (subs_at n)(p := AList.update u (s\<lparr>subTopic := []\<rparr>) (subs_at n p)))"
        by (rule 1(1) [OF False Inr lr [symmetric] n_def wfn, folded s'_def, unfolded s2])
      have tp: "topic_path (subTopic s) =
          (case topic_path (subTopic s') of Inl e \<Rightarrow> Inl e | Inr (ls, tr) \<Rightarrow> Inr (l # ls, tr \<and> rem \<noteq> None))"
        using topic_path_step [OF False, of l rem] Inr lr by (simp add: s'_def)
      have "wf_snode (fst (sinsert s u (SNode us qs kids)))"
        using 1(2) IH by (simp add: here alist_simps tree_alist)
      then show ?thesis
        using IH at_n
        by (auto simp: here tp fun_eq_iff subs_at_node map_of_update_AList split: sum.splits list.splits)
    qed
  qed
qed

section \<open>Removal\<close>

lemma sremove_Nil:
  "sremove [] (Some u) (SNode us qs kids) =
     (case find_index u us of
        Some i \<Rightarrow> (SNode (remove_at i us) (remove_at i qs) kids, None)
      | None \<Rightarrow> (SNode us qs kids, Some (Errorf ''memtopics/remove: No topic found for subscriber'')))"
  by (subst sremove.simps) simp

lemma sremove_step:
  "topic \<noteq> [] \<Longrightarrow> nextTopicLevel topic = Inr (l, rem) \<Longrightarrow> map_of kids l = Some n \<Longrightarrow>
     sremove topic su (SNode us qs kids) =
       (case sremove (case rem of None \<Rightarrow> [] | Some r \<Rightarrow> r) su n of
          (n', Some e) \<Rightarrow> (SNode us qs (AList.update l n' kids), Some e)
        | (n', None) \<Rightarrow>
            (if sn_subs n' = [] \<and> sn_kids n' = []
             then (SNode us qs (AList.delete l kids), None)
             else (SNode us qs (AList.update l n' kids), None)))"
  by (subst sremove.simps) simp

lemma sremove_fails:
  "topic \<noteq> [] \<Longrightarrow> nextTopicLevel topic = Inl e \<Longrightarrow>
     sremove topic su (SNode us qs kids) = (SNode us qs kids, Some e)"
  "topic \<noteq> [] \<Longrightarrow> nextTopicLevel topic = Inr (l, rem) \<Longrightarrow> map_of kids l = None \<Longrightarrow>
     sremove topic su (SNode us qs kids) = (SNode us qs kids, Some (Errorf ''memtopics/remove: No topic found''))"
  by (subst sremove.simps, simp)+

lemma subs_at_leaf:
  "sn_subs n = [] \<Longrightarrow> sn_kids n = [] \<Longrightarrow> subs_at n p = []"
  by (cases n; cases p) auto

lemma wf_subs_at_length: "wf_snode (SNode us qs kids) \<Longrightarrow> length us = length qs"
  by simp

definition removed :: "bytes \<Rightarrow> 'u \<Rightarrow> 'u snode \<Rightarrow> 'u snode \<Rightarrow> goerr option \<Rightarrow> bool" where
  "removed topic u t t' r \<longleftrightarrow>
     wf_snode t' \<and> (pruned t \<longrightarrow> pruned t') \<and>
     (case topic_path topic of
        Inl e \<Rightarrow> r \<noteq> None \<and> t' = t
      | Inr (p, tr) \<Rightarrow>
          (if u \<in> fst ` set (subs_at t p)
           then r = None \<and> subs_at t' = (subs_at t)(p := AList.delete u (subs_at t p))
           else r \<noteq> None \<and> t' = t))"

lemma removed_here:
  assumes "wf_snode (SNode us qs kids)"
  shows "removed [] u (SNode us qs kids) (fst (sremove [] (Some u) (SNode us qs kids)))
           (snd (sremove [] (Some u) (SNode us qs kids)))"
proof (cases "find_index u us")
  case None
  then show ?thesis
    using assms by (auto simp: removed_def sremove_Nil find_index_None dest: set_zip_leftD)
next
  case (Some i)
  have u: "u \<in> fst ` set (zip us qs)"
    using find_index_in_set [OF Some] assms by (metis map_fst_zip set_map wf_subs_at_length)
  have i: "i < length us" using find_index_Some [OF Some] by simp
  show ?thesis
    using assms u i delete_zip_find [of us qs u i] Some
    by (auto simp: removed_def sremove_Nil fun_eq_iff subs_at_node length_remove_at distinct_remove_at
        split: list.splits)
qed

lemma removed_step:
  assumes wf: "wf_snode (SNode us qs kids)" and ne: "topic \<noteq> []"
    and l: "nextTopicLevel topic = Inr (l, rem)" and n: "map_of kids l = Some n"
    and IH: "removed (case rem of None \<Rightarrow> [] | Some r \<Rightarrow> r) u n n' r"
    and sr: "sremove (case rem of None \<Rightarrow> [] | Some r \<Rightarrow> r) (Some u) n = (n', r)"
  shows "removed topic u (SNode us qs kids) (fst (sremove topic (Some u) (SNode us qs kids)))
           (snd (sremove topic (Some u) (SNode us qs kids)))"
proof -
  define topic' where "topic' = (case rem of None \<Rightarrow> [] | Some r \<Rightarrow> r)"
  define kids' where "kids' =
     (if r = None \<and> sn_subs n' = [] \<and> sn_kids n' = [] then AList.delete l kids else AList.update l n' kids)"
  have eq: "sremove topic (Some u) (SNode us qs kids) = (SNode us qs kids', r)"
    by (simp add: sremove_step [OF ne l n] sr kids'_def split: option.splits)
  have tp: "topic_path topic =
      (case topic_path topic' of Inl e \<Rightarrow> Inl e | Inr (ls, tr) \<Rightarrow> Inr (l # ls, tr \<and> rem \<noteq> None))"
    using topic_path_step [OF ne l] by (simp add: topic'_def)
  have at': "subs_at (SNode us qs kids') p =
      (case p of [] \<Rightarrow> zip us qs | k # q \<Rightarrow> if k = l then subs_at n' q else subs_at (SNode us qs kids) p)" for p
    by (auto simp: subs_at_node kids'_def map_of_update_AList map_of_delete_AList subs_at_leaf split: list.splits)
  have w: "wf_snode (SNode us qs kids')"
    using wf IH by (auto simp: removed_def kids'_def alist_simps tree_alist)
  have same: "kids' = kids" if "r \<noteq> None"
  proof -
    have "n' = n" using IH that by (auto simp: removed_def split: sum.splits if_splits)
    then show ?thesis using that n by (auto simp: kids'_def update_triv)
  qed
  have pr: "pruned (SNode us qs kids')" if "pruned (SNode us qs kids)"
  proof (cases "r = None")
    case True
    then show ?thesis
      using that IH wf pruned_kidD [OF that n] by (auto simp: removed_def kids'_def tree_alist)
  qed (use that same in simp)
  show ?thesis
  proof (cases "topic_path topic'")
    case (Inl e)
    then show ?thesis
      using IH w pr same by (simp add: removed_def eq tp topic'_def [symmetric])
  next
    case (Inr ls)
    obtain p tr where ls: "ls = (p, tr)" by (cases ls)
    have "subs_at (SNode us qs kids) (l # p) = subs_at n p" by (simp add: n)
    then show ?thesis
      using IH w pr same Inr n at'
      by (auto simp: removed_def eq tp ls topic'_def [symmetric] fun_eq_iff subs_at_node
          split: list.splits if_splits)
  qed
qed

lemma sremove_correct:
  "wf_snode t \<Longrightarrow> removed topic u t (fst (sremove topic (Some u) t)) (snd (sremove topic (Some u) t))"
proof (induction topic "Some u" t rule: sremove.induct)
  case (1 topic us qs kids)
  show ?case
  proof (cases "topic = []")
    case True
    then show ?thesis using removed_here 1(2) by simp
  next
    case ne: False
    show ?thesis
    proof (cases "nextTopicLevel topic")
      case (Inl e)
      then show ?thesis
        using 1(2) ne by (simp add: removed_def sremove_fails topic_path_error)
    next
      case (Inr lr)
      obtain l rem where lr: "nextTopicLevel topic = Inr (l, rem)" using Inr by (cases lr) simp
      show ?thesis
      proof (cases "map_of kids l")
        case None
        then show ?thesis
          using 1(2) topic_path_step [OF ne lr]
          by (auto simp: removed_def sremove_fails(2) [OF ne lr None] split: sum.splits)
      next
        case (Some n)
        show ?thesis
          by (rule removed_step [OF 1(2) ne lr Some 1(1) [OF ne lr refl Some wf_kidD [OF 1(2) Some]]]) simp
      qed
    qed
  qed
qed

lemma sremove_hit:
  assumes "wf_snode t" "topic_path topic = Inr (p, tr)" "u \<in> fst ` set (subs_at t p)"
  shows "snd (sremove topic (Some u) t) = None"
    "subs_at (fst (sremove topic (Some u) t)) = (subs_at t)(p := AList.delete u (subs_at t p))"
  using sremove_correct [OF assms(1), of topic u] assms(2,3) unfolding removed_def by (simp_all only: sum.case prod.case if_True)

lemma sremove_miss:
  assumes "wf_snode t" "topic_path topic = Inr (p, tr)" "u \<notin> fst ` set (subs_at t p)"
  shows "snd (sremove topic (Some u) t) \<noteq> None" "fst (sremove topic (Some u) t) = t"
  using sremove_correct [OF assms(1), of topic u] assms(2,3) unfolding removed_def by (simp_all only: sum.case prod.case if_False simp_thms)

lemma sremove_wf: "wf_snode t \<Longrightarrow> wf_snode (fst (sremove topic (Some u) t))"
  using sremove_correct [of t topic u] by (simp add: removed_def)

lemma sremove_malformed:
  "wf_snode t \<Longrightarrow> topic_path topic = Inl e \<Longrightarrow>
     snd (sremove topic (Some u) t) \<noteq> None \<and> fst (sremove topic (Some u) t) = t"
  using sremove_correct [of t topic u] by (simp add: removed_def)

section \<open>Matching\<close>

text \<open>
  The rule a topic is matched by, on the paths of the filter and of the topic. The last argument
  says that the walk of the topic ended in an empty rest.
\<close>

fun filter_matches :: "bytes list \<Rightarrow> bytes list \<Rightarrow> bool \<Rightarrow> bool" where
  "filter_matches p [] tr \<longleftrightarrow> p = [] \<or> p = [MWC] \<or> (tr \<and> p = [SWC])"
| "filter_matches [] (l # ls) tr \<longleftrightarrow> False"
| "filter_matches (k # p) (l # ls) tr \<longleftrightarrow>
     (if k = MWC then p = [] else (k = SWC \<or> k = l) \<and> filter_matches p ls tr)"

definition delivered :: "byte \<Rightarrow> (bytes list \<times> 'u \<times> sub) list \<Rightarrow> ('u \<times> sub) multiset" where
  "delivered qos es = mset (map (\<lambda>(p, u, s). (u, grant qos s)) es)"

definition acc_mset :: "'u acc \<Rightarrow> ('u \<times> sub) multiset" where
  "acc_mset acc = mset (zip (fst acc) (snd acc))"

definition acc_ok :: "'u acc \<Rightarrow> bool" where
  "acc_ok acc \<longleftrightarrow> length (fst acc) = length (snd acc)"

lemma delivered_simps [simp]:
  "delivered qos [] = {#}" "delivered qos (xs @ ys) = delivered qos xs + delivered qos ys"
  by (simp_all add: delivered_def)

lemma filter_entries_at:
  "wf_snode t \<Longrightarrow> filter (\<lambda>e. fst e = p) (entries t) = map (Pair p) (subs_at t p)"
proof (induction t arbitrary: p rule: entries.induct)
  case (1 us qs kids)
  have d: "distinct (map fst kids)" using 1(2) by simp
  show ?case
  proof (cases p)
    case Nil
    then show ?thesis by (simp add: filter_map o_def filter_kids_Nil)
  next
    case (Cons k p')
    then show ?thesis
      using 1 filter_kids [OF d, of k p' entries]
      by (auto simp: list_all_iff o_def filter_map dest!: map_of_SomeD split: option.splits)
  qed
qed

lemma matchQos_acc:
  assumes "length (sn_subs t) = length (sn_qos t)" "acc_ok acc"
  shows "acc_ok (matchQos qos t acc) \<and>
     acc_mset (matchQos qos t acc) =
       acc_mset acc + mset (map (\<lambda>(u, s). (u, grant qos s)) (zip (sn_subs t) (sn_qos t)))"
proof -
  have "zip (sn_subs t) (map (\<lambda>i. grant qos (sn_qos t ! i)) [0..<length (sn_subs t)]) =
      map (\<lambda>(u, s). (u, grant qos s)) (zip (sn_subs t) (sn_qos t))"
    using assms(1) by (intro nth_equalityI) auto
  then show ?thesis
    using assms by (simp add: acc_ok_def acc_mset_def matchQos_def)
qed

lemma matchQos_at:
  "wf_snode t \<Longrightarrow> acc_ok acc \<Longrightarrow>
     acc_ok (matchQos qos t acc) \<and>
     acc_mset (matchQos qos t acc) = acc_mset acc + delivered qos (filter (\<lambda>e. fst e = []) (entries t))"
  using matchQos_acc [of t acc qos] filter_entries_at [of t "[]"]
  by (cases t) (simp add: delivered_def o_def split_def)

lemma matchChild_at:
  assumes "wf_snode t" "acc_ok acc"
  shows "acc_ok (matchChild k qos t acc) \<and>
     acc_mset (matchChild k qos t acc) = acc_mset acc + delivered qos (filter (\<lambda>e. fst e = [k]) (entries t))"
proof -
  obtain us qs kids where t: "t = SNode us qs kids" by (cases t)
  show ?thesis
  proof (cases "map_of kids k")
    case None
    then show ?thesis
      using assms filter_entries_at [of t "[k]"] by (simp add: matchChild_def t)
  next
    case (Some n)
    have n: "wf_snode n" by (rule wf_kidD [OF assms(1) [unfolded t] Some])
    then show ?thesis
      using Some assms matchQos_at [OF n assms(2), of qos]
        filter_entries_at [of t "[k]"] filter_entries_at [of n "[]"]
      by (simp add: matchChild_def t delivered_def o_def split_def)
  qed
qed

lemma delivered_or:
  "(\<And>e. e \<in> set xs \<Longrightarrow> \<not> (P e \<and> Q e)) \<Longrightarrow>
     delivered qos (filter (\<lambda>e. P e \<or> Q e) xs) = delivered qos (filter P xs) + delivered qos (filter Q xs)"
  by (induction xs) (auto simp: delivered_def)

text \<open>What one child contributes to the match of the topic path \<open>l # ls\<close>.\<close>

definition child_hits :: "byte \<Rightarrow> bytes \<Rightarrow> bytes list \<Rightarrow> bool \<Rightarrow> bytes \<times> 'u snode \<Rightarrow> ('u \<times> sub) multiset" where
  "child_hits qos l ls tr kn =
     delivered qos (filter (\<lambda>e. filter_matches (fst kn # fst e) (l # ls) tr) (entries (snd kn)))"

lemma delivered_node:
  "delivered qos (filter (\<lambda>e. filter_matches (fst e) (l # ls) tr) (entries (SNode us qs kids))) =
     sum_list (map (child_hits qos l ls tr) kids)"
proof -
  have one: "delivered qos (filter (\<lambda>e. filter_matches (fst e) (l # ls) tr)
      (map (\<lambda>(q, x). (k # q, x)) (entries n))) = child_hits qos l ls tr (k, n)" for k and n :: "'u snode"
    unfolding delivered_def child_hits_def filter_map
    by (simp add: o_def split_def)
  have "delivered qos (filter (\<lambda>e. filter_matches (fst e) (l # ls) tr)
      (concat (map (\<lambda>(k, n). map (\<lambda>(q, x). (k # q, x)) (entries n)) kids))) =
      sum_list (map (child_hits qos l ls tr) kids)"
    by (induction kids) (auto simp: one)
  then show ?thesis
    by (simp add: filter_empty_conv)
qed

lemma filter_matches_empty:
  "filter (\<lambda>e. filter_matches (fst e) [] tr) xs =
     filter (\<lambda>e. (fst e = [] \<or> fst e = [MWC]) \<or> (tr \<and> fst e = [SWC])) xs"
  by (simp add: disj_assoc)

lemma smatch_nil:
  assumes "wf_snode t" "acc_ok acc"
  shows "acc_ok (matchChild SWC qos t (matchChild MWC qos t (matchQos qos t acc))) \<and>
     acc_mset (matchChild SWC qos t (matchChild MWC qos t (matchQos qos t acc))) =
       acc_mset acc + delivered qos (filter (\<lambda>e. filter_matches (fst e) [] True) (entries t))"
  using assms
  by (simp add: filter_matches_empty delivered_or matchQos_at matchChild_at)

lemma smatch_end:
  assumes "wf_snode t" "acc_ok acc"
  shows "acc_ok (matchChild MWC qos t (matchQos qos t acc)) \<and>
     acc_mset (matchChild MWC qos t (matchQos qos t acc)) =
       acc_mset acc + delivered qos (filter (\<lambda>e. filter_matches (fst e) [] False) (entries t))"
  using assms
  by (simp add: filter_matches_empty delivered_or matchQos_at matchChild_at)

lemma child_hits_cases:
  "child_hits qos l ls tr (k, n) =
     (if k = MWC then delivered qos (filter (\<lambda>e. fst e = []) (entries n))
      else if k = SWC \<or> k = l then delivered qos (filter (\<lambda>e. filter_matches (fst e) ls tr) (entries n))
      else {#})"
  by (simp add: child_hits_def)

lemma smatch_correct:
  "wf_snode t \<Longrightarrow> acc_ok acc \<Longrightarrow> topic_path topic = Inr (ls, tr) \<Longrightarrow>
     \<exists>acc'. smatch topic qos t acc = (acc', None) \<and> acc_ok acc' \<and>
       acc_mset acc' = acc_mset acc + delivered qos (filter (\<lambda>e. filter_matches (fst e) ls tr) (entries t))"
  "list_all (\<lambda>(k, n). wf_snode n) kids \<Longrightarrow> acc_ok acc \<Longrightarrow>
     topic_path (case rem of None \<Rightarrow> [] | Some r \<Rightarrow> r) = Inr (ls, tr) \<Longrightarrow>
     \<exists>acc'. smatch_kids level rem qos kids acc = (acc', None) \<and> acc_ok acc' \<and>
       acc_mset acc' = acc_mset acc + sum_list (map (child_hits qos level ls (tr \<and> rem \<noteq> None)) kids)"
proof (induction topic qos t acc and level rem qos kids acc arbitrary: ls tr and ls tr
    rule: smatch_smatch_kids.induct)
  case (1 topic qos us qs kids acc)
  show ?case
  proof (cases "topic = []")
    case True
    then show ?thesis using smatch_nil [OF 1(2,3)] 1(4) by auto
  next
    case False
    then obtain l rem ls' tr' where l: "nextTopicLevel topic = Inr (l, rem)"
      "topic_path (case rem of None \<Rightarrow> [] | Some r \<Rightarrow> r) = Inr (ls', tr')" "ls = l # ls'" "tr = (tr' \<and> rem \<noteq> None)"
      using 1(4) topic_path_error [OF False] topic_path_step [OF False]
      by (cases "nextTopicLevel topic") (fastforce split: sum.splits)+
    have w: "list_all (\<lambda>(k, n). wf_snode n) kids" using 1(2) by simp
    show ?thesis
      using 1(1) [OF False l(1) refl w 1(3) l(2)] False delivered_node [of qos l ls' tr us qs kids]
      by (simp add: l)
  qed
next
  case (2 level rem qos acc)
  then show ?case by simp
next
  case (3 level rem qos k n ks acc)
  have n: "wf_snode n" and ks: "list_all (\<lambda>(k, n). wf_snode n) ks" using 3(6) by simp_all
  note path = 3(8)
  show ?case
  proof (cases "k = MWC")
    case True
    have "acc_ok (matchQos qos n acc)" using matchQos_at [OF n 3(7)] by simp
    then show ?thesis
      using 3(1) [OF True ks _ path] matchQos_at [OF n 3(7), of qos] True
      by (auto simp: child_hits_cases add.assoc)
  next
    case mwc: False
    show ?thesis
    proof (cases "k = SWC \<or> k = level")
      case False
      then show ?thesis
        using 3(5) [OF mwc False ks 3(7) path] mwc by (simp add: child_hits_cases)
    next
      case hit: True
      show ?thesis
      proof (cases rem)
        case None
        then have ls: "ls = []" using path by simp
        have "acc_ok (matchChild MWC qos n (matchQos qos n acc))" using smatch_end [OF n 3(7)] by simp
        then show ?thesis
          using 3(2) [OF mwc hit None ks _ path] smatch_end [OF n 3(7), of qos] mwc hit None
          by (auto simp: child_hits_cases ls add.assoc)
      next
        case (Some r)
        have "topic_path r = Inr (ls, tr)" using path Some by simp
        then obtain acc' where acc': "smatch r qos n acc = (acc', None)" "acc_ok acc'"
          "acc_mset acc' = acc_mset acc + delivered qos (filter (\<lambda>e. filter_matches (fst e) ls tr) (entries n))"
          using 3(3) [OF mwc hit Some n 3(7)] by blast
        show ?thesis
          using 3(4) [OF mwc hit Some acc'(1) [symmetric] refl ks acc'(2) path] acc' mwc hit Some
          by (auto simp: child_hits_cases add.assoc)
      qed
    qed
  qed
qed

section \<open>Insertion keeps the tree pruned\<close>

lemma sinsert_pruned:
  "pruned t \<Longrightarrow> wf_snode t \<Longrightarrow> snd (sinsert s u t) = None \<Longrightarrow>
     pruned (fst (sinsert s u t)) \<and> (sn_subs (fst (sinsert s u t)) \<noteq> [] \<or> sn_kids (fst (sinsert s u t)) \<noteq> [])"
proof (induction s u t rule: sinsert.induct)
  case (1 s u us qs kids)
  show ?case
  proof (cases "subTopic s = []")
    case True
    then show ?thesis
      using 1(2) by (auto simp: sinsert_Nil dest: find_index_in_set split: option.splits)
  next
    case False
    then obtain l rem where l: "nextTopicLevel (subTopic s) = Inr (l, rem)"
      using 1(4) by (cases "nextTopicLevel (subTopic s)") (auto simp: sinsert_topic)
    define n where "n = (case map_of kids l of Some n \<Rightarrow> n | None \<Rightarrow> newSNode)"
    have n: "pruned n" "wf_snode n"
      using pruned_kidD [OF 1(2)] wf_kidD [OF 1(3)] by (simp_all add: n_def split: option.splits)
    have eq: "sinsert s u (SNode us qs kids) =
        (SNode us qs (AList.update l (fst (sinsert (s\<lparr>subTopic := (case rem of None \<Rightarrow> [] | Some r \<Rightarrow> r)\<rparr>) u n)) kids),
         snd (sinsert (s\<lparr>subTopic := (case rem of None \<Rightarrow> [] | Some r \<Rightarrow> r)\<rparr>) u n))"
      using False l by (subst sinsert.simps) (simp add: n_def Let_def)
    show ?thesis
      using 1(1) [OF False l refl n_def n] 1(2-4)
      by (simp add: eq tree_alist)
  qed
qed

section \<open>The tree as a subscription store\<close>

type_synonym sub_opts = "byte \<times> bool \<times> bool \<times> byte \<times> u32"

definition opts_of :: "sub \<Rightarrow> sub_opts" where
  "opts_of s = (subQos s, subNoLocal s, subRetainAsPublished s, subRetainHandling s, subSubIdentifier s)"

definition mk_sub :: "bytes \<Rightarrow> sub_opts \<Rightarrow> sub" where
  "mk_sub topic opts =
     (case opts of (q, nl, rap, rh, si) \<Rightarrow>
        \<lparr>subTopic = topic, subQos = q, subNoLocal = nl, subRetainAsPublished = rap,
         subRetainHandling = rh, subSubIdentifier = si\<rparr>)"

lemma opts_of_mk_sub [simp]: "opts_of (mk_sub topic opts) = opts" "subTopic (mk_sub topic opts) = topic"
  by (cases opts, simp add: opts_of_def mk_sub_def)+

lemma opts_of_topic [simp]: "opts_of (s\<lparr>subTopic := k\<rparr>) = opts_of s"
  by (simp add: opts_of_def)

definition snode_ins :: "bytes \<Rightarrow> 'u \<Rightarrow> sub_opts \<Rightarrow> 'u snode \<Rightarrow> 'u snode \<times> goerr option" where
  "snode_ins topic u opts t = sinsert (mk_sub topic opts) u t"

definition snode_del :: "bytes \<Rightarrow> 'u \<Rightarrow> 'u snode \<Rightarrow> 'u snode \<times> goerr option" where
  "snode_del topic u t = sremove topic (Some u) t"

definition snode_at :: "'u snode \<Rightarrow> bytes list \<Rightarrow> ('u \<times> sub_opts) list" where
  "snode_at t p = map (\<lambda>(u, s). (u, opts_of s)) (subs_at t p)"

lemma map_AList_update:
  "map (\<lambda>(k, v). (k, f v)) (AList.update u s xs) = AList.update u (f s) (map (\<lambda>(k, v). (k, f v)) xs)"
  by (induction xs) auto

lemma map_AList_delete:
  "map (\<lambda>(k, v). (k, f v)) (AList.delete u xs) = AList.delete u (map (\<lambda>(k, v). (k, f v)) xs)"
  by (induction xs) auto

lemma dom_map_opts: "fst ` set (map (\<lambda>(k, v). (k, f v)) xs) = fst ` set xs"
  by force

lemmas snode_store_defs = snode_ins_def snode_del_def snode_at_def map_AList_update map_AList_delete dom_map_opts

interpretation snode_store: sub_store path_of snode_ins snode_del snode_at wf_snode
proof
  fix t :: "'u snode" and k p u v
  assume ok: "wf_snode t"
  show "wf_snode (fst (snode_ins k u v t)) \<and> snd (snode_ins k u v t) = None \<and>
      snode_at (fst (snode_ins k u v t)) = (snode_at t)(p := AList.update u v (snode_at t p))"
    if "path_of k = Some p"
    using sinsert_correct [OF ok, of "mk_sub k v" u] that
    by (auto simp: snode_store_defs path_of_simps fun_eq_iff)
  show "wf_snode (fst (snode_ins k u v t)) \<and> snd (snode_ins k u v t) \<noteq> None \<and>
      snode_at (fst (snode_ins k u v t)) = snode_at t"
    if "path_of k = None"
    using sinsert_correct [OF ok, of "mk_sub k v" u] that
    by (auto simp: snode_store_defs path_of_simps fun_eq_iff)
  have dom: "u \<in> fst ` set (snode_at t p) \<longleftrightarrow> u \<in> fst ` set (subs_at t p)"
    by (simp only: snode_at_def dom_map_opts)
  show "wf_snode (fst (snode_del k u t)) \<and> snd (snode_del k u t) = None \<and>
      snode_at (fst (snode_del k u t)) = (snode_at t)(p := AList.delete u (snode_at t p))"
    if "path_of k = Some p" "u \<in> fst ` set (snode_at t p)"
  proof -
    note hyps = that
    obtain tr where tp: "topic_path k = Inr (p, tr)" using hyps(1) unfolding path_of_simps by blast
    note hit = sremove_hit [OF ok tp hyps(2) [unfolded dom]]
    show ?thesis
      by (simp add: snode_store_defs hit sremove_wf [OF ok] fun_eq_iff)
  qed
  show "wf_snode (fst (snode_del k u t)) \<and> snd (snode_del k u t) \<noteq> None \<and>
      snode_at (fst (snode_del k u t)) = snode_at t"
    if "path_of k = Some p" "u \<notin> fst ` set (snode_at t p)"
  proof -
    note hyps = that
    obtain tr where tp: "topic_path k = Inr (p, tr)" using hyps(1) unfolding path_of_simps by blast
    note miss = sremove_miss [OF ok tp hyps(2) [unfolded dom]]
    show ?thesis
      using miss(1) by (simp add: snode_del_def miss(2) ok)
  qed
  show "wf_snode (fst (snode_del k u t)) \<and> snd (snode_del k u t) \<noteq> None \<and>
      snode_at (fst (snode_del k u t)) = snode_at t"
    if "path_of k = None"
    using that sremove_malformed [OF ok, of k _ u] ok by (auto simp: snode_del_def path_of_simps)
qed

section \<open>Properties\<close>

definition snode_op :: "(bytes, 'u, sub_opts) sub_op \<Rightarrow> 'u snode \<Rightarrow> 'u snode" where
  "snode_op c t =
     (case c of
        Subscribe_op k u v \<Rightarrow> fst (sinsert (mk_sub k v) u t)
      | Unsubscribe_op k u \<Rightarrow> fst (sremove k (Some u) t))"

lemma snode_op_exec: "snode_op = snode_store.exec"
  by (simp add: fun_eq_iff snode_op_def snode_store.exec_def snode_ins_def snode_del_def split: sub_op.split)

text \<open>C14: A tree built from the empty one by any sequence of subscribe and unsubscribe calls, failing
  calls included, holds under every path and for every client exactly the options of the last
  effective call; it is a refinement of the map from path and client to options.\<close>

theorem snode_history:
  "wf_snode (fold snode_op cs newSNode) \<and>
   map_of (snode_at (fold snode_op cs newSNode) p) u = fold (spec_op path_of) cs Map.empty (p, u)"
proof -
  have v: "snode_store.view newSNode = Map.empty"
    by (simp add: snode_store.view_def snode_at_def fun_eq_iff)
  show ?thesis
    using snode_store.history [of newSNode cs] wf_newSNode
    unfolding snode_op_exec v by (simp add: snode_store.view_def fun_eq_iff)
qed

text \<open>C6: Matching a topic against a well-formed tree succeeds and returns, each once and in no
  promised order, the subscribers whose stored filter matches the topic's levels, each with its
  options and the smaller of the two QoS levels.\<close>

theorem smatch_exact:
  assumes "wf_snode t" "topic_path topic = Inr (ls, tr)"
  shows "\<exists>us ss. smatch topic qos t ([], []) = ((us, ss), None) \<and> length us = length ss \<and>
    mset (zip us ss) =
      {# (u, grant qos s). (p, u, s) \<in># filter_mset (\<lambda>(p, u, s). filter_matches p ls tr) (mset (entries t)) #}"
  using smatch_correct(1) [of t "([], [])" topic ls tr qos] assms
  by (auto simp: acc_ok_def acc_mset_def delivered_def split_def simp flip: mset_filter)

text \<open>Two clients, one on \<open>a/+\<close> with QoS 2 and one on \<open>a/#\<close> with QoS 0, and the topic \<open>a/b\<close>.\<close>

definition demo_tree :: "nat snode" where
  "demo_tree =
     snode_op (Subscribe_op [97, 47, 35] 2 (0, False, False, 0, 0))
       (snode_op (Subscribe_op [97, 47, 43] 1 (2, True, False, 0, 7)) newSNode)"

theorem smatch_exact_witness:
  "\<exists>us ss. smatch [97, 47, 98] 1 demo_tree ([], []) = ((us, ss), None) \<and> length us = length ss \<and>
    mset (zip us ss) =
      {# (u, grant 1 s). (p, u, s) \<in># filter_mset (\<lambda>(p, u, s). filter_matches p [[97], [98]] False)
          (mset (entries demo_tree)) #}"
proof (rule smatch_exact)
  show "wf_snode demo_tree" by code_simp
  show "topic_path [97, 47, 98] = Inr ([[97], [98]], False)" by code_simp
qed

text \<open>
  An empty level at the front of a topic or filter is stored as the single-level wildcard: a
  client that subscribes \<open>/f\<close> is matched by the topic \<open>x/f\<close>.
\<close>

lemma leading_empty_level_is_wildcard:
  "topic_path (47 # r) = (case topic_path r of Inl e \<Rightarrow> Inl e | Inr (ls, tr) \<Rightarrow> Inr (SWC # ls, tr))"
  using topic_path_step [of "47 # r" SWC "Some r"] by (simp add: nextTopicLevel_sep split: sum.splits)

lemma leading_empty_level_delivers:
  "fst (fst (smatch [120, 47, 102] 0
     (snode_op (Subscribe_op [47, 102] (1::nat) (0, False, False, 0, 0)) newSNode) ([], []))) = [1]"
  by code_simp

end
