(* ===== verification/Codec.thy ===== *)
theory Codec
  imports Prelude
begin

text \<open>
  The wire primitives of \<open>corev5/v2/message/util.go\<close> and \<open>message.go\<close>: variable byte integers,
  length-prefixed strings, user properties, the big-endian writers, and the functions of
  \<open>encoding/binary\<close> they call. A reading primitive returns the value, the number of bytes it
  consumed and an error; \<open>None\<close> is a panic. A writing primitive is given as the text it emits,
  both into a destination slice at an offset and at the end of a buffer.
\<close>

section \<open>Bytes\<close>

lemma unat_small: "k < 2 ^ LENGTH('a) \<Longrightarrow> unat (word_of_nat k :: 'a::len word) = k"
  by (simp add: unat_of_nat)

lemma byte_all: "(\<forall>n\<in>set [0..<256]. P (word_of_nat n :: byte)) \<Longrightarrow> P c"
proof -
  assume "\<forall>n\<in>set [0..<256]. P (word_of_nat n :: byte)"
  moreover have "unat c < 256" using unsigned_less [of c] by simp
  ultimately have "P (word_of_nat (unat c))" by (metis atLeastLessThan_iff atLeast_upt lessThan_iff set_upt zero_le)
  then show ?thesis by simp
qed

lemma byte_le: "(b :: byte) \<le> 1 \<longleftrightarrow> b = 0 \<or> b = 1" "(b :: byte) \<le> 2 \<longleftrightarrow> b = 0 \<or> b = 1 \<or> b = 2"
  by (auto simp: word_le_nat_alt word_unat_eq_iff)

lemma byte_high: "(c :: byte) AND 128 = 0 \<longleftrightarrow> c < 128"
  by (rule byte_all [of "\<lambda>c. c AND 128 = 0 \<longleftrightarrow> c < 128"]) code_simp

lemma byte_low: "(c :: byte) AND 127 = word_of_nat (unat c mod 128)"
  by (rule byte_all [of "\<lambda>c. c AND 127 = word_of_nat (unat c mod 128)"]) code_simp

lemma byte_or_high: "(c :: byte) OR 128 = word_of_nat (unat c mod 128 + 128)"
  by (rule byte_all [of "\<lambda>c. c OR 128 = word_of_nat (unat c mod 128 + 128)"]) code_simp

lemma byte_or: "(c :: byte) < 128 \<Longrightarrow> c OR 128 = c + 128"
  by (simp add: byte_or_high word_less_nat_alt)

section \<open>Variable byte integers\<close>

text \<open>The encoding of the MQTT specification, on natural numbers.\<close>

fun lb_wire :: "nat \<Rightarrow> bytes" where
  "lb_wire n = (if n < 128 then [word_of_nat n] else word_of_nat (n mod 128 + 128) # lb_wire (n div 128))"

declare lb_wire.simps [simp del]

text \<open>The loop of \<open>lbEncode\<close>; the array \<open>b\<close> has four elements, of which the first \<open>length b\<close> are set.\<close>

function lbEncode_loop :: "u32 \<Rightarrow> byte \<Rightarrow> bytes \<Rightarrow> bytes option" where
  "lbEncode_loop x encodedByte b =
     (if x > 0 then
        (let e = ucast (x mod 128); x' = x div 128
         in if x' > 0
            then (if length b < 4 then lbEncode_loop x' (e OR 128) (b @ [e OR 128]) else None)
            else lbEncode_loop x' e b)
      else if length b < 4 then Some (b @ [encodedByte]) else None)"
  by pat_completeness auto
termination
proof (relation "measure (\<lambda>(x, e, b). unat x)")
  show "wf (measure (\<lambda>(x :: u32, e :: byte, b :: bytes). unat x))" by simp
qed (simp_all add: word_less_nat_alt unat_div)

declare lbEncode_loop.simps [simp del]

definition lbEncode :: "u32 \<Rightarrow> bytes option" where
  "lbEncode x =
     (let e = ucast (x mod 128); x' = x div 128
      in if x' > 0 then lbEncode_loop x' (e OR 128) [e OR 128] else lbEncode_loop x' e [])"

text \<open>The loop of \<open>lbDecode\<close> after the byte \<open>ec\<close> has been added to \<open>value\<close>.\<close>

fun lbDecode_loop :: "byte \<Rightarrow> bytes \<Rightarrow> u32 \<Rightarrow> u32 \<Rightarrow> nat \<Rightarrow> (u32 \<times> nat \<times> goerr option) option" where
  "lbDecode_loop ec b value mu i =
     (if ec AND 128 \<noteq> 0 then
        (case b of
           [] \<Rightarrow> None
         | ec' # b' \<Rightarrow>
             (if mu > 128 * 128 * 128 then Some (0, 0, Some (Errorf ''Malformed Variable Byte Integer''))
              else lbDecode_loop ec' b' (value + ucast (ec' AND 127) * mu) (mu * 128) (i + 1)))
      else Some (value, i, None))"

definition lbDecode :: "bytes \<Rightarrow> (u32 \<times> nat \<times> goerr option) option" where
  "lbDecode b =
     (case b of
        [] \<Rightarrow> Some (0, 0, None)
      | ec # b' \<Rightarrow> lbDecode_loop ec b' (ucast (ec AND 127) * 1) (1 * 128) 1)"

text \<open>\<open>binary.PutUvarint\<close> and \<open>BigEndianPutUvarint\<close>, which write the same bytes.\<close>

function uvarint_bytes :: "u64 \<Rightarrow> bytes" where
  "uvarint_bytes x =
     (if x \<ge> 0x80 then (ucast x OR 0x80) # uvarint_bytes (drop_bit 7 x) else [ucast x])"
  by pat_completeness auto
termination
proof (relation "measure unat")
  show "wf (measure unat)" by simp
qed (simp add: word_le_nat_alt drop_bit_eq_div unat_div)

declare uvarint_bytes.simps [simp del]

text \<open>\<open>binary.Uvarint\<close>: the value and the number of bytes, 0 if there are too few, negative on overflow.\<close>

fun Uvarint_loop :: "bytes \<Rightarrow> nat \<Rightarrow> u64 \<Rightarrow> nat \<Rightarrow> u64 \<times> int" where
  "Uvarint_loop [] i x s = (0, 0)"
| "Uvarint_loop (b # bs) i x s =
     (if i = 10 then (0, - (int i + 1))
      else if b < 0x80 then
        (if i = 9 \<and> b > 1 then (0, - (int i + 1)) else (x OR push_bit s (ucast b), int i + 1))
      else Uvarint_loop bs (i + 1) (x OR push_bit s (ucast (b AND 0x7f))) (s + 7))"

definition Uvarint :: "bytes \<Rightarrow> u64 \<times> int" where
  "Uvarint b = Uvarint_loop b 0 0 0"

lemma length_lb_wire:
  "length (lb_wire n) = 1 \<longleftrightarrow> n < 128"
  "n < 268435456 \<Longrightarrow> length (lb_wire n) \<le> 4"
  "n \<ge> 268435456 \<Longrightarrow> length (lb_wire n) > 4"
proof -
  have d: "n div 128 div 128 = n div 16384" "n div 16384 div 128 = n div 2097152"
    "n div 2097152 div 128 = n div 268435456"
    by (simp_all add: div_mult2_eq [symmetric])
  note u = lb_wire.simps [of n] lb_wire.simps [of "n div 128"] lb_wire.simps [of "n div 16384"]
    lb_wire.simps [of "n div 2097152"] lb_wire.simps [of "n div 268435456"]
  show "length (lb_wire n) = 1 \<longleftrightarrow> n < 128" by (simp add: u)
  show "n < 268435456 \<Longrightarrow> length (lb_wire n) \<le> 4" by (simp add: u d div_less_iff_less_mult)
  show "n \<ge> 268435456 \<Longrightarrow> length (lb_wire n) > 4" by (simp add: u d div_less_iff_less_mult)
qed

lemma lb_wire_not_Nil [simp]: "lb_wire n \<noteq> []"
  by (subst lb_wire.simps) simp

lemma ucast_mod_128: "(ucast (x mod 128 :: u32) :: byte) = word_of_nat (unat x mod 128)"
  by (rule word_unat_eq_iff [THEN iffD2])
     (simp add: unsigned_ucast_eq unat_mod_distrib unat_of_nat take_bit_eq_mod)

lemma byte_or_128_mod: "(word_of_nat (n mod 128) :: byte) OR 128 = word_of_nat (n mod 128 + 128)"
  by (simp add: byte_or_high unat_of_nat)

lemma unat_div_128: "unat (x div 128 :: u32) = unat x div 128" "unat (x mod 128 :: u32) = unat x mod 128"
  by (simp_all add: unat_div_distrib unat_mod_distrib)

lemma div_128_pos: "(x :: u32) div 128 > 0 \<longleftrightarrow> 128 \<le> unat x"
  by (simp add: word_less_nat_alt unat_div_128 div_greater_zero_iff)

lemma lbEncode_loop_spec:
  "x > 0 \<Longrightarrow> length b \<le> 4 \<Longrightarrow>
     lbEncode_loop x e b =
       (if length b + length (lb_wire (unat x)) \<le> 4 then Some (b @ lb_wire (unat x)) else None)"
proof (induction x e b rule: lbEncode_loop.induct)
  case (1 x e b)
  define e' where "e' = (ucast (x mod 128) :: byte)"
  have e': "e' = word_of_nat (unat x mod 128)" by (simp add: e'_def ucast_mod_128)
  show ?case
  proof (cases "x div 128 > 0")
    case True
    then have big: "\<not> unat x < 128" by (simp add: div_128_pos)
    have wire: "lb_wire (unat x) = (e' OR 128) # lb_wire (unat (x div 128))"
      using big by (subst lb_wire.simps) (simp add: e' byte_or_128_mod unat_div_128)
    have ne: "length (lb_wire (unat (x div 128))) > 0" by simp
    show ?thesis
    proof (cases "length b < 4")
      case b: True
      have "lbEncode_loop x e b = lbEncode_loop (x div 128) (e' OR 128) (b @ [e' OR 128])"
        using 1(3) True b by (subst lbEncode_loop.simps) (simp add: Let_def e'_def)
      then show ?thesis
        using 1(1) [OF 1(3) e'_def refl True b] b True wire by simp
    next
      case False
      then have "lbEncode_loop x e b = None"
        using 1(3) True by (subst lbEncode_loop.simps) (simp add: Let_def)
      then show ?thesis using False ne wire by simp
    qed
  next
    case False
    then have small: "unat x < 128" by (simp add: div_128_pos not_le)
    then have "x div 128 = 0"
      by (simp add: word_unat_eq_iff unat_div_128)
    then have "lbEncode_loop x e b = lbEncode_loop 0 e' b"
      using 1(3) by (subst lbEncode_loop.simps) (simp add: Let_def e'_def)
    also have "\<dots> = (if length b < 4 then Some (b @ [e']) else None)"
      by (subst lbEncode_loop.simps) simp
    finally show ?thesis
      using small by (simp add: lb_wire.simps [of "unat x"] e')
  qed
qed

theorem lbEncode_spec:
  "lbEncode x = (if x < 268435456 then Some (lb_wire (unat x)) else None)"
proof (cases "x div 128 > 0")
  case True
  define e' where "e' = (ucast (x mod 128) :: byte)"
  have wire: "lb_wire (unat x) = (e' OR 128) # lb_wire (unat (x div 128))"
    using True by (subst lb_wire.simps) (simp add: e'_def ucast_mod_128 byte_or_128_mod unat_div_128 div_128_pos)
  have "lbEncode x = lbEncode_loop (x div 128) (e' OR 128) [e' OR 128]"
    using True by (simp add: lbEncode_def Let_def e'_def)
  also have "\<dots> = (if length (lb_wire (unat x)) \<le> 4 then Some (lb_wire (unat x)) else None)"
    using lbEncode_loop_spec [OF True, of "[e' OR 128]" "e' OR 128"] by (simp add: wire)
  finally show ?thesis
    using length_lb_wire(2,3) [of "unat x"] by (cases "unat x < 268435456") (auto simp: word_less_nat_alt)
next
  case False
  then have small: "unat x < 128" by (simp add: div_128_pos not_le)
  then have "x div 128 = 0" by (simp add: word_unat_eq_iff unat_div_128)
  then show ?thesis
    using small
    by (simp add: lbEncode_def Let_def lbEncode_loop.simps [of 0] lb_wire.simps [of "unat x"]
        ucast_mod_128 word_less_nat_alt)
qed

lemma ucast_byte:
  assumes "j < 256"
  shows "(ucast (word_of_nat j :: byte) :: 'a::len word) = word_of_nat j"
proof -
  have "unat (word_of_nat j :: byte) = j" using assms by (simp add: unat_small)
  then show ?thesis by (metis of_nat_unat)
qed

lemma ucast_low:
  "(ucast ((word_of_nat k :: byte) AND 127) :: 'a::len word) = word_of_nat (k mod 128)"
proof -
  have "(word_of_nat k :: byte) AND 127 = word_of_nat (k mod 256 mod 128)"
    unfolding byte_low by (simp add: unat_of_nat)
  also have "k mod 256 mod 128 = k mod 128" by (simp add: mod_mod_cancel)
  finally have "(word_of_nat k :: byte) AND 127 = word_of_nat (k mod 128)" .
  moreover have "k mod 128 < 256" using mod_less_divisor [of 128 k] by linarith
  ultimately show ?thesis by (simp only: ucast_byte)
qed

lemma hd_lb_wire: "hd (lb_wire n) = word_of_nat (if n < 128 then n else n mod 128 + 128)"
  by (subst lb_wire.simps) simp

lemma lb_byte_value: "ucast (hd (lb_wire n) AND 127) = (word_of_nat (n mod 128) :: 'a::len word)"
  unfolding hd_lb_wire ucast_low by simp

lemma lb_byte_more: "hd (lb_wire n) AND 128 = 0 \<longleftrightarrow> n < 128"
proof -
  have "(if n < 128 then n else n mod 128 + 128) < 2 ^ LENGTH(8)"
    using mod_less_divisor [of 128 n] by simp
  then have "unat (hd (lb_wire n)) = (if n < 128 then n else n mod 128 + 128)"
    unfolding hd_lb_wire by (rule unat_small)
  then show ?thesis by (simp add: byte_high word_less_nat_alt)
qed

lemma tl_lb_wire: "tl (lb_wire n) = (if n < 128 then [] else lb_wire (n div 128))"
  by (subst lb_wire.simps) simp

lemma lbDecode_loop_wire:
  "i + length (lb_wire n) \<le> 4 \<Longrightarrow>
     lbDecode_loop (hd (lb_wire n)) (tl (lb_wire n) @ rest)
       (word_of_nat (a + (n mod 128) * 128 ^ i)) (word_of_nat (128 ^ (i + 1))) (i + 1) =
     Some (word_of_nat (a + n * 128 ^ i), i + length (lb_wire n), None)"
proof (induction n arbitrary: i a rule: lb_wire.induct)
  case (1 n)
  show ?case
  proof (cases "n < 128")
    case True
    then show ?thesis
      by (subst lbDecode_loop.simps) (simp add: lb_byte_more length_lb_wire(1) [THEN iffD2])
  next
    case False
    have len: "length (lb_wire n) = Suc (length (lb_wire (n div 128)))"
      using False by (subst lb_wire.simps) simp
    have more: "length (lb_wire (n div 128)) \<noteq> 0" by simp
    then have i: "i \<le> 2" using 1(2) len by linarith
    then have p: "(128::nat) ^ (i + 1) \<le> 128 ^ 3" by (intro power_increasing) auto
    then have mu: "\<not> (word_of_nat (128 ^ (i + 1)) :: u32) > 128 * 128 * 128"
      using unat_small [where 'a = 32, of "128 ^ (i + 1)"] by (simp add: word_less_nat_alt)
    have split: "tl (lb_wire n) @ rest = hd (lb_wire (n div 128)) # (tl (lb_wire (n div 128)) @ rest)"
      using False by (simp only: tl_lb_wire [of n] if_False) (simp flip: append_Cons)
    have val: "(word_of_nat (a + (n mod 128) * 128 ^ i) :: u32) + word_of_nat (n div 128 mod 128) * word_of_nat (128 ^ (i + 1)) =
        word_of_nat ((a + (n mod 128) * 128 ^ i) + (n div 128 mod 128) * 128 ^ (i + 1))"
      by (simp only: of_nat_add of_nat_mult)
    have total: "(a + (n mod 128) * 128 ^ i) + (n div 128) * 128 ^ (i + 1) = a + n * 128 ^ i"
    proof -
      have "(n mod 128) * 128 ^ i + (n div 128) * 128 ^ (i + 1) = (n mod 128 + n div 128 * 128) * 128 ^ i"
        unfolding distrib_right by (simp add: ac_simps)
      then show ?thesis by simp
    qed
    have mu': "(word_of_nat (128 ^ (i + 1)) :: u32) * 128 = word_of_nat (128 ^ (i + 1 + 1))"
      by simp
    have le: "(i + 1) + length (lb_wire (n div 128)) \<le> 4" using 1(2) len by simp
    show ?thesis
      using 1(1) [OF False le, of "a + (n mod 128) * 128 ^ i"] False mu
      by (subst lbDecode_loop.simps) (simp only: lb_byte_more lb_byte_value split list.case if_False val mu' total len; simp)
  qed
qed

theorem lbDecode_wire:
  assumes "n < 268435456"
  shows "lbDecode (lb_wire n @ rest) = Some (word_of_nat n, length (lb_wire n), None)"
proof -
  have "lbDecode (hd (lb_wire n) # (tl (lb_wire n) @ rest)) = Some (word_of_nat n, length (lb_wire n), None)"
    using lbDecode_loop_wire [of 0 n rest 0] length_lb_wire(2) [OF assms]
    unfolding lbDecode_def by (simp add: lb_byte_value del: lbDecode_loop.simps)
  then show ?thesis by (simp flip: append_Cons)
qed

lemma nat_or_push: "(a :: nat) < 2 ^ s \<Longrightarrow> a OR push_bit s b = a + b * 2 ^ s"
proof -
  assume a: "a < 2 ^ s"
  have "\<not> bit a n \<or> \<not> bit (push_bit s b) n" for n
  proof (cases "n < s")
    case False
    then have "(2 :: nat) ^ s \<le> 2 ^ n" by simp
    then have "a < 2 ^ n" using a by (rule less_le_trans [rotated])
    then show ?thesis by (simp add: bit_iff_odd)
  qed (simp add: bit_push_bit_iff)
  then show ?thesis
    using disjunctive_add [of a "push_bit s b"] by (simp add: push_bit_eq_mult)
qed

lemma word_or_push:
  "a < 2 ^ s \<Longrightarrow> word_of_nat a OR push_bit s (word_of_nat b) = (word_of_nat (a + b * 2 ^ s) :: 'a::len word)"
  by (simp only: push_bit_of_nat of_nat_or_eq [symmetric] nat_or_push)

lemma ucast_hd_small: "n < 128 \<Longrightarrow> ucast (hd (lb_wire n)) = (word_of_nat n :: 'a::len word)"
  by (simp add: hd_lb_wire ucast_byte)

lemma hd_lb_wire_less: "hd (lb_wire n) < 128 \<longleftrightarrow> n < 128"
  using lb_byte_more [of n] by (simp add: byte_high)

lemma Uvarint_loop_wire:
  "i + length (lb_wire n) \<le> 4 \<Longrightarrow> a < 2 ^ (7 * i) \<Longrightarrow>
     Uvarint_loop (lb_wire n @ rest) i (word_of_nat a) (7 * i) =
       (word_of_nat (a + n * 2 ^ (7 * i)), int (i + length (lb_wire n)))"
proof (induction n arbitrary: i a rule: lb_wire.induct)
  case (1 n)
  have split: "lb_wire n @ rest = hd (lb_wire n) # (tl (lb_wire n) @ rest)"
    by (simp flip: append_Cons)
  have i: "i < 4" using 1(2) by (cases "lb_wire n") auto
  show ?case
  proof (cases "n < 128")
    case True
    then have "Uvarint_loop (lb_wire n @ rest) i (word_of_nat a) (7 * i) =
        (word_of_nat a OR push_bit (7 * i) (word_of_nat n), int i + 1)"
      using i by (simp only: split Uvarint_loop.simps hd_lb_wire_less ucast_hd_small) simp
    then show ?thesis
      using True 1(3) by (simp only: word_or_push) (simp add: length_lb_wire(1) [THEN iffD2])
  next
    case False
    define a' where "a' = a + (n mod 128) * 2 ^ (7 * i)"
    have len: "length (lb_wire n) = Suc (length (lb_wire (n div 128)))"
      using False by (subst lb_wire.simps) simp
    have "a' < 2 ^ (7 * (i + 1))"
    proof -
      have "a' < 2 ^ (7 * i) + (n mod 128) * 2 ^ (7 * i)" using 1(3) by (simp add: a'_def)
      also have "\<dots> = (n mod 128 + 1) * 2 ^ (7 * i)" by simp
      also have "\<dots> \<le> 128 * 2 ^ (7 * i)"
        by (intro mult_right_mono) (use mod_less_divisor [of 128 n] in linarith)+
      also have "\<dots> = 2 ^ (7 * (i + 1))" by (simp add: power_add)
      finally show ?thesis .
    qed
    moreover have "(i + 1) + length (lb_wire (n div 128)) \<le> 4" using 1(2) len by simp
    ultimately have IH: "Uvarint_loop (lb_wire (n div 128) @ rest) (i + 1) (word_of_nat a') (7 * (i + 1)) =
        (word_of_nat (a' + n div 128 * 2 ^ (7 * (i + 1))), int (i + 1 + length (lb_wire (n div 128))))"
      using 1(1) [OF False] by blast
    have or: "word_of_nat a OR push_bit (7 * i) (ucast (hd (lb_wire n) AND 0x7f)) = (word_of_nat a' :: u64)"
      using word_or_push [OF 1(3), of "n mod 128"] by (simp only: lb_byte_value a'_def)
    have "Uvarint_loop (lb_wire n @ rest) i (word_of_nat a) (7 * i) =
        Uvarint_loop (lb_wire (n div 128) @ rest) (i + 1) (word_of_nat a') (7 * (i + 1))"
      using i False by (simp only: split Uvarint_loop.simps hd_lb_wire_less or tl_lb_wire) (simp add: add.commute)
    moreover have "a' + n div 128 * 2 ^ (7 * (i + 1)) = a + n * 2 ^ (7 * i)"
    proof -
      have "(n mod 128) * 2 ^ (7 * i) + n div 128 * 2 ^ (7 * (i + 1)) = (n mod 128 + n div 128 * 128) * 2 ^ (7 * i)"
        unfolding distrib_right by (simp add: power_add ac_simps)
      then show ?thesis by (simp add: a'_def)
    qed
    ultimately show ?thesis using IH len by simp
  qed
qed

theorem Uvarint_wire:
  "n < 268435456 \<Longrightarrow> Uvarint (lb_wire n @ rest) = (word_of_nat n, int (length (lb_wire n)))"
  using Uvarint_loop_wire [of 0 n 0 rest] length_lb_wire(2) [of n] by (simp add: Uvarint_def)

lemma drop_bit_7: "unat (drop_bit 7 x :: u64) = unat x div 128"
  by (simp add: drop_bit_eq_div unat_div_distrib)

lemma uvarint_bytes_wire: "uvarint_bytes x = lb_wire (unat x)"
proof (induction x rule: uvarint_bytes.induct)
  case (1 x)
  have b: "unat (ucast x :: byte) = unat x mod 256"
    by (simp add: unsigned_ucast_eq take_bit_eq_mod)
  show ?case
  proof (cases "x \<ge> 0x80")
    case True
    have "unat x mod 256 mod 128 = unat x mod 128" by (simp add: mod_mod_cancel)
    then have "(ucast x :: byte) OR 0x80 = word_of_nat (unat x mod 128 + 128)"
      by (simp only: byte_or_high b)
    moreover have "\<not> unat x < 128" using True by (simp add: word_le_nat_alt)
    ultimately show ?thesis
      using 1 True by (subst uvarint_bytes.simps, subst lb_wire.simps) (simp only: drop_bit_7 if_True if_False)
  next
    case False
    then have "unat x < 128" by (simp add: word_le_nat_alt)
    moreover have "(ucast x :: byte) = word_of_nat (unat x)" by (metis of_nat_unat)
    ultimately show ?thesis
      using False by (subst uvarint_bytes.simps, subst lb_wire.simps) (simp only: if_True if_False)
  qed
qed

section \<open>Integers and strings\<close>

text \<open>\<open>binary.BigEndian\<close> on two and four bytes.\<close>

definition u16_of :: "byte \<Rightarrow> byte \<Rightarrow> u16" where
  "u16_of a b = push_bit 8 (ucast a) OR ucast b"

definition u16_bytes :: "u16 \<Rightarrow> bytes" where
  "u16_bytes v = [ucast (drop_bit 8 v), ucast v]"

definition u32_of :: "byte \<Rightarrow> byte \<Rightarrow> byte \<Rightarrow> byte \<Rightarrow> u32" where
  "u32_of a b c d = push_bit 24 (ucast a) OR push_bit 16 (ucast b) OR push_bit 8 (ucast c) OR ucast d"

definition u32_bytes :: "u32 \<Rightarrow> bytes" where
  "u32_bytes v = [ucast (drop_bit 24 v), ucast (drop_bit 16 v), ucast (drop_bit 8 v), ucast v]"

lemma length_int_bytes [simp]: "length (u16_bytes v) = 2" "length (u32_bytes w) = 4"
  by (simp_all add: u16_bytes_def u32_bytes_def)

lemma u16_roundtrip: "u16_of (ucast (drop_bit 8 v)) (ucast v) = v"
  by (rule bit_word_eqI) (auto simp: u16_of_def bit_simps)

lemma u32_roundtrip:
  "u32_of (ucast (drop_bit 24 v)) (ucast (drop_bit 16 v)) (ucast (drop_bit 8 v)) (ucast v) = v"
proof (rule bit_word_eqI)
  fix n
  assume "n < LENGTH(32)"
  then show "bit (u32_of (ucast (drop_bit 24 v)) (ucast (drop_bit 16 v)) (ucast (drop_bit 8 v)) (ucast v)) n = bit v n"
    by (cases "24 \<le> n"; cases "16 \<le> n"; cases "8 \<le> n"; auto simp: u32_of_def bit_simps)
qed

text \<open>\<open>CopyLen\<close>, for an \<open>n\<close> that is a length.\<close>

definition CopyLen :: "bytes \<Rightarrow> nat \<Rightarrow> bytes" where
  "CopyLen data n =
     (if n = 0 \<or> length data = 0 then []
      else if n > length data then take (length data) data else take n data)"

lemma CopyLen_take: "CopyLen data n = take n data"
  by (simp add: CopyLen_def)

definition Success :: byte where "Success = 0"
definition InvalidMessage :: byte where "InvalidMessage = 0x81"
definition ProtocolError :: byte where "ProtocolError = 0x82"

text \<open>A read: the value, the number of bytes consumed, the error.\<close>

type_synonym 'a read = "('a \<times> nat \<times> goerr option) option"

definition readLPBytes :: "slice \<Rightarrow> bytes read" where
  "readLPBytes buf =
     (if slen buf < 2 then Some ([], 0, Some (Reason InvalidMessage))
      else let n = unat (u16_of (vis buf ! 0) (vis buf ! 1))
        in if slen buf < n then Some ([], 2, Some (Reason InvalidMessage))
           else case srange buf 2 (n + 2) of
             None \<Rightarrow> None
           | Some s \<Rightarrow> Some (CopyLen (vis s) n, n + 2, None))"

definition UserProperty :: byte where "UserProperty = 0x26"
definition ReasonString :: byte where "ReasonString = 0x1F"
definition DefiningIdentifiers :: byte where "DefiningIdentifiers = 0x0B"
definition LoadFormatDescription :: byte where "LoadFormatDescription = 0x01"
definition MessageExpirationTime :: byte where "MessageExpirationTime = 0x02"
definition ContentType :: byte where "ContentType = 0x03"
definition ResponseTopic :: byte where "ResponseTopic = 0x08"
definition RelatedData :: byte where "RelatedData = 0x09"

text \<open>
  The loop of \<open>decodeUserProperty\<close>. A string that ends beyond the slice moves \<open>total\<close> past its
  end, and the slice expression \<open>src[total:]\<close> that follows panics.
\<close>

function userProperty_loop :: "slice \<Rightarrow> nat \<Rightarrow> bytes list \<Rightarrow> bytes list read" where
  "userProperty_loop src tot ups =
     (if at_is src tot UserProperty then
        (case Option.bind (sfrom src (tot + 1)) readLPBytes of
           None \<Rightarrow> None
         | Some (tu, n, Some e) \<Rightarrow> Some (ups, tot + 1 + n, Some e)
         | Some (tu, n, None) \<Rightarrow>
             (case Option.bind (sfrom src (tot + 1 + n)) readLPBytes of
                None \<Rightarrow> None
              | Some (tu', n', Some e) \<Rightarrow> Some (ups @ [tu], tot + 1 + n + n', Some e)
              | Some (tu', n', None) \<Rightarrow> userProperty_loop src (tot + 1 + n + n') (ups @ [tu, tu'])))
      else Some (ups, tot, None))"
  by pat_completeness auto
termination
  by (relation "measure (\<lambda>(src, tot, ups). slen src - tot)") (auto simp: at_is_def)

declare userProperty_loop.simps [simp del]

definition decodeUserProperty :: "slice \<Rightarrow> bytes list read" where
  "decodeUserProperty src = userProperty_loop src 0 []"

section \<open>Writing\<close>

text \<open>
  A writer into a destination at an offset: \<open>w_bytes\<close> stands for indexed stores and for
  \<open>PutUint16\<close>, which panic at the end of the slice. A writer to a \<open>bytes.Buffer\<close> appends; the
  offset it returns is \<open>dst.Len()\<close>.
\<close>

definition w_bytes :: "bytes \<Rightarrow> bytes \<Rightarrow> nat \<Rightarrow> bytes outcome" where
  "w_bytes bs dst t =
     (if t + length bs \<le> length dst then Ret (take t dst @ bs @ drop (t + length bs) dst) (t + length bs) else Panic)"

definition b_bytes :: "bytes \<Rightarrow> bytes \<Rightarrow> nat \<Rightarrow> bytes outcome" where
  "b_bytes bs buf t = Ret (buf @ bs) (length buf + length bs)"

definition writeLPBytes :: "bytes \<Rightarrow> bytes \<Rightarrow> nat \<Rightarrow> bytes outcome" where
  "writeLPBytes b dst t =
     (if t > length dst then Panic
      else if length b > 65535 then Fail dst (int t) (Errorf ''utils/writeLPBytes: Length greater than bytes'')
      else if length dst - t < 2 + length b
        then Fail dst (int t) (Errorf ''utils/writeLPBytes: Insufficient buffer size'')
      else w_bytes (u16_bytes (word_of_nat (length b)) @ b) dst t)"

definition writeToBufLPBytes :: "bytes \<Rightarrow> bytes \<Rightarrow> nat \<Rightarrow> bytes outcome" where
  "writeToBufLPBytes b buf t =
     (if length b > 65535 then Fail buf (int (length buf)) (Errorf ''utils/writeLPBytes: Length greater than bytes'')
      else b_bytes ([word_of_nat (length b div 256), word_of_nat (length b)] @ b) buf t)"

definition w_string :: "bytes \<Rightarrow> bytes \<Rightarrow> nat \<Rightarrow> bytes outcome" where
  "w_string b = (if length b = 0 then w_bytes [0, 0] else writeLPBytes b)"

definition b_string :: "bytes \<Rightarrow> bytes \<Rightarrow> nat \<Rightarrow> bytes outcome" where
  "b_string b = (if length b = 0 then b_bytes [0, 0] else writeToBufLPBytes b)"

fun writeUserProperty :: "bytes list \<Rightarrow> bytes \<Rightarrow> nat \<Rightarrow> bytes outcome" where
  "writeUserProperty [] = Ret"
| "writeUserProperty [k] = run [w_bytes [UserProperty], w_string k, w_bytes [0, 0]]"
| "writeUserProperty (k # v # ups) =
     run [w_bytes [UserProperty], w_string k, w_string v, writeUserProperty ups]"

fun writeUserPropertyByBuf :: "bytes list \<Rightarrow> bytes \<Rightarrow> nat \<Rightarrow> bytes outcome" where
  "writeUserPropertyByBuf [] = (\<lambda>buf t. Ret buf (length buf))"
| "writeUserPropertyByBuf [k] = run [b_bytes [UserProperty], b_string k, b_bytes [0, 0]]"
| "writeUserPropertyByBuf (k # v # ups) =
     run [b_bytes [UserProperty], b_string k, b_string v, writeUserPropertyByBuf ups]"

fun buildUserPropertyLen :: "bytes list \<Rightarrow> nat" where
  "buildUserPropertyLen [] = 0"
| "buildUserPropertyLen [k] = 1 + 2 + length k + 2"
| "buildUserPropertyLen (k # v # ups) = 1 + 2 + length k + 2 + length v + buildUserPropertyLen ups"

section \<open>What the primitives put on the wire\<close>

definition lp_wire :: "bytes \<Rightarrow> bytes" where
  "lp_wire b = u16_bytes (word_of_nat (length b)) @ b"

fun up_wire :: "bytes list \<Rightarrow> bytes" where
  "up_wire [] = []"
| "up_wire [k] = UserProperty # lp_wire k @ lp_wire []"
| "up_wire (k # v # ups) = UserProperty # lp_wire k @ lp_wire v @ up_wire ups"

definition short :: "bytes \<Rightarrow> bool" where "short b \<longleftrightarrow> length b \<le> 65535"

lemma length_wire: "length (lp_wire b) = 2 + length b" "length (up_wire ups) = buildUserPropertyLen ups"
  by (simp add: lp_wire_def) (induction ups rule: up_wire.induct; simp add: lp_wire_def)

definition emits_w :: "(bytes \<Rightarrow> nat \<Rightarrow> bytes outcome) \<Rightarrow> bytes \<Rightarrow> bool" where
  "emits_w w bs \<longleftrightarrow>
     (\<forall>dst t. t + length bs \<le> length dst \<longrightarrow>
        w dst t = Ret (take t dst @ bs @ drop (t + length bs) dst) (t + length bs))"

definition emits_b :: "(bytes \<Rightarrow> nat \<Rightarrow> bytes outcome) \<Rightarrow> bytes \<Rightarrow> bool" where
  "emits_b w bs \<longleftrightarrow> (\<forall>buf t. t = length buf \<longrightarrow> w buf t = Ret (buf @ bs) (length buf + length bs))"

lemma emits_wD:
  "emits_w w bs \<Longrightarrow> t + length bs \<le> length dst \<Longrightarrow>
     w dst t = Ret (take t dst @ bs @ drop (t + length bs) dst) (t + length bs)"
  by (simp add: emits_w_def)

lemma emits_bD: "emits_b w bs \<Longrightarrow> t = length buf \<Longrightarrow> w buf t = Ret (buf @ bs) (length buf + length bs)"
  by (simp add: emits_b_def)

named_theorems emits \<open>what a writer emits\<close>

lemma emits_w_Nil [emits]: "emits_w (run []) []" "emits_w Ret []"
  by (simp_all add: emits_w_def)

lemma emits_w_Cons [emits]:
  assumes "emits_w w xs" "emits_w (run ws) ys"
  shows "emits_w (run (w # ws)) (xs @ ys)"
  unfolding emits_w_def
proof (intro allI impI)
  fix dst :: bytes and t
  assume t: "t + length (xs @ ys) \<le> length dst"
  define dst' where "dst' = take t dst @ xs @ drop (t + length xs) dst"
  have 1: "w dst t = Ret dst' (t + length xs)"
    using assms(1) t by (simp add: emits_w_def dst'_def)
  have 2: "run ws dst' (t + length xs) = Ret (take (t + length xs) dst' @ ys @ drop (t + length xs + length ys) dst') (t + length xs + length ys)"
    using assms(2) t by (simp add: emits_w_def dst'_def)
  show "run (w # ws) dst t = Ret (take t dst @ (xs @ ys) @ drop (t + length (xs @ ys)) dst) (t + length (xs @ ys))"
    using t by (simp add: 1 2 add.assoc) (simp add: dst'_def ac_simps)
qed

lemma emits_b_Nil [emits]: "emits_b (run []) []" "emits_b Ret []"
  by (simp_all add: emits_b_def)

lemma emits_b_Cons [emits]:
  assumes "emits_b w xs" "emits_b (run ws) ys"
  shows "emits_b (run (w # ws)) (xs @ ys)"
  unfolding emits_b_def
proof (intro allI impI)
  fix buf :: bytes and t
  assume t: "t = length buf"
  have "w buf t = Ret (buf @ xs) (length buf + length xs)"
    using assms(1) t by (simp add: emits_b_def)
  moreover have "run ws (buf @ xs) (length (buf @ xs)) = Ret ((buf @ xs) @ ys) (length (buf @ xs) + length ys)"
    using assms(2) unfolding emits_b_def by blast
  ultimately show "run (w # ws) buf t = Ret (buf @ (xs @ ys)) (length buf + length (xs @ ys))"
    by simp
qed

lemma emits_bytes [emits]: "emits_w (w_bytes bs) bs" "emits_b (b_bytes bs) bs"
  by (simp_all add: emits_w_def emits_b_def w_bytes_def b_bytes_def)

lemma emits_lp [emits]:
  "short b \<Longrightarrow> emits_w (writeLPBytes b) (lp_wire b)" "short b \<Longrightarrow> emits_b (writeToBufLPBytes b) (lp_wire b)"
proof -
  assume b: "short b"
  show "emits_w (writeLPBytes b) (lp_wire b)"
    using b by (auto simp: emits_w_def writeLPBytes_def w_bytes_def lp_wire_def short_def)
  have "ucast (drop_bit 8 (word_of_nat (length b) :: u16)) = (word_of_nat (length b div 256) :: byte)"
    using b by (simp add: word_unat_eq_iff unsigned_ucast_eq unat_of_nat drop_bit_eq_div unat_div_distrib short_def take_bit_eq_mod)
  moreover have "ucast (word_of_nat (length b) :: u16) = (word_of_nat (length b) :: byte)"
    by (simp add: word_unat_eq_iff unsigned_ucast_eq unat_of_nat take_bit_eq_mod mod_mod_cancel)
  ultimately show "emits_b (writeToBufLPBytes b) (lp_wire b)"
    using b by (simp add: emits_b_def writeToBufLPBytes_def b_bytes_def lp_wire_def u16_bytes_def short_def)
qed

lemma hd_lp_wire: "short b \<Longrightarrow> hd (lp_wire b) = word_of_nat (length b div 256)"
  by (simp add: lp_wire_def u16_bytes_def word_unat_eq_iff unsigned_ucast_eq unat_of_nat drop_bit_eq_div
      unat_div_distrib short_def take_bit_eq_mod)

lemma hd_lp_wire_neq:
  assumes "short b" "length b < 256 * unat pid" shows "hd (lp_wire b) \<noteq> pid"
proof -
  have "length b div 256 < unat pid" using assms(2) by (simp add: less_mult_imp_div_less mult.commute)
  moreover have "unat (word_of_nat (length b div 256) :: byte) = length b div 256"
    using assms(1) by (intro unat_small) (simp add: short_def)
  ultimately show ?thesis by (auto simp: hd_lp_wire [OF assms(1)])
qed

lemma lp_wire_Nil: "lp_wire [] = [0, 0]"
  by (simp add: lp_wire_def u16_bytes_def)

lemma emits_string [emits]:
  "short b \<Longrightarrow> emits_w (w_string b) (lp_wire b)" "short b \<Longrightarrow> emits_b (b_string b) (lp_wire b)"
  using emits_bytes(1) [of "[0, 0]"] emits_bytes(2) [of "[0, 0]"]
  by (cases b; simp add: w_string_def b_string_def emits_lp lp_wire_Nil)+

lemma emits_userProperty [emits]:
  "list_all short ups \<Longrightarrow> emits_w (writeUserProperty ups) (up_wire ups)"
  "list_all short ups \<Longrightarrow> emits_b (writeUserPropertyByBuf ups) (up_wire ups)"
proof -
  show "emits_w (writeUserProperty ups) (up_wire ups)" if "list_all short ups"
    using that
  proof (induction ups rule: up_wire.induct)
    case (2 k)
    have "emits_w (writeUserProperty [k]) ([UserProperty] @ lp_wire k @ [0, 0] @ [])"
      unfolding writeUserProperty.simps using 2 by (intro emits) simp_all
    then show ?case by (simp only: append.simps append_Nil2 lp_wire_Nil up_wire.simps)
  next
    case (3 k v ups)
    have "emits_w (writeUserProperty (k # v # ups)) ([UserProperty] @ lp_wire k @ lp_wire v @ up_wire ups @ [])"
      unfolding writeUserProperty.simps using 3 by (intro emits) simp_all
    then show ?case by (simp only: append.simps append_Nil2 up_wire.simps)
  qed (simp add: emits)
  show "emits_b (writeUserPropertyByBuf ups) (up_wire ups)" if "list_all short ups"
    using that
  proof (induction ups rule: up_wire.induct)
    case 1
    then show ?case by (simp add: emits_b_def)
  next
    case (2 k)
    have "emits_b (writeUserPropertyByBuf [k]) ([UserProperty] @ lp_wire k @ [0, 0] @ [])"
      unfolding writeUserPropertyByBuf.simps using 2 by (intro emits) simp_all
    then show ?case by (simp only: append.simps append_Nil2 lp_wire_Nil up_wire.simps)
  next
    case (3 k v ups)
    have "emits_b (writeUserPropertyByBuf (k # v # ups)) ([UserProperty] @ lp_wire k @ lp_wire v @ up_wire ups @ [])"
      unfolding writeUserPropertyByBuf.simps using 3 by (intro emits) simp_all
    then show ?case by (simp only: append.simps append_Nil2 up_wire.simps)
  qed
qed

section \<open>Reading back\<close>

lemma readLPBytes_wire:
  assumes "short b"
  shows "readLPBytes (Slice (lp_wire b @ rest) ex) = Some (b, 2 + length b, None)"
proof -
  have n: "unat (u16_of (ucast (drop_bit 8 (word_of_nat (length b) :: u16))) (ucast (word_of_nat (length b) :: u16))) = length b"
    using assms by (simp add: u16_roundtrip short_def unat_small)
  show ?thesis
    by (simp add: readLPBytes_def slen_def srange_def lp_wire_def u16_bytes_def n CopyLen_take Let_def)
qed

lemma userProperty_loop_wire:
  "list_all short ups \<Longrightarrow> even (length ups) \<Longrightarrow> rest = [] \<or> hd rest \<noteq> UserProperty \<Longrightarrow>
     userProperty_loop (Slice (pre @ up_wire ups @ rest) ex) (length pre) acc =
       Some (acc @ ups, length pre + length (up_wire ups), None)"
proof (induction ups arbitrary: pre acc rule: up_wire.induct)
  case 1
  then show ?case by (subst userProperty_loop.simps) (auto simp: at_is_app)
next
  case (2 k)
  then show ?case by simp
next
  case (3 k v ups)
  define src where "src = pre @ up_wire (k # v # ups) @ rest"
  define pre1 where "pre1 = pre @ [UserProperty]"
  define pre2 where "pre2 = pre1 @ lp_wire k"
  define pre3 where "pre3 = pre2 @ lp_wire v"
  have s1: "src = pre1 @ lp_wire k @ lp_wire v @ up_wire ups @ rest"
    and s2: "src = pre2 @ lp_wire v @ up_wire ups @ rest" and s3: "src = pre3 @ up_wire ups @ rest"
    by (simp_all add: src_def pre1_def pre2_def pre3_def)
  have len: "length pre1 = length pre + 1" "length pre2 = length pre + 1 + (2 + length k)"
    "length pre3 = length pre + 1 + (2 + length k) + (2 + length v)"
    by (simp_all add: pre1_def pre2_def pre3_def length_wire)
  have h: "at_is (Slice src ex) (length pre) UserProperty"
    by (simp add: src_def at_is_app)
  have r1: "Option.bind (sfrom (Slice src ex) (length pre + 1)) readLPBytes = Some (k, 2 + length k, None)"
    using sfrom_app [of pre1 _ ex] 3(2) by (simp add: s1 len readLPBytes_wire)
  have r2: "Option.bind (sfrom (Slice src ex) (length pre + 1 + (2 + length k))) readLPBytes = Some (v, 2 + length v, None)"
    using sfrom_app [of pre2 _ ex] 3(2) by (simp add: s2 len readLPBytes_wire)
  have "userProperty_loop (Slice src ex) (length pre) acc = userProperty_loop (Slice src ex) (length pre3) (acc @ [k, v])"
    using h r1 r2 by (subst userProperty_loop.simps) (simp add: len)
  also have "\<dots> = Some ((acc @ [k, v]) @ ups, length pre3 + length (up_wire ups), None)"
    using 3(1) [of pre3 "acc @ [k, v]"] 3(2,3,4) by (simp add: s3)
  finally show ?case by (simp add: src_def len length_wire)
qed

theorem decodeUserProperty_wire:
  "list_all short ups \<Longrightarrow> even (length ups) \<Longrightarrow> rest = [] \<or> hd rest \<noteq> UserProperty \<Longrightarrow>
     decodeUserProperty (Slice (up_wire ups @ rest) ex) = Some (ups, length (up_wire ups), None)"
  using userProperty_loop_wire [of ups rest "[]" ex "[]"] by (simp add: decodeUserProperty_def)

section \<open>Steps of the message codecs\<close>

definition read_lp :: "slice \<Rightarrow> nat \<Rightarrow> bytes read" where
  "read_lp src t = Option.bind (sfrom src t) readLPBytes"

definition read_up :: "slice \<Rightarrow> nat \<Rightarrow> bytes list read" where
  "read_up src t = Option.bind (sfrom src t) decodeUserProperty"

definition read_lb :: "slice \<Rightarrow> nat \<Rightarrow> u32 read" where
  "read_lb src t = Option.bind (sfrom src t) (\<lambda>s. lbDecode (vis s))"

text \<open>Assign what was read, advance, and return on an error.\<close>

definition assign :: "'a read \<Rightarrow> ('a \<Rightarrow> 's \<Rightarrow> 's) \<Rightarrow> 's \<Rightarrow> nat \<Rightarrow> 's outcome" where
  "assign r f s t =
     (case r of
        None \<Rightarrow> Panic
      | Some (v, n, None) \<Rightarrow> Ret (f v s) (t + n)
      | Some (v, n, Some e) \<Rightarrow> Fail (f v s) (int (t + n)) e)"

text \<open>\<open>copy(dst[total:], b)\<close>, which copies what fits.\<close>

definition w_copy :: "bytes \<Rightarrow> bytes \<Rightarrow> nat \<Rightarrow> bytes outcome" where
  "w_copy bs dst t =
     (if t > length dst then Panic
      else Ret (take (length dst) (take t dst @ bs) @ drop (t + length bs) dst) (t + length bs))"

definition w_lb :: "u32 \<Rightarrow> bytes \<Rightarrow> nat \<Rightarrow> bytes outcome" where
  "w_lb v = (case lbEncode v of None \<Rightarrow> (\<lambda>dst t. Panic) | Some b \<Rightarrow> w_copy b)"

definition b_lb :: "u32 \<Rightarrow> bytes \<Rightarrow> nat \<Rightarrow> bytes outcome" where
  "b_lb v = (case lbEncode v of None \<Rightarrow> (\<lambda>dst t. Panic) | Some b \<Rightarrow> b_bytes b)"

text \<open>A call whose error is dropped.\<close>

definition ignore_err :: "('s \<Rightarrow> nat \<Rightarrow> 's outcome) \<Rightarrow> 's \<Rightarrow> nat \<Rightarrow> 's outcome" where
  "ignore_err w s t = (case w s t of Fail s' t' e \<Rightarrow> Ret s' (nat t') | r \<Rightarrow> r)"

lemma emits_copy [emits]: "emits_w (w_copy bs) bs"
  by (simp add: emits_w_def w_copy_def)

lemma emits_lb [emits]:
  "v < 268435456 \<Longrightarrow> emits_w (w_lb v) (lb_wire (unat v))"
  "v < 268435456 \<Longrightarrow> emits_b (b_lb v) (lb_wire (unat v))"
  by (simp_all add: w_lb_def b_lb_def lbEncode_spec emits)

lemma emits_ignore [emits]: "emits_w w bs \<Longrightarrow> emits_w (ignore_err w) bs"
  by (simp add: emits_w_def ignore_err_def)

lemma emits_if [emits]:
  "(c \<Longrightarrow> emits_w w bs) \<Longrightarrow> (\<not> c \<Longrightarrow> emits_w w' bs') \<Longrightarrow> emits_w (if c then w else w') (if c then bs else bs')"
  "(c \<Longrightarrow> emits_b w bs) \<Longrightarrow> (\<not> c \<Longrightarrow> emits_b w' bs') \<Longrightarrow> emits_b (if c then w else w') (if c then bs else bs')"
  by simp_all

lemma emits_guarded [emits]:
  "(c \<Longrightarrow> emits_w w bs) \<Longrightarrow> emits_w (guarded c w) (if c then bs else [])"
  "(c \<Longrightarrow> emits_b w bs) \<Longrightarrow> emits_b (guarded c w) (if c then bs else [])"
  by (cases c; simp add: emits)+

text \<open>Reading what a writer emitted, in the middle of a packet.\<close>

lemma reads_wire [codec_simps]:
  "short b \<Longrightarrow> read_lp (Slice (pre @ lp_wire b @ rest) ex) (length pre) = Some (b, 2 + length b, None)"
  "n < 268435456 \<Longrightarrow>
     read_lb (Slice (pre @ lb_wire n @ rest) ex) (length pre) = Some (word_of_nat n, length (lb_wire n), None)"
  "list_all short ups \<Longrightarrow> even (length ups) \<Longrightarrow> rest = [] \<or> hd rest \<noteq> UserProperty \<Longrightarrow>
     read_up (Slice (pre @ up_wire ups @ rest) ex) (length pre) = Some (ups, length (up_wire ups), None)"
  by (simp_all add: read_lp_def read_lb_def read_up_def sfrom_app readLPBytes_wire lbDecode_wire decodeUserProperty_wire)

end
