(* ===== verification/Header.thy ===== *)
theory Header
  imports Codec TopicLevel
begin

text \<open>
  The fixed header of \<open>corev5/v2/message/header.go\<close>: the record every message embeds (message
  records extend it), its setters, its encoding and its decoding, and the message types of
  \<open>message.go\<close>.
\<close>

section \<open>Message types\<close>

definition PUBLISH :: byte where "PUBLISH = 3"
definition PUBACK :: byte where "PUBACK = 4"
definition PUBREC :: byte where "PUBREC = 5"
definition PUBREL :: byte where "PUBREL = 6"
definition PUBCOMP :: byte where "PUBCOMP = 7"
definition SUBSCRIBE :: byte where "SUBSCRIBE = 8"
definition SUBACK :: byte where "SUBACK = 9"
definition UNSUBSCRIBE :: byte where "UNSUBSCRIBE = 10"
definition UNSUBACK :: byte where "UNSUBACK = 11"
definition PINGREQ :: byte where "PINGREQ = 12"
definition PINGRESP :: byte where "PINGRESP = 13"
definition DISCONNECT :: byte where "DISCONNECT = 14"
definition AUTH :: byte where "AUTH = 15"

lemmas type_defs = PUBLISH_def PUBACK_def PUBREC_def PUBREL_def PUBCOMP_def SUBSCRIBE_def SUBACK_def
  UNSUBSCRIBE_def UNSUBACK_def PINGREQ_def PINGRESP_def DISCONNECT_def AUTH_def

definition type_Valid :: "byte \<Rightarrow> bool" where
  "type_Valid mtype \<longleftrightarrow> mtype > 0 \<and> mtype < 16"

definition DefaultFlags :: "byte \<Rightarrow> byte" where
  "DefaultFlags mtype = (if mtype = PUBREL \<or> mtype = SUBSCRIBE \<or> mtype = UNSUBSCRIBE then 2 else 0)"

section \<open>The header\<close>

definition maxRemainingLength :: u32 where "maxRemainingLength = 268435455"

record header =
  remlen :: u32
  mtypeflags :: bytes
  packetId :: bytes
  dbuf :: slice
  dirty :: bool

definition empty_header :: header where
  "empty_header = \<lparr>remlen = 0, mtypeflags = [], packetId = [], dbuf = Slice [] [], dirty = False\<rparr>"

text \<open>\<open>Type()\<close> allocates the flags byte where it is missing.\<close>

definition alloc_flags :: "'a header_scheme \<Rightarrow> 'a header_scheme" where
  "alloc_flags h = (if length (mtypeflags h) \<noteq> 1 then h\<lparr>mtypeflags := [0], dirty := True\<rparr> else h)"

definition mtype :: "'a header_scheme \<Rightarrow> byte" where
  "mtype h = drop_bit 4 (mtypeflags (alloc_flags h) ! 0)"

definition Flags :: "'a header_scheme \<Rightarrow> byte" where
  "Flags h = mtypeflags h ! 0 AND 0x0f"

definition SetType :: "byte \<Rightarrow> 'a header_scheme \<Rightarrow> 'a header_scheme \<times> goerr option" where
  "SetType mt h =
     (if \<not> type_Valid mt then (h, Some (Errorf ''header/SetType: Invalid control packet type''))
      else ((alloc_flags h)\<lparr>mtypeflags := [push_bit 4 mt OR (DefaultFlags mt AND 0xf)]\<rparr>, None))"

definition SetRemainingLength :: "u32 \<Rightarrow> 'a header_scheme \<Rightarrow> 'a header_scheme \<times> goerr option" where
  "SetRemainingLength n h =
     (if n > maxRemainingLength then (h, Some (Errorf ''header/SetLength: Remaining length out of bound''))
      else (h\<lparr>remlen := n, dirty := True\<rparr>, None))"

definition PacketId :: "'a header_scheme \<Rightarrow> u16" where
  "PacketId h = (if length (packetId h) = 2 then u16_of (packetId h ! 0) (packetId h ! 1) else 0)"

definition SetPacketId :: "u16 \<Rightarrow> 'a header_scheme \<Rightarrow> 'a header_scheme" where
  "SetPacketId v h =
     (if v = 0 then h
      else (if length (packetId h) \<noteq> 2 then h\<lparr>dirty := True\<rparr> else h)\<lparr>packetId := u16_bytes v\<rparr>)"

definition hmsglen :: "'a header_scheme \<Rightarrow> nat" where
  "hmsglen h =
     1 + (if remlen h \<le> 127 then 1 else if remlen h \<le> 16383 then 2 else if remlen h \<le> 2097151 then 3 else 4)"

section \<open>Encoding\<close>

definition hencode :: "'a header_scheme \<Rightarrow> bytes \<Rightarrow> nat \<Rightarrow> 'a header_scheme \<times> bytes outcome" where
  "hencode h dst t =
     (if length dst - t < hmsglen h then (h, Fail dst (int t) (Errorf ''header/Encode: Insufficient buffer size''))
      else if remlen h > maxRemainingLength
        then (h, Fail dst (int t) (Errorf ''header/Encode: Remaining length out of bound''))
      else if \<not> type_Valid (mtype h)
        then (alloc_flags h, Fail dst (int t) (Errorf ''header/Encode: Invalid message type''))
      else (alloc_flags h,
            run [w_bytes [mtypeflags (alloc_flags h) ! 0], w_bytes (uvarint_bytes (ucast (remlen h)))] dst t))"

definition hencodeToBuf :: "'a header_scheme \<Rightarrow> bytes \<Rightarrow> 'a header_scheme \<times> bytes outcome" where
  "hencodeToBuf h buf =
     (if remlen h > maxRemainingLength
        then (h, Fail buf 0 (Errorf ''header/Encode: Remaining length out of bound''))
      else if \<not> type_Valid (mtype h)
        then (alloc_flags h, Fail buf 0 (Errorf ''header/Encode: Invalid message type''))
      else (alloc_flags h,
            run [b_bytes [mtypeflags (alloc_flags h) ! 0], b_bytes (uvarint_bytes (ucast (remlen h)))] buf (length buf)))"

section \<open>Decoding\<close>

definition remlen_optional :: "byte \<Rightarrow> bool" where
  "remlen_optional mt \<longleftrightarrow> mt = PINGREQ \<or> mt = PINGRESP \<or> mt = AUTH \<or> mt = DISCONNECT"

definition hdecode :: "slice \<Rightarrow> 'a header_scheme \<Rightarrow> 'a header_scheme outcome" where
  "hdecode src h =
     (let h1 = alloc_flags (h\<lparr>dbuf := src\<rparr>); mt = mtype h1 in
      case srange src 0 1 of
        None \<Rightarrow> Panic
      | Some s \<Rightarrow>
        let h2 = h1\<lparr>mtypeflags := CopyLen (vis s) 1\<rparr> in
        if \<not> type_Valid (mtype h2) then Fail h2 0 (Reason InvalidMessage)
        else if mt \<noteq> mtype h2 then Fail h2 0 (Reason InvalidMessage)
        else if mtype h2 \<noteq> PUBLISH \<and> Flags h2 \<noteq> DefaultFlags (mtype h2) then Fail h2 0 (Reason InvalidMessage)
        else if mtype h2 = PUBLISH \<and> \<not> ValidQos (drop_bit 1 (Flags h2) AND 0x3)
          then Fail h2 0 (Reason InvalidMessage)
        else case sfrom src 1 of
          None \<Rightarrow> Panic
        | Some rest \<Rightarrow>
          let (rl, m) = Uvarint (vis rest); tot = 1 + m; h3 = h2\<lparr>remlen := ucast rl\<rparr> in
          if remlen h3 > maxRemainingLength \<or> (\<not> remlen_optional (mtype h3) \<and> rl = 0)
            then Fail h3 tot (Reason InvalidMessage)
          else if tot < 0 \<or> tot > int (slen src) then Panic
          else if unat (remlen h3) > slen src - nat tot then Fail h3 tot (Reason InvalidMessage)
          else Ret h3 (nat tot))"

section \<open>What the header puts on the wire\<close>

definition header_ok :: "'a header_scheme \<Rightarrow> bool" where
  "header_ok h \<longleftrightarrow> length (mtypeflags h) = 1 \<and> type_Valid (mtype h) \<and> remlen h \<le> maxRemainingLength"

definition header_wire :: "'a header_scheme \<Rightarrow> bytes" where
  "header_wire h = mtypeflags h ! 0 # lb_wire (unat (remlen h))"

lemma length_header_wire: "header_ok h \<Longrightarrow> length (header_wire h) = hmsglen h"
proof -
  assume "header_ok h"
  then have n: "unat (remlen h) < 268435456"
    by (simp add: header_ok_def maxRemainingLength_def word_le_nat_alt)
  have d: "unat (remlen h) div 128 div 128 = unat (remlen h) div 16384"
    "unat (remlen h) div 16384 div 128 = unat (remlen h) div 2097152"
    by (simp_all add: div_mult2_eq [symmetric])
  note u = lb_wire.simps [of "unat (remlen h)"] lb_wire.simps [of "unat (remlen h) div 128"]
    lb_wire.simps [of "unat (remlen h) div 16384"] lb_wire.simps [of "unat (remlen h) div 2097152"]
  show ?thesis
    using n by (simp add: header_wire_def hmsglen_def u d word_le_nat_alt div_less_iff_less_mult)
qed

lemma alloc_flags_ok [simp]: "header_ok h \<Longrightarrow> alloc_flags h = h"
  by (simp add: header_ok_def alloc_flags_def)

lemma unat_ucast_64: "unat (ucast (x :: u32) :: u64) = unat x"
proof -
  have "unat x < 2 ^ LENGTH(32)" by (rule unsigned_less)
  then have "unat x < 2 ^ 64" by simp
  then show ?thesis by (simp add: unsigned_ucast_eq take_bit_nat_eq_self)
qed

lemma hencode_ok:
  assumes "header_ok h" "hmsglen h \<le> length dst"
  shows "hencode h dst 0 = (h, Ret (header_wire h @ drop (hmsglen h) dst) (hmsglen h))"
proof -
  have w: "emits_w (run [w_bytes [mtypeflags h ! 0], w_bytes (uvarint_bytes (ucast (remlen h)))])
      ([mtypeflags h ! 0] @ uvarint_bytes (ucast (remlen h)) @ [])"
    by (intro emits)
  have u: "[mtypeflags h ! 0] @ uvarint_bytes (ucast (remlen h)) @ [] = header_wire h"
    by (simp add: header_wire_def uvarint_bytes_wire unat_ucast_64)
  show ?thesis
    using assms w [unfolded u emits_w_def, rule_format, of 0 dst] length_header_wire [OF assms(1)]
    by (simp add: hencode_def header_ok_def not_less)
qed

lemma hencodeToBuf_ok:
  assumes "header_ok h"
  shows "hencodeToBuf h buf = (h, Ret (buf @ header_wire h) (length buf + hmsglen h))"
proof -
  have w: "emits_b (run [b_bytes [mtypeflags h ! 0], b_bytes (uvarint_bytes (ucast (remlen h)))])
      ([mtypeflags h ! 0] @ uvarint_bytes (ucast (remlen h)) @ [])"
    by (intro emits)
  have u: "[mtypeflags h ! 0] @ uvarint_bytes (ucast (remlen h)) @ [] = header_wire h"
    by (simp add: header_wire_def uvarint_bytes_wire unat_ucast_64)
  show ?thesis
    using assms w [unfolded u emits_b_def, rule_format, of "length buf" buf] length_header_wire [OF assms(1)]
    by (simp add: hencodeToBuf_def header_ok_def not_less)
qed

definition flags_ok :: "'a header_scheme \<Rightarrow> bool" where
  "flags_ok h \<longleftrightarrow>
     (if mtype h = PUBLISH then ValidQos (drop_bit 1 (Flags h) AND 0x3) else Flags h = DefaultFlags (mtype h))"

lemma mtype_cong: "mtypeflags h = mtypeflags g \<Longrightarrow> mtype h = mtype g"
  by (simp add: mtype_def alloc_flags_def)

lemma flags_ok_cong: "mtypeflags h = mtypeflags g \<Longrightarrow> flags_ok h = flags_ok g"
  using mtype_cong [of h g] by (simp add: flags_ok_def Flags_def)

lemma hdecode_wire:
  fixes h :: "'a header_scheme" and m :: "'b header_scheme"
  assumes ok: "header_ok h" and flags: "flags_ok h"
    and body: "length body \<ge> unat (remlen h)" "remlen h \<noteq> 0 \<or> remlen_optional (mtype h)"
    and m: "length (mtypeflags m) = 1" "mtype m = mtype h"
  shows "hdecode (Slice (header_wire h @ body) ex) m =
    Ret (m\<lparr>dbuf := Slice (header_wire h @ body) ex, mtypeflags := mtypeflags h, remlen := remlen h\<rparr>) (hmsglen h)"
proof -
  define src where "src = Slice (header_wire h @ body) ex"
  define m2 where "m2 = m\<lparr>dbuf := src, mtypeflags := mtypeflags h\<rparr>"
  obtain f where f: "mtypeflags h = [f]" using ok by (cases "mtypeflags h") (auto simp: header_ok_def)
  have n: "unat (remlen h) < 268435456"
    using ok by (simp add: header_ok_def maxRemainingLength_def word_le_nat_alt)
  have alloc: "alloc_flags (m\<lparr>dbuf := src\<rparr>) = m\<lparr>dbuf := src\<rparr>" using m(1) by (simp add: alloc_flags_def)
  have r: "srange src 0 1 = Some (Slice [f] (lb_wire (unat (remlen h)) @ body @ ex))"
    by (simp add: src_def srange_def header_wire_def f)
  have s: "sfrom src 1 = Some (Slice (lb_wire (unat (remlen h)) @ body) ex)"
    by (simp add: src_def sfrom_def slen_def header_wire_def)
  have t: "mtype (m\<lparr>dbuf := src\<rparr>) = mtype h" "mtype m2 = mtype h"
    using m(2) mtype_cong [of "m\<lparr>dbuf := src\<rparr>" m] by (simp_all add: m2_def mtype_def alloc_flags_def)
  have m2: "m\<lparr>dbuf := src, mtypeflags := [f]\<rparr> = m2" by (simp add: m2_def f)
  have m2': "m2\<lparr>remlen := remlen h\<rparr> = m\<lparr>dbuf := src, mtypeflags := mtypeflags h, remlen := remlen h\<rparr>"
    by (simp add: m2_def)
  have nat1: "nat (1 + int k) = Suc k" for k by simp
  have t3: "mtype (m2\<lparr>remlen := remlen h\<rparr>) = mtype h"
    using t(2) mtype_cong [of "m2\<lparr>remlen := remlen h\<rparr>" m2] by simp
  have fl: "Flags m2 = Flags h" by (simp add: m2_def Flags_def)
  have len: "hmsglen h = Suc (length (lb_wire (unat (remlen h))))"
    using length_header_wire [OF ok] by (simp add: header_wire_def)
  have rl: "(ucast (ucast (remlen h) :: u64) :: u32) = remlen h"
    by (rule bit_word_eqI) (simp add: bit_simps)
  have rl0: "(ucast (remlen h) :: u64) = 0 \<longleftrightarrow> remlen h = 0"
    by (metis unat_ucast_64 unat_eq_zero)
  have v: "type_Valid (mtype h)" "\<not> remlen h > maxRemainingLength" using ok by (simp_all add: header_ok_def not_less)
  have c: "(mtype h \<noteq> PUBLISH \<and> Flags h \<noteq> DefaultFlags (mtype h)) = False"
    "(mtype h = PUBLISH \<and> \<not> ValidQos (drop_bit 1 (Flags h) AND 0x3)) = False"
    "(\<not> remlen_optional (mtype h) \<and> remlen h = 0) = False"
    using flags body(2) by (auto simp: flags_ok_def split: if_splits)
  have sl: "slen src = Suc (length (lb_wire (unat (remlen h)))) + length body"
    by (simp add: src_def slen_def header_wire_def)
  show ?thesis
    using body(1) v
    by (simp add: hdecode_def src_def [symmetric] Let_def alloc r s CopyLen_take m2 t fl
        c Uvarint_wire [OF n] rl rl0 sl len m2' [symmetric] nat1 t3 del: One_nat_def de_Morgan_conj)
qed

section \<open>Safety of decoding\<close>

lemma Uvarint_loop_range:
  "Uvarint_loop b i x s = (v, m) \<Longrightarrow> m \<le> int (i + length b) \<and> (m < 0 \<longrightarrow> v = 0)"
  by (induction b i x s rule: Uvarint_loop.induct) (force split: if_splits)+

lemma Uvarint_range: "Uvarint b = (v, m) \<Longrightarrow> m \<le> int (length b) \<and> (m < 0 \<longrightarrow> v = 0)"
  using Uvarint_loop_range [of b 0 0 0] by (simp add: Uvarint_def)

text \<open>C19: Decoding the fixed header panics only where the slice is empty or, for PINGREQ, PINGRESP, AUTH and
  DISCONNECT, where the remaining length overflows 64 bits (\<open>binary.Uvarint\<close> reports it by a negative count). Where it
  succeeds the header is well-formed: the type is the receiver's, the flags are allowed for it, the remaining length
  is within the maximum and within the slice.\<close>

theorem hdecode_safe:
  fixes m :: "'a header_scheme"
  shows "case hdecode src m of
      Panic \<Rightarrow> vis src = [] \<or> remlen_optional (mtype m) \<and> snd (Uvarint (tl (vis src))) < 0
    | Fail m' t e \<Rightarrow> True
    | Ret m' t \<Rightarrow> mtype m' = mtype m \<and> flags_ok m' \<and> remlen m' \<le> maxRemainingLength \<and> t \<le> slen src \<and>
        unat (remlen m') \<le> slen src - t"
proof (cases "vis src")
  case Nil
  then have "sfrom src 1 = None" by (simp add: sfrom_def slen_def)
  then show ?thesis using Nil by (auto simp: hdecode_def Let_def split: option.split outcome.split)
next
  case v: (Cons c cs)
  define m1 where "m1 = alloc_flags (m\<lparr>dbuf := src\<rparr>)"
  define m2 where "m2 = m1\<lparr>mtypeflags := take 1 (vis src)\<rparr>"
  have s: "\<exists>sp. srange src 0 1 = Some (Slice (take 1 (vis src)) sp)"
    by (auto simp: srange_def v)
  then obtain sp where s: "srange src 0 1 = Some (Slice (take 1 (vis src)) sp)" by blast
  have f: "sfrom src 1 = Some (Slice cs (spare src))" by (simp add: sfrom_def slen_def v)
  obtain rl n where u: "Uvarint cs = (rl, n)" by (cases "Uvarint cs")
  have un: "n \<le> int (length cs)" "n < 0 \<longrightarrow> rl = 0" using Uvarint_range [OF u] by simp_all
  have t: "mtype m1 = mtype m" by (simp add: m1_def mtype_def alloc_flags_def)
  define m3 where "m3 = m2\<lparr>remlen := ucast rl\<rparr>"
  have t3: "mtype m3 = mtype m2" by (rule mtype_cong) (simp add: m3_def)
  have f3: "flags_ok m3 = flags_ok m2" by (rule flags_ok_cong) (simp add: m3_def)
  have cl: "CopyLen (take 1 (vis src)) 1 = take 1 (vis src)" by (simp add: CopyLen_take)
  have fl: "flags_ok m2" if "\<not> (mtype m2 \<noteq> PUBLISH \<and> Flags m2 \<noteq> DefaultFlags (mtype m2))"
    "\<not> (mtype m2 = PUBLISH \<and> \<not> ValidQos (drop_bit 1 (Flags m2) AND 0x3))"
    using that by (auto simp: flags_ok_def)
  have eq: "hdecode src m =
     (if \<not> type_Valid (mtype m2) then Fail m2 0 (Reason InvalidMessage)
      else if mtype m \<noteq> mtype m2 then Fail m2 0 (Reason InvalidMessage)
      else if mtype m2 \<noteq> PUBLISH \<and> Flags m2 \<noteq> DefaultFlags (mtype m2) then Fail m2 0 (Reason InvalidMessage)
      else if mtype m2 = PUBLISH \<and> \<not> ValidQos (drop_bit 1 (Flags m2) AND 0x3)
        then Fail m2 0 (Reason InvalidMessage)
      else if remlen m3 > maxRemainingLength \<or> (\<not> remlen_optional (mtype m2) \<and> rl = 0)
        then Fail m3 (1 + n) (Reason InvalidMessage)
      else if 1 + n < 0 \<or> 1 + n > int (slen src) then Panic
      else if unat (remlen m3) > slen src - nat (1 + n) then Fail m3 (1 + n) (Reason InvalidMessage)
      else Ret m3 (nat (1 + n)))"
    unfolding hdecode_def Let_def m1_def [symmetric] s option.case slice.sel cl m2_def [symmetric] f u prod.case t m3_def [symmetric] t3
    by simp
  show ?thesis
    using un fl by (auto simp: eq t3 f3 slen_def v u not_less)
qed

text \<open>
  An overlong remaining length passes the range checks as 0 and makes the slice expression
  \<open>src[total:]\<close> panic.
\<close>

lemma hdecode_overlong_panics:
  "hdecode (Slice (0xE0 # replicate 10 0xFF @ [1]) []) (empty_header\<lparr>mtypeflags := [0xE0]\<rparr>) = Panic"
  by code_simp

end
