(* ===== verification/Steps.thy ===== *)
theory Steps
  imports Header
begin

text \<open>
  The steps the message decoders are made of: reading an integer, a string or the user properties
  into a field, the test of a property's identifier in front of it, and the test against a second
  occurrence behind it. A decoder is a sequence of such steps; \<open>consumes\<close> says what a step does on
  a packet in which its text stands next, and composes along the sequence.
\<close>

section \<open>Reads\<close>

definition rd_u8 :: "slice \<Rightarrow> nat \<Rightarrow> byte read" where
  "rd_u8 src t = (case sat src t of None \<Rightarrow> None | Some c \<Rightarrow> Some (c, 1, None))"

definition rd_u16 :: "slice \<Rightarrow> nat \<Rightarrow> u16 read" where
  "rd_u16 src t =
     (case sfrom src t of
        Some (Slice (a # b # r) ex) \<Rightarrow> Some (u16_of a b, 2, None)
      | _ \<Rightarrow> None)"

definition rd_u32 :: "slice \<Rightarrow> nat \<Rightarrow> u32 read" where
  "rd_u32 src t =
     (case sfrom src t of
        Some (Slice (a # b # c # d # r) ex) \<Rightarrow> Some (u32_of a b c d, 4, None)
      | _ \<Rightarrow> None)"

text \<open>\<open>CopyLen(src[total:total+2], 2)\<close>, the packet identifier.\<close>

definition rd_id :: "slice \<Rightarrow> nat \<Rightarrow> bytes read" where
  "rd_id src t = (case srange src t (t + 2) of None \<Rightarrow> None | Some s \<Rightarrow> Some (CopyLen (vis s) 2, 2, None))"

section \<open>Steps\<close>

text \<open>A step that runs only where the next byte is the identifier, which it skips.\<close>

definition prop_at :: "slice \<Rightarrow> byte \<Rightarrow> ('s \<Rightarrow> nat \<Rightarrow> 's outcome) \<Rightarrow> 's \<Rightarrow> nat \<Rightarrow> 's outcome" where
  "prop_at src pid b m t = (if at_is src t pid then b m (t + 1) else Ret m t)"

text \<open>A condition that ends the decoder with \<open>return 0, ProtocolError\<close>.\<close>

definition reject :: "(slice \<Rightarrow> 's \<Rightarrow> nat \<Rightarrow> bool) \<Rightarrow> slice \<Rightarrow> 's \<Rightarrow> nat \<Rightarrow> 's outcome" where
  "reject c src m t = (if c src m t then Fail m 0 (Reason ProtocolError) else Ret m t)"

definition again :: "byte \<Rightarrow> slice \<Rightarrow> 's \<Rightarrow> nat \<Rightarrow> bool" where
  "again pid src m t = at_is src t pid"

text \<open>A read whose own error is replaced by \<open>return 0, ProtocolError\<close>.\<close>

definition or_protocol_error :: "('s \<Rightarrow> nat \<Rightarrow> 's outcome) \<Rightarrow> 's \<Rightarrow> nat \<Rightarrow> 's outcome" where
  "or_protocol_error b m t = (case b m t of Fail m' t' e \<Rightarrow> Fail m' 0 (Reason ProtocolError) | r \<Rightarrow> r)"

text \<open>A condition that ends the decoder where it stands, with a reason code.\<close>

definition stop :: "byte \<Rightarrow> (slice \<Rightarrow> 's \<Rightarrow> nat \<Rightarrow> bool) \<Rightarrow> slice \<Rightarrow> 's \<Rightarrow> nat \<Rightarrow> 's outcome" where
  "stop e c src m t = (if c src m t then Fail m (int t) (Reason e) else Ret m t)"

text \<open>A read whose own error is replaced by a reason code.\<close>

definition or_reason :: "byte \<Rightarrow> ('s \<Rightarrow> nat \<Rightarrow> 's outcome) \<Rightarrow> 's \<Rightarrow> nat \<Rightarrow> 's outcome" where
  "or_reason c b m t = (case b m t of Fail m' t' e \<Rightarrow> Fail m' t' (Reason c) | r \<Rightarrow> r)"

text \<open>A property with an else branch: the field gets its default where the property is absent.\<close>

definition prop_or ::
    "slice \<Rightarrow> byte \<Rightarrow> ('s \<Rightarrow> nat \<Rightarrow> 's outcome) \<Rightarrow> ('s \<Rightarrow> 's) \<Rightarrow> 's \<Rightarrow> nat \<Rightarrow> 's outcome" where
  "prop_or src pid b f m t = (if at_is src t pid then b m (t + 1) else Ret (f m) t)"

section \<open>Steps on a packet that holds their text\<close>

definition consumes ::
    "(slice \<Rightarrow> 's \<Rightarrow> nat \<Rightarrow> 's outcome) \<Rightarrow> bytes \<Rightarrow> ('s \<Rightarrow> 's) \<Rightarrow> bytes \<Rightarrow> bool" where
  "consumes b bs f rest \<longleftrightarrow>
     (\<forall>pre ex m. b (Slice (pre @ bs @ rest) ex) m (length pre) = Ret (f m) (length pre + length bs))"

lemma consumesD:
  "consumes b bs f rest \<Longrightarrow> t = length pre \<Longrightarrow>
     b (Slice (pre @ bs @ rest) ex) m t = Ret (f m) (length pre + length bs)"
  by (simp add: consumes_def)

named_theorems consumes_intros \<open>what the decoding steps consume\<close>

definition not_next :: "byte \<Rightarrow> bytes \<Rightarrow> bool" where
  "not_next pid rest \<longleftrightarrow> rest = [] \<or> hd rest \<noteq> pid"

lemma consumes_Nil [consumes_intros]: "consumes (\<lambda>src. run []) [] id rest"
  by (simp add: consumes_def)

lemma consumes_Cons [consumes_intros]:
  assumes b: "consumes b bs f (cs @ rest)" and r: "consumes (\<lambda>src. run (bl src)) cs g rest"
  shows "consumes (\<lambda>src. run (b src # bl src)) (bs @ cs) (g \<circ> f) rest"
  unfolding consumes_def
proof (intro allI)
  fix pre ex m
  have "b (Slice (pre @ bs @ cs @ rest) ex) m (length pre) = Ret (f m) (length (pre @ bs))"
    using consumesD [OF b refl, of pre ex m] by simp
  moreover have "run (bl (Slice ((pre @ bs) @ cs @ rest) ex)) (f m) (length (pre @ bs)) =
      Ret (g (f m)) (length (pre @ bs) + length cs)"
    by (rule consumesD [OF r refl])
  ultimately show "run (b (Slice (pre @ (bs @ cs) @ rest) ex) # bl (Slice (pre @ (bs @ cs) @ rest) ex)) m (length pre) =
      Ret ((g \<circ> f) m) (length pre + length (bs @ cs))"
    by simp
qed

lemma consumes_lp [consumes_intros]:
  "short b \<Longrightarrow> consumes (\<lambda>src m t. assign (read_lp src t) f m t) (lp_wire b) (f b) rest"
  by (simp add: consumes_def reads_wire assign_def length_wire)

lemma consumes_lb [consumes_intros]:
  "n < 268435456 \<Longrightarrow>
     consumes (\<lambda>src m t. assign (read_lb src t) f m t) (lb_wire n) (f (word_of_nat n)) rest"
  by (simp add: consumes_def reads_wire assign_def)

lemma consumes_up [consumes_intros]:
  "list_all short ups \<Longrightarrow> even (length ups) \<Longrightarrow> not_next UserProperty rest \<Longrightarrow>
     consumes (\<lambda>src m t. assign (read_up src t) f m t) (up_wire ups) (f ups) rest"
  by (simp add: consumes_def reads_wire assign_def not_next_def)

lemma consumes_u8 [consumes_intros]:
  "consumes (\<lambda>src m t. assign (rd_u8 src t) f m t) [c] (f c) rest"
  by (simp add: consumes_def rd_u8_def sat_app assign_def)

lemma consumes_u16 [consumes_intros]:
  "consumes (\<lambda>src m t. assign (rd_u16 src t) f m t) (u16_bytes v) (f v) rest"
  by (simp add: consumes_def rd_u16_def sfrom_app assign_def u16_bytes_def u16_roundtrip)

lemma consumes_u32 [consumes_intros]:
  "consumes (\<lambda>src m t. assign (rd_u32 src t) f m t) (u32_bytes v) (f v) rest"
  by (simp add: consumes_def rd_u32_def sfrom_app assign_def u32_bytes_def u32_roundtrip)

lemma consumes_id [consumes_intros]:
  "length pid = 2 \<Longrightarrow> consumes (\<lambda>src m t. assign (rd_id src t) f m t) pid (f pid) rest"
  by (simp add: consumes_def rd_id_def srange_def assign_def CopyLen_take)

lemma at_is_next: "at_is (Slice (pre @ rest) ex) (length pre) pid \<longleftrightarrow> \<not> not_next pid rest"
  by (simp add: at_is_app not_next_def)

lemma consumes_prop [consumes_intros]:
  assumes "c \<Longrightarrow> consumes b bs f rest" and "\<not> c \<Longrightarrow> not_next pid rest"
  shows "consumes (\<lambda>src. prop_at src pid (b src)) (if c then pid # bs else []) (if c then f else id) rest"
proof (cases c)
  case True
  have "prop_at (Slice (pre @ (pid # bs) @ rest) ex) pid (b (Slice (pre @ (pid # bs) @ rest) ex)) m (length pre) =
      Ret (f m) (length pre + length (pid # bs))" for pre ex m
    using consumesD [OF assms(1) [OF True] refl, of "pre @ [pid]" ex m]
    by (simp add: prop_at_def at_is_app)
  then show ?thesis using True by (simp add: consumes_def)
next
  case False
  then show ?thesis
    using assms(2) by (simp add: consumes_def prop_at_def at_is_next)
qed

lemma consumes_again [consumes_intros]:
  "not_next pid rest \<Longrightarrow> consumes (reject (again pid)) [] id rest"
  by (simp add: consumes_def reject_def again_def at_is_next)

text \<open>A test that looks at the field just read: it is known to hold of what was read.\<close>

definition consumes_when ::
    "('s \<Rightarrow> bool) \<Rightarrow> (slice \<Rightarrow> 's \<Rightarrow> nat \<Rightarrow> 's outcome) \<Rightarrow> bytes \<Rightarrow> ('s \<Rightarrow> 's) \<Rightarrow> bytes \<Rightarrow> bool" where
  "consumes_when P b bs f rest \<longleftrightarrow>
     (\<forall>pre ex m. P m \<longrightarrow> b (Slice (pre @ bs @ rest) ex) m (length pre) = Ret (f m) (length pre + length bs))"

lemma consumes_then_test:
  assumes "consumes b bs f rest" and "\<And>m. P (f m)" and "consumes_when P r [] id rest"
  shows "consumes (\<lambda>src. run [b src, r src]) bs f rest"
  unfolding consumes_def
proof (intro allI)
  fix pre ex m
  have "b (Slice (pre @ bs @ rest) ex) m (length pre) = Ret (f m) (length (pre @ bs))"
    using consumesD [OF assms(1) refl, of pre ex m] by simp
  moreover have "r (Slice ((pre @ bs) @ [] @ rest) ex) (f m) (length (pre @ bs)) = Ret (id (f m)) (length (pre @ bs) + length ([]::bytes))"
    using assms(2,3) unfolding consumes_when_def by blast
  ultimately show "run [b (Slice (pre @ bs @ rest) ex), r (Slice (pre @ bs @ rest) ex)] m (length pre) = Ret (f m) (length pre + length bs)"
    by simp
qed

lemma consumes_when_reject:
  "(\<And>m. P m \<Longrightarrow> \<not> q m) \<Longrightarrow> not_next pid rest \<Longrightarrow>
     consumes_when P (reject (\<lambda>src m t. q m \<or> again pid src m t)) [] id rest"
  by (auto simp: consumes_when_def reject_def again_def at_is_next)

lemma consumes_when_again:
  "not_next pid rest \<Longrightarrow> consumes_when P (reject (again pid)) [] id rest"
  by (auto simp: consumes_when_def reject_def again_def at_is_next)

lemma consumes_or_protocol_error [consumes_intros]:
  "consumes b bs f rest \<Longrightarrow> consumes (\<lambda>src. or_protocol_error (b src)) bs f rest"
  by (simp add: consumes_def or_protocol_error_def)

lemma not_next_simps [simp]:
  "not_next pid (x # xs) \<longleftrightarrow> x \<noteq> pid"
  "not_next pid ((if c then y # ys else []) @ xs) \<longleftrightarrow> (if c then y \<noteq> pid else not_next pid xs)"
  "not_next pid (up_wire ups @ xs) \<longleftrightarrow> (if ups = [] then not_next pid xs else UserProperty \<noteq> pid)"
  by (auto simp: not_next_def) (cases ups rule: up_wire.cases; simp)+

lemma not_next_Nil [simp]: "not_next pid []"
  by (simp add: not_next_def)

text \<open>A string does not look like a property when its length begins with a smaller byte.\<close>

lemma not_next_lp:
  assumes "short b" "length b < 256 * unat pid" shows "not_next pid (lp_wire b @ rest)"
  using hd_lp_wire_neq [OF assms] by (cases "lp_wire b") (simp_all add: not_next_def lp_wire_def u16_bytes_def)

text \<open>The two shapes of an optional property that must not occur twice.\<close>

lemma consumes_prop_again:
  assumes "not_next pid rest" and "consumes b bs f rest"
  shows "consumes (\<lambda>src. prop_at src pid (run [b src, reject (again pid) src]))
    (if c then pid # bs else []) (if c then f else id) rest"
  by (intro consumes_prop consumes_then_test [where P = "\<lambda>_. True"] consumes_when_again assms TrueI)

lemma consumes_prop_test:
  assumes "not_next pid rest" and "c \<Longrightarrow> consumes b bs f rest" and "c \<Longrightarrow> (\<And>m. \<not> q (f m))"
  shows "consumes (\<lambda>src. prop_at src pid (run [b src, reject (\<lambda>src m t. q m \<or> again pid src m t) src]))
    (if c then pid # bs else []) (if c then f else id) rest"
  by (intro consumes_prop consumes_then_test [where P = "\<lambda>m. \<not> q m"] consumes_when_reject assms) simp_all

lemma consumes_or_reason [consumes_intros]:
  "consumes b bs f rest \<Longrightarrow> consumes (\<lambda>src. or_reason c (b src)) bs f rest"
  by (simp add: consumes_def or_reason_def)

lemma consumes_when_stop:
  "(\<And>m. P m \<Longrightarrow> \<not> q m) \<Longrightarrow> not_next pid rest \<Longrightarrow>
     consumes_when P (stop e (\<lambda>src m t. q m \<or> again pid src m t)) [] id rest"
  "not_next pid rest \<Longrightarrow> consumes_when P (stop e (again pid)) [] id rest"
  by (auto simp: consumes_when_def stop_def again_def at_is_next)

lemma consumes_prop_stop:
  assumes "not_next pid rest" and "consumes b bs f rest"
  shows "consumes (\<lambda>src. prop_at src pid (run [b src, stop e (again pid) src]))
    (if c then pid # bs else []) (if c then f else id) rest"
  by (intro consumes_prop consumes_then_test [where P = "\<lambda>_. True"] consumes_when_stop assms TrueI)

lemma consumes_prop_stop_test:
  assumes "not_next pid rest" and "c \<Longrightarrow> consumes b bs f rest" and "c \<Longrightarrow> (\<And>m. \<not> q (f m))"
  shows "consumes (\<lambda>src. prop_at src pid (run [b src, stop e (\<lambda>src m t. q m \<or> again pid src m t) src]))
    (if c then pid # bs else []) (if c then f else id) rest"
  by (intro consumes_prop consumes_then_test [where P = "\<lambda>m. \<not> q m"] consumes_when_stop assms) simp_all

lemma consumes_prop_or:
  assumes "not_next pid rest" and "c \<Longrightarrow> consumes b bs f rest" and "c \<Longrightarrow> (\<And>m. \<not> q (f m))"
  shows "consumes (\<lambda>src. prop_or src pid (run [b src, stop e (\<lambda>src m t. q m \<or> again pid src m t) src]) g)
    (if c then pid # bs else []) (if c then f else g) rest"
proof (cases c)
  case True
  then show ?thesis
    using consumes_prop_stop_test [where c = c and q = q and f = f and e = e, OF assms] by (auto simp: consumes_def prop_at_def prop_or_def at_is_app)
next
  case False
  then show ?thesis using assms(1) by (simp add: consumes_def prop_or_def at_is_next)
qed

lemma consumes_eq: "consumes b bs f rest \<Longrightarrow> bs = bs' \<Longrightarrow> f = f' \<Longrightarrow> consumes b bs' f' rest"
  by simp

text \<open>
  A step from one state to another. Along a sequence the state in the middle is the one the first
  step leaves, so a test is decided by the fields read before it.
\<close>

definition eats ::
    "(slice \<Rightarrow> 's \<Rightarrow> nat \<Rightarrow> 's outcome) \<Rightarrow> bytes \<Rightarrow> bytes \<Rightarrow> 's \<Rightarrow> 's \<Rightarrow> bool" where
  "eats b bs rest x y \<longleftrightarrow>
     (\<forall>pre ex. b (Slice (pre @ bs @ rest) ex) x (length pre) = Ret y (length pre + length bs))"

lemma eatsD:
  "eats b bs rest x y \<Longrightarrow> t = length pre \<Longrightarrow>
     b (Slice (pre @ bs @ rest) ex) x t = Ret y (length pre + length bs)"
  by (simp add: eats_def)

lemma eats_Nil: "eats (\<lambda>src. run []) [] rest x x"
  by (simp add: eats_def)

lemma eats_Cons:
  assumes "eats b bs (cs @ rest) x y" and "eats (\<lambda>src. run (bl src)) cs rest y z"
  shows "eats (\<lambda>src. run (b src # bl src)) (bs @ cs) rest x z"
  unfolding eats_def
proof (intro allI)
  fix pre ex
  show "run (b (Slice (pre @ (bs @ cs) @ rest) ex) # bl (Slice (pre @ (bs @ cs) @ rest) ex)) x (length pre) =
      Ret z (length pre + length (bs @ cs))"
    using eatsD [OF assms(1) refl, of pre ex] eatsD [OF assms(2) refl, of "pre @ bs" ex] by simp
qed

lemma eats_consumes: "consumes b bs f rest \<Longrightarrow> eats b bs rest x (f x)"
  by (simp add: consumes_def eats_def)

lemma eats_test:
  "(\<And>src t. \<not> c src x t) \<Longrightarrow> eats (stop e c) [] rest x x"
  "k x \<le> length rest \<Longrightarrow> eats (stop e (\<lambda>src m t. slen src - t < k m)) [] rest x x"
  by (simp_all add: eats_def stop_def slen_def)

lemma eats_room:
  "2 \<le> length rest \<Longrightarrow> eats (\<lambda>src m t. if slen src - t < 2 then f m t else Ret m t) [] rest x x"
  by (simp add: eats_def slen_def)

lemma eats_skip:
  "(\<And>src t. b src x t = Ret y t) \<Longrightarrow> eats b [] rest x y"
  by (simp add: eats_def)

lemma eats_eq: "eats b bs rest x y \<Longrightarrow> bs = bs' \<Longrightarrow> y = y' \<Longrightarrow> eats b bs' rest x y'"
  by simp

lemma eats_if:
  "(\<And>src t. b src x t = (if p then c src x t else Ret x t)) \<Longrightarrow> (p \<Longrightarrow> eats c bs rest x y) \<Longrightarrow>
     eats b (if p then bs else []) rest x (if p then y else x)"
  by (auto simp: eats_def)

section \<open>Packet identifiers drawn from the counter\<close>

text \<open>\<open>if msg.PacketId() == 0 { msg.SetPacketId(uint16(atomic.AddUint64(&gPacketId, 1) & 0xffff)) }\<close>\<close>

definition draw_id :: "u64 \<Rightarrow> 'a header_scheme \<Rightarrow> u64 \<times> 'a header_scheme" where
  "draw_id g m = (if PacketId m = 0 then (g + 1, SetPacketId (ucast ((g + 1) AND 0xffff)) m) else (g, m))"

definition pid_ok :: "u64 \<Rightarrow> 'a header_scheme \<Rightarrow> bool" where
  "pid_ok g m \<longleftrightarrow> PacketId m \<noteq> 0 \<or> (ucast ((g + 1) AND 0xffff) :: u16) \<noteq> 0"

lemma draw_id_dirty:
  assumes "dirty m" "pid_ok g m" "draw_id g m = (g', n)"
  obtains p where "length p = 2" "n = m\<lparr>packetId := p\<rparr>"
proof (cases "PacketId m = 0")
  case True
  define v where "v = (ucast ((g + 1) AND 0xffff) :: u16)"
  have "v \<noteq> 0" using True assms(2) by (simp add: pid_ok_def v_def)
  moreover have "(g + 1, SetPacketId v m) = (g', n)"
    using True assms(3) by (simp only: draw_id_def v_def if_True simp_thms)
  moreover have "m\<lparr>dirty := True\<rparr> = m" using assms(1) by (cases m) simp
  ultimately have "n = m\<lparr>packetId := u16_bytes v\<rparr>" by (auto simp: SetPacketId_def split: if_splits)
  then show ?thesis using that [of "u16_bytes v"] by simp
next
  case False
  then have "length (packetId m) = 2" "n = m\<lparr>packetId := packetId m\<rparr>"
    using assms by (simp_all add: draw_id_def PacketId_def split: if_splits)
  then show ?thesis by (rule that)
qed

section \<open>A packet behind its fixed header\<close>

lemma header_wire_cong: "mtypeflags h = mtypeflags g \<Longrightarrow> remlen h = remlen g \<Longrightarrow> header_wire h = header_wire g"
  by (simp add: header_wire_def)

lemma frame_encode:
  assumes h: "header_ok h" and w: "emits_w w body" and l: "hmsglen h + length body \<le> length dst"
  shows "hencode h dst 0 = (h, Ret (header_wire h @ drop (hmsglen h) dst) (hmsglen h))"
    and "w (header_wire h @ drop (hmsglen h) dst) (hmsglen h) =
      Ret ((header_wire h @ body) @ drop (length (header_wire h @ body)) dst) (length (header_wire h @ body))"
  using hencode_ok [OF h, of dst] l emits_wD [OF w, of "hmsglen h" "header_wire h @ drop (hmsglen h) dst"]
  by (simp_all add: length_header_wire [OF h] ac_simps)

lemma frame_buf:
  assumes h: "header_ok h" and w: "emits_b w body"
  shows "hencodeToBuf h buf = (h, Ret (buf @ header_wire h) (length buf + hmsglen h))"
    and "w (buf @ header_wire h) (length buf + hmsglen h) =
      Ret (buf @ header_wire h @ body) (length buf + length (header_wire h @ body))"
  using hencodeToBuf_ok [OF h, of buf] emits_bD [OF w, of "length buf + hmsglen h" "buf @ header_wire h"]
  by (simp_all add: length_header_wire [OF h] add.assoc)

lemma emits_map [emits]:
  "(\<And>i. i \<in> set is \<Longrightarrow> emits_w (w i) (f i)) \<Longrightarrow> emits_w (run (map w is)) (concat (map f is))"
  "(\<And>i. i \<in> set is \<Longrightarrow> emits_b (b i) (f i)) \<Longrightarrow> emits_b (run (map b is)) (concat (map f is))"
proof -
  show "(\<And>i. i \<in> set is \<Longrightarrow> emits_w (w i) (f i)) \<Longrightarrow> emits_w (run (map w is)) (concat (map f is))"
    by (induction "is") (simp_all only: list.map concat.simps list.set_intros emits_w_Nil emits_w_Cons)
  show "(\<And>i. i \<in> set is \<Longrightarrow> emits_b (b i) (f i)) \<Longrightarrow> emits_b (run (map b is)) (concat (map f is))"
    by (induction "is") (simp_all only: list.map concat.simps list.set_intros emits_b_Nil emits_b_Cons)
qed

end
