(* ===== verification/Publish.thy ===== *)
theory Publish
  imports Steps
begin

text \<open>
  PUBLISH (\<open>corev5/v2/message/publish.go\<close>): the message, its flags, its encoding to a slice and
  to a buffer, its decoding. The global counter \<open>gPacketId\<close> from which \<open>Encode\<close> takes a packet
  identifier where the message has none is an argument and a result of the encoders.
\<close>

section \<open>State\<close>

record publish = header +
  topic :: bytes
  propertiesLen :: u32
  payloadFormatIndicator :: byte
  messageExpiryInterval :: u32
  topicAlias :: u16
  responseTopic :: bytes
  correlationData :: bytes
  pubUserProperty :: "bytes list"
  subscriptionIdentifier :: u32
  contentType :: bytes
  payload :: bytes

definition ThemeAlias :: byte where "ThemeAlias = 0x23"

lemmas pub_ids = LoadFormatDescription_def MessageExpirationTime_def ContentType_def ResponseTopic_def
  RelatedData_def DefiningIdentifiers_def ThemeAlias_def UserProperty_def

definition NewPublishMessage :: publish where
  "NewPublishMessage =
     fst (SetType PUBLISH \<lparr>remlen = 0, mtypeflags = [], packetId = [], dbuf = Slice [] [], dirty = False,
       topic = [], propertiesLen = 0, payloadFormatIndicator = 0, messageExpiryInterval = 0, topicAlias = 0,
       responseTopic = [], correlationData = [], pubUserProperty = [], subscriptionIdentifier = 0,
       contentType = [], payload = []\<rparr>)"

definition Dup :: "publish \<Rightarrow> bool" where "Dup m \<longleftrightarrow> drop_bit 3 (Flags m) AND 0x1 = 1"

definition SetDup :: "bool \<Rightarrow> publish \<Rightarrow> publish" where
  "SetDup v m =
     m\<lparr>mtypeflags := (mtypeflags m)[0 := (if v then mtypeflags m ! 0 OR 0x8 else mtypeflags m ! 0 AND 247)]\<rparr>"

definition Retain :: "publish \<Rightarrow> bool" where "Retain m \<longleftrightarrow> Flags m AND 0x1 = 1"

definition SetRetain :: "bool \<Rightarrow> publish \<Rightarrow> publish" where
  "SetRetain v m =
     m\<lparr>mtypeflags := (mtypeflags m)[0 := (if v then mtypeflags m ! 0 OR 0x1 else mtypeflags m ! 0 AND 254)]\<rparr>"

definition QoS :: "'a header_scheme \<Rightarrow> byte" where "QoS m = drop_bit 1 (Flags m) AND 0x3"

definition SetQoS :: "byte \<Rightarrow> publish \<Rightarrow> publish \<times> goerr option" where
  "SetQoS v m =
     (if v \<noteq> 0x0 \<and> v \<noteq> 0x1 \<and> v \<noteq> 0x2 then (m, Some (Errorf ''publish/SetQoS: Invalid QoS''))
      else (m\<lparr>mtypeflags := (mtypeflags m)[0 := (mtypeflags m ! 0 AND 249) OR push_bit 1 v], dirty := True\<rparr>, None))"

definition SetTopic :: "bytes \<Rightarrow> publish \<Rightarrow> publish \<times> goerr option" where
  "SetTopic v m =
     (if \<not> ValidTopic v then (m, Some (Errorf ''publish/SetTopic: Invalid topic name''))
      else (m\<lparr>topic := v, dirty := True\<rparr>, None))"

definition SetPayload :: "bytes \<Rightarrow> publish \<Rightarrow> publish" where
  "SetPayload v m = m\<lparr>payload := v, dirty := True\<rparr>"

definition SetTopicAlias :: "u16 \<Rightarrow> publish \<Rightarrow> publish" where
  "SetTopicAlias v m = m\<lparr>topicAlias := v, dirty := True\<rparr>"

definition SetNilTopicAndAlias :: "u16 \<Rightarrow> publish \<Rightarrow> publish" where
  "SetNilTopicAndAlias v m = m\<lparr>topicAlias := v, topic := [], dirty := True\<rparr>"

definition SetMessageExpiryInterval :: "u32 \<Rightarrow> publish \<Rightarrow> publish" where
  "SetMessageExpiryInterval v m = m\<lparr>messageExpiryInterval := v, dirty := True\<rparr>"

definition SetSubscriptionIdentifier :: "u32 \<Rightarrow> publish \<Rightarrow> publish" where
  "SetSubscriptionIdentifier v m = m\<lparr>subscriptionIdentifier := v, dirty := True\<rparr>"

definition SetPropertiesLen :: "u32 \<Rightarrow> publish \<Rightarrow> publish" where
  "SetPropertiesLen v m = m\<lparr>propertiesLen := v, dirty := True\<rparr>"

definition SetPayloadFormatIndicator :: "byte \<Rightarrow> publish \<Rightarrow> publish" where
  "SetPayloadFormatIndicator v m = m\<lparr>payloadFormatIndicator := v, dirty := True\<rparr>"

definition SetResponseTopic :: "bytes \<Rightarrow> publish \<Rightarrow> publish" where
  "SetResponseTopic v m = m\<lparr>responseTopic := v, dirty := True\<rparr>"

definition SetCorrelationData :: "bytes \<Rightarrow> publish \<Rightarrow> publish" where
  "SetCorrelationData v m = m\<lparr>correlationData := v, dirty := True\<rparr>"

definition SetContentType :: "bytes \<Rightarrow> publish \<Rightarrow> publish" where
  "SetContentType v m = m\<lparr>contentType := v, dirty := True\<rparr>"

definition AddPubUserPropertys :: "bytes list \<Rightarrow> publish \<Rightarrow> publish" where
  "AddPubUserPropertys ups m = m\<lparr>pubUserProperty := pubUserProperty m @ ups, dirty := True\<rparr>"

definition AddPubUserProperty :: "bytes \<Rightarrow> publish \<Rightarrow> publish" where
  "AddPubUserProperty up m = m\<lparr>pubUserProperty := pubUserProperty m @ [up], dirty := True\<rparr>"

section \<open>Decoding\<close>

text \<open>The blocks of \<open>Decode\<close> in their order, after the fixed header.\<close>

definition pub_topic :: "slice \<Rightarrow> publish \<Rightarrow> nat \<Rightarrow> publish outcome" where
  "pub_topic src m t = assign (read_lp src t) (\<lambda>v. topic_update (\<lambda>_. v)) m t"

definition pub_packetId :: "slice \<Rightarrow> publish \<Rightarrow> nat \<Rightarrow> publish outcome" where
  "pub_packetId src m t =
     (if QoS m \<noteq> 0 then assign (rd_id src t) (\<lambda>v. packetId_update (\<lambda>_. v)) m t else Ret m t)"

text \<open>The length of the properties is stored, and not used to delimit them.\<close>

definition pub_propertiesLen :: "slice \<Rightarrow> publish \<Rightarrow> nat \<Rightarrow> publish outcome" where
  "pub_propertiesLen src m t =
     (case read_lb src t of
        None \<Rightarrow> Panic
      | Some (v, n, Some e) \<Rightarrow> Fail m 0 e
      | Some (v, n, None) \<Rightarrow> Ret (m\<lparr>propertiesLen := v\<rparr>) (t + n))"

definition pub_format :: "slice \<Rightarrow> publish \<Rightarrow> nat \<Rightarrow> publish outcome" where
  "pub_format src =
     prop_at src LoadFormatDescription
       (run [\<lambda>m t. assign (rd_u8 src t) (\<lambda>v. payloadFormatIndicator_update (\<lambda>_. v)) m t,
             reject (again LoadFormatDescription) src])"

definition pub_expiry :: "slice \<Rightarrow> publish \<Rightarrow> nat \<Rightarrow> publish outcome" where
  "pub_expiry src =
     prop_at src MessageExpirationTime
       (run [\<lambda>m t. assign (rd_u32 src t) (\<lambda>v. messageExpiryInterval_update (\<lambda>_. v)) m t,
             reject (again MessageExpirationTime) src])"

definition pub_alias :: "slice \<Rightarrow> publish \<Rightarrow> nat \<Rightarrow> publish outcome" where
  "pub_alias src =
     prop_at src ThemeAlias
       (run [\<lambda>m t. assign (rd_u16 src t) (\<lambda>v. topicAlias_update (\<lambda>_. v)) m t,
             reject (\<lambda>src m t. topicAlias m = 0 \<or> again ThemeAlias src m t) src])"

definition pub_check_topic :: "publish \<Rightarrow> nat \<Rightarrow> publish outcome" where
  "pub_check_topic m t =
     (if topicAlias m = 0 \<and> \<not> ValidTopic (topic m)
      then Fail m (int t) (Errorf ''publish/Decode: Invalid topic name'') else Ret m t)"

definition pub_responseTopic :: "slice \<Rightarrow> publish \<Rightarrow> nat \<Rightarrow> publish outcome" where
  "pub_responseTopic src =
     prop_at src ResponseTopic
       (run [\<lambda>m t. assign (read_lp src t) (\<lambda>v. responseTopic_update (\<lambda>_. v)) m t,
             reject (\<lambda>src m t. responseTopic m = [] \<or> again ResponseTopic src m t) src])"

definition pub_correlationData :: "slice \<Rightarrow> publish \<Rightarrow> nat \<Rightarrow> publish outcome" where
  "pub_correlationData src =
     prop_at src RelatedData
       (run [\<lambda>m t. assign (read_lp src t) (\<lambda>v. correlationData_update (\<lambda>_. v)) m t,
             reject (\<lambda>src m t. correlationData m = [] \<or> again RelatedData src m t) src])"

definition pub_userProperty :: "slice \<Rightarrow> publish \<Rightarrow> nat \<Rightarrow> publish outcome" where
  "pub_userProperty src m t = assign (read_up src t) (\<lambda>v. pubUserProperty_update (\<lambda>_. v)) m t"

definition pub_subscriptionIdentifier :: "slice \<Rightarrow> publish \<Rightarrow> nat \<Rightarrow> publish outcome" where
  "pub_subscriptionIdentifier src =
     prop_at src DefiningIdentifiers
       (run [or_protocol_error (\<lambda>m t. assign (read_lb src t) (\<lambda>v. subscriptionIdentifier_update (\<lambda>_. v)) m t),
             reject (\<lambda>src m t. subscriptionIdentifier m = 0 \<or> again DefiningIdentifiers src m t) src])"

definition pub_contentType :: "slice \<Rightarrow> publish \<Rightarrow> nat \<Rightarrow> publish outcome" where
  "pub_contentType src =
     prop_at src ContentType
       (run [or_protocol_error (\<lambda>m t. assign (read_lp src t) (\<lambda>v. contentType_update (\<lambda>_. v)) m t),
             reject (\<lambda>src m t. contentType m = [] \<or> again ContentType src m t) src])"

text \<open>The payload is what the remaining length leaves after the variable header.\<close>

definition pub_payload :: "nat \<Rightarrow> slice \<Rightarrow> publish \<Rightarrow> nat \<Rightarrow> publish outcome" where
  "pub_payload hn src m t =
     (case srange src t (hn + unat (remlen m)) of
        None \<Rightarrow> Panic
      | Some s \<Rightarrow>
          (let p = CopyLen (vis s) (hn + unat (remlen m) - t)
           in Ret (m\<lparr>payload := p, dirty := False\<rparr>) (t + length p)))"

definition pub_variable :: "slice \<Rightarrow> publish \<Rightarrow> nat \<Rightarrow> publish outcome" where
  "pub_variable src =
     run [pub_topic src, pub_packetId src, pub_propertiesLen src, pub_format src, pub_expiry src,
          pub_alias src, pub_check_topic, pub_responseTopic src, pub_correlationData src,
          pub_userProperty src, pub_subscriptionIdentifier src, pub_contentType src]"

definition pub_Decode :: "slice \<Rightarrow> publish \<Rightarrow> publish outcome" where
  "pub_Decode src m =
     (case hdecode src m of
        Ret m1 hn \<Rightarrow> run [pub_variable src, pub_payload hn src] m1 hn
      | r \<Rightarrow> r)"

section \<open>Encoding\<close>

definition sub_id_sent :: "publish \<Rightarrow> bool" where
  "sub_id_sent m \<longleftrightarrow> subscriptionIdentifier m > 0 \<and> subscriptionIdentifier m < 168435455"

definition lb_len :: "u32 \<Rightarrow> nat option" where
  "lb_len v = map_option length (lbEncode v)"

definition pub_build :: "publish \<Rightarrow> publish option" where
  "pub_build m =
     (let tag = 2 + length (topic m) + (if QoS m \<noteq> 0 then 2 else 0);
          tot = tag + (if payloadFormatIndicator m \<noteq> 0 then 2 else 0)
            + (if messageExpiryInterval m > 0 then 5 else 0)
            + (if topicAlias m > 0 then 3 else 0)
            + (if length (responseTopic m) > 0 then 1 + 2 + length (responseTopic m) else 0)
            + (if length (correlationData m) > 0 then 1 + 2 + length (correlationData m) else 0)
            + buildUserPropertyLen (pubUserProperty m);
          ct = (if length (contentType m) > 0 then 1 + 2 + length (contentType m) else 0)
      in case (if sub_id_sent m then map_option Suc (lb_len (subscriptionIdentifier m)) else Some 0) of
           None \<Rightarrow> None
         | Some si \<Rightarrow>
           (let pl = word_of_nat (tot + si + ct - tag)
            in case lb_len pl of
                 None \<Rightarrow> None
               | Some k \<Rightarrow>
                   Some (fst (SetRemainingLength (word_of_nat (tot + si + ct + k + length (payload m)))
                     (m\<lparr>propertiesLen := pl\<rparr>)))))"

definition pub_Len :: "publish \<Rightarrow> (publish \<times> nat) option" where
  "pub_Len m =
     (if \<not> dirty m then Some (m, slen (dbuf m))
      else case pub_build m of
        None \<Rightarrow> None
      | Some m1 \<Rightarrow>
          (case SetRemainingLength (remlen m1) m1 of
             (m2, Some e) \<Rightarrow> Some (m2, 0)
           | (m2, None) \<Rightarrow> Some (m2, hmsglen m2 + unat (remlen m1))))"

text \<open>The packet identifier is drawn from the counter where the message needs one and has none.\<close>

definition assign_id :: "u64 \<Rightarrow> publish \<Rightarrow> u64 \<times> publish" where
  "assign_id g m =
     (if QoS m \<noteq> 0 \<and> PacketId m = 0 then (g + 1, SetPacketId (ucast ((g + 1) AND 0xffff)) m) else (g, m))"

definition pub_encode_rest :: "publish \<Rightarrow> bytes \<Rightarrow> nat \<Rightarrow> bytes outcome" where
  "pub_encode_rest m =
     run [guarded (QoS m \<noteq> 0) (w_copy (packetId m)),
          w_lb (propertiesLen m),
          guarded (payloadFormatIndicator m \<noteq> 0)
            (run [w_bytes [LoadFormatDescription], w_bytes [payloadFormatIndicator m]]),
          guarded (messageExpiryInterval m > 0)
            (run [w_bytes [MessageExpirationTime], w_bytes (u32_bytes (messageExpiryInterval m))]),
          guarded (topicAlias m > 0) (run [w_bytes [ThemeAlias], w_bytes (u16_bytes (topicAlias m))]),
          guarded (length (responseTopic m) > 0) (run [w_bytes [ResponseTopic], writeLPBytes (responseTopic m)]),
          guarded (length (correlationData m) > 0) (run [w_bytes [RelatedData], writeLPBytes (correlationData m)]),
          ignore_err (writeUserProperty (pubUserProperty m)),
          guarded (sub_id_sent m) (run [w_bytes [DefiningIdentifiers], w_lb (subscriptionIdentifier m)]),
          guarded (length (contentType m) > 0) (run [w_bytes [ContentType], writeLPBytes (contentType m)]),
          w_copy (payload m)]"

definition pub_Encode :: "u64 \<Rightarrow> publish \<Rightarrow> bytes \<Rightarrow> u64 \<times> publish \<times> bytes outcome" where
  "pub_Encode g m dst =
     (if \<not> dirty m then
        (g, m, if length dst < slen (dbuf m) then Fail dst 0 (Errorf ''publish/Encode: Insufficient buffer size'')
               else w_copy (vis (dbuf m)) dst 0)
      else if topic m = [] \<and> topicAlias m = 0
        then (g, m, Fail dst 0 (Errorf ''publish/Encode: Topic name is empty, and topic alice <= 0.''))
      else if payload m = [] then (g, m, Fail dst 0 (Errorf ''publish/Encode: Payload is empty.''))
      else case pub_build m of
        None \<Rightarrow> (g, m, Panic)
      | Some m1 \<Rightarrow>
        (case SetRemainingLength (remlen m1) m1 of
           (m2, Some e) \<Rightarrow> (g, m2, Fail dst 0 e)
         | (m2, None) \<Rightarrow>
           (if length dst < hmsglen m1 + unat (remlen m1)
            then (g, m2, Fail dst 0 (Errorf ''publish/Encode: Insufficient buffer size''))
            else case hencode m2 dst 0 of
              (m3, Ret d t) \<Rightarrow>
                (case writeLPBytes (topic m3) d t of
                   Ret d' t' \<Rightarrow> (let (g', m4) = assign_id g m3 in (g', m4, pub_encode_rest m4 d' t'))
                 | r \<Rightarrow> (g, m3, r))
            | (m3, r) \<Rightarrow> (g, m3, r))))"

definition pub_buf_rest :: "publish \<Rightarrow> bytes \<Rightarrow> nat \<Rightarrow> bytes outcome" where
  "pub_buf_rest m =
     run [guarded (QoS m \<noteq> 0) (b_bytes (packetId m)),
          b_lb (propertiesLen m),
          guarded (payloadFormatIndicator m \<noteq> 0)
            (run [b_bytes [LoadFormatDescription], b_bytes [payloadFormatIndicator m]]),
          guarded (messageExpiryInterval m > 0)
            (run [b_bytes [MessageExpirationTime], b_bytes (u32_bytes (messageExpiryInterval m))]),
          guarded (topicAlias m > 0) (run [b_bytes [ThemeAlias], b_bytes (u16_bytes (topicAlias m))]),
          guarded (length (responseTopic m) > 0) (run [b_bytes [ResponseTopic], writeToBufLPBytes (responseTopic m)]),
          guarded (length (correlationData m) > 0) (run [b_bytes [RelatedData], writeToBufLPBytes (correlationData m)]),
          writeUserPropertyByBuf (pubUserProperty m),
          guarded (sub_id_sent m) (run [b_bytes [DefiningIdentifiers], b_lb (subscriptionIdentifier m)]),
          guarded (length (contentType m) > 0) (run [b_bytes [ContentType], writeToBufLPBytes (contentType m)]),
          b_bytes (payload m)]"

definition pub_EncodeToBuf :: "u64 \<Rightarrow> publish \<Rightarrow> bytes \<Rightarrow> u64 \<times> publish \<times> bytes outcome" where
  "pub_EncodeToBuf g m buf =
     (if \<not> dirty m then (g, m, Ret (buf @ vis (dbuf m)) (slen (dbuf m)))
      else if topic m = [] \<and> topicAlias m = 0
        then (g, m, Fail buf 0 (Errorf ''publish/Encode: Topic name is empty, and topic alice <= 0.''))
      else if payload m = [] then (g, m, Fail buf 0 (Errorf ''publish/Encode: Payload is empty.''))
      else case pub_build m of
        None \<Rightarrow> (g, m, Panic)
      | Some m1 \<Rightarrow>
        (case SetRemainingLength (remlen m1) m1 of
           (m2, Some e) \<Rightarrow> (g, m2, Fail buf 0 e)
         | (m2, None) \<Rightarrow>
           (case hencodeToBuf m2 buf of
              (m3, Ret d t) \<Rightarrow>
                (case writeToBufLPBytes (topic m3) d t of
                   Ret d' t' \<Rightarrow> (let (g', m4) = assign_id g m3 in (g', m4, pub_buf_rest m4 d' t'))
                 | r \<Rightarrow> (g, m3, r))
            | (m3, r) \<Rightarrow> (g, m3, r))))"

section \<open>The packet a message stands for\<close>

definition pub_props :: "publish \<Rightarrow> bytes" where
  "pub_props m =
     (if payloadFormatIndicator m \<noteq> 0 then LoadFormatDescription # [payloadFormatIndicator m] else []) @
     (if messageExpiryInterval m \<noteq> 0 then MessageExpirationTime # u32_bytes (messageExpiryInterval m) else []) @
     (if topicAlias m \<noteq> 0 then ThemeAlias # u16_bytes (topicAlias m) else []) @
     (if responseTopic m \<noteq> [] then ResponseTopic # lp_wire (responseTopic m) else []) @
     (if correlationData m \<noteq> [] then RelatedData # lp_wire (correlationData m) else []) @
     up_wire (pubUserProperty m) @
     (if sub_id_sent m then DefiningIdentifiers # lb_wire (unat (subscriptionIdentifier m)) else []) @
     (if contentType m \<noteq> [] then ContentType # lp_wire (contentType m) else [])"

definition pub_body_wire :: "publish \<Rightarrow> bytes" where
  "pub_body_wire m =
     lp_wire (topic m) @ (if QoS m \<noteq> 0 then packetId m else []) @
     lb_wire (length (pub_props m)) @ pub_props m @ payload m"

definition pub_remlen :: "publish \<Rightarrow> nat" where
  "pub_remlen m =
     2 + length (topic m) + (if QoS m \<noteq> 0 then 2 else 0) + length (lb_wire (length (pub_props m)))
       + length (pub_props m) + length (payload m)"

definition pub_built :: "publish \<Rightarrow> publish" where
  "pub_built m =
     m\<lparr>propertiesLen := word_of_nat (length (pub_props m)), remlen := word_of_nat (pub_remlen m), dirty := True\<rparr>"

definition pub_wire :: "publish \<Rightarrow> bytes" where
  "pub_wire m = header_wire (pub_built m) @ pub_body_wire m"

text \<open>
  The messages that can be sent: a topic or an alias, a payload, strings of at most 65535 bytes,
  user properties in pairs, and a packet within the maximum remaining length.
\<close>

definition pub_ok :: "publish \<Rightarrow> bool" where
  "pub_ok m \<longleftrightarrow>
     length (mtypeflags m) = 1 \<and> mtype m = PUBLISH \<and> flags_ok m \<and>
     (topicAlias m \<noteq> 0 \<or> topic m \<noteq> []) \<and> payload m \<noteq> [] \<and>
     short (topic m) \<and> short (responseTopic m) \<and> short (correlationData m) \<and> short (contentType m) \<and>
     list_all short (pubUserProperty m) \<and> even (length (pubUserProperty m)) \<and> pub_remlen m \<le> 268435455"

text \<open>A packet identifier of two bytes, or one that can be drawn from the counter.\<close>

definition id_ok :: "u64 \<Rightarrow> publish \<Rightarrow> bool" where
  "id_ok g m \<longleftrightarrow>
     QoS m = 0 \<or> PacketId m \<noteq> 0 \<or> (ucast ((g + 1) AND 0xffff) :: u16) \<noteq> 0"

lemma pub_built_props: "pub_props (pub_built m) = pub_props m"
  by (simp add: pub_built_def pub_props_def sub_id_sent_def)

lemma pub_built_remlen: "pub_remlen (pub_built m) = pub_remlen m"
  by (simp add: pub_remlen_def pub_built_props) (simp add: pub_built_def QoS_def Flags_def)

lemma pub_built_frame [simp]:
  "mtypeflags (pub_built m) = mtypeflags m" "packetId (pub_built m) = packetId m" "PacketId (pub_built m) = PacketId m"
  "QoS (pub_built m) = QoS m" "pub_props (pub_built m) = pub_props m" "pub_remlen (pub_built m) = pub_remlen m"
  "topic (pub_built m) = topic m" "payload (pub_built m) = payload m" "responseTopic (pub_built m) = responseTopic m"
  "correlationData (pub_built m) = correlationData m" "contentType (pub_built m) = contentType m"
  "pubUserProperty (pub_built m) = pubUserProperty m" "topicAlias (pub_built m) = topicAlias m" "dirty (pub_built m)"
  "payloadFormatIndicator (pub_built m) = payloadFormatIndicator m"
  "messageExpiryInterval (pub_built m) = messageExpiryInterval m"
  "subscriptionIdentifier (pub_built m) = subscriptionIdentifier m"
  by (simp_all only: pub_built_props pub_built_remlen) (simp_all add: pub_built_def PacketId_def QoS_def Flags_def)

lemma length_pub_body:
  "(QoS m \<noteq> 0 \<Longrightarrow> length (packetId m) = 2) \<Longrightarrow> length (pub_body_wire m) = pub_remlen m"
  by (simp add: pub_body_wire_def pub_remlen_def length_wire)

lemma sub_id_lb:
  "sub_id_sent m \<Longrightarrow> lbEncode (subscriptionIdentifier m) = Some (lb_wire (unat (subscriptionIdentifier m)))"
  by (simp add: sub_id_sent_def lbEncode_spec word_less_nat_alt)

lemma pub_plen_bound: "pub_ok m \<Longrightarrow> length (pub_props m) < 268435456"
  by (simp add: pub_ok_def pub_remlen_def)

lemma pub_build_built:
  assumes "pub_ok m"
  shows "pub_build m = Some (pub_built m)"
proof -
  define si where "si = (if sub_id_sent m then Suc (length (lb_wire (unat (subscriptionIdentifier m)))) else 0)"
  define tag where "tag = 2 + length (topic m) + (if QoS m \<noteq> 0 then 2 else 0)"
  define tot where "tot = tag + (if payloadFormatIndicator m \<noteq> 0 then 2 else 0)
            + (if messageExpiryInterval m > 0 then 5 else 0)
            + (if topicAlias m > 0 then 3 else 0)
            + (if length (responseTopic m) > 0 then 1 + 2 + length (responseTopic m) else 0)
            + (if length (correlationData m) > 0 then 1 + 2 + length (correlationData m) else 0)
            + buildUserPropertyLen (pubUserProperty m)"
  define ct where "ct = (if length (contentType m) > 0 then 1 + 2 + length (contentType m) else 0)"
  have si: "(if sub_id_sent m then map_option Suc (lb_len (subscriptionIdentifier m)) else Some 0) = Some si"
    by (simp add: si_def lb_len_def sub_id_lb)
  have plen: "tot + si + ct = tag + length (pub_props m)"
    by (simp add: tot_def si_def ct_def pub_props_def length_wire word_neq_0_conv [symmetric])
  have k: "lb_len (word_of_nat (length (pub_props m))) = Some (length (lb_wire (length (pub_props m))))"
    using pub_plen_bound [OF assms] by (simp add: lb_len_def lbEncode_spec word_less_nat_alt unat_small)
  have rem: "tot + si + ct + length (lb_wire (length (pub_props m))) + length (payload m) = pub_remlen m"
    by (simp add: plen pub_remlen_def tag_def)
  have b: "\<not> (word_of_nat (pub_remlen m) :: u32) > maxRemainingLength"
    using assms by (simp add: pub_ok_def maxRemainingLength_def word_less_nat_alt unat_small)
  have "pub_build m = Some (fst (SetRemainingLength (word_of_nat (pub_remlen m))
      (m\<lparr>propertiesLen := word_of_nat (length (pub_props m))\<rparr>)))"
    unfolding pub_build_def tag_def [symmetric] tot_def [symmetric] ct_def [symmetric] Let_def si option.case
    by (simp only: plen add_diff_cancel_left' k option.case rem [unfolded plen])
  then show ?thesis
    using b by (simp add: SetRemainingLength_def pub_built_def)
qed

lemma unat_pub:
  assumes "pub_ok m"
  shows "unat (remlen (pub_built m)) = pub_remlen m" "unat (propertiesLen (pub_built m)) = length (pub_props m)"
  using pub_plen_bound [OF assms] assms by (simp_all add: pub_built_def unat_small pub_ok_def)

lemma pub_header_ok: "pub_ok m \<Longrightarrow> header_ok (pub_built m)"
  using unat_pub(1) [of m] mtype_cong [of "pub_built m" m]
  by (simp add: header_ok_def pub_ok_def maxRemainingLength_def word_le_nat_alt)
     (simp add: pub_built_def type_Valid_def PUBLISH_def)

lemma SetRemainingLength_pub:
  "pub_ok m \<Longrightarrow> SetRemainingLength (remlen (pub_built m)) (pub_built m) = (pub_built m, None)"
  using pub_header_ok [of m]
  by (cases "pub_built m") (simp add: SetRemainingLength_def header_ok_def not_less, use pub_built_frame(14) [of m] in simp)

section \<open>Encoding puts the packet on the wire\<close>

definition pub_rest_wire :: "publish \<Rightarrow> bytes" where
  "pub_rest_wire m =
     (if QoS m \<noteq> 0 then packetId m else []) @ lb_wire (unat (propertiesLen m)) @ pub_props m @ payload m"

lemma pub_rest_emits:
  assumes p: "propertiesLen m < 268435456"
    and s: "short (responseTopic m)" "short (correlationData m)" "short (contentType m)" "list_all short (pubUserProperty m)"
  shows "emits_w (pub_encode_rest m) (pub_rest_wire m)" "emits_b (pub_buf_rest m) (pub_rest_wire m)"
proof -
  have si: "sub_id_sent m \<Longrightarrow> subscriptionIdentifier m < 268435456"
    by (simp add: sub_id_sent_def word_less_nat_alt)
  have pos: "(messageExpiryInterval m > 0) = (messageExpiryInterval m \<noteq> 0)" "(topicAlias m > 0) = (topicAlias m \<noteq> 0)"
    "\<And>x. (length (x :: bytes) > 0) = (x \<noteq> [])"
    by (auto simp: word_neq_0_conv)
  have w: "pub_rest_wire m =
     (if QoS m \<noteq> 0 then packetId m else []) @ lb_wire (unat (propertiesLen m)) @
     (if payloadFormatIndicator m \<noteq> 0 then [LoadFormatDescription] @ [payloadFormatIndicator m] @ [] else []) @
     (if messageExpiryInterval m \<noteq> 0 then [MessageExpirationTime] @ u32_bytes (messageExpiryInterval m) @ [] else []) @
     (if topicAlias m \<noteq> 0 then [ThemeAlias] @ u16_bytes (topicAlias m) @ [] else []) @
     (if responseTopic m \<noteq> [] then [ResponseTopic] @ lp_wire (responseTopic m) @ [] else []) @
     (if correlationData m \<noteq> [] then [RelatedData] @ lp_wire (correlationData m) @ [] else []) @
     up_wire (pubUserProperty m) @
     (if sub_id_sent m then [DefiningIdentifiers] @ lb_wire (unat (subscriptionIdentifier m)) @ [] else []) @
     (if contentType m \<noteq> [] then [ContentType] @ lp_wire (contentType m) @ [] else []) @ payload m @ []"
    by (simp add: pub_rest_wire_def pub_props_def)
  show "emits_w (pub_encode_rest m) (pub_rest_wire m)"
    unfolding pub_encode_rest_def w pos by (intro emits p s si) simp_all
  show "emits_b (pub_buf_rest m) (pub_rest_wire m)"
    unfolding pub_buf_rest_def w pos by (intro emits p s si) simp_all
qed

lemma pub_props_SetPacketId: "pub_props (SetPacketId v m) = pub_props m"
  by (simp add: SetPacketId_def pub_props_def sub_id_sent_def)

lemma pub_remlen_SetPacketId: "pub_remlen (SetPacketId v m) = pub_remlen m"
  by (simp add: pub_remlen_def pub_props_SetPacketId) (simp add: SetPacketId_def QoS_def Flags_def)

lemma SetPacketId_frame [simp]:
  "mtypeflags (SetPacketId v m) = mtypeflags m" "remlen (SetPacketId v m) = remlen m"
  "QoS (SetPacketId v m) = QoS m" "pub_props (SetPacketId v m) = pub_props m"
  "pub_remlen (SetPacketId v m) = pub_remlen m"
  "topic (SetPacketId v m) = topic m" "propertiesLen (SetPacketId v m) = propertiesLen m"
  "payload (SetPacketId v m) = payload m" "responseTopic (SetPacketId v m) = responseTopic m"
  "correlationData (SetPacketId v m) = correlationData m" "contentType (SetPacketId v m) = contentType m"
  "pubUserProperty (SetPacketId v m) = pubUserProperty m"
  "payloadFormatIndicator (SetPacketId v m) = payloadFormatIndicator m"
  "messageExpiryInterval (SetPacketId v m) = messageExpiryInterval m"
  "topicAlias (SetPacketId v m) = topicAlias m"
  "subscriptionIdentifier (SetPacketId v m) = subscriptionIdentifier m"
  by (simp_all only: pub_props_SetPacketId pub_remlen_SetPacketId)
     (simp_all add: SetPacketId_def QoS_def Flags_def)

lemma assign_id_cases:
  assumes "assign_id g m = (g', n)"
  obtains "n = m" | v where "n = SetPacketId v m"
  using assms by (auto simp: assign_id_def split: if_splits)

lemma assign_id_frame:
  assumes "assign_id g m = (g', n)"
  shows "mtypeflags n = mtypeflags m" "topic n = topic m" "remlen n = remlen m" "propertiesLen n = propertiesLen m"
    "pub_props n = pub_props m" "payload n = payload m" "QoS n = QoS m" "responseTopic n = responseTopic m"
    "correlationData n = correlationData m" "contentType n = contentType m" "pubUserProperty n = pubUserProperty m"
    "pub_remlen n = pub_remlen m" "payloadFormatIndicator n = payloadFormatIndicator m"
    "messageExpiryInterval n = messageExpiryInterval m" "topicAlias n = topicAlias m"
    "subscriptionIdentifier n = subscriptionIdentifier m"
  by (rule assign_id_cases [OF assms]; simp)+

lemma assign_id_length:
  "id_ok g m \<Longrightarrow> assign_id g m = (g', n) \<Longrightarrow> QoS m \<noteq> 0 \<Longrightarrow> length (packetId n) = 2"
  by (auto simp: id_ok_def assign_id_def SetPacketId_def PacketId_def split: if_splits)

lemma assign_id_built:
  "assign_id g (pub_built m) = (fst (assign_id g m), pub_built (snd (assign_id g m)))"
proof -
  have q: "QoS (pub_built m) = QoS m" "PacketId (pub_built m) = PacketId m" "packetId (pub_built m) = packetId m"
    by (simp_all add: pub_built_def QoS_def Flags_def PacketId_def)
  have "SetPacketId v (pub_built m) = pub_built (SetPacketId v m)" for v
    by (simp add: pub_built_def pub_props_SetPacketId pub_remlen_SetPacketId) (simp add: SetPacketId_def)
  then show ?thesis by (simp add: assign_id_def q)
qed

lemma pub_wire_split:
  assumes ok: "pub_ok m" and id: "id_ok g m" and n: "assign_id g m = (g', n)"
  shows "pub_wire n = header_wire (pub_built m) @ lp_wire (topic m) @ pub_rest_wire (pub_built n)"
    and "length (pub_wire n) = hmsglen (pub_built m) + pub_remlen m"
proof -
  note fr = assign_id_frame [OF n]
  have p: "unat (propertiesLen (pub_built n)) = length (pub_props n)"
    using unat_pub(2) [OF ok] fr by (simp add: pub_built_def)
  have b: "pub_props (pub_built n) = pub_props n" "QoS (pub_built n) = QoS n"
    by (simp_all add: pub_built_def pub_props_def QoS_def Flags_def sub_id_sent_def)
  have h: "header_wire (pub_built n) = header_wire (pub_built m)"
    by (rule header_wire_cong) (simp_all add: pub_built_def fr)
  show "pub_wire n = header_wire (pub_built m) @ lp_wire (topic m) @ pub_rest_wire (pub_built n)"
    by (simp add: pub_wire_def h pub_body_wire_def pub_rest_wire_def p b fr)
  have "length (pub_body_wire n) = pub_remlen n"
    by (rule length_pub_body) (use assign_id_length [OF id n] fr in simp)
  then show "length (pub_wire n) = hmsglen (pub_built m) + pub_remlen m"
    by (simp add: pub_wire_def h length_header_wire pub_header_ok ok fr)
qed

lemma pub_rest_emits_built:
  assumes ok: "pub_ok m" and n: "assign_id g m = (g', n)"
  shows "emits_w (pub_encode_rest (pub_built n)) (pub_rest_wire (pub_built n))"
    "emits_b (pub_buf_rest (pub_built n)) (pub_rest_wire (pub_built n))"
proof -
  note fr = assign_id_frame [OF n]
  have "propertiesLen (pub_built n) < 268435456"
    using unat_pub(2) [OF ok] pub_plen_bound [OF ok] fr by (simp add: word_less_nat_alt) (simp add: pub_built_def fr)
  moreover have "short (responseTopic (pub_built n))" "short (correlationData (pub_built n))"
    "short (contentType (pub_built n))" "list_all short (pubUserProperty (pub_built n))"
    using ok fr by (simp_all add: pub_built_def pub_ok_def)
  ultimately show "emits_w (pub_encode_rest (pub_built n)) (pub_rest_wire (pub_built n))"
    "emits_b (pub_buf_rest (pub_built n)) (pub_rest_wire (pub_built n))"
    by (rule pub_rest_emits)+
qed

lemma pub_encode_wire:
  assumes dirty: "dirty m" and ok: "pub_ok m" and id: "id_ok g m" and n: "assign_id g m = (g', n)"
    and dst: "length (pub_wire n) \<le> length dst"
  shows "pub_Len m = Some (pub_built m, length (pub_wire n)) \<and>
    pub_Encode g m dst =
      (g', pub_built n, Ret (pub_wire n @ drop (length (pub_wire n)) dst) (length (pub_wire n))) \<and>
    pub_EncodeToBuf g m buf = (g', pub_built n, Ret (buf @ pub_wire n) (length buf + length (pub_wire n)))"
proof -
  let ?m = "pub_built m"
  let ?hw = "header_wire ?m"
  note split = pub_wire_split [OF ok id n]
  have hok: "header_ok ?m" by (rule pub_header_ok [OF ok])
  have hl: "length ?hw = hmsglen ?m" by (rule length_header_wire [OF hok])
  have room: "hmsglen ?m + pub_remlen m \<le> length dst" using dst split(2) by simp
  have ne: "\<not> (topic m = [] \<and> topicAlias m = 0)" "payload m \<noteq> []" using ok by (auto simp: pub_ok_def)
  have t: "short (topic m)" "topic ?m = topic m" using ok by (simp_all add: pub_ok_def pub_built_def)
  have as: "assign_id g ?m = (g', pub_built n)" using assign_id_built [of g m] n by simp
  have len: "length (pub_wire n) = length ?hw + length (lp_wire (topic m)) + length (pub_rest_wire (pub_built n))"
    by (simp add: split(1))
  define d1 where "d1 = ?hw @ drop (hmsglen ?m) dst"
  define d2 where "d2 = ?hw @ lp_wire (topic m) @ drop (hmsglen ?m + length (lp_wire (topic m))) dst"
  have h: "hencode ?m dst 0 = (?m, Ret d1 (hmsglen ?m))"
    using hencode_ok [OF hok, of dst] room by (simp add: d1_def)
  have w1: "writeLPBytes (topic m) d1 (hmsglen ?m) = Ret d2 (hmsglen ?m + length (lp_wire (topic m)))"
    using emits_wD [OF emits_lp(1) [OF t(1)], of "hmsglen ?m" d1] dst len hl t(2)
    by (simp add: d1_def d2_def ac_simps)
  have w2: "pub_encode_rest (pub_built n) d2 (hmsglen ?m + length (lp_wire (topic m))) =
      Ret (pub_wire n @ drop (length (pub_wire n)) dst) (length (pub_wire n))"
    using emits_wD [OF pub_rest_emits_built(1) [OF ok n], of "hmsglen ?m + length (lp_wire (topic m))" d2] dst len hl
    by (simp add: d2_def split(1) ac_simps)
  have b1: "writeToBufLPBytes (topic m) (buf @ ?hw) (length buf + hmsglen ?m) =
      Ret (buf @ ?hw @ lp_wire (topic m)) (length buf + hmsglen ?m + length (lp_wire (topic m)))"
    using emits_bD [OF emits_lp(2) [OF t(1)], of "length buf + hmsglen ?m" "buf @ ?hw"] hl t(2) by simp
  have b2: "pub_buf_rest (pub_built n) (buf @ ?hw @ lp_wire (topic m)) (length buf + hmsglen ?m + length (lp_wire (topic m))) =
      Ret (buf @ pub_wire n) (length buf + length (pub_wire n))"
    using emits_bD [OF pub_rest_emits_built(2) [OF ok n], of _ "buf @ ?hw @ lp_wire (topic m)"] hl
    by (simp add: split(1) add.assoc)
  have "pub_Len m = Some (?m, length (pub_wire n))"
    using dirty by (simp add: pub_Len_def pub_build_built ok SetRemainingLength_pub unat_pub split(2))
  moreover have "pub_Encode g m dst =
      (g', pub_built n, Ret (pub_wire n @ drop (length (pub_wire n)) dst) (length (pub_wire n)))"
    using dirty ne room
    by (simp add: pub_Encode_def pub_build_built ok SetRemainingLength_pub unat_pub h w1 as w2)
  moreover have "pub_EncodeToBuf g m buf = (g', pub_built n, Ret (buf @ pub_wire n) (length buf + length (pub_wire n)))"
    using dirty ne
    by (simp add: pub_EncodeToBuf_def pub_build_built ok SetRemainingLength_pub hencodeToBuf_ok hok b1 as b2)
  ultimately show ?thesis by simp
qed

lemma pub_encoders_agree_Len:
  "dirty m \<Longrightarrow> pub_ok m \<Longrightarrow> id_ok g m \<Longrightarrow> assign_id g m = (g', n) \<Longrightarrow> pub_Len m = Some (pub_built m, length (pub_wire n))"
  using pub_encode_wire [of m g g' n "replicate (length (pub_wire n)) 0"] by simp

lemma pub_encoders_agree_Encode:
  "dirty m \<Longrightarrow> pub_ok m \<Longrightarrow> id_ok g m \<Longrightarrow> assign_id g m = (g', n) \<Longrightarrow> length (pub_wire n) \<le> length dst \<Longrightarrow>
     pub_Encode g m dst = (g', pub_built n, Ret (pub_wire n @ drop (length (pub_wire n)) dst) (length (pub_wire n)))"
  using pub_encode_wire [of m g g' n dst] by simp

text \<open>A PUBLISH that is dirty and can be sent is encoded the same way by \<open>Encode\<close> and
  \<open>EncodeToBuf\<close>: both draw the same packet identifier, emit the same packet and return its length,
  which is what \<open>Len\<close> reports.\<close>

theorem pub_encoders_agree:
  assumes dirty: "dirty m" and ok: "pub_ok m" and id: "id_ok g m" and n: "assign_id g m = (g', n)"
    and dst: "length (pub_wire n) \<le> length dst"
  shows "pub_Len m = Some (pub_built m, length (pub_wire n)) \<and>
    pub_Encode g m dst =
      (g', pub_built n, Ret (pub_wire n @ drop (length (pub_wire n)) dst) (length (pub_wire n))) \<and>
    pub_EncodeToBuf g m buf = (g', pub_built n, Ret (buf @ pub_wire n) (length buf + length (pub_wire n)))"
  using assms by (rule pub_encode_wire)

section \<open>Decoding the packet\<close>

lemma c_format:
  "not_next LoadFormatDescription rest \<Longrightarrow>
     consumes pub_format (if c then LoadFormatDescription # [v] else [])
       (if c then payloadFormatIndicator_update (\<lambda>_. v) else id) rest"
  unfolding pub_format_def
  by (rule consumes_prop_again, assumption, rule consumes_u8 [where f = "\<lambda>v. payloadFormatIndicator_update (\<lambda>_. v)"])

lemma c_expiry:
  "not_next MessageExpirationTime rest \<Longrightarrow>
     consumes pub_expiry (if c then MessageExpirationTime # u32_bytes v else [])
       (if c then messageExpiryInterval_update (\<lambda>_. v) else id) rest"
  unfolding pub_expiry_def
  by (rule consumes_prop_again, assumption, rule consumes_u32 [where f = "\<lambda>v. messageExpiryInterval_update (\<lambda>_. v)"])

lemma c_alias:
  "not_next ThemeAlias rest \<Longrightarrow> (c \<Longrightarrow> v \<noteq> 0) \<Longrightarrow>
     consumes pub_alias (if c then ThemeAlias # u16_bytes v else [])
       (if c then topicAlias_update (\<lambda>_. v) else id) rest"
  unfolding pub_alias_def
  by (rule consumes_prop_test, assumption, rule consumes_u16 [where f = "\<lambda>v. topicAlias_update (\<lambda>_. v)"], simp_all)

lemma c_responseTopic:
  "not_next ResponseTopic rest \<Longrightarrow> short v \<Longrightarrow>
     consumes pub_responseTopic (if v \<noteq> [] then ResponseTopic # lp_wire v else [])
       (if v \<noteq> [] then responseTopic_update (\<lambda>_. v) else id) rest"
  unfolding pub_responseTopic_def
  by (rule consumes_prop_test, assumption, rule consumes_lp [where f = "\<lambda>v. responseTopic_update (\<lambda>_. v)"], simp_all)

lemma c_correlationData:
  "not_next RelatedData rest \<Longrightarrow> short v \<Longrightarrow>
     consumes pub_correlationData (if v \<noteq> [] then RelatedData # lp_wire v else [])
       (if v \<noteq> [] then correlationData_update (\<lambda>_. v) else id) rest"
  unfolding pub_correlationData_def
  by (rule consumes_prop_test, assumption, rule consumes_lp [where f = "\<lambda>v. correlationData_update (\<lambda>_. v)"], simp_all)

lemma c_contentType:
  "not_next ContentType rest \<Longrightarrow> short v \<Longrightarrow>
     consumes pub_contentType (if v \<noteq> [] then ContentType # lp_wire v else [])
       (if v \<noteq> [] then contentType_update (\<lambda>_. v) else id) rest"
  unfolding pub_contentType_def
  by (rule consumes_prop_test, assumption, rule consumes_or_protocol_error, rule consumes_lp [where f = "\<lambda>v. contentType_update (\<lambda>_. v)"], simp_all)

lemma c_subscriptionIdentifier:
  "not_next DefiningIdentifiers rest \<Longrightarrow> (c \<Longrightarrow> v \<noteq> 0 \<and> v < 268435456) \<Longrightarrow>
     consumes pub_subscriptionIdentifier (if c then DefiningIdentifiers # lb_wire (unat v) else [])
       (if c then subscriptionIdentifier_update (\<lambda>_. v) else id) rest"
  unfolding pub_subscriptionIdentifier_def
proof (rule consumes_prop_test)
  assume "c" and v: "c \<Longrightarrow> v \<noteq> 0 \<and> v < 268435456"
  then have "unat v < 268435456" by (simp add: word_less_nat_alt)
  from consumes_lb [OF this, of "\<lambda>v. subscriptionIdentifier_update (\<lambda>_. v)"]
  show "consumes (\<lambda>src. or_protocol_error (\<lambda>m t. assign (read_lb src t) (\<lambda>v. subscriptionIdentifier_update (\<lambda>_. v)) m t))
      (lb_wire (unat v)) (subscriptionIdentifier_update (\<lambda>_. v)) rest"
    by (intro consumes_or_protocol_error) simp
qed simp_all

lemma c_userProperty:
  "list_all short ups \<Longrightarrow> even (length ups) \<Longrightarrow> not_next UserProperty rest \<Longrightarrow>
     consumes pub_userProperty (up_wire ups) (pubUserProperty_update (\<lambda>_. ups)) rest"
  using consumes_up [of ups rest "\<lambda>v. pubUserProperty_update (\<lambda>_. v)"] by (simp add: consumes_def pub_userProperty_def)

lemma c_propertiesLen:
  "n < 268435456 \<Longrightarrow> consumes pub_propertiesLen (lb_wire n) (propertiesLen_update (\<lambda>_. word_of_nat n)) rest"
  by (simp add: consumes_def pub_propertiesLen_def reads_wire)

lemma c_topic: "short v \<Longrightarrow> consumes pub_topic (lp_wire v) (topic_update (\<lambda>_. v)) rest"
  using consumes_lp [of v "\<lambda>v. topic_update (\<lambda>_. v)" rest] by (simp add: consumes_def pub_topic_def)

text \<open>The identifiers the decoder tests for; the test also looks at the first byte of the payload.\<close>

definition pub_prop_ids :: "byte list" where
  "pub_prop_ids = [LoadFormatDescription, MessageExpirationTime, ThemeAlias, ResponseTopic, RelatedData,
     UserProperty, DefiningIdentifiers, ContentType]"

definition payload_clear :: "publish \<Rightarrow> bool" where
  "payload_clear m \<longleftrightarrow> payload m \<noteq> [] \<and> hd (payload m) \<notin> set pub_prop_ids"

definition keep :: "bool \<Rightarrow> 'a \<Rightarrow> 'a \<Rightarrow> 'a" where "keep c new old = (if c then new else old)"

definition pub_received :: "slice \<Rightarrow> publish \<Rightarrow> publish \<Rightarrow> publish" where
  "pub_received src n m0 =
     m0\<lparr>dbuf := src, mtypeflags := mtypeflags n, remlen := remlen (pub_built n), topic := topic n,
        packetId := keep (QoS n \<noteq> 0) (packetId n) (packetId m0),
        propertiesLen := word_of_nat (length (pub_props n)),
        payloadFormatIndicator := keep (payloadFormatIndicator n \<noteq> 0) (payloadFormatIndicator n) (payloadFormatIndicator m0),
        messageExpiryInterval := keep (messageExpiryInterval n \<noteq> 0) (messageExpiryInterval n) (messageExpiryInterval m0),
        topicAlias := keep (topicAlias n \<noteq> 0) (topicAlias n) (topicAlias m0),
        responseTopic := keep (responseTopic n \<noteq> []) (responseTopic n) (responseTopic m0),
        correlationData := keep (correlationData n \<noteq> []) (correlationData n) (correlationData m0),
        pubUserProperty := pubUserProperty n,
        subscriptionIdentifier := keep (sub_id_sent n) (subscriptionIdentifier n) (subscriptionIdentifier m0),
        contentType := keep (contentType n \<noteq> []) (contentType n) (contentType m0),
        payload := payload n, dirty := False\<rparr>"

lemma pub_variable_chunks:
  "pub_variable src =
     run ([pub_topic src, pub_packetId src] @ [pub_propertiesLen src, pub_format src, pub_expiry src, pub_alias src]
       @ [pub_check_topic] @ [pub_responseTopic src, pub_correlationData src, pub_userProperty src,
          pub_subscriptionIdentifier src, pub_contentType src])"
  by (simp add: pub_variable_def)

lemma payload_not_next: "payload_clear n \<Longrightarrow> pid \<in> set pub_prop_ids \<Longrightarrow> not_next pid (payload n)"
  by (cases "payload n") (auto simp: payload_clear_def)

definition pub_tail1 :: "publish \<Rightarrow> bytes" where
  "pub_tail1 n =
     (if responseTopic n \<noteq> [] then ResponseTopic # lp_wire (responseTopic n) else []) @
     (if correlationData n \<noteq> [] then RelatedData # lp_wire (correlationData n) else []) @
     up_wire (pubUserProperty n) @
     (if sub_id_sent n then DefiningIdentifiers # lb_wire (unat (subscriptionIdentifier n)) else []) @
     (if contentType n \<noteq> [] then ContentType # lp_wire (contentType n) else [])"

definition pub_head1 :: "publish \<Rightarrow> bytes" where
  "pub_head1 n =
     (if payloadFormatIndicator n \<noteq> 0 then LoadFormatDescription # [payloadFormatIndicator n] else []) @
     (if messageExpiryInterval n \<noteq> 0 then MessageExpirationTime # u32_bytes (messageExpiryInterval n) else []) @
     (if topicAlias n \<noteq> 0 then ThemeAlias # u16_bytes (topicAlias n) else [])"

lemma pub_props_split: "pub_props n = pub_head1 n @ pub_tail1 n"
  by (simp add: pub_props_def pub_head1_def pub_tail1_def)

definition upd_if :: "bool \<Rightarrow> ('a \<Rightarrow> 'a) \<Rightarrow> 'a \<Rightarrow> 'a" where "upd_if c f = (if c then f else id)"

lemma pub_chunk2:
  assumes "length (pub_props n) < 268435456" and pc: "payload_clear n"
  shows "consumes (\<lambda>src. run [pub_propertiesLen src, pub_format src, pub_expiry src, pub_alias src])
    (lb_wire (length (pub_props n)) @ pub_head1 n)
    (upd_if (topicAlias n \<noteq> 0) (topicAlias_update (\<lambda>_. topicAlias n)) \<circ>
     (upd_if (messageExpiryInterval n \<noteq> 0) (messageExpiryInterval_update (\<lambda>_. messageExpiryInterval n)) \<circ>
      (upd_if (payloadFormatIndicator n \<noteq> 0) (payloadFormatIndicator_update (\<lambda>_. payloadFormatIndicator n)) \<circ>
       propertiesLen_update (\<lambda>_. word_of_nat (length (pub_props n))))))
    (pub_tail1 n @ payload n)"
proof -
  note nn = payload_not_next [OF pc]
  show ?thesis
    unfolding upd_if_def
    by (rule consumes_eq, rule consumes_Cons [OF c_propertiesLen
          consumes_Cons [OF c_format [where c = "payloadFormatIndicator n \<noteq> 0" and v = "payloadFormatIndicator n"]
          consumes_Cons [OF c_expiry [where c = "messageExpiryInterval n \<noteq> 0" and v = "messageExpiryInterval n"]
          consumes_Cons [OF c_alias [where c = "topicAlias n \<noteq> 0" and v = "topicAlias n"] consumes_Nil]]]])
       (simp_all add: assms(1) pub_head1_def pub_tail1_def nn pub_prop_ids_def pub_ids comp_assoc)
qed

lemma pub_chunk3:
  assumes ok: "pub_ok n" and pc: "payload_clear n"
  shows "consumes (\<lambda>src. run [pub_responseTopic src, pub_correlationData src, pub_userProperty src,
      pub_subscriptionIdentifier src, pub_contentType src])
    (pub_tail1 n)
    (upd_if (contentType n \<noteq> []) (contentType_update (\<lambda>_. contentType n)) \<circ>
     (upd_if (sub_id_sent n) (subscriptionIdentifier_update (\<lambda>_. subscriptionIdentifier n)) \<circ>
      (pubUserProperty_update (\<lambda>_. pubUserProperty n) \<circ>
       (upd_if (correlationData n \<noteq> []) (correlationData_update (\<lambda>_. correlationData n)) \<circ>
        upd_if (responseTopic n \<noteq> []) (responseTopic_update (\<lambda>_. responseTopic n))))))
    (payload n)"
proof -
  note nn = payload_not_next [OF pc]
  have s: "short (responseTopic n)" "short (correlationData n)" "short (contentType n)"
    "list_all short (pubUserProperty n)" "even (length (pubUserProperty n))"
    using ok by (simp_all add: pub_ok_def)
  have si: "sub_id_sent n \<Longrightarrow> subscriptionIdentifier n \<noteq> 0 \<and> subscriptionIdentifier n < 268435456"
    by (auto simp: sub_id_sent_def word_less_nat_alt)
  show ?thesis
    unfolding upd_if_def
    by (rule consumes_eq, rule consumes_Cons [OF c_responseTopic [where v = "responseTopic n"]
          consumes_Cons [OF c_correlationData [where v = "correlationData n"]
          consumes_Cons [OF c_userProperty [where ups = "pubUserProperty n"]
          consumes_Cons [OF c_subscriptionIdentifier [where c = "sub_id_sent n" and v = "subscriptionIdentifier n"]
          consumes_Cons [OF c_contentType [where v = "contentType n"] consumes_Nil]]]]])
       (use si in \<open>simp_all add: s pub_tail1_def nn pub_prop_ids_def pub_ids comp_assoc\<close>)
qed

lemma pub_Decode_wire:
  fixes ex :: bytes
  assumes ok: "pub_ok n" and id: "QoS n \<noteq> 0 \<Longrightarrow> length (packetId n) = 2"
    and top: "topicAlias n \<noteq> 0 \<or> ValidTopic (topic n)" and pc: "payload_clear n"
    and m0: "length (mtypeflags m0) = 1" "mtype m0 = PUBLISH" "topicAlias m0 = 0"
  defines "src \<equiv> Slice (pub_wire n) ex"
  shows "pub_Decode src m0 = Ret (pub_received src n m0) (length (pub_wire n))"
proof -
  let ?b = "pub_built n"
  define hw where "hw = header_wire ?b"
  define h1 where "h1 = m0\<lparr>dbuf := src, mtypeflags := mtypeflags n, remlen := remlen ?b\<rparr>"
  have bf: "mtypeflags ?b = mtypeflags n" by (simp add: pub_built_def)
  have mt: "mtype ?b = PUBLISH" using ok mtype_cong [OF bf] by (simp add: pub_ok_def)
  have hok: "header_ok ?b" by (rule pub_header_ok [OF ok])
  have lh: "hmsglen ?b = length hw" by (simp add: hw_def length_header_wire hok)
  have fl: "flags_ok ?b" using ok flags_ok_cong [OF bf] by (simp add: pub_ok_def)
  have lb: "length (pub_body_wire n) = pub_remlen n" by (rule length_pub_body [OF id])
  have rem: "unat (remlen ?b) = pub_remlen n" "remlen ?b \<noteq> 0"
    using unat_pub(1) [OF ok] by (auto simp: pub_remlen_def)
  have wire: "pub_wire n = hw @ pub_body_wire n" by (simp add: pub_wire_def hw_def)
  have hd: "hdecode src m0 = Ret h1 (length hw)"
    unfolding src_def wire h1_def hw_def lh [symmetric, unfolded hw_def]
    by (subst hdecode_wire [OF hok fl _ _ m0(1)])
       (simp_all add: rem lb m0(2) mt bf)
  have q: "QoS (h1\<lparr>topic := v\<rparr>) = QoS n" for v by (simp add: h1_def QoS_def Flags_def)
  define pre1 where "pre1 = hw @ lp_wire (topic n)"
  define pre2 where "pre2 = pre1 @ (if QoS n \<noteq> 0 then packetId n else [])"
  define pre3 where "pre3 = pre2 @ lb_wire (length (pub_props n)) @ pub_head1 n"
  define pre4 where "pre4 = pre3 @ pub_tail1 n"
  define m1 where "m1 = h1\<lparr>topic := topic n\<rparr>"
  define m2 where "m2 = m1\<lparr>packetId := keep (QoS n \<noteq> 0) (packetId n) (packetId m0)\<rparr>"
  define m3 where "m3 = (upd_if (topicAlias n \<noteq> 0) (topicAlias_update (\<lambda>_. topicAlias n)) \<circ>
     (upd_if (messageExpiryInterval n \<noteq> 0) (messageExpiryInterval_update (\<lambda>_. messageExpiryInterval n)) \<circ>
      (upd_if (payloadFormatIndicator n \<noteq> 0) (payloadFormatIndicator_update (\<lambda>_. payloadFormatIndicator n)) \<circ>
       propertiesLen_update (\<lambda>_. word_of_nat (length (pub_props n)))))) m2"
  define m4 where "m4 = (upd_if (contentType n \<noteq> []) (contentType_update (\<lambda>_. contentType n)) \<circ>
     (upd_if (sub_id_sent n) (subscriptionIdentifier_update (\<lambda>_. subscriptionIdentifier n)) \<circ>
      (pubUserProperty_update (\<lambda>_. pubUserProperty n) \<circ>
       (upd_if (correlationData n \<noteq> []) (correlationData_update (\<lambda>_. correlationData n)) \<circ>
        upd_if (responseTopic n \<noteq> []) (responseTopic_update (\<lambda>_. responseTopic n)))))) m3"
  have w1: "pub_wire n = hw @ lp_wire (topic n) @ (if QoS n \<noteq> 0 then packetId n else []) @
      lb_wire (length (pub_props n)) @ pub_head1 n @ pub_tail1 n @ payload n"
    by (simp add: wire pub_body_wire_def pub_props_split)
  have s1: "pub_topic src h1 (length hw) = Ret m1 (length pre1)"
    using consumesD [OF c_topic refl, of "topic n" hw _ ex h1] ok
    by (simp add: src_def w1 m1_def pre1_def pub_ok_def)
  have s2: "pub_packetId src m1 (length pre1) = Ret m2 (length pre2)"
  proof (cases "QoS n = 0")
    case True
    then show ?thesis
      using q by (simp add: pub_packetId_def m1_def m2_def pre2_def keep_def) (simp add: h1_def)
  next
    case False
    then show ?thesis
      using q consumesD [OF consumes_id [OF id, where f = "\<lambda>v. packetId_update (\<lambda>_. v)"] refl, of pre1 _ ex m1]
      by (simp add: pub_packetId_def m1_def m2_def pre2_def keep_def src_def w1 pre1_def)
  qed
  have s3: "run [pub_propertiesLen src, pub_format src, pub_expiry src, pub_alias src] m2 (length pre2) = Ret m3 (length pre3)"
    using consumesD [OF pub_chunk2 [OF pub_plen_bound [OF ok] pc] refl, of pre2 ex m2]
    by (simp only: src_def w1 m3_def pre3_def pre2_def pre1_def append_assoc length_append add.assoc)
  have s4: "pub_check_topic m3 (length pre3) = Ret m3 (length pre3)"
    using top m0(3) by (auto simp: pub_check_topic_def m3_def m2_def m1_def h1_def upd_if_def)
  have s5: "run [pub_responseTopic src, pub_correlationData src, pub_userProperty src,
      pub_subscriptionIdentifier src, pub_contentType src] m3 (length pre3) = Ret m4 (length pre4)"
    using consumesD [OF pub_chunk3 [OF ok pc] refl, of pre3 ex m3]
    by (simp only: src_def w1 m4_def pre4_def pre3_def pre2_def pre1_def append_assoc length_append add.assoc)
  have s12: "run [pub_topic src, pub_packetId src] h1 (length hw) = Ret m2 (length pre2)"
    by (simp add: s1 s2)
  have s4': "run [pub_check_topic] m3 (length pre3) = Ret m3 (length pre3)" by (simp add: s4)
  have var: "pub_variable src h1 (length hw) = Ret m4 (length pre4)"
    by (simp only: pub_variable_chunks run_append s12 s3 s4' s5 outcome.case)
  have r4: "remlen m4 = remlen ?b"
    by (simp add: m4_def m3_def m2_def m1_def h1_def upd_if_def)
  have w4: "pub_wire n = pre4 @ payload n"
    by (simp add: w1 pre4_def pre3_def pre2_def pre1_def)
  have L: "length hw + pub_remlen n = length (pub_wire n)" by (simp add: wire lb)
  have pay: "pub_payload (length hw) src m4 (length pre4) = Ret (m4\<lparr>payload := payload n, dirty := False\<rparr>) (length (pub_wire n))"
    unfolding pub_payload_def r4 rem L
    by (simp add: src_def srange_def w4 CopyLen_take Let_def)
  have res: "m4\<lparr>payload := payload n, dirty := False\<rparr> = pub_received src n m0"
    by (simp add: m4_def m3_def m2_def m1_def h1_def upd_if_def pub_received_def keep_def)
  show ?thesis
    using hd var pay res by (simp add: pub_Decode_def)
qed
section \<open>Properties\<close>

lemma NewPublishMessage_eq:
  "NewPublishMessage =
     \<lparr>remlen = 0, mtypeflags = [0x30], packetId = [], dbuf = Slice [] [], dirty = True,
       topic = [], propertiesLen = 0, payloadFormatIndicator = 0, messageExpiryInterval = 0, topicAlias = 0,
       responseTopic = [], correlationData = [], pubUserProperty = [], subscriptionIdentifier = 0,
       contentType = [], payload = []\<rparr>"
  by code_simp

text \<open>C13: Take a PUBLISH that can be sent: a topic or an alias, a payload that is not empty, strings of less
  than 65536 bytes, user properties in pairs, a packet that is not too long (\<open>pub_ok\<close>); two bytes of packet
  identifier above QoS 0; a topic without wildcards where there is no alias; and a payload that does not begin with
  the identifier of a property, which the decoder would take for one. A new PUBLISH that decodes its packet consumes
  the packet and gets every field back: flags, topic, packet identifier, properties, payload. One field differs: a
  subscription identifier of 168435455 or more, legal up to 268435455, is not sent and is 0 afterwards.\<close>

theorem pub_roundtrip:
  assumes "pub_ok n" "QoS n \<noteq> 0 \<longrightarrow> length (packetId n) = 2" "topicAlias n \<noteq> 0 \<or> ValidTopic (topic n)"
    "payload_clear n"
  shows "\<exists>m'. pub_Decode (Slice (pub_wire n) ex) NewPublishMessage = Ret m' (length (pub_wire n)) \<and>
    mtypeflags m' = mtypeflags n \<and> (QoS n = 0 \<or> packetId m' = packetId n) \<and> topic m' = topic n \<and>
    payloadFormatIndicator m' = payloadFormatIndicator n \<and> messageExpiryInterval m' = messageExpiryInterval n \<and>
    topicAlias m' = topicAlias n \<and> responseTopic m' = responseTopic n \<and> correlationData m' = correlationData n \<and>
    pubUserProperty m' = pubUserProperty n \<and>
    subscriptionIdentifier m' = (if subscriptionIdentifier n < 168435455 then subscriptionIdentifier n else 0) \<and>
    contentType m' = contentType n \<and> payload m' = payload n"
proof -
  have m0: "length (mtypeflags NewPublishMessage) = 1" "mtype NewPublishMessage = PUBLISH" "topicAlias NewPublishMessage = 0"
    by (simp_all add: NewPublishMessage_eq mtype_def alloc_flags_def PUBLISH_def)
  have "(if sub_id_sent n then subscriptionIdentifier n else 0) =
    (if subscriptionIdentifier n < 168435455 then subscriptionIdentifier n else 0)"
    by (auto simp: sub_id_sent_def word_neq_0_conv [symmetric])
  then show ?thesis
    using pub_Decode_wire [OF assms(1) _ assms(3,4) m0, of ex] assms(2)
    by (auto simp: pub_received_def keep_def NewPublishMessage_eq split: if_splits)
qed

text \<open>The largest legal subscription identifier is not on the wire.\<close>

lemma large_identifier_not_sent: "\<not> sub_id_sent (SetSubscriptionIdentifier 268435455 m)"
  by (simp add: sub_id_sent_def SetSubscriptionIdentifier_def)

definition demo_pub :: publish where
  "demo_pub =
     (SetPayload [104, 105] (SetTopicAlias 7 (fst (SetTopic [97, 47, 98] (fst (SetQoS 1
        (SetMessageExpiryInterval 60 (SetSubscriptionIdentifier 300 (SetPacketId 258 NewPublishMessage)))))))))"

lemma demo_pub_eq:
  "demo_pub =
     \<lparr>remlen = 0, mtypeflags = [0x32], packetId = [1, 2], dbuf = Slice [] [], dirty = True,
       topic = [97, 47, 98], propertiesLen = 0, payloadFormatIndicator = 0, messageExpiryInterval = 60, topicAlias = 7,
       responseTopic = [], correlationData = [], pubUserProperty = [], subscriptionIdentifier = 300,
       contentType = [], payload = [104, 105]\<rparr>"
  by code_simp

lemma demo_pub_flags: "mtype demo_pub = PUBLISH" "flags_ok demo_pub" "QoS demo_pub = 1" "PacketId demo_pub = 258"
  by code_simp+

lemma demo_pub_len:
  "length (pub_props demo_pub) = 11" "pub_remlen demo_pub = 21"
proof -
  have si: "sub_id_sent demo_pub" by code_simp
  show p: "length (pub_props demo_pub) = 11"
    by (simp add: pub_props_def si) (simp add: demo_pub_eq lb_wire.simps [of 300] lb_wire.simps [of 2])
  show "pub_remlen demo_pub = 21"
    by (simp add: pub_remlen_def p demo_pub_flags) (simp add: demo_pub_eq lb_wire.simps [of 11])
qed

lemma demo_pub_ok: "pub_ok demo_pub"
  by (simp add: pub_ok_def demo_pub_flags demo_pub_len) (simp add: demo_pub_eq short_def)

lemma demo_pub_assign: "assign_id 5 demo_pub = (5, demo_pub)"
  by (simp add: assign_id_def demo_pub_flags)

theorem pub_encoders_agree_witness:
  "pub_Len demo_pub = Some (pub_built demo_pub, length (pub_wire demo_pub)) \<and>
    pub_Encode 5 demo_pub (replicate 64 0) =
      (5, pub_built demo_pub,
       Ret (pub_wire demo_pub @ drop (length (pub_wire demo_pub)) (replicate 64 0)) (length (pub_wire demo_pub))) \<and>
    pub_EncodeToBuf 5 demo_pub [] =
      (5, pub_built demo_pub, Ret ([] @ pub_wire demo_pub) (length ([] :: bytes) + length (pub_wire demo_pub)))"
proof (rule pub_encoders_agree)
  show "dirty demo_pub" by (simp add: demo_pub_eq)
  show "pub_ok demo_pub" by (rule demo_pub_ok)
  show "id_ok 5 demo_pub" by (simp add: id_ok_def demo_pub_flags)
  show "assign_id 5 demo_pub = (5, demo_pub)" by (rule demo_pub_assign)
  have "unat (remlen (pub_built demo_pub)) = 21" using unat_pub(1) [OF demo_pub_ok] by (simp add: demo_pub_len)
  then have "length (pub_wire demo_pub) \<le> 5 + 21"
    using pub_wire_split(2) [OF demo_pub_ok _ demo_pub_assign]
    by (simp add: id_ok_def demo_pub_flags demo_pub_len hmsglen_def)
  then show "length (pub_wire demo_pub) \<le> length (replicate 64 (0 :: byte))" by simp
qed

theorem pub_roundtrip_witness:
  "\<exists>m'. pub_Decode (Slice (pub_wire demo_pub) []) NewPublishMessage = Ret m' (length (pub_wire demo_pub)) \<and>
    mtypeflags m' = mtypeflags demo_pub \<and> (QoS demo_pub = 0 \<or> packetId m' = packetId demo_pub) \<and>
    topic m' = topic demo_pub \<and> payloadFormatIndicator m' = payloadFormatIndicator demo_pub \<and>
    messageExpiryInterval m' = messageExpiryInterval demo_pub \<and> topicAlias m' = topicAlias demo_pub \<and>
    responseTopic m' = responseTopic demo_pub \<and> correlationData m' = correlationData demo_pub \<and>
    pubUserProperty m' = pubUserProperty demo_pub \<and> subscriptionIdentifier m' = subscriptionIdentifier demo_pub \<and>
    contentType m' = contentType demo_pub \<and> payload m' = payload demo_pub"
proof -
  have c: "QoS demo_pub \<noteq> 0 \<longrightarrow> length (packetId demo_pub) = 2" "topicAlias demo_pub \<noteq> 0 \<or> ValidTopic (topic demo_pub)"
    "payload_clear demo_pub"
    by (simp_all add: demo_pub_eq payload_clear_def pub_prop_ids_def pub_ids)
  have "subscriptionIdentifier demo_pub < 168435455" by (simp add: demo_pub_eq)
  then show ?thesis using pub_roundtrip [OF demo_pub_ok c, of "[]"] by simp
qed

text \<open>
  A payload that begins with the identifier of a property loses its first bytes to it: QoS 0,
  topic \<open>a\<close>, no properties, payload \<open>1 65 66\<close>.
\<close>

lemma payload_taken_for_property:
  "(case pub_Decode (Slice [0x30, 7, 0, 1, 97, 0, 1, 65, 66] []) NewPublishMessage of
      Ret m' t \<Rightarrow> payload m' = [66] \<and> payloadFormatIndicator m' = 65 \<and> t = 9
    | _ \<Rightarrow> False)"
  by code_simp

text \<open>\<open>SetRetain\<close> and \<open>SetDup\<close> do not mark a decoded message dirty, so a change is not sent.\<close>

lemma SetRetain_not_sent:
  "\<not> dirty m \<Longrightarrow> pub_EncodeToBuf g (SetRetain v m) buf = (g, SetRetain v m, Ret (buf @ vis (dbuf m)) (slen (dbuf m)))"
  "\<not> dirty m \<Longrightarrow> pub_EncodeToBuf g (SetDup v m) buf = (g, SetDup v m, Ret (buf @ vis (dbuf m)) (slen (dbuf m)))"
  by (simp_all add: pub_EncodeToBuf_def SetRetain_def SetDup_def)

end
