(* ===== verification/RetainTree.thy ===== *)
theory RetainTree
  imports Publish "HOL-Library.Sublist"
begin

text \<open>
  The tree of retained messages of \<open>corev5/v2/topics/impl/memtopics.go\<close> (\<open>rnode\<close>). A node keeps a
  private copy of the message, made by encoding it into the node's buffer and decoding the buffer.
\<close>

section \<open>State\<close>

datatype rnode = RNode (rn_msg: "publish option") (rn_buf: slice) (rn_kids: "(bytes \<times> rnode) list")

definition newRNode :: rnode where "newRNode = RNode None (Slice [] []) []"

section \<open>Operations\<close>

text \<open>\<open>t.buf[0:l]\<close>, or a new buffer where the capacity is too small.\<close>

definition fit_buf :: "nat \<Rightarrow> slice \<Rightarrow> slice" where
  "fit_buf l buf =
     (let a = vis buf @ spare buf
      in if l > length a then Slice (replicate l 0) [] else Slice (take l a) (drop l a))"

text \<open>
  The message copied into a node. The argument message is changed by \<open>Len\<close> and \<open>Encode\<close>; the old
  message of the node is the receiver of \<open>Decode\<close>. \<open>None\<close> is a panic.
\<close>

definition store_msg :: "u64 \<Rightarrow> publish \<Rightarrow> publish option \<Rightarrow> slice \<Rightarrow>
    (publish option \<times> slice \<times> u64 \<times> publish \<times> goerr option) option" where
  "store_msg g msg old buf =
     (case pub_Len msg of
        None \<Rightarrow> None
      | Some (msg1, l) \<Rightarrow>
        (let b = fit_buf l buf in
         case pub_Encode g msg1 (vis b) of
           (g', msg2, Panic) \<Rightarrow> None
         | (g', msg2, Fail d t e) \<Rightarrow> Some (old, Slice d (spare b), g', msg2, Some e)
         | (g', msg2, Ret d t) \<Rightarrow>
           (let b' = Slice d (spare b) in
            case pub_Decode b' (case old of None \<Rightarrow> NewPublishMessage | Some m \<Rightarrow> m) of
              Panic \<Rightarrow> None
            | Fail m' t' e \<Rightarrow> Some (Some m', b', g', msg2, Some e)
            | Ret m' t' \<Rightarrow> Some (Some m', b', g', msg2, None))))"

function rinsert :: "bytes \<Rightarrow> u64 \<Rightarrow> publish \<Rightarrow> rnode \<Rightarrow> (rnode \<times> u64 \<times> publish \<times> goerr option) option" where
  "rinsert tp g msg (RNode m b kids) =
     (if tp = [] then
        (case store_msg g msg m b of
           None \<Rightarrow> None
         | Some (m', b', g', msg', e) \<Rightarrow> Some (RNode m' b' kids, g', msg', e))
      else case nextTopicLevel tp of
        Inl e \<Rightarrow> Some (RNode m b kids, g, msg, Some e)
      | Inr (level, rem) \<Rightarrow>
          (let n = (case map_of kids level of Some n \<Rightarrow> n | None \<Rightarrow> newRNode) in
           case rinsert (case rem of None \<Rightarrow> [] | Some r \<Rightarrow> r) g msg n of
             None \<Rightarrow> None
           | Some (n', g', msg', e) \<Rightarrow> Some (RNode m b (AList.update level n' kids), g', msg', e)))"
  by pat_completeness auto
termination
  by (relation "measure (\<lambda>(tp, g, msg, t). length tp)")
     (auto dest: nextTopicLevel_shorter split: option.splits)

text \<open>A child without children is deleted, whatever message it holds.\<close>

function rremove :: "bytes \<Rightarrow> rnode \<Rightarrow> rnode \<times> goerr option" where
  "rremove tp (RNode m b kids) =
     (if tp = [] then (RNode None (Slice [] []) kids, None)
      else case nextTopicLevel tp of
        Inl e \<Rightarrow> (RNode m b kids, Some e)
      | Inr (level, rem) \<Rightarrow>
          (case map_of kids level of
             None \<Rightarrow> (RNode m b kids, Some (Errorf ''memtopics/rremove: No topic found''))
           | Some n \<Rightarrow>
               (case rremove (case rem of None \<Rightarrow> [] | Some r \<Rightarrow> r) n of
                  (n', Some e) \<Rightarrow> (RNode m b (AList.update level n' kids), Some e)
                | (n', None) \<Rightarrow>
                    (if rn_kids n' = [] then (RNode m b (AList.delete level kids), None)
                     else (RNode m b (AList.update level n' kids), None)))))"
  by pat_completeness auto
termination
  by (relation "measure (\<lambda>(tp, t). length tp)")
     (auto dest: nextTopicLevel_shorter split: option.splits)

declare rinsert.simps [simp del] rremove.simps [simp del]

definition own_msg :: "publish option \<Rightarrow> publish list \<Rightarrow> publish list" where
  "own_msg m msgs = (case m of None \<Rightarrow> msgs | Some x \<Rightarrow> msgs @ [x])"

fun allRetained :: "rnode \<Rightarrow> publish list \<Rightarrow> publish list" where
  "allRetained (RNode m b kids) msgs = fold (\<lambda>(k, n). allRetained n) kids (own_msg m msgs)"

function rmatch :: "bytes \<Rightarrow> rnode \<Rightarrow> publish list \<Rightarrow> publish list \<times> goerr option"
  and rmatch_kids :: "bytes \<Rightarrow> (bytes \<times> rnode) list \<Rightarrow> publish list \<Rightarrow> publish list \<times> goerr option" where
  "rmatch tp (RNode m b kids) msgs =
     (if tp = [] then (own_msg m msgs, None)
      else case nextTopicLevel tp of
        Inl e \<Rightarrow> (msgs, Some e)
      | Inr (level, rem) \<Rightarrow>
          (let r = (case rem of None \<Rightarrow> [] | Some r \<Rightarrow> r) in
           if level = MWC then (allRetained (RNode m b kids) msgs, None)
           else if level = SWC then rmatch_kids r kids msgs
           else case map_of kids level of None \<Rightarrow> (msgs, None) | Some n \<Rightarrow> rmatch r n msgs))"
| "rmatch_kids r [] msgs = (msgs, None)"
| "rmatch_kids r ((k, n) # ks) msgs =
     (case rmatch r n msgs of
        (msgs', Some e) \<Rightarrow> (msgs', Some e)
      | (msgs', None) \<Rightarrow> rmatch_kids r ks msgs')"
  by pat_completeness auto
termination
proof (relation "measures [\<lambda>x. case x of Inl (tp, t, ms) \<Rightarrow> size t | Inr (r, ks, ms) \<Rightarrow> size_list (size_prod (\<lambda>_. 0) size) ks]",
    goal_cases)
  case 1
  then show ?case by simp
qed (auto dest!: map_of_SomeD intro: size_list_estimation' simp: less_Suc_eq_le)

section \<open>Well-formedness and contents\<close>

fun wf_rnode :: "rnode \<Rightarrow> bool" where
  "wf_rnode (RNode m b kids) \<longleftrightarrow> distinct (map fst kids) \<and> list_all (\<lambda>(k, n). wf_rnode n) kids"

text \<open>All retained messages with their paths, and what a node holds.\<close>

fun retained :: "rnode \<Rightarrow> (bytes list \<times> publish) list" where
  "retained (RNode m b kids) =
     map (\<lambda>x. ([], x)) (own_msg m [])
     @ concat (map (\<lambda>(k, n). map (\<lambda>(p, x). (k # p, x)) (retained n)) kids)"

fun content :: "rnode \<Rightarrow> bytes list \<Rightarrow> publish option \<times> slice" where
  "content (RNode m b kids) [] = (m, b)"
| "content (RNode m b kids) (k # p) =
     (case map_of kids k of None \<Rightarrow> (None, Slice [] []) | Some n \<Rightarrow> content n p)"

lemma newRNode_simps [simp]: "wf_rnode newRNode" "retained newRNode = []" "content newRNode p = (None, Slice [] [])"
  by (simp_all add: newRNode_def own_msg_def) (cases p; simp)

lemma wf_rkidD: "wf_rnode (RNode m b kids) \<Longrightarrow> map_of kids k = Some n \<Longrightarrow> wf_rnode n"
  by (auto simp: list_all_iff dest: map_of_SomeD)

lemma wf_update: "wf_rnode (RNode m b kids) \<Longrightarrow> wf_rnode n \<Longrightarrow> wf_rnode (RNode m' b' (AList.update k n kids))"
  by (auto simp: alist_simps list_all_iff set_AList_update)

lemma wf_delete: "wf_rnode (RNode m b kids) \<Longrightarrow> wf_rnode (RNode m' b' (AList.delete k kids))"
  by (auto simp: alist_simps list_all_iff set_AList_delete)

lemma content_node:
  "content (RNode m b kids) p =
     (case p of [] \<Rightarrow> (m, b)
      | k # q \<Rightarrow> (case map_of kids k of None \<Rightarrow> (None, Slice [] []) | Some n \<Rightarrow> content n q))"
  by (cases p) simp_all

lemma retained_content:
  "wf_rnode t \<Longrightarrow> (p, x) \<in> set (retained t) \<longleftrightarrow> fst (content t p) = Some x"
proof (induction t p rule: content.induct)
  case (1 m b kids)
  then show ?case by (auto simp: own_msg_def split: option.splits)
next
  case (2 m b kids k p)
  have d: "distinct (map fst kids)" using 2(2) by simp
  have "(k # p, x) \<in> set (retained (RNode m b kids)) \<longleftrightarrow> (\<exists>n. (k, n) \<in> set kids \<and> (p, x) \<in> set (retained n))"
    by (force simp: own_msg_def split: option.splits)
  also have "\<dots> \<longleftrightarrow> (\<exists>n. map_of kids k = Some n \<and> (p, x) \<in> set (retained n))"
    using d by simp
  finally show ?case
    using 2(1) wf_rkidD [OF 2(2)] by (auto split: option.splits)
qed

section \<open>Matching\<close>

fun ret_matches :: "bytes list \<Rightarrow> bytes list \<Rightarrow> bool" where
  "ret_matches [] p \<longleftrightarrow> p = []"
| "ret_matches (l # ls) p \<longleftrightarrow>
     l = MWC \<or> (case p of [] \<Rightarrow> False | k # q \<Rightarrow> (l = SWC \<or> l = k) \<and> ret_matches ls q)"

definition hits :: "bytes list \<Rightarrow> rnode \<Rightarrow> publish multiset" where
  "hits ls t = mset (map snd (filter (\<lambda>e. ret_matches ls (fst e)) (retained t)))"

lemma mset_own_msg: "mset (own_msg m ms) = mset ms + mset (own_msg m [])"
  by (simp add: own_msg_def split: option.splits)

lemma snd_own: "map snd (map (\<lambda>x. ([], x)) xs) = xs"
  by (simp add: o_def)

lemma snd_kids:
  "map snd (concat (map (\<lambda>(k, n). map (\<lambda>(p, x). (k # p, x)) (f n)) kids)) = concat (map (\<lambda>(k, n). map snd (f n)) kids)"
  by (induction kids) (auto simp: split_def o_def)

lemma allRetained_mset: "mset (allRetained t ms) = mset ms + mset (map snd (retained t))"
proof (induction t ms rule: allRetained.induct)
  case (1 m b kids ms)
  have "mset (fold (\<lambda>(k, n). allRetained n) ks acc) = mset acc + sum_list (map (\<lambda>(k, n). mset (map snd (retained n))) ks)"
    if "set ks \<subseteq> set kids" for ks acc
    using that
  proof (induction ks arbitrary: acc)
    case Nil
    then show ?case by simp
  next
    case (Cons kn ks)
    obtain k n where kn: "kn = (k, n)" by (cases kn)
    have "mset (allRetained n acc) = mset acc + mset (map snd (retained n))"
      using 1 Cons(2) by (auto simp: kn)
    then show ?case using Cons by (simp add: kn add.assoc)
  qed
  then have f: "mset (fold (\<lambda>(k, n). allRetained n) kids (own_msg m ms)) =
      mset (own_msg m ms) + sum_list (map (\<lambda>(k, n). mset (map snd (retained n))) kids)"
    by blast
  have "sum_list (map (\<lambda>(k, n). mset (map snd (retained n))) kids) =
      mset (concat (map (\<lambda>(k, n). map snd (retained n)) kids))"
    by (induction kids) auto
  then show ?case
    by (simp only: allRetained.simps retained.simps map_append mset_append snd_own snd_kids f mset_own_msg [of m ms] add.assoc)
qed

lemma hits_Nil: "hits [] (RNode m b kids) = mset (own_msg m [])"
  by (auto simp: hits_def filter_empty_conv o_def own_msg_def split: option.splits)

lemma hits_MWC: "hits (MWC # ls) t = mset (map snd (retained t))"
  by (simp add: hits_def)

lemma hits_Cons:
  assumes "l \<noteq> MWC"
  shows "hits (l # ls) (RNode m b kids) =
    sum_list (map (\<lambda>(k, n). if l = SWC \<or> l = k then hits ls n else {#}) kids)"
proof -
  have own: "filter (\<lambda>e. ret_matches (l # ls) (fst e)) (map (\<lambda>x. ([], x)) xs) = []" for xs :: "publish list"
    using assms by (simp add: filter_empty_conv)
  have one: "mset (map snd (filter (\<lambda>e. ret_matches (l # ls) (fst e)) (map (\<lambda>(p, x). (k # p, x)) (retained n)))) =
      (if l = SWC \<or> l = k then hits ls n else {#})" for k n
    using assms by (auto simp: hits_def filter_map o_def split_def filter_empty_conv)
  have "mset (map snd (filter (\<lambda>e. ret_matches (l # ls) (fst e))
      (concat (map (\<lambda>(k, n). map (\<lambda>(p, x). (k # p, x)) (retained n)) kids)))) =
      sum_list (map (\<lambda>(k, n). if l = SWC \<or> l = k then hits ls n else {#}) kids)"
  proof (induction kids)
    case Nil
    then show ?case by simp
  next
    case (Cons kn kids)
    then show ?case
      by (cases kn) (simp only: list.map concat.simps filter_append map_append mset_append one prod.case sum_list.Cons)
  qed
  then show ?thesis
    by (simp only: hits_def retained.simps filter_append own append_Nil)
qed

lemma rmatch_correct:
  "wf_rnode t \<Longrightarrow> topic_path tp = Inr (ls, tr) \<Longrightarrow>
     \<exists>ms'. rmatch tp t ms = (ms', None) \<and> mset ms' = mset ms + hits ls t"
  "list_all (\<lambda>(k, n). wf_rnode n) kids \<Longrightarrow> topic_path r = Inr (ls, tr) \<Longrightarrow>
     \<exists>ms'. rmatch_kids r kids ms = (ms', None) \<and> mset ms' = mset ms + sum_list (map (\<lambda>(k, n). hits ls n) kids)"
proof (induction tp t ms and r kids ms arbitrary: ls tr and ls tr rule: rmatch_rmatch_kids.induct)
  case (1 tp m b kids ms)
  show ?case
  proof (cases "tp = []")
    case True
    then show ?thesis using 1(4) mset_own_msg [of m ms] by (subst rmatch.simps) (simp add: hits_Nil)
  next
    case ne: False
    then obtain l rem ls' tr' where l: "nextTopicLevel tp = Inr (l, rem)"
      "topic_path (case rem of None \<Rightarrow> [] | Some r \<Rightarrow> r) = Inr (ls', tr')" "ls = l # ls'"
      using 1(4) topic_path_error [OF ne] topic_path_step [OF ne]
      by (cases "nextTopicLevel tp") (fastforce split: sum.splits)+
    have w: "list_all (\<lambda>(k, n). wf_rnode n) kids" and d: "distinct (map fst kids)" using 1(3) by simp_all
    consider "l = MWC" | "l = SWC" "l \<noteq> MWC" | "l \<noteq> MWC" "l \<noteq> SWC" by blast
    then show ?thesis
    proof cases
      case 1
      then show ?thesis
        using ne allRetained_mset [of "RNode m b kids" ms] by (subst rmatch.simps) (simp add: l hits_MWC)
    next
      case 2
      then show ?thesis
        using 1(1) [OF ne l(1) refl refl 2(2,1) w l(2)] ne
        by (subst rmatch.simps) (simp add: l hits_Cons)
    next
      case 3
      have one: "sum_list (map (\<lambda>(k, n). if l = SWC \<or> l = k then hits ls' n else {#}) kids) =
          (case map_of kids l of None \<Rightarrow> {#} | Some n \<Rightarrow> hits ls' n)"
        using sum_one_key [OF d, of l "hits ls'"] 3 by simp
      show ?thesis
      proof (cases "map_of kids l")
        case None
        then show ?thesis using ne 3 one by (subst rmatch.simps) (simp add: l hits_Cons)
      next
        case (Some n)
        then show ?thesis
          using 1(2) [OF ne l(1) refl refl 3 Some wf_rkidD [OF \<open>wf_rnode _\<close> Some] l(2)] ne 3 one
          by (subst rmatch.simps) (simp add: l hits_Cons)
      qed
    qed
  qed
next
  case (2 r ms)
  then show ?case by (subst rmatch_kids.simps) simp
next
  case (3 r k n ks ms)
  have w: "wf_rnode n" "list_all (\<lambda>(k, n). wf_rnode n) ks" using 3(3) by simp_all
  obtain ms' where ms': "rmatch r n ms = (ms', None)" "mset ms' = mset ms + hits ls n"
    using 3(1) [OF w(1) 3(4)] by blast
  show ?case
    using 3(2) [OF ms'(1) [symmetric] refl w(2) 3(4)] ms'
    by (subst rmatch_kids.simps) (auto simp: add.assoc)
qed

section \<open>Insertion and removal\<close>

lemma rinsert_Nil:
  "rinsert [] g msg (RNode m b kids) =
     (case store_msg g msg m b of
        None \<Rightarrow> None
      | Some (m', b', g', msg', e) \<Rightarrow> Some (RNode m' b' kids, g', msg', e))"
  by (subst rinsert.simps) simp

lemma rremove_Nil: "rremove [] (RNode m b kids) = (RNode None (Slice [] []) kids, None)"
  by (subst rremove.simps) simp

lemma rinsert_correct:
  "wf_rnode t \<Longrightarrow> topic_path tp = Inr (p, tr) \<Longrightarrow>
     (case store_msg g msg (fst (content t p)) (snd (content t p)) of
        None \<Rightarrow> rinsert tp g msg t = None
      | Some (m', b', g', msg', e) \<Rightarrow>
          \<exists>t'. rinsert tp g msg t = Some (t', g', msg', e) \<and> wf_rnode t' \<and> content t' = (content t)(p := (m', b')))"
proof (induction tp g msg t arbitrary: p tr rule: rinsert.induct)
  case (1 tp g msg m b kids)
  show ?case
  proof (cases "tp = []")
    case True
    then show ?thesis
      using 1(2,3) by (auto simp: rinsert_Nil fun_eq_iff content_node split: option.splits list.splits)
  next
    case ne: False
    then obtain l rem p' tr' where l: "nextTopicLevel tp = Inr (l, rem)"
      "topic_path (case rem of None \<Rightarrow> [] | Some r \<Rightarrow> r) = Inr (p', tr')" "p = l # p'"
      using 1(3) topic_path_error [OF ne] topic_path_step [OF ne]
      by (cases "nextTopicLevel tp") (fastforce split: sum.splits)+
    define n where "n = (case map_of kids l of Some n \<Rightarrow> n | None \<Rightarrow> newRNode)"
    have wn: "wf_rnode n" using wf_rkidD [OF 1(2)] by (simp add: n_def split: option.splits)
    have cn: "content n q = content (RNode m b kids) (l # q)" for q
      by (simp add: n_def split: option.splits)
    note IH = 1(1) [OF ne l(1) refl n_def wn l(2)]
    have cp: "content (RNode m b kids) p = content n p'" by (simp only: l(3) cn)
    show ?thesis
    proof (cases "store_msg g msg (fst (content (RNode m b kids) p)) (snd (content (RNode m b kids) p))")
      case None
      then show ?thesis
        using IH ne unfolding cp by (subst rinsert.simps) (simp add: l n_def [symmetric] Let_def)
    next
      case (Some r)
      obtain m' b' g' msg' e where r: "r = (m', b', g', msg', e)" by (cases r)
      obtain n' where n': "rinsert (case rem of None \<Rightarrow> [] | Some r \<Rightarrow> r) g msg n = Some (n', g', msg', e)"
        "wf_rnode n'" "content n' = (content n)(p' := (m', b'))"
        using IH Some unfolding cp r by auto
      have eq: "rinsert tp g msg (RNode m b kids) = Some (RNode m b (AList.update l n' kids), g', msg', e)"
        using ne n'(1) by (subst rinsert.simps) (simp add: l n_def [symmetric] Let_def)
      have c: "content (RNode m b (AList.update l n' kids)) q = ((content (RNode m b kids))(p := (m', b'))) q" for q
      proof (cases q)
        case (Cons k q')
        then show ?thesis using cn [of q'] by (simp add: n'(3) map_of_update_AList l(3))
      qed (simp add: l(3))
      show ?thesis
        using eq c wf_update [OF 1(2) n'(2)] Some r by (auto simp: fun_eq_iff)
    qed
  qed
qed

lemma content_leaf: "rn_kids n = [] \<Longrightarrow> p \<noteq> [] \<Longrightarrow> content n p = (None, Slice [] [])"
  by (cases n; cases p) auto

lemma rremove_correct:
  "wf_rnode t \<Longrightarrow> topic_path tp = Inr (p, tr) \<Longrightarrow>
     wf_rnode (fst (rremove tp t)) \<and> fst (content (fst (rremove tp t)) p) = None \<and>
     (\<forall>q. \<not> prefix q p \<longrightarrow> content (fst (rremove tp t)) q = content t q) \<and>
     (p \<noteq> [] \<longrightarrow> content (fst (rremove tp t)) [] = content t [])"
proof (induction tp t arbitrary: p tr rule: rremove.induct)
  case (1 tp m b kids)
  show ?case
  proof (cases "tp = []")
    case True
    then show ?thesis
      using 1(2,3) by (auto simp: rremove_Nil content_node split: list.splits)
  next
    case ne: False
    then obtain l rem p' tr' where l: "nextTopicLevel tp = Inr (l, rem)"
      "topic_path (case rem of None \<Rightarrow> [] | Some r \<Rightarrow> r) = Inr (p', tr')" "p = l # p'"
      using 1(3) topic_path_error [OF ne] topic_path_step [OF ne]
      by (cases "nextTopicLevel tp") (fastforce split: sum.splits)+
    show ?thesis
    proof (cases "map_of kids l")
      case None
      have "rremove tp (RNode m b kids) = (RNode m b kids, Some (Errorf ''memtopics/rremove: No topic found''))"
        using ne None by (subst rremove.simps) (simp add: l)
      then show ?thesis using 1(2) None l(3) by simp
    next
      case (Some n)
      define r where "r = (case rem of None \<Rightarrow> [] | Some r \<Rightarrow> r)"
      obtain n' e where n': "rremove r n = (n', e)" by (cases "rremove r n")
      have IH: "wf_rnode n'" "fst (content n' p') = None" "\<And>q. \<not> prefix q p' \<Longrightarrow> content n' q = content n q"
        using 1(1) [OF ne l(1) refl Some wf_rkidD [OF 1(2) Some] l(2)] n' by (simp_all add: r_def)
      define kids' where "kids' = (if e = None \<and> rn_kids n' = [] then AList.delete l kids else AList.update l n' kids)"
      have eq: "fst (rremove tp (RNode m b kids)) = RNode m b kids'"
        using ne Some n' by (subst rremove.simps) (simp add: l r_def [symmetric] kids'_def split: option.splits)
      have wf: "wf_rnode (RNode m b kids')"
        using wf_update [OF 1(2) IH(1)] wf_delete [OF 1(2)] by (simp add: kids'_def)
      have at_p: "fst (content (RNode m b kids') p) = None"
        using IH(2) by (auto simp: l(3) kids'_def map_of_update_AList map_of_delete_AList)
      have other: "content (RNode m b kids') q = content (RNode m b kids) q" if q: "\<not> prefix q p" for q
      proof (cases q)
        case Nil
        then show ?thesis using q by simp
      next
        case (Cons k q')
        show ?thesis
        proof (cases "k = l")
          case True
          then have np: "\<not> prefix q' p'" using q Cons l(3) by simp
          then have "q' \<noteq> []" by auto
          then have "rn_kids n' = [] \<Longrightarrow> content n q' = (None, Slice [] [])"
            using IH(3) [OF np] content_leaf [of n' q'] by simp
          then show ?thesis
            using IH(3) [OF np] Some by (simp add: Cons True kids'_def map_of_update_AList map_of_delete_AList)
        next
          case False
          then show ?thesis by (simp add: Cons kids'_def map_of_update_AList map_of_delete_AList)
        qed
      qed
      show ?thesis using eq wf at_p other by simp
    qed
  qed
qed

section \<open>Storing and finding a message\<close>

lemma fit_buf_length: "length (vis (fit_buf l buf)) = l"
  by (auto simp: fit_buf_def Let_def min_def)

lemma pub_ok_built: "pub_ok m \<Longrightarrow> pub_ok (pub_built m)"
  using mtype_cong [of "pub_built m" m] flags_ok_cong [of "pub_built m" m]
  by (simp add: pub_ok_def)

lemma pub_built_built: "pub_built (pub_built m) = pub_built m"
  by (simp add: pub_built_def [of "pub_built m"]) (simp add: pub_built_def)

definition retainable :: "u64 \<Rightarrow> publish \<Rightarrow> bool" where
  "retainable g n \<longleftrightarrow>
     dirty n \<and> pub_ok n \<and> (QoS n \<noteq> 0 \<longrightarrow> PacketId n \<noteq> 0) \<and> (topicAlias n \<noteq> 0 \<or> ValidTopic (topic n)) \<and>
     payload_clear n"

lemma PacketId_length: "PacketId n \<noteq> 0 \<Longrightarrow> length (packetId n) = 2"
  by (simp add: PacketId_def split: if_splits)

lemma assign_id_known: "QoS n \<noteq> 0 \<longrightarrow> PacketId n \<noteq> 0 \<Longrightarrow> assign_id g n = (g, n)"
  by (auto simp: assign_id_def)

definition receiver :: "publish option \<Rightarrow> publish" where
  "receiver old = (case old of None \<Rightarrow> NewPublishMessage | Some m \<Rightarrow> m)"

lemma store_msg_ok:
  assumes n: "retainable g n"
    and old: "length (mtypeflags (receiver old)) = 1" "mtype (receiver old) = PUBLISH" "topicAlias (receiver old) = 0"
  shows "\<exists>b'. store_msg g n old buf = Some (Some (pub_received b' n (receiver old)), b', g, pub_built n, None)"
proof -
  let ?b = "pub_built n"
  have d: "dirty n" "pub_ok n" "QoS n \<noteq> 0 \<longrightarrow> PacketId n \<noteq> 0" "topicAlias n \<noteq> 0 \<or> ValidTopic (topic n)" "payload_clear n"
    using n by (simp_all add: retainable_def)
  have idn: "assign_id g n = (g, n)" by (rule assign_id_known [OF d(3)])
  have idb: "assign_id g ?b = (g, ?b)"
    using assign_id_built [of g n] idn by simp
  have ido: "id_ok g n" "id_ok g ?b"
    using d(3) by (auto simp: id_ok_def pub_built_def QoS_def Flags_def PacketId_def)
  have db: "dirty ?b" by (simp add: pub_built_def)
  have wb: "pub_wire ?b = pub_wire n"
  proof -
    have "pub_body_wire ?b = pub_body_wire n"
      by (simp add: pub_body_wire_def)
    then show ?thesis by (simp add: pub_wire_def pub_built_built)
  qed
  have len: "pub_Len n = Some (?b, length (pub_wire n))"
    using pub_encoders_agree_Len [OF d(1,2) ido(1) idn] .
  define b where "b = fit_buf (length (pub_wire n)) buf"
  have lb: "length (vis b) = length (pub_wire n)" by (simp add: b_def fit_buf_length)
  have enc: "pub_Encode g ?b (vis b) = (g, ?b, Ret (pub_wire n) (length (pub_wire n)))"
    using pub_encoders_agree_Encode [OF db pub_ok_built [OF d(2)] ido(2) idb, of "vis b"] lb
    by (simp add: wb pub_built_built)
  have id2: "QoS n \<noteq> 0 \<Longrightarrow> length (packetId n) = 2" using d(3) PacketId_length by blast
  have dec: "pub_Decode (Slice (pub_wire n) (spare b)) (receiver old) =
      Ret (pub_received (Slice (pub_wire n) (spare b)) n (receiver old)) (length (pub_wire n))"
    by (rule pub_Decode_wire [OF d(2) id2 d(4,5) old])
  show ?thesis
    by (simp add: store_msg_def len b_def [symmetric] Let_def enc dec receiver_def [symmetric])
qed

lemma receiver_new:
  "length (mtypeflags (receiver None)) = 1" "mtype (receiver None) = PUBLISH" "topicAlias (receiver None) = 0"
  by (simp_all add: receiver_def NewPublishMessage_eq mtype_def alloc_flags_def PUBLISH_def)

text \<open>The old message is the receiver: a property the new one does not have keeps its old value.\<close>

lemma store_msg_keeps_old_properties:
  assumes "retainable g n" "length (mtypeflags old) = 1" "mtype old = PUBLISH" "topicAlias old = 0"
    and "contentType n = []" "responseTopic n = []" "messageExpiryInterval n = 0"
  shows "\<exists>m' b'. store_msg g n (Some old) buf = Some (Some m', b', g, pub_built n, None) \<and>
    contentType m' = contentType old \<and> responseTopic m' = responseTopic old \<and>
    messageExpiryInterval m' = messageExpiryInterval old"
  using store_msg_ok [OF assms(1), of "Some old" buf] assms(2-)
  by (auto simp: receiver_def pub_received_def keep_def)

text \<open>After a sendable message is retained under its topic, at a node that held none, the call
  reports no error, the tree stays well-formed, the other nodes keep their messages, and every
  filter that matches the topic finds a copy with the same topic, flags and payload.\<close>

lemma retain_then_match:
  assumes "wf_rnode t" "retainable g n" "topic_path (topic n) = Inr (p, tr)" "fst (content t p) = None"
    "topic_path f = Inr (ls, tr')" "ret_matches ls p"
  shows "\<exists>t' msg' ms x. rinsert (topic n) g n t = Some (t', g, msg', None) \<and> wf_rnode t' \<and>
    (\<forall>q. q \<noteq> p \<longrightarrow> content t' q = content t q) \<and>
    rmatch f t' [] = (ms, None) \<and> x \<in> set ms \<and>
    topic x = topic n \<and> payload x = payload n \<and> mtypeflags x = mtypeflags n"
proof -
  obtain b' where st: "store_msg g n (fst (content t p)) (snd (content t p)) =
      Some (Some (pub_received b' n (receiver None)), b', g, pub_built n, None)"
    using store_msg_ok [OF assms(2) receiver_new, of "snd (content t p)"] assms(4) by auto
  define x where "x = pub_received b' n (receiver None)"
  obtain t' where t': "rinsert (topic n) g n t = Some (t', g, pub_built n, None)" "wf_rnode t'"
    "content t' = (content t)(p := (Some x, b'))"
    using rinsert_correct [OF assms(1,3), of g n] st by (auto simp: x_def)
  have "(p, x) \<in> set (retained t')" using retained_content [OF t'(2)] t'(3) by simp
  moreover obtain ms where ms: "rmatch f t' [] = (ms, None)" "mset ms = hits ls t'"
    using rmatch_correct(1) [OF t'(2) assms(5), of "[]"] by auto
  ultimately have "x \<in> set ms"
    using assms(6) mset_eq_setD [OF ms(2) [unfolded hits_def]] by force
  moreover have "topic x = topic n \<and> payload x = payload n \<and> mtypeflags x = mtypeflags n"
    by (simp add: x_def pub_received_def)
  ultimately show ?thesis using t' ms(1) by auto
qed

section \<open>Properties\<close>

text \<open>C15: Matching a filter against a well-formed tree succeeds and returns, each once and in no promised
  order, the retained messages whose path the filter matches.\<close>

theorem rmatch_exact:
  assumes "wf_rnode t" "topic_path f = Inr (ls, tr)"
  shows "\<exists>ms. rmatch f t [] = (ms, None) \<and>
    mset ms = {# x. (p, x) \<in># filter_mset (\<lambda>(p, x). ret_matches ls p) (mset (retained t)) #}"
  using rmatch_correct(1) [OF assms, of "[]"] by (auto simp: hits_def split_def simp flip: mset_filter)

text \<open>Removing a topic empties its node, keeps every node that is not above it, and keeps the tree
  well-formed.\<close>

theorem rremove_removes:
  assumes "wf_rnode t" "topic_path tp = Inr (p, tr)"
  shows "wf_rnode (fst (rremove tp t)) \<and> fst (content (fst (rremove tp t)) p) = None \<and>
    (\<forall>q. prefix q p \<or> content (fst (rremove tp t)) q = content t q)"
  using rremove_correct [OF assms] by blast

text \<open>
  A node above it can be lost with its message: with messages on \<open>a\<close> and \<open>a/b\<close>, removing the one
  on \<open>a/b\<close> removes both.
\<close>

definition demo_rtree :: rnode where
  "demo_rtree = RNode None (Slice [] [])
     [([97], RNode (Some demo_pub) (Slice [] []) [([98], RNode (Some demo_pub) (Slice [] []) [])])]"

lemma rremove_loses_parent:
  "fst (content demo_rtree [[97]]) = Some demo_pub"
  "rremove [97, 47, 98] demo_rtree = (newRNode, None)"
proof -
  show "fst (content demo_rtree [[97]]) = Some demo_pub" by (simp add: demo_rtree_def)
  have "nextTopicLevel [97, 47, 98] = Inr ([97], Some [98])" "nextTopicLevel [98] = Inr ([98], None)" by code_simp+
  then show "rremove [97, 47, 98] demo_rtree = (newRNode, None)"
    by (simp add: rremove.simps demo_rtree_def newRNode_def)
qed

lemma demo_paths: "topic_path [97, 47, 98] = Inr ([[97], [98]], False)" "topic_path [43, 47, 35] = Inr ([SWC, MWC], False)"
  by code_simp+

lemma demo_rtree_wf: "wf_rnode demo_rtree"
  by (simp add: demo_rtree_def)

theorem rmatch_exact_witness:
  "\<exists>ms. rmatch [43, 47, 35] demo_rtree [] = (ms, None) \<and>
    mset ms = {# x. (p, x) \<in># filter_mset (\<lambda>(p, x). ret_matches [SWC, MWC] p) (mset (retained demo_rtree)) #}"
  by (rule rmatch_exact [OF demo_rtree_wf demo_paths(2)])

theorem rremove_removes_witness:
  "wf_rnode (fst (rremove [97, 47, 98] demo_rtree)) \<and>
    fst (content (fst (rremove [97, 47, 98] demo_rtree)) [[97], [98]]) = None \<and>
    (\<forall>q. prefix q [[97], [98]] \<or> content (fst (rremove [97, 47, 98] demo_rtree)) q = content demo_rtree q)"
  by (rule rremove_removes [OF demo_rtree_wf demo_paths(1)])

lemma demo_pub_retainable: "retainable 5 demo_pub"
  by (simp add: retainable_def demo_pub_ok demo_pub_flags)
     (simp add: demo_pub_eq payload_clear_def pub_prop_ids_def pub_ids)

end
