(* ===== verification/ShareTree.thy ===== *)
theory ShareTree
  imports SubTree
begin

text \<open>
  The tree of shared subscriptions of \<open>corev5/v2/topics/share/memtopics.go\<close>: a node keeps, by share
  name, the group of its subscribers, and a match delivers to one member of each group. The member
  is drawn with \<open>math/rand\<close>, seeded from the clock: the generator is a parameter \<open>intn\<close> with its
  state, of which \<open>Intn(n) < n\<close> is assumed for \<open>n > 0\<close>.
\<close>

section \<open>State\<close>

datatype 'u sins = Sins (si_subs: "'u list") (si_qos: "byte list")

datatype 'u shnode = ShNode (sh_shares: "(bytes \<times> 'u sins) list") (sh_kids: "(bytes \<times> 'u shnode) list")

definition newShNode :: "'u shnode" where "newShNode = ShNode [] []"

section \<open>Operations\<close>

definition group_add :: "'u \<Rightarrow> byte \<Rightarrow> 'u sins \<Rightarrow> 'u sins" where
  "group_add u q g =
     (case find_index u (si_subs g) of
        Some i \<Rightarrow> Sins (si_subs g) ((si_qos g)[i := q])
      | None \<Rightarrow> Sins (si_subs g @ [u]) (si_qos g @ [q]))"

function sh_insert :: "bytes \<Rightarrow> sub \<Rightarrow> 'u \<Rightarrow> 'u shnode \<Rightarrow> 'u shnode \<times> goerr option" where
  "sh_insert sn subs u (ShNode shares kids) =
     (if subTopic subs = [] then
        (case map_of shares sn of
           Some v \<Rightarrow> (ShNode (AList.update sn (group_add u (subQos subs) v) shares) kids, None)
         | None \<Rightarrow> (ShNode (AList.update sn (Sins [u] [subQos subs]) shares) kids, None))
      else case nextTopicLevel (subTopic subs) of
        Inl e \<Rightarrow> (ShNode shares kids, Some e)
      | Inr (level, rem) \<Rightarrow>
          (let n = (case map_of kids level of Some n \<Rightarrow> n | None \<Rightarrow> newShNode);
               r = sh_insert sn (subs\<lparr>subTopic := (case rem of None \<Rightarrow> [] | Some r \<Rightarrow> r)\<rparr>) u n
           in (ShNode shares (AList.update level (fst r) kids), snd r)))"
  by pat_completeness auto
termination
  by (relation "measure (\<lambda>(sn, s, u, t). length (subTopic s))")
     (auto dest: nextTopicLevel_shorter split: option.splits)

definition no_subscribers :: "'u shnode \<Rightarrow> bool" where
  "no_subscribers n \<longleftrightarrow> list_all (\<lambda>(k, v). si_subs v = []) (sh_shares n)"

function sh_remove :: "bytes \<Rightarrow> bytes \<Rightarrow> 'u option \<Rightarrow> 'u shnode \<Rightarrow> 'u shnode \<times> goerr option" where
  "sh_remove tp sn su (ShNode shares kids) =
     (if tp = [] then
        (case su of
           None \<Rightarrow> (if sn = [] then (ShNode [] kids, None) else (ShNode (AList.delete sn shares) kids, None))
         | Some u \<Rightarrow>
             (case map_of shares sn of
                None \<Rightarrow> (ShNode shares kids, Some (Errorf ''memtopics/remove: No topic found for subscriber''))
              | Some v \<Rightarrow>
                  (case find_index u (si_subs v) of
                     Some i \<Rightarrow>
                       (ShNode (AList.update sn (Sins (remove_at i (si_subs v)) (remove_at i (si_qos v))) shares) kids, None)
                   | None \<Rightarrow> (ShNode shares kids, Some (Errorf ''memtopics/remove: No topic found for subscriber'')))))
      else case nextTopicLevel tp of
        Inl e \<Rightarrow> (ShNode shares kids, Some e)
      | Inr (level, rem) \<Rightarrow>
          (case map_of kids level of
             None \<Rightarrow> (ShNode shares kids, Some (Errorf ''memtopics/remove: No topic found''))
           | Some n \<Rightarrow>
               (case sh_remove (case rem of None \<Rightarrow> [] | Some r \<Rightarrow> r) sn su n of
                  (n', Some e) \<Rightarrow> (ShNode shares (AList.update level n' kids), Some e)
                | (n', None) \<Rightarrow>
                    (if no_subscribers n' \<and> sh_kids n' = []
                     then (ShNode shares (AList.delete level kids), None)
                     else (ShNode shares (AList.update level n' kids), None)))))"
  by pat_completeness auto
termination
  by (relation "measure (\<lambda>(tp, sn, u, t). length tp)")
     (auto dest: nextTopicLevel_shorter split: option.splits)

declare sh_insert.simps [simp del] sh_remove.simps [simp del]

type_synonym 'u picks = "('u \<times> sub) list"

text \<open>One member of a group, with the smaller of the two QoS levels and no other options.\<close>

definition pick :: "('r \<Rightarrow> nat \<Rightarrow> nat \<times> 'r) \<Rightarrow> byte \<Rightarrow> 'u sins \<Rightarrow> 'u picks \<times> 'r \<Rightarrow> 'u picks \<times> 'r" where
  "pick intn qos g acc =
     (if si_subs g = [] then acc
      else let (i, r') = intn (snd acc) (length (si_subs g)) in
        (fst acc @ [(si_subs g ! i,
           mk_sub [] (if qos \<le> si_qos g ! i then qos else si_qos g ! i, False, False, 0, 0))], r'))"

definition sh_matchQos ::
    "('r \<Rightarrow> nat \<Rightarrow> nat \<times> 'r) \<Rightarrow> byte \<Rightarrow> bytes \<Rightarrow> 'u shnode \<Rightarrow> 'u picks \<times> 'r \<Rightarrow> 'u picks \<times> 'r" where
  "sh_matchQos intn qos sn t acc =
     (if sn = [] then fold (\<lambda>(k, g). pick intn qos g) (sh_shares t) acc
      else case map_of (sh_shares t) sn of None \<Rightarrow> acc | Some g \<Rightarrow> pick intn qos g acc)"

definition sh_matchChild ::
    "('r \<Rightarrow> nat \<Rightarrow> nat \<times> 'r) \<Rightarrow> byte \<Rightarrow> bytes \<Rightarrow> bytes \<Rightarrow> 'u shnode \<Rightarrow> 'u picks \<times> 'r \<Rightarrow> 'u picks \<times> 'r" where
  "sh_matchChild intn qos sn k t acc =
     (case map_of (sh_kids t) k of Some v \<Rightarrow> sh_matchQos intn qos sn v acc | None \<Rightarrow> acc)"

fun sh_match :: "('r \<Rightarrow> nat \<Rightarrow> nat \<times> 'r) \<Rightarrow> bytes \<Rightarrow> bytes \<Rightarrow> byte \<Rightarrow> 'u shnode \<Rightarrow> 'u picks \<times> 'r \<Rightarrow>
      ('u picks \<times> 'r) \<times> goerr option"
  and sh_match_kids :: "('r \<Rightarrow> nat \<Rightarrow> nat \<times> 'r) \<Rightarrow> bytes \<Rightarrow> bytes option \<Rightarrow> bytes \<Rightarrow> byte \<Rightarrow>
      (bytes \<times> 'u shnode) list \<Rightarrow> 'u picks \<times> 'r \<Rightarrow> ('u picks \<times> 'r) \<times> goerr option" where
  "sh_match intn tp sn qos (ShNode shares kids) acc =
     (if tp = [] then
        (sh_matchChild intn qos sn SWC (ShNode shares kids)
          (sh_matchChild intn qos sn MWC (ShNode shares kids)
            (sh_matchQos intn qos sn (ShNode shares kids) acc)), None)
      else case nextTopicLevel tp of
        Inl e \<Rightarrow> (acc, Some e)
      | Inr (level, rem) \<Rightarrow> sh_match_kids intn level rem sn qos kids acc)"
| "sh_match_kids intn level rem sn qos [] acc = (acc, None)"
| "sh_match_kids intn level rem sn qos ((k, n) # ks) acc =
     (if k = MWC then sh_match_kids intn level rem sn qos ks (sh_matchQos intn qos sn n acc)
      else if k = SWC \<or> k = level then
        (case rem of
           Some r \<Rightarrow>
             (case sh_match intn r sn qos n acc of
                (acc', Some e) \<Rightarrow> (acc', Some e)
              | (acc', None) \<Rightarrow> sh_match_kids intn level rem sn qos ks acc')
         | None \<Rightarrow>
             sh_match_kids intn level rem sn qos ks
               (sh_matchChild intn qos sn MWC n (sh_matchQos intn qos sn n acc)))
      else sh_match_kids intn level rem sn qos ks acc)"

text \<open>
  \<open>matchAll\<close>: the share names by topic filter. The map is an association list from the joined
  levels; a first level is not preceded by a separator.
\<close>

definition add_name :: "bytes \<Rightarrow> bytes \<Rightarrow> (bytes \<times> bytes list) list \<Rightarrow> (bytes \<times> bytes list) list" where
  "add_name tp i v = AList.update tp ((case map_of v tp of None \<Rightarrow> [] | Some xs \<Rightarrow> xs) @ [i]) v"

fun matchAll :: "'u shnode \<Rightarrow> bytes \<Rightarrow> (bytes \<times> bytes list) list \<Rightarrow> (bytes \<times> bytes list) list" where
  "matchAll (ShNode shares kids) tp v =
     fold (\<lambda>(p, n). matchAll n (tp @ 47 # p)) kids (fold (\<lambda>(i, g). add_name tp i) shares v)"

definition smatchAll :: "'u shnode \<Rightarrow> (bytes \<times> bytes list) list" where
  "smatchAll t = fold (\<lambda>(k, n). matchAll n k) (sh_kids t) []"

section \<open>Well-formedness and contents\<close>

definition wf_sins :: "'u sins \<Rightarrow> bool" where
  "wf_sins g \<longleftrightarrow> length (si_subs g) = length (si_qos g) \<and> distinct (si_subs g)"

fun wf_sh :: "'u shnode \<Rightarrow> bool" where
  "wf_sh (ShNode shares kids) \<longleftrightarrow>
     distinct (map fst shares) \<and> list_all (\<lambda>(k, g). wf_sins g) shares \<and>
     distinct (map fst kids) \<and> list_all (\<lambda>(k, n). wf_sh n) kids"

fun node_shares :: "'u shnode \<Rightarrow> bytes list \<Rightarrow> (bytes \<times> 'u sins) list" where
  "node_shares (ShNode shares kids) [] = shares"
| "node_shares (ShNode shares kids) (k # p) =
     (case map_of kids k of None \<Rightarrow> [] | Some n \<Rightarrow> node_shares n p)"

definition members :: "(bytes \<times> 'u sins) list \<Rightarrow> bytes \<Rightarrow> ('u \<times> byte) list" where
  "members shares sn = (case map_of shares sn of None \<Rightarrow> [] | Some g \<Rightarrow> zip (si_subs g) (si_qos g))"

definition sh_at :: "'u shnode \<Rightarrow> bytes \<times> bytes list \<Rightarrow> ('u \<times> byte) list" where
  "sh_at t k = members (node_shares t (snd k)) (fst k)"

text \<open>Every group with its path and share name.\<close>

fun groups :: "'u shnode \<Rightarrow> (bytes list \<times> bytes \<times> 'u sins) list" where
  "groups (ShNode shares kids) =
     map (\<lambda>x. ([], x)) shares
     @ concat (map (\<lambda>(k, n). map (\<lambda>(p, x). (k # p, x)) (groups n)) kids)"

lemma newShNode_simps [simp]: "wf_sh newShNode" "node_shares newShNode p = []" "sh_at newShNode k = []"
proof -
  show "wf_sh newShNode" by (simp add: newShNode_def)
  show n: "node_shares newShNode p = []" for p :: "bytes list"
    by (cases p) (simp_all add: newShNode_def)
  show "sh_at newShNode k = []" by (simp add: sh_at_def members_def n)
qed

lemma wf_shkidD: "wf_sh (ShNode shares kids) \<Longrightarrow> map_of kids k = Some n \<Longrightarrow> wf_sh n"
  by (auto simp: list_all_iff dest: map_of_SomeD)

lemma wf_shareD: "wf_sh (ShNode shares kids) \<Longrightarrow> map_of shares k = Some g \<Longrightarrow> wf_sins g"
  by (auto simp: list_all_iff dest: map_of_SomeD)

lemma node_shares_node:
  "node_shares (ShNode shares kids) p =
     (case p of [] \<Rightarrow> shares | k # q \<Rightarrow> (case map_of kids k of None \<Rightarrow> [] | Some n \<Rightarrow> node_shares n q))"
  by (cases p) simp_all

lemma members_update:
  "members (AList.update sn g shares) x = (if x = sn then zip (si_subs g) (si_qos g) else members shares x)"
  by (simp add: members_def map_of_update_AList)

lemma group_add_zip:
  "wf_sins g \<Longrightarrow> wf_sins (group_add u q g) \<and>
     zip (si_subs (group_add u q g)) (si_qos (group_add u q g)) = AList.update u q (zip (si_subs g) (si_qos g))"
  by (auto simp: wf_sins_def group_add_def update_zip_find find_index_None split: option.splits)

section \<open>Insertion and removal\<close>

lemma sh_insert_Nil:
  "subTopic s = [] \<Longrightarrow> sh_insert sn s u (ShNode shares kids) =
     (case map_of shares sn of
        Some v \<Rightarrow> (ShNode (AList.update sn (group_add u (subQos s) v) shares) kids, None)
      | None \<Rightarrow> (ShNode (AList.update sn (Sins [u] [subQos s]) shares) kids, None))"
  by (subst sh_insert.simps) simp

lemma wf_shares_update:
  "wf_sh (ShNode shares kids) \<Longrightarrow> wf_sins g \<Longrightarrow> wf_sh (ShNode (AList.update sn g shares) kids)"
  by (simp add: alist_simps tree_alist)

lemma wf_shkids_update:
  "wf_sh (ShNode shares kids) \<Longrightarrow> wf_sh n \<Longrightarrow> wf_sh (ShNode shares (AList.update k n kids))"
  by (simp add: alist_simps tree_alist)

lemma wf_shkids_delete: "wf_sh (ShNode shares kids) \<Longrightarrow> wf_sh (ShNode shares (AList.delete k kids))"
  by (simp add: alist_simps tree_alist)

lemma sh_insert_correct:
  "wf_sh t \<Longrightarrow>
     wf_sh (fst (sh_insert sn s u t)) \<and>
     (case topic_path (subTopic s) of
        Inl e \<Rightarrow> snd (sh_insert sn s u t) = Some e \<and> sh_at (fst (sh_insert sn s u t)) = sh_at t
      | Inr (p, tr) \<Rightarrow> snd (sh_insert sn s u t) = None \<and>
          sh_at (fst (sh_insert sn s u t)) = (sh_at t)((sn, p) := AList.update u (subQos s) (sh_at t (sn, p))))"
proof (induction sn s u t rule: sh_insert.induct)
  case (1 sn s u shares kids)
  show ?case
  proof (cases "subTopic s = []")
    case True
    show ?thesis
    proof (cases "map_of shares sn")
      case None
      have "wf_sins (Sins [u] [subQos s])" by (simp add: wf_sins_def)
      then show ?thesis
        using None 1(2) wf_shares_update [OF 1(2)] True
        by (auto simp: sh_insert_Nil sh_at_def fun_eq_iff node_shares_node members_update split: list.splits)
           (simp add: members_def)
    next
      case (Some g)
      note g = group_add_zip [OF wf_shareD [OF 1(2) Some], of u "subQos s"]
      then show ?thesis
        using Some 1(2) wf_shares_update [OF 1(2)] True
        by (auto simp: sh_insert_Nil sh_at_def fun_eq_iff node_shares_node members_update split: list.splits)
           (simp add: members_def)
    qed
  next
    case ne: False
    show ?thesis
    proof (cases "nextTopicLevel (subTopic s)")
      case (Inl e)
      then have "sh_insert sn s u (ShNode shares kids) = (ShNode shares kids, Some e)"
        using ne by (subst sh_insert.simps) simp
      then show ?thesis using 1(2) Inl by (simp add: topic_path_error [OF ne])
    next
      case (Inr lr)
      obtain l rem where lr: "lr = (l, rem)" by (cases lr)
      define n where "n = (case map_of kids l of Some n \<Rightarrow> n | None \<Rightarrow> newShNode)"
      define s' where "s' = s\<lparr>subTopic := (case rem of None \<Rightarrow> [] | Some r \<Rightarrow> r)\<rparr>"
      have wfn: "wf_sh n"
        using wf_shkidD [OF 1(2)] by (simp add: n_def split: option.splits)
      have here: "sh_insert sn s u (ShNode shares kids) =
          (ShNode shares (AList.update l (fst (sh_insert sn s' u n)) kids), snd (sh_insert sn s' u n))"
        using ne Inr by (subst sh_insert.simps) (simp add: lr n_def s'_def Let_def)
      have at_n: "node_shares n q = node_shares (ShNode shares kids) (l # q)" for q
        by (simp add: n_def split: option.splits)
      have q2: "subQos s' = subQos s" by (simp add: s'_def)
      note IH = 1(1) [OF ne Inr lr [symmetric] n_def wfn, folded s'_def, unfolded q2]
      have tp: "topic_path (subTopic s) =
          (case topic_path (subTopic s') of Inl e \<Rightarrow> Inl e | Inr (ls, tr) \<Rightarrow> Inr (l # ls, tr \<and> rem \<noteq> None))"
        using topic_path_step [OF ne, of l rem] Inr lr by (simp add: s'_def)
      have w: "wf_sh (fst (sh_insert sn s u (ShNode shares kids)))"
        unfolding here fst_conv by (rule wf_shkids_update [OF 1(2)]) (use IH in simp)
      define n' where "n' = fst (sh_insert sn s' u n)"
      have at': "sh_at (ShNode shares (AList.update l n' kids)) (x, p) =
          (case p of [] \<Rightarrow> members shares x
           | k # q \<Rightarrow> if k = l then sh_at n' (x, q) else sh_at (ShNode shares kids) (x, p))" for x p
        by (auto simp: sh_at_def node_shares_node map_of_update_AList split: list.splits)
      have at_n': "sh_at (ShNode shares kids) (x, l # q) = sh_at n (x, q)" for x q
        by (simp add: sh_at_def at_n)
      have at_0: "sh_at (ShNode shares kids) (x, []) = members shares x" for x
        by (simp add: sh_at_def)
      show ?thesis
      proof (cases "topic_path (subTopic s')")
        case (Inl e)
        then have "snd (sh_insert sn s' u n) = Some e" "sh_at n' = sh_at n" using IH by (simp_all add: n'_def)
        then show ?thesis
          using w Inl by (auto simp: here tp n'_def [symmetric] fun_eq_iff at' at_n' at_0 split: list.splits)
      next
        case (Inr pt)
        obtain p tr where pt: "pt = (p, tr)" by (cases pt)
        have h: "snd (sh_insert sn s' u n) = None"
          "sh_at n' = (sh_at n)((sn, p) := AList.update u (subQos s) (sh_at n (sn, p)))"
          using IH Inr by (simp_all add: n'_def pt)
        have "sh_at (ShNode shares (AList.update l n' kids)) =
            (sh_at (ShNode shares kids))((sn, l # p) := AList.update u (subQos s) (sh_at n (sn, p)))"
          by (auto simp: fun_eq_iff at' h(2) at_n' at_0 split: list.splits)
        then show ?thesis
          using w Inr h(1) by (simp add: here tp n'_def [symmetric] pt at_n')
      qed
    qed
  qed
qed

definition sh_removed :: "bytes \<Rightarrow> bytes \<Rightarrow> 'u \<Rightarrow> 'u shnode \<Rightarrow> 'u shnode \<Rightarrow> goerr option \<Rightarrow> bool" where
  "sh_removed tp sn u t t' r \<longleftrightarrow>
     wf_sh t' \<and>
     (case topic_path tp of
        Inl e \<Rightarrow> r \<noteq> None \<and> t' = t
      | Inr (p, tr) \<Rightarrow>
          (if u \<in> fst ` set (sh_at t (sn, p))
           then r = None \<and> sh_at t' = (sh_at t)((sn, p) := AList.delete u (sh_at t (sn, p)))
           else r \<noteq> None \<and> t' = t))"

lemma sh_leaf:
  "no_subscribers n \<Longrightarrow> sh_kids n = [] \<Longrightarrow> sh_at n k = []"
proof -
  assume a: "no_subscribers n" "sh_kids n = []"
  obtain shares where n: "n = ShNode shares []" using a(2) by (cases n) simp
  show ?thesis
  proof (cases "snd k")
    case Nil
    then show ?thesis
      using a(1) by (auto simp: n sh_at_def members_def no_subscribers_def list_all_iff dest: map_of_SomeD split: option.splits)
  qed (simp add: n sh_at_def members_def)
qed

lemma sh_removed_here:
  assumes wf: "wf_sh (ShNode shares kids)"
  shows "sh_removed [] sn u (ShNode shares kids) (fst (sh_remove [] sn (Some u) (ShNode shares kids)))
     (snd (sh_remove [] sn (Some u) (ShNode shares kids)))"
proof (cases "map_of shares sn")
  case None
  then have "sh_remove [] sn (Some u) (ShNode shares kids) =
      (ShNode shares kids, Some (Errorf ''memtopics/remove: No topic found for subscriber''))"
    by (subst sh_remove.simps) simp
  then show ?thesis
    using None wf by (simp add: sh_removed_def sh_at_def members_def)
next
  case (Some g)
  have g: "length (si_subs g) = length (si_qos g)" "distinct (si_subs g)"
    using wf_shareD [OF wf Some] by (simp_all add: wf_sins_def)
  have at_sn: "sh_at (ShNode shares kids) (sn, []) = zip (si_subs g) (si_qos g)"
    using Some by (simp add: sh_at_def members_def)
  have keys: "fst ` set (zip (si_subs g) (si_qos g)) = set (si_subs g)"
    using g(1) by (metis map_fst_zip set_map)
  show ?thesis
  proof (cases "find_index u (si_subs g)")
    case None
    then have "sh_remove [] sn (Some u) (ShNode shares kids) =
        (ShNode shares kids, Some (Errorf ''memtopics/remove: No topic found for subscriber''))"
      using Some by (subst sh_remove.simps) simp
    then show ?thesis
      using None wf at_sn keys by (simp add: sh_removed_def find_index_None)
  next
    case (Some i)
    define g' where "g' = Sins (remove_at i (si_subs g)) (remove_at i (si_qos g))"
    have i: "i < length (si_subs g)" "u \<in> set (si_subs g)"
      using find_index_Some [OF Some] find_index_in_set [OF Some] by auto
    have "sh_remove [] sn (Some u) (ShNode shares kids) = (ShNode (AList.update sn g' shares) kids, None)"
      using Some \<open>map_of shares sn = Some g\<close> by (subst sh_remove.simps) (simp add: g'_def)
    moreover have "wf_sins g'" using g i by (simp add: wf_sins_def g'_def length_remove_at distinct_remove_at)
    moreover have "zip (si_subs g') (si_qos g') = AList.delete u (zip (si_subs g) (si_qos g))"
      using delete_zip_find [OF g Some] by (simp add: g'_def)
    ultimately show ?thesis
      using i(2) keys at_sn wf_shares_update [OF wf]
      by (auto simp: sh_removed_def fun_eq_iff sh_at_def node_shares_node members_update split: list.splits)
  qed
qed

lemma sh_remove_step:
  "tp \<noteq> [] \<Longrightarrow> nextTopicLevel tp = Inr (l, rem) \<Longrightarrow> map_of kids l = Some n \<Longrightarrow>
     sh_remove tp sn su (ShNode shares kids) =
       (case sh_remove (case rem of None \<Rightarrow> [] | Some r \<Rightarrow> r) sn su n of
          (n', Some e) \<Rightarrow> (ShNode shares (AList.update l n' kids), Some e)
        | (n', None) \<Rightarrow>
            (if no_subscribers n' \<and> sh_kids n' = []
             then (ShNode shares (AList.delete l kids), None)
             else (ShNode shares (AList.update l n' kids), None)))"
  by (subst sh_remove.simps) simp

lemma sh_remove_fails:
  "tp \<noteq> [] \<Longrightarrow> nextTopicLevel tp = Inl e \<Longrightarrow> sh_remove tp sn su (ShNode shares kids) = (ShNode shares kids, Some e)"
  "tp \<noteq> [] \<Longrightarrow> nextTopicLevel tp = Inr (l, rem) \<Longrightarrow> map_of kids l = None \<Longrightarrow>
     sh_remove tp sn su (ShNode shares kids) = (ShNode shares kids, Some (Errorf ''memtopics/remove: No topic found''))"
  by (subst sh_remove.simps, simp)+

lemma sh_removed_step:
  assumes wf: "wf_sh (ShNode shares kids)" and ne: "tp \<noteq> []"
    and l: "nextTopicLevel tp = Inr (l, rem)" and n: "map_of kids l = Some n"
    and IH: "sh_removed (case rem of None \<Rightarrow> [] | Some r \<Rightarrow> r) sn u n n' r"
    and sr: "sh_remove (case rem of None \<Rightarrow> [] | Some r \<Rightarrow> r) sn (Some u) n = (n', r)"
  shows "sh_removed tp sn u (ShNode shares kids) (fst (sh_remove tp sn (Some u) (ShNode shares kids)))
           (snd (sh_remove tp sn (Some u) (ShNode shares kids)))"
proof -
  define tp' where "tp' = (case rem of None \<Rightarrow> [] | Some r \<Rightarrow> r)"
  define kids' where "kids' =
     (if r = None \<and> no_subscribers n' \<and> sh_kids n' = [] then AList.delete l kids else AList.update l n' kids)"
  have eq: "sh_remove tp sn (Some u) (ShNode shares kids) = (ShNode shares kids', r)"
    by (simp add: sh_remove_step [OF ne l n] sr kids'_def split: option.splits)
  have tp: "topic_path tp =
      (case topic_path tp' of Inl e \<Rightarrow> Inl e | Inr (ls, tr) \<Rightarrow> Inr (l # ls, tr \<and> rem \<noteq> None))"
    using topic_path_step [OF ne l] by (simp add: tp'_def)
  have leaf: "no_subscribers n' \<Longrightarrow> sh_kids n' = [] \<Longrightarrow> members (node_shares n' q) x = []" for q x
    using sh_leaf [of n' "(x, q)"] by (simp add: sh_at_def)
  have at': "sh_at (ShNode shares kids') (x, p) =
      (case p of [] \<Rightarrow> members shares x
       | k # q \<Rightarrow> if k = l then sh_at n' (x, q) else sh_at (ShNode shares kids) (x, p))" for x p
    by (auto simp: sh_at_def node_shares_node kids'_def map_of_update_AList map_of_delete_AList leaf members_def [of "[]"]
        split: list.splits)
  have at_n: "sh_at (ShNode shares kids) (x, l # q) = sh_at n (x, q)" for x q
    by (simp add: sh_at_def n)
  have at_0: "sh_at (ShNode shares kids) (x, []) = members shares x" for x
    by (simp add: sh_at_def)
  have w: "wf_sh (ShNode shares kids')"
    using wf_shkids_update [OF wf] wf_shkids_delete [OF wf] IH by (simp only: sh_removed_def kids'_def split: if_split) blast
  have same: "kids' = kids" if "r \<noteq> None"
  proof -
    have "n' = n" using IH that by (auto simp: sh_removed_def split: sum.splits if_splits)
    then show ?thesis using that n by (auto simp: kids'_def update_triv)
  qed
  show ?thesis
  proof (cases "topic_path tp'")
    case (Inl e)
    then show ?thesis
      using IH w same by (simp add: sh_removed_def eq tp tp'_def [symmetric])
  next
    case (Inr ls)
    obtain p tr where ls: "ls = (p, tr)" by (cases ls)
    have ih: "if u \<in> fst ` set (sh_at n (sn, p))
        then r = None \<and> sh_at n' = (sh_at n)((sn, p) := AList.delete u (sh_at n (sn, p)))
        else r \<noteq> None \<and> n' = n"
      using IH Inr by (simp add: sh_removed_def ls tp'_def)
    show ?thesis
    proof (cases "u \<in> fst ` set (sh_at n (sn, p))")
      case True
      then have h: "r = None" "sh_at n' = (sh_at n)((sn, p) := AList.delete u (sh_at n (sn, p)))" using ih by simp_all
      have "sh_at (ShNode shares kids') = (sh_at (ShNode shares kids))((sn, l # p) := AList.delete u (sh_at n (sn, p)))"
        by (auto simp: fun_eq_iff at' h(2) at_n at_0 split: list.splits)
      then show ?thesis
        using w True h(1) Inr by (simp add: sh_removed_def eq tp ls at_n)
    next
      case False
      then show ?thesis
        using w ih same Inr by (simp add: sh_removed_def eq tp ls at_n)
    qed
  qed
qed

lemma sh_remove_correct:
  "wf_sh t \<Longrightarrow> sh_removed tp sn u t (fst (sh_remove tp sn (Some u) t)) (snd (sh_remove tp sn (Some u) t))"
proof (induction tp sn "Some u" t rule: sh_remove.induct)
  case (1 tp sn shares kids)
  show ?case
  proof (cases "tp = []")
    case True
    then show ?thesis using sh_removed_here 1(2) by simp
  next
    case ne: False
    show ?thesis
    proof (cases "nextTopicLevel tp")
      case (Inl e)
      then show ?thesis
        using 1(2) ne by (simp add: sh_removed_def sh_remove_fails topic_path_error)
    next
      case (Inr lr)
      obtain l rem where lr: "nextTopicLevel tp = Inr (l, rem)" using Inr by (cases lr) simp
      show ?thesis
      proof (cases "map_of kids l")
        case None
        then show ?thesis
          using 1(2) topic_path_step [OF ne lr]
          by (auto simp: sh_removed_def sh_remove_fails(2) [OF ne lr None] sh_at_def members_def split: sum.splits)
      next
        case (Some n)
        show ?thesis
          by (rule sh_removed_step [OF 1(2) ne lr Some 1(1) [OF ne lr refl Some wf_shkidD [OF 1(2) Some]]]) simp
      qed
    qed
  qed
qed

lemma sh_remove_hit:
  assumes "wf_sh t" "topic_path tp = Inr (p, tr)" "u \<in> fst ` set (sh_at t (sn, p))"
  shows "snd (sh_remove tp sn (Some u) t) = None"
    "sh_at (fst (sh_remove tp sn (Some u) t)) = (sh_at t)((sn, p) := AList.delete u (sh_at t (sn, p)))"
  using sh_remove_correct [OF assms(1), of tp sn u] assms(2,3) unfolding sh_removed_def
  by (simp_all only: sum.case prod.case if_True)

lemma sh_remove_miss:
  assumes "wf_sh t" "topic_path tp = Inr (p, tr)" "u \<notin> fst ` set (sh_at t (sn, p))"
  shows "snd (sh_remove tp sn (Some u) t) \<noteq> None" "fst (sh_remove tp sn (Some u) t) = t"
  using sh_remove_correct [OF assms(1), of tp sn u] assms(2,3) unfolding sh_removed_def
  by (simp_all only: sum.case prod.case if_False simp_thms)

lemma sh_remove_wf: "wf_sh t \<Longrightarrow> wf_sh (fst (sh_remove tp sn (Some u) t))"
  using sh_remove_correct [of t tp sn u] by (simp add: sh_removed_def)

section \<open>The tree as a subscription store\<close>

definition share_path :: "bytes \<times> bytes \<Rightarrow> (bytes \<times> bytes list) option" where
  "share_path k = map_option (Pair (fst k)) (path_of (snd k))"

definition share_ins :: "bytes \<times> bytes \<Rightarrow> 'u \<Rightarrow> byte \<Rightarrow> 'u shnode \<Rightarrow> 'u shnode \<times> goerr option" where
  "share_ins k u q t = sh_insert (fst k) (mk_sub (snd k) (q, False, False, 0, 0)) u t"

definition share_del :: "bytes \<times> bytes \<Rightarrow> 'u \<Rightarrow> 'u shnode \<Rightarrow> 'u shnode \<times> goerr option" where
  "share_del k u t = sh_remove (snd k) (fst k) (Some u) t"

lemma subQos_mk_sub [simp]: "subQos (mk_sub topic (q, a, b, c, d)) = q"
  by (simp add: mk_sub_def)

lemma share_path_simps:
  "share_path k = None \<longleftrightarrow> (\<exists>e. topic_path (snd k) = Inl e)"
  "share_path k = Some p \<longleftrightarrow> (\<exists>tr. topic_path (snd k) = Inr (snd p, tr) \<and> fst p = fst k)"
  by (cases p; auto simp: share_path_def path_of_def split: sum.splits)+

interpretation share_store: sub_store share_path share_ins share_del sh_at wf_sh
proof
  fix t :: "'u shnode" and k p u v
  assume ok: "wf_sh t"
  note ins = sh_insert_correct [OF ok, of "fst k" "mk_sub (snd k) (v, False, False, 0, 0)" u]
  show "wf_sh (fst (share_ins k u v t)) \<and> snd (share_ins k u v t) = None \<and>
      sh_at (fst (share_ins k u v t)) = (sh_at t)(p := AList.update u v (sh_at t p))"
    if "share_path k = Some p"
    using ins that by (cases p) (auto simp: share_ins_def share_path_simps)
  show "wf_sh (fst (share_ins k u v t)) \<and> snd (share_ins k u v t) \<noteq> None \<and>
      sh_at (fst (share_ins k u v t)) = sh_at t"
    if "share_path k = None"
    using ins that by (auto simp: share_ins_def share_path_simps)
  show "wf_sh (fst (share_del k u t)) \<and> snd (share_del k u t) = None \<and>
      sh_at (fst (share_del k u t)) = (sh_at t)(p := AList.delete u (sh_at t p))"
    if "share_path k = Some p" "u \<in> fst ` set (sh_at t p)"
  proof -
    note hyps = that
    obtain tr where tp: "topic_path (snd k) = Inr (snd p, tr)" "fst p = fst k"
      using hyps(1) unfolding share_path_simps by blast
    have p: "p = (fst k, snd p)" using tp(2) by (cases p) simp
    show ?thesis
      using sh_remove_hit [OF ok tp(1), of u "fst k"] hyps(2) sh_remove_wf [OF ok]
      by (simp add: share_del_def p [symmetric])
  qed
  show "wf_sh (fst (share_del k u t)) \<and> snd (share_del k u t) \<noteq> None \<and>
      sh_at (fst (share_del k u t)) = sh_at t"
    if "share_path k = Some p" "u \<notin> fst ` set (sh_at t p)"
  proof -
    note hyps = that
    obtain tr where tp: "topic_path (snd k) = Inr (snd p, tr)" "fst p = fst k"
      using hyps(1) unfolding share_path_simps by blast
    have p: "p = (fst k, snd p)" using tp(2) by (cases p) simp
    show ?thesis
      using sh_remove_miss [OF ok tp(1), of u "fst k"] hyps(2) ok
      by (simp add: share_del_def p [symmetric])
  qed
  note del = sh_remove_correct [OF ok, of "snd k" "fst k" u, unfolded sh_removed_def]
  show "wf_sh (fst (share_del k u t)) \<and> snd (share_del k u t) \<noteq> None \<and>
      sh_at (fst (share_del k u t)) = sh_at t"
    if "share_path k = None"
    using del that by (auto simp: share_del_def share_path_simps)
qed

section \<open>Matching\<close>

text \<open>A member of a group as a delivery.\<close>

definition chosen :: "byte \<Rightarrow> 'u \<times> sub \<Rightarrow> 'u sins \<Rightarrow> bool" where
  "chosen qos x g \<longleftrightarrow>
     (\<exists>i < length (si_subs g). x = (si_subs g ! i, mk_sub [] (min qos (si_qos g ! i), False, False, 0, 0)))"

definition intn_ok :: "('r \<Rightarrow> nat \<Rightarrow> nat \<times> 'r) \<Rightarrow> bool" where
  "intn_ok intn \<longleftrightarrow> (\<forall>r n. 0 < n \<longrightarrow> fst (intn r n) < n)"

text \<open>The groups a match draws from: not empty, and of the share name where one is given.\<close>

definition eligible :: "bytes \<Rightarrow> bytes \<times> 'u sins \<Rightarrow> bool" where
  "eligible sn x \<longleftrightarrow> (sn = [] \<or> fst x = sn) \<and> si_subs (snd x) \<noteq> []"

definition live :: "bytes \<Rightarrow> (bytes list \<times> bytes \<times> 'u sins) list \<Rightarrow> 'u sins multiset" where
  "live sn es = mset (map (\<lambda>e. snd (snd e)) (filter (\<lambda>e. eligible sn (snd e)) es))"

lemma live_simps [simp]: "live sn [] = {#}" "live sn (xs @ ys) = live sn xs + live sn ys"
  by (simp_all add: live_def)

lemma live_Cons: "live sn (e # es) = (if eligible sn (snd e) then {#snd (snd e)#} else {#}) + live sn es"
  by (simp add: live_def)

lemma eligible_any: "eligible [] = (\<lambda>x. si_subs (snd x) \<noteq> [])"
  by (simp add: eligible_def fun_eq_iff)

lemma live_or:
  "(\<And>e. e \<in> set xs \<Longrightarrow> \<not> (P e \<and> Q e)) \<Longrightarrow>
     live sn (filter (\<lambda>e. P e \<or> Q e) xs) = live sn (filter P xs) + live sn (filter Q xs)"
  by (induction xs) (auto simp: live_Cons)

lemma pick_drawn:
  assumes "intn_ok intn"
  shows "drawn (chosen qos) (if si_subs g = [] then {#} else {#g#}) acc (pick intn qos g acc)"
proof (cases "si_subs g = []")
  case True
  then show ?thesis by (simp add: pick_def drawn_refl)
next
  case False
  obtain i r where i: "intn (snd acc) (length (si_subs g)) = (i, r)" by (cases "intn (snd acc) (length (si_subs g))")
  have "i < length (si_subs g)"
    using assms False i unfolding intn_ok_def by (metis fst_conv length_greater_0_conv)
  then have "chosen qos (si_subs g ! i, mk_sub [] (if qos \<le> si_qos g ! i then qos else si_qos g ! i, False, False, 0, 0)) g"
    unfolding chosen_def min_def by blast
  then show ?thesis
    using False i by (auto simp: pick_def drawn_def intro!: exI [of _ "[g]"])
qed

lemma picks_drawn:
  assumes "intn_ok intn"
  shows "drawn (chosen qos) (mset (map snd (filter (\<lambda>x. si_subs (snd x) \<noteq> []) shares))) acc
     (fold (\<lambda>(k, g). pick intn qos g) shares acc)"
proof (induction shares arbitrary: acc)
  case Nil
  then show ?case by (simp add: drawn_refl)
next
  case (Cons x shares)
  have "drawn (chosen qos) ((if si_subs (snd x) = [] then {#} else {#snd x#})
      + mset (map snd (filter (\<lambda>x. si_subs (snd x) \<noteq> []) shares))) acc
      (fold (\<lambda>(k, g). pick intn qos g) shares (pick intn qos (snd x) acc))"
    by (rule drawn_trans [OF pick_drawn [OF assms] Cons])
  then show ?case by (simp add: split_def split: if_splits)
qed

lemma filter_one_key:
  "distinct (map fst xs) \<Longrightarrow>
     filter (\<lambda>x. fst x = k) xs = (case map_of xs k of None \<Rightarrow> [] | Some v \<Rightarrow> [(k, v)])"
  by (induction xs) (auto simp: map_of_eq_None_iff filter_empty_conv image_iff split: option.splits)

lemma filter_groups_at:
  "wf_sh t \<Longrightarrow> filter (\<lambda>e. fst e = p) (groups t) = map (Pair p) (node_shares t p)"
proof (induction t arbitrary: p rule: groups.induct)
  case (1 shares kids)
  have d: "distinct (map fst kids)" using 1(2) by simp
  show ?case
  proof (cases p)
    case Nil
    then show ?thesis by (simp add: filter_map o_def filter_kids_Nil)
  next
    case (Cons k p')
    then show ?thesis
      using 1 filter_kids [OF d, of k p' groups]
      by (auto simp: list_all_iff o_def filter_map dest!: map_of_SomeD split: option.splits)
  qed
qed

lemma live_node_shares:
  "live sn (map (Pair p) shares) = mset (map snd (filter (eligible sn) shares))"
  by (simp add: live_def filter_map o_def)

lemma sh_matchQos_drawn:
  assumes "intn_ok intn" "wf_sh t"
  shows "drawn (chosen qos) (live sn (filter (\<lambda>e. fst e = []) (groups t))) acc (sh_matchQos intn qos sn t acc)"
proof -
  obtain shares kids where t: "t = ShNode shares kids" by (cases t)
  have d: "distinct (map fst shares)" using assms(2) by (simp add: t)
  show ?thesis
  proof (cases "sn = []")
    case True
    then show ?thesis
      using picks_drawn [OF assms(1)] filter_groups_at [OF assms(2), of "[]"]
      by (simp add: t sh_matchQos_def live_node_shares eligible_any)
  next
    case False
    have e: "filter (eligible sn) shares = filter (\<lambda>x. si_subs (snd x) \<noteq> []) (filter (\<lambda>x. fst x = sn) shares)"
      using False by (auto simp: eligible_def intro: filter_cong)
    show ?thesis
    proof (cases "map_of shares sn")
      case None
      then show ?thesis
        using False filter_groups_at [OF assms(2), of "[]"]
        by (simp add: t sh_matchQos_def live_node_shares e filter_one_key [OF d] drawn_refl)
    next
      case (Some g)
      then show ?thesis
        using False pick_drawn [OF assms(1), of qos g acc] filter_groups_at [OF assms(2), of "[]"]
        by (simp add: t sh_matchQos_def live_node_shares e filter_one_key [OF d] split: if_splits)
    qed
  qed
qed

lemma sh_matchChild_drawn:
  assumes "intn_ok intn" "wf_sh t"
  shows "drawn (chosen qos) (live sn (filter (\<lambda>e. fst e = [k]) (groups t))) acc (sh_matchChild intn qos sn k t acc)"
proof -
  obtain shares kids where t: "t = ShNode shares kids" by (cases t)
  show ?thesis
  proof (cases "map_of kids k")
    case None
    then show ?thesis
      using assms filter_groups_at [of t "[k]"] by (simp add: sh_matchChild_def t drawn_refl)
  next
    case (Some n)
    have n: "wf_sh n" by (rule wf_shkidD [OF assms(2) [unfolded t] Some])
    have "live sn (filter (\<lambda>e. fst e = [k]) (groups t)) = live sn (filter (\<lambda>e. fst e = []) (groups n))"
      using Some assms filter_groups_at [of t "[k]"] filter_groups_at [OF n, of "[]"]
      by (simp add: t live_node_shares)
    then show ?thesis
      using Some sh_matchQos_drawn [OF assms(1) n] by (simp add: sh_matchChild_def t)
  qed
qed

definition kid_live :: "bytes \<Rightarrow> bytes \<Rightarrow> bytes list \<Rightarrow> bool \<Rightarrow> bytes \<times> 'u shnode \<Rightarrow> 'u sins multiset" where
  "kid_live sn l ls tr kn =
     live sn (filter (\<lambda>e. filter_matches (fst kn # fst e) (l # ls) tr) (groups (snd kn)))"

lemma live_node:
  "live sn (filter (\<lambda>e. filter_matches (fst e) (l # ls) tr) (groups (ShNode shares kids))) =
     sum_list (map (kid_live sn l ls tr) kids)"
proof -
  have one: "live sn (filter (\<lambda>e. filter_matches (fst e) (l # ls) tr)
      (map (\<lambda>(q, x). (k # q, x)) (groups n))) = kid_live sn l ls tr (k, n)" for k and n :: "'u shnode"
    unfolding live_def kid_live_def filter_map by (simp add: o_def split_def)
  have "live sn (filter (\<lambda>e. filter_matches (fst e) (l # ls) tr)
      (concat (map (\<lambda>(k, n). map (\<lambda>(q, x). (k # q, x)) (groups n)) kids))) =
      sum_list (map (kid_live sn l ls tr) kids)"
    by (induction kids) (auto simp: one)
  then show ?thesis by (simp add: filter_empty_conv)
qed

lemma kid_live_cases:
  "kid_live sn l ls tr (k, n) =
     (if k = MWC then live sn (filter (\<lambda>e. fst e = []) (groups n))
      else if k = SWC \<or> k = l then live sn (filter (\<lambda>e. filter_matches (fst e) ls tr) (groups n))
      else {#})"
  by (simp add: kid_live_def)

lemma sh_match_nil:
  assumes "intn_ok intn" "wf_sh t"
  shows "drawn (chosen qos) (live sn (filter (\<lambda>e. filter_matches (fst e) [] True) (groups t))) acc
     (sh_matchChild intn qos sn SWC t (sh_matchChild intn qos sn MWC t (sh_matchQos intn qos sn t acc)))"
  using drawn_trans [OF drawn_trans [OF sh_matchQos_drawn [OF assms] sh_matchChild_drawn [OF assms, of _ _ MWC]]
      sh_matchChild_drawn [OF assms, of _ _ SWC]]
  by (simp add: filter_matches_empty live_or add.assoc)

lemma sh_match_end:
  assumes "intn_ok intn" "wf_sh t"
  shows "drawn (chosen qos) (live sn (filter (\<lambda>e. filter_matches (fst e) [] False) (groups t))) acc
     (sh_matchChild intn qos sn MWC t (sh_matchQos intn qos sn t acc))"
  using drawn_trans [OF sh_matchQos_drawn [OF assms] sh_matchChild_drawn [OF assms, of _ _ MWC]]
  by (simp add: filter_matches_empty live_or)

lemma sh_match_drawn:
  "intn_ok intn \<Longrightarrow> wf_sh t \<Longrightarrow> topic_path tp = Inr (ls, tr) \<Longrightarrow>
     \<exists>acc'. sh_match intn tp sn qos t acc = (acc', None) \<and>
       drawn (chosen qos) (live sn (filter (\<lambda>e. filter_matches (fst e) ls tr) (groups t))) acc acc'"
  "intn_ok intn \<Longrightarrow> list_all (\<lambda>(k, n). wf_sh n) kids \<Longrightarrow>
     topic_path (case rem of None \<Rightarrow> [] | Some r \<Rightarrow> r) = Inr (ls, tr) \<Longrightarrow>
     \<exists>acc'. sh_match_kids intn level rem sn qos kids acc = (acc', None) \<and>
       drawn (chosen qos) (sum_list (map (kid_live sn level ls (tr \<and> rem \<noteq> None)) kids)) acc acc'"
proof (induction intn tp sn qos t acc and intn level rem sn qos kids acc arbitrary: ls tr and ls tr
    rule: sh_match_sh_match_kids.induct)
  case (1 intn tp sn qos shares kids acc)
  show ?case
  proof (cases "tp = []")
    case True
    then show ?thesis using sh_match_nil [OF 1(2,3)] 1(4) by auto
  next
    case False
    then obtain l rem ls' tr' where l: "nextTopicLevel tp = Inr (l, rem)"
      "topic_path (case rem of None \<Rightarrow> [] | Some r \<Rightarrow> r) = Inr (ls', tr')" "ls = l # ls'" "tr = (tr' \<and> rem \<noteq> None)"
      using 1(4) topic_path_error [OF False] topic_path_step [OF False]
      by (cases "nextTopicLevel tp") (fastforce split: sum.splits)+
    have w: "list_all (\<lambda>(k, n). wf_sh n) kids" using 1(3) by simp
    show ?thesis
      using 1(1) [OF False l(1) refl 1(2) w l(2)] False live_node [of sn l ls' tr shares kids] by (simp add: l)
  qed
next
  case (2 intn level rem sn qos acc)
  then show ?case by (simp add: drawn_refl)
next
  case (3 intn level rem sn qos k n ks acc)
  have n: "wf_sh n" and ks: "list_all (\<lambda>(k, n). wf_sh n) ks" using 3(7) by simp_all
  note path = 3(8) and ok = 3(6)
  show ?case
  proof (cases "k = MWC")
    case True
    obtain acc' where "sh_match_kids intn level rem sn qos ks (sh_matchQos intn qos sn n acc) = (acc', None)"
      "drawn (chosen qos) (sum_list (map (kid_live sn level ls (tr \<and> rem \<noteq> None)) ks)) (sh_matchQos intn qos sn n acc) acc'"
      using 3(1) [OF True ok ks path] by blast
    then show ?thesis
      using drawn_trans [OF sh_matchQos_drawn [OF ok n, of qos sn acc], of _ acc'] True
      by (simp add: kid_live_cases)
  next
    case mwc: False
    show ?thesis
    proof (cases "k = SWC \<or> k = level")
      case False
      then show ?thesis
        using 3(5) [OF mwc False ok ks path] mwc by (simp add: kid_live_cases)
    next
      case hit: True
      show ?thesis
      proof (cases rem)
        case None
        then have ls: "ls = []" using path by simp
        obtain acc' where "sh_match_kids intn level rem sn qos ks
            (sh_matchChild intn qos sn MWC n (sh_matchQos intn qos sn n acc)) = (acc', None)"
          "drawn (chosen qos) (sum_list (map (kid_live sn level ls (tr \<and> rem \<noteq> None)) ks))
            (sh_matchChild intn qos sn MWC n (sh_matchQos intn qos sn n acc)) acc'"
          using 3(2) [OF mwc hit None ok ks path] by blast
        then show ?thesis
          using drawn_trans [OF sh_match_end [OF ok n, of qos sn acc], of _ acc'] mwc hit None
          by (simp add: kid_live_cases ls)
      next
        case (Some r)
        have "topic_path r = Inr (ls, tr)" using path Some by simp
        then obtain acc' where acc': "sh_match intn r sn qos n acc = (acc', None)"
          "drawn (chosen qos) (live sn (filter (\<lambda>e. filter_matches (fst e) ls tr) (groups n))) acc acc'"
          using 3(3) [OF mwc hit Some ok n] by blast
        obtain acc2 where "sh_match_kids intn level rem sn qos ks acc' = (acc2, None)"
          "drawn (chosen qos) (sum_list (map (kid_live sn level ls (tr \<and> rem \<noteq> None)) ks)) acc' acc2"
          using 3(4) [OF mwc hit Some acc'(1) [symmetric] refl ok ks path] by blast
        then show ?thesis
          using drawn_trans [OF acc'(2), of _ acc2] acc'(1) mwc hit Some
          by (simp add: kid_live_cases)
      qed
    qed
  qed
qed

section \<open>Properties\<close>

definition share_op :: "(bytes \<times> bytes, 'u, byte) sub_op \<Rightarrow> 'u shnode \<Rightarrow> 'u shnode" where
  "share_op c t =
     (case c of
        Subscribe_op k u q \<Rightarrow> fst (sh_insert (fst k) (mk_sub (snd k) (q, False, False, 0, 0)) u t)
      | Unsubscribe_op k u \<Rightarrow> fst (sh_remove (snd k) (fst k) (Some u) t))"

lemma share_op_exec: "share_op = share_store.exec"
  by (simp add: fun_eq_iff share_op_def share_store.exec_def share_ins_def share_del_def split: sub_op.split)

text \<open>A share tree built from the empty one by any sequence of shared subscribe and unsubscribe
  calls, failing ones included, holds for every share name, path and client the QoS of the last
  effective call.\<close>

theorem share_history:
  "wf_sh (fold share_op cs newShNode) \<and>
   map_of (sh_at (fold share_op cs newShNode) k) u = fold (spec_op share_path) cs Map.empty (k, u)"
proof -
  have v: "share_store.view newShNode = Map.empty"
    by (simp add: share_store.view_def fun_eq_iff)
  show ?thesis
    using share_store.history [of newShNode cs] newShNode_simps(1)
    unfolding share_op_exec v by (cases k) (simp add: share_store.view_def fun_eq_iff)
qed

text \<open>C23: A match on the share tree delivers to exactly one member of every group that matches the
  topic, has the given share name (any one where it is empty) and is not empty, with the smaller
  of the two QoS levels.\<close>

theorem sh_match_one_per_group:
  assumes "intn_ok intn" "wf_sh t" "topic_path tp = Inr (ls, tr)"
  shows "\<exists>us r' gs. sh_match intn tp sn qos t ([], r) = ((us, r'), None) \<and>
    mset gs = {# g. (p, k, g) \<in># filter_mset (\<lambda>(p, k, g). filter_matches p ls tr \<and> eligible sn (k, g)) (mset (groups t)) #} \<and>
    list_all2 (chosen qos) us gs"
proof -
  have f: "filter (\<lambda>e. eligible sn (snd e)) (filter (\<lambda>e. filter_matches (fst e) ls tr) (groups t)) =
      filter (\<lambda>(p, k, g). filter_matches p ls tr \<and> eligible sn (k, g)) (groups t)"
    by (auto intro: filter_cong)
  show ?thesis
    using sh_match_drawn(1) [OF assms, of sn qos "([], r)"]
    by (fastforce simp: drawn_def live_def f split_def simp flip: mset_filter)
qed

text \<open>Two groups on \<open>a/+\<close>, one of two clients and one of one, and a draw of the last member.\<close>

definition demo_share :: "nat shnode" where
  "demo_share = fold share_op
     [Subscribe_op ([103], [97, 47, 43]) 1 2, Subscribe_op ([103], [97, 47, 43]) 2 0,
      Subscribe_op ([104], [97, 47, 43]) 3 1] newShNode"

definition last_draw :: "unit \<Rightarrow> nat \<Rightarrow> nat \<times> unit" where
  "last_draw r n = (n - 1, r)"

lemma last_draw_ok: "intn_ok last_draw"
  by (simp add: intn_ok_def last_draw_def)

theorem sh_match_one_per_group_witness:
  "\<exists>us r' gs. sh_match last_draw [97, 47, 98] [] 1 demo_share ([], ()) = ((us, r'), None) \<and>
    mset gs = {# g. (p, k, g) \<in># filter_mset (\<lambda>(p, k, g). filter_matches p [[97], [98]] False \<and> eligible [] (k, g))
       (mset (groups demo_share)) #} \<and>
    list_all2 (chosen 1) us gs"
proof (rule sh_match_one_per_group)
  show "intn_ok last_draw" by (rule last_draw_ok)
  show "wf_sh demo_share" by code_simp
  show "topic_path [97, 47, 98] = Inr ([[97], [98]], False)" by code_simp
qed

lemma demo_share_match:
  "fst (fst (sh_match last_draw [97, 47, 98] [] 1 demo_share ([], ()))) =
     [(2, mk_sub [] (0, False, False, 0, 0)), (3, mk_sub [] (1, False, False, 0, 0))]"
  by code_simp

end
