(* ===== verification/SysTree.thy ===== *)
theory SysTree
  imports SubTree
begin

text \<open>
  The tree of the subscriptions to system topics of \<open>corev5/v2/topics/sys/memtopics.go\<close>
  (\<open>rSnode\<close>). It stores a QoS per subscriber only, delivers to a subscriber only where the QoS of
  the message does not exceed the granted one, and does not let \<open>a/#\<close> match \<open>a\<close>. Its insertion
  and removal are shown to simulate those of the main tree, so the tree meets the same contract.
\<close>

section \<open>State\<close>

datatype 'u rSnode = RSnode (rs_subs: "'u list") (rs_qos: "byte list") (rs_kids: "(bytes \<times> 'u rSnode) list")

definition newRSNode :: "'u rSnode" where "newRSNode = RSnode [] [] []"

section \<open>Operations\<close>

text \<open>The two level functions of the package differ in the texts of their errors only.\<close>

definition nextRTopicLevel :: "bytes \<Rightarrow> goerr + bytes \<times> bytes option" where
  "nextRTopicLevel topic = ntl_loop topic 0 StateCHR topic"

lemma nextRTopicLevel_eq: "nextRTopicLevel = nextTopicLevel"
  by (simp add: fun_eq_iff nextRTopicLevel_def nextTopicLevel_def)

function y_sinsert :: "sub \<Rightarrow> 'u \<Rightarrow> 'u rSnode \<Rightarrow> 'u rSnode \<times> goerr option" where
  "y_sinsert subs u (RSnode us qs kids) =
     (if subTopic subs = [] then
        (case find_index u us of
           Some i \<Rightarrow> (RSnode us (qs[i := subQos subs]) kids, None)
         | None \<Rightarrow> (RSnode (us @ [u]) (qs @ [subQos subs]) kids, None))
      else case nextRTopicLevel (subTopic subs) of
        Inl e \<Rightarrow> (RSnode us qs kids, Some e)
      | Inr (level, rem) \<Rightarrow>
          (let n = (case map_of kids level of Some n \<Rightarrow> n | None \<Rightarrow> newRSNode);
               r = y_sinsert (subs\<lparr>subTopic := (case rem of None \<Rightarrow> [] | Some r \<Rightarrow> r)\<rparr>) u n
           in (RSnode us qs (AList.update level (fst r) kids), snd r)))"
  by pat_completeness auto
termination
  by (relation "measure (\<lambda>(s, u, t). length (subTopic s))")
     (auto simp: nextRTopicLevel_eq dest: nextTopicLevel_shorter split: option.splits)

function y_sremove :: "bytes \<Rightarrow> 'u option \<Rightarrow> 'u rSnode \<Rightarrow> 'u rSnode \<times> goerr option" where
  "y_sremove topic sub (RSnode us qs kids) =
     (if topic = [] then
        (case sub of
           None \<Rightarrow> (RSnode [] [] kids, None)
         | Some u \<Rightarrow>
             (case find_index u us of
                Some i \<Rightarrow> (RSnode (remove_at i us) (remove_at i qs) kids, None)
              | None \<Rightarrow> (RSnode us qs kids, Some (Errorf ''memtopics/remove: No topic found for subscriber''))))
      else case nextTopicLevel topic of
        Inl e \<Rightarrow> (RSnode us qs kids, Some e)
      | Inr (level, rem) \<Rightarrow>
          (case map_of kids level of
             None \<Rightarrow> (RSnode us qs kids, Some (Errorf ''memtopics/remove: No topic found''))
           | Some n \<Rightarrow>
               (case y_sremove (case rem of None \<Rightarrow> [] | Some r \<Rightarrow> r) sub n of
                  (n', Some e) \<Rightarrow> (RSnode us qs (AList.update level n' kids), Some e)
                | (n', None) \<Rightarrow>
                    (if rs_subs n' = [] \<and> rs_kids n' = []
                     then (RSnode us qs (AList.delete level kids), None)
                     else (RSnode us qs (AList.update level n' kids), None)))))"
  by pat_completeness auto
termination
  by (relation "measure (\<lambda>(topic, u, t). length topic)")
     (auto dest: nextTopicLevel_shorter split: option.splits)

declare y_sinsert.simps [simp del] y_sremove.simps [simp del]

definition qos_sub :: "byte \<Rightarrow> sub" where
  "qos_sub q = mk_sub [] (q, False, False, 0, 0)"

definition y_matchQos :: "byte \<Rightarrow> 'u rSnode \<Rightarrow> 'u acc \<Rightarrow> 'u acc" where
  "y_matchQos qos t acc =
     fold (\<lambda>i acc. if qos \<le> rs_qos t ! i then (fst acc @ [rs_subs t ! i], snd acc @ [qos_sub qos]) else acc)
       [0..<length (rs_subs t)] acc"

fun y_smatch :: "bytes \<Rightarrow> byte \<Rightarrow> 'u rSnode \<Rightarrow> 'u acc \<Rightarrow> 'u acc \<times> goerr option"
  and y_smatch_kids :: "bytes \<Rightarrow> bytes option \<Rightarrow> byte \<Rightarrow> (bytes \<times> 'u rSnode) list \<Rightarrow> 'u acc \<Rightarrow>
      'u acc \<times> goerr option" where
  "y_smatch topic qos (RSnode us qs kids) acc =
     (if topic = [] then (y_matchQos qos (RSnode us qs kids) acc, None)
      else case nextTopicLevel topic of
        Inl e \<Rightarrow> (acc, Some e)
      | Inr (level, rem) \<Rightarrow> y_smatch_kids level rem qos kids acc)"
| "y_smatch_kids level rem qos [] acc = (acc, None)"
| "y_smatch_kids level rem qos ((k, n) # ks) acc =
     (if k = MWC then y_smatch_kids level rem qos ks (y_matchQos qos n acc)
      else if k = SWC \<or> k = level then
        (case y_smatch (case rem of None \<Rightarrow> [] | Some r \<Rightarrow> r) qos n acc of
           (acc', Some e) \<Rightarrow> (acc', Some e)
         | (acc', None) \<Rightarrow> y_smatch_kids level rem qos ks acc')
      else y_smatch_kids level rem qos ks acc)"

section \<open>Well-formedness and contents\<close>

fun wf_rSnode :: "'u rSnode \<Rightarrow> bool" where
  "wf_rSnode (RSnode us qs kids) \<longleftrightarrow>
     length us = length qs \<and> distinct us \<and> distinct (map fst kids) \<and> list_all (\<lambda>(k, n). wf_rSnode n) kids"

fun sys_entries :: "'u rSnode \<Rightarrow> (bytes list \<times> 'u \<times> byte) list" where
  "sys_entries (RSnode us qs kids) =
     map (\<lambda>x. ([], x)) (zip us qs)
     @ concat (map (\<lambda>(k, n). map (\<lambda>(p, x). (k # p, x)) (sys_entries n)) kids)"

fun sys_at :: "'u rSnode \<Rightarrow> bytes list \<Rightarrow> ('u \<times> byte) list" where
  "sys_at (RSnode us qs kids) [] = zip us qs"
| "sys_at (RSnode us qs kids) (k # p) =
     (case map_of kids k of None \<Rightarrow> [] | Some n \<Rightarrow> sys_at n p)"

section \<open>Simulation by the main tree\<close>

text \<open>The same tree with the QoS levels as subscriptions without other options.\<close>

fun as_snode :: "'u rSnode \<Rightarrow> 'u snode" where
  "as_snode (RSnode us qs kids) = SNode us (map qos_sub qs) (map (\<lambda>(k, n). (k, as_snode n)) kids)"

definition plain_sub :: "sub \<Rightarrow> bool" where
  "plain_sub s \<longleftrightarrow> s = mk_sub (subTopic s) (subQos s, False, False, 0, 0)"

lemma as_snode_fields [simp]:
  "sn_subs (as_snode t) = rs_subs t" "sn_kids (as_snode t) = [] \<longleftrightarrow> rs_kids t = []"
  "as_snode newRSNode = newSNode"
  by (cases t, simp)+ (simp add: newRSNode_def newSNode_def)

lemma map_of_as_snode:
  "map_of (map (\<lambda>(k, n). (k, f n)) kids) k = map_option f (map_of kids k)"
  by (induction kids) auto

lemma wf_as_snode [simp]: "wf_snode (as_snode t) = wf_rSnode t"
  by (induction t rule: as_snode.induct) (auto simp: list_all_iff o_def split_def)

lemma plain_sub_rest: "plain_sub s \<Longrightarrow> plain_sub (s\<lparr>subTopic := x\<rparr>)"
  by (cases s) (simp add: plain_sub_def mk_sub_def)

lemma plain_sub_qos: "plain_sub s \<Longrightarrow> subTopic s = [] \<Longrightarrow> s = qos_sub (subQos s)"
  by (cases s) (simp add: plain_sub_def mk_sub_def qos_sub_def)

lemma as_sinsert:
  "plain_sub s \<Longrightarrow>
     sinsert s u (as_snode t) = (as_snode (fst (y_sinsert s u t)), snd (y_sinsert s u t))"
proof (induction s u t rule: y_sinsert.induct)
  case (1 s u us qs kids)
  show ?case
  proof (cases "subTopic s = []")
    case True
    have q: "s = qos_sub (subQos s)" by (rule plain_sub_qos [OF 1(2) True])
    then show ?thesis
      by (auto simp: sinsert_Nil [OF True] y_sinsert.simps True map_update split: option.splits)
  next
    case ne: False
    show ?thesis
    proof (cases "nextTopicLevel (subTopic s)")
      case (Inl e)
      then show ?thesis
        using ne by (simp add: sinsert_topic y_sinsert.simps nextRTopicLevel_eq)
    next
      case (Inr lr)
      obtain l rem where lr: "lr = (l, rem)" by (cases lr)
      define n where "n = (case map_of kids l of Some n \<Rightarrow> n | None \<Rightarrow> newRSNode)"
      note IH = 1(1) [OF ne Inr [folded nextRTopicLevel_eq] lr [symmetric] n_def plain_sub_rest [OF 1(2)]]
      have n: "(case map_of (map (\<lambda>(k, n). (k, as_snode n)) kids) l of Some n \<Rightarrow> n | None \<Rightarrow> newSNode) = as_snode n"
        by (simp add: map_of_as_snode n_def split: option.splits)
      have "sinsert s u (as_snode (RSnode us qs kids)) =
          (let r = sinsert (s\<lparr>subTopic := (case rem of None \<Rightarrow> [] | Some r \<Rightarrow> r)\<rparr>) u (as_snode n)
           in (SNode us (map qos_sub qs) (AList.update l (fst r) (map (\<lambda>(k, n). (k, as_snode n)) kids)), snd r))"
        using ne Inr lr n by (simp add: sinsert.simps Let_def)
      then show ?thesis
        using ne Inr lr
        by (simp add: IH y_sinsert.simps nextRTopicLevel_eq n_def [symmetric] Let_def map_AList_update)
    qed
  qed
qed

lemma as_sremove:
  "sremove topic su (as_snode t) = (as_snode (fst (y_sremove topic su t)), snd (y_sremove topic su t))"
proof (induction topic su t rule: y_sremove.induct)
  case (1 topic su us qs kids)
  show ?case
  proof (cases "topic = []")
    case True
    then show ?thesis
      by (auto simp: sremove.simps y_sremove.simps remove_at_def take_map drop_map split: option.splits)
  next
    case ne: False
    show ?thesis
    proof (cases "nextTopicLevel topic")
      case (Inl e)
      then show ?thesis using ne by (simp add: sremove_fails y_sremove.simps)
    next
      case (Inr lr)
      obtain l rem where lr: "nextTopicLevel topic = Inr (l, rem)" using Inr by (cases lr) simp
      show ?thesis
      proof (cases "map_of kids l")
        case None
        then show ?thesis
          using ne lr by (simp add: sremove_fails(2) [OF ne lr] map_of_as_snode y_sremove.simps)
      next
        case (Some n)
        note IH = 1 [OF ne lr refl Some]
        show ?thesis
          using ne lr Some IH
          by (auto simp: sremove_step [OF ne lr] map_of_as_snode y_sremove.simps map_AList_update map_AList_delete
              split: prod.splits option.splits)
      qed
    qed
  qed
qed

lemma sys_at_as_snode: "sys_at t p = map (\<lambda>(u, s). (u, subQos s)) (subs_at (as_snode t) p)"
proof (induction t p rule: sys_at.induct)
  case (1 us qs kids)
  show ?case by (simp add: zip_map2 o_def split_def qos_sub_def mk_sub_def)
next
  case (2 us qs kids k p)
  then show ?case by (simp add: map_of_as_snode split: option.splits)
qed

lemma wf_y_sinsert: "plain_sub s \<Longrightarrow> wf_rSnode t \<Longrightarrow> wf_rSnode (fst (y_sinsert s u t))"
  using sinsert_correct [of "as_snode t" s u] by (simp add: as_sinsert)

lemma wf_y_sremove: "wf_rSnode t \<Longrightarrow> wf_rSnode (fst (y_sremove topic (Some u) t))"
  using sremove_wf [of "as_snode t" topic u] by (simp add: as_sremove)

lemma plain_mk_sub [simp]: "plain_sub (mk_sub k (q, False, False, 0, 0))"
  by (simp add: plain_sub_def mk_sub_def)

section \<open>The tree as a subscription store\<close>

definition sys_ins :: "bytes \<Rightarrow> 'u \<Rightarrow> byte \<Rightarrow> 'u rSnode \<Rightarrow> 'u rSnode \<times> goerr option" where
  "sys_ins topic u q t = y_sinsert (mk_sub topic (q, False, False, 0, 0)) u t"

definition sys_del :: "bytes \<Rightarrow> 'u \<Rightarrow> 'u rSnode \<Rightarrow> 'u rSnode \<times> goerr option" where
  "sys_del topic u t = y_sremove topic (Some u) t"

lemma sys_ins_as_snode:
  "snode_ins k u (q, False, False, 0, 0) (as_snode t) = (as_snode (fst (sys_ins k u q t)), snd (sys_ins k u q t))"
  by (simp add: snode_ins_def sys_ins_def as_sinsert)

lemma sys_del_as_snode:
  "snode_del k u (as_snode t) = (as_snode (fst (sys_del k u t)), snd (sys_del k u t))"
  by (simp add: snode_del_def sys_del_def as_sremove)

lemma sys_at_snode: "sys_at t p = map (\<lambda>(u, v). (u, fst v)) (snode_at (as_snode t) p)"
  by (simp add: sys_at_as_snode snode_at_def opts_of_def split_def)

interpretation sys_store: sub_store path_of sys_ins sys_del sys_at wf_rSnode
proof
  fix t :: "'u rSnode" and k p u v
  assume wf: "wf_rSnode t"
  then have ok: "wf_snode (as_snode t)" by simp
  note S = sys_ins_as_snode [of k u v t] sys_del_as_snode [of k u t]
  have dom: "u \<in> fst ` set (sys_at t p) \<longleftrightarrow> u \<in> fst ` set (snode_at (as_snode t) p)"
    by (simp only: sys_at_snode dom_map_opts)
  show "wf_rSnode (fst (sys_ins k u v t)) \<and> snd (sys_ins k u v t) = None \<and>
      sys_at (fst (sys_ins k u v t)) = (sys_at t)(p := AList.update u v (sys_at t p))"
    if "path_of k = Some p"
    using snode_store.ins_ok [OF ok that, of u "(v, False, False, 0, 0)"]
    by (simp add: S fun_eq_iff sys_at_snode map_AList_update)
  show "wf_rSnode (fst (sys_ins k u v t)) \<and> snd (sys_ins k u v t) \<noteq> None \<and>
      sys_at (fst (sys_ins k u v t)) = sys_at t"
    if "path_of k = None"
    using snode_store.ins_err [OF ok that, of u "(v, False, False, 0, 0)"]
    by (simp add: S fun_eq_iff sys_at_snode)
  show "wf_rSnode (fst (sys_del k u t)) \<and> snd (sys_del k u t) = None \<and>
      sys_at (fst (sys_del k u t)) = (sys_at t)(p := AList.delete u (sys_at t p))"
    if "path_of k = Some p" "u \<in> fst ` set (sys_at t p)"
    using snode_store.del_ok [OF ok that(1) that(2) [unfolded dom]]
    by (simp add: S fun_eq_iff sys_at_snode map_AList_delete)
  show "wf_rSnode (fst (sys_del k u t)) \<and> snd (sys_del k u t) \<noteq> None \<and>
      sys_at (fst (sys_del k u t)) = sys_at t"
    if "path_of k = Some p" "u \<notin> fst ` set (sys_at t p)"
    using snode_store.del_absent [OF ok that(1) that(2) [unfolded dom]]
    by (simp add: S fun_eq_iff sys_at_snode)
  show "wf_rSnode (fst (sys_del k u t)) \<and> snd (sys_del k u t) \<noteq> None \<and>
      sys_at (fst (sys_del k u t)) = sys_at t"
    if "path_of k = None"
    using snode_store.del_err [OF ok that, of u] by (simp add: S fun_eq_iff sys_at_snode)
qed

section \<open>Matching\<close>

fun sys_matches :: "bytes list \<Rightarrow> bytes list \<Rightarrow> bool" where
  "sys_matches p [] \<longleftrightarrow> p = []"
| "sys_matches [] (l # ls) \<longleftrightarrow> False"
| "sys_matches (k # p) (l # ls) \<longleftrightarrow> (if k = MWC then p = [] else (k = SWC \<or> k = l) \<and> sys_matches p ls)"

definition sys_delivered :: "byte \<Rightarrow> (bytes list \<times> 'u \<times> byte) list \<Rightarrow> ('u \<times> sub) multiset" where
  "sys_delivered qos es =
     mset (map (\<lambda>e. (fst (snd e), qos_sub qos)) (filter (\<lambda>e. qos \<le> snd (snd e)) es))"

lemma sys_delivered_simps [simp]:
  "sys_delivered qos [] = {#}"
  "sys_delivered qos (xs @ ys) = sys_delivered qos xs + sys_delivered qos ys"
  by (simp_all add: sys_delivered_def)

lemma filter_sys_entries_at:
  "wf_rSnode t \<Longrightarrow> filter (\<lambda>e. fst e = p) (sys_entries t) = map (Pair p) (sys_at t p)"
proof (induction t arbitrary: p rule: sys_entries.induct)
  case (1 us qs kids)
  have d: "distinct (map fst kids)" using 1(2) by simp
  show ?case
  proof (cases p)
    case Nil
    then show ?thesis by (simp add: filter_map o_def filter_kids_Nil)
  next
    case (Cons k p')
    then show ?thesis
      using 1 filter_kids [OF d, of k p' sys_entries]
      by (auto simp: list_all_iff o_def filter_map dest!: map_of_SomeD split: option.splits)
  qed
qed

lemma matchQos_fold:
  "length us = length qs \<Longrightarrow> acc_ok acc \<Longrightarrow>
     acc_ok (fold (\<lambda>x acc. if qos \<le> snd x then (fst acc @ [fst x], snd acc @ [qos_sub qos]) else acc) xs acc) \<and>
     acc_mset (fold (\<lambda>x acc. if qos \<le> snd x then (fst acc @ [fst x], snd acc @ [qos_sub qos]) else acc) xs acc) =
       acc_mset acc + mset (map (\<lambda>x. (fst x, qos_sub qos)) (filter (\<lambda>x. qos \<le> snd x) xs))"
  by (induction xs arbitrary: acc) (simp_all add: acc_ok_def acc_mset_def)

lemma fold_index:
  "length us = length qs \<Longrightarrow>
     fold (\<lambda>i. f (us ! i, qs ! i)) [0..<length us] acc = fold f (zip us qs) acc"
proof -
  assume "length us = length qs"
  then have "zip us qs = map (\<lambda>i. (us ! i, qs ! i)) [0..<length us]"
    by (intro nth_equalityI) auto
  then show ?thesis by (simp add: fold_map o_def)
qed

lemma y_matchQos_at:
  assumes "wf_rSnode t" "acc_ok acc"
  shows "acc_ok (y_matchQos qos t acc) \<and>
     acc_mset (y_matchQos qos t acc) = acc_mset acc + sys_delivered qos (filter (\<lambda>e. fst e = []) (sys_entries t))"
proof -
  obtain us qs kids where t: "t = RSnode us qs kids" by (cases t)
  have l: "length us = length qs" using assms(1) by (simp add: t)
  have "y_matchQos qos t acc =
      fold (\<lambda>x acc. if qos \<le> snd x then (fst acc @ [fst x], snd acc @ [qos_sub qos]) else acc) (zip us qs) acc"
    using fold_index [OF l, of "\<lambda>x acc. if qos \<le> snd x then (fst acc @ [fst x], snd acc @ [qos_sub qos]) else acc" acc]
    unfolding y_matchQos_def t rSnode.sel fst_conv snd_conv .
  then show ?thesis
    using matchQos_fold [OF l assms(2), of qos "zip us qs"] filter_sys_entries_at [OF assms(1), of "[]"]
    by (simp add: t sys_delivered_def filter_map o_def)
qed

definition sys_hits :: "byte \<Rightarrow> bytes \<Rightarrow> bytes list \<Rightarrow> bytes \<times> 'u rSnode \<Rightarrow> ('u \<times> sub) multiset" where
  "sys_hits qos l ls kn =
     sys_delivered qos (filter (\<lambda>e. sys_matches (fst kn # fst e) (l # ls)) (sys_entries (snd kn)))"

lemma sys_delivered_node:
  "sys_delivered qos (filter (\<lambda>e. sys_matches (fst e) (l # ls)) (sys_entries (RSnode us qs kids))) =
     sum_list (map (sys_hits qos l ls) kids)"
proof -
  have one: "sys_delivered qos (filter (\<lambda>e. sys_matches (fst e) (l # ls))
      (map (\<lambda>(q, x). (k # q, x)) (sys_entries n))) = sys_hits qos l ls (k, n)" for k and n :: "'u rSnode"
    unfolding sys_delivered_def sys_hits_def filter_map by (simp add: o_def split_def)
  have "sys_delivered qos (filter (\<lambda>e. sys_matches (fst e) (l # ls))
      (concat (map (\<lambda>(k, n). map (\<lambda>(q, x). (k # q, x)) (sys_entries n)) kids))) =
      sum_list (map (sys_hits qos l ls) kids)"
    by (induction kids) (auto simp: one)
  then show ?thesis by (simp add: filter_empty_conv)
qed

lemma sys_hits_cases:
  "sys_hits qos l ls (k, n) =
     (if k = MWC then sys_delivered qos (filter (\<lambda>e. fst e = []) (sys_entries n))
      else if k = SWC \<or> k = l then sys_delivered qos (filter (\<lambda>e. sys_matches (fst e) ls) (sys_entries n))
      else {#})"
  by (simp add: sys_hits_def)

lemma y_smatch_correct:
  "wf_rSnode t \<Longrightarrow> acc_ok acc \<Longrightarrow> topic_path topic = Inr (ls, tr) \<Longrightarrow>
     \<exists>acc'. y_smatch topic qos t acc = (acc', None) \<and> acc_ok acc' \<and>
       acc_mset acc' = acc_mset acc + sys_delivered qos (filter (\<lambda>e. sys_matches (fst e) ls) (sys_entries t))"
  "list_all (\<lambda>(k, n). wf_rSnode n) kids \<Longrightarrow> acc_ok acc \<Longrightarrow>
     topic_path (case rem of None \<Rightarrow> [] | Some r \<Rightarrow> r) = Inr (ls, tr) \<Longrightarrow>
     \<exists>acc'. y_smatch_kids level rem qos kids acc = (acc', None) \<and> acc_ok acc' \<and>
       acc_mset acc' = acc_mset acc + sum_list (map (sys_hits qos level ls) kids)"
proof (induction topic qos t acc and level rem qos kids acc arbitrary: ls tr and ls tr
    rule: y_smatch_y_smatch_kids.induct)
  case (1 topic qos us qs kids acc)
  show ?case
  proof (cases "topic = []")
    case True
    then show ?thesis using y_matchQos_at [OF 1(2,3)] 1(4) by auto
  next
    case False
    then obtain l rem ls' tr' where l: "nextTopicLevel topic = Inr (l, rem)"
      "topic_path (case rem of None \<Rightarrow> [] | Some r \<Rightarrow> r) = Inr (ls', tr')" "ls = l # ls'"
      using 1(4) topic_path_error [OF False] topic_path_step [OF False]
      by (cases "nextTopicLevel topic") (fastforce split: sum.splits)+
    have w: "list_all (\<lambda>(k, n). wf_rSnode n) kids" using 1(2) by simp
    show ?thesis
      using 1(1) [OF False l(1) refl w 1(3) l(2)] False sys_delivered_node [of qos l ls' us qs kids]
      by (simp add: l)
  qed
next
  case (2 level rem qos acc)
  then show ?case by simp
next
  case (3 level rem qos k n ks acc)
  have n: "wf_rSnode n" and ks: "list_all (\<lambda>(k, n). wf_rSnode n) ks" using 3(5) by simp_all
  note path = 3(7)
  show ?case
  proof (cases "k = MWC")
    case True
    have "acc_ok (y_matchQos qos n acc)" using y_matchQos_at [OF n 3(6)] by simp
    then show ?thesis
      using 3(1) [OF True ks _ path] y_matchQos_at [OF n 3(6), of qos] True
      by (auto simp: sys_hits_cases add.assoc)
  next
    case mwc: False
    show ?thesis
    proof (cases "k = SWC \<or> k = level")
      case False
      then show ?thesis
        using 3(4) [OF mwc False ks 3(6) path] mwc by (simp add: sys_hits_cases)
    next
      case hit: True
      obtain acc' where acc': "y_smatch (case rem of None \<Rightarrow> [] | Some r \<Rightarrow> r) qos n acc = (acc', None)" "acc_ok acc'"
        "acc_mset acc' = acc_mset acc + sys_delivered qos (filter (\<lambda>e. sys_matches (fst e) ls) (sys_entries n))"
        using 3(2) [OF mwc hit n 3(6) path] by blast
      show ?thesis
        using 3(3) [OF mwc hit acc'(1) [symmetric] refl ks acc'(2) path] acc' mwc hit
        by (auto simp: sys_hits_cases add.assoc)
    qed
  qed
qed

section \<open>Properties\<close>

definition sys_op :: "(bytes, 'u, byte) sub_op \<Rightarrow> 'u rSnode \<Rightarrow> 'u rSnode" where
  "sys_op c t =
     (case c of
        Subscribe_op k u q \<Rightarrow> fst (y_sinsert (mk_sub k (q, False, False, 0, 0)) u t)
      | Unsubscribe_op k u \<Rightarrow> fst (y_sremove k (Some u) t))"

lemma sys_op_exec: "sys_op = sys_store.exec"
  by (simp add: fun_eq_iff sys_op_def sys_store.exec_def sys_ins_def sys_del_def split: sub_op.split)

lemma newRSNode_simps [simp]: "wf_rSnode newRSNode" "sys_at newRSNode p = []"
  by (simp add: newRSNode_def) (cases p; simp add: newRSNode_def)

text \<open>The system-topic tree built from the empty one by any sequence of subscribe and
  unsubscribe calls, failing ones included, holds under every path and for every client the QoS of
  the last effective call.\<close>

theorem sys_history:
  "wf_rSnode (fold sys_op cs newRSNode) \<and>
   map_of (sys_at (fold sys_op cs newRSNode) p) u = fold (spec_op path_of) cs Map.empty (p, u)"
proof -
  have v: "sys_store.view newRSNode = Map.empty"
    by (simp add: sys_store.view_def fun_eq_iff)
  show ?thesis
    using sys_store.history [of newRSNode cs] newRSNode_simps(1)
    unfolding sys_op_exec v by (simp add: sys_store.view_def fun_eq_iff)
qed

text \<open>Matching a system topic succeeds and returns, each once and with the QoS of the message,
  the subscribers of the matching filters whose granted QoS is not below it.\<close>

theorem y_smatch_exact:
  assumes "wf_rSnode t" "topic_path topic = Inr (ls, tr)"
  shows "\<exists>us ss. y_smatch topic qos t ([], []) = ((us, ss), None) \<and> length us = length ss \<and>
    mset (zip us ss) =
      {# (u, qos_sub qos). (p, u, q) \<in># filter_mset (\<lambda>(p, u, q). sys_matches p ls \<and> qos \<le> q) (mset (sys_entries t)) #}"
proof -
  have f: "filter (\<lambda>e. qos \<le> snd (snd e)) (filter (\<lambda>e. sys_matches (fst e) ls) (sys_entries t)) =
      filter (\<lambda>(p, u, q). sys_matches p ls \<and> qos \<le> q) (sys_entries t)"
    by (auto intro: filter_cong)
  show ?thesis
    using y_smatch_correct(1) [of t "([], [])" topic ls tr qos] assms
    by (auto simp: acc_ok_def acc_mset_def sys_delivered_def f split_def simp flip: mset_filter)
qed

text \<open>Two clients on \<open>a/#\<close>, with QoS 2 and 0, and a message of QoS 1 on \<open>a/b\<close>.\<close>

definition demo_sys :: "nat rSnode" where
  "demo_sys = fold sys_op [Subscribe_op [97, 47, 35] 1 2, Subscribe_op [97, 47, 35] 2 0] newRSNode"

theorem y_smatch_exact_witness:
  "\<exists>us ss. y_smatch [97, 47, 98] 1 demo_sys ([], []) = ((us, ss), None) \<and> length us = length ss \<and>
    mset (zip us ss) =
      {# (u, qos_sub 1). (p, u, q) \<in># filter_mset (\<lambda>(p, u, q). sys_matches p [[97], [98]] \<and> 1 \<le> q)
         (mset (sys_entries demo_sys)) #}"
proof (rule y_smatch_exact)
  show "wf_rSnode demo_sys" by code_simp
  show "topic_path [97, 47, 98] = Inr ([[97], [98]], False)" by code_simp
qed

text \<open>A message whose QoS exceeds the granted one is not delivered at all, and \<open>a/#\<close> misses \<open>a\<close>.\<close>

lemma sys_skips_low_qos: "fst (fst (y_smatch [97, 47, 98] 1 demo_sys ([], []))) = [1]"
  by code_simp

lemma sys_parent_not_matched: "fst (fst (y_smatch [97] 0 demo_sys ([], []))) = []"
  by code_simp

end
