(* ===== verification/TopicsMgr.thy ===== *)
theory TopicsMgr
  imports SubTree RetainTree ShareTree SysTree
begin

text \<open>
  The topics manager (\<open>memTopics\<close> of \<open>corev5/v2/topics/impl/memtopics.go\<close>) over its four trees,
  with the providers of \<open>topics/share\<close> and \<open>topics/sys\<close> it calls: routing of a filter by its
  \<open>$sys/\<close> or \<open>$share/{name}/\<close> prefix, the subscribers of a publication, retained messages. The
  database of retained messages is an interface: \<open>db_store\<close> and \<open>db_clear\<close> are its operations on
  its own state. A subscriber is \<open>None\<close> where the code has nil.
\<close>

section \<open>The providers of the shared and of the system subscriptions\<close>

definition share_Subscribe ::
    "bytes \<Rightarrow> sub \<Rightarrow> 'u option \<Rightarrow> 'u shnode \<Rightarrow> 'u shnode \<times> byte \<times> goerr option" where
  "share_Subscribe name subs sub t =
     (if \<not> ValidQos (subQos subs) then (t, QosFailure, Some (Errorf ''invalid QoS''))
      else case sub of
        None \<Rightarrow> (t, QosFailure, Some (Errorf ''subscriber cannot be nil''))
      | Some u \<Rightarrow>
          (let subs' = (if subQos subs > MaxQosAllowed then subs\<lparr>subQos := MaxQosAllowed\<rparr> else subs) in
           case sh_insert name subs' u t of
             (t', Some e) \<Rightarrow> (t', QosFailure, Some e)
           | (t', None) \<Rightarrow> (t', subQos subs', None)))"

definition share_Subscribers :: "('r \<Rightarrow> nat \<Rightarrow> nat \<times> 'r) \<Rightarrow> bytes \<Rightarrow> bytes \<Rightarrow> byte \<Rightarrow> 'u shnode \<Rightarrow>
    'u acc \<times> 'r \<Rightarrow> ('u acc \<times> 'r) \<times> goerr option" where
  "share_Subscribers intn tp name qos t acc =
     (if \<not> ValidQos qos then (acc, Some (Errorf ''invalid QoS''))
      else case sh_match intn tp name qos t ([], snd acc) of
        ((ps, r), e) \<Rightarrow> (((map fst ps, map snd ps), r), e))"

definition sys_Subscribe :: "sub \<Rightarrow> 'u option \<Rightarrow> 'u rSnode \<Rightarrow> 'u rSnode \<times> byte \<times> goerr option" where
  "sys_Subscribe subs sub t =
     (if \<not> ValidQos (subQos subs) then (t, QosFailure, Some (Errorf ''invalid QoS''))
      else case sub of
        None \<Rightarrow> (t, QosFailure, Some (Errorf ''subscriber cannot be nil''))
      | Some u \<Rightarrow>
          (let subs' = (if subQos subs > MaxQosAllowed then subs\<lparr>subQos := MaxQosAllowed\<rparr> else subs) in
           case y_sinsert subs' u t of
             (t', Some e) \<Rightarrow> (t', QosFailure, Some e)
           | (t', None) \<Rightarrow> (t', subQos subs', None)))"

definition sys_Subscribers :: "bytes \<Rightarrow> byte \<Rightarrow> 'u rSnode \<Rightarrow> 'u acc \<Rightarrow> 'u acc \<times> goerr option" where
  "sys_Subscribers tp qos t acc =
     (if \<not> ValidQos qos then (acc, Some (Errorf ''invalid QoS'')) else y_smatch tp qos t ([], []))"

section \<open>Prefixes\<close>

definition shareByte :: bytes where "shareByte = [36, 115, 104, 97, 114, 101, 47]"
definition sysByte :: bytes where "sysByte = [36, 115, 121, 115, 47]"

text \<open>The comparison loop of \<open>deepEqual\<close> and \<open>deepSysEqual\<close>; a topic that is too short panics.\<close>

fun prefix_loop :: "bytes \<Rightarrow> bytes \<Rightarrow> bool option" where
  "prefix_loop [] t = Some True"
| "prefix_loop (c # cs) [] = None"
| "prefix_loop (c # cs) (d # ds) = (if d \<noteq> c then Some False else prefix_loop cs ds)"

definition deepEqual :: "bytes \<Rightarrow> bool option" where "deepEqual = prefix_loop shareByte"
definition deepSysEqual :: "bytes \<Rightarrow> bool option" where "deepSysEqual = prefix_loop sysByte"

text \<open>
  The scan for the end of the share name: \<open>None\<close> where a wildcard comes first, the offset of the
  separator, or 0 where there is none.
\<close>

fun share_scan :: "nat \<Rightarrow> bytes \<Rightarrow> nat option" where
  "share_scan i [] = Some 0"
| "share_scan i (b # bs) =
     (if b = 47 then Some i else if b = 43 \<or> b = 35 then None else share_scan (i + 1) bs)"

section \<open>The manager\<close>

record 'u memTopics =
  tm_sroot :: "'u snode"
  tm_rroot :: rnode
  tm_share :: "'u shnode"
  tm_sys :: "'u rSnode"

definition NewMemProvider :: "'u memTopics" where
  "NewMemProvider = \<lparr>tm_sroot = newSNode, tm_rroot = newRNode, tm_share = newShNode, tm_sys = newRSNode\<rparr>"

text \<open>\<open>None\<close> is an index out of range.\<close>

definition tm_Subscribe :: "sub \<Rightarrow> 'u option \<Rightarrow> 'u memTopics \<Rightarrow> ('u memTopics \<times> byte \<times> goerr option) option" where
  "tm_Subscribe subs0 sub t =
     (if \<not> ValidQos (subQos subs0) then Some (t, QosFailure, Some (Errorf ''invalid QoS''))
      else case sub of
        None \<Rightarrow> Some (t, QosFailure, Some (Errorf ''subscriber cannot be nil''))
      | Some u \<Rightarrow>
          (let subs = (if subQos subs0 > MaxQosAllowed then subs0\<lparr>subQos := MaxQosAllowed\<rparr> else subs0);
               tp = subTopic subs in
           case (if length tp > length sysByte then deepSysEqual tp else Some False) of
             None \<Rightarrow> None
           | Some True \<Rightarrow>
               (case sys_Subscribe (subs\<lparr>subTopic := drop (length sysByte) tp\<rparr>) sub (tm_sys t) of
                  (y, q, e) \<Rightarrow> Some (t\<lparr>tm_sys := y\<rparr>, q, e))
           | Some False \<Rightarrow>
               (case (if length tp > length shareByte then deepEqual tp else Some False) of
                  None \<Rightarrow> None
                | Some True \<Rightarrow>
                    (case share_scan 0 (drop (length shareByte) tp) of
                       None \<Rightarrow> Some (t, QosFailure, Some (Errorf ''not allowed '+' or '#' in the {share_name}''))
                     | Some i \<Rightarrow>
                         (let index = length shareByte + i in
                          if index = length shareByte then Some (t, QosFailure, Some (Errorf ''topic format error''))
                          else if length tp \<ge> 2 + index \<and> tp ! index = 47 then
                            (case share_Subscribe (take i (drop (length shareByte) tp))
                                    (subs\<lparr>subTopic := drop (index + 1) tp\<rparr>) sub (tm_share t) of
                               (s, q, e) \<Rightarrow> Some (t\<lparr>tm_share := s\<rparr>, q, e))
                          else Some (t, QosFailure, Some (Errorf ''topic format error''))))
                | Some False \<Rightarrow>
                    (case sinsert subs u (tm_sroot t) of
                       (n, Some e) \<Rightarrow> Some (t\<lparr>tm_sroot := n\<rparr>, QosFailure, Some e)
                     | (n, None) \<Rightarrow> Some (t\<lparr>tm_sroot := n\<rparr>, subQos subs, None)))))"

definition tm_Unsubscribe :: "bytes \<Rightarrow> 'u option \<Rightarrow> 'u memTopics \<Rightarrow> ('u memTopics \<times> goerr option) option" where
  "tm_Unsubscribe tp sub t =
     (case (if length tp > length sysByte then deepSysEqual tp else Some False) of
        None \<Rightarrow> None
      | Some True \<Rightarrow>
          (case y_sremove (drop (length sysByte) tp) sub (tm_sys t) of (y, e) \<Rightarrow> Some (t\<lparr>tm_sys := y\<rparr>, e))
      | Some False \<Rightarrow>
          (case (if length tp > length shareByte then deepEqual tp else Some False) of
             None \<Rightarrow> None
           | Some True \<Rightarrow>
               (case share_scan 0 (drop (length shareByte) tp) of
                  None \<Rightarrow> Some (t, Some (Errorf ''not allowed '+' or '#' in the {share_name}''))
                | Some i \<Rightarrow>
                    (let index = length shareByte + i in
                     if index = length shareByte then Some (t, Some (Errorf ''topic format error''))
                     else if length tp \<ge> 2 + index \<and> tp ! index = 47 then
                       (case sh_remove (drop (index + 1) tp) (take i (drop (length shareByte) tp)) sub (tm_share t) of
                          (s, e) \<Rightarrow> Some (t\<lparr>tm_share := s\<rparr>, e))
                     else (case sremove tp sub (tm_sroot t) of (n, e) \<Rightarrow> Some (t\<lparr>tm_sroot := n\<rparr>, e))))
           | Some False \<Rightarrow> (case sremove tp sub (tm_sroot t) of (n, e) \<Rightarrow> Some (t\<lparr>tm_sroot := n\<rparr>, e))))"

definition tm_Subscribers :: "('r \<Rightarrow> nat \<Rightarrow> nat \<times> 'r) \<Rightarrow> bytes \<Rightarrow> byte \<Rightarrow> bool \<Rightarrow> bytes \<Rightarrow> bool \<Rightarrow> 'u memTopics \<Rightarrow>
    'u acc \<times> 'r \<Rightarrow> (('u acc \<times> 'r) \<times> goerr option) option" where
  "tm_Subscribers intn tp qos svc shareName onlyShare t acc =
     (if \<not> ValidQos qos then Some (acc, Some (Errorf ''invalid QoS''))
      else if \<not> svc \<and> length tp > 0 \<and> tp ! 0 = 36
      then Some (acc, Some (Errorf ''memtopics/Subscribers: Cannot publish to $ topics''))
      else
        (let acc0 = (([], []), snd acc) in
         if svc then
           (case (if length tp > 0 then deepSysEqual tp else Some False) of
              None \<Rightarrow> None
            | Some True \<Rightarrow>
                (case sys_Subscribers (drop (length sysByte) tp) qos (tm_sys t) (fst acc0) of
                   (a, e) \<Rightarrow> Some ((a, snd acc), e))
            | Some False \<Rightarrow> Some (acc0, Some (Errorf ''memtopics/Subscribers: Publish error message to $sys/ topics'')))
         else if shareName \<noteq> [] then
           (case share_Subscribers intn tp shareName qos (tm_share t) acc0 of
              (a, Some e) \<Rightarrow> Some (a, Some e)
            | (a, None) \<Rightarrow>
                (if onlyShare then Some (a, None)
                 else case smatch tp qos (tm_sroot t) (fst a) of (b, e) \<Rightarrow> Some ((b, snd a), e)))
         else if onlyShare then Some (share_Subscribers intn tp [] qos (tm_share t) acc0)
         else case smatch tp qos (tm_sroot t) (fst acc0) of (b, e) \<Rightarrow> Some ((b, snd acc), e)))"

definition tm_AllSubInfo :: "'u memTopics \<Rightarrow> (bytes \<times> bytes list) list" where
  "tm_AllSubInfo t = smatchAll (tm_share t)"

definition tm_Retain :: "(bytes \<Rightarrow> publish \<Rightarrow> 'd \<Rightarrow> 'd \<times> goerr option) \<Rightarrow> (bytes \<Rightarrow> 'd \<Rightarrow> 'd \<times> goerr option) \<Rightarrow>
    u64 \<Rightarrow> publish \<Rightarrow> 'u memTopics \<Rightarrow> 'd \<Rightarrow> ('u memTopics \<times> 'd \<times> u64 \<times> publish \<times> goerr option) option" where
  "tm_Retain db_store db_clear g msg t d =
     (if length (payload msg) = 0 then
        (case db_clear (topic msg) d of
           (d', Some e) \<Rightarrow> Some (t, d', g, msg, Some e)
         | (d', None) \<Rightarrow>
             (case rremove (topic msg) (tm_rroot t) of (n, e) \<Rightarrow> Some (t\<lparr>tm_rroot := n\<rparr>, d', g, msg, e)))
      else case db_store (topic msg) msg d of
        (d', Some e) \<Rightarrow> Some (t, d', g, msg, Some e)
      | (d', None) \<Rightarrow>
          (case rinsert (topic msg) g msg (tm_rroot t) of
             None \<Rightarrow> None
           | Some (n, g', msg', e) \<Rightarrow> Some (t\<lparr>tm_rroot := n\<rparr>, d', g', msg', e)))"

definition tm_Retained :: "bytes \<Rightarrow> publish list \<Rightarrow> 'u memTopics \<Rightarrow> publish list \<times> goerr option" where
  "tm_Retained tp msgs t = rmatch tp (tm_rroot t) msgs"

section \<open>Where a filter is stored\<close>

datatype place = InTree "bytes list" | InShare bytes "bytes list" | InSys "bytes list"

definition place_of :: "bytes \<Rightarrow> place option" where
  "place_of tp =
     (if take 5 tp = sysByte \<and> length tp > 5 then map_option InSys (path_of (drop 5 tp))
      else if take 7 tp = shareByte \<and> length tp > 7 then
        (let name = takeWhile (\<lambda>b. b \<noteq> 47) (drop 7 tp); f = drop (length name + 1) (drop 7 tp) in
         if name \<noteq> [] \<and> f \<noteq> [] \<and> 43 \<notin> set name \<and> 35 \<notin> set name
         then map_option (InShare name) (path_of f) else None)
      else map_option InTree (path_of tp))"

lemma prefix_loop_take: "length xs \<le> length t \<Longrightarrow> prefix_loop xs t = Some (take (length xs) t = xs)"
  by (induction xs t rule: prefix_loop.induct) auto

lemma prefix_lengths [simp]: "length sysByte = 5" "length shareByte = 7"
  by (simp_all add: sysByte_def shareByte_def)

lemma deep_equal_take:
  "length tp > 5 \<Longrightarrow> deepSysEqual tp = Some (take 5 tp = sysByte)"
  "length tp > 7 \<Longrightarrow> deepEqual tp = Some (take 7 tp = shareByte)"
  using prefix_loop_take [of sysByte tp] prefix_loop_take [of shareByte tp]
  by (simp_all add: deepSysEqual_def deepEqual_def)

lemma share_scan_takeWhile:
  "share_scan i bs =
     (let n = takeWhile (\<lambda>b. b \<noteq> 47) bs in
      if 43 \<in> set n \<or> 35 \<in> set n then None else if 47 \<in> set bs then Some (i + length n) else Some 0)"
  by (induction i bs rule: share_scan.induct) (auto simp: Let_def)

lemma takeWhile_sep:
  "47 \<in> set bs \<Longrightarrow> length (takeWhile (\<lambda>b. b \<noteq> 47) bs) < length bs \<and>
     bs ! length (takeWhile (\<lambda>b. b \<noteq> 47) bs) = (47 :: byte) \<and>
     take (length (takeWhile (\<lambda>b. b \<noteq> 47) bs)) bs = takeWhile (\<lambda>b. b \<noteq> 47) bs"
  by (induction bs) auto

lemma takeWhile_no_sep: "(47::byte) \<notin> set bs \<Longrightarrow> takeWhile (\<lambda>b. b \<noteq> 47) bs = bs"
  by (auto simp: takeWhile_eq_all_conv)

text \<open>The three outcomes of the share branch of \<open>Subscribe\<close> and \<open>Unsubscribe\<close>.\<close>

definition share_split :: "bytes \<Rightarrow> (bytes \<times> bytes) option" where
  "share_split tp =
     (let name = takeWhile (\<lambda>b. b \<noteq> 47) (drop 7 tp); f = drop (length name + 1) (drop 7 tp) in
      if name \<noteq> [] \<and> f \<noteq> [] \<and> 43 \<notin> set name \<and> 35 \<notin> set name then Some (name, f) else None)"

lemma share_branch:
  assumes "take 7 tp = shareByte" "length tp > 7"
  shows "(case share_scan 0 (drop 7 tp) of
       None \<Rightarrow> a
     | Some i \<Rightarrow> (if 7 + i = 7 then b
         else if length tp \<ge> 2 + (7 + i) \<and> tp ! (7 + i) = 47 then c (take i (drop 7 tp)) (drop (7 + i + 1) tp) else d)) =
    (case share_split tp of
       Some (name, f) \<Rightarrow> c name f
     | None \<Rightarrow> (case share_scan 0 (drop 7 tp) of None \<Rightarrow> a | Some i \<Rightarrow> if i = 0 then b else d))"
proof -
  define r where "r = drop 7 tp"
  define n where "n = takeWhile (\<lambda>b. b \<noteq> 47) r"
  have tp: "length tp = 7 + length r" "tp ! (7 + i) = r ! i" "drop (7 + i + 1) tp = drop (i + 1) r" for i
    using assms(2) by (simp_all add: r_def add.commute)
  show ?thesis
  proof (cases "47 \<in> set r")
    case True
    have s: "length n < length r" "r ! length n = 47" "take (length n) r = n"
      using takeWhile_sep [OF True] by (simp_all add: n_def)
    show ?thesis
      using s True tp
      by (simp add: share_split_def share_scan_takeWhile Let_def r_def [symmetric] n_def [symmetric])
  next
    case False
    then have "n = r" using takeWhile_no_sep by (simp add: n_def)
    then show ?thesis
      using False by (simp add: share_split_def share_scan_takeWhile Let_def r_def [symmetric] n_def [symmetric])
  qed
qed

lemma not_both: "take 7 tp = shareByte \<Longrightarrow> take 5 tp \<noteq> sysByte"
proof -
  assume a: "take 7 tp = shareByte"
  have "take 5 tp = take 5 (take 7 tp)" by simp
  then show ?thesis using a by (simp add: shareByte_def sysByte_def)
qed

lemma place_of_share:
  "take 7 tp = shareByte \<Longrightarrow> length tp > 7 \<Longrightarrow>
     place_of tp = (case share_split tp of None \<Rightarrow> None | Some (name, f) \<Rightarrow> map_option (InShare name) (path_of f))"
  using not_both by (simp add: place_of_def share_split_def Let_def)

lemma dollar_path: "path_of (36 # x) = None"
  using topic_path_error [of "36 # x"] by (simp add: path_of_def nextTopicLevel_def)

lemma share_dollar: "take 7 tp = shareByte \<Longrightarrow> path_of tp = None"
  using dollar_path by (cases tp) (auto simp: shareByte_def)

section \<open>What the state promises\<close>

definition wf_tm :: "'u memTopics \<Rightarrow> bool" where
  "wf_tm t \<longleftrightarrow> wf_snode (tm_sroot t) \<and> wf_rnode (tm_rroot t) \<and> wf_sh (tm_share t) \<and> wf_rSnode (tm_sys t)"

definition qos_opts :: "byte \<Rightarrow> sub_opts" where "qos_opts q = (q, False, False, 0, 0)"

definition tm_view :: "'u memTopics \<Rightarrow> place \<times> 'u \<Rightarrow> sub_opts option" where
  "tm_view t pu =
     (case fst pu of
        InTree p \<Rightarrow> map_of (snode_at (tm_sroot t) p) (snd pu)
      | InShare name p \<Rightarrow> map_option qos_opts (map_of (sh_at (tm_share t) (name, p)) (snd pu))
      | InSys p \<Rightarrow> map_option qos_opts (map_of (sys_at (tm_sys t) p) (snd pu)))"

text \<open>Shared and system subscriptions keep the QoS only.\<close>

definition kept :: "place \<Rightarrow> sub_opts \<Rightarrow> sub_opts" where
  "kept pl v = (case pl of InTree p \<Rightarrow> v | _ \<Rightarrow> qos_opts (fst v))"

datatype 'u mgr_op = Mgr_Subscribe sub 'u | Mgr_Unsubscribe bytes 'u

definition mgr_spec :: "'u mgr_op \<Rightarrow> (place \<times> 'u \<Rightarrow> sub_opts option) \<Rightarrow> (place \<times> 'u \<Rightarrow> sub_opts option)" where
  "mgr_spec c m =
     (case c of
        Mgr_Subscribe s u \<Rightarrow>
          (if ValidQos (subQos s)
           then (case place_of (subTopic s) of None \<Rightarrow> m | Some pl \<Rightarrow> m((pl, u) \<mapsto> kept pl (opts_of s)))
           else m)
      | Mgr_Unsubscribe tp u \<Rightarrow> (case place_of tp of None \<Rightarrow> m | Some pl \<Rightarrow> m((pl, u) := None)))"

definition mgr_step :: "'u mgr_op \<Rightarrow> 'u memTopics \<Rightarrow> 'u memTopics option" where
  "mgr_step c t =
     (case c of
        Mgr_Subscribe s u \<Rightarrow> map_option fst (tm_Subscribe s (Some u) t)
      | Mgr_Unsubscribe tp u \<Rightarrow> map_option fst (tm_Unsubscribe tp (Some u) t))"

fun mgr_run :: "'u mgr_op list \<Rightarrow> 'u memTopics \<Rightarrow> 'u memTopics option" where
  "mgr_run [] t = Some t"
| "mgr_run (c # cs) t = (case mgr_step c t of None \<Rightarrow> None | Some t' \<Rightarrow> mgr_run cs t')"

section \<open>One call on each tree\<close>

lemma y_sinsert_opts:
  "subTopic s = subTopic s' \<Longrightarrow> subQos s = subQos s' \<Longrightarrow> y_sinsert s u t = y_sinsert s' u t"
proof (induction s u t arbitrary: s' rule: y_sinsert.induct)
  case (1 s u us qs kids)
  show ?case
  proof (cases "subTopic s = [] \<or> (\<exists>e. nextRTopicLevel (subTopic s) = Inl e)")
    case True
    then show ?thesis using 1(2,3) by (auto simp: y_sinsert.simps split: option.splits)
  next
    case False
    then obtain l rem where l: "subTopic s \<noteq> []" "nextRTopicLevel (subTopic s) = Inr (l, rem)"
      by (cases "nextRTopicLevel (subTopic s)") auto
    define x where "x = (case rem of None \<Rightarrow> [] | Some r \<Rightarrow> r)"
    have "y_sinsert (s\<lparr>subTopic := x\<rparr>) u n = y_sinsert (s'\<lparr>subTopic := x\<rparr>) u n"
      if "n = (case map_of kids l of Some n \<Rightarrow> n | None \<Rightarrow> newRSNode)" for n
      using 1(1) [OF l refl that, folded x_def, of "s'\<lparr>subTopic := x\<rparr>"] 1(3) by simp
    then show ?thesis
      using l 1(2) by (subst (1 2) y_sinsert.simps) (simp add: x_def [symmetric] Let_def)
  qed
qed

lemma sh_insert_opts:
  "subTopic s = subTopic s' \<Longrightarrow> subQos s = subQos s' \<Longrightarrow> sh_insert n s u t = sh_insert n s' u t"
proof (induction n s u t arbitrary: s' rule: sh_insert.induct)
  case (1 sn s u shares kids)
  show ?case
  proof (cases "subTopic s = [] \<or> (\<exists>e. nextTopicLevel (subTopic s) = Inl e)")
    case True
    then show ?thesis using 1(2,3) by (auto simp: sh_insert.simps split: option.splits)
  next
    case False
    then obtain l rem where l: "subTopic s \<noteq> []" "nextTopicLevel (subTopic s) = Inr (l, rem)"
      by (cases "nextTopicLevel (subTopic s)") auto
    define x where "x = (case rem of None \<Rightarrow> [] | Some r \<Rightarrow> r)"
    have "sh_insert sn (s\<lparr>subTopic := x\<rparr>) u n = sh_insert sn (s'\<lparr>subTopic := x\<rparr>) u n"
      if "n = (case map_of kids l of Some n \<Rightarrow> n | None \<Rightarrow> newShNode)" for n
      using 1(1) [OF l refl that, folded x_def, of "s'\<lparr>subTopic := x\<rparr>"] 1(3) by simp
    then show ?thesis
      using l 1(2) by (subst (1 2) sh_insert.simps) (simp add: x_def [symmetric] Let_def)
  qed
qed

lemma insert_as_op:
  "sinsert s u n = snode_ins (subTopic s) u (opts_of s) n"
  "sh_insert name s u g = share_ins (name, subTopic s) u (subQos s) g"
  "y_sinsert s u y = sys_ins (subTopic s) u (subQos s) y"
proof -
  have "mk_sub (subTopic s) (opts_of s) = s" by (cases s) (simp add: opts_of_def mk_sub_def)
  then show "sinsert s u n = snode_ins (subTopic s) u (opts_of s) n" by (simp add: snode_ins_def)
  show "sh_insert name s u g = share_ins (name, subTopic s) u (subQos s) g"
    unfolding share_ins_def fst_conv snd_conv by (rule sh_insert_opts) (simp_all add: mk_sub_def)
  show "y_sinsert s u y = sys_ins (subTopic s) u (subQos s) y"
    unfolding sys_ins_def by (rule y_sinsert_opts) (simp_all add: mk_sub_def)
qed

lemma remove_as_op:
  "sremove tp (Some u) n = snode_del tp u n"
  "sh_remove tp name (Some u) g = share_del (name, tp) u g"
  "y_sremove tp (Some u) y = sys_del tp u y"
  by (simp_all add: snode_del_def share_del_def sys_del_def)

section \<open>The calls of the manager\<close>

lemma tm_view_simps:
  "tm_view t (InTree p, u) = map_of (snode_at (tm_sroot t) p) u"
  "tm_view t (InShare name p, u) = map_option qos_opts (map_of (sh_at (tm_share t) (name, p)) u)"
  "tm_view t (InSys p, u) = map_option qos_opts (map_of (sys_at (tm_sys t) p) u)"
  by (simp_all add: tm_view_def)

lemma kept_simps: "kept (InTree p) v = v" "kept (InShare n p) v = qos_opts (fst v)" "kept (InSys p) v = qos_opts (fst v)"
  by (simp_all add: kept_def)

lemma ValidQos_max: "ValidQos q \<Longrightarrow> \<not> q > MaxQosAllowed"
  by (auto simp: ValidQos_def qos_defs)

lemma share_path_pair: "share_path (n, f) = Some k \<longleftrightarrow> (\<exists>p. path_of f = Some p \<and> k = (n, p))"
  by (auto simp: share_path_def)

lemma share_path_none: "share_path (n, f) = None \<longleftrightarrow> path_of f = None"
  by (simp add: share_path_def)

definition sub_result :: "sub \<Rightarrow> 'u \<Rightarrow> 'u memTopics \<Rightarrow> 'u memTopics \<Rightarrow> byte \<Rightarrow> goerr option \<Rightarrow> bool" where
  "sub_result s u t t' q e \<longleftrightarrow>
     wf_tm t' \<and> tm_rroot t' = tm_rroot t \<and>
     (e = None \<longleftrightarrow> place_of (subTopic s) \<noteq> None) \<and> q = (if e = None then subQos s else QosFailure) \<and>
     (\<forall>pl v. tm_view t' (pl, v) =
        (if place_of (subTopic s) = Some pl \<and> v = u then Some (kept pl (opts_of s)) else tm_view t (pl, v)))"

lemma sub_result_sys:
  assumes "wf_tm t" "ValidQos (subQos s)" "take 5 (subTopic s) = sysByte" "length (subTopic s) > 5"
  shows "\<exists>t' q e. tm_Subscribe s (Some u) t = Some (t', q, e) \<and> sub_result s u t t' q e"
proof -
  define s' where "s' = s\<lparr>subTopic := drop 5 (subTopic s)\<rparr>"
  have wf: "wf_rSnode (tm_sys t)" using assms(1) by (simp add: wf_tm_def)
  obtain y e where y: "sys_ins (subTopic s') u (subQos s') (tm_sys t) = (y, e)"
    by (cases "sys_ins (subTopic s') u (subQos s') (tm_sys t)")
  have sp: "wf_rSnode y \<and> (e = None \<longleftrightarrow> path_of (subTopic s') \<noteq> None) \<and>
      map_of (sys_at y p) v = (if path_of (subTopic s') = Some p \<and> v = u then Some (subQos s') else map_of (sys_at (tm_sys t) p) v)" for p v
    using sys_store.ins_spec [OF wf, of "subTopic s'" u "subQos s'" p v] by (simp add: y)
  have pl: "place_of (subTopic s) = map_option InSys (path_of (subTopic s'))"
    using assms(3,4) by (simp add: place_of_def s'_def)
  have "tm_Subscribe s (Some u) t = Some (t\<lparr>tm_sys := y\<rparr>, if e = None then subQos s else QosFailure, e)"
    using assms(2-4) ValidQos_max [OF assms(2)] y deep_equal_take(1) [OF assms(4)]
    by (cases e) (simp_all add: tm_Subscribe_def sys_Subscribe_def s'_def [symmetric] insert_as_op, simp_all add: s'_def)
  moreover have "sub_result s u t (t\<lparr>tm_sys := y\<rparr>) (if e = None then subQos s else QosFailure) e"
    unfolding sub_result_def
  proof (intro conjI allI)
    fix p v
    show "tm_view (t\<lparr>tm_sys := y\<rparr>) (p, v) =
        (if place_of (subTopic s) = Some p \<and> v = u then Some (kept p (opts_of s)) else tm_view t (p, v))"
      using sp by (cases p) (auto simp: tm_view_simps pl kept_simps s'_def opts_of_def)
  qed (use assms(1) sp pl in \<open>simp_all add: wf_tm_def\<close>)
  ultimately show ?thesis by blast
qed

lemma tm_Subscribe_share:
  assumes "ValidQos (subQos s)" "take 7 (subTopic s) = shareByte" "length (subTopic s) > 7"
  shows "tm_Subscribe s (Some u) t =
    (case share_split (subTopic s) of
       None \<Rightarrow> Some (t, QosFailure, Some (Errorf (if share_scan 0 (drop 7 (subTopic s)) = None
          then ''not allowed '+' or '#' in the {share_name}'' else ''topic format error'')))
     | Some (name, f) \<Rightarrow>
         (case share_ins (name, f) u (subQos s) (tm_share t) of
            (g, e) \<Rightarrow> Some (t\<lparr>tm_share := g\<rparr>, if e = None then subQos s else QosFailure, e)))"
proof -
  have sub: "share_Subscribe name (s\<lparr>subTopic := f\<rparr>) (Some u) g =
      (case share_ins (name, f) u (subQos s) g of (g', e) \<Rightarrow> (g', if e = None then subQos s else QosFailure, e))" for name f g
    using assms(1) ValidQos_max [OF assms(1)]
    by (simp add: share_Subscribe_def insert_as_op split: prod.splits option.splits)
  have "tm_Subscribe s (Some u) t =
      (case share_scan 0 (drop 7 (subTopic s)) of
         None \<Rightarrow> Some (t, QosFailure, Some (Errorf ''not allowed '+' or '#' in the {share_name}''))
       | Some i \<Rightarrow>
           (if 7 + i = 7 then Some (t, QosFailure, Some (Errorf ''topic format error''))
            else if length (subTopic s) \<ge> 2 + (7 + i) \<and> subTopic s ! (7 + i) = 47 then
              (\<lambda>name f. case share_Subscribe name (s\<lparr>subTopic := f\<rparr>) (Some u) (tm_share t) of
                 (s, q, e) \<Rightarrow> Some (t\<lparr>tm_share := s\<rparr>, q, e))
                (take i (drop 7 (subTopic s))) (drop (7 + i + 1) (subTopic s))
            else Some (t, QosFailure, Some (Errorf ''topic format error''))))"
    using assms ValidQos_max [OF assms(1)] deep_equal_take [of "subTopic s"] not_both [OF assms(2)]
    by (cases "share_scan 0 (drop 7 (subTopic s))") (simp_all add: tm_Subscribe_def Let_def)
  also have "\<dots> = (case share_split (subTopic s) of
       Some (name, f) \<Rightarrow> (case share_Subscribe name (s\<lparr>subTopic := f\<rparr>) (Some u) (tm_share t) of
         (g, q, e) \<Rightarrow> Some (t\<lparr>tm_share := g\<rparr>, q, e))
     | None \<Rightarrow> (case share_scan 0 (drop 7 (subTopic s)) of
           None \<Rightarrow> Some (t, QosFailure, Some (Errorf ''not allowed '+' or '#' in the {share_name}''))
         | Some i \<Rightarrow> if i = 0 then Some (t, QosFailure, Some (Errorf ''topic format error''))
             else Some (t, QosFailure, Some (Errorf ''topic format error''))))"
    by (rule share_branch [OF assms(2,3), where c = "\<lambda>name f. case share_Subscribe name (s\<lparr>subTopic := f\<rparr>) (Some u) (tm_share t) of
         (g, q, e) \<Rightarrow> Some (t\<lparr>tm_share := g\<rparr>, q, e)"])
  also have "\<dots> = (case share_split (subTopic s) of
       None \<Rightarrow> Some (t, QosFailure, Some (Errorf (if share_scan 0 (drop 7 (subTopic s)) = None
          then ''not allowed '+' or '#' in the {share_name}'' else ''topic format error'')))
     | Some (name, f) \<Rightarrow>
         (case share_ins (name, f) u (subQos s) (tm_share t) of
            (g, e) \<Rightarrow> Some (t\<lparr>tm_share := g\<rparr>, if e = None then subQos s else QosFailure, e)))"
    unfolding sub by (auto split: option.splits prod.splits)
  finally show ?thesis .
qed

lemma sub_result_share:
  assumes "wf_tm t" "ValidQos (subQos s)" "take 7 (subTopic s) = shareByte" "length (subTopic s) > 7"
  shows "\<exists>t' q e. tm_Subscribe s (Some u) t = Some (t', q, e) \<and> sub_result s u t t' q e"
proof (cases "share_split (subTopic s)")
  case None
  then show ?thesis
    using assms(1) place_of_share [OF assms(3,4)] tm_Subscribe_share [OF assms(2-4), of u t]
    by (auto simp: sub_result_def)
next
  case (Some nf)
  obtain name f where nf: "nf = (name, f)" by (cases nf)
  have wf: "wf_sh (tm_share t)" using assms(1) by (simp add: wf_tm_def)
  obtain g e where g: "share_ins (name, f) u (subQos s) (tm_share t) = (g, e)"
    by (cases "share_ins (name, f) u (subQos s) (tm_share t)")
  have sp: "wf_sh g \<and> (e = None \<longleftrightarrow> path_of f \<noteq> None) \<and>
      map_of (sh_at g (n, p)) v = (if path_of f = Some p \<and> n = name \<and> v = u then Some (subQos s)
        else map_of (sh_at (tm_share t) (n, p)) v)" for n p v
    using share_store.ins_spec [OF wf, of "(name, f)" u "subQos s" "(n, p)" v]
    by (auto simp: g share_path_none share_path_pair)
  have pl: "place_of (subTopic s) = map_option (InShare name) (path_of f)"
    using place_of_share [OF assms(3,4)] Some by (simp add: nf)
  have "sub_result s u t (t\<lparr>tm_share := g\<rparr>) (if e = None then subQos s else QosFailure) e"
    unfolding sub_result_def
  proof (intro conjI allI)
    fix p v
    show "tm_view (t\<lparr>tm_share := g\<rparr>) (p, v) =
        (if place_of (subTopic s) = Some p \<and> v = u then Some (kept p (opts_of s)) else tm_view t (p, v))"
      using sp by (cases p) (auto simp: tm_view_simps pl kept_simps opts_of_def)
  qed (use assms(1) sp pl in \<open>simp_all add: wf_tm_def\<close>)
  then show ?thesis
    using tm_Subscribe_share [OF assms(2-4), of u t] Some nf g by auto
qed

lemma sub_result_tree:
  assumes "wf_tm t" "ValidQos (subQos s)"
    "\<not> (take 5 (subTopic s) = sysByte \<and> length (subTopic s) > 5)"
    "\<not> (take 7 (subTopic s) = shareByte \<and> length (subTopic s) > 7)"
  shows "\<exists>t' q e. tm_Subscribe s (Some u) t = Some (t', q, e) \<and> sub_result s u t t' q e"
proof -
  have wf: "wf_snode (tm_sroot t)" using assms(1) by (simp add: wf_tm_def)
  obtain n e where n: "snode_ins (subTopic s) u (opts_of s) (tm_sroot t) = (n, e)"
    by (cases "snode_ins (subTopic s) u (opts_of s) (tm_sroot t)")
  have sp: "wf_snode n \<and> (e = None \<longleftrightarrow> path_of (subTopic s) \<noteq> None) \<and>
      map_of (snode_at n p) v = (if path_of (subTopic s) = Some p \<and> v = u then Some (opts_of s)
        else map_of (snode_at (tm_sroot t) p) v)" for p v
    using snode_store.ins_spec [OF wf, of "subTopic s" u "opts_of s" p v] by (simp add: n)
  have pl: "place_of (subTopic s) = map_option InTree (path_of (subTopic s))"
    using assms(3,4) by (auto simp: place_of_def)
  have no: "(if length (subTopic s) > 5 then deepSysEqual (subTopic s) else Some False) = Some False"
    "(if length (subTopic s) > 7 then deepEqual (subTopic s) else Some False) = Some False"
    using assms(3,4) deep_equal_take [of "subTopic s"] by auto
  have "tm_Subscribe s (Some u) t = Some (t\<lparr>tm_sroot := n\<rparr>, if e = None then subQos s else QosFailure, e)"
    using assms(2) ValidQos_max [OF assms(2)] no n
    by (cases e) (simp_all add: tm_Subscribe_def insert_as_op)
  moreover have "sub_result s u t (t\<lparr>tm_sroot := n\<rparr>) (if e = None then subQos s else QosFailure) e"
    unfolding sub_result_def
  proof (intro conjI allI)
    fix p v
    show "tm_view (t\<lparr>tm_sroot := n\<rparr>) (p, v) =
        (if place_of (subTopic s) = Some p \<and> v = u then Some (kept p (opts_of s)) else tm_view t (p, v))"
      using sp by (cases p) (auto simp: tm_view_simps pl kept_simps)
  qed (use assms(1) sp pl in \<open>simp_all add: wf_tm_def\<close>)
  ultimately show ?thesis by blast
qed

lemma tm_Subscribe_result:
  assumes "wf_tm t" "ValidQos (subQos s)"
  shows "\<exists>t' q e. tm_Subscribe s (Some u) t = Some (t', q, e) \<and> sub_result s u t t' q e"
  using sub_result_sys [OF assms, of u] sub_result_share [OF assms, of u] sub_result_tree [OF assms, of u] by blast

definition unsub_result :: "bytes \<Rightarrow> 'u \<Rightarrow> 'u memTopics \<Rightarrow> 'u memTopics \<Rightarrow> goerr option \<Rightarrow> bool" where
  "unsub_result tp u t t' e \<longleftrightarrow>
     wf_tm t' \<and> tm_rroot t' = tm_rroot t \<and>
     (e = None \<longleftrightarrow> (\<exists>pl. place_of tp = Some pl \<and> tm_view t (pl, u) \<noteq> None)) \<and>
     (\<forall>pl v. tm_view t' (pl, v) = (if place_of tp = Some pl \<and> v = u then None else tm_view t (pl, v)))"

lemma unsub_result_sys:
  assumes "wf_tm t" "take 5 tp = sysByte" "length tp > 5"
  shows "\<exists>t' e. tm_Unsubscribe tp (Some u) t = Some (t', e) \<and> unsub_result tp u t t' e"
proof -
  have wf: "wf_rSnode (tm_sys t)" using assms(1) by (simp add: wf_tm_def)
  obtain y e where y: "sys_del (drop 5 tp) u (tm_sys t) = (y, e)" by (cases "sys_del (drop 5 tp) u (tm_sys t)")
  have sp: "wf_rSnode y \<and> (e = None \<longleftrightarrow> (\<exists>p. path_of (drop 5 tp) = Some p \<and> map_of (sys_at (tm_sys t) p) u \<noteq> None)) \<and>
      map_of (sys_at y p) v = (if path_of (drop 5 tp) = Some p \<and> v = u then None else map_of (sys_at (tm_sys t) p) v)" for p v
    using sys_store.del_spec [OF wf, of "drop 5 tp" u p v] by (simp add: y)
  have pl: "place_of tp = map_option InSys (path_of (drop 5 tp))" using assms(2,3) by (simp add: place_of_def)
  have "tm_Unsubscribe tp (Some u) t = Some (t\<lparr>tm_sys := y\<rparr>, e)"
    using assms(2,3) y deep_equal_take(1) [OF assms(3)] by (simp add: tm_Unsubscribe_def remove_as_op)
  moreover have "unsub_result tp u t (t\<lparr>tm_sys := y\<rparr>) e"
    unfolding unsub_result_def
  proof (intro conjI allI)
    fix p v
    show "tm_view (t\<lparr>tm_sys := y\<rparr>) (p, v) = (if place_of tp = Some p \<and> v = u then None else tm_view t (p, v))"
      using sp by (cases p) (auto simp: tm_view_simps pl)
  qed (use assms(1) sp pl in \<open>auto simp: wf_tm_def tm_view_simps qos_opts_def\<close>)
  ultimately show ?thesis by blast
qed

lemma unsub_result_tree:
  assumes "wf_tm t" "tm_Unsubscribe tp (Some u) t = (case sremove tp (Some u) (tm_sroot t) of (n, e) \<Rightarrow> Some (t\<lparr>tm_sroot := n\<rparr>, e))"
    "place_of tp = map_option InTree (path_of tp)"
  shows "\<exists>t' e. tm_Unsubscribe tp (Some u) t = Some (t', e) \<and> unsub_result tp u t t' e"
proof -
  have wf: "wf_snode (tm_sroot t)" using assms(1) by (simp add: wf_tm_def)
  obtain n e where n: "snode_del tp u (tm_sroot t) = (n, e)" by (cases "snode_del tp u (tm_sroot t)")
  have sp: "wf_snode n \<and> (e = None \<longleftrightarrow> (\<exists>p. path_of tp = Some p \<and> map_of (snode_at (tm_sroot t) p) u \<noteq> None)) \<and>
      map_of (snode_at n p) v = (if path_of tp = Some p \<and> v = u then None else map_of (snode_at (tm_sroot t) p) v)" for p v
    using snode_store.del_spec [OF wf, of tp u p v] by (simp add: n)
  have "unsub_result tp u t (t\<lparr>tm_sroot := n\<rparr>) e"
    unfolding unsub_result_def
  proof (intro conjI allI)
    fix p v
    show "tm_view (t\<lparr>tm_sroot := n\<rparr>) (p, v) = (if place_of tp = Some p \<and> v = u then None else tm_view t (p, v))"
      using sp by (cases p) (auto simp: tm_view_simps assms(3))
  qed (use assms(1) sp assms(3) in \<open>auto simp: wf_tm_def tm_view_simps qos_opts_def\<close>)
  then show ?thesis using assms(2) n by (auto simp: remove_as_op)
qed

lemma tm_Unsubscribe_share:
  assumes "take 7 tp = shareByte" "length tp > 7"
  shows "tm_Unsubscribe tp (Some u) t =
    (case share_split tp of
       Some (name, f) \<Rightarrow> (case share_del (name, f) u (tm_share t) of (g, e) \<Rightarrow> Some (t\<lparr>tm_share := g\<rparr>, e))
     | None \<Rightarrow> (case share_scan 0 (drop 7 tp) of
           None \<Rightarrow> Some (t, Some (Errorf ''not allowed '+' or '#' in the {share_name}''))
         | Some i \<Rightarrow> if i = 0 then Some (t, Some (Errorf ''topic format error''))
             else case sremove tp (Some u) (tm_sroot t) of (n, e) \<Rightarrow> Some (t\<lparr>tm_sroot := n\<rparr>, e)))"
proof -
  have "tm_Unsubscribe tp (Some u) t =
      (case share_scan 0 (drop 7 tp) of
         None \<Rightarrow> Some (t, Some (Errorf ''not allowed '+' or '#' in the {share_name}''))
       | Some i \<Rightarrow>
           (if 7 + i = 7 then Some (t, Some (Errorf ''topic format error''))
            else if length tp \<ge> 2 + (7 + i) \<and> tp ! (7 + i) = 47 then
              (\<lambda>name f. case share_del (name, f) u (tm_share t) of (g, e) \<Rightarrow> Some (t\<lparr>tm_share := g\<rparr>, e))
                (take i (drop 7 tp)) (drop (7 + i + 1) tp)
            else case sremove tp (Some u) (tm_sroot t) of (n, e) \<Rightarrow> Some (t\<lparr>tm_sroot := n\<rparr>, e)))"
    using assms deep_equal_take [of tp] not_both [OF assms(1)]
    by (cases "share_scan 0 (drop 7 tp)") (simp_all add: tm_Unsubscribe_def Let_def remove_as_op)
  also have "\<dots> = (case share_split tp of
       Some (name, f) \<Rightarrow> (case share_del (name, f) u (tm_share t) of (g, e) \<Rightarrow> Some (t\<lparr>tm_share := g\<rparr>, e))
     | None \<Rightarrow> (case share_scan 0 (drop 7 tp) of
           None \<Rightarrow> Some (t, Some (Errorf ''not allowed '+' or '#' in the {share_name}''))
         | Some i \<Rightarrow> if i = 0 then Some (t, Some (Errorf ''topic format error''))
             else case sremove tp (Some u) (tm_sroot t) of (n, e) \<Rightarrow> Some (t\<lparr>tm_sroot := n\<rparr>, e)))"
    by (rule share_branch [OF assms, where c = "\<lambda>name f. case share_del (name, f) u (tm_share t) of
        (g, e) \<Rightarrow> Some (t\<lparr>tm_share := g\<rparr>, e)"])
  finally show ?thesis .
qed

lemma unsub_result_share:
  assumes "wf_tm t" "take 7 tp = shareByte" "length tp > 7"
  shows "\<exists>t' e. tm_Unsubscribe tp (Some u) t = Some (t', e) \<and> unsub_result tp u t t' e"
proof (cases "share_split tp")
  case None
  have pl: "place_of tp = None" using place_of_share [OF assms(2,3)] None by simp
  obtain err where "topic_path tp = Inl err" using share_dollar [OF assms(2)] unfolding path_of_simps by blast
  then have r: "snd (sremove tp (Some u) (tm_sroot t)) \<noteq> None" "fst (sremove tp (Some u) (tm_sroot t)) = tm_sroot t"
    using sremove_malformed [of "tm_sroot t" tp err u] assms(1) by (simp_all add: wf_tm_def)
  have same: "unsub_result tp u t t (Some e)" for e
    using assms(1) by (simp add: unsub_result_def pl)
  obtain e where "sremove tp (Some u) (tm_sroot t) = (tm_sroot t, Some e)"
    using r by (cases "sremove tp (Some u) (tm_sroot t)") auto
  then show ?thesis
    using None same by (auto simp: tm_Unsubscribe_share [OF assms(2,3)] split: option.splits)
next
  case (Some nf)
  obtain name f where nf: "nf = (name, f)" by (cases nf)
  have wf: "wf_sh (tm_share t)" using assms(1) by (simp add: wf_tm_def)
  obtain g e where g: "share_del (name, f) u (tm_share t) = (g, e)" by (cases "share_del (name, f) u (tm_share t)")
  have sp: "wf_sh g \<and> (e = None \<longleftrightarrow> (\<exists>p. path_of f = Some p \<and> map_of (sh_at (tm_share t) (name, p)) u \<noteq> None)) \<and>
      map_of (sh_at g (n, p)) v = (if path_of f = Some p \<and> n = name \<and> v = u then None
        else map_of (sh_at (tm_share t) (n, p)) v)" for n p v
    using share_store.del_spec [OF wf, of "(name, f)" u "(n, p)" v]
    by (auto simp: g share_path_none share_path_pair)
  have pl: "place_of tp = map_option (InShare name) (path_of f)"
    using place_of_share [OF assms(2,3)] Some by (simp add: nf)
  have "unsub_result tp u t (t\<lparr>tm_share := g\<rparr>) e"
    unfolding unsub_result_def
  proof (intro conjI allI)
    fix p v
    show "tm_view (t\<lparr>tm_share := g\<rparr>) (p, v) = (if place_of tp = Some p \<and> v = u then None else tm_view t (p, v))"
      using sp by (cases p) (auto simp: tm_view_simps pl)
  qed (use assms(1) sp pl in \<open>auto simp: wf_tm_def tm_view_simps qos_opts_def\<close>)
  then show ?thesis using tm_Unsubscribe_share [OF assms(2,3), of u t] Some nf g by auto
qed

lemma tm_Unsubscribe_result:
  assumes "wf_tm t"
  shows "\<exists>t' e. tm_Unsubscribe tp (Some u) t = Some (t', e) \<and> unsub_result tp u t t' e"
proof (cases "(take 5 tp = sysByte \<and> length tp > 5) \<or> (take 7 tp = shareByte \<and> length tp > 7)")
  case True
  then show ?thesis using unsub_result_sys [OF assms] unsub_result_share [OF assms] by blast
next
  case False
  have no: "(if length tp > 5 then deepSysEqual tp else Some False) = Some False"
    "(if length tp > 7 then deepEqual tp else Some False) = Some False"
    using False deep_equal_take [of tp] by auto
  show ?thesis
    by (rule unsub_result_tree [OF assms]) (use False no in \<open>auto simp: tm_Unsubscribe_def place_of_def\<close>)
qed

section \<open>Properties\<close>

lemma mgr_step_spec:
  assumes "wf_tm t"
  shows "\<exists>t'. mgr_step c t = Some t' \<and> wf_tm t' \<and> tm_view t' = mgr_spec c (tm_view t)"
proof (cases c)
  case (Mgr_Subscribe s u)
  show ?thesis
  proof (cases "ValidQos (subQos s)")
    case True
    then obtain t' q e where "tm_Subscribe s (Some u) t = Some (t', q, e)" "sub_result s u t t' q e"
      using tm_Subscribe_result [OF assms] by blast
    then show ?thesis
      using True by (auto simp: Mgr_Subscribe mgr_step_def mgr_spec_def sub_result_def fun_eq_iff split: option.splits)
  next
    case False
    then show ?thesis using assms by (simp add: Mgr_Subscribe mgr_step_def mgr_spec_def tm_Subscribe_def)
  qed
next
  case (Mgr_Unsubscribe tp u)
  obtain t' e where "tm_Unsubscribe tp (Some u) t = Some (t', e)" "unsub_result tp u t t' e"
    using tm_Unsubscribe_result [OF assms] by blast
  then show ?thesis
    by (auto simp: Mgr_Unsubscribe mgr_step_def mgr_spec_def unsub_result_def fun_eq_iff split: option.splits)
qed

lemma mgr_run_spec:
  "wf_tm t \<Longrightarrow> \<exists>t'. mgr_run cs t = Some t' \<and> wf_tm t' \<and> tm_view t' = fold mgr_spec cs (tm_view t)"
proof (induction cs arbitrary: t)
  case Nil
  then show ?case by simp
next
  case (Cons c cs)
  obtain t' where t': "mgr_step c t = Some t'" "wf_tm t'" "tm_view t' = mgr_spec c (tm_view t)"
    using mgr_step_spec [OF Cons.prems] by blast
  show ?case using Cons.IH [OF t'(2)] t' by simp
qed

lemma NewMemProvider_ok [simp]: "wf_tm NewMemProvider" "tm_view (NewMemProvider :: 'u memTopics) = Map.empty"
proof -
  show "wf_tm NewMemProvider" by (simp add: wf_tm_def NewMemProvider_def)
  have "tm_view NewMemProvider (pl, u) = None" for pl and u :: 'u
    by (cases pl) (simp_all add: tm_view_simps NewMemProvider_def snode_at_def)
  then show "tm_view (NewMemProvider :: 'u memTopics) = Map.empty" by (simp add: fun_eq_iff)
qed

text \<open>C2: No sequence of subscribe and unsubscribe calls on the manager panics, and what it leaves is the
  abstract store: a filter under \<open>$sys/\<close> is kept in the system tree and one under \<open>$share/{name}/\<close>
  in the group of its name, both with the QoS only, any other filter in the main tree with all its
  options; an invalid QoS or a malformed filter changes nothing.\<close>

theorem mgr_history:
  "\<exists>t. mgr_run cs NewMemProvider = Some t \<and> wf_tm t \<and> tm_view t = fold mgr_spec cs Map.empty"
  using mgr_run_spec [OF NewMemProvider_ok(1), of cs] by simp

text \<open>A subscription with a valid QoS is granted that QoS exactly where its filter has a place, and
  is answered with the failure code and an error otherwise.\<close>

theorem tm_Subscribe_granted:
  assumes "wf_tm t" "ValidQos (subQos s)"
  shows "\<exists>t' q e. tm_Subscribe s (Some u) t = Some (t', q, e) \<and> wf_tm t' \<and>
    (e = None \<longleftrightarrow> place_of (subTopic s) \<noteq> None) \<and> q = (if e = None then subQos s else QosFailure)"
  using tm_Subscribe_result [OF assms, of u] unfolding sub_result_def by blast

text \<open>C20: An unsubscription succeeds exactly where the client is subscribed under that filter, and
  removes that one subscription.\<close>

theorem tm_Unsubscribe_exact:
  assumes "wf_tm t"
  shows "\<exists>t' e. tm_Unsubscribe tp (Some u) t = Some (t', e) \<and> wf_tm t' \<and>
    (e = None \<longleftrightarrow> (\<exists>pl. place_of tp = Some pl \<and> tm_view t (pl, u) \<noteq> None)) \<and>
    tm_view t' = (case place_of tp of None \<Rightarrow> tm_view t | Some pl \<Rightarrow> (tm_view t)((pl, u) := None))"
  using tm_Unsubscribe_result [OF assms, of tp u] by (auto simp: unsub_result_def fun_eq_iff split: option.splits)

text \<open>C12: Subscribers of a client publication that asks for one share name and the other subscribers
  too: the call succeeds and returns one member of every group of that name whose filter matches, and
  every subscriber of the main tree whose filter matches, each with the smaller of the two QoS levels.\<close>

theorem tm_Subscribers_client:
  assumes "wf_tm t" "ValidQos qos" "intn_ok intn" "topic_path tp = Inr (ls, tr)" "name \<noteq> []"
  shows "\<exists>us ss ps gs r'. tm_Subscribers intn tp qos False name False t (a, r) = Some (((us, ss), r'), None) \<and>
    length us = length ss \<and>
    mset (zip us ss) = mset ps +
      {# (u, grant qos s). (p, u, s) \<in># filter_mset (\<lambda>(p, u, s). filter_matches p ls tr) (mset (entries (tm_sroot t))) #} \<and>
    mset gs = {# g. (p, k, g) \<in># filter_mset (\<lambda>(p, k, g). filter_matches p ls tr \<and> eligible name (k, g))
      (mset (groups (tm_share t))) #} \<and>
    list_all2 (chosen qos) ps gs"
proof -
  have wf: "wf_snode (tm_sroot t)" "wf_sh (tm_share t)" using assms(1) by (simp_all add: wf_tm_def)
  have nd: "\<not> (length tp > 0 \<and> tp ! 0 = 36)"
  proof
    assume "length tp > 0 \<and> tp ! 0 = 36"
    then obtain x where "tp = 36 # x" by (cases tp) auto
    then have "path_of tp = None" using dollar_path by simp
    then show False using assms(4) by (simp add: path_of_def)
  qed
  obtain acc' where sh: "sh_match intn tp name qos (tm_share t) ([], r) = (acc', None)"
    and dr: "drawn (chosen qos) (live name (filter (\<lambda>e. filter_matches (fst e) ls tr) (groups (tm_share t)))) ([], r) acc'"
    using sh_match_drawn(1) [OF assms(3) wf(2) assms(4), of name qos "([], r)"] by blast
  obtain ps r' where acc': "acc' = (ps, r')" by (cases acc')
  have ok: "acc_ok (map fst ps, map snd ps)" "acc_mset (map fst ps, map snd ps) = mset ps"
    by (simp_all add: acc_ok_def acc_mset_def zip_map_fst_snd)
  obtain us ss where sm: "smatch tp qos (tm_sroot t) (map fst ps, map snd ps) = ((us, ss), None)"
    "length us = length ss" "mset (zip us ss) = mset ps +
      delivered qos (filter (\<lambda>e. filter_matches (fst e) ls tr) (entries (tm_sroot t)))"
    using smatch_correct(1) [OF wf(1) ok(1) assms(4), of qos] ok(2)
    by (force simp: acc_ok_def acc_mset_def)
  have call: "tm_Subscribers intn tp qos False name False t (a, r) = Some (((us, ss), r'), None)"
    using assms(2,5) nd by (simp add: tm_Subscribers_def share_Subscribers_def sh acc' sm(1) Let_def)
  have g: "filter (\<lambda>e. eligible name (snd e)) (filter (\<lambda>e. filter_matches (fst e) ls tr) (groups (tm_share t))) =
      filter (\<lambda>(p, k, g). filter_matches p ls tr \<and> eligible name (k, g)) (groups (tm_share t))"
    by (auto intro: filter_cong)
  obtain gs where gs: "mset gs = {# g. (p, k, g) \<in># filter_mset (\<lambda>(p, k, g). filter_matches p ls tr \<and> eligible name (k, g))
      (mset (groups (tm_share t))) #}" "list_all2 (chosen qos) ps gs"
    using dr by (fastforce simp: drawn_def live_def g acc' split_def simp flip: mset_filter)
  show ?thesis
    using call sm(2,3) gs
    by (intro exI [of _ us] exI [of _ ss] exI [of _ ps] exI [of _ gs] exI [of _ r'])
       (simp add: delivered_def split_def flip: mset_filter)
qed

text \<open>Retaining a message that can be sent, under a topic that had no retained message, stores it in the
  database first and reports no error; the subscriptions are untouched, and every filter that matches
  the topic is then answered with a copy of the same topic, flags and payload.\<close>

theorem tm_Retain_found:
  assumes "wf_tm t" "retainable g n" "payload n \<noteq> []" "db_store (topic n) n d = (d', None)"
    "topic_path (topic n) = Inr (p, tr)" "fst (content (tm_rroot t) p) = None"
    "topic_path f = Inr (ls, tr')" "ret_matches ls p"
  shows "\<exists>t' msg' ms x. tm_Retain db_store db_clear g n t d = Some (t', d', g, msg', None) \<and>
    wf_tm t' \<and> tm_view t' = tm_view t \<and> tm_Retained f [] t' = (ms, None) \<and> x \<in> set ms \<and>
    topic x = topic n \<and> payload x = payload n \<and> mtypeflags x = mtypeflags n"
proof -
  have wf: "wf_rnode (tm_rroot t)" using assms(1) by (simp add: wf_tm_def)
  obtain r' msg' ms x where r: "rinsert (topic n) g n (tm_rroot t) = Some (r', g, msg', None)" "wf_rnode r'"
    "rmatch f r' [] = (ms, None)" "x \<in> set ms"
    "topic x = topic n" "payload x = payload n" "mtypeflags x = mtypeflags n"
    using retain_then_match [OF wf assms(2,5,6,7,8)] by blast
  have "tm_view (t\<lparr>tm_rroot := r'\<rparr>) = tm_view t" by (simp add: fun_eq_iff tm_view_def split: place.split)
  then show ?thesis
    using assms(1,3,4) r by (auto simp: tm_Retain_def tm_Retained_def wf_tm_def)
qed

text \<open>A failing database call leaves the trees as they were and its error is returned; a message
  without payload that the database accepts removes the retained message of its topic.\<close>

theorem tm_Retain_clears:
  assumes "wf_tm t" "payload n = []" "topic_path (topic n) = Inr (p, tr)"
  shows "case db_clear (topic n) d of
     (d', Some e) \<Rightarrow> tm_Retain db_store db_clear g n t d = Some (t, d', g, n, Some e)
   | (d', None) \<Rightarrow> \<exists>t' e. tm_Retain db_store db_clear g n t d = Some (t', d', g, n, e) \<and> wf_tm t' \<and>
       tm_view t' = tm_view t \<and> fst (content (tm_rroot t') p) = None"
proof -
  have wf: "wf_rnode (tm_rroot t)" using assms(1) by (simp add: wf_tm_def)
  have r: "wf_rnode (fst (rremove (topic n) (tm_rroot t)))" "fst (content (fst (rremove (topic n) (tm_rroot t))) p) = None"
    using rremove_correct [OF wf assms(3)] by blast+
  have "tm_view (t\<lparr>tm_rroot := r'\<rparr>) = tm_view t" for r' by (simp add: fun_eq_iff tm_view_def split: place.split)
  then show ?thesis
    using assms(1,2) r by (auto simp: tm_Retain_def wf_tm_def split: prod.splits option.splits)
qed

section \<open>Witnesses\<close>

definition demo_mgr :: "nat memTopics" where
  "demo_mgr = NewMemProvider\<lparr>tm_sroot := demo_tree, tm_share := demo_share\<rparr>"

lemma demo_mgr_ok: "wf_tm demo_mgr"
proof -
  have "wf_snode demo_tree" "wf_sh demo_share" by code_simp+
  then show ?thesis by (simp add: wf_tm_def demo_mgr_def NewMemProvider_def)
qed

definition demo_filter :: sub where
  "demo_filter = mk_sub [36, 115, 104, 97, 114, 101, 47, 103, 47, 97] (1, False, False, 0, 0)"

lemma demo_place: "place_of (subTopic demo_filter) = Some (InShare [103] [[97]])"
  by code_simp

theorem tm_Subscribe_granted_witness:
  "\<exists>t' q e. tm_Subscribe demo_filter (Some 4) demo_mgr = Some (t', q, e) \<and> wf_tm t' \<and>
    (e = None \<longleftrightarrow> place_of (subTopic demo_filter) \<noteq> None) \<and> q = (if e = None then subQos demo_filter else QosFailure)"
  by (rule tm_Subscribe_granted [OF demo_mgr_ok]) (simp add: demo_filter_def ValidQos_def qos_defs)

theorem tm_Unsubscribe_exact_witness:
  "\<exists>t' e. tm_Unsubscribe [97, 47, 43] (Some 1) demo_mgr = Some (t', e) \<and> wf_tm t' \<and>
    (e = None \<longleftrightarrow> (\<exists>pl. place_of [97, 47, 43] = Some pl \<and> tm_view demo_mgr (pl, 1) \<noteq> None)) \<and>
    tm_view t' = (case place_of [97, 47, 43] of None \<Rightarrow> tm_view demo_mgr | Some pl \<Rightarrow> (tm_view demo_mgr)((pl, 1) := None))"
  by (rule tm_Unsubscribe_exact [OF demo_mgr_ok])

theorem tm_Subscribers_client_witness:
  "\<exists>us ss ps gs r'. tm_Subscribers last_draw [97, 47, 98] 1 False [103] False demo_mgr (([], []), ()) =
      Some (((us, ss), r'), None) \<and>
    length us = length ss \<and>
    mset (zip us ss) = mset ps +
      {# (u, grant 1 s). (p, u, s) \<in># filter_mset (\<lambda>(p, u, s). filter_matches p [[97], [98]] False)
          (mset (entries (tm_sroot demo_mgr))) #} \<and>
    mset gs = {# g. (p, k, g) \<in># filter_mset (\<lambda>(p, k, g). filter_matches p [[97], [98]] False \<and> eligible [103] (k, g))
      (mset (groups (tm_share demo_mgr))) #} \<and>
    list_all2 (chosen 1) ps gs"
  by (rule tm_Subscribers_client [OF demo_mgr_ok _ last_draw_ok demo_paths(1)]) (simp_all add: ValidQos_def qos_defs)

definition list_store :: "bytes \<Rightarrow> publish \<Rightarrow> (bytes \<times> publish) list \<Rightarrow> (bytes \<times> publish) list \<times> goerr option" where
  "list_store k m d = (AList.update k m d, None)"

definition list_clear :: "bytes \<Rightarrow> (bytes \<times> publish) list \<Rightarrow> (bytes \<times> publish) list \<times> goerr option" where
  "list_clear k d = (AList.delete k d, None)"

theorem tm_Retain_found_witness:
  "\<exists>t' msg' ms x. tm_Retain list_store list_clear 5 demo_pub demo_mgr [] =
      Some (t', [(topic demo_pub, demo_pub)], 5, msg', None) \<and>
    wf_tm t' \<and> tm_view t' = tm_view demo_mgr \<and> tm_Retained [43, 47, 35] [] t' = (ms, None) \<and> x \<in> set ms \<and>
    topic x = topic demo_pub \<and> payload x = payload demo_pub \<and> mtypeflags x = mtypeflags demo_pub"
proof (rule tm_Retain_found [OF demo_mgr_ok demo_pub_retainable])
  show "topic_path (topic demo_pub) = Inr ([[97], [98]], False)" using demo_paths(1) by (simp add: demo_pub_eq)
  show "topic_path [43, 47, 35] = Inr ([SWC, MWC], False)" by (rule demo_paths)
qed (simp_all add: demo_pub_eq list_store_def demo_mgr_def NewMemProvider_def MWC_def SWC_def)

definition demo_clear :: publish where "demo_clear = demo_pub\<lparr>payload := []\<rparr>"

theorem tm_Retain_clears_witness:
  "case list_clear (topic demo_clear) [] of
     (d', Some e) \<Rightarrow> tm_Retain list_store list_clear 5 demo_clear demo_mgr [] = Some (demo_mgr, d', 5, demo_clear, Some e)
   | (d', None) \<Rightarrow> \<exists>t' e. tm_Retain list_store list_clear 5 demo_clear demo_mgr [] = Some (t', d', 5, demo_clear, e) \<and>
       wf_tm t' \<and> tm_view t' = tm_view demo_mgr \<and> fst (content (tm_rroot t') [[97], [98]]) = None"
proof (rule tm_Retain_clears [OF demo_mgr_ok])
  show "topic_path (topic demo_clear) = Inr ([[97], [98]], False)"
    using demo_paths(1) by (simp add: demo_clear_def demo_pub_eq)
qed (simp add: demo_clear_def)

text \<open>A server message on a proper prefix of \<open>$sys/\<close> reads beyond the end of the topic.\<close>

lemma sys_prefix_panics: "tm_Subscribers intn [36, 115] 0 True name only t acc = None"
  by (simp add: tm_Subscribers_def ValidQos_def qos_defs deepSysEqual_def sysByte_def)

end
