(* ===== verification/NodeMap.thy ===== *)
theory NodeMap
  imports SubStore
begin

text \<open>
  The map from topics to cluster nodes of \<open>corev5/v2/topics/topic_map_node/tmn.go\<close>: a topic node
  keeps, by share name, the cluster nodes that have subscribers of the group, each with the number
  of its subscribers as its weight. A match draws one cluster node per share name, by weight. The
  random source \<open>fastrand.Uint32n\<close> is a parameter with its state.
\<close>

section \<open>State\<close>

record nodeWeight =
  nw_node :: bytes
  wright :: u32

datatype tmnode = TmNode (tn_tmn: "(bytes \<times> nodeWeight list) list") (tn_kids: "(bytes \<times> tmnode) list")

definition newTmNode :: tmnode where "newTmNode = TmNode [] []"

definition newNodeWeight :: "bytes \<Rightarrow> u32 \<Rightarrow> nodeWeight" where
  "newNodeWeight n w = \<lparr>nw_node = n, wright = w\<rparr>"

section \<open>Operations\<close>

definition add_weight :: "bytes \<Rightarrow> u32 \<Rightarrow> nodeWeight list \<Rightarrow> nodeWeight list" where
  "add_weight node num v =
     (case find_index node (map nw_node v) of
        Some i \<Rightarrow> v[i := (v ! i)\<lparr>wright := wright (v ! i) + num\<rparr>]
      | None \<Rightarrow> v @ [newNodeWeight node num])"

function tn_insert :: "bytes \<Rightarrow> bytes \<Rightarrow> bytes \<Rightarrow> u32 \<Rightarrow> tmnode \<Rightarrow> tmnode \<times> goerr option" where
  "tn_insert tp sn node num (TmNode tmn kids) =
     (if tp = [] then
        (TmNode (AList.update sn (add_weight node num (case map_of tmn sn of None \<Rightarrow> [] | Some v \<Rightarrow> v)) tmn) kids, None)
      else case nextTopicLevel tp of
        Inl e \<Rightarrow> (TmNode tmn kids, Some e)
      | Inr (level, rem) \<Rightarrow>
          (let n = (case map_of kids level of Some n \<Rightarrow> n | None \<Rightarrow> newTmNode);
               r = tn_insert (case rem of None \<Rightarrow> [] | Some r \<Rightarrow> r) sn node num n
           in (TmNode tmn (AList.update level (fst r) kids), snd r)))"
  by pat_completeness auto
termination
  by (relation "measure (\<lambda>(tp, sn, node, num, t). length tp)")
     (auto dest: nextTopicLevel_shorter split: option.splits)

text \<open>The weight is decremented modulo \<open>2 ^ 32\<close>; a group that becomes empty stays in the map.\<close>

definition drop_weight :: "bytes \<Rightarrow> nodeWeight list \<Rightarrow> nodeWeight list option" where
  "drop_weight node v =
     (case find_index node (map nw_node v) of
        None \<Rightarrow> None
      | Some i \<Rightarrow>
          (let w = wright (v ! i) - 1 in
           Some (if w = 0 then remove_at i v else v[i := (v ! i)\<lparr>wright := w\<rparr>])))"

function tn_remove :: "bytes \<Rightarrow> bytes \<Rightarrow> bytes \<Rightarrow> tmnode \<Rightarrow> tmnode \<times> goerr option" where
  "tn_remove tp sn node (TmNode tmn kids) =
     (if tp = [] then
        (if sn = [] then (TmNode [] kids, None)
         else case map_of tmn sn of
           None \<Rightarrow> (TmNode tmn kids, Some (Errorf ''memtopics/remove: No topic found for sharename''))
         | Some v \<Rightarrow>
             (case drop_weight node v of
                None \<Rightarrow> (TmNode tmn kids, Some (Errorf ''memtopics/remove: No topic found for sharename''))
              | Some v' \<Rightarrow> (TmNode (AList.update sn v' tmn) kids, None)))
      else case nextTopicLevel tp of
        Inl e \<Rightarrow> (TmNode tmn kids, Some e)
      | Inr (level, rem) \<Rightarrow>
          (case map_of kids level of
             None \<Rightarrow> (TmNode tmn kids, Some (Errorf ''memtopics/remove: No topic found''))
           | Some n \<Rightarrow>
               (case tn_remove (case rem of None \<Rightarrow> [] | Some r \<Rightarrow> r) sn node n of
                  (n', Some e) \<Rightarrow> (TmNode tmn (AList.update level n' kids), Some e)
                | (n', None) \<Rightarrow>
                    (if tn_tmn n' = [] \<and> tn_kids n' = [] then (TmNode tmn (AList.delete level kids), None)
                     else (TmNode tmn (AList.update level n' kids), None)))))"
  by pat_completeness auto
termination
  by (relation "measure (\<lambda>(tp, sn, node, t). length tp)")
     (auto dest: nextTopicLevel_shorter split: option.splits)

declare tn_insert.simps [simp del] tn_remove.simps [simp del]

text \<open>The walk over the weights of a group with the number drawn.\<close>

fun weigh :: "int \<Rightarrow> nodeWeight list \<Rightarrow> bytes option" where
  "weigh rn [] = None"
| "weigh rn (v # vs) =
     (if rn - int (unat (wright v)) > 0 then weigh (rn - int (unat (wright v))) vs else Some (nw_node v))"

definition group_weight :: "nodeWeight list \<Rightarrow> u32" where
  "group_weight nd = sum_list (map wright nd)"

type_synonym node_picks = "(bytes \<times> bytes) list"

definition draw_node :: "('r \<Rightarrow> u32 \<Rightarrow> u32 \<times> 'r) \<Rightarrow> bytes \<times> nodeWeight list \<Rightarrow> node_picks \<times> 'r \<Rightarrow> node_picks \<times> 'r" where
  "draw_node uint32n sg acc =
     (let (x, r') = uint32n (snd acc) (group_weight (snd sg)) in
      case weigh (int (unat x) + 1) (snd sg) of
        None \<Rightarrow> (fst acc, r')
      | Some node \<Rightarrow> (fst acc @ [(fst sg, node)], r'))"

function matchNode :: "('r \<Rightarrow> u32 \<Rightarrow> u32 \<times> 'r) \<Rightarrow> tmnode \<Rightarrow> node_picks \<times> 'r \<Rightarrow> node_picks \<times> 'r" where
  "matchNode uint32n (TmNode tmn kids) acc =
     (let acc' = fold (draw_node uint32n) tmn acc in
      case map_of kids MWC of None \<Rightarrow> acc' | Some v \<Rightarrow> matchNode uint32n v acc')"
  by pat_completeness auto
termination
  by (relation "measure (\<lambda>(u, t, acc). size t)")
     (auto dest!: map_of_SomeD intro: size_list_estimation' simp: less_Suc_eq_le)

fun tn_match :: "('r \<Rightarrow> u32 \<Rightarrow> u32 \<times> 'r) \<Rightarrow> bytes \<Rightarrow> tmnode \<Rightarrow> node_picks \<times> 'r \<Rightarrow> (node_picks \<times> 'r) \<times> goerr option"
  and tn_match_kids :: "('r \<Rightarrow> u32 \<Rightarrow> u32 \<times> 'r) \<Rightarrow> bytes \<Rightarrow> bytes option \<Rightarrow> (bytes \<times> tmnode) list \<Rightarrow>
      node_picks \<times> 'r \<Rightarrow> (node_picks \<times> 'r) \<times> goerr option" where
  "tn_match uint32n tp (TmNode tmn kids) acc =
     (if tp = [] then (matchNode uint32n (TmNode tmn kids) acc, None)
      else case nextTopicLevel tp of
        Inl e \<Rightarrow> (acc, Some e)
      | Inr (level, rem) \<Rightarrow> tn_match_kids uint32n level rem kids acc)"
| "tn_match_kids uint32n level rem [] acc = (acc, None)"
| "tn_match_kids uint32n level rem ((k, n) # ks) acc =
     (if k = MWC then tn_match_kids uint32n level rem ks (matchNode uint32n n acc)
      else if k = SWC \<or> k = level then
        (case tn_match uint32n (case rem of None \<Rightarrow> [] | Some r \<Rightarrow> r) n acc of
           (acc', Some e) \<Rightarrow> (acc', Some e)
         | (acc', None) \<Rightarrow> tn_match_kids uint32n level rem ks acc')
      else tn_match_kids uint32n level rem ks acc)"

section \<open>The weighted draw\<close>

definition total_weight :: "nodeWeight list \<Rightarrow> nat" where
  "total_weight nd = sum_list (map (\<lambda>v. unat (wright v)) nd)"

definition weight_of :: "bytes \<Rightarrow> nodeWeight list \<Rightarrow> nat" where
  "weight_of n nd = sum_list (map (\<lambda>v. unat (wright v)) (filter (\<lambda>v. nw_node v = n) nd))"

lemma unat_group_weight: "total_weight nd < 2 ^ 32 \<Longrightarrow> unat (group_weight nd) = total_weight nd"
proof (induction nd)
  case Nil
  then show ?case by (simp add: group_weight_def total_weight_def)
next
  case (Cons v nd)
  then have "total_weight nd < 2 ^ 32" by (simp add: total_weight_def)
  then have "unat (group_weight nd) = total_weight nd" by (rule Cons.IH)
  then show ?case
    using Cons.prems by (simp add: group_weight_def total_weight_def unat_word_ariths)
qed

text \<open>The draws that choose one node: as many as its weight.\<close>

lemma weigh_total: "0 < rn \<Longrightarrow> rn \<le> int (total_weight nd) \<Longrightarrow> \<exists>n. weigh rn nd = Some n"
  by (induction rn nd rule: weigh.induct) (auto simp: total_weight_def)

lemma weigh_beyond: "rn > int (total_weight nd) \<Longrightarrow> weigh rn nd = None"
  by (induction rn nd rule: weigh.induct) (auto simp: total_weight_def)

lemma weigh_node: "weigh rn nd = Some n \<Longrightarrow> 0 < rn \<Longrightarrow> \<exists>v\<in>set nd. nw_node v = n \<and> 0 < unat (wright v)"
  by (induction rn nd rule: weigh.induct) (auto simp del: of_nat_unat split: if_splits)

lemma card_shift: "card {x::nat. w \<le> x \<and> x < w + m \<and> P (x - w)} = card {x. x < m \<and> P x}"
proof (rule bij_betw_same_card [where f = "\<lambda>x. x - w"], rule bij_betw_byWitness [where f' = "\<lambda>x. x + w"])
  show "(\<lambda>x. x - w) ` {x. w \<le> x \<and> x < w + m \<and> P (x - w)} \<subseteq> {x. x < m \<and> P x}" by auto
  show "(\<lambda>x. x + w) ` {x. x < m \<and> P x} \<subseteq> {x. w \<le> x \<and> x < w + m \<and> P (x - w)}" by auto
qed auto

lemma weigh_count:
  "card {x. x < total_weight nd \<and> weigh (int x + 1) nd = Some n} = weight_of n nd"
proof (induction nd)
  case Nil
  then show ?case by (simp add: total_weight_def weight_of_def)
next
  case (Cons v nd)
  let ?w = "unat (wright v)"
  have t: "total_weight (v # nd) = ?w + total_weight nd" by (simp add: total_weight_def)
  have s: "weigh (int x + 1) (v # nd) = (if x < ?w then Some (nw_node v) else weigh (int (x - ?w) + 1) nd)" for x
    by (auto simp del: of_nat_unat simp: algebra_simps of_nat_diff not_less)
  have "{x. x < total_weight (v # nd) \<and> weigh (int x + 1) (v # nd) = Some n} =
      {x. x < ?w \<and> nw_node v = n} \<union>
      {x. ?w \<le> x \<and> x < ?w + total_weight nd \<and> weigh (int (x - ?w) + 1) nd = Some n}"
    unfolding s t by (auto split: if_splits)
  also have "card \<dots> = card {x. x < ?w \<and> nw_node v = n} +
      card {x. ?w \<le> x \<and> x < ?w + total_weight nd \<and> weigh (int (x - ?w) + 1) nd = Some n}"
    by (rule card_Un_disjoint) (auto intro: finite_subset [of _ "{..<?w + total_weight nd}"])
  also have "card {x. ?w \<le> x \<and> x < ?w + total_weight nd \<and> weigh (int (x - ?w) + 1) nd = Some n} = weight_of n nd"
    using Cons card_shift [of ?w "total_weight nd" "\<lambda>y. weigh (int y + 1) nd = Some n"] by simp
  finally show ?case by (auto simp: weight_of_def)
qed

section \<open>Well-formedness and contents\<close>

definition wf_group :: "nodeWeight list \<Rightarrow> bool" where
  "wf_group v \<longleftrightarrow> distinct (map nw_node v)"

fun wf_tn :: "tmnode \<Rightarrow> bool" where
  "wf_tn (TmNode tmn kids) \<longleftrightarrow>
     distinct (map fst tmn) \<and> list_all (\<lambda>(k, v). wf_group v) tmn \<and>
     distinct (map fst kids) \<and> list_all (\<lambda>(k, n). wf_tn n) kids"

fun node_tmn :: "tmnode \<Rightarrow> bytes list \<Rightarrow> (bytes \<times> nodeWeight list) list" where
  "node_tmn (TmNode tmn kids) [] = tmn"
| "node_tmn (TmNode tmn kids) (k # p) = (case map_of kids k of None \<Rightarrow> [] | Some n \<Rightarrow> node_tmn n p)"

definition group_in :: "(bytes \<times> nodeWeight list) list \<Rightarrow> bytes \<Rightarrow> nodeWeight list" where
  "group_in tmn sn = (case map_of tmn sn of None \<Rightarrow> [] | Some v \<Rightarrow> v)"

definition tn_at :: "tmnode \<Rightarrow> bytes \<times> bytes list \<Rightarrow> nodeWeight list" where
  "tn_at t k = group_in (node_tmn t (snd k)) (fst k)"

fun tn_groups :: "tmnode \<Rightarrow> (bytes list \<times> bytes \<times> nodeWeight list) list" where
  "tn_groups (TmNode tmn kids) =
     map (\<lambda>x. ([], x)) tmn @ concat (map (\<lambda>(k, n). map (\<lambda>(p, x). (k # p, x)) (tn_groups n)) kids)"

lemma newTmNode_simps [simp]: "wf_tn newTmNode" "tn_at newTmNode k = []"
proof -
  show "wf_tn newTmNode" by (simp add: newTmNode_def)
  have "node_tmn newTmNode p = []" for p by (cases p) (simp_all add: newTmNode_def)
  then show "tn_at newTmNode k = []" by (simp add: tn_at_def group_in_def)
qed

lemma wf_tnkidD: "wf_tn (TmNode tmn kids) \<Longrightarrow> map_of kids k = Some n \<Longrightarrow> wf_tn n"
  by (auto simp: list_all_iff dest: map_of_SomeD)

lemma wf_group_in: "wf_tn (TmNode tmn kids) \<Longrightarrow> wf_group (group_in tmn sn)"
  by (auto simp: group_in_def list_all_iff wf_group_def dest: map_of_SomeD split: option.splits)

lemma wf_tn_update:
  "wf_tn (TmNode tmn kids) \<Longrightarrow> wf_group v \<Longrightarrow> wf_tn (TmNode (AList.update sn v tmn) kids)"
  "wf_tn (TmNode tmn kids) \<Longrightarrow> wf_tn n \<Longrightarrow> wf_tn (TmNode tmn (AList.update k n kids))"
  "wf_tn (TmNode tmn kids) \<Longrightarrow> wf_tn (TmNode tmn (AList.delete k kids))"
  by (auto simp: alist_simps list_all_iff set_AList_update set_AList_delete)

lemma tn_at_node:
  "tn_at (TmNode tmn kids) (x, p) =
     (case p of [] \<Rightarrow> group_in tmn x
      | k # q \<Rightarrow> (case map_of kids k of None \<Rightarrow> [] | Some n \<Rightarrow> tn_at n (x, q)))"
  by (cases p) (auto simp: tn_at_def group_in_def split: option.splits)

lemma group_in_update: "group_in (AList.update sn v tmn) x = (if x = sn then v else group_in tmn x)"
  by (simp add: group_in_def map_of_update_AList)

lemma node_names_update: "map nw_node (v[i := (v ! i)\<lparr>wright := w\<rparr>]) = map nw_node v"
  by (cases "i < length v") (simp_all add: map_update list_update_same_conv list_update_beyond)

lemma add_weight_wf: "wf_group v \<Longrightarrow> wf_group (add_weight node num v)"
  by (auto simp: add_weight_def wf_group_def node_names_update newNodeWeight_def find_index_None split: option.splits)

lemma drop_weight_wf: "wf_group v \<Longrightarrow> drop_weight node v = Some v' \<Longrightarrow> wf_group v'"
  by (auto simp: drop_weight_def wf_group_def node_names_update Let_def remove_at_def take_map drop_map
      dest: distinct_remove_at [of "map nw_node v", unfolded remove_at_def] split: option.splits if_splits)

section \<open>Registration and removal\<close>

lemma tn_insert_correct:
  "wf_tn t \<Longrightarrow>
     wf_tn (fst (tn_insert tp sn node num t)) \<and>
     (case topic_path tp of
        Inl e \<Rightarrow> snd (tn_insert tp sn node num t) = Some e \<and> tn_at (fst (tn_insert tp sn node num t)) = tn_at t
      | Inr (p, tr) \<Rightarrow> snd (tn_insert tp sn node num t) = None \<and>
          tn_at (fst (tn_insert tp sn node num t)) = (tn_at t)((sn, p) := add_weight node num (tn_at t (sn, p))))"
proof (induction tp sn node num t rule: tn_insert.induct)
  case (1 tp sn node num tmn kids)
  show ?case
  proof (cases "tp = []")
    case True
    have "tn_insert tp sn node num (TmNode tmn kids) =
        (TmNode (AList.update sn (add_weight node num (group_in tmn sn)) tmn) kids, None)"
      by (simp add: True tn_insert.simps group_in_def)
    then show ?thesis
      using True wf_tn_update(1) [OF 1(2) add_weight_wf [OF wf_group_in [OF 1(2)]]]
      by (auto simp: fun_eq_iff tn_at_node group_in_update split: list.splits)
  next
    case ne: False
    show ?thesis
    proof (cases "nextTopicLevel tp")
      case (Inl e)
      then show ?thesis using 1(2) ne by (simp add: tn_insert.simps topic_path_error [OF ne])
    next
      case (Inr lr)
      obtain l rem where lr: "lr = (l, rem)" by (cases lr)
      define n where "n = (case map_of kids l of Some n \<Rightarrow> n | None \<Rightarrow> newTmNode)"
      define tp' where "tp' = (case rem of None \<Rightarrow> [] | Some r \<Rightarrow> r)"
      have wfn: "wf_tn n" using wf_tnkidD [OF 1(2)] by (simp add: n_def split: option.splits)
      note IH = 1(1) [OF ne Inr lr [symmetric] n_def wfn, folded tp'_def]
      have here: "tn_insert tp sn node num (TmNode tmn kids) =
          (TmNode tmn (AList.update l (fst (tn_insert tp' sn node num n)) kids), snd (tn_insert tp' sn node num n))"
        using ne Inr by (subst tn_insert.simps) (simp add: lr n_def tp'_def Let_def)
      have tp: "topic_path tp =
          (case topic_path tp' of Inl e \<Rightarrow> Inl e | Inr (ls, tr) \<Rightarrow> Inr (l # ls, tr \<and> rem \<noteq> None))"
        using topic_path_step [OF ne, of l rem] Inr lr by (simp add: tp'_def)
      have at_n: "tn_at (TmNode tmn kids) (x, l # q) = tn_at n (x, q)" for x q
        by (simp add: tn_at_node n_def split: option.splits)
      define n' where "n' = fst (tn_insert tp' sn node num n)"
      have at': "tn_at (TmNode tmn (AList.update l n' kids)) (x, p) =
          (case p of [] \<Rightarrow> group_in tmn x
           | k # q \<Rightarrow> if k = l then tn_at n' (x, q) else tn_at (TmNode tmn kids) (x, p))" for x p
        by (auto simp: tn_at_node map_of_update_AList split: list.splits)
      have w: "wf_tn (TmNode tmn (AList.update l n' kids))"
        by (rule wf_tn_update(2) [OF 1(2)]) (use IH in \<open>simp add: n'_def\<close>)
      show ?thesis
      proof (cases "topic_path tp'")
        case (Inl e)
        then have "snd (tn_insert tp' sn node num n) = Some e" "tn_at n' = tn_at n" using IH by (simp_all add: n'_def)
        then show ?thesis
          using w Inl at_n by (auto simp: here tp n'_def [symmetric] fun_eq_iff at' tn_at_node [of tmn kids _ "[]"] split: list.splits)
      next
        case (Inr pt)
        obtain p tr where pt: "pt = (p, tr)" by (cases pt)
        have h: "snd (tn_insert tp' sn node num n) = None"
          "tn_at n' = (tn_at n)((sn, p) := add_weight node num (tn_at n (sn, p)))"
          using IH Inr by (simp_all add: n'_def pt)
        have "tn_at (TmNode tmn (AList.update l n' kids)) =
            (tn_at (TmNode tmn kids))((sn, l # p) := add_weight node num (tn_at n (sn, p)))"
          using at_n by (auto simp: fun_eq_iff at' h(2) tn_at_node [of tmn kids _ "[]"] split: list.splits)
        then show ?thesis
          using w Inr h(1) at_n by (simp add: here tp n'_def [symmetric] pt)
      qed
    qed
  qed
qed

definition tn_removed :: "bytes \<Rightarrow> bytes \<Rightarrow> bytes \<Rightarrow> tmnode \<Rightarrow> tmnode \<Rightarrow> goerr option \<Rightarrow> bool" where
  "tn_removed tp sn node t t' r \<longleftrightarrow>
     wf_tn t' \<and> (r \<noteq> None \<longrightarrow> t' = t) \<and>
     (case topic_path tp of
        Inl e \<Rightarrow> r \<noteq> None
      | Inr (p, tr) \<Rightarrow>
          (if sn = [] then tn_at t' = (\<lambda>k. if snd k = p then [] else tn_at t k)
           else case drop_weight node (tn_at t (sn, p)) of
             None \<Rightarrow> r \<noteq> None
           | Some v \<Rightarrow> r = None \<and> tn_at t' = (tn_at t)((sn, p) := v)))"

lemma tn_removed_here:
  assumes wf: "wf_tn (TmNode tmn kids)"
  shows "tn_removed [] sn node (TmNode tmn kids) (fst (tn_remove [] sn node (TmNode tmn kids)))
     (snd (tn_remove [] sn node (TmNode tmn kids)))"
proof -
  have none: "drop_weight node [] = None" by (simp add: drop_weight_def)
  show ?thesis
  proof (cases "sn = []")
    case True
    have "tn_remove [] sn node (TmNode tmn kids) = (TmNode [] kids, None)" using True by (simp add: tn_remove.simps)
    then show ?thesis
      using wf True by (auto simp: tn_removed_def fun_eq_iff tn_at_node group_in_def split: list.splits)
  next
    case False
    have eq: "tn_remove [] sn node (TmNode tmn kids) =
        (case drop_weight node (group_in tmn sn) of
           None \<Rightarrow> (TmNode tmn kids, Some (Errorf ''memtopics/remove: No topic found for sharename''))
         | Some v \<Rightarrow> (TmNode (AList.update sn v tmn) kids, None))"
      using False by (simp add: tn_remove.simps group_in_def none split: option.splits)
    show ?thesis
    proof (cases "drop_weight node (group_in tmn sn)")
      case None
      then show ?thesis using wf False by (simp add: tn_removed_def eq tn_at_node)
    next
      case (Some v)
      have "wf_tn (TmNode (AList.update sn v tmn) kids)"
        by (rule wf_tn_update(1) [OF wf drop_weight_wf [OF wf_group_in [OF wf] Some]])
      moreover have "tn_at (TmNode (AList.update sn v tmn) kids) = (tn_at (TmNode tmn kids))((sn, []) := v)"
        by (auto simp: fun_eq_iff tn_at_node group_in_update split: list.splits)
      ultimately show ?thesis using False Some by (simp add: tn_removed_def eq tn_at_node [of _ _ _ "[]"])
    qed
  qed
qed

lemma tn_remove_step:
  "tp \<noteq> [] \<Longrightarrow> nextTopicLevel tp = Inr (l, rem) \<Longrightarrow> map_of kids l = Some n \<Longrightarrow>
     tn_remove tp sn node (TmNode tmn kids) =
       (case tn_remove (case rem of None \<Rightarrow> [] | Some r \<Rightarrow> r) sn node n of
          (n', Some e) \<Rightarrow> (TmNode tmn (AList.update l n' kids), Some e)
        | (n', None) \<Rightarrow>
            (if tn_tmn n' = [] \<and> tn_kids n' = [] then (TmNode tmn (AList.delete l kids), None)
             else (TmNode tmn (AList.update l n' kids), None)))"
  by (subst tn_remove.simps) simp

lemma tn_remove_fails:
  "tp \<noteq> [] \<Longrightarrow> nextTopicLevel tp = Inl e \<Longrightarrow> tn_remove tp sn node (TmNode tmn kids) = (TmNode tmn kids, Some e)"
  "tp \<noteq> [] \<Longrightarrow> nextTopicLevel tp = Inr (l, rem) \<Longrightarrow> map_of kids l = None \<Longrightarrow>
     tn_remove tp sn node (TmNode tmn kids) = (TmNode tmn kids, Some (Errorf ''memtopics/remove: No topic found''))"
  by (subst tn_remove.simps, simp)+

lemma tn_leaf: "tn_tmn n = [] \<Longrightarrow> tn_kids n = [] \<Longrightarrow> tn_at n k = []"
  by (cases n; cases k) (auto simp: tn_at_node group_in_def split: list.splits)

lemma tn_removed_step:
  assumes wf: "wf_tn (TmNode tmn kids)" and ne: "tp \<noteq> []"
    and l: "nextTopicLevel tp = Inr (l, rem)" and n: "map_of kids l = Some n"
    and IH: "tn_removed (case rem of None \<Rightarrow> [] | Some r \<Rightarrow> r) sn node n n' r"
    and sr: "tn_remove (case rem of None \<Rightarrow> [] | Some r \<Rightarrow> r) sn node n = (n', r)"
  shows "tn_removed tp sn node (TmNode tmn kids) (fst (tn_remove tp sn node (TmNode tmn kids)))
           (snd (tn_remove tp sn node (TmNode tmn kids)))"
proof -
  define tp' where "tp' = (case rem of None \<Rightarrow> [] | Some r \<Rightarrow> r)"
  define kids' where "kids' =
     (if r = None \<and> tn_tmn n' = [] \<and> tn_kids n' = [] then AList.delete l kids else AList.update l n' kids)"
  have eq: "tn_remove tp sn node (TmNode tmn kids) = (TmNode tmn kids', r)"
    by (simp add: tn_remove_step [OF ne l n] sr kids'_def split: option.splits)
  have tp: "topic_path tp =
      (case topic_path tp' of Inl e \<Rightarrow> Inl e | Inr (ls, tr) \<Rightarrow> Inr (l # ls, tr \<and> rem \<noteq> None))"
    using topic_path_step [OF ne l] by (simp add: tp'_def)
  have at': "tn_at (TmNode tmn kids') (x, p) =
      (case p of [] \<Rightarrow> group_in tmn x
       | k # q \<Rightarrow> if k = l then tn_at n' (x, q) else tn_at (TmNode tmn kids) (x, p))" for x p
    by (auto simp: tn_at_node kids'_def map_of_update_AList map_of_delete_AList tn_leaf split: list.splits)
  have at_n: "tn_at (TmNode tmn kids) (x, l # q) = tn_at n (x, q)" for x q by (simp add: tn_at_node n)
  have at_0: "tn_at (TmNode tmn kids) (x, []) = group_in tmn x" for x by (simp add: tn_at_node)
  have w: "wf_tn (TmNode tmn kids')"
    using wf_tn_update(2,3) [OF wf] IH by (simp only: tn_removed_def kids'_def split: if_split) blast
  have same: "TmNode tmn kids' = TmNode tmn kids" if "r \<noteq> None"
    using IH that n by (auto simp: tn_removed_def kids'_def update_triv)
  show ?thesis
  proof (cases "topic_path tp'")
    case (Inl e)
    then show ?thesis using IH w same by (simp add: tn_removed_def eq tp tp'_def [symmetric])
  next
    case (Inr ls)
    obtain p tr where ls: "ls = (p, tr)" by (cases ls)
    have ih: "if sn = [] then tn_at n' = (\<lambda>k. if snd k = p then [] else tn_at n k)
        else case drop_weight node (tn_at n (sn, p)) of None \<Rightarrow> r \<noteq> None
          | Some v \<Rightarrow> r = None \<and> tn_at n' = (tn_at n)((sn, p) := v)"
      using IH Inr by (simp add: tn_removed_def ls tp'_def)
    have "if sn = [] then tn_at (TmNode tmn kids') = (\<lambda>k. if snd k = l # p then [] else tn_at (TmNode tmn kids) k)
        else case drop_weight node (tn_at n (sn, p)) of None \<Rightarrow> r \<noteq> None
          | Some v \<Rightarrow> r = None \<and> tn_at (TmNode tmn kids') = (tn_at (TmNode tmn kids))((sn, l # p) := v)"
      using ih by (auto simp: fun_eq_iff at' at_n at_0 split: list.splits option.splits)
    then show ?thesis using w same Inr by (simp add: tn_removed_def eq tp ls at_n)
  qed
qed

lemma tn_remove_correct:
  "wf_tn t \<Longrightarrow> tn_removed tp sn node t (fst (tn_remove tp sn node t)) (snd (tn_remove tp sn node t))"
proof (induction tp sn node t rule: tn_remove.induct)
  case (1 tp sn node tmn kids)
  show ?case
  proof (cases "tp = []")
    case True
    then show ?thesis using tn_removed_here 1(2) by simp
  next
    case ne: False
    show ?thesis
    proof (cases "nextTopicLevel tp")
      case (Inl e)
      then show ?thesis using 1(2) ne by (simp add: tn_removed_def tn_remove_fails topic_path_error)
    next
      case (Inr lr)
      obtain l rem where lr: "nextTopicLevel tp = Inr (l, rem)" using Inr by (cases lr) simp
      show ?thesis
      proof (cases "map_of kids l")
        case None
        then have "tn_at (TmNode tmn kids) (x, l # q) = []" for x q by (simp add: tn_at_node)
        then show ?thesis
          using 1(2) topic_path_step [OF ne lr]
          by (auto simp: tn_removed_def tn_remove_fails(2) [OF ne lr None] fun_eq_iff drop_weight_def split: sum.splits)
      next
        case (Some n)
        show ?thesis
          by (rule tn_removed_step [OF 1(2) ne lr Some 1(1) [OF ne lr refl Some wf_tnkidD [OF 1(2) Some]]]) simp
      qed
    qed
  qed
qed

section \<open>The weights as a map\<close>

datatype node_op = Node_Subscribe bytes bytes bytes u32 | Node_Unsubscribe bytes bytes bytes

definition node_step :: "node_op \<Rightarrow> tmnode \<Rightarrow> tmnode" where
  "node_step c t =
     (case c of
        Node_Subscribe tp sn node num \<Rightarrow> fst (tn_insert tp sn node num t)
      | Node_Unsubscribe tp sn node \<Rightarrow> fst (tn_remove tp sn node t))"

definition node_spec :: "node_op \<Rightarrow> (bytes \<times> bytes list \<times> bytes \<Rightarrow> u32 option) \<Rightarrow>
    (bytes \<times> bytes list \<times> bytes \<Rightarrow> u32 option)" where
  "node_spec c m =
     (case c of
        Node_Subscribe tp sn node num \<Rightarrow>
          (case path_of tp of
             None \<Rightarrow> m
           | Some p \<Rightarrow> m((sn, p, node) \<mapsto> (case m (sn, p, node) of None \<Rightarrow> num | Some w \<Rightarrow> w + num)))
      | Node_Unsubscribe tp sn node \<Rightarrow>
          (case path_of tp of
             None \<Rightarrow> m
           | Some p \<Rightarrow>
               (if sn = [] then (\<lambda>k. if fst (snd k) = p then None else m k)
                else case m (sn, p, node) of
                  None \<Rightarrow> m
                | Some w \<Rightarrow> m((sn, p, node) := if w - 1 = 0 then None else Some (w - 1)))))"

definition weights :: "nodeWeight list \<Rightarrow> (bytes \<times> u32) list" where
  "weights v = map (\<lambda>w. (nw_node w, wright w)) v"

definition node_view :: "tmnode \<Rightarrow> bytes \<times> bytes list \<times> bytes \<Rightarrow> u32 option" where
  "node_view t k = map_of (weights (tn_at t (fst k, fst (snd k)))) (snd (snd k))"

lemma weights_find:
  "map_of (weights v) node =
     (case find_index node (map nw_node v) of None \<Rightarrow> None | Some i \<Rightarrow> Some (wright (v ! i)))"
  by (induction v) (auto simp: weights_def split: option.splits)

lemma map_of_weights_update:
  "wf_group v \<Longrightarrow> find_index node (map nw_node v) = Some i \<Longrightarrow>
     map_of (weights (v[i := (v ! i)\<lparr>wright := w\<rparr>])) = (map_of (weights v))(node \<mapsto> w)"
proof (induction v arbitrary: i)
  case Nil
  then show ?case by simp
next
  case (Cons x v)
  then show ?case by (auto simp: weights_def wf_group_def fun_eq_iff split: if_splits nat.splits)
qed

lemma map_of_weights_remove:
  "wf_group v \<Longrightarrow> find_index node (map nw_node v) = Some i \<Longrightarrow>
     map_of (weights (remove_at i v)) = (map_of (weights v))(node := None)"
proof (induction v arbitrary: i)
  case Nil
  then show ?case by simp
next
  case (Cons x v)
  have n: "map_of (weights v) (nw_node x) = None"
    using Cons.prems(1) by (simp add: weights_find wf_group_def)
  show ?case
    using Cons n by (auto simp: weights_def wf_group_def fun_eq_iff split: if_splits)
qed

lemma weights_add:
  assumes "wf_group v"
  shows "map_of (weights (add_weight node num v)) =
    (map_of (weights v))(node \<mapsto> (case map_of (weights v) node of None \<Rightarrow> num | Some w \<Rightarrow> w + num))"
proof (cases "find_index node (map nw_node v)")
  case None
  then have "map_of (weights v) node = None" by (simp add: weights_find)
  then show ?thesis
    using None by (auto simp: add_weight_def weights_def newNodeWeight_def fun_eq_iff map_add_def split: option.splits)
next
  case (Some i)
  then show ?thesis
    using map_of_weights_update [OF assms Some] by (simp add: add_weight_def weights_find)
qed

lemma weights_drop:
  assumes "wf_group v"
  shows "case map_of (weights v) node of
     None \<Rightarrow> drop_weight node v = None
   | Some w \<Rightarrow> \<exists>v'. drop_weight node v = Some v' \<and>
       map_of (weights v') = (map_of (weights v))(node := if w - 1 = 0 then None else Some (w - 1))"
proof (cases "find_index node (map nw_node v)")
  case None
  then show ?thesis by (simp add: weights_find drop_weight_def)
next
  case (Some i)
  then show ?thesis
    using map_of_weights_update [OF assms Some] map_of_weights_remove [OF assms Some]
    by (simp add: drop_weight_def weights_find Let_def)
qed

lemma tn_at_wf: "wf_tn t \<Longrightarrow> wf_group (tn_at t (x, p))"
proof (induction p arbitrary: t)
  case Nil
  then show ?case by (cases t) (auto simp: tn_at_node simp del: wf_tn.simps intro: wf_group_in)
next
  case (Cons k p)
  obtain tmn kids where t: "t = TmNode tmn kids" by (cases t)
  show ?case
    using Cons.IH wf_tnkidD Cons.prems by (auto simp: t tn_at_node wf_group_def [of "[]"] split: option.splits)
qed

lemma node_step_refines:
  assumes "wf_tn t"
  shows "wf_tn (node_step c t) \<and> node_view (node_step c t) = node_spec c (node_view t)"
proof (cases c)
  case (Node_Subscribe tp sn node num)
  note ins = tn_insert_correct [OF assms, of tp sn node num]
  show ?thesis
  proof (cases "topic_path tp")
    case (Inl e)
    then show ?thesis
      using ins by (simp add: Node_Subscribe node_step_def node_spec_def node_view_def path_of_def fun_eq_iff)
  next
    case (Inr pt)
    obtain p tr where pt: "pt = (p, tr)" by (cases pt)
    show ?thesis
      using ins Inr pt weights_add [OF tn_at_wf [OF assms, of sn p], of node num]
      by (auto simp: Node_Subscribe node_step_def node_spec_def node_view_def path_of_def fun_eq_iff)
  qed
next
  case (Node_Unsubscribe tp sn node)
  note del = tn_remove_correct [OF assms, of tp sn node, unfolded tn_removed_def]
  show ?thesis
  proof (cases "topic_path tp")
    case (Inl e)
    then show ?thesis
      using del by (auto simp: Node_Unsubscribe node_step_def node_spec_def path_of_def)
  next
    case (Inr pt)
    obtain p tr where pt: "pt = (p, tr)" by (cases pt)
    have empty: "map_of (weights []) n = None" for n by (simp add: weights_def)
    show ?thesis
    proof (cases "sn = []")
      case True
      then show ?thesis
        using del Inr pt empty
        by (auto simp: Node_Unsubscribe node_step_def node_spec_def node_view_def path_of_def fun_eq_iff)
    next
      case False
      show ?thesis
        using del Inr pt False weights_drop [OF tn_at_wf [OF assms, of sn p], of node]
        by (auto simp: Node_Unsubscribe node_step_def node_spec_def node_view_def path_of_def fun_eq_iff split: option.splits)
    qed
  qed
qed

section \<open>Matching\<close>

definition uint32n_ok :: "('r \<Rightarrow> u32 \<Rightarrow> u32 \<times> 'r) \<Rightarrow> bool" where
  "uint32n_ok uint32n \<longleftrightarrow> (\<forall>r n. 0 < n \<longrightarrow> fst (uint32n r n) < n)"

definition node_chosen :: "bytes \<times> bytes \<Rightarrow> bytes \<times> nodeWeight list \<Rightarrow> bool" where
  "node_chosen x g \<longleftrightarrow> fst x = fst g \<and> (\<exists>v\<in>set (snd g). nw_node v = snd x \<and> 0 < wright v)"

text \<open>A group takes part where it has a subscriber.\<close>

definition loaded :: "bytes \<times> nodeWeight list \<Rightarrow> (bytes \<times> nodeWeight list) list" where
  "loaded g = (if total_weight (snd g) = 0 then [] else [g])"

text \<open>The sums of weights of the source do not wrap.\<close>

definition no_overflow :: "tmnode \<Rightarrow> bool" where
  "no_overflow t \<longleftrightarrow> list_all (\<lambda>(p, sn, nd). total_weight nd < 2 ^ 32) (tn_groups t)"

lemma draw_node_drawn:
  assumes "uint32n_ok uint32n" "total_weight (snd g) < 2 ^ 32"
  shows "drawn node_chosen (mset (loaded g)) acc (draw_node uint32n g acc)"
proof -
  obtain x r where x: "uint32n (snd acc) (group_weight (snd g)) = (x, r)"
    by (cases "uint32n (snd acc) (group_weight (snd g))")
  show ?thesis
  proof (cases "total_weight (snd g) = 0")
    case True
    then have "weigh (int (unat x) + 1) (snd g) = None" by (intro weigh_beyond) simp
    then show ?thesis
      using True by (simp add: draw_node_def x loaded_def drawn_def)
  next
    case False
    have "0 < group_weight (snd g)"
      using False unat_group_weight [OF assms(2)] by (metis unat_0 word_gt_0)
    then have "x < group_weight (snd g)" using assms(1) x unfolding uint32n_ok_def by (metis fst_conv)
    then have lt: "unat x < total_weight (snd g)"
      using unat_group_weight [OF assms(2)] by (simp add: word_less_nat_alt)
    then obtain n where n: "weigh (int (unat x) + 1) (snd g) = Some n"
      using weigh_total [of "int (unat x) + 1" "snd g"] by (auto simp del: of_nat_unat)
    have "node_chosen (fst g, n) g"
      using weigh_node [OF n] by (auto simp: node_chosen_def word_less_nat_alt simp del: of_nat_unat)
    then show ?thesis
      using False n x drawn_one [of node_chosen "(fst g, n)" g acc r]
      by (simp add: draw_node_def loaded_def del: of_nat_unat)
  qed
qed

lemma draw_nodes_drawn:
  assumes "uint32n_ok uint32n"
  shows "list_all (\<lambda>(sn, nd). total_weight nd < 2 ^ 32) tmn \<Longrightarrow>
    drawn node_chosen (gather loaded (map (\<lambda>x. ([] :: bytes list, x)) tmn)) acc (fold (draw_node uint32n) tmn acc)"
proof (induction tmn arbitrary: acc)
  case Nil
  then show ?case by (simp add: drawn_refl)
next
  case (Cons g tmn)
  have "drawn node_chosen (mset (loaded g) + gather loaded (map (\<lambda>x. ([] :: bytes list, x)) tmn)) acc
      (fold (draw_node uint32n) tmn (draw_node uint32n g acc))"
    using Cons by (intro drawn_trans [OF draw_node_drawn [OF assms]]) auto
  then show ?case by simp
qed

fun node_matches :: "bytes list \<Rightarrow> bytes list \<Rightarrow> bool" where
  "node_matches p [] \<longleftrightarrow> list_all (\<lambda>k. k = MWC) p"
| "node_matches [] (l # ls) \<longleftrightarrow> False"
| "node_matches (k # p) (l # ls) \<longleftrightarrow>
     (if k = MWC then list_all (\<lambda>k. k = MWC) p else (k = SWC \<or> k = l) \<and> node_matches p ls)"

lemma no_overflow_simps:
  "no_overflow (TmNode tmn kids) \<longleftrightarrow>
     list_all (\<lambda>(sn, nd). total_weight nd < 2 ^ 32) tmn \<and> list_all (\<lambda>(k, n). no_overflow n) kids"
  by (simp add: no_overflow_def list_all_iff split_def ball_Un)

lemma matchNode_drawn:
  "uint32n_ok uint32n \<Longrightarrow> wf_tn t \<Longrightarrow> no_overflow t \<Longrightarrow>
     drawn node_chosen (gather loaded (filter (\<lambda>e. node_matches (fst e) []) (tn_groups t))) acc
       (matchNode uint32n t acc)"
proof (induction uint32n t acc rule: matchNode.induct)
  case (1 uint32n tmn kids acc)
  have here: "drawn node_chosen (gather loaded (map (\<lambda>x. ([] :: bytes list, x)) tmn)) acc (fold (draw_node uint32n) tmn acc)"
    using draw_nodes_drawn [OF 1(2)] 1(4) by (simp add: no_overflow_simps)
  have "gather loaded (filter (\<lambda>e. node_matches (fst e) []) (tn_groups (TmNode tmn kids))) =
      gather loaded (map (\<lambda>x. ([] :: bytes list, x)) tmn) +
      sum_list (map (\<lambda>(k, n). gather loaded (filter (\<lambda>e. node_matches (k # fst e) []) (tn_groups n))) kids)"
    using gather_kids [of loaded "\<lambda>p. node_matches p []" tn_groups kids] by (simp add: filter_map o_def)
  also have "sum_list (map (\<lambda>(k, n). gather loaded (filter (\<lambda>e. node_matches (k # fst e) []) (tn_groups n))) kids) =
      (case map_of kids MWC of None \<Rightarrow> {#} | Some n \<Rightarrow> gather loaded (filter (\<lambda>e. node_matches (fst e) []) (tn_groups n)))"
  proof -
    have d: "distinct (map fst kids)" using 1(3) by simp
    have "(\<lambda>(k, n). gather loaded (filter (\<lambda>e. node_matches (k # fst e) []) (tn_groups n))) =
        (\<lambda>(k, n). if MWC = k then gather loaded (filter (\<lambda>e. node_matches (fst e) []) (tn_groups n)) else {#})"
      by (auto simp: fun_eq_iff)
    then show ?thesis by (simp only: sum_one_key [OF d])
  qed
  finally have g: "gather loaded (filter (\<lambda>e. node_matches (fst e) []) (tn_groups (TmNode tmn kids))) =
      gather loaded (map (\<lambda>x. ([] :: bytes list, x)) tmn) +
      (case map_of kids MWC of None \<Rightarrow> {#} | Some n \<Rightarrow> gather loaded (filter (\<lambda>e. node_matches (fst e) []) (tn_groups n)))" .
  show ?case
  proof (cases "map_of kids MWC")
    case None
    then show ?thesis unfolding g using here by simp
  next
    case (Some n)
    have "wf_tn n" "no_overflow n"
      using wf_tnkidD [OF 1(3) Some] 1(4) map_of_SomeD [OF Some] by (auto simp: no_overflow_simps list_all_iff)
    then show ?thesis
      unfolding g using drawn_trans [OF here 1(1) [OF refl Some 1(2)]] Some by simp
  qed
qed

lemma matchNode_kid:
  "gather loaded (filter (\<lambda>e. node_matches (MWC # fst e) (l # ls)) es) =
     gather loaded (filter (\<lambda>e. node_matches (fst e) []) es)"
  by simp

definition node_hits :: "bytes \<Rightarrow> bytes list \<Rightarrow> bytes \<times> tmnode \<Rightarrow> (bytes \<times> nodeWeight list) multiset" where
  "node_hits l ls kn = gather loaded (filter (\<lambda>e. node_matches (fst kn # fst e) (l # ls)) (tn_groups (snd kn)))"

lemma node_hits_cases:
  "node_hits l ls (k, n) =
     (if k = MWC then gather loaded (filter (\<lambda>e. node_matches (fst e) []) (tn_groups n))
      else if k = SWC \<or> k = l then gather loaded (filter (\<lambda>e. node_matches (fst e) ls) (tn_groups n))
      else {#})"
  by (simp add: node_hits_def)

lemma node_hits_node:
  "gather loaded (filter (\<lambda>e. node_matches (fst e) (l # ls)) (tn_groups (TmNode tmn kids))) =
     sum_list (map (node_hits l ls) kids)"
proof -
  have "node_hits l ls = (\<lambda>(k, n). gather loaded (filter (\<lambda>e. node_matches (k # fst e) (l # ls)) (tn_groups n)))"
    by (simp only: fun_eq_iff node_hits_def split_def) blast
  then show ?thesis
    using gather_kids [of loaded "\<lambda>p. node_matches p (l # ls)" tn_groups kids]
    by (simp add: filter_empty_conv del: node_matches.simps(3))
qed

lemma tn_match_drawn:
  "uint32n_ok uint32n \<Longrightarrow> wf_tn t \<Longrightarrow> no_overflow t \<Longrightarrow> topic_path tp = Inr (ls, tr) \<Longrightarrow>
     \<exists>acc'. tn_match uint32n tp t acc = (acc', None) \<and>
       drawn node_chosen (gather loaded (filter (\<lambda>e. node_matches (fst e) ls) (tn_groups t))) acc acc'"
  "uint32n_ok uint32n \<Longrightarrow> list_all (\<lambda>(k, n). wf_tn n \<and> no_overflow n) kids \<Longrightarrow>
     topic_path (case rem of None \<Rightarrow> [] | Some r \<Rightarrow> r) = Inr (ls, tr) \<Longrightarrow>
     \<exists>acc'. tn_match_kids uint32n level rem kids acc = (acc', None) \<and>
       drawn node_chosen (sum_list (map (node_hits level ls) kids)) acc acc'"
proof (induction uint32n tp t acc and uint32n level rem kids acc arbitrary: ls tr and ls tr
    rule: tn_match_tn_match_kids.induct)
  case (1 uint32n tp tmn kids acc)
  show ?case
  proof (cases "tp = []")
    case True
    then show ?thesis using matchNode_drawn [OF 1(2,3,4)] 1(5) by auto
  next
    case False
    then obtain l rem ls' tr' where l: "nextTopicLevel tp = Inr (l, rem)"
      "topic_path (case rem of None \<Rightarrow> [] | Some r \<Rightarrow> r) = Inr (ls', tr')" "ls = l # ls'"
      using 1(5) topic_path_error [OF False] topic_path_step [OF False]
      by (cases "nextTopicLevel tp") (fastforce split: sum.splits)+
    have w: "list_all (\<lambda>(k, n). wf_tn n \<and> no_overflow n) kids"
      using 1(3,4) by (auto simp: no_overflow_simps list_all_iff)
    show ?thesis
      using 1(1) [OF False l(1) refl 1(2) w l(2)] False node_hits_node [of l ls' tmn kids] by (simp add: l)
  qed
next
  case (2 uint32n level rem acc)
  then show ?case by (simp add: drawn_refl)
next
  case (3 uint32n level rem k n ks acc)
  have n: "wf_tn n" "no_overflow n" and ks: "list_all (\<lambda>(k, n). wf_tn n \<and> no_overflow n) ks"
    using 3(6) by simp_all
  note path = 3(7) and ok = 3(5)
  show ?case
  proof (cases "k = MWC")
    case True
    obtain acc' where "tn_match_kids uint32n level rem ks (matchNode uint32n n acc) = (acc', None)"
      "drawn node_chosen (sum_list (map (node_hits level ls) ks)) (matchNode uint32n n acc) acc'"
      using 3(1) [OF True ok ks path] by blast
    then show ?thesis
      using drawn_trans [OF matchNode_drawn [OF ok n, of acc], of _ acc'] True by (simp add: node_hits_cases)
  next
    case mwc: False
    show ?thesis
    proof (cases "k = SWC \<or> k = level")
      case False
      then show ?thesis using 3(4) [OF mwc False ok ks path] mwc by (simp add: node_hits_cases)
    next
      case hit: True
      obtain acc' where acc': "tn_match uint32n (case rem of None \<Rightarrow> [] | Some r \<Rightarrow> r) n acc = (acc', None)"
        "drawn node_chosen (gather loaded (filter (\<lambda>e. node_matches (fst e) ls) (tn_groups n))) acc acc'"
        using 3(2) [OF mwc hit ok n path] by blast
      obtain acc2 where "tn_match_kids uint32n level rem ks acc' = (acc2, None)"
        "drawn node_chosen (sum_list (map (node_hits level ls) ks)) acc' acc2"
        using 3(3) [OF mwc hit acc'(1) [symmetric] refl ok ks path] by blast
      then show ?thesis
        using drawn_trans [OF acc'(2), of _ acc2] acc'(1) mwc hit by (simp add: node_hits_cases)
    qed
  qed
qed

section \<open>Properties\<close>

text \<open>C24: Registering and unregistering cluster nodes, in any order and with failing calls included,
  counts: for every share name, topic path and cluster node the tree holds the 32-bit sum of the
  registered numbers less the removals since the weight was last 0.\<close>

theorem node_history:
  "wf_tn (fold node_step cs newTmNode) \<and>
   node_view (fold node_step cs newTmNode) = fold node_spec cs Map.empty"
proof -
  have "wf_tn t \<Longrightarrow> wf_tn (fold node_step cs t) \<and> node_view (fold node_step cs t) = fold node_spec cs (node_view t)" for t
    by (induction cs arbitrary: t) (simp_all add: node_step_refines)
  moreover have "node_view newTmNode = Map.empty" by (simp add: node_view_def weights_def fun_eq_iff)
  ultimately show ?thesis using newTmNode_simps(1) by metis
qed

lemma unat_no_wrap: "x < 4294967296 \<Longrightarrow> unat (of_nat x :: u32) = x"
  by (simp add: unat_of_nat)

text \<open>C25: The draw from one group is fair to the weights: out of the numbers below the total weight,
  exactly as many choose a cluster node as it has subscribers.\<close>

theorem weighted_draw_fair:
  assumes "total_weight nd < 2 ^ 32"
  shows "card {x. x < group_weight nd \<and> weigh (int (unat x) + 1) nd = Some n} = weight_of n nd"
proof -
  have "card {x. x < group_weight nd \<and> weigh (int (unat x) + 1) nd = Some n} =
      card {x. x < total_weight nd \<and> weigh (int x + 1) nd = Some n}"
  proof (rule bij_betw_same_card [where f = unat], rule bij_betw_byWitness [where f' = of_nat])
    show "unat ` {x. x < group_weight nd \<and> weigh (int (unat x) + 1) nd = Some n} \<subseteq>
        {x. x < total_weight nd \<and> weigh (int x + 1) nd = Some n}"
      using unat_group_weight [OF assms] by (auto simp: word_less_nat_alt)
    show "of_nat ` {x. x < total_weight nd \<and> weigh (int x + 1) nd = Some n} \<subseteq>
        {x. x < group_weight nd \<and> weigh (int (unat x) + 1) nd = Some n}"
      using unat_group_weight [OF assms] assms by (auto simp: word_less_nat_alt unat_no_wrap simp del: of_nat_unat)
    show "\<forall>x\<in>{x. x < total_weight nd \<and> weigh (int x + 1) nd = Some n}. unat (of_nat x :: u32) = x"
      using assms by (auto simp: unat_no_wrap)
  qed simp
  then show ?thesis by (simp add: weigh_count)
qed

text \<open>Matching a topic draws one cluster node with a subscriber from every group with subscribers
  whose filter matches, and from no other.\<close>

theorem tn_match_one_per_group:
  assumes "uint32n_ok uint32n" "wf_tn t" "no_overflow t" "topic_path tp = Inr (ls, tr)"
  shows "\<exists>us r' gs. tn_match uint32n tp t ([], r) = ((us, r'), None) \<and>
    mset gs = {# g. (p, g) \<in># filter_mset (\<lambda>(p, g). node_matches p ls \<and> total_weight (snd g) > 0) (mset (tn_groups t)) #} \<and>
    list_all2 node_chosen us gs"
proof -
  have "gather loaded (filter (\<lambda>e. node_matches (fst e) ls) es) =
      {# g. (p, g) \<in># filter_mset (\<lambda>(p, g). node_matches p ls \<and> total_weight (snd g) > 0) (mset es) #}" for es
    by (induction es) (auto simp: loaded_def)
  then show ?thesis
    using tn_match_drawn(1) [OF assms, of "([], r)"] by (fastforce simp: drawn_def)
qed

section \<open>Witnesses\<close>

definition demo_nodes :: tmnode where
  "demo_nodes = fold node_step
     [Node_Subscribe [97, 47, 35] [103] [1] 2, Node_Subscribe [97, 47, 35] [103] [2] 1,
      Node_Subscribe [97] [104] [1] 3] newTmNode"

definition zero_draw :: "unit \<Rightarrow> u32 \<Rightarrow> u32 \<times> unit" where "zero_draw r n = (0, r)"

lemma zero_draw_ok: "uint32n_ok zero_draw"
  by (simp add: uint32n_ok_def zero_draw_def)

theorem weighted_draw_fair_witness:
  "card {x. x < group_weight [newNodeWeight [1] 2, newNodeWeight [2] 1] \<and>
     weigh (int (unat x) + 1) [newNodeWeight [1] 2, newNodeWeight [2] 1] = Some [1]} =
   weight_of [1] [newNodeWeight [1] 2, newNodeWeight [2] 1]"
  by (rule weighted_draw_fair) (simp add: total_weight_def newNodeWeight_def)

theorem tn_match_one_per_group_witness:
  "\<exists>us r' gs. tn_match zero_draw [97, 47, 98] demo_nodes ([], ()) = ((us, r'), None) \<and>
    mset gs = {# g. (p, g) \<in># filter_mset (\<lambda>(p, g). node_matches p [[97], [98]] \<and> total_weight (snd g) > 0)
      (mset (tn_groups demo_nodes)) #} \<and>
    list_all2 node_chosen us gs"
proof (rule tn_match_one_per_group [OF zero_draw_ok])
  show "wf_tn demo_nodes" by code_simp
  show "topic_path [97, 47, 98] = Inr ([[97], [98]], False)" by code_simp
  have "tn_groups demo_nodes =
      [([[97]], [104], [newNodeWeight [1] 3]), ([[97], MWC], [103], [newNodeWeight [1] 2, newNodeWeight [2] 1])]"
    by code_simp
  then show "no_overflow demo_nodes" by (simp add: no_overflow_def total_weight_def newNodeWeight_def)
qed

text \<open>The last subscriber of a group leaves an empty group behind, so its topic node is not pruned.\<close>

lemma empty_group_stays:
  "tn_groups (fold node_step [Node_Subscribe [97] [103] [1] 1, Node_Unsubscribe [97] [103] [1]] newTmNode) =
     [([[97]], [103], [])]"
  by code_simp

end
