(* ===== verification/Frame.thy ===== *)
theory Frame
  imports Steps
begin

text \<open>
  What the encoders of the messages have in common: the packet of a clean message is the buffer it
  was decoded from, that of a dirty one is built, framed by the fixed header and written behind it.
  The encoders of a message are instances with its \<open>build\<close> and the writers of its body. The
  locales state what \<open>build\<close> and the writers must do; every message that interprets one of them
  gets the agreement of its encoders and the decoding of its fixed header.
\<close>

section \<open>Messages without a drawn packet identifier\<close>

definition plain_Len ::
    "('a header_scheme \<Rightarrow> 'a header_scheme option) \<Rightarrow> 'a header_scheme \<Rightarrow> ('a header_scheme \<times> nat) option" where
  "plain_Len build m =
     (if \<not> dirty m then Some (m, slen (dbuf m))
      else case build m of
        None \<Rightarrow> None
      | Some m1 \<Rightarrow>
          (case SetRemainingLength (remlen m1) m1 of
             (m2, Some e) \<Rightarrow> Some (m2, 0)
           | (m2, None) \<Rightarrow> Some (m2, hmsglen m2 + unat (remlen m1))))"

text \<open>The two error texts are those for a buffer too small for a clean and for a dirty message.\<close>

definition plain_Encode ::
    "string \<Rightarrow> string \<Rightarrow> ('a header_scheme \<Rightarrow> 'a header_scheme option) \<Rightarrow>
     ('a header_scheme \<Rightarrow> bytes \<Rightarrow> nat \<Rightarrow> bytes outcome) \<Rightarrow>
     'a header_scheme \<Rightarrow> bytes \<Rightarrow> 'a header_scheme \<times> bytes outcome" where
  "plain_Encode e1 e2 build rest m dst =
     (if \<not> dirty m then
        (m, if length dst < slen (dbuf m) then Fail dst 0 (Errorf e1) else w_copy (vis (dbuf m)) dst 0)
      else case build m of
        None \<Rightarrow> (m, Panic)
      | Some m1 \<Rightarrow>
        (if length dst < hmsglen m1 + unat (remlen m1) then (m1, Fail dst 0 (Errorf e2))
         else case SetRemainingLength (remlen m1) m1 of
           (m2, Some e) \<Rightarrow> (m2, Fail dst 0 e)
         | (m2, None) \<Rightarrow>
           (case hencode m2 dst 0 of
              (m3, Ret d t) \<Rightarrow> (m3, rest m3 d t)
            | (m3, r) \<Rightarrow> (m3, r))))"

definition plain_EncodeToBuf ::
    "('a header_scheme \<Rightarrow> 'a header_scheme option) \<Rightarrow> ('a header_scheme \<Rightarrow> bytes \<Rightarrow> nat \<Rightarrow> bytes outcome) \<Rightarrow>
     'a header_scheme \<Rightarrow> bytes \<Rightarrow> 'a header_scheme \<times> bytes outcome" where
  "plain_EncodeToBuf build rest m buf =
     (if \<not> dirty m then (m, Ret (buf @ vis (dbuf m)) (slen (dbuf m)))
      else case build m of
        None \<Rightarrow> (m, Panic)
      | Some m1 \<Rightarrow>
        (case SetRemainingLength (remlen m1) m1 of
           (m2, Some e) \<Rightarrow> (m2, Fail buf 0 e)
         | (m2, None) \<Rightarrow>
           (case hencodeToBuf m2 buf of
              (m3, Ret d t) \<Rightarrow> (m3, rest m3 d t)
            | (m3, Fail d t e) \<Rightarrow> (m3, Fail d (int (length d)) e)
            | (m3, Panic) \<Rightarrow> (m3, Panic))))"

section \<open>Messages with a drawn packet identifier\<close>

definition drawn_Encode ::
    "string \<Rightarrow> string \<Rightarrow> ('a header_scheme \<Rightarrow> 'a header_scheme option) \<Rightarrow>
     ('a header_scheme \<Rightarrow> bytes \<Rightarrow> nat \<Rightarrow> bytes outcome) \<Rightarrow>
     u64 \<Rightarrow> 'a header_scheme \<Rightarrow> bytes \<Rightarrow> u64 \<times> 'a header_scheme \<times> bytes outcome" where
  "drawn_Encode e1 e2 build rest g m dst =
     (if \<not> dirty m then
        (g, m, if length dst < slen (dbuf m) then Fail dst 0 (Errorf e1) else w_copy (vis (dbuf m)) dst 0)
      else case build m of
        None \<Rightarrow> (g, m, Panic)
      | Some m1 \<Rightarrow>
        (if length dst < hmsglen m1 + unat (remlen m1) then (g, m1, Fail dst 0 (Errorf e2))
         else case SetRemainingLength (remlen m1) m1 of
           (m2, Some e) \<Rightarrow> (g, m2, Fail dst 0 e)
         | (m2, None) \<Rightarrow>
           (case hencode m2 dst 0 of
              (m3, Ret d t) \<Rightarrow> (let (g', m4) = draw_id g m3 in (g', m4, rest m4 d t))
            | (m3, r) \<Rightarrow> (g, m3, r))))"

definition drawn_EncodeToBuf ::
    "('a header_scheme \<Rightarrow> 'a header_scheme option) \<Rightarrow> ('a header_scheme \<Rightarrow> bytes \<Rightarrow> nat \<Rightarrow> bytes outcome) \<Rightarrow>
     u64 \<Rightarrow> 'a header_scheme \<Rightarrow> bytes \<Rightarrow> u64 \<times> 'a header_scheme \<times> bytes outcome" where
  "drawn_EncodeToBuf build rest g m buf =
     (if \<not> dirty m then (g, m, Ret (buf @ vis (dbuf m)) (slen (dbuf m)))
      else case build m of
        None \<Rightarrow> (g, m, Panic)
      | Some m1 \<Rightarrow>
        (case SetRemainingLength (remlen m1) m1 of
           (m2, Some e) \<Rightarrow> (g, m2, Fail buf 0 e)
         | (m2, None) \<Rightarrow>
           (case hencodeToBuf m2 buf of
              (m3, Ret d t) \<Rightarrow> (let (g', m4) = draw_id g m3 in (g', m4, rest m4 d t))
            | (m3, Fail d t e) \<Rightarrow> (g, m3, Fail d (int (length d)) e)
            | (m3, Panic) \<Rightarrow> (g, m3, Panic))))"

section \<open>Their contract\<close>

text \<open>What \<open>build\<close> promises: the header of the built message fits the body.\<close>

locale built_packet =
  fixes build :: "'a header_scheme \<Rightarrow> 'a header_scheme option"
    and built :: "'a header_scheme \<Rightarrow> 'a header_scheme"
    and remaining :: "'a header_scheme \<Rightarrow> nat"
    and ok :: "'a header_scheme \<Rightarrow> bool"
  assumes build_built: "ok m \<Longrightarrow> build m = Some (built m)"
    and built_header: "ok m \<Longrightarrow> header_ok (built m)"
    and built_flags: "ok m \<Longrightarrow> flags_ok (built m)"
    and built_dirty: "ok m \<Longrightarrow> dirty (built m)"
    and built_remlen: "ok m \<Longrightarrow> unat (remlen (built m)) = remaining m"
begin

lemma set_again: "ok m \<Longrightarrow> SetRemainingLength (remlen (built m)) (built m) = (built m, None)"
  using built_header [of m] built_dirty [of m]
  by (cases "built m") (simp add: SetRemainingLength_def header_ok_def not_less)

lemma len_built: "ok m \<Longrightarrow> dirty m \<Longrightarrow> plain_Len build m = Some (built m, hmsglen (built m) + remaining m)"
  by (simp add: plain_Len_def build_built set_again built_remlen)

lemma header_decoded:
  fixes m0 :: "'b header_scheme"
  assumes "ok n" "remaining n = length body" "body \<noteq> [] \<or> remlen_optional (mtype (built n))"
    "length (mtypeflags m0) = 1" "mtype m0 = mtype (built n)"
  shows "hdecode (Slice (header_wire (built n) @ body) ex) m0 =
    Ret (m0\<lparr>dbuf := Slice (header_wire (built n) @ body) ex, mtypeflags := mtypeflags (built n),
      remlen := remlen (built n)\<rparr>) (length (header_wire (built n)))"
proof -
  have "remlen (built n) \<noteq> 0" if "body \<noteq> []"
    using built_remlen [OF assms(1)] assms(2) that by auto
  then show ?thesis
    unfolding length_header_wire [OF built_header [OF assms(1)]]
    using assms(2-5)
    by (intro hdecode_wire [OF built_header [OF assms(1)] built_flags [OF assms(1)]])
       (auto simp: built_remlen [OF assms(1)])
qed

end

locale plain_packet = built_packet build built "\<lambda>m. length (body m)" ok
  for build :: "'a header_scheme \<Rightarrow> 'a header_scheme option"
    and built :: "'a header_scheme \<Rightarrow> 'a header_scheme"
    and body :: "'a header_scheme \<Rightarrow> bytes"
    and ok :: "'a header_scheme \<Rightarrow> bool" +
  fixes w b :: "'a header_scheme \<Rightarrow> bytes \<Rightarrow> nat \<Rightarrow> bytes outcome"
  assumes writes: "ok m \<Longrightarrow> emits_w (w (built m)) (body m)" "ok m \<Longrightarrow> emits_b (b (built m)) (body m)"
begin

lemma encoders_agree:
  assumes "dirty m" "ok m" "length (header_wire (built m) @ body m) \<le> length dst"
  shows "plain_Len build m = Some (built m, length (header_wire (built m) @ body m))"
    and "plain_Encode e1 e2 build w m dst =
      (built m, Ret ((header_wire (built m) @ body m) @ drop (length (header_wire (built m) @ body m)) dst)
        (length (header_wire (built m) @ body m)))"
    and "plain_EncodeToBuf build b m buf =
      (built m, Ret (buf @ header_wire (built m) @ body m) (length buf + length (header_wire (built m) @ body m)))"
proof -
  have h: "header_ok (built m)" by (rule built_header [OF assms(2)])
  have l: "length (header_wire (built m)) = hmsglen (built m)" by (rule length_header_wire [OF h])
  have room: "hmsglen (built m) + length (body m) \<le> length dst" using assms(3) l by simp
  note fw = frame_encode [OF h writes(1) [OF assms(2)] room]
  note fb = frame_buf [OF h writes(2) [OF assms(2)], of buf]
  show "plain_Len build m = Some (built m, length (header_wire (built m) @ body m))"
    using assms by (simp add: len_built l)
  show "plain_Encode e1 e2 build w m dst =
      (built m, Ret ((header_wire (built m) @ body m) @ drop (length (header_wire (built m) @ body m)) dst)
        (length (header_wire (built m) @ body m)))"
    unfolding plain_Encode_def using assms(1,2) room
    by (simp only: build_built set_again built_remlen fw not_le [symmetric] option.case prod.case outcome.case if_False simp_thms)
  show "plain_EncodeToBuf build b m buf =
      (built m, Ret (buf @ header_wire (built m) @ body m) (length buf + length (header_wire (built m) @ body m)))"
    unfolding plain_EncodeToBuf_def using assms(1,2)
    by (simp only: build_built set_again fb option.case prod.case outcome.case if_False simp_thms)
qed

end

text \<open>The writers of a message with a packet identifier run after the identifier has been drawn.\<close>

locale drawn_packet = built_packet +
  fixes body :: "'a header_scheme \<Rightarrow> bytes" and w b :: "'a header_scheme \<Rightarrow> bytes \<Rightarrow> nat \<Rightarrow> bytes outcome"
  assumes built_packetId: "PacketId (built m) = PacketId m"
    and drawn: "ok m \<Longrightarrow> length p = 2 \<Longrightarrow> n = (built m)\<lparr>packetId := p\<rparr> \<Longrightarrow>
      remaining m = length (body n) \<and> emits_w (w n) (body n) \<and> emits_b (b n) (body n) \<and>
      header_wire (built n) = header_wire (built m)"
begin

lemma encoders_agree:
  assumes dirty: "dirty m" and ok: "ok m" and id: "pid_ok g m" and n: "draw_id g (built m) = (g', n)"
    and dst: "length (header_wire (built n) @ body n) \<le> length dst"
  shows "plain_Len build m = Some (built m, length (header_wire (built n) @ body n))"
    and "drawn_Encode e1 e2 build w g m dst =
      (g', n, Ret ((header_wire (built n) @ body n) @ drop (length (header_wire (built n) @ body n)) dst)
        (length (header_wire (built n) @ body n)))"
    and "drawn_EncodeToBuf build b g m buf =
      (g', n, Ret (buf @ header_wire (built n) @ body n) (length buf + length (header_wire (built n) @ body n)))"
proof -
  obtain p where p: "length p = 2" "n = (built m)\<lparr>packetId := p\<rparr>"
    using draw_id_dirty [OF built_dirty [OF ok] _ n] id by (auto simp: pid_ok_def built_packetId)
  have d: "remaining m = length (body n)" "emits_w (w n) (body n)" "emits_b (b n) (body n)"
    "header_wire (built n) = header_wire (built m)"
    using drawn [OF ok p] by simp_all
  have h: "header_ok (built m)" by (rule built_header [OF ok])
  have l: "length (header_wire (built m)) = hmsglen (built m)" by (rule length_header_wire [OF h])
  have room: "hmsglen (built m) + length (body n) \<le> length dst" using dst l d(4) by simp
  note fw = frame_encode [OF h d(2) room]
  note fb = frame_buf [OF h d(3), of buf]
  show "plain_Len build m = Some (built m, length (header_wire (built n) @ body n))"
    using dirty ok by (simp add: len_built l d)
  show "drawn_Encode e1 e2 build w g m dst =
      (g', n, Ret ((header_wire (built n) @ body n) @ drop (length (header_wire (built n) @ body n)) dst)
        (length (header_wire (built n) @ body n)))"
    unfolding drawn_Encode_def d(4) using dirty ok room d(1)
    by (simp only: build_built set_again built_remlen fw n not_le [symmetric] option.case prod.case outcome.case
        if_False simp_thms Let_def)
  show "drawn_EncodeToBuf build b g m buf =
      (g', n, Ret (buf @ header_wire (built n) @ body n) (length buf + length (header_wire (built n) @ body n)))"
    unfolding drawn_EncodeToBuf_def d(4) using dirty ok
    by (simp only: build_built set_again fb n option.case prod.case outcome.case if_False simp_thms Let_def)
qed

end

end
