(* ===== verification/Subscribe.thy ===== *)
theory Subscribe
  imports Frame "HOL-Library.Monad_Syntax"
begin

text \<open>
  SUBSCRIBE (\<open>corev5/v2/message/subscribe.go\<close>): the message with its parallel slices of filters
  and subscription options, the operations on them, encoding and decoding. An operation that
  indexes a slice beyond its end panics, which is \<open>None\<close>.
\<close>

section \<open>State\<close>

record subscribe = header +
  propertiesLen :: u32
  subscriptionIdentifier :: u32
  userProperty :: "bytes list"
  topics :: "bytes list"
  qos :: bytes
  noLocal :: bytes
  retainAsPub :: bytes
  retainHandling :: bytes

definition NewSubscribeMessage :: subscribe where
  "NewSubscribeMessage =
     fst (SetType SUBSCRIBE \<lparr>remlen = 0, mtypeflags = [], packetId = [], dbuf = Slice [] [], dirty = False,
       propertiesLen = 0, subscriptionIdentifier = 0, userProperty = [], topics = [], qos = [], noLocal = [],
       retainAsPub = [], retainHandling = []\<rparr>)"

section \<open>Operations\<close>

text \<open>Reading, writing and cutting out an element of a slice.\<close>

definition at_i :: "nat \<Rightarrow> 'a list \<Rightarrow> 'a option" where
  "at_i i xs = (if i < length xs then Some (xs ! i) else None)"

definition set_i :: "nat \<Rightarrow> 'a \<Rightarrow> 'a list \<Rightarrow> 'a list option" where
  "set_i i v xs = (if i < length xs then Some (xs[i := v]) else None)"

definition cut_i :: "nat \<Rightarrow> 'a list \<Rightarrow> 'a list option" where
  "cut_i i xs = (if i < length xs then Some (remove_at i xs) else None)"

definition SetPropertiesLen :: "u32 \<Rightarrow> subscribe \<Rightarrow> subscribe" where
  "SetPropertiesLen v m = m\<lparr>propertiesLen := v, dirty := True\<rparr>"

definition SetSubscriptionIdentifier :: "u32 \<Rightarrow> subscribe \<Rightarrow> subscribe" where
  "SetSubscriptionIdentifier v m = m\<lparr>subscriptionIdentifier := v, dirty := True\<rparr>"

definition SetUserProperties :: "bytes list \<Rightarrow> subscribe \<Rightarrow> subscribe" where
  "SetUserProperties ups m = m\<lparr>userProperty := ups, dirty := True\<rparr>"

definition AddUserPropertys :: "bytes list \<Rightarrow> subscribe \<Rightarrow> subscribe" where
  "AddUserPropertys ups m = m\<lparr>userProperty := userProperty m @ ups, dirty := True\<rparr>"

definition AddUserProperty :: "bytes \<Rightarrow> subscribe \<Rightarrow> subscribe" where
  "AddUserProperty up m = m\<lparr>userProperty := userProperty m @ [up], dirty := True\<rparr>"

definition AddTopic :: "bytes \<Rightarrow> byte \<Rightarrow> subscribe \<Rightarrow> (subscribe \<times> goerr option) option" where
  "AddTopic tp q m =
     (if \<not> ValidQos q then Some (m, Some (Errorf ''Invalid QoS''))
      else case find_index tp (topics m) of
        Some i \<Rightarrow> do { qs \<leftarrow> set_i i q (qos m); Some (m\<lparr>qos := qs\<rparr>, None) }
      | None \<Rightarrow>
          Some (m\<lparr>topics := topics m @ [tp], qos := qos m @ [q], noLocal := noLocal m @ [0],
            retainAsPub := retainAsPub m @ [0], retainHandling := retainHandling m @ [0], dirty := True\<rparr>, None))"

definition flag :: "bool \<Rightarrow> byte" where "flag b = (if b then 1 else 0)"

definition AddTopicAll :: "bytes \<Rightarrow> byte \<Rightarrow> bool \<Rightarrow> bool \<Rightarrow> byte \<Rightarrow> subscribe \<Rightarrow> (subscribe \<times> goerr option) option" where
  "AddTopicAll tp q nl rap rh m =
     (if \<not> ValidQos q then Some (m, Some (Errorf ''Invalid QoS''))
      else if rh > 2 then Some (m, Some (Errorf ''Invalid Sub Option RetainHandling''))
      else case find_index tp (topics m) of
        Some i \<Rightarrow> do { qs \<leftarrow> set_i i q (qos m); Some (m\<lparr>qos := qs\<rparr>, None) }
      | None \<Rightarrow>
          Some (m\<lparr>topics := topics m @ [tp], qos := qos m @ [q], noLocal := noLocal m @ [flag nl],
            retainAsPub := retainAsPub m @ [flag rap], retainHandling := retainHandling m @ [rh], dirty := True\<rparr>, None))"

definition RemoveTopic :: "bytes \<Rightarrow> subscribe \<Rightarrow> subscribe option" where
  "RemoveTopic tp m =
     (case find_index tp (topics m) of
        Some i \<Rightarrow> do {
          qs \<leftarrow> cut_i i (qos m); ns \<leftarrow> cut_i i (noLocal m); rs \<leftarrow> cut_i i (retainAsPub m);
          hs \<leftarrow> cut_i i (retainHandling m);
          Some (m\<lparr>topics := remove_at i (topics m), qos := qs, noLocal := ns, retainAsPub := rs,
            retainHandling := hs, dirty := True\<rparr>) }
      | None \<Rightarrow> Some (m\<lparr>dirty := True\<rparr>))"

definition TopicExists :: "bytes \<Rightarrow> subscribe \<Rightarrow> bool" where
  "TopicExists tp m \<longleftrightarrow> find_index tp (topics m) \<noteq> None"

definition TopicQos :: "bytes \<Rightarrow> subscribe \<Rightarrow> byte option" where
  "TopicQos tp m = (case find_index tp (topics m) of Some i \<Rightarrow> at_i i (qos m) | None \<Rightarrow> Some QosFailure)"

definition TopicNoLocal :: "bytes \<Rightarrow> subscribe \<Rightarrow> bool option" where
  "TopicNoLocal tp m =
     (case find_index tp (topics m) of Some i \<Rightarrow> map_option (\<lambda>b. b > 0) (at_i i (noLocal m)) | None \<Rightarrow> Some False)"

definition SetTopicNoLocal :: "bytes \<Rightarrow> bool \<Rightarrow> subscribe \<Rightarrow> subscribe option" where
  "SetTopicNoLocal tp v m =
     (case find_index tp (topics m) of
        Some i \<Rightarrow> do { ns \<leftarrow> set_i i (flag v) (noLocal m); Some (m\<lparr>noLocal := ns, dirty := True\<rparr>) }
      | None \<Rightarrow> Some m)"

definition TopicRetainAsPublished :: "bytes \<Rightarrow> subscribe \<Rightarrow> bool option" where
  "TopicRetainAsPublished tp m =
     (case find_index tp (topics m) of Some i \<Rightarrow> map_option (\<lambda>b. b > 0) (at_i i (retainAsPub m)) | None \<Rightarrow> Some False)"

definition SetTopicRetainAsPublished :: "bytes \<Rightarrow> bool \<Rightarrow> subscribe \<Rightarrow> subscribe option" where
  "SetTopicRetainAsPublished tp v m =
     (case find_index tp (topics m) of
        Some i \<Rightarrow> do { rs \<leftarrow> set_i i (flag v) (retainAsPub m); Some (m\<lparr>retainAsPub := rs, dirty := True\<rparr>) }
      | None \<Rightarrow> Some m)"

definition CanSendRetain :: byte where "CanSendRetain = 0"

definition TopicRetainHandling :: "bytes \<Rightarrow> subscribe \<Rightarrow> byte option" where
  "TopicRetainHandling tp m =
     (case find_index tp (topics m) of Some i \<Rightarrow> at_i i (retainHandling m) | None \<Rightarrow> Some CanSendRetain)"

definition SetTopicRetainHandling :: "bytes \<Rightarrow> byte \<Rightarrow> subscribe \<Rightarrow> subscribe option" where
  "SetTopicRetainHandling tp v m =
     (case find_index tp (topics m) of
        Some i \<Rightarrow> do { hs \<leftarrow> set_i i v (retainHandling m); Some (m\<lparr>retainHandling := hs, dirty := True\<rparr>) }
      | None \<Rightarrow> Some m)"

text \<open>
  \<open>Clone\<close> fills a new message for every filter, always from index 0, and appends the original
  instead of it; the new messages are not part of the result.
\<close>

definition Clone :: "subscribe \<Rightarrow> subscribe list option" where
  "Clone m =
     (if topics m \<noteq> [] \<and> (qos m = [] \<or> retainHandling m = [] \<or> retainAsPub m = [] \<or> noLocal m = []) then None
      else Some (map (\<lambda>i. m) [0..<length (topics m)]))"

section \<open>Decoding\<close>

definition sub_packetId :: "slice \<Rightarrow> subscribe \<Rightarrow> nat \<Rightarrow> subscribe outcome" where
  "sub_packetId src m t = assign (rd_id src t) (\<lambda>v. packetId_update (\<lambda>_. v)) m t"

definition sub_plen_check :: "slice \<Rightarrow> subscribe \<Rightarrow> nat \<Rightarrow> subscribe outcome" where
  "sub_plen_check src m t =
     (if unat (propertiesLen m) > slen src - t then Fail m (int t) (Reason ProtocolError) else Ret m t)"

definition sub_propertiesLen :: "slice \<Rightarrow> subscribe \<Rightarrow> nat \<Rightarrow> subscribe outcome" where
  "sub_propertiesLen src =
     run [\<lambda>m t. assign (read_lb src t) (\<lambda>v. propertiesLen_update (\<lambda>_. v)) m t, sub_plen_check src]"

text \<open>The test behind the identifier indexes the slice without a look at its length.\<close>

definition sub_id_check :: "slice \<Rightarrow> subscribe \<Rightarrow> nat \<Rightarrow> subscribe outcome" where
  "sub_id_check src m t =
     (if subscriptionIdentifier m = 0 then Fail m (int t) (Reason ProtocolError)
      else case sat src t of
        None \<Rightarrow> Panic
      | Some c \<Rightarrow> if c = DefiningIdentifiers then Fail m (int t) (Reason ProtocolError) else Ret m t)"

definition sub_identifier :: "slice \<Rightarrow> subscribe \<Rightarrow> nat \<Rightarrow> subscribe outcome" where
  "sub_identifier src =
     prop_at src DefiningIdentifiers
       (run [\<lambda>m t. assign (read_lb src t) (\<lambda>v. subscriptionIdentifier_update (\<lambda>_. v)) m t, sub_id_check src])"

definition sub_userProperty :: "slice \<Rightarrow> subscribe \<Rightarrow> nat \<Rightarrow> subscribe outcome" where
  "sub_userProperty src m t = assign (read_up src t) (\<lambda>v. userProperty_update (\<lambda>_. v)) m t"

text \<open>The loop over the payload, with what is left of the remaining length.\<close>

function sub_loop :: "slice \<Rightarrow> subscribe \<Rightarrow> nat \<Rightarrow> int \<Rightarrow> subscribe outcome" where
  "sub_loop src m t left =
     (if left > 0 then
        (case read_lp src t of
           None \<Rightarrow> Panic
         | Some (v, n, Some e) \<Rightarrow> Fail m (int (t + n)) e
         | Some (v, n, None) \<Rightarrow>
             (case sat src (t + n) of
                None \<Rightarrow> Panic
              | Some c \<Rightarrow>
                  (let m1 = m\<lparr>topics := topics m @ [v], qos := qos m @ [c AND 3]\<rparr>;
                       m2 = m1\<lparr>noLocal := noLocal m @ [drop_bit 2 (c AND 4)],
                               retainAsPub := retainAsPub m @ [drop_bit 3 (c AND 8)],
                               retainHandling := retainHandling m @ [drop_bit 4 (c AND 48)]\<rparr>
                   in if c AND 3 = 3 then Fail m1 0 (Reason ProtocolError)
                      else if drop_bit 4 (c AND 48) = 3 then Fail m2 0 (Reason ProtocolError)
                      else if drop_bit 6 c \<noteq> 0 then Fail m2 0 (Reason ProtocolError)
                      else sub_loop src m2 (t + n + 1) (left - int n - 1))))
      else Ret m t)"
  by pat_completeness auto
termination
  by (relation "measure (\<lambda>(src, m, t, left). nat left)") auto

declare sub_loop.simps [simp del]

definition sub_topics :: "nat \<Rightarrow> slice \<Rightarrow> subscribe \<Rightarrow> nat \<Rightarrow> subscribe outcome" where
  "sub_topics hn src m t = sub_loop src m t (int (unat (remlen m)) - (int t - int hn))"

definition sub_done :: "subscribe \<Rightarrow> nat \<Rightarrow> subscribe outcome" where
  "sub_done m t = (if topics m = [] then Fail m 0 (Reason ProtocolError) else Ret (m\<lparr>dirty := False\<rparr>) t)"

definition sub_variable :: "slice \<Rightarrow> subscribe \<Rightarrow> nat \<Rightarrow> subscribe outcome" where
  "sub_variable src = run [sub_packetId src, sub_propertiesLen src, sub_identifier src, sub_userProperty src]"

definition sub_Decode :: "slice \<Rightarrow> subscribe \<Rightarrow> subscribe outcome" where
  "sub_Decode src m =
     (case hdecode src m of
        Ret m1 hn \<Rightarrow> run [sub_variable src, sub_topics hn src, sub_done] m1 hn
      | r \<Rightarrow> r)"

section \<open>Encoding\<close>

definition sub_id_sent :: "subscribe \<Rightarrow> bool" where
  "sub_id_sent m \<longleftrightarrow> subscriptionIdentifier m > 0 \<and> subscriptionIdentifier m \<le> 268435455"

definition sub_build :: "subscribe \<Rightarrow> subscribe option" where
  "sub_build m =
     do { si \<leftarrow> (if sub_id_sent m then map_option (\<lambda>b. 1 + length b) (lbEncode (subscriptionIdentifier m)) else Some 0);
          let tot = 2 + si + buildUserPropertyLen (userProperty m);
          let pl = word_of_nat (tot - 2);
          b \<leftarrow> lbEncode pl;
          Some (fst (SetRemainingLength
            (word_of_nat (tot + length b + sum_list (map (\<lambda>t. 2 + length t + 1) (topics m))))
            (m\<lparr>propertiesLen := pl\<rparr>))) }"

definition sub_Len :: "subscribe \<Rightarrow> (subscribe \<times> nat) option" where
  "sub_Len = plain_Len sub_build"

definition subOp :: "subscribe \<Rightarrow> nat \<Rightarrow> byte option" where
  "subOp m i =
     do { q \<leftarrow> at_i i (qos m); n \<leftarrow> at_i i (noLocal m); r \<leftarrow> at_i i (retainAsPub m); h \<leftarrow> at_i i (retainHandling m);
          Some (0 OR q OR push_bit 2 n OR push_bit 3 r OR push_bit 4 h) }"

definition sub_w_entry :: "subscribe \<Rightarrow> nat \<Rightarrow> bytes \<Rightarrow> nat \<Rightarrow> bytes outcome" where
  "sub_w_entry m i =
     run [writeLPBytes (topics m ! i), case subOp m i of None \<Rightarrow> (\<lambda>dst t. Panic) | Some c \<Rightarrow> w_bytes [c]]"

definition sub_b_entry :: "subscribe \<Rightarrow> nat \<Rightarrow> bytes \<Rightarrow> nat \<Rightarrow> bytes outcome" where
  "sub_b_entry m i =
     run [writeToBufLPBytes (topics m ! i), case subOp m i of None \<Rightarrow> (\<lambda>dst t. Panic) | Some c \<Rightarrow> b_bytes [c]]"

definition sub_encode_rest :: "subscribe \<Rightarrow> bytes \<Rightarrow> nat \<Rightarrow> bytes outcome" where
  "sub_encode_rest m =
     run [w_copy (packetId m), w_lb (propertiesLen m),
          guarded (sub_id_sent m) (run [w_bytes [DefiningIdentifiers], w_lb (subscriptionIdentifier m)]),
          ignore_err (writeUserProperty (userProperty m)),
          run (map (sub_w_entry m) [0..<length (topics m)])]"

definition sub_Encode :: "u64 \<Rightarrow> subscribe \<Rightarrow> bytes \<Rightarrow> u64 \<times> subscribe \<times> bytes outcome" where
  "sub_Encode =
     drawn_Encode ''subscribe/Encode: Insufficient buffer size'' ''subscribe/Encode: Insufficient buffer size''
       sub_build sub_encode_rest"

definition sub_buf_rest :: "subscribe \<Rightarrow> bytes \<Rightarrow> nat \<Rightarrow> bytes outcome" where
  "sub_buf_rest m =
     run [b_bytes (packetId m), b_lb (propertiesLen m),
          guarded (sub_id_sent m) (run [b_bytes [DefiningIdentifiers], b_lb (subscriptionIdentifier m)]),
          writeUserPropertyByBuf (userProperty m),
          run (map (sub_b_entry m) [0..<length (topics m)])]"

definition sub_EncodeToBuf :: "u64 \<Rightarrow> subscribe \<Rightarrow> bytes \<Rightarrow> u64 \<times> subscribe \<times> bytes outcome" where
  "sub_EncodeToBuf = drawn_EncodeToBuf sub_build sub_buf_rest"

section \<open>The packet a message stands for\<close>

definition sub_props :: "subscribe \<Rightarrow> bytes" where
  "sub_props m =
     (if sub_id_sent m then DefiningIdentifiers # lb_wire (unat (subscriptionIdentifier m)) else []) @
     up_wire (userProperty m)"

definition sub_options :: "subscribe \<Rightarrow> nat \<Rightarrow> byte" where
  "sub_options m i =
     qos m ! i OR push_bit 2 (noLocal m ! i) OR push_bit 3 (retainAsPub m ! i) OR push_bit 4 (retainHandling m ! i)"

definition sub_entry :: "subscribe \<Rightarrow> nat \<Rightarrow> bytes" where
  "sub_entry m i = lp_wire (topics m ! i) @ [sub_options m i] @ []"

definition sub_payload :: "subscribe \<Rightarrow> bytes" where
  "sub_payload m = concat (map (sub_entry m) [0..<length (topics m)])"

definition sub_body_wire :: "subscribe \<Rightarrow> bytes" where
  "sub_body_wire m = packetId m @ lb_wire (length (sub_props m)) @ sub_props m @ sub_payload m"

definition sub_remlen :: "subscribe \<Rightarrow> nat" where
  "sub_remlen m =
     2 + length (lb_wire (length (sub_props m))) + length (sub_props m) + length (sub_payload m)"

definition sub_built :: "subscribe \<Rightarrow> subscribe" where
  "sub_built m =
     m\<lparr>propertiesLen := word_of_nat (length (sub_props m)), remlen := word_of_nat (sub_remlen m), dirty := True\<rparr>"

definition sub_wire :: "subscribe \<Rightarrow> bytes" where
  "sub_wire m = header_wire (sub_built m) @ sub_body_wire m"

text \<open>The options of every filter are there.\<close>

definition aligned :: "subscribe \<Rightarrow> bool" where
  "aligned m \<longleftrightarrow>
     length (qos m) = length (topics m) \<and> length (noLocal m) = length (topics m) \<and>
     length (retainAsPub m) = length (topics m) \<and> length (retainHandling m) = length (topics m)"

text \<open>The messages that can be sent: strings of at most 65535 bytes, and a packet within the
  maximum remaining length.\<close>

definition sub_ok :: "subscribe \<Rightarrow> bool" where
  "sub_ok m \<longleftrightarrow>
     length (mtypeflags m) = 1 \<and> mtype m = SUBSCRIBE \<and> flags_ok m \<and> aligned m \<and>
     list_all short (topics m) \<and> list_all short (userProperty m) \<and> sub_remlen m \<le> 268435455"

lemma sub_cong:
  assumes "subscriptionIdentifier m = subscriptionIdentifier n" "userProperty m = userProperty n" "topics m = topics n"
    "qos m = qos n" "noLocal m = noLocal n" "retainAsPub m = retainAsPub n" "retainHandling m = retainHandling n"
  shows "sub_props m = sub_props n" "sub_payload m = sub_payload n" "sub_remlen m = sub_remlen n"
    "sub_id_sent m = sub_id_sent n"
proof -
  show p: "sub_props m = sub_props n" and "sub_id_sent m = sub_id_sent n"
    using assms by (simp_all add: sub_props_def sub_id_sent_def)
  have "sub_entry m = sub_entry n" using assms by (simp add: sub_entry_def sub_options_def fun_eq_iff)
  then show q: "sub_payload m = sub_payload n" using assms by (simp add: sub_payload_def)
  show "sub_remlen m = sub_remlen n" by (simp add: sub_remlen_def p q)
qed

lemma sub_built_frame [simp]:
  "sub_props (sub_built m) = sub_props m" "sub_payload (sub_built m) = sub_payload m"
  "sub_remlen (sub_built m) = sub_remlen m" "sub_id_sent (sub_built m) = sub_id_sent m"
  "mtypeflags (sub_built m) = mtypeflags m" "dirty (sub_built m)" "packetId (sub_built m) = packetId m"
  "PacketId (sub_built m) = PacketId m" "topics (sub_built m) = topics m" "userProperty (sub_built m) = userProperty m"
  "subscriptionIdentifier (sub_built m) = subscriptionIdentifier m"
  "qos (sub_built m) = qos m" "noLocal (sub_built m) = noLocal m" "retainAsPub (sub_built m) = retainAsPub m"
  "retainHandling (sub_built m) = retainHandling m"
  by (rule sub_cong; simp add: sub_built_def)+ (simp_all add: sub_built_def PacketId_def)

lemma subscribe_id_lb:
  "sub_id_sent m \<Longrightarrow> lbEncode (subscriptionIdentifier m) = Some (lb_wire (unat (subscriptionIdentifier m)))"
  by (simp add: sub_id_sent_def lbEncode_spec word_less_nat_alt word_le_nat_alt)

lemma length_sub_payload: "length (sub_payload m) = sum_list (map (\<lambda>t. 2 + length t + 1) (topics m))"
proof -
  have "length (sub_payload m) = sum_list (map (\<lambda>i. 2 + length (topics m ! i) + 1) [0..<length (topics m)])"
    by (simp add: sub_payload_def length_concat comp_def sub_entry_def length_wire)
  also have "\<dots> = sum_list (map (\<lambda>t. 2 + length t + 1) (map ((!) (topics m)) [0..<length (topics m)]))"
    by (simp add: comp_def)
  finally show ?thesis by (simp add: map_nth)
qed

lemma sub_plen_bound: "sub_ok m \<Longrightarrow> length (sub_props m) < 268435456"
  by (simp add: sub_ok_def sub_remlen_def)

lemma sub_build_built:
  assumes "sub_ok m"
  shows "sub_build m = Some (sub_built m)"
proof -
  have si: "(if sub_id_sent m then map_option (\<lambda>b. 1 + length b) (lbEncode (subscriptionIdentifier m)) else Some 0)
      = Some (if sub_id_sent m then 1 + length (lb_wire (unat (subscriptionIdentifier m))) else 0)"
    by (simp add: subscribe_id_lb)
  have len: "2 + (if sub_id_sent m then 1 + length (lb_wire (unat (subscriptionIdentifier m))) else 0)
      + buildUserPropertyLen (userProperty m) = 2 + length (sub_props m)"
    by (simp add: sub_props_def length_wire)
  have lb: "lbEncode (word_of_nat (length (sub_props m))) = Some (lb_wire (length (sub_props m)))"
    using sub_plen_bound [OF assms] by (simp add: lbEncode_spec word_less_nat_alt unat_small)
  have rem: "2 + length (sub_props m) + length (lb_wire (length (sub_props m))) + sum_list (map (\<lambda>t. 2 + length t + 1) (topics m))
      = sub_remlen m"
    by (simp add: sub_remlen_def length_sub_payload)
  have b: "\<not> (word_of_nat (sub_remlen m) :: u32) > maxRemainingLength"
    using assms by (simp add: sub_ok_def maxRemainingLength_def word_less_nat_alt unat_small)
  show ?thesis
    unfolding sub_build_def si Let_def bind.bind_lunit len add_diff_cancel_left' lb rem
    using b by (simp add: SetRemainingLength_def sub_built_def)
qed

lemma unat_sub:
  assumes "sub_ok m"
  shows "unat (remlen (sub_built m)) = sub_remlen m" "unat (propertiesLen (sub_built m)) = length (sub_props m)"
  using sub_plen_bound [OF assms] assms by (simp_all add: sub_built_def unat_small sub_ok_def)

lemma sub_header_ok: "sub_ok m \<Longrightarrow> header_ok (sub_built m)"
  using unat_sub(1) [of m] mtype_cong [of "sub_built m" m]
  by (simp add: header_ok_def sub_ok_def maxRemainingLength_def word_le_nat_alt)
     (simp add: type_Valid_def SUBSCRIBE_def)

section \<open>Encoding puts the packet on the wire\<close>

lemma subOp_options: "aligned m \<Longrightarrow> i < length (topics m) \<Longrightarrow> subOp m i = Some (sub_options m i)"
  by (simp add: aligned_def subOp_def at_i_def sub_options_def)

lemma sub_entry_emits:
  assumes "aligned m" "list_all short (topics m)" "i \<in> set [0..<length (topics m)]"
  shows "emits_w (sub_w_entry m i) (sub_entry m i)" "emits_b (sub_b_entry m i) (sub_entry m i)"
proof -
  have i: "i < length (topics m)" and s: "short (topics m ! i)"
    using assms by (auto simp: list_all_length)
  show "emits_w (sub_w_entry m i) (sub_entry m i)" "emits_b (sub_b_entry m i) (sub_entry m i)"
    unfolding sub_w_entry_def sub_b_entry_def sub_entry_def subOp_options [OF assms(1) i] option.case
    by (intro emits s)+
qed

lemma sub_rest_emits:
  assumes "aligned m" "list_all short (topics m)" "list_all short (userProperty m)"
    "propertiesLen m < 268435456" "unat (propertiesLen m) = length (sub_props m)"
  shows "emits_w (sub_encode_rest m) (sub_body_wire m)" "emits_b (sub_buf_rest m) (sub_body_wire m)"
proof -
  have si: "sub_id_sent m \<Longrightarrow> subscriptionIdentifier m < 268435456"
    by (simp add: sub_id_sent_def word_less_nat_alt word_le_nat_alt)
  have w: "sub_body_wire m = packetId m @ lb_wire (unat (propertiesLen m)) @
      (if sub_id_sent m then [DefiningIdentifiers] @ lb_wire (unat (subscriptionIdentifier m)) @ [] else []) @
      up_wire (userProperty m) @ concat (map (sub_entry m) [0..<length (topics m)]) @ []"
    by (simp add: sub_body_wire_def assms(5) sub_props_def sub_payload_def)
  show "emits_w (sub_encode_rest m) (sub_body_wire m)"
    unfolding sub_encode_rest_def w by (intro emits assms si sub_entry_emits)
  show "emits_b (sub_buf_rest m) (sub_body_wire m)"
    unfolding sub_buf_rest_def w by (intro emits assms si sub_entry_emits)
qed

interpretation sub: drawn_packet sub_build sub_built sub_remlen sub_ok sub_body_wire sub_encode_rest sub_buf_rest
proof
  fix m :: subscribe
  show "sub_ok m \<Longrightarrow> flags_ok (sub_built m)"
    using flags_ok_cong [of "sub_built m" m] by (simp add: sub_ok_def)
next
  fix m n :: subscribe and p
  assume ok: "sub_ok m" and p: "length p = 2" "n = (sub_built m)\<lparr>packetId := p\<rparr>"
  have c: "sub_props n = sub_props m" "sub_payload n = sub_payload m" "sub_remlen n = sub_remlen m"
    using sub_cong [of n m] by (simp_all add: p(2))
  have f: "aligned n" "list_all short (topics n)" "list_all short (userProperty n)"
    "propertiesLen n < 268435456" "unat (propertiesLen n) = length (sub_props n)"
    using ok unat_sub(2) [OF ok] sub_plen_bound [OF ok] c
    by (simp_all add: p(2) sub_ok_def aligned_def word_less_nat_alt)
  have hw: "header_wire (sub_built n) = header_wire (sub_built m)"
    by (rule header_wire_cong) (simp_all add: sub_built_def [of n] c, simp_all add: p(2) sub_built_def)
  have "sub_remlen m = length (sub_body_wire n)"
    by (simp add: sub_body_wire_def sub_remlen_def c) (simp add: p)
  then show "sub_remlen m = length (sub_body_wire n) \<and> emits_w (sub_encode_rest n) (sub_body_wire n) \<and>
      emits_b (sub_buf_rest n) (sub_body_wire n) \<and> header_wire (sub_built n) = header_wire (sub_built m)"
    using sub_rest_emits [OF f] hw by simp
qed (simp_all add: sub_build_built sub_header_ok unat_sub)

text \<open>A SUBSCRIBE that is dirty and can be sent is encoded the same way by \<open>Encode\<close> and
  \<open>EncodeToBuf\<close>: both draw the same packet identifier, emit the same packet and return its length,
  which is what \<open>Len\<close> reports.\<close>

theorem sub_encoders_agree:
  assumes "dirty m" and "sub_ok m" and "pid_ok g m" and "draw_id g (sub_built m) = (g', n)"
    and "length (sub_wire n) \<le> length dst"
  shows "sub_Len m = Some (sub_built m, length (sub_wire n)) \<and>
    sub_Encode g m dst = (g', n, Ret (sub_wire n @ drop (length (sub_wire n)) dst) (length (sub_wire n))) \<and>
    sub_EncodeToBuf g m buf = (g', n, Ret (buf @ sub_wire n) (length buf + length (sub_wire n)))"
  using sub.encoders_agree [OF assms(1-4), folded sub_wire_def, OF assms(5)]
  by (simp add: sub_Len_def sub_Encode_def sub_EncodeToBuf_def)

section \<open>Decoding the packet\<close>

lemma option_bits:
  assumes "q \<le> 2" "n \<le> 1" "r \<le> 1" "h \<le> 2"
  shows "(q OR push_bit 2 n OR push_bit 3 r OR push_bit 4 h) AND 3 = (q :: byte)"
    "drop_bit 2 ((q OR push_bit 2 n OR push_bit 3 r OR push_bit 4 h) AND 4) = n"
    "drop_bit 3 ((q OR push_bit 2 n OR push_bit 3 r OR push_bit 4 h) AND 8) = r"
    "drop_bit 4 ((q OR push_bit 2 n OR push_bit 3 r OR push_bit 4 h) AND 48) = h"
    "drop_bit 6 (q OR push_bit 2 n OR push_bit 3 r OR push_bit 4 h) = 0"
  using assms unfolding byte_le by (elim disjE; hypsubst; code_simp)+

text \<open>The values the options of a filter may have.\<close>

definition options_ok :: "subscribe \<Rightarrow> bool" where
  "options_ok m \<longleftrightarrow>
     list_all (\<lambda>b. b \<le> 2) (qos m) \<and> list_all (\<lambda>b. b \<le> 1) (noLocal m) \<and>
     list_all (\<lambda>b. b \<le> 1) (retainAsPub m) \<and> list_all (\<lambda>b. b \<le> 2) (retainHandling m)"

definition add_entries :: "subscribe \<Rightarrow> nat \<Rightarrow> subscribe \<Rightarrow> subscribe" where
  "add_entries n i m =
     m\<lparr>topics := topics m @ drop i (topics n), qos := qos m @ drop i (qos n), noLocal := noLocal m @ drop i (noLocal n),
       retainAsPub := retainAsPub m @ drop i (retainAsPub n), retainHandling := retainHandling m @ drop i (retainHandling n)\<rparr>"

definition entries_from :: "subscribe \<Rightarrow> nat \<Rightarrow> bytes" where
  "entries_from n i = concat (map (sub_entry n) [i..<length (topics n)])"

lemma entries_from_step:
  assumes "aligned n" "i < length (topics n)"
  shows "entries_from n i = lp_wire (topics n ! i) @ [sub_options n i] @ entries_from n (Suc i)"
    and "add_entries n i m =
      add_entries n (Suc i) (m\<lparr>topics := topics m @ [topics n ! i], qos := qos m @ [qos n ! i],
        noLocal := noLocal m @ [noLocal n ! i], retainAsPub := retainAsPub m @ [retainAsPub n ! i],
        retainHandling := retainHandling m @ [retainHandling n ! i]\<rparr>)"
  using assms
  by (simp_all add: entries_from_def upt_conv_Cons sub_entry_def add_entries_def aligned_def Cons_nth_drop_Suc)

lemma sub_loop_step:
  assumes "left > 0" "read_lp src t = Some (v, k, None)" "sat src (t + k) = Some c"
    "c AND 3 = q" "drop_bit 2 (c AND 4) = nl" "drop_bit 3 (c AND 8) = r" "drop_bit 4 (c AND 48) = h" "drop_bit 6 c = 0"
    "q \<noteq> 3" "h \<noteq> 3"
  shows "sub_loop src m t left =
    sub_loop src (m\<lparr>topics := topics m @ [v], qos := qos m @ [q], noLocal := noLocal m @ [nl],
      retainAsPub := retainAsPub m @ [r], retainHandling := retainHandling m @ [h]\<rparr>) (t + k + 1) (left - int k - 1)"
  using assms by (subst sub_loop.simps) (simp add: Let_def)

lemma sub_loop_wire:
  assumes "aligned n" "list_all short (topics n)" "options_ok n"
  shows "i \<le> length (topics n) \<Longrightarrow>
    sub_loop (Slice (pre @ entries_from n i) ex) m (length pre) (int (length (entries_from n i))) =
      Ret (add_entries n i m) (length pre + length (entries_from n i))"
proof (induction "length (topics n) - i" arbitrary: i pre m)
  case 0
  then have "i = length (topics n)" by simp
  then show ?case
    using assms(1) by (subst sub_loop.simps) (simp add: entries_from_def add_entries_def aligned_def)
next
  case (Suc k)
  then have i: "i < length (topics n)" by simp
  define tp where "tp = topics n ! i"
  have s: "short tp" using assms(2) i by (simp add: list_all_length tp_def)
  note step = entries_from_step [OF assms(1) i]
  have b: "sub_options n i AND 3 = qos n ! i" "drop_bit 2 (sub_options n i AND 4) = noLocal n ! i"
    "drop_bit 3 (sub_options n i AND 8) = retainAsPub n ! i" "drop_bit 4 (sub_options n i AND 48) = retainHandling n ! i"
    "drop_bit 6 (sub_options n i) = 0" and ne: "qos n ! i \<noteq> 3" "retainHandling n ! i \<noteq> 3"
    using option_bits [of "qos n ! i" "noLocal n ! i" "retainAsPub n ! i" "retainHandling n ! i"] assms(1,3) i
    by (auto simp: options_ok_def aligned_def list_all_length sub_options_def)
  define pre1 where "pre1 = pre @ lp_wire tp"
  define pre2 where "pre2 = pre1 @ [sub_options n i]"
  have src1: "pre @ entries_from n i = pre @ lp_wire tp @ [sub_options n i] @ entries_from n (Suc i)"
    and src2: "pre @ entries_from n i = pre1 @ sub_options n i # entries_from n (Suc i)"
    and src3: "pre @ entries_from n i = pre2 @ entries_from n (Suc i)"
    by (simp_all add: step(1) pre1_def pre2_def tp_def)
  have l: "length pre1 = length pre + (2 + length tp)" "length pre2 = length pre + (2 + length tp) + 1"
    "length (entries_from n i) = (2 + length tp) + 1 + length (entries_from n (Suc i))"
    by (simp_all add: pre1_def pre2_def step(1) tp_def length_wire)
  have r: "read_lp (Slice (pre @ entries_from n i) ex) (length pre) = Some (tp, 2 + length tp, None)"
    unfolding src1 by (rule reads_wire(1) [OF s])
  have c: "sat (Slice (pre @ entries_from n i) ex) (length pre + (2 + length tp)) = Some (sub_options n i)"
    unfolding src2 l(1) [symmetric] by (simp add: sat_app)
  define m' where "m' = m\<lparr>topics := topics m @ [tp], qos := qos m @ [qos n ! i],
        noLocal := noLocal m @ [noLocal n ! i], retainAsPub := retainAsPub m @ [retainAsPub n ! i],
        retainHandling := retainHandling m @ [retainHandling n ! i]\<rparr>"
  have "sub_loop (Slice (pre @ entries_from n i) ex) m (length pre) (int (length (entries_from n i))) =
      sub_loop (Slice (pre2 @ entries_from n (Suc i)) ex) m' (length pre2) (int (length (entries_from n (Suc i))))"
    unfolding src3 [symmetric] m'_def l
    by (subst sub_loop_step [OF _ r c b ne]) (simp_all add: l)
  also have "\<dots> = Ret (add_entries n (Suc i) m') (length pre2 + length (entries_from n (Suc i)))"
    using Suc by (intro Suc.hyps(1)) simp_all
  finally show ?case by (simp add: step(2) m'_def tp_def l)
qed

text \<open>The payload is taken for a property when the length of the first filter begins with the
  identifier of one.\<close>

definition sub_clear :: "subscribe \<Rightarrow> bool" where
  "sub_clear m \<longleftrightarrow> topics m \<noteq> [] \<and> length (hd (topics m)) div 256 \<notin> {11, 38}"

lemma long_filter_misread:
  assumes "aligned n" "list_all short (topics n)" "topics n \<noteq> []" "length (hd (topics n)) div 256 = 11"
  shows "hd (sub_payload n) = DefiningIdentifiers"
proof -
  have p: "sub_payload n = lp_wire (topics n ! 0) @ [sub_options n 0] @ entries_from n (Suc 0)"
    using entries_from_step(1) [OF assms(1), of 0] assms(3) by (simp add: sub_payload_def entries_from_def)
  have s: "short (topics n ! 0)" using assms(2,3) by (simp add: list_all_length)
  have "lp_wire (topics n ! 0) \<noteq> []" by (simp add: lp_wire_def u16_bytes_def)
  then have "hd (sub_payload n) = word_of_nat (length (topics n ! 0) div 256)"
    using hd_lp_wire [OF s] by (simp add: p)
  then show ?thesis using assms(3,4) by (simp add: hd_conv_nth DefiningIdentifiers_def)
qed

lemma sub_payload_next:
  assumes "aligned n" "list_all short (topics n)" "sub_clear n"
  shows "sub_payload n \<noteq> []" "hd (sub_payload n) \<noteq> DefiningIdentifiers" "hd (sub_payload n) \<noteq> UserProperty"
proof -
  have ne: "topics n \<noteq> []" using assms(3) by (simp add: sub_clear_def)
  then have p: "sub_payload n = lp_wire (topics n ! 0) @ [sub_options n 0] @ entries_from n (Suc 0)"
    using entries_from_step(1) [OF assms(1), of 0] by (simp add: sub_payload_def entries_from_def)
  have s: "short (topics n ! 0)" using assms(2) ne by (simp add: list_all_length)
  have k: "length (topics n ! 0) div 256 < 256" "length (topics n ! 0) div 256 \<notin> {11, 38}"
    using s assms(3) ne by (simp_all add: short_def sub_clear_def hd_conv_nth)
  have u: "lp_wire (topics n ! 0) \<noteq> []" by (simp add: lp_wire_def u16_bytes_def)
  then have h: "hd (sub_payload n) = word_of_nat (length (topics n ! 0) div 256)"
    using hd_lp_wire [OF s] by (simp add: p)
  show "sub_payload n \<noteq> []" by (simp add: p)
  show "hd (sub_payload n) \<noteq> DefiningIdentifiers" "hd (sub_payload n) \<noteq> UserProperty"
    using k unfolding h by (auto simp: word_unat_eq_iff unat_of_nat DefiningIdentifiers_def UserProperty_def)
qed

definition sub_received :: "slice \<Rightarrow> subscribe \<Rightarrow> subscribe \<Rightarrow> subscribe" where
  "sub_received src n m0 =
     add_entries n 0 (m0\<lparr>dbuf := src, mtypeflags := mtypeflags n, remlen := word_of_nat (sub_remlen n),
       packetId := packetId n, propertiesLen := word_of_nat (length (sub_props n)),
       subscriptionIdentifier := (if sub_id_sent n then subscriptionIdentifier n else subscriptionIdentifier m0),
       userProperty := userProperty n, dirty := False\<rparr>)"

lemma c_sub_packetId:
  "length pid = 2 \<Longrightarrow> consumes sub_packetId pid (packetId_update (\<lambda>_. pid)) rest"
  unfolding sub_packetId_def [abs_def] by (rule consumes_id)

lemma c_sub_userProperty:
  "list_all short ups \<Longrightarrow> even (length ups) \<Longrightarrow> not_next UserProperty rest \<Longrightarrow>
     consumes sub_userProperty (up_wire ups) (userProperty_update (\<lambda>_. ups)) rest"
  unfolding sub_userProperty_def [abs_def] by (rule consumes_up)

lemma c_sub_propertiesLen:
  assumes "k < 268435456" "k \<le> length rest"
  shows "consumes sub_propertiesLen (lb_wire k) (propertiesLen_update (\<lambda>_. word_of_nat k)) rest"
  unfolding sub_propertiesLen_def
  by (rule consumes_then_test [where P = "\<lambda>m. propertiesLen m = word_of_nat k"],
      rule consumes_lb [OF assms(1), where f = "\<lambda>v. propertiesLen_update (\<lambda>_. v)"], simp)
     (use assms in \<open>simp add: consumes_when_def sub_plen_check_def slen_def unat_small\<close>)

lemma c_sub_identifier:
  assumes "rest \<noteq> []" "hd rest \<noteq> DefiningIdentifiers" "c \<Longrightarrow> v \<noteq> 0 \<and> v < 268435456"
  shows "consumes sub_identifier (if c then DefiningIdentifiers # lb_wire (unat v) else [])
    (if c then subscriptionIdentifier_update (\<lambda>_. v) else id) rest"
proof -
  have check: "consumes_when (\<lambda>m. subscriptionIdentifier m = v) sub_id_check [] id rest" if c
    using assms that by (cases rest) (auto simp: consumes_when_def sub_id_check_def sat_app)
  have rd: "consumes (\<lambda>src m t. assign (read_lb src t) (\<lambda>v. subscriptionIdentifier_update (\<lambda>_. v)) m t) (lb_wire (unat v))
      (subscriptionIdentifier_update (\<lambda>_. v)) rest" if c
    using consumes_lb [of "unat v" "\<lambda>v. subscriptionIdentifier_update (\<lambda>_. v)" rest] assms(3) [OF that]
    by (simp add: word_less_nat_alt)
  show ?thesis
    unfolding sub_identifier_def
    by (intro consumes_prop consumes_then_test [where P = "\<lambda>m. subscriptionIdentifier m = v"] rd check)
       (simp_all add: not_next_def assms)
qed

lemma c_sub_variable:
  assumes ok: "sub_ok n" and id: "length (packetId n) = 2" and ev: "even (length (userProperty n))"
    and cl: "sub_clear n"
  shows "consumes sub_variable (packetId n @ lb_wire (length (sub_props n)) @ sub_props n)
    (userProperty_update (\<lambda>_. userProperty n) \<circ>
     ((if sub_id_sent n then subscriptionIdentifier_update (\<lambda>_. subscriptionIdentifier n) else id) \<circ>
      (propertiesLen_update (\<lambda>_. word_of_nat (length (sub_props n))) \<circ> packetId_update (\<lambda>_. packetId n))))
    (sub_payload n)"
proof -
  have a: "aligned n" "list_all short (topics n)" "list_all short (userProperty n)" using ok by (simp_all add: sub_ok_def)
  note nx = sub_payload_next [OF a(1,2) cl]
  have si: "sub_id_sent n \<Longrightarrow> subscriptionIdentifier n \<noteq> 0 \<and> subscriptionIdentifier n < 268435456"
    by (auto simp: sub_id_sent_def word_less_nat_alt word_le_nat_alt)
  have up: "hd (up_wire (userProperty n) @ sub_payload n) \<noteq> DefiningIdentifiers"
    using nx by (cases "userProperty n" rule: up_wire.cases) (simp_all add: UserProperty_def DefiningIdentifiers_def)
  show ?thesis
    unfolding sub_variable_def
    by (rule consumes_eq,
        rule consumes_Cons [OF c_sub_packetId [OF id]
          consumes_Cons [OF c_sub_propertiesLen [OF sub_plen_bound [OF ok]]
          consumes_Cons [OF c_sub_identifier [where c = "sub_id_sent n" and v = "subscriptionIdentifier n"]
          consumes_Cons [OF c_sub_userProperty [OF a(3) ev]
            consumes_Nil]]]])
       (use si up nx in \<open>simp_all add: sub_props_def not_next_def comp_assoc\<close>)
qed

lemma NewSubscribeMessage_eq:
  "NewSubscribeMessage =
     \<lparr>remlen = 0, mtypeflags = [0x82], packetId = [], dbuf = Slice [] [], dirty = True,
       propertiesLen = 0, subscriptionIdentifier = 0, userProperty = [], topics = [], qos = [], noLocal = [],
       retainAsPub = [], retainHandling = []\<rparr>"
  by code_simp

lemma sub_Decode_wire:
  assumes ok: "sub_ok n" and id: "length (packetId n) = 2" and ev: "even (length (userProperty n))"
    and cl: "sub_clear n" and opt: "options_ok n"
    and m0: "length (mtypeflags m0) = 1" "mtype m0 = SUBSCRIBE"
  shows "sub_Decode (Slice (sub_wire n) ex) m0 =
    Ret (sub_received (Slice (sub_wire n) ex) n m0) (length (sub_wire n))"
proof -
  let ?b = "sub_built n"
  define src where "src = Slice (sub_wire n) ex"
  define hw where "hw = header_wire ?b"
  define vw where "vw = packetId n @ lb_wire (length (sub_props n)) @ sub_props n"
  define h1 where "h1 = m0\<lparr>dbuf := src, mtypeflags := mtypeflags n, remlen := remlen ?b\<rparr>"
  define m1 where "m1 = (userProperty_update (\<lambda>_. userProperty n) \<circ>
     ((if sub_id_sent n then subscriptionIdentifier_update (\<lambda>_. subscriptionIdentifier n) else id) \<circ>
      (propertiesLen_update (\<lambda>_. word_of_nat (length (sub_props n))) \<circ> packetId_update (\<lambda>_. packetId n)))) h1"
  have a: "aligned n" "list_all short (topics n)" using ok by (simp_all add: sub_ok_def)
  have mt: "mtype ?b = SUBSCRIBE" using ok mtype_cong [of ?b n] by (simp add: sub_ok_def)
  have rem: "unat (remlen ?b) = sub_remlen n" "remlen ?b \<noteq> 0"
    using unat_sub(1) [OF ok] by (auto simp: sub_remlen_def)
  have body: "sub_body_wire n = vw @ sub_payload n" by (simp add: sub_body_wire_def vw_def)
  have lb: "length (sub_body_wire n) = sub_remlen n" by (simp add: sub_body_wire_def sub_remlen_def id)
  have wire: "sub_wire n = hw @ vw @ sub_payload n" by (simp add: sub_wire_def hw_def body)
  have hd: "hdecode src m0 = Ret h1 (length hw)"
    using sub.header_decoded [OF ok _ _ m0(1), of "sub_body_wire n" ex] lb m0(2) mt
    by (simp add: src_def sub_wire_def h1_def hw_def body vw_def)
  have var: "sub_variable src h1 (length hw) = Ret m1 (length (hw @ vw))"
    using consumesD [OF c_sub_variable [OF ok id ev cl] refl, of hw ex h1]
    by (simp add: src_def wire m1_def vw_def)
  have left: "int (unat (remlen m1)) - (int (length (hw @ vw)) - int (length hw)) = int (length (entries_from n 0))"
  proof -
    have "remlen m1 = remlen ?b" by (simp add: m1_def h1_def)
    moreover have "length (entries_from n 0) = length (sub_payload n)" by (simp add: sub_payload_def entries_from_def)
    ultimately show ?thesis using rem(1) lb by (simp add: body del: of_nat_unat)
  qed
  have loop: "sub_topics (length hw) src m1 (length (hw @ vw)) = Ret (add_entries n 0 m1) (length (sub_wire n))"
    unfolding sub_topics_def left
    using sub_loop_wire [OF a opt, of 0 "hw @ vw" ex m1]
    by (simp add: src_def wire) (simp add: sub_payload_def entries_from_def)
  have ne: "topics (add_entries n 0 m1) \<noteq> []" using cl by (simp add: add_entries_def sub_clear_def)
  have res: "(add_entries n 0 m1)\<lparr>dirty := False\<rparr> = sub_received src n m0"
    by (simp add: sub_received_def add_entries_def m1_def h1_def sub_built_def)
  show ?thesis
    unfolding src_def [symmetric]
    using hd var loop ne res by (simp add: sub_Decode_def sub_done_def)
qed

text \<open>C27: Take a SUBSCRIBE that can be sent (\<open>sub_ok\<close>) with a packet identifier of two bytes, user properties in
  pairs, a subscription identifier of at most 268435455, at least one filter and options in their ranges: QoS at most 2,
  flags at most 1, retain handling at most 2 (\<open>options_ok\<close>). Let the first filter not be of 2816 to 3071 or of 9728 to
  9983 bytes (\<open>sub_clear\<close>): the decoder looks for properties without regard to their length and takes the first
  byte of such a length for the identifier of one. A new SUBSCRIBE that decodes the packet consumes it and gets every
  field back: the identifier, the properties, the filters and their options.\<close>

theorem sub_roundtrip:
  assumes "sub_ok n" "length (packetId n) = 2" "even (length (userProperty n))" "sub_clear n" "options_ok n"
    "subscriptionIdentifier n \<le> 268435455"
  shows "\<exists>m'. sub_Decode (Slice (sub_wire n) ex) NewSubscribeMessage = Ret m' (length (sub_wire n)) \<and>
    packetId m' = packetId n \<and> subscriptionIdentifier m' = subscriptionIdentifier n \<and>
    userProperty m' = userProperty n \<and> topics m' = topics n \<and> qos m' = qos n \<and> noLocal m' = noLocal n \<and>
    retainAsPub m' = retainAsPub n \<and> retainHandling m' = retainHandling n"
proof -
  have m0: "length (mtypeflags NewSubscribeMessage) = 1" "mtype NewSubscribeMessage = SUBSCRIBE"
    by (simp_all add: NewSubscribeMessage_eq mtype_def alloc_flags_def SUBSCRIBE_def)
  have "sub_id_sent n \<or> subscriptionIdentifier n = 0"
    using assms(6) by (auto simp: sub_id_sent_def word_neq_0_conv)
  then show ?thesis
    using sub_Decode_wire [OF assms(1-5) m0, of ex]
    by (auto simp: sub_received_def add_entries_def NewSubscribeMessage_eq)
qed

section \<open>The filters of a message\<close>

datatype sub_call =
    CallAddTopic bytes byte
  | CallAddTopicAll bytes byte bool bool byte
  | CallRemoveTopic bytes
  | CallSetNoLocal bytes bool
  | CallSetRetainAsPublished bytes bool
  | CallSetRetainHandling bytes byte

fun sub_exec :: "sub_call \<Rightarrow> subscribe \<Rightarrow> subscribe option" where
  "sub_exec (CallAddTopic tp q) m = map_option fst (AddTopic tp q m)"
| "sub_exec (CallAddTopicAll tp q nl rap rh) m = map_option fst (AddTopicAll tp q nl rap rh m)"
| "sub_exec (CallRemoveTopic tp) m = RemoveTopic tp m"
| "sub_exec (CallSetNoLocal tp v) m = SetTopicNoLocal tp v m"
| "sub_exec (CallSetRetainAsPublished tp v) m = SetTopicRetainAsPublished tp v m"
| "sub_exec (CallSetRetainHandling tp v) m = SetTopicRetainHandling tp v m"

fun sub_execs :: "sub_call list \<Rightarrow> subscribe \<Rightarrow> subscribe option" where
  "sub_execs [] m = Some m"
| "sub_execs (c # cs) m = Option.bind (sub_exec c m) (sub_execs cs)"

text \<open>What the calls mean for a map from filters to options. A second \<open>AddTopicAll\<close> of a filter
  changes its QoS and none of its other options.\<close>

type_synonym filter_options = "byte \<times> byte \<times> byte \<times> byte"

fun sub_spec :: "sub_call \<Rightarrow> (bytes \<Rightarrow> filter_options option) \<Rightarrow> bytes \<Rightarrow> filter_options option" where
  "sub_spec (CallAddTopic tp q) M =
     (if \<not> ValidQos q then M
      else M(tp \<mapsto> (case M tp of None \<Rightarrow> (q, 0, 0, 0) | Some (q', nl, r, h) \<Rightarrow> (q, nl, r, h))))"
| "sub_spec (CallAddTopicAll tp q nl rap rh) M =
     (if \<not> ValidQos q \<or> rh > 2 then M
      else M(tp \<mapsto> (case M tp of None \<Rightarrow> (q, flag nl, flag rap, rh) | Some (q', nl, r, h) \<Rightarrow> (q, nl, r, h))))"
| "sub_spec (CallRemoveTopic tp) M = M(tp := None)"
| "sub_spec (CallSetNoLocal tp v) M = M(tp := map_option (\<lambda>(q, nl, r, h). (q, flag v, r, h)) (M tp))"
| "sub_spec (CallSetRetainAsPublished tp v) M = M(tp := map_option (\<lambda>(q, nl, r, h). (q, nl, flag v, h)) (M tp))"
| "sub_spec (CallSetRetainHandling tp v) M = M(tp := map_option (\<lambda>(q, nl, r, h). (q, nl, r, v)) (M tp))"

definition rows :: "subscribe \<Rightarrow> filter_options list" where
  "rows m = zip (qos m) (zip (noLocal m) (zip (retainAsPub m) (retainHandling m)))"

definition sub_view :: "subscribe \<Rightarrow> bytes \<Rightarrow> filter_options option" where
  "sub_view m = map_of (zip (topics m) (rows m))"

definition sub_inv :: "subscribe \<Rightarrow> bool" where
  "sub_inv m \<longleftrightarrow> aligned m \<and> distinct (topics m)"

lemma map_of_zip_index:
  "length xs = length ys \<Longrightarrow> map_of (zip xs ys) k = (case find_index k xs of None \<Rightarrow> None | Some i \<Rightarrow> Some (ys ! i))"
  by (induction xs ys rule: list_induct2) (auto split: option.splits)

lemma map_of_zip_set:
  "length xs = length ys \<Longrightarrow> find_index k xs = Some i \<Longrightarrow> map_of (zip xs (ys[i := v])) = (map_of (zip xs ys))(k \<mapsto> v)"
proof (induction xs ys arbitrary: i rule: list_induct2)
  case (Cons x xs y ys)
  then show ?case by (cases "x = k") (auto simp: fun_eq_iff split: if_splits)
qed simp

lemma map_of_zip_cut:
  "length xs = length ys \<Longrightarrow> distinct xs \<Longrightarrow> find_index k xs = Some i \<Longrightarrow>
     map_of (zip (remove_at i xs) (remove_at i ys)) = (map_of (zip xs ys))(k := None)"
proof (induction xs ys arbitrary: i rule: list_induct2)
  case (Cons x xs y ys)
  then show ?case by (cases "x = k") (auto simp: fun_eq_iff)
qed simp

lemma map_of_zip_snoc:
  "length xs = length ys \<Longrightarrow> k \<notin> set xs \<Longrightarrow> map_of (zip (xs @ [k]) (ys @ [v])) = (map_of (zip xs ys))(k \<mapsto> v)"
  by (induction xs ys rule: list_induct2) auto

lemma length_rows: "aligned m \<Longrightarrow> length (rows m) = length (topics m)"
  by (simp add: rows_def aligned_def)

lemma sub_viewI:
  assumes "aligned m" "find_index tp (topics m) = Some i" "topics m' = topics m" "rows m' = (rows m)[i := x]"
  shows "sub_view m' = (sub_view m)(tp \<mapsto> x)"
  using map_of_zip_set [OF length_rows [OF assms(1), symmetric] assms(2)] assms(3,4) by (simp add: sub_view_def)

lemma sub_view_at:
  "aligned m \<Longrightarrow> sub_view m tp =
     (case find_index tp (topics m) of None \<Rightarrow> None
      | Some i \<Rightarrow> Some (qos m ! i, noLocal m ! i, retainAsPub m ! i, retainHandling m ! i))"
  using find_index_Some [of tp "topics m"] map_of_zip_index [OF length_rows [symmetric], of m tp]
  by (auto simp: sub_view_def rows_def aligned_def split: option.splits)

lemma rows_set:
  assumes "aligned m" "i < length (topics m)"
  shows "rows (m\<lparr>qos := (qos m)[i := v]\<rparr>) = (rows m)[i := (v, noLocal m ! i, retainAsPub m ! i, retainHandling m ! i)]"
    "rows (m\<lparr>noLocal := (noLocal m)[i := v]\<rparr>) = (rows m)[i := (qos m ! i, v, retainAsPub m ! i, retainHandling m ! i)]"
    "rows (m\<lparr>retainAsPub := (retainAsPub m)[i := v]\<rparr>) = (rows m)[i := (qos m ! i, noLocal m ! i, v, retainHandling m ! i)]"
    "rows (m\<lparr>retainHandling := (retainHandling m)[i := v]\<rparr>) = (rows m)[i := (qos m ! i, noLocal m ! i, retainAsPub m ! i, v)]"
  unfolding rows_def by (simp_all flip: zip_list_update)

lemma rows_dirty [simp]: "rows (m\<lparr>dirty := b\<rparr>) = rows m"
  by (simp add: rows_def)

lemma sub_view_dirty [simp]: "sub_view (m\<lparr>dirty := b\<rparr>) = sub_view m"
  by (simp add: sub_view_def)

lemma sub_view_absent: "aligned m \<Longrightarrow> tp \<notin> set (topics m) \<Longrightarrow> (sub_view m)(tp := None) = sub_view m"
  by (simp add: sub_view_at fun_upd_idem_iff)

text \<open>The entry of a filter is overwritten at its index.\<close>

lemma sub_set_steps:
  assumes "sub_inv m" "find_index tp (topics m) = Some i"
  shows "sub_view (m\<lparr>qos := (qos m)[i := v]\<rparr>) = (sub_view m)(tp \<mapsto> (v, noLocal m ! i, retainAsPub m ! i, retainHandling m ! i))"
    "sub_view (m\<lparr>noLocal := (noLocal m)[i := v], dirty := True\<rparr>) =
      (sub_view m)(tp \<mapsto> (qos m ! i, v, retainAsPub m ! i, retainHandling m ! i))"
    "sub_view (m\<lparr>retainAsPub := (retainAsPub m)[i := v], dirty := True\<rparr>) =
      (sub_view m)(tp \<mapsto> (qos m ! i, noLocal m ! i, v, retainHandling m ! i))"
    "sub_view (m\<lparr>retainHandling := (retainHandling m)[i := v], dirty := True\<rparr>) =
      (sub_view m)(tp \<mapsto> (qos m ! i, noLocal m ! i, retainAsPub m ! i, v))"
  using assms find_index_Some [OF assms(2)]
  by (auto simp: sub_inv_def rows_set intro!: sub_viewI)

lemma sub_snoc_step:
  assumes "sub_inv m" "find_index tp (topics m) = None"
  shows "sub_view (m\<lparr>topics := topics m @ [tp], qos := qos m @ [q], noLocal := noLocal m @ [nl],
      retainAsPub := retainAsPub m @ [r], retainHandling := retainHandling m @ [h], dirty := True\<rparr>) =
    (sub_view m)(tp \<mapsto> (q, nl, r, h))"
  using assms map_of_zip_snoc [OF length_rows [symmetric], of m tp "(q, nl, r, h)"]
  by (simp add: sub_inv_def aligned_def find_index_None sub_view_def rows_def)

lemma sub_cut_step:
  assumes "sub_inv m" "find_index tp (topics m) = Some i"
  shows "sub_view (m\<lparr>topics := remove_at i (topics m), qos := remove_at i (qos m), noLocal := remove_at i (noLocal m),
      retainAsPub := remove_at i (retainAsPub m), retainHandling := remove_at i (retainHandling m), dirty := True\<rparr>) =
    (sub_view m)(tp := None)"
  using assms map_of_zip_cut [OF length_rows [symmetric], of m tp i]
  by (simp add: sub_inv_def aligned_def sub_view_def rows_def zip_remove_at)

lemma sub_step:
  assumes inv: "sub_inv m"
  shows "\<exists>m'. sub_exec c m = Some m' \<and> sub_inv m' \<and> sub_view m' = sub_spec c (sub_view m)"
proof -
  have al: "aligned m" and d: "distinct (topics m)" using inv by (simp_all add: sub_inv_def)
  note at = sub_view_at [OF al]
  note ops = AddTopic_def AddTopicAll_def RemoveTopic_def SetTopicNoLocal_def SetTopicRetainAsPublished_def
    SetTopicRetainHandling_def
  show ?thesis
  proof (cases "find_index (case c of CallAddTopic tp q \<Rightarrow> tp | CallAddTopicAll tp q nl rap rh \<Rightarrow> tp | CallRemoveTopic tp \<Rightarrow> tp
      | CallSetNoLocal tp v \<Rightarrow> tp | CallSetRetainAsPublished tp v \<Rightarrow> tp | CallSetRetainHandling tp v \<Rightarrow> tp) (topics m)")
    case None
    then show ?thesis
      using inv at sub_snoc_step [OF inv]
      by (cases c) (auto simp: ops sub_inv_def aligned_def find_index_None sub_view_absent [OF al])
  next
    case (Some i)
    have i: "i < length (topics m)" using find_index_Some [OF Some] by simp
    show ?thesis
      using inv at sub_set_steps [OF inv] sub_cut_step [OF inv] Some i al
      by (cases c) (auto simp: ops sub_inv_def aligned_def set_i_def cut_i_def length_remove_at distinct_remove_at)
  qed
qed

lemma sub_steps: "sub_inv m \<Longrightarrow> \<exists>m'. sub_execs cs m = Some m' \<and> sub_inv m' \<and> sub_view m' = fold sub_spec cs (sub_view m)"
proof (induction cs arbitrary: m)
  case Nil
  then show ?case by simp
next
  case (Cons c cs)
  obtain m1 where "sub_exec c m = Some m1" "sub_inv m1" "sub_view m1 = sub_spec c (sub_view m)"
    using sub_step [OF Cons.prems] by blast
  then show ?case using Cons.IH [of m1] by auto
qed

text \<open>No sequence of calls that add, remove and change the filters of a new SUBSCRIBE panics; the
  slices stay parallel, no filter is listed twice, and the message holds for every filter the
  options the calls say.\<close>

theorem sub_filters_history:
  "\<exists>m. sub_execs cs NewSubscribeMessage = Some m \<and> aligned m \<and> distinct (topics m) \<and>
     (\<forall>tp. (case find_index tp (topics m) of None \<Rightarrow> None
           | Some i \<Rightarrow> Some (qos m ! i, noLocal m ! i, retainAsPub m ! i, retainHandling m ! i)) =
       fold sub_spec cs (\<lambda>tp. None) tp)"
proof -
  have inv: "sub_inv NewSubscribeMessage" and v: "sub_view NewSubscribeMessage = (\<lambda>tp. None)"
    by (simp_all add: NewSubscribeMessage_eq sub_inv_def aligned_def sub_view_def fun_eq_iff)
  obtain m where m: "sub_execs cs NewSubscribeMessage = Some m" "sub_inv m"
    "sub_view m = fold sub_spec cs (\<lambda>tp. None)"
    using sub_steps [OF inv, of cs] by (auto simp: v)
  then show ?thesis
    using sub_view_at [of m] by (intro exI [of _ m]) (auto simp: sub_inv_def fun_eq_iff)
qed

section \<open>Witnesses\<close>

definition demo_subscribe :: subscribe where
  "demo_subscribe =
     (SetSubscriptionIdentifier 5 (SetPacketId 258
       (the (sub_execs [CallAddTopic [97, 47, 98] 1, CallAddTopicAll [35] 2 True False 1] NewSubscribeMessage))))"

lemma demo_subscribe_eq:
  "demo_subscribe =
     \<lparr>remlen = 0, mtypeflags = [0x82], packetId = [1, 2], dbuf = Slice [] [], dirty = True,
       propertiesLen = 0, subscriptionIdentifier = 5, userProperty = [], topics = [[97, 47, 98], [35]], qos = [1, 2],
       noLocal = [0, 1], retainAsPub = [0, 0], retainHandling = [0, 1]\<rparr>"
  by code_simp

lemma demo_subscribe_len: "sub_remlen demo_subscribe = 15"
proof -
  have si: "sub_id_sent demo_subscribe" by (simp add: sub_id_sent_def demo_subscribe_eq)
  have p: "length (sub_props demo_subscribe) = 2"
    by (simp add: sub_props_def si) (simp add: demo_subscribe_eq lb_wire.simps [of 5])
  show ?thesis
    by (simp add: sub_remlen_def p length_sub_payload) (simp add: demo_subscribe_eq lb_wire.simps [of 2])
qed

lemma demo_subscribe_ok: "sub_ok demo_subscribe"
proof -
  have "mtype demo_subscribe = SUBSCRIBE" "flags_ok demo_subscribe" by code_simp+
  then show ?thesis
    by (simp add: sub_ok_def demo_subscribe_len) (simp add: demo_subscribe_eq aligned_def short_def)
qed

lemma demo_subscribe_draw: "draw_id 7 (sub_built demo_subscribe) = (7, sub_built demo_subscribe)" "pid_ok 7 demo_subscribe"
proof -
  have "PacketId demo_subscribe = 258" by code_simp
  then show "draw_id 7 (sub_built demo_subscribe) = (7, sub_built demo_subscribe)" "pid_ok 7 demo_subscribe"
    by (simp_all add: draw_id_def pid_ok_def)
qed

theorem sub_encoders_agree_witness:
  "sub_Len demo_subscribe = Some (sub_built demo_subscribe, length (sub_wire (sub_built demo_subscribe))) \<and>
    sub_Encode 7 demo_subscribe (replicate 64 0) =
      (7, sub_built demo_subscribe,
       Ret (sub_wire (sub_built demo_subscribe) @ drop (length (sub_wire (sub_built demo_subscribe))) (replicate 64 0))
         (length (sub_wire (sub_built demo_subscribe)))) \<and>
    sub_EncodeToBuf 7 demo_subscribe [] =
      (7, sub_built demo_subscribe,
       Ret ([] @ sub_wire (sub_built demo_subscribe)) (length ([] :: bytes) + length (sub_wire (sub_built demo_subscribe))))"
proof (rule sub_encoders_agree)
  show "dirty demo_subscribe" by (simp add: demo_subscribe_eq)
  show "sub_ok demo_subscribe" by (rule demo_subscribe_ok)
  show "pid_ok 7 demo_subscribe" "draw_id 7 (sub_built demo_subscribe) = (7, sub_built demo_subscribe)"
    by (rule demo_subscribe_draw)+
  have "length (header_wire (sub_built (sub_built demo_subscribe))) \<le> 5"
    by (simp add: header_wire_def sub_built_def [of "sub_built demo_subscribe"] demo_subscribe_len lb_wire.simps [of 15])
  moreover have "length (sub_body_wire (sub_built demo_subscribe)) = 15"
    using demo_subscribe_len by (simp add: sub_body_wire_def sub_remlen_def) (simp add: demo_subscribe_eq)
  ultimately show "length (sub_wire (sub_built demo_subscribe)) \<le> length (replicate 64 (0 :: byte))"
    by (simp add: sub_wire_def)
qed

theorem sub_roundtrip_witness:
  "\<exists>m'. sub_Decode (Slice (sub_wire demo_subscribe) []) NewSubscribeMessage = Ret m' (length (sub_wire demo_subscribe)) \<and>
    packetId m' = packetId demo_subscribe \<and> subscriptionIdentifier m' = subscriptionIdentifier demo_subscribe \<and>
    userProperty m' = userProperty demo_subscribe \<and> topics m' = topics demo_subscribe \<and> qos m' = qos demo_subscribe \<and>
    noLocal m' = noLocal demo_subscribe \<and> retainAsPub m' = retainAsPub demo_subscribe \<and>
    retainHandling m' = retainHandling demo_subscribe"
proof (rule sub_roundtrip)
  show "sub_ok demo_subscribe" by (rule demo_subscribe_ok)
qed (simp_all add: demo_subscribe_eq sub_clear_def options_ok_def)

section \<open>Remarks\<close>

text \<open>\<open>Clone\<close> returns the original message once per filter, not one message per filter.\<close>

lemma Clone_returns_original:
  "Clone demo_subscribe = Some [demo_subscribe, demo_subscribe]"
  by (simp add: Clone_def demo_subscribe_eq)

text \<open>Adding a filter that is there does not mark a decoded message dirty: the new QoS is not sent.\<close>

lemma AddTopic_not_sent:
  "\<not> dirty m \<Longrightarrow> find_index tp (topics m) = Some i \<Longrightarrow> ValidQos q \<Longrightarrow> AddTopic tp q m = Some (m', e) \<Longrightarrow> \<not> dirty m'"
  by (auto simp: AddTopic_def set_i_def split: if_splits)

end
