(* ===== verification/Unsubscribe.thy ===== *)
theory Unsubscribe
  imports Frame
begin

text \<open>
  UNSUBSCRIBE (\<open>corev5/v2/message/unsubscribe.go\<close>): the message with its list of filters, encoding
  and decoding. The decoder takes one byte too many off the remaining length for every filter, as
  if an options byte stood behind it; the round trip says for which packets that does no harm.
\<close>

section \<open>State\<close>

record unsubscribe = header +
  propertyLen :: u32
  userProperty :: "bytes list"
  topics :: "bytes list"

definition NewUnsubscribeMessage :: unsubscribe where
  "NewUnsubscribeMessage =
     fst (SetType UNSUBSCRIBE \<lparr>remlen = 0, mtypeflags = [], packetId = [], dbuf = Slice [] [], dirty = False,
       propertyLen = 0, userProperty = [], topics = []\<rparr>)"

section \<open>Operations\<close>

definition SetPropertyLen :: "u32 \<Rightarrow> unsubscribe \<Rightarrow> unsubscribe" where
  "SetPropertyLen v m = m\<lparr>propertyLen := v, dirty := True\<rparr>"

definition SetUserProperties :: "bytes list \<Rightarrow> unsubscribe \<Rightarrow> unsubscribe" where
  "SetUserProperties ups m = m\<lparr>userProperty := ups, dirty := True\<rparr>"

definition AddUserPropertys :: "bytes list \<Rightarrow> unsubscribe \<Rightarrow> unsubscribe" where
  "AddUserPropertys ups m = m\<lparr>userProperty := userProperty m @ ups, dirty := True\<rparr>"

definition AddUserProperty :: "bytes \<Rightarrow> unsubscribe \<Rightarrow> unsubscribe" where
  "AddUserProperty up m = m\<lparr>userProperty := userProperty m @ [up], dirty := True\<rparr>"

definition TopicExists :: "bytes \<Rightarrow> unsubscribe \<Rightarrow> bool" where
  "TopicExists tp m \<longleftrightarrow> find_index tp (topics m) \<noteq> None"

definition AddTopic :: "bytes \<Rightarrow> unsubscribe \<Rightarrow> unsubscribe" where
  "AddTopic tp m = (if TopicExists tp m then m else m\<lparr>topics := topics m @ [tp], dirty := True\<rparr>)"

definition RemoveTopic :: "bytes \<Rightarrow> unsubscribe \<Rightarrow> unsubscribe" where
  "RemoveTopic tp m =
     (case find_index tp (topics m) of
        Some i \<Rightarrow> m\<lparr>topics := remove_at i (topics m), dirty := True\<rparr>
      | None \<Rightarrow> m\<lparr>dirty := True\<rparr>)"

section \<open>Decoding\<close>

definition unsub_packetId :: "slice \<Rightarrow> unsubscribe \<Rightarrow> nat \<Rightarrow> unsubscribe outcome" where
  "unsub_packetId src m t = assign (rd_id src t) (\<lambda>v. packetId_update (\<lambda>_. v)) m t"

definition unsub_propertyLen :: "slice \<Rightarrow> unsubscribe \<Rightarrow> nat \<Rightarrow> unsubscribe outcome" where
  "unsub_propertyLen src m t =
     (if t < slen src \<and> slen src - t \<ge> 4
      then assign (read_lb src t) (\<lambda>v. propertyLen_update (\<lambda>_. v)) m t else Ret m t)"

definition unsub_userProperty :: "slice \<Rightarrow> unsubscribe \<Rightarrow> nat \<Rightarrow> unsubscribe outcome" where
  "unsub_userProperty src m t = assign (read_up src t) (\<lambda>v. userProperty_update (\<lambda>_. v)) m t"

function unsub_loop :: "slice \<Rightarrow> unsubscribe \<Rightarrow> nat \<Rightarrow> int \<Rightarrow> unsubscribe outcome" where
  "unsub_loop src m t left =
     (if left > 0 then
        (case read_lp src t of
           None \<Rightarrow> Panic
         | Some (v, n, Some e) \<Rightarrow> Fail m (int (t + n)) e
         | Some (v, n, None) \<Rightarrow> unsub_loop src (m\<lparr>topics := topics m @ [v]\<rparr>) (t + n) (left - int n - 1))
      else Ret m t)"
  by pat_completeness auto
termination
  by (relation "measure (\<lambda>(src, m, t, left). nat left)") auto

declare unsub_loop.simps [simp del]

definition unsub_topics :: "nat \<Rightarrow> slice \<Rightarrow> unsubscribe \<Rightarrow> nat \<Rightarrow> unsubscribe outcome" where
  "unsub_topics hn src m t = unsub_loop src m t (int (unat (remlen m)) - (int t - int hn))"

definition unsub_done :: "unsubscribe \<Rightarrow> nat \<Rightarrow> unsubscribe outcome" where
  "unsub_done m t = (if topics m = [] then Fail m 0 (Reason ProtocolError) else Ret (m\<lparr>dirty := False\<rparr>) t)"

definition unsub_variable :: "slice \<Rightarrow> unsubscribe \<Rightarrow> nat \<Rightarrow> unsubscribe outcome" where
  "unsub_variable src = run [unsub_packetId src, unsub_propertyLen src, unsub_userProperty src]"

definition unsub_Decode :: "slice \<Rightarrow> unsubscribe \<Rightarrow> unsubscribe outcome" where
  "unsub_Decode src m =
     (case hdecode src m of
        Ret m1 hn \<Rightarrow> run [unsub_variable src, unsub_topics hn src, unsub_done] m1 hn
      | r \<Rightarrow> r)"

section \<open>Encoding\<close>

definition unsub_build :: "unsubscribe \<Rightarrow> unsubscribe option" where
  "unsub_build m =
     (let tot = buildUserPropertyLen (userProperty m); pl = word_of_nat tot in
      case lbEncode pl of
        None \<Rightarrow> None
      | Some b \<Rightarrow>
          Some (fst (SetRemainingLength
            (word_of_nat (tot + 2 + sum_list (map (\<lambda>t. 2 + length t) (topics m)) + length b))
            (m\<lparr>propertyLen := pl\<rparr>))))"

definition unsub_Len :: "unsubscribe \<Rightarrow> (unsubscribe \<times> nat) option" where
  "unsub_Len = plain_Len unsub_build"

definition unsub_encode_rest :: "unsubscribe \<Rightarrow> bytes \<Rightarrow> nat \<Rightarrow> bytes outcome" where
  "unsub_encode_rest m =
     run [w_copy (packetId m), w_lb (propertyLen m), ignore_err (writeUserProperty (userProperty m)),
          run (map writeLPBytes (topics m))]"

definition unsub_Encode :: "u64 \<Rightarrow> unsubscribe \<Rightarrow> bytes \<Rightarrow> u64 \<times> unsubscribe \<times> bytes outcome" where
  "unsub_Encode =
     drawn_Encode ''unsubscribe/Encode: Insufficient buffer size'' ''unsubscribe/Encode: Insufficient buffer size''
       unsub_build unsub_encode_rest"

definition unsub_buf_rest :: "unsubscribe \<Rightarrow> bytes \<Rightarrow> nat \<Rightarrow> bytes outcome" where
  "unsub_buf_rest m =
     run [b_bytes (packetId m), b_lb (propertyLen m), writeUserPropertyByBuf (userProperty m),
          run (map writeToBufLPBytes (topics m))]"

definition unsub_EncodeToBuf :: "u64 \<Rightarrow> unsubscribe \<Rightarrow> bytes \<Rightarrow> u64 \<times> unsubscribe \<times> bytes outcome" where
  "unsub_EncodeToBuf = drawn_EncodeToBuf unsub_build unsub_buf_rest"

section \<open>The packet a message stands for\<close>

definition unsub_payload :: "unsubscribe \<Rightarrow> bytes" where
  "unsub_payload m = concat (map lp_wire (topics m))"

definition unsub_body_wire :: "unsubscribe \<Rightarrow> bytes" where
  "unsub_body_wire m =
     packetId m @ lb_wire (buildUserPropertyLen (userProperty m)) @ up_wire (userProperty m) @ unsub_payload m"

definition unsub_remlen :: "unsubscribe \<Rightarrow> nat" where
  "unsub_remlen m =
     2 + length (lb_wire (buildUserPropertyLen (userProperty m))) + buildUserPropertyLen (userProperty m)
       + length (unsub_payload m)"

definition unsub_built :: "unsubscribe \<Rightarrow> unsubscribe" where
  "unsub_built m =
     m\<lparr>propertyLen := word_of_nat (buildUserPropertyLen (userProperty m)), remlen := word_of_nat (unsub_remlen m),
       dirty := True\<rparr>"

definition unsub_wire :: "unsubscribe \<Rightarrow> bytes" where
  "unsub_wire m = header_wire (unsub_built m) @ unsub_body_wire m"

definition unsub_ok :: "unsubscribe \<Rightarrow> bool" where
  "unsub_ok m \<longleftrightarrow>
     length (mtypeflags m) = 1 \<and> mtype m = UNSUBSCRIBE \<and> flags_ok m \<and>
     list_all short (topics m) \<and> list_all short (userProperty m) \<and> unsub_remlen m \<le> 268435455"

lemma unsub_built_frame [simp]:
  "unsub_payload (unsub_built m) = unsub_payload m" "unsub_remlen (unsub_built m) = unsub_remlen m"
  "mtypeflags (unsub_built m) = mtypeflags m" "dirty (unsub_built m)" "packetId (unsub_built m) = packetId m"
  "PacketId (unsub_built m) = PacketId m" "topics (unsub_built m) = topics m"
  "userProperty (unsub_built m) = userProperty m"
  by (simp_all add: unsub_built_def unsub_payload_def unsub_remlen_def PacketId_def)

lemma length_unsub_payload: "length (unsub_payload m) = sum_list (map (\<lambda>t. 2 + length t) (topics m))"
  by (simp add: unsub_payload_def length_concat comp_def length_wire)

lemma unsub_plen_bound: "unsub_ok m \<Longrightarrow> buildUserPropertyLen (userProperty m) < 268435456"
  by (simp add: unsub_ok_def unsub_remlen_def)

lemma unsub_build_built:
  assumes "unsub_ok m"
  shows "unsub_build m = Some (unsub_built m)"
proof -
  have lb: "lbEncode (word_of_nat (buildUserPropertyLen (userProperty m))) = Some (lb_wire (buildUserPropertyLen (userProperty m)))"
    using unsub_plen_bound [OF assms] by (simp add: lbEncode_spec word_less_nat_alt unat_small)
  have rem: "buildUserPropertyLen (userProperty m) + 2 + sum_list (map (\<lambda>t. 2 + length t) (topics m))
      + length (lb_wire (buildUserPropertyLen (userProperty m))) = unsub_remlen m"
    by (simp add: unsub_remlen_def length_unsub_payload)
  have b: "\<not> (word_of_nat (unsub_remlen m) :: u32) > maxRemainingLength"
    using assms by (simp add: unsub_ok_def maxRemainingLength_def word_less_nat_alt unat_small)
  show ?thesis
    unfolding unsub_build_def Let_def lb option.case rem
    using b by (simp add: SetRemainingLength_def unsub_built_def)
qed

lemma unat_unsub:
  assumes "unsub_ok m"
  shows "unat (remlen (unsub_built m)) = unsub_remlen m"
    "unat (propertyLen (unsub_built m)) = buildUserPropertyLen (userProperty m)"
  using unsub_plen_bound [OF assms] assms by (simp_all add: unsub_built_def unat_small unsub_ok_def)

lemma unsub_header_ok: "unsub_ok m \<Longrightarrow> header_ok (unsub_built m)"
  using unat_unsub(1) [of m] mtype_cong [of "unsub_built m" m]
  by (simp add: header_ok_def unsub_ok_def maxRemainingLength_def word_le_nat_alt)
     (simp add: type_Valid_def UNSUBSCRIBE_def)

section \<open>Encoding puts the packet on the wire\<close>

lemma unsub_rest_emits:
  assumes "list_all short (topics m)" "list_all short (userProperty m)"
    "propertyLen m < 268435456" "unat (propertyLen m) = buildUserPropertyLen (userProperty m)"
  shows "emits_w (unsub_encode_rest m) (unsub_body_wire m)" "emits_b (unsub_buf_rest m) (unsub_body_wire m)"
proof -
  have s: "t \<in> set (topics m) \<Longrightarrow> short t" for t using assms(1) by (simp add: list_all_iff)
  have w: "unsub_body_wire m = packetId m @ lb_wire (unat (propertyLen m)) @ up_wire (userProperty m) @
      concat (map lp_wire (topics m)) @ []"
    by (simp add: unsub_body_wire_def assms(4) unsub_payload_def)
  show "emits_w (unsub_encode_rest m) (unsub_body_wire m)"
    unfolding unsub_encode_rest_def w by (intro emits assms s)
  show "emits_b (unsub_buf_rest m) (unsub_body_wire m)"
    unfolding unsub_buf_rest_def w by (intro emits assms s)
qed

interpretation unsub: drawn_packet unsub_build unsub_built unsub_remlen unsub_ok unsub_body_wire
  unsub_encode_rest unsub_buf_rest
proof
  fix m :: unsubscribe
  show "unsub_ok m \<Longrightarrow> flags_ok (unsub_built m)"
    using flags_ok_cong [of "unsub_built m" m] by (simp add: unsub_ok_def)
next
  fix m n :: unsubscribe and p
  assume ok: "unsub_ok m" and p: "length p = 2" "n = (unsub_built m)\<lparr>packetId := p\<rparr>"
  have c: "unsub_payload n = unsub_payload m" "unsub_remlen n = unsub_remlen m" "userProperty n = userProperty m"
    by (simp_all add: p(2) unsub_payload_def unsub_remlen_def)
  have f: "list_all short (topics n)" "list_all short (userProperty n)"
    "propertyLen n < 268435456" "unat (propertyLen n) = buildUserPropertyLen (userProperty n)"
    using ok unat_unsub(2) [OF ok] unsub_plen_bound [OF ok]
    by (simp_all add: p(2) unsub_ok_def word_less_nat_alt)
  have hw: "header_wire (unsub_built n) = header_wire (unsub_built m)"
    by (rule header_wire_cong) (simp_all add: unsub_built_def [of n] c, simp_all add: p(2) unsub_built_def)
  have "unsub_remlen m = length (unsub_body_wire n)"
    by (simp add: unsub_body_wire_def unsub_remlen_def c length_wire) (simp add: p)
  then show "unsub_remlen m = length (unsub_body_wire n) \<and> emits_w (unsub_encode_rest n) (unsub_body_wire n) \<and>
      emits_b (unsub_buf_rest n) (unsub_body_wire n) \<and> header_wire (unsub_built n) = header_wire (unsub_built m)"
    using unsub_rest_emits [OF f] hw by simp
qed (simp_all add: unsub_build_built unsub_header_ok unat_unsub)

text \<open>An UNSUBSCRIBE that is dirty and can be sent is encoded the same way by \<open>Encode\<close> and
  \<open>EncodeToBuf\<close>: both draw the same packet identifier, emit the same packet and return its length,
  which is what \<open>Len\<close> reports.\<close>

theorem unsub_encoders_agree:
  assumes "dirty m" and "unsub_ok m" and "pid_ok g m" and "draw_id g (unsub_built m) = (g', n)"
    and "length (unsub_wire n) \<le> length dst"
  shows "unsub_Len m = Some (unsub_built m, length (unsub_wire n)) \<and>
    unsub_Encode g m dst = (g', n, Ret (unsub_wire n @ drop (length (unsub_wire n)) dst) (length (unsub_wire n))) \<and>
    unsub_EncodeToBuf g m buf = (g', n, Ret (buf @ unsub_wire n) (length buf + length (unsub_wire n)))"
  using unsub.encoders_agree [OF assms(1-4), folded unsub_wire_def, OF assms(5)]
  by (simp add: unsub_Len_def unsub_Encode_def unsub_EncodeToBuf_def)

section \<open>Decoding the packet\<close>

lemma unsub_loop_wire:
  "list_all short ts \<Longrightarrow> ts = [] \<or> j + length ts \<le> 2 + length (last ts) \<Longrightarrow>
     unsub_loop (Slice (pre @ concat (map lp_wire ts)) ex) m (length pre)
       (int (length (concat (map lp_wire ts))) - int j) =
     Ret (m\<lparr>topics := topics m @ ts\<rparr>) (length pre + length (concat (map lp_wire ts)))"
proof (induction ts arbitrary: pre j m)
  case Nil
  then show ?case by (subst unsub_loop.simps) simp
next
  case (Cons t ts)
  define w where "w = concat (map lp_wire ts)"
  define left where "left = int (length (lp_wire t @ w)) - int j"
  have s: "short t" "list_all short ts" using Cons.prems(1) by simp_all
  have fits: "ts = [] \<or> Suc j + length ts \<le> 2 + length (last ts)"
    using Cons.prems(2) by (cases "ts = []") auto
  have "ts \<noteq> [] \<Longrightarrow> length (last ts) + 2 \<le> length w"
    unfolding w_def by (induction ts) (auto simp: length_wire)
  then have pos: "left > 0" using Cons.prems(2) by (cases "ts = []") (auto simp: left_def length_wire)
  have r: "read_lp (Slice (pre @ lp_wire t @ w) ex) (length pre) = Some (t, 2 + length t, None)"
    by (rule reads_wire(1) [OF s(1)])
  have src: "pre @ lp_wire t @ w = (pre @ lp_wire t) @ w" by simp
  have left': "left - int (2 + length t) - 1 = int (length w) - int (Suc j)" by (simp add: left_def length_wire)
  have pre': "length pre + (2 + length t) = length (pre @ lp_wire t)" by (simp add: length_wire)
  have "unsub_loop (Slice (pre @ lp_wire t @ w) ex) m (length pre) left =
      unsub_loop (Slice (pre @ lp_wire t @ w) ex) (m\<lparr>topics := topics m @ [t]\<rparr>) (length pre + (2 + length t))
        (left - int (2 + length t) - 1)"
    using pos by (subst unsub_loop.simps) (simp only: r if_True option.case prod.case)
  also have "\<dots> = Ret (m\<lparr>topics := topics m @ t # ts\<rparr>) (length (pre @ lp_wire t) + length w)"
    unfolding left' pre' src using Cons.IH [OF s(2) fits, of "pre @ lp_wire t" "m\<lparr>topics := topics m @ [t]\<rparr>"]
    by (simp add: w_def)
  finally show ?case by (simp add: left_def w_def)
qed

text \<open>
  The packets the decoder reads back: the length of the first filter does not begin with the
  identifier of the user properties, it is not empty, and the bytes taken off too much do not reach
  the last filter.
\<close>

definition unsub_clear :: "unsubscribe \<Rightarrow> bool" where
  "unsub_clear m \<longleftrightarrow>
     topics m \<noteq> [] \<and> hd (topics m) \<noteq> [] \<and> length (hd (topics m)) div 256 \<noteq> 38 \<and>
     length (topics m) \<le> 2 + length (last (topics m))"

lemma unsub_payload_next:
  assumes "list_all short (topics n)" "unsub_clear n"
  shows "not_next UserProperty (unsub_payload n)" "length (unsub_payload n) \<ge> 3"
proof -
  obtain t ts where t: "topics n = t # ts" "short t" "t \<noteq> []" "length t div 256 \<noteq> 38"
    using assms by (cases "topics n") (auto simp: unsub_clear_def)
  have p: "unsub_payload n = lp_wire t @ concat (map lp_wire ts)" by (simp add: unsub_payload_def t)
  show "length (unsub_payload n) \<ge> 3"
    using t(3) by (cases t) (simp_all add: p length_wire)
  have k: "length t div 256 < 256" using t(2) by (simp add: short_def)
  have "hd (lp_wire t) = word_of_nat (length t div 256)" by (rule hd_lp_wire [OF t(2)])
  moreover have "lp_wire t \<noteq> []" by (simp add: lp_wire_def u16_bytes_def)
  ultimately have "hd (unsub_payload n) = word_of_nat (length t div 256)" by (simp add: p)
  then show "not_next UserProperty (unsub_payload n)"
    using k t(4) unfolding not_next_def by (auto simp: word_unat_eq_iff unat_of_nat UserProperty_def)
qed

lemma c_unsub_packetId:
  "length pid = 2 \<Longrightarrow> consumes unsub_packetId pid (packetId_update (\<lambda>_. pid)) rest"
  unfolding unsub_packetId_def [abs_def] by (rule consumes_id)

lemma c_unsub_userProperty:
  "list_all short ups \<Longrightarrow> even (length ups) \<Longrightarrow> not_next UserProperty rest \<Longrightarrow>
     consumes unsub_userProperty (up_wire ups) (userProperty_update (\<lambda>_. ups)) rest"
  unfolding unsub_userProperty_def [abs_def] by (rule consumes_up)

lemma c_unsub_propertyLen:
  "k < 268435456 \<Longrightarrow> length rest \<ge> 3 \<Longrightarrow>
     consumes unsub_propertyLen (lb_wire k) (propertyLen_update (\<lambda>_. word_of_nat k)) rest"
proof -
  assume k: "k < 268435456" and r: "length rest \<ge> 3"
  have "length (lb_wire k) > 0" by simp
  then have l: "length (lb_wire k) + length rest \<ge> 4" using r by linarith
  show "consumes unsub_propertyLen (lb_wire k) (propertyLen_update (\<lambda>_. word_of_nat k)) rest"
    using consumes_lb [OF k, of "\<lambda>v. propertyLen_update (\<lambda>_. v)" rest] l
    by (simp add: consumes_def unsub_propertyLen_def slen_def)
qed

lemma c_unsub_variable:
  assumes ok: "unsub_ok n" and id: "length (packetId n) = 2" and ev: "even (length (userProperty n))"
    and cl: "unsub_clear n"
  shows "consumes unsub_variable
    (packetId n @ lb_wire (buildUserPropertyLen (userProperty n)) @ up_wire (userProperty n))
    (userProperty_update (\<lambda>_. userProperty n) \<circ>
     (propertyLen_update (\<lambda>_. word_of_nat (buildUserPropertyLen (userProperty n))) \<circ> packetId_update (\<lambda>_. packetId n)))
    (unsub_payload n)"
proof -
  have a: "list_all short (topics n)" "list_all short (userProperty n)" using ok by (simp_all add: unsub_ok_def)
  note nx = unsub_payload_next [OF a(1) cl]
  show ?thesis
    unfolding unsub_variable_def
    by (rule consumes_eq,
        rule consumes_Cons [OF c_unsub_packetId [OF id]
          consumes_Cons [OF c_unsub_propertyLen [OF unsub_plen_bound [OF ok]]
          consumes_Cons [OF c_unsub_userProperty [OF a(2) ev] consumes_Nil]]])
       (use nx in \<open>simp_all add: comp_assoc length_wire\<close>)
qed

lemma NewUnsubscribeMessage_eq:
  "NewUnsubscribeMessage =
     \<lparr>remlen = 0, mtypeflags = [0xA2], packetId = [], dbuf = Slice [] [], dirty = True,
       propertyLen = 0, userProperty = [], topics = []\<rparr>"
  by code_simp

text \<open>A new UNSUBSCRIBE that decodes the packet of a sendable message consumes the packet and gets
  the identifier, the user properties and all filters back, as long as there are at most two more
  filters than the last one has bytes: behind that the surplus taken off the remaining length ends
  the loop before the last filter.\<close>

theorem unsub_roundtrip:
  assumes ok: "unsub_ok n" and id: "length (packetId n) = 2" and ev: "even (length (userProperty n))"
    and cl: "unsub_clear n"
  shows "\<exists>m'. unsub_Decode (Slice (unsub_wire n) ex) NewUnsubscribeMessage = Ret m' (length (unsub_wire n)) \<and>
    packetId m' = packetId n \<and> userProperty m' = userProperty n \<and> topics m' = topics n"
proof -
  let ?b = "unsub_built n" and ?m0 = NewUnsubscribeMessage
  define src where "src = Slice (unsub_wire n) ex"
  define hw where "hw = header_wire ?b"
  define vw where "vw = packetId n @ lb_wire (buildUserPropertyLen (userProperty n)) @ up_wire (userProperty n)"
  define h1 where "h1 = ?m0\<lparr>dbuf := src, mtypeflags := mtypeflags n, remlen := remlen ?b\<rparr>"
  define m1 where "m1 = (userProperty_update (\<lambda>_. userProperty n) \<circ>
     (propertyLen_update (\<lambda>_. word_of_nat (buildUserPropertyLen (userProperty n))) \<circ>
      packetId_update (\<lambda>_. packetId n))) h1"
  have mt: "mtype ?b = UNSUBSCRIBE" using ok mtype_cong [of ?b n] by (simp add: unsub_ok_def)
  have m0: "length (mtypeflags ?m0) = 1" "mtype ?m0 = UNSUBSCRIBE"
    by (simp_all add: NewUnsubscribeMessage_eq mtype_def alloc_flags_def UNSUBSCRIBE_def)
  have rem: "unat (remlen ?b) = unsub_remlen n" "remlen ?b \<noteq> 0"
    using unat_unsub(1) [OF ok] by (auto simp: unsub_remlen_def)
  have body: "unsub_body_wire n = vw @ unsub_payload n" by (simp add: unsub_body_wire_def vw_def)
  have lb: "length (unsub_body_wire n) = unsub_remlen n"
    by (simp add: unsub_body_wire_def unsub_remlen_def id length_wire)
  have wire: "unsub_wire n = hw @ vw @ unsub_payload n" by (simp add: unsub_wire_def hw_def body)
  have hd: "hdecode src ?m0 = Ret h1 (length hw)"
    using unsub.header_decoded [OF ok _ _ m0(1), of "unsub_body_wire n" ex] lb m0(2) mt
    by (simp add: src_def unsub_wire_def h1_def hw_def body vw_def)
  have var: "unsub_variable src h1 (length hw) = Ret m1 (length (hw @ vw))"
    using consumesD [OF c_unsub_variable [OF ok id ev cl] refl, of hw ex h1]
    by (simp add: src_def wire m1_def vw_def)
  have left: "int (unat (remlen m1)) - (int (length (hw @ vw)) - int (length hw)) = int (length (unsub_payload n)) - int 0"
  proof -
    have "remlen m1 = remlen ?b" by (simp add: m1_def h1_def)
    then show ?thesis using rem(1) lb by (simp add: body del: of_nat_unat)
  qed
  have loop: "unsub_topics (length hw) src m1 (length (hw @ vw)) = Ret (m1\<lparr>topics := topics n\<rparr>) (length (unsub_wire n))"
    unfolding unsub_topics_def left
    using unsub_loop_wire [of "topics n" 0 "hw @ vw" ex m1] ok cl
    by (simp add: src_def wire unsub_ok_def unsub_clear_def unsub_payload_def)
       (simp add: m1_def h1_def NewUnsubscribeMessage_eq)
  have ne: "topics n \<noteq> []" using cl by (simp add: unsub_clear_def)
  show ?thesis
    unfolding src_def [symmetric]
    using hd var loop ne by (simp add: unsub_Decode_def unsub_done_def) (simp add: m1_def h1_def)
qed

section \<open>Witnesses\<close>

definition demo_unsub :: unsubscribe where
  "demo_unsub = AddTopic [35] (AddTopic [97, 47, 98] (AddUserPropertys [[107], [118]] (SetPacketId 258 NewUnsubscribeMessage)))"

lemma demo_unsub_eq:
  "demo_unsub =
     \<lparr>remlen = 0, mtypeflags = [0xA2], packetId = [1, 2], dbuf = Slice [] [], dirty = True,
       propertyLen = 0, userProperty = [[107], [118]], topics = [[97, 47, 98], [35]]\<rparr>"
  by code_simp

lemma demo_unsub_len: "unsub_remlen demo_unsub = 18"
proof -
  have "buildUserPropertyLen (userProperty demo_unsub) = 7" by code_simp
  then show ?thesis
    by (simp add: unsub_remlen_def length_unsub_payload lb_wire.simps [of 7]) (simp add: demo_unsub_eq)
qed

lemma demo_unsub_ok: "unsub_ok demo_unsub"
proof -
  have "mtype demo_unsub = UNSUBSCRIBE" "flags_ok demo_unsub" by code_simp+
  then show ?thesis
    by (simp add: unsub_ok_def demo_unsub_len) (simp add: demo_unsub_eq short_def)
qed

theorem unsub_encoders_agree_witness:
  "unsub_Len demo_unsub = Some (unsub_built demo_unsub, length (unsub_wire (unsub_built demo_unsub))) \<and>
    unsub_Encode 7 demo_unsub (replicate 64 0) =
      (7, unsub_built demo_unsub,
       Ret (unsub_wire (unsub_built demo_unsub) @ drop (length (unsub_wire (unsub_built demo_unsub))) (replicate 64 0))
         (length (unsub_wire (unsub_built demo_unsub)))) \<and>
    unsub_EncodeToBuf 7 demo_unsub [] =
      (7, unsub_built demo_unsub,
       Ret ([] @ unsub_wire (unsub_built demo_unsub)) (length ([] :: bytes) + length (unsub_wire (unsub_built demo_unsub))))"
proof (rule unsub_encoders_agree)
  have p: "PacketId demo_unsub = 258" by code_simp
  show "dirty demo_unsub" by (simp add: demo_unsub_eq)
  show "unsub_ok demo_unsub" by (rule demo_unsub_ok)
  show "pid_ok 7 demo_unsub" "draw_id 7 (unsub_built demo_unsub) = (7, unsub_built demo_unsub)"
    by (simp_all add: pid_ok_def draw_id_def p)
  have "length (header_wire (unsub_built (unsub_built demo_unsub))) \<le> 5"
    by (simp add: header_wire_def unsub_built_def [of "unsub_built demo_unsub"] demo_unsub_len lb_wire.simps [of 18])
  moreover have "length (unsub_body_wire (unsub_built demo_unsub)) = 18"
    using demo_unsub_len by (simp add: unsub_body_wire_def unsub_remlen_def length_wire) (simp add: demo_unsub_eq)
  ultimately show "length (unsub_wire (unsub_built demo_unsub)) \<le> length (replicate 64 (0 :: byte))"
    by (simp add: unsub_wire_def)
qed

theorem unsub_roundtrip_witness:
  "\<exists>m'. unsub_Decode (Slice (unsub_wire demo_unsub) []) NewUnsubscribeMessage = Ret m' (length (unsub_wire demo_unsub)) \<and>
    packetId m' = packetId demo_unsub \<and> userProperty m' = userProperty demo_unsub \<and> topics m' = topics demo_unsub"
proof (rule unsub_roundtrip)
  show "unsub_ok demo_unsub" by (rule demo_unsub_ok)
qed (simp_all add: demo_unsub_eq unsub_clear_def)

text \<open>Four filters of one byte: the decoder returns three of them and stops before the fourth.\<close>

lemma last_topic_lost:
  "(case unsub_Decode (Slice [0xA2, 15, 0, 1, 0, 0, 1, 97, 0, 1, 98, 0, 1, 99, 0, 1, 100] []) NewUnsubscribeMessage of
      Ret m' t \<Rightarrow> topics m' = [[97], [98], [99]] \<and> t = 14
    | _ \<Rightarrow> False)"
  by code_simp

end
