(* ===== verification/SubackPackets.thy ===== *)
theory SubackPackets
  imports Frame
begin

text \<open>
  SUBACK and UNSUBACK (\<open>corev5/v2/message/suback.go\<close>, \<open>unsuback.go\<close>). The two messages have the same
  fields and differ in the reason codes they allow, in the test of the properties length, which
  only SUBACK makes, and in the test of the reason codes before encoding, which only SUBACK makes.
\<close>

section \<open>State\<close>

record suback = header +
  propertiesLen :: u32
  reasonStr :: bytes
  userProperty :: "bytes list"
  reasonCodes :: bytes

definition new_suback :: "byte \<Rightarrow> suback" where
  "new_suback mt =
     fst (SetType mt \<lparr>remlen = 0, mtypeflags = [], packetId = [], dbuf = Slice [] [], dirty = False,
       propertiesLen = 0, reasonStr = [], userProperty = [], reasonCodes = []\<rparr>)"

definition NewSubackMessage :: suback where "NewSubackMessage = new_suback SUBACK"
definition NewUnsubackMessage :: suback where "NewUnsubackMessage = new_suback UNSUBACK"

definition ValidSubAckReasonCode :: "byte \<Rightarrow> bool" where
  "ValidSubAckReasonCode code \<longleftrightarrow>
     code \<in> {0x00, 0x01, 0x02, 0x80, 0x83, 0x87, 0x8F, 0x91, 0x97, 0x9E, 0xA1, 0xA2}"

definition ValidUnSubAckReasonCode :: "byte \<Rightarrow> bool" where
  "ValidUnSubAckReasonCode code \<longleftrightarrow> code \<in> {0x00, 0x11, 0x80, 0x83, 0x87, 0x8F, 0x91}"

section \<open>Operations\<close>

definition SetReasonStr :: "bytes \<Rightarrow> suback \<Rightarrow> suback" where
  "SetReasonStr v m = m\<lparr>reasonStr := v, dirty := True\<rparr>"

definition SetPropertiesLen :: "u32 \<Rightarrow> suback \<Rightarrow> suback" where
  "SetPropertiesLen v m = m\<lparr>propertiesLen := v, dirty := True\<rparr>"

definition SetUserProperties :: "bytes list \<Rightarrow> suback \<Rightarrow> suback" where
  "SetUserProperties ups m = m\<lparr>userProperty := ups, dirty := True\<rparr>"

definition AddUserPropertys :: "bytes list \<Rightarrow> suback \<Rightarrow> suback" where
  "AddUserPropertys ups m = m\<lparr>userProperty := userProperty m @ ups, dirty := True\<rparr>"

definition AddUserProperty :: "bytes \<Rightarrow> suback \<Rightarrow> suback" where
  "AddUserProperty up m = m\<lparr>userProperty := userProperty m @ [up], dirty := True\<rparr>"

text \<open>SUBACK: the codes before an invalid one stay appended, without the message becoming dirty.\<close>

fun AddReasonCodes :: "bytes \<Rightarrow> suback \<Rightarrow> suback \<times> goerr option" where
  "AddReasonCodes [] m = (m\<lparr>dirty := True\<rparr>, None)"
| "AddReasonCodes (c # cs) m =
     (if c \<noteq> QosAtMostOnce \<and> c \<noteq> QosAtLeastOnce \<and> c \<noteq> QosExactlyOnce \<and> c \<noteq> QosFailure
      then (m, Some (Errorf ''suback/AddReturnCode: Invalid return code. Must be 0, 1, 2, 0x80.''))
      else AddReasonCodes cs (m\<lparr>reasonCodes := reasonCodes m @ [c]\<rparr>))"

definition AddReasonCode :: "byte \<Rightarrow> suback \<Rightarrow> suback \<times> goerr option" where
  "AddReasonCode c = AddReasonCodes [c]"

definition UnsubackAddReasonCodes :: "bytes \<Rightarrow> suback \<Rightarrow> suback" where
  "UnsubackAddReasonCodes cs m = m\<lparr>reasonCodes := reasonCodes m @ cs, dirty := True\<rparr>"

definition UnsubackAddReasonCode :: "byte \<Rightarrow> suback \<Rightarrow> suback" where
  "UnsubackAddReasonCode c m = m\<lparr>reasonCodes := reasonCodes m @ [c], dirty := True\<rparr>"

section \<open>Decoding\<close>

definition sa_packetId :: "slice \<Rightarrow> suback \<Rightarrow> nat \<Rightarrow> suback outcome" where
  "sa_packetId src m t = assign (rd_id src t) (\<lambda>v. packetId_update (\<lambda>_. v)) m t"

definition sa_propertiesLen :: "slice \<Rightarrow> suback \<Rightarrow> nat \<Rightarrow> suback outcome" where
  "sa_propertiesLen src m t = assign (read_lb src t) (\<lambda>v. propertiesLen_update (\<lambda>_. v)) m t"

definition sa_plen_check :: "slice \<Rightarrow> suback \<Rightarrow> nat \<Rightarrow> suback outcome" where
  "sa_plen_check src m t =
     (if unat (propertiesLen m) > slen src - t then Fail m (int t) (Reason ProtocolError) else Ret m t)"

text \<open>The test behind the reason string indexes the slice without a look at its length.\<close>

definition sa_reasonStr_check :: "slice \<Rightarrow> suback \<Rightarrow> nat \<Rightarrow> suback outcome" where
  "sa_reasonStr_check src m t =
     (case sat src t of
        None \<Rightarrow> Panic
      | Some c \<Rightarrow> if c = ReasonString then Fail m (int t) (Reason ProtocolError) else Ret m t)"

definition sa_reasonStr :: "slice \<Rightarrow> suback \<Rightarrow> nat \<Rightarrow> suback outcome" where
  "sa_reasonStr src =
     prop_at src ReasonString
       (run [\<lambda>m t. assign (read_lp src t) (\<lambda>v. reasonStr_update (\<lambda>_. v)) m t, sa_reasonStr_check src])"

definition sa_userProperty :: "slice \<Rightarrow> suback \<Rightarrow> nat \<Rightarrow> suback outcome" where
  "sa_userProperty src m t = assign (read_up src t) (\<lambda>v. userProperty_update (\<lambda>_. v)) m t"

text \<open>The rest of the packet are the reason codes; a negative length panics in the slice expression.\<close>

definition sa_reasonCodes :: "(byte \<Rightarrow> bool) \<Rightarrow> nat \<Rightarrow> slice \<Rightarrow> suback \<Rightarrow> nat \<Rightarrow> suback outcome" where
  "sa_reasonCodes valid hn src m t =
     (let l = int (unat (remlen m)) - (int t - int hn) in
      if l = 0 then Fail m (int t) (Reason ProtocolError)
      else if l < 0 then Panic
      else case srange src t (t + nat l) of
        None \<Rightarrow> Panic
      | Some s \<Rightarrow>
          (let m1 = m\<lparr>reasonCodes := CopyLen (vis s) (nat l)\<rparr>; t1 = t + length (reasonCodes m1)
           in if list_all valid (reasonCodes m1) then Ret (m1\<lparr>dirty := False\<rparr>) t1
              else Fail m1 (int t1) (Reason ProtocolError)))"

definition sa_variable :: "(slice \<Rightarrow> suback \<Rightarrow> nat \<Rightarrow> suback outcome) list \<Rightarrow> slice \<Rightarrow> suback \<Rightarrow> nat \<Rightarrow> suback outcome" where
  "sa_variable check src =
     run ([sa_packetId src, sa_propertiesLen src] @ map (\<lambda>c. c src) check @ [sa_reasonStr src, sa_userProperty src])"

definition SubackDecode :: "slice \<Rightarrow> suback \<Rightarrow> suback outcome" where
  "SubackDecode src m =
     (case hdecode src m of
        Ret m1 hn \<Rightarrow> run [sa_variable [sa_plen_check] src, sa_reasonCodes ValidSubAckReasonCode hn src] m1 hn
      | r \<Rightarrow> r)"

definition UnsubackDecode :: "slice \<Rightarrow> suback \<Rightarrow> suback outcome" where
  "UnsubackDecode src m =
     (case hdecode src m of
        Ret m1 hn \<Rightarrow> run [sa_variable [] src, sa_reasonCodes ValidUnSubAckReasonCode hn src] m1 hn
      | r \<Rightarrow> r)"

section \<open>Encoding\<close>

definition sa_build :: "suback \<Rightarrow> suback option" where
  "sa_build m =
     (let tot = 2 + (if length (reasonStr m) > 0 then 1 + 2 + length (reasonStr m) else 0)
                + buildUserPropertyLen (userProperty m);
          pl = word_of_nat (tot - 2)
      in case lbEncode pl of
           None \<Rightarrow> None
         | Some b \<Rightarrow>
             Some (fst (SetRemainingLength (word_of_nat (tot + length b + length (reasonCodes m)))
               (m\<lparr>propertiesLen := pl\<rparr>))))"

definition sa_encode_rest :: "suback \<Rightarrow> bytes \<Rightarrow> nat \<Rightarrow> bytes outcome" where
  "sa_encode_rest m =
     run [w_bytes (if length (packetId m) \<ge> 2 then take 2 (packetId m) else [0, 0]),
          w_lb (propertiesLen m),
          guarded (length (reasonStr m) > 0) (run [w_bytes [ReasonString], writeLPBytes (reasonStr m)]),
          ignore_err (writeUserProperty (userProperty m)),
          w_copy (reasonCodes m)]"

definition sa_buf_rest :: "suback \<Rightarrow> bytes \<Rightarrow> nat \<Rightarrow> bytes outcome" where
  "sa_buf_rest m =
     run [b_bytes (if length (packetId m) \<noteq> 2 then [0, 0] else packetId m),
          b_lb (propertiesLen m),
          guarded (length (reasonStr m) > 0) (run [b_bytes [ReasonString], writeToBufLPBytes (reasonStr m)]),
          writeUserPropertyByBuf (userProperty m),
          b_bytes (reasonCodes m)]"

text \<open>UNSUBACK computes the same lengths.\<close>

definition unsuback_build :: "suback \<Rightarrow> suback option" where "unsuback_build = sa_build"

definition SubackLen :: "suback \<Rightarrow> (suback \<times> nat) option" where "SubackLen = plain_Len sa_build"
definition UnsubackLen :: "suback \<Rightarrow> (suback \<times> nat) option" where "UnsubackLen = plain_Len unsuback_build"

definition invalid_codes :: "suback \<Rightarrow> bool" where
  "invalid_codes m \<longleftrightarrow> dirty m \<and> \<not> list_all ValidSubAckReasonCode (reasonCodes m)"

definition SubackEncode :: "suback \<Rightarrow> bytes \<Rightarrow> suback \<times> bytes outcome" where
  "SubackEncode m dst =
     (if invalid_codes m then (m, Fail dst 0 (Errorf ''suback/Encode: Invalid return code''))
      else plain_Encode ''suback/Encode: Insufficient buffer size'' ''suback/Encode: Insufficient buffer size''
             sa_build sa_encode_rest m dst)"

definition SubackEncodeToBuf :: "suback \<Rightarrow> bytes \<Rightarrow> suback \<times> bytes outcome" where
  "SubackEncodeToBuf m buf =
     (if invalid_codes m then (m, Fail buf 0 (Errorf ''suback/Encode: Invalid return code''))
      else plain_EncodeToBuf sa_build sa_buf_rest m buf)"

definition UnsubackEncode :: "suback \<Rightarrow> bytes \<Rightarrow> suback \<times> bytes outcome" where
  "UnsubackEncode =
     plain_Encode ''unsuback/Encode: Insufficient buffer size'' ''unsuback/Encode: Insufficient buffer size''
       unsuback_build sa_encode_rest"

definition UnsubackEncodeToBuf :: "suback \<Rightarrow> bytes \<Rightarrow> suback \<times> bytes outcome" where
  "UnsubackEncodeToBuf = plain_EncodeToBuf unsuback_build sa_buf_rest"

section \<open>The packet a message stands for\<close>

definition sa_props :: "suback \<Rightarrow> bytes" where
  "sa_props m = (if reasonStr m \<noteq> [] then ReasonString # lp_wire (reasonStr m) else []) @ up_wire (userProperty m)"

definition sa_body_wire :: "suback \<Rightarrow> bytes" where
  "sa_body_wire m = packetId m @ lb_wire (length (sa_props m)) @ sa_props m @ reasonCodes m"

definition sa_remlen :: "suback \<Rightarrow> nat" where
  "sa_remlen m = 2 + length (lb_wire (length (sa_props m))) + length (sa_props m) + length (reasonCodes m)"

definition sa_built :: "suback \<Rightarrow> suback" where
  "sa_built m =
     m\<lparr>propertiesLen := word_of_nat (length (sa_props m)), remlen := word_of_nat (sa_remlen m), dirty := True\<rparr>"

definition sa_wire :: "suback \<Rightarrow> bytes" where
  "sa_wire m = header_wire (sa_built m) @ sa_body_wire m"

definition sa_ok :: "byte \<Rightarrow> suback \<Rightarrow> bool" where
  "sa_ok mt m \<longleftrightarrow>
     length (mtypeflags m) = 1 \<and> mtype m = mt \<and> flags_ok m \<and> length (packetId m) = 2 \<and>
     short (reasonStr m) \<and> list_all short (userProperty m) \<and> sa_remlen m \<le> 268435455"

lemma sa_built_frame [simp]:
  "sa_props (sa_built m) = sa_props m" "sa_remlen (sa_built m) = sa_remlen m" "mtypeflags (sa_built m) = mtypeflags m"
  "dirty (sa_built m)" "packetId (sa_built m) = packetId m" "reasonStr (sa_built m) = reasonStr m"
  "userProperty (sa_built m) = userProperty m" "reasonCodes (sa_built m) = reasonCodes m"
  by (simp_all add: sa_built_def sa_props_def sa_remlen_def)

lemma sa_plen_bound: "sa_ok mt m \<Longrightarrow> length (sa_props m) < 268435456"
  by (simp add: sa_ok_def sa_remlen_def)

lemma unat_sa:
  assumes "sa_ok mt m"
  shows "unat (remlen (sa_built m)) = sa_remlen m" "unat (propertiesLen (sa_built m)) = length (sa_props m)"
  using sa_plen_bound [OF assms] assms by (simp_all add: sa_built_def unat_small sa_ok_def)

lemma length_sa_body: "sa_ok mt m \<Longrightarrow> length (sa_body_wire m) = sa_remlen m"
  by (simp add: sa_body_wire_def sa_remlen_def sa_ok_def)

lemma sa_build_built:
  assumes "sa_ok mt m"
  shows "sa_build m = Some (sa_built m)"
proof -
  have tot: "2 + (if length (reasonStr m) > 0 then 1 + 2 + length (reasonStr m) else 0)
      + buildUserPropertyLen (userProperty m) = 2 + length (sa_props m)"
    by (simp add: sa_props_def length_wire)
  have lb: "lbEncode (word_of_nat (length (sa_props m))) = Some (lb_wire (length (sa_props m)))"
    using sa_plen_bound [OF assms] by (simp add: lbEncode_spec word_less_nat_alt unat_small)
  have rem: "2 + length (sa_props m) + length (lb_wire (length (sa_props m))) + length (reasonCodes m) = sa_remlen m"
    by (simp add: sa_remlen_def)
  have b: "\<not> (word_of_nat (sa_remlen m) :: u32) > maxRemainingLength"
    using assms by (simp add: sa_ok_def maxRemainingLength_def word_less_nat_alt unat_small)
  show ?thesis
    unfolding sa_build_def Let_def tot add_diff_cancel_left' lb option.case rem
    using b by (simp add: SetRemainingLength_def sa_built_def)
qed

lemma sa_rest_emits:
  assumes ok: "sa_ok mt m"
  shows "emits_w (sa_encode_rest (sa_built m)) (sa_body_wire m)" "emits_b (sa_buf_rest (sa_built m)) (sa_body_wire m)"
proof -
  have p: "propertiesLen (sa_built m) < 268435456"
    using unat_sa(2) [OF ok] sa_plen_bound [OF ok] by (simp add: word_less_nat_alt)
  have s: "short (reasonStr m)" "list_all short (userProperty m)" using ok by (simp_all add: sa_ok_def)
  have pid: "(if length (packetId m) \<ge> 2 then take 2 (packetId m) else [0, 0]) = packetId m"
    "(if length (packetId m) \<noteq> 2 then [0, 0] else packetId m) = packetId m"
    using ok by (simp_all add: sa_ok_def)
  have w: "sa_body_wire m = packetId m @ lb_wire (unat (propertiesLen (sa_built m))) @
      (if length (reasonStr m) > 0 then [ReasonString] @ lp_wire (reasonStr m) @ [] else []) @
      up_wire (userProperty m) @ reasonCodes m @ []"
    by (simp add: sa_body_wire_def unat_sa(2) [OF ok]) (simp add: sa_props_def)
  show "emits_w (sa_encode_rest (sa_built m)) (sa_body_wire m)"
    unfolding sa_encode_rest_def sa_built_frame pid w by (intro emits p s)
  show "emits_b (sa_buf_rest (sa_built m)) (sa_body_wire m)"
    unfolding sa_buf_rest_def sa_built_frame pid w by (intro emits p s)
qed

lemma sa_header:
  assumes ok: "sa_ok mt m" and mt: "type_Valid mt"
  shows "header_ok (sa_built m)" "flags_ok (sa_built m)" "mtype (sa_built m) = mt"
proof -
  show t: "mtype (sa_built m) = mt" using ok mtype_cong [of "sa_built m" m] by (simp add: sa_ok_def)
  show "header_ok (sa_built m)"
    using unat_sa(1) [OF ok] ok mt
    by (simp add: header_ok_def t maxRemainingLength_def word_le_nat_alt) (simp add: sa_ok_def)
  show "flags_ok (sa_built m)" using ok flags_ok_cong [of "sa_built m" m] by (simp add: sa_ok_def)
qed

lemma sa_types: "type_Valid SUBACK" "type_Valid UNSUBACK"
  by (simp_all add: type_Valid_def SUBACK_def UNSUBACK_def)

interpretation suback: plain_packet sa_build sa_built sa_body_wire "sa_ok SUBACK" sa_encode_rest sa_buf_rest
  by unfold_locales
     (simp_all add: sa_build_built sa_header sa_types unat_sa length_sa_body sa_rest_emits)

interpretation unsuback: plain_packet sa_build sa_built sa_body_wire "sa_ok UNSUBACK" sa_encode_rest sa_buf_rest
  by unfold_locales
     (simp_all add: sa_build_built sa_header sa_types unat_sa length_sa_body sa_rest_emits)

section \<open>Decoding the packet\<close>

text \<open>The reason codes must not look like a property.\<close>

definition codes_apart :: "(byte \<Rightarrow> bool) \<Rightarrow> bool" where
  "codes_apart valid \<longleftrightarrow> \<not> valid ReasonString \<and> \<not> valid UserProperty"

lemma codes_next:
  assumes "codes_apart valid" "list_all valid cs" "cs \<noteq> []"
  shows "not_next ReasonString cs" "not_next UserProperty cs"
  using assms by (cases cs; auto simp: codes_apart_def not_next_def)+

lemma c_sa_packetId: "length pid = 2 \<Longrightarrow> consumes sa_packetId pid (packetId_update (\<lambda>_. pid)) rest"
  unfolding sa_packetId_def [abs_def] by (rule consumes_id)

lemma c_sa_userProperty:
  "list_all short ups \<Longrightarrow> even (length ups) \<Longrightarrow> not_next UserProperty rest \<Longrightarrow>
     consumes sa_userProperty (up_wire ups) (userProperty_update (\<lambda>_. ups)) rest"
  unfolding sa_userProperty_def [abs_def] by (rule consumes_up)

lemma c_sa_propertiesLen:
  "n < 268435456 \<Longrightarrow> consumes sa_propertiesLen (lb_wire n) (propertiesLen_update (\<lambda>_. word_of_nat n)) rest"
  unfolding sa_propertiesLen_def [abs_def] by (rule consumes_lb)

lemma c_sa_reasonStr:
  assumes "rest \<noteq> []" "not_next ReasonString rest" "short v"
  shows "consumes sa_reasonStr (if v \<noteq> [] then ReasonString # lp_wire v else [])
    (if v \<noteq> [] then reasonStr_update (\<lambda>_. v) else id) rest"
proof -
  have check: "consumes_when (\<lambda>m. True) sa_reasonStr_check [] id rest"
    using assms by (cases rest) (auto simp: consumes_when_def sa_reasonStr_check_def sat_app)
  show ?thesis
    unfolding sa_reasonStr_def
    by (intro consumes_prop consumes_then_test [where P = "\<lambda>m. True"] consumes_lp check assms TrueI)
qed

definition sa_set :: "suback \<Rightarrow> suback \<Rightarrow> suback" where
  "sa_set n m =
     m\<lparr>packetId := packetId n, propertiesLen := word_of_nat (length (sa_props n)),
       reasonStr := (if reasonStr n \<noteq> [] then reasonStr n else reasonStr m), userProperty := userProperty n\<rparr>"

lemma sa_variable_wire:
  assumes ok: "sa_ok mt n" and ev: "even (length (userProperty n))"
    and nx: "not_next ReasonString (reasonCodes n)" "not_next UserProperty (reasonCodes n)" "reasonCodes n \<noteq> []"
    and chk: "check = [] \<or> check = [sa_plen_check]"
  shows "sa_variable check (Slice (pre @ sa_body_wire n) ex) m (length pre) =
    Ret (sa_set n m) (length pre + (2 + length (lb_wire (length (sa_props n))) + length (sa_props n)))"
proof -
  define src where "src = Slice (pre @ sa_body_wire n) ex"
  define pre2 where "pre2 = pre @ packetId n @ lb_wire (length (sa_props n))"
  define m1 where "m1 = m\<lparr>packetId := packetId n, propertiesLen := word_of_nat (length (sa_props n))\<rparr>"
  have pid: "length (packetId n) = 2" and s: "short (reasonStr n)" "list_all short (userProperty n)"
    using ok by (simp_all add: sa_ok_def)
  have w1: "src = Slice (pre @ (packetId n @ lb_wire (length (sa_props n)) @ []) @ sa_props n @ reasonCodes n) ex"
    by (simp add: src_def sa_body_wire_def)
  have w2: "src = Slice (pre2 @ ((if reasonStr n \<noteq> [] then ReasonString # lp_wire (reasonStr n) else []) @
      up_wire (userProperty n) @ []) @ reasonCodes n) ex"
    by (simp add: src_def sa_body_wire_def sa_props_def pre2_def)
  have p2: "length pre2 = length pre + 2 + length (lb_wire (length (sa_props n)))" by (simp add: pre2_def pid)
  have "run [sa_packetId src, sa_propertiesLen src] m (length pre) = Ret m1 (length pre2)"
    unfolding w1
    by (subst consumesD [OF consumes_Cons [OF c_sa_packetId [OF pid]
          consumes_Cons [OF c_sa_propertiesLen [OF sa_plen_bound [OF ok]] consumes_Nil]] refl])
       (simp add: m1_def pre2_def)
  moreover have "run (map (\<lambda>c. c src) check) m1 (length pre2) = Ret m1 (length pre2)"
    using chk sa_plen_bound [OF ok]
    by (auto simp: sa_plen_check_def m1_def src_def slen_def pre2_def sa_body_wire_def unat_small)
  moreover have "run [sa_reasonStr src, sa_userProperty src] m1 (length pre2) =
      Ret (sa_set n m) (length pre2 + length (sa_props n))"
    unfolding w2
    by (subst consumesD [OF consumes_Cons [OF c_sa_reasonStr [where v = "reasonStr n"]
          consumes_Cons [OF c_sa_userProperty [OF s(2) ev] consumes_Nil]] refl])
       (use nx in \<open>auto simp: s sa_set_def m1_def sa_props_def UserProperty_def ReasonString_def\<close>)
  ultimately show ?thesis
    unfolding sa_variable_def src_def [symmetric]
    by (simp only: run_append outcome.case) (simp add: p2)
qed

lemma sa_codes_wire:
  assumes ok: "sa_ok mt n" and valid: "list_all valid (reasonCodes n)" and ne: "reasonCodes n \<noteq> []"
    and rem: "unat (remlen m) = sa_remlen n"
    and t: "t = length hw + (2 + length (lb_wire (length (sa_props n))) + length (sa_props n))"
  shows "sa_reasonCodes valid (length hw) (Slice (hw @ sa_body_wire n) ex) m t =
    Ret (m\<lparr>reasonCodes := reasonCodes n, dirty := False\<rparr>) (length (hw @ sa_body_wire n))"
proof -
  define pre where "pre = hw @ packetId n @ lb_wire (length (sa_props n)) @ sa_props n"
  have lp: "length pre = t" using ok by (simp add: pre_def t sa_ok_def)
  have w: "hw @ sa_body_wire n = pre @ reasonCodes n" by (simp add: pre_def sa_body_wire_def)
  have l: "int (unat (remlen m)) - (int t - int (length hw)) = int (length (reasonCodes n))"
    unfolding rem t by (simp add: sa_remlen_def)
  have r: "srange (Slice (pre @ reasonCodes n) ex) t (t + length (reasonCodes n)) = Some (Slice (reasonCodes n) ex)"
    by (simp add: srange_def lp [symmetric])
  show ?thesis
    unfolding sa_reasonCodes_def l w
    using ne valid by (simp add: r CopyLen_take Let_def lp)
qed

definition sa_received :: "slice \<Rightarrow> suback \<Rightarrow> suback \<Rightarrow> suback" where
  "sa_received src n m0 =
     (sa_set n (m0\<lparr>dbuf := src, mtypeflags := mtypeflags n, remlen := word_of_nat (sa_remlen n)\<rparr>))
       \<lparr>reasonCodes := reasonCodes n, dirty := False\<rparr>"

lemma sa_Decode_wire:
  assumes ok: "sa_ok mt n" and ev: "even (length (userProperty n))" and apart: "codes_apart valid"
    and valid: "list_all valid (reasonCodes n)" and ne: "reasonCodes n \<noteq> []"
    and chk: "check = [] \<or> check = [sa_plen_check]"
    and h: "hdecode (Slice (sa_wire n) ex) m0 =
      Ret (m0\<lparr>dbuf := Slice (sa_wire n) ex, mtypeflags := mtypeflags (sa_built n), remlen := remlen (sa_built n)\<rparr>)
        (length (header_wire (sa_built n)))"
  shows "(case hdecode (Slice (sa_wire n) ex) m0 of
      Ret m1 hn \<Rightarrow> run [sa_variable check (Slice (sa_wire n) ex), sa_reasonCodes valid hn (Slice (sa_wire n) ex)] m1 hn
    | r \<Rightarrow> r) = Ret (sa_received (Slice (sa_wire n) ex) n m0) (length (sa_wire n))"
proof -
  define src where "src = Slice (sa_wire n) ex"
  define h1 where "h1 = m0\<lparr>dbuf := src, mtypeflags := mtypeflags (sa_built n), remlen := remlen (sa_built n)\<rparr>"
  note nx = codes_next [OF apart valid ne]
  have var: "sa_variable check src h1 (length (header_wire (sa_built n))) =
      Ret (sa_set n h1) (length (header_wire (sa_built n)) +
        (2 + length (lb_wire (length (sa_props n))) + length (sa_props n)))"
    unfolding src_def sa_wire_def by (rule sa_variable_wire [OF ok ev nx ne chk])
  have rem: "unat (remlen (sa_set n h1)) = sa_remlen n"
    using unat_sa(1) [OF ok] by (simp add: sa_set_def h1_def)
  have codes: "sa_reasonCodes valid (length (header_wire (sa_built n))) src (sa_set n h1)
      (length (header_wire (sa_built n)) + (2 + length (lb_wire (length (sa_props n))) + length (sa_props n))) =
    Ret ((sa_set n h1)\<lparr>reasonCodes := reasonCodes n, dirty := False\<rparr>) (length (sa_wire n))"
    unfolding src_def sa_wire_def by (rule sa_codes_wire [OF ok valid ne rem refl])
  have res: "(sa_set n h1)\<lparr>reasonCodes := reasonCodes n, dirty := False\<rparr> = sa_received src n m0"
    by (simp add: sa_received_def sa_set_def h1_def sa_built_def)
  have h': "hdecode src m0 = Ret h1 (length (header_wire (sa_built n)))"
    using h by (simp only: src_def h1_def)
  show ?thesis
    unfolding src_def [symmetric] h' outcome.case run.simps var codes res by simp
qed

lemma new_suback_eq:
  "NewSubackMessage =
     \<lparr>remlen = 0, mtypeflags = [0x90], packetId = [], dbuf = Slice [] [], dirty = True,
       propertiesLen = 0, reasonStr = [], userProperty = [], reasonCodes = []\<rparr>"
  "NewUnsubackMessage =
     \<lparr>remlen = 0, mtypeflags = [0xB0], packetId = [], dbuf = Slice [] [], dirty = True,
       propertiesLen = 0, reasonStr = [], userProperty = [], reasonCodes = []\<rparr>"
  by code_simp+

text \<open>A SUBACK that is dirty and can be sent is written to a slice and to a buffer as the same
  packet, whose length \<open>Len\<close> reports, and a new SUBACK that decodes the packet consumes it and gets
  the identifier, the properties and the reason codes back.\<close>

theorem suback_codec:
  assumes "dirty n" "sa_ok SUBACK n" "even (length (userProperty n))"
    "list_all ValidSubAckReasonCode (reasonCodes n)" "reasonCodes n \<noteq> []" "length (sa_wire n) \<le> length dst"
  shows "SubackLen n = Some (sa_built n, length (sa_wire n)) \<and>
    SubackEncode n dst = (sa_built n, Ret (sa_wire n @ drop (length (sa_wire n)) dst) (length (sa_wire n))) \<and>
    SubackEncodeToBuf n buf = (sa_built n, Ret (buf @ sa_wire n) (length buf + length (sa_wire n))) \<and>
    (\<exists>m'. SubackDecode (Slice (sa_wire n) ex) NewSubackMessage = Ret m' (length (sa_wire n)) \<and>
      packetId m' = packetId n \<and> reasonStr m' = reasonStr n \<and> userProperty m' = userProperty n \<and>
      reasonCodes m' = reasonCodes n)"
proof -
  have v: "codes_apart ValidSubAckReasonCode"
    by (simp add: codes_apart_def ValidSubAckReasonCode_def ReasonString_def UserProperty_def)
  have m0: "length (mtypeflags NewSubackMessage) = 1" "mtype NewSubackMessage = SUBACK"
    by (simp_all add: new_suback_eq mtype_def alloc_flags_def SUBACK_def)
  have "sa_body_wire n \<noteq> []" using length_sa_body [OF assms(2)] by (auto simp: sa_remlen_def)
  then have "SubackDecode (Slice (sa_wire n) ex) NewSubackMessage =
      Ret (sa_received (Slice (sa_wire n) ex) n NewSubackMessage) (length (sa_wire n))"
    using suback.header_decoded [OF assms(2) refl _ m0(1), of ex] m0(2) sa_header(3) [OF assms(2) sa_types(1)]
    unfolding SubackDecode_def by (intro sa_Decode_wire [OF assms(2,3) v assms(4,5)]) (simp_all add: sa_wire_def)
  then show ?thesis
    using suback.encoders_agree [OF assms(1,2), folded sa_wire_def, OF assms(6)] assms(4)
    by (simp add: SubackLen_def SubackEncode_def SubackEncodeToBuf_def invalid_codes_def)
       (simp add: sa_received_def sa_set_def new_suback_eq)
qed

text \<open>The same for UNSUBACK: one packet from both encoders, of the length \<open>Len\<close> reports, that a new
  UNSUBACK decodes to the identifier, the properties and the reason codes.\<close>

theorem unsuback_codec:
  assumes "dirty n" "sa_ok UNSUBACK n" "even (length (userProperty n))"
    "list_all ValidUnSubAckReasonCode (reasonCodes n)" "reasonCodes n \<noteq> []" "length (sa_wire n) \<le> length dst"
  shows "UnsubackLen n = Some (sa_built n, length (sa_wire n)) \<and>
    UnsubackEncode n dst = (sa_built n, Ret (sa_wire n @ drop (length (sa_wire n)) dst) (length (sa_wire n))) \<and>
    UnsubackEncodeToBuf n buf = (sa_built n, Ret (buf @ sa_wire n) (length buf + length (sa_wire n))) \<and>
    (\<exists>m'. UnsubackDecode (Slice (sa_wire n) ex) NewUnsubackMessage = Ret m' (length (sa_wire n)) \<and>
      packetId m' = packetId n \<and> reasonStr m' = reasonStr n \<and> userProperty m' = userProperty n \<and>
      reasonCodes m' = reasonCodes n)"
proof -
  have v: "codes_apart ValidUnSubAckReasonCode"
    by (simp add: codes_apart_def ValidUnSubAckReasonCode_def ReasonString_def UserProperty_def)
  have m0: "length (mtypeflags NewUnsubackMessage) = 1" "mtype NewUnsubackMessage = UNSUBACK"
    by (simp_all add: new_suback_eq mtype_def alloc_flags_def UNSUBACK_def)
  have "sa_body_wire n \<noteq> []" using length_sa_body [OF assms(2)] by (auto simp: sa_remlen_def)
  then have "UnsubackDecode (Slice (sa_wire n) ex) NewUnsubackMessage =
      Ret (sa_received (Slice (sa_wire n) ex) n NewUnsubackMessage) (length (sa_wire n))"
    using unsuback.header_decoded [OF assms(2) refl _ m0(1), of ex] m0(2) sa_header(3) [OF assms(2) sa_types(2)]
    unfolding UnsubackDecode_def by (intro sa_Decode_wire [OF assms(2,3) v assms(4,5)]) (simp_all add: sa_wire_def)
  then show ?thesis
    using unsuback.encoders_agree [OF assms(1,2), folded sa_wire_def, OF assms(6)]
    by (simp add: UnsubackLen_def unsuback_build_def UnsubackEncode_def UnsubackEncodeToBuf_def)
       (simp add: sa_received_def sa_set_def new_suback_eq)
qed

section \<open>Witnesses\<close>

definition demo_suback :: suback where
  "demo_suback = fst (AddReasonCodes [1, 0x80] (AddUserPropertys [[107], [118]] (SetReasonStr [110, 111] (SetPacketId 258 NewSubackMessage))))"

definition demo_unsuback :: suback where
  "demo_unsuback = UnsubackAddReasonCodes [0, 0x11] (SetReasonStr [110, 111] (SetPacketId 258 NewUnsubackMessage))"

lemma demo_suback_eq:
  "demo_suback =
     \<lparr>remlen = 0, mtypeflags = [0x90], packetId = [1, 2], dbuf = Slice [] [], dirty = True,
       propertiesLen = 0, reasonStr = [110, 111], userProperty = [[107], [118]], reasonCodes = [1, 0x80]\<rparr>"
  "demo_unsuback =
     \<lparr>remlen = 0, mtypeflags = [0xB0], packetId = [1, 2], dbuf = Slice [] [], dirty = True,
       propertiesLen = 0, reasonStr = [110, 111], userProperty = [], reasonCodes = [0, 0x11]\<rparr>"
  by code_simp+

lemma demo_suback_len: "sa_remlen demo_suback = 17" "sa_remlen demo_unsuback = 10"
proof -
  have p: "length (sa_props demo_suback) = 12" "length (sa_props demo_unsuback) = 5" by code_simp+
  show "sa_remlen demo_suback = 17" "sa_remlen demo_unsuback = 10"
    by (simp_all add: sa_remlen_def p lb_wire.simps [of 12] lb_wire.simps [of 5]) (simp_all add: demo_suback_eq)
qed

lemma demo_suback_ok: "sa_ok SUBACK demo_suback" "sa_ok UNSUBACK demo_unsuback"
proof -
  have "mtype demo_suback = SUBACK" "flags_ok demo_suback" "mtype demo_unsuback = UNSUBACK" "flags_ok demo_unsuback"
    by code_simp+
  then show "sa_ok SUBACK demo_suback" "sa_ok UNSUBACK demo_unsuback"
    by (simp_all add: sa_ok_def demo_suback_len) (simp_all add: demo_suback_eq short_def)
qed

lemma length_sa_wire: "sa_ok mt n \<Longrightarrow> length (sa_wire n) \<le> 5 + sa_remlen n"
proof -
  assume ok: "sa_ok mt n"
  have "length (lb_wire (unat (remlen (sa_built n)))) \<le> 4"
    using ok unat_sa(1) [OF ok] by (intro length_lb_wire) (simp add: sa_ok_def)
  then show ?thesis by (simp add: sa_wire_def header_wire_def length_sa_body [OF ok])
qed

theorem suback_codec_witness:
  "SubackLen demo_suback = Some (sa_built demo_suback, length (sa_wire demo_suback)) \<and>
    SubackEncode demo_suback (replicate 64 0) =
      (sa_built demo_suback, Ret (sa_wire demo_suback @ drop (length (sa_wire demo_suback)) (replicate 64 0))
        (length (sa_wire demo_suback))) \<and>
    SubackEncodeToBuf demo_suback [] =
      (sa_built demo_suback, Ret ([] @ sa_wire demo_suback) (length ([] :: bytes) + length (sa_wire demo_suback))) \<and>
    (\<exists>m'. SubackDecode (Slice (sa_wire demo_suback) []) NewSubackMessage = Ret m' (length (sa_wire demo_suback)) \<and>
      packetId m' = packetId demo_suback \<and> reasonStr m' = reasonStr demo_suback \<and>
      userProperty m' = userProperty demo_suback \<and> reasonCodes m' = reasonCodes demo_suback)"
proof (rule suback_codec)
  show "length (sa_wire demo_suback) \<le> length (replicate 64 (0 :: byte))"
    using length_sa_wire [OF demo_suback_ok(1)] by (simp add: demo_suback_len)
qed (simp_all add: demo_suback_ok, simp_all add: demo_suback_eq ValidSubAckReasonCode_def)

theorem unsuback_codec_witness:
  "UnsubackLen demo_unsuback = Some (sa_built demo_unsuback, length (sa_wire demo_unsuback)) \<and>
    UnsubackEncode demo_unsuback (replicate 64 0) =
      (sa_built demo_unsuback, Ret (sa_wire demo_unsuback @ drop (length (sa_wire demo_unsuback)) (replicate 64 0))
        (length (sa_wire demo_unsuback))) \<and>
    UnsubackEncodeToBuf demo_unsuback [] =
      (sa_built demo_unsuback, Ret ([] @ sa_wire demo_unsuback) (length ([] :: bytes) + length (sa_wire demo_unsuback))) \<and>
    (\<exists>m'. UnsubackDecode (Slice (sa_wire demo_unsuback) []) NewUnsubackMessage = Ret m' (length (sa_wire demo_unsuback)) \<and>
      packetId m' = packetId demo_unsuback \<and> reasonStr m' = reasonStr demo_unsuback \<and>
      userProperty m' = userProperty demo_unsuback \<and> reasonCodes m' = reasonCodes demo_unsuback)"
proof (rule unsuback_codec)
  show "length (sa_wire demo_unsuback) \<le> length (replicate 64 (0 :: byte))"
    using length_sa_wire [OF demo_suback_ok(2)] by (simp add: demo_suback_len)
qed (simp_all add: demo_suback_ok, simp_all add: demo_suback_eq ValidUnSubAckReasonCode_def)

text \<open>\<open>AddReasonCodes\<close> keeps the codes in front of the one it rejects.\<close>

lemma AddReasonCodes_keeps_prefix:
  "AddReasonCodes [1, 0x83] m =
     (m\<lparr>reasonCodes := reasonCodes m @ [1]\<rparr>, Some (Errorf ''suback/AddReturnCode: Invalid return code. Must be 0, 1, 2, 0x80.''))"
  by (simp add: qos_defs)

end
