(* ===== verification/AckQueue.thy ===== *)
theory AckQueue
  imports Header
begin

text \<open>
  The queue of messages that wait for their acknowledgement,
  \<open>corev5/v2/sessions/impl/mem_ackqueue.go\<close>: a ring buffer that grows, with a map from packet
  identifiers to positions. The queue uses a message through the \<open>Message\<close> interface only, which
  is the record \<open>msg_ops\<close>: the dynamic type, \<open>Type()\<close>, \<open>PacketId()\<close>, \<open>QoS()\<close> and \<open>Dup()\<close> of a
  PUBLISH, and the buffer of \<open>Len()\<close> bytes that \<open>Encode\<close> leaves, with its error.

  Positions are natural numbers: an \<open>int64\<close> that is never negative. An access outside the ring and
  the explicit \<open>panic\<close> of \<open>grow\<close> are the result \<open>None\<close>.
\<close>

section \<open>State\<close>

definition RESERVED :: byte where "RESERVED = 0"

record 'm msg_ops =
  m_dyntype :: "'m \<Rightarrow> byte"
  m_type :: "'m \<Rightarrow> byte"
  m_pid :: "'m \<Rightarrow> u16"
  m_qos :: "'m \<Rightarrow> byte"
  m_dup :: "'m \<Rightarrow> bool"
  m_encode :: "'m \<Rightarrow> bytes \<times> goerr option"

record 'c ackmsg =
  Mtype :: byte
  State :: byte
  Pktid :: u16
  Msgbuf :: bytes
  Ackbuf :: bytes
  OnComplete :: "'c option"

definition no_ackmsg :: "'c ackmsg" where
  "no_ackmsg = \<lparr>Mtype = 0, State = 0, Pktid = 0, Msgbuf = [], Ackbuf = [], OnComplete = None\<rparr>"

record 'c ackqueue =
  aq_size :: nat
  aq_mask :: nat
  aq_count :: nat
  aq_head :: nat
  aq_tail :: nat
  aq_ping :: "'c ackmsg"
  aq_ring :: "'c ackmsg list"
  aq_emap :: "(u16 \<times> nat) list"
  aq_ackdone :: "'c ackmsg list"

section \<open>The size of the ring\<close>

text \<open>On the bits of an \<open>int64\<close> that is not negative.\<close>

definition powerOfTwo64 :: "u64 \<Rightarrow> bool" where
  "powerOfTwo64 n \<longleftrightarrow> n \<noteq> 0 \<and> n AND (n - 1) = 0"

definition roundUpPowerOfTwo64 :: "u64 \<Rightarrow> u64" where
  "roundUpPowerOfTwo64 n =
     (let n = n - 1;
          n = n OR drop_bit 1 n;
          n = n OR drop_bit 2 n;
          n = n OR drop_bit 4 n;
          n = n OR drop_bit 8 n;
          n = n OR drop_bit 16 n;
          n = n OR drop_bit 32 n
      in n + 1)"

definition newAckqueue :: "u64 \<Rightarrow> 'c ackqueue" where
  "newAckqueue n =
     (let m = unat (if powerOfTwo64 n then n else roundUpPowerOfTwo64 n) in
      \<lparr>aq_size = m, aq_mask = m - 1, aq_count = 0, aq_head = 0, aq_tail = 0, aq_ping = no_ackmsg,
       aq_ring = replicate m no_ackmsg, aq_emap = [], aq_ackdone = []\<rparr>)"

section \<open>Operations\<close>

definition aq_index :: "'c ackqueue \<Rightarrow> nat \<Rightarrow> nat" where "aq_index q n = n AND aq_mask q"
definition aq_increment :: "'c ackqueue \<Rightarrow> nat \<Rightarrow> nat" where "aq_increment q n = aq_index q (n + 1)"
definition aq_full :: "'c ackqueue \<Rightarrow> bool" where "aq_full q \<longleftrightarrow> aq_count q = aq_size q"
definition aq_empty :: "'c ackqueue \<Rightarrow> bool" where "aq_empty q \<longleftrightarrow> aq_count q = 0"

text \<open>\<open>copy(dst[at:], src)\<close>\<close>

definition copy_at :: "nat \<Rightarrow> 'a list \<Rightarrow> 'a list \<Rightarrow> 'a list" where
  "copy_at i src dst = take i dst @ take (length dst - i) src @ drop (i + length src) dst"

text \<open>The map is filled in the order of the positions: a later one replaces an earlier one.\<close>

definition index_ring :: "'c ackmsg list \<Rightarrow> nat \<Rightarrow> (u16 \<times> nat) list" where
  "index_ring ring n = fold (\<lambda>i m. AList.update (Pktid (ring ! i)) i m) [0..<n] []"

definition aq_grow :: "'c ackqueue \<Rightarrow> 'c ackqueue option" where
  "aq_grow q =
     (if (2 ^ 63 - 1) div 2 < aq_size q then None
      else let newsize = 2 * aq_size q;
               new0 = replicate newsize no_ackmsg;
               newring =
                 (if aq_tail q > aq_head q then copy_at 0 (take (aq_tail q - aq_head q) (drop (aq_head q) (aq_ring q))) new0
                  else copy_at (aq_size q - aq_head q) (take (aq_tail q) (aq_ring q))
                         (copy_at 0 (drop (aq_head q) (aq_ring q)) new0))
           in Some (q\<lparr>aq_size := newsize, aq_mask := newsize - 1, aq_ring := newring, aq_head := 0,
                aq_tail := aq_count q, aq_emap := index_ring newring (aq_count q)\<rparr>))"

text \<open>The first component of the result is the error that \<open>Wait\<close> does not look at.\<close>

definition aq_insert :: "'m msg_ops \<Rightarrow> u16 \<Rightarrow> 'm \<Rightarrow> 'c option \<Rightarrow> 'c ackqueue \<Rightarrow> (goerr option \<times> 'c ackqueue) option" where
  "aq_insert M pktid msg onComplete q0 =
     (case (if aq_full q0 then aq_grow q0 else Some q0) of
        None \<Rightarrow> None
      | Some q \<Rightarrow>
          (case map_of (aq_emap q) pktid of
             None \<Rightarrow>
               (case m_encode M msg of
                  (buf, Some e) \<Rightarrow> Some (Some e, q)
                | (buf, None) \<Rightarrow>
                    (if aq_tail q < length (aq_ring q) then
                       Some (None, q\<lparr>
                         aq_ring := (aq_ring q)[aq_tail q := \<lparr>Mtype = m_type M msg, State = RESERVED,
                           Pktid = m_pid M msg, Msgbuf = buf, Ackbuf = [], OnComplete = onComplete\<rparr>],
                         aq_emap := AList.update pktid (aq_tail q) (aq_emap q),
                         aq_tail := aq_increment q (aq_tail q),
                         aq_count := aq_count q + 1\<rparr>)
                     else None))
           | Some i \<Rightarrow>
               (if m_dyntype M msg \<noteq> PUBLISH then Some (Some (Errorf ''ack/insert: duplicate packet ID''), q)
                else if m_dup M msg
                then Some (Some (Errorf ''ack/insert: duplicate packet ID for PUBLISH messagev5, but DUP flag is not set''), q)
                else Some (None, q))))"

definition errWaitMessage :: goerr where "errWaitMessage = Errorf ''Invalid messagev5 to wait for ack''"
definition errAckMessage :: goerr where "errAckMessage = Errorf ''Invalid messagev5 for acking''"

definition aq_Wait :: "'m msg_ops \<Rightarrow> 'm \<Rightarrow> 'c option \<Rightarrow> 'c ackqueue \<Rightarrow> (goerr option \<times> 'c ackqueue) option" where
  "aq_Wait M msg onComplete q =
     (if m_dyntype M msg = PUBLISH then
        (if m_qos M msg = QosAtMostOnce then Some (Some errWaitMessage, q)
         else map_option (\<lambda>r. (None, snd r)) (aq_insert M (m_pid M msg) msg onComplete q))
      else if m_dyntype M msg = SUBSCRIBE \<or> m_dyntype M msg = UNSUBSCRIBE then
        map_option (\<lambda>r. (None, snd r)) (aq_insert M (m_pid M msg) msg onComplete q)
      else if m_dyntype M msg = PINGREQ then
        Some (None, q\<lparr>aq_ping := no_ackmsg\<lparr>Mtype := PINGREQ, State := RESERVED, OnComplete := onComplete\<rparr>\<rparr>)
      else Some (Some errWaitMessage, q))"

definition ack_types :: "byte set" where
  "ack_types = {PUBACK, PUBREC, PUBREL, PUBCOMP, SUBACK, UNSUBACK}"

definition aq_Ack :: "'m msg_ops \<Rightarrow> 'm \<Rightarrow> 'c ackqueue \<Rightarrow> (goerr option \<times> 'c ackqueue) option" where
  "aq_Ack M msg q =
     (if m_type M msg \<in> ack_types then
        (case map_of (aq_emap q) (m_pid M msg) of
           None \<Rightarrow> Some (None, q)
         | Some i \<Rightarrow>
             (if i < length (aq_ring q) then
                (case m_encode M msg of
                   (buf, e) \<Rightarrow> Some (e, q\<lparr>aq_ring :=
                     (aq_ring q)[i := (aq_ring q ! i)\<lparr>State := m_type M msg, Ackbuf := buf\<rparr>]\<rparr>))
              else None))
      else if m_type M msg = PINGRESP then
        (if Mtype (aq_ping q) = PINGREQ then Some (None, q\<lparr>aq_ping := (aq_ping q)\<lparr>State := PINGRESP\<rparr>\<rparr>)
         else Some (None, q))
      else Some (Some errAckMessage, q))"

definition aq_removeHead :: "'c ackqueue \<Rightarrow> (goerr option \<times> 'c ackqueue) option" where
  "aq_removeHead q =
     (if aq_empty q then Some (Some (Errorf ''queue empty''), q)
      else if aq_head q < length (aq_ring q) then
        Some (None, q\<lparr>
          aq_ring := (aq_ring q)[aq_head q := no_ackmsg],
          aq_head := aq_increment q (aq_head q),
          aq_count := aq_count q - 1,
          aq_emap := AList.delete (Pktid (aq_ring q ! aq_head q)) (aq_emap q)\<rparr>)
      else None)"

text \<open>A message is complete in these states; PUBREC is not among them.\<close>

definition done_types :: "byte set" where
  "done_types = {PUBACK, PUBREL, PUBCOMP, SUBACK, UNSUBACK}"

function acked_loop :: "'c ackqueue \<Rightarrow> 'c ackqueue option" where
  "acked_loop q =
     (if aq_empty q then Some q
      else if \<not> aq_head q < length (aq_ring q) then None
      else if State (aq_ring q ! aq_head q) \<in> done_types then
        (case aq_removeHead (q\<lparr>aq_ackdone := aq_ackdone q @ [aq_ring q ! aq_head q]\<rparr>) of
           None \<Rightarrow> None
         | Some (e, q') \<Rightarrow> acked_loop q')
      else Some q)"
  by pat_completeness auto
termination
  by (relation "measure aq_count") (auto simp: aq_removeHead_def aq_empty_def split: if_splits)

declare acked_loop.simps [simp del]

definition aq_Acked :: "'c ackqueue \<Rightarrow> ('c ackmsg list \<times> 'c ackqueue) option" where
  "aq_Acked q0 =
     (let q = q0\<lparr>aq_ackdone := []\<rparr>;
          q = (if State (aq_ping q) = PINGRESP then q\<lparr>aq_ackdone := [aq_ping q], aq_ping := no_ackmsg\<rparr> else q)
      in map_option (\<lambda>q'. (aq_ackdone q', q')) (acked_loop q))"

section \<open>The ring as a list\<close>

text \<open>The waiting messages, oldest first, and the invariant of the ring.\<close>

definition aq_list :: "'c ackqueue \<Rightarrow> 'c ackmsg list" where
  "aq_list q = take (aq_count q) (rotate (aq_head q) (aq_ring q))"

definition aq_ok :: "'c ackqueue \<Rightarrow> bool" where
  "aq_ok q \<longleftrightarrow>
     (\<exists>k. aq_size q = 2 ^ k) \<and> aq_mask q = aq_size q - 1 \<and> length (aq_ring q) = aq_size q \<and>
     aq_count q \<le> aq_size q \<and> aq_head q < aq_size q \<and>
     aq_tail q = (aq_head q + aq_count q) mod aq_size q \<and>
     distinct (map Pktid (aq_list q)) \<and> distinct (map fst (aq_emap q)) \<and>
     (\<forall>p. map_of (aq_emap q) p =
        map_option (\<lambda>i. (aq_head q + i) mod aq_size q) (find_index p (map Pktid (aq_list q))))"

lemma and_mask_mod: "n AND (2 ^ k - 1) = n mod (2 ^ k :: nat)"
  by (metis mask_eq_exp_minus_1 take_bit_eq_mask take_bit_eq_mod)

lemma aq_index_mod: "aq_ok q \<Longrightarrow> aq_index q n = n mod aq_size q"
  by (auto simp: aq_ok_def aq_index_def and_mask_mod [simplified])

lemma mod_shift_le:
  "i \<le> j \<Longrightarrow> j < n \<Longrightarrow> (h + j) mod n = (h + i) mod n \<Longrightarrow> i = (j :: nat)"
proof -
  assume a: "i \<le> j" "j < n" "(h + j) mod n = (h + i) mod n"
  have "n dvd (h + j) - (h + i)" using a(1,3) by (subst mod_eq_dvd_iff_nat [symmetric]) simp_all
  then have "n dvd j - i" by simp
  show "i = j"
  proof (rule ccontr)
    assume "i \<noteq> j"
    then have "n \<le> j - i" using a(1) \<open>n dvd j - i\<close> by (intro dvd_imp_le) simp_all
    then show False using a(2) by simp
  qed
qed

lemma mod_shift_inj: "i < n \<Longrightarrow> j < n \<Longrightarrow> (h + j) mod n = (h + i) mod n \<longleftrightarrow> i = (j :: nat)"
  using mod_shift_le [of i j n h] mod_shift_le [of j i n h] by (cases "i \<le> j") auto

lemma rotate_update:
  assumes "j < length xs"
  shows "rotate h (xs[(h + j) mod length xs := x]) = (rotate h xs)[j := x]"
proof (rule nth_equalityI)
  fix i assume i: "i < length (rotate h (xs[(h + j) mod length xs := x]))"
  have inj: "(h + j) mod length xs = (h + i) mod length xs \<longleftrightarrow> i = j"
    using i assms by (intro mod_shift_inj) simp_all
  show "rotate h (xs[(h + j) mod length xs := x]) ! i = (rotate h xs)[j := x] ! i"
  proof (cases "i = j")
    case True
    have "(h + j) mod length xs < length xs" using assms by (intro mod_less_divisor) auto
    then show ?thesis using i True by (simp add: nth_rotate)
  next
    case False
    then show ?thesis using i inj by (simp add: nth_rotate)
  qed
qed simp

lemma take_Suc_update: "n < length xs \<Longrightarrow> take (Suc n) (xs[n := x]) = take n xs @ [x]"
  by (simp add: take_Suc_conv_app_nth)

lemma length_aq_list: "aq_ok q \<Longrightarrow> length (aq_list q) = aq_count q"
  by (simp add: aq_ok_def aq_list_def)

lemma aq_list_nth: "aq_ok q \<Longrightarrow> i < aq_count q \<Longrightarrow> aq_list q ! i = aq_ring q ! ((aq_head q + i) mod aq_size q)"
  by (simp add: aq_ok_def aq_list_def nth_rotate)

lemma find_index_append:
  "find_index p (xs @ ys) =
     (case find_index p xs of Some i \<Rightarrow> Some i | None \<Rightarrow> map_option (\<lambda>i. length xs + i) (find_index p ys))"
  by (induction xs; cases "find_index p ys") (auto split: option.splits)

lemma find_index_distinct: "distinct xs \<Longrightarrow> i < length xs \<Longrightarrow> find_index (xs ! i) xs = Some i"
proof (induction xs arbitrary: i)
  case Nil
  then show ?case by simp
next
  case (Cons x xs)
  then show ?case by (cases i) (auto simp: in_set_conv_nth)
qed

lemma index_ring_find:
  "distinct (map Pktid xs) \<Longrightarrow> map_of (index_ring (xs @ ys) (length xs)) p = find_index p (map Pktid xs)"
proof (induction xs arbitrary: ys rule: rev_induct)
  case Nil
  then show ?case by (simp add: index_ring_def)
next
  case (snoc x xs)
  have "index_ring ((xs @ [x]) @ ys) (length (xs @ [x])) =
      AList.update (Pktid x) (length xs) (index_ring (xs @ x # ys) (length xs))"
    by (simp add: index_ring_def)
  then show ?case
    using snoc by (auto simp: map_of_update_AList find_index_append split: option.splits)
qed

lemma index_ring_distinct: "distinct (map fst (index_ring ring n))"
  by (induction n) (simp_all add: index_ring_def distinct_keys_update)

section \<open>Growing\<close>

lemma copy_at_all: "length src \<le> length dst \<Longrightarrow> copy_at 0 src dst = src @ drop (length src) dst"
  by (simp add: copy_at_def)

lemma aq_grow_ok:
  assumes ok: "aq_ok q" and full: "aq_full q" and small: "aq_size q \<le> (2 ^ 63 - 1) div 2"
  shows "\<exists>q'. aq_grow q = Some q' \<and> aq_ok q' \<and> aq_list q' = aq_list q \<and> aq_ping q' = aq_ping q \<and>
    aq_ackdone q' = aq_ackdone q \<and> aq_size q' = 2 * aq_size q \<and> \<not> aq_full q'"
proof -
  have s: "length (aq_ring q) = aq_size q" "aq_head q < aq_size q" "aq_count q = aq_size q" "aq_tail q = aq_head q"
    using ok full by (auto simp: aq_ok_def aq_full_def)
  obtain k where k: "aq_size q = 2 ^ k" using ok by (auto simp: aq_ok_def)
  define ring where "ring = aq_list q @ replicate (aq_size q) no_ackmsg"
  have l: "aq_list q = drop (aq_head q) (aq_ring q) @ take (aq_head q) (aq_ring q)"
    using s by (simp add: aq_list_def rotate_drop_take)
  have r: "copy_at (aq_size q - aq_head q) (take (aq_tail q) (aq_ring q))
      (copy_at 0 (drop (aq_head q) (aq_ring q)) (replicate (2 * aq_size q) no_ackmsg)) = ring"
    using s by (simp add: copy_at_def ring_def l)
  define q' where "q' = q\<lparr>aq_size := 2 * aq_size q, aq_mask := 2 * aq_size q - 1, aq_ring := ring, aq_head := 0,
    aq_tail := aq_count q, aq_emap := index_ring ring (aq_count q)\<rparr>"
  have "aq_grow q = Some q'"
    using small s(4) r by (simp add: aq_grow_def Let_def q'_def not_less)
  moreover have "aq_list q' = aq_list q" using length_aq_list [OF ok] unfolding aq_list_def [of q'] by (simp add: q'_def ring_def)
  moreover have "aq_ok q'"
  proof -
    have d: "distinct (map Pktid (aq_list q))" using ok by (simp add: aq_ok_def)
    have "map_of (index_ring ring (aq_count q)) p = find_index p (map Pktid (aq_list q))" for p
      using index_ring_find [OF d, of "replicate (aq_size q) no_ackmsg"] length_aq_list [OF ok]
      by (simp add: ring_def)
    moreover have "find_index p (map Pktid (aq_list q)) =
        map_option (\<lambda>i. i mod (2 * aq_size q)) (find_index p (map Pktid (aq_list q)))" for p
      using find_index_Some [of p "map Pktid (aq_list q)"] length_aq_list [OF ok] s(3)
      by (cases "find_index p (map Pktid (aq_list q))") auto
    ultimately show ?thesis
      using d k s \<open>aq_list q' = aq_list q\<close> length_aq_list [OF ok] index_ring_distinct
      unfolding aq_ok_def [of q'] by (auto simp: q'_def ring_def intro: exI [of _ "Suc k"])
  qed
  ultimately show ?thesis using s by (auto simp: q'_def aq_full_def)
qed

section \<open>One element of the ring\<close>

lemma aq_okD:
  assumes "aq_ok q"
  shows "length (aq_ring q) = aq_size q" "aq_count q \<le> aq_size q" "aq_head q < aq_size q"
    "aq_tail q = (aq_head q + aq_count q) mod aq_size q" "distinct (map Pktid (aq_list q))"
    "distinct (map fst (aq_emap q))" "0 < aq_size q"
    "map_of (aq_emap q) p = map_option (\<lambda>i. (aq_head q + i) mod aq_size q) (find_index p (map Pktid (aq_list q)))"
  using assms by (auto simp: aq_ok_def)

lemma aq_okI:
  assumes "aq_size q = 2 ^ k" "aq_mask q = aq_size q - 1" "length (aq_ring q) = aq_size q" "aq_count q \<le> aq_size q"
    "aq_head q < aq_size q" "aq_tail q = (aq_head q + aq_count q) mod aq_size q" "distinct (map Pktid (aq_list q))"
    "distinct (map fst (aq_emap q))"
    "\<And>p. map_of (aq_emap q) p = map_option (\<lambda>i. (aq_head q + i) mod aq_size q) (find_index p (map Pktid (aq_list q)))"
  shows "aq_ok q"
  using assms by (auto simp: aq_ok_def)

lemma aq_ok_size: "aq_ok q \<Longrightarrow> \<exists>k. aq_size q = 2 ^ k \<and> aq_mask q = aq_size q - 1"
  by (auto simp: aq_ok_def)

lemma aq_pid_known: "aq_ok q \<Longrightarrow> map_of (aq_emap q) p \<noteq> None \<longleftrightarrow> p \<in> Pktid ` set (aq_list q)"
  by (simp add: aq_okD(8) find_index_None)

lemma tail_in_ring: "aq_ok q \<Longrightarrow> aq_tail q < length (aq_ring q)"
  using aq_okD(1,4,7) [of q] by simp

definition aq_put :: "u16 \<Rightarrow> 'c ackmsg \<Rightarrow> 'c ackqueue \<Rightarrow> 'c ackqueue" where
  "aq_put pid am q = q\<lparr>aq_ring := (aq_ring q)[aq_tail q := am], aq_emap := AList.update pid (aq_tail q) (aq_emap q),
     aq_tail := aq_increment q (aq_tail q), aq_count := aq_count q + 1\<rparr>"

lemma aq_put_ok:
  assumes ok: "aq_ok q" and room: "aq_count q < aq_size q" and new: "Pktid am \<notin> Pktid ` set (aq_list q)"
  shows "aq_ok (aq_put (Pktid am) am q) \<and> aq_list (aq_put (Pktid am) am q) = aq_list q @ [am]"
proof -
  note s = aq_okD [OF ok]
  obtain k where k: "aq_size q = 2 ^ k" "aq_mask q = aq_size q - 1" using aq_ok_size [OF ok] by blast
  have "rotate (aq_head q) ((aq_ring q)[aq_tail q := am]) = (rotate (aq_head q) (aq_ring q))[aq_count q := am]"
    using rotate_update [of "aq_count q" "aq_ring q" "aq_head q" am] s(1,4) room by simp
  then have l: "aq_list (aq_put (Pktid am) am q) = aq_list q @ [am]"
    using room s(1) by (simp add: aq_put_def aq_list_def take_Suc_update)
  have "aq_ok (aq_put (Pktid am) am q)"
  proof (rule aq_okI [where k = k])
    show "aq_tail (aq_put (Pktid am) am q) =
        (aq_head (aq_put (Pktid am) am q) + aq_count (aq_put (Pktid am) am q)) mod aq_size (aq_put (Pktid am) am q)"
      using aq_index_mod [OF ok] s(4) by (simp add: aq_put_def aq_increment_def mod_Suc_eq)
    fix p
    show "map_of (aq_emap (aq_put (Pktid am) am q)) p =
        map_option (\<lambda>i. (aq_head (aq_put (Pktid am) am q) + i) mod aq_size (aq_put (Pktid am) am q))
          (find_index p (map Pktid (aq_list (aq_put (Pktid am) am q))))"
      unfolding l using new s(4) length_aq_list [OF ok]
      by (auto simp: aq_put_def map_of_update_AList s(8) find_index_append find_index_None split: option.splits)
  qed (use k s room l new in \<open>simp_all add: aq_put_def distinct_keys_update\<close>)
  then show ?thesis using l by blast
qed

definition aq_set :: "nat \<Rightarrow> 'c ackmsg \<Rightarrow> 'c ackqueue \<Rightarrow> 'c ackqueue" where
  "aq_set i am q = q\<lparr>aq_ring := (aq_ring q)[i := am]\<rparr>"

lemma aq_set_ok:
  assumes ok: "aq_ok q" and j: "j < aq_count q" and same: "Pktid am = Pktid (aq_list q ! j)"
  shows "aq_ok (aq_set ((aq_head q + j) mod aq_size q) am q) \<and>
    aq_list (aq_set ((aq_head q + j) mod aq_size q) am q) = (aq_list q)[j := am]"
proof -
  note s = aq_okD [OF ok]
  obtain k where k: "aq_size q = 2 ^ k" "aq_mask q = aq_size q - 1" using aq_ok_size [OF ok] by blast
  let ?q = "aq_set ((aq_head q + j) mod aq_size q) am q"
  have "rotate (aq_head q) ((aq_ring q)[(aq_head q + j) mod aq_size q := am]) = (rotate (aq_head q) (aq_ring q))[j := am]"
    using rotate_update [of j "aq_ring q" "aq_head q" am] s(1,2) j by simp
  then have l: "aq_list ?q = (aq_list q)[j := am]"
    by (simp add: aq_set_def aq_list_def take_update_swap)
  have p: "map Pktid ((aq_list q)[j := am]) = map Pktid (aq_list q)"
    using same length_aq_list [OF ok] j by (simp add: map_update list_update_same_conv)
  have "aq_ok ?q"
    by (rule aq_okI [where k = k]) (use k s l p in \<open>simp_all add: aq_set_def\<close>)
  then show ?thesis using l by blast
qed

definition aq_pop :: "'c ackqueue \<Rightarrow> 'c ackqueue" where
  "aq_pop q = q\<lparr>aq_ring := (aq_ring q)[aq_head q := no_ackmsg], aq_head := aq_increment q (aq_head q),
     aq_count := aq_count q - 1, aq_emap := AList.delete (Pktid (aq_ring q ! aq_head q)) (aq_emap q)\<rparr>"

lemma rotate_Suc_update: "n < length xs \<Longrightarrow> rotate (Suc n) (xs[n := x]) = tl (rotate n xs) @ [x]"
proof -
  assume n: "n < length xs"
  have "rotate n (xs[n := x]) = (rotate n xs)[0 := x]"
    using rotate_update [of 0 xs n x] n by (cases "xs = []") auto
  then show ?thesis using n by (cases "rotate n xs") auto
qed

lemma rotate_mod_length: "rotate (n mod length xs) xs = rotate n xs"
  by (simp add: rotate_conv_mod [symmetric])

lemma aq_pop_ok:
  assumes ok: "aq_ok q" and ne: "0 < aq_count q"
  shows "aq_ok (aq_pop q) \<and> aq_list (aq_pop q) = tl (aq_list q) \<and> aq_ring q ! aq_head q = hd (aq_list q)"
proof -
  note s = aq_okD [OF ok]
  obtain k where k: "aq_size q = 2 ^ k" "aq_mask q = aq_size q - 1" using aq_ok_size [OF ok] by blast
  have h: "aq_ring q ! aq_head q = hd (aq_list q)"
    using aq_list_nth [OF ok, of 0] ne s(3) length_aq_list [OF ok] by (cases "aq_list q") auto
  have "rotate (Suc (aq_head q) mod aq_size q) ((aq_ring q)[aq_head q := no_ackmsg]) =
      tl (rotate (aq_head q) (aq_ring q)) @ [no_ackmsg]"
    using rotate_Suc_update [of "aq_head q" "aq_ring q" no_ackmsg]
      rotate_mod_length [of "Suc (aq_head q)" "(aq_ring q)[aq_head q := no_ackmsg]"] s(1,3) by simp
  then have l: "aq_list (aq_pop q) = tl (aq_list q)"
    using ne s(1,2) aq_index_mod [OF ok]
    by (simp add: aq_pop_def aq_list_def aq_increment_def take_tl)
  obtain x xs where xs: "aq_list q = x # xs" using length_aq_list [OF ok] ne by (cases "aq_list q") auto
  have "aq_ok (aq_pop q)"
  proof (rule aq_okI [where k = k])
    show "aq_tail (aq_pop q) = (aq_head (aq_pop q) + aq_count (aq_pop q)) mod aq_size (aq_pop q)"
      using aq_index_mod [OF ok] s(4) ne
      by (cases "aq_count q") (simp_all add: aq_pop_def aq_increment_def mod_add_left_eq)
    fix p
    show "map_of (aq_emap (aq_pop q)) p =
        map_option (\<lambda>i. (aq_head (aq_pop q) + i) mod aq_size (aq_pop q)) (find_index p (map Pktid (aq_list (aq_pop q))))"
    proof (cases "p = Pktid x")
      case True
      then have "find_index p (map Pktid xs) = None" using s(5) by (simp add: xs)
      then show ?thesis unfolding l using True by (simp add: xs aq_pop_def map_of_delete_AList h)
    next
      case False
      have "(aq_head q + Suc i) mod aq_size q = (Suc (aq_head q) mod aq_size q + i) mod aq_size q" for i
        by (simp add: mod_add_left_eq)
      then show ?thesis
        unfolding l using False aq_index_mod [OF ok]
        by (simp add: xs aq_pop_def map_of_delete_AList h s(8) aq_increment_def option.map_comp o_def)
    qed
  qed (use k s l xs aq_index_mod [OF ok] in \<open>simp_all add: aq_pop_def aq_increment_def distinct_keys_delete\<close>)
  then show ?thesis using l h by blast
qed

section \<open>The contract of an acknowledgement queue\<close>

text \<open>
  What the sessions rely on: the waiting messages are a list by age without repeated packet
  identifiers, beside the one PINGREQ. A call is described by its effect on that pair.
\<close>

datatype ('m, 'c) aq_op = Wait_op 'm "'c option" | Ack_op 'm | Acked_op

datatype 'c aq_out = Out_err "goerr option" | Out_done "'c ackmsg list"

type_synonym 'c aq_abs = "'c ackmsg list \<times> 'c ackmsg"

definition new_ackmsg :: "'m msg_ops \<Rightarrow> 'm \<Rightarrow> 'c option \<Rightarrow> 'c ackmsg" where
  "new_ackmsg M msg cb = \<lparr>Mtype = m_type M msg, State = RESERVED, Pktid = m_pid M msg,
     Msgbuf = fst (m_encode M msg), Ackbuf = [], OnComplete = cb\<rparr>"

definition ping_msg :: "'c option \<Rightarrow> 'c ackmsg" where
  "ping_msg cb = no_ackmsg\<lparr>Mtype := PINGREQ, State := RESERVED, OnComplete := cb\<rparr>"

definition spec_Wait :: "'m msg_ops \<Rightarrow> 'm \<Rightarrow> 'c option \<Rightarrow> 'c aq_abs \<Rightarrow> goerr option \<times> 'c aq_abs" where
  "spec_Wait M msg cb a =
     (if m_dyntype M msg = PINGREQ then (None, (fst a, ping_msg cb))
      else if m_dyntype M msg \<in> {SUBSCRIBE, UNSUBSCRIBE} \<or> (m_dyntype M msg = PUBLISH \<and> m_qos M msg \<noteq> QosAtMostOnce) then
        (None, (if m_pid M msg \<in> Pktid ` set (fst a) \<or> snd (m_encode M msg) \<noteq> None then fst a
                else fst a @ [new_ackmsg M msg cb], snd a))
      else (Some errWaitMessage, a))"

definition spec_Ack :: "'m msg_ops \<Rightarrow> 'm \<Rightarrow> 'c aq_abs \<Rightarrow> goerr option \<times> 'c aq_abs" where
  "spec_Ack M msg a =
     (if m_type M msg \<in> ack_types then
        (if m_pid M msg \<in> Pktid ` set (fst a) then snd (m_encode M msg) else None,
         (map (\<lambda>x. if Pktid x = m_pid M msg then x\<lparr>State := m_type M msg, Ackbuf := fst (m_encode M msg)\<rparr> else x) (fst a),
          snd a))
      else if m_type M msg = PINGRESP then
        (None, (fst a, if Mtype (snd a) = PINGREQ then (snd a)\<lparr>State := PINGRESP\<rparr> else snd a))
      else (Some errAckMessage, a))"

definition spec_Acked :: "'c aq_abs \<Rightarrow> 'c ackmsg list \<times> 'c aq_abs" where
  "spec_Acked a =
     (let pong = State (snd a) = PINGRESP in
      ((if pong then [snd a] else []) @ takeWhile (\<lambda>x. State x \<in> done_types) (fst a),
       (dropWhile (\<lambda>x. State x \<in> done_types) (fst a), if pong then no_ackmsg else snd a)))"

definition spec_exec :: "'m msg_ops \<Rightarrow> ('m, 'c) aq_op \<Rightarrow> 'c aq_abs \<Rightarrow> 'c aq_out \<times> 'c aq_abs" where
  "spec_exec M c a =
     (case c of
        Wait_op msg cb \<Rightarrow> apfst Out_err (spec_Wait M msg cb a)
      | Ack_op msg \<Rightarrow> apfst Out_err (spec_Ack M msg a)
      | Acked_op \<Rightarrow> apfst Out_done (spec_Acked a))"

fun spec_run :: "'m msg_ops \<Rightarrow> ('m, 'c) aq_op list \<Rightarrow> 'c aq_abs \<Rightarrow> 'c aq_out list \<times> 'c aq_abs" where
  "spec_run M [] a = ([], a)"
| "spec_run M (c # cs) a =
     (case spec_exec M c a of (x, a') \<Rightarrow> (case spec_run M cs a' of (xs, b) \<Rightarrow> (x # xs, b)))"

locale ack_queue =
  fixes M :: "'m msg_ops"
    and exec :: "('m, 'c) aq_op \<Rightarrow> 'q \<Rightarrow> ('c aq_out \<times> 'q) option"
    and view :: "'q \<Rightarrow> 'c aq_abs"
    and ok :: "'q \<Rightarrow> bool"
  assumes exec_ok: "ok q \<Longrightarrow> \<exists>q'. exec c q = Some (fst (spec_exec M c (view q)), q') \<and> ok q' \<and>
      view q' = snd (spec_exec M c (view q))"
begin

fun run :: "('m, 'c) aq_op list \<Rightarrow> 'q \<Rightarrow> ('c aq_out list \<times> 'q) option" where
  "run [] q = Some ([], q)"
| "run (c # cs) q =
     (case exec c q of
        None \<Rightarrow> None
      | Some (x, q') \<Rightarrow> (case run cs q' of None \<Rightarrow> None | Some (xs, q2) \<Rightarrow> Some (x # xs, q2)))"

lemma run_refines:
  "ok q \<Longrightarrow> \<exists>q'. run cs q = Some (fst (spec_run M cs (view q)), q') \<and> ok q' \<and> view q' = snd (spec_run M cs (view q))"
proof (induction cs arbitrary: q)
  case Nil
  then show ?case by simp
next
  case (Cons c cs)
  obtain q1 where q1: "exec c q = Some (fst (spec_exec M c (view q)), q1)" "ok q1"
    "view q1 = snd (spec_exec M c (view q))"
    using exec_ok [OF Cons.prems] by blast
  obtain q2 where q2: "run cs q1 = Some (fst (spec_run M cs (view q1)), q2)" "ok q2" "view q2 = snd (spec_run M cs (view q1))"
    using Cons.IH [OF q1(2)] by blast
  show ?case using q1 q2 by (auto simp: split_def)
qed

end

section \<open>The ring meets the contract\<close>

definition aq_exec :: "'m msg_ops \<Rightarrow> ('m, 'c) aq_op \<Rightarrow> 'c ackqueue \<Rightarrow> ('c aq_out \<times> 'c ackqueue) option" where
  "aq_exec M c q =
     (case c of
        Wait_op msg cb \<Rightarrow> map_option (apfst Out_err) (aq_Wait M msg cb q)
      | Ack_op msg \<Rightarrow> map_option (apfst Out_err) (aq_Ack M msg q)
      | Acked_op \<Rightarrow> map_option (apfst Out_done) (aq_Acked q))"

definition aq_view :: "'c ackqueue \<Rightarrow> 'c aq_abs" where
  "aq_view q = (aq_list q, aq_ping q)"

text \<open>
  Packet identifiers have 16 bits and none waits twice, so at most \<open>2 ^ 16\<close> messages wait and a
  ring that starts within \<open>2 ^ 17\<close> never grows beyond.
\<close>

definition aq_inv :: "'c ackqueue \<Rightarrow> bool" where
  "aq_inv q \<longleftrightarrow> aq_ok q \<and> aq_size q \<le> 131072"

lemma aq_count_le:
  assumes "aq_ok q"
  shows "aq_count q \<le> 65536"
proof -
  have "card (set (map Pktid (aq_list q))) = aq_count q"
    using distinct_card [OF aq_okD(5) [OF assms]] length_aq_list [OF assms] by simp
  moreover have "card (set (map Pktid (aq_list q))) \<le> card (UNIV :: u16 set)"
    by (rule card_mono) simp_all
  ultimately show ?thesis by (simp add: card_word)
qed

lemma aq_insert_inv:
  assumes "aq_inv q"
  shows "\<exists>e q'. aq_insert M (m_pid M msg) msg cb q = Some (e, q') \<and> aq_inv q' \<and> aq_ping q' = aq_ping q \<and>
    aq_list q' = (if m_pid M msg \<in> Pktid ` set (aq_list q) \<or> snd (m_encode M msg) \<noteq> None then aq_list q
      else aq_list q @ [new_ackmsg M msg cb])"
proof -
  have ok: "aq_ok q" "aq_size q \<le> 131072" using assms by (simp_all add: aq_inv_def)
  define q1 where "q1 = (if aq_full q then aq_grow q else Some q)"
  have "\<exists>q2. q1 = Some q2 \<and> aq_ok q2 \<and> aq_list q2 = aq_list q \<and> aq_ping q2 = aq_ping q \<and> aq_size q2 \<le> 131072 \<and>
      aq_count q2 < aq_size q2"
  proof (cases "aq_full q")
    case True
    have "aq_size q \<le> 65536" using True aq_count_le [OF ok(1)] by (simp add: aq_full_def)
    then obtain q2 where "aq_grow q = Some q2" "aq_ok q2" "aq_list q2 = aq_list q" "aq_ping q2 = aq_ping q"
      "aq_size q2 = 2 * aq_size q" "\<not> aq_full q2"
      using aq_grow_ok [OF ok(1) True] by fastforce
    then show ?thesis
      using \<open>aq_size q \<le> 65536\<close> True aq_okD(2) [of q2] by (simp add: q1_def aq_full_def)
  next
    case False
    then show ?thesis using ok aq_okD(2) [OF ok(1)] by (simp add: q1_def aq_full_def)
  qed
  then obtain q2 where q2: "q1 = Some q2" "aq_ok q2" "aq_list q2 = aq_list q" "aq_ping q2 = aq_ping q"
    "aq_size q2 \<le> 131072" "aq_count q2 < aq_size q2" by blast
  note known = aq_pid_known [OF q2(2), of "m_pid M msg", unfolded q2(3)]
  show ?thesis
  proof (cases "map_of (aq_emap q2) (m_pid M msg)")
    case None
    obtain buf e where enc: "m_encode M msg = (buf, e)" by (cases "m_encode M msg")
    show ?thesis
    proof (cases e)
      case None
      have new: "Pktid (new_ackmsg M msg cb) \<notin> Pktid ` set (aq_list q2)"
        using known \<open>map_of (aq_emap q2) (m_pid M msg) = None\<close> q2(3) by (simp add: new_ackmsg_def)
      have put: "aq_insert M (m_pid M msg) msg cb q = Some (None, aq_put (m_pid M msg) (new_ackmsg M msg cb) q2)"
        using q2(1) \<open>map_of (aq_emap q2) (m_pid M msg) = None\<close> enc None tail_in_ring [OF q2(2)]
        by (simp add: aq_insert_def q1_def [symmetric] aq_put_def new_ackmsg_def)
      have "aq_ok (aq_put (m_pid M msg) (new_ackmsg M msg cb) q2) \<and>
          aq_list (aq_put (m_pid M msg) (new_ackmsg M msg cb) q2) = aq_list q2 @ [new_ackmsg M msg cb]"
        using aq_put_ok [OF q2(2,6) new] by (simp add: new_ackmsg_def)
      then show ?thesis
        using put q2 known \<open>map_of (aq_emap q2) (m_pid M msg) = None\<close> enc None
        by (auto simp: aq_inv_def aq_put_def)
    next
      case (Some err)
      then show ?thesis
        using q2 known \<open>map_of (aq_emap q2) (m_pid M msg) = None\<close> enc
        by (auto simp: aq_insert_def q1_def [symmetric] aq_inv_def)
    qed
  next
    case (Some i)
    then show ?thesis
      using q2 known by (auto simp: aq_insert_def q1_def [symmetric] aq_inv_def)
  qed
qed

lemma map_update_one:
  assumes "distinct (map f xs)" "find_index p (map f xs) = Some j"
  shows "map (\<lambda>x. if f x = p then g x else x) xs = xs[j := g (xs ! j)]"
proof (rule nth_equalityI)
  fix i assume i: "i < length (map (\<lambda>x. if f x = p then g x else x) xs)"
  have j: "j < length xs" "f (xs ! j) = p" using find_index_Some [OF assms(2)] by auto
  have "f (xs ! i) = p \<longleftrightarrow> i = j"
    using assms(1) i j by (auto simp: distinct_conv_nth)
  then show "map (\<lambda>x. if f x = p then g x else x) xs ! i = xs[j := g (xs ! j)] ! i"
    using i j by (simp add: nth_list_update)
qed simp

lemma map_no_update: "p \<notin> f ` set xs \<Longrightarrow> map (\<lambda>x. if f x = p then g x else x) xs = xs"
  by (rule map_idI) auto

text \<open>The ring does not depend on the PINGREQ and on the result list.\<close>

lemma aq_ok_frame [simp]:
  "aq_ok (q\<lparr>aq_ackdone := d\<rparr>) = aq_ok q" "aq_list (q\<lparr>aq_ackdone := d\<rparr>) = aq_list q"
  "aq_ok (q\<lparr>aq_ping := x\<rparr>) = aq_ok q" "aq_list (q\<lparr>aq_ping := x\<rparr>) = aq_list q"
  by (simp_all add: aq_ok_def aq_list_def)

lemma aq_Ack_inv:
  assumes "aq_inv q"
  shows "\<exists>q'. aq_Ack M msg q = Some (fst (spec_Ack M msg (aq_view q)), q') \<and> aq_inv q' \<and>
    aq_view q' = snd (spec_Ack M msg (aq_view q))"
proof (cases "m_type M msg \<in> ack_types")
  case True
  have ok: "aq_ok q" "aq_size q \<le> 131072" using assms by (simp_all add: aq_inv_def)
  let ?p = "m_pid M msg"
  note known = aq_pid_known [OF ok(1), of ?p]
  show ?thesis
  proof (cases "find_index ?p (map Pktid (aq_list q))")
    case None
    then have n: "?p \<notin> Pktid ` set (aq_list q)" by (simp add: find_index_None)
    then show ?thesis
      using True known assms
      by (simp add: aq_Ack_def spec_Ack_def aq_view_def map_no_update)
  next
    case (Some j)
    define i where "i = (aq_head q + j) mod aq_size q"
    have i: "map_of (aq_emap q) ?p = Some i" "i < length (aq_ring q)"
      using aq_okD(1,7,8) [OF ok(1)] Some by (simp_all add: i_def)
    have j: "j < aq_count q" "Pktid (aq_list q ! j) = ?p" "?p \<in> Pktid ` set (aq_list q)"
      using find_index_Some [OF Some] find_index_in_set [OF Some] length_aq_list [OF ok(1)] by auto
    obtain buf e where enc: "m_encode M msg = (buf, e)" "fst (m_encode M msg) = buf" "snd (m_encode M msg) = e"
      by (cases "m_encode M msg") simp
    define am where "am = (aq_ring q ! i)\<lparr>State := m_type M msg, Ackbuf := buf\<rparr>"
    have am: "am = (aq_list q ! j)\<lparr>State := m_type M msg, Ackbuf := buf\<rparr>"
      using aq_list_nth [OF ok(1) j(1)] by (simp add: am_def i_def)
    have set: "aq_ok (aq_set i am q) \<and> aq_list (aq_set i am q) = (aq_list q)[j := am]"
      unfolding i_def by (rule aq_set_ok [OF ok(1) j(1)]) (simp add: am)
    have "aq_Ack M msg q = Some (e, aq_set i am q)"
      using True i enc by (simp add: aq_Ack_def am_def aq_set_def)
    then show ?thesis
      unfolding spec_Ack_def enc(2,3)
      using True set j(3) ok(2) map_update_one [OF aq_okD(5) [OF ok(1)] Some, of "\<lambda>x. x\<lparr>State := m_type M msg, Ackbuf := buf\<rparr>"]
      by (simp add: aq_view_def aq_inv_def am aq_set_def)
  qed
next
  case False
  then show ?thesis
    using assms by (auto simp: aq_Ack_def spec_Ack_def aq_view_def aq_inv_def)
qed

lemma aq_Wait_inv:
  assumes "aq_inv q"
  shows "\<exists>q'. aq_Wait M msg cb q = Some (fst (spec_Wait M msg cb (aq_view q)), q') \<and> aq_inv q' \<and>
    aq_view q' = snd (spec_Wait M msg cb (aq_view q))"
proof -
  obtain e q' where ins: "aq_insert M (m_pid M msg) msg cb q = Some (e, q')" "aq_inv q'" "aq_ping q' = aq_ping q"
    "aq_list q' = (if m_pid M msg \<in> Pktid ` set (aq_list q) \<or> snd (m_encode M msg) \<noteq> None then aq_list q
      else aq_list q @ [new_ackmsg M msg cb])"
    using aq_insert_inv [OF assms, of M msg cb] by blast
  have t: "PINGREQ \<noteq> PUBLISH" "PINGREQ \<noteq> SUBSCRIBE" "PINGREQ \<noteq> UNSUBSCRIBE" "SUBSCRIBE \<noteq> PUBLISH" "UNSUBSCRIBE \<noteq> PUBLISH"
    by (simp_all add: type_defs)
  consider (pub) "m_dyntype M msg = PUBLISH" | (sub) "m_dyntype M msg \<in> {SUBSCRIBE, UNSUBSCRIBE}"
    | (ping) "m_dyntype M msg = PINGREQ" | (other) "m_dyntype M msg \<notin> {PUBLISH, SUBSCRIBE, UNSUBSCRIBE, PINGREQ}"
    by blast
  then show ?thesis
  proof cases
    case pub
    then show ?thesis
      using ins assms t by (auto simp: aq_Wait_def spec_Wait_def aq_view_def)
  next
    case sub
    then show ?thesis
      using ins t by (auto simp: aq_Wait_def spec_Wait_def aq_view_def)
  next
    case ping
    then show ?thesis
      using assms t
      by (simp add: aq_Wait_def spec_Wait_def aq_view_def aq_inv_def ping_msg_def)
  next
    case other
    then show ?thesis
      using assms by (simp add: aq_Wait_def spec_Wait_def aq_view_def)
  qed
qed

lemma acked_loop_ok:
  "aq_ok q \<Longrightarrow> \<exists>q'. acked_loop q = Some q' \<and> aq_ok q' \<and> aq_size q' = aq_size q \<and> aq_ping q' = aq_ping q \<and>
     aq_ackdone q' = aq_ackdone q @ takeWhile (\<lambda>x. State x \<in> done_types) (aq_list q) \<and>
     aq_list q' = dropWhile (\<lambda>x. State x \<in> done_types) (aq_list q)"
proof (induction q rule: acked_loop.induct)
  case (1 q)
  show ?case
  proof (cases "aq_empty q")
    case True
    then have "aq_list q = []" using length_aq_list [OF 1(2)] by (simp add: aq_empty_def)
    then show ?thesis using True 1(2) by (simp add: acked_loop.simps [of q])
  next
    case ne: False
    then have c: "0 < aq_count q" by (simp add: aq_empty_def)
    have h: "aq_head q < length (aq_ring q)" using aq_okD(1,3) [OF 1(2)] by simp
    note pop = aq_pop_ok [OF 1(2) c]
    obtain x xs where xs: "aq_list q = x # xs" using length_aq_list [OF 1(2)] c by (cases "aq_list q") auto
    have hd: "aq_ring q ! aq_head q = x" using pop xs by simp
    show ?thesis
    proof (cases "State x \<in> done_types")
      case False
      then show ?thesis using ne h hd xs 1(2) by (simp add: acked_loop.simps [of q])
    next
      case True
      define q1 where "q1 = (aq_pop q)\<lparr>aq_ackdone := aq_ackdone q @ [x]\<rparr>"
      have r: "aq_removeHead (q\<lparr>aq_ackdone := aq_ackdone q @ [aq_ring q ! aq_head q]\<rparr>) = Some (None, q1)"
        using ne h by (simp add: aq_removeHead_def q1_def aq_pop_def aq_empty_def hd [symmetric] aq_increment_def aq_index_def)
      have "aq_ok q1" "aq_list q1 = xs" using pop xs by (simp_all add: q1_def)
      moreover have "acked_loop q = acked_loop q1"
        using ne h hd True r by (simp add: acked_loop.simps [of q])
      ultimately show ?thesis
        using 1(1) [OF ne _ _ r refl] h hd True xs by (auto simp: q1_def aq_pop_def)
    qed
  qed
qed

lemma aq_Acked_inv:
  assumes "aq_inv q"
  shows "\<exists>q'. aq_Acked q = Some (fst (spec_Acked (aq_view q)), q') \<and> aq_inv q' \<and>
    aq_view q' = snd (spec_Acked (aq_view q))"
proof -
  define q1 where "q1 = (if State (aq_ping q) = PINGRESP then q\<lparr>aq_ackdone := [aq_ping q], aq_ping := no_ackmsg\<rparr>
    else q\<lparr>aq_ackdone := []\<rparr>)"
  have q1: "aq_ok q1" "aq_list q1 = aq_list q" using assms by (simp_all add: q1_def aq_inv_def)
  show ?thesis
    using acked_loop_ok [OF q1(1)] assms
    by (auto simp: aq_Acked_def spec_Acked_def aq_view_def aq_inv_def q1(2) Let_def q1_def split: if_splits)
qed

interpretation ring_queue: ack_queue M "aq_exec M" aq_view aq_inv for M :: "'m msg_ops"
proof
  fix q :: "'c ackqueue" and c :: "('m, 'c) aq_op"
  assume ok: "aq_inv q"
  show "\<exists>q'. aq_exec M c q = Some (fst (spec_exec M c (aq_view q)), q') \<and> aq_inv q' \<and>
      aq_view q' = snd (spec_exec M c (aq_view q))"
    using aq_Wait_inv [OF ok] aq_Ack_inv [OF ok] aq_Acked_inv [OF ok]
    by (cases c) (fastforce simp: aq_exec_def spec_exec_def apfst_def map_prod_def split_def)+
qed

section \<open>Rounding the size\<close>

text \<open>After the step of width \<open>w\<close> a bit is set where one of the \<open>w\<close> bits from it upwards was.\<close>

definition smeared :: "nat \<Rightarrow> u64 \<Rightarrow> u64 \<Rightarrow> bool" where
  "smeared w x n \<longleftrightarrow> (\<forall>i. bit x i \<longleftrightarrow> (\<exists>j. i \<le> j \<and> j < i + w \<and> bit n j))"

lemma smeared_step:
  assumes "smeared w x n"
  shows "smeared (w + w) (x OR drop_bit w x) n"
proof -
  have "bit (x OR drop_bit w x) i \<longleftrightarrow> bit x i \<or> bit x (w + i)" for i
    by (simp add: bit_or_iff bit_drop_bit_eq)
  moreover have "(\<exists>j. i \<le> j \<and> j < i + (w + w) \<and> bit n j) \<longleftrightarrow>
      (\<exists>j. i \<le> j \<and> j < i + w \<and> bit n j) \<or> (\<exists>j. w + i \<le> j \<and> j < w + i + w \<and> bit n j)" for i
  proof (intro iffI; elim disjE exE)
    fix j assume j: "i \<le> j \<and> j < i + (w + w) \<and> bit n j"
    then show "(\<exists>j. i \<le> j \<and> j < i + w \<and> bit n j) \<or> (\<exists>j. w + i \<le> j \<and> j < w + i + w \<and> bit n j)"
      by (cases "j < i + w") auto
  next
    fix j assume "w + i \<le> j \<and> j < w + i + w \<and> bit n j"
    then show "\<exists>j. i \<le> j \<and> j < i + (w + w) \<and> bit n j" by (intro exI [of _ j]) auto
  qed auto
  ultimately show ?thesis using assms by (simp add: smeared_def)
qed

lemma high_bit:
  assumes "2 ^ m \<le> unat v" "unat v < 2 ^ Suc m"
  shows "bit v j \<Longrightarrow> j \<le> m" "bit v m"
proof -
  have b: "bit v j = odd (unat v div 2 ^ j)" for j
    using bit_iff_odd [of "unat v" j] by (simp add: bit_unsigned_iff)
  show "bit v m"
  proof -
    have "unat v div 2 ^ m = 1" using assms by (intro div_nat_eqI) simp_all
    then show ?thesis by (simp add: b)
  qed
  show "j \<le> m" if "bit v j"
  proof (rule ccontr)
    assume "\<not> j \<le> m"
    then have "(2::nat) ^ Suc m \<le> 2 ^ j" by (intro power_increasing) simp_all
    then have "unat v < 2 ^ j" using assms(2) by simp
    then show False using that by (simp add: b)
  qed
qed

lemma power_bracket: "0 < (k :: nat) \<Longrightarrow> \<exists>m. 2 ^ m \<le> k \<and> k < 2 ^ Suc m"
proof (induction k rule: less_induct)
  case (less k)
  show ?case
  proof (cases "k = 1")
    case True
    then show ?thesis by (intro exI [of _ 0]) simp
  next
    case False
    then obtain m where "2 ^ m \<le> k div 2" "k div 2 < 2 ^ Suc m" using less.IH [of "k div 2"] less.prems by auto
    then have "2 * 2 ^ m \<le> k \<and> k < 2 * (2 * 2 ^ m)" by auto
    then show ?thesis by (intro exI [of _ "Suc m"]) simp
  qed
qed

lemma roundUp_bracket:
  assumes "2 ^ m \<le> unat (n - 1)" "unat (n - 1) < 2 ^ Suc m" "Suc m < 64"
  shows "unat (roundUpPowerOfTwo64 n) = 2 ^ Suc m"
proof -
  define v where "v = n - 1"
  define x1 where "x1 = v OR drop_bit 1 v"
  define x2 where "x2 = x1 OR drop_bit 2 x1"
  define x3 where "x3 = x2 OR drop_bit 4 x2"
  define x4 where "x4 = x3 OR drop_bit 8 x3"
  define x5 where "x5 = x4 OR drop_bit 16 x4"
  define x where "x = x5 OR drop_bit 32 x5"
  have "smeared 1 v v" by (auto simp: smeared_def le_less_Suc_eq)
  then have "smeared 2 x1 v" using smeared_step [of 1 v v] by (simp only: x1_def one_add_one)
  then have "smeared 4 x2 v" using smeared_step [of 2 x1 v] by (simp add: x2_def)
  then have "smeared 8 x3 v" using smeared_step [of 4 x2 v] by (simp add: x3_def)
  then have "smeared 16 x4 v" using smeared_step [of 8 x3 v] by (simp add: x4_def)
  then have "smeared 32 x5 v" using smeared_step [of 16 x4 v] by (simp add: x5_def)
  then have s: "smeared 64 x v" using smeared_step [of 32 x5 v] by (simp add: x_def)
  note hb = high_bit [OF assms(1,2), folded v_def]
  have "x = mask (Suc m)"
  proof (rule bit_eqI)
    fix i
    have "(\<exists>j. i \<le> j \<and> j < i + 64 \<and> bit v j) \<longleftrightarrow> i \<le> m"
      using hb assms(3) by (auto intro: exI [of _ m] dest: le_trans)
    then show "bit x i \<longleftrightarrow> bit (mask (Suc m) :: u64) i"
      using s assms(3) by (auto simp: smeared_def bit_mask_iff)
  qed
  moreover have "roundUpPowerOfTwo64 n = x + 1"
    by (simp add: roundUpPowerOfTwo64_def Let_def v_def x1_def x2_def x3_def x4_def x5_def x_def)
  ultimately have r: "roundUpPowerOfTwo64 n = of_nat (2 ^ Suc m)" by (simp add: mask_eq_exp_minus_1)
  have "(2::nat) ^ Suc m < 2 ^ 64" using assms(3) by (intro power_strict_increasing) simp_all
  then show ?thesis unfolding r unat_of_nat by (intro mod_less) simp
qed

lemma powerOfTwo64_power:
  assumes "powerOfTwo64 n"
  shows "\<exists>m. unat n = 2 ^ m"
proof -
  have n: "n \<noteq> 0" "n AND (n - 1) = 0" using assms by (simp_all add: powerOfTwo64_def)
  then have "0 < unat n" by (simp add: unat_gt_0)
  then obtain m where m: "2 ^ m \<le> unat n" "unat n < 2 ^ Suc m" using power_bracket by blast
  have p: "unat (n - 1) = unat n - 1" using n(1) by (rule unat_minus_one)
  show ?thesis
  proof (cases "unat n = 2 ^ m")
    case False
    then have "2 ^ m \<le> unat (n - 1)" "unat (n - 1) < 2 ^ Suc m" using m p by simp_all
    then have "bit (n - 1) m" "bit n m" using high_bit(2) m by blast+
    then have "bit (n AND (n - 1)) m" by (simp add: bit_and_iff)
    then show ?thesis using n(2) by simp
  qed blast
qed

lemma newAckqueue_size:
  assumes "0 < unat n" "unat n \<le> 2 ^ 62"
  shows "\<exists>k. aq_size (newAckqueue n) = 2 ^ k \<and> unat n \<le> 2 ^ k \<and> 2 ^ k < 2 * unat n"
proof (cases "powerOfTwo64 n")
  case True
  then show ?thesis using powerOfTwo64_power [OF True] assms(1) by (auto simp: newAckqueue_def Let_def)
next
  case False
  have "n \<noteq> 1" using False by (auto simp: powerOfTwo64_def)
  moreover have "n \<noteq> 0" using assms(1) by auto
  ultimately have "unat n \<noteq> 1" by (metis unat_1 unsigned_word_eqI)
  have p: "unat (n - 1) = unat n - 1" using \<open>n \<noteq> 0\<close> by (rule unat_minus_one)
  then obtain m where m: "2 ^ m \<le> unat (n - 1)" "unat (n - 1) < 2 ^ Suc m"
    using power_bracket [of "unat (n - 1)"] assms(1) \<open>unat n \<noteq> 1\<close> by auto
  have "(2::nat) ^ m < 2 ^ 62" using m(1) p assms by linarith
  then have "m < 62" by (rule power_less_imp_less_exp [rotated]) simp
  then have "aq_size (newAckqueue n) = 2 ^ Suc m"
    using roundUp_bracket [OF m] False by (simp add: newAckqueue_def Let_def)
  then show ?thesis using m p assms(1) by (intro exI [of _ "Suc m"]) auto
qed

lemma newAckqueue_inv:
  assumes "0 < unat n" "unat n \<le> 65536"
  shows "aq_inv (newAckqueue n)" "aq_view (newAckqueue n) = ([], no_ackmsg)"
proof -
  obtain k where k: "aq_size (newAckqueue n :: 'c ackqueue) = 2 ^ k" "(2::nat) ^ k < 2 * unat n"
    using newAckqueue_size [of n] assms by auto
  have l: "aq_list (newAckqueue n :: 'c ackqueue) = []" by (simp add: aq_list_def newAckqueue_def Let_def)
  have "aq_ok (newAckqueue n :: 'c ackqueue)"
    by (rule aq_okI [OF k(1)]) (use k(1) in \<open>simp_all add: l, simp_all add: newAckqueue_def Let_def\<close>)
  then show "aq_inv (newAckqueue n :: 'c ackqueue)" using k assms by (simp add: aq_inv_def)
  show "aq_view (newAckqueue n :: 'c ackqueue) = ([], no_ackmsg)"
    using l by (simp add: aq_view_def) (simp add: newAckqueue_def Let_def)
qed

section \<open>Properties\<close>

fun aq_run :: "'m msg_ops \<Rightarrow> ('m, 'c) aq_op list \<Rightarrow> 'c ackqueue \<Rightarrow> ('c aq_out list \<times> 'c ackqueue) option" where
  "aq_run M [] q = Some ([], q)"
| "aq_run M (c # cs) q =
     (case aq_exec M c q of
        None \<Rightarrow> None
      | Some (x, q') \<Rightarrow> (case aq_run M cs q' of None \<Rightarrow> None | Some (xs, q2) \<Rightarrow> Some (x # xs, q2)))"

lemma aq_run_ring: "aq_run M cs q = ring_queue.run M cs q"
  by (induction cs arbitrary: q) (auto split: option.split)

text \<open>A new queue of a size up to \<open>2 ^ 62\<close> has the least power of two that holds it as its
  capacity, and is empty.\<close>

theorem newAckqueue_least_power:
  assumes "0 < unat n" "unat n \<le> 2 ^ 62"
  shows "\<exists>k. aq_size (newAckqueue n) = 2 ^ k \<and> unat n \<le> 2 ^ k \<and> 2 ^ k < 2 * unat n \<and>
    length (aq_ring (newAckqueue n)) = 2 ^ k \<and> aq_list (newAckqueue n) = []"
proof -
  obtain k where "aq_size (newAckqueue n) = 2 ^ k" "unat n \<le> 2 ^ k" "2 ^ k < 2 * unat n"
    using newAckqueue_size [OF assms] by blast
  then show ?thesis by (intro exI [of _ k]) (simp add: newAckqueue_def aq_list_def Let_def)
qed

text \<open>C3: Any sequence of calls on a new acknowledgement queue, whatever the messages, returns: no access
  leaves the ring and it does not overflow while it grows. Every call answers as the list
  specification says, the waiting messages are those of the specification, oldest first, and no
  packet identifier waits twice.\<close>

theorem ackqueue_refines:
  assumes "0 < unat n" "unat n \<le> 65536"
  shows "\<exists>q. aq_run M cs (newAckqueue n) = Some (fst (spec_run M cs ([], no_ackmsg)), q) \<and>
    (aq_list q, aq_ping q) = snd (spec_run M cs ([], no_ackmsg)) \<and> distinct (map Pktid (aq_list q))"
proof -
  obtain q where q: "aq_run M cs (newAckqueue n) = Some (fst (spec_run M cs ([], no_ackmsg)), q)" "aq_inv q"
    "aq_view q = snd (spec_run M cs ([], no_ackmsg))"
    using ring_queue.run_refines [OF newAckqueue_inv(1) [OF assms], of M cs]
    unfolding newAckqueue_inv(2) [OF assms] aq_run_ring by blast
  have "distinct (map Pktid (aq_list q))" by (rule aq_okD(5)) (use q(2) in \<open>simp add: aq_inv_def\<close>)
  then show ?thesis using q by (auto simp: aq_view_def)
qed

text \<open>C26: The ring never holds more than 65536 messages and never grows beyond 131072 positions.\<close>

theorem ackqueue_bounded:
  assumes "0 < unat n" "unat n \<le> 65536" "aq_run M cs (newAckqueue n) = Some (xs, q)"
  shows "aq_count q \<le> 65536 \<and> aq_size q \<le> 131072 \<and> aq_head q < aq_size q \<and> aq_tail q < aq_size q \<and>
    aq_count q = length (aq_list q)"
proof -
  have "aq_inv q"
    using ring_queue.run_refines [OF newAckqueue_inv(1) [OF assms(1,2)], of M cs] assms(3)
    by (auto simp: aq_run_ring)
  then show ?thesis
    using aq_count_le [of q] aq_okD(3) [of q] tail_in_ring [of q] aq_okD(1) [of q] length_aq_list [of q]
    by (simp add: aq_inv_def)
qed

text \<open>
  The completion of a QoS 2 delivery: a PUBREC does not complete the message, a PUBCOMP does, and a
  message is not returned before those that were sent before it.
\<close>

lemma done_types_simps [simp]:
  "PUBACK \<in> done_types" "PUBREL \<in> done_types" "PUBCOMP \<in> done_types" "SUBACK \<in> done_types"
  "UNSUBACK \<in> done_types" "PUBREC \<notin> done_types" "RESERVED \<notin> done_types"
  by (simp_all add: done_types_def type_defs RESERVED_def)

text \<open>\<open>Acked\<close> returns the longest prefix of the waiting messages whose state is complete, after
  the PINGREQ if it was answered, and leaves the rest waiting in order, beginning with a message
  that is not complete.\<close>

theorem Acked_prefix:
  assumes "aq_inv q"
  shows "\<exists>done q'. aq_Acked q = Some (done, q') \<and> aq_inv q' \<and>
    (if State (aq_ping q) = PINGRESP then [aq_ping q] else []) @ aq_list q =
      done @ aq_list q' \<and>
    list_all (\<lambda>x. State x \<in> done_types \<or> x = aq_ping q) done \<and>
    (aq_list q' = [] \<or> State (hd (aq_list q')) \<notin> done_types)"
proof -
  obtain q' where q': "aq_Acked q = Some (fst (spec_Acked (aq_view q)), q')" "aq_inv q'"
    "aq_view q' = snd (spec_Acked (aq_view q))"
    using aq_Acked_inv [OF assms] by blast
  have l: "aq_list q' = dropWhile (\<lambda>x. State x \<in> done_types) (aq_list q)"
    using q'(3) by (simp add: aq_view_def spec_Acked_def Let_def)
  have "aq_list q' = [] \<or> State (hd (aq_list q')) \<notin> done_types"
    unfolding l using hd_dropWhile [of "\<lambda>x. State x \<in> done_types" "aq_list q"] by auto
  then show ?thesis
    using q'(1,2) by (auto simp: spec_Acked_def aq_view_def Let_def l list_all_iff dest: set_takeWhileD)
qed

section \<open>Witnesses\<close>

text \<open>Messages as triples of type, packet identifier and DUP flag, with a one-byte encoding.\<close>

definition demo_ops :: "(byte \<times> u16 \<times> bool) msg_ops" where
  "demo_ops = \<lparr>m_dyntype = fst, m_type = fst, m_pid = (\<lambda>m. fst (snd m)), m_qos = (\<lambda>m. 2), m_dup = (\<lambda>m. snd (snd m)),
     m_encode = (\<lambda>m. ([fst m], None))\<rparr>"

definition demo_calls :: "(byte \<times> u16 \<times> bool, nat) aq_op list" where
  "demo_calls = [Wait_op (3, 7, False) (Some 1), Wait_op (3, 8, False) None, Ack_op (5, 7, False), Acked_op,
     Ack_op (7, 8, False), Acked_op, Ack_op (7, 7, False), Acked_op]"

theorem newAckqueue_least_power_witness:
  "\<exists>k. aq_size (newAckqueue 100) = 2 ^ k \<and> unat (100 :: u64) \<le> 2 ^ k \<and> 2 ^ k < 2 * unat (100 :: u64) \<and>
    length (aq_ring (newAckqueue 100)) = 2 ^ k \<and> aq_list (newAckqueue 100) = []"
  by (rule newAckqueue_least_power) simp_all

theorem ackqueue_refines_witness:
  "\<exists>q. aq_run demo_ops demo_calls (newAckqueue 1) = Some (fst (spec_run demo_ops demo_calls ([], no_ackmsg)), q) \<and>
    (aq_list q, aq_ping q) = snd (spec_run demo_ops demo_calls ([], no_ackmsg)) \<and> distinct (map Pktid (aq_list q))"
  by (rule ackqueue_refines) simp_all

theorem ackqueue_bounded_witness:
  "\<exists>xs q. aq_run demo_ops demo_calls (newAckqueue 1) = Some (xs, q) \<and>
    aq_count q \<le> 65536 \<and> aq_size q \<le> 131072 \<and> aq_head q < aq_size q \<and> aq_tail q < aq_size q \<and>
    aq_count q = length (aq_list q)"
proof -
  obtain xs q where "aq_run demo_ops demo_calls (newAckqueue 1) = Some (xs, q)"
    using ring_queue.run_refines [OF newAckqueue_inv(1) [of 1], of demo_ops demo_calls] by (auto simp: aq_run_ring)
  then show ?thesis using ackqueue_bounded [of 1 demo_ops demo_calls xs q] by auto
qed

theorem Acked_prefix_witness:
  "\<exists>done q'. aq_Acked (newAckqueue 1 :: nat ackqueue) = Some (done, q') \<and> aq_inv q' \<and>
    (if State (aq_ping (newAckqueue 1 :: nat ackqueue)) = PINGRESP then [aq_ping (newAckqueue 1)] else []) @ aq_list (newAckqueue 1) =
      done @ aq_list q' \<and>
    list_all (\<lambda>x. State x \<in> done_types \<or> x = aq_ping (newAckqueue 1)) done \<and>
    (aq_list q' = [] \<or> State (hd (aq_list q')) \<notin> done_types)"
  by (rule Acked_prefix [OF newAckqueue_inv(1)]) simp_all

text \<open>
  \<open>Wait\<close> drops the error of \<open>insert\<close>: a message that could not be encoded is reported as waiting
  but does not wait.
\<close>

lemma Wait_drops_error:
  assumes "aq_inv q" "m_dyntype M msg = SUBSCRIBE" "m_encode M msg = (buf, Some e)"
  shows "\<exists>q'. aq_Wait M msg cb q = Some (None, q') \<and> aq_list q' = aq_list q"
proof -
  have "SUBSCRIBE \<noteq> PINGREQ" by (simp add: type_defs)
  then show ?thesis
    using aq_Wait_inv [OF assms(1), of M msg cb] assms(2,3) by (auto simp: spec_Wait_def aq_view_def)
qed

end
