(* ===== verification/Buffer.thy ===== *)
theory Buffer
  imports AckQueue
begin

text \<open>
  The byte ring between the goroutines of a connection, \<open>corev5/v2/service/buffer.go\<close>: one producer
  writes, one consumer reads, each advances its own position, and the two meet only in the
  positions and in two mutexes with their condition variables.

  An operation is an \<open>attempt\<close>: it returns (\<open>Now\<close>), or it waits for a position or a mutex (\<open>Wait\<close>,
  with the state it waits in), or it never returns (\<open>Dead\<close>). An attempt is the operation without
  interference: nothing else moves between its steps. \<open>RingThreads\<close> takes the operations apart into
  the steps that other goroutines can come between. Positions are natural numbers: the
  \<open>int64\<close> of the source wraps after \<open>2 ^ 63\<close> bytes. The mutexes are held or free; an operation that
  returns from inside its wait loop returns with the mutex held, as in the source.
\<close>

section \<open>State\<close>

record ring =
  rb_buf :: bytes
  rb_tmp :: bytes
  rb_size :: nat
  rb_mask :: nat
  rb_done :: bool
  rb_pseq :: nat
  rb_gate :: nat
  rb_cseq :: nat
  rb_cwait :: nat
  rb_pwait :: nat
  rb_plock :: bool
  rb_clock :: bool

datatype 'a attempt = Now 'a ring | Wait ring | Dead

definition defaultBufferSize :: u64 where "defaultBufferSize = push_bit 2 1024"
definition defaultReadBlockSize :: nat where "defaultReadBlockSize = 1024"
definition defaultWriteBlockSize :: nat where "defaultWriteBlockSize = 1024"

definition ErrNegativeCount :: goerr where "ErrNegativeCount = Errorf ''bufio: negative count''"
definition ErrBufferFull :: goerr where "ErrBufferFull = Errorf ''bufio: buffer full''"
definition ErrBufferInsufficientData :: goerr where
  "ErrBufferInsufficientData = Errorf ''service: buffer has insufficient data.''"

definition newBuffer :: "u64 \<Rightarrow> goerr + ring" where
  "newBuffer sz =
     (if sint sz < 0 then Inl ErrNegativeCount
      else let size = (if sz = 0 then defaultBufferSize else sz) in
        if \<not> powerOfTwo64 size then Inl (Errorf ''Size must be power of two.'')
        else if unat size div 2 < defaultReadBlockSize then Inl (Errorf ''Size must at least be 2048.'')
        else Inr \<lparr>rb_buf = replicate (unat size) 0, rb_tmp = [], rb_size = unat size, rb_mask = unat size - 1,
               rb_done = False, rb_pseq = 0, rb_gate = 0, rb_cseq = 0, rb_cwait = 0, rb_pwait = 0,
               rb_plock = False, rb_clock = False\<rparr>)"

definition rb_index :: "ring \<Rightarrow> nat \<Rightarrow> nat" where "rb_index r n = n AND rb_mask r"

definition rb_Len :: "ring \<Rightarrow> nat" where "rb_Len r = rb_pseq r - rb_cseq r"

text \<open>Lock, broadcast and unlock of the producer's and of the consumer's condition.\<close>

definition signal_p :: "'a \<Rightarrow> ring \<Rightarrow> 'a attempt" where
  "signal_p v r = (if rb_plock r then Wait r else Now v r)"

definition signal_c :: "'a \<Rightarrow> ring \<Rightarrow> 'a attempt" where
  "signal_c v r = (if rb_clock r then Wait r else Now v r)"

text \<open>\<open>Close\<close> takes the producer's mutex twice, the second time for the consumer's condition.\<close>

definition rb_Close :: "ring \<Rightarrow> unit attempt" where
  "rb_Close r =
     (case signal_p () (r\<lparr>rb_done := True\<rparr>) of Now v r' \<Rightarrow> signal_p () r' | w \<Rightarrow> w)"

section \<open>The producer\<close>

text \<open>\<open>ringCopy\<close>: \<open>None\<close> is a panic of the slice expression or a loop that never ends.\<close>

partial_function (option) ringCopy_loop :: "bytes \<Rightarrow> bytes \<Rightarrow> nat \<Rightarrow> nat \<Rightarrow> nat \<Rightarrow> (bytes \<times> nat) option" where
  "ringCopy_loop dst src start i n =
     (if n = 0 then Some (dst, i)
      else if start > length dst then None
      else let l = min (length dst - start) (length src - i) in
        ringCopy_loop (copy_at start (drop i src) dst) src (if n - l > 0 then 0 else start) (i + l) (n - l))"

definition ringCopy :: "bytes \<Rightarrow> bytes \<Rightarrow> nat \<Rightarrow> (bytes \<times> nat) option" where
  "ringCopy dst src start = ringCopy_loop dst src start 0 (length src)"

text \<open>The wait loop, entered with the mutex taken and again after every wake-up.\<close>

definition space_loop :: "nat \<Rightarrow> nat \<Rightarrow> ring \<Rightarrow> (nat \<times> nat \<times> goerr option) attempt" where
  "space_loop ppos n r =
     (if int (ppos + n) - int (rb_size r) > int (rb_cseq r) then
        (if rb_done r then Now (0, 0, Some EOF) (r\<lparr>rb_plock := True\<rparr>)
         else Wait (r\<lparr>rb_pwait := rb_pwait r + 1, rb_plock := False\<rparr>))
      else Now (ppos, n, None) (r\<lparr>rb_gate := rb_cseq r, rb_plock := False\<rparr>))"

text \<open>The producer must look at the consumer's position: the last one it saw leaves too little room.\<close>

definition must_wait :: "nat \<Rightarrow> ring \<Rightarrow> bool" where
  "must_wait n r \<longleftrightarrow> int (rb_pseq r + n) - int (rb_size r) > int (rb_gate r) \<or> rb_gate r > rb_pseq r"

definition waitForWriteSpace :: "nat \<Rightarrow> ring \<Rightarrow> (nat \<times> nat \<times> goerr option) attempt" where
  "waitForWriteSpace n r =
     (if rb_done r then Now (0, 0, Some EOF) r
      else if must_wait n r then
        (if rb_plock r then Wait r else space_loop (rb_pseq r) n r)
      else Now (rb_pseq r, n, None) r)"

definition rb_Write :: "bytes \<Rightarrow> ring \<Rightarrow> (nat \<times> goerr option) attempt" where
  "rb_Write p r =
     (if rb_done r then Now (0, Some EOF) r
      else case waitForWriteSpace (length p) r of
        Now (start, n, Some e) r' \<Rightarrow> Now (0, Some e) r'
      | Now (start, n, None) r' \<Rightarrow>
          (case ringCopy (rb_buf r') p (rb_index r' start) of
             None \<Rightarrow> Dead
           | Some (d, tot) \<Rightarrow> signal_c (tot, None) (r'\<lparr>rb_buf := d, rb_pseq := start + length p\<rparr>))
      | Wait r' \<Rightarrow> Wait r'
      | Dead \<Rightarrow> Dead)"

definition WriteCommit :: "nat \<Rightarrow> ring \<Rightarrow> (nat \<times> goerr option) attempt" where
  "WriteCommit n r =
     (case waitForWriteSpace n r of
        Now (start, cnt, Some e) r' \<Rightarrow> Now (0, Some e) r'
      | Now (start, cnt, None) r' \<Rightarrow> signal_c (cnt, None) (r'\<lparr>rb_pseq := start + cnt\<rparr>)
      | Wait r' \<Rightarrow> Wait r'
      | Dead \<Rightarrow> Dead)"

text \<open>A slice of the ring's memory: of \<open>buf\<close> from an index, or of \<open>tmp\<close>.\<close>

datatype view = NoView | InBuf nat nat | InTmp nat

fun deref :: "ring \<Rightarrow> view \<Rightarrow> bytes" where
  "deref r NoView = []"
| "deref r (InBuf i m) = take m (drop i (rb_buf r))"
| "deref r (InTmp m) = take m (rb_tmp r)"

definition WriteWait :: "nat \<Rightarrow> ring \<Rightarrow> (view \<times> bool \<times> goerr option) attempt" where
  "WriteWait n r =
     (case waitForWriteSpace n r of
        Now (start, cnt, Some e) r' \<Rightarrow> Now (NoView, False, Some e) r'
      | Now (start, cnt, None) r' \<Rightarrow>
          (let pstart = rb_index r' start in
           if pstart + cnt > rb_size r' then Now (InBuf pstart (rb_size r' - pstart), True, None) r'
           else Now (InBuf pstart cnt, False, None) r')
      | Wait r' \<Rightarrow> Wait r'
      | Dead \<Rightarrow> Dead)"

text \<open>
  \<open>ReadFrom\<close>, with the answers of the reader as a list: the bytes it delivers, cut to the space it
  is offered, and its error. Where the list ends the reader blocks. The deferred \<open>Close\<close> runs at
  every return.
\<close>

definition closing :: "'a \<Rightarrow> ring \<Rightarrow> 'a attempt" where
  "closing v r = (case rb_Close r of Now u r' \<Rightarrow> Now v r' | Wait r' \<Rightarrow> Wait r' | Dead \<Rightarrow> Dead)"

fun rb_ReadFrom :: "(bytes \<times> goerr option) list \<Rightarrow> nat \<Rightarrow> ring \<Rightarrow> (nat \<times> goerr option) attempt" where
  "rb_ReadFrom rs tot r =
     (if rb_done r then closing (tot, Some EOF) r
      else case waitForWriteSpace defaultReadBlockSize r of
        Wait r' \<Rightarrow> Wait r'
      | Dead \<Rightarrow> Dead
      | Now (start, cnt, Some e) r' \<Rightarrow> closing (0, Some e) r'
      | Now (start, cnt, None) r' \<Rightarrow>
          (let pstart = rb_index r' start; pend = min (pstart + cnt) (rb_size r') in
           case rs of
             [] \<Rightarrow> Wait r'
           | (bs, re) # rs' \<Rightarrow>
               (let p = take (pend - pstart) bs; r1 = r'\<lparr>rb_buf := copy_at pstart p (rb_buf r')\<rparr> in
                case (if p = [] then Now (0, None) r1 else WriteCommit (length p) r1) of
                  Wait r2 \<Rightarrow> Wait r2
                | Dead \<Rightarrow> Dead
                | Now (k, Some e) r2 \<Rightarrow> closing (tot + length p, Some e) r2
                | Now (k, None) r2 \<Rightarrow>
                    (case re of
                       Some e \<Rightarrow> closing (tot + length p, Some e) r2
                     | None \<Rightarrow> rb_ReadFrom rs' (tot + length p) r2))))"

declare rb_ReadFrom.simps [simp del]

section \<open>The consumer\<close>

definition rb_Read :: "nat \<Rightarrow> ring \<Rightarrow> (bytes \<times> goerr option) attempt" where
  "rb_Read pl r =
     (if rb_done r \<and> rb_Len r = 0 then Now ([], Some EOF) r
      else let cindex = rb_index r (rb_cseq r) in
        if rb_cseq r + pl < rb_pseq r then
          (let p = take pl (drop cindex (rb_buf r)) in signal_p (p, None) (r\<lparr>rb_cseq := rb_cseq r + length p\<rparr>))
        else if rb_cseq r < rb_pseq r then
          (let b = rb_pseq r - rb_cseq r;
               p = take pl (if cindex + b < rb_size r then take b (drop cindex (rb_buf r)) else drop cindex (rb_buf r))
           in signal_p (p, None) (r\<lparr>rb_cseq := rb_cseq r + length p\<rparr>))
        else if rb_clock r then Wait r
        else if rb_done r then Now ([], Some EOF) (r\<lparr>rb_clock := True\<rparr>)
        else Wait (r\<lparr>rb_cwait := rb_cwait r + 1\<rparr>))"

text \<open>The next \<open>m\<close> bytes: in the buffer where they do not wrap, copied to \<open>tmp\<close> where they do.\<close>

definition look :: "nat \<Rightarrow> goerr option \<Rightarrow> ring \<Rightarrow> (view \<times> goerr option) attempt" where
  "look m err r =
     (let cindex = rb_index r (rb_cseq r) in
      if cindex + m > rb_size r then
        (let t = drop cindex (rb_buf r); l = length t in
         Now (InTmp m, err) (r\<lparr>rb_tmp := t @ take (m - l) (rb_buf r)\<rparr>))
      else Now (InBuf cindex m, err) r)"

text \<open>
  The wait loops of \<open>ReadPeek\<close> and \<open>ReadWait\<close> with what follows them, run with the mutex taken and a
  producer position \<open>ppos\<close>: on entry the one loaded before the mutex was, after a wake-up a new one.
\<close>

definition peek_test :: "int \<Rightarrow> nat \<Rightarrow> ring \<Rightarrow> (view \<times> goerr option) attempt" where
  "peek_test n ppos r =
     (if rb_cseq r \<ge> ppos then
        (if rb_done r then Now (NoView, Some EOF) (r\<lparr>rb_clock := True\<rparr>)
         else Wait (r\<lparr>rb_cwait := rb_cwait r + 1\<rparr>))
      else let m = ppos - rb_cseq r in
        if int m \<ge> n then look (nat n) None r else look m (Some ErrBufferInsufficientData) r)"

definition wait_test :: "int \<Rightarrow> nat \<Rightarrow> ring \<Rightarrow> (view \<times> goerr option) attempt" where
  "wait_test n ppos r =
     (if rb_cseq r + nat n > ppos then
        (if rb_done r then Now (NoView, Some EOF) (r\<lparr>rb_clock := True\<rparr>) else Wait r)
      else look (nat n) None r)"

definition ReadPeek :: "int \<Rightarrow> ring \<Rightarrow> (view \<times> goerr option) attempt" where
  "ReadPeek n r =
     (if n > int (rb_size r) then Now (NoView, Some ErrBufferFull) r
      else if n < 0 then Now (NoView, Some ErrNegativeCount) r
      else if rb_clock r then Wait r
      else peek_test n (rb_pseq r) r)"

definition ReadWait :: "int \<Rightarrow> ring \<Rightarrow> (view \<times> goerr option) attempt" where
  "ReadWait n r =
     (if n > int (rb_size r) then Now (NoView, Some ErrBufferFull) r
      else if n < 0 then Now (NoView, Some ErrNegativeCount) r
      else if rb_clock r then Wait r
      else wait_test n (rb_pseq r) r)"

definition ReadCommit :: "int \<Rightarrow> ring \<Rightarrow> (int \<times> goerr option) attempt" where
  "ReadCommit n r =
     (if n > int (rb_size r) then Now (0, Some ErrBufferFull) r
      else if n < 0 then Now (0, Some ErrNegativeCount) r
      else if rb_cseq r + nat n \<le> rb_pseq r then signal_p (n, None) (r\<lparr>rb_cseq := rb_cseq r + nat n\<rparr>)
      else Now (0, Some ErrBufferInsufficientData) r)"

text \<open>
  \<open>WriteTo\<close>, with the answers of the writer as a list: how many of the bytes it was given it took,
  and its error. The first component of the result are the bytes the writer took.
\<close>

fun rb_WriteTo :: "(nat \<times> goerr option) list \<Rightarrow> bytes \<Rightarrow> ring \<Rightarrow> (bytes \<times> goerr option) attempt" where
  "rb_WriteTo ws out r =
     (if rb_done r then closing (out, Some EOF) r
      else case ReadPeek (int defaultWriteBlockSize) r of
        Wait r' \<Rightarrow> Wait r'
      | Dead \<Rightarrow> Dead
      | Now (v, err) r' \<Rightarrow>
          (if deref r' v = [] then
             (case err of
                Some e \<Rightarrow> if e = ErrBufferInsufficientData then Dead else closing (out, Some e) r'
              | None \<Rightarrow> Dead)
           else case ws of
             [] \<Rightarrow> Wait r'
           | (k, we) # ws' \<Rightarrow>
               (let p = take k (deref r' v); out' = out @ p in
                case we of
                  Some e \<Rightarrow> closing (out', Some e) r'
                | None \<Rightarrow>
                    (case ReadCommit (int (length p)) r' of
                       Wait r2 \<Rightarrow> Wait r2
                     | Dead \<Rightarrow> Dead
                     | Now (j, Some e) r2 \<Rightarrow> closing (out', Some e) r2
                     | Now (j, None) r2 \<Rightarrow>
                         (case err of
                            Some e \<Rightarrow> if e = ErrBufferInsufficientData then rb_WriteTo ws' out' r2
                                      else closing (out', Some e) r2
                          | None \<Rightarrow> rb_WriteTo ws' out' r2)))))"

declare rb_WriteTo.simps [simp del]

end
