(* ===== verification/RingLog.thy ===== *)
theory RingLog
  imports Buffer
begin

text \<open>
  What the byte ring promises: it carries a stream of bytes. The stream is a log that only grows;
  the ring holds the bytes between the consumer's and the producer's position, and every operation
  is an operation on the log and the two positions.
\<close>

section \<open>Bytes at their positions\<close>

text \<open>Bytes put one at a time, wrapping around.\<close>

fun ring_put :: "nat \<Rightarrow> 'a list \<Rightarrow> 'a list \<Rightarrow> 'a list" where
  "ring_put s [] d = d"
| "ring_put s (x # xs) d = ring_put (Suc s) xs (d[s mod length d := x])"

lemma length_ring_put [simp]: "length (ring_put s xs d) = length d"
  by (induction s xs d rule: ring_put.induct) simp_all

lemma ring_put_append: "ring_put s (xs @ ys) d = ring_put (s + length xs) ys (ring_put s xs d)"
  by (induction s xs d rule: ring_put.induct) simp_all

lemma ring_put_cong:
  "s mod length d = t mod length d \<Longrightarrow> ring_put s xs d = ring_put t xs d"
proof (induction xs arbitrary: s t d)
  case (Cons x xs)
  have "Suc s mod length d = Suc t mod length d" using Cons.prems by (metis mod_Suc_eq)
  then show ?case using Cons by (metis length_list_update ring_put.simps(2))
qed simp

lemma ring_put_mod: "ring_put (s mod length d) xs d = ring_put s xs d"
  by (rule ring_put_cong) simp

lemma ring_put_wrap: "ring_put (length d) xs d = ring_put 0 xs d"
  by (rule ring_put_cong) simp

lemma ring_put_straight:
  "s + length xs \<le> length d \<Longrightarrow> ring_put s xs d = take s d @ xs @ drop (s + length xs) d"
proof (induction s xs d rule: ring_put.induct)
  case (2 s x xs d)
  then show ?case by (simp add: upd_conv_take_nth_drop take_Suc_conv_app_nth add.commute)
qed simp

text \<open>\<open>ringCopy\<close> puts the bytes one at a time, whatever their number.\<close>

lemma copy_at_put:
  assumes "s \<le> length d"
  shows "copy_at s src d = ring_put s (take (length d - s) src) d"
proof (cases "s + length src \<le> length d")
  case True
  then show ?thesis by (simp add: copy_at_def ring_put_straight)
next
  case False
  then show ?thesis using assms by (simp add: copy_at_def ring_put_straight [of s "take (length d - s) src"])
qed

lemma ringCopy_loop_put:
  assumes "start < length d" "i + n = length src"
  shows "ringCopy_loop d src start i n = Some (ring_put start (drop i src) d, length src)"
  using assms
proof (induction n arbitrary: d start i rule: less_induct)
  case (less n)
  define l where "l = min (length d - start) n"
  have l: "l = min (length d - start) (length src - i)" using less.prems by (simp add: l_def)
  show ?case
  proof (cases "n = 0")
    case True
    then show ?thesis using less.prems by (simp add: ringCopy_loop.simps)
  next
    case False
    have c: "copy_at start (drop i src) d = ring_put start (take l (drop i src)) d"
      using less.prems by (subst copy_at_put) (auto simp: l min_def)
    have t: "take l (drop i src) @ drop (i + l) src = drop i src"
      by (metis append_take_drop_id drop_drop add.commute)
    have w: "ring_put (if n - l > 0 then 0 else start) (drop (i + l) src) (ring_put start (take l (drop i src)) d) =
        ring_put start (drop i src) d"
    proof (cases "n - l > 0")
      case True
      then have "l = length d - start" "length (take l (drop i src)) = l"
        using less.prems by (auto simp: l_def)
      then have "ring_put 0 (drop (i + l) src) (ring_put start (take l (drop i src)) d) =
          ring_put (start + length (take l (drop i src))) (drop (i + l) src) (ring_put start (take l (drop i src)) d)"
        using less.prems(1) ring_put_wrap [of "ring_put start (take l (drop i src)) d" "drop (i + l) src"] by simp
      then show ?thesis
        using True ring_put_append [of start "take l (drop i src)" "drop (i + l) src" d] unfolding t by simp
    next
      case False
      then have e: "drop (i + l) src = []" using less.prems by (simp add: l_def)
      then have "take l (drop i src) = drop i src" using t by simp
      then show ?thesis using False e by simp
    qed
    have "0 < l" using False less.prems by (simp add: l_def)
    then have "ringCopy_loop (copy_at start (drop i src) d) src (if n - l > 0 then 0 else start) (i + l) (n - l) =
        Some (ring_put (if n - l > 0 then 0 else start) (drop (i + l) src) (copy_at start (drop i src) d), length src)"
      using less.prems False by (intro less.IH) (auto simp: c l_def)
    then show ?thesis
      using False less.prems w by (subst ringCopy_loop.simps) (simp add: Let_def l [symmetric] c split: if_split_asm)
  qed
qed

lemma ringCopy_put: "start < length d \<Longrightarrow> ringCopy d src start = Some (ring_put start src d, length src)"
  by (simp add: ringCopy_def ringCopy_loop_put)

lemma ringCopy_loop_empty:
  assumes "ringCopy_loop [] src start i n = Some r" shows "n = 0"
proof -
  have "d = [] \<longrightarrow> n = 0" if "ringCopy_loop d src start i n = Some r" for d :: bytes and r
    using that
  proof (rule ringCopy_loop.raw_induct [where P = "\<lambda>d src start i n r. d = [] \<longrightarrow> n = 0", rotated])
    fix f :: "bytes \<Rightarrow> bytes \<Rightarrow> nat \<Rightarrow> nat \<Rightarrow> nat \<Rightarrow> (bytes \<times> nat) option" and d src :: bytes and start i n y
    assume IH: "\<And>d src start i n r. f d src start i n = Some r \<Longrightarrow> d = [] \<longrightarrow> n = 0"
      and y: "(if n = 0 then Some (d, i)
         else if length d < start then None
         else let l = min (length d - start) (length src - i) in
           f (copy_at start (drop i src) d) src (if 0 < n - l then 0 else start) (i + l) (n - l)) = Some y"
    show "d = [] \<longrightarrow> n = 0"
    proof
      assume "d = []"
      then show "n = 0" using y by (auto simp: Let_def copy_at_def split: if_split_asm dest!: IH)
    qed
  qed
  then show ?thesis using assms by simp
qed

text \<open>C29: \<open>ringCopy\<close> returns exactly where there is nothing to copy or the ring is not empty and the
  start lies within it; then the bytes were put one at a time, wrapping around, and all are
  counted. In the other cases it panics or loops for ever.\<close>

theorem ringCopy_total:
  "ringCopy d src start =
     (if src = [] then Some (d, 0)
      else if d = [] \<or> length d < start then None
      else Some (ring_put start src d, length src))"
proof -
  consider "src = []" | "src \<noteq> []" "d = []" | "src \<noteq> []" "length d < start"
    | "src \<noteq> []" "d \<noteq> []" "start < length d" | "src \<noteq> []" "d \<noteq> []" "start = length d"
    by linarith
  then show ?thesis
  proof cases
    case 2
    then show ?thesis
      using ringCopy_loop_empty [of src start 0 "length src"]
      by (cases "ringCopy_loop [] src start 0 (length src)") (auto simp: ringCopy_def)
  next
    case 5
    have "ringCopy_loop d src start 0 (length src) = ringCopy_loop d src 0 0 (length src)"
      using 5 by (subst ringCopy_loop.simps) (simp add: Let_def copy_at_def)
    then show ?thesis
      using 5 ringCopy_loop_put [of 0 d 0 "length src" src] ring_put_wrap [of d src] by (simp add: ringCopy_def)
  qed (auto simp: ringCopy_put, auto simp: ringCopy_def ringCopy_loop.simps)
qed

section \<open>The ring holds a part of the log\<close>

text \<open>The bytes from position \<open>c\<close> to the end of \<open>log\<close> lie in \<open>d\<close>.\<close>

definition holds :: "'a list \<Rightarrow> 'a list \<Rightarrow> nat \<Rightarrow> bool" where
  "holds d log c \<longleftrightarrow> c \<le> length log \<and> length log \<le> c + length d \<and>
     (\<forall>i. c \<le> i \<longrightarrow> i < length log \<longrightarrow> d ! (i mod length d) = log ! i)"

lemma mod_window:
  assumes "i < j" "j < i + L" shows "i mod L \<noteq> j mod (L :: nat)"
proof
  assume "i mod L = j mod L"
  then have "L dvd j - i" using assms(1) by (metis less_imp_le mod_eq_dvd_iff_nat)
  then show False using assms by (auto dest: dvd_imp_le)
qed

lemma holds_byte:
  assumes "holds d log c" "length log < c + length d"
  shows "holds (d[length log mod length d := x]) (log @ [x]) c"
proof -
  have "d[length log mod length d := x] ! (i mod length d) = (log @ [x]) ! i" if i: "c \<le> i" "i \<le> length log" for i
  proof (cases "i = length log")
    case True
    moreover have "0 < length d" using assms by (auto simp: holds_def)
    ultimately show ?thesis by simp
  next
    case False
    then have "i mod length d \<noteq> length log mod length d" using assms(2) i by (intro mod_window) auto
    then show ?thesis using assms(1) i False by (simp add: holds_def nth_append)
  qed
  then show ?thesis using assms by (simp add: holds_def)
qed

lemma holds_put:
  "holds d log c \<Longrightarrow> length log + length xs \<le> c + length d \<Longrightarrow> holds (ring_put (length log) xs d) (log @ xs) c"
proof (induction xs arbitrary: d log)
  case (Cons x xs)
  then show ?case using Cons.IH [OF holds_byte [OF Cons.prems(1)], of x] by simp
qed simp

lemma holds_forget: "holds d log c \<Longrightarrow> c \<le> c' \<Longrightarrow> c' \<le> length log \<Longrightarrow> holds d log c'"
  by (auto simp: holds_def)

lemma holds_empty: "length log = c \<Longrightarrow> holds d log c"
  by (auto simp: holds_def)

text \<open>The next \<open>m\<close> bytes, without and with a wrap.\<close>

lemma holds_window:
  assumes "holds d log c" "c + m \<le> length log" "c mod length d + m \<le> length d"
  shows "take m (drop (c mod length d) d) = take m (drop c log)"
proof (rule nth_equalityI)
  fix i assume "i < length (take m (drop (c mod length d) d))"
  then have i: "i < m" "c mod length d + i < length d" using assms(3) by auto
  then have "(c + i) mod length d = c mod length d + i" by (metis mod_add_left_eq mod_less)
  then show "take m (drop (c mod length d) d) ! i = take m (drop c log) ! i"
    using assms i by (auto simp: holds_def dest: spec [of _ "c + i"])
qed (use assms in simp)

lemma mod_wrap:
  assumes "L \<le> c mod L + i" "i < L" shows "(c + i) mod L = c mod L + i - (L :: nat)"
proof -
  have "(c + i) mod L = (c mod L + i) mod L" by (simp add: mod_simps)
  also have "\<dots> = (c mod L + i - L) mod L" using assms(1) by (rule le_mod_geq)
  also have "\<dots> = c mod L + i - L" using assms mod_less_divisor [of L c] by (intro mod_less) linarith
  finally show ?thesis .
qed

lemma holds_window_wrapped:
  assumes "holds d log c" "c + m \<le> length log" "length d < c mod length d + m" "d \<noteq> []"
  shows "drop (c mod length d) d @ take (m - (length d - c mod length d)) d = take m (drop c log)"
proof (rule nth_equalityI)
  define k where "k = c mod length d"
  have m: "m \<le> length d" using assms by (auto simp: holds_def)
  have c: "c mod length d < length d" using assms(4) by simp
  show "length (drop (c mod length d) d @ take (m - (length d - c mod length d)) d) = length (take m (drop c log))"
    using assms m c unfolding k_def [symmetric] by auto
  fix i assume "i < length (drop (c mod length d) d @ take (m - (length d - c mod length d)) d)"
  then have i: "i < m" using m c assms(3) by simp
  have at: "d ! ((c + i) mod length d) = log ! (c + i)" using assms i by (auto simp: holds_def)
  show "(drop (c mod length d) d @ take (m - (length d - c mod length d)) d) ! i = take m (drop c log) ! i"
  proof (cases "c mod length d + i < length d")
    case True
    then have "(c + i) mod length d = c mod length d + i" "i < length d - c mod length d"
      by (metis mod_add_left_eq mod_less) (use True in linarith)
    then show ?thesis using True at i assms(2) by (simp add: nth_append)
  next
    case False
    then have "(c + i) mod length d = c mod length d + i - length d" "\<not> i < length d - c mod length d"
      using i m by (intro mod_wrap; auto) (use False in linarith)
    then show ?thesis using False at i assms(2) c by (simp add: nth_append add.commute)
  qed
qed

section \<open>The invariant of the ring\<close>

definition ring_at :: "bytes \<Rightarrow> ring \<Rightarrow> bool" where
  "ring_at log r \<longleftrightarrow> (\<exists>k. rb_size r = 2 ^ k) \<and> rb_mask r = rb_size r - 1 \<and> length (rb_buf r) = rb_size r \<and>
     rb_pseq r = length log \<and> rb_gate r \<le> rb_cseq r \<and> holds (rb_buf r) log (rb_cseq r)"

text \<open>Not closed, and no goroutine left a mutex behind.\<close>

definition quiet :: "ring \<Rightarrow> bool" where
  "quiet r \<longleftrightarrow> \<not> rb_done r \<and> \<not> rb_plock r \<and> \<not> rb_clock r"

lemma newBuffer_ring_at:
  assumes "newBuffer sz = Inr r"
  shows "ring_at [] r \<and> quiet r \<and> rb_cseq r = 0 \<and> rb_size r = unat (if sz = 0 then 4096 else sz)"
proof -
  have d: "defaultBufferSize = 4096" by (simp add: defaultBufferSize_def)
  then have "powerOfTwo64 (if sz = 0 then 4096 else sz)"
    using assms by (auto simp: newBuffer_def Let_def split: if_split_asm)
  from powerOfTwo64_power [OF this] show ?thesis
    using assms d by (auto simp: newBuffer_def Let_def ring_at_def quiet_def holds_def split: if_split_asm)
qed

lemma ring_at_index: "ring_at log r \<Longrightarrow> rb_index r n = n mod rb_size r"
  by (auto simp: ring_at_def rb_index_def and_mask_mod [simplified])

lemma ring_atD:
  assumes "ring_at log r"
  shows "rb_pseq r = length log" "rb_cseq r \<le> length log" "length log \<le> rb_cseq r + rb_size r"
    "length (rb_buf r) = rb_size r" "rb_gate r \<le> rb_cseq r" "0 < rb_size r"
    "holds (rb_buf r) log (rb_cseq r)" "rb_Len r = length (drop (rb_cseq r) log)"
  using assms by (auto simp: ring_at_def holds_def rb_Len_def)

lemma ring_at_cong:
  "ring_at log r \<Longrightarrow> rb_size r' = rb_size r \<Longrightarrow> rb_mask r' = rb_mask r \<Longrightarrow> rb_buf r' = rb_buf r \<Longrightarrow>
     rb_pseq r' = rb_pseq r \<Longrightarrow> rb_gate r' \<le> rb_cseq r' \<Longrightarrow> rb_cseq r \<le> rb_cseq r' \<Longrightarrow> rb_cseq r' \<le> length log \<Longrightarrow>
     ring_at log r'"
  by (auto simp: ring_at_def intro: holds_forget)

lemma ring_at_put:
  "ring_at log r \<Longrightarrow> length log + length p \<le> rb_cseq r + rb_size r \<Longrightarrow>
     ring_at (log @ p) (r\<lparr>rb_buf := ring_put (length log) p (rb_buf r), rb_pseq := length log + length p\<rparr>)"
  by (auto simp: ring_at_def intro: holds_put)

text \<open>The bytes between the two positions, as a slice of the buffer or gathered in \<open>tmp\<close>.\<close>

lemma look_window:
  assumes "ring_at log r" "rb_cseq r + m \<le> length log"
  shows "\<exists>v r'. look m e r = Now (v, e) r' \<and> deref r' v = take m (drop (rb_cseq r) log) \<and>
     (\<exists>t. r' = r\<lparr>rb_tmp := t\<rparr>)"
proof (cases "rb_index r (rb_cseq r) + m > rb_size r")
  case True
  note d = ring_atD [OF assms(1)] ring_at_index [OF assms(1)]
  have "rb_buf r \<noteq> []" using d(4,6) by auto
  then have w: "drop (rb_cseq r mod rb_size r) (rb_buf r) @
      take (m - (rb_size r - rb_cseq r mod rb_size r)) (rb_buf r) = take m (drop (rb_cseq r) log)"
    using holds_window_wrapped [OF d(7) assms(2)] True d by simp
  then show ?thesis using True d assms(2) by (simp add: look_def Let_def min_def) (metis)
next
  case False
  note d = ring_atD [OF assms(1)] ring_at_index [OF assms(1)]
  have "take m (drop (rb_cseq r mod rb_size r) (rb_buf r)) = take m (drop (rb_cseq r) log)"
    using holds_window [OF d(7) assms(2)] False d by simp
  then show ?thesis using False d by (simp add: look_def Let_def) (metis ring.surjective ring.update_convs(2))
qed

text \<open>Space: granted when the bytes fit, and only then.\<close>

lemma space_granted:
  assumes "ring_at log r" "quiet r" "length log + n \<le> rb_cseq r + rb_size r"
  shows "\<exists>g \<le> rb_cseq r. waitForWriteSpace n r = Now (length log, n, None) (r\<lparr>rb_gate := g\<rparr>)"
proof -
  note d = ring_atD [OF assms(1)]
  have e: "r\<lparr>rb_gate := rb_cseq r, rb_plock := False\<rparr> = r\<lparr>rb_gate := rb_cseq r\<rparr>" "r\<lparr>rb_gate := rb_gate r\<rparr> = r"
    using assms(2) by (simp_all add: quiet_def)
  show ?thesis
  proof (cases "must_wait n r")
    case True
    then have "waitForWriteSpace n r = Now (length log, n, None) (r\<lparr>rb_gate := rb_cseq r\<rparr>)"
      using assms d e by (simp add: waitForWriteSpace_def must_wait_def space_loop_def quiet_def)
    then show ?thesis by blast
  next
    case False
    then have "waitForWriteSpace n r = Now (length log, n, None) (r\<lparr>rb_gate := rb_gate r\<rparr>)"
      using assms d by (simp add: waitForWriteSpace_def must_wait_def quiet_def)
    then show ?thesis using d(5) by blast
  qed
qed

lemma space_refused:
  assumes "ring_at log r" "quiet r" "rb_cseq r + rb_size r < length log + n"
  shows "waitForWriteSpace n r = Wait (r\<lparr>rb_pwait := rb_pwait r + 1\<rparr>)"
proof -
  have "r\<lparr>rb_pwait := rb_pwait r + 1, rb_plock := False\<rparr> = r\<lparr>rb_pwait := rb_pwait r + 1\<rparr>"
    using assms(2) by (simp add: quiet_def)
  then show ?thesis
    using assms ring_atD [OF assms(1)] by (simp add: waitForWriteSpace_def must_wait_def space_loop_def quiet_def)
qed

section \<open>The stream the ring implements\<close>

text \<open>
  The abstract state: all bytes ever written, how many of them were consumed, and the capacity. An
  operation answers, or finds nothing to do and sleeps (\<open>None\<close>).
\<close>

record stream =
  st_log :: bytes
  st_taken :: nat
  st_cap :: nat

datatype bufop = OWrite bytes | ORead nat | OPeek int | OWaitRead int | OCommit int | OLen

datatype bufout = Count int "goerr option" | Got bytes "goerr option" | Crashed

abbreviation unread :: "stream \<Rightarrow> bytes" where "unread s \<equiv> drop (st_taken s) (st_log s)"

fun stream_step :: "bufop \<Rightarrow> stream \<Rightarrow> bufout option \<times> stream" where
  "stream_step (OWrite p) s =
     (if length (unread s) + length p \<le> st_cap s
      then (Some (Count (int (length p)) None), s\<lparr>st_log := st_log s @ p\<rparr>) else (None, s))"
| "stream_step (ORead n) s =
     (let p = take (min n (st_cap s - st_taken s mod st_cap s)) (unread s) in
      if unread s = [] then (None, s) else (Some (Got p None), s\<lparr>st_taken := st_taken s + length p\<rparr>))"
| "stream_step (OPeek n) s =
     (if n > int (st_cap s) then (Some (Got [] (Some ErrBufferFull)), s)
      else if n < 0 then (Some (Got [] (Some ErrNegativeCount)), s)
      else if unread s = [] then (None, s)
      else (Some (Got (take (nat n) (unread s))
              (if int (length (unread s)) \<ge> n then None else Some ErrBufferInsufficientData)), s))"
| "stream_step (OWaitRead n) s =
     (if n > int (st_cap s) then (Some (Got [] (Some ErrBufferFull)), s)
      else if n < 0 then (Some (Got [] (Some ErrNegativeCount)), s)
      else if int (length (unread s)) < n then (None, s)
      else (Some (Got (take (nat n) (unread s)) None), s))"
| "stream_step (OCommit n) s =
     (if n > int (st_cap s) then (Some (Count 0 (Some ErrBufferFull)), s)
      else if n < 0 then (Some (Count 0 (Some ErrNegativeCount)), s)
      else if int (length (unread s)) < n then (Some (Count 0 (Some ErrBufferInsufficientData)), s)
      else (Some (Count n None), s\<lparr>st_taken := st_taken s + nat n\<rparr>))"
| "stream_step OLen s = (Some (Count (int (length (unread s))) None), s)"

text \<open>One attempt of an operation on the ring; a view is read at once.\<close>

fun counted :: "('n \<Rightarrow> int) \<Rightarrow> ('n \<times> goerr option) attempt \<Rightarrow> ring \<Rightarrow> bufout option \<times> ring" where
  "counted f (Now (n, e) r') r = (Some (Count (f n) e), r')"
| "counted f (Wait r') r = (None, r')"
| "counted f Dead r = (Some Crashed, r)"

fun got :: "(ring \<Rightarrow> 'v \<Rightarrow> bytes) \<Rightarrow> ('v \<times> goerr option) attempt \<Rightarrow> ring \<Rightarrow> bufout option \<times> ring" where
  "got f (Now (v, e) r') r = (Some (Got (f r' v) e), r')"
| "got f (Wait r') r = (None, r')"
| "got f Dead r = (Some Crashed, r)"

fun ring_step :: "bufop \<Rightarrow> ring \<Rightarrow> bufout option \<times> ring" where
  "ring_step (OWrite p) r = counted int (rb_Write p r) r"
| "ring_step (ORead n) r = got (\<lambda>r' p. p) (rb_Read n r) r"
| "ring_step (OPeek n) r = got deref (ReadPeek n r) r"
| "ring_step (OWaitRead n) r = got deref (ReadWait n r) r"
| "ring_step (OCommit n) r = counted (\<lambda>k. k) (ReadCommit n r) r"
| "ring_step OLen r = (Some (Count (int (rb_Len r)) None), r)"

fun history :: "('o \<Rightarrow> 's \<Rightarrow> 'a \<times> 's) \<Rightarrow> 'o list \<Rightarrow> 's \<Rightarrow> 'a list" where
  "history f [] s = []"
| "history f (x # xs) s = (let (a, s') = f x s in a # history f xs s')"

definition is_stream :: "ring \<Rightarrow> stream \<Rightarrow> bool" where
  "is_stream r s \<longleftrightarrow> ring_at (st_log s) r \<and> quiet r \<and> st_taken s = rb_cseq r \<and> st_cap s = rb_size r"

lemma is_stream_quiet [dest]: "is_stream r s \<Longrightarrow> quiet r"
  by (simp add: is_stream_def)

lemma is_streamD:
  assumes "is_stream r s"
  shows "ring_at (st_log s) r" "\<not> rb_done r" "\<not> rb_plock r" "\<not> rb_clock r" "st_taken s = rb_cseq r" "st_cap s = rb_size r"
  using assms by (auto simp: is_stream_def quiet_def)

lemma is_stream_consume:
  "is_stream r s \<Longrightarrow> rb_cseq r + k \<le> length (st_log s) \<Longrightarrow> st_taken s' = rb_cseq r + k \<Longrightarrow>
     st_log s' = st_log s \<Longrightarrow> st_cap s' = st_cap s \<Longrightarrow> is_stream (r\<lparr>rb_cseq := rb_cseq r + k\<rparr>) s'"
  by (auto simp: is_stream_def quiet_def ring_at_def intro: holds_forget)

lemma is_stream_notes:
  "is_stream (r\<lparr>rb_pwait := a\<rparr>) s \<longleftrightarrow> is_stream r s"
  "is_stream (r\<lparr>rb_cwait := a\<rparr>) s \<longleftrightarrow> is_stream r s"
  "is_stream (r\<lparr>rb_tmp := t\<rparr>) s \<longleftrightarrow> is_stream r s"
  by (auto simp: is_stream_def quiet_def ring_at_def)

lemma is_stream_unread:
  assumes "is_stream r s"
  shows "length (unread s) = rb_Len r" "rb_Len r = rb_pseq r - rb_cseq r" "rb_pseq r = length (st_log s)"
    "unread s = [] \<longleftrightarrow> rb_pseq r \<le> rb_cseq r" "unread s = [] \<longleftrightarrow> rb_pseq r = rb_cseq r"
  using is_streamD [OF assms] ring_atD [of "st_log s" r] by (auto simp: rb_Len_def)

text \<open>Each operation refines its counterpart on the stream.\<close>

definition refines_op :: "bufop \<Rightarrow> bool" where
  "refines_op x \<longleftrightarrow> (\<forall>r s. is_stream r s \<longrightarrow>
     fst (ring_step x r) = fst (stream_step x s) \<and> is_stream (snd (ring_step x r)) (snd (stream_step x s)))"

lemma Write_refines: "refines_op (OWrite p)"
  unfolding refines_op_def
proof (intro allI impI)
  fix r s assume a: "is_stream r s"
  note d = is_streamD [OF a] ring_atD [OF is_streamD(1) [OF a]] is_stream_unread [OF a]
  show "fst (ring_step (OWrite p) r) = fst (stream_step (OWrite p) s) \<and>
      is_stream (snd (ring_step (OWrite p) r)) (snd (stream_step (OWrite p) s))"
  proof (cases "length (st_log s) + length p \<le> rb_cseq r + rb_size r")
    case True
    obtain g where g: "g \<le> rb_cseq r"
        "waitForWriteSpace (length p) r = Now (length (st_log s), length p, None) (r\<lparr>rb_gate := g\<rparr>)"
      using space_granted [OF d(1) is_stream_quiet [OF a] True] by blast
    have ix: "rb_index (r\<lparr>rb_gate := g\<rparr>) (length (st_log s)) = length (st_log s) mod rb_size r"
      using ring_at_index [OF d(1)] by (simp add: rb_index_def)
    have "ringCopy (rb_buf r) p (length (st_log s) mod rb_size r) =
        Some (ring_put (length (st_log s)) p (rb_buf r), length p)"
      using ringCopy_put [of "length (st_log s) mod rb_size r" "rb_buf r" p] ring_put_mod [of _ "rb_buf r"] d by simp
    then have "rb_Write p r = Now (length p, None)
        (r\<lparr>rb_gate := g, rb_buf := ring_put (length (st_log s)) p (rb_buf r), rb_pseq := length (st_log s) + length p\<rparr>)"
      using d g ix by (simp add: rb_Write_def signal_c_def)
    moreover have "length (unread s) + length p \<le> st_cap s" using True d by simp
    ultimately show ?thesis
      using ring_at_put [OF d(1) True] g(1) d by (auto simp: is_stream_def quiet_def ring_at_def)
  next
    case False
    then have "rb_Write p r = Wait (r\<lparr>rb_pwait := rb_pwait r + 1\<rparr>)"
      using space_refused [OF d(1) is_stream_quiet [OF a], of "length p"] d by (simp add: rb_Write_def)
    then show ?thesis using False d a by (auto simp: is_stream_notes)
  qed
qed

lemma take_drop_min: "take n (drop k xs) = take (min n (length xs - k)) (drop k xs)"
  by (metis length_drop min.commute take_all_iff take_take min_def order_refl)

lemma Read_refines: "refines_op (ORead n)"
  unfolding refines_op_def
proof (intro allI impI)
  fix r s assume a: "is_stream r s"
  note d = is_streamD [OF a] ring_atD [OF is_streamD(1) [OF a]] is_stream_unread [OF a]
  note ix = ring_at_index [OF d(1)]
  define k where "k = rb_cseq r mod rb_size r"
  define b where "b = rb_pseq r - rb_cseq r"
  define m where "m = min (min n b) (rb_size r - k)"
  have k: "k < rb_size r" using d by (simp add: k_def)
  have m: "rb_cseq r + m \<le> length (st_log s)" "k + m \<le> rb_size r" using d k by (auto simp: m_def b_def)
  have p: "take m (drop k (rb_buf r)) = take m (unread s)"
    using holds_window [OF d(13) m(1)] m(2) d by (simp add: k_def)
  have l: "length (take m (unread s)) = m" using m d by simp
  have sp: "take (min n (st_cap s - st_taken s mod st_cap s)) (unread s) = take m (unread s)"
    using d by (simp add: m_def k_def b_def min_def)
  show "fst (ring_step (ORead n) r) = fst (stream_step (ORead n) s) \<and>
      is_stream (snd (ring_step (ORead n) r)) (snd (stream_step (ORead n) s))"
  proof (cases "rb_cseq r < rb_pseq r")
    case True
    have "rb_Read n r = Now (take m (unread s), None) (r\<lparr>rb_cseq := rb_cseq r + m\<rparr>)"
    proof (cases "rb_cseq r + n < rb_pseq r")
      case True
      then have "m = min n (rb_size r - k)" by (simp add: m_def b_def)
      then have "take n (drop k (rb_buf r)) = take m (unread s)" using p d(10) by (metis take_drop_min)
      then have "rb_Read n r = Now (take m (unread s), None) (r\<lparr>rb_cseq := rb_cseq r + length (take m (unread s))\<rparr>)"
        using True d(2-4) ix unfolding rb_Read_def signal_p_def Let_def k_def by (simp del: length_take length_drop)
      then show ?thesis unfolding l .
    next
      case False
      then have "m = (if k + b < rb_size r then b else rb_size r - k)" by (auto simp: m_def b_def)
      then have "take n (if k + b < rb_size r then take b (drop k (rb_buf r)) else drop k (rb_buf r)) = take m (unread s)"
        using p d(10) False by (auto simp: b_def)
      then have "rb_Read n r = Now (take m (unread s), None) (r\<lparr>rb_cseq := rb_cseq r + length (take m (unread s))\<rparr>)"
        using False True d(2-4) ix unfolding rb_Read_def signal_p_def Let_def k_def b_def
        by (auto simp del: length_take length_drop split: if_split_asm)
      then show ?thesis unfolding l .
    qed
    then show ?thesis using True d sp l is_stream_consume [OF a m(1)] by (simp add: Let_def)
  next
    case False
    then have "rb_Read n r = Wait (r\<lparr>rb_cwait := rb_cwait r + 1\<rparr>)" using d by (simp add: rb_Read_def)
    then show ?thesis using False d a by (simp add: Let_def is_stream_notes)
  qed
qed

lemma Peek_refines: "refines_op (OPeek n)"
  unfolding refines_op_def
proof (intro allI impI)
  fix r s assume a: "is_stream r s"
  note d = is_streamD [OF a] ring_atD [OF is_streamD(1) [OF a]] is_stream_unread [OF a]
  consider "n > int (rb_size r) \<or> n < 0 \<or> rb_pseq r \<le> rb_cseq r"
    | "0 \<le> n" "n \<le> int (rb_size r)" "rb_cseq r < rb_pseq r" by linarith
  then show "fst (ring_step (OPeek n) r) = fst (stream_step (OPeek n) s) \<and>
      is_stream (snd (ring_step (OPeek n) r)) (snd (stream_step (OPeek n) s))"
  proof cases
    case 1
    then show ?thesis using d a by (auto simp: ReadPeek_def peek_test_def is_stream_notes)
  next
    case 2
    define m where "m = (if int (rb_Len r) \<ge> n then nat n else rb_Len r)"
    define e where "e = (if int (rb_Len r) \<ge> n then None else Some ErrBufferInsufficientData)"
    have m: "rb_cseq r + m \<le> length (st_log s)" using d 2 by (auto simp: m_def)
    have t: "take m (unread s) = take (nat n) (unread s)" using d by (auto simp: m_def)
    obtain v t where v: "look m e r = Now (v, e) (r\<lparr>rb_tmp := t\<rparr>)" "deref (r\<lparr>rb_tmp := t\<rparr>) v = take m (unread s)"
      using look_window [OF d(1) m, of e] d(5) by auto
    have "ReadPeek n r = look m e r" using 2 d by (simp add: ReadPeek_def peek_test_def Let_def m_def e_def)
    then show ?thesis using 2 d a v t by (auto simp: is_stream_notes e_def)
  qed
qed

lemma WaitRead_refines: "refines_op (OWaitRead n)"
  unfolding refines_op_def
proof (intro allI impI)
  fix r s assume a: "is_stream r s"
  note d = is_streamD [OF a] ring_atD [OF is_streamD(1) [OF a]] is_stream_unread [OF a]
  consider "n > int (rb_size r) \<or> n < 0 \<or> rb_cseq r + nat n > rb_pseq r"
    | "0 \<le> n" "n \<le> int (rb_size r)" "rb_cseq r + nat n \<le> rb_pseq r" by linarith
  then show "fst (ring_step (OWaitRead n) r) = fst (stream_step (OWaitRead n) s) \<and>
      is_stream (snd (ring_step (OWaitRead n) r)) (snd (stream_step (OWaitRead n) s))"
  proof cases
    case 1
    then show ?thesis using d a by (auto simp: ReadWait_def wait_test_def is_stream_notes)
  next
    case 2
    then have m: "rb_cseq r + nat n \<le> length (st_log s)" using d by simp
    obtain v t where v: "look (nat n) None r = Now (v, None) (r\<lparr>rb_tmp := t\<rparr>)"
        "deref (r\<lparr>rb_tmp := t\<rparr>) v = take (nat n) (unread s)"
      using look_window [OF d(1) m, of None] d(5) by auto
    have "ReadWait n r = look (nat n) None r" using 2 d by (simp add: ReadWait_def wait_test_def)
    then show ?thesis using 2 d a v by (auto simp: is_stream_notes)
  qed
qed

lemma Commit_refines: "refines_op (OCommit n)"
  unfolding refines_op_def
proof (intro allI impI)
  fix r s assume a: "is_stream r s"
  note d = is_streamD [OF a] ring_atD [OF is_streamD(1) [OF a]] is_stream_unread [OF a]
  show "fst (ring_step (OCommit n) r) = fst (stream_step (OCommit n) s) \<and>
      is_stream (snd (ring_step (OCommit n) r)) (snd (stream_step (OCommit n) s))"
    using d a by (auto simp: ReadCommit_def signal_p_def intro!: is_stream_consume [OF a])
qed

lemma Len_refines: "refines_op OLen"
  by (auto simp: refines_op_def dest: is_stream_unread)

lemma every_op_refines: "refines_op x"
  by (cases x) (simp_all add: Write_refines Read_refines Peek_refines WaitRead_refines Commit_refines Len_refines)

section \<open>The contract of a stream\<close>

text \<open>
  What the framing and the threads need of a ring: its attempts answer as the stream does and keep
  carrying it. The rules below are what they use.
\<close>

locale stream_impl =
  fixes step :: "bufop \<Rightarrow> 'r \<Rightarrow> bufout option \<times> 'r" and carries :: "'r \<Rightarrow> stream \<Rightarrow> bool"
  assumes answers: "carries r s \<Longrightarrow> fst (step x r) = fst (stream_step x s)"
    and follows: "carries r s \<Longrightarrow> carries (snd (step x r)) (snd (stream_step x s))"
begin

lemma history_eq: "carries r s \<Longrightarrow> history step xs r = history stream_step xs s"
proof (induction xs arbitrary: r s)
  case (Cons x xs)
  then show ?case using answers [OF Cons.prems, of x] follows [OF Cons.prems, of x] by (simp add: split_def Let_def)
qed simp

lemma step_as:
  assumes "carries r s" "stream_step x s = (a, s')" shows "\<exists>r'. step x r = (a, r') \<and> carries r' s'"
  using answers [OF assms(1), of x] follows [OF assms(1), of x] assms(2) by (metis fst_conv prod.collapse snd_conv)

lemma writes:
  "carries r s \<Longrightarrow> length (unread s) + length p \<le> st_cap s \<Longrightarrow>
     \<exists>r'. step (OWrite p) r = (Some (Count (int (length p)) None), r') \<and> carries r' (s\<lparr>st_log := st_log s @ p\<rparr>)"
  by (erule step_as) auto

lemma write_waits:
  "carries r s \<Longrightarrow> st_cap s < length (unread s) + length p \<Longrightarrow> \<exists>r'. step (OWrite p) r = (None, r') \<and> carries r' s"
  by (erule step_as) auto

lemma peek:
  "carries r s \<Longrightarrow> unread s \<noteq> [] \<Longrightarrow> n \<le> st_cap s \<Longrightarrow> n \<le> length (unread s) \<Longrightarrow>
     \<exists>r'. step (OPeek (int n)) r = (Some (Got (take n (unread s)) None), r') \<and> carries r' s"
  by (erule step_as) auto

lemma peek_all:
  "carries r s \<Longrightarrow> unread s \<noteq> [] \<Longrightarrow> length (unread s) \<le> st_cap s \<Longrightarrow>
     \<exists>r' e. step (OPeek (int (st_cap s))) r = (Some (Got (unread s) e), r') \<and> carries r' s"
  by (drule step_as) auto

lemma wait_read:
  "carries r s \<Longrightarrow> n \<le> st_cap s \<Longrightarrow> n \<le> length (unread s) \<Longrightarrow>
     \<exists>r'. step (OWaitRead (int n)) r = (Some (Got (take n (unread s)) None), r') \<and> carries r' s"
  by (erule step_as) auto

lemma wait_read_waits:
  "carries r s \<Longrightarrow> n \<le> st_cap s \<Longrightarrow> length (unread s) < n \<Longrightarrow>
     \<exists>r'. step (OWaitRead (int n)) r = (None, r') \<and> carries r' s"
  by (erule step_as) auto

lemma commit:
  "carries r s \<Longrightarrow> n \<le> st_cap s \<Longrightarrow> n \<le> length (unread s) \<Longrightarrow>
     \<exists>r'. step (OCommit (int n)) r = (Some (Count (int n) None), r') \<and> carries r' (s\<lparr>st_taken := st_taken s + n\<rparr>)"
  by (erule step_as) auto

end

interpretation rs: stream_impl ring_step is_stream
  using every_op_refines by unfold_locales (auto simp: refines_op_def)

text \<open>An answer of an attempt as the result of the operation.\<close>

lemma counted_eq: "counted f at r = (Some (Count k e), r') \<Longrightarrow> \<exists>n. at = Now (n, e) r' \<and> f n = k"
  by (cases at) auto

lemma got_eq: "got f at r = (Some (Got bs e), r') \<Longrightarrow> \<exists>v. at = Now (v, e) r' \<and> f r' v = bs"
  by (cases at) auto

lemma sleeps_eq: "counted f at1 r = (None, r') \<Longrightarrow> at1 = Wait r'" "got g at2 r = (None, r') \<Longrightarrow> at2 = Wait r'"
  by (cases at1; auto) (cases at2; auto)

section \<open>Properties\<close>

text \<open>C17: A new ring answers any sequence of \<open>Write\<close>, \<open>Read\<close>, \<open>ReadPeek\<close>, \<open>ReadWait\<close>, \<open>ReadCommit\<close>
  and \<open>Len\<close> attempts, of any sizes and in any order, as the stream does: bytes come out once, in the
  order they were written, a call waits exactly where the stream has no room or no data, and the
  errors are those of the stream.\<close>

theorem ring_refines_stream:
  assumes "newBuffer sz = Inr r"
  shows "history ring_step xs r =
    history stream_step xs \<lparr>st_log = [], st_taken = 0, st_cap = unat (if sz = 0 then 4096 else sz)\<rparr>"
  using newBuffer_ring_at [OF assms] by (intro rs.history_eq) (simp add: is_stream_def)

theorem ring_refines_stream_witness:
  "\<exists>r. newBuffer 4096 = Inr r \<and>
     history ring_step [OWrite [1, 2, 3], OPeek 2, ORead 2, OCommit 1, OWaitRead 1] r =
       [Some (Count 3 None), Some (Got [1, 2] None), Some (Got [1, 2] None), Some (Count 1 None), None]"
proof -
  obtain r where r: "newBuffer 4096 = Inr r"
    by (simp add: newBuffer_def powerOfTwo64_def defaultReadBlockSize_def)
  have "history stream_step [OWrite [1, 2, 3], OPeek 2, ORead 2, OCommit 1, OWaitRead 1]
      \<lparr>st_log = [], st_taken = 0, st_cap = unat (if (4096 :: u64) = 0 then 4096 else 4096 :: u64)\<rparr> =
      [Some (Count 3 None), Some (Got [1, 2] None), Some (Got [1, 2] None), Some (Count 1 None), None]"
    by (simp add: Let_def)
  then show ?thesis
    unfolding ring_refines_stream [OF r, symmetric] using r by blast
qed

text \<open>A \<open>Write\<close> of more bytes than the ring has waits whatever was read.\<close>

lemma long_Write_waits:
  assumes "is_stream r s" "st_cap s < length p"
  shows "\<exists>r'. rb_Write p r = Wait r' \<and> is_stream r' s"
  using rs.write_waits [OF assms(1), of p] assms(2) by (auto dest: sleeps_eq)

text \<open>
  A producer that is woken by the closing of the ring returns with the mutex of its condition held:
  the \<open>Close\<close> that \<open>ReadFrom\<close> defers then waits for ever.
\<close>

lemma eof_keeps_mutex:
  assumes "rb_done r" "int (ppos + n) - int (rb_size r) > int (rb_cseq r)"
  shows "\<exists>r'. space_loop ppos n r = Now (0, 0, Some EOF) r' \<and> rb_Close r' = Wait r'"
  using assms by (simp add: space_loop_def rb_Close_def signal_p_def)

end
