(* ===== verification/RingThreads.thy ===== *)
theory RingThreads
  imports RingLog
begin

text \<open>
  The goroutines of a byte ring, \<open>corev5/v2/service/buffer.go\<close>, as interleaved steps. The producer
  runs \<open>Write\<close>: it looks whether its bytes fit, waits for space on the condition \<open>pcond\<close> where they do
  not, puts them into the ring one at a time, publishes its position and broadcasts \<open>ccond\<close>. The
  consumer runs \<open>ReadPeek\<close>, \<open>ReadWait\<close> and \<open>ReadCommit\<close>: it loads the two positions, takes the mutex
  of \<open>ccond\<close>, waits there, takes a view of the next bytes, commits and broadcasts \<open>pcond\<close>. Any number
  of goroutines run \<open>Close\<close>.

  A step is what no other goroutine can come between, or cannot tell: a test made under a mutex, the
  start of a \<open>Wait\<close> (which registers the sleeper and releases the mutex), a broadcast made under
  a mutex. A sleeper moves on only when a broadcast finds it asleep.
\<close>

section \<open>The step relation\<close>

text \<open>
  The producer: about to take the mutex, testing under the mutex, about to sleep after a failed test,
  asleep; \<open>Putting start p i\<close>: the first \<open>i\<close> bytes of \<open>p\<close> are in the ring; \<open>Announcing\<close>: published,
  about to broadcast.
\<close>

datatype producer = Ready | PEnter bytes | PHolds bytes | PSleepy bytes | PAsleep bytes
  | Putting nat bytes nat | Announcing

text \<open>
  The consumer, in a call of \<open>ReadPeek\<close> or \<open>ReadWait\<close>: with the producer position it loaded before
  it takes the mutex, testing that position under the mutex, about to sleep, asleep, woken and about
  to take the mutex again; \<open>Viewing m v\<close>: \<open>v\<close> was handed out; \<open>Signalling\<close>: committed, about to
  broadcast.
\<close>

datatype call = Peek int | Await int

datatype consumer = Idle | Loaded call nat | CHolds call nat | CSleepy call | CAsleep call | CWoken call
  | Viewing nat view | Signalling

text \<open>
  \<open>t_marked\<close> and \<open>t_half\<close> count the goroutines in \<open>Close\<close> that have set the flag, and of those the
  ones that have broadcast \<open>pcond\<close> but not yet \<open>ccond\<close>.
\<close>

record threads =
  t_ring :: ring
  t_prod :: producer
  t_cons :: consumer
  t_marked :: nat
  t_half :: nat
  t_sent :: bytes
  t_recv :: bytes

definition start_threads :: "ring \<Rightarrow> threads" where
  "start_threads r = \<lparr>t_ring = r, t_prod = Ready, t_cons = Idle, t_marked = 0, t_half = 0, t_sent = [], t_recv = []\<rparr>"

text \<open>A broadcast wakes who is asleep and is lost on everyone else.\<close>

fun woken_p :: "producer \<Rightarrow> producer" where
  "woken_p (PAsleep p) = PEnter p"
| "woken_p q = q"

fun woken_c :: "consumer \<Rightarrow> consumer" where
  "woken_c (CAsleep c) = CWoken c"
| "woken_c q = q"

text \<open>Other counts are refused at once, without a look at the ring.\<close>

fun valid_call :: "call \<Rightarrow> ring \<Rightarrow> bool" where
  "valid_call (Peek n) r \<longleftrightarrow> 0 \<le> n \<and> n \<le> int (rb_size r)"
| "valid_call (Await n) r \<longleftrightarrow> 0 \<le> n \<and> n \<le> int (rb_size r)"

fun call_test :: "call \<Rightarrow> nat \<Rightarrow> ring \<Rightarrow> (view \<times> goerr option) attempt" where
  "call_test (Peek n) ppos r = peek_test n ppos r"
| "call_test (Await n) ppos r = wait_test n ppos r"

inductive tstep :: "threads \<Rightarrow> threads \<Rightarrow> bool" where
  begin_write:
    "t_prod s = Ready \<Longrightarrow> \<not> rb_done (t_ring s) \<Longrightarrow>
     tstep s (s\<lparr>t_prod := (if must_wait (length p) (t_ring s) then PEnter p else Putting (rb_pseq (t_ring s)) p 0)\<rparr>)"
| p_lock:
    "t_prod s = PEnter p \<Longrightarrow> \<not> rb_plock (t_ring s) \<Longrightarrow>
     tstep s (s\<lparr>t_ring := (t_ring s)\<lparr>rb_plock := True\<rparr>, t_prod := PHolds p\<rparr>)"
| p_grant:
    "t_prod s = PHolds p \<Longrightarrow> space_loop (rb_pseq (t_ring s)) (length p) (t_ring s) = Now (st, n, None) r' \<Longrightarrow>
     tstep s (s\<lparr>t_ring := r', t_prod := Putting st p 0\<rparr>)"
| p_eof:
    "t_prod s = PHolds p \<Longrightarrow> space_loop (rb_pseq (t_ring s)) (length p) (t_ring s) = Now (st, n, Some e) r' \<Longrightarrow>
     tstep s (s\<lparr>t_ring := r', t_prod := Ready\<rparr>)"
| p_wait:
    "t_prod s = PHolds p \<Longrightarrow> space_loop (rb_pseq (t_ring s)) (length p) (t_ring s) = Wait r' \<Longrightarrow>
     tstep s (s\<lparr>t_ring := r'\<lparr>rb_plock := True\<rparr>, t_prod := PSleepy p\<rparr>)"
| p_sleep:
    "t_prod s = PSleepy p \<Longrightarrow>
     tstep s (s\<lparr>t_ring := (t_ring s)\<lparr>rb_plock := False\<rparr>, t_prod := PAsleep p\<rparr>)"
| put_byte:
    "t_prod s = Putting st p i \<Longrightarrow> i < length p \<Longrightarrow>
     tstep s (s\<lparr>t_ring := (t_ring s)\<lparr>rb_buf := (rb_buf (t_ring s))[rb_index (t_ring s) (st + i) := p ! i]\<rparr>,
                t_prod := Putting st p (Suc i)\<rparr>)"
| publish:
    "t_prod s = Putting st p (length p) \<Longrightarrow>
     tstep s (s\<lparr>t_ring := (t_ring s)\<lparr>rb_pseq := st + length p\<rparr>, t_prod := Announcing, t_sent := t_sent s @ p\<rparr>)"
| announce:
    "t_prod s = Announcing \<Longrightarrow> \<not> rb_clock (t_ring s) \<Longrightarrow>
     tstep s (s\<lparr>t_prod := Ready, t_cons := woken_c (t_cons s)\<rparr>)"
| c_load:
    "t_cons s = Idle \<Longrightarrow> valid_call c (t_ring s) \<Longrightarrow> tstep s (s\<lparr>t_cons := Loaded c (rb_pseq (t_ring s))\<rparr>)"
| c_lock:
    "t_cons s = Loaded c pp \<Longrightarrow> \<not> rb_clock (t_ring s) \<Longrightarrow>
     tstep s (s\<lparr>t_ring := (t_ring s)\<lparr>rb_clock := True\<rparr>, t_cons := CHolds c pp\<rparr>)"
| c_return:
    "t_cons s = CHolds c pp \<Longrightarrow> call_test c pp ((t_ring s)\<lparr>rb_clock := False\<rparr>) = Now (v, e) r' \<Longrightarrow>
     tstep s (s\<lparr>t_ring := r', t_cons := Viewing (length (deref r' v)) v\<rparr>)"
| c_wait:
    "t_cons s = CHolds c pp \<Longrightarrow> call_test c pp ((t_ring s)\<lparr>rb_clock := False\<rparr>) = Wait r' \<Longrightarrow>
     tstep s (s\<lparr>t_ring := r'\<lparr>rb_clock := True\<rparr>, t_cons := CSleepy c\<rparr>)"
| c_sleep:
    "t_cons s = CSleepy c \<Longrightarrow>
     tstep s (s\<lparr>t_ring := (t_ring s)\<lparr>rb_clock := False\<rparr>, t_cons := CAsleep c\<rparr>)"
| c_wake:
    "t_cons s = CWoken c \<Longrightarrow> \<not> rb_clock (t_ring s) \<Longrightarrow>
     tstep s (s\<lparr>t_ring := (t_ring s)\<lparr>rb_clock := True\<rparr>, t_cons := CHolds c (rb_pseq (t_ring s))\<rparr>)"
| look_again:
    "t_cons s = Viewing m v \<Longrightarrow> tstep s (s\<lparr>t_cons := Idle\<rparr>)"
| commit:
    "t_cons s = Viewing m v \<Longrightarrow> k \<le> m \<Longrightarrow> rb_cseq (t_ring s) + k \<le> rb_pseq (t_ring s) \<Longrightarrow>
     tstep s (s\<lparr>t_ring := (t_ring s)\<lparr>rb_cseq := rb_cseq (t_ring s) + k\<rparr>, t_cons := Signalling,
                t_recv := t_recv s @ take k (deref (t_ring s) v)\<rparr>)"
| signal:
    "t_cons s = Signalling \<Longrightarrow> \<not> rb_plock (t_ring s) \<Longrightarrow>
     tstep s (s\<lparr>t_cons := Idle, t_prod := woken_p (t_prod s)\<rparr>)"
| close_mark:
    "tstep s (s\<lparr>t_ring := (t_ring s)\<lparr>rb_done := True\<rparr>, t_marked := Suc (t_marked s)\<rparr>)"
| close_p:
    "t_marked s = Suc i \<Longrightarrow> \<not> rb_plock (t_ring s) \<Longrightarrow>
     tstep s (s\<lparr>t_marked := i, t_half := Suc (t_half s), t_prod := woken_p (t_prod s)\<rparr>)"
| close_c:
    "t_half s = Suc i \<Longrightarrow> \<not> rb_plock (t_ring s) \<Longrightarrow>
     tstep s (s\<lparr>t_half := i, t_cons := woken_c (t_cons s)\<rparr>)"

inductive_cases tstepE: "tstep s s'"

definition trun :: "threads \<Rightarrow> threads \<Rightarrow> bool" where "trun = tstep\<^sup>*\<^sup>*"

section \<open>The bytes\<close>

fun view_ok :: "bytes \<Rightarrow> ring \<Rightarrow> nat \<Rightarrow> view \<Rightarrow> bool" where
  "view_ok log r m NoView \<longleftrightarrow> m = 0"
| "view_ok log r m (InBuf i k) \<longleftrightarrow> k = m \<and> i = rb_cseq r mod rb_size r \<and> i + m \<le> rb_size r"
| "view_ok log r m (InTmp k) \<longleftrightarrow> k = m \<and> take m (rb_tmp r) = take m (drop (rb_cseq r) log)"

fun prod_ok :: "bytes \<Rightarrow> ring \<Rightarrow> producer \<Rightarrow> bool" where
  "prod_ok log r (Putting st p i) \<longleftrightarrow> st = length log \<and> i \<le> length p \<and> st + length p \<le> rb_cseq r + rb_size r \<and>
     holds (rb_buf r) (log @ take i p) (rb_cseq r)"
| "prod_ok log r _ \<longleftrightarrow> True"

text \<open>A loaded producer position may be old, but it was one.\<close>

fun cons_ok :: "bytes \<Rightarrow> ring \<Rightarrow> consumer \<Rightarrow> bool" where
  "cons_ok log r (Viewing m v) \<longleftrightarrow> rb_cseq r + m \<le> length log \<and> view_ok log r m v"
| "cons_ok log r (Loaded c pp) \<longleftrightarrow> pp \<le> length log"
| "cons_ok log r (CHolds c pp) \<longleftrightarrow> pp \<le> length log"
| "cons_ok log r _ \<longleftrightarrow> True"

definition threads_ok :: "threads \<Rightarrow> bool" where
  "threads_ok s \<longleftrightarrow> ring_at (t_sent s) (t_ring s) \<and>
     prod_ok (t_sent s) (t_ring s) (t_prod s) \<and> cons_ok (t_sent s) (t_ring s) (t_cons s) \<and>
     t_recv s = take (rb_cseq (t_ring s)) (t_sent s)"

lemma holds_shorter: "holds d (log @ xs) c \<Longrightarrow> c \<le> length log \<Longrightarrow> holds d log c"
  by (fastforce simp: holds_def nth_append)

text \<open>A view still shows the bytes it was taken for, whatever the producer put meanwhile.\<close>

lemma view_ok_deref:
  assumes "ring_at log r" "rb_cseq r + m \<le> length log" "view_ok log r m v"
  shows "deref r v = take m (drop (rb_cseq r) log)"
proof (cases v)
  case (InBuf i k)
  then show ?thesis using holds_window [OF ring_atD(7) [OF assms(1)] assms(2)] ring_atD(4) [OF assms(1)] assms(3) by simp
qed (use assms in auto)

text \<open>What the tests may change besides mutexes, counters and the scratch slice.\<close>

definition same_ring :: "ring \<Rightarrow> ring \<Rightarrow> bool" where
  "same_ring r r' \<longleftrightarrow> rb_size r' = rb_size r \<and> rb_mask r' = rb_mask r \<and> rb_buf r' = rb_buf r \<and>
     rb_pseq r' = rb_pseq r \<and> rb_cseq r' = rb_cseq r \<and> rb_done r' = rb_done r \<and>
     (rb_gate r' = rb_gate r \<or> rb_gate r' = rb_cseq r)"

lemma space_same:
  "space_loop pp n r = Now a r' \<Longrightarrow> same_ring r r' \<and> rb_tmp r' = rb_tmp r"
  "space_loop pp n r = Wait r' \<Longrightarrow> same_ring r r' \<and> rb_tmp r' = rb_tmp r"
  by (auto simp: space_loop_def same_ring_def split: if_split_asm)

lemma space_granted_fits:
  "space_loop (rb_pseq r) n r = Now (st, c, None) r' \<Longrightarrow> st = rb_pseq r \<and> rb_pseq r + n \<le> rb_cseq r + rb_size r"
  by (auto simp: space_loop_def split: if_split_asm)

lemma no_wait_fits: "ring_at log r \<Longrightarrow> \<not> must_wait n r \<Longrightarrow> rb_pseq r + n \<le> rb_cseq r + rb_size r"
  using ring_atD [of log r] by (simp add: must_wait_def)

lemma look_same: "look m e r = Now a r' \<Longrightarrow> same_ring r r' \<and> rb_plock r' = rb_plock r"
  by (auto simp: look_def Let_def same_ring_def split: if_split_asm)

lemma look_not_Wait: "look m e r \<noteq> Wait r'"
  by (simp add: look_def Let_def)

lemma call_test_same:
  "call_test c pp r = Now a r' \<Longrightarrow> same_ring r r' \<and> rb_plock r' = rb_plock r"
  "call_test c pp r = Wait r' \<Longrightarrow> same_ring r r' \<and> rb_tmp r' = rb_tmp r \<and> rb_plock r' = rb_plock r"
  by (cases c; auto simp: peek_test_def wait_test_def Let_def look_not_Wait same_ring_def split: if_split_asm
        dest!: look_same)+

lemma look_view:
  assumes "ring_at log r" "rb_cseq r + m \<le> length log" "look m e r = Now (v, e') r'"
  shows "view_ok log r' m v \<and> length (deref r' v) = m"
proof -
  obtain v1 t where l: "look m e r = Now (v1, e) (r\<lparr>rb_tmp := t\<rparr>)" "deref (r\<lparr>rb_tmp := t\<rparr>) v1 = take m (drop (rb_cseq r) log)"
    using look_window [OF assms(1,2), of e] by blast
  then have v: "v1 = v" "r' = r\<lparr>rb_tmp := t\<rparr>" using assms(3) by auto
  have "length (deref r' v) = m" using l(2) v assms(2) by simp
  moreover have "view_ok log r' m v"
    using assms(3) l(2) ring_at_index [OF assms(1)] unfolding v
    by (auto simp: look_def Let_def split: if_split_asm)
  ultimately show ?thesis by simp
qed

text \<open>What the consumer is handed lies between the positions.\<close>

definition handed :: "bytes \<Rightarrow> ring \<Rightarrow> view \<Rightarrow> bool" where
  "handed log r v \<longleftrightarrow> rb_cseq r + length (deref r v) \<le> length log \<and> view_ok log r (length (deref r v)) v"

lemma handed_NoView: "ring_at log r \<Longrightarrow> rb_cseq r' = rb_cseq r \<Longrightarrow> handed log r' NoView"
  by (simp add: handed_def ring_atD)

lemma look_handed:
  assumes "ring_at log r" "rb_cseq r + m \<le> length log" "look m e r = Now (v, e') r'"
  shows "handed log r' v"
  using look_view [OF assms] look_same [OF assms(3)] assms(2) by (auto simp: handed_def same_ring_def)

lemma call_test_handed: "ring_at log r \<Longrightarrow> pp \<le> length log \<Longrightarrow> call_test c pp r = Now (v, e) r' \<Longrightarrow> handed log r' v"
  by (cases c)
    (auto simp: peek_test_def wait_test_def Let_def split: if_split_asm intro: handed_NoView elim!: look_handed [rotated 2])

lemma same_ring_oks:
  assumes "same_ring r r'"
  shows "ring_at log r \<Longrightarrow> ring_at log r'" "prod_ok log r p \<Longrightarrow> prod_ok log r' p" "rb_cseq r' = rb_cseq r"
  using assms by (cases p; auto simp: same_ring_def ring_at_def)+

lemma view_ok_cong:
  "rb_cseq r' = rb_cseq r \<Longrightarrow> rb_size r' = rb_size r \<Longrightarrow> rb_tmp r' = rb_tmp r \<Longrightarrow> view_ok log r m v \<Longrightarrow> view_ok log r' m v"
  by (cases v) auto

lemma cons_ok_cong:
  "cons_ok log r c \<Longrightarrow> rb_cseq r' = rb_cseq r \<Longrightarrow> rb_size r' = rb_size r \<Longrightarrow> rb_tmp r' = rb_tmp r \<Longrightarrow> cons_ok log r' c"
  by (cases c) (auto elim: view_ok_cong [rotated 3])

lemma cons_ok_same: "same_ring r r' \<Longrightarrow> rb_tmp r' = rb_tmp r \<Longrightarrow> cons_ok log r c \<Longrightarrow> cons_ok log r' c"
  by (auto simp: same_ring_def elim: cons_ok_cong)

text \<open>The consumer moves its position; the producer moves its own or puts a byte.\<close>

lemma consume_oks:
  assumes "ring_at log r" "k + rb_cseq r \<le> length log"
  shows "ring_at log (r\<lparr>rb_cseq := rb_cseq r + k\<rparr>)"
    "prod_ok log r p \<Longrightarrow> prod_ok log (r\<lparr>rb_cseq := rb_cseq r + k\<rparr>) p"
  using assms by (auto simp: ring_at_def intro: holds_forget) (cases p; auto intro: holds_forget)

lemma put_byte_oks:
  assumes "ring_at log r" "prod_ok log r (Putting st p i)" "i < length p"
  defines "r' \<equiv> r\<lparr>rb_buf := (rb_buf r)[rb_index r (st + i) := p ! i]\<rparr>"
  shows "ring_at log r'" "prod_ok log r' (Putting st p (Suc i))"
proof -
  have h: "holds (rb_buf r) (log @ take i p) (rb_cseq r)" and st: "st = length log"
      "st + length p \<le> rb_cseq r + rb_size r"
    using assms(2) by simp_all
  have l: "length (log @ take i p) = st + i" using assms(3) st by simp
  have "holds ((rb_buf r)[rb_index r (st + i) := p ! i]) ((log @ take i p) @ [p ! i]) (rb_cseq r)"
    using holds_byte [OF h, of "p ! i"] l st assms(3) ring_atD(4) [OF assms(1)] ring_at_index [OF assms(1)] by simp
  then have h': "holds (rb_buf r') (log @ take (Suc i) p) (rb_cseq r)"
    using assms(3) by (simp add: r'_def take_Suc_conv_app_nth)
  then have "holds (rb_buf r') log (rb_cseq r)" using ring_atD(2) [OF assms(1)] by (rule holds_shorter)
  then show "ring_at log r'" using assms(1) by (auto simp: ring_at_def r'_def)
  show "prod_ok log r' (Putting st p (Suc i))" using h' st assms(3) by (simp add: r'_def)
qed

lemma cons_ok_longer: "cons_ok log r c \<Longrightarrow> cons_ok (log @ p) r c"
proof (cases c)
  case (Viewing m v)
  then show "cons_ok log r c \<Longrightarrow> cons_ok (log @ p) r c" by (cases v) auto
qed auto

lemma publish_oks:
  assumes "ring_at log r" "prod_ok log r (Putting st p (length p))"
  shows "ring_at (log @ p) (r\<lparr>rb_pseq := st + length p\<rparr>)"
  using assms by (auto simp: ring_at_def)

section \<open>Reachable states\<close>

lemma start_threads_ok: "newBuffer sz = Inr r \<Longrightarrow> threads_ok (start_threads r)"
  using newBuffer_ring_at [of sz r] by (simp add: threads_ok_def start_threads_def)

lemma threads_ok_ring:
  "threads_ok s \<Longrightarrow> same_ring (t_ring s) r' \<Longrightarrow> rb_tmp r' = rb_tmp (t_ring s) \<Longrightarrow> threads_ok (s\<lparr>t_ring := r'\<rparr>)"
  by (auto simp: threads_ok_def same_ring_oks intro: cons_ok_same)

text \<open>Mutexes, counters and closing goroutines do not matter to the bytes.\<close>

lemma ring_at_notes:
  "ring_at log (r\<lparr>rb_plock := b\<rparr>) = ring_at log r" "ring_at log (r\<lparr>rb_clock := b\<rparr>) = ring_at log r"
  "ring_at log (r\<lparr>rb_done := b\<rparr>) = ring_at log r"
  by (simp_all add: ring_at_def)

lemma prod_ok_notes:
  "prod_ok log (r\<lparr>rb_plock := b\<rparr>) p = prod_ok log r p" "prod_ok log (r\<lparr>rb_clock := b\<rparr>) p = prod_ok log r p"
  "prod_ok log (r\<lparr>rb_done := b\<rparr>) p = prod_ok log r p"
  by (cases p; simp)+

lemma view_ok_notes:
  "view_ok log (r\<lparr>rb_plock := b\<rparr>) m v = view_ok log r m v" "view_ok log (r\<lparr>rb_clock := b\<rparr>) m v = view_ok log r m v"
  "view_ok log (r\<lparr>rb_done := b\<rparr>) m v = view_ok log r m v"
  by (cases v; simp)+

lemma cons_ok_notes:
  "cons_ok log (r\<lparr>rb_plock := b\<rparr>) c = cons_ok log r c" "cons_ok log (r\<lparr>rb_clock := b\<rparr>) c = cons_ok log r c"
  "cons_ok log (r\<lparr>rb_done := b\<rparr>) c = cons_ok log r c"
  by (cases c; simp add: view_ok_notes)+

lemmas ok_notes = ring_at_notes prod_ok_notes cons_ok_notes

lemma woken_ok [simp]: "prod_ok log r (woken_p q) = prod_ok log r q" "cons_ok log r (woken_c c) = cons_ok log r c"
  by (cases q; simp) (cases c; simp)

lemma threads_ok_begin:
  assumes "threads_ok s" "rb_pseq (t_ring s) + length p \<le> rb_cseq (t_ring s) + rb_size (t_ring s)"
  shows "threads_ok (s\<lparr>t_prod := Putting (rb_pseq (t_ring s)) p 0\<rparr>)"
  using assms ring_atD(1,7) [of "t_sent s" "t_ring s"] by (auto simp: threads_ok_def)

lemma threads_ok_grant:
  assumes "threads_ok s" "space_loop (rb_pseq (t_ring s)) (length p) (t_ring s) = Now (st, n, None) r'"
  shows "threads_ok (s\<lparr>t_ring := r', t_prod := Putting st p 0\<rparr>)"
proof -
  have "threads_ok (s\<lparr>t_prod := Putting st p 0\<rparr>)"
    using threads_ok_begin [OF assms(1), of p] space_granted_fits [OF assms(2)] by simp
  from threads_ok_ring [OF this, of r'] show ?thesis using space_same(1) [OF assms(2)] by (simp add: threads_ok_def)
qed

lemma threads_ok_return:
  assumes "threads_ok s" "t_cons s = CHolds c pp"
    "call_test c pp ((t_ring s)\<lparr>rb_clock := False\<rparr>) = Now (v, e) r'"
  shows "threads_ok (s\<lparr>t_ring := r', t_cons := Viewing (length (deref r' v)) v\<rparr>)"
proof -
  have "handed (t_sent s) r' v"
    using assms(1,2) by (intro call_test_handed [OF _ _ assms(3)]) (auto simp: threads_ok_def ok_notes)
  moreover have "same_ring (t_ring s) r'"
    using call_test_same(1) [OF assms(3)] by (simp add: same_ring_def)
  ultimately show ?thesis using assms(1) by (auto simp: threads_ok_def same_ring_oks handed_def)
qed

lemma threads_ok_put:
  assumes "threads_ok s" "t_prod s = Putting st p i" "i < length p"
  shows "threads_ok (s\<lparr>t_ring := (t_ring s)\<lparr>rb_buf := (rb_buf (t_ring s))[rb_index (t_ring s) (st + i) := p ! i]\<rparr>,
           t_prod := Putting st p (Suc i)\<rparr>)"
  using assms put_byte_oks [of "t_sent s" "t_ring s" st p i]
  by (auto simp: threads_ok_def intro: cons_ok_cong simp del: prod_ok.simps)

lemma threads_ok_publish:
  assumes "threads_ok s" "t_prod s = Putting st p (length p)"
  shows "threads_ok (s\<lparr>t_ring := (t_ring s)\<lparr>rb_pseq := st + length p\<rparr>, t_prod := Announcing, t_sent := t_sent s @ p\<rparr>)"
proof -
  have "rb_cseq (t_ring s) \<le> length (t_sent s)" using assms(1) by (auto simp: threads_ok_def ring_atD)
  then show ?thesis
    using assms publish_oks [of "t_sent s" "t_ring s" st p]
    by (auto simp: threads_ok_def intro: cons_ok_longer cons_ok_cong simp del: prod_ok.simps(1))
qed

lemma threads_ok_commit:
  assumes "threads_ok s" "t_cons s = Viewing m v" "k \<le> m" "rb_cseq (t_ring s) + k \<le> rb_pseq (t_ring s)"
  shows "threads_ok (s\<lparr>t_ring := (t_ring s)\<lparr>rb_cseq := rb_cseq (t_ring s) + k\<rparr>, t_cons := Signalling,
           t_recv := t_recv s @ take k (deref (t_ring s) v)\<rparr>)"
proof -
  have ok: "ring_at (t_sent s) (t_ring s)" and c: "cons_ok (t_sent s) (t_ring s) (Viewing m v)"
    using assms(1,2) by (simp_all add: threads_ok_def)
  have "take k (deref (t_ring s) v) = take k (drop (rb_cseq (t_ring s)) (t_sent s))"
    using view_ok_deref [OF ok, of m v] c assms(3) by (simp add: min_def)
  then have "t_recv s @ take k (deref (t_ring s) v) = take (rb_cseq (t_ring s) + k) (t_sent s)"
    using assms(1) by (simp add: threads_ok_def take_add)
  then show ?thesis
    using assms(1,4) consume_oks [OF ok, of k] ring_atD(1) [OF ok] by (auto simp: threads_ok_def)
qed

lemma tstep_ok: "tstep s s' \<Longrightarrow> threads_ok s \<Longrightarrow> threads_ok s'"
proof (induction rule: tstep.induct)
  case (begin_write s p)
  then show ?case
    using threads_ok_begin [of s p] no_wait_fits [of "t_sent s" "t_ring s" "length p"] by (auto simp: threads_ok_def)
next
  case (p_grant s p st n r')
  then show ?case by (intro threads_ok_grant)
next
  case (p_eof s p st n e r')
  then show ?case using threads_ok_ring [of s r'] space_same(1) by (fastforce simp: threads_ok_def)
next
  case (p_wait s p r')
  then show ?case using threads_ok_ring [of s r'] space_same(2) by (fastforce simp: threads_ok_def ok_notes)
next
  case (put_byte s st p i)
  then show ?case by (intro threads_ok_put)
next
  case (publish s st p)
  then show ?case by (intro threads_ok_publish)
next
  case (c_return s c pp v e r')
  then show ?case by (intro threads_ok_return)
next
  case (c_wait s c pp r')
  then have "same_ring (t_ring s) r'" "rb_tmp r' = rb_tmp (t_ring s)"
    using call_test_same(2) [OF c_wait(2)] by (simp_all add: same_ring_def)
  then show ?case using threads_ok_ring [of s r'] c_wait by (auto simp: threads_ok_def ok_notes)
next
  case (commit s m v k)
  then show ?case by (intro threads_ok_commit)
qed (auto simp: threads_ok_def ok_notes dest: ring_atD(1))

lemma reachable_ok: "trun s s' \<Longrightarrow> threads_ok s \<Longrightarrow> threads_ok s'"
  unfolding trun_def by (induction rule: rtranclp_induct) (auto intro: tstep_ok)

section \<open>Wake-ups of the producer\<close>

text \<open>The producer's mutex: taken for good only by a write that met a closed ring.\<close>

fun lock_ok :: "ring \<Rightarrow> producer \<Rightarrow> bool" where
  "lock_ok r Ready \<longleftrightarrow> (rb_plock r \<longrightarrow> rb_done r)"
| "lock_ok r (PHolds p) \<longleftrightarrow> rb_plock r"
| "lock_ok r (PSleepy p) \<longleftrightarrow> rb_plock r"
| "lock_ok r _ \<longleftrightarrow> \<not> rb_plock r"

text \<open>Room for \<open>n\<close> more bytes, by the consumer's own position.\<close>

definition fits :: "nat \<Rightarrow> ring \<Rightarrow> bool" where
  "fits n r \<longleftrightarrow> rb_pseq r + n \<le> rb_cseq r + rb_size r"

text \<open>Who sleeps or is about to has a broadcast coming where there is no reason to sleep.\<close>

fun sleeps :: "bytes \<Rightarrow> producer \<Rightarrow> bool" where
  "sleeps p (PSleepy q) \<longleftrightarrow> q = p"
| "sleeps p (PAsleep q) \<longleftrightarrow> q = p"
| "sleeps p _ \<longleftrightarrow> False"

definition wake_ok :: "threads \<Rightarrow> bool" where
  "wake_ok s \<longleftrightarrow> lock_ok (t_ring s) (t_prod s) \<and>
     (\<forall>p. sleeps p (t_prod s) \<longrightarrow> (fits (length p) (t_ring s) \<longrightarrow> t_cons s = Signalling) \<and>
       (rb_done (t_ring s) \<longrightarrow> 0 < t_marked s))"

lemma start_wake_ok: "newBuffer sz = Inr r \<Longrightarrow> wake_ok (start_threads r)"
  using newBuffer_ring_at [of sz r] by (simp add: wake_ok_def start_threads_def quiet_def)

lemma space_loop_locks:
  "space_loop pp n r = Now (st, k, None) r' \<Longrightarrow> \<not> rb_plock r'"
  "space_loop pp n r = Now (st, k, Some e) r' \<Longrightarrow> rb_done r'"
  "space_loop (rb_pseq r) n r = Wait r' \<Longrightarrow> \<not> fits n r' \<and> \<not> rb_done r'"
  by (auto simp: space_loop_def fits_def split: if_split_asm)

lemma fits_cong: "rb_pseq r' = rb_pseq r \<Longrightarrow> rb_cseq r' = rb_cseq r \<Longrightarrow> rb_size r' = rb_size r \<Longrightarrow> fits n r' = fits n r"
  by (simp add: fits_def)

lemma lock_ok_cong: "rb_plock r' = rb_plock r \<Longrightarrow> rb_done r' = rb_done r \<Longrightarrow> lock_ok r' q = lock_ok r q"
  by (cases q) simp_all

text \<open>Steps of the consumer that leave positions, flag and the producer's mutex alone.\<close>

lemma wake_ok_reader:
  assumes "wake_ok s" "same_ring (t_ring s) r'" "rb_plock r' = rb_plock (t_ring s)" "t_cons s \<noteq> Signalling"
  shows "wake_ok (s\<lparr>t_ring := r', t_cons := c\<rparr>)"
  using assms lock_ok_cong [of r' "t_ring s"] fits_cong [of r' "t_ring s"]
  by (auto simp: wake_ok_def same_ring_def)

lemma woken_p_awake: "\<not> rb_plock r \<Longrightarrow> lock_ok r q \<Longrightarrow> lock_ok r (woken_p q) \<and> \<not> sleeps p (woken_p q)"
  by (cases q) simp_all

lemma tstep_wake: "tstep s s' \<Longrightarrow> wake_ok s \<Longrightarrow> wake_ok s'"
proof (induction rule: tstep.induct)
  case (p_grant s p st n r')
  then show ?case using space_loop_locks(1) by (auto simp: wake_ok_def)
next
  case (p_eof s p st n e r')
  then show ?case using space_loop_locks(2) by (auto simp: wake_ok_def)
next
  case (p_wait s p r')
  then show ?case using space_loop_locks(3) by (auto simp: wake_ok_def fits_def)
next
  case (c_lock s c pp)
  then show ?case by (intro wake_ok_reader) (auto simp: same_ring_def)
next
  case (c_return s c pp v e r')
  then show ?case using call_test_same(1) [OF c_return(2)] by (intro wake_ok_reader) (auto simp: same_ring_def)
next
  case (c_wait s c pp r')
  then show ?case using call_test_same(2) [OF c_wait(2)] by (intro wake_ok_reader) (auto simp: same_ring_def)
next
  case (c_sleep s c)
  then show ?case by (intro wake_ok_reader) (auto simp: same_ring_def)
next
  case (c_wake s c)
  then show ?case by (intro wake_ok_reader) (auto simp: same_ring_def)
next
  case (commit s m v k)
  then show ?case by (cases "t_prod s") (auto simp: wake_ok_def)
next
  case (signal s)
  then show ?case using woken_p_awake [of "t_ring s" "t_prod s"] by (auto simp: wake_ok_def)
next
  case (close_p s i)
  then show ?case using woken_p_awake [of "t_ring s" "t_prod s"] by (auto simp: wake_ok_def)
next
  case (close_mark s)
  have "fits n (t_ring s\<lparr>rb_done := True\<rparr>) = fits n (t_ring s)" for n by (simp add: fits_def)
  then show ?case using close_mark by (cases "t_prod s") (auto simp: wake_ok_def)
next
  case (close_c s i)
  then show ?case by (auto simp: wake_ok_def)
next
  case (announce s)
  then show ?case by (auto simp: wake_ok_def)
qed (auto simp: wake_ok_def fits_def)

lemma reachable_wake: "trun s s' \<Longrightarrow> wake_ok s \<Longrightarrow> wake_ok s'"
  unfolding trun_def by (induction rule: rtranclp_induct) (auto intro: tstep_wake)

section \<open>Adequacy\<close>

lemma tstep_trun: "tstep s s' \<Longrightarrow> trun s s'" "trun a b \<Longrightarrow> tstep b c \<Longrightarrow> trun a c" "trun s s"
  unfolding trun_def by simp_all

lemma trun_trans: "trun a b \<Longrightarrow> trun b c \<Longrightarrow> trun a c"
  unfolding trun_def by (rule rtranclp_trans)

lemma three_steps: "tstep a b \<Longrightarrow> tstep b c \<Longrightarrow> tstep c d \<Longrightarrow> trun a d"
  by (rule tstep_trun(2) [OF tstep_trun(2) [OF tstep_trun(1)]])

text \<open>\<open>rb_Write\<close> without interference is a run of the producer's steps.\<close>

lemma puts_run:
  assumes "threads_ok s" "t_prod s = Putting st p i"
  shows "trun s (s\<lparr>t_ring := (t_ring s)\<lparr>rb_buf := ring_put (st + i) (drop i p) (rb_buf (t_ring s))\<rparr>,
           t_prod := Putting st p (length p)\<rparr>)"
  using assms
proof (induction "length p - i" arbitrary: s i)
  case 0
  then have "i = length p" by (simp add: threads_ok_def)
  then have "s\<lparr>t_prod := Putting st p (length p)\<rparr> = s" using 0 by (cases s) simp
  then show ?case using \<open>i = length p\<close> by (simp add: trun_def)
next
  case (Suc n)
  then have i: "i < length p" by simp
  define s1 where "s1 = s\<lparr>t_ring := (t_ring s)\<lparr>rb_buf := (rb_buf (t_ring s))[rb_index (t_ring s) (st + i) := p ! i]\<rparr>,
      t_prod := Putting st p (Suc i)\<rparr>"
  have step: "tstep s s1" unfolding s1_def using Suc.prems(2) i by (rule tstep.put_byte)
  have ix: "rb_index (t_ring s) (st + i) = (st + i) mod length (rb_buf (t_ring s))"
    using Suc.prems(1) ring_at_index ring_atD(4) by (auto simp: threads_ok_def)
  have "drop i p = p ! i # drop (Suc i) p" using i by (simp add: Cons_nth_drop_Suc)
  then have e: "ring_put (st + i) (drop i p) (rb_buf (t_ring s)) = ring_put (st + Suc i) (drop (Suc i) p) (rb_buf (t_ring s1))"
    by (simp add: s1_def ix)
  have "trun s1 (s1\<lparr>t_ring := (t_ring s1)\<lparr>rb_buf := ring_put (st + Suc i) (drop (Suc i) p) (rb_buf (t_ring s1))\<rparr>,
      t_prod := Putting st p (length p)\<rparr>)"
    using Suc.hyps(2) i tstep_ok [OF step Suc.prems(1)] by (intro Suc.hyps(1)) (auto simp: s1_def)
  then have "trun s1 (s\<lparr>t_ring := (t_ring s)\<lparr>rb_buf := ring_put (st + i) (drop i p) (rb_buf (t_ring s))\<rparr>,
      t_prod := Putting st p (length p)\<rparr>)"
    unfolding e by (simp add: s1_def)
  then show ?case using step unfolding trun_def by (rule converse_rtranclp_into_rtranclp [rotated])
qed

lemma take_space_run:
  assumes "t_prod s = Ready" "waitForWriteSpace (length p) (t_ring s) = Now (st, c, None) r1"
  shows "trun s (s\<lparr>t_ring := r1, t_prod := Putting st p 0\<rparr>)"
proof (cases "must_wait (length p) (t_ring s)")
  case False
  then have "tstep s (s\<lparr>t_prod := Putting st p 0\<rparr>)" "r1 = t_ring s"
    using assms tstep.begin_write [of s p] by (auto simp: waitForWriteSpace_def split: if_split_asm)
  moreover have "s\<lparr>t_ring := t_ring s, t_prod := Putting st p 0\<rparr> = s\<lparr>t_prod := Putting st p 0\<rparr>" by (cases s) simp
  ultimately show ?thesis by (simp add: tstep_trun)
next
  case True
  then have w: "\<not> rb_done (t_ring s)" "\<not> rb_plock (t_ring s)"
      "space_loop (rb_pseq (t_ring s)) (length p) (t_ring s) = Now (st, c, None) r1"
    using assms(2) by (auto simp: waitForWriteSpace_def split: if_split_asm)
  define s1 where "s1 = s\<lparr>t_prod := PEnter p\<rparr>"
  define s2 where "s2 = s1\<lparr>t_ring := (t_ring s)\<lparr>rb_plock := True\<rparr>, t_prod := PHolds p\<rparr>"
  have "tstep s s1" using tstep.begin_write [OF assms(1) w(1), of p] True by (simp add: s1_def)
  moreover have "tstep s1 s2" using tstep.p_lock [of s1 p] w(2) by (simp add: s1_def s2_def)
  moreover have "space_loop (rb_pseq (t_ring s2)) (length p) (t_ring s2) = Now (st, c, None) r1"
    using w(3) by (auto simp: s2_def space_loop_def split: if_split_asm)
  then have "tstep s2 (s2\<lparr>t_ring := r1, t_prod := Putting st p 0\<rparr>)" by (intro tstep.p_grant) (simp_all add: s2_def)
  ultimately have "trun s (s2\<lparr>t_ring := r1, t_prod := Putting st p 0\<rparr>)" by (rule three_steps)
  then show ?thesis by (simp add: s1_def s2_def)
qed

lemma Write_run:
  assumes "threads_ok s" "t_prod s = Ready" "rb_Write p (t_ring s) = Now (n, None) r'"
  shows "trun s (s\<lparr>t_ring := r', t_cons := woken_c (t_cons s), t_sent := t_sent s @ p\<rparr>)"
proof -
  obtain st c r1 where w: "waitForWriteSpace (length p) (t_ring s) = Now (st, c, None) r1"
    using assms(3) by (auto simp: rb_Write_def split: if_split_asm attempt.split_asm prod.split_asm option.split_asm)
  define s1 where "s1 = s\<lparr>t_ring := r1, t_prod := Putting st p 0\<rparr>"
  have s1: "trun s s1" unfolding s1_def using assms(2) w by (rule take_space_run)
  then have ok: "threads_ok s1" using assms(1) by (rule reachable_ok)
  define s2 where "s2 = s1\<lparr>t_ring := r1\<lparr>rb_buf := ring_put st p (rb_buf r1)\<rparr>, t_prod := Putting st p (length p)\<rparr>"
  have s2: "trun s1 s2" using puts_run [OF ok, of st p 0] by (simp add: s1_def s2_def)
  have r1: "ring_at (t_sent s) r1" using ok by (simp add: s1_def threads_ok_def)
  have "ringCopy (rb_buf r1) p (rb_index r1 st) = Some (ring_put st p (rb_buf r1), length p)"
    using ringCopy_put [of "st mod rb_size r1" "rb_buf r1" p] ring_put_mod [of st "rb_buf r1" p]
      ring_at_index [OF r1] ring_atD(4,6) [OF r1] by simp
  then have r': "r' = r1\<lparr>rb_buf := ring_put st p (rb_buf r1), rb_pseq := st + length p\<rparr>" "\<not> rb_clock r'"
    using assms(3) w by (auto simp: rb_Write_def signal_c_def split: if_split_asm)
  define s3 where "s3 = s2\<lparr>t_ring := (t_ring s2)\<lparr>rb_pseq := st + length p\<rparr>, t_prod := Announcing, t_sent := t_sent s2 @ p\<rparr>"
  have s3: "tstep s2 s3" unfolding s3_def by (rule tstep.publish) (simp add: s2_def)
  have "tstep s3 (s3\<lparr>t_prod := Ready, t_cons := woken_c (t_cons s3)\<rparr>)"
    using r' by (intro tstep.announce) (simp_all add: s3_def s2_def)
  moreover have "s3\<lparr>t_prod := Ready, t_cons := woken_c (t_cons s3)\<rparr> =
      s\<lparr>t_ring := r', t_cons := woken_c (t_cons s), t_sent := t_sent s @ p\<rparr>"
    using assms(2) r' by (simp add: s3_def s2_def s1_def)
  ultimately show ?thesis using trun_trans [OF s1 s2] s3 by (metis tstep_trun(2))
qed

text \<open>\<open>ReadPeek\<close> and \<open>ReadWait\<close> that return without interference are runs of the consumer's steps.\<close>

lemma call_run:
  assumes "t_cons s = Idle" "valid_call c (t_ring s)" "\<not> rb_clock (t_ring s)"
    "call_test c (rb_pseq (t_ring s)) (t_ring s) = Now (v, e) r'"
  shows "trun s (s\<lparr>t_ring := r', t_cons := Viewing (length (deref r' v)) v\<rparr>)"
proof -
  define s1 where "s1 = s\<lparr>t_cons := Loaded c (rb_pseq (t_ring s))\<rparr>"
  define s2 where "s2 = s1\<lparr>t_ring := (t_ring s)\<lparr>rb_clock := True\<rparr>, t_cons := CHolds c (rb_pseq (t_ring s))\<rparr>"
  have e: "(t_ring s)\<lparr>rb_clock := False\<rparr> = t_ring s" using assms(3) by (cases "t_ring s") simp
  have "tstep s s1" using tstep.c_load [OF assms(1,2)] by (simp add: s1_def)
  moreover have "tstep s1 s2" using tstep.c_lock [of s1 c "rb_pseq (t_ring s)"] assms(3) by (simp add: s1_def s2_def)
  moreover have "tstep s2 (s2\<lparr>t_ring := r', t_cons := Viewing (length (deref r' v)) v\<rparr>)"
    using assms(4) by (intro tstep.c_return [of s2 c "rb_pseq (t_ring s)" v e r']) (simp_all add: s2_def e)
  ultimately have "trun s (s2\<lparr>t_ring := r', t_cons := Viewing (length (deref r' v)) v\<rparr>)" by (rule three_steps)
  then show ?thesis by (simp add: s1_def s2_def)
qed

section \<open>Properties\<close>

text \<open>C7: In every interleaving of the steps of the producer, the consumer and the goroutines that close
  a new ring, what the consumer has received are the first bytes that were sent, in order, and the
  view it holds still shows the next ones, although the producer is putting bytes meanwhile.\<close>

theorem threads_fifo:
  assumes "newBuffer sz = Inr r" "trun (start_threads r) s"
  shows "t_recv s = take (rb_cseq (t_ring s)) (t_sent s) \<and> rb_cseq (t_ring s) \<le> length (t_sent s) \<and>
    length (t_sent s) \<le> rb_cseq (t_ring s) + rb_size (t_ring s) \<and>
    (case t_cons s of
       Viewing m v \<Rightarrow> deref (t_ring s) v = take m (drop (rb_cseq (t_ring s)) (t_sent s))
     | _ \<Rightarrow> True)"
proof -
  have ok: "threads_ok s" using reachable_ok [OF assms(2) start_threads_ok [OF assms(1)]] .
  then have "ring_at (t_sent s) (t_ring s)" by (simp add: threads_ok_def)
  then show ?thesis
    using ok ring_atD(2,3) [OF \<open>ring_at (t_sent s) (t_ring s)\<close>]
    by (auto simp: threads_ok_def split: consumer.split intro: view_ok_deref)
qed

text \<open>C18: No wake-up of a waiting writer is lost: where a writer sleeps although its bytes fit, the
  consumer is about to broadcast, where it sleeps although the ring was closed, a closing goroutine
  is, and that broadcast can be made and wakes it.\<close>

theorem writer_wakeup:
  assumes "newBuffer sz = Inr r" "trun (start_threads r) s" "t_prod s = PAsleep p"
  shows "(fits (length p) (t_ring s) \<longrightarrow>
      t_cons s = Signalling \<and> (\<exists>s'. tstep s s' \<and> t_prod s' = PEnter p \<and> t_cons s' = Idle)) \<and>
    (rb_done (t_ring s) \<longrightarrow>
      0 < t_marked s \<and> (\<exists>s'. tstep s s' \<and> t_prod s' = PEnter p \<and> t_half s' = Suc (t_half s)))"
proof -
  have w: "wake_ok s" using reachable_wake [OF assms(2) start_wake_ok [OF assms(1)]] .
  then have l: "\<not> rb_plock (t_ring s)" using assms(3) by (simp add: wake_ok_def)
  have "t_cons s = Signalling" if "fits (length p) (t_ring s)" using w assms(3) that by (simp add: wake_ok_def)
  then have a: "t_cons s = Signalling \<and> (\<exists>s'. tstep s s' \<and> t_prod s' = PEnter p \<and> t_cons s' = Idle)"
    if "fits (length p) (t_ring s)"
    using tstep.signal [of s] l assms(3) that by fastforce
  have "0 < t_marked s" if "rb_done (t_ring s)" using w assms(3) that by (simp add: wake_ok_def)
  then have "0 < t_marked s \<and> (\<exists>s'. tstep s s' \<and> t_prod s' = PEnter p \<and> t_half s' = Suc (t_half s))"
    if "rb_done (t_ring s)"
    using tstep.close_p [of s "t_marked s - 1"] l assms(3) that by fastforce
  with a show ?thesis by blast
qed

text \<open>A sleeping consumer sleeps on until a producer announces or a closing goroutine comes by.\<close>

lemma asleep_stays:
  "tstep s s' \<Longrightarrow> t_cons s = CAsleep c \<Longrightarrow> t_prod s \<noteq> Announcing \<Longrightarrow> t_half s = 0 \<Longrightarrow> t_cons s' = CAsleep c"
  by (erule tstepE) simp_all

text \<open>A new ring of 4096 bytes and the first bytes written to it.\<close>

lemma written_ring:
  assumes "length p \<le> 4096"
  shows "\<exists>r r1. newBuffer 4096 = Inr r \<and> rb_Write p r = Now (length p, None) r1 \<and> quiet r \<and> \<not> rb_done r \<and>
    rb_pseq r = 0 \<and> rb_cseq r = 0 \<and> rb_size r = 4096 \<and> threads_ok (start_threads r) \<and>
    is_stream r1 \<lparr>st_log = p, st_taken = 0, st_cap = 4096\<rparr>"
proof -
  obtain r where r: "newBuffer 4096 = Inr r" "ring_at [] r" "quiet r" "rb_cseq r = 0" "rb_size r = 4096" "\<not> rb_done r"
    using newBuffer_ring_at [of 4096] by (auto simp: newBuffer_def powerOfTwo64_def defaultReadBlockSize_def)
  have a: "is_stream r \<lparr>st_log = [], st_taken = 0, st_cap = 4096\<rparr>" using r by (simp add: is_stream_def)
  obtain r1 where "rb_Write p r = Now (length p, None) r1" "is_stream r1 \<lparr>st_log = p, st_taken = 0, st_cap = 4096\<rparr>"
    using rs.writes [OF a, of p] assms by (auto dest: counted_eq)
  then show ?thesis using r start_threads_ok [OF r(1)] ring_atD(1) [OF r(2)] by auto
qed

lemma threads_fifo_witness:
  "\<exists>r s v. newBuffer 4096 = Inr r \<and> trun (start_threads r) s \<and> t_recv s = [] \<and>
     t_cons s = Viewing 2 v \<and> deref (t_ring s) v = [7, 8]"
proof -
  obtain r r1 where r: "newBuffer 4096 = Inr r" "rb_Write [7, 8, 9] r = Now (3, None) r1" "threads_ok (start_threads r)"
      "is_stream r1 \<lparr>st_log = [7, 8, 9], st_taken = 0, st_cap = 4096\<rparr>"
    using written_ring [of "[7, 8, 9]"] by auto
  define s1 where "s1 = (start_threads r)\<lparr>t_ring := r1, t_sent := [7, 8, 9]\<rparr>"
  have s1: "trun (start_threads r) s1"
    using Write_run [OF r(3), of "[7, 8, 9]" 3 r1] r(2) by (simp add: s1_def start_threads_def)
  note d = is_streamD [OF r(4)] ring_atD [OF is_streamD(1) [OF r(4)]]
  obtain v r2 where r2: "ReadPeek 2 r1 = Now (v, None) r2" "length (deref r2 v) = 2"
      "is_stream r2 \<lparr>st_log = [7, 8, 9], st_taken = 0, st_cap = 4096\<rparr>"
    using rs.peek [OF r(4), of 2] by (auto dest!: got_eq)
  have s2: "trun s1 (s1\<lparr>t_ring := r2, t_cons := Viewing (length (deref r2 v)) v\<rparr>)"
    using r2(1) d by (intro call_run [of _ "Peek 2"]) (auto simp: s1_def start_threads_def ReadPeek_def quiet_def)
  define s where "s = s1\<lparr>t_ring := r2, t_cons := Viewing 2 v\<rparr>"
  have s: "trun (start_threads r) s" using trun_trans [OF s1 s2] r2(2) by (simp add: s_def)
  show ?thesis using threads_fifo [OF r(1) s] r(1) s is_streamD [OF r2(3)]
    by (intro exI [of _ r] exI [of _ s] exI [of _ v]) (auto simp: s_def s1_def)
qed

theorem writer_wakeup_witness:
  "\<exists>r s s'. newBuffer 4096 = Inr r \<and> trun (start_threads r) s \<and> t_prod s = PAsleep [1] \<and>
     fits 1 (t_ring s) \<and> t_cons s = Signalling \<and> tstep s s' \<and> t_prod s' = PEnter [1]"
proof -
  obtain r r1 where r: "newBuffer 4096 = Inr r" "rb_Write (replicate 4096 5) r = Now (4096, None) r1"
      "threads_ok (start_threads r)" "is_stream r1 \<lparr>st_log = replicate 4096 5, st_taken = 0, st_cap = 4096\<rparr>"
    using written_ring [of "replicate 4096 5"] by auto
  define s1 where "s1 = (start_threads r)\<lparr>t_ring := r1, t_sent := replicate 4096 5\<rparr>"
  have s1: "trun (start_threads r) s1"
    using Write_run [OF r(3), of "replicate 4096 5" 4096 r1] r(2) by (simp add: s1_def start_threads_def)
  note d1 = is_streamD [OF r(4)]
  obtain v r2 where r2: "ReadPeek 1 r1 = Now (v, None) r2" "length (deref r2 v) = 1"
      "is_stream r2 \<lparr>st_log = replicate 4096 5, st_taken = 0, st_cap = 4096\<rparr>"
    using rs.peek [OF r(4), of 1] by (auto dest!: got_eq)
  define s2 where "s2 = s1\<lparr>t_ring := r2, t_cons := Viewing 1 v\<rparr>"
  have "trun s1 s2"
    unfolding s2_def r2(2) [symmetric] using r2(1) d1
    by (intro call_run [of _ "Peek 1"]) (auto simp: s1_def start_threads_def ReadPeek_def)
  with s1 have s2: "trun (start_threads r) s2" by (rule trun_trans)
  note d = is_streamD [OF r2(3)] ring_atD [OF is_streamD(1) [OF r2(3)]]
  have n: "rb_pseq r2 = 4096" "rb_cseq r2 = 0" "rb_size r2 = 4096" "rb_gate r2 = 0" using d by auto
  define s3 where "s3 = s2\<lparr>t_prod := PEnter [1]\<rparr>"
  define s4 where "s4 = s3\<lparr>t_ring := r2\<lparr>rb_plock := True\<rparr>, t_prod := PHolds [1]\<rparr>"
  define s5 where "s5 = s4\<lparr>t_ring := r2\<lparr>rb_pwait := rb_pwait r2 + 1, rb_plock := True\<rparr>, t_prod := PSleepy [1]\<rparr>"
  define s6 where "s6 = s5\<lparr>t_ring := r2\<lparr>rb_pwait := rb_pwait r2 + 1, rb_plock := False\<rparr>, t_prod := PAsleep [1]\<rparr>"
  define s where "s = s6\<lparr>t_ring := (t_ring s6)\<lparr>rb_cseq := rb_cseq (t_ring s6) + 1\<rparr>, t_cons := Signalling,
      t_recv := t_recv s6 @ take 1 (deref (t_ring s6) v)\<rparr>"
  have "tstep s2 s3" using tstep.begin_write [of s2 "[1]"] d(2) n
    by (simp add: s3_def s2_def s1_def start_threads_def must_wait_def)
  moreover have "tstep s3 s4" using tstep.p_lock [of s3 "[1]"] d(3) by (simp add: s4_def s3_def s2_def)
  moreover have "tstep s4 s5"
    using tstep.p_wait [of s4 "[1]" "r2\<lparr>rb_pwait := rb_pwait r2 + 1, rb_plock := False\<rparr>"] d(2) n
    by (simp add: s5_def s4_def s3_def s2_def space_loop_def)
  moreover have "tstep s5 s6" using tstep.p_sleep [of s5 "[1]"] by (simp add: s6_def s5_def)
  moreover have "tstep s6 s" unfolding s_def using n
    by (intro tstep.commit [of s6 1 v 1]) (simp_all add: s6_def s5_def s4_def s3_def s2_def)
  ultimately have s: "trun (start_threads r) s" using s2 by (metis tstep_trun(2))
  have p: "t_prod s = PAsleep [1]" "fits 1 (t_ring s)"
    using n by (simp_all add: s_def s6_def fits_def)
  show ?thesis using writer_wakeup [OF r(1) s p(1)] r(1) s p by auto
qed

text \<open>C28: A wake-up of a waiting reader can be lost. A reader that loaded the producer's position before
  a write, and took the mutex only after the write had broadcast, tests the old position and goes to
  sleep: the ring is open, a byte is there to be read, no broadcast is coming, and no step of any
  goroutine wakes the reader.
\<close>

theorem reader_wakeup_lost:
  "\<exists>r s. newBuffer 4096 = Inr r \<and> trun (start_threads r) s \<and> t_sent s = [7] \<and> t_recv s = [] \<and>
     \<not> rb_done (t_ring s) \<and> rb_cseq (t_ring s) < rb_pseq (t_ring s) \<and> t_prod s = Ready \<and>
     t_cons s = CAsleep (Peek 1) \<and> \<not> (\<exists>s'. tstep s s' \<and> t_cons s' \<noteq> CAsleep (Peek 1))"
proof -
  obtain r r1 where r: "newBuffer 4096 = Inr r" "rb_Write [7] r = Now (1, None) r1"
      "threads_ok (start_threads r)" "is_stream r1 \<lparr>st_log = [7], st_taken = 0, st_cap = 4096\<rparr>"
      "rb_pseq r = 0" "rb_size r = 4096"
    using written_ring [of "[7]"] by auto
  note d = is_streamD [OF r(4)] ring_atD [OF is_streamD(1) [OF r(4)]]
  define s1 where "s1 = (start_threads r)\<lparr>t_cons := Loaded (Peek 1) 0\<rparr>"
  define s2 where "s2 = s1\<lparr>t_ring := r1, t_sent := [7]\<rparr>"
  define s3 where "s3 = s2\<lparr>t_ring := r1\<lparr>rb_clock := True\<rparr>, t_cons := CHolds (Peek 1) 0\<rparr>"
  define s4 where "s4 = s3\<lparr>t_ring := r1\<lparr>rb_cwait := rb_cwait r1 + 1, rb_clock := True\<rparr>, t_cons := CSleepy (Peek 1)\<rparr>"
  define s where "s = s4\<lparr>t_ring := r1\<lparr>rb_cwait := rb_cwait r1 + 1, rb_clock := False\<rparr>, t_cons := CAsleep (Peek 1)\<rparr>"
  have 1: "tstep (start_threads r) s1"
    using tstep.c_load [of "start_threads r" "Peek 1"] r(5,6) by (simp add: s1_def start_threads_def)
  have 2: "trun s1 s2"
    using Write_run [OF tstep_ok [OF 1 r(3)], of "[7]" 1 r1] r(2) by (simp add: s1_def s2_def start_threads_def)
  have 3: "tstep s2 s3" using tstep.c_lock [of s2 "Peek 1" 0] d(4) by (simp add: s3_def s2_def s1_def)
  have e: "r1\<lparr>rb_clock := False\<rparr> = r1" using d(4) by (cases r1) simp
  have 4: "tstep s3 s4" using tstep.c_wait [of s3 "Peek 1" 0 "r1\<lparr>rb_cwait := rb_cwait r1 + 1\<rparr>"] d(2)
    by (simp add: s4_def s3_def e peek_test_def)
  have 5: "tstep s4 s" using tstep.c_sleep [of s4 "Peek 1"] by (simp add: s_def s4_def)
  have s: "trun (start_threads r) s"
    using trun_trans [OF tstep_trun(1) [OF 1] trun_trans [OF 2 three_steps [OF 3 4 5]]] .
  moreover have f: "t_cons s = CAsleep (Peek 1)" "t_prod s = Ready" "t_half s = 0" "t_sent s = [7]" "t_recv s = []"
      "\<not> rb_done (t_ring s)" "rb_cseq (t_ring s) < rb_pseq (t_ring s)"
    using d by (auto simp: s_def s4_def s3_def s2_def s1_def start_threads_def)
  moreover have "\<not> (\<exists>s'. tstep s s' \<and> t_cons s' \<noteq> CAsleep (Peek 1))"
    using asleep_stays [of s _ "Peek 1"] f by auto
  ultimately show ?thesis using r(1) by blast
qed

text \<open>
  \<open>Close\<close> broadcasts \<open>ccond\<close> with the mutex of \<open>pcond\<close>: a reader that has seen the ring open and is
  about to sleep misses it, and sleeps on a closed ring after every \<open>Close\<close> has returned.
\<close>

lemma close_wakeup_lost:
  "\<exists>r s. newBuffer 4096 = Inr r \<and> trun (start_threads r) s \<and> rb_done (t_ring s) \<and> t_marked s = 0 \<and> t_half s = 0 \<and>
     t_prod s = Ready \<and> t_cons s = CAsleep (Peek 1) \<and> \<not> (\<exists>s'. tstep s s' \<and> t_cons s' \<noteq> CAsleep (Peek 1))"
proof -
  obtain r where r: "newBuffer 4096 = Inr r" "quiet r" "rb_pseq r = 0" "rb_cseq r = 0" "rb_size r = 4096"
    using written_ring [of "[]"] by auto
  then have q: "\<not> rb_done r" "\<not> rb_clock r" "\<not> rb_plock r" by (simp_all add: quiet_def)
  let ?r = "r\<lparr>rb_cwait := rb_cwait r + 1, rb_clock := True\<rparr>"
  define s1 where "s1 = (start_threads r)\<lparr>t_cons := Loaded (Peek 1) 0\<rparr>"
  define s2 where "s2 = s1\<lparr>t_ring := r\<lparr>rb_clock := True\<rparr>, t_cons := CHolds (Peek 1) 0\<rparr>"
  define s3 where "s3 = s2\<lparr>t_ring := ?r, t_cons := CSleepy (Peek 1)\<rparr>"
  define s4 where "s4 = s3\<lparr>t_ring := ?r\<lparr>rb_done := True\<rparr>, t_marked := 1\<rparr>"
  define s5 where "s5 = s4\<lparr>t_marked := 0, t_half := 1\<rparr>"
  define s6 where "s6 = s5\<lparr>t_half := 0\<rparr>"
  define s where "s = s6\<lparr>t_ring := ?r\<lparr>rb_done := True, rb_clock := False\<rparr>, t_cons := CAsleep (Peek 1)\<rparr>"
  have 1: "tstep (start_threads r) s1"
    using tstep.c_load [of "start_threads r" "Peek 1"] r by (simp add: s1_def start_threads_def)
  have 2: "tstep s1 s2" using tstep.c_lock [of s1 "Peek 1" 0] q by (simp add: s2_def s1_def start_threads_def)
  have e: "r\<lparr>rb_clock := False\<rparr> = r" using q by (cases r) simp
  have 3: "tstep s2 s3" using tstep.c_wait [of s2 "Peek 1" 0 "r\<lparr>rb_cwait := rb_cwait r + 1\<rparr>"] q
    by (simp add: s3_def s2_def e peek_test_def)
  have 4: "tstep s3 s4" using tstep.close_mark [of s3] by (simp add: s4_def s3_def s2_def s1_def start_threads_def)
  have 5: "tstep s4 s5" using tstep.close_p [of s4 0] q by (simp add: s5_def s4_def s3_def s2_def s1_def start_threads_def)
  have 6: "tstep s5 s6" using tstep.close_c [of s5 0] q by (simp add: s6_def s5_def s4_def s3_def s2_def s1_def start_threads_def)
  have 7: "tstep s6 s" using tstep.c_sleep [of s6 "Peek 1"] by (simp add: s_def s6_def s5_def s4_def s3_def)
  have s: "trun (start_threads r) s"
    using trun_trans [OF three_steps [OF 1 2 3] trun_trans [OF three_steps [OF 4 5 6] tstep_trun(1) [OF 7]]] .
  moreover have f: "t_cons s = CAsleep (Peek 1)" "t_prod s = Ready" "t_half s = 0" "t_marked s = 0" "rb_done (t_ring s)"
    by (simp_all add: s_def s6_def s5_def s4_def s3_def s2_def s1_def start_threads_def)
  moreover have "\<not> (\<exists>s'. tstep s s' \<and> t_cons s' \<noteq> CAsleep (Peek 1))"
    using asleep_stays [of s _ "Peek 1"] f by auto
  ultimately show ?thesis using r(1) by blast
qed

end
