(* ===== verification/AckPackets.thy ===== *)
theory AckPackets
  imports Header
begin

text \<open>
  PUBACK, PUBREC, PUBREL and PUBCOMP (\<open>puback.go\<close>, \<open>pubrec.go\<close>, \<open>pubrel.go\<close>, \<open>pubcomp.go\<close>). The
  last three embed the first and have its fields and its encoding; their \<open>Decode\<close> methods are
  copies that differ in the reason codes they accept.
\<close>

section \<open>State\<close>

record puback = header +
  reasonCode :: byte
  propertyLen :: u32
  reasonStr :: bytes
  userProperty :: "bytes list"

definition ValidPubAckReasonCode :: "byte \<Rightarrow> bool" where
  "ValidPubAckReasonCode code \<longleftrightarrow> code \<in> set [0x00, 0x10, 0x80, 0x83, 0x87, 0x90, 0x91, 0x97, 0x99]"

definition ValidPubRecReasonCode :: "byte \<Rightarrow> bool" where
  "ValidPubRecReasonCode code \<longleftrightarrow> code \<in> set [0x00, 0x10, 0x80, 0x83, 0x87, 0x90, 0x91, 0x97, 0x99]"

definition ValidPubRelReasonCode :: "byte \<Rightarrow> bool" where
  "ValidPubRelReasonCode code \<longleftrightarrow> code \<in> set [0x00, 0x92]"

definition ValidPubCompReasonCode :: "byte \<Rightarrow> bool" where
  "ValidPubCompReasonCode code \<longleftrightarrow> code \<in> set [0x00, 0x92]"

definition new_ack :: "byte \<Rightarrow> puback" where
  "new_ack mt =
     fst (SetType mt \<lparr>remlen = 0, mtypeflags = [], packetId = [], dbuf = Slice [] [], dirty = False,
       reasonCode = 0, propertyLen = 0, reasonStr = [], userProperty = []\<rparr>)"

definition NewPubackMessage :: puback where "NewPubackMessage = new_ack PUBACK"
definition NewPubrecMessage :: puback where "NewPubrecMessage = new_ack PUBREC"
definition NewPubrelMessage :: puback where "NewPubrelMessage = new_ack PUBREL"
definition NewPubcompMessage :: puback where "NewPubcompMessage = new_ack PUBCOMP"

definition SetReasonCode :: "byte \<Rightarrow> puback \<Rightarrow> puback" where
  "SetReasonCode c m = m\<lparr>reasonCode := c, dirty := True\<rparr>"

definition SetReasonStr :: "bytes \<Rightarrow> puback \<Rightarrow> puback" where
  "SetReasonStr s m = m\<lparr>reasonStr := s, dirty := True\<rparr>"

definition SetUserProperties :: "bytes list \<Rightarrow> puback \<Rightarrow> puback" where
  "SetUserProperties ups m = m\<lparr>userProperty := ups, dirty := True\<rparr>"

definition AddUserProperty :: "bytes \<Rightarrow> puback \<Rightarrow> puback" where
  "AddUserProperty up m = m\<lparr>userProperty := userProperty m @ [up], dirty := True\<rparr>"

section \<open>Decoding\<close>

definition ack_reasonCode :: "(byte \<Rightarrow> bool) \<Rightarrow> slice \<Rightarrow> puback \<Rightarrow> nat \<Rightarrow> puback outcome" where
  "ack_reasonCode valid src m t =
     (case sat src t of
        None \<Rightarrow> Panic
      | Some c \<Rightarrow>
          (let m' = m\<lparr>reasonCode := c\<rparr>
           in if valid c then Ret m' (t + 1) else Fail m' (int (t + 1)) (Reason ProtocolError)))"

definition ack_propertyLen :: "slice \<Rightarrow> puback \<Rightarrow> nat \<Rightarrow> puback outcome" where
  "ack_propertyLen src m t =
     (if t < slen src then assign (read_lb src t) (\<lambda>v. propertyLen_update (\<lambda>_. v)) m t else Ret m t)"

definition ack_reasonStr :: "slice \<Rightarrow> puback \<Rightarrow> nat \<Rightarrow> puback outcome" where
  "ack_reasonStr src m t =
     (if at_is src t ReasonString then
        (case assign (read_lp src (t + 1)) (\<lambda>v. reasonStr_update (\<lambda>_. v)) m (t + 1) of
           Ret m' t' \<Rightarrow>
             (case sat src t' of
                None \<Rightarrow> Panic
              | Some c \<Rightarrow> if c = ReasonString then Fail m' (int t') (Reason ProtocolError) else Ret m' t')
         | r \<Rightarrow> r)
      else Ret m t)"

definition ack_userProperty :: "slice \<Rightarrow> puback \<Rightarrow> nat \<Rightarrow> puback outcome" where
  "ack_userProperty src m t = assign (read_up src t) (\<lambda>v. userProperty_update (\<lambda>_. v)) m t"

definition ack_decodeOther :: "(byte \<Rightarrow> bool) \<Rightarrow> slice \<Rightarrow> puback \<Rightarrow> nat \<Rightarrow> puback outcome" where
  "ack_decodeOther valid src =
     run [ack_reasonCode valid src, ack_propertyLen src, ack_reasonStr src, ack_userProperty src,
          \<lambda>m. Ret (m\<lparr>dirty := False\<rparr>)]"

definition ack_packetId :: "slice \<Rightarrow> puback \<Rightarrow> nat \<Rightarrow> puback outcome" where
  "ack_packetId src m t =
     (case srange src t (t + 2) of
        None \<Rightarrow> Panic
      | Some s \<Rightarrow> Ret (m\<lparr>packetId := CopyLen (vis s) 2\<rparr>) (t + 2))"

definition ack_Decode :: "(byte \<Rightarrow> bool) \<Rightarrow> slice \<Rightarrow> puback \<Rightarrow> puback outcome" where
  "ack_Decode valid src m =
     run [\<lambda>m t. hdecode src m, ack_packetId src,
          \<lambda>m. if remlen m = 2 then Ret (m\<lparr>reasonCode := Success\<rparr>) else ack_decodeOther valid src m] m 0"

definition PubackDecode :: "slice \<Rightarrow> puback \<Rightarrow> puback outcome" where
  "PubackDecode = ack_Decode ValidPubAckReasonCode"
definition PubrecDecode :: "slice \<Rightarrow> puback \<Rightarrow> puback outcome" where
  "PubrecDecode = ack_Decode ValidPubRecReasonCode"
definition PubrelDecode :: "slice \<Rightarrow> puback \<Rightarrow> puback outcome" where
  "PubrelDecode = ack_Decode ValidPubRelReasonCode"
definition PubcompDecode :: "slice \<Rightarrow> puback \<Rightarrow> puback outcome" where
  "PubcompDecode = ack_Decode ValidPubCompReasonCode"

section \<open>Encoding\<close>

text \<open>\<open>build\<close> computes the property length and the remaining length; it panics where the property
  length does not fit a variable byte integer. An error of \<open>SetRemainingLength\<close> is dropped.\<close>

definition ack_build :: "puback \<Rightarrow> puback option" where
  "ack_build m =
     (let tot = (if length (reasonStr m) > 0 then 1 + 2 + length (reasonStr m) else 0)
                + buildUserPropertyLen (userProperty m);
          m' = m\<lparr>propertyLen := word_of_nat tot\<rparr>
      in if propertyLen m' = 0 \<and> reasonCode m' = Success then Some (fst (SetRemainingLength 2 m'))
         else if propertyLen m' = 0 \<and> reasonCode m' \<noteq> Success then Some (fst (SetRemainingLength (2 + 1) m'))
         else case lbEncode (propertyLen m') of
           None \<Rightarrow> None
         | Some b \<Rightarrow>
             Some (fst (SetRemainingLength (word_of_nat (2 + 1 + unat (propertyLen m') + length b)) m')))"

definition ack_Len :: "puback \<Rightarrow> (puback \<times> nat) option" where
  "ack_Len m =
     (if \<not> dirty m then Some (m, slen (dbuf m))
      else case ack_build m of
        None \<Rightarrow> None
      | Some m1 \<Rightarrow>
          (case SetRemainingLength (remlen m1) m1 of
             (m2, Some e) \<Rightarrow> Some (m2, 0)
           | (m2, None) \<Rightarrow> Some (m2, hmsglen m2 + unat (remlen m1))))"

definition ack_encode_body :: "puback \<Rightarrow> bytes \<Rightarrow> nat \<Rightarrow> bytes outcome" where
  "ack_encode_body m =
     run [w_bytes (if length (packetId m) \<ge> 2 then take 2 (packetId m) else [0, 0]),
          if remlen m = 2 \<and> reasonCode m = Success then run []
          else run [w_bytes [reasonCode m],
                    if propertyLen m > 0
                    then run [w_lb (propertyLen m),
                              guarded (length (reasonStr m) > 0) (run [w_bytes [ReasonString], writeLPBytes (reasonStr m)]),
                              ignore_err (writeUserProperty (userProperty m))]
                    else run []]]"

definition ack_Encode :: "puback \<Rightarrow> bytes \<Rightarrow> puback \<times> bytes outcome" where
  "ack_Encode m dst =
     (if \<not> dirty m then
        (m, if length dst < slen (dbuf m) then Fail dst 0 (Errorf ''pubxxx/Encode: Insufficient buffer size'')
            else w_copy (vis (dbuf m)) dst 0)
      else case ack_build m of
        None \<Rightarrow> (m, Panic)
      | Some m1 \<Rightarrow>
          (if length dst < hmsglen m1 + unat (remlen m1)
           then (m1, Fail dst 0 (Errorf ''pubxxx/Encode: Insufficient buffer size''))
           else case SetRemainingLength (remlen m1) m1 of
             (m2, Some e) \<Rightarrow> (m2, Fail dst 0 e)
           | (m2, None) \<Rightarrow>
               (case hencode m2 dst 0 of
                  (m3, Ret dst' t) \<Rightarrow> (m3, ack_encode_body m3 dst' t)
                | (m3, r) \<Rightarrow> (m3, r))))"

definition ack_buf_body :: "puback \<Rightarrow> bytes \<Rightarrow> nat \<Rightarrow> bytes outcome" where
  "ack_buf_body m =
     run [b_bytes (if length (packetId m) = 2 then packetId m else [0, 0]),
          if remlen m = 2 \<and> reasonCode m = Success then run []
          else run [b_bytes [reasonCode m],
                    if propertyLen m > 0
                    then run [b_lb (propertyLen m),
                              guarded (length (reasonStr m) > 0) (run [b_bytes [ReasonString], writeToBufLPBytes (reasonStr m)]),
                              writeUserPropertyByBuf (userProperty m)]
                    else run []]]"

definition ack_EncodeToBuf :: "puback \<Rightarrow> bytes \<Rightarrow> puback \<times> bytes outcome" where
  "ack_EncodeToBuf m buf =
     (if \<not> dirty m then (m, Ret (buf @ vis (dbuf m)) (slen (dbuf m)))
      else case ack_build m of
        None \<Rightarrow> (m, Panic)
      | Some m1 \<Rightarrow>
          (case SetRemainingLength (remlen m1) m1 of
             (m2, Some e) \<Rightarrow> (m2, Fail buf 0 e)
           | (m2, None) \<Rightarrow>
               (case hencodeToBuf m2 buf of
                  (m3, Ret buf' t) \<Rightarrow> (m3, ack_buf_body m3 buf' t)
                | (m3, Fail buf' t e) \<Rightarrow> (m3, Fail buf' (int (length buf')) e)
                | (m3, Panic) \<Rightarrow> (m3, Panic))))"

section \<open>The packet a message stands for\<close>

definition ack_plen :: "puback \<Rightarrow> nat" where
  "ack_plen m =
     (if length (reasonStr m) > 0 then 1 + 2 + length (reasonStr m) else 0) + buildUserPropertyLen (userProperty m)"

definition ack_remlen :: "puback \<Rightarrow> nat" where
  "ack_remlen m =
     (if ack_plen m = 0 then if reasonCode m = Success then 2 else 3
      else 3 + ack_plen m + length (lb_wire (ack_plen m)))"

definition ack_built :: "puback \<Rightarrow> puback" where
  "ack_built m =
     m\<lparr>propertyLen := word_of_nat (ack_plen m), remlen := word_of_nat (ack_remlen m), dirty := True\<rparr>"

definition ack_body_wire :: "puback \<Rightarrow> bytes" where
  "ack_body_wire m =
     packetId m @
     (if ack_remlen m = 2 then []
      else [reasonCode m] @
        (if ack_plen m = 0 then []
         else lb_wire (ack_plen m) @
           (if length (reasonStr m) > 0 then [ReasonString] @ lp_wire (reasonStr m) else []) @
           up_wire (userProperty m)))"

definition ack_wire :: "puback \<Rightarrow> bytes" where
  "ack_wire m = header_wire (ack_built m) @ ack_body_wire m"

text \<open>
  The messages that can be sent: a message type with its flags, a packet identifier, strings of
  at most 65535 bytes, user properties in pairs, and a packet within the maximum remaining length.
\<close>

definition ack_ok :: "puback \<Rightarrow> bool" where
  "ack_ok m \<longleftrightarrow>
     length (mtypeflags m) = 1 \<and> type_Valid (mtype m) \<and> flags_ok m \<and> mtype m \<noteq> PUBLISH \<and>
     length (packetId m) = 2 \<and> short (reasonStr m) \<and> list_all short (userProperty m) \<and>
     even (length (userProperty m)) \<and> ack_plen m < 268435448"

lemma ack_remlen_2: "ack_remlen m = 2 \<longleftrightarrow> ack_plen m = 0 \<and> reasonCode m = Success"
  by (simp add: ack_remlen_def)

lemma ack_remlen_bound: "ack_ok m \<Longrightarrow> ack_remlen m \<le> 268435455"
  using length_lb_wire(2) [of "ack_plen m"] by (simp add: ack_ok_def ack_remlen_def)

lemma length_ack_body: "ack_ok m \<Longrightarrow> length (ack_body_wire m) = ack_remlen m"
  by (auto simp: ack_body_wire_def ack_ok_def ack_remlen_def length_wire ack_plen_def)

lemma unat_ack:
  assumes "ack_ok m"
  shows "unat (remlen (ack_built m)) = ack_remlen m" "unat (propertyLen (ack_built m)) = ack_plen m"
  using ack_remlen_bound [OF assms] assms by (simp_all add: ack_built_def unat_small ack_ok_def)

lemma ack_built_zero:
  "ack_ok m \<Longrightarrow> propertyLen (ack_built m) = 0 \<longleftrightarrow> ack_plen m = 0"
  "ack_ok m \<Longrightarrow> remlen (ack_built m) = 2 \<longleftrightarrow> ack_remlen m = 2"
  using unat_ack [of m] by (auto simp: word_unat_eq_iff)

lemma header_ok_built: "ack_ok m \<Longrightarrow> header_ok (ack_built m)"
  using unat_ack(1) [of m] ack_remlen_bound [of m] mtype_cong [of "ack_built m" m]
  by (simp add: header_ok_def ack_ok_def maxRemainingLength_def word_le_nat_alt) (simp add: ack_built_def)

lemma ack_build_built:
  assumes "ack_ok m"
  shows "ack_build m = Some (ack_built m)"
proof -
  have b: "ack_plen m < 268435456" using assms by (simp add: ack_ok_def)
  have u: "unat (word_of_nat (ack_plen m) :: u32) = ack_plen m" using b by (simp add: unat_small)
  have z: "(word_of_nat (ack_plen m) :: u32) = 0 \<longleftrightarrow> ack_plen m = 0"
    using u by (auto simp: word_unat_eq_iff)
  have lb: "lbEncode (word_of_nat (ack_plen m)) = Some (lb_wire (ack_plen m))"
    using b u by (simp add: lbEncode_spec word_less_nat_alt)
  have r: "\<not> (word_of_nat (ack_remlen m) :: u32) > maxRemainingLength"
    using ack_remlen_bound [OF assms] by (simp add: maxRemainingLength_def word_less_nat_alt unat_small)
  have small: "\<not> (2 :: u32) > maxRemainingLength" "\<not> (3 :: u32) > maxRemainingLength"
    by (simp_all add: maxRemainingLength_def)
  show ?thesis
    using r
    unfolding ack_build_def ack_plen_def [symmetric] Let_def
    by (cases "ack_plen m = 0"; cases "reasonCode m = Success")
      (simp_all add: z lb u SetRemainingLength_def ack_built_def ack_remlen_def small)
qed

section \<open>Encoding puts the packet on the wire\<close>

lemma ack_body_emits:
  assumes ok: "ack_ok m"
  shows "emits_w (ack_encode_body (ack_built m)) (ack_body_wire m)"
    and "emits_b (ack_buf_body (ack_built m)) (ack_body_wire m)"
proof -
  define m' where "m' = ack_built m"
  have f: "packetId m' = packetId m" "reasonCode m' = reasonCode m" "reasonStr m' = reasonStr m"
    "userProperty m' = userProperty m"
    by (simp_all add: m'_def ack_built_def)
  have p: "propertyLen m' < 268435456" "unat (propertyLen m') = ack_plen m"
    using unat_ack(2) [OF ok] ok by (simp_all add: m'_def word_less_nat_alt ack_ok_def)
  have c: "(remlen m' = 2 \<and> reasonCode m = Success) = (ack_remlen m = 2)"
    "(propertyLen m' > 0) = (ack_plen m \<noteq> 0)"
    using ack_built_zero [OF ok] by (auto simp: m'_def ack_remlen_2 word_neq_0_conv [symmetric])
  have pid: "(if length (packetId m) \<ge> 2 then take 2 (packetId m) else [0, 0]) = packetId m"
    "(if length (packetId m) = 2 then packetId m else [0, 0]) = packetId m"
    using ok by (simp_all add: ack_ok_def)
  have s: "short (reasonStr m)" "list_all short (userProperty m)" using ok by (simp_all add: ack_ok_def)
  have wire: "ack_body_wire m =
      packetId m @ (if ack_remlen m = 2 then [] else
        [reasonCode m] @ (if ack_plen m \<noteq> 0 then
          lb_wire (unat (propertyLen m')) @
          (if length (reasonStr m) > 0 then [ReasonString] @ lp_wire (reasonStr m) @ [] else []) @
          up_wire (userProperty m) @ [] else []) @ []) @ []"
    by (simp add: ack_body_wire_def p)
  show "emits_w (ack_encode_body (ack_built m)) (ack_body_wire m)"
    unfolding ack_encode_body_def m'_def [symmetric] f c pid wire
    by (intro emits p s)
  show "emits_b (ack_buf_body (ack_built m)) (ack_body_wire m)"
    unfolding ack_buf_body_def m'_def [symmetric] f c pid wire
    by (intro emits p s)
qed

lemma SetRemainingLength_built:
  "ack_ok m \<Longrightarrow> SetRemainingLength (remlen (ack_built m)) (ack_built m) = (ack_built m, None)"
  using header_ok_built [of m] by (simp add: SetRemainingLength_def header_ok_def not_less) (simp add: ack_built_def)

lemma length_ack_wire: "ack_ok m \<Longrightarrow> length (ack_wire m) = hmsglen (ack_built m) + ack_remlen m"
  by (simp add: ack_wire_def length_header_wire header_ok_built length_ack_body)

lemma ack_Len_wire: "dirty m \<Longrightarrow> ack_ok m \<Longrightarrow> ack_Len m = Some (ack_built m, length (ack_wire m))"
  by (simp add: ack_Len_def ack_build_built SetRemainingLength_built length_ack_wire unat_ack)

lemma ack_Encode_wire:
  assumes "dirty m" "ack_ok m" "length (ack_wire m) \<le> length dst"
  shows "ack_Encode m dst = (ack_built m, Ret (ack_wire m @ drop (length (ack_wire m)) dst) (length (ack_wire m)))"
proof -
  let ?m = "ack_built m"
  have len: "hmsglen ?m + ack_remlen m \<le> length dst"
    using assms by (simp add: length_ack_wire)
  have h: "hencode ?m dst 0 = (?m, Ret (header_wire ?m @ drop (hmsglen ?m) dst) (hmsglen ?m))"
    using hencode_ok [OF header_ok_built [OF assms(2)]] len by simp
  have b: "ack_encode_body ?m (header_wire ?m @ drop (hmsglen ?m) dst) (hmsglen ?m) =
      Ret (ack_wire m @ drop (length (ack_wire m)) dst) (length (ack_wire m))"
    using ack_body_emits(1) [OF assms(2)] len length_header_wire [OF header_ok_built [OF assms(2)]]
      length_ack_body [OF assms(2)]
    by (simp add: emits_w_def ack_wire_def ac_simps)
  show ?thesis
    using assms(1) len by (simp add: ack_Encode_def ack_build_built assms(2) unat_ack SetRemainingLength_built h b)
qed

lemma ack_EncodeToBuf_wire:
  assumes "dirty m" "ack_ok m"
  shows "ack_EncodeToBuf m buf = (ack_built m, Ret (buf @ ack_wire m) (length buf + length (ack_wire m)))"
proof -
  let ?m = "ack_built m"
  have b: "ack_buf_body ?m (buf @ header_wire ?m) (length buf + hmsglen ?m) =
      Ret (buf @ ack_wire m) (length buf + length (ack_wire m))"
    using emits_bD [OF ack_body_emits(2) [OF assms(2)], of "length buf + hmsglen ?m" "buf @ header_wire ?m"]
      length_header_wire [OF header_ok_built [OF assms(2)]]
    by (simp add: ack_wire_def)
  show ?thesis
    using assms(1)
    by (simp add: ack_EncodeToBuf_def ack_build_built assms(2) SetRemainingLength_built
        hencodeToBuf_ok header_ok_built b)
qed

section \<open>Decoding the packet\<close>

lemma packetId_step:
  "length pid = 2 \<Longrightarrow>
     ack_packetId (Slice (pre @ pid @ rest) ex) m (length pre) = Ret (m\<lparr>packetId := pid\<rparr>) (length pre + 2)"
  by (simp add: ack_packetId_def srange_def CopyLen_take)

lemma reasonCode_step:
  "valid c \<Longrightarrow> ack_reasonCode valid (Slice (pre @ c # rest) ex) m (length pre) =
     Ret (m\<lparr>reasonCode := c\<rparr>) (length pre + 1)"
  by (simp add: ack_reasonCode_def sat_app Let_def)

lemma propertyLen_step:
  "n < 268435456 \<Longrightarrow>
     ack_propertyLen (Slice (pre @ lb_wire n @ rest) ex) m (length pre) =
       Ret (m\<lparr>propertyLen := word_of_nat n\<rparr>) (length pre + length (lb_wire n))"
  by (simp add: ack_propertyLen_def slen_def reads_wire assign_def)

lemma propertyLen_end:
  "ack_propertyLen (Slice pre ex) m (length pre) = Ret m (length pre)"
  by (simp add: ack_propertyLen_def slen_def)

lemma reasonStr_step:
  assumes "short s"
  shows "ack_reasonStr (Slice (pre @ ReasonString # lp_wire s @ rest) ex) m (length pre) =
     (if rest = [] then Panic
      else if hd rest = ReasonString
        then Fail (m\<lparr>reasonStr := s\<rparr>) (int (length pre + 3 + length s)) (Reason ProtocolError)
      else Ret (m\<lparr>reasonStr := s\<rparr>) (length pre + 3 + length s))"
proof -
  have r: "read_lp (Slice (pre @ ReasonString # lp_wire s @ rest) ex) (length pre + 1) = Some (s, 2 + length s, None)"
    using reads_wire(1) [OF assms, of "pre @ [ReasonString]" rest ex] by simp
  have a: "sat (Slice (pre @ ReasonString # lp_wire s @ rest) ex) (length pre + 1 + (2 + length s)) =
      (if rest = [] then None else Some (hd rest))"
    by (cases rest) (auto simp: sat_def slen_def length_wire nth_append)
  show ?thesis
    using r a by (simp add: ack_reasonStr_def at_is_app assign_def ac_simps)
qed

lemma reasonStr_none:
  "rest = [] \<or> hd rest \<noteq> ReasonString \<Longrightarrow>
     ack_reasonStr (Slice (pre @ rest) ex) m (length pre) = Ret m (length pre)"
  by (auto simp: ack_reasonStr_def at_is_app)

lemma userProperty_step:
  "list_all short ups \<Longrightarrow> even (length ups) \<Longrightarrow>
     ack_userProperty (Slice (pre @ up_wire ups) ex) m (length pre) =
       Ret (m\<lparr>userProperty := ups\<rparr>) (length pre + length (up_wire ups))"
  using reads_wire(3) [of ups "[]" pre ex] by (simp add: ack_userProperty_def assign_def)

lemma hd_up_wire: "up_wire ups = [] \<or> hd (up_wire ups) \<noteq> ReasonString"
  by (cases ups rule: up_wire.cases) (auto simp: UserProperty_def ReasonString_def)

lemma up_wire_Nil_iff: "up_wire ups = [] \<longleftrightarrow> ups = []"
  by (cases ups rule: up_wire.cases) auto

lemma ack_Decode_wire:
  fixes ex :: bytes
  assumes ok: "ack_ok m" and valid: "valid (reasonCode m)"
    and m0: "length (mtypeflags m0) = 1" "mtype m0 = mtype m"
  defines "src \<equiv> Slice (ack_wire m) ex"
  defines "base \<equiv> m0\<lparr>dbuf := src, mtypeflags := mtypeflags m, remlen := remlen (ack_built m),
    packetId := packetId m, reasonCode := reasonCode m\<rparr>"
  shows "ack_Decode valid src m0 =
    (if ack_remlen m = 2 then Ret base (length (ack_wire m))
     else if ack_plen m = 0 then Ret (base\<lparr>userProperty := [], dirty := False\<rparr>) (length (ack_wire m))
     else if reasonStr m \<noteq> [] \<and> userProperty m = [] then Panic
     else Ret (base\<lparr>propertyLen := propertyLen (ack_built m),
                 reasonStr := (if reasonStr m = [] then reasonStr m0 else reasonStr m),
                 userProperty := userProperty m, dirty := False\<rparr>) (length (ack_wire m)))"
proof -
  let ?b = "ack_built m"
  define hw where "hw = header_wire ?b"
  define h1 where "h1 = m0\<lparr>dbuf := src, mtypeflags := mtypeflags m, remlen := remlen ?b\<rparr>"
  have bf: "mtypeflags ?b = mtypeflags m" by (simp add: ack_built_def)
  have mt: "mtype ?b = mtype m" by (rule mtype_cong) (rule bf)
  have L: "length (ack_wire m) = hmsglen ?b + ack_remlen m" by (rule length_ack_wire [OF ok])
  have lh: "hmsglen ?b = length hw" by (simp add: hw_def length_header_wire header_ok_built ok)
  have fl: "flags_ok ?b"
    using ok flags_ok_cong [OF bf] by (simp add: ack_ok_def)
  have rem: "unat (remlen ?b) = ack_remlen m" "remlen ?b \<noteq> 0"
    using unat_ack(1) [OF ok] by (auto simp: ack_remlen_def split: if_splits)
  have wire: "ack_wire m = hw @ ack_body_wire m" by (simp add: ack_wire_def hw_def)
  have hd: "hdecode src m0 = Ret h1 (length hw)"
    unfolding src_def wire h1_def hw_def lh [symmetric, unfolded hw_def]
    by (subst hdecode_wire [OF header_ok_built [OF ok] fl _ _ m0(1)])
       (simp_all add: rem length_ack_body ok m0(2) mt bf)
  define rest where "rest = (if ack_remlen m = 2 then [] else
    reasonCode m # (if ack_plen m = 0 then [] else lb_wire (ack_plen m) @
      (if length (reasonStr m) > 0 then [ReasonString] @ lp_wire (reasonStr m) else []) @ up_wire (userProperty m)))"
  have w2: "ack_wire m = hw @ packetId m @ rest"
    by (simp add: wire ack_body_wire_def rest_def)
  have pid2: "length (packetId m) = 2" using ok by (simp add: ack_ok_def)
  have pid: "ack_packetId src h1 (length hw) = Ret (h1\<lparr>packetId := packetId m\<rparr>) (length hw + 2)"
    unfolding src_def w2 by (rule packetId_step [OF pid2])
  have dec: "ack_Decode valid src m0 =
      (if ack_remlen m = 2 then Ret (h1\<lparr>packetId := packetId m, reasonCode := Success\<rparr>) (length hw + 2)
       else ack_decodeOther valid src (h1\<lparr>packetId := packetId m\<rparr>) (length hw + 2))"
    using hd pid ack_built_zero(2) [OF ok] by (simp add: ack_Decode_def h1_def)
  show ?thesis
  proof (cases "ack_remlen m = 2")
    case True
    then show ?thesis
      using dec by (simp add: base_def h1_def ack_remlen_2 L lh)
  next
    case no2: False
    define pre1 where "pre1 = hw @ packetId m"
    define pre2 where "pre2 = pre1 @ [reasonCode m]"
    have l1: "length pre1 = length hw + 2" "length pre2 = length pre1 + 1" by (simp_all add: pre1_def pre2_def pid2)
    have rc: "ack_reasonCode valid src x (length hw + 2) = Ret (x\<lparr>reasonCode := reasonCode m\<rparr>) (length pre2)" for x
      using reasonCode_step [of valid "reasonCode m", OF valid, where pre = pre1 and ex = ex] no2 l1
      by (simp add: src_def w2 rest_def pre1_def)
    have b0: "h1\<lparr>packetId := packetId m, reasonCode := reasonCode m\<rparr> = base"
      by (simp add: h1_def base_def)
    have dec2: "ack_Decode valid src m0 =
      run [ack_propertyLen src, ack_reasonStr src, ack_userProperty src, \<lambda>m. Ret (m\<lparr>dirty := False\<rparr>)] base (length pre2)"
      using dec no2 b0 rc [of "h1\<lparr>packetId := packetId m\<rparr>"] by (simp add: ack_decodeOther_def)
    show ?thesis
    proof (cases "ack_plen m = 0")
      case True
      have e: "src = Slice pre2 ex" using no2 True by (simp add: src_def w2 rest_def pre2_def pre1_def)
      have "up_wire [] = []" by simp
      then show ?thesis
        using dec2 no2 True userProperty_step [of "[]" pre2 ex base] propertyLen_end [of pre2 ex base] reasonStr_none [of "[]" pre2 ex base] L lh l1
        by (simp add: e ack_remlen_def split: if_splits)
    next
      case p: False
      define pre3 where "pre3 = pre2 @ lb_wire (ack_plen m)"
      define m3 where "m3 = base\<lparr>propertyLen := propertyLen ?b\<rparr>"
      define tl where "tl = (if length (reasonStr m) > 0 then [ReasonString] @ lp_wire (reasonStr m) else []) @ up_wire (userProperty m)"
      have n: "ack_plen m < 268435456" using ok by (simp add: ack_ok_def)
      have w3: "ack_wire m = pre2 @ lb_wire (ack_plen m) @ tl"
        using no2 p by (simp add: w2 rest_def pre2_def pre1_def tl_def)
      have pl: "ack_propertyLen src base (length pre2) = Ret m3 (length pre3)"
        unfolding src_def w3 using propertyLen_step [OF n, of pre2 tl ex base]
        by (simp add: m3_def pre3_def ack_built_def)
      have w4: "ack_wire m = pre3 @ tl" by (simp add: w3 pre3_def)
      have s: "short (reasonStr m)" "list_all short (userProperty m)" "even (length (userProperty m))"
        using ok by (simp_all add: ack_ok_def)
      show ?thesis
      proof (cases "reasonStr m = []")
        case True
        have rs: "ack_reasonStr src m3 (length pre3) = Ret m3 (length pre3)"
          unfolding src_def w4 using True hd_up_wire by (intro reasonStr_none) (simp add: tl_def)
        have up: "ack_userProperty src m3 (length pre3) = Ret (m3\<lparr>userProperty := userProperty m\<rparr>) (length (ack_wire m))"
          unfolding src_def w4 using userProperty_step [OF s(2,3), of pre3 ex m3] True by (simp add: tl_def)
        show ?thesis
          using dec2 pl rs up no2 p True by (simp add: m3_def base_def)
      next
        case ne: False
        define pre4 where "pre4 = pre3 @ [ReasonString] @ lp_wire (reasonStr m)"
        have l4: "length pre4 = length pre3 + 3 + length (reasonStr m)" by (simp add: pre4_def length_wire)
        have w5: "ack_wire m = pre4 @ up_wire (userProperty m)" using ne by (simp add: w4 tl_def pre4_def)
        have rs: "ack_reasonStr src m3 (length pre3) =
            (if userProperty m = [] then Panic else Ret (m3\<lparr>reasonStr := reasonStr m\<rparr>) (length pre4))"
          unfolding src_def using reasonStr_step [OF s(1), of pre3 "up_wire (userProperty m)" ex m3] hd_up_wire [of "userProperty m"]
          by (auto simp: w5 pre4_def length_wire up_wire_Nil_iff)
        have up: "ack_userProperty src x (length pre4) = Ret (x\<lparr>userProperty := userProperty m\<rparr>) (length (ack_wire m))" for x
          unfolding src_def w5 using userProperty_step [OF s(2,3), of pre4 ex x] by simp
        show ?thesis
          using dec2 pl rs up no2 p ne by (simp add: m3_def base_def)
      qed
    qed
  qed
qed

section \<open>Properties\<close>

lemma ack_ok_new:
  "mt \<in> {PUBACK, PUBREC, PUBREL, PUBCOMP} \<Longrightarrow>
     length (mtypeflags (new_ack mt)) = 1 \<and> mtype (new_ack mt) = mt \<and> dirty (new_ack mt)
     \<and> reasonStr (new_ack mt) = [] \<and> userProperty (new_ack mt) = []"
  by (auto simp: new_ack_def SetType_def type_Valid_def type_defs alloc_flags_def mtype_def DefaultFlags_def)

lemma ack_built_again:
  "ack_built (ack_built m) = ack_built m" "dirty (ack_built m)" "ack_ok (ack_built m) = ack_ok m" "ack_wire (ack_built m) = ack_wire m"
proof -
  have p: "ack_plen (ack_built m) = ack_plen m" "ack_remlen (ack_built m) = ack_remlen m"
    by (simp_all add: ack_plen_def ack_remlen_def ack_built_def)
  show i: "ack_built (ack_built m) = ack_built m"
    unfolding ack_built_def [of "ack_built m"] p by (simp add: ack_built_def)
  show "dirty (ack_built m)" by (simp add: ack_built_def)
  show "ack_ok (ack_built m) = ack_ok m"
    unfolding ack_ok_def p by (simp add: ack_built_def flags_ok_def Flags_def mtype_def alloc_flags_def)
  show "ack_wire (ack_built m) = ack_wire m"
    unfolding ack_wire_def i ack_body_wire_def p by (simp add: ack_built_def)
qed

text \<open>C21: An acknowledgement that is dirty and can be sent is encoded the same way by \<open>Encode\<close> and by
  \<open>EncodeToBuf\<close>: both emit the packet \<open>ack_wire\<close>, whose length is what \<open>Len\<close> reports.\<close>

theorem ack_encoders_agree:
  assumes "dirty m" "ack_ok m" "length (ack_wire m) \<le> length dst"
  shows "ack_Len m = Some (ack_built m, length (ack_wire m)) \<and>
    ack_Encode m dst = (ack_built m, Ret (ack_wire m @ drop (length (ack_wire m)) dst) (length (ack_wire m))) \<and>
    ack_EncodeToBuf m buf = (ack_built m, Ret (buf @ ack_wire m) (length buf + length (ack_wire m)))"
  using assms ack_Len_wire ack_Encode_wire ack_EncodeToBuf_wire by blast

definition demo_ack :: puback where
  "demo_ack = (AddUserProperty [98] (AddUserProperty [97] (SetReasonStr [104, 105]
     (SetReasonCode 0x10 (SetPacketId 258 NewPubackMessage)))))"

lemma demo_ack_eq:
  "demo_ack = \<lparr>remlen = 0, mtypeflags = [0x40], packetId = [1, 2], dbuf = Slice [] [], dirty = True,
     reasonCode = 0x10, propertyLen = 0, reasonStr = [104, 105], userProperty = [[97], [98]]\<rparr>"
  by code_simp

lemma demo_ack_ok: "ack_ok demo_ack" "dirty demo_ack" "length (ack_wire demo_ack) = 18"
proof -
  have t: "mtype demo_ack = PUBACK" "flags_ok demo_ack" by code_simp+
  show ok: "ack_ok demo_ack"
    by (simp add: ack_ok_def t) (simp add: demo_ack_eq short_def ack_plen_def type_Valid_def type_defs)
  show "dirty demo_ack" by (simp add: demo_ack_eq)
  have p: "ack_plen demo_ack = 12" "reasonCode demo_ack = 0x10" by (simp_all add: ack_plen_def demo_ack_eq)
  show "length (ack_wire demo_ack) = 18"
    by (simp add: length_ack_wire [OF ok] hmsglen_def ack_built_def ack_remlen_def p lb_wire.simps [of 12] Success_def)
qed

theorem ack_encoders_agree_witness:
  "ack_Len demo_ack = Some (ack_built demo_ack, length (ack_wire demo_ack)) \<and>
    ack_Encode demo_ack (replicate 32 0) =
      (ack_built demo_ack, Ret (ack_wire demo_ack @ drop (length (ack_wire demo_ack)) (replicate 32 0)) (length (ack_wire demo_ack))) \<and>
    ack_EncodeToBuf demo_ack [] = (ack_built demo_ack, Ret ([] @ ack_wire demo_ack) (length ([]::bytes) + length (ack_wire demo_ack)))"
  by (rule ack_encoders_agree) (simp_all add: demo_ack_ok)

text \<open>C22: A new acknowledgement that decodes what \<open>Encode\<close> wrote gets the identifier, reason code,
  reason string and user properties back and has consumed the packet, unless the packet ends after
  a reason string: then the decoder indexes past the end and panics.\<close>

theorem ack_roundtrip:
  assumes "ack_ok m" "valid (reasonCode m)" "mtype m \<in> {PUBACK, PUBREC, PUBREL, PUBCOMP}"
  shows "if reasonStr m \<noteq> [] \<and> userProperty m = []
    then ack_Decode valid (Slice (ack_wire m) ex) (new_ack (mtype m)) = Panic
    else \<exists>m'. ack_Decode valid (Slice (ack_wire m) ex) (new_ack (mtype m)) = Ret m' (length (ack_wire m)) \<and>
      PacketId m' = PacketId m \<and> reasonCode m' = reasonCode m \<and>
      reasonStr m' = reasonStr m \<and> userProperty m' = userProperty m"
proof -
  note new = ack_ok_new [OF assms(3)]
  have zero: "ack_plen m = 0 \<Longrightarrow> reasonStr m = [] \<and> userProperty m = []"
    using up_wire_Nil_iff [of "userProperty m"] length_wire(2) [of "userProperty m"]
    by (auto simp: ack_plen_def split: if_splits)
  show ?thesis
    using ack_Decode_wire [where valid = valid and m = m and ?m0.0 = "new_ack (mtype m)" and ex = ex] assms(1,2) new zero
    by (auto simp: PacketId_def ack_remlen_2)
qed

theorem ack_roundtrip_witness:
  "if reasonStr demo_ack \<noteq> [] \<and> userProperty demo_ack = []
    then ack_Decode ValidPubAckReasonCode (Slice (ack_wire demo_ack) []) (new_ack (mtype demo_ack)) = Panic
    else \<exists>m'. ack_Decode ValidPubAckReasonCode (Slice (ack_wire demo_ack) []) (new_ack (mtype demo_ack)) =
        Ret m' (length (ack_wire demo_ack)) \<and>
      PacketId m' = PacketId demo_ack \<and> reasonCode m' = reasonCode demo_ack \<and>
      reasonStr m' = reasonStr demo_ack \<and> userProperty m' = userProperty demo_ack"
proof (rule ack_roundtrip)
  show "ack_ok demo_ack" by (rule demo_ack_ok)
  show "ValidPubAckReasonCode (reasonCode demo_ack)" by code_simp
  show "mtype demo_ack \<in> {PUBACK, PUBREC, PUBREL, PUBCOMP}" by code_simp
qed

text \<open>
  A decoded message is clean and is encoded by copying the packet it was decoded from.
  \<open>SetPacketId\<close> does not mark it dirty, so the new identifier is never sent.
\<close>

lemma SetPacketId_not_sent:
  "\<not> dirty m \<Longrightarrow> length (packetId m) = 2 \<Longrightarrow>
     ack_EncodeToBuf (SetPacketId v m) buf = (SetPacketId v m, Ret (buf @ vis (dbuf m)) (slen (dbuf m)))"
  by (simp add: ack_EncodeToBuf_def SetPacketId_def)

end
