(* ===== verification/SendRecv.thy ===== *)
theory SendRecv
  imports RingThreads AckPackets
begin

text \<open>
  Framing, \<open>corev5/v2/service/sendrecv.go\<close>: how a packet is written into the outgoing ring and found
  again in the incoming ring. A message is what the interface \<open>Message\<close> offers, so its \<open>Len\<close>,
  \<open>Encode\<close> and \<open>Decode\<close> are arguments, as is the constructor \<open>New\<close> of a message type.
\<close>

section \<open>Operations\<close>

definition ErrBufferNotReady :: goerr where "ErrBufferNotReady = Errorf ''service: buffer is not ready''"

text \<open>
  The read loop of \<open>peekMessageSize\<close>. A peek that returns fewer bytes than it was asked for, without
  an error, would repeat the loop on the same ring: \<open>Dead\<close>.
\<close>

function peek_size :: "nat \<Rightarrow> ring \<Rightarrow> (byte \<times> int \<times> goerr option) attempt" where
  "peek_size cnt r =
     (if cnt > 5 then
        Now (0, 0, Some (Errorf ''sendrecv/peekMessageSize: 4th byte of remaining length has continuation bit set'')) r
      else case ReadWait (int cnt) r of
        Wait r' \<Rightarrow> Wait r'
      | Dead \<Rightarrow> Dead
      | Now (v, Some e) r' \<Rightarrow> Now (0, 0, Some e) r'
      | Now (v, None) r' \<Rightarrow>
          (let b = deref r' v in
           if length b < cnt then Dead
           else if b ! (cnt - 1) \<ge> 0x80 then peek_size (cnt + 1) r'
           else case Uvarint (tl b) of (n, m) \<Rightarrow>
             Now (drop_bit 4 (b ! 0), sint n + 1 + m, None) r'))"
  by pat_completeness auto
termination by (relation "measure (\<lambda>(cnt, r). 6 - cnt)") auto

declare peek_size.simps [simp del]

definition peekMessageSize :: "ring option \<Rightarrow> goerr + (byte \<times> int \<times> goerr option) attempt" where
  "peekMessageSize inb = (case inb of None \<Rightarrow> Inl ErrBufferNotReady | Some r \<Rightarrow> Inr (peek_size 2 r))"

text \<open>The view as a slice: its capacity runs to the end of the memory it was cut from.\<close>

fun deref_slice :: "ring \<Rightarrow> view \<Rightarrow> slice" where
  "deref_slice r NoView = Slice [] []"
| "deref_slice r (InBuf i m) = Slice (take m (drop i (rb_buf r))) (drop (i + m) (rb_buf r))"
| "deref_slice r (InTmp m) = Slice (take m (rb_tmp r)) (drop m (rb_tmp r))"

definition peekMessage ::
    "(byte \<Rightarrow> goerr + 'm) \<Rightarrow> (slice \<Rightarrow> 'm \<Rightarrow> 'm outcome) \<Rightarrow> byte \<Rightarrow> int \<Rightarrow> ring option \<Rightarrow>
     goerr + (goerr + 'm outcome) attempt" where
  "peekMessage New Decode mt tot inb =
     (case inb of None \<Rightarrow> Inl ErrBufferNotReady
      | Some r \<Rightarrow> Inr
          (case ReadWait tot r of
             Wait r' \<Rightarrow> Wait r'
           | Dead \<Rightarrow> Dead
           | Now (v, e) r' \<Rightarrow>
               (if e \<noteq> None \<and> e \<noteq> Some ErrBufferInsufficientData then Now (Inl (the e)) r'
                else if int (slen (deref_slice r' v)) < tot then Dead
                else case New mt of
                  Inl err \<Rightarrow> Now (Inl err) r'
                | Inr m \<Rightarrow> Now (Inr (Decode (deref_slice r' v) m)) r')))"

text \<open>Bytes stored through a slice of the buffer.\<close>

fun store :: "view \<Rightarrow> bytes \<Rightarrow> ring \<Rightarrow> ring" where
  "store (InBuf i m) d r = r\<lparr>rb_buf := copy_at i d (rb_buf r)\<rparr>"
| "store v d r = r"

text \<open>
  \<open>writeMessage\<close> without a getty session. Its result: the message, the scratch buffer \<open>outtmp\<close>, the
  number of bytes and the error.
\<close>

definition writeMessage ::
    "('m \<Rightarrow> 'm) \<Rightarrow> ('m \<Rightarrow> ('m \<times> nat) option) \<Rightarrow> ('m \<Rightarrow> bytes \<Rightarrow> 'm \<times> bytes outcome) \<Rightarrow>
     'm \<Rightarrow> bytes \<Rightarrow> ring option \<Rightarrow> goerr + ('m \<times> bytes \<times> nat \<times> goerr option) attempt" where
  "writeMessage delInfo Len Encode m outtmp outb =
     (case outb of None \<Rightarrow> Inl ErrBufferNotReady
      | Some r \<Rightarrow> Inr
          (case Len (delInfo m) of None \<Rightarrow> Dead
           | Some (m1, l) \<Rightarrow>
             (case WriteWait l r of
                Wait r' \<Rightarrow> Wait r'
              | Dead \<Rightarrow> Dead
              | Now (v, wrap, Some e) r' \<Rightarrow> Now (m1, outtmp, 0, Some e) r'
              | Now (v, wrap, None) r' \<Rightarrow>
                  (if wrap then
                     (case Encode m1 (if length outtmp < l then replicate l 0 else outtmp) of
                        (m2, Ret d n) \<Rightarrow>
                          (case rb_Write (take n d) r' of
                             Now (k, e) r2 \<Rightarrow> Now (m2, d, k, e) r2 | Wait r2 \<Rightarrow> Wait r2 | Dead \<Rightarrow> Dead)
                      | (m2, Fail d n e) \<Rightarrow> Now (m2, d, 0, Some e) r'
                      | (m2, Panic) \<Rightarrow> Dead)
                   else
                     (case Encode m1 (deref r' v) of
                        (m2, Ret d n) \<Rightarrow>
                          (case WriteCommit n (store v d r') of
                             Now (k, e) r2 \<Rightarrow> Now (m2, outtmp, (if e = None then k else 0), e) r2
                           | Wait r2 \<Rightarrow> Wait r2 | Dead \<Rightarrow> Dead)
                      | (m2, Fail d n e) \<Rightarrow> Now (m2, outtmp, 0, Some e) (store v d r')
                      | (m2, Panic) \<Rightarrow> Dead)))))"

section \<open>Reading a packet off the stream\<close>

text \<open>A packet: the type byte, the remaining length, and as many bytes.\<close>

definition packet :: "byte \<Rightarrow> bytes \<Rightarrow> bytes" where
  "packet b0 body = b0 # lb_wire (length body) @ body"

lemma sint_small: "n < 268435456 \<Longrightarrow> sint (word_of_nat n :: u64) = int n"
  by (simp add: sint_uint unsigned_of_nat take_bit_nat_eq_self signed_take_bit_int_eq_self take_bit_int_eq_self)

lemma lb_wire_continued: "Suc i < length (lb_wire n) \<Longrightarrow> lb_wire n ! i \<ge> 128"
proof (induction n arbitrary: i rule: lb_wire.induct)
  case (1 n)
  show ?case
  proof (cases i)
    case 0
    have "\<not> n < 128" using 1(2) by (auto simp: lb_wire.simps [of n])
    then have "\<not> hd (lb_wire n) < 128" using hd_lb_wire_less [of n] by blast
    then show ?thesis using 0 by (simp add: hd_conv_nth)
  next
    case (Suc j)
    then have n: "\<not> n < 128" using 1(2) by (auto simp: lb_wire.simps [of n])
    then have t: "tl (lb_wire n) = lb_wire (n div 128)" by (simp only: tl_lb_wire if_False)
    then have "length (lb_wire n) = Suc (length (lb_wire (n div 128)))" by (metis length_Cons list.collapse lb_wire_not_Nil)
    moreover have "lb_wire n ! i = lb_wire (n div 128) ! j" using t Suc by (metis list.collapse lb_wire_not_Nil nth_Cons_Suc)
    ultimately show ?thesis using 1 n Suc by simp
  qed
qed

lemma lb_wire_last: "last (lb_wire n) < 128"
proof (induction n rule: lb_wire.induct)
  case (1 n)
  show ?case
  proof (cases "n < 128")
    case True
    then have "tl (lb_wire n) = []" by (simp only: tl_lb_wire if_True)
    then have "last (lb_wire n) = hd (lb_wire n)" by (metis last_ConsL list.collapse lb_wire_not_Nil)
    then show ?thesis using True by (simp only: hd_lb_wire_less)
  next
    case False
    then have "tl (lb_wire n) = lb_wire (n div 128)" by (simp only: tl_lb_wire if_False)
    then have "last (lb_wire n) = last (lb_wire (n div 128))" by (metis last_tl lb_wire_not_Nil)
    then show ?thesis using 1 False by simp
  qed
qed

text \<open>What a \<open>ReadWait\<close> of the consumer shows on a ring that carries a stream.\<close>

lemma ReadWait_stream:
  assumes "is_stream r s" "n \<le> st_cap s" "n \<le> length (unread s)"
  shows "\<exists>v r'. ReadWait (int n) r = Now (v, None) r' \<and> deref r' v = take n (unread s) \<and> is_stream r' s \<and>
    (\<exists>ex. deref_slice r' v = Slice (take n (unread s)) ex)"
proof -
  obtain v r' where v: "ReadWait (int n) r = Now (v, None) r'" "deref r' v = take n (unread s)" "is_stream r' s"
    using rs.wait_read [OF assms] by (auto dest!: got_eq)
  have "\<exists>ex. deref_slice r' v = Slice (deref r' v) ex" by (cases v) auto
  then show ?thesis using v by auto
qed

lemma ReadWait_stream_short:
  assumes "is_stream r s" "n \<le> st_cap s" "length (unread s) < n"
  shows "\<exists>r'. ReadWait (int n) r = Wait r' \<and> is_stream r' s"
  using rs.wait_read_waits [OF assms] by (auto dest: sleeps_eq)

lemma packet_nth:
  assumes "i < length (lb_wire (length body))"
  shows "(packet b0 body @ rest) ! Suc i = lb_wire (length body) ! i"
  using assms by (simp add: packet_def nth_append)

lemma take_packet_header:
  "take (Suc (length (lb_wire (length body)))) (packet b0 body @ rest) = b0 # lb_wire (length body)"
  by (simp add: packet_def)

lemma peek_size_packet:
  assumes "is_stream r s" "unread s = packet b0 body @ rest" "length body < 2 ^ 28" "5 \<le> st_cap s"
    "2 \<le> cnt" "cnt \<le> Suc (length (lb_wire (length body)))"
  shows "\<exists>r'. peek_size cnt r = Now (drop_bit 4 b0, int (length (packet b0 body)), None) r' \<and> is_stream r' s"
  using assms
proof (induction cnt r rule: peek_size.induct)
  case (1 cnt r)
  let ?L = "lb_wire (length body)"
  have L: "length ?L \<le> 4" using length_lb_wire(2) [of "length body"] "1.prems"(3) by simp
  have c: "cnt \<le> 5" using "1.prems"(6) L by simp
  have "cnt \<le> length (unread s)" using "1.prems"(2,6) by (simp add: packet_def)
  then obtain v r' where v: "ReadWait (int cnt) r = Now (v, None) r'" "deref r' v = take cnt (unread s)" "is_stream r' s"
    using ReadWait_stream [OF "1.prems"(1), of cnt] c "1.prems"(4) by auto
  have l: "length (take cnt (unread s)) = cnt" using \<open>cnt \<le> length (unread s)\<close> by simp
  have nth: "take cnt (unread s) ! (cnt - 1) = ?L ! (cnt - 2)"
  proof -
    have "take cnt (unread s) ! (cnt - 1) = unread s ! Suc (cnt - 2)" using "1.prems"(5) by (simp add: Suc_diff_Suc numeral_2_eq_2)
    also have "\<dots> = ?L ! (cnt - 2)" unfolding "1.prems"(2) using "1.prems"(5,6) by (intro packet_nth) simp
    finally show ?thesis .
  qed
  show ?case
  proof (cases "cnt = Suc (length ?L)")
    case True
    then have "?L ! (cnt - 2) = last ?L" by (simp add: last_conv_nth numeral_2_eq_2)
    then have small: "\<not> 128 \<le> take cnt (unread s) ! (cnt - 1)" using nth lb_wire_last by (simp add: not_le)
    have t: "take cnt (unread s) = b0 # ?L" using True "1.prems"(2) take_packet_header by simp
    have u: "Uvarint ?L = (word_of_nat (length body), int (length ?L))"
      using Uvarint_wire [of "length body" "[]"] "1.prems"(3) by simp
    have "sint (word_of_nat (length body) :: u64) = int (length body)"
      using "1.prems"(3) by (intro sint_small) simp
    then show ?thesis
      using v c small l u t by (subst peek_size.simps) (simp add: Let_def packet_def)
  next
    case False
    then have big: "128 \<le> take cnt (unread s) ! (cnt - 1)"
      using nth lb_wire_continued [of "cnt - 2" "length body"] "1.prems"(5,6) by simp
    have "peek_size cnt r = peek_size (cnt + 1) r'"
      using v c big l by (subst peek_size.simps) (simp add: Let_def)
    moreover have "\<exists>r''. peek_size (cnt + 1) r' = Now (drop_bit 4 b0, int (length (packet b0 body)), None) r'' \<and> is_stream r'' s"
      using c v l big "1.prems" False by (intro "1.IH") auto
    ultimately show ?thesis by simp
  qed
qed

lemma peekMessageSize_packet:
  assumes "is_stream r s" "unread s = packet b0 body @ rest" "length body < 2 ^ 28" "5 \<le> st_cap s"
  shows "\<exists>r'. peekMessageSize (Some r) = Inr (Now (drop_bit 4 b0, int (length (packet b0 body)), None) r') \<and> is_stream r' s"
proof -
  have "1 \<le> length (lb_wire (length body))" by (cases "lb_wire (length body)") auto
  then show ?thesis using peek_size_packet [OF assms, of 2] by (simp add: peekMessageSize_def)
qed

lemma peekMessage_packet:
  assumes "is_stream r s" "unread s = p @ rest" "length p \<le> st_cap s" "New mt = Inr m"
  shows "\<exists>r' ex. peekMessage New Decode mt (int (length p)) (Some r) = Inr (Now (Inr (Decode (Slice p ex) m)) r') \<and> is_stream r' s"
proof -
  have "length p \<le> length (unread s)" "take (length p) (unread s) = p" using assms(2) by simp_all
  then obtain v r' ex where "ReadWait (int (length p)) r = Now (v, None) r'" "is_stream r' s"
      "deref_slice r' v = Slice p ex"
    using ReadWait_stream [OF assms(1,3)] by auto
  then show ?thesis using assms(4) by (auto simp: peekMessage_def slen_def)
qed

lemma ReadCommit_stream:
  assumes "is_stream r s" "unread s = p @ rest" "length p \<le> st_cap s"
  shows "\<exists>r'. ReadCommit (int (length p)) r = Now (int (length p), None) r' \<and>
    is_stream r' (s\<lparr>st_taken := st_taken s + length p\<rparr>)"
  using rs.commit [OF assms(1,3)] assms(2) by (auto dest!: counted_eq)

section \<open>Writing a packet into the stream\<close>

text \<open>Bytes written in place, without a wrap, are the bytes put at the producer's position.\<close>

lemma holds_beyond:
  assumes "holds d log c" "length log + length xs \<le> c + length d" 
  shows "holds (ring_put (length log) xs d) log c"
  using holds_shorter [OF holds_put [OF assms]] assms(1) by (auto simp: holds_def)

lemma WriteCommit_now:
  assumes "ring_at log r" "quiet r" "length log + n \<le> rb_cseq r + rb_size r"
  shows "\<exists>g \<le> rb_cseq r. WriteCommit n r = Now (n, None) (r\<lparr>rb_gate := g, rb_pseq := length log + n\<rparr>)"
  using space_granted [OF assms] assms(2) by (auto simp: WriteCommit_def signal_c_def quiet_def)

lemma commit_in_place:
  assumes "ring_at log r" "quiet r" "length log + length d \<le> rb_cseq r + rb_size r"
    "length log mod rb_size r + length d \<le> rb_size r" "n \<le> length d"
  shows "\<exists>r'. WriteCommit n (store (InBuf (length log mod rb_size r) k) d r) = Now (n, None) r' \<and>
    ring_at (log @ take n d) r' \<and> quiet r' \<and> rb_cseq r' = rb_cseq r \<and> rb_size r' = rb_size r"
proof -
  note l = ring_atD [OF assms(1)]
  let ?p = "length log"
  let ?i = "?p mod rb_size r"
  let ?b1 = "ring_put ?p (take n d) (rb_buf r)"
  let ?b2 = "ring_put (?p + n) (drop n d) ?b1"
  have "copy_at ?i d (rb_buf r) = ring_put ?i d (rb_buf r)" using assms(4) l(4) by (simp add: copy_at_put)
  also have "\<dots> = ring_put ?p d (rb_buf r)" using ring_put_mod [of ?p "rb_buf r" d] l(4) by simp
  also have "\<dots> = ?b2" using ring_put_append [of ?p "take n d" "drop n d" "rb_buf r"] assms(5) by simp
  finally have b: "store (InBuf ?i k) d r = r\<lparr>rb_buf := ?b2\<rparr>" by simp
  have h1: "holds ?b1 (log @ take n d) (rb_cseq r)" using assms(3,5) l(4,7) by (intro holds_put) auto
  have h2: "holds ?b2 (log @ take n d) (rb_cseq r)"
    using holds_beyond [OF h1, of "drop n d"] assms(3,5) l(4) by simp
  then have "holds ?b2 log (rb_cseq r)" using l(2) by (rule holds_shorter)
  then have r1: "ring_at log (r\<lparr>rb_buf := ?b2\<rparr>)" using assms(1) by (auto simp: ring_at_def)
  obtain g where g: "g \<le> rb_cseq r"
      "WriteCommit n (r\<lparr>rb_buf := ?b2\<rparr>) = Now (n, None) (r\<lparr>rb_buf := ?b2, rb_gate := g, rb_pseq := ?p + n\<rparr>)"
    using WriteCommit_now [OF r1, of n] assms(2,3,5) by (auto simp: quiet_def)
  have "ring_at (log @ take n d) (r\<lparr>rb_buf := ?b2, rb_gate := g, rb_pseq := ?p + n\<rparr>)"
    using assms(1,5) h2 g(1) by (auto simp: ring_at_def)
  then show ?thesis using b g(2) assms(2) by (auto simp: quiet_def)
qed

lemma WriteWait_space:
  assumes "ring_at log r" "quiet r" "length log + l \<le> rb_cseq r + rb_size r"
  shows "\<exists>g \<le> rb_cseq r. WriteWait l r =
    Now (if length log mod rb_size r + l > rb_size r
         then (InBuf (length log mod rb_size r) (rb_size r - length log mod rb_size r), True, None)
         else (InBuf (length log mod rb_size r) l, False, None)) (r\<lparr>rb_gate := g\<rparr>)"
proof -
  have "rb_index (r\<lparr>rb_gate := g\<rparr>) n = n mod rb_size r" for g n
    using ring_at_index [OF assms(1)] by (simp add: rb_index_def)
  then show ?thesis using space_granted [OF assms] by (auto simp: WriteWait_def Let_def)
qed

text \<open>What the encoder of the message does: on room enough it emits \<open>wire\<close>, of at most \<open>l\<close> bytes.\<close>

definition encodes :: "('m \<Rightarrow> bytes \<Rightarrow> 'm \<times> bytes outcome) \<Rightarrow> 'm \<Rightarrow> nat \<Rightarrow> bytes \<Rightarrow> bool" where
  "encodes Encode m l wire \<longleftrightarrow> length wire \<le> l \<and>
     (\<forall>dst. l \<le> length dst \<longrightarrow>
        (\<exists>m'. Encode m dst = (m', Ret (wire @ drop (length wire) dst) (length wire))))"

lemma writeMessage_appends:
  assumes "is_stream r s" "Len (delInfo m) = Some (m1, l)" "encodes Encode m1 l wire"
    "length (unread s) + l \<le> st_cap s"
  shows "\<exists>m' t r'. writeMessage delInfo Len Encode m outtmp (Some r) = Inr (Now (m', t, length wire, None) r') \<and>
    is_stream r' (s\<lparr>st_log := st_log s @ wire\<rparr>)"
proof -
  note d = is_streamD [OF assms(1)] ring_atD [OF is_streamD(1) [OF assms(1)]] is_stream_unread [OF assms(1)]
  let ?i = "length (st_log s) mod rb_size r"
  have q: "quiet r" using assms(1) by blast
  have room: "length (st_log s) + l \<le> rb_cseq r + rb_size r" using assms(4) d by simp
  have wl: "length wire \<le> l" using assms(3) by (simp add: encodes_def)
  obtain g where g: "g \<le> rb_cseq r" "WriteWait l r =
      Now (if ?i + l > rb_size r then (InBuf ?i (rb_size r - ?i), True, None) else (InBuf ?i l, False, None)) (r\<lparr>rb_gate := g\<rparr>)"
    using WriteWait_space [OF d(1) q room] by blast
  let ?r = "r\<lparr>rb_gate := g\<rparr>"
  have r1: "ring_at (st_log s) ?r" "quiet ?r" using d(1) g(1) q by (auto simp: ring_at_def quiet_def)
  show ?thesis
  proof (cases "?i + l > rb_size r")
    case True
    let ?dst = "if length outtmp < l then replicate l 0 else outtmp"
    have "l \<le> length ?dst" by simp
    then obtain m' where e: "Encode m1 ?dst = (m', Ret (wire @ drop (length wire) ?dst) (length wire))"
      using assms(3) unfolding encodes_def by blast
    have a: "is_stream ?r s" using r1 d by (simp add: is_stream_def)
    obtain r' where "rb_Write wire ?r = Now (length wire, None) r'" "is_stream r' (s\<lparr>st_log := st_log s @ wire\<rparr>)"
      using rs.writes [OF a, of wire] assms(4) wl by (auto dest!: counted_eq)
    then show ?thesis using True assms(2) g(2) e by (simp add: writeMessage_def)
  next
    case False
    have dl: "length (deref ?r (InBuf ?i l)) = l" using False d by simp
    then obtain m' where e: "Encode m1 (deref ?r (InBuf ?i l)) =
        (m', Ret (wire @ drop (length wire) (deref ?r (InBuf ?i l))) (length wire))"
      using assms(3) [unfolded encodes_def, THEN conjunct2, rule_format, of "deref ?r (InBuf ?i l)"] by auto
    let ?d = "wire @ drop (length wire) (deref ?r (InBuf ?i l))"
    have ld: "length ?d = l" using dl wl by simp
    obtain r' where r': "WriteCommit (length wire) (store (InBuf ?i l) ?d ?r) = Now (length wire, None) r'"
        "ring_at (st_log s @ take (length wire) ?d) r'" "quiet r'" "rb_cseq r' = rb_cseq r" "rb_size r' = rb_size r"
      using commit_in_place [OF r1, of ?d "length wire" l] False room wl unfolding ld by auto
    then have "is_stream r' (s\<lparr>st_log := st_log s @ wire\<rparr>)" using d by (simp add: is_stream_def)
    then show ?thesis using False assms(2) g(2) e r'(1) by (simp add: writeMessage_def)
  qed
qed

section \<open>Acknowledgements over the ring\<close>

lemma ack_wire_packet:
  assumes "ack_ok m"
  shows "ack_wire m = packet (mtypeflags m ! 0) (ack_body_wire m)" "drop_bit 4 (mtypeflags m ! 0) = mtype m"
    "length (ack_body_wire m) < 2 ^ 28"
proof -
  show "ack_wire m = packet (mtypeflags m ! 0) (ack_body_wire m)"
    by (simp add: ack_wire_def packet_def header_wire_def unat_ack [OF assms] length_ack_body [OF assms])
      (simp add: ack_built_def)
  show "drop_bit 4 (mtypeflags m ! 0) = mtype m" using assms by (simp add: mtype_def alloc_flags_def ack_ok_def)
  show "length (ack_body_wire m) < 2 ^ 28" using ack_remlen_bound [OF assms] length_ack_body [OF assms] by simp
qed

lemma ack_encodes: "ack_ok m \<Longrightarrow> encodes ack_Encode (ack_built m) (length (ack_wire m)) (ack_wire m)"
  using ack_Encode_wire [of "ack_built m"] by (auto simp: encodes_def ack_built_again)

lemma ack_decodes:
  assumes "ack_ok m" "valid (reasonCode m)" "mtype m \<in> {PUBACK, PUBREC, PUBREL, PUBCOMP}"
    "reasonStr m = [] \<or> userProperty m \<noteq> []"
  shows "\<exists>d. ack_Decode valid (Slice (ack_wire m) ex) (new_ack (mtype m)) = Ret d (length (ack_wire m)) \<and>
    PacketId d = PacketId m \<and> reasonCode d = reasonCode m \<and> reasonStr d = reasonStr m \<and> userProperty d = userProperty m"
proof -
  note new = ack_ok_new [OF assms(3)]
  have zero: "ack_plen m = 0 \<Longrightarrow> reasonStr m = [] \<and> userProperty m = []"
    using up_wire_Nil_iff [of "userProperty m"] length_wire(2) [of "userProperty m"]
    by (auto simp: ack_plen_def split: if_splits)
  show ?thesis
    using ack_Decode_wire [where valid = valid and m = m and ?m0.0 = "new_ack (mtype m)" and ex = ex] assms new zero
    by (auto simp: PacketId_def ack_remlen_2)
qed

lemma ack_through:
  assumes "is_stream r s" "unread s = []" "5 \<le> st_cap s" "length (ack_wire m) \<le> st_cap s"
    "dirty m" "ack_ok m" "valid (reasonCode m)" "mtype m \<in> {PUBACK, PUBREC, PUBREL, PUBCOMP}"
    "reasonStr m = [] \<or> userProperty m \<noteq> []"
  shows "\<exists>m' t r1 r2 r3 r4 d.
    writeMessage (\<lambda>m. m) ack_Len ack_Encode m tmp (Some r) = Inr (Now (m', t, length (ack_wire m), None) r1) \<and>
    peekMessageSize (Some r1) = Inr (Now (mtype m, int (length (ack_wire m)), None) r2) \<and>
    peekMessage (\<lambda>mt. Inr (new_ack mt)) (ack_Decode valid) (mtype m) (int (length (ack_wire m))) (Some r2) =
      Inr (Now (Inr (Ret d (length (ack_wire m)))) r3) \<and>
    PacketId d = PacketId m \<and> reasonCode d = reasonCode m \<and> reasonStr d = reasonStr m \<and> userProperty d = userProperty m \<and>
    ReadCommit (int (length (ack_wire m))) r3 = Now (int (length (ack_wire m)), None) r4 \<and> rb_Len r4 = 0"
proof -
  let ?w = "ack_wire m"
  let ?s = "s\<lparr>st_log := st_log s @ ?w\<rparr>"
  obtain m' t r1 where w: "writeMessage (\<lambda>m. m) ack_Len ack_Encode m tmp (Some r) = Inr (Now (m', t, length ?w, None) r1)"
      "is_stream r1 ?s"
    using writeMessage_appends [OF assms(1) _ ack_encodes [OF assms(6)], of ack_Len "\<lambda>m. m" m tmp]
      ack_Len_wire [OF assms(5,6)] assms(2,4) by auto
  have "st_taken s = length (st_log s)"
    using assms(1,2) ring_atD(2) [OF is_streamD(1) [OF assms(1)]] is_streamD(5) [OF assms(1)] by simp
  then have u: "unread ?s = ?w @ []" by simp
  have up: "unread ?s = packet (mtypeflags m ! 0) (ack_body_wire m) @ []"
    by (rule trans [OF u]) (simp add: ack_wire_packet(1) [OF assms(6)])
  obtain r2 where r2: "peekMessageSize (Some r1) = Inr (Now (mtype m, int (length ?w), None) r2)" "is_stream r2 ?s"
    using peekMessageSize_packet [OF w(2) up] ack_wire_packet [OF assms(6)] assms(3)
    by auto
  obtain r3 ex where r3: "peekMessage (\<lambda>mt. Inr (new_ack mt)) (ack_Decode valid) (mtype m) (int (length ?w)) (Some r2) =
      Inr (Now (Inr (ack_Decode valid (Slice ?w ex) (new_ack (mtype m)))) r3)" "is_stream r3 ?s"
    using peekMessage_packet [OF r2(2) u, of "\<lambda>mt. Inr (new_ack mt)" "mtype m" "new_ack (mtype m)" "ack_Decode valid"] assms(4)
    by auto
  obtain d where d: "ack_Decode valid (Slice ?w ex) (new_ack (mtype m)) = Ret d (length ?w)"
      "PacketId d = PacketId m" "reasonCode d = reasonCode m" "reasonStr d = reasonStr m" "userProperty d = userProperty m"
    using ack_decodes [where valid = valid, OF assms(6-9)] by blast
  obtain r4 where r4: "ReadCommit (int (length ?w)) r3 = Now (int (length ?w), None) r4"
      "is_stream r4 (?s\<lparr>st_taken := st_taken ?s + length ?w\<rparr>)"
    using ReadCommit_stream [OF r3(2) u] assms(4) by auto
  have "rb_Len r4 = 0"
    using is_stream_unread(1) [OF r4(2)] \<open>st_taken s = length (st_log s)\<close> by simp
  then show ?thesis using w(1) r2(1) r3(1) d r4(1) by simp
qed

section \<open>Properties\<close>

text \<open>C30: An acknowledgement that can be sent, whose reason code the decoder accepts and which does not end with a
  reason string (it has none, or user properties follow it: otherwise the decoder panics, see \<open>ack_roundtrip\<close>), written
  with \<open>writeMessage\<close> into an open ring that is empty and large enough, wrapped around its end or not, is found by
  \<open>peekMessageSize\<close>, read and decoded by \<open>peekMessage\<close> to the fields it was written from, and consumed by
  \<open>ReadCommit\<close>.\<close>

theorem ack_through_ring:
  assumes "is_stream r s" "unread s = []" "5 \<le> st_cap s" "length (ack_wire m) \<le> st_cap s"
    "dirty m" "ack_ok m" "valid (reasonCode m)" "mtype m \<in> {PUBACK, PUBREC, PUBREL, PUBCOMP}"
    "reasonStr m = [] \<or> userProperty m \<noteq> []"
  shows "\<exists>m' t r1 r2 r3 r4 d.
    writeMessage (\<lambda>m. m) ack_Len ack_Encode m tmp (Some r) = Inr (Now (m', t, length (ack_wire m), None) r1) \<and>
    peekMessageSize (Some r1) = Inr (Now (mtype m, int (length (ack_wire m)), None) r2) \<and>
    peekMessage (\<lambda>mt. Inr (new_ack mt)) (ack_Decode valid) (mtype m) (int (length (ack_wire m))) (Some r2) =
      Inr (Now (Inr (Ret d (length (ack_wire m)))) r3) \<and>
    PacketId d = PacketId m \<and> reasonCode d = reasonCode m \<and> reasonStr d = reasonStr m \<and> userProperty d = userProperty m \<and>
    ReadCommit (int (length (ack_wire m))) r3 = Now (int (length (ack_wire m)), None) r4 \<and> rb_Len r4 = 0"
  using assms by (rule ack_through)

lemma new_ring: "\<exists>r. newBuffer 4096 = Inr r"
  by (simp add: newBuffer_def powerOfTwo64_def defaultReadBlockSize_def)

theorem ack_through_ring_witness:
  "\<exists>r m' t r1 r2 r3 r4 d. newBuffer 4096 = Inr r \<and>
    writeMessage (\<lambda>m. m) ack_Len ack_Encode demo_ack [] (Some r) = Inr (Now (m', t, length (ack_wire demo_ack), None) r1) \<and>
    peekMessageSize (Some r1) = Inr (Now (mtype demo_ack, int (length (ack_wire demo_ack)), None) r2) \<and>
    peekMessage (\<lambda>mt. Inr (new_ack mt)) (ack_Decode ValidPubAckReasonCode) (mtype demo_ack)
        (int (length (ack_wire demo_ack))) (Some r2) =
      Inr (Now (Inr (Ret d (length (ack_wire demo_ack)))) r3) \<and>
    PacketId d = PacketId demo_ack \<and> reasonCode d = reasonCode demo_ack \<and> reasonStr d = reasonStr demo_ack \<and>
    userProperty d = userProperty demo_ack \<and>
    ReadCommit (int (length (ack_wire demo_ack))) r3 = Now (int (length (ack_wire demo_ack)), None) r4 \<and> rb_Len r4 = 0"
proof -
  obtain r where r: "newBuffer 4096 = Inr r" using new_ring by blast
  have a: "is_stream r \<lparr>st_log = [], st_taken = 0, st_cap = 4096\<rparr>"
    using newBuffer_ring_at [OF r] by (simp add: is_stream_def)
  have v: "ValidPubAckReasonCode (reasonCode demo_ack)" by code_simp
  have t: "mtype demo_ack \<in> {PUBACK, PUBREC, PUBREL, PUBCOMP}" by code_simp
  have u: "userProperty demo_ack \<noteq> []" by (simp add: demo_ack_eq)
  show ?thesis
    using ack_through_ring [where valid = ValidPubAckReasonCode, OF a _ _ _ demo_ack_ok(2,1) v t, of "[]"] demo_ack_ok(3) u r by simp
qed

text \<open>
  A packet that fits the ring but leaves less than a read block: when all but its end has arrived,
  the receiver waits for the space of a whole block and the processor waits for the rest of the
  packet, so neither goes on.
\<close>

lemma large_packet_stuck:
  assumes "is_stream r s" "length (unread s) < tot" "tot \<le> st_cap s"
    "st_cap s < length (unread s) + defaultReadBlockSize"
  shows "(\<exists>r1. waitForWriteSpace defaultReadBlockSize r = Wait r1 \<and> is_stream r1 s) \<and>
    (\<exists>r2. peekMessage New Decode mt (int tot) (Some r) = Inr (Wait r2) \<and> is_stream r2 s)"
proof
  show "\<exists>r1. waitForWriteSpace defaultReadBlockSize r = Wait r1 \<and> is_stream r1 s"
    using space_refused [OF is_streamD(1) [OF assms(1)] is_stream_quiet [OF assms(1)], of defaultReadBlockSize]
      assms(1,4) is_streamD(5,6) [OF assms(1)] ring_atD(2) [OF is_streamD(1) [OF assms(1)]]
    by (auto simp: is_stream_notes)
  show "\<exists>r2. peekMessage New Decode mt (int tot) (Some r) = Inr (Wait r2) \<and> is_stream r2 s"
    using ReadWait_stream_short [OF assms(1,3,2)] by (auto simp: peekMessage_def)
qed

end
