(* ===== verification/Connect.thy ===== *)
theory Connect
  imports Frame
begin

text \<open>
  CONNECT (\<open>corev5/v2/message/connect.go\<close>): the message with its flag byte, its setters, \<open>build\<close>, both
  encoders and the decoder. The regular expression of \<open>validClientId\<close> is the test of every byte.
\<close>

section \<open>State\<close>

record connect = header +
  connectFlags :: byte
  version :: byte
  keepAlive :: u16
  protoName :: bytes
  clientId :: bytes
  willTopic :: bytes
  willMessage :: bytes
  username :: bytes
  password :: bytes
  propertiesLen :: u32
  sessionExpiryInterval :: u32
  receiveMaximum :: u16
  maxPacketSize :: u32
  topicAliasMax :: u16
  requestRespInfo :: byte
  requestProblemInfo :: byte
  userProperty :: "bytes list"
  authMethod :: bytes
  authData :: bytes
  willPropertiesLen :: u32
  willDelayInterval :: u32
  payloadFormatIndicator :: byte
  willMsgExpiryInterval :: u32
  contentType :: bytes
  willUserProperty :: "bytes list"
  responseTopic :: bytes
  correlationData :: bytes

definition CONNECT :: byte where "CONNECT = 1"

definition SessionExpirationInterval :: byte where "SessionExpirationInterval = 0x11"
definition AuthenticationMethod :: byte where "AuthenticationMethod = 0x15"
definition AuthenticationData :: byte where "AuthenticationData = 0x16"
definition RequestProblemInformation :: byte where "RequestProblemInformation = 0x17"
definition DelayWills :: byte where "DelayWills = 0x18"
definition RequestResponseInformation :: byte where "RequestResponseInformation = 0x19"
definition MaximumQuantityReceived :: byte where "MaximumQuantityReceived = 0x21"
definition MaximumLengthOfTopicAlias :: byte where "MaximumLengthOfTopicAlias = 0x22"
definition MaximumMessageLength :: byte where "MaximumMessageLength = 0x27"
definition UnSupportedProtocolVersion :: byte where "UnSupportedProtocolVersion = 0x84"
definition CustomerIdentifierInvalid :: byte where "CustomerIdentifierInvalid = 0x85"

definition InvalidTopicName :: byte where "InvalidTopicName = 0x90"

text \<open>The one version the map holds, with its name \<open>MQTT\<close>.\<close>

definition SupportedVersions :: "byte \<Rightarrow> bytes option" where
  "SupportedVersions v = (if v = 5 then Some [77, 81, 84, 84] else None)"

definition ValidVersion :: "byte \<Rightarrow> bool" where "ValidVersion v \<longleftrightarrow> SupportedVersions v \<noteq> None"

definition defaultCId :: bytes where "defaultCId = [35]"

text \<open>\<open>^[/\-0-9a-zA-Z _]*$\<close>\<close>

definition cid_byte :: "byte \<Rightarrow> bool" where
  "cid_byte c \<longleftrightarrow> c = 47 \<or> c = 45 \<or> 48 \<le> c \<and> c \<le> 57 \<or> 97 \<le> c \<and> c \<le> 122 \<or> 65 \<le> c \<and> c \<le> 90 \<or> c = 32 \<or> c = 95"

definition validClientId :: "bytes \<Rightarrow> bool" where "validClientId cid \<longleftrightarrow> list_all cid_byte cid"

section \<open>Flags and setters\<close>

definition CleanSession :: "connect \<Rightarrow> bool" where "CleanSession m \<longleftrightarrow> drop_bit 1 (connectFlags m) AND 0x1 = 1"
definition CleanStart :: "connect \<Rightarrow> bool" where "CleanStart m \<longleftrightarrow> drop_bit 1 (connectFlags m) AND 0x1 = 1"
definition WillFlag :: "connect \<Rightarrow> bool" where "WillFlag m \<longleftrightarrow> drop_bit 2 (connectFlags m) AND 0x1 = 1"
definition WillQos :: "connect \<Rightarrow> byte" where "WillQos m = drop_bit 3 (connectFlags m) AND 0x3"
definition WillRetain :: "connect \<Rightarrow> bool" where "WillRetain m \<longleftrightarrow> drop_bit 5 (connectFlags m) AND 0x1 = 1"
definition PasswordFlag :: "connect \<Rightarrow> bool" where "PasswordFlag m \<longleftrightarrow> drop_bit 6 (connectFlags m) AND 0x1 = 1"
definition UsernameFlag :: "connect \<Rightarrow> bool" where "UsernameFlag m \<longleftrightarrow> drop_bit 7 (connectFlags m) AND 0x1 = 1"

definition SetCleanSession :: "bool \<Rightarrow> connect \<Rightarrow> connect" where
  "SetCleanSession v m = m\<lparr>connectFlags := (if v then connectFlags m OR 2 else connectFlags m AND 253), dirty := True\<rparr>"

definition SetWillFlag :: "bool \<Rightarrow> connect \<Rightarrow> connect" where
  "SetWillFlag v m = m\<lparr>connectFlags := (if v then connectFlags m OR 4 else connectFlags m AND 251), dirty := True\<rparr>"

definition SetWillRetain :: "bool \<Rightarrow> connect \<Rightarrow> connect" where
  "SetWillRetain v m = m\<lparr>connectFlags := (if v then connectFlags m OR 32 else connectFlags m AND 223), dirty := True\<rparr>"

definition SetUsernameFlag :: "bool \<Rightarrow> connect \<Rightarrow> connect" where
  "SetUsernameFlag v m = m\<lparr>connectFlags := (if v then connectFlags m OR 128 else connectFlags m AND 127), dirty := True\<rparr>"

definition SetPasswordFlag :: "bool \<Rightarrow> connect \<Rightarrow> connect" where
  "SetPasswordFlag v m = m\<lparr>connectFlags := (if v then connectFlags m OR 64 else connectFlags m AND 191), dirty := True\<rparr>"

definition SetWillQos :: "byte \<Rightarrow> connect \<Rightarrow> connect \<times> goerr option" where
  "SetWillQos qos m =
     (if qos \<noteq> QosAtMostOnce \<and> qos \<noteq> QosAtLeastOnce \<and> qos \<noteq> QosExactlyOnce
      then (m, Some (Errorf ''connect/SetWillQos: Invalid QoS level''))
      else (m\<lparr>connectFlags := (connectFlags m AND 231) OR push_bit 3 qos, dirty := True\<rparr>, None))"

definition SetVersion :: "byte \<Rightarrow> connect \<Rightarrow> connect \<times> goerr option" where
  "SetVersion v m =
     (case SupportedVersions v of
        None \<Rightarrow> (m, Some (Errorf ''connect/SetVersion: Invalid version number''))
      | Some pn \<Rightarrow> (m\<lparr>protoName := pn, version := v, dirty := True\<rparr>, None))"

definition SetClientId :: "bytes \<Rightarrow> connect \<Rightarrow> connect \<times> goerr option" where
  "SetClientId v m =
     (if length v > 0 \<and> \<not> validClientId v then (m, Some (Reason InvalidTopicName))
      else (m\<lparr>clientId := v, dirty := True\<rparr>, None))"

definition SetWillTopic :: "bytes \<Rightarrow> connect \<Rightarrow> connect" where
  "SetWillTopic v m =
     (let m1 = m\<lparr>willTopic := v\<rparr>;
          m2 = (if length v > 0 then SetWillFlag True m1
                else if length (willMessage m1) = 0 then SetWillFlag False m1 else m1)
      in m2\<lparr>dirty := True\<rparr>)"

definition SetWillMessage :: "bytes \<Rightarrow> connect \<Rightarrow> connect" where
  "SetWillMessage v m =
     (let m1 = m\<lparr>willMessage := v\<rparr>;
          m2 = (if length v > 0 then SetWillFlag True m1
                else if length (willTopic m1) = 0 then SetWillFlag False m1
                else if length v = 0 then SetWillFlag False m1 else m1)
      in m2\<lparr>dirty := True\<rparr>)"

definition SetUsername :: "bytes \<Rightarrow> connect \<Rightarrow> connect" where
  "SetUsername v m = (SetUsernameFlag (length v > 0) (m\<lparr>username := v\<rparr>))\<lparr>dirty := True\<rparr>"

definition SetPassword :: "bytes \<Rightarrow> connect \<Rightarrow> connect" where
  "SetPassword v m = (SetPasswordFlag (length v > 0) (m\<lparr>password := v\<rparr>))\<lparr>dirty := True\<rparr>"

definition SetPropertiesLen :: "u32 \<Rightarrow> connect \<Rightarrow> connect" where "SetPropertiesLen v m = m\<lparr>propertiesLen := v, dirty := True\<rparr>"
definition SetSessionExpiryInterval :: "u32 \<Rightarrow> connect \<Rightarrow> connect" where "SetSessionExpiryInterval v m = m\<lparr>sessionExpiryInterval := v, dirty := True\<rparr>"
definition SetReceiveMaximum :: "u16 \<Rightarrow> connect \<Rightarrow> connect" where "SetReceiveMaximum v m = m\<lparr>receiveMaximum := v, dirty := True\<rparr>"
definition SetMaxPacketSize :: "u32 \<Rightarrow> connect \<Rightarrow> connect" where "SetMaxPacketSize v m = m\<lparr>maxPacketSize := v, dirty := True\<rparr>"
definition SetTopicAliasMax :: "u16 \<Rightarrow> connect \<Rightarrow> connect" where "SetTopicAliasMax v m = m\<lparr>topicAliasMax := v, dirty := True\<rparr>"
definition SetRequestRespInfo :: "byte \<Rightarrow> connect \<Rightarrow> connect" where "SetRequestRespInfo v m = m\<lparr>requestRespInfo := v, dirty := True\<rparr>"
definition SetRequestProblemInfo :: "byte \<Rightarrow> connect \<Rightarrow> connect" where "SetRequestProblemInfo v m = m\<lparr>requestProblemInfo := v, dirty := True\<rparr>"
definition SetAuthMethod :: "bytes \<Rightarrow> connect \<Rightarrow> connect" where "SetAuthMethod v m = m\<lparr>authMethod := v, dirty := True\<rparr>"
definition SetAuthData :: "bytes \<Rightarrow> connect \<Rightarrow> connect" where "SetAuthData v m = m\<lparr>authData := v, dirty := True\<rparr>"
definition SetWillPropertiesLen :: "u32 \<Rightarrow> connect \<Rightarrow> connect" where "SetWillPropertiesLen v m = m\<lparr>willPropertiesLen := v, dirty := True\<rparr>"
definition SetWillDelayInterval :: "u32 \<Rightarrow> connect \<Rightarrow> connect" where "SetWillDelayInterval v m = m\<lparr>willDelayInterval := v, dirty := True\<rparr>"
definition SetPayloadFormatIndicator :: "byte \<Rightarrow> connect \<Rightarrow> connect" where "SetPayloadFormatIndicator v m = m\<lparr>payloadFormatIndicator := v, dirty := True\<rparr>"
definition SetWillMsgExpiryInterval :: "u32 \<Rightarrow> connect \<Rightarrow> connect" where "SetWillMsgExpiryInterval v m = m\<lparr>willMsgExpiryInterval := v, dirty := True\<rparr>"
definition SetContentType :: "bytes \<Rightarrow> connect \<Rightarrow> connect" where "SetContentType v m = m\<lparr>contentType := v, dirty := True\<rparr>"
definition SetResponseTopic :: "bytes \<Rightarrow> connect \<Rightarrow> connect" where "SetResponseTopic v m = m\<lparr>responseTopic := v, dirty := True\<rparr>"
definition SetCorrelationData :: "bytes \<Rightarrow> connect \<Rightarrow> connect" where "SetCorrelationData v m = m\<lparr>correlationData := v, dirty := True\<rparr>"
definition SetKeepAlive :: "u16 \<Rightarrow> connect \<Rightarrow> connect" where "SetKeepAlive v m = m\<lparr>keepAlive := v, dirty := True\<rparr>"

definition AddUserPropertys :: "bytes list \<Rightarrow> connect \<Rightarrow> connect" where
  "AddUserPropertys ups m = m\<lparr>userProperty := userProperty m @ ups, dirty := True\<rparr>"

definition AddUserProperty :: "bytes \<Rightarrow> connect \<Rightarrow> connect" where
  "AddUserProperty up m = m\<lparr>userProperty := userProperty m @ [up], dirty := True\<rparr>"

definition AddWillUserPropertys :: "bytes list \<Rightarrow> connect \<Rightarrow> connect" where
  "AddWillUserPropertys ups m = m\<lparr>willUserProperty := willUserProperty m @ ups, dirty := True\<rparr>"

definition AddWillUserProperty :: "bytes \<Rightarrow> connect \<Rightarrow> connect" where
  "AddWillUserProperty up m = m\<lparr>willUserProperty := willUserProperty m @ [up], dirty := True\<rparr>"

definition NewConnectMessage :: connect where
  "NewConnectMessage =
     SetMaxPacketSize 1024 (SetRequestProblemInfo 1
       (fst (SetType CONNECT \<lparr>remlen = 0, mtypeflags = [], packetId = [], dbuf = Slice [] [], dirty = False,
         connectFlags = 0, version = 0, keepAlive = 0, protoName = [], clientId = [], willTopic = [],
         willMessage = [], username = [], password = [], propertiesLen = 0, sessionExpiryInterval = 0,
         receiveMaximum = 0, maxPacketSize = 0, topicAliasMax = 0, requestRespInfo = 0,
         requestProblemInfo = 0, userProperty = [], authMethod = [], authData = [],
         willPropertiesLen = 0, willDelayInterval = 0, payloadFormatIndicator = 0,
         willMsgExpiryInterval = 0, contentType = [], willUserProperty = [], responseTopic = [],
         correlationData = []\<rparr>)))"

section \<open>Encoding\<close>

text \<open>
  \<open>build\<close> counts the will's user properties into the length of the packet, but into neither of the two
  property lengths; it counts the will's topic and payload only where they are not empty, and a
  user name and a password wherever their flag is set.
\<close>

definition lp_len :: "bytes \<Rightarrow> nat" where "lp_len b = (if length b > 0 then 1 + 2 + length b else 0)"

definition conn_plen :: "connect \<Rightarrow> nat" where
  "conn_plen m =
     (if sessionExpiryInterval m > 0 then 5 else 0) +
     (if receiveMaximum m > 0 \<and> receiveMaximum m < 65535 then 3 else 0) +
     (if maxPacketSize m > 0 then 5 else 0) +
     (if topicAliasMax m > 0 then 3 else 0) +
     (if requestRespInfo m \<noteq> 0 then 2 else 0) +
     (if requestProblemInfo m \<noteq> 1 then 2 else 0) +
     buildUserPropertyLen (userProperty m) + lp_len (authMethod m) + lp_len (authData m)"

definition conn_wplen :: "connect \<Rightarrow> nat" where
  "conn_wplen m =
     (if willDelayInterval m > 0 then 5 else 0) +
     (if payloadFormatIndicator m = 1 then 2 else 0) +
     (if willMsgExpiryInterval m > 0 then 5 else 0) +
     lp_len (contentType m) + lp_len (responseTopic m) + lp_len (correlationData m)"

definition conn_fixlen :: "connect \<Rightarrow> nat" where
  "conn_fixlen m =
     1 + 1 + 2 + 2 + length (protoName m) + 2 + length (clientId m) +
     (if WillFlag m \<and> length (willTopic m) > 0 then 2 + length (willTopic m) else 0) +
     (if WillFlag m \<and> length (willMessage m) > 0 then 2 + length (willMessage m) else 0) +
     (if UsernameFlag m then 2 + length (username m) else 0) +
     (if PasswordFlag m then 2 + length (password m) else 0)"

definition conn_build :: "connect \<Rightarrow> connect option" where
  "conn_build m =
     (let m1 = m\<lparr>propertiesLen := word_of_nat (conn_plen m)\<rparr>;
          pl = conn_plen m + buildUserPropertyLen (willUserProperty m);
          m2 = m1\<lparr>willPropertiesLen := word_of_nat (conn_wplen m)\<rparr>
      in case lbEncode (propertiesLen m2) of
           None \<Rightarrow> None
         | Some b \<Rightarrow>
             (let rl = word_of_nat (conn_fixlen m + pl + length b) :: u32 in
              if WillFlag m then
                (case lbEncode (willPropertiesLen m2) of
                   None \<Rightarrow> None
                 | Some wb \<Rightarrow> Some (fst (SetRemainingLength (rl + word_of_nat (conn_wplen m + length wb)) m2)))
              else Some (fst (SetRemainingLength rl m2))))"

definition conn_Len :: "connect \<Rightarrow> (connect \<times> nat) option" where "conn_Len = plain_Len conn_build"

definition proto_name :: "connect \<Rightarrow> bytes" where
  "proto_name m = (case SupportedVersions (version m) of None \<Rightarrow> [] | Some pn \<Rightarrow> pn)"

definition conn_w_props :: "connect \<Rightarrow> bytes \<Rightarrow> nat \<Rightarrow> bytes outcome" where
  "conn_w_props m =
     run [writeLPBytes (proto_name m),
          w_bytes [version m],
          w_bytes [connectFlags m],
          w_bytes (u16_bytes (keepAlive m)),
          w_lb (propertiesLen m),
          guarded (sessionExpiryInterval m > 0) (run [w_bytes [SessionExpirationInterval], w_bytes (u32_bytes (sessionExpiryInterval m))]),
          guarded (receiveMaximum m > 0 \<and> receiveMaximum m < 65535) (run [w_bytes [MaximumQuantityReceived], w_bytes (u16_bytes (receiveMaximum m))]),
          w_bytes [MaximumMessageLength],
          w_bytes (u32_bytes (maxPacketSize m)),
          guarded (topicAliasMax m > 0) (run [w_bytes [MaximumLengthOfTopicAlias], w_bytes (u16_bytes (topicAliasMax m))]),
          guarded (requestRespInfo m \<noteq> 0) (run [w_bytes [RequestResponseInformation], w_bytes [requestRespInfo m]]),
          guarded (requestProblemInfo m \<noteq> 1) (run [w_bytes [RequestProblemInformation], w_bytes [requestProblemInfo m]]),
          ignore_err (writeUserProperty (userProperty m)),
          guarded (length (authMethod m) > 0) (run [w_bytes [AuthenticationMethod], writeLPBytes (authMethod m)]),
          guarded (length (authData m) > 0) (run [w_bytes [AuthenticationData], writeLPBytes (authData m)])]"

definition conn_w_will :: "connect \<Rightarrow> bytes \<Rightarrow> nat \<Rightarrow> bytes outcome" where
  "conn_w_will m =
     run [w_lb (willPropertiesLen m),
          guarded (willDelayInterval m > 0) (run [w_bytes [DelayWills], w_bytes (u32_bytes (willDelayInterval m))]),
          guarded (payloadFormatIndicator m > 0) (run [w_bytes [LoadFormatDescription], w_bytes [payloadFormatIndicator m]]),
          guarded (willMsgExpiryInterval m > 0) (run [w_bytes [MessageExpirationTime], w_bytes (u32_bytes (willMsgExpiryInterval m))]),
          guarded (length (contentType m) > 0) (run [w_bytes [ContentType], writeLPBytes (contentType m)]),
          guarded (length (responseTopic m) > 0) (run [w_bytes [ResponseTopic], writeLPBytes (responseTopic m)]),
          guarded (length (correlationData m) > 0) (run [w_bytes [RelatedData], writeLPBytes (correlationData m)]),
          ignore_err (writeUserProperty (willUserProperty m)),
          writeLPBytes (willTopic m),
          writeLPBytes (willMessage m)]"

definition conn_w_payload :: "connect \<Rightarrow> bytes \<Rightarrow> nat \<Rightarrow> bytes outcome" where
  "conn_w_payload m =
     run [writeLPBytes (clientId m),
          guarded (WillFlag m) (conn_w_will m),
          guarded (UsernameFlag m \<and> length (username m) > 0) (writeLPBytes (username m)),
          guarded (PasswordFlag m \<and> length (password m) > 0) (writeLPBytes (password m))]"

definition encodeMessage :: "connect \<Rightarrow> bytes \<Rightarrow> nat \<Rightarrow> bytes outcome" where
  "encodeMessage m = run [conn_w_props m, conn_w_payload m]"

definition conn_b_props :: "connect \<Rightarrow> bytes \<Rightarrow> nat \<Rightarrow> bytes outcome" where
  "conn_b_props m =
     run [writeToBufLPBytes (proto_name m),
          b_bytes [version m],
          b_bytes [connectFlags m],
          b_bytes (u16_bytes (keepAlive m)),
          b_lb (propertiesLen m),
          guarded (sessionExpiryInterval m > 0) (run [b_bytes [SessionExpirationInterval], b_bytes (u32_bytes (sessionExpiryInterval m))]),
          guarded (receiveMaximum m > 0 \<and> receiveMaximum m < 65535) (run [b_bytes [MaximumQuantityReceived], b_bytes (u16_bytes (receiveMaximum m))]),
          b_bytes [MaximumMessageLength],
          b_bytes (u32_bytes (maxPacketSize m)),
          guarded (topicAliasMax m > 0) (run [b_bytes [MaximumLengthOfTopicAlias], b_bytes (u16_bytes (topicAliasMax m))]),
          guarded (requestRespInfo m \<noteq> 0) (run [b_bytes [RequestResponseInformation], b_bytes [requestRespInfo m]]),
          guarded (requestProblemInfo m \<noteq> 1) (run [b_bytes [RequestProblemInformation], b_bytes [requestProblemInfo m]]),
          writeUserPropertyByBuf (userProperty m),
          guarded (length (authMethod m) > 0) (run [b_bytes [AuthenticationMethod], writeToBufLPBytes (authMethod m)]),
          guarded (length (authData m) > 0) (run [b_bytes [AuthenticationData], writeToBufLPBytes (authData m)])]"

definition conn_b_will :: "connect \<Rightarrow> bytes \<Rightarrow> nat \<Rightarrow> bytes outcome" where
  "conn_b_will m =
     run [b_lb (willPropertiesLen m),
          guarded (willDelayInterval m > 0) (run [b_bytes [DelayWills], b_bytes (u32_bytes (willDelayInterval m))]),
          guarded (payloadFormatIndicator m > 0) (run [b_bytes [LoadFormatDescription], b_bytes [payloadFormatIndicator m]]),
          guarded (willMsgExpiryInterval m > 0) (run [b_bytes [MessageExpirationTime], b_bytes (u32_bytes (willMsgExpiryInterval m))]),
          guarded (length (contentType m) > 0) (run [b_bytes [ContentType], writeToBufLPBytes (contentType m)]),
          guarded (length (responseTopic m) > 0) (run [b_bytes [ResponseTopic], writeToBufLPBytes (responseTopic m)]),
          guarded (length (correlationData m) > 0) (run [b_bytes [RelatedData], writeToBufLPBytes (correlationData m)]),
          writeUserPropertyByBuf (willUserProperty m),
          writeToBufLPBytes (willTopic m),
          writeToBufLPBytes (willMessage m)]"

definition conn_b_payload :: "connect \<Rightarrow> bytes \<Rightarrow> nat \<Rightarrow> bytes outcome" where
  "conn_b_payload m =
     run [writeToBufLPBytes (clientId m),
          guarded (WillFlag m) (conn_b_will m),
          guarded (UsernameFlag m \<and> length (username m) > 0) (writeToBufLPBytes (username m)),
          guarded (PasswordFlag m \<and> length (password m) > 0) (writeToBufLPBytes (password m))]"

definition encodeMessageToBuf :: "connect \<Rightarrow> bytes \<Rightarrow> nat \<Rightarrow> bytes outcome" where
  "encodeMessageToBuf m = run [conn_b_props m, conn_b_payload m]"

text \<open>The tests both encoders of a dirty message make first.\<close>

definition conn_refused :: "connect \<Rightarrow> goerr option" where
  "conn_refused m =
     (if \<not> dirty m then None
      else if mtype m \<noteq> CONNECT then Some (Errorf ''connect/Encode: Invalid message type'')
      else if SupportedVersions (version m) = None then Some (Reason UnSupportedProtocolVersion)
      else None)"

definition conn_Encode :: "connect \<Rightarrow> bytes \<Rightarrow> connect \<times> bytes outcome" where
  "conn_Encode m dst =
     (case conn_refused m of
        Some e \<Rightarrow> (alloc_flags m, Fail dst 0 e)
      | None \<Rightarrow> plain_Encode ''connect/Encode: Insufficient buffer size.'' ''connect/Encode: Insufficient buffer size.''
                  conn_build encodeMessage m dst)"

definition conn_EncodeToBuf :: "connect \<Rightarrow> bytes \<Rightarrow> connect \<times> bytes outcome" where
  "conn_EncodeToBuf m buf =
     (case conn_refused m of
        Some e \<Rightarrow> (alloc_flags m, Fail buf 0 e)
      | None \<Rightarrow> plain_EncodeToBuf conn_build encodeMessageToBuf m buf)"

section \<open>Decoding\<close>

text \<open>The fixed part of the variable header.\<close>

definition cn_start :: "slice \<Rightarrow> connect \<Rightarrow> nat \<Rightarrow> connect outcome" where
  "cn_start src =
     run [\<lambda>m t. assign (read_lp src t) (\<lambda>v. protoName_update (\<lambda>_. v)) m t,
          \<lambda>m t. assign (rd_u8 src t) (\<lambda>v. version_update (\<lambda>_. v)) m t,
          stop UnSupportedProtocolVersion (\<lambda>src m t. SupportedVersions (version m) = None) src,
          stop ProtocolError (\<lambda>src m t. SupportedVersions (version m) \<noteq> Some (protoName m)) src,
          \<lambda>m t. assign (rd_u8 src t) (\<lambda>v. connectFlags_update (\<lambda>_. v)) m t,
          stop InvalidMessage (\<lambda>src m t. connectFlags m AND 0x1 \<noteq> 0) src,
          stop InvalidMessage (\<lambda>src m t. WillQos m > QosExactlyOnce) src,
          stop InvalidMessage (\<lambda>src m t. \<not> WillFlag m \<and> (WillRetain m \<or> WillQos m \<noteq> QosAtMostOnce)) src,
          stop InvalidMessage (\<lambda>src m t. UsernameFlag m \<and> \<not> PasswordFlag m) src,
          \<lambda>m t. if slen src - t < 2 then Fail m 0 (Reason InvalidMessage) else Ret m t,
          \<lambda>m t. assign (rd_u16 src t) (\<lambda>v. keepAlive_update (\<lambda>_. v)) m t,
          or_reason InvalidMessage (\<lambda>m t. assign (read_lb src t) (\<lambda>v. propertiesLen_update (\<lambda>_. v)) m t),
          stop InvalidMessage (\<lambda>src m t. slen src - t < unat (propertiesLen m)) src]"

text \<open>The properties.\<close>

definition cn_sessionExpiryInterval :: "slice \<Rightarrow> connect \<Rightarrow> nat \<Rightarrow> connect outcome" where
  "cn_sessionExpiryInterval src =
     prop_at src SessionExpirationInterval
       (run [\<lambda>m t. assign (rd_u32 src t) (\<lambda>v. sessionExpiryInterval_update (\<lambda>_. v)) m t,
             stop ProtocolError (again SessionExpirationInterval) src])"

definition cn_receiveMaximum :: "slice \<Rightarrow> connect \<Rightarrow> nat \<Rightarrow> connect outcome" where
  "cn_receiveMaximum src =
     prop_or src MaximumQuantityReceived
       (run [\<lambda>m t. assign (rd_u16 src t) (\<lambda>v. receiveMaximum_update (\<lambda>_. v)) m t,
             stop ProtocolError (\<lambda>src m t. receiveMaximum m = 0 \<or> again MaximumQuantityReceived src m t) src])
       (\<lambda>m. m\<lparr>receiveMaximum := 65535\<rparr>)"

definition cn_maxPacketSize :: "slice \<Rightarrow> connect \<Rightarrow> nat \<Rightarrow> connect outcome" where
  "cn_maxPacketSize src =
     prop_at src MaximumMessageLength
       (run [\<lambda>m t. assign (rd_u32 src t) (\<lambda>v. maxPacketSize_update (\<lambda>_. v)) m t,
             stop ProtocolError (\<lambda>src m t. maxPacketSize m = 0 \<or> again MaximumMessageLength src m t) src])"

definition cn_topicAliasMax :: "slice \<Rightarrow> connect \<Rightarrow> nat \<Rightarrow> connect outcome" where
  "cn_topicAliasMax src =
     prop_at src MaximumLengthOfTopicAlias
       (run [\<lambda>m t. assign (rd_u16 src t) (\<lambda>v. topicAliasMax_update (\<lambda>_. v)) m t,
             stop ProtocolError (again MaximumLengthOfTopicAlias) src])"

definition cn_requestRespInfo :: "slice \<Rightarrow> connect \<Rightarrow> nat \<Rightarrow> connect outcome" where
  "cn_requestRespInfo src =
     prop_at src RequestResponseInformation
       (run [\<lambda>m t. assign (rd_u8 src t) (\<lambda>v. requestRespInfo_update (\<lambda>_. v)) m t,
             stop ProtocolError (\<lambda>src m t. requestRespInfo m \<noteq> 0 \<and> requestRespInfo m \<noteq> 1 \<or> again RequestResponseInformation src m t) src])"

definition cn_requestProblemInfo :: "slice \<Rightarrow> connect \<Rightarrow> nat \<Rightarrow> connect outcome" where
  "cn_requestProblemInfo src =
     prop_or src RequestProblemInformation
       (run [\<lambda>m t. assign (rd_u8 src t) (\<lambda>v. requestProblemInfo_update (\<lambda>_. v)) m t,
             stop ProtocolError (\<lambda>src m t. requestProblemInfo m \<noteq> 0 \<and> requestProblemInfo m \<noteq> 1 \<or> again RequestProblemInformation src m t) src])
       (\<lambda>m. m\<lparr>requestProblemInfo := 1\<rparr>)"

definition cn_userProperty :: "slice \<Rightarrow> connect \<Rightarrow> nat \<Rightarrow> connect outcome" where
  "cn_userProperty src m t = assign (read_up src t) (\<lambda>v. userProperty_update (\<lambda>_. v)) m t"

definition cn_authMethod :: "slice \<Rightarrow> connect \<Rightarrow> nat \<Rightarrow> connect outcome" where
  "cn_authMethod src =
     prop_at src AuthenticationMethod
       (run [\<lambda>m t. assign (read_lp src t) (\<lambda>v. authMethod_update (\<lambda>_. v)) m t,
             stop ProtocolError (again AuthenticationMethod) src])"

text \<open>Without authentication data there must be no authentication method.\<close>

definition cn_authData :: "slice \<Rightarrow> connect \<Rightarrow> nat \<Rightarrow> connect outcome" where
  "cn_authData src m t =
     (if at_is src t AuthenticationData then
        run [\<lambda>m t. assign (read_lp src t) (\<lambda>v. authData_update (\<lambda>_. v)) m t,
             stop ProtocolError (again AuthenticationData) src] m (t + 1)
      else if length (authMethod m) \<noteq> 0 then Fail m (int t) (Reason ProtocolError)
      else Ret m t)"

definition cn_props :: "slice \<Rightarrow> connect \<Rightarrow> nat \<Rightarrow> connect outcome" where
  "cn_props src =
     run [cn_sessionExpiryInterval src, cn_receiveMaximum src, cn_maxPacketSize src, cn_topicAliasMax src,
          cn_requestRespInfo src, cn_requestProblemInfo src, cn_userProperty src, cn_authMethod src, cn_authData src]"

text \<open>The payload.\<close>

definition cn_clientId :: "slice \<Rightarrow> connect \<Rightarrow> nat \<Rightarrow> connect outcome" where
  "cn_clientId src =
     run [\<lambda>m t. assign (read_lp src t) (\<lambda>v. clientId_update (\<lambda>_. v)) m t,
          stop CustomerIdentifierInvalid (\<lambda>src m t. length (clientId m) = 0 \<and> \<not> CleanSession m) src,
          stop CustomerIdentifierInvalid (\<lambda>src m t. length (clientId m) > 0 \<and> \<not> validClientId (clientId m)) src,
          \<lambda>m t. Ret (if length (clientId m) = 0 then m\<lparr>clientId := defaultCId\<rparr> else m) t]"

definition cn_willDelayInterval :: "slice \<Rightarrow> connect \<Rightarrow> nat \<Rightarrow> connect outcome" where
  "cn_willDelayInterval src =
     prop_at src DelayWills
       (run [\<lambda>m t. assign (rd_u32 src t) (\<lambda>v. willDelayInterval_update (\<lambda>_. v)) m t,
             stop ProtocolError (again DelayWills) src])"

definition cn_payloadFormatIndicator :: "slice \<Rightarrow> connect \<Rightarrow> nat \<Rightarrow> connect outcome" where
  "cn_payloadFormatIndicator src =
     prop_at src LoadFormatDescription
       (run [\<lambda>m t. assign (rd_u8 src t) (\<lambda>v. payloadFormatIndicator_update (\<lambda>_. v)) m t,
             stop ProtocolError (\<lambda>src m t. payloadFormatIndicator m \<noteq> 0 \<and> payloadFormatIndicator m \<noteq> 1 \<or> again LoadFormatDescription src m t) src])"

definition cn_willMsgExpiryInterval :: "slice \<Rightarrow> connect \<Rightarrow> nat \<Rightarrow> connect outcome" where
  "cn_willMsgExpiryInterval src =
     prop_at src MessageExpirationTime
       (run [\<lambda>m t. assign (rd_u32 src t) (\<lambda>v. willMsgExpiryInterval_update (\<lambda>_. v)) m t,
             stop ProtocolError (again MessageExpirationTime) src])"

definition cn_contentType :: "slice \<Rightarrow> connect \<Rightarrow> nat \<Rightarrow> connect outcome" where
  "cn_contentType src =
     prop_at src ContentType
       (run [\<lambda>m t. assign (read_lp src t) (\<lambda>v. contentType_update (\<lambda>_. v)) m t,
             stop ProtocolError (again ContentType) src])"

definition cn_responseTopic :: "slice \<Rightarrow> connect \<Rightarrow> nat \<Rightarrow> connect outcome" where
  "cn_responseTopic src =
     prop_at src ResponseTopic
       (run [\<lambda>m t. assign (read_lp src t) (\<lambda>v. responseTopic_update (\<lambda>_. v)) m t,
             stop ProtocolError (again ResponseTopic) src])"

definition cn_correlationData :: "slice \<Rightarrow> connect \<Rightarrow> nat \<Rightarrow> connect outcome" where
  "cn_correlationData src =
     prop_at src RelatedData
       (run [\<lambda>m t. assign (read_lp src t) (\<lambda>v. correlationData_update (\<lambda>_. v)) m t,
             stop ProtocolError (again RelatedData) src])"

definition cn_will :: "slice \<Rightarrow> connect \<Rightarrow> nat \<Rightarrow> connect outcome" where
  "cn_will src =
     run [or_reason ProtocolError (\<lambda>m t. assign (read_lb src t) (\<lambda>v. willPropertiesLen_update (\<lambda>_. v)) m t),
          cn_willDelayInterval src, cn_payloadFormatIndicator src, cn_willMsgExpiryInterval src, cn_contentType src,
          cn_responseTopic src, cn_correlationData src,
          \<lambda>m t. assign (read_up src t) (\<lambda>v. willUserProperty_update (\<lambda>_. v)) m t,
          \<lambda>m t. assign (read_lp src t) (\<lambda>v. willTopic_update (\<lambda>_. v)) m t,
          \<lambda>m t. assign (read_lp src t) (\<lambda>v. willMessage_update (\<lambda>_. v)) m t]"

text \<open>\<open>len(src[total:])\<close> panics where \<open>total\<close> has run past the end of the slice.\<close>

definition cn_username :: "slice \<Rightarrow> connect \<Rightarrow> nat \<Rightarrow> connect outcome" where
  "cn_username src m t =
     (if \<not> UsernameFlag m then Ret m t
      else if t > slen src then Panic
      else if slen src - t > 0 then assign (read_lp src t) (\<lambda>v. username_update (\<lambda>_. v)) m t
      else Ret m t)"

definition cn_password :: "slice \<Rightarrow> connect \<Rightarrow> nat \<Rightarrow> connect outcome" where
  "cn_password src m t =
     (if \<not> PasswordFlag m then Ret m t
      else if t > slen src then Panic
      else if slen src - t > 0 then assign (read_lp src t) (\<lambda>v. password_update (\<lambda>_. v)) m t
      else Ret m t)"

definition cn_payload :: "slice \<Rightarrow> connect \<Rightarrow> nat \<Rightarrow> connect outcome" where
  "cn_payload src =
     run [cn_clientId src, \<lambda>m t. (if WillFlag m then cn_will src m t else Ret m t), cn_username src, cn_password src]"

definition decodeMessage :: "slice \<Rightarrow> connect \<Rightarrow> nat \<Rightarrow> connect outcome" where
  "decodeMessage src = run [cn_start src, cn_props src, cn_payload src]"

definition conn_Decode :: "slice \<Rightarrow> connect \<Rightarrow> connect outcome" where
  "conn_Decode src m =
     (case hdecode src m of
        Ret m1 hn \<Rightarrow>
          (case sfrom src hn of
             None \<Rightarrow> Panic
           | Some body \<Rightarrow>
               (case decodeMessage body m1 0 of
                  Ret m2 n \<Rightarrow> Ret (m2\<lparr>dirty := False\<rparr>) (hn + n)
                | Fail m2 n e \<Rightarrow> Fail m2 (int hn + n) e
                | Panic \<Rightarrow> Panic))
      | r \<Rightarrow> r)"

section \<open>The packet a message stands for\<close>

definition conn_props :: "connect \<Rightarrow> bytes" where
  "conn_props m =
     (if sessionExpiryInterval m > 0 then SessionExpirationInterval # u32_bytes (sessionExpiryInterval m) else []) @
     (if receiveMaximum m > 0 \<and> receiveMaximum m < 65535 then MaximumQuantityReceived # u16_bytes (receiveMaximum m) else []) @
     (if True then MaximumMessageLength # u32_bytes (maxPacketSize m) else []) @
     (if topicAliasMax m > 0 then MaximumLengthOfTopicAlias # u16_bytes (topicAliasMax m) else []) @
     (if requestRespInfo m \<noteq> 0 then RequestResponseInformation # [requestRespInfo m] else []) @
     (if requestProblemInfo m \<noteq> 1 then RequestProblemInformation # [requestProblemInfo m] else []) @
     up_wire (userProperty m) @
     (if length (authMethod m) > 0 then AuthenticationMethod # lp_wire (authMethod m) else []) @
     (if length (authData m) > 0 then AuthenticationData # lp_wire (authData m) else [])"

definition will_props :: "connect \<Rightarrow> bytes" where
  "will_props m =
     (if willDelayInterval m > 0 then DelayWills # u32_bytes (willDelayInterval m) else []) @
     (if payloadFormatIndicator m > 0 then LoadFormatDescription # [payloadFormatIndicator m] else []) @
     (if willMsgExpiryInterval m > 0 then MessageExpirationTime # u32_bytes (willMsgExpiryInterval m) else []) @
     (if length (contentType m) > 0 then ContentType # lp_wire (contentType m) else []) @
     (if length (responseTopic m) > 0 then ResponseTopic # lp_wire (responseTopic m) else []) @
     (if length (correlationData m) > 0 then RelatedData # lp_wire (correlationData m) else [])"

definition will_wire :: "connect \<Rightarrow> bytes" where
  "will_wire m = lb_wire (conn_wplen m) @ will_props m @ up_wire (willUserProperty m) @
     lp_wire (willTopic m) @ lp_wire (willMessage m)"

definition login_wire :: "connect \<Rightarrow> bytes" where
  "login_wire m = (if UsernameFlag m then lp_wire (username m) else []) @ (if PasswordFlag m then lp_wire (password m) else [])"

definition conn_fixed :: "connect \<Rightarrow> bytes" where
  "conn_fixed m = lp_wire [77, 81, 84, 84] @ [5, connectFlags m] @ u16_bytes (keepAlive m) @ lb_wire (conn_plen m)"

definition conn_body :: "connect \<Rightarrow> bytes" where
  "conn_body m = conn_fixed m @ conn_props m @ lp_wire (clientId m) @ (if WillFlag m then will_wire m else []) @ login_wire m"

definition conn_built :: "connect \<Rightarrow> connect" where
  "conn_built m =
     m\<lparr>propertiesLen := word_of_nat (conn_plen m), willPropertiesLen := word_of_nat (conn_wplen m),
       remlen := word_of_nat (length (conn_body m)), dirty := True\<rparr>"

definition conn_wire :: "connect \<Rightarrow> bytes" where
  "conn_wire m = header_wire (conn_built m) @ conn_body m"

text \<open>
  The messages that can be sent. Where a will, a user name or a password is announced, its parts
  must not be empty, and there are no will properties without a will: otherwise the remaining
  length \<open>build\<close> computes is not the length of what is written.
\<close>

definition conn_strings_ok :: "connect \<Rightarrow> bool" where
  "conn_strings_ok m \<longleftrightarrow>
     list_all short [clientId m, willTopic m, willMessage m, username m, password m, authMethod m, authData m,
       contentType m, responseTopic m, correlationData m] \<and>
     list_all short (userProperty m) \<and> list_all short (willUserProperty m)"

definition conn_flags_ok :: "connect \<Rightarrow> bool" where
  "conn_flags_ok m \<longleftrightarrow>
     (if WillFlag m then willTopic m \<noteq> [] \<and> willMessage m \<noteq> [] else willUserProperty m = []) \<and>
     (UsernameFlag m \<longrightarrow> username m \<noteq> []) \<and> (PasswordFlag m \<longrightarrow> password m \<noteq> []) \<and>
     maxPacketSize m > 0 \<and> payloadFormatIndicator m \<le> 1"

definition conn_ok :: "connect \<Rightarrow> bool" where
  "conn_ok m \<longleftrightarrow>
     length (mtypeflags m) = 1 \<and> mtype m = CONNECT \<and> flags_ok m \<and> version m = 5 \<and> protoName m = [77, 81, 84, 84] \<and>
     conn_strings_ok m \<and> conn_flags_ok m \<and> length (conn_body m) \<le> 268435455"

lemma conn_built_frame [simp]:
  "mtypeflags (conn_built m) = mtypeflags m" "dirty (conn_built m)" "version (conn_built m) = version m"
  "connectFlags (conn_built m) = connectFlags m" "keepAlive (conn_built m) = keepAlive m"
  "clientId (conn_built m) = clientId m" "willTopic (conn_built m) = willTopic m"
  "willMessage (conn_built m) = willMessage m" "username (conn_built m) = username m"
  "password (conn_built m) = password m" "sessionExpiryInterval (conn_built m) = sessionExpiryInterval m"
  "receiveMaximum (conn_built m) = receiveMaximum m" "maxPacketSize (conn_built m) = maxPacketSize m"
  "topicAliasMax (conn_built m) = topicAliasMax m" "requestRespInfo (conn_built m) = requestRespInfo m"
  "requestProblemInfo (conn_built m) = requestProblemInfo m" "userProperty (conn_built m) = userProperty m"
  "authMethod (conn_built m) = authMethod m" "authData (conn_built m) = authData m"
  "willDelayInterval (conn_built m) = willDelayInterval m"
  "payloadFormatIndicator (conn_built m) = payloadFormatIndicator m"
  "willMsgExpiryInterval (conn_built m) = willMsgExpiryInterval m" "contentType (conn_built m) = contentType m"
  "willUserProperty (conn_built m) = willUserProperty m" "responseTopic (conn_built m) = responseTopic m"
  "correlationData (conn_built m) = correlationData m" "protoName (conn_built m) = protoName m"
  "WillFlag (conn_built m) = WillFlag m" "UsernameFlag (conn_built m) = UsernameFlag m"
  "PasswordFlag (conn_built m) = PasswordFlag m"
  by (simp_all add: conn_built_def WillFlag_def UsernameFlag_def PasswordFlag_def)

lemma lp_len_wire: "lp_len b = length (if length b > 0 then x # lp_wire b else [])"
  by (simp add: lp_len_def length_wire)

lemma length_conn_props: "maxPacketSize m > 0 \<Longrightarrow> length (conn_props m) = conn_plen m"
  by (simp add: conn_props_def conn_plen_def length_wire lp_len_def)

lemma length_will_props:
  assumes "payloadFormatIndicator m \<le> 1" shows "length (will_props m) = conn_wplen m"
proof -
  have "payloadFormatIndicator m > 0 \<longleftrightarrow> payloadFormatIndicator m = 1"
    using assms by (auto simp: word_le_nat_alt word_less_nat_alt word_unat_eq_iff)
  then show ?thesis by (simp add: will_props_def conn_wplen_def length_wire lp_len_def)
qed

lemma conn_body_bounds:
  assumes "conn_ok m"
  shows "conn_plen m < 268435456" "WillFlag m \<Longrightarrow> conn_wplen m < 268435456"
  using assms length_conn_props [of m] length_will_props [of m]
  by (auto simp: conn_ok_def conn_flags_ok_def conn_body_def will_wire_def)

lemma conn_fixlen_body:
  assumes "conn_ok m"
  shows "length (conn_body m) = conn_fixlen m + conn_plen m + buildUserPropertyLen (willUserProperty m) +
    length (lb_wire (conn_plen m)) + (if WillFlag m then conn_wplen m + length (lb_wire (conn_wplen m)) else 0)"
  using assms length_conn_props [of m] length_will_props [of m]
  by (auto simp: conn_ok_def conn_flags_ok_def conn_body_def conn_fixed_def conn_fixlen_def will_wire_def login_wire_def
      length_wire)

lemma conn_build_built:
  assumes ok: "conn_ok m"
  shows "conn_build m = Some (conn_built m)"
proof -
  note b = conn_body_bounds [OF ok]
  have lb: "lbEncode (word_of_nat (conn_plen m)) = Some (lb_wire (conn_plen m))"
    using b(1) by (simp add: lbEncode_spec word_less_nat_alt unat_small)
  have wb: "lbEncode (word_of_nat (conn_wplen m)) = Some (lb_wire (conn_wplen m))" if "WillFlag m"
    using b(2) [OF that] by (simp add: lbEncode_spec word_less_nat_alt unat_small)
  have n: "\<not> (word_of_nat (length (conn_body m)) :: u32) > maxRemainingLength"
    using ok by (simp add: conn_ok_def maxRemainingLength_def word_less_nat_alt unat_small)
  let ?m = "m\<lparr>propertiesLen := word_of_nat (conn_plen m), willPropertiesLen := word_of_nat (conn_wplen m)\<rparr>"
  have s: "fst (SetRemainingLength (word_of_nat (length (conn_body m))) ?m) = conn_built m"
    using n by (simp add: SetRemainingLength_def conn_built_def)
  have "(if WillFlag m then word_of_nat (conn_fixlen m + (conn_plen m + buildUserPropertyLen (willUserProperty m)) +
        length (lb_wire (conn_plen m))) + word_of_nat (conn_wplen m + length (lb_wire (conn_wplen m)))
      else word_of_nat (conn_fixlen m + (conn_plen m + buildUserPropertyLen (willUserProperty m)) +
        length (lb_wire (conn_plen m))) :: u32) = word_of_nat (length (conn_body m))"
    unfolding conn_fixlen_body [OF ok] by (simp add: ac_simps)
  then show ?thesis
    using s wb by (cases "WillFlag m") (simp_all add: conn_build_def Let_def lb)
qed

lemma proto_name_5: "version n = 5 \<Longrightarrow> proto_name n = [77, 81, 84, 84]"
  by (simp add: proto_name_def SupportedVersions_def)

lemma short_proto: "version n = 5 \<Longrightarrow> short (proto_name n)"
  by (simp add: proto_name_5 short_def)

lemma props_emit:
  assumes "version n = 5" "propertiesLen n < 268435456" "conn_strings_ok n"
  shows "emits_w (conn_w_props n) (lp_wire (proto_name n) @ [5, connectFlags n] @ u16_bytes (keepAlive n) @
      lb_wire (unat (propertiesLen n)) @ conn_props n)"
    "emits_b (conn_b_props n) (lp_wire (proto_name n) @ [5, connectFlags n] @ u16_bytes (keepAlive n) @
      lb_wire (unat (propertiesLen n)) @ conn_props n)"
proof -
  have s: "short (proto_name n)" "list_all short (userProperty n)" "short (authMethod n)" "short (authData n)"
    using assms by (simp_all add: short_proto conn_strings_ok_def)
  have w: "lp_wire (proto_name n) @ [5, connectFlags n] @ u16_bytes (keepAlive n) @
      lb_wire (unat (propertiesLen n)) @ conn_props n = lp_wire (proto_name n) @
      [version n] @
      [connectFlags n] @
      u16_bytes (keepAlive n) @
      lb_wire (unat (propertiesLen n)) @
      (if sessionExpiryInterval n > 0 then [SessionExpirationInterval] @ u32_bytes (sessionExpiryInterval n) @ [] else []) @
      (if receiveMaximum n > 0 \<and> receiveMaximum n < 65535 then [MaximumQuantityReceived] @ u16_bytes (receiveMaximum n) @ [] else []) @
      [MaximumMessageLength] @
      u32_bytes (maxPacketSize n) @
      (if topicAliasMax n > 0 then [MaximumLengthOfTopicAlias] @ u16_bytes (topicAliasMax n) @ [] else []) @
      (if requestRespInfo n \<noteq> 0 then [RequestResponseInformation] @ [requestRespInfo n] @ [] else []) @
      (if requestProblemInfo n \<noteq> 1 then [RequestProblemInformation] @ [requestProblemInfo n] @ [] else []) @
      up_wire (userProperty n) @
      (if length (authMethod n) > 0 then [AuthenticationMethod] @ lp_wire (authMethod n) @ [] else []) @
      (if length (authData n) > 0 then [AuthenticationData] @ lp_wire (authData n) @ [] else []) @
      []"
    using assms(1) by (simp add: conn_props_def)
  show "emits_w (conn_w_props n) (lp_wire (proto_name n) @ [5, connectFlags n] @ u16_bytes (keepAlive n) @
      lb_wire (unat (propertiesLen n)) @ conn_props n)"
    unfolding conn_w_props_def w by (intro emits s assms(2))
  show "emits_b (conn_b_props n) (lp_wire (proto_name n) @ [5, connectFlags n] @ u16_bytes (keepAlive n) @
      lb_wire (unat (propertiesLen n)) @ conn_props n)"
    unfolding conn_b_props_def w by (intro emits s assms(2))
qed

lemma will_emit:
  assumes "willPropertiesLen n < 268435456" "conn_strings_ok n"
  shows "emits_w (conn_w_will n) (lb_wire (unat (willPropertiesLen n)) @ will_props n @ up_wire (willUserProperty n) @
      lp_wire (willTopic n) @ lp_wire (willMessage n))"
    "emits_b (conn_b_will n) (lb_wire (unat (willPropertiesLen n)) @ will_props n @ up_wire (willUserProperty n) @
      lp_wire (willTopic n) @ lp_wire (willMessage n))"
proof -
  have s: "short (contentType n)" "short (responseTopic n)" "short (correlationData n)"
    "list_all short (willUserProperty n)" "short (willTopic n)" "short (willMessage n)"
    using assms by (simp_all add: conn_strings_ok_def)
  have w: "lb_wire (unat (willPropertiesLen n)) @ will_props n @ up_wire (willUserProperty n) @
      lp_wire (willTopic n) @ lp_wire (willMessage n) = lb_wire (unat (willPropertiesLen n)) @
      (if willDelayInterval n > 0 then [DelayWills] @ u32_bytes (willDelayInterval n) @ [] else []) @
      (if payloadFormatIndicator n > 0 then [LoadFormatDescription] @ [payloadFormatIndicator n] @ [] else []) @
      (if willMsgExpiryInterval n > 0 then [MessageExpirationTime] @ u32_bytes (willMsgExpiryInterval n) @ [] else []) @
      (if length (contentType n) > 0 then [ContentType] @ lp_wire (contentType n) @ [] else []) @
      (if length (responseTopic n) > 0 then [ResponseTopic] @ lp_wire (responseTopic n) @ [] else []) @
      (if length (correlationData n) > 0 then [RelatedData] @ lp_wire (correlationData n) @ [] else []) @
      up_wire (willUserProperty n) @
      lp_wire (willTopic n) @
      lp_wire (willMessage n) @
      []"
    by (simp add: will_props_def)
  show "emits_w (conn_w_will n) (lb_wire (unat (willPropertiesLen n)) @ will_props n @ up_wire (willUserProperty n) @
      lp_wire (willTopic n) @ lp_wire (willMessage n))"
    unfolding conn_w_will_def w by (intro emits s assms(1))
  show "emits_b (conn_b_will n) (lb_wire (unat (willPropertiesLen n)) @ will_props n @ up_wire (willUserProperty n) @
      lp_wire (willTopic n) @ lp_wire (willMessage n))"
    unfolding conn_b_will_def w by (intro emits s assms(1))
qed

lemma conn_wire_cong [simp]:
  "conn_props (conn_built m) = conn_props m" "will_props (conn_built m) = will_props m"
  "conn_strings_ok (conn_built m) = conn_strings_ok m"
  by (simp_all add: conn_props_def will_props_def conn_strings_ok_def)

lemma unat_conn:
  assumes "conn_ok m"
  shows "unat (remlen (conn_built m)) = length (conn_body m)" "unat (propertiesLen (conn_built m)) = conn_plen m"
    "WillFlag m \<Longrightarrow> unat (willPropertiesLen (conn_built m)) = conn_wplen m"
  using conn_body_bounds [OF assms] assms by (simp_all add: conn_built_def unat_small conn_ok_def)

lemma conn_emits:
  assumes ok: "conn_ok m"
  shows "emits_w (encodeMessage (conn_built m)) (conn_body m)" "emits_b (encodeMessageToBuf (conn_built m)) (conn_body m)"
proof -
  let ?n = "conn_built m"
  have v: "version ?n = 5" and s: "conn_strings_ok ?n" using ok by (simp_all add: conn_ok_def)
  have p: "propertiesLen ?n < 268435456" using unat_conn(2) [OF ok] conn_body_bounds(1) [OF ok] by (simp add: word_less_nat_alt)
  have wp: "WillFlag ?n \<Longrightarrow> willPropertiesLen ?n < 268435456"
    using unat_conn(3) [OF ok] conn_body_bounds(2) [OF ok] by (simp add: word_less_nat_alt)
  have sh: "short (clientId ?n)" "short (username ?n)" "short (password ?n)" using s by (simp_all add: conn_strings_ok_def)
  have login: "(if UsernameFlag ?n \<and> length (username ?n) > 0 then lp_wire (username ?n) else []) @
      (if PasswordFlag ?n \<and> length (password ?n) > 0 then lp_wire (password ?n) else []) = login_wire m"
    using ok by (auto simp: conn_ok_def conn_flags_ok_def login_wire_def)
  have w: "conn_body m = (lp_wire (proto_name ?n) @ [5, connectFlags ?n] @ u16_bytes (keepAlive ?n) @
        lb_wire (unat (propertiesLen ?n)) @ conn_props ?n) @
      (lp_wire (clientId ?n) @
       (if WillFlag ?n then lb_wire (unat (willPropertiesLen ?n)) @ will_props ?n @ up_wire (willUserProperty ?n) @
          lp_wire (willTopic ?n) @ lp_wire (willMessage ?n) else []) @
       (if UsernameFlag ?n \<and> length (username ?n) > 0 then lp_wire (username ?n) else []) @
       (if PasswordFlag ?n \<and> length (password ?n) > 0 then lp_wire (password ?n) else []) @ []) @ []"
    using login proto_name_5 [OF v] unat_conn [OF ok] by (simp add: conn_body_def conn_fixed_def will_wire_def)
  show "emits_w (encodeMessage ?n) (conn_body m)"
    unfolding encodeMessage_def conn_w_payload_def w by (intro emits props_emit(1) will_emit(1) v p wp s sh)
  show "emits_b (encodeMessageToBuf ?n) (conn_body m)"
    unfolding encodeMessageToBuf_def conn_b_payload_def w by (intro emits props_emit(2) will_emit(2) v p wp s sh)
qed

lemma conn_header:
  assumes ok: "conn_ok m"
  shows "header_ok (conn_built m)" "flags_ok (conn_built m)" "mtype (conn_built m) = CONNECT"
proof -
  show t: "mtype (conn_built m) = CONNECT" using ok mtype_cong [of "conn_built m" m] by (simp add: conn_ok_def)
  show "header_ok (conn_built m)"
    using unat_conn(1) [OF ok] ok
    by (simp add: header_ok_def t maxRemainingLength_def word_le_nat_alt) (simp add: conn_ok_def type_Valid_def CONNECT_def)
  show "flags_ok (conn_built m)" using ok flags_ok_cong [of "conn_built m" m] by (simp add: conn_ok_def)
qed

interpretation connect: plain_packet conn_build conn_built conn_body conn_ok encodeMessage encodeMessageToBuf
  using conn_build_built conn_header unat_conn(1) conn_emits by unfold_locales simp_all

section \<open>Decoding the packet\<close>

text \<open>
  The messages a decoder accepts as they are. The last condition keeps the client identifier and
  the will topic from beginning with the identifier of a property: the decoder looks for properties
  without regard to their length.
\<close>

definition conn_readable :: "connect \<Rightarrow> bool" where
  "conn_readable m \<longleftrightarrow>
     connectFlags m AND 0x1 = 0 \<and> WillQos m \<le> QosExactlyOnce \<and>
     (\<not> WillFlag m \<longrightarrow> \<not> WillRetain m \<and> WillQos m = QosAtMostOnce) \<and>
     (UsernameFlag m \<longrightarrow> PasswordFlag m) \<and>
     requestRespInfo m \<le> 1 \<and> requestProblemInfo m \<le> 1 \<and> (authMethod m \<noteq> [] \<longrightarrow> authData m \<noteq> []) \<and>
     even (length (userProperty m)) \<and> even (length (willUserProperty m)) \<and>
     validClientId (clientId m) \<and> (clientId m = [] \<longrightarrow> CleanSession m) \<and>
     length (clientId m) < 4352 \<and> length (willTopic m) < 256"

text \<open>What the decoder makes of it: \<open>x\<close> is the message it is called on.\<close>

definition cn_start_read :: "connect \<Rightarrow> connect \<Rightarrow> connect" where
  "cn_start_read n x =
     x\<lparr>protoName := [77, 81, 84, 84], version := 5, connectFlags := connectFlags n, keepAlive := keepAlive n,
       propertiesLen := word_of_nat (conn_plen n)\<rparr>"

definition cn_props_read :: "connect \<Rightarrow> connect \<Rightarrow> connect" where
  "cn_props_read n x =
     x\<lparr>sessionExpiryInterval := sessionExpiryInterval n,
       receiveMaximum := (if receiveMaximum n > 0 \<and> receiveMaximum n < 65535 then receiveMaximum n else 65535),
       maxPacketSize := maxPacketSize n, topicAliasMax := topicAliasMax n, requestRespInfo := requestRespInfo n,
       requestProblemInfo := requestProblemInfo n, userProperty := userProperty n, authMethod := authMethod n,
       authData := authData n\<rparr>"

definition cn_will_read :: "connect \<Rightarrow> connect \<Rightarrow> connect" where
  "cn_will_read n x =
     x\<lparr>willPropertiesLen := word_of_nat (conn_wplen n), willDelayInterval := willDelayInterval n,
       payloadFormatIndicator := payloadFormatIndicator n, willMsgExpiryInterval := willMsgExpiryInterval n,
       contentType := contentType n, responseTopic := responseTopic n, correlationData := correlationData n,
       willUserProperty := willUserProperty n, willTopic := willTopic n, willMessage := willMessage n\<rparr>"

text \<open>A message none of whose optional properties is set.\<close>

definition fresh :: "connect \<Rightarrow> bool" where
  "fresh x \<longleftrightarrow>
     sessionExpiryInterval x = 0 \<and> topicAliasMax x = 0 \<and> requestRespInfo x = 0 \<and> authMethod x = [] \<and> authData x = []"

definition fresh_will :: "connect \<Rightarrow> bool" where
  "fresh_will x \<longleftrightarrow>
     willDelayInterval x = 0 \<and> payloadFormatIndicator x = 0 \<and> willMsgExpiryInterval x = 0 \<and> contentType x = [] \<and>
     responseTopic x = [] \<and> correlationData x = []"

definition cn_clientId_read :: "connect \<Rightarrow> connect \<Rightarrow> connect" where
  "cn_clientId_read n x = x\<lparr>clientId := (if clientId n = [] then defaultCId else clientId n)\<rparr>"

lemma cn_start_eats:
  assumes ok: "conn_ok n" and rd: "conn_readable n" and rest: "conn_plen n \<le> length rest"
  shows "eats cn_start (conn_fixed n) rest x (cn_start_read n x)"
proof -
  have b: "conn_plen n < 268435456" by (rule conn_body_bounds(1) [OF ok])
  have s: "short [77, 81, 84, 84]" by (simp add: short_def)
  have w: "conn_fixed n = lp_wire [77, 81, 84, 84] @ [5] @ [] @ [] @ [connectFlags n] @ [] @ [] @ [] @ [] @ [] @
      u16_bytes (keepAlive n) @ lb_wire (conn_plen n) @ [] @ []"
    by (simp add: conn_fixed_def)
  note flags = rd [unfolded conn_readable_def] WillQos_def WillFlag_def WillRetain_def UsernameFlag_def PasswordFlag_def
  show ?thesis
    unfolding cn_start_def w
    by (rule eats_eq [OF _ refl],
        (rule eats_Cons,
          ((rule eats_consumes, (rule consumes_lp s consumes_u8 consumes_u16 consumes_or_reason consumes_lb b)+) |
           (rule eats_test eats_room, (use flags rest b in \<open>auto simp: SupportedVersions_def not_less unat_small\<close>)[1])))+)
       (rule eats_Nil, simp add: cn_start_read_def)
qed

lemmas conn_ids = SessionExpirationInterval_def AuthenticationMethod_def AuthenticationData_def
  RequestProblemInformation_def DelayWills_def RequestResponseInformation_def MaximumQuantityReceived_def
  MaximumLengthOfTopicAlias_def MaximumMessageLength_def UserProperty_def LoadFormatDescription_def
  MessageExpirationTime_def ContentType_def ResponseTopic_def RelatedData_def

lemma sessionExpiryInterval_eats:
  assumes "not_next SessionExpirationInterval rest" "\<not> (v > 0) \<Longrightarrow> v = sessionExpiryInterval x"
  shows "eats cn_sessionExpiryInterval (if v > 0 then SessionExpirationInterval # u32_bytes v else []) rest x
    (x\<lparr>sessionExpiryInterval := v\<rparr>)"
  unfolding cn_sessionExpiryInterval_def
  by (rule eats_eq [OF eats_consumes [OF consumes_prop_stop [OF _ consumes_u32]] refl])
     (use assms in \<open>simp_all\<close>)

lemma maxPacketSize_eats:
  assumes "not_next MaximumMessageLength rest" "\<not> c \<Longrightarrow> v = maxPacketSize x" "c \<Longrightarrow> v \<noteq> 0"
  shows "eats cn_maxPacketSize (if c then MaximumMessageLength # u32_bytes v else []) rest x
    (x\<lparr>maxPacketSize := v\<rparr>)"
  unfolding cn_maxPacketSize_def
  by (rule eats_eq [OF eats_consumes [OF consumes_prop_stop_test [OF _ consumes_u32]] refl])
     (use assms in \<open>simp_all\<close>)

lemma topicAliasMax_eats:
  assumes "not_next MaximumLengthOfTopicAlias rest" "\<not> (v > 0) \<Longrightarrow> v = topicAliasMax x"
  shows "eats cn_topicAliasMax (if v > 0 then MaximumLengthOfTopicAlias # u16_bytes v else []) rest x
    (x\<lparr>topicAliasMax := v\<rparr>)"
  unfolding cn_topicAliasMax_def
  by (rule eats_eq [OF eats_consumes [OF consumes_prop_stop [OF _ consumes_u16]] refl])
     (use assms in \<open>simp_all\<close>)

lemma requestRespInfo_eats:
  assumes "not_next RequestResponseInformation rest" "\<not> c \<Longrightarrow> v = requestRespInfo x" "c \<Longrightarrow> v = 0 \<or> v = 1"
  shows "eats cn_requestRespInfo (if c then RequestResponseInformation # [v] else []) rest x
    (x\<lparr>requestRespInfo := v\<rparr>)"
  unfolding cn_requestRespInfo_def
  by (rule eats_eq [OF eats_consumes [OF consumes_prop_stop_test [OF _ consumes_u8]] refl])
     (use assms in \<open>simp_all\<close>)

lemma authMethod_eats:
  assumes "not_next AuthenticationMethod rest" "\<not> (length v > 0) \<Longrightarrow> v = authMethod x" "short v"
  shows "eats cn_authMethod (if length v > 0 then AuthenticationMethod # lp_wire v else []) rest x
    (x\<lparr>authMethod := v\<rparr>)"
  unfolding cn_authMethod_def
  by (rule eats_eq [OF eats_consumes [OF consumes_prop_stop [OF _ consumes_lp]] refl])
     (use assms in \<open>simp_all\<close>)

lemma willDelayInterval_eats:
  assumes "not_next DelayWills rest" "\<not> (v > 0) \<Longrightarrow> v = willDelayInterval x"
  shows "eats cn_willDelayInterval (if v > 0 then DelayWills # u32_bytes v else []) rest x
    (x\<lparr>willDelayInterval := v\<rparr>)"
  unfolding cn_willDelayInterval_def
  by (rule eats_eq [OF eats_consumes [OF consumes_prop_stop [OF _ consumes_u32]] refl])
     (use assms in \<open>simp_all\<close>)

lemma payloadFormatIndicator_eats:
  assumes "not_next LoadFormatDescription rest" "\<not> c \<Longrightarrow> v = payloadFormatIndicator x" "c \<Longrightarrow> v = 0 \<or> v = 1"
  shows "eats cn_payloadFormatIndicator (if c then LoadFormatDescription # [v] else []) rest x
    (x\<lparr>payloadFormatIndicator := v\<rparr>)"
  unfolding cn_payloadFormatIndicator_def
  by (rule eats_eq [OF eats_consumes [OF consumes_prop_stop_test [OF _ consumes_u8]] refl])
     (use assms in \<open>simp_all\<close>)

lemma willMsgExpiryInterval_eats:
  assumes "not_next MessageExpirationTime rest" "\<not> (v > 0) \<Longrightarrow> v = willMsgExpiryInterval x"
  shows "eats cn_willMsgExpiryInterval (if v > 0 then MessageExpirationTime # u32_bytes v else []) rest x
    (x\<lparr>willMsgExpiryInterval := v\<rparr>)"
  unfolding cn_willMsgExpiryInterval_def
  by (rule eats_eq [OF eats_consumes [OF consumes_prop_stop [OF _ consumes_u32]] refl])
     (use assms in \<open>simp_all\<close>)

lemma contentType_eats:
  assumes "not_next ContentType rest" "\<not> (length v > 0) \<Longrightarrow> v = contentType x" "short v"
  shows "eats cn_contentType (if length v > 0 then ContentType # lp_wire v else []) rest x
    (x\<lparr>contentType := v\<rparr>)"
  unfolding cn_contentType_def
  by (rule eats_eq [OF eats_consumes [OF consumes_prop_stop [OF _ consumes_lp]] refl])
     (use assms in \<open>simp_all\<close>)

lemma responseTopic_eats:
  assumes "not_next ResponseTopic rest" "\<not> (length v > 0) \<Longrightarrow> v = responseTopic x" "short v"
  shows "eats cn_responseTopic (if length v > 0 then ResponseTopic # lp_wire v else []) rest x
    (x\<lparr>responseTopic := v\<rparr>)"
  unfolding cn_responseTopic_def
  by (rule eats_eq [OF eats_consumes [OF consumes_prop_stop [OF _ consumes_lp]] refl])
     (use assms in \<open>simp_all\<close>)

lemma correlationData_eats:
  assumes "not_next RelatedData rest" "\<not> (length v > 0) \<Longrightarrow> v = correlationData x" "short v"
  shows "eats cn_correlationData (if length v > 0 then RelatedData # lp_wire v else []) rest x
    (x\<lparr>correlationData := v\<rparr>)"
  unfolding cn_correlationData_def
  by (rule eats_eq [OF eats_consumes [OF consumes_prop_stop [OF _ consumes_lp]] refl])
     (use assms in \<open>simp_all\<close>)

lemma receiveMaximum_eats:
  assumes "not_next MaximumQuantityReceived rest" "c \<Longrightarrow> v \<noteq> 0"
  shows "eats cn_receiveMaximum (if c then MaximumQuantityReceived # u16_bytes v else []) rest x
    (x\<lparr>receiveMaximum := (if c then v else 65535)\<rparr>)"
  unfolding cn_receiveMaximum_def
  by (rule eats_eq [OF eats_consumes [OF consumes_prop_or [OF _ consumes_u16]] refl])
     (use assms in \<open>simp_all\<close>)

lemma requestProblemInfo_eats:
  assumes "not_next RequestProblemInformation rest" "c \<Longrightarrow> v = 0 \<or> v = 1" "\<not> c \<Longrightarrow> v = 1"
  shows "eats cn_requestProblemInfo (if c then RequestProblemInformation # [v] else []) rest x
    (x\<lparr>requestProblemInfo := v\<rparr>)"
  unfolding cn_requestProblemInfo_def
  by (rule eats_eq [OF eats_consumes [OF consumes_prop_or [OF _ consumes_u8]] refl])
     (use assms in \<open>simp_all\<close>)

lemma authData_eats:
  assumes "not_next AuthenticationData rest" "short v" "authMethod x \<noteq> [] \<longrightarrow> v \<noteq> []" "v = [] \<Longrightarrow> authData x = []"
  shows "eats cn_authData (if length v > 0 then AuthenticationData # lp_wire v else []) rest x
    (x\<lparr>authData := v\<rparr>)"
proof (cases "length v > 0")
  case True
  have "eats (\<lambda>src. prop_at src AuthenticationData
      (run [\<lambda>m t. assign (read_lp src t) (\<lambda>v. authData_update (\<lambda>_. v)) m t,
            stop ProtocolError (again AuthenticationData) src]))
      (if True then AuthenticationData # lp_wire v else []) rest x (x\<lparr>authData := v\<rparr>)"
    by (rule eats_eq [OF eats_consumes [OF consumes_prop_stop [OF _ consumes_lp]] refl])
       (use assms in simp_all)
  then show ?thesis
    using True by (simp add: eats_def cn_authData_def prop_at_def at_is_app)
next
  case False
  then show ?thesis using assms by (simp add: eats_def cn_authData_def at_is_next)
qed

lemma userProperty_eats:
  assumes "list_all short v" "even (length v)" "not_next UserProperty rest"
  shows "eats cn_userProperty (up_wire v) rest x (x\<lparr>userProperty := v\<rparr>)"
  unfolding cn_userProperty_def [abs_def] by (rule eats_consumes, rule consumes_up) (rule assms)+

lemma cn_props_eats:
  assumes ok: "conn_ok n" and rd: "conn_readable n" and x: "fresh x"
  shows "eats cn_props (conn_props n) (lp_wire (clientId n) @ rest) x (cn_props_read n x)"
proof -
  have s: "short (clientId n)" "short (authMethod n)" "short (authData n)" "list_all short (userProperty n)"
    using ok by (simp_all add: conn_ok_def conn_strings_ok_def)
  have nx: "not_next pid (lp_wire (clientId n) @ rest)" if "17 \<le> unat pid" for pid
    using rd that by (intro not_next_lp s) (simp add: conn_readable_def)
  have v: "requestRespInfo n \<noteq> 0 \<Longrightarrow> requestRespInfo n = 0 \<or> requestRespInfo n = 1"
    "requestProblemInfo n \<noteq> 1 \<Longrightarrow> requestProblemInfo n = 0 \<or> requestProblemInfo n = 1"
    "even (length (userProperty n))" "authMethod n \<noteq> [] \<longrightarrow> authData n \<noteq> []"
    using rd ok by (simp_all add: conn_readable_def conn_ok_def conn_flags_ok_def byte_le(1))
  have mp: "maxPacketSize n \<noteq> 0" using ok by (metis conn_ok_def conn_flags_ok_def less_irrefl)
  have "eats cn_props (conn_props n @ []) (lp_wire (clientId n) @ rest) x (cn_props_read n x)"
    unfolding cn_props_def conn_props_def append_assoc
    by (rule eats_eq [OF _ refl],
        rule eats_Cons [OF sessionExpiryInterval_eats eats_Cons [OF receiveMaximum_eats eats_Cons [OF maxPacketSize_eats
          eats_Cons [OF topicAliasMax_eats eats_Cons [OF requestRespInfo_eats eats_Cons [OF requestProblemInfo_eats
          eats_Cons [OF userProperty_eats eats_Cons [OF authMethod_eats eats_Cons [OF authData_eats eats_Nil]]]]]]]]])
       (use v mp x in \<open>simp_all add: s nx conn_ids cn_props_read_def fresh_def word_gt_0\<close>)
  then show ?thesis by simp
qed

lemma cn_clientId_eats:
  assumes ok: "conn_ok n" and rd: "conn_readable n" and x: "connectFlags x = connectFlags n"
  shows "eats cn_clientId (lp_wire (clientId n)) rest x (cn_clientId_read n x)"
proof -
  have s: "short (clientId n)" using ok by (simp add: conn_ok_def conn_strings_ok_def)
  have c: "validClientId (clientId n)" "clientId n = [] \<Longrightarrow> CleanSession n"
    using rd by (simp_all add: conn_readable_def)
  have "eats cn_clientId (lp_wire (clientId n) @ [] @ [] @ [] @ []) rest x (cn_clientId_read n x)"
    unfolding cn_clientId_def
    by (rule eats_eq [OF _ refl],
        rule eats_Cons [OF eats_consumes [OF consumes_lp [OF s]] eats_Cons [OF eats_test(1)
          eats_Cons [OF eats_test(1) eats_Cons [OF eats_skip eats_Nil]]]])
       (use c x in \<open>auto simp: cn_clientId_read_def CleanSession_def\<close>)
  then show ?thesis by simp
qed

lemma cn_will_eats:
  assumes ok: "conn_ok n" and rd: "conn_readable n" and x: "fresh_will x" and w: "WillFlag n"
  shows "eats cn_will (will_wire n) rest x (cn_will_read n x)"
proof -
  have s: "short (contentType n)" "short (responseTopic n)" "short (correlationData n)" "short (willTopic n)"
    "short (willMessage n)" "list_all short (willUserProperty n)"
    using ok by (simp_all add: conn_ok_def conn_strings_ok_def)
  have nx: "not_next pid (lp_wire (willTopic n) @ rest')" if "0 < unat pid" for pid rest'
    using rd that by (intro not_next_lp s) (simp add: conn_readable_def)
  have v: "payloadFormatIndicator n > 0 \<Longrightarrow> payloadFormatIndicator n = 0 \<or> payloadFormatIndicator n = 1"
    "even (length (willUserProperty n))"
    using rd ok by (simp_all add: conn_readable_def conn_ok_def conn_flags_ok_def byte_le(1))
  have "eats cn_will (will_wire n @ []) rest x (cn_will_read n x)"
    unfolding cn_will_def will_wire_def will_props_def append_assoc
    by (rule eats_eq [OF _ refl],
        rule eats_Cons [OF eats_consumes [OF consumes_or_reason [OF consumes_lb [OF conn_body_bounds(2) [OF ok w]]]]
          eats_Cons [OF willDelayInterval_eats eats_Cons [OF payloadFormatIndicator_eats
          eats_Cons [OF willMsgExpiryInterval_eats eats_Cons [OF contentType_eats eats_Cons [OF responseTopic_eats
          eats_Cons [OF correlationData_eats eats_Cons [OF eats_consumes [OF consumes_up [OF s(6)]]
          eats_Cons [OF eats_consumes [OF consumes_lp [OF s(4)]] eats_Cons [OF eats_consumes [OF consumes_lp [OF s(5)]]
            eats_Nil]]]]]]]]]])
       (use v x in \<open>simp_all add: s nx conn_ids cn_will_read_def fresh_will_def word_gt_0\<close>)
  then show ?thesis by simp
qed

lemma cn_login_eats:
  assumes ok: "conn_ok n" and x: "connectFlags x = connectFlags n"
  shows "eats cn_username (if UsernameFlag n then lp_wire (username n) else []) rest x
      (if UsernameFlag n then x\<lparr>username := username n\<rparr> else x)"
    and "eats cn_password (if PasswordFlag n then lp_wire (password n) else []) rest x
      (if PasswordFlag n then x\<lparr>password := password n\<rparr> else x)"
proof -
  have s: "short (username n)" "short (password n)"
    using ok by (simp_all add: conn_ok_def conn_strings_ok_def)
  have ne: "lp_wire b \<noteq> []" for b by (simp add: lp_wire_def u16_bytes_def)
  show "eats cn_username (if UsernameFlag n then lp_wire (username n) else []) rest x
      (if UsernameFlag n then x\<lparr>username := username n\<rparr> else x)"
    using eats_consumes [OF consumes_lp [OF s(1)], of "\<lambda>v. username_update (\<lambda>_. v)" rest x] x
    by (auto simp: eats_def cn_username_def UsernameFlag_def slen_def length_wire ne)
  show "eats cn_password (if PasswordFlag n then lp_wire (password n) else []) rest x
      (if PasswordFlag n then x\<lparr>password := password n\<rparr> else x)"
    using eats_consumes [OF consumes_lp [OF s(2)], of "\<lambda>v. password_update (\<lambda>_. v)" rest x] x
    by (auto simp: eats_def cn_password_def PasswordFlag_def slen_def length_wire ne)
qed

definition cn_payload_read :: "connect \<Rightarrow> connect \<Rightarrow> connect" where
  "cn_payload_read n x =
     (let x1 = cn_clientId_read n x;
          x2 = (if WillFlag n then cn_will_read n x1 else x1);
          x3 = (if UsernameFlag n then x2\<lparr>username := username n\<rparr> else x2)
      in if PasswordFlag n then x3\<lparr>password := password n\<rparr> else x3)"

lemma cn_payload_eats:
  assumes ok: "conn_ok n" and rd: "conn_readable n" and x: "fresh_will x" "connectFlags x = connectFlags n"
  shows "eats cn_payload (lp_wire (clientId n) @ (if WillFlag n then will_wire n else []) @ login_wire n) rest x
    (cn_payload_read n x)"
proof -
  define x1 where "x1 = cn_clientId_read n x"
  define x2 where "x2 = (if WillFlag n then cn_will_read n x1 else x1)"
  define x3 where "x3 = (if UsernameFlag n then x2\<lparr>username := username n\<rparr> else x2)"
  have f: "fresh_will x1" "connectFlags x1 = connectFlags n" "WillFlag x1 = WillFlag n" "connectFlags x2 = connectFlags n"
    "connectFlags x3 = connectFlags n"
    using x by (simp_all add: fresh_will_def x1_def x2_def x3_def cn_clientId_read_def cn_will_read_def WillFlag_def)
  have will: "eats (\<lambda>src m t. if WillFlag m then cn_will src m t else Ret m t) (if WillFlag n then will_wire n else []) rest' x1 x2"
    for rest'
    unfolding x2_def by (rule eats_if [where c = cn_will]) (simp add: f(3), rule cn_will_eats [OF ok rd f(1)])
  have "eats cn_payload (lp_wire (clientId n) @ (if WillFlag n then will_wire n else []) @
      (if UsernameFlag n then lp_wire (username n) else []) @ (if PasswordFlag n then lp_wire (password n) else []) @ [])
      rest x (if PasswordFlag n then x3\<lparr>password := password n\<rparr> else x3)"
    unfolding cn_payload_def
    by (rule eats_Cons [OF cn_clientId_eats [OF ok rd x(2), folded x1_def] eats_Cons [OF will
          eats_Cons [OF cn_login_eats(1) [OF ok f(4), folded x3_def] eats_Cons [OF cn_login_eats(2) [OF ok f(5)] eats_Nil]]]])
  moreover have "cn_payload_read n x = (if PasswordFlag n then x3\<lparr>password := password n\<rparr> else x3)"
    by (simp only: cn_payload_read_def Let_def x1_def x2_def x3_def)
  ultimately show ?thesis by (simp only: login_wire_def append_Nil2)
qed

definition conn_received :: "connect \<Rightarrow> connect \<Rightarrow> connect" where
  "conn_received n x = cn_payload_read n (cn_props_read n (cn_start_read n x))"

lemma decodeMessage_eats:
  assumes ok: "conn_ok n" and rd: "conn_readable n" and x: "fresh x" "fresh_will x"
  shows "eats decodeMessage (conn_body n) rest x (conn_received n x)"
proof -
  define x1 where "x1 = cn_start_read n x"
  define x2 where "x2 = cn_props_read n x1"
  have f: "fresh x1" "fresh_will x2" "connectFlags x2 = connectFlags n"
    using x by (simp_all add: x1_def x2_def cn_start_read_def cn_props_read_def fresh_def fresh_will_def)
  have p: "length (conn_props n) = conn_plen n" using ok by (intro length_conn_props) (simp add: conn_ok_def conn_flags_ok_def)
  have start: "eats cn_start (conn_fixed n) (conn_props n @ rest') x x1" for rest'
    unfolding x1_def by (rule cn_start_eats [OF ok rd]) (simp add: p)
  have props: "eats cn_props (conn_props n) ((lp_wire (clientId n) @ bs) @ rest') x1 x2" for bs rest'
    using cn_props_eats [OF ok rd f(1), of "bs @ rest'"] by (simp add: x2_def)
  have "eats decodeMessage (conn_fixed n @ conn_props n @
      (lp_wire (clientId n) @ (if WillFlag n then will_wire n else []) @ login_wire n) @ []) rest x (cn_payload_read n x2)"
    unfolding decodeMessage_def
    by (rule eats_Cons, simp only: append_assoc, rule start)
       (rule eats_Cons, simp only: append_Nil2, rule props,
        rule eats_Cons [OF cn_payload_eats [OF ok rd f(2,3)] eats_Nil])
  then show ?thesis by (simp add: conn_body_def conn_received_def x1_def x2_def)
qed

lemma NewConnectMessage_eq:
  "NewConnectMessage =
     \<lparr>remlen = 0, mtypeflags = [0x10], packetId = [], dbuf = Slice [] [], dirty = True,
       connectFlags = 0, version = 0, keepAlive = 0, protoName = [], clientId = [], willTopic = [],
       willMessage = [], username = [], password = [], propertiesLen = 0, sessionExpiryInterval = 0,
       receiveMaximum = 0, maxPacketSize = 1024, topicAliasMax = 0, requestRespInfo = 0,
       requestProblemInfo = 1, userProperty = [], authMethod = [], authData = [],
       willPropertiesLen = 0, willDelayInterval = 0, payloadFormatIndicator = 0,
       willMsgExpiryInterval = 0, contentType = [], willUserProperty = [], responseTopic = [],
       correlationData = []\<rparr>"
  by code_simp

lemma conn_Decode_wire:
  fixes x :: connect
  assumes ok: "conn_ok n" and rd: "conn_readable n" and x: "fresh x" "fresh_will x"
    and x0: "length (mtypeflags x) = 1" "mtype x = CONNECT"
  shows "conn_Decode (Slice (conn_wire n) ex) x =
    Ret ((conn_received n (x\<lparr>dbuf := Slice (conn_wire n) ex, mtypeflags := mtypeflags n,
      remlen := remlen (conn_built n)\<rparr>))\<lparr>dirty := False\<rparr>) (length (conn_wire n))"
proof -
  define x1 where "x1 = x\<lparr>dbuf := Slice (conn_wire n) ex, mtypeflags := mtypeflags n, remlen := remlen (conn_built n)\<rparr>"
  have ne: "conn_body n \<noteq> []" by (simp add: conn_body_def conn_fixed_def)
  have h: "hdecode (Slice (conn_wire n) ex) x = Ret x1 (length (header_wire (conn_built n)))"
    using connect.header_decoded [OF ok refl _ x0(1), of ex] ne x0(2) conn_header(3) [OF ok]
    by (simp add: conn_wire_def x1_def)
  have f: "fresh x1" "fresh_will x1" using x by (simp_all add: x1_def fresh_def fresh_will_def)
  have s: "sfrom (Slice (conn_wire n) ex) (length (header_wire (conn_built n))) = Some (Slice (conn_body n) ex)"
    by (simp add: conn_wire_def sfrom_app)
  have d: "decodeMessage (Slice (conn_body n) ex) x1 0 = Ret (conn_received n x1) (length (conn_body n))"
    using eatsD [OF decodeMessage_eats [OF ok rd f], of 0 "[]" "[]" ex] by simp
  show ?thesis
    unfolding x1_def [symmetric] conn_Decode_def h outcome.case s option.case d
    by (simp add: conn_wire_def)
qed

section \<open>The codec\<close>

text \<open>A CONNECT that is dirty and can be sent is written to a slice and to a buffer as the same packet,
  whose length \<open>Len\<close> reports.\<close>

theorem conn_encoders_agree:
  assumes "dirty m" "conn_ok m" "length (conn_wire m) \<le> length dst"
  shows "conn_Len m = Some (conn_built m, length (conn_wire m)) \<and>
    conn_Encode m dst = (conn_built m, Ret (conn_wire m @ drop (length (conn_wire m)) dst) (length (conn_wire m))) \<and>
    conn_EncodeToBuf m buf = (conn_built m, Ret (buf @ conn_wire m) (length buf + length (conn_wire m)))"
proof -
  have "conn_refused m = None"
    using assms(2) by (simp add: conn_refused_def conn_ok_def SupportedVersions_def)
  then show ?thesis
    using connect.encoders_agree [OF assms(1,2), folded conn_wire_def, OF assms(3)]
    by (simp add: conn_Len_def conn_Encode_def conn_EncodeToBuf_def)
qed

text \<open>C16: Take a CONNECT of MQTT 5 that can be sent (\<open>conn_ok\<close>): strings of less than 65536 bytes; a will topic, will
  message, user name and password that are not empty where their flags announce them; no will user properties without
  a will; a maximum packet size above 0. And let the decoder be able to read it (\<open>conn_readable\<close>): no reserved flag, a
  will QoS of at most 2, no will bits without a will, a user name only with a password, authentication data with an
  authentication method, keys with values, a client identifier of the accepted characters, shorter than 4352 bytes, empty only with a clean
  session, and a will topic shorter than 256 bytes. A new CONNECT that decodes its packet consumes the packet and gets
  its fields back: the flags and the keep-alive, every property, the client identifier, the will with its properties
  where there is one, and the login. A receive maximum of 0 is read as 65535, an empty client identifier as the
  default one.\<close>

theorem conn_roundtrip:
  assumes "conn_ok n" "conn_readable n"
  shows "\<exists>m'. conn_Decode (Slice (conn_wire n) ex) NewConnectMessage = Ret m' (length (conn_wire n)) \<and>
    connectFlags m' = connectFlags n \<and> version m' = 5 \<and> keepAlive m' = keepAlive n \<and>
    sessionExpiryInterval m' = sessionExpiryInterval n \<and>
    receiveMaximum m' = (if receiveMaximum n > 0 \<and> receiveMaximum n < 65535 then receiveMaximum n else 65535) \<and>
    maxPacketSize m' = maxPacketSize n \<and> topicAliasMax m' = topicAliasMax n \<and>
    requestRespInfo m' = requestRespInfo n \<and> requestProblemInfo m' = requestProblemInfo n \<and>
    userProperty m' = userProperty n \<and> authMethod m' = authMethod n \<and> authData m' = authData n \<and>
    clientId m' = (if clientId n = [] then defaultCId else clientId n) \<and>
    (if WillFlag n
     then willTopic m' = willTopic n \<and> willMessage m' = willMessage n \<and> willDelayInterval m' = willDelayInterval n \<and>
       payloadFormatIndicator m' = payloadFormatIndicator n \<and> willMsgExpiryInterval m' = willMsgExpiryInterval n \<and>
       contentType m' = contentType n \<and> responseTopic m' = responseTopic n \<and> correlationData m' = correlationData n \<and>
       willUserProperty m' = willUserProperty n
     else willTopic m' = [] \<and> willMessage m' = []) \<and>
    username m' = (if UsernameFlag n then username n else []) \<and>
    password m' = (if PasswordFlag n then password n else [])"
proof -
  have "fresh NewConnectMessage" "fresh_will NewConnectMessage" "length (mtypeflags NewConnectMessage) = 1"
    "mtype NewConnectMessage = CONNECT"
    by (simp_all add: NewConnectMessage_eq fresh_def fresh_will_def mtype_def alloc_flags_def CONNECT_def)
  from conn_Decode_wire [OF assms this, of ex] show ?thesis
    by (auto simp: conn_received_def cn_payload_read_def cn_will_read_def cn_clientId_read_def cn_props_read_def
        cn_start_read_def NewConnectMessage_eq Let_def)
qed

section \<open>Witnesses\<close>

definition demo_connect :: connect where
  "demo_connect =
     SetPassword [112] (SetUsername [117] (SetWillMessage [98, 121, 101] (SetWillTopic [119, 47, 116]
       (fst (SetWillQos 1 (SetCleanSession True (SetWillDelayInterval 9 (AddUserPropertys [[107], [118]]
         (SetReceiveMaximum 20 (SetSessionExpiryInterval 300 (SetKeepAlive 60
           (fst (SetClientId [100, 101, 118] (fst (SetVersion 5 NewConnectMessage)))))))))))))))"

lemma demo_connect_eq:
  "demo_connect =
     \<lparr>remlen = 0, mtypeflags = [0x10], packetId = [], dbuf = Slice [] [], dirty = True,
       connectFlags = 0xCE, version = 5, keepAlive = 60, protoName = [77, 81, 84, 84], clientId = [100, 101, 118],
       willTopic = [119, 47, 116], willMessage = [98, 121, 101], username = [117], password = [112],
       propertiesLen = 0, sessionExpiryInterval = 300, receiveMaximum = 20, maxPacketSize = 1024,
       topicAliasMax = 0, requestRespInfo = 0, requestProblemInfo = 1, userProperty = [[107], [118]],
       authMethod = [], authData = [], willPropertiesLen = 0, willDelayInterval = 9, payloadFormatIndicator = 0,
       willMsgExpiryInterval = 0, contentType = [], willUserProperty = [], responseTopic = [],
       correlationData = []\<rparr>"
  by code_simp

lemma demo_connect_flags:
  "WillFlag demo_connect" "UsernameFlag demo_connect" "PasswordFlag demo_connect" "conn_readable demo_connect"
  "mtype demo_connect = CONNECT" "flags_ok demo_connect"
  by code_simp+

lemma demo_connect_len: "length (conn_body demo_connect) = 58"
  by code_simp

lemma demo_connect_ok: "conn_ok demo_connect"
proof -
  have "conn_strings_ok demo_connect" by (simp add: conn_strings_ok_def demo_connect_eq short_def)
  moreover have "conn_flags_ok demo_connect"
    using demo_connect_flags(1-3) by (simp add: conn_flags_ok_def) (simp add: demo_connect_eq)
  moreover note demo_connect_flags(5,6)
  ultimately show ?thesis by (simp add: conn_ok_def demo_connect_len) (simp add: demo_connect_eq)
qed

lemma length_demo_connect: "length (conn_wire demo_connect) \<le> 63"
proof -
  have "length (lb_wire (unat (remlen (conn_built demo_connect)))) \<le> 4"
    by (rule length_lb_wire) (simp add: unat_conn(1) [OF demo_connect_ok] demo_connect_len)
  then show ?thesis by (simp add: conn_wire_def header_wire_def demo_connect_len)
qed

theorem conn_encoders_agree_witness:
  "conn_Len demo_connect = Some (conn_built demo_connect, length (conn_wire demo_connect)) \<and>
    conn_Encode demo_connect (replicate 80 0) =
      (conn_built demo_connect, Ret (conn_wire demo_connect @ drop (length (conn_wire demo_connect)) (replicate 80 0))
        (length (conn_wire demo_connect))) \<and>
    conn_EncodeToBuf demo_connect [7] =
      (conn_built demo_connect, Ret ([7] @ conn_wire demo_connect) (length [7 :: byte] + length (conn_wire demo_connect)))"
proof (rule conn_encoders_agree)
  show "length (conn_wire demo_connect) \<le> length (replicate 80 (0 :: byte))" using length_demo_connect by simp
qed (simp_all add: demo_connect_ok, simp add: demo_connect_eq)

theorem conn_roundtrip_witness:
  "\<exists>m'. conn_Decode (Slice (conn_wire demo_connect) [9]) NewConnectMessage = Ret m' (length (conn_wire demo_connect)) \<and>
    clientId m' = [100, 101, 118] \<and> willTopic m' = [119, 47, 116] \<and> username m' = [117] \<and> WillQos m' = 1"
  using conn_roundtrip [OF demo_connect_ok demo_connect_flags(4), of "[9]"] demo_connect_flags(1,2)
  by (auto simp: demo_connect_eq WillQos_def)

section \<open>Remarks\<close>

text \<open>
  A will topic of 256 to 511 bytes looks like a payload format indicator: its length begins with the
  byte 1, and the decoder tests for the property there although the length of the will properties is 0.
\<close>

lemma long_will_topic_misread:
  assumes "length b div 256 = 1"
  shows "at_is (Slice (pre @ lp_wire b @ rest) ex) (length pre) LoadFormatDescription"
proof -
  have "hd (lp_wire b) = 1" using hd_lp_wire [of b] assms by (simp add: short_def)
  then show ?thesis
    unfolding at_is_next by (cases "lp_wire b") (simp_all add: lp_wire_def u16_bytes_def LoadFormatDescription_def)
qed

text \<open>
  A client identifier of 4352 to 4607 bytes looks like a session expiry interval, for which the decoder tests
  although the length of the properties is 0.
\<close>

lemma long_client_id_misread:
  assumes "length b div 256 = 17"
  shows "at_is (Slice (pre @ lp_wire b @ rest) ex) (length pre) SessionExpirationInterval"
proof -
  have "hd (lp_wire b) = 17" using hd_lp_wire [of b] assms by (simp add: short_def)
  then show ?thesis
    unfolding at_is_next by (cases "lp_wire b") (simp_all add: lp_wire_def u16_bytes_def SessionExpirationInterval_def)
qed

text \<open>
  \<open>build\<close> counts a maximum packet size of 0 as absent, the encoder writes it: the packet is then five
  bytes longer than its remaining length says.
\<close>

lemma maxPacketSize_zero:
  "maxPacketSize m = 0 \<Longrightarrow> length (conn_props m) = conn_plen m + 5"
  by (simp add: conn_props_def conn_plen_def length_wire lp_len_def)

end
