(* ===== verification/Disconnect.thy ===== *)
theory Disconnect
  imports Frame Connect
begin

text \<open>
  DISCONNECT (\<open>corev5/v2/message/disconnect.go\<close>) and the two messages that are a fixed header alone,
  PINGREQ and PINGRESP (\<open>pingreq.go\<close>, \<open>pingresp.go\<close>).
\<close>

section \<open>State\<close>

record disconnect = header +
  reasonCode :: byte
  propertyLen :: u32
  sessionExpiryInterval :: u32
  reasonStr :: bytes
  serverReference :: bytes
  userProperty :: "bytes list"

definition ServerReference :: byte where "ServerReference = 0x1C"
definition NormalDisconnected :: byte where "NormalDisconnected = 0x00"
definition DisconnectionIncludesWill :: byte where "DisconnectionIncludesWill = 0x04"

definition ValidDisconnectReasonCode :: "byte \<Rightarrow> bool" where
  "ValidDisconnectReasonCode c \<longleftrightarrow>
     c \<in> {0x00, 0x04, 0x80, 0x82, 0x83, 0x87, 0x89, 0x8B, 0x8D, 0x8E, 0x8F, 0x90, 0x93, 0x94, 0x95, 0x96, 0x97, 0x98,
          0x99, 0x9A, 0x9B, 0x9C, 0x9D, 0x9E, 0x9F, 0xA0, 0xA1, 0xA2}"

definition NewDisconnectMessage :: disconnect where
  "NewDisconnectMessage =
     fst (SetType DISCONNECT \<lparr>remlen = 0, mtypeflags = [], packetId = [], dbuf = Slice [] [], dirty = False,
       reasonCode = 0, propertyLen = 0, sessionExpiryInterval = 0, reasonStr = [], serverReference = [],
       userProperty = []\<rparr>)"

definition SetReasonCode :: "byte \<Rightarrow> disconnect \<Rightarrow> disconnect" where "SetReasonCode v m = m\<lparr>reasonCode := v, dirty := True\<rparr>"
definition SetReasonStr :: "bytes \<Rightarrow> disconnect \<Rightarrow> disconnect" where "SetReasonStr v m = m\<lparr>reasonStr := v, dirty := True\<rparr>"
definition SetPropertyLen :: "u32 \<Rightarrow> disconnect \<Rightarrow> disconnect" where "SetPropertyLen v m = m\<lparr>propertyLen := v, dirty := True\<rparr>"

definition SetSessionExpiryInterval :: "u32 \<Rightarrow> disconnect \<Rightarrow> disconnect" where
  "SetSessionExpiryInterval v m = m\<lparr>sessionExpiryInterval := v, dirty := True\<rparr>"

definition SetServerReference :: "bytes \<Rightarrow> disconnect \<Rightarrow> disconnect" where
  "SetServerReference v m = m\<lparr>serverReference := v, dirty := True\<rparr>"

definition AddUserPropertys :: "bytes list \<Rightarrow> disconnect \<Rightarrow> disconnect" where
  "AddUserPropertys ups m = m\<lparr>userProperty := userProperty m @ ups, dirty := True\<rparr>"

definition AddUserProperty :: "bytes \<Rightarrow> disconnect \<Rightarrow> disconnect" where
  "AddUserProperty up m = m\<lparr>userProperty := userProperty m @ [up], dirty := True\<rparr>"

definition NewDiscMessageWithCodeInfo :: "byte \<Rightarrow> bytes \<Rightarrow> disconnect" where
  "NewDiscMessageWithCodeInfo code str = SetReasonStr str (SetReasonCode code NewDisconnectMessage)"

section \<open>Decoding\<close>

text \<open>
  A second occurrence of a property ends the decoder without an error (\<open>return total, err\<close> with \<open>err\<close>
  nil), so each block holds the rest of the function. The session expiry interval is read from the
  first bytes of the packet, not from where the property stands.
\<close>

definition di_reference :: "slice \<Rightarrow> disconnect \<Rightarrow> nat \<Rightarrow> disconnect outcome" where
  "di_reference src = prop_at src ServerReference (\<lambda>m t. assign (read_lp src t) (\<lambda>v. serverReference_update (\<lambda>_. v)) m t)"

definition di_user :: "slice \<Rightarrow> disconnect \<Rightarrow> nat \<Rightarrow> disconnect outcome" where
  "di_user src = run [\<lambda>m t. assign (read_up src t) (\<lambda>v. userProperty_update (\<lambda>_. v)) m t, di_reference src]"

definition di_reason :: "slice \<Rightarrow> disconnect \<Rightarrow> nat \<Rightarrow> disconnect outcome" where
  "di_reason src m t =
     (if at_is src t ReasonString then
        run [\<lambda>m t. assign (read_lp src t) (\<lambda>v. reasonStr_update (\<lambda>_. v)) m t,
             \<lambda>m t. if at_is src t ReasonString then Ret m t else di_user src m t] m (t + 1)
      else di_user src m t)"

definition di_properties :: "slice \<Rightarrow> disconnect \<Rightarrow> nat \<Rightarrow> disconnect outcome" where
  "di_properties src m t =
     (if at_is src t SessionExpirationInterval then
        run [\<lambda>m t. assign (rd_u32 src 0) (\<lambda>v. sessionExpiryInterval_update (\<lambda>_. v)) m t,
             stop ProtocolError (\<lambda>src m t. sessionExpiryInterval m = 0) src,
             \<lambda>m t. if at_is src t SessionExpirationInterval then Ret m t else di_reason src m t] m (t + 1)
      else di_reason src m t)"

definition di_variable :: "slice \<Rightarrow> disconnect \<Rightarrow> nat \<Rightarrow> disconnect outcome" where
  "di_variable src =
     run [\<lambda>m t. assign (rd_u8 src t) (\<lambda>v. reasonCode_update (\<lambda>_. v)) m t,
          stop ProtocolError (\<lambda>src m t. \<not> ValidDisconnectReasonCode (reasonCode m)) src,
          \<lambda>m t. if remlen m < 2 then Ret (m\<lparr>propertyLen := 0\<rparr>) t
                else run [\<lambda>m t. assign (read_lb src t) (\<lambda>v. propertyLen_update (\<lambda>_. v)) m t, di_properties src] m t]"

definition di_Decode :: "slice \<Rightarrow> disconnect \<Rightarrow> disconnect outcome" where
  "di_Decode src m =
     (case hdecode src m of
        Ret m1 hn \<Rightarrow> (if remlen m1 = 0 then Ret (m1\<lparr>reasonCode := Success\<rparr>) hn else di_variable src m1 hn)
      | r \<Rightarrow> r)"

section \<open>Encoding\<close>

definition di_plen :: "disconnect \<Rightarrow> nat" where
  "di_plen m =
     (if sessionExpiryInterval m > 0 then 5 else 0) + lp_len (reasonStr m) + buildUserPropertyLen (userProperty m) +
     lp_len (serverReference m)"

definition di_build :: "disconnect \<Rightarrow> disconnect option" where
  "di_build m0 =
     (let m = m0\<lparr>propertyLen := word_of_nat (di_plen m0)\<rparr> in
      if reasonCode m = Success \<and> propertyLen m = 0 then Some (fst (SetRemainingLength 0 m))
      else case lbEncode (propertyLen m) of
        None \<Rightarrow> None
      | Some b \<Rightarrow> Some (fst (SetRemainingLength (word_of_nat (1 + unat (propertyLen m) + length b)) m)))"

definition di_Len :: "disconnect \<Rightarrow> (disconnect \<times> nat) option" where "di_Len = plain_Len di_build"

definition di_w :: "disconnect \<Rightarrow> bytes \<Rightarrow> nat \<Rightarrow> bytes outcome" where
  "di_w m =
     guarded (\<not> (reasonCode m = Success \<and> remlen m = 0))
       (run [w_bytes [reasonCode m],
             w_lb (propertyLen m),
             guarded (sessionExpiryInterval m > 0) (run [w_bytes [SessionExpirationInterval], w_bytes (u32_bytes (sessionExpiryInterval m))]),
             guarded (length (reasonStr m) > 0) (run [w_bytes [ReasonString], writeLPBytes (reasonStr m)]),
             ignore_err (writeUserProperty (userProperty m)),
             guarded (length (serverReference m) > 0) (run [w_bytes [ServerReference], writeLPBytes (serverReference m)])])"

definition di_b :: "disconnect \<Rightarrow> bytes \<Rightarrow> nat \<Rightarrow> bytes outcome" where
  "di_b m =
     guarded (\<not> (reasonCode m = Success \<and> remlen m = 0))
       (run [b_bytes [reasonCode m],
             b_lb (propertyLen m),
             guarded (sessionExpiryInterval m > 0) (run [b_bytes [SessionExpirationInterval], b_bytes (u32_bytes (sessionExpiryInterval m))]),
             guarded (length (reasonStr m) > 0) (run [b_bytes [ReasonString], writeToBufLPBytes (reasonStr m)]),
             writeUserPropertyByBuf (userProperty m),
             guarded (length (serverReference m) > 0) (run [b_bytes [ServerReference], writeToBufLPBytes (serverReference m)])])"

definition di_Encode :: "disconnect \<Rightarrow> bytes \<Rightarrow> disconnect \<times> bytes outcome" where
  "di_Encode = plain_Encode ''disconnect/Encode: Insufficient buffer size.'' ''auth/Encode: Insufficient buffer size.'' di_build di_w"

definition di_EncodeToBuf :: "disconnect \<Rightarrow> bytes \<Rightarrow> disconnect \<times> bytes outcome" where
  "di_EncodeToBuf = plain_EncodeToBuf di_build di_b"

section \<open>PINGREQ and PINGRESP\<close>

definition NewPingreqMessage :: header where "NewPingreqMessage = fst (SetType PINGREQ empty_header)"
definition NewPingrespMessage :: header where "NewPingrespMessage = fst (SetType PINGRESP empty_header)"

definition ping_Decode :: "slice \<Rightarrow> header \<Rightarrow> header outcome" where "ping_Decode src m = hdecode src m"

definition ping_Encode :: "header \<Rightarrow> bytes \<Rightarrow> header \<times> bytes outcome" where
  "ping_Encode m dst =
     (if \<not> dirty m then
        (m, if length dst < slen (dbuf m) then Fail dst 0 (Errorf ''ping/Encode: Insufficient buffer size.'')
            else w_copy (vis (dbuf m)) dst 0)
      else hencode m dst 0)"

definition ping_EncodeToBuf :: "header \<Rightarrow> bytes \<Rightarrow> header \<times> bytes outcome" where
  "ping_EncodeToBuf m buf = (if \<not> dirty m then (m, Ret (buf @ vis (dbuf m)) (slen (dbuf m))) else hencodeToBuf m buf)"

section \<open>The packet a message stands for\<close>

definition di_props :: "disconnect \<Rightarrow> bytes" where
  "di_props m =
     (if sessionExpiryInterval m > 0 then SessionExpirationInterval # u32_bytes (sessionExpiryInterval m) else []) @
     (if length (reasonStr m) > 0 then ReasonString # lp_wire (reasonStr m) else []) @
     up_wire (userProperty m) @
     (if length (serverReference m) > 0 then ServerReference # lp_wire (serverReference m) else [])"

definition di_short :: "disconnect \<Rightarrow> bool" where
  "di_short m \<longleftrightarrow> reasonCode m = Success \<and> di_plen m = 0"

definition di_body :: "disconnect \<Rightarrow> bytes" where
  "di_body m = (if di_short m then [] else reasonCode m # lb_wire (di_plen m) @ di_props m)"

definition di_built :: "disconnect \<Rightarrow> disconnect" where
  "di_built m = m\<lparr>propertyLen := word_of_nat (di_plen m), remlen := word_of_nat (length (di_body m)), dirty := True\<rparr>"

definition di_wire :: "disconnect \<Rightarrow> bytes" where
  "di_wire m = header_wire (di_built m) @ di_body m"

definition di_ok :: "disconnect \<Rightarrow> bool" where
  "di_ok m \<longleftrightarrow>
     length (mtypeflags m) = 1 \<and> mtype m = DISCONNECT \<and> flags_ok m \<and> short (reasonStr m) \<and> short (serverReference m) \<and>
     list_all short (userProperty m) \<and> di_plen m \<le> 268435450"

lemma di_built_frame [simp]:
  "mtypeflags (di_built m) = mtypeflags m" "dirty (di_built m)" "reasonCode (di_built m) = reasonCode m"
  "sessionExpiryInterval (di_built m) = sessionExpiryInterval m" "reasonStr (di_built m) = reasonStr m"
  "userProperty (di_built m) = userProperty m" "serverReference (di_built m) = serverReference m"
  "di_plen (di_built m) = di_plen m" "di_props (di_built m) = di_props m"
  by (simp_all add: di_built_def di_plen_def di_props_def)

lemma length_di_props: "length (di_props m) = di_plen m"
  by (simp add: di_props_def di_plen_def length_wire lp_len_def)

lemma length_di_body:
  "length (di_body m) = (if di_short m then 0 else 1 + length (lb_wire (di_plen m)) + di_plen m)"
  by (simp add: di_body_def length_di_props)

lemma di_body_bound: "di_ok m \<Longrightarrow> length (di_body m) \<le> 268435455"
  using length_lb_wire [of "di_plen m"] by (simp add: length_di_body di_ok_def)

lemma di_unat:
  assumes "di_ok m"
  shows "unat (remlen (di_built m)) = length (di_body m)" "unat (propertyLen (di_built m)) = di_plen m"
  using di_body_bound [OF assms] assms by (simp_all add: di_built_def unat_small di_ok_def)

lemma di_build_built:
  assumes ok: "di_ok m" shows "di_build m = Some (di_built m)"
proof -
  have u: "unat (word_of_nat (di_plen m) :: u32) = di_plen m" using ok by (simp add: unat_small di_ok_def)
  then have z: "(word_of_nat (di_plen m) :: u32) = 0 \<longleftrightarrow> di_plen m = 0" by (metis unat_0 unat_eq_zero)
  have lb: "lbEncode (word_of_nat (di_plen m)) = Some (lb_wire (di_plen m))"
    using ok u by (simp add: lbEncode_spec word_less_nat_alt di_ok_def)
  have n: "\<not> (word_of_nat (length (di_body m)) :: u32) > maxRemainingLength"
    using di_body_bound [OF ok] by (simp add: maxRemainingLength_def word_less_nat_alt unat_small)
  show ?thesis
    using n lb by (auto simp: di_build_def Let_def z u di_short_def length_di_body SetRemainingLength_def di_built_def
        ac_simps maxRemainingLength_def)
qed

lemma di_emits:
  assumes ok: "di_ok m"
  shows "emits_w (di_w (di_built m)) (di_body m)" "emits_b (di_b (di_built m)) (di_body m)"
proof -
  let ?n = "di_built m"
  have s: "short (reasonStr ?n)" "short (serverReference ?n)" "list_all short (userProperty ?n)"
    and p: "propertyLen ?n < 268435456"
    using ok di_unat(2) [OF ok] by (simp_all add: di_ok_def word_less_nat_alt)
  have c: "reasonCode ?n = Success \<and> remlen ?n = 0 \<longleftrightarrow> di_short m"
    using di_unat(1) [OF ok] unat_eq_zero [of "remlen ?n"] by (auto simp: length_di_body di_short_def split: if_splits)
  have w: "di_body m = (if \<not> (reasonCode ?n = Success \<and> remlen ?n = 0) then
      [reasonCode ?n] @
      lb_wire (unat (propertyLen ?n)) @
      (if sessionExpiryInterval ?n > 0 then [SessionExpirationInterval] @ u32_bytes (sessionExpiryInterval ?n) @ [] else []) @
      (if length (reasonStr ?n) > 0 then [ReasonString] @ lp_wire (reasonStr ?n) @ [] else []) @
      up_wire (userProperty ?n) @
      (if length (serverReference ?n) > 0 then [ServerReference] @ lp_wire (serverReference ?n) @ [] else []) @ [] else [])"
    unfolding c by (simp add: di_body_def di_props_def di_unat(2) [OF ok])
  show "emits_w (di_w ?n) (di_body m)" unfolding di_w_def w by (intro emits s p)
  show "emits_b (di_b ?n) (di_body m)" unfolding di_b_def w by (intro emits s p)
qed

lemma di_header:
  assumes ok: "di_ok m"
  shows "header_ok (di_built m)" "flags_ok (di_built m)" "mtype (di_built m) = DISCONNECT"
proof -
  show t: "mtype (di_built m) = DISCONNECT" using ok mtype_cong [of "di_built m" m] by (simp add: di_ok_def)
  show "header_ok (di_built m)"
    using di_unat(1) [OF ok] di_body_bound [OF ok] ok
    by (simp add: header_ok_def t maxRemainingLength_def word_le_nat_alt) (simp add: di_ok_def type_Valid_def DISCONNECT_def)
  show "flags_ok (di_built m)" using ok flags_ok_cong [of "di_built m" m] by (simp add: di_ok_def)
qed

interpretation disconnect: plain_packet di_build di_built di_body di_ok di_w di_b
  using di_build_built di_header di_unat(1) di_emits by unfold_locales simp_all

section \<open>Decoding the packet\<close>

lemma eats_last: "eats b bs rest x y \<Longrightarrow> eats (\<lambda>src. run [b src]) bs rest x y"
  by (simp add: eats_def)

lemma di_user_eats:
  assumes "di_ok n" "even (length (userProperty n))" "serverReference x = []"
  shows "eats di_user (up_wire (userProperty n) @
      (if length (serverReference n) > 0 then ServerReference # lp_wire (serverReference n) else [])) [] x
    (x\<lparr>userProperty := userProperty n, serverReference := serverReference n\<rparr>)"
proof -
  have s: "list_all short (userProperty n)" "short (serverReference n)" using assms(1) by (simp_all add: di_ok_def)
  have nx: "not_next UserProperty ((if length (serverReference n) > 0 then ServerReference # lp_wire (serverReference n) else []) @ [])"
    by (simp add: ServerReference_def UserProperty_def)
  have r: "eats di_reference (if length (serverReference n) > 0 then ServerReference # lp_wire (serverReference n) else []) [] y
      (y\<lparr>serverReference := serverReference n\<rparr>)" if "serverReference y = []" for y
    unfolding di_reference_def
    by (rule eats_eq [OF eats_consumes [OF consumes_prop [OF consumes_lp]] refl]) (use s that in simp_all)
  have "eats di_user (up_wire (userProperty n) @
      (if length (serverReference n) > 0 then ServerReference # lp_wire (serverReference n) else [])) [] x
    (x\<lparr>userProperty := userProperty n, serverReference := serverReference n\<rparr>)"
    unfolding di_user_def
    by (rule eats_eq [OF eats_Cons [OF eats_consumes [OF consumes_up [OF s(1) assms(2)]] eats_last [OF r]]])
       (use nx assms(3) in simp_all)
  then show ?thesis by simp
qed

text \<open>A block behind an optional property that ends the decoder where the property is repeated.\<close>

lemma eats_prop_unless_again:
  assumes "\<And>src t. b src x t = (if at_is src t pid then run [\<lambda>m t. assign (read_lp src t) f m t,
      \<lambda>m t. if at_is src t pid then Ret m t else c src m t] x (t + 1) else c src x t)"
    and "short v" "not_next pid (cs @ rest)" "v \<noteq> [] \<Longrightarrow> eats c cs rest (f v x) y" "v = [] \<Longrightarrow> eats c cs rest x y"
  shows "eats b ((if length v > 0 then pid # lp_wire v else []) @ cs) rest x y"
proof (cases "v = []")
  case True
  then show ?thesis using assms(1,3,5) by (simp add: eats_def at_is_next)
next
  case False
  have lp: "assign (read_lp (Slice (pre @ pid # lp_wire v @ cs @ rest) ex) (Suc (length pre))) f x (Suc (length pre)) =
      Ret (f v x) (length (pre @ pid # lp_wire v))" for pre ex
    using eatsD [OF eats_consumes [OF consumes_lp [OF assms(2)]], of "Suc (length pre)" "pre @ [pid]" "cs @ rest" ex f x]
    by simp
  have nx: "\<not> at_is (Slice (pre @ pid # lp_wire v @ cs @ rest) ex) (Suc (length pre + length (lp_wire v))) pid" for pre ex
    using at_is_next [of "pre @ pid # lp_wire v" "cs @ rest" ex pid] assms(3) by simp
  have r: "c (Slice (pre @ pid # lp_wire v @ cs @ rest) ex) (f v x) (Suc (length pre + length (lp_wire v))) =
      Ret y (Suc (length pre + length (lp_wire v) + length cs))" for pre ex
    using eatsD [OF assms(4) [OF False], of "Suc (length pre + length (lp_wire v))" "pre @ pid # lp_wire v" ex] by simp
  show ?thesis
    unfolding eats_def assms(1) using False by (simp add: at_is_app lp nx r)
qed

lemma di_body_decoded:
  assumes ok: "di_ok n" and v: "ValidDisconnectReasonCode (reasonCode n)" and ev: "even (length (userProperty n))"
    and si: "sessionExpiryInterval n = 0" and ns: "\<not> di_short n"
    and x: "reasonStr x = []" "serverReference x = []" "remlen x = remlen (di_built n)"
  shows "eats di_variable (di_body n) [] x
    (x\<lparr>reasonCode := reasonCode n, propertyLen := word_of_nat (di_plen n), reasonStr := reasonStr n,
      userProperty := userProperty n, serverReference := serverReference n\<rparr>)"
proof -
  let ?tail = "up_wire (userProperty n) @ (if length (serverReference n) > 0 then ServerReference # lp_wire (serverReference n) else [])"
  have s: "short (reasonStr n)" "di_plen n < 268435456" using ok by (simp_all add: di_ok_def)
  have nx: "not_next ReasonString (?tail @ [])" "not_next SessionExpirationInterval (di_props n)"
    using si by (simp_all add: di_props_def ServerReference_def UserProperty_def ReasonString_def SessionExpirationInterval_def)
  have props: "eats di_properties (di_props n) [] y (y\<lparr>reasonStr := reasonStr n, userProperty := userProperty n,
      serverReference := serverReference n\<rparr>)" if y: "reasonStr y = []" "serverReference y = []" for y
  proof -
    have "eats di_reason ((if length (reasonStr n) > 0 then ReasonString # lp_wire (reasonStr n) else []) @ ?tail) [] y
        (y\<lparr>reasonStr := reasonStr n, userProperty := userProperty n, serverReference := serverReference n\<rparr>)"
    proof (rule eats_prop_unless_again [where c = di_user and f = "\<lambda>v. reasonStr_update (\<lambda>_. v)"])
      show "eats di_user ?tail [] (reasonStr_update (\<lambda>_. reasonStr n) y)
          (y\<lparr>reasonStr := reasonStr n, userProperty := userProperty n, serverReference := serverReference n\<rparr>)"
        using di_user_eats [OF ok ev, of "y\<lparr>reasonStr := reasonStr n\<rparr>"] y by simp
      show "eats di_user ?tail [] y
          (y\<lparr>reasonStr := reasonStr n, userProperty := userProperty n, serverReference := serverReference n\<rparr>)" if "reasonStr n = []"
      proof -
        have e: "y\<lparr>reasonStr := reasonStr n\<rparr> = y" using y(1) that by (cases y) simp
        show ?thesis using di_user_eats [OF ok ev y(2)] by (simp only: e)
      qed
    qed (use s nx in \<open>simp_all add: di_reason_def\<close>)
    then have "eats di_reason (di_props n) [] y
        (y\<lparr>reasonStr := reasonStr n, userProperty := userProperty n, serverReference := serverReference n\<rparr>)"
      by (simp add: di_props_def si)
    then show ?thesis
      using nx(2) by (simp add: eats_def di_properties_def at_is_next)
  qed
  have long: "\<not> remlen x < 2"
    using di_unat(1) [OF ok] ns x(3) by (cases "lb_wire (di_plen n)") (simp_all add: length_di_body word_less_nat_alt)
  have w: "di_body n = [reasonCode n] @ [] @ (lb_wire (di_plen n) @ di_props n)" using ns by (simp add: di_body_def)
  have rest: "eats (\<lambda>src. run [\<lambda>m t. assign (read_lb src t) (\<lambda>v. propertyLen_update (\<lambda>_. v)) m t, di_properties src])
      (lb_wire (di_plen n) @ di_props n) [] y
      (y\<lparr>propertyLen := word_of_nat (di_plen n), reasonStr := reasonStr n, userProperty := userProperty n,
        serverReference := serverReference n\<rparr>)" if y: "reasonStr y = []" "serverReference y = []" for y
    by (rule eats_eq [OF eats_Cons [OF eats_consumes [OF consumes_lb [OF s(2)]] eats_last [OF props]]])
       (use y in simp_all)
  have plen: "eats (\<lambda>src m t. if remlen m < 2 then Ret (m\<lparr>propertyLen := 0\<rparr>) t
        else run [\<lambda>m t. assign (read_lb src t) (\<lambda>v. propertyLen_update (\<lambda>_. v)) m t, di_properties src] m t)
      (lb_wire (di_plen n) @ di_props n) [] (x\<lparr>reasonCode := reasonCode n\<rparr>)
      (x\<lparr>reasonCode := reasonCode n, propertyLen := word_of_nat (di_plen n), reasonStr := reasonStr n,
        userProperty := userProperty n, serverReference := serverReference n\<rparr>)"
    using rest [of "x\<lparr>reasonCode := reasonCode n\<rparr>"] x(1,2) long by (simp add: eats_def)
  show ?thesis
    unfolding di_variable_def w
    by (rule eats_Cons [OF eats_consumes [OF consumes_u8 [where f = "\<lambda>v. reasonCode_update (\<lambda>_. v)"]] eats_Cons [OF eats_test(1) eats_last [OF plen]]])
       (use v in simp)
qed

lemma NewDisconnectMessage_eq:
  "NewDisconnectMessage =
     \<lparr>remlen = 0, mtypeflags = [0xE0], packetId = [], dbuf = Slice [] [], dirty = True,
       reasonCode = 0, propertyLen = 0, sessionExpiryInterval = 0, reasonStr = [], serverReference = [],
       userProperty = []\<rparr>"
  by code_simp

lemma di_Decode_wire:
  assumes ok: "di_ok n" and v: "ValidDisconnectReasonCode (reasonCode n)" and ev: "even (length (userProperty n))"
    and si: "sessionExpiryInterval n = 0"
  shows "\<exists>m'. di_Decode (Slice (di_wire n) ex) NewDisconnectMessage = Ret m' (length (di_wire n)) \<and>
    reasonCode m' = reasonCode n \<and> reasonStr m' = reasonStr n \<and> userProperty m' = userProperty n \<and>
    serverReference m' = serverReference n"
proof -
  define x1 where "x1 = NewDisconnectMessage\<lparr>dbuf := Slice (di_wire n) ex, mtypeflags := mtypeflags n, remlen := remlen (di_built n)\<rparr>"
  have m0: "length (mtypeflags NewDisconnectMessage) = 1" "mtype NewDisconnectMessage = DISCONNECT"
    by (simp_all add: NewDisconnectMessage_eq mtype_def alloc_flags_def DISCONNECT_def)
  have h: "hdecode (Slice (di_wire n) ex) NewDisconnectMessage = Ret x1 (length (header_wire (di_built n)))"
    using disconnect.header_decoded [OF ok refl _ m0(1), of ex] m0(2) di_header(3) [OF ok]
    by (simp add: di_wire_def x1_def remlen_optional_def type_defs)
  show ?thesis
  proof (cases "di_short n")
    case True
    then have "di_body n = []" by (simp add: di_body_def)
    then have "remlen x1 = 0" using di_unat(1) [OF ok] unat_eq_zero [of "remlen (di_built n)"] by (simp add: x1_def)
    moreover have "reasonStr n = []" "userProperty n = []" "serverReference n = []" "reasonCode n = Success"
      using True by (auto simp: di_short_def di_plen_def lp_len_def split: if_splits elim: buildUserPropertyLen.elims)
    ultimately show ?thesis
      using h \<open>di_body n = []\<close> by (simp add: di_Decode_def di_wire_def) (simp add: x1_def NewDisconnectMessage_eq)
  next
    case False
    have x: "reasonStr x1 = []" "serverReference x1 = []" "remlen x1 = remlen (di_built n)"
      by (simp_all add: x1_def NewDisconnectMessage_eq)
    have "length (di_body n) \<noteq> 0" using False by (simp add: di_body_def)
    then have "remlen x1 \<noteq> 0" using di_unat(1) [OF ok] by (auto simp: x1_def)
    moreover have "di_variable (Slice (di_wire n) ex) x1 (length (header_wire (di_built n))) =
        Ret (x1\<lparr>reasonCode := reasonCode n, propertyLen := word_of_nat (di_plen n), reasonStr := reasonStr n,
          userProperty := userProperty n, serverReference := serverReference n\<rparr>) (length (di_wire n))"
      using eatsD [OF di_body_decoded [OF ok v ev si False x] refl, of "header_wire (di_built n)" ex]
      by (simp add: di_wire_def)
    ultimately show ?thesis by (simp add: di_Decode_def h)
  qed
qed

text \<open>A DISCONNECT that is dirty and can be sent is written to a slice and to a buffer as the same packet,
  whose length \<open>Len\<close> reports; where it carries no session expiry interval, a new DISCONNECT that
  decodes the packet gets the reason code and the properties back.\<close>

theorem disconnect_codec:
  assumes "dirty n" "di_ok n" "length (di_wire n) \<le> length dst"
  shows "di_Len n = Some (di_built n, length (di_wire n)) \<and>
    di_Encode n dst = (di_built n, Ret (di_wire n @ drop (length (di_wire n)) dst) (length (di_wire n))) \<and>
    di_EncodeToBuf n buf = (di_built n, Ret (buf @ di_wire n) (length buf + length (di_wire n))) \<and>
    (ValidDisconnectReasonCode (reasonCode n) \<and> even (length (userProperty n)) \<and> sessionExpiryInterval n = 0 \<longrightarrow>
      (\<exists>m'. di_Decode (Slice (di_wire n) ex) NewDisconnectMessage = Ret m' (length (di_wire n)) \<and>
        reasonCode m' = reasonCode n \<and> reasonStr m' = reasonStr n \<and> userProperty m' = userProperty n \<and>
        serverReference m' = serverReference n))"
  using disconnect.encoders_agree [OF assms(1,2), folded di_wire_def, OF assms(3)] di_Decode_wire [OF assms(2)]
  by (simp add: di_Len_def di_Encode_def di_EncodeToBuf_def)

section \<open>Witnesses\<close>

definition demo_disconnect :: disconnect where
  "demo_disconnect = AddUserPropertys [[107], [118]] (NewDiscMessageWithCodeInfo 0x97 [113])"

lemma demo_disconnect_eq:
  "demo_disconnect =
     \<lparr>remlen = 0, mtypeflags = [0xE0], packetId = [], dbuf = Slice [] [], dirty = True,
       reasonCode = 0x97, propertyLen = 0, sessionExpiryInterval = 0, reasonStr = [113], serverReference = [],
       userProperty = [[107], [118]]\<rparr>"
  by code_simp

lemma demo_disconnect_ok: "di_ok demo_disconnect" "length (di_wire demo_disconnect) \<le> 64"
proof -
  have "mtype demo_disconnect = DISCONNECT" "flags_ok demo_disconnect" "di_plen demo_disconnect = 11" by code_simp+
  then show ok: "di_ok demo_disconnect" by (simp add: di_ok_def) (simp add: demo_disconnect_eq short_def)
  have "length (di_body demo_disconnect) \<le> 16"
    using \<open>di_plen demo_disconnect = 11\<close> length_lb_wire [of 11] by (simp add: length_di_body)
  moreover have "length (lb_wire (unat (remlen (di_built demo_disconnect)))) \<le> 4"
    using di_body_bound [OF ok] by (intro length_lb_wire) (simp add: di_unat(1) [OF ok])
  ultimately show "length (di_wire demo_disconnect) \<le> 64" by (simp add: di_wire_def header_wire_def)
qed

theorem disconnect_codec_witness:
  "di_Encode demo_disconnect (replicate 64 0) =
      (di_built demo_disconnect, Ret (di_wire demo_disconnect @ drop (length (di_wire demo_disconnect)) (replicate 64 0))
        (length (di_wire demo_disconnect))) \<and>
    (\<exists>m'. di_Decode (Slice (di_wire demo_disconnect) []) NewDisconnectMessage = Ret m' (length (di_wire demo_disconnect)) \<and>
      reasonCode m' = 0x97 \<and> reasonStr m' = [113] \<and> userProperty m' = [[107], [118]])"
proof -
  have d: "dirty demo_disconnect" "ValidDisconnectReasonCode (reasonCode demo_disconnect)"
    "even (length (userProperty demo_disconnect))" "sessionExpiryInterval demo_disconnect = 0"
    "reasonCode demo_disconnect = 0x97" "reasonStr demo_disconnect = [113]" "userProperty demo_disconnect = [[107], [118]]"
    by (simp_all add: demo_disconnect_eq ValidDisconnectReasonCode_def)
  have l: "length (di_wire demo_disconnect) \<le> length (replicate 64 (0 :: byte))" using demo_disconnect_ok(2) by simp
  show ?thesis
    using disconnect_codec [OF d(1) demo_disconnect_ok(1) l, of "[]" "[]"] d(2-7) by auto
qed

section \<open>Remarks\<close>

text \<open>Wherever the session expiry interval stands, its value is read from the first four bytes of the packet.\<close>

lemma expiry_from_packet_start:
  "at_is (Slice (a # b # c # d # bs) ex) t SessionExpirationInterval \<Longrightarrow> u32_of a b c d \<noteq> 0 \<Longrightarrow>
     at_is (Slice (a # b # c # d # bs) ex) (t + 5) SessionExpirationInterval \<Longrightarrow>
     di_properties (Slice (a # b # c # d # bs) ex) m t = Ret (m\<lparr>sessionExpiryInterval := u32_of a b c d\<rparr>) (t + 5)"
  by (simp add: di_properties_def rd_u32_def sfrom_def slen_def assign_def stop_def add.commute)

end
