(* ===== verification/Session.thy ===== *)
theory Session
  imports AckQueue Publish Connect SubTree
begin

text \<open>
  The session of a client, \<open>corev5/v2/sessions/impl/mem_session.go\<close>: its six acknowledgement queues,
  the CONNECT message it was opened with, the will, the subscriptions and the topic aliases. A Go
  map is an association list; where the code ranges over one, its order is the order of the list.
\<close>

section \<open>State\<close>

datatype status = NULL | ONLINE | OFFLINE

record 'c session =
  ss_pub1ack :: "'c ackqueue"
  ss_pub2in :: "'c ackqueue"
  ss_pub2out :: "'c ackqueue"
  ss_suback :: "'c ackqueue"
  ss_unsuback :: "'c ackqueue"
  ss_pingack :: "'c ackqueue"
  ss_cmessage :: connect
  ss_status :: status
  ss_offlineTime :: int
  ss_will :: "publish option"
  ss_cbuf :: bytes
  ss_topics :: "(bytes \<times> sub) list"
  ss_topicAlice :: "(u16 \<times> bytes) list"
  ss_topicAliceRe :: "(bytes \<times> u16) list"
  ss_initted :: bool
  ss_stop :: "8 word"
  ss_id :: bytes

definition defaultQueueSize :: u64 where "defaultQueueSize = drop_bit 2 1024"

text \<open>The queues of a session that is not initialised are nil; \<open>no_queue\<close> stands for them.\<close>

definition no_queue :: "'c ackqueue" where
  "no_queue = \<lparr>aq_size = 0, aq_mask = 0, aq_count = 0, aq_head = 0, aq_tail = 0, aq_ping = no_ackmsg, aq_ring = [],
     aq_emap = [], aq_ackdone = []\<rparr>"

definition NewMemSessionByCon :: "connect \<Rightarrow> 'c session" where
  "NewMemSessionByCon con =
     \<lparr>ss_pub1ack = no_queue, ss_pub2in = no_queue, ss_pub2out = no_queue, ss_suback = no_queue,
      ss_unsuback = no_queue, ss_pingack = no_queue, ss_cmessage = con, ss_status = NULL, ss_offlineTime = 0,
      ss_will = None, ss_cbuf = [], ss_topics = [], ss_topicAlice = [], ss_topicAliceRe = [], ss_initted = False,
      ss_stop = 0, ss_id = []\<rparr>"

definition NewMemSession :: "bytes \<Rightarrow> 'c session" where
  "NewMemSession i = (NewMemSessionByCon NewConnectMessage)\<lparr>ss_id := i\<rparr>"

section \<open>Operations\<close>

text \<open>
  The packet of the CONNECT message is kept and decoded into the session's own message. The result
  is the message as its encoder leaves it, the session and the error; a panic of the codec is \<open>None\<close>.
\<close>

definition keep_connect ::
    "connect \<Rightarrow> 'c session \<Rightarrow> (connect \<times> 'c session \<times> goerr option) option" where
  "keep_connect msg s =
     (case conn_Len msg of
        None \<Rightarrow> None
      | Some (msg1, l) \<Rightarrow>
          (case conn_Encode msg1 (replicate l 0) of
             (msg2, Panic) \<Rightarrow> None
           | (msg2, Fail d n e) \<Rightarrow> Some (msg2, s\<lparr>ss_cbuf := d\<rparr>, Some e)
           | (msg2, Ret d n) \<Rightarrow>
               (case conn_Decode (Slice d []) (ss_cmessage s) of
                  Panic \<Rightarrow> None
                | Fail cm n e \<Rightarrow> Some (msg2, s\<lparr>ss_cbuf := d, ss_cmessage := cm\<rparr>, Some e)
                | Ret cm n \<Rightarrow> Some (msg2, s\<lparr>ss_cbuf := d, ss_cmessage := cm\<rparr>, None))))"

text \<open>The will message of a CONNECT; the errors of the setters are dropped.\<close>

definition will_of :: "connect \<Rightarrow> publish" where
  "will_of cm =
     SetMessageExpiryInterval (willMsgExpiryInterval cm)
       (SetRetain (WillRetain cm)
         (SetPayload (willMessage cm)
           (fst (SetTopic (willTopic cm) (fst (SetQoS (WillQos cm) NewPublishMessage))))))"

definition sess_Init ::
    "connect \<Rightarrow> sub list \<Rightarrow> 'c session \<Rightarrow> (connect \<times> 'c session \<times> goerr option) option" where
  "sess_Init msg tps s =
     (if ss_initted s then Some (msg, s, Some (Errorf ''session already initialized''))
      else case keep_connect msg s of
        None \<Rightarrow> None
      | Some (msg', s1, Some e) \<Rightarrow> Some (msg', s1, Some e)
      | Some (msg', s1, None) \<Rightarrow>
          (let cm = ss_cmessage s1;
               s2 = (if WillFlag cm then s1\<lparr>ss_will := Some (will_of cm)\<rparr> else s1)
           in Some (msg', s2\<lparr>ss_topicAlice := [], ss_topicAliceRe := [], ss_id := clientId msg',
                ss_pub1ack := newAckqueue (push_bit 1 defaultQueueSize),
                ss_pub2in := newAckqueue (push_bit 1 defaultQueueSize),
                ss_pub2out := newAckqueue (push_bit 1 defaultQueueSize),
                ss_suback := newAckqueue (drop_bit 4 defaultQueueSize),
                ss_unsuback := newAckqueue (drop_bit 4 defaultQueueSize),
                ss_pingack := newAckqueue (drop_bit 4 defaultQueueSize),
                ss_topics := fold (\<lambda>sb. AList.update (subTopic sb) sb) tps [],
                ss_status := ONLINE, ss_initted := True\<rparr>, None)))"

definition sess_Update :: "connect \<Rightarrow> 'c session \<Rightarrow> (connect \<times> 'c session \<times> goerr option) option" where
  "sess_Update msg s =
     (case keep_connect msg (s\<lparr>ss_cmessage := NewConnectMessage\<rparr>) of
        Some (msg', s1, None) \<Rightarrow> Some (msg', s1\<lparr>ss_stop := 1\<rparr>, None)
      | r \<Rightarrow> r)"

definition AddTopicAlice :: "bytes \<Rightarrow> u16 \<Rightarrow> 'c session \<Rightarrow> 'c session" where
  "AddTopicAlice tp a s =
     s\<lparr>ss_topicAlice := AList.update a tp (ss_topicAlice s), ss_topicAliceRe := AList.update tp a (ss_topicAliceRe s)\<rparr>"

definition GetTopicAlice :: "bytes \<Rightarrow> 'c session \<Rightarrow> u16 option" where
  "GetTopicAlice tp s = map_of (ss_topicAliceRe s) tp"

definition GetAliceTopic :: "u16 \<Rightarrow> 'c session \<Rightarrow> bytes option" where
  "GetAliceTopic a s = map_of (ss_topicAlice s) a"

definition sess_AddTopic :: "sub \<Rightarrow> 'c session \<Rightarrow> 'c session \<times> goerr option" where
  "sess_AddTopic sb s =
     (if \<not> ss_initted s then (s, Some (Errorf ''session not yet initialized''))
      else (s\<lparr>ss_topics := AList.update (subTopic sb) sb (ss_topics s)\<rparr>, None))"

definition sess_RemoveTopic :: "bytes \<Rightarrow> 'c session \<Rightarrow> 'c session \<times> goerr option" where
  "sess_RemoveTopic tp s =
     (if \<not> ss_initted s then (s, Some (Errorf ''session not yet initialized''))
      else (s\<lparr>ss_topics := AList.delete tp (ss_topics s)\<rparr>, None))"

definition no_sub :: sub where
  "no_sub = \<lparr>subTopic = [], subQos = 0, subNoLocal = False, subRetainAsPublished = False, subRetainHandling = 0, subSubIdentifier = 0\<rparr>"

definition sess_SubOption :: "bytes \<Rightarrow> 'c session \<Rightarrow> sub" where
  "sess_SubOption tp s = (case map_of (ss_topics s) tp of None \<Rightarrow> no_sub | Some sb \<Rightarrow> sb)"

definition sess_Topics :: "'c session \<Rightarrow> goerr + sub list" where
  "sess_Topics s =
     (if \<not> ss_initted s then Inl (Errorf ''session not yet initialized'') else Inr (map snd (ss_topics s)))"

text \<open>Reading the will switches \<open>stop\<close> between 1 and 2.\<close>

definition sess_Will :: "'c session \<Rightarrow> 'c session \<times> publish option" where
  "sess_Will s = (s\<lparr>ss_stop := (if ss_stop s = 1 then 2 else 1)\<rparr>, ss_will s)"

definition sess_SetWill :: "publish option \<Rightarrow> 'c session \<Rightarrow> 'c session" where "sess_SetWill w s = s\<lparr>ss_will := w\<rparr>"
definition sess_SetStatus :: "status \<Rightarrow> 'c session \<Rightarrow> 'c session" where "sess_SetStatus st s = s\<lparr>ss_status := st\<rparr>"
definition sess_SetOfflineTime :: "int \<Rightarrow> 'c session \<Rightarrow> 'c session" where "sess_SetOfflineTime i s = s\<lparr>ss_offlineTime := i\<rparr>"

definition sess_TopicAliasMax :: "'c session \<Rightarrow> u16" where "sess_TopicAliasMax s = topicAliasMax (ss_cmessage s)"
definition sess_ReceiveMaximum :: "'c session \<Rightarrow> u16" where "sess_ReceiveMaximum s = receiveMaximum (ss_cmessage s)"
definition sess_ClientId :: "'c session \<Rightarrow> bytes" where "sess_ClientId s = clientId (ss_cmessage s)"
definition sess_ExpiryInterval :: "'c session \<Rightarrow> u32" where "sess_ExpiryInterval s = sessionExpiryInterval (ss_cmessage s)"

definition sess_SetClientId :: "bytes \<Rightarrow> 'c session \<Rightarrow> 'c session" where
  "sess_SetClientId v s = s\<lparr>ss_cmessage := fst (SetClientId v (ss_cmessage s))\<rparr>"

definition sess_SetExpiryInterval :: "u32 \<Rightarrow> 'c session \<Rightarrow> 'c session" where
  "sess_SetExpiryInterval v s = s\<lparr>ss_cmessage := SetSessionExpiryInterval v (ss_cmessage s)\<rparr>"

section \<open>Well-formed sessions\<close>

definition sess_ok :: "'c session \<Rightarrow> bool" where
  "sess_ok s \<longleftrightarrow>
     ss_initted s \<and> aq_inv (ss_pub1ack s) \<and> aq_inv (ss_pub2in s) \<and> aq_inv (ss_pub2out s) \<and> aq_inv (ss_suback s) \<and>
     aq_inv (ss_unsuback s) \<and> aq_inv (ss_pingack s) \<and> distinct (map fst (ss_topics s)) \<and>
     list_all (\<lambda>(tp, sb). subTopic sb = tp) (ss_topics s)"

lemma conn_built_again:
  assumes "conn_ok m"
  shows "conn_built (conn_built m) = conn_built m" "conn_ok (conn_built m)" "conn_wire (conn_built m) = conn_wire m"
proof -
  have l: "conn_plen (conn_built m) = conn_plen m" "conn_wplen (conn_built m) = conn_wplen m"
    by (simp_all add: conn_plen_def conn_wplen_def)
  have b: "conn_body (conn_built m) = conn_body m"
    by (simp add: conn_body_def conn_fixed_def will_wire_def login_wire_def l)
  show i: "conn_built (conn_built m) = conn_built m"
    unfolding conn_built_def [of "conn_built m"] l b by (simp add: conn_built_def)
  have "conn_flags_ok (conn_built m) = conn_flags_ok m" by (simp add: conn_flags_ok_def)
  then show "conn_ok (conn_built m)"
    using assms conn_header [OF assms] by (simp add: conn_ok_def b)
  show "conn_wire (conn_built m) = conn_wire m" by (simp add: conn_wire_def i b)
qed

text \<open>What a new session keeps of the CONNECT message.\<close>

lemma keep_connect_received:
  assumes "dirty msg" "conn_ok msg" "conn_readable msg" "ss_cmessage s = NewConnectMessage"
  shows "keep_connect msg s = Some (conn_built msg, s\<lparr>ss_cbuf := conn_wire msg,
    ss_cmessage := (conn_received msg (NewConnectMessage\<lparr>dbuf := Slice (conn_wire msg) [], mtypeflags := mtypeflags msg,
      remlen := remlen (conn_built msg)\<rparr>))\<lparr>dirty := False\<rparr>\<rparr>, None)"
proof -
  note again = conn_built_again [OF assms(2)]
  have r: "conn_refused (conn_built msg) = None"
    using again(2) by (simp add: conn_refused_def conn_ok_def SupportedVersions_def)
  have l: "conn_Len msg = Some (conn_built msg, length (conn_wire msg))"
    using connect.encoders_agree(1) [OF assms(1,2), folded conn_wire_def, of "replicate (length (conn_wire msg)) 0"]
    by (simp add: conn_Len_def)
  have e: "conn_Encode (conn_built msg) (replicate (length (conn_wire msg)) 0) =
      (conn_built msg, Ret (conn_wire msg) (length (conn_wire msg)))"
    using connect.encoders_agree(2) [OF _ again(2), folded conn_wire_def, of "replicate (length (conn_wire msg)) 0"] again(1,3)
    by (simp add: conn_Encode_def r)
  have f: "fresh NewConnectMessage" "fresh_will NewConnectMessage" "length (mtypeflags NewConnectMessage) = 1"
    "mtype NewConnectMessage = CONNECT"
    by (simp_all add: NewConnectMessage_eq fresh_def fresh_will_def mtype_def alloc_flags_def CONNECT_def)
  show ?thesis
    unfolding keep_connect_def assms(4) by (simp add: l e conn_Decode_wire [OF assms(2,3) f])
qed

lemma topics_ok:
  assumes "distinct (map fst ts)" "list_all (\<lambda>(tp, sb). subTopic sb = tp) ts"
  shows "distinct (map fst (fold (\<lambda>sb. AList.update (subTopic sb) sb) tps ts)) \<and>
    list_all (\<lambda>(tp, sb). subTopic sb = tp) (fold (\<lambda>sb. AList.update (subTopic sb) sb) tps ts)"
  using assms
proof (induction tps arbitrary: ts)
  case (Cons sb tps)
  have "list_all (\<lambda>(tp, sb). subTopic sb = tp) (AList.update (subTopic sb) sb ts)"
    using Cons.prems by (auto simp: list_all_iff set_AList_update)
  then show ?case using Cons by (simp add: distinct_keys_update)
qed simp

lemma queue_sizes: "unat (push_bit 1 defaultQueueSize) = 512" "unat (drop_bit 4 defaultQueueSize) = 16"
  by code_simp+

lemma new_queues:
  "aq_inv (newAckqueue (push_bit 1 defaultQueueSize))" "aq_inv (newAckqueue (drop_bit 4 defaultQueueSize))"
  "aq_list (newAckqueue (push_bit 1 defaultQueueSize)) = []"
proof -
  show "aq_inv (newAckqueue (push_bit 1 defaultQueueSize))" "aq_inv (newAckqueue (drop_bit 4 defaultQueueSize))"
    by (rule newAckqueue_inv(1); simp only: queue_sizes; simp)+
  have "aq_view (newAckqueue (push_bit 1 defaultQueueSize) :: 'c ackqueue) = ([], no_ackmsg)"
    by (rule newAckqueue_inv(2); simp only: queue_sizes; simp)
  then show "aq_list (newAckqueue (push_bit 1 defaultQueueSize) :: 'c ackqueue) = []" by (simp add: aq_view_def)
qed

text \<open>A new session that is opened with a CONNECT message a client can send is initialised without an
  error: its message holds the client's flags and properties, its will is the client's will, and its
  queues are empty.\<close>

theorem sess_Init_received:
  assumes "dirty msg" "conn_ok msg" "conn_readable msg" "ss_cmessage s = NewConnectMessage" "\<not> ss_initted s" "ss_will s = None"
  shows "\<exists>s'. sess_Init msg tps s = Some (conn_built msg, s', None) \<and> sess_ok s' \<and> ss_status s' = ONLINE \<and>
    ss_id s' = clientId msg \<and> connectFlags (ss_cmessage s') = connectFlags msg \<and>
    sess_TopicAliasMax s' = topicAliasMax msg \<and> sess_ExpiryInterval s' = sessionExpiryInterval msg \<and>
    requestProblemInfo (ss_cmessage s') = requestProblemInfo msg \<and>
    ss_will s' = (if WillFlag msg then Some (will_of msg) else None) \<and>
    (\<forall>a. GetAliceTopic a s' = None) \<and> (\<forall>tp. GetTopicAlice tp s' = None) \<and>
    aq_list (ss_pub2in s') = [] \<and> aq_list (ss_pub1ack s') = [] \<and> aq_list (ss_pub2out s') = []"
proof -
  show ?thesis
    using topics_ok [of "[]" tps]
    by (simp add: sess_Init_def assms(5) keep_connect_received [OF assms(1-4)] Let_def)
       (auto simp: sess_ok_def conn_received_def cn_payload_read_def cn_will_read_def cn_clientId_read_def cn_props_read_def
        cn_start_read_def NewConnectMessage_eq Let_def new_queues new_queues [simplified] WillFlag_def will_of_def WillRetain_def WillQos_def
        sess_TopicAliasMax_def sess_ExpiryInterval_def GetAliceTopic_def GetTopicAlice_def assms(6))
qed

text \<open>
  An alias that is given to a second topic stays with the first one in the map the code uses for
  outgoing messages.
\<close>

lemma stale_alias:
  "t1 \<noteq> t2 \<Longrightarrow> GetTopicAlice t1 (AddTopicAlice t2 a (AddTopicAlice t1 a s)) = Some a \<and>
     GetAliceTopic a (AddTopicAlice t2 a (AddTopicAlice t1 a s)) = Some t2"
  by (simp add: GetTopicAlice_def GetAliceTopic_def AddTopicAlice_def alist_simps)

theorem sess_Init_received_witness:
  "\<exists>s'. sess_Init demo_connect [] (NewMemSession [1] :: unit session) = Some (conn_built demo_connect, s', None) \<and> sess_ok s' \<and>
    ss_id s' = [100, 101, 118] \<and> sess_ExpiryInterval s' = 300 \<and> ss_will s' = Some (will_of demo_connect)"
proof -
  have "dirty demo_connect" "ss_cmessage (NewMemSession [1] :: unit session) = NewConnectMessage"
    "\<not> ss_initted (NewMemSession [1] :: unit session)" "ss_will (NewMemSession [1] :: unit session) = None"
    by (simp_all add: NewMemSession_def NewMemSessionByCon_def demo_connect_eq)
  from sess_Init_received [OF this(1) demo_connect_ok demo_connect_flags(4) this(2-4), of "[]"] show ?thesis
    using demo_connect_flags(1) by (auto simp: demo_connect_eq)
qed

end
