(* ===== verification/Message.thy ===== *)
theory Message
  imports Session AckPackets Subscribe Unsubscribe SubackPackets Disconnect
begin

text \<open>
  The interface \<open>Message\<close> (\<open>corev5/v2/message/message.go\<close>): a message of any type, its \<open>Len\<close>, \<open>Encode\<close> and
  \<open>Decode\<close>, the constructor \<open>New\<close> of a message type, and the operations the acknowledgement
  queue uses. CONNECT, CONNACK and AUTH stand here with their type only: once a connection is open
  they are refused, and nothing encodes or decodes them.
\<close>

datatype mqtt =
    MPublish publish
  | MPuback puback
  | MPubrec puback
  | MPubrel puback
  | MPubcomp puback
  | MSubscribe subscribe
  | MSuback suback
  | MUnsubscribe unsubscribe
  | MUnsuback suback
  | MPingreq header
  | MPingresp header
  | MDisconnect disconnect
  | MOther byte

fun mqtt_type :: "mqtt \<Rightarrow> byte" where
  "mqtt_type (MPublish m) = mtype m"
| "mqtt_type (MPuback m) = mtype m"
| "mqtt_type (MPubrec m) = mtype m"
| "mqtt_type (MPubrel m) = mtype m"
| "mqtt_type (MPubcomp m) = mtype m"
| "mqtt_type (MSubscribe m) = mtype m"
| "mqtt_type (MSuback m) = mtype m"
| "mqtt_type (MUnsubscribe m) = mtype m"
| "mqtt_type (MUnsuback m) = mtype m"
| "mqtt_type (MPingreq m) = mtype m"
| "mqtt_type (MPingresp m) = mtype m"
| "mqtt_type (MDisconnect m) = mtype m"
| "mqtt_type (MOther t) = t"

fun mqtt_pid :: "mqtt \<Rightarrow> u16" where
  "mqtt_pid (MPublish m) = PacketId m"
| "mqtt_pid (MPuback m) = PacketId m"
| "mqtt_pid (MPubrec m) = PacketId m"
| "mqtt_pid (MPubrel m) = PacketId m"
| "mqtt_pid (MPubcomp m) = PacketId m"
| "mqtt_pid (MSubscribe m) = PacketId m"
| "mqtt_pid (MSuback m) = PacketId m"
| "mqtt_pid (MUnsubscribe m) = PacketId m"
| "mqtt_pid (MUnsuback m) = PacketId m"
| "mqtt_pid (MPingreq m) = PacketId m"
| "mqtt_pid (MPingresp m) = PacketId m"
| "mqtt_pid (MDisconnect m) = PacketId m"
| "mqtt_pid (MOther t) = 0"

text \<open>The dynamic type, as the type switches of the code tell it.\<close>

fun mqtt_dyn :: "mqtt \<Rightarrow> byte" where
  "mqtt_dyn (MPublish m) = PUBLISH"
| "mqtt_dyn (MPuback m) = PUBACK"
| "mqtt_dyn (MPubrec m) = PUBREC"
| "mqtt_dyn (MPubrel m) = PUBREL"
| "mqtt_dyn (MPubcomp m) = PUBCOMP"
| "mqtt_dyn (MSubscribe m) = SUBSCRIBE"
| "mqtt_dyn (MSuback m) = SUBACK"
| "mqtt_dyn (MUnsubscribe m) = UNSUBSCRIBE"
| "mqtt_dyn (MUnsuback m) = UNSUBACK"
| "mqtt_dyn (MPingreq m) = PINGREQ"
| "mqtt_dyn (MPingresp m) = PINGRESP"
| "mqtt_dyn (MDisconnect m) = DISCONNECT"
| "mqtt_dyn (MOther t) = t"

fun mqtt_New :: "byte \<Rightarrow> goerr + mqtt" where
  "mqtt_New t =
     (if t = PUBLISH then Inr (MPublish NewPublishMessage)
      else if t = PUBACK then Inr (MPuback NewPubackMessage)
      else if t = PUBREC then Inr (MPubrec NewPubrecMessage)
      else if t = PUBREL then Inr (MPubrel NewPubrelMessage)
      else if t = PUBCOMP then Inr (MPubcomp NewPubcompMessage)
      else if t = SUBSCRIBE then Inr (MSubscribe NewSubscribeMessage)
      else if t = SUBACK then Inr (MSuback NewSubackMessage)
      else if t = UNSUBSCRIBE then Inr (MUnsubscribe NewUnsubscribeMessage)
      else if t = UNSUBACK then Inr (MUnsuback NewUnsubackMessage)
      else if t = PINGREQ then Inr (MPingreq NewPingreqMessage)
      else if t = PINGRESP then Inr (MPingresp NewPingrespMessage)
      else if t = DISCONNECT then Inr (MDisconnect NewDisconnectMessage)
      else if t = CONNECT \<or> t = 2 \<or> t = AUTH then Inr (MOther t)
      else Inl (Errorf ''msgtype/NewMessage: Invalid message type''))"

declare mqtt_New.simps [simp del]

text \<open>An outcome of a codec of one message type, as one of messages.\<close>

fun lift_out :: "('m \<Rightarrow> mqtt) \<Rightarrow> 'm outcome \<Rightarrow> mqtt outcome" where
  "lift_out C (Ret m n) = Ret (C m) n"
| "lift_out C (Fail m n e) = Fail (C m) n e"
| "lift_out C Panic = Panic"

fun mqtt_Decode :: "slice \<Rightarrow> mqtt \<Rightarrow> mqtt outcome" where
  "mqtt_Decode src (MPublish m) = lift_out MPublish (pub_Decode src m)"
| "mqtt_Decode src (MPuback m) = lift_out MPuback (PubackDecode src m)"
| "mqtt_Decode src (MPubrec m) = lift_out MPubrec (PubrecDecode src m)"
| "mqtt_Decode src (MPubrel m) = lift_out MPubrel (PubrelDecode src m)"
| "mqtt_Decode src (MPubcomp m) = lift_out MPubcomp (PubcompDecode src m)"
| "mqtt_Decode src (MSubscribe m) = lift_out MSubscribe (sub_Decode src m)"
| "mqtt_Decode src (MSuback m) = lift_out MSuback (SubackDecode src m)"
| "mqtt_Decode src (MUnsubscribe m) = lift_out MUnsubscribe (unsub_Decode src m)"
| "mqtt_Decode src (MUnsuback m) = lift_out MUnsuback (UnsubackDecode src m)"
| "mqtt_Decode src (MPingreq m) = lift_out MPingreq (ping_Decode src m)"
| "mqtt_Decode src (MPingresp m) = lift_out MPingresp (ping_Decode src m)"
| "mqtt_Decode src (MDisconnect m) = lift_out MDisconnect (di_Decode src m)"
| "mqtt_Decode src (MOther t) = Panic"

fun mqtt_Len :: "mqtt \<Rightarrow> (mqtt \<times> nat) option" where
  "mqtt_Len (MPublish m) = map_option (apfst MPublish) (pub_Len m)"
| "mqtt_Len (MPuback m) = map_option (apfst MPuback) (ack_Len m)"
| "mqtt_Len (MPubrec m) = map_option (apfst MPubrec) (ack_Len m)"
| "mqtt_Len (MPubrel m) = map_option (apfst MPubrel) (ack_Len m)"
| "mqtt_Len (MPubcomp m) = map_option (apfst MPubcomp) (ack_Len m)"
| "mqtt_Len (MSubscribe m) = map_option (apfst MSubscribe) (sub_Len m)"
| "mqtt_Len (MSuback m) = map_option (apfst MSuback) (SubackLen m)"
| "mqtt_Len (MUnsubscribe m) = map_option (apfst MUnsubscribe) (unsub_Len m)"
| "mqtt_Len (MUnsuback m) = map_option (apfst MUnsuback) (UnsubackLen m)"
| "mqtt_Len (MPingreq m) = Some (MPingreq m, hmsglen m)"
| "mqtt_Len (MPingresp m) = Some (MPingresp m, hmsglen m)"
| "mqtt_Len (MDisconnect m) = map_option (apfst MDisconnect) (di_Len m)"
| "mqtt_Len (MOther t) = None"

text \<open>Encoding draws a packet identifier from the counter where the message has none.\<close>

fun mqtt_Encode :: "u64 \<Rightarrow> mqtt \<Rightarrow> bytes \<Rightarrow> u64 \<times> mqtt \<times> bytes outcome" where
  "mqtt_Encode g (MPublish m) dst = apsnd (apfst MPublish) (pub_Encode g m dst)"
| "mqtt_Encode g (MPuback m) dst = (g, apfst MPuback (ack_Encode m dst))"
| "mqtt_Encode g (MPubrec m) dst = (g, apfst MPubrec (ack_Encode m dst))"
| "mqtt_Encode g (MPubrel m) dst = (g, apfst MPubrel (ack_Encode m dst))"
| "mqtt_Encode g (MPubcomp m) dst = (g, apfst MPubcomp (ack_Encode m dst))"
| "mqtt_Encode g (MSubscribe m) dst = apsnd (apfst MSubscribe) (sub_Encode g m dst)"
| "mqtt_Encode g (MSuback m) dst = (g, apfst MSuback (SubackEncode m dst))"
| "mqtt_Encode g (MUnsubscribe m) dst = apsnd (apfst MUnsubscribe) (unsub_Encode g m dst)"
| "mqtt_Encode g (MUnsuback m) dst = (g, apfst MUnsuback (UnsubackEncode m dst))"
| "mqtt_Encode g (MPingreq m) dst = (g, apfst MPingreq (ping_Encode m dst))"
| "mqtt_Encode g (MPingresp m) dst = (g, apfst MPingresp (ping_Encode m dst))"
| "mqtt_Encode g (MDisconnect m) dst = (g, apfst MDisconnect (di_Encode m dst))"
| "mqtt_Encode g (MOther t) dst = (g, MOther t, Panic)"

text \<open>
  \<open>buf := make([]byte, msg.Len()); n, err := msg.Encode(buf)\<close>, as the acknowledgement queue and the
  sender do: the counter, the message, the buffer, the number of bytes and the error. \<open>None\<close> is a panic.
\<close>

definition enc :: "u64 \<Rightarrow> mqtt \<Rightarrow> (u64 \<times> mqtt \<times> bytes \<times> nat \<times> goerr option) option" where
  "enc g m =
     (case mqtt_Len m of
        None \<Rightarrow> None
      | Some (m1, l) \<Rightarrow>
          (case mqtt_Encode g m1 (replicate l 0) of
             (g', m2, Ret d n) \<Rightarrow> Some (g', m2, d, n, None)
           | (g', m2, Fail d n e) \<Rightarrow> Some (g', m2, d, nat n, Some e)
           | (g', m2, Panic) \<Rightarrow> None))"

definition mqtt_ops :: "u64 \<Rightarrow> mqtt msg_ops" where
  "mqtt_ops g =
     \<lparr>m_dyntype = mqtt_dyn, m_type = mqtt_type, m_pid = mqtt_pid,
      m_qos = (\<lambda>m. case m of MPublish p \<Rightarrow> QoS p | _ \<Rightarrow> 0), m_dup = (\<lambda>m. case m of MPublish p \<Rightarrow> Dup p | _ \<Rightarrow> False),
      m_encode = (\<lambda>m. case enc g m of Some (g', m', d, n, e) \<Rightarrow> (d, e) | None \<Rightarrow> ([], Some (Errorf ''panic'')))\<rparr>"

text \<open>
  \<open>SetReasonStr(nil)\<close> and \<open>SetUserProperties(nil)\<close> where the client has asked for no problem
  information; CONNACK, DISCONNECT and PUBLISH are exempt. The reason string of SUBSCRIBE and UNSUBSCRIBE
  is a method that does nothing.
\<close>

fun strip_info :: "mqtt \<Rightarrow> mqtt" where
  "strip_info (MPuback m) = MPuback (AckPackets.SetUserProperties [] (AckPackets.SetReasonStr [] m))"
| "strip_info (MPubrec m) = MPubrec (AckPackets.SetUserProperties [] (AckPackets.SetReasonStr [] m))"
| "strip_info (MPubrel m) = MPubrel (AckPackets.SetUserProperties [] (AckPackets.SetReasonStr [] m))"
| "strip_info (MPubcomp m) = MPubcomp (AckPackets.SetUserProperties [] (AckPackets.SetReasonStr [] m))"
| "strip_info (MSuback m) = MSuback (SubackPackets.SetUserProperties [] (SubackPackets.SetReasonStr [] m))"
| "strip_info (MUnsuback m) = MUnsuback (SubackPackets.SetUserProperties [] (SubackPackets.SetReasonStr [] m))"
| "strip_info (MSubscribe m) = MSubscribe (Subscribe.SetUserProperties [] m)"
| "strip_info (MUnsubscribe m) = MUnsubscribe (Unsubscribe.SetUserProperties [] m)"
| "strip_info m = m"

end
