(* ===== verification/Service.thy ===== *)
theory Service
  imports Message TopicsMgr NodeMap SendRecv "HOL-Library.Monad_Syntax"
begin

text \<open>
  The service of a connection (\<open>corev5/v2/service/service.go\<close>, \<open>getty_server.go\<close>, \<open>sendrecv.go\<close>,
  \<open>pipiline.go\<close>): its flow control, how it writes a message, how a publication reaches its client.
  The broker is the topics manager, the services and what the cluster and the timers are asked for.
  The connection is a getty session: its \<open>WritePkg\<close>, the databases and the random sources belong to
  other code and are fields of the environment. \<open>None\<close> is a panic.
\<close>

section \<open>Flow control\<close>

record sign =
  sg_beyondQuota :: bool
  sg_tooManyMessages :: bool
  sg_quota :: u64
  sg_currQuota :: u64
  sg_limit :: int

definition NewSign :: "u64 \<Rightarrow> int \<Rightarrow> sign" where
  "NewSign q l =
     (if q = 0 \<and> l = 0
      then \<lparr>sg_beyondQuota = False, sg_tooManyMessages = False, sg_quota = 100000, sg_currQuota = 100000, sg_limit = 100000\<rparr>
      else \<lparr>sg_beyondQuota = False, sg_tooManyMessages = False, sg_quota = q, sg_currQuota = q, sg_limit = l\<rparr>)"

definition UpQuota :: "u64 \<Rightarrow> bool \<Rightarrow> sign \<Rightarrow> sign" where
  "UpQuota q reset s =
     (let s1 = s\<lparr>sg_quota := q\<rparr> in
      if reset then s1\<lparr>sg_beyondQuota := False, sg_currQuota := q\<rparr>
      else if sint q < sint (sg_currQuota s1) then s1\<lparr>sg_beyondQuota := True\<rparr> else s1)"

definition ReqQuota :: "sign \<Rightarrow> bool \<times> sign" where
  "ReqQuota s =
     (if sg_beyondQuota s then (False, s)
      else
        (let cur = sg_currQuota s - 1 in
         if sint cur < 0 then (False, s\<lparr>sg_beyondQuota := True, sg_currQuota := 0\<rparr>)
         else (True, s\<lparr>sg_currQuota := cur\<rparr>)))"

definition AddQuota :: "sign \<Rightarrow> sign" where
  "AddQuota s =
     (let cur = sg_currQuota s + 1 in
      s\<lparr>sg_currQuota := cur, sg_beyondQuota := (if sint cur > 0 \<and> sg_beyondQuota s then False else sg_beyondQuota s)\<rparr>)"

section \<open>State\<close>

text \<open>
  \<open>sv_open\<close>: the getty session is there and not closed. \<open>sv_pkid\<close> is the counter the closure of
  \<open>onPub\<close> holds.
\<close>

record 'w service =
  sv_ccid :: bytes
  sv_clusterBelong :: bool
  sv_clusterOpen :: bool
  sv_closed :: bool
  sv_open :: bool
  sv_wire :: 'w
  sv_sess :: "unit session"
  sv_hasSendWill :: bool
  sv_sign :: sign
  sv_pkid :: u32
  sv_rmsgs :: "publish list"

text \<open>Reason codes of the answers.\<close>

definition UnspecifiedError :: byte where "UnspecifiedError = 0x80"
definition ServerUnavailable :: byte where "ServerUnavailable = 0x88"
definition ServiceBusy :: byte where "ServiceBusy = 0x89"
definition InvalidTopicAlias :: byte where "InvalidTopicAlias = 0x94"
definition UnsupportedRetention :: byte where "UnsupportedRetention = 0x9A"
definition UnsupportedQoSLevel :: byte where "UnsupportedQoSLevel = 0x9B"
definition UnsupportedSharedSubscriptions :: byte where "UnsupportedSharedSubscriptions = 0x9E"

text \<open>Functions handed to a task pool or to the timers.\<close>

datatype task = ToCluster mqtt | ToShares nat publish | ToWill nat publish

text \<open>
  The server: the manager with its subscribers (the addresses of \<open>onpub\<close>, one per service), the
  database of retained messages, the random source, the counter \<open>gPacketId\<close>, the cluster nodes with
  shared subscriptions, the services, the submitted tasks, the delayed wills, and the messages
  handed to the cluster with share name and node. The delayed wills are the entries of the schedule of
  \<open>ScheduleCron\<close>, numbered from 0 and \<open>None\<close> once removed; \<open>bk_ids\<close> is its map \<open>ids\<close> from a client
  to the number of its last entry.
\<close>

record ('w, 'd, 'r) broker =
  bk_tm :: "nat memTopics"
  bk_db :: 'd
  bk_rand :: 'r
  bk_g :: u64
  bk_nodes :: tmnode
  bk_svcs :: "nat \<Rightarrow> 'w service"
  bk_tasks :: "task list"
  bk_wills :: "(bytes \<times> u32 \<times> nat \<times> publish) option list"
  bk_ids :: "(bytes \<times> nat) list"
  bk_sent :: "(mqtt \<times> bytes \<times> bytes) list"

record ('w, 'd, 'r) env =
  ev_MaxQos :: int
  ev_RetainAvailable :: bool
  ev_CloseShareSub :: bool
  ev_serverName :: bytes
  ev_spare :: bytes
  ev_WritePkg :: "bytes \<Rightarrow> 'w \<Rightarrow> 'w \<times> goerr option"
  ev_db_store :: "bytes \<Rightarrow> publish \<Rightarrow> 'd \<Rightarrow> 'd \<times> goerr option"
  ev_db_clear :: "bytes \<Rightarrow> 'd \<Rightarrow> 'd \<times> goerr option"
  ev_StoreSession :: "bytes \<Rightarrow> unit session \<Rightarrow> 'd \<Rightarrow> 'd \<times> goerr option"
  ev_intn :: "'r \<Rightarrow> nat \<Rightarrow> nat \<times> 'r"
  ev_uint32n :: "'r \<Rightarrow> u32 \<Rightarrow> u32 \<times> 'r"

text \<open>
  \<open>ev_spare\<close> is what lies in the memory of a pooled buffer behind the bytes written to it.
\<close>

definition OpenShare :: "('w, 'd, 'r) env \<Rightarrow> bool" where "OpenShare E \<longleftrightarrow> \<not> ev_CloseShareSub E"

definition svc_upd :: "nat \<Rightarrow> ('w service \<Rightarrow> 'w service) \<Rightarrow> ('w, 'd, 'r) broker \<Rightarrow> ('w, 'd, 'r) broker" where
  "svc_upd i f b = b\<lparr>bk_svcs := (bk_svcs b)(i := f (bk_svcs b i))\<rparr>"

abbreviation sess_upd :: "nat \<Rightarrow> (unit session \<Rightarrow> unit session) \<Rightarrow> ('w, 'd, 'r) broker \<Rightarrow> ('w, 'd, 'r) broker" where
  "sess_upd i f \<equiv> svc_upd i (\<lambda>s. s\<lparr>sv_sess := f (sv_sess s)\<rparr>)"

abbreviation sess_of :: "nat \<Rightarrow> ('w, 'd, 'r) broker \<Rightarrow> unit session" where
  "sess_of i b \<equiv> sv_sess (bk_svcs b i)"

section \<open>Writing and waiting\<close>

definition delRequestRespInfo :: "'w service \<Rightarrow> mqtt \<Rightarrow> mqtt" where
  "delRequestRespInfo s m = (if requestProblemInfo (ss_cmessage (sv_sess s)) = 0 then strip_info m else m)"

text \<open>
  \<open>writeMessage\<close> of a service with a getty session: the package handler encodes the message. A service
  without an open session has no ring either, so its length is computed and the write refused.
\<close>

definition svc_write ::
    "('w, 'd, 'r) env \<Rightarrow> nat \<Rightarrow> mqtt \<Rightarrow> ('w, 'd, 'r) broker \<Rightarrow> (mqtt \<times> goerr option \<times> ('w, 'd, 'r) broker) option" where
  "svc_write E i m b =
     (let s = bk_svcs b i; m0 = delRequestRespInfo s m in
      if sv_open s then
        (case enc (bk_g b) m0 of
           None \<Rightarrow> None
         | Some (g, m1, d, n, Some e) \<Rightarrow> Some (m1, Some e, b\<lparr>bk_g := g\<rparr>)
         | Some (g, m1, d, n, None) \<Rightarrow>
             (case ev_WritePkg E d (sv_wire s) of
                (w, e) \<Rightarrow> Some (m1, e, svc_upd i (\<lambda>s. s\<lparr>sv_wire := w\<rparr>) (b\<lparr>bk_g := g\<rparr>))))
      else (case mqtt_Len m0 of None \<Rightarrow> None | Some (m1, l) \<Rightarrow> Some (m1, Some ErrBufferNotReady, b)))"

text \<open>
  A call of \<open>Wait\<close> or \<open>Ack\<close> on a queue, with what the queue's encoding does to the counter and to
  the message, and its panic.
\<close>

definition queue_Wait :: "u64 \<Rightarrow> mqtt \<Rightarrow> unit option \<Rightarrow> unit ackqueue \<Rightarrow> (goerr option \<times> u64 \<times> mqtt \<times> unit ackqueue) option" where
  "queue_Wait g m cb q =
     do {
       (e, q') \<leftarrow> aq_Wait (mqtt_ops g) m cb q;
       if e = None \<and> mqtt_dyn m \<noteq> PINGREQ \<and> map_of (aq_emap q) (mqtt_pid m) = None
       then do { (g', m', d, n, e') \<leftarrow> enc g m; Some (e, g', m', q') }
       else Some (e, g, m, q')
     }"

definition queue_Ack :: "u64 \<Rightarrow> mqtt \<Rightarrow> unit ackqueue \<Rightarrow> (goerr option \<times> unit ackqueue) option" where
  "queue_Ack g m q =
     (if mqtt_type m \<in> ack_types \<and> map_of (aq_emap q) (mqtt_pid m) \<noteq> None \<and> enc g m = None then None
      else aq_Ack (mqtt_ops g) m q)"

section \<open>Sending to the client\<close>

text \<open>
  \<open>publish\<close>: the error of the write is dropped, so only a refused \<open>Wait\<close> is reported. The callbacks
  write to the log and return nil.
\<close>

definition svc_publish ::
    "('w, 'd, 'r) env \<Rightarrow> nat \<Rightarrow> publish \<Rightarrow> unit option \<Rightarrow> ('w, 'd, 'r) broker \<Rightarrow> (goerr option \<times> ('w, 'd, 'r) broker) option" where
  "svc_publish E i m cb b =
     (if QoS m = QosAtMostOnce then
        do { (m', e, b1) \<leftarrow> svc_write E i (MPublish m) b; Some (None, b1) }
      else if QoS m = QosAtLeastOnce then
        do {
          (e, g, m1, q) \<leftarrow> queue_Wait (bk_g b) (MPublish m) cb (ss_pub1ack (sess_of i b));
          let b1 = sess_upd i (\<lambda>s. s\<lparr>ss_pub1ack := q\<rparr>) (b\<lparr>bk_g := g\<rparr>);
          if e \<noteq> None then Some (Some (CodeErr ServerUnavailable), b1)
          else do { (m2, e2, b2) \<leftarrow> svc_write E i m1 b1; Some (None, b2) }
        }
      else if QoS m = QosExactlyOnce then
        do {
          (e, g, m1, q) \<leftarrow> queue_Wait (bk_g b) (MPublish m) cb (ss_pub2out (sess_of i b));
          let b1 = sess_upd i (\<lambda>s. s\<lparr>ss_pub2out := q\<rparr>) (b\<lparr>bk_g := g\<rparr>);
          if e \<noteq> None then Some (Some (CodeErr ServerUnavailable), b1)
          else do { (m2, e2, b2) \<leftarrow> svc_write E i m1 b1; Some (None, b2) }
        }
      else Some (None, b))"

definition maxPkid :: u32 where "maxPkid = word_of_nat (65535 * 4 div 5)"

text \<open>\<open>onPub\<close>: the function under which the topics manager knows the service.\<close>

definition onpub_quota :: "publish \<Rightarrow> nat \<Rightarrow> ('w, 'd, 'r) broker \<Rightarrow> bool \<times> ('w, 'd, 'r) broker" where
  "onpub_quota m j b =
     (if QoS m > 0
      then (case ReqQuota (sv_sign (bk_svcs b j)) of (ok, sg) \<Rightarrow> (ok, svc_upd j (\<lambda>s. s\<lparr>sv_sign := sg\<rparr>) b))
      else (True, b))"

definition onpub_pkid :: "publish \<Rightarrow> nat \<Rightarrow> ('w, 'd, 'r) broker \<Rightarrow> publish \<times> ('w, 'd, 'r) broker" where
  "onpub_pkid m j b =
     (if QoS m > 0
      then (let pid = sv_pkid (bk_svcs b j) + 1
            in (SetPacketId (ucast pid) m, svc_upd j (\<lambda>s. s\<lparr>sv_pkid := (if pid > maxPkid then 1 else pid)\<rparr>) b))
      else (m, b))"

definition onpub_props :: "sub \<Rightarrow> unit session \<Rightarrow> publish \<Rightarrow> publish" where
  "onpub_props sb ss m =
     (let m1 = (if subSubIdentifier sb > 0 then Publish.SetSubscriptionIdentifier (subSubIdentifier sb) m else m) in
      case GetTopicAlice (topic m1) ss of Some a \<Rightarrow> SetNilTopicAndAlias a m1 | None \<Rightarrow> m1)"

definition onpub ::
    "('w, 'd, 'r) env \<Rightarrow> nat \<Rightarrow> publish \<Rightarrow> sub \<Rightarrow> bytes \<Rightarrow> bool \<Rightarrow> ('w, 'd, 'r) broker \<Rightarrow>
     (goerr option \<times> ('w, 'd, 'r) broker) option" where
  "onpub E j m sb sender isShareMsg b =
     (case onpub_quota m j b of
        (False, b1) \<Rightarrow> Some (None, b1)
      | (True, b1) \<Rightarrow>
          (if \<not> isShareMsg \<and> subNoLocal sb \<and> sv_ccid (bk_svcs b1 j) = sender then Some (None, b1)
           else
             (let m1 = (if \<not> subRetainAsPublished sb then SetRetain False m else m) in
              case onpub_pkid m1 j b1 of
                (m2, b2) \<Rightarrow> svc_publish E j (onpub_props sb (sess_of j b2) m2) (Some ()) b2)))"

section \<open>Opening and closing\<close>

text \<open>The subscriptions of a recovered session are made again; errors are ignored.\<close>

fun reload_loop :: "('w, 'd, 'r) env \<Rightarrow> nat \<Rightarrow> sub list \<Rightarrow> ('w, 'd, 'r) broker \<Rightarrow> ('w, 'd, 'r) broker option" where
  "reload_loop E i [] b = Some b"
| "reload_loop E i (t # ts) b =
     (if ev_CloseShareSub E \<and> length (subTopic t) > 6 \<and> take 6 (subTopic t) = [36, 115, 104, 97, 114, 101]
      then reload_loop E i ts b
      else (case tm_Subscribe t (Some i) (bk_tm b) of
              None \<Rightarrow> None
            | Some (tm, q, e) \<Rightarrow> reload_loop E i ts (b\<lparr>bk_tm := tm\<rparr>)))"

definition reloadSub ::
    "('w, 'd, 'r) env \<Rightarrow> nat \<Rightarrow> ('w, 'd, 'r) broker \<Rightarrow> (goerr option \<times> ('w, 'd, 'r) broker) option" where
  "reloadSub E i b =
     (case sess_Topics (sess_of i b) of
        Inl e \<Rightarrow> Some (Some e, b)
      | Inr tpc \<Rightarrow> map_option (Pair None) (reload_loop E i tpc b))"

fun unsub_all :: "nat \<Rightarrow> sub list \<Rightarrow> ('w, 'd, 'r) broker \<Rightarrow> ('w, 'd, 'r) broker option" where
  "unsub_all i [] b = Some b"
| "unsub_all i (t # ts) b =
     (case tm_Unsubscribe (subTopic t) (Some i) (bk_tm b) of
        None \<Rightarrow> None
      | Some (tm, e) \<Rightarrow> unsub_all i ts (b\<lparr>bk_tm := tm\<rparr>))"

definition unSubAll :: "nat \<Rightarrow> ('w, 'd, 'r) broker \<Rightarrow> ('w, 'd, 'r) broker option" where
  "unSubAll i b = (case sess_Topics (sess_of i b) of Inl e \<Rightarrow> Some b | Inr tpc \<Rightarrow> unsub_all i tpc b)"

text \<open>
  \<open>sendWillMsg\<close> with \<open>DelaySendWill\<close> of the delay task manager (\<open>util/cron\<close>): without a delay the will
  is handed to a goroutine, and then a timer is added all the same.
\<close>

definition sendWillMsg :: "nat \<Rightarrow> ('w, 'd, 'r) broker \<Rightarrow> ('w, 'd, 'r) broker" where
  "sendWillMsg i b0 =
     (case sess_Will (sess_of i b0) of
        (s1, w) \<Rightarrow>
          (let b = sess_upd i (\<lambda>_. s1) b0; s = bk_svcs b i in
           case w of
             None \<Rightarrow> b
           | Some wm \<Rightarrow>
               (if sv_hasSendWill s then b
                else
                  (let ex = willMsgExpiryInterval (ss_cmessage (sv_sess s));
                       wm' = (if ex > 0 then SetMessageExpiryInterval ex wm else wm);
                       delay = willDelayInterval (ss_cmessage (sv_sess s));
                       b1 = sess_upd i (sess_SetWill (Some wm')) b;
                       b2 = (if delay \<le> 0 then b1\<lparr>bk_tasks := bk_tasks b1 @ [ToWill i wm']\<rparr> else b1);
                       b3 = b2\<lparr>bk_wills := bk_wills b2 @ [Some (sess_ClientId (sv_sess s), delay, i, wm')],
                         bk_ids := AList.update (sess_ClientId (sv_sess s)) (length (bk_wills b2)) (bk_ids b2)\<rparr>
                   in svc_upd i (\<lambda>s. s\<lparr>sv_hasSendWill := True\<rparr>) b3))))"

definition svc_stop :: "nat \<Rightarrow> ('w, 'd, 'r) broker \<Rightarrow> ('w, 'd, 'r) broker option" where
  "svc_stop i b =
     (if sv_closed (bk_svcs b i) then Some b
      else
        do {
          b1 \<leftarrow> unSubAll i (svc_upd i (\<lambda>s. s\<lparr>sv_closed := True\<rparr>) b);
          let b2 = (if WillFlag (ss_cmessage (sess_of i b1)) then sendWillMsg i b1 else b1);
          Some (svc_upd i (\<lambda>s. s\<lparr>sv_sess := sess_SetStatus OFFLINE (sv_sess s), sv_open := False\<rparr>) b2)
        })"

end
