(* ===== verification/Process.thy ===== *)
theory Process
  imports Service
begin

text \<open>
  How a service handles the messages of its client, \<open>corev5/v2/service/process.go\<close>: one definition per
  handler, with the fan-out of a publication to the subscribers and to the cluster. A handler returns
  its error and the broker; \<open>None\<close> is a panic. Handlers run one at a time here; where the code submits
  a function to a pool, a task is added, and \<open>run_task\<close> is its run.
\<close>

section \<open>Fan-out\<close>

definition errDisconnect :: goerr where "errDisconnect = Errorf ''disconnect''"

text \<open>A copy made by encoding the message into a pooled buffer and decoding it; errors are dropped.\<close>

definition buffer_copy :: "('w, 'd, 'r) env \<Rightarrow> u64 \<Rightarrow> publish \<Rightarrow> (u64 \<times> publish \<times> publish) option" where
  "buffer_copy E g m =
     (case pub_EncodeToBuf g m [] of
        (g', m', r) \<Rightarrow>
          (case (case r of Ret d n \<Rightarrow> Some d | Fail d n e \<Rightarrow> Some d | Panic \<Rightarrow> None) of
             None \<Rightarrow> None
           | Some d \<Rightarrow>
               (case pub_Decode (Slice d (ev_spare E)) NewPublishMessage of
                  Ret c n \<Rightarrow> Some (g', m', c)
                | Fail c n e \<Rightarrow> Some (g', m', c)
                | Panic \<Rightarrow> None)))"

definition copyMsg :: "('w, 'd, 'r) env \<Rightarrow> u64 \<Rightarrow> publish \<Rightarrow> byte \<Rightarrow> (u64 \<times> publish \<times> publish) option" where
  "copyMsg E g m newQos = do { (g', m', c) \<leftarrow> buffer_copy E g m; Some (g', m', fst (SetQoS newQos c)) }"

fun lookSend ::
    "('w, 'd, 'r) env \<Rightarrow> nat \<Rightarrow> (nat \<times> sub) list \<Rightarrow> bool \<Rightarrow> publish \<Rightarrow> ('w, 'd, 'r) broker \<Rightarrow>
     (publish \<times> ('w, 'd, 'r) broker) option" where
  "lookSend E i [] only m b = Some (m, b)"
| "lookSend E i ((j, sb) # rest) only m b =
     do {
       (g, m1, c) \<leftarrow> copyMsg E (bk_g b) m (subQos sb);
       (e, b1) \<leftarrow> onpub E j c sb (sv_ccid (bk_svcs b i)) only (b\<lparr>bk_g := g\<rparr>);
       lookSend E i rest only m1 b1
     }"

definition pub_to ::
    "('w, 'd, 'r) env \<Rightarrow> nat \<Rightarrow> publish \<Rightarrow> bool \<Rightarrow> bytes \<Rightarrow> bool \<Rightarrow> ('w, 'd, 'r) broker \<Rightarrow>
     (publish \<times> goerr option \<times> ('w, 'd, 'r) broker) option" where
  "pub_to E i m sys shareName only b =
     do {
       ((acc, r), e) \<leftarrow> tm_Subscribers (ev_intn E) (topic m) (QoS m) sys shareName only (bk_tm b) (([], []), bk_rand b);
       let b1 = b\<lparr>bk_rand := r\<rparr>;
       if e \<noteq> None then Some (m, Some (CodeErr ServiceBusy), b1)
       else do {
         (m1, b2) \<leftarrow> lookSend E i (zip (fst acc) (snd acc)) only (SetRetain False m) b1;
         Some (m1, None, b2)
       }
     }"

definition pubFn where "pubFn E i m shareName only b = pub_to E i m False shareName only b"
definition pubFnPlus where "pubFnPlus E i m b = pub_to E i m False [] True b"
definition pubFnSys where "pubFnSys E i m b = pub_to E i m True [] False b"

definition sendShareToCluster ::
    "('w, 'd, 'r) env \<Rightarrow> nat \<Rightarrow> publish \<Rightarrow> ('w, 'd, 'r) broker \<Rightarrow> ('w, 'd, 'r) broker option" where
  "sendShareToCluster E i m b =
     (if \<not> sv_clusterOpen (bk_svcs b i) then do { (m', e, b') \<leftarrow> pubFnPlus E i m b; Some b' }
      else Some (b\<lparr>bk_tasks := bk_tasks b @ [ToShares i m]\<rparr>))"

definition sendCluster :: "nat \<Rightarrow> mqtt \<Rightarrow> ('w, 'd, 'r) broker \<Rightarrow> ('w, 'd, 'r) broker" where
  "sendCluster i m b = (if \<not> sv_clusterOpen (bk_svcs b i) then b else b\<lparr>bk_tasks := bk_tasks b @ [ToCluster m]\<rparr>)"

text \<open>A submitted function runs: the share groups of a topic are served by the nodes that are drawn.\<close>

fun share_nodes ::
    "('w, 'd, 'r) env \<Rightarrow> nat \<Rightarrow> (bytes \<times> bytes) list \<Rightarrow> publish \<Rightarrow> ('w, 'd, 'r) broker \<Rightarrow> ('w, 'd, 'r) broker option" where
  "share_nodes E i [] m b = Some b"
| "share_nodes E i ((sn, node) # rest) m b =
     (if node = ev_serverName E then do { (m', e, b') \<leftarrow> pubFn E i m sn True b; share_nodes E i rest m' b' }
      else share_nodes E i rest m (b\<lparr>bk_sent := bk_sent b @ [(MPublish m, sn, node)]\<rparr>))"

definition GetShareNames ::
    "('r \<Rightarrow> u32 \<Rightarrow> u32 \<times> 'r) \<Rightarrow> bytes \<Rightarrow> tmnode \<Rightarrow> 'r \<Rightarrow> (goerr + (bytes \<times> bytes) list) \<times> 'r" where
  "GetShareNames uint32n tp t r =
     (case tn_match uint32n tp t ([], r) of
        ((picks, r'), Some e) \<Rightarrow> (Inl e, r')
      | ((picks, r'), None) \<Rightarrow> (Inr (fold (\<lambda>(sn, node). AList.update sn node) picks []), r'))"

fun run_task :: "('w, 'd, 'r) env \<Rightarrow> task \<Rightarrow> ('w, 'd, 'r) broker \<Rightarrow> ('w, 'd, 'r) broker option" where
  "run_task E (ToCluster m) b = Some (b\<lparr>bk_sent := bk_sent b @ [(m, [], [])]\<rparr>)"
| "run_task E (ToShares i m) b =
     (case GetShareNames (ev_uint32n E) (topic m) (bk_nodes b) (bk_rand b) of
        (Inl e, r) \<Rightarrow> Some (b\<lparr>bk_rand := r\<rparr>)
      | (Inr sns, r) \<Rightarrow> share_nodes E i sns m (b\<lparr>bk_rand := r\<rparr>))"
| "run_task E (ToWill i m) b = do { (m', e, b') \<leftarrow> pubFn E i m [] False b; Some b' }"

text \<open>
  The run of a delayed will: the message is published, then \<open>icron.Remove\<close> removes the entry noted for the
  client, which is another one where the client has registered a will since.
\<close>

definition remove_job :: "bytes \<Rightarrow> ('w, 'd, 'r) broker \<Rightarrow> ('w, 'd, 'r) broker" where
  "remove_job cid b =
     (case map_of (bk_ids b) cid of
        None \<Rightarrow> b
      | Some k \<Rightarrow> b\<lparr>bk_ids := AList.delete cid (bk_ids b), bk_wills := (bk_wills b)[k := None]\<rparr>)"

definition fire_will :: "('w, 'd, 'r) env \<Rightarrow> nat \<Rightarrow> ('w, 'd, 'r) broker \<Rightarrow> ('w, 'd, 'r) broker option" where
  "fire_will E k b =
     (case (if k < length (bk_wills b) then bk_wills b ! k else None) of
        None \<Rightarrow> Some b
      | Some (cid, delay, i, m) \<Rightarrow> do { (m', e, b') \<leftarrow> pubFn E i m [] False b; Some (remove_job cid b') })"

section \<open>Publications\<close>

definition keep_retained ::
    "('w, 'd, 'r) env \<Rightarrow> publish \<Rightarrow> ('w, 'd, 'r) broker \<Rightarrow> (publish \<times> ('w, 'd, 'r) broker) option" where
  "keep_retained E m b =
     (if Retain m then
        do {
          (tm, db, g, m', e) \<leftarrow> tm_Retain (ev_db_store E) (ev_db_clear E) (bk_g b) m (bk_tm b) (bk_db b);
          Some (m', b\<lparr>bk_tm := tm, bk_db := db, bk_g := g\<rparr>)
        }
      else Some (m, b))"

definition onPublish ::
    "('w, 'd, 'r) env \<Rightarrow> nat \<Rightarrow> publish \<Rightarrow> ('w, 'd, 'r) broker \<Rightarrow> (goerr option \<times> ('w, 'd, 'r) broker) option" where
  "onPublish E i m b =
     do {
       (m1, b1) \<leftarrow> keep_retained E m b;
       (m2, b2) \<leftarrow>
         (if sv_clusterOpen (bk_svcs b1 i) \<or> OpenShare E then
            do {
              (g, m2, c) \<leftarrow> buffer_copy E (bk_g b1) m1;
              let b2 = sendCluster i (MPublish c) (b1\<lparr>bk_g := g\<rparr>);
              b3 \<leftarrow> (if OpenShare E then sendShareToCluster E i c b2 else Some b2);
              Some (m2, b3)
            }
          else Some (m1, b1));
       (m3, e, b3) \<leftarrow> pubFn E i m2 [] False b2;
       Some (e, b3)
     }"

text \<open>Publications that other nodes of the cluster hand over.\<close>

definition cluster_in ::
    "('w, 'd, 'r) env \<Rightarrow> nat \<Rightarrow> publish \<Rightarrow> bool \<Rightarrow> bytes \<Rightarrow> bool \<Rightarrow> ('w, 'd, 'r) broker \<Rightarrow>
     (goerr option \<times> ('w, 'd, 'r) broker) option" where
  "cluster_in E i m sys shareName only b =
     (if \<not> sv_clusterBelong (bk_svcs b i) then Some (None, b)
      else do {
        (m1, b1) \<leftarrow> keep_retained E m b;
        (m2, e, b2) \<leftarrow> pub_to E i m1 sys shareName only b1;
        Some (e, b2)
      })"

definition ClusterInToPub where "ClusterInToPub E i m b = cluster_in E i m False [] False b"
definition ClusterInToPubShare where "ClusterInToPubShare E i m shareName only b = cluster_in E i m False shareName only b"
definition ClusterInToPubSys where "ClusterInToPubSys E i m b = cluster_in E i m True [] False b"

text \<open>The result of \<open>topicAliceIn\<close>: the message, the session and the error.\<close>

definition topicAliceIn :: "publish \<Rightarrow> unit session \<Rightarrow> publish \<times> unit session \<times> goerr option" where
  "topicAliceIn m s =
     (if topicAlias m > 0 \<and> length (topic m) = 0 then
        (case GetAliceTopic (topicAlias m) s of
           Some tp \<Rightarrow> (fst (SetTopic tp m), s, None)
         | None \<Rightarrow> (m, s, Some (CodeErr ProtocolError)))
      else if topicAlias m > sess_TopicAliasMax s then (m, s, Some (CodeErr ProtocolError))
      else if topicAlias m > 0 \<and> length (topic m) > 0 then
        (if sess_TopicAliasMax s < topicAlias m then (m, s, Some (CodeErr InvalidTopicAlias))
         else (SetTopicAlias 0 m, AddTopicAlice (topic m) (topicAlias m) s, None))
      else (m, s, None))"

definition unspecified :: "goerr option \<Rightarrow> goerr option" where
  "unspecified e = map_option (\<lambda>_. CodeErr UnspecifiedError) e"

definition processPublish ::
    "('w, 'd, 'r) env \<Rightarrow> nat \<Rightarrow> publish \<Rightarrow> ('w, 'd, 'r) broker \<Rightarrow> (goerr option \<times> ('w, 'd, 'r) broker) option" where
  "processPublish E i m b =
     (if ev_MaxQos E < uint (QoS m) then Some (Some (CodeErr UnsupportedQoSLevel), b)
      else if Retain m \<and> \<not> ev_RetainAvailable E then Some (Some (CodeErr UnsupportedRetention), b)
      else case topicAliceIn m (sess_of i b) of
        (m1, s1, Some e) \<Rightarrow> Some (Some e, sess_upd i (\<lambda>_. s1) b)
      | (m1, s1, None) \<Rightarrow>
          (let b1 = sess_upd i (\<lambda>_. s1) b in
           if QoS m1 = QosExactlyOnce then
             do {
               (e, g, m2, q) \<leftarrow> queue_Wait (bk_g b1) (MPublish m1) None (ss_pub2in (sess_of i b1));
               (r, we, b2) \<leftarrow> svc_write E i (MPubrec (SetPacketId (mqtt_pid m2) NewPubrecMessage))
                 (sess_upd i (\<lambda>s. s\<lparr>ss_pub2in := q\<rparr>) (b1\<lparr>bk_g := g\<rparr>));
               Some (unspecified we, b2)
             }
           else if QoS m1 = QosAtLeastOnce then
             do {
               (r, we, b2) \<leftarrow> svc_write E i (MPuback (SetPacketId (PacketId m1) NewPubackMessage)) b1;
               if we \<noteq> None then Some (unspecified we, b2) else onPublish E i m1 b2
             }
           else if QoS m1 = QosAtMostOnce then onPublish E i m1 b1
           else Some (Some (CodeErr UnsupportedQoSLevel), b1)))"

section \<open>Acknowledgements\<close>

text \<open>
  One message that \<open>processAcked\<close> got from a queue: both packets are decoded, a message that cannot be is
  skipped; a released PUBLISH is published. The callbacks of the queue only write to the log.
\<close>

definition decode_as :: "byte \<Rightarrow> bool \<Rightarrow> bytes \<Rightarrow> mqtt option option" where
  "decode_as t skip buf =
     (case mqtt_New t of
        Inl e \<Rightarrow> Some None
      | Inr m \<Rightarrow>
          (if skip then Some (Some m)
           else case mqtt_Decode (Slice buf []) m of
             Ret m' n \<Rightarrow> Some (Some m') | Fail m' n e \<Rightarrow> Some None | Panic \<Rightarrow> None))"

definition acked_one :: "('w, 'd, 'r) env \<Rightarrow> nat \<Rightarrow> unit ackmsg \<Rightarrow> ('w, 'd, 'r) broker \<Rightarrow> ('w, 'd, 'r) broker option" where
  "acked_one E i am b =
     do {
       m \<leftarrow> decode_as (Mtype am) (Mtype am = PINGREQ) (Msgbuf am);
       case m of None \<Rightarrow> Some b
       | Some msg \<Rightarrow>
           do {
             a \<leftarrow> decode_as (State am) (State am = PINGRESP) (Ackbuf am);
             case a of None \<Rightarrow> Some b
             | Some ack \<Rightarrow>
                 (if State am = PUBREL then
                    (case msg of MPublish p \<Rightarrow> do { (e, b') \<leftarrow> onPublish E i p b; Some b' } | _ \<Rightarrow> None)
                  else Some b)
           }
     }"

fun acked_all :: "('w, 'd, 'r) env \<Rightarrow> nat \<Rightarrow> unit ackmsg list \<Rightarrow> ('w, 'd, 'r) broker \<Rightarrow> ('w, 'd, 'r) broker option" where
  "acked_all E i [] b = Some b"
| "acked_all E i (am # ams) b = do { b' \<leftarrow> acked_one E i am b; acked_all E i ams b' }"

text \<open>The queue of a session is given by its selector and its update.\<close>

type_synonym queue_lens = "(unit session \<Rightarrow> unit ackqueue) \<times> (unit ackqueue \<Rightarrow> unit session \<Rightarrow> unit session)"

definition l_pub1ack :: queue_lens where "l_pub1ack = (ss_pub1ack, \<lambda>q s. s\<lparr>ss_pub1ack := q\<rparr>)"
definition l_pub2in :: queue_lens where "l_pub2in = (ss_pub2in, \<lambda>q s. s\<lparr>ss_pub2in := q\<rparr>)"
definition l_pub2out :: queue_lens where "l_pub2out = (ss_pub2out, \<lambda>q s. s\<lparr>ss_pub2out := q\<rparr>)"
definition l_suback :: queue_lens where "l_suback = (ss_suback, \<lambda>q s. s\<lparr>ss_suback := q\<rparr>)"
definition l_unsuback :: queue_lens where "l_unsuback = (ss_unsuback, \<lambda>q s. s\<lparr>ss_unsuback := q\<rparr>)"
definition l_pingack :: queue_lens where "l_pingack = (ss_pingack, \<lambda>q s. s\<lparr>ss_pingack := q\<rparr>)"

definition processAcked ::
    "('w, 'd, 'r) env \<Rightarrow> nat \<Rightarrow> queue_lens \<Rightarrow> ('w, 'd, 'r) broker \<Rightarrow> ('w, 'd, 'r) broker option" where
  "processAcked E i l b =
     do {
       (ams, q) \<leftarrow> aq_Acked (fst l (sess_of i b));
       acked_all E i ams (sess_upd i (snd l q) b)
     }"

definition ack_queue_msg ::
    "nat \<Rightarrow> queue_lens \<Rightarrow> mqtt \<Rightarrow> ('w, 'd, 'r) broker \<Rightarrow> (goerr option \<times> ('w, 'd, 'r) broker) option" where
  "ack_queue_msg i l m b =
     do { (e, q) \<leftarrow> queue_Ack (bk_g b) m (fst l (sess_of i b)); Some (e, sess_upd i (snd l q) b) }"

section \<open>Subscriptions\<close>

definition IsShareSub :: "bytes \<Rightarrow> bool" where
  "IsShareSub tp \<longleftrightarrow> length tp > 6 \<and> take 6 tp = [36, 115, 104, 97, 114, 101]"

definition NoExistSubSendRetain :: byte where "NoExistSubSendRetain = 1"

text \<open>The first loop: shared subscriptions that are not available or ask for \<open>NoLocal\<close> are refused.\<close>

fun refuse_shared :: "('w, 'd, 'r) env \<Rightarrow> subscribe \<Rightarrow> bytes list \<Rightarrow> goerr option option" where
  "refuse_shared E m [] = Some None"
| "refuse_shared E m (t # ts) =
     (if ev_CloseShareSub E \<and> IsShareSub t then Some (Some (CodeErr UnsupportedSharedSubscriptions))
      else if \<not> ev_CloseShareSub E \<and> IsShareSub t then
        do { nl \<leftarrow> TopicNoLocal t m; if nl then Some (Some (CodeErr ProtocolError)) else refuse_shared E m ts }
      else refuse_shared E m ts)"

definition sub_at :: "nat \<Rightarrow> bytes \<Rightarrow> subscribe \<Rightarrow> sub option" where
  "sub_at k t m =
     do {
       nl \<leftarrow> TopicNoLocal t m;
       rap \<leftarrow> TopicRetainAsPublished t m;
       rh \<leftarrow> TopicRetainHandling t m;
       q \<leftarrow> at_i k (qos m);
       Some \<lparr>subTopic = t, subQos = q, subNoLocal = nl, subRetainAsPublished = rap, subRetainHandling = rh,
         subSubIdentifier = Subscribe.subscriptionIdentifier m\<rparr>
     }"

text \<open>Which filters collect their retained messages. The session already holds the filter here.\<close>

definition wants_retained :: "sub \<Rightarrow> unit session \<Rightarrow> bool" where
  "wants_retained sb s \<longleftrightarrow>
     \<not> IsShareSub (subTopic sb) \<and>
     (subRetainHandling sb = CanSendRetain \<or>
      subRetainHandling sb = NoExistSubSendRetain \<and>
        (case sess_Topics s of Inl e \<Rightarrow> True | Inr old \<Rightarrow> subTopic sb \<notin> subTopic ` set old))"

definition subscribe_one ::
    "nat \<Rightarrow> sub \<Rightarrow> ('w, 'd, 'r) broker \<Rightarrow> (goerr option \<times> byte \<times> ('w, 'd, 'r) broker) option" where
  "subscribe_one i sb b =
     do {
       (tm, rq, e) \<leftarrow> tm_Subscribe sb (Some i) (bk_tm b);
       let b1 = b\<lparr>bk_tm := tm\<rparr>;
       if e \<noteq> None then Some (Some (CodeErr ServiceBusy), rq, b1)
       else case sess_AddTopic sb (sess_of i b1) of
         (s, Some e) \<Rightarrow> Some (Some (CodeErr ServiceBusy), rq, b1)
       | (s, None) \<Rightarrow>
           (let b2 = sess_upd i (\<lambda>_. s) b1 in
            if wants_retained sb s then
              (case tm_Retained (subTopic sb) (sv_rmsgs (bk_svcs b2 i)) (bk_tm b2) of
                 (ms, e) \<Rightarrow>
                   Some (map_option (\<lambda>_. CodeErr ServiceBusy) e, rq, svc_upd i (\<lambda>s. s\<lparr>sv_rmsgs := ms\<rparr>) b2))
            else Some (None, rq, b2))
     }"

fun subscribe_each ::
    "nat \<Rightarrow> subscribe \<Rightarrow> nat \<Rightarrow> bytes list \<Rightarrow> bytes \<Rightarrow> ('w, 'd, 'r) broker \<Rightarrow>
     (goerr option \<times> bytes \<times> ('w, 'd, 'r) broker) option" where
  "subscribe_each i m k [] codes b = Some (None, codes, b)"
| "subscribe_each i m k (t # ts) codes b =
     do {
       sb \<leftarrow> sub_at k t m;
       (e, rq, b1) \<leftarrow> subscribe_one i sb b;
       if e \<noteq> None then Some (e, codes, b1) else subscribe_each i m (k + 1) ts (codes @ [rq]) b1
     }"

text \<open>
  \<open>processToCluster\<close>: shared filters are counted in the map of cluster nodes. The scan for the end of
  the share name skips wildcards, 0 stands for no separator.
\<close>

fun name_end :: "nat \<Rightarrow> bytes \<Rightarrow> nat" where
  "name_end i [] = 0"
| "name_end i (c # cs) = (if c = 47 then i else name_end (i + 1) cs)"

definition share_parts :: "bytes \<Rightarrow> (bytes \<times> bytes) option" where
  "share_parts t =
     (if length t > length shareByte \<and> deepEqual t = Some True then
        (let n = name_end 0 (drop (length shareByte) t); index = length shareByte + n in
         if index = length shareByte then None
         else if length t \<ge> 2 + index \<and> t ! index = 47
         then Some (take n (drop (length shareByte) t), drop (index + 1) t) else None)
      else None)"

definition count_share :: "('w, 'd, 'r) env \<Rightarrow> byte \<Rightarrow> bytes \<Rightarrow> bytes list \<times> tmnode \<Rightarrow> bytes list \<times> tmnode" where
  "count_share E mt t st =
     (case share_parts t of
        None \<Rightarrow> st
      | Some (name, tp) \<Rightarrow>
          (fst st @ [t],
           if mt = SUBSCRIBE then fst (tn_insert tp name (ev_serverName E) 1 (snd st))
           else if mt = UNSUBSCRIBE then fst (tn_remove tp name (ev_serverName E) (snd st))
           else snd st))"

fun add_topics :: "bytes list \<Rightarrow> subscribe \<Rightarrow> subscribe option" where
  "add_topics [] m = Some m"
| "add_topics (t # ts) m = do { (m', e) \<leftarrow> Subscribe.AddTopic t 0 m; add_topics ts m' }"

definition processToCluster ::
    "('w, 'd, 'r) env \<Rightarrow> nat \<Rightarrow> bytes list \<Rightarrow> byte \<Rightarrow> ('w, 'd, 'r) broker \<Rightarrow> ('w, 'd, 'r) broker option" where
  "processToCluster E i tps mt b =
     (if \<not> sv_clusterOpen (bk_svcs b i) then Some b
      else case fold (count_share E mt) tps ([], bk_nodes b) of
        (shareTp, nodes) \<Rightarrow>
          (let b1 = b\<lparr>bk_nodes := nodes\<rparr> in
           if shareTp = [] then Some b1
           else if mt = SUBSCRIBE then
             do { sm \<leftarrow> add_topics shareTp NewSubscribeMessage; Some (sendCluster i (MSubscribe sm) b1) }
           else if mt = UNSUBSCRIBE then
             Some (sendCluster i (MUnsubscribe (fold Unsubscribe.AddTopic shareTp NewUnsubscribeMessage)) b1)
           else Some (sendCluster i (MOther 0) b1)))"

text \<open>
  The retained messages go out with the first granted QoS at most. They are values here: what the
  encoder caches in them (a drawn identifier, lengths) is not written back to the tree.
\<close>

fun send_retained ::
    "('w, 'd, 'r) env \<Rightarrow> nat \<Rightarrow> byte \<Rightarrow> publish list \<Rightarrow> ('w, 'd, 'r) broker \<Rightarrow> ('w, 'd, 'r) broker option" where
  "send_retained E i q [] b = Some b"
| "send_retained E i q (rm # rms) b =
     do {
       (e, b1) \<leftarrow> svc_publish E i (if QoS rm > q then fst (SetQoS q rm) else rm) None b;
       send_retained E i q rms b1
     }"

definition resend ::
    "('w, 'd, 'r) env \<Rightarrow> nat \<Rightarrow> subscribe \<Rightarrow> ('w, 'd, 'r) broker \<Rightarrow> ('w, 'd, 'r) broker option" where
  "resend E i m b =
     (case sv_rmsgs (bk_svcs b i) of
        [] \<Rightarrow> Some b
      | rms \<Rightarrow> do { q \<leftarrow> at_i 0 (qos m); send_retained E i q rms b })"

definition processSubscribe ::
    "('w, 'd, 'r) env \<Rightarrow> nat \<Rightarrow> subscribe \<Rightarrow> ('w, 'd, 'r) broker \<Rightarrow> (goerr option \<times> ('w, 'd, 'r) broker) option" where
  "processSubscribe E i m b =
     do {
       let b0 = svc_upd i (\<lambda>s. s\<lparr>sv_rmsgs := []\<rparr>) b;
       refused \<leftarrow> refuse_shared E m (Subscribe.topics m);
       if refused \<noteq> None then Some (refused, b0)
       else do {
         (e, codes, b1) \<leftarrow> subscribe_each i m 0 (Subscribe.topics m) [] b0;
         if e \<noteq> None then Some (e, b1)
         else case AddReasonCodes codes (SetPacketId (PacketId m) NewSubackMessage) of
           (resp, Some e) \<Rightarrow> Some (Some (CodeErr UnspecifiedError), b1)
         | (resp, None) \<Rightarrow>
             do {
               (r, we, b2) \<leftarrow> svc_write E i (MSuback resp) b1;
               if we \<noteq> None then Some (unspecified we, b2)
               else do {
                 b3 \<leftarrow> processToCluster E i (Subscribe.topics m) (mtype m) b2;
                 b4 \<leftarrow> resend E i m b3;
                 Some (None, b4)
               }
             }
       }
     }"

text \<open>The errors of \<open>Unsubscribe\<close> and \<open>RemoveTopic\<close> are dropped, the answer has one reason code.\<close>

fun unsubscribe_each :: "nat \<Rightarrow> bytes list \<Rightarrow> ('w, 'd, 'r) broker \<Rightarrow> ('w, 'd, 'r) broker option" where
  "unsubscribe_each i [] b = Some b"
| "unsubscribe_each i (t # ts) b =
     do {
       (tm, e) \<leftarrow> tm_Unsubscribe t (Some i) (bk_tm b);
       unsubscribe_each i ts (sess_upd i (\<lambda>s. fst (sess_RemoveTopic t s)) (b\<lparr>bk_tm := tm\<rparr>))
     }"

definition processUnsubscribe ::
    "('w, 'd, 'r) env \<Rightarrow> nat \<Rightarrow> unsubscribe \<Rightarrow> ('w, 'd, 'r) broker \<Rightarrow> (goerr option \<times> ('w, 'd, 'r) broker) option" where
  "processUnsubscribe E i m b =
     do {
       b1 \<leftarrow> unsubscribe_each i (Unsubscribe.topics m) b;
       (r, we, b2) \<leftarrow> svc_write E i (MUnsuback (UnsubackAddReasonCode Success (SetPacketId (PacketId m) NewUnsubackMessage))) b1;
       if we \<noteq> None then Some (unspecified we, b2)
       else do { b3 \<leftarrow> processToCluster E i (Unsubscribe.topics m) (mtype m) b2; Some (None, b3) }
     }"

section \<open>Incoming messages\<close>

definition add_quota :: "nat \<Rightarrow> ('w, 'd, 'r) broker \<Rightarrow> ('w, 'd, 'r) broker" where
  "add_quota i = svc_upd i (\<lambda>s. s\<lparr>sv_sign := AddQuota (sv_sign s)\<rparr>)"

definition write_answer ::
    "('w, 'd, 'r) env \<Rightarrow> nat \<Rightarrow> mqtt \<Rightarrow> ('w, 'd, 'r) broker \<Rightarrow> (goerr option \<times> ('w, 'd, 'r) broker) option" where
  "write_answer E i m b = do { (r, we, b1) \<leftarrow> svc_write E i m b; Some (unspecified we, b1) }"

definition processDisconnect ::
    "('w, 'd, 'r) env \<Rightarrow> nat \<Rightarrow> disconnect \<Rightarrow> ('w, 'd, 'r) broker \<Rightarrow> goerr option \<times> ('w, 'd, 'r) broker" where
  "processDisconnect E i m b =
     (let b1 = (if Disconnect.reasonCode m = DisconnectionIncludesWill then sendWillMsg i b
                else sess_upd i (\<lambda>s. sess_SetWill None (s\<lparr>ss_cmessage := SetWillMessage [] (ss_cmessage s)\<rparr>)) b)
      in if Disconnect.sessionExpiryInterval m > 0 then
           (if sess_ExpiryInterval (sess_of i b1) = 0 then (Some (CodeErr ProtocolError), b1)
            else
              (let b2 = sess_upd i (sess_SetExpiryInterval (Disconnect.sessionExpiryInterval m)) b1 in
               case ev_StoreSession E (sv_ccid (bk_svcs b2 i)) (sess_of i b2) (bk_db b2) of
                 (d, Some e) \<Rightarrow> (Some (CodeErr UnspecifiedError), b2\<lparr>bk_db := d\<rparr>)
               | (d, None) \<Rightarrow> (Some errDisconnect, b2\<lparr>bk_db := d\<rparr>)))
         else (Some errDisconnect, b1))"

fun processIncoming ::
    "('w, 'd, 'r) env \<Rightarrow> nat \<Rightarrow> mqtt \<Rightarrow> ('w, 'd, 'r) broker \<Rightarrow> (goerr option \<times> ('w, 'd, 'r) broker) option" where
  "processIncoming E i (MPublish m) b = processPublish E i m b"
| "processIncoming E i (MPuback m) b =
     do {
       (e, b1) \<leftarrow> ack_queue_msg i l_pub1ack (MPuback m) (add_quota i b);
       if e \<noteq> None then Some (unspecified e, b1)
       else do { b2 \<leftarrow> processAcked E i l_pub1ack b1; Some (None, b2) }
     }"
| "processIncoming E i (MPubrec m) b =
     do {
       let b0 = (if AckPackets.reasonCode m > QosFailure then add_quota i b else b);
       (e, b1) \<leftarrow> ack_queue_msg i l_pub2out (MPubrec m) b0;
       if e \<noteq> None then Some (unspecified e, b1)
       else write_answer E i (MPubrel (SetPacketId (PacketId m) NewPubrelMessage)) b1
     }"
| "processIncoming E i (MPubrel m) b =
     do {
       (e, b1) \<leftarrow> ack_queue_msg i l_pub2in (MPubrel m) b;
       if e \<noteq> None then Some (e, b1)
       else do {
         b2 \<leftarrow> processAcked E i l_pub2in b1;
         write_answer E i (MPubcomp (SetPacketId (PacketId m) NewPubcompMessage)) b2
       }
     }"
| "processIncoming E i (MPubcomp m) b =
     do {
       (e, b1) \<leftarrow> ack_queue_msg i l_pub2out (MPubcomp m) (add_quota i b);
       if e \<noteq> None then Some (unspecified e, b1)
       else do { b2 \<leftarrow> processAcked E i l_pub2out b1; Some (None, b2) }
     }"
| "processIncoming E i (MSubscribe m) b = processSubscribe E i m b"
| "processIncoming E i (MSuback m) b =
     do { (e, b1) \<leftarrow> ack_queue_msg i l_suback (MSuback m) b; b2 \<leftarrow> processAcked E i l_suback b1; Some (None, b2) }"
| "processIncoming E i (MUnsubscribe m) b = processUnsubscribe E i m b"
| "processIncoming E i (MUnsuback m) b =
     do { (e, b1) \<leftarrow> ack_queue_msg i l_unsuback (MUnsuback m) b; b2 \<leftarrow> processAcked E i l_unsuback b1; Some (None, b2) }"
| "processIncoming E i (MPingreq m) b = write_answer E i (MPingresp NewPingrespMessage) b"
| "processIncoming E i (MPingresp m) b =
     do { (e, b1) \<leftarrow> ack_queue_msg i l_pingack (MPingresp m) b; b2 \<leftarrow> processAcked E i l_pingack b1; Some (None, b2) }"
| "processIncoming E i (MDisconnect m) b = Some (processDisconnect E i m b)"
| "processIncoming E i (MOther t) b = Some (Some (CodeErr ProtocolError), b)"

end
