(* ===== verification/Delivery.thy ===== *)
theory Delivery
  imports Process
begin

text \<open>
  What handing out publications can change in the broker, whoever caused it: the retained messages,
  the counters, the tasks, and of each service its connection, its quota and its two queues of
  outgoing publications. Subscriptions, aliases and the queue of incoming publications stay.
\<close>

section \<open>Insertion and removal keep the retained tree well formed\<close>

lemma wf_kid: "wf_rnode (RNode m b kids) \<Longrightarrow> wf_rnode (case map_of kids k of Some n \<Rightarrow> n | None \<Rightarrow> newRNode)"
  using wf_rkidD [of m b kids k] by (cases "map_of kids k") simp_all

lemma rinsert_wf: "rinsert tp g msg t = Some (t', g', msg', e) \<Longrightarrow> wf_rnode t \<Longrightarrow> wf_rnode t'"
proof (induction tp g msg t arbitrary: t' g' msg' e rule: rinsert.induct)
  case (1 tp g msg m b kids)
  show ?case
  proof (cases "tp = []")
    case True
    then show ?thesis using 1(2,3) by (auto simp: rinsert.simps split: option.splits prod.splits)
  next
    case False
    show ?thesis
    proof (cases "nextTopicLevel tp")
      case (Inl e')
      then show ?thesis using False 1(2,3) by (simp add: rinsert.simps [of tp])
    next
      case (Inr lr)
      obtain level rem where lr: "(level, rem) = lr" by (metis surj_pair)
      define n where "n = (case map_of kids level of Some n \<Rightarrow> n | None \<Rightarrow> newRNode)"
      obtain n' where n': "rinsert (case rem of None \<Rightarrow> [] | Some r \<Rightarrow> r) g msg n = Some (n', g', msg', e)"
        "t' = RNode m b (AList.update level n' kids)"
        using 1(2) False Inr lr [symmetric]
        by (auto simp: rinsert.simps [of tp] Let_def n_def [symmetric] split: option.splits)
      have "wf_rnode n'" using 1(1) [OF False Inr lr n_def n'(1)] wf_kid [OF 1(3)] by (simp add: n_def)
      then show ?thesis unfolding n'(2) by (rule wf_update [OF 1(3)])
    qed
  qed
qed

lemma rremove_wf: "wf_rnode t \<Longrightarrow> wf_rnode (fst (rremove tp t))"
proof (induction tp t rule: rremove.induct)
  case (1 tp m b kids)
  show ?case
  proof (cases "tp = []")
    case True
    then show ?thesis using 1(2) by (simp add: rremove.simps)
  next
    case False
    show ?thesis
    proof (cases "nextTopicLevel tp")
      case (Inl e)
      then show ?thesis using False 1(2) by (simp add: rremove.simps [of tp])
    next
      case (Inr lr)
      obtain level rem where lr: "(level, rem) = lr" by (metis surj_pair)
      show ?thesis
      proof (cases "map_of kids level")
        case None
        then show ?thesis using False Inr lr [symmetric] 1(2) by (simp add: rremove.simps [of tp])
      next
        case (Some n)
        note w = 1(1) [OF False Inr lr Some wf_rkidD [OF 1(2) Some]]
        show ?thesis
          using False Inr lr [symmetric] Some w wf_update [OF 1(2)] wf_delete [OF 1(2)]
          by (auto simp: rremove.simps [of tp] split: prod.splits option.splits)
      qed
    qed
  qed
qed

section \<open>The frame of a delivery\<close>

definition sess_frame :: "unit session \<Rightarrow> unit session \<Rightarrow> bool" where
  "sess_frame s s' \<longleftrightarrow>
     (\<exists>q1 q2. s' = s\<lparr>ss_pub1ack := q1, ss_pub2out := q2\<rparr> \<and>
        (aq_inv (ss_pub1ack s) \<longrightarrow> aq_inv q1) \<and> (aq_inv (ss_pub2out s) \<longrightarrow> aq_inv q2))"

definition svc_frame :: "'w service \<Rightarrow> 'w service \<Rightarrow> bool" where
  "svc_frame s s' \<longleftrightarrow>
     sess_frame (sv_sess s) (sv_sess s') \<and> sv_ccid s' = sv_ccid s \<and> sv_clusterBelong s' = sv_clusterBelong s \<and>
     sv_clusterOpen s' = sv_clusterOpen s \<and> sv_closed s' = sv_closed s \<and> sv_open s' = sv_open s \<and>
     sv_hasSendWill s' = sv_hasSendWill s \<and> sv_rmsgs s' = sv_rmsgs s"

definition delivers :: "('w, 'd, 'r) broker \<Rightarrow> ('w, 'd, 'r) broker \<Rightarrow> bool" where
  "delivers b b' \<longleftrightarrow>
     tm_sroot (bk_tm b') = tm_sroot (bk_tm b) \<and> tm_share (bk_tm b') = tm_share (bk_tm b) \<and>
     tm_sys (bk_tm b') = tm_sys (bk_tm b) \<and> (wf_rnode (tm_rroot (bk_tm b)) \<longrightarrow> wf_rnode (tm_rroot (bk_tm b'))) \<and>
     bk_nodes b' = bk_nodes b \<and> bk_wills b' = bk_wills b \<and> bk_ids b' = bk_ids b \<and> (\<forall>j. svc_frame (bk_svcs b j) (bk_svcs b' j))"

lemma sess_frame_refl [simp]: "sess_frame s s"
  unfolding sess_frame_def by (intro exI [of _ "ss_pub1ack s"] exI [of _ "ss_pub2out s"]) simp

lemma sess_frame_set:
  "(aq_inv (ss_pub1ack s) \<Longrightarrow> aq_inv q) \<Longrightarrow> sess_frame s (s\<lparr>ss_pub1ack := q\<rparr>)"
  "(aq_inv (ss_pub2out s) \<Longrightarrow> aq_inv q) \<Longrightarrow> sess_frame s (s\<lparr>ss_pub2out := q\<rparr>)"
  unfolding sess_frame_def
  by (rule exI [of _ q], rule exI [of _ "ss_pub2out s"], simp) (rule exI [of _ "ss_pub1ack s"], rule exI [of _ q], simp)

lemma sess_frame_trans:
  assumes "sess_frame s s1" "sess_frame s1 s2"
  shows "sess_frame s s2"
proof -
  from assms obtain q1 q2 p1 p2 where
    "s1 = s\<lparr>ss_pub1ack := q1, ss_pub2out := q2\<rparr>" "aq_inv (ss_pub1ack s) \<longrightarrow> aq_inv q1" "aq_inv (ss_pub2out s) \<longrightarrow> aq_inv q2"
    "s2 = s1\<lparr>ss_pub1ack := p1, ss_pub2out := p2\<rparr>" "aq_inv q1 \<longrightarrow> aq_inv p1" "aq_inv q2 \<longrightarrow> aq_inv p2"
    by (auto simp: sess_frame_def)
  then show ?thesis unfolding sess_frame_def by (intro exI [of _ p1] exI [of _ p2]) simp
qed

lemma sess_frameD:
  assumes "sess_frame s s'"
  shows "ss_pub2in s' = ss_pub2in s" "ss_suback s' = ss_suback s" "ss_unsuback s' = ss_unsuback s"
    "ss_pingack s' = ss_pingack s" "ss_cmessage s' = ss_cmessage s" "ss_will s' = ss_will s"
    "ss_topics s' = ss_topics s" "ss_topicAlice s' = ss_topicAlice s" "ss_topicAliceRe s' = ss_topicAliceRe s"
    "ss_initted s' = ss_initted s" "sess_ok s \<Longrightarrow> sess_ok s'"
  using assms by (auto simp: sess_frame_def sess_ok_def)

lemma svc_frame_refl [simp]: "svc_frame s s"
  by (simp add: svc_frame_def)

lemma svc_frame_trans: "svc_frame s s1 \<Longrightarrow> svc_frame s1 s2 \<Longrightarrow> svc_frame s s2"
  by (auto simp: svc_frame_def intro: sess_frame_trans)

lemma delivers_refl [simp]: "delivers b b"
  by (simp add: delivers_def)

lemma delivers_trans [trans]: "delivers b b1 \<Longrightarrow> delivers b1 b2 \<Longrightarrow> delivers b b2"
  by (auto simp: delivers_def intro: svc_frame_trans)

lemma delivers_sess: "delivers b b' \<Longrightarrow> sess_frame (sess_of j b) (sess_of j b')"
  by (simp add: delivers_def svc_frame_def)

lemma delivers_svc: "(\<And>s. svc_frame s (f s)) \<Longrightarrow> delivers b (svc_upd i f b)"
  by (simp add: delivers_def svc_upd_def)

lemma delivers_svc_at: "svc_frame (bk_svcs b i) (f (bk_svcs b i)) \<Longrightarrow> delivers b (svc_upd i f b)"
  by (simp add: delivers_def svc_upd_def)

lemma delivers_fields [simp]:
  "delivers b (c\<lparr>bk_g := g\<rparr>) = delivers b c" "delivers b (c\<lparr>bk_rand := r\<rparr>) = delivers b c"
  "delivers b (c\<lparr>bk_tasks := ts\<rparr>) = delivers b c" "delivers b (c\<lparr>bk_sent := ss\<rparr>) = delivers b c"
  "delivers b (c\<lparr>bk_db := d\<rparr>) = delivers b c"
  "delivers (c\<lparr>bk_g := g\<rparr>) b = delivers c b" "delivers (c\<lparr>bk_rand := r\<rparr>) b = delivers c b"
  "delivers (c\<lparr>bk_tasks := ts\<rparr>) b = delivers c b" "delivers (c\<lparr>bk_sent := ss\<rparr>) b = delivers c b"
  "delivers (c\<lparr>bk_db := d\<rparr>) b = delivers c b"
  by (simp_all add: delivers_def)

section \<open>Every delivery stays within its frame\<close>

lemma svc_write_delivers: "svc_write E i m b = Some (m', e, b') \<Longrightarrow> delivers b b'"
  unfolding svc_write_def Let_def
  by (auto split: if_splits option.splits prod.splits intro!: delivers_trans [OF _ delivers_svc] simp: svc_frame_def)

lemma queue_Wait_inv: "queue_Wait g m cb q = Some (e, g', m', q') \<Longrightarrow> aq_inv q \<Longrightarrow> aq_inv q'"
  using aq_Wait_inv [of q "mqtt_ops g" m cb]
  by (auto simp: queue_Wait_def bind_eq_Some_conv split: if_splits)

lemma svc_publish_delivers:
  assumes "svc_publish E i m cb b = Some (e, b')"
  shows "delivers b b'"
proof -
  have w: "delivers b (sess_upd i (\<lambda>s. s\<lparr>ss_pub1ack := q\<rparr>) (b\<lparr>bk_g := g\<rparr>))"
    if "queue_Wait (bk_g b) (MPublish m) cb (ss_pub1ack (sess_of i b)) = Some (e, g, m1, q)" for e g m1 q
    using queue_Wait_inv [OF that]
    by (intro delivers_trans [OF _ delivers_svc_at]) (simp_all add: svc_frame_def sess_frame_set)
  have w2: "delivers b (sess_upd i (\<lambda>s. s\<lparr>ss_pub2out := q\<rparr>) (b\<lparr>bk_g := g\<rparr>))"
    if "queue_Wait (bk_g b) (MPublish m) cb (ss_pub2out (sess_of i b)) = Some (e, g, m1, q)" for e g m1 q
    using queue_Wait_inv [OF that]
    by (intro delivers_trans [OF _ delivers_svc_at]) (simp_all add: svc_frame_def sess_frame_set)
  show ?thesis
    using assms
    by (auto simp: svc_publish_def bind_eq_Some_conv Let_def split: if_splits
        dest!: w w2 svc_write_delivers intro: delivers_trans)
qed

lemma onpub_delivers:
  assumes "onpub E j m sb sender shared b = Some (e, b')"
  shows "delivers b b'"
proof -
  have q: "delivers b (snd (onpub_quota m j b))"
    by (auto simp: onpub_quota_def svc_frame_def split: prod.splits intro!: delivers_svc)
  have p: "delivers c (snd (onpub_pkid n j c))" for n and c :: "('a, 'b, 'c) broker"
    by (auto simp: onpub_pkid_def svc_frame_def Let_def intro!: delivers_svc)
  show ?thesis
    using assms q p
    by (auto simp: onpub_def Let_def split: prod.splits bool.splits if_splits dest!: svc_publish_delivers)
      (metis delivers_trans snd_conv)+
qed

lemma lookSend_delivers: "lookSend E i subs only m b = Some (m', b') \<Longrightarrow> delivers b b'"
proof (induction E i subs only m b rule: lookSend.induct)
  case (2 E i j sb rest only m b)
  from 2(2) obtain g m1 c e b1
    where s: "copyMsg E (bk_g b) m (subQos sb) = Some (g, m1, c)"
      "onpub E j c sb (sv_ccid (bk_svcs b i)) only (b\<lparr>bk_g := g\<rparr>) = Some (e, b1)"
      "lookSend E i rest only m1 b1 = Some (m', b')"
    by (auto simp: bind_eq_Some_conv)
  have "delivers b b1" using onpub_delivers [OF s(2)] by simp
  also have "delivers b1 b'" using 2(1) [OF s(1) refl refl s(2) refl s(3)] .
  finally show ?case .
qed simp

lemma pub_to_delivers: "pub_to E i m sys sn only b = Some (m', e, b') \<Longrightarrow> delivers b b'"
  by (auto simp: pub_to_def bind_eq_Some_conv Let_def split: if_splits dest!: lookSend_delivers)

lemma keep_retained_delivers: "keep_retained E m b = Some (m', b') \<Longrightarrow> delivers b b'"
  by (auto simp: keep_retained_def bind_eq_Some_conv tm_Retain_def delivers_def
      split: if_splits prod.splits option.splits dest: rinsert_wf)
    (metis fst_conv rremove_wf)+

lemma sendCluster_delivers: "delivers b (sendCluster i m b)"
  by (simp add: sendCluster_def)

lemma sendShare_delivers: "sendShareToCluster E i m b = Some b' \<Longrightarrow> delivers b b'"
  by (auto simp: sendShareToCluster_def pubFnPlus_def bind_eq_Some_conv split: if_splits dest!: pub_to_delivers)

lemma onPublish_delivers:
  assumes "onPublish E i m b = Some (e, b')"
  shows "delivers b b'"
proof -
  obtain m1 b1 m2 b2 m3 where s: "keep_retained E m b = Some (m1, b1)"
    "(if sv_clusterOpen (bk_svcs b1 i) \<or> OpenShare E
      then do { (g, m2, c) \<leftarrow> buffer_copy E (bk_g b1) m1;
                let b2 = sendCluster i (MPublish c) (b1\<lparr>bk_g := g\<rparr>);
                b3 \<leftarrow> (if OpenShare E then sendShareToCluster E i c b2 else Some b2);
                Some (m2, b3) }
      else Some (m1, b1)) = Some (m2, b2)"
    "pubFn E i m2 [] False b2 = Some (m3, e, b')"
    using assms unfolding onPublish_def by (auto simp: bind_eq_Some_conv)
  have "delivers b b1" using keep_retained_delivers [OF s(1)] .
  also have "delivers b1 b2"
  proof -
    have "delivers b1 (sendCluster i c (b1\<lparr>bk_g := g\<rparr>))" for c g
      using sendCluster_delivers [of "b1\<lparr>bk_g := g\<rparr>" i c] by simp
    then show ?thesis
      using s(2) by (auto simp: bind_eq_Some_conv Let_def split: if_splits dest!: sendShare_delivers intro: delivers_trans)
  qed
  also have "delivers b2 b'" using s(3) by (auto simp: pubFn_def dest: pub_to_delivers)
  finally show ?thesis .
qed

lemma share_nodes_delivers: "share_nodes E i sns m b = Some b' \<Longrightarrow> delivers b b'"
proof (induction E i sns m b rule: share_nodes.induct)
  case (2 E i sn node rest m b)
  show ?case
  proof (cases "node = ev_serverName E")
    case True
    then obtain m1 e b1 where s: "pubFn E i m sn True b = Some (m1, e, b1)" "share_nodes E i rest m1 b1 = Some b'"
      using 2(3) by (auto simp: bind_eq_Some_conv)
    have "delivers b b1" using s(1) by (auto simp: pubFn_def dest: pub_to_delivers)
    also have "delivers b1 b'" using 2(1) [OF True s(1) refl refl s(2)] .
    finally show ?thesis .
  next
    case False
    then show ?thesis using 2(2) [OF False] 2(3) by simp
  qed
qed simp

lemma run_task_delivers: "run_task E t b = Some b' \<Longrightarrow> delivers b b'"
  by (cases t)
     (auto simp: bind_eq_Some_conv pubFn_def split: prod.splits sum.splits dest!: share_nodes_delivers pub_to_delivers)

lemma cluster_in_delivers: "cluster_in E i m sys sn only b = Some (e, b') \<Longrightarrow> delivers b b'"
  by (auto simp: cluster_in_def bind_eq_Some_conv split: if_splits
      dest!: keep_retained_delivers pub_to_delivers intro: delivers_trans)

lemma acked_one_cases:
  assumes "acked_one E i am b = Some b'"
  shows "b' = b \<or> (\<exists>p e. onPublish E i p b = Some (e, b'))"
proof -
  have "(case msg of MPublish p \<Rightarrow> do { (e, b') \<leftarrow> onPublish E i p b; Some b' } | _ \<Rightarrow> None) = Some b' \<Longrightarrow>
      \<exists>p e. onPublish E i p b = Some (e, b')" for msg
    by (cases msg) (auto simp: bind_eq_Some_conv)
  note pub = this
  obtain m where m: "decode_as (Mtype am) (Mtype am = PINGREQ) (Msgbuf am) = Some m"
    using assms by (auto simp: acked_one_def bind_eq_Some_conv)
  show ?thesis
  proof (cases m)
    case None
    then show ?thesis using assms m by (simp add: acked_one_def)
  next
    case (Some msg)
    obtain a where "decode_as (State am) (State am = PINGRESP) (Ackbuf am) = Some a"
      using assms m Some by (auto simp: acked_one_def bind_eq_Some_conv)
    then show ?thesis
      using assms m Some pub [of msg] by (cases a) (auto simp: acked_one_def split: if_splits)
  qed
qed

lemma acked_one_delivers: "acked_one E i am b = Some b' \<Longrightarrow> delivers b b'"
  using acked_one_cases onPublish_delivers by fastforce

lemma acked_all_delivers: "acked_all E i ams b = Some b' \<Longrightarrow> delivers b b'"
  by (induction E i ams b rule: acked_all.induct)
     (auto simp: bind_eq_Some_conv intro: delivers_trans [OF acked_one_delivers])

lemma send_retained_delivers: "send_retained E i q rms b = Some b' \<Longrightarrow> delivers b b'"
proof (induction E i q rms b rule: send_retained.induct)
  case (2 E i q rm rms b)
  then obtain e b1 where s: "svc_publish E i (if QoS rm > q then fst (SetQoS q rm) else rm) None b = Some (e, b1)"
    "send_retained E i q rms b1 = Some b'"
    by (auto simp: bind_eq_Some_conv)
  then show ?case using 2(1) [OF s(1) refl s(2)] by (auto dest!: svc_publish_delivers intro: delivers_trans)
qed simp

lemma resend_delivers: "resend E i m b = Some b' \<Longrightarrow> delivers b b'"
  by (cases "sv_rmsgs (bk_svcs b i)") (auto simp: resend_def bind_eq_Some_conv simp del: send_retained.simps dest: send_retained_delivers)

lemma write_answer_delivers: "write_answer E i m b = Some (e, b') \<Longrightarrow> delivers b b'"
  by (auto simp: write_answer_def bind_eq_Some_conv dest: svc_write_delivers)

text \<open>A delayed will that runs while the client has a newer one removes the newer one; the old one stays scheduled.\<close>

lemma older_will_stays:
  assumes "fire_will E k b = Some b'" "k < length (bk_wills b)" "bk_wills b ! k = Some (cid, delay, i, m)"
    "map_of (bk_ids b) cid = Some e" "e \<noteq> k"
  shows "bk_wills b' = (bk_wills b)[e := None]" "bk_wills b' ! k = Some (cid, delay, i, m)"
proof -
  obtain m1 e1 b1 where p: "pubFn E i m [] False b = Some (m1, e1, b1)" "b' = remove_job cid b1"
    using assms(1-3) by (auto simp: fire_will_def bind_eq_Some_conv)
  have "delivers b b1" using p(1) pub_to_delivers by (simp add: pubFn_def)
  then have "bk_wills b1 = bk_wills b" "bk_ids b1 = bk_ids b" by (simp_all add: delivers_def)
  then show "bk_wills b' = (bk_wills b)[e := None]" by (simp add: p(2) remove_job_def assms(4))
  then show "bk_wills b' ! k = Some (cid, delay, i, m)" using assms(3,5) by simp
qed

end
