(* ===== verification/Broker.thy ===== *)
theory Broker
  imports Delivery
begin

text \<open>
  The broker as a whole: the events it serves, and what holds after every sequence of them. Sessions
  and manager stay well formed, every subscription the manager holds is in the session of its client,
  and a service that is stopped leaves none behind.
\<close>

section \<open>Events\<close>

datatype event =
    Incoming nat mqtt
  | Submitted task
  | Timer nat
  | FromCluster nat publish bool bytes bool
  | Opened nat
  | Closed nat

fun serve_one :: "('w, 'd, 'r) env \<Rightarrow> event \<Rightarrow> ('w, 'd, 'r) broker \<Rightarrow> ('w, 'd, 'r) broker option" where
  "serve_one E (Incoming i m) b = map_option snd (processIncoming E i m b)"
| "serve_one E (Submitted t) b = run_task E t b"
| "serve_one E (Timer k) b = fire_will E k b"
| "serve_one E (FromCluster i m sys sn only) b = map_option snd (cluster_in E i m sys sn only b)"
| "serve_one E (Opened i) b = map_option snd (reloadSub E i b)"
| "serve_one E (Closed i) b = svc_stop i b"

fun serve :: "('w, 'd, 'r) env \<Rightarrow> event list \<Rightarrow> ('w, 'd, 'r) broker \<Rightarrow> ('w, 'd, 'r) broker option" where
  "serve E [] b = Some b"
| "serve E (ev # evs) b = do { b1 \<leftarrow> serve_one E ev b; serve E evs b1 }"

section \<open>Steps that leave the subscriptions alone\<close>

definition keeps :: "('w, 'd, 'r) broker \<Rightarrow> ('w, 'd, 'r) broker \<Rightarrow> bool" where
  "keeps b b' \<longleftrightarrow>
     tm_sroot (bk_tm b') = tm_sroot (bk_tm b) \<and> tm_share (bk_tm b') = tm_share (bk_tm b) \<and>
     tm_sys (bk_tm b') = tm_sys (bk_tm b) \<and> (wf_rnode (tm_rroot (bk_tm b)) \<longrightarrow> wf_rnode (tm_rroot (bk_tm b'))) \<and>
     (\<forall>j. (sess_ok (sess_of j b) \<longrightarrow> sess_ok (sess_of j b')) \<and> ss_topics (sess_of j b') = ss_topics (sess_of j b))"

lemma keeps_refl [simp]: "keeps b b"
  by (simp add: keeps_def)

lemma keeps_trans [trans]: "keeps b b1 \<Longrightarrow> keeps b1 b2 \<Longrightarrow> keeps b b2"
  by (simp add: keeps_def)

lemma delivers_keeps: "delivers b b' \<Longrightarrow> keeps b b'"
  by (auto simp: keeps_def delivers_def svc_frame_def dest: sess_frameD)

lemma keeps_svc:
  "(sess_ok (sess_of i b) \<Longrightarrow> sess_ok (sv_sess (f (bk_svcs b i)))) \<Longrightarrow>
     ss_topics (sv_sess (f (bk_svcs b i))) = ss_topics (sess_of i b) \<Longrightarrow> keeps b (svc_upd i f b)"
  by (simp add: keeps_def svc_upd_def)

lemma keeps_fields [simp]:
  "keeps b (c\<lparr>bk_g := g\<rparr>) = keeps b c" "keeps b (c\<lparr>bk_tasks := ts\<rparr>) = keeps b c"
  "keeps b (c\<lparr>bk_wills := ws\<rparr>) = keeps b c" "keeps b (c\<lparr>bk_ids := is\<rparr>) = keeps b c" "keeps b (c\<lparr>bk_nodes := ns\<rparr>) = keeps b c" "keeps b (c\<lparr>bk_db := d\<rparr>) = keeps b c"
  by (simp_all add: keeps_def)

definition good_lens :: "queue_lens \<Rightarrow> bool" where
  "good_lens l \<longleftrightarrow>
     (\<forall>s q. sess_ok s \<longrightarrow> aq_inv (fst l s) \<and> (aq_inv q \<longrightarrow> sess_ok (snd l q s))) \<and>
     (\<forall>s q. ss_topics (snd l q s) = ss_topics s)"

lemma good_lenses [simp]:
  "good_lens l_pub1ack" "good_lens l_pub2in" "good_lens l_pub2out" "good_lens l_suback" "good_lens l_unsuback" "good_lens l_pingack"
  by (simp_all add: good_lens_def l_pub1ack_def l_pub2in_def l_pub2out_def l_suback_def l_unsuback_def l_pingack_def sess_ok_def)

lemma queue_Ack_inv: "queue_Ack g m q = Some (e, q') \<Longrightarrow> aq_inv q \<Longrightarrow> aq_inv q'"
  using aq_Ack_inv [of q "mqtt_ops g" m] by (auto simp: queue_Ack_def split: if_splits)

lemma ack_queue_keeps: "ack_queue_msg i l m b = Some (e, b') \<Longrightarrow> good_lens l \<Longrightarrow> keeps b b'"
  by (auto simp: ack_queue_msg_def bind_eq_Some_conv good_lens_def intro!: keeps_svc dest: queue_Ack_inv)

lemma processAcked_keeps:
  assumes "processAcked E i l b = Some b'" "good_lens l"
  shows "keeps b b'"
proof -
  obtain ams q where q: "aq_Acked (fst l (sess_of i b)) = Some (ams, q)" "acked_all E i ams (sess_upd i (snd l q) b) = Some b'"
    using assms(1) by (auto simp: processAcked_def bind_eq_Some_conv)
  have "keeps b (sess_upd i (snd l q) b)"
    using aq_Acked_inv [of "fst l (sess_of i b)"] q(1) assms(2) by (intro keeps_svc) (auto simp: good_lens_def)
  then show ?thesis using delivers_keeps [OF acked_all_delivers [OF q(2)]] keeps_trans by blast
qed

lemma acked_keeps:
  assumes "ack_queue_msg i l m b0 = Some (e, b1)" "processAcked E i l b1 = Some b2" "good_lens l" "keeps b b0"
  shows "keeps b b2"
  using ack_queue_keeps [OF assms(1,3)] processAcked_keeps [OF assms(2,3)] assms(4) keeps_trans by blast

lemma add_quota_keeps [simp]: "keeps b (add_quota i b)"
  by (simp add: add_quota_def keeps_svc)

lemma topicAliceIn_ok:
  assumes "topicAliceIn m s = (m', s', e)"
  shows "sess_ok s \<Longrightarrow> sess_ok s'" "ss_topics s' = ss_topics s" "ss_pub2in s' = ss_pub2in s"
  using assms by (auto simp: topicAliceIn_def AddTopicAlice_def sess_ok_def split: if_splits option.splits)

lemma keeps_pub2in: "(sess_ok (sess_of i b) \<Longrightarrow> aq_inv q) \<Longrightarrow> keeps b (sess_upd i (\<lambda>s. s\<lparr>ss_pub2in := q\<rparr>) b)"
  by (intro keeps_svc) (auto simp: sess_ok_def)

lemma keeps_remove_job [simp]: "keeps b (remove_job cid c) = keeps b c"
  by (simp add: remove_job_def split: option.split)

lemma processPublish_keeps:
  assumes "processPublish E i m b = Some (e, b')"
  shows "keeps b b'"
proof -
  obtain m1 s1 e1 where a: "topicAliceIn m (sess_of i b) = (m1, s1, e1)" by (metis prod_cases3)
  let ?b1 = "sess_upd i (\<lambda>_. s1) b"
  have k1: "keeps b ?b1" using topicAliceIn_ok [OF a] by (intro keeps_svc) auto
  have k2: "keeps ?b1 (sess_upd i (\<lambda>s. s\<lparr>ss_pub2in := q\<rparr>) (?b1\<lparr>bk_g := g\<rparr>))"
    if "queue_Wait (bk_g ?b1) (MPublish m1) None (ss_pub2in (sess_of i ?b1)) = Some (ee, g, m2, q)" for ee g m2 q
  proof -
    have "sess_ok (sess_of i ?b1) \<Longrightarrow> aq_inv q" using queue_Wait_inv [OF that] by (simp add: sess_ok_def)
    then show ?thesis using keeps_pub2in [where i = i and b = "?b1\<lparr>bk_g := g\<rparr>" and q = q] by (simp add: keeps_def)
  qed
  have w: "svc_write E i x c = Some (y, z, d) \<Longrightarrow> keeps c d" for x c y z d
    using svc_write_delivers delivers_keeps by blast
  have p: "onPublish E i x c = Some (z, d) \<Longrightarrow> keeps c d" for x c z d
    using onPublish_delivers delivers_keeps by blast
  show ?thesis
    using assms a k1
    unfolding processPublish_def
    by (auto simp: bind_eq_Some_conv Let_def split: if_splits option.splits dest!: k2 w p intro: keeps_trans)
qed

lemma sendWill_keeps [simp]: "keeps b (sendWillMsg i b)"
  by (simp add: sendWillMsg_def sess_Will_def Let_def keeps_def svc_upd_def sess_SetWill_def sess_ok_def split: option.split)

lemma processDisconnect_keeps: "keeps b (snd (processDisconnect E i m b))"
proof -
  define b1 where "b1 = (if Disconnect.reasonCode m = DisconnectionIncludesWill then sendWillMsg i b
    else sess_upd i (\<lambda>s. sess_SetWill None (s\<lparr>ss_cmessage := SetWillMessage [] (ss_cmessage s)\<rparr>)) b)"
  have k1: "keeps b b1" by (auto simp: b1_def sess_SetWill_def sess_ok_def intro!: keeps_svc)
  have k2: "keeps b1 (sess_upd i (sess_SetExpiryInterval v) b1)" for v
    by (intro keeps_svc) (simp_all add: sess_SetExpiryInterval_def sess_ok_def)
  show ?thesis
    using k1 keeps_trans [OF k1 k2]
    by (auto simp: processDisconnect_def b1_def [symmetric] Let_def split: prod.split option.split)
qed

lemma processToCluster_keeps: "processToCluster E i tps mt b = Some b' \<Longrightarrow> keeps b b'"
  by (auto simp: processToCluster_def sendCluster_def bind_eq_Some_conv Let_def split: if_splits prod.splits)

section \<open>Invariants of the broker\<close>

text \<open>
  What every invariant of the subscriptions has to offer, and what it then gets: it holds after any
  sequence of events.
\<close>

locale broker_invariant =
  fixes I :: "('w, 'd, 'r) broker \<Rightarrow> bool"
  assumes kept: "I b \<Longrightarrow> keeps b b' \<Longrightarrow> I b'"
    and subscribed: "I b \<Longrightarrow> subscribe_one i sb b = Some (e, rq, b') \<Longrightarrow> I b'"
    and unsubscribed: "I b \<Longrightarrow> tm_Unsubscribe t (Some i) (bk_tm b) = Some (tm, e) \<Longrightarrow>
      I (sess_upd i (\<lambda>s. fst (sess_RemoveTopic t s)) (b\<lparr>bk_tm := tm\<rparr>))"
    and reloaded: "I b \<Longrightarrow> reloadSub E i b = Some (e, b') \<Longrightarrow> I b'"
    and stopped: "I b \<Longrightarrow> svc_stop i b = Some b' \<Longrightarrow> I b'"
begin

lemma delivered: "I b \<Longrightarrow> delivers b b' \<Longrightarrow> I b'"
  using kept delivers_keeps by blast

lemma chained: "I b \<Longrightarrow> delivers b b1 \<Longrightarrow> keeps b1 b2 \<Longrightarrow> delivers b2 b3 \<Longrightarrow> I b3"
  using kept delivered by blast

lemma chained_keeps: "I b \<Longrightarrow> keeps b b1 \<Longrightarrow> keeps b1 b2 \<Longrightarrow> delivers b2 b3 \<Longrightarrow> I b3" "I b \<Longrightarrow> keeps b b1 \<Longrightarrow> keeps b1 b2 \<Longrightarrow> I b2"
  using kept delivered by blast+

lemma subscribe_each: "subscribe_each i m k ts codes b = Some (e, codes', b') \<Longrightarrow> I b \<Longrightarrow> I b'"
proof (induction i m k ts codes b rule: subscribe_each.induct)
  case (2 i m k t ts codes b)
  obtain sb e1 rq b1 where s: "sub_at k t m = Some sb" "subscribe_one i sb b = Some (e1, rq, b1)"
    "(if e1 \<noteq> None then Some (e1, codes, b1) else subscribe_each i m (k + 1) ts (codes @ [rq]) b1) = Some (e, codes', b')"
    using 2(2) by (auto simp: bind_eq_Some_conv)
  have "I b1" using subscribed [OF 2(3) s(2)] .
  then show ?case using s(3) 2(1) [OF s(1,2) refl refl] by (auto split: if_splits)
qed simp

lemma unsubscribe_each: "unsubscribe_each i ts b = Some b' \<Longrightarrow> I b \<Longrightarrow> I b'"
  by (induction i ts b rule: unsubscribe_each.induct) (auto simp: bind_eq_Some_conv dest: unsubscribed)

lemma processSubscribe:
  assumes "processSubscribe E i m b = Some (e, b')" "I b"
  shows "I b'"
proof -
  let ?b0 = "svc_upd i (\<lambda>s. s\<lparr>sv_rmsgs := []\<rparr>) b"
  have i0: "I ?b0" by (rule kept [OF assms(2)]) (simp add: keeps_svc)
  obtain refused where r: "refuse_shared E m (Subscribe.topics m) = Some refused"
    using assms(1) by (auto simp: processSubscribe_def bind_eq_Some_conv Let_def)
  show ?thesis
  proof (cases refused)
    case (Some x)
    then show ?thesis using assms(1) i0 r by (simp add: processSubscribe_def Let_def)
  next
    case None
    obtain e1 codes b1 where s: "subscribe_each i m 0 (Subscribe.topics m) [] ?b0 = Some (e1, codes, b1)"
      using assms(1) r None by (auto simp: processSubscribe_def bind_eq_Some_conv Let_def)
    have i1: "I b1" using subscribe_each [OF s i0] .
    show ?thesis
      using assms(1) r None s i1
      by (auto simp: processSubscribe_def bind_eq_Some_conv Let_def split: if_splits prod.splits option.splits
          dest!: svc_write_delivers processToCluster_keeps resend_delivers intro: chained delivered)
  qed
qed

lemma processUnsubscribe: "processUnsubscribe E i m b = Some (e, b') \<Longrightarrow> I b \<Longrightarrow> I b'"
  by (auto simp: processUnsubscribe_def bind_eq_Some_conv split: if_splits
      dest!: unsubscribe_each svc_write_delivers processToCluster_keeps intro: kept delivered)

lemma processIncoming:
  assumes "processIncoming E i m b = Some (e, b')" "I b"
  shows "I b'"
proof (cases m)
  case (MPublish p)
  then show ?thesis using assms by (auto dest!: processPublish_keeps intro: kept)
next
  case (MPuback p)
  then show ?thesis
    using assms
    by (auto simp: bind_eq_Some_conv split: if_splits
        dest: acked_keeps [where b = b] keeps_trans [OF add_quota_keeps ack_queue_keeps] intro: kept)
next
  case (MPubrec p)
  define b0 where "b0 = (if AckPackets.reasonCode p > QosFailure then add_quota i b else b)"
  have "I b0" using assms(2) kept [OF assms(2) add_quota_keeps] by (simp add: b0_def)
  then show ?thesis
    using assms(1)
    by (auto simp: MPubrec b0_def [symmetric] bind_eq_Some_conv Let_def split: if_splits
        dest!: write_answer_delivers ack_queue_keeps intro: kept delivered)
next
  case (MPubrel p)
  then show ?thesis
    using assms
    by (auto simp: bind_eq_Some_conv split: if_splits dest!: write_answer_delivers ack_queue_keeps processAcked_keeps
        intro: kept delivered chained_keeps)
next
  case (MPubcomp p)
  then show ?thesis
    using assms
    by (auto simp: bind_eq_Some_conv split: if_splits
        dest: acked_keeps [where b = b] keeps_trans [OF add_quota_keeps ack_queue_keeps] intro: kept)
next
  case (MDisconnect p)
  then show ?thesis using assms kept [OF assms(2) processDisconnect_keeps [of b E i p]] by simp
qed (use assms in \<open>auto simp: bind_eq_Some_conv dest!: processSubscribe processUnsubscribe write_answer_delivers ack_queue_keeps
       processAcked_keeps intro: kept delivered chained_keeps\<close>)

lemma serve_one: "serve_one E ev b = Some b' \<Longrightarrow> I b \<Longrightarrow> I b'"
proof (cases ev)
  case (Timer k)
  have "fire_will E k b = Some b' \<Longrightarrow> keeps b b'"
    by (auto simp: fire_will_def bind_eq_Some_conv pubFn_def split: if_splits prod.splits option.splits
        dest!: pub_to_delivers delivers_keeps)
  then show "serve_one E ev b = Some b' \<Longrightarrow> I b \<Longrightarrow> I b'" using Timer kept by auto
qed (auto dest: processIncoming run_task_delivers cluster_in_delivers reloaded stopped intro: delivered)

lemma served: "serve E evs b = Some b' \<Longrightarrow> I b \<Longrightarrow> I b'"
  by (induction E evs b rule: serve.induct) (auto simp: bind_eq_Some_conv dest: serve_one)

end

section \<open>Sessions and manager stay well formed\<close>

definition broker_ok :: "('w, 'd, 'r) broker \<Rightarrow> bool" where
  "broker_ok b \<longleftrightarrow> wf_tm (bk_tm b) \<and> (\<forall>j. sess_ok (sess_of j b))"

definition covered :: "('w, 'd, 'r) broker \<Rightarrow> bool" where
  "covered b \<longleftrightarrow>
     (\<forall>pl u. tm_view (bk_tm b) (pl, u) \<noteq> None \<longrightarrow> (\<exists>t \<in> fst ` set (ss_topics (sess_of u b)). place_of t = Some pl))"

lemma subscribe_total:
  assumes "wf_tm t"
  shows "\<exists>t' q e. tm_Subscribe sb (Some u) t = Some (t', q, e) \<and> wf_tm t' \<and>
    (\<forall>pl v. tm_view t' (pl, v) =
       (if e = None \<and> place_of (subTopic sb) = Some pl \<and> v = u then Some (kept pl (opts_of sb)) else tm_view t (pl, v)))"
proof (cases "ValidQos (subQos sb)")
  case True
  obtain t' q e where t': "tm_Subscribe sb (Some u) t = Some (t', q, e)" "sub_result sb u t t' q e"
    using tm_Subscribe_result [OF assms True] by blast
  then show ?thesis by (intro exI [of _ t'] exI [of _ q] exI [of _ e]) (auto simp: sub_result_def)
next
  case False
  then show ?thesis using assms by (simp add: tm_Subscribe_def)
qed

lemma unsub_all_total:
  "wf_tm (bk_tm b) \<Longrightarrow> \<exists>b'. unsub_all i ts b = Some b' \<and> bk_svcs b' = bk_svcs b \<and> wf_tm (bk_tm b') \<and>
     tm_view (bk_tm b') =
       (\<lambda>(pl, u). if u = i \<and> Some pl \<in> place_of ` subTopic ` set ts then None else tm_view (bk_tm b) (pl, u))"
proof (induction ts arbitrary: b)
  case (Cons t ts)
  obtain tm e where tm: "tm_Unsubscribe (subTopic t) (Some i) (bk_tm b) = Some (tm, e)" "unsub_result (subTopic t) i (bk_tm b) tm e"
    using tm_Unsubscribe_result [OF Cons.prems, of "subTopic t" i] by blast
  let ?b = "b\<lparr>bk_tm := tm\<rparr>"
  have "wf_tm (bk_tm ?b)" using tm(2) by (simp add: unsub_result_def)
  from Cons.IH [OF this] obtain b' where b': "unsub_all i ts ?b = Some b'" "bk_svcs b' = bk_svcs ?b" "wf_tm (bk_tm b')"
    "tm_view (bk_tm b') =
       (\<lambda>(pl, u). if u = i \<and> Some pl \<in> place_of ` subTopic ` set ts then None else tm_view (bk_tm ?b) (pl, u))"
    by blast
  show ?case
    by (intro exI [of _ b']) (use tm b' in \<open>auto simp: unsub_result_def fun_eq_iff\<close>)
qed auto

lemma reload_total:
  "wf_tm (bk_tm b) \<Longrightarrow> \<exists>b'. reload_loop E i ts b = Some b' \<and> bk_svcs b' = bk_svcs b \<and> wf_tm (bk_tm b') \<and>
     dom (tm_view (bk_tm b')) \<subseteq> dom (tm_view (bk_tm b)) \<union> {(pl, i) |pl. Some pl \<in> place_of ` subTopic ` set ts}"
proof (induction ts arbitrary: b)
  case (Cons t ts)
  show ?case
  proof (cases "ev_CloseShareSub E \<and> length (subTopic t) > 6 \<and> take 6 (subTopic t) = [36, 115, 104, 97, 114, 101]")
    case True
    from Cons.IH [OF Cons.prems] obtain b' where "reload_loop E i ts b = Some b'" "bk_svcs b' = bk_svcs b" "wf_tm (bk_tm b')"
      "dom (tm_view (bk_tm b')) \<subseteq> dom (tm_view (bk_tm b)) \<union> {(pl, i) |pl. Some pl \<in> place_of ` subTopic ` set ts}"
      by blast
    then show ?thesis using True by (intro exI [of _ b']) auto
  next
    case False
    obtain tm q e where tm: "tm_Subscribe t (Some i) (bk_tm b) = Some (tm, q, e)" "wf_tm tm"
      "\<And>pl v. tm_view tm (pl, v) =
         (if e = None \<and> place_of (subTopic t) = Some pl \<and> v = i then Some (kept pl (opts_of t)) else tm_view (bk_tm b) (pl, v))"
      using subscribe_total [OF Cons.prems, of t i] by blast
    let ?b = "b\<lparr>bk_tm := tm\<rparr>"
    have d: "dom (tm_view (bk_tm ?b)) \<subseteq> dom (tm_view (bk_tm b)) \<union> {(pl, i) |pl. Some pl = place_of (subTopic t)}"
      using tm(3) by (auto split: if_splits)
    have "wf_tm (bk_tm ?b)" using tm(2) by simp
    from Cons.IH [OF this] obtain b' where b': "reload_loop E i ts ?b = Some b'" "bk_svcs b' = bk_svcs ?b" "wf_tm (bk_tm b')"
      "dom (tm_view (bk_tm b')) \<subseteq> dom (tm_view (bk_tm ?b)) \<union> {(pl, i) |pl. Some pl \<in> place_of ` subTopic ` set ts}"
      by blast
    have "dom (tm_view (bk_tm b')) \<subseteq> dom (tm_view (bk_tm b)) \<union> {(pl, i) |pl. Some pl = place_of (subTopic t)} \<union>
        {(pl, i) |pl. Some pl \<in> place_of ` subTopic ` set ts}"
      using b'(4) d by blast
    also have "\<dots> = dom (tm_view (bk_tm b)) \<union> {(pl, i) |pl. Some pl \<in> place_of ` subTopic ` set (t # ts)}"
      by auto
    finally show ?thesis
      using False tm(1) b' by (intro exI [of _ b']) auto
  qed
qed auto

lemma sess_topics_all: "sess_ok s \<Longrightarrow> sess_Topics s = Inr (map snd (ss_topics s)) \<and>
    subTopic ` set (map snd (ss_topics s)) = fst ` set (ss_topics s)"
  by (force simp: sess_Topics_def sess_ok_def list_all_iff image_iff)

lemma svc_upd_simps [simp]:
  "bk_tm (svc_upd i f b) = bk_tm b" "bk_svcs (svc_upd i f b) j = (if j = i then f (bk_svcs b i) else bk_svcs b j)"
  by (simp_all add: svc_upd_def)

lemma keeps_ok: "broker_ok b \<Longrightarrow> keeps b b' \<Longrightarrow> broker_ok b'"
  by (auto simp: broker_ok_def keeps_def wf_tm_def)

lemma keeps_view: "keeps b b' \<Longrightarrow> tm_view (bk_tm b') = tm_view (bk_tm b)"
  by (auto simp: keeps_def tm_view_def fun_eq_iff split: place.split)

lemma keeps_covered: "covered b \<Longrightarrow> keeps b b' \<Longrightarrow> covered b'"
  by (simp add: covered_def keeps_view) (simp add: keeps_def)

lemma stop_keeps:
  assumes "broker_ok b"
  shows "\<exists>b1 b2. svc_stop i b = Some b2 \<and> (if sv_closed (bk_svcs b i) then b1 = b else
      unsub_all i (map snd (ss_topics (sess_of i b))) (svc_upd i (\<lambda>s. s\<lparr>sv_closed := True\<rparr>) b) = Some b1) \<and> keeps b1 b2"
proof (cases "sv_closed (bk_svcs b i)")
  case True
  then show ?thesis by (simp add: svc_stop_def)
next
  case False
  let ?b = "svc_upd i (\<lambda>s. s\<lparr>sv_closed := True\<rparr>) b"
  have t: "sess_Topics (sess_of i b) = Inr (map snd (ss_topics (sess_of i b)))"
    using assms sess_topics_all [of "sess_of i b"] by (simp add: broker_ok_def)
  obtain b1 where u: "unsub_all i (map snd (ss_topics (sess_of i b))) ?b = Some b1"
    using unsub_all_total [of ?b i] assms by (fastforce simp: broker_ok_def)
  define b2 where "b2 = (if WillFlag (ss_cmessage (sess_of i b1)) then sendWillMsg i b1 else b1)"
  have "keeps b1 b2" by (simp add: b2_def)
  moreover have "keeps b2 (svc_upd i (\<lambda>s. s\<lparr>sv_sess := sess_SetStatus OFFLINE (sv_sess s), sv_open := False\<rparr>) b2)"
    by (intro keeps_svc) (simp_all add: sess_SetStatus_def sess_ok_def)
  ultimately have "keeps b1 (svc_upd i (\<lambda>s. s\<lparr>sv_sess := sess_SetStatus OFFLINE (sv_sess s), sv_open := False\<rparr>) b2)"
    by (rule keeps_trans)
  then show ?thesis
    using False u by (auto simp: svc_stop_def unSubAll_def t b2_def [symmetric] Let_def)
qed

lemma subscribe_one_effect:
  assumes "broker_ok b" "subscribe_one i sb b = Some (e, rq, b')"
  shows "broker_ok b' \<and> (\<forall>pl v. tm_view (bk_tm b') (pl, v) \<noteq> None \<longrightarrow>
      tm_view (bk_tm b) (pl, v) \<noteq> None \<or> v = i \<and> place_of (subTopic sb) = Some pl \<and> subTopic sb \<in> fst ` set (ss_topics (sess_of i b'))) \<and>
    (\<forall>j. fst ` set (ss_topics (sess_of j b)) \<subseteq> fst ` set (ss_topics (sess_of j b')))"
proof -
  have ok: "wf_tm (bk_tm b)" "\<And>j. sess_ok (sess_of j b)" "ss_initted (sess_of i b)"
    using assms(1) by (simp_all add: broker_ok_def sess_ok_def)
  obtain tm q e1 where tm: "tm_Subscribe sb (Some i) (bk_tm b) = Some (tm, q, e1)" "wf_tm tm"
    "\<And>pl v. tm_view tm (pl, v) =
       (if e1 = None \<and> place_of (subTopic sb) = Some pl \<and> v = i then Some (kept pl (opts_of sb)) else tm_view (bk_tm b) (pl, v))"
    using subscribe_total [OF ok(1), of sb i] by auto
  have t: "sess_ok ((sess_of i b)\<lparr>ss_topics := AList.update (subTopic sb) sb (ss_topics (sess_of i b))\<rparr>)"
    using topics_ok [of "ss_topics (sess_of i b)" "[sb]"] ok(2) [of i] by (simp add: sess_ok_def)
  show ?thesis
  proof (cases e1)
    case (Some x)
    then have "b' = b\<lparr>bk_tm := tm\<rparr>" using assms(2) tm(1) by (simp add: subscribe_one_def)
    then show ?thesis using ok tm Some by (simp add: broker_ok_def)
  next
    case None
    have s: "sess_of j b' = (if j = i then (sess_of i b)\<lparr>ss_topics := AList.update (subTopic sb) sb (ss_topics (sess_of i b))\<rparr> else sess_of j b)"
      "bk_tm b' = tm" for j
      using assms(2) tm(1) None ok(3)
      by (auto simp: subscribe_one_def sess_AddTopic_def Let_def split: if_splits prod.splits)
    show ?thesis
      unfolding s broker_ok_def using ok tm t by (auto simp: s dom_update split: if_splits)
  qed
qed

lemma unsubscribe_effect:
  assumes "broker_ok b" "tm_Unsubscribe t (Some i) (bk_tm b) = Some (tm, e)"
  shows "broker_ok (sess_upd i (\<lambda>s. fst (sess_RemoveTopic t s)) (b\<lparr>bk_tm := tm\<rparr>))"
    "tm_view tm (pl, v) = (if place_of t = Some pl \<and> v = i then None else tm_view (bk_tm b) (pl, v))"
    "fst ` set (ss_topics (fst (sess_RemoveTopic t (sess_of i b)))) = fst ` set (ss_topics (sess_of i b)) - {t}"
proof -
  have ok: "wf_tm (bk_tm b)" "\<And>j. sess_ok (sess_of j b)" "ss_initted (sess_of i b)"
    using assms(1) by (simp_all add: broker_ok_def sess_ok_def)
  have r: "unsub_result t i (bk_tm b) tm e" using tm_Unsubscribe_result [OF ok(1), of t i] assms(2) by auto
  have "sess_ok (fst (sess_RemoveTopic t (sess_of i b)))"
    using ok(2) [of i] distinct_delete [of "ss_topics (sess_of i b)" t]
    by (auto simp: sess_ok_def sess_RemoveTopic_def list_all_iff AList.delete_eq)
  then show "broker_ok (sess_upd i (\<lambda>s. fst (sess_RemoveTopic t s)) (b\<lparr>bk_tm := tm\<rparr>))"
    using ok r by (simp add: broker_ok_def unsub_result_def)
  show "tm_view tm (pl, v) = (if place_of t = Some pl \<and> v = i then None else tm_view (bk_tm b) (pl, v))"
    using r by (simp add: unsub_result_def)
  show "fst ` set (ss_topics (fst (sess_RemoveTopic t (sess_of i b)))) = fst ` set (ss_topics (sess_of i b)) - {t}"
    using ok(3) by (auto simp: sess_RemoveTopic_def AList.delete_eq)
qed

lemma covered_subscribe:
  assumes "broker_ok b" "covered b" "subscribe_one i sb b = Some (e, rq, b')"
  shows "covered b'"
proof -
  note s = subscribe_one_effect [OF assms(1,3)]
  show ?thesis
    unfolding covered_def
  proof (intro allI impI)
    fix pl u assume "tm_view (bk_tm b') (pl, u) \<noteq> None"
    then consider "tm_view (bk_tm b) (pl, u) \<noteq> None"
      | "u = i" "place_of (subTopic sb) = Some pl" "subTopic sb \<in> fst ` set (ss_topics (sess_of i b'))"
      using s [THEN conjunct2, THEN conjunct1, THEN spec, THEN spec, of pl u] by blast
    then show "\<exists>t\<in>fst ` set (ss_topics (sess_of u b')). place_of t = Some pl"
    proof cases
      case 1
      then obtain t where "t \<in> fst ` set (ss_topics (sess_of u b))" "place_of t = Some pl"
        using assms(2) unfolding covered_def by blast
      moreover have "fst ` set (ss_topics (sess_of u b)) \<subseteq> fst ` set (ss_topics (sess_of u b'))" by (rule s [THEN conjunct2, THEN conjunct2, THEN spec])
      ultimately show ?thesis by (intro bexI [of _ t]) auto
    next
      case 2
      then show ?thesis by (intro bexI [of _ "subTopic sb"]) simp_all
    qed
  qed
qed

lemma covered_unsubscribe:
  assumes "broker_ok b" "covered b" "tm_Unsubscribe t (Some i) (bk_tm b) = Some (tm, e)"
  shows "covered (sess_upd i (\<lambda>s. fst (sess_RemoveTopic t s)) (b\<lparr>bk_tm := tm\<rparr>))"
  unfolding covered_def
proof (intro allI impI)
  fix pl u
  let ?b' = "sess_upd i (\<lambda>s. fst (sess_RemoveTopic t s)) (b\<lparr>bk_tm := tm\<rparr>)"
  note u = unsubscribe_effect [OF assms(1,3)]
  assume "tm_view (bk_tm ?b') (pl, u) \<noteq> None"
  then have v: "tm_view (bk_tm b) (pl, u) \<noteq> None" "\<not> (place_of t = Some pl \<and> u = i)"
    using u(2) [of pl u] by (auto split: if_splits)
  then obtain x where "x \<in> fst ` set (ss_topics (sess_of u b))" "place_of x = Some pl"
    using assms(2) unfolding covered_def by blast
  then show "\<exists>t\<in>fst ` set (ss_topics (sess_of u ?b')). place_of t = Some pl"
    using v(2) u(3) by (intro bexI [of _ x]) auto
qed

lemma reload_effect:
  assumes "broker_ok b" "reloadSub E i b = Some (e, b')"
  shows "broker_ok b'" "covered b \<Longrightarrow> covered b'"
proof -
  have ok: "wf_tm (bk_tm b)" "sess_ok (sess_of i b)" using assms(1) by (simp_all add: broker_ok_def)
  note ts = sess_topics_all [OF ok(2)]
  let ?ts = "map snd (ss_topics (sess_of i b))"
  have "reload_loop E i ?ts b = Some b'" using assms(2) ts by (auto simp: reloadSub_def)
  with reload_total [OF ok(1), of E i ?ts] ts have r: "bk_svcs b' = bk_svcs b" "wf_tm (bk_tm b')"
    "dom (tm_view (bk_tm b')) \<subseteq> dom (tm_view (bk_tm b)) \<union> {(pl, i) |pl. Some pl \<in> place_of ` fst ` set (ss_topics (sess_of i b))}"
    by auto
  show "broker_ok b'" using assms(1) r(1,2) by (simp add: broker_ok_def)
  show "covered b'" if "covered b"
    unfolding covered_def r(1)
  proof (intro allI impI)
    fix pl u assume "tm_view (bk_tm b') (pl, u) \<noteq> None"
    then have "(pl, u) \<in> dom (tm_view (bk_tm b)) \<or> u = i \<and> Some pl \<in> place_of ` fst ` set (ss_topics (sess_of i b))"
      using r(3) by blast
    then show "\<exists>t\<in>fst ` set (ss_topics (sess_of u b)). place_of t = Some pl"
      using that unfolding covered_def by (metis (no_types, lifting) domIff imageE)
  qed
qed

lemma stop_effect:
  assumes "broker_ok b"
  shows "\<exists>b'. svc_stop i b = Some b' \<and> broker_ok b' \<and> (covered b \<longrightarrow> covered b' \<and>
    tm_view (bk_tm b') = (\<lambda>(pl, u). if u = i \<and> \<not> sv_closed (bk_svcs b i) then None else tm_view (bk_tm b) (pl, u)))"
proof -
  have ok: "wf_tm (bk_tm b)" "sess_ok (sess_of i b)" using assms(1) by (simp_all add: broker_ok_def)
  obtain b1 b2 where s: "svc_stop i b = Some b2" "keeps b1 b2"
    "if sv_closed (bk_svcs b i) then b1 = b else
      unsub_all i (map snd (ss_topics (sess_of i b))) (svc_upd i (\<lambda>s. s\<lparr>sv_closed := True\<rparr>) b) = Some b1"
    using stop_keeps [OF assms(1), of i] by blast
  have "broker_ok b1 \<and> (covered b \<longrightarrow> covered b1 \<and>
    tm_view (bk_tm b1) = (\<lambda>(pl, u). if u = i \<and> \<not> sv_closed (bk_svcs b i) then None else tm_view (bk_tm b) (pl, u)))"
  proof (cases "sv_closed (bk_svcs b i)")
    case True
    then show ?thesis using s(3) assms by auto
  next
    case False
    let ?b = "svc_upd i (\<lambda>s. s\<lparr>sv_closed := True\<rparr>) b"
    let ?ts = "map snd (ss_topics (sess_of i b))"
    have "wf_tm (bk_tm ?b)" using ok by simp
    from unsub_all_total [OF this, of i ?ts] s(3) False sess_topics_all [OF ok(2)]
    have b1: "bk_svcs b1 = bk_svcs ?b" "wf_tm (bk_tm b1)" "tm_view (bk_tm b1) =
       (\<lambda>(pl, u). if u = i \<and> Some pl \<in> place_of ` fst ` set (ss_topics (sess_of i b)) then None else tm_view (bk_tm b) (pl, u))"
      by auto
    have "broker_ok b1" using assms(1) b1 by (simp add: broker_ok_def)
    moreover have "covered b1 \<and> tm_view (bk_tm b1) = (\<lambda>(pl, u). if u = i then None else tm_view (bk_tm b) (pl, u))" if c: "covered b"
    proof
      have "tm_view (bk_tm b) (pl, i) = None" if n: "Some pl \<notin> place_of ` fst ` set (ss_topics (sess_of i b))" for pl
      proof (rule ccontr)
        assume "tm_view (bk_tm b) (pl, i) \<noteq> None"
        then obtain t where "t \<in> fst ` set (ss_topics (sess_of i b))" "place_of t = Some pl"
          using c unfolding covered_def by blast
        then show False using n by (metis image_eqI)
      qed
      then show v: "tm_view (bk_tm b1) = (\<lambda>(pl, u). if u = i then None else tm_view (bk_tm b) (pl, u))"
        unfolding b1(3) by (auto simp: fun_eq_iff)
      show "covered b1" unfolding covered_def v using c by (auto simp: covered_def b1(1) split: if_splits)
    qed
    ultimately show ?thesis using False by simp
  qed
  then show ?thesis
    using s(1) keeps_ok [OF _ s(2)] keeps_covered [OF _ s(2)] keeps_view [OF s(2)] by (intro exI [of _ b2]) simp
qed

interpretation sound: broker_invariant broker_ok
proof
  show "broker_ok b \<Longrightarrow> keeps b b' \<Longrightarrow> broker_ok b'" for b b' :: "('w, 'd, 'r) broker" by (rule keeps_ok)
  show "broker_ok b \<Longrightarrow> subscribe_one i sb b = Some (e, rq, b') \<Longrightarrow> broker_ok b'" for b b' :: "('w, 'd, 'r) broker" and i sb e rq
    using subscribe_one_effect by blast
  show "broker_ok b \<Longrightarrow> tm_Unsubscribe t (Some i) (bk_tm b) = Some (tm, e) \<Longrightarrow>
      broker_ok (sess_upd i (\<lambda>s. fst (sess_RemoveTopic t s)) (b\<lparr>bk_tm := tm\<rparr>))" for b :: "('w, 'd, 'r) broker" and t i tm e
    by (rule unsubscribe_effect(1))
  show "broker_ok b \<Longrightarrow> reloadSub E i b = Some (e, b') \<Longrightarrow> broker_ok b'" for b b' :: "('w, 'd, 'r) broker" and E i e
    by (rule reload_effect(1))
  show "broker_ok b \<Longrightarrow> svc_stop i b = Some b' \<Longrightarrow> broker_ok b'" for b b' :: "('w, 'd, 'r) broker" and i
    using stop_effect [of b i] by auto
qed

interpretation subs: broker_invariant "\<lambda>b. broker_ok b \<and> covered b"
proof
  show "broker_ok b \<and> covered b \<Longrightarrow> keeps b b' \<Longrightarrow> broker_ok b' \<and> covered b'" for b b' :: "('w, 'd, 'r) broker"
    using keeps_ok keeps_covered by blast
  show "broker_ok b \<and> covered b \<Longrightarrow> subscribe_one i sb b = Some (e, rq, b') \<Longrightarrow> broker_ok b' \<and> covered b'"
    for b b' :: "('w, 'd, 'r) broker" and i sb e rq
    using subscribe_one_effect covered_subscribe by blast
  show "broker_ok b \<and> covered b \<Longrightarrow> tm_Unsubscribe t (Some i) (bk_tm b) = Some (tm, e) \<Longrightarrow>
      broker_ok (sess_upd i (\<lambda>s. fst (sess_RemoveTopic t s)) (b\<lparr>bk_tm := tm\<rparr>)) \<and>
      covered (sess_upd i (\<lambda>s. fst (sess_RemoveTopic t s)) (b\<lparr>bk_tm := tm\<rparr>))" for b :: "('w, 'd, 'r) broker" and t i tm e
    using unsubscribe_effect(1) covered_unsubscribe by blast
  show "broker_ok b \<and> covered b \<Longrightarrow> reloadSub E i b = Some (e, b') \<Longrightarrow> broker_ok b' \<and> covered b'"
    for b b' :: "('w, 'd, 'r) broker" and E i e
    using reload_effect by blast
  show "broker_ok b \<and> covered b \<Longrightarrow> svc_stop i b = Some b' \<Longrightarrow> broker_ok b' \<and> covered b'" for b b' :: "('w, 'd, 'r) broker" and i
    using stop_effect [of b i] by auto
qed

section \<open>A broker to run\<close>

definition sample_env :: "(bytes list, unit, unit) env" where
  "sample_env = \<lparr>ev_MaxQos = 2, ev_RetainAvailable = True, ev_CloseShareSub = True, ev_serverName = [110], ev_spare = [],
     ev_WritePkg = (\<lambda>d w. (w @ [d], None)), ev_db_store = (\<lambda>t m d. (d, None)), ev_db_clear = (\<lambda>t d. (d, None)),
     ev_StoreSession = (\<lambda>i s d. (d, None)), ev_intn = (\<lambda>r n. (0, r)), ev_uint32n = (\<lambda>r n. (0, r))\<rparr>"

definition sample_session :: "unit session" where
  "sample_session = (NewMemSession [99])\<lparr>ss_pub1ack := newAckqueue 2, ss_pub2in := newAckqueue 2, ss_pub2out := newAckqueue 2,
     ss_suback := newAckqueue 2, ss_unsuback := newAckqueue 2, ss_pingack := newAckqueue 2, ss_initted := True, ss_status := ONLINE\<rparr>"

definition sample_broker :: "(bytes list, unit, unit) broker" where
  "sample_broker = \<lparr>bk_tm = NewMemProvider, bk_db = (), bk_rand = (), bk_g = 0, bk_nodes = newTmNode,
     bk_svcs = (\<lambda>i. \<lparr>sv_ccid = [word_of_nat i], sv_clusterBelong = False, sv_clusterOpen = False, sv_closed = False, sv_open = True,
       sv_wire = [], sv_sess = sample_session, sv_hasSendWill = False, sv_sign = NewSign 0 0, sv_pkid = 1, sv_rmsgs = []\<rparr>),
     bk_tasks = [], bk_wills = [], bk_ids = [], bk_sent = []\<rparr>"

definition sample_sub :: sub where
  "sample_sub = \<lparr>subTopic = [97, 47, 43], subQos = 2, subNoLocal = False, subRetainAsPublished = False,
     subRetainHandling = 2, subSubIdentifier = 0\<rparr>"

lemma sample_session_ok: "sess_ok sample_session"
  using newAckqueue_inv [of 2] by (simp add: sess_ok_def sample_session_def NewMemSession_def NewMemSessionByCon_def)

lemma sample_ok: "broker_ok sample_broker" "covered sample_broker"
  by (simp_all add: broker_ok_def covered_def sample_broker_def sample_session_ok)

lemma sample_place: "place_of [97, 47, 43] \<noteq> None"
  by code_simp

lemma sample_subscribed:
  "\<exists>b pl. place_of [97, 47, 43] = Some pl \<and> subscribe_one 0 sample_sub sample_broker = Some (None, 2, b) \<and>
     broker_ok b \<and> covered b \<and> tm_view (bk_tm b) (pl, 0) \<noteq> None \<and> bk_g b = 0 \<and>
     (\<exists>s. bk_svcs b 0 = (bk_svcs sample_broker 0)\<lparr>sv_sess := s\<rparr> \<and> ss_cmessage s = NewConnectMessage)"
proof -
  obtain pl where pl: "place_of [97, 47, 43] = Some pl" using sample_place by blast
  have v: "ValidQos (subQos sample_sub)" by (simp add: sample_sub_def ValidQos_def qos_defs)
  obtain tm q e where tm: "tm_Subscribe sample_sub (Some 0) (bk_tm sample_broker) = Some (tm, q, e)"
    "sub_result sample_sub 0 (bk_tm sample_broker) tm q e"
    using tm_Subscribe_result [OF _ v, of "bk_tm sample_broker" 0] sample_ok(1) by (auto simp: broker_ok_def)
  have r: "e = None" "q = 2" "tm_view tm (pl, 0) \<noteq> None"
    using tm(2) pl by (simp_all add: sub_result_def sample_sub_def)
  have w: "\<not> wants_retained sample_sub s" for s
    by (simp add: wants_retained_def sample_sub_def CanSendRetain_def NoExistSubSendRetain_def)
  obtain rq b where b: "subscribe_one 0 sample_sub sample_broker = Some (None, rq, b)" "bk_tm b = tm" "rq = 2" "bk_g b = 0"
      "bk_svcs b 0 = (bk_svcs sample_broker 0)\<lparr>sv_sess := fst (sess_AddTopic sample_sub sample_session)\<rparr>"
    using tm(1) r(1,2) sample_session_ok w
    by (auto simp: subscribe_one_def sample_broker_def sess_AddTopic_def sess_ok_def Let_def svc_upd_def)
  have "ss_cmessage (fst (sess_AddTopic sample_sub sample_session)) = NewConnectMessage"
    by (simp add: sess_AddTopic_def sample_session_def NewMemSession_def NewMemSessionByCon_def)
  then show ?thesis
    using subscribe_one_effect [OF sample_ok(1) b(1)] covered_subscribe [OF sample_ok b(1)] pl r(3)
    by (intro exI [of _ b] exI [of _ pl]) (use b in auto)
qed

definition sample_msg :: subscribe where
  "sample_msg = \<lparr>remlen = 0, mtypeflags = [130], packetId = [0, 7], dbuf = Slice [] [], dirty = True, subscribe.propertiesLen = 0,
     subscriptionIdentifier = 0, userProperty = [], topics = [[97, 47, 43]], qos = [2], noLocal = [0], retainAsPub = [0],
     retainHandling = [2]\<rparr>"

lemma sample_handled:
  "\<exists>b'. processSubscribe sample_env 0 sample_msg sample_broker = Some (None, b') \<and> sv_wire (bk_svcs b' 0) = [[0x90, 4, 0, 7, 0, 2]]"
proof -
  let ?r = "SetPacketId 7 NewSubackMessage"
  have sub: "sub_at 0 [97, 47, 43] sample_msg = Some sample_sub" and codes: "snd (AddReasonCodes [2] ?r) = None"
    and info: "requestProblemInfo NewConnectMessage \<noteq> 0"
    and enc: "map_option (\<lambda>(g, m, d, n, e). (d, e)) (enc 0 (MSuback (fst (AddReasonCodes [2] ?r)))) = Some ([0x90, 4, 0, 7, 0, 2], None)"
    by code_simp+
  obtain b s where b: "subscribe_one 0 sample_sub sample_broker = Some (None, 2, b)" "bk_g b = 0"
    "bk_svcs b 0 = (bk_svcs sample_broker 0)\<lparr>sv_sess := s\<rparr>" "ss_cmessage s = NewConnectMessage"
    using sample_subscribed by blast
  have r: "svc_upd 0 (\<lambda>s. s\<lparr>sv_rmsgs := []\<rparr>) sample_broker = sample_broker"
    by (simp add: svc_upd_def sample_broker_def fun_eq_iff)
  have m: "Subscribe.topics sample_msg = [[97, 47, 43]]" "PacketId sample_msg = 7"
    by code_simp+
  have idle: "\<not> sv_clusterOpen (bk_svcs sample_broker 0)" "sv_rmsgs (bk_svcs sample_broker 0) = []"
    by (simp_all add: sample_broker_def)
  have "refuse_shared sample_env sample_msg [[97, 47, 43]] = Some None"
    by (simp add: IsShareSub_def)
  moreover have "subscribe_each 0 sample_msg 0 [[97, 47, 43]] [] sample_broker = Some (None, [2], b)"
    using sub b(1) by simp
  moreover obtain m1 n g where "enc 0 (MSuback (fst (AddReasonCodes [2] ?r))) = Some (g, m1, [0x90, 4, 0, 7, 0, 2], n, None)"
    using enc by (auto simp del: AddReasonCodes.simps)
  then have "svc_write sample_env 0 (MSuback (fst (AddReasonCodes [2] ?r))) b =
      Some (m1, None, svc_upd 0 (\<lambda>s. s\<lparr>sv_wire := [[0x90, 4, 0, 7, 0, 2]]\<rparr>) (b\<lparr>bk_g := g\<rparr>))"
    using b(2-4) info by (simp add: svc_write_def delRequestRespInfo_def sample_env_def sample_broker_def Let_def del: AddReasonCodes.simps)
  ultimately show ?thesis
    using codes b(3) idle
    by (simp add: processSubscribe_def Let_def r m processToCluster_def resend_def prod_eq_iff
        del: subscribe_each.simps refuse_shared.simps AddReasonCodes.simps split: prod.split)
qed

section \<open>Properties\<close>

text \<open>Whatever sequence of events the broker serves, the topics manager and every session, with its six
  queues and its table of subscriptions, stay well formed.\<close>

theorem broker_stays_sound:
  assumes "broker_ok b" "serve E evs b = Some b'"
  shows "broker_ok b'"
  using sound.served [OF assms(2,1)] .

lemma broker_stays_sound_witness:
  "\<exists>b'. serve sample_env [Incoming 0 (MDisconnect NewDisconnectMessage), Closed 0] sample_broker = Some b' \<and> broker_ok b'"
proof -
  obtain b1 where b1: "serve_one sample_env (Incoming 0 (MDisconnect NewDisconnectMessage)) sample_broker = Some b1" by simp
  have "broker_ok b1" using sound.serve_one [OF b1 sample_ok(1)] .
  then obtain b2 where b2: "svc_stop 0 b1 = Some b2" using stop_effect by blast
  then have s: "serve sample_env [Incoming 0 (MDisconnect NewDisconnectMessage), Closed 0] sample_broker = Some b2"
    using b1 by simp
  show ?thesis using s broker_stays_sound [OF sample_ok(1) s] by blast
qed

text \<open>C5: After any sequence of events, closing a service does not panic and removes every subscription of
  its client from the topics manager, of whatever kind, and none of another client.\<close>

theorem closed_leaves_nothing:
  assumes "broker_ok b" "covered b" "serve E evs b = Some b1" "\<not> sv_closed (bk_svcs b1 i)"
  shows "\<exists>b2. svc_stop i b1 = Some b2 \<and>
    (\<forall>pl u. tm_view (bk_tm b2) (pl, u) = (if u = i then None else tm_view (bk_tm b1) (pl, u)))"
proof -
  have "broker_ok b1 \<and> covered b1" using subs.served [OF assms(3)] assms(1,2) by blast
  then obtain b2 where "svc_stop i b1 = Some b2"
    "tm_view (bk_tm b2) = (\<lambda>(pl, u). if u = i \<and> \<not> sv_closed (bk_svcs b1 i) then None else tm_view (bk_tm b1) (pl, u))"
    using stop_effect [of b1 i] by blast
  then show ?thesis using assms(4) by (intro exI [of _ b2]) simp
qed

lemma closed_leaves_nothing_witness:
  "\<exists>b b2 pl. subscribe_one 0 sample_sub sample_broker = Some (None, 2, b) \<and> place_of [97, 47, 43] = Some pl \<and>
     tm_view (bk_tm b) (pl, 0) \<noteq> None \<and> svc_stop 0 b = Some b2 \<and> tm_view (bk_tm b2) (pl, 0) = None"
proof -
  obtain b pl where b: "subscribe_one 0 sample_sub sample_broker = Some (None, 2, b)" "place_of [97, 47, 43] = Some pl"
    "broker_ok b" "covered b" "tm_view (bk_tm b) (pl, 0) \<noteq> None" "\<not> sv_closed (bk_svcs b 0)"
    using sample_subscribed by (auto simp: sample_broker_def)
  have "serve sample_env [] b = Some b" by simp
  from closed_leaves_nothing [OF b(3,4) this b(6)] b(1,2,5) show ?thesis by fastforce
qed

lemma subscribe_each_all:
  assumes "subscribe_each i m k ts codes b = Some (None, codes', b')" "broker_ok b"
  shows "broker_ok b' \<and> (\<forall>t\<in>set ts. \<exists>pl. place_of t = Some pl \<and> tm_view (bk_tm b') (pl, i) \<noteq> None \<and> t \<in> fst ` set (ss_topics (sess_of i b'))) \<and>
    (\<forall>pl u. tm_view (bk_tm b) (pl, u) \<noteq> None \<longrightarrow> tm_view (bk_tm b') (pl, u) \<noteq> None) \<and>
    fst ` set (ss_topics (sess_of i b)) \<subseteq> fst ` set (ss_topics (sess_of i b'))"
  using assms
proof (induction i m k ts codes b rule: subscribe_each.induct)
  case (2 i m k t ts codes b)
  obtain sb rq b1 where s: "sub_at k t m = Some sb" "subscribe_one i sb b = Some (None, rq, b1)"
    "subscribe_each i m (k + 1) ts (codes @ [rq]) b1 = Some (None, codes', b')"
    using 2(2) by (auto simp: bind_eq_Some_conv split: if_splits)
  have top: "subTopic sb = t" using s(1) by (auto simp: sub_at_def bind_eq_Some_conv)
  have ok: "wf_tm (bk_tm b)" "ss_initted (sess_of i b)" using 2(3) by (simp_all add: broker_ok_def sess_ok_def)
  obtain tm q e1 where tm: "tm_Subscribe sb (Some i) (bk_tm b) = Some (tm, q, e1)"
    "\<And>pl v. tm_view tm (pl, v) =
       (if e1 = None \<and> place_of (subTopic sb) = Some pl \<and> v = i then Some (kept pl (opts_of sb)) else tm_view (bk_tm b) (pl, v))"
    using subscribe_total [OF ok(1), of sb i] by blast
  have e1: "e1 = None" using s(2) tm(1) by (cases e1) (simp_all add: subscribe_one_def)
  have b1: "bk_tm b1 = tm" "sess_of i b1 = (sess_of i b)\<lparr>ss_topics := AList.update t sb (ss_topics (sess_of i b))\<rparr>"
    using s(2) tm(1) e1 ok(2) top
    by (auto simp: subscribe_one_def sess_AddTopic_def Let_def split: if_splits prod.splits)
  have pl: "\<exists>pl. place_of t = Some pl"
  proof -
    have "ValidQos (subQos sb)" using tm(1) e1 by (auto simp: tm_Subscribe_def split: if_splits)
    with tm_Subscribe_result [OF ok(1) this, of i] tm(1) e1 top show ?thesis by (auto simp: sub_result_def)
  qed
  have "broker_ok b1" using subscribe_one_effect [OF 2(3) s(2)] by blast
  from 2(1) [OF s(1,2) refl refl _ s(3) this] have IH: "broker_ok b'"
    "\<forall>t\<in>set ts. \<exists>pl. place_of t = Some pl \<and> tm_view (bk_tm b') (pl, i) \<noteq> None \<and> t \<in> fst ` set (ss_topics (sess_of i b'))"
    "\<And>pl u. tm_view (bk_tm b1) (pl, u) \<noteq> None \<Longrightarrow> tm_view (bk_tm b') (pl, u) \<noteq> None"
    "fst ` set (ss_topics (sess_of i b1)) \<subseteq> fst ` set (ss_topics (sess_of i b'))" by auto
  have v: "tm_view (bk_tm b1) (pl, u) \<noteq> None" if "tm_view (bk_tm b) (pl, u) \<noteq> None \<or> place_of t = Some pl \<and> u = i" for pl u
    using that by (cases "place_of t = Some pl \<and> u = i") (simp_all add: b1(1) tm(2) e1 top del: not_None_eq split_paired_Ex)
  have "insert t (fst ` set (ss_topics (sess_of i b))) \<subseteq> fst ` set (ss_topics (sess_of i b'))"
    using IH(4) by (simp add: b1(2) dom_update)
  then show ?case using IH(1,2) pl IH(3) v by (metis (no_types, lifting) insert_subset set_ConsD)
qed simp

text \<open>C11: A SUBSCRIBE that is handled without an error leaves every one of its filters subscribed for the
  client in the topics manager and in its session.\<close>

theorem subscribed_everywhere:
  assumes "broker_ok b" "processSubscribe E i m b = Some (None, b')" "t \<in> set (Subscribe.topics m)"
  shows "\<exists>pl. place_of t = Some pl \<and> tm_view (bk_tm b') (pl, i) \<noteq> None \<and> t \<in> fst ` set (ss_topics (sess_of i b'))"
proof -
  let ?b0 = "svc_upd i (\<lambda>s. s\<lparr>sv_rmsgs := []\<rparr>) b"
  have "keeps b ?b0" by (simp add: keeps_svc)
  then have ok: "broker_ok ?b0" by (rule keeps_ok [OF assms(1)])
  have r: "refuse_shared E m (Subscribe.topics m) = Some None"
    using assms(2) by (auto simp: processSubscribe_def bind_eq_Some_conv Let_def split: if_splits)
  obtain e codes b1 where s: "subscribe_each i m 0 (Subscribe.topics m) [] ?b0 = Some (e, codes, b1)"
    using assms(2) r by (auto simp: processSubscribe_def bind_eq_Some_conv Let_def)
  have e: "e = None" using assms(2) r s by (cases e) (simp_all add: processSubscribe_def Let_def)
  obtain resp where resp: "AddReasonCodes codes (SetPacketId (PacketId m) NewSubackMessage) = (resp, None)"
    using assms(2) r s e by (cases "AddReasonCodes codes (SetPacketId (PacketId m) NewSubackMessage)")
      (auto simp: processSubscribe_def Let_def split: option.splits)
  obtain r2 we b2 where w: "svc_write E i (MSuback resp) b1 = Some (r2, we, b2)"
    using assms(2) r s e resp by (auto simp: processSubscribe_def bind_eq_Some_conv Let_def)
  have "we = None" using assms(2) r s e resp w by (cases we) (auto simp: processSubscribe_def unspecified_def Let_def split: if_splits goerr.splits)
  then obtain b3 where c: "processToCluster E i (Subscribe.topics m) (mtype m) b2 = Some b3" "resend E i m b3 = Some b'"
    using assms(2) r s e resp w by (auto simp: processSubscribe_def bind_eq_Some_conv Let_def)
  have k: "keeps b1 b'"
    using delivers_keeps [OF svc_write_delivers [OF w]] processToCluster_keeps [OF c(1)] delivers_keeps [OF resend_delivers [OF c(2)]]
    by (blast intro: keeps_trans)
  have "tm_view (bk_tm b') = tm_view (bk_tm b1)" "ss_topics (sess_of i b') = ss_topics (sess_of i b1)"
    using k keeps_view [OF k] by (simp_all add: keeps_def)
  then show ?thesis
    using subscribe_each_all [OF s [unfolded e] ok] assms(3) by simp
qed

lemma subscribed_everywhere_witness:
  "\<exists>b' pl. processSubscribe sample_env 0 sample_msg sample_broker = Some (None, b') \<and> place_of [97, 47, 43] = Some pl \<and>
     tm_view (bk_tm b') (pl, 0) \<noteq> None \<and> [97, 47, 43] \<in> fst ` set (ss_topics (sess_of 0 b'))"
proof -
  obtain b' where b': "processSubscribe sample_env 0 sample_msg sample_broker = Some (None, b')"
    using sample_handled by blast
  show ?thesis
    using subscribed_everywhere [OF sample_ok(1) b', of "[97, 47, 43]"] b' by (auto simp: sample_msg_def)
qed

end
