(* ===== verification/Qos2.thy ===== *)
theory Qos2
  imports Broker
begin

text \<open>
  QoS 2 from the client to the broker: a publication is stored when it is accepted, waits in the queue
  of the session, and is published when PUBREL releases it. Over any sequence of events the packets that
  waited and were accepted are those that were released, in the order of acceptance, followed by those that
  still wait, and \<open>onPublish\<close> was called for the released packets that decode, one call each.
\<close>

section \<open>Steps that leave the queues of incoming publications alone\<close>

definition waiting :: "nat \<Rightarrow> ('w, 'd, 'r) broker \<Rightarrow> unit ackmsg list" where
  "waiting i b = aq_list (ss_pub2in (sess_of i b))"

definition still :: "('w, 'd, 'r) broker \<Rightarrow> ('w, 'd, 'r) broker \<Rightarrow> bool" where
  "still b b' \<longleftrightarrow> (\<forall>j. ss_pub2in (sess_of j b') = ss_pub2in (sess_of j b))"

lemma still_refl [simp]: "still b b"
  by (simp add: still_def)

lemma still_trans [trans]: "still b b1 \<Longrightarrow> still b1 b2 \<Longrightarrow> still b b2"
  by (simp add: still_def)

lemma delivers_still: "delivers b b' \<Longrightarrow> still b b'"
  by (auto simp: still_def delivers_def svc_frame_def dest: sess_frameD)

lemma still_svc: "ss_pub2in (sv_sess (f (bk_svcs b i))) = ss_pub2in (sess_of i b) \<Longrightarrow> still b (svc_upd i f b)"
  by (simp add: still_def)

lemma still_fields [simp]:
  "still b (c\<lparr>bk_g := g\<rparr>) = still b c" "still b (c\<lparr>bk_tasks := ts\<rparr>) = still b c" "still b (c\<lparr>bk_tm := tm\<rparr>) = still b c"
  "still b (c\<lparr>bk_wills := ws\<rparr>) = still b c" "still b (c\<lparr>bk_ids := is\<rparr>) = still b c" "still b (c\<lparr>bk_nodes := ns\<rparr>) = still b c" "still b (c\<lparr>bk_db := d\<rparr>) = still b c"
  by (simp_all add: still_def)

lemma still_remove_job [simp]: "still b (remove_job cid c) = still b c"
  by (simp add: remove_job_def split: option.split)

lemma still_waiting: "still b b' \<Longrightarrow> waiting i b' = waiting i b"
  by (simp add: still_def waiting_def)

definition other_lens :: "queue_lens \<Rightarrow> bool" where
  "other_lens l \<longleftrightarrow> (\<forall>s q. ss_pub2in (snd l q s) = ss_pub2in s)"

lemma other_lenses [simp]:
  "other_lens l_pub1ack" "other_lens l_pub2out" "other_lens l_suback" "other_lens l_unsuback" "other_lens l_pingack"
  by (simp_all add: other_lens_def l_pub1ack_def l_pub2out_def l_suback_def l_unsuback_def l_pingack_def)

lemma ack_queue_still: "ack_queue_msg i l m b = Some (e, b') \<Longrightarrow> other_lens l \<Longrightarrow> still b b'"
  by (auto simp: ack_queue_msg_def bind_eq_Some_conv other_lens_def intro!: still_svc)

lemma processAcked_still:
  assumes "processAcked E i l b = Some b'" "other_lens l"
  shows "still b b'"
proof -
  obtain ams q where q: "acked_all E i ams (sess_upd i (snd l q) b) = Some b'"
    using assms(1) by (auto simp: processAcked_def bind_eq_Some_conv)
  have "still b (sess_upd i (snd l q) b)" using assms(2) by (simp add: other_lens_def still_svc)
  also have "still (sess_upd i (snd l q) b) b'" using q acked_all_delivers delivers_still by blast
  finally show ?thesis .
qed

lemma add_quota_still [simp]: "still b (add_quota i b)"
  by (simp add: add_quota_def still_svc)

lemma subscribe_each_still: "subscribe_each i m k ts codes b = Some (e, codes', b') \<Longrightarrow> still b b'"
proof (induction i m k ts codes b rule: subscribe_each.induct)
  case (2 i m k t ts codes b)
  obtain sb e1 rq b1 where s: "sub_at k t m = Some sb" "subscribe_one i sb b = Some (e1, rq, b1)"
    "(if e1 \<noteq> None then Some (e1, codes, b1) else subscribe_each i m (k + 1) ts (codes @ [rq]) b1) = Some (e, codes', b')"
    using 2(2) by (auto simp: bind_eq_Some_conv)
  have "still b b1"
    using s(2)
    by (auto simp: subscribe_one_def bind_eq_Some_conv sess_AddTopic_def Let_def still_def split: if_splits prod.splits)
  then show ?case using s(3) 2(1) [OF s(1,2) refl refl] by (auto split: if_splits intro: still_trans)
qed simp

lemma unsubscribe_each_still: "unsubscribe_each i ts b = Some b' \<Longrightarrow> still b b'"
proof (induction i ts b rule: unsubscribe_each.induct)
  case (2 i t ts b)
  then obtain tm e where s: "tm_Unsubscribe t (Some i) (bk_tm b) = Some (tm, e)"
    "unsubscribe_each i ts (sess_upd i (\<lambda>s. fst (sess_RemoveTopic t s)) (b\<lparr>bk_tm := tm\<rparr>)) = Some b'"
    by (auto simp: bind_eq_Some_conv)
  have "still b (sess_upd i (\<lambda>s. fst (sess_RemoveTopic t s)) (b\<lparr>bk_tm := tm\<rparr>))"
    by (simp add: still_def sess_RemoveTopic_def)
  then show ?case using 2(1) [OF s(1) refl s(2)] by (rule still_trans)
qed simp

lemma processToCluster_still: "processToCluster E i tps mt b = Some b' \<Longrightarrow> still b b'"
  by (auto simp: processToCluster_def sendCluster_def bind_eq_Some_conv Let_def split: if_splits prod.splits)

lemma processUnsubscribe_still: "processUnsubscribe E i m b = Some (e, b') \<Longrightarrow> still b b'"
  by (auto simp: processUnsubscribe_def bind_eq_Some_conv split: if_splits
      dest!: unsubscribe_each_still svc_write_delivers processToCluster_still delivers_still) (blast intro: still_trans)+

lemma processSubscribe_still:
  assumes "processSubscribe E i m b = Some (e, b')"
  shows "still b b'"
proof -
  let ?b0 = "svc_upd i (\<lambda>s. s\<lparr>sv_rmsgs := []\<rparr>) b"
  have i0: "still b ?b0" by (simp add: still_svc)
  obtain refused where r: "refuse_shared E m (Subscribe.topics m) = Some refused"
    using assms(1) by (auto simp: processSubscribe_def bind_eq_Some_conv Let_def)
  show ?thesis
  proof (cases refused)
    case (Some x)
    then show ?thesis using assms(1) i0 r by (simp add: processSubscribe_def Let_def)
  next
    case None
    obtain e1 codes b1 where s: "subscribe_each i m 0 (Subscribe.topics m) [] ?b0 = Some (e1, codes, b1)"
      using assms(1) r None by (auto simp: processSubscribe_def bind_eq_Some_conv Let_def)
    have i1: "still b b1" using i0 subscribe_each_still [OF s] by (rule still_trans)
    have c: "still b b3" if "delivers b1 b2" "still b2 y" "delivers y b3" for b2 y b3
      using i1 that delivers_still still_trans by blast
    show ?thesis
      using assms(1) r None s i1
      by (auto simp: processSubscribe_def bind_eq_Some_conv Let_def split: if_splits prod.splits option.splits
          dest!: svc_write_delivers processToCluster_still resend_delivers intro: c still_trans delivers_still)
  qed
qed

lemma sendWill_still [simp]: "still b (sendWillMsg i b)"
  by (simp add: sendWillMsg_def sess_Will_def Let_def still_def sess_SetWill_def split: option.split)

lemma processDisconnect_still: "still b (snd (processDisconnect E i m b))"
proof -
  define b1 where "b1 = (if Disconnect.reasonCode m = DisconnectionIncludesWill then sendWillMsg i b
    else sess_upd i (\<lambda>s. sess_SetWill None (s\<lparr>ss_cmessage := SetWillMessage [] (ss_cmessage s)\<rparr>)) b)"
  have k1: "still b b1" by (auto simp: b1_def sess_SetWill_def intro!: still_svc)
  have k2: "still b1 (sess_upd i (sess_SetExpiryInterval v) b1)" for v
    by (intro still_svc) (simp add: sess_SetExpiryInterval_def)
  show ?thesis
    using k1 still_trans [OF k1 k2]
    by (auto simp: processDisconnect_def b1_def [symmetric] Let_def split: prod.split option.split)
qed

lemma unsub_all_svcs: "unsub_all i ts b = Some b' \<Longrightarrow> bk_svcs b' = bk_svcs b"
  by (induction i ts b rule: unsub_all.induct) (auto split: option.splits)

lemma reload_svcs: "reload_loop E i ts b = Some b' \<Longrightarrow> bk_svcs b' = bk_svcs b"
  by (induction E i ts b rule: reload_loop.induct) (auto split: option.splits if_splits)

lemma stop_still: "svc_stop i b = Some b' \<Longrightarrow> still b b'"
proof -
  assume s: "svc_stop i b = Some b'"
  have u: "still c d" if "unSubAll i c = Some d" for c d
    using that by (auto simp: unSubAll_def still_def split: sum.splits dest: unsub_all_svcs)
  have w: "still b (if p then sendWillMsg i c else c)" if "still b c" for p c
    using still_trans [OF that sendWill_still] that by simp
  have o: "still c (svc_upd i (\<lambda>s. s\<lparr>sv_sess := sess_SetStatus OFFLINE (sv_sess s), sv_open := False\<rparr>) c)" for c
    by (intro still_svc) (simp add: sess_SetStatus_def)
  have c: "still b (svc_upd i (\<lambda>s. s\<lparr>sv_closed := True\<rparr>) b)" by (intro still_svc) simp
  show "still b b'"
    using s by (auto simp: svc_stop_def bind_eq_Some_conv Let_def split: if_splits
        dest!: u intro: still_trans [OF still_trans [OF c] still_trans [OF sendWill_still o]] still_trans [OF still_trans [OF c] o])
qed

section \<open>What a step accepts and what it releases\<close>

text \<open>The packets a PUBLISH adds to the queue of its client, and those that PUBREL takes out of it.\<close>

definition accepted_now :: "('w, 'd, 'r) env \<Rightarrow> nat \<Rightarrow> event \<Rightarrow> ('w, 'd, 'r) broker \<Rightarrow> bytes list" where
  "accepted_now E i ev b =
     (case ev of
        Incoming j (MPublish m) \<Rightarrow>
          (if j = i \<and> \<not> ev_MaxQos E < uint (QoS m) \<and> \<not> (Retain m \<and> \<not> ev_RetainAvailable E) then
             (case topicAliceIn m (sess_of i b) of
                (m1, s1, None) \<Rightarrow>
                  (if QoS m1 = QosExactlyOnce \<and> PacketId m1 \<notin> Pktid ` set (waiting i b) then
                     (case m_encode (mqtt_ops (bk_g b)) (MPublish m1) of (d, None) \<Rightarrow> [d] | (d, Some e) \<Rightarrow> [])
                   else [])
              | _ \<Rightarrow> [])
           else [])
      | _ \<Rightarrow> [])"

fun accepted :: "('w, 'd, 'r) env \<Rightarrow> nat \<Rightarrow> event list \<Rightarrow> ('w, 'd, 'r) broker \<Rightarrow> bytes list" where
  "accepted E i [] b = []"
| "accepted E i (ev # evs) b =
     accepted_now E i ev b @ (case serve_one E ev b of None \<Rightarrow> [] | Some b1 \<Rightarrow> accepted E i evs b1)"

text \<open>The publication a stored packet decodes to.\<close>

definition stored_pub :: "bytes \<Rightarrow> publish option" where
  "stored_pub d = (case pub_Decode (Slice d []) NewPublishMessage of Ret p n \<Rightarrow> Some p | _ \<Rightarrow> None)"

text \<open>
  \<open>publishes E i ds b b'\<close>: \<open>onPublish\<close> is called for the publications of the packets \<open>ds\<close>, one call each
  and in this order, and leads from \<open>b\<close> to \<open>b'\<close>. A packet that does not decode is skipped.
\<close>

inductive publishes ::
    "('w, 'd, 'r) env \<Rightarrow> nat \<Rightarrow> bytes list \<Rightarrow> ('w, 'd, 'r) broker \<Rightarrow> ('w, 'd, 'r) broker \<Rightarrow> bool"
  for E :: "('w, 'd, 'r) env" and i :: nat where
  publishes_none: "publishes E i [] b b"
| publishes_one:
    "stored_pub d = Some p \<Longrightarrow> onPublish E i p b = Some (e, b1) \<Longrightarrow> publishes E i ds b1 b2 \<Longrightarrow>
     publishes E i (d # ds) b b2"
| publishes_skip: "stored_pub d = None \<Longrightarrow> publishes E i ds b b2 \<Longrightarrow> publishes E i (d # ds) b b2"

text \<open>
  \<open>qos2_run E i evs b ds b'\<close>: the events lead from \<open>b\<close> to \<open>b'\<close>, and what they do with the QoS 2
  publications of client \<open>i\<close> is this: a PUBREL changes the queue, calls \<open>onPublish\<close> for the released
  packets and answers with PUBCOMP; a PUBLISH that is accepted changes the session and writes PUBREC,
  and nothing else; the packets released, over all events, are \<open>ds\<close>.
\<close>

inductive qos2_run ::
    "('w, 'd, 'r) env \<Rightarrow> nat \<Rightarrow> event list \<Rightarrow> ('w, 'd, 'r) broker \<Rightarrow> bytes list \<Rightarrow> ('w, 'd, 'r) broker \<Rightarrow> bool"
  for E :: "('w, 'd, 'r) env" and i :: nat where
  run_end: "qos2_run E i [] b [] b"
| run_release:
    "serve_one E (Incoming i (MPubrel r)) b = Some b2 \<Longrightarrow>
     publishes E i ds (sess_upd i (\<lambda>s. s\<lparr>ss_pub2in := q\<rparr>) b) b1 \<Longrightarrow>
     write_answer E i (MPubcomp (SetPacketId (PacketId r) NewPubcompMessage)) b1 = Some (e, b2) \<Longrightarrow>
     qos2_run E i evs b2 ds' b' \<Longrightarrow> qos2_run E i (Incoming i (MPubrel r) # evs) b (ds @ ds') b'"
| run_accept:
    "serve_one E (Incoming i (MPublish m)) b = Some b1 \<Longrightarrow> accepted_now E i (Incoming i (MPublish m)) b = [d] \<Longrightarrow>
     svc_write E i (MPubrec (SetPacketId p NewPubrecMessage)) (sess_upd i (\<lambda>_. s) (b\<lparr>bk_g := g\<rparr>)) = Some (x, e, b1) \<Longrightarrow>
     qos2_run E i evs b1 ds b' \<Longrightarrow> qos2_run E i (Incoming i (MPublish m) # evs) b ds b'"
| run_other:
    "serve_one E ev b = Some b1 \<Longrightarrow> accepted_now E i ev b = [] \<Longrightarrow> \<forall>r. ev \<noteq> Incoming i (MPubrel r) \<Longrightarrow>
     qos2_run E i evs b1 ds b' \<Longrightarrow> qos2_run E i (ev # evs) b ds b'"

text \<open>
  Events as they come from the network: a publication is of type PUBLISH, a PUBREL is of type PUBREL and
  its encoding decodes. Entries of the queue hold publications, and the encoding of the PUBREL that marked
  them decodes.
\<close>

definition pubrel_reads :: "bytes \<Rightarrow> bool" where
  "pubrel_reads d \<longleftrightarrow> (case PubrelDecode (Slice d []) NewPubrelMessage of Ret r n \<Rightarrow> True | _ \<Rightarrow> False)"

definition pubrel_ok :: "puback \<Rightarrow> bool" where
  "pubrel_ok r \<longleftrightarrow> mtype r = PUBREL \<and>
     (case m_encode (mqtt_ops 0) (MPubrel r) of (d, e) \<Rightarrow> e = None \<and> pubrel_reads d)"

fun msg_ok :: "mqtt \<Rightarrow> bool" where
  "msg_ok (MPublish m) = (mtype m = PUBLISH)"
| "msg_ok (MPubrel r) = pubrel_ok r"
| "msg_ok m = True"

fun event_ok :: "event \<Rightarrow> bool" where
  "event_ok (Incoming j m) = msg_ok m"
| "event_ok ev = True"

definition entry_ok :: "unit ackmsg \<Rightarrow> bool" where
  "entry_ok am \<longleftrightarrow> Mtype am = PUBLISH \<and> (State am = RESERVED \<or> State am = PUBREL \<and> pubrel_reads (Ackbuf am))"

lemma entry_done: "entry_ok am \<Longrightarrow> State am \<in> done_types \<Longrightarrow> State am = PUBREL \<and> pubrel_reads (Ackbuf am)"
  by (auto simp: entry_ok_def done_types_def RESERVED_def PUBACK_def PUBREL_def PUBCOMP_def SUBACK_def UNSUBACK_def)

lemma pubrel_okD:
  assumes "pubrel_ok r"
  shows "mtype r = PUBREL" "snd (m_encode (mqtt_ops g) (MPubrel r)) = None" "pubrel_reads (fst (m_encode (mqtt_ops g) (MPubrel r)))"
proof -
  have "m_encode (mqtt_ops g) (MPubrel r) = m_encode (mqtt_ops 0) (MPubrel r)"
    by (auto simp: mqtt_ops_def enc_def split: prod.splits outcome.splits option.splits)
  then show "mtype r = PUBREL" "snd (m_encode (mqtt_ops g) (MPubrel r)) = None" "pubrel_reads (fst (m_encode (mqtt_ops g) (MPubrel r)))"
    using assms by (auto simp: pubrel_ok_def split: prod.splits)
qed

text \<open>What \<open>processAcked\<close> does with an entry that PUBREL has marked.\<close>

lemma acked_one_publishes:
  assumes "Mtype am = PUBLISH" "State am = PUBREL" "pubrel_reads (Ackbuf am)" "acked_one E i am b = Some b1" "publishes E i ds b1 b2"
  shows "publishes E i (Msgbuf am # ds) b b2"
proof -
  have types: "PUBLISH \<noteq> PINGREQ" "PUBREL \<noteq> PINGRESP" "PUBREL \<noteq> PUBLISH" "PUBREL \<noteq> PUBACK" "PUBREL \<noteq> PUBREC"
    by (simp_all add: PUBLISH_def PINGREQ_def PINGRESP_def PUBREL_def PUBACK_def PUBREC_def)
  obtain r2 where r2: "decode_as (State am) (State am = PINGRESP) (Ackbuf am) = Some (Some (MPubrel r2))"
    using assms(2,3) types by (auto simp: decode_as_def mqtt_New.simps pubrel_reads_def split: outcome.splits)
  have m: "decode_as (Mtype am) (Mtype am = PINGREQ) (Msgbuf am) =
    (case pub_Decode (Slice (Msgbuf am) []) NewPublishMessage of
       Ret p n \<Rightarrow> Some (Some (MPublish p)) | Fail p n e \<Rightarrow> Some None | Panic \<Rightarrow> None)"
    using assms(1) types by (simp add: decode_as_def mqtt_New.simps split: outcome.splits)
  show ?thesis
    using assms(2,4,5) r2 m
    by (auto simp: acked_one_def stored_pub_def bind_eq_Some_conv split: outcome.splits
        intro: publishes_one publishes_skip)
qed

lemma acked_all_publishes:
  "\<forall>am\<in>set ams. Mtype am = PUBLISH \<and> State am = PUBREL \<and> pubrel_reads (Ackbuf am) \<Longrightarrow>
     acked_all E i ams b = Some b' \<Longrightarrow> publishes E i (map Msgbuf ams) b b'"
proof (induction ams arbitrary: b)
  case (Cons am ams)
  obtain b1 where b1: "acked_one E i am b = Some b1" "acked_all E i ams b1 = Some b'"
    using Cons.prems(2) by (auto simp: bind_eq_Some_conv)
  have am: "Mtype am = PUBLISH" "State am = PUBREL" "pubrel_reads (Ackbuf am)"
    "\<forall>am\<in>set ams. Mtype am = PUBLISH \<and> State am = PUBREL \<and> pubrel_reads (Ackbuf am)"
    using Cons.prems(1) by simp_all
  have "publishes E i (map Msgbuf ams) b1 b'" using am(4) b1(2) by (rule Cons.IH)
  from acked_one_publishes [OF am(1-3) b1(1) this] show ?case by simp
qed (simp add: publishes_none)

lemma acked_one_pong: "State am = PINGRESP \<Longrightarrow> acked_one E i am b = Some b' \<Longrightarrow> b' = b"
  by (auto simp: acked_one_def bind_eq_Some_conv PINGRESP_def PUBREL_def split: option.splits)

lemma map_take_drop: "map f (takeWhile P xs) @ map f (dropWhile P xs) = map f xs"
  by (metis map_append takeWhile_dropWhile_id)

text \<open>A PUBREL marks its entry; the completed prefix of the queue is taken out and published.\<close>

lemma pubrel_step:
  assumes "sess_ok (sess_of i b)" "processIncoming E i (MPubrel r) b = Some (e, b')" "pubrel_ok r"
    "\<forall>am\<in>set (waiting i b). entry_ok am"
  shows "\<exists>ds q b2. publishes E i ds (sess_upd i (\<lambda>s. s\<lparr>ss_pub2in := q\<rparr>) b) b2 \<and>
      write_answer E i (MPubcomp (SetPacketId (PacketId r) NewPubcompMessage)) b2 = Some (e, b') \<and>
      map Msgbuf (waiting i b) = ds @ map Msgbuf (waiting i b') \<and> (\<forall>am\<in>set (waiting i b'). entry_ok am)"
proof -
  let ?q = "ss_pub2in (sess_of i b)" and ?M = "mqtt_ops (bk_g b)" and ?done = "\<lambda>x. State x \<in> done_types"
  have inv: "aq_inv ?q" using assms(1) by (simp add: sess_ok_def)
  note r = pubrel_okD(1) [OF assms(3)] pubrel_okD(2,3) [OF assms(3), of "bk_g b"]
  define ams where "ams = map (\<lambda>x. if Pktid x = PacketId r then x\<lparr>State := PUBREL, Ackbuf := fst (m_encode ?M (MPubrel r))\<rparr> else x)
    (waiting i b)"
  have t: "m_type ?M (MPubrel r) = PUBREL" "m_pid ?M (MPubrel r) = PacketId r" "PUBREL \<in> ack_types"
    using r(1) by (simp_all add: mqtt_ops_def ack_types_def)
  obtain q where q: "aq_Ack ?M (MPubrel r) ?q = Some (None, q)" "aq_inv q" "aq_list q = ams"
    using aq_Ack_inv [OF inv, of ?M "MPubrel r"] r(2) t by (auto simp: aq_view_def spec_Ack_def ams_def waiting_def split: if_splits)
  have ams: "map Msgbuf ams = map Msgbuf (waiting i b)" "\<forall>am\<in>set ams. entry_ok am"
    using assms(4) r(3) by (auto simp: ams_def entry_ok_def)
  let ?b1 = "sess_upd i (\<lambda>s. s\<lparr>ss_pub2in := q\<rparr>) b"
  obtain b2 where b2: "processAcked E i l_pub2in ?b1 = Some b2"
    "write_answer E i (MPubcomp (SetPacketId (PacketId r) NewPubcompMessage)) b2 = Some (e, b')"
    using assms(2) q(1) by (auto simp: ack_queue_msg_def queue_Ack_def bind_eq_Some_conv l_pub2in_def split: if_splits)
  obtain out q2 where acked: "aq_Acked q = Some (out, q2)" "acked_all E i out (sess_upd i (\<lambda>s. s\<lparr>ss_pub2in := q2\<rparr>) b) = Some b2"
    using b2(1) by (auto simp: processAcked_def bind_eq_Some_conv l_pub2in_def svc_upd_def)
  have v: "aq_list q2 = dropWhile ?done ams"
    "out = (if State (aq_ping q) = PINGRESP then [aq_ping q] else []) @ takeWhile ?done ams"
    using aq_Acked_inv [OF q(2)] acked(1) q(3) by (auto simp: aq_view_def spec_Acked_def Let_def)
  have all: "acked_all E i (takeWhile ?done ams) (sess_upd i (\<lambda>s. s\<lparr>ss_pub2in := q2\<rparr>) b) = Some b2"
    using acked(2) v(2) by (auto simp: bind_eq_Some_conv split: if_splits dest: acked_one_pong)
  have "\<forall>am\<in>set (takeWhile ?done ams). Mtype am = PUBLISH \<and> State am = PUBREL \<and> pubrel_reads (Ackbuf am)"
  proof (intro ballI)
    fix am assume "am \<in> set (takeWhile ?done ams)"
    then have "entry_ok am" "State am \<in> done_types" using ams(2) set_takeWhileD by fast+
    from entry_done [OF this] \<open>entry_ok am\<close> show "Mtype am = PUBLISH \<and> State am = PUBREL \<and> pubrel_reads (Ackbuf am)"
      by (simp add: entry_ok_def)
  qed
  from acked_all_publishes [OF this all]
  have p: "publishes E i (map Msgbuf (takeWhile ?done ams)) (sess_upd i (\<lambda>s. s\<lparr>ss_pub2in := q2\<rparr>) b) b2" .
  have st: "still (sess_upd i (\<lambda>s. s\<lparr>ss_pub2in := q2\<rparr>) b) b'"
    using acked_all_delivers [OF acked(2)] write_answer_delivers [OF b2(2)] delivers_still still_trans by blast
  have w: "waiting i b' = dropWhile ?done ams" using still_waiting [OF st, of i] v(1) by (simp add: waiting_def)
  have "map Msgbuf (waiting i b) = map Msgbuf (takeWhile ?done ams) @ map Msgbuf (waiting i b')"
    using ams(1) w map_take_drop [of Msgbuf ?done ams] by simp
  moreover have "\<forall>am\<in>set (waiting i b'). entry_ok am" using ams(2) w set_dropWhileD by fastforce
  ultimately show ?thesis using p b2(2) by blast
qed

lemma pubrel_others:
  assumes "processIncoming E j (MPubrel r) b = Some (e, b')" "i \<noteq> j"
  shows "waiting i b' = waiting i b"
proof -
  obtain q e1 where a: "ack_queue_msg j l_pub2in (MPubrel r) b = Some (e1, sess_upd j (\<lambda>s. s\<lparr>ss_pub2in := q\<rparr>) b)"
    "(if e1 \<noteq> None then Some (e1, sess_upd j (\<lambda>s. s\<lparr>ss_pub2in := q\<rparr>) b)
      else do { b2 \<leftarrow> processAcked E j l_pub2in (sess_upd j (\<lambda>s. s\<lparr>ss_pub2in := q\<rparr>) b);
                write_answer E j (MPubcomp (SetPacketId (PacketId r) NewPubcompMessage)) b2 }) = Some (e, b')"
    using assms(1) by (auto simp: bind_eq_Some_conv ack_queue_msg_def l_pub2in_def split: if_splits)
  show ?thesis
  proof (cases e1)
    case None
    then obtain b2 ams q2 where b2: "acked_all E j ams (sess_upd j (\<lambda>s. s\<lparr>ss_pub2in := q2\<rparr>) (sess_upd j (\<lambda>s. s\<lparr>ss_pub2in := q\<rparr>) b)) = Some b2"
      "write_answer E j (MPubcomp (SetPacketId (PacketId r) NewPubcompMessage)) b2 = Some (e, b')"
      using a(2) by (auto simp: processAcked_def bind_eq_Some_conv l_pub2in_def)
    have "still (sess_upd j (\<lambda>s. s\<lparr>ss_pub2in := q2\<rparr>) (sess_upd j (\<lambda>s. s\<lparr>ss_pub2in := q\<rparr>) b)) b'"
      using acked_all_delivers [OF b2(1)] write_answer_delivers [OF b2(2)] delivers_still still_trans by blast
    from still_waiting [OF this, of i] show ?thesis using assms(2) by (simp add: waiting_def)
  next
    case (Some x)
    then have "b' = sess_upd j (\<lambda>s. s\<lparr>ss_pub2in := q\<rparr>) b" using a(2) by simp
    then show ?thesis using assms(2) by (simp add: waiting_def)
  qed
qed

lemma topicAliceIn_error: "topicAliceIn m s = (m1, s1, Some e) \<Longrightarrow> s1 = s"
  by (auto simp: topicAliceIn_def split: if_splits option.splits)

lemma topicAliceIn_type: "topicAliceIn m s = (m1, s1, e) \<Longrightarrow> mtype m1 = mtype m"
  by (intro mtype_cong) (auto simp: topicAliceIn_def SetTopic_def SetTopicAlias_def split: if_splits option.splits)

lemma qos2_dyntype [simp]:
  "m_dyntype (mqtt_ops g) (MPublish m) = PUBLISH" "m_pid (mqtt_ops g) (MPublish m) = PacketId m"
  "m_qos (mqtt_ops g) (MPublish m) = QoS m"
  by (simp_all add: mqtt_ops_def)

lemma publish_wait:
  assumes "aq_inv q" "queue_Wait g (MPublish m) None q = Some (e, g', m', q')" "QoS m = QosExactlyOnce"
  shows "map Msgbuf (aq_list q') = map Msgbuf (aq_list q) @
    (if PacketId m \<notin> Pktid ` set (aq_list q) then
       (case m_encode (mqtt_ops g) (MPublish m) of (d, None) \<Rightarrow> [d] | (d, Some e) \<Rightarrow> []) else [])"
    "set (aq_list q') \<subseteq> set (aq_list q) \<union> {am. Mtype am = mtype m \<and> State am = RESERVED}"
proof -
  let ?M = "mqtt_ops g"
  obtain e1 where w: "aq_Wait ?M (MPublish m) None q = Some (e1, q')"
    using assms(2) by (auto simp: queue_Wait_def bind_eq_Some_conv split: if_splits)
  have "aq_view q' = snd (spec_Wait ?M (MPublish m) None (aq_view q))"
    using aq_Wait_inv [OF assms(1), of ?M "MPublish m" None] w by auto
  then have l: "aq_list q' = (if PacketId m \<in> Pktid ` set (aq_list q) \<or> snd (m_encode ?M (MPublish m)) \<noteq> None
      then aq_list q else aq_list q @ [new_ackmsg ?M (MPublish m) None])"
    by (auto simp: aq_view_def spec_Wait_def assms(3) qos_defs PUBLISH_def PINGREQ_def SUBSCRIBE_def UNSUBSCRIBE_def)
  then show "map Msgbuf (aq_list q') = map Msgbuf (aq_list q) @
    (if PacketId m \<notin> Pktid ` set (aq_list q) then
       (case m_encode ?M (MPublish m) of (d, None) \<Rightarrow> [d] | (d, Some e) \<Rightarrow> []) else [])"
    by (cases "m_encode ?M (MPublish m)"; cases "snd (m_encode ?M (MPublish m))") (auto simp: new_ackmsg_def)
  have "m_type ?M (MPublish m) = mtype m" by (simp add: mqtt_ops_def)
  then show "set (aq_list q') \<subseteq> set (aq_list q) \<union> {am. Mtype am = mtype m \<and> State am = RESERVED}"
    by (auto simp: l new_ackmsg_def)
qed

text \<open>
  A PUBLISH: what is accepted is appended to the queue, and an accepted publication only changes the
  session and writes PUBREC.
\<close>

lemma publish_step:
  assumes "sess_ok (sess_of i b)" "processPublish E i m b = Some (e, b')"
  shows "map Msgbuf (waiting i b') = map Msgbuf (waiting i b) @ accepted_now E i (Incoming i (MPublish m)) b \<and>
    (\<forall>j. j \<noteq> i \<longrightarrow> waiting j b' = waiting j b) \<and>
    set (waiting i b') \<subseteq> set (waiting i b) \<union> {am. Mtype am = mtype m \<and> State am = RESERVED} \<and>
    (accepted_now E i (Incoming i (MPublish m)) b = [] \<or>
     (\<exists>d p s g x we. accepted_now E i (Incoming i (MPublish m)) b = [d] \<and>
        svc_write E i (MPubrec (SetPacketId p NewPubrecMessage)) (sess_upd i (\<lambda>_. s) (b\<lparr>bk_g := g\<rparr>)) = Some (x, we, b')))"
proof (cases "ev_MaxQos E < uint (QoS m) \<or> Retain m \<and> \<not> ev_RetainAvailable E")
  case True
  then show ?thesis using assms(2) by (auto simp: processPublish_def accepted_now_def split: if_splits)
next
  case False
  obtain m1 s1 e1 where a: "topicAliceIn m (sess_of i b) = (m1, s1, e1)" by (metis prod_cases3)
  let ?b1 = "sess_upd i (\<lambda>_. s1) b"
  have st1: "still b ?b1" using topicAliceIn_ok(3) [OF a] by (intro still_svc) simp
  have w1: "waiting i ?b1 = waiting i b" "bk_g ?b1 = bk_g b" "ss_pub2in s1 = ss_pub2in (sess_of i b)"
    using still_waiting [OF st1] topicAliceIn_ok(3) [OF a] by (simp_all add: svc_upd_def)
  have acc: "accepted_now E i (Incoming i (MPublish m)) b =
    (if e1 = None \<and> QoS m1 = QosExactlyOnce \<and> PacketId m1 \<notin> Pktid ` set (waiting i b) then
       (case m_encode (mqtt_ops (bk_g b)) (MPublish m1) of (d, None) \<Rightarrow> [d] | (d, Some e) \<Rightarrow> []) else [])"
    using False a by (auto simp: accepted_now_def split: option.splits)
  show ?thesis
  proof (cases "e1 = None \<and> QoS m1 = QosExactlyOnce")
    case True
    obtain e2 g m2 q r we where q: "queue_Wait (bk_g b) (MPublish m1) None (ss_pub2in (sess_of i b)) = Some (e2, g, m2, q)"
      "svc_write E i (MPubrec (SetPacketId (mqtt_pid m2) NewPubrecMessage))
         (sess_upd i (\<lambda>s. s\<lparr>ss_pub2in := q\<rparr>) (?b1\<lparr>bk_g := g\<rparr>)) = Some (r, we, b')"
      using assms(2) False a True w1 by (auto simp: processPublish_def bind_eq_Some_conv Let_def)
    let ?b2 = "sess_upd i (\<lambda>s. s\<lparr>ss_pub2in := q\<rparr>) (?b1\<lparr>bk_g := g\<rparr>)"
    have b2: "?b2 = sess_upd i (\<lambda>_. s1\<lparr>ss_pub2in := q\<rparr>) (b\<lparr>bk_g := g\<rparr>)" by (simp add: svc_upd_def)
    have st: "still ?b2 b'" using q(2) svc_write_delivers delivers_still by blast
    have i: "waiting i b' = aq_list q" using still_waiting [OF st, of i] by (simp add: waiting_def)
    have j: "waiting j b' = waiting j b" if "j \<noteq> i" for j
      using still_waiting [OF st, of j] that by (simp add: waiting_def)
    have inv: "aq_inv (ss_pub2in (sess_of i b))" using assms(1) by (simp add: sess_ok_def)
    have one: "accepted_now E i (Incoming i (MPublish m)) b = [] \<or> (\<exists>d. accepted_now E i (Incoming i (MPublish m)) b = [d])"
      by (auto simp: acc split: prod.splits option.splits)
    show ?thesis
      using publish_wait [OF inv q(1)] True i j acc one q(2) [unfolded b2] topicAliceIn_type [OF a]
      by (auto simp: waiting_def)
  next
    case no: False
    have "still ?b1 b'"
      using assms(2) False a no
      by (auto simp: processPublish_def bind_eq_Some_conv Let_def split: if_splits option.splits
          dest!: svc_write_delivers onPublish_delivers delivers_still dest: topicAliceIn_error intro: still_trans)
    then have "waiting j b' = waiting j b" for j
      using st1 still_waiting still_trans by blast
    then show ?thesis using acc no by auto
  qed
qed

lemma incoming_still:
  assumes "processIncoming E i m b = Some (e, b')" "\<And>p. m \<noteq> MPublish p" "\<And>r. m \<noteq> MPubrel r"
  shows "still b b'"
proof (cases m)
  case (MPubrec p)
  define b0 where "b0 = (if AckPackets.reasonCode p > QosFailure then add_quota i b else b)"
  have "still b b0" by (simp add: b0_def)
  moreover have "still b0 b'"
    using assms(1)
    by (auto simp: MPubrec b0_def [symmetric] bind_eq_Some_conv Let_def split: if_splits
        dest!: write_answer_delivers ack_queue_still delivers_still intro: still_trans)
  ultimately show ?thesis by (rule still_trans)
next
  case (MDisconnect p)
  then show ?thesis using assms(1) processDisconnect_still [of b E i p] by simp
next
  case (MPuback p)
  have "still (add_quota i b) b'"
    using assms(1) by (auto simp: MPuback bind_eq_Some_conv split: if_splits dest!: ack_queue_still processAcked_still intro: still_trans)
  then show ?thesis using still_trans [OF add_quota_still] by blast
next
  case (MPubcomp p)
  have "still (add_quota i b) b'"
    using assms(1) by (auto simp: MPubcomp bind_eq_Some_conv split: if_splits dest!: ack_queue_still processAcked_still intro: still_trans)
  then show ?thesis using still_trans [OF add_quota_still] by blast
qed (use assms in \<open>auto simp: bind_eq_Some_conv dest!: processSubscribe_still processUnsubscribe_still write_answer_delivers
       delivers_still ack_queue_still processAcked_still intro: still_trans\<close>)

lemma serve_one_still:
  assumes "serve_one E ev b = Some b'" "\<And>j m. ev \<noteq> Incoming j (MPublish m)" "\<And>j r. ev \<noteq> Incoming j (MPubrel r)"
  shows "still b b'"
proof (cases ev)
  case (Incoming j m)
  then obtain e where "processIncoming E j m b = Some (e, b')" using assms(1) by auto
  then show ?thesis by (rule incoming_still) (use assms(2,3) Incoming in auto)
next
  case (Timer k)
  have "fire_will E k b = Some b' \<Longrightarrow> still b b'"
    by (auto simp: fire_will_def bind_eq_Some_conv pubFn_def split: if_splits prod.splits option.splits dest!: pub_to_delivers delivers_still)
  then show ?thesis using assms(1) Timer by auto
next
  case (Opened j)
  have "reloadSub E j b = Some (e, b') \<Longrightarrow> still b b'" for e
    by (auto simp: reloadSub_def still_def split: sum.splits dest: reload_svcs)
  then show ?thesis using assms(1) Opened by auto
qed (use assms(1) in \<open>auto intro: delivers_still run_task_delivers cluster_in_delivers stop_still\<close>)

lemma accepted_nothing:
  "\<forall>m. ev \<noteq> Incoming i (MPublish m) \<Longrightarrow> accepted_now E i ev b = []"
  by (auto simp: accepted_now_def split: event.split mqtt.split)

text \<open>The entries stay well-formed, and one event is a step of the run.\<close>

lemma waiting_entries:
  assumes "broker_ok b" "serve_one E ev b = Some b1" "event_ok ev" "\<forall>am\<in>set (waiting i b). entry_ok am"
  shows "\<forall>am\<in>set (waiting i b1). entry_ok am"
proof -
  have ok: "sess_ok (sess_of j b)" for j using assms(1) by (simp add: broker_ok_def)
  consider (pub) j m where "ev = Incoming j (MPublish m)" | (rel) j r where "ev = Incoming j (MPubrel r)"
    | (rest) "\<And>j m. ev \<noteq> Incoming j (MPublish m)" "\<And>j r. ev \<noteq> Incoming j (MPubrel r)" by blast
  then show ?thesis
  proof cases
    case pub
    then obtain e where "processPublish E j m b = Some (e, b1)" using assms(2) by auto
    from publish_step [OF ok this] show ?thesis
      using assms(3,4) pub by (cases "j = i") (auto simp: entry_ok_def)
  next
    case rel
    then obtain e where p: "processIncoming E j (MPubrel r) b = Some (e, b1)" using assms(2) by auto
    show ?thesis
    proof (cases "j = i")
      case True
      show ?thesis using pubrel_step [OF ok p] assms(3,4) rel True by auto
    qed (use pubrel_others [OF p, of i] assms(4) in simp)
  next
    case rest
    then show ?thesis using still_waiting [OF serve_one_still [OF assms(2) rest], of i] assms(4) by simp
  qed
qed

lemma serve_one_step:
  assumes "broker_ok b" "serve_one E ev b = Some b1" "event_ok ev" "\<forall>am\<in>set (waiting i b). entry_ok am"
    "qos2_run E i evs b1 ds' b'"
  shows "\<exists>ds. qos2_run E i (ev # evs) b (ds @ ds') b' \<and>
    map Msgbuf (waiting i b) @ accepted_now E i ev b = ds @ map Msgbuf (waiting i b1)"
proof -
  have ok: "sess_ok (sess_of j b)" for j using assms(1) by (simp add: broker_ok_def)
  have o: ?thesis
    if "waiting i b1 = waiting i b" "accepted_now E i ev b = []" "\<forall>r. ev \<noteq> Incoming i (MPubrel r)"
    using run_other [OF assms(2) that(2,3) assms(5)] that(1,2) by (metis append_Nil append_Nil2)
  consider (pub) m where "ev = Incoming i (MPublish m)" | (rel) r where "ev = Incoming i (MPubrel r)"
    | (rest) "\<forall>m. ev \<noteq> Incoming i (MPublish m)" "\<forall>r. ev \<noteq> Incoming i (MPubrel r)" by blast
  then show ?thesis
  proof cases
    case pub
    then obtain e where p: "processPublish E i m b = Some (e, b1)" using assms(2) by auto
    note s = publish_step [OF ok p]
    show ?thesis
    proof (cases "accepted_now E i ev b = []")
      case True
      have "qos2_run E i (ev # evs) b ds' b'" using run_other [OF assms(2) True _ assms(5)] pub by simp
      then show ?thesis using s True pub by (intro exI [of _ "[]"]) simp
    next
      case False
      then obtain d p s g x we where "accepted_now E i (Incoming i (MPublish m)) b = [d]"
        "svc_write E i (MPubrec (SetPacketId p NewPubrecMessage)) (sess_upd i (\<lambda>_. s) (b\<lparr>bk_g := g\<rparr>)) = Some (x, we, b1)"
        using s pub by blast
      from run_accept [OF assms(2) [unfolded pub] this assms(5)]
      show ?thesis using s pub by (intro exI [of _ "[]"]) simp
    qed
  next
    case rel
    then obtain e where p: "processIncoming E i (MPubrel r) b = Some (e, b1)" using assms(2) by auto
    have "pubrel_ok r" using assms(3) rel by simp
    from pubrel_step [OF ok p this assms(4)] obtain ds q b2 where
      d: "publishes E i ds (sess_upd i (\<lambda>s. s\<lparr>ss_pub2in := q\<rparr>) b) b2"
        "write_answer E i (MPubcomp (SetPacketId (PacketId r) NewPubcompMessage)) b2 = Some (e, b1)"
        "map Msgbuf (waiting i b) = ds @ map Msgbuf (waiting i b1)" by blast
    from run_release [OF assms(2) [unfolded rel] d(1,2) assms(5)] d(3) rel
    show ?thesis by (intro exI [of _ ds]) (simp add: accepted_nothing)
  next
    case rest
    have "waiting i b1 = waiting i b"
    proof (cases "\<exists>j m. ev = Incoming j (MPublish m)")
      case True
      then obtain j m e where "ev = Incoming j (MPublish m)" "processPublish E j m b = Some (e, b1)" using assms(2) by auto
      then show ?thesis using publish_step(1) [where i = j and E = E and m = m and b = b and e = e and b' = b1, OF ok] rest by auto
    next
      case nopub: False
      show ?thesis
      proof (cases "\<exists>j r. ev = Incoming j (MPubrel r)")
        case True
        then obtain j r e where "ev = Incoming j (MPubrel r)" "processIncoming E j (MPubrel r) b = Some (e, b1)"
          using assms(2) by auto
        then show ?thesis using pubrel_others [of E j r b e b1 i] rest by auto
      qed (use nopub serve_one_still [OF assms(2)] still_waiting in blast)
    qed
    then show ?thesis using o rest accepted_nothing [OF rest(1)] by blast
  qed
qed

section \<open>Encodings of the messages involved\<close>

lemma enc_ack:
  assumes "dirty m" "ack_ok m" "C \<in> {MPuback, MPubrec, MPubrel, MPubcomp}"
  shows "enc g (C m) = Some (g, C (ack_built m), ack_wire m, length (ack_wire m), None)"
proof -
  have "ack_Encode (ack_built m) (replicate (length (ack_wire m)) 0) = (ack_built m, Ret (ack_wire m) (length (ack_wire m)))"
    using ack_Encode_wire [of "ack_built m" "replicate (length (ack_wire m)) 0"] assms(2) by (simp add: ack_built_again)
  then show ?thesis
    using assms(3) ack_Len_wire [OF assms(1,2)] by (auto simp: enc_def)
qed

lemma enc_publish:
  assumes "dirty m" "pub_ok m" "id_ok g m" "assign_id g m = (g', n)"
  shows "enc g (MPublish m) = Some (g', MPublish (pub_built n), pub_wire n, length (pub_wire n), None)"
proof -
  have b: "assign_id g (pub_built m) = (g', pub_built n)" "id_ok g (pub_built m)" "pub_ok (pub_built m)"
    using assms by (simp_all add: assign_id_built id_ok_def pub_ok_built)
  have w: "pub_wire (pub_built n) = pub_wire n"
    by (simp add: pub_wire_def pub_built_built pub_body_wire_def)
  have "pub_Len m = Some (pub_built m, length (pub_wire n))"
    using pub_encode_wire [OF assms(1-4), of "replicate (length (pub_wire n)) 0"] by simp
  moreover have "pub_Encode g (pub_built m) (replicate (length (pub_wire n)) 0) = (g', pub_built n, Ret (pub_wire n) (length (pub_wire n)))"
    using pub_encode_wire [OF _ b(3,2,1), of "replicate (length (pub_wire n)) 0"] by (simp add: w pub_built_built)
  ultimately show ?thesis by (simp add: enc_def)
qed

text \<open>The answers carry a packet identifier and nothing else, with or without problem information.\<close>

lemma new_acks:
  "NewPubackMessage = \<lparr>remlen = 0, mtypeflags = [0x40], packetId = [], dbuf = Slice [] [], dirty = True,
     puback.reasonCode = 0, puback.propertyLen = 0, puback.reasonStr = [], puback.userProperty = []\<rparr>"
  "NewPubrecMessage = \<lparr>remlen = 0, mtypeflags = [0x50], packetId = [], dbuf = Slice [] [], dirty = True,
     puback.reasonCode = 0, puback.propertyLen = 0, puback.reasonStr = [], puback.userProperty = []\<rparr>"
  "NewPubrelMessage = \<lparr>remlen = 0, mtypeflags = [0x62], packetId = [], dbuf = Slice [] [], dirty = True,
     puback.reasonCode = 0, puback.propertyLen = 0, puback.reasonStr = [], puback.userProperty = []\<rparr>"
  "NewPubcompMessage = \<lparr>remlen = 0, mtypeflags = [0x70], packetId = [], dbuf = Slice [] [], dirty = True,
     puback.reasonCode = 0, puback.propertyLen = 0, puback.reasonStr = [], puback.userProperty = []\<rparr>"
  by code_simp+

lemma bare_ack:
  assumes "m0 \<in> {NewPubackMessage, NewPubrecMessage, NewPubrelMessage, NewPubcompMessage}" "p \<noteq> 0"
  shows "dirty (SetPacketId p m0)" "ack_ok (SetPacketId p m0)"
    "ack_wire (SetPacketId p m0) = mtypeflags m0 ! 0 # 2 # u16_bytes p"
    "AckPackets.SetUserProperties [] (AckPackets.SetReasonStr [] (SetPacketId p m0)) = SetPacketId p m0"
proof -
  define m where "m = SetPacketId p m0"
  have f: "packetId m = u16_bytes p" "puback.reasonCode m = Success" "puback.reasonStr m = []" "puback.userProperty m = []" "dirty m"
    "mtypeflags m = mtypeflags m0"
    using assms by (auto simp: m_def SetPacketId_def new_acks Success_def)
  have pl: "ack_plen m = 0" "ack_remlen m = 2"
    by (simp_all add: ack_plen_def ack_remlen_def f)
  have t: "length (mtypeflags m0) = 1" "mtype m \<in> {PUBACK, PUBREC, PUBREL, PUBCOMP}" "flags_ok m"
    using assms by (auto simp: m_def SetPacketId_def new_acks mtype_def alloc_flags_def flags_ok_def Flags_def
        PUBACK_def PUBREC_def PUBREL_def PUBCOMP_def DefaultFlags_def PUBLISH_def SUBSCRIBE_def UNSUBSCRIBE_def)
  show "dirty (SetPacketId p m0)" using f by (simp add: m_def [symmetric])
  show ok: "ack_ok (SetPacketId p m0)"
    using t by (auto simp: m_def [symmetric] ack_ok_def f pl short_def type_Valid_def
        PUBACK_def PUBREC_def PUBREL_def PUBCOMP_def PUBLISH_def)
  have "header_wire (ack_built m) = [mtypeflags m0 ! 0, 2]"
    by (simp add: header_wire_def ack_built_def pl f lb_wire.simps)
  then show "ack_wire (SetPacketId p m0) = mtypeflags m0 ! 0 # 2 # u16_bytes p"
    by (simp add: m_def [symmetric] ack_wire_def ack_body_wire_def pl f)
  show "AckPackets.SetUserProperties [] (AckPackets.SetReasonStr [] (SetPacketId p m0)) = SetPacketId p m0"
    using assms by (auto simp: SetPacketId_def new_acks AckPackets.SetUserProperties_def AckPackets.SetReasonStr_def)
qed

lemma write_bare_ack:
  assumes "sv_open (bk_svcs b i)" "p \<noteq> 0"
    "(C, m0) \<in> {(MPuback, NewPubackMessage), (MPubrec, NewPubrecMessage), (MPubrel, NewPubrelMessage), (MPubcomp, NewPubcompMessage)}"
  shows "\<exists>r. svc_write E i (C (SetPacketId p m0)) b =
    Some (r, snd (ev_WritePkg E (mtypeflags m0 ! 0 # 2 # u16_bytes p) (sv_wire (bk_svcs b i))),
      svc_upd i (\<lambda>s. s\<lparr>sv_wire := fst (ev_WritePkg E (mtypeflags m0 ! 0 # 2 # u16_bytes p) (sv_wire (bk_svcs b i)))\<rparr>) b)"
proof -
  have m0: "m0 \<in> {NewPubackMessage, NewPubrecMessage, NewPubrelMessage, NewPubcompMessage}"
    and C: "C \<in> {MPuback, MPubrec, MPubrel, MPubcomp}" using assms(3) by auto
  have d: "delRequestRespInfo s (C (SetPacketId p m0)) = C (SetPacketId p m0)" for s :: "'a service"
    using C bare_ack(4) [OF m0 assms(2)] by (auto simp: delRequestRespInfo_def)
  have "b\<lparr>bk_g := bk_g b\<rparr> = b" by simp
  then show ?thesis
    using enc_ack [OF bare_ack(1,2) [OF m0 assms(2)] C, of "bk_g b"]
    by (auto simp: svc_write_def Let_def d assms(1) bare_ack(3) [OF m0 assms(2)] split: prod.splits)
qed

text \<open>What a QoS 2 publication that can be stored does to the session and to the wire.\<close>

lemma publish2_result:
  assumes "sess_ok (sess_of i b)" "sv_open (bk_svcs b i)" "QoS m = QosExactlyOnce" "2 \<le> ev_MaxQos E"
    "\<not> Retain m \<or> ev_RetainAvailable E" "topicAlias m = 0" "PacketId m \<noteq> 0"
    "enc (bk_g b) (MPublish m) = Some (g, MPublish m', d, n, None)" "PacketId m' = PacketId m"
    "PacketId m \<notin> Pktid ` set (waiting i b)"
  defines "w \<equiv> ev_WritePkg E (0x50 # 2 # u16_bytes (PacketId m)) (sv_wire (bk_svcs b i))"
  shows "\<exists>q. aq_inv q \<and> aq_ping q = aq_ping (ss_pub2in (sess_of i b)) \<and>
    aq_list q = waiting i b @
      [\<lparr>Mtype = mtype m, State = RESERVED, Pktid = PacketId m, Msgbuf = d, Ackbuf = [], OnComplete = None\<rparr>] \<and>
    processPublish E i m b =
      Some (unspecified (snd w),
        svc_upd i (\<lambda>s. s\<lparr>sv_wire := fst w\<rparr>) (sess_upd i (\<lambda>s. s\<lparr>ss_pub2in := q\<rparr>) (b\<lparr>bk_g := g\<rparr>)))"
proof -
  let ?M = "mqtt_ops (bk_g b)" and ?q = "ss_pub2in (sess_of i b)"
  have inv: "aq_inv ?q" using assms(1) by (simp add: sess_ok_def)
  have al: "topicAliceIn m (sess_of i b) = (m, sess_of i b, None)"
    using assms(6) by (simp add: topicAliceIn_def)
  have e: "m_encode ?M (MPublish m) = (d, None)" using assms(8) by (simp add: mqtt_ops_def)
  have dt: "mqtt_dyn (MPublish m) = PUBLISH" "PUBLISH \<noteq> PINGREQ" "PUBLISH \<noteq> SUBSCRIBE" "PUBLISH \<noteq> UNSUBSCRIBE"
    by (simp_all add: PUBLISH_def PINGREQ_def SUBSCRIBE_def UNSUBSCRIBE_def)
  obtain q where q: "aq_Wait ?M (MPublish m) None ?q = Some (None, q)" "aq_inv q"
    "aq_list q = waiting i b @ [new_ackmsg ?M (MPublish m) None]" "aq_ping q = aq_ping ?q"
    using aq_Wait_inv [OF inv, of ?M "MPublish m" None] assms(3,10) e dt
    by (auto simp: aq_view_def spec_Wait_def waiting_def qos_defs)
  have new: "new_ackmsg ?M (MPublish m) None =
    \<lparr>Mtype = mtype m, State = RESERVED, Pktid = PacketId m, Msgbuf = d, Ackbuf = [], OnComplete = None\<rparr>"
    using e by (simp add: new_ackmsg_def) (simp add: mqtt_ops_def)
  have "map_of (aq_emap ?q) (PacketId m) = None"
    using assms(10) inv aq_pid_known [of ?q "PacketId m"] by (simp add: aq_inv_def waiting_def)
  then have w: "queue_Wait (bk_g b) (MPublish m) None ?q = Some (None, g, MPublish m', q)"
    using q(1) assms(8) dt by (simp add: queue_Wait_def)
  define b2 where "b2 = sess_upd i (\<lambda>s. s\<lparr>ss_pub2in := q\<rparr>) (b\<lparr>bk_g := g\<rparr>)"
  have same: "sess_upd i (\<lambda>_. sess_of i b) b = b" by (simp add: svc_upd_def)
  have o: "sv_open (bk_svcs b2 i)" "sv_wire (bk_svcs b2 i) = sv_wire (bk_svcs b i)" using assms(2) by (simp_all add: b2_def)
  obtain r where r: "svc_write E i (MPubrec (SetPacketId (PacketId m) NewPubrecMessage)) b2 =
    Some (r, snd (ev_WritePkg E (0x50 # 2 # u16_bytes (PacketId m)) (sv_wire (bk_svcs b i))),
      svc_upd i (\<lambda>s. s\<lparr>sv_wire := fst (ev_WritePkg E (0x50 # 2 # u16_bytes (PacketId m)) (sv_wire (bk_svcs b i)))\<rparr>) b2)"
    using write_bare_ack [OF o(1) assms(7), of MPubrec NewPubrecMessage E] by (auto simp: o(2) new_acks)
  have "QoS m = 2" "\<not> ev_MaxQos E < 2" using assms(3,4) by (simp_all add: qos_defs)
  then have p: "processPublish E i m b =
    Some (unspecified (snd (ev_WritePkg E (0x50 # 2 # u16_bytes (PacketId m)) (sv_wire (bk_svcs b i)))),
      svc_upd i (\<lambda>s. s\<lparr>sv_wire := fst (ev_WritePkg E (0x50 # 2 # u16_bytes (PacketId m)) (sv_wire (bk_svcs b i)))\<rparr>) b2)"
    using assms(5) w r by (auto simp: processPublish_def al Let_def qos_defs assms(9) same b2_def)
  show ?thesis using q(2-4) p by (intro exI [of _ q]) (simp add: new w_def b2_def)
qed

section \<open>A publication to run\<close>

definition sample_pub :: publish where
  "sample_pub = \<lparr>remlen = 0, mtypeflags = [0x34], packetId = [1, 2], dbuf = Slice [] [], dirty = True,
     topic = [97, 47, 98], propertiesLen = 0, payloadFormatIndicator = 0, messageExpiryInterval = 0, topicAlias = 0,
     responseTopic = [], correlationData = [], pubUserProperty = [], subscriptionIdentifier = 0,
     contentType = [], payload = [104, 105]\<rparr>"

lemma sample_pub_fields: "mtype sample_pub = PUBLISH" "flags_ok sample_pub" "QoS sample_pub = QosExactlyOnce" "PacketId sample_pub = 258"
  "Retain sample_pub = False" "ValidTopic (topic sample_pub)" "Publish.sub_id_sent sample_pub = False" "payload_clear sample_pub"
  by code_simp+

lemma sample_pub_len: "pub_props sample_pub = []" "pub_remlen sample_pub = 10"
proof -
  show p: "pub_props sample_pub = []"
    by (simp add: pub_props_def sample_pub_fields) (simp add: sample_pub_def)
  show "pub_remlen sample_pub = 10"
    by (simp add: pub_remlen_def p sample_pub_fields qos_defs) (simp add: sample_pub_def lb_wire.simps [of 0])
qed

lemma sample_pub_ok: "pub_ok sample_pub"
  by (simp add: pub_ok_def sample_pub_fields sample_pub_len) (simp add: sample_pub_def short_def)

lemma sample_pub_enc: "enc 0 (MPublish sample_pub) = Some (0, MPublish (pub_built sample_pub), pub_wire sample_pub, length (pub_wire sample_pub), None)"
  by (intro enc_publish sample_pub_ok) (simp_all add: id_ok_def assign_id_def sample_pub_fields, simp add: sample_pub_def)

lemma sample_pub_decoded: "\<exists>m. pub_Decode (Slice (pub_wire sample_pub) []) NewPublishMessage = Ret m (length (pub_wire sample_pub)) \<and> topic m = [97, 47, 98]"
proof -
  have m0: "length (mtypeflags NewPublishMessage) = 1" "mtype NewPublishMessage = PUBLISH" "topicAlias NewPublishMessage = 0"
    by code_simp+
  show ?thesis
    using pub_Decode_wire [OF sample_pub_ok _ _ _ m0, of "[]"] by (simp add: sample_pub_fields) (simp add: sample_pub_def pub_received_def)
qed

lemma sample_queue: "aq_list (newAckqueue 2 :: unit ackqueue) = []" "aq_ping (newAckqueue 2 :: unit ackqueue) = no_ackmsg"
proof -
  have "aq_view (newAckqueue 2 :: unit ackqueue) = ([], no_ackmsg)" by (rule newAckqueue_inv(2)) simp_all
  then show "aq_list (newAckqueue 2 :: unit ackqueue) = []" "aq_ping (newAckqueue 2 :: unit ackqueue) = no_ackmsg"
    by (simp_all add: aq_view_def)
qed

lemma sample_waiting: "waiting 0 sample_broker = []" "aq_ping (ss_pub2in (sess_of 0 sample_broker)) = no_ackmsg"
  by (simp_all add: waiting_def sample_queue sample_broker_def sample_session_def)

lemma sample_publish:
  "\<exists>q. aq_inv q \<and> aq_ping q = no_ackmsg \<and>
     aq_list q = [\<lparr>Mtype = PUBLISH, State = RESERVED, Pktid = 258, Msgbuf = pub_wire sample_pub, Ackbuf = [], OnComplete = None\<rparr>] \<and>
     processPublish sample_env 0 sample_pub sample_broker =
      Some (None, svc_upd 0 (\<lambda>s. s\<lparr>sv_wire := [[0x50, 2, 1, 2]]\<rparr>) (sess_upd 0 (\<lambda>s. s\<lparr>ss_pub2in := q\<rparr>) sample_broker))"
proof -
  have s: "sess_ok (sess_of 0 sample_broker)" using sample_ok(1) by (simp add: broker_ok_def)
  have f: "sv_open (bk_svcs sample_broker 0)" "ev_MaxQos sample_env = 2" "bk_g sample_broker = 0" "sv_wire (bk_svcs sample_broker 0) = []"
    "ev_WritePkg sample_env = (\<lambda>d w. (w @ [d], None))" "topicAlias sample_pub = 0" "PacketId (pub_built sample_pub) = 258"
    "u16_bytes 258 = [1, 2]" "sample_broker\<lparr>bk_g := 0\<rparr> = sample_broker"
    by (simp_all add: sample_broker_def sample_env_def sample_pub_def pub_built_def PacketId_def) (code_simp+)?
  show ?thesis
    using publish2_result [OF s f(1), of sample_pub sample_env 0 "pub_built sample_pub" "pub_wire sample_pub" "length (pub_wire sample_pub)"]
    by (simp add: f sample_pub_fields sample_pub_enc sample_waiting unspecified_def)
qed

lemma sample_served:
  "\<exists>b. serve sample_env [Incoming 0 (MPublish sample_pub)] sample_broker = Some b \<and>
     waiting 0 b = [\<lparr>Mtype = PUBLISH, State = RESERVED, Pktid = 258, Msgbuf = pub_wire sample_pub, Ackbuf = [], OnComplete = None\<rparr>] \<and>
     aq_ping (ss_pub2in (sess_of 0 b)) = no_ackmsg \<and> bk_g b = 0"
proof -
  obtain q where q: "aq_ping q = no_ackmsg"
     "aq_list q = [\<lparr>Mtype = PUBLISH, State = RESERVED, Pktid = 258, Msgbuf = pub_wire sample_pub, Ackbuf = [], OnComplete = None\<rparr>]"
     "processPublish sample_env 0 sample_pub sample_broker =
      Some (None, svc_upd 0 (\<lambda>s. s\<lparr>sv_wire := [[0x50, 2, 1, 2]]\<rparr>) (sess_upd 0 (\<lambda>s. s\<lparr>ss_pub2in := q\<rparr>) sample_broker))"
    using sample_publish by blast
  have g: "bk_g (svc_upd i f b) = bk_g b" for i f and b :: "(bytes list, unit, unit) broker" by (simp add: svc_upd_def)
  show ?thesis
    by (simp add: q waiting_def g) (simp add: sample_broker_def)
qed

section \<open>Properties\<close>

text \<open>C1: QoS 2 publications are handed on exactly once and in order. Over any sequence of well-formed events
  that the broker serves, \<open>onPublish\<close> is called once for each released packet, when PUBREL releases it and
  before PUBCOMP is written; accepting a publication stores it and writes PUBREC, nothing else; and what a
  client had waiting followed by what was accepted from it is what was released followed by what still waits.
  A released packet that does not decode is skipped.\<close>

theorem qos2_conserved:
  assumes "broker_ok b" "\<forall>am\<in>set (waiting i b). entry_ok am" "\<forall>ev\<in>set evs. event_ok ev" "serve E evs b = Some b'"
  shows "\<exists>ds. qos2_run E i evs b ds b' \<and> map Msgbuf (waiting i b) @ accepted E i evs b = ds @ map Msgbuf (waiting i b')"
  using assms
proof (induction evs arbitrary: b)
  case (Cons ev evs)
  obtain b1 where b1: "serve_one E ev b = Some b1" "serve E evs b1 = Some b'"
    using Cons.prems(4) by (auto simp: bind_eq_Some_conv)
  have ok: "broker_ok b1" using sound.serve_one [OF b1(1) Cons.prems(1)] .
  have ev: "event_ok ev" "\<forall>ev\<in>set evs. event_ok ev" using Cons.prems(3) by simp_all
  note step = serve_one_step [OF Cons.prems(1) b1(1) ev(1) Cons.prems(2)]
    and entries = waiting_entries [OF Cons.prems(1) b1(1) ev(1) Cons.prems(2)]
  obtain ds where ds: "qos2_run E i evs b1 ds b'" "map Msgbuf (waiting i b1) @ accepted E i evs b1 = ds @ map Msgbuf (waiting i b')"
    using Cons.IH [OF ok entries ev(2) b1(2)] by blast
  obtain ds0 where "qos2_run E i (ev # evs) b (ds0 @ ds) b'"
    "map Msgbuf (waiting i b) @ accepted_now E i ev b = ds0 @ map Msgbuf (waiting i b1)"
    using step [OF ds(1)] by blast
  then show ?case using b1(1) ds(2) by (intro exI [of _ "ds0 @ ds"]) (simp, metis append.assoc)
qed (auto intro: run_end)

lemma qos2_conserved_witness:
  "\<exists>b' ds. serve sample_env [Incoming 0 (MPublish sample_pub)] sample_broker = Some b' \<and> map Msgbuf (waiting 0 b') = [pub_wire sample_pub] \<and>
     qos2_run sample_env 0 [Incoming 0 (MPublish sample_pub)] sample_broker ds b' \<and>
     accepted sample_env 0 [Incoming 0 (MPublish sample_pub)] sample_broker = ds @ map Msgbuf (waiting 0 b')"
proof -
  obtain b' where b': "serve sample_env [Incoming 0 (MPublish sample_pub)] sample_broker = Some b'"
    "waiting 0 b' = [\<lparr>Mtype = PUBLISH, State = RESERVED, Pktid = 258, Msgbuf = pub_wire sample_pub, Ackbuf = [], OnComplete = None\<rparr>]"
    using sample_served by blast
  have m: "map Msgbuf (waiting 0 b') = [pub_wire sample_pub]" by (simp add: b'(2))
  have h: "\<forall>am\<in>set (waiting 0 sample_broker). entry_ok am" "\<forall>ev\<in>set [Incoming 0 (MPublish sample_pub)]. event_ok ev"
    by (simp_all add: sample_waiting sample_pub_fields)
  show ?thesis using qos2_conserved [OF sample_ok(1) h b'(1)] m b'(1) by (auto simp: sample_waiting)
qed

text \<open>C9: A QoS 2 publication that the configuration allows and that can be stored is appended to the waiting
  messages of its client and answered with PUBREC; nothing is published, and no other service changes.\<close>

theorem qos2_accepted:
  assumes "sess_ok (sess_of i b)" "sv_open (bk_svcs b i)" "QoS m = QosExactlyOnce" "2 \<le> ev_MaxQos E"
    "\<not> Retain m \<or> ev_RetainAvailable E" "topicAlias m = 0" "PacketId m \<noteq> 0"
    "enc (bk_g b) (MPublish m) = Some (g, MPublish m', d, n, None)" "PacketId m' = PacketId m"
    "PacketId m \<notin> Pktid ` set (waiting i b)"
  shows "\<exists>b'. processIncoming E i (MPublish m) b =
      Some (unspecified (snd (ev_WritePkg E (0x50 # 2 # u16_bytes (PacketId m)) (sv_wire (bk_svcs b i)))), b') \<and>
    waiting i b' = waiting i b @
      [\<lparr>Mtype = mtype m, State = RESERVED, Pktid = PacketId m, Msgbuf = d, Ackbuf = [], OnComplete = None\<rparr>] \<and>
    sv_wire (bk_svcs b' i) = fst (ev_WritePkg E (0x50 # 2 # u16_bytes (PacketId m)) (sv_wire (bk_svcs b i))) \<and>
    bk_tm b' = bk_tm b \<and> bk_tasks b' = bk_tasks b \<and> (\<forall>j. j \<noteq> i \<longrightarrow> bk_svcs b' j = bk_svcs b j)"
  using publish2_result [OF assms] by (auto simp: waiting_def svc_upd_def)

lemma qos2_accepted_witness:
  "\<exists>b'. processIncoming sample_env 0 (MPublish sample_pub) sample_broker = Some (None, b') \<and>
     map Msgbuf (waiting 0 b') = [pub_wire sample_pub] \<and> sv_wire (bk_svcs b' 0) = [[0x50, 2, 1, 2]] \<and> bk_tasks b' = []"
proof -
  have s: "sess_ok (sess_of 0 sample_broker)" using sample_ok(1) by (simp add: broker_ok_def)
  have f: "sv_open (bk_svcs sample_broker 0)" "2 \<le> ev_MaxQos sample_env" "bk_g sample_broker = 0" "sv_wire (bk_svcs sample_broker 0) = []"
    "ev_WritePkg sample_env = (\<lambda>d w. (w @ [d], None))" "topicAlias sample_pub = 0" "PacketId (pub_built sample_pub) = 258"
    "u16_bytes 258 = [1, 2]" "bk_tasks sample_broker = []"
    by (simp_all add: sample_broker_def sample_env_def sample_pub_def pub_built_def PacketId_def) (code_simp+)?
  show ?thesis
    using qos2_accepted [OF s f(1), of sample_pub sample_env 0 "pub_built sample_pub" "pub_wire sample_pub" "length (pub_wire sample_pub)"]
    by (auto simp: f sample_pub_fields sample_pub_enc sample_waiting unspecified_def)
qed

text \<open>C10: PUBREL of the oldest waiting publication takes it out of the queue, publishes the message its packet
  decodes to, and answers with PUBCOMP.\<close>

theorem qos2_released:
  assumes "sess_ok (sess_of i b)" "waiting i b = am # rest" "rest = [] \<or> State (hd rest) \<notin> done_types"
    "Mtype am = PUBLISH" "pub_Decode (Slice (Msgbuf am) []) NewPublishMessage = Ret pm n"
    "mtype r = PUBREL" "PacketId r = Pktid am" "enc (bk_g b) (MPubrel r) = Some (g, MPubrel r', d, k, None)"
    "PubrelDecode (Slice d []) NewPubrelMessage = Ret r2 k2" "State (aq_ping (ss_pub2in (sess_of i b))) \<noteq> PINGRESP"
  shows "\<exists>b1. processIncoming E i (MPubrel r) b =
      do { (e, b2) \<leftarrow> onPublish E i pm b1;
           write_answer E i (MPubcomp (SetPacketId (Pktid am) NewPubcompMessage)) b2 } \<and>
    waiting i b1 = rest \<and> bk_tm b1 = bk_tm b \<and> bk_tasks b1 = bk_tasks b \<and> (\<forall>j. j \<noteq> i \<longrightarrow> bk_svcs b1 j = bk_svcs b j)"
proof -
  let ?M = "mqtt_ops (bk_g b)" and ?q = "ss_pub2in (sess_of i b)"
  let ?am = "am\<lparr>State := PUBREL, Ackbuf := d\<rparr>"
  have inv: "aq_inv ?q" using assms(1) by (simp add: sess_ok_def)
  have e: "m_encode ?M (MPubrel r) = (d, None)" "m_type ?M (MPubrel r) = PUBREL" "m_pid ?M (MPubrel r) = Pktid am"
    using assms(6-8) by (simp_all add: mqtt_ops_def)
  have "aq_ok ?q" using inv by (simp add: aq_inv_def)
  then have dist: "Pktid am \<notin> Pktid ` set rest" using aq_okD(5) [of ?q] assms(2) by (simp add: waiting_def)
  have acks: "PUBREL \<in> ack_types" "PUBREL \<in> done_types"
    by (simp_all add: ack_types_def done_types_def)
  obtain q where q: "aq_Ack ?M (MPubrel r) ?q = Some (None, q)" "aq_inv q" "aq_list q = ?am # rest" "aq_ping q = aq_ping ?q"
    using aq_Ack_inv [OF inv, of ?M "MPubrel r"] assms(2) acks(1)
      map_no_update [OF dist, of "\<lambda>x. x\<lparr>State := m_type ?M (MPubrel r), Ackbuf := fst (m_encode ?M (MPubrel r))\<rparr>"]
    by (auto simp: aq_view_def spec_Ack_def waiting_def e)
  let ?b = "sess_upd i (\<lambda>s. s\<lparr>ss_pub2in := q\<rparr>) b"
  have ack: "ack_queue_msg i l_pub2in (MPubrel r) b = Some (None, ?b)"
    using q(1) assms(8) by (simp add: ack_queue_msg_def queue_Ack_def l_pub2in_def)
  have tw: "takeWhile (\<lambda>x. State x \<in> done_types) (?am # rest) = [?am]"
    "dropWhile (\<lambda>x. State x \<in> done_types) (?am # rest) = rest"
    using acks(2) assms(3) by (cases rest; simp)+
  obtain q2 where acked: "aq_Acked q = Some ([?am], q2)" "aq_list q2 = rest"
    using aq_Acked_inv [OF q(2)] q(3,4) tw assms(10) by (auto simp: aq_view_def spec_Acked_def Let_def)
  define b1 where "b1 = sess_upd i (\<lambda>s. s\<lparr>ss_pub2in := q2\<rparr>) ?b"
  have pa: "processAcked E i l_pub2in ?b = acked_all E i [?am] b1"
    using acked(1) by (simp add: processAcked_def l_pub2in_def b1_def)
  have types: "PUBLISH \<noteq> PINGREQ" "PUBREL \<noteq> PINGRESP" "PUBREL \<noteq> PUBLISH" "PUBREL \<noteq> PUBACK" "PUBREL \<noteq> PUBREC"
    by (simp_all add: PUBLISH_def PINGREQ_def PINGRESP_def PUBREL_def PUBACK_def PUBREC_def)
  have "decode_as (Mtype ?am) (Mtype ?am = PINGREQ) (Msgbuf ?am) = Some (Some (MPublish pm))"
    using assms(4,5) types by (simp add: decode_as_def mqtt_New.simps)
  moreover have "decode_as (State ?am) (State ?am = PINGRESP) (Ackbuf ?am) = Some (Some (MPubrel r2))"
    using assms(9) types by (simp add: decode_as_def mqtt_New.simps)
  ultimately have one: "acked_one E i ?am b1 = do { (e, b') \<leftarrow> onPublish E i pm b1; Some b' }"
    by (simp add: acked_one_def)
  have "processIncoming E i (MPubrel r) b =
      do { (e, b2) \<leftarrow> onPublish E i pm b1;
           write_answer E i (MPubcomp (SetPacketId (Pktid am) NewPubcompMessage)) b2 }"
    using ack by (simp add: pa one assms(7) Option.bind_assoc split_def)
  then show ?thesis
    by (intro exI [of _ b1]) (simp add: b1_def waiting_def acked(2) svc_upd_def)
qed

lemma qos2_released_witness:
  "\<exists>b b1 pm. serve sample_env [Incoming 0 (MPublish sample_pub)] sample_broker = Some b \<and>
     map Msgbuf (waiting 0 b) = [pub_wire sample_pub] \<and> topic pm = [97, 47, 98] \<and>
     processIncoming sample_env 0 (MPubrel (SetPacketId 258 NewPubrelMessage)) b =
       do { (e, b2) \<leftarrow> onPublish sample_env 0 pm b1;
            write_answer sample_env 0 (MPubcomp (SetPacketId 258 NewPubcompMessage)) b2 } \<and>
     waiting 0 b1 = []"
proof -
  let ?am = "\<lparr>Mtype = PUBLISH, State = RESERVED, Pktid = 258, Msgbuf = pub_wire sample_pub, Ackbuf = [], OnComplete = None :: unit option\<rparr>"
    and ?r = "SetPacketId 258 NewPubrelMessage"
  obtain b where b: "serve sample_env [Incoming 0 (MPublish sample_pub)] sample_broker = Some b" "waiting 0 b = [?am]"
    "aq_ping (ss_pub2in (sess_of 0 b)) = no_ackmsg" "bk_g b = 0"
    using sample_served by blast
  have ok: "sess_ok (sess_of 0 b)" using sound.served [OF b(1) sample_ok(1)] by (simp add: broker_ok_def)
  obtain pm where pm: "pub_Decode (Slice (pub_wire sample_pub) []) NewPublishMessage = Ret pm (length (pub_wire sample_pub))" "topic pm = [97, 47, 98]"
    using sample_pub_decoded by blast
  have r: "mtype ?r = PUBREL" "PacketId ?r = 258"
    "case PubrelDecode (Slice [0x62, 2, 1, 2] []) NewPubrelMessage of Ret r2 k \<Rightarrow> True | _ \<Rightarrow> False" by code_simp+
  have w: "ack_wire ?r = [0x62, 2, 1, 2]" using bare_ack(3) [of NewPubrelMessage 258] by (simp add: new_acks) (code_simp)?
  have e: "enc (bk_g b) (MPubrel ?r) = Some (0, MPubrel (ack_built ?r), ack_wire ?r, length (ack_wire ?r), None)"
    using enc_ack [OF bare_ack(1,2) [of NewPubrelMessage 258], of MPubrel] by (simp add: b(4))
  obtain r2 k where r2: "PubrelDecode (Slice (ack_wire ?r) []) NewPubrelMessage = Ret r2 k" using r(3) by (auto simp: w split: outcome.splits)
  have "State (aq_ping (ss_pub2in (sess_of 0 b))) \<noteq> PINGRESP" by (simp add: b(3) no_ackmsg_def PINGRESP_def)
  from qos2_released [where am = ?am and E = sample_env, OF ok b(2) _ _ _ r(1) _ e r2 this] pm b r(2) show ?thesis by auto
qed

end
