(* ===== verification/Connack.thy ===== *)
theory Connack
  imports Connect
begin

text \<open>
  CONNACK (\<open>corev5/v2/message/connack.go\<close>): the message, its setters, \<open>build\<close>, both encoders and the
  decoder, one definition for each property.
\<close>

section \<open>State\<close>

record connack = header +
  sessionPresent :: bool
  reasonCode :: byte
  propertiesLen :: u32
  sessionExpiryInterval :: u32
  receiveMaximum :: u16
  maxQos :: byte
  retainAvailable :: byte
  maxPacketSize :: u32
  assignedIdentifier :: bytes
  topicAliasMax :: u16
  reasonStr :: bytes
  userProperties :: "bytes list"
  wildcardSubscriptionAvailable :: byte
  subscriptionIdentifierAvailable :: byte
  sharedSubscriptionAvailable :: byte
  serverKeepAlive :: u16
  responseInformation :: bytes
  serverReference :: bytes
  authMethod :: bytes
  authData :: bytes

definition CONNACK :: byte where "CONNACK = 2"

definition AssignCustomerIdentifiers :: byte where "AssignCustomerIdentifiers = 0x12"
definition ServerSurvivalTime :: byte where "ServerSurvivalTime = 0x13"
definition SolicitedMessage :: byte where "SolicitedMessage = 0x1A"
definition ServerReference :: byte where "ServerReference = 0x1C"
definition MaximumQoS :: byte where "MaximumQoS = 0x24"
definition PreservePropertyAvailability :: byte where "PreservePropertyAvailability = 0x25"
definition WildcardSubscriptionAvailability :: byte where "WildcardSubscriptionAvailability = 0x28"
definition AvailabilityOfSubscriptionIdentifiers :: byte where "AvailabilityOfSubscriptionIdentifiers = 0x29"
definition SharedSubscriptionAvailability :: byte where "SharedSubscriptionAvailability = 0x2A"
definition UnsupportedWildcardSubscriptions :: byte where "UnsupportedWildcardSubscriptions = 0xA2"

definition ValidConnAckReasonCode :: "byte \<Rightarrow> bool" where
  "ValidConnAckReasonCode c \<longleftrightarrow>
     c \<in> {0x00, 0x80, 0x81, 0x82, 0x83, 0x84, 0x85, 0x86, 0x87, 0x88, 0x89, 0x8A, 0x8C, 0x90, 0x95, 0x97, 0x99, 0x9A,
          0x9B, 0x9C, 0x9D, 0x9F}"

definition SetSessionExpiryInterval :: "u32 \<Rightarrow> connack \<Rightarrow> connack" where "SetSessionExpiryInterval v m = m\<lparr>sessionExpiryInterval := v, dirty := True\<rparr>"
definition SetReceiveMaximum :: "u16 \<Rightarrow> connack \<Rightarrow> connack" where "SetReceiveMaximum v m = m\<lparr>receiveMaximum := v, dirty := True\<rparr>"
definition SetMaxQos :: "byte \<Rightarrow> connack \<Rightarrow> connack" where "SetMaxQos v m = m\<lparr>maxQos := v, dirty := True\<rparr>"
definition SetRetainAvailable :: "byte \<Rightarrow> connack \<Rightarrow> connack" where "SetRetainAvailable v m = m\<lparr>retainAvailable := v, dirty := True\<rparr>"
definition SetMaxPacketSize :: "u32 \<Rightarrow> connack \<Rightarrow> connack" where "SetMaxPacketSize v m = m\<lparr>maxPacketSize := v, dirty := True\<rparr>"
definition SetAssignedIdentifier :: "bytes \<Rightarrow> connack \<Rightarrow> connack" where "SetAssignedIdentifier v m = m\<lparr>assignedIdentifier := v, dirty := True\<rparr>"
definition SetTopicAliasMax :: "u16 \<Rightarrow> connack \<Rightarrow> connack" where "SetTopicAliasMax v m = m\<lparr>topicAliasMax := v, dirty := True\<rparr>"
definition SetReasonStr :: "bytes \<Rightarrow> connack \<Rightarrow> connack" where "SetReasonStr v m = m\<lparr>reasonStr := v, dirty := True\<rparr>"
definition SetWildcardSubscriptionAvailable :: "byte \<Rightarrow> connack \<Rightarrow> connack" where "SetWildcardSubscriptionAvailable v m = m\<lparr>wildcardSubscriptionAvailable := v, dirty := True\<rparr>"
definition SetSubscriptionIdentifierAvailable :: "byte \<Rightarrow> connack \<Rightarrow> connack" where "SetSubscriptionIdentifierAvailable v m = m\<lparr>subscriptionIdentifierAvailable := v, dirty := True\<rparr>"
definition SetSharedSubscriptionAvailable :: "byte \<Rightarrow> connack \<Rightarrow> connack" where "SetSharedSubscriptionAvailable v m = m\<lparr>sharedSubscriptionAvailable := v, dirty := True\<rparr>"
definition SetServerKeepAlive :: "u16 \<Rightarrow> connack \<Rightarrow> connack" where "SetServerKeepAlive v m = m\<lparr>serverKeepAlive := v, dirty := True\<rparr>"
definition SetResponseInformation :: "bytes \<Rightarrow> connack \<Rightarrow> connack" where "SetResponseInformation v m = m\<lparr>responseInformation := v, dirty := True\<rparr>"
definition SetServerReference :: "bytes \<Rightarrow> connack \<Rightarrow> connack" where "SetServerReference v m = m\<lparr>serverReference := v, dirty := True\<rparr>"
definition SetAuthMethod :: "bytes \<Rightarrow> connack \<Rightarrow> connack" where "SetAuthMethod v m = m\<lparr>authMethod := v, dirty := True\<rparr>"
definition SetAuthData :: "bytes \<Rightarrow> connack \<Rightarrow> connack" where "SetAuthData v m = m\<lparr>authData := v, dirty := True\<rparr>"
definition SetPropertiesLen :: "u32 \<Rightarrow> connack \<Rightarrow> connack" where "SetPropertiesLen v m = m\<lparr>propertiesLen := v, dirty := True\<rparr>"
definition SetUserProperties :: "bytes list \<Rightarrow> connack \<Rightarrow> connack" where "SetUserProperties v m = m\<lparr>userProperties := v, dirty := True\<rparr>"
definition SetSessionPresent :: "bool \<Rightarrow> connack \<Rightarrow> connack" where "SetSessionPresent v m = m\<lparr>sessionPresent := v, dirty := True\<rparr>"
definition SetReasonCode :: "byte \<Rightarrow> connack \<Rightarrow> connack" where "SetReasonCode v m = m\<lparr>reasonCode := v, dirty := True\<rparr>"

definition AddUserProperties :: "bytes list \<Rightarrow> connack \<Rightarrow> connack" where
  "AddUserProperties ups m = m\<lparr>userProperties := userProperties m @ ups, dirty := True\<rparr>"

definition AddUserProperty :: "bytes \<Rightarrow> connack \<Rightarrow> connack" where
  "AddUserProperty up m = m\<lparr>userProperties := userProperties m @ [up], dirty := True\<rparr>"

definition NewConnackMessage :: connack where
  "NewConnackMessage =
     SetMaxPacketSize 1024 (SetRetainAvailable 0x01
       (fst (SetType CONNACK \<lparr>remlen = 0, mtypeflags = [], packetId = [], dbuf = Slice [] [], dirty = False,
         sessionPresent = False, reasonCode = 0, propertiesLen = 0, sessionExpiryInterval = 0, receiveMaximum = 0,
         maxQos = 0, retainAvailable = 0, maxPacketSize = 0, assignedIdentifier = [], topicAliasMax = 0, reasonStr = [],
         userProperties = [], wildcardSubscriptionAvailable = 0, subscriptionIdentifierAvailable = 0,
         sharedSubscriptionAvailable = 0, serverKeepAlive = 0, responseInformation = [], serverReference = [],
         authMethod = [], authData = []\<rparr>)))"

section \<open>Encoding\<close>

definition ck_limited :: "connack \<Rightarrow> bool" where
  "ck_limited m \<longleftrightarrow> receiveMaximum m > 0 \<and> receiveMaximum m < 65535"

text \<open>The property length counts the maximum packet size where it is not 0; the encoders write it where it is not 1.\<close>

definition ck_plen :: "connack \<Rightarrow> nat" where
  "ck_plen m =
     (if sessionExpiryInterval m > 0 then 5 else 0) + (if ck_limited m then 3 else 0) + (if maxQos m > 0 then 2 else 0) +
     (if retainAvailable m \<noteq> 1 then 2 else 0) + (if maxPacketSize m > 0 then 5 else 0) + lp_len (assignedIdentifier m) +
     (if topicAliasMax m > 0 then 3 else 0) + lp_len (reasonStr m) + buildUserPropertyLen (userProperties m) +
     (if wildcardSubscriptionAvailable m \<noteq> 1 then 2 else 0) + (if subscriptionIdentifierAvailable m \<noteq> 1 then 2 else 0) +
     (if sharedSubscriptionAvailable m \<noteq> 1 then 2 else 0) + (if serverKeepAlive m > 0 then 3 else 0) +
     lp_len (responseInformation m) + lp_len (serverReference m) + lp_len (authMethod m) + lp_len (authData m)"

definition ck_build :: "connack \<Rightarrow> connack option" where
  "ck_build m0 =
     (let m = m0\<lparr>receiveMaximum := (if ck_limited m0 then receiveMaximum m0 else 65535), propertiesLen := word_of_nat (ck_plen m0)\<rparr>
      in case lbEncode (propertiesLen m) of
           None \<Rightarrow> None
         | Some b \<Rightarrow> Some (fst (SetRemainingLength (word_of_nat (1 + 1 + ck_plen m0 + length b)) m)))"

definition ck_Len :: "connack \<Rightarrow> (connack \<times> nat) option" where "ck_Len = plain_Len ck_build"

text \<open>The encoder into a slice leaves the byte of the flags as it is where no session is present.\<close>

definition w_skip :: "bytes \<Rightarrow> nat \<Rightarrow> bytes outcome" where "w_skip dst t = Ret dst (t + 1)"

definition ck_refuse :: "connack \<Rightarrow> bytes \<Rightarrow> nat \<Rightarrow> bytes outcome" where
  "ck_refuse m dst t =
     (if reasonCode m > UnsupportedWildcardSubscriptions then Fail dst (int t) (Errorf ''connack/Encode: Invalid CONNACK return code'')
      else Ret dst t)"

definition ck_w_props :: "connack \<Rightarrow> bytes \<Rightarrow> nat \<Rightarrow> bytes outcome" where
  "ck_w_props m =
     run [guarded (sessionExpiryInterval m > 0) (run [w_bytes [SessionExpirationInterval], w_bytes (u32_bytes (sessionExpiryInterval m))]),
          guarded (ck_limited m) (run [w_bytes [MaximumQuantityReceived], w_bytes (u16_bytes (receiveMaximum m))]),
          guarded (maxQos m > 0) (run [w_bytes [MaximumQoS], w_bytes [maxQos m]]),
          guarded (retainAvailable m \<noteq> 1) (run [w_bytes [PreservePropertyAvailability], w_bytes [retainAvailable m]]),
          guarded (maxPacketSize m \<noteq> 1) (run [w_bytes [MaximumMessageLength], w_bytes (u32_bytes (maxPacketSize m))]),
          guarded (length (assignedIdentifier m) > 0) (run [w_bytes [AssignCustomerIdentifiers], writeLPBytes (assignedIdentifier m)]),
          guarded (topicAliasMax m > 0) (run [w_bytes [MaximumLengthOfTopicAlias], w_bytes (u16_bytes (topicAliasMax m))]),
          guarded (length (reasonStr m) > 0) (run [w_bytes [ReasonString], writeLPBytes (reasonStr m)]),
          ignore_err (writeUserProperty (userProperties m)),
          guarded (wildcardSubscriptionAvailable m \<noteq> 1) (run [w_bytes [WildcardSubscriptionAvailability], w_bytes [wildcardSubscriptionAvailable m]]),
          guarded (subscriptionIdentifierAvailable m \<noteq> 1) (run [w_bytes [AvailabilityOfSubscriptionIdentifiers], w_bytes [subscriptionIdentifierAvailable m]]),
          guarded (sharedSubscriptionAvailable m \<noteq> 1) (run [w_bytes [SharedSubscriptionAvailability], w_bytes [sharedSubscriptionAvailable m]]),
          guarded (serverKeepAlive m > 0) (run [w_bytes [ServerSurvivalTime], w_bytes (u16_bytes (serverKeepAlive m))]),
          guarded (length (responseInformation m) > 0) (run [w_bytes [SolicitedMessage], writeLPBytes (responseInformation m)]),
          guarded (length (serverReference m) > 0) (run [w_bytes [ServerReference], writeLPBytes (serverReference m)]),
          guarded (length (authMethod m) > 0) (run [w_bytes [AuthenticationMethod], writeLPBytes (authMethod m)]),
          guarded (length (authData m) > 0) (run [w_bytes [AuthenticationData], writeLPBytes (authData m)])]"

definition ck_b_props :: "connack \<Rightarrow> bytes \<Rightarrow> nat \<Rightarrow> bytes outcome" where
  "ck_b_props m =
     run [guarded (sessionExpiryInterval m > 0) (run [b_bytes [SessionExpirationInterval], b_bytes (u32_bytes (sessionExpiryInterval m))]),
          guarded (ck_limited m) (run [b_bytes [MaximumQuantityReceived], b_bytes (u16_bytes (receiveMaximum m))]),
          guarded (maxQos m > 0) (run [b_bytes [MaximumQoS], b_bytes [maxQos m]]),
          guarded (retainAvailable m \<noteq> 1) (run [b_bytes [PreservePropertyAvailability], b_bytes [retainAvailable m]]),
          guarded (maxPacketSize m \<noteq> 1) (run [b_bytes [MaximumMessageLength], b_bytes (u32_bytes (maxPacketSize m))]),
          guarded (length (assignedIdentifier m) > 0) (run [b_bytes [AssignCustomerIdentifiers], writeToBufLPBytes (assignedIdentifier m)]),
          guarded (topicAliasMax m > 0) (run [b_bytes [MaximumLengthOfTopicAlias], b_bytes (u16_bytes (topicAliasMax m))]),
          guarded (length (reasonStr m) > 0) (run [b_bytes [ReasonString], writeToBufLPBytes (reasonStr m)]),
          writeUserPropertyByBuf (userProperties m),
          guarded (wildcardSubscriptionAvailable m \<noteq> 1) (run [b_bytes [WildcardSubscriptionAvailability], b_bytes [wildcardSubscriptionAvailable m]]),
          guarded (subscriptionIdentifierAvailable m \<noteq> 1) (run [b_bytes [AvailabilityOfSubscriptionIdentifiers], b_bytes [subscriptionIdentifierAvailable m]]),
          guarded (sharedSubscriptionAvailable m \<noteq> 1) (run [b_bytes [SharedSubscriptionAvailability], b_bytes [sharedSubscriptionAvailable m]]),
          guarded (serverKeepAlive m > 0) (run [b_bytes [ServerSurvivalTime], b_bytes (u16_bytes (serverKeepAlive m))]),
          guarded (length (responseInformation m) > 0) (run [b_bytes [SolicitedMessage], writeToBufLPBytes (responseInformation m)]),
          guarded (length (serverReference m) > 0) (run [b_bytes [ServerReference], writeToBufLPBytes (serverReference m)]),
          guarded (length (authMethod m) > 0) (run [b_bytes [AuthenticationMethod], writeToBufLPBytes (authMethod m)]),
          guarded (length (authData m) > 0) (run [b_bytes [AuthenticationData], writeToBufLPBytes (authData m)])]"

definition ck_w :: "connack \<Rightarrow> bytes \<Rightarrow> nat \<Rightarrow> bytes outcome" where
  "ck_w m = run [if sessionPresent m then w_bytes [1] else w_skip, ck_refuse m, w_bytes [reasonCode m], w_lb (propertiesLen m), ck_w_props m]"

definition ck_b :: "connack \<Rightarrow> bytes \<Rightarrow> nat \<Rightarrow> bytes outcome" where
  "ck_b m = run [b_bytes [if sessionPresent m then 1 else 0], ck_refuse m, b_bytes [reasonCode m], b_lb (propertiesLen m), ck_b_props m]"

definition ck_Encode :: "connack \<Rightarrow> bytes \<Rightarrow> connack \<times> bytes outcome" where
  "ck_Encode m dst =
     (if \<not> dirty m then
        (m, if length dst < slen (dbuf m) then Fail dst 0 (Errorf ''connack/Encode: Insufficient buffer size.'')
            else w_copy (vis (dbuf m)) dst 0)
      else case ck_build m of
        None \<Rightarrow> (m, Panic)
      | Some m1 \<Rightarrow>
        (if length dst < hmsglen m1 + unat (remlen m1) then (m1, Fail dst 0 (Errorf ''connack/Encode: Insufficient buffer size.''))
         else case SetRemainingLength (remlen m1) m1 of
           (m2, Some e) \<Rightarrow> (m2, Fail dst 0 e)
         | (m2, None) \<Rightarrow>
           (case hencode m2 dst 0 of
              (m3, Ret d t) \<Rightarrow> (m3, ck_w m3 d t)
            | (m3, Fail d t e) \<Rightarrow> (m3, Fail d 0 e)
            | (m3, Panic) \<Rightarrow> (m3, Panic))))"

definition ck_EncodeToBuf :: "connack \<Rightarrow> bytes \<Rightarrow> connack \<times> bytes outcome" where
  "ck_EncodeToBuf m buf =
     (if \<not> dirty m then (m, Ret (buf @ vis (dbuf m)) (slen (dbuf m)))
      else case ck_build m of
        None \<Rightarrow> (m, Panic)
      | Some m1 \<Rightarrow>
        (case SetRemainingLength (remlen m1) m1 of
           (m2, Some e) \<Rightarrow> (m2, Fail buf 0 e)
         | (m2, None) \<Rightarrow>
           (case hencodeToBuf m2 buf of
              (m3, Ret d t) \<Rightarrow> (m3, ck_b m3 d t)
            | (m3, Fail d t e) \<Rightarrow> (m3, Fail d 0 e)
            | (m3, Panic) \<Rightarrow> (m3, Panic))))"

section \<open>Decoding\<close>

definition ca_flags :: "slice \<Rightarrow> connack \<Rightarrow> nat \<Rightarrow> connack outcome" where
  "ca_flags src m t =
     (case sat src t of
        None \<Rightarrow> Panic
      | Some c \<Rightarrow> if c AND 254 \<noteq> 0 then Fail m 0 (Reason ProtocolError) else Ret (m\<lparr>sessionPresent := (c AND 1 = 1)\<rparr>) (t + 1))"

definition ca_reason :: "slice \<Rightarrow> connack \<Rightarrow> nat \<Rightarrow> connack outcome" where
  "ca_reason src m t =
     (case sat src t of
        None \<Rightarrow> Panic
      | Some c \<Rightarrow>
          if c > UnsupportedWildcardSubscriptions then Fail m 0 (Reason ProtocolError)
          else if \<not> ValidConnAckReasonCode c then Fail (m\<lparr>reasonCode := c\<rparr>) (int (t + 1)) (Reason ProtocolError)
          else Ret (m\<lparr>reasonCode := c\<rparr>) (t + 1))"

definition ca_start :: "slice \<Rightarrow> connack \<Rightarrow> nat \<Rightarrow> connack outcome" where
  "ca_start src = run [ca_flags src, ca_reason src, \<lambda>m t. assign (read_lb src t) (\<lambda>v. propertiesLen_update (\<lambda>_. v)) m t]"

definition ca_sessionExpiryInterval :: "slice \<Rightarrow> connack \<Rightarrow> nat \<Rightarrow> connack outcome" where
  "ca_sessionExpiryInterval src =
     prop_at src SessionExpirationInterval
       (run [\<lambda>m t. assign (rd_u32 src t) (\<lambda>v. sessionExpiryInterval_update (\<lambda>_. v)) m t,
             reject (again SessionExpirationInterval) src])"

definition ca_receiveMaximum :: "slice \<Rightarrow> connack \<Rightarrow> nat \<Rightarrow> connack outcome" where
  "ca_receiveMaximum src =
     prop_or src MaximumQuantityReceived
       (run [\<lambda>m t. assign (rd_u16 src t) (\<lambda>v. receiveMaximum_update (\<lambda>_. v)) m t,
             reject (\<lambda>src m t. receiveMaximum m = 0 \<or> again MaximumQuantityReceived src m t) src])
       (\<lambda>m. m\<lparr>receiveMaximum := 65535\<rparr>)"

definition ca_maxQos :: "slice \<Rightarrow> connack \<Rightarrow> nat \<Rightarrow> connack outcome" where
  "ca_maxQos src =
     prop_or src MaximumQoS
       (run [\<lambda>m t. assign (rd_u8 src t) (\<lambda>v. maxQos_update (\<lambda>_. v)) m t,
             reject (\<lambda>src m t. maxQos m > 2 \<or> again MaximumQoS src m t) src])
       (\<lambda>m. m\<lparr>maxQos := 2\<rparr>)"

definition ca_retainAvailable :: "slice \<Rightarrow> connack \<Rightarrow> nat \<Rightarrow> connack outcome" where
  "ca_retainAvailable src =
     prop_or src PreservePropertyAvailability
       (run [\<lambda>m t. assign (rd_u8 src t) (\<lambda>v. retainAvailable_update (\<lambda>_. v)) m t,
             reject (\<lambda>src m t. retainAvailable m \<noteq> 0 \<and> retainAvailable m \<noteq> 1 \<or> again PreservePropertyAvailability src m t) src])
       (\<lambda>m. m\<lparr>retainAvailable := 1\<rparr>)"

definition ca_maxPacketSize :: "slice \<Rightarrow> connack \<Rightarrow> nat \<Rightarrow> connack outcome" where
  "ca_maxPacketSize src =
     prop_at src MaximumMessageLength
       (run [\<lambda>m t. assign (rd_u32 src t) (\<lambda>v. maxPacketSize_update (\<lambda>_. v)) m t,
             reject (\<lambda>src m t. maxPacketSize m = 0 \<or> again MaximumMessageLength src m t) src])"

definition ca_assignedIdentifier :: "slice \<Rightarrow> connack \<Rightarrow> nat \<Rightarrow> connack outcome" where
  "ca_assignedIdentifier src =
     prop_at src AssignCustomerIdentifiers
       (run [\<lambda>m t. assign (read_lp src t) (\<lambda>v. assignedIdentifier_update (\<lambda>_. v)) m t,
             stop ProtocolError (again AssignCustomerIdentifiers) src])"

definition ca_topicAliasMax :: "slice \<Rightarrow> connack \<Rightarrow> nat \<Rightarrow> connack outcome" where
  "ca_topicAliasMax src =
     prop_at src MaximumLengthOfTopicAlias
       (run [\<lambda>m t. assign (rd_u16 src t) (\<lambda>v. topicAliasMax_update (\<lambda>_. v)) m t,
             reject (again MaximumLengthOfTopicAlias) src])"

definition ca_reasonStr :: "slice \<Rightarrow> connack \<Rightarrow> nat \<Rightarrow> connack outcome" where
  "ca_reasonStr src =
     prop_at src ReasonString
       (run [\<lambda>m t. assign (read_lp src t) (\<lambda>v. reasonStr_update (\<lambda>_. v)) m t,
             stop ProtocolError (again ReasonString) src])"

definition ca_userProperties :: "slice \<Rightarrow> connack \<Rightarrow> nat \<Rightarrow> connack outcome" where
  "ca_userProperties src m t = assign (read_up src t) (\<lambda>v. userProperties_update (\<lambda>_. v)) m t"

definition ca_wildcard :: "slice \<Rightarrow> connack \<Rightarrow> nat \<Rightarrow> connack outcome" where
  "ca_wildcard src =
     prop_or src WildcardSubscriptionAvailability
       (run [\<lambda>m t. assign (rd_u8 src t) (\<lambda>v. wildcardSubscriptionAvailable_update (\<lambda>_. v)) m t,
             reject (\<lambda>src m t. wildcardSubscriptionAvailable m \<noteq> 0 \<and> wildcardSubscriptionAvailable m \<noteq> 1 \<or> again WildcardSubscriptionAvailability src m t) src])
       (\<lambda>m. m\<lparr>wildcardSubscriptionAvailable := 1\<rparr>)"

definition ca_subIdentifier :: "slice \<Rightarrow> connack \<Rightarrow> nat \<Rightarrow> connack outcome" where
  "ca_subIdentifier src =
     prop_or src AvailabilityOfSubscriptionIdentifiers
       (run [\<lambda>m t. assign (rd_u8 src t) (\<lambda>v. subscriptionIdentifierAvailable_update (\<lambda>_. v)) m t,
             reject (\<lambda>src m t. subscriptionIdentifierAvailable m \<noteq> 0 \<and> subscriptionIdentifierAvailable m \<noteq> 1 \<or> again AvailabilityOfSubscriptionIdentifiers src m t) src])
       (\<lambda>m. m\<lparr>subscriptionIdentifierAvailable := 1\<rparr>)"

text \<open>Where the property is absent, the default goes to the field of the subscription identifiers.\<close>

definition ca_shared :: "slice \<Rightarrow> connack \<Rightarrow> nat \<Rightarrow> connack outcome" where
  "ca_shared src =
     prop_or src SharedSubscriptionAvailability
       (run [\<lambda>m t. assign (rd_u8 src t) (\<lambda>v. sharedSubscriptionAvailable_update (\<lambda>_. v)) m t,
             reject (\<lambda>src m t. sharedSubscriptionAvailable m \<noteq> 0 \<and> sharedSubscriptionAvailable m \<noteq> 1 \<or> again SharedSubscriptionAvailability src m t) src])
       (\<lambda>m. m\<lparr>subscriptionIdentifierAvailable := 1\<rparr>)"

text \<open>The decoder moves by one byte over the two bytes of the keep alive time.\<close>

definition ca_serverKeepAlive :: "slice \<Rightarrow> connack \<Rightarrow> nat \<Rightarrow> connack outcome" where
  "ca_serverKeepAlive src =
     prop_at src ServerSurvivalTime
       (run [\<lambda>m t. case rd_u16 src t of None \<Rightarrow> Panic | Some (v, n, e) \<Rightarrow> Ret (m\<lparr>serverKeepAlive := v\<rparr>) (t + 1),
             reject (again ServerSurvivalTime) src])"

definition ca_responseInformation :: "slice \<Rightarrow> connack \<Rightarrow> nat \<Rightarrow> connack outcome" where
  "ca_responseInformation src =
     prop_at src SolicitedMessage
       (run [\<lambda>m t. assign (read_lp src t) (\<lambda>v. responseInformation_update (\<lambda>_. v)) m t,
             stop ProtocolError (again SolicitedMessage) src])"

definition ca_serverReference :: "slice \<Rightarrow> connack \<Rightarrow> nat \<Rightarrow> connack outcome" where
  "ca_serverReference src =
     prop_at src ServerReference
       (run [\<lambda>m t. assign (read_lp src t) (\<lambda>v. serverReference_update (\<lambda>_. v)) m t,
             stop ProtocolError (again ServerReference) src])"

definition ca_authMethod :: "slice \<Rightarrow> connack \<Rightarrow> nat \<Rightarrow> connack outcome" where
  "ca_authMethod src =
     prop_at src AuthenticationMethod
       (run [\<lambda>m t. assign (read_lp src t) (\<lambda>v. authMethod_update (\<lambda>_. v)) m t,
             stop ProtocolError (again AuthenticationMethod) src])"

definition ca_authData :: "slice \<Rightarrow> connack \<Rightarrow> nat \<Rightarrow> connack outcome" where
  "ca_authData src =
     prop_at src AuthenticationData
       (run [\<lambda>m t. assign (read_lp src t) (\<lambda>v. authData_update (\<lambda>_. v)) m t,
             stop ProtocolError (again AuthenticationData) src])"

definition ca_props :: "slice \<Rightarrow> connack \<Rightarrow> nat \<Rightarrow> connack outcome" where
  "ca_props src =
     run [ca_sessionExpiryInterval src, ca_receiveMaximum src, ca_maxQos src, ca_retainAvailable src, ca_maxPacketSize src,
          ca_assignedIdentifier src, ca_topicAliasMax src, ca_reasonStr src, ca_userProperties src, ca_wildcard src,
          ca_subIdentifier src, ca_shared src, ca_serverKeepAlive src, ca_responseInformation src, ca_serverReference src,
          ca_authMethod src, ca_authData src]"

definition ck_Decode :: "slice \<Rightarrow> connack \<Rightarrow> connack outcome" where
  "ck_Decode src m =
     (case hdecode src m of
        Ret m1 hn \<Rightarrow>
          (case run [ca_start src, ca_props src] m1 hn of Ret m2 t \<Rightarrow> Ret (m2\<lparr>dirty := False\<rparr>) t | r \<Rightarrow> r)
      | r \<Rightarrow> r)"

section \<open>The packet a message stands for\<close>

definition ck_props :: "connack \<Rightarrow> bytes" where
  "ck_props m =
     (if sessionExpiryInterval m > 0 then SessionExpirationInterval # u32_bytes (sessionExpiryInterval m) else []) @
     (if ck_limited m then MaximumQuantityReceived # u16_bytes (receiveMaximum m) else []) @
     (if maxQos m > 0 then MaximumQoS # [maxQos m] else []) @
     (if retainAvailable m \<noteq> 1 then PreservePropertyAvailability # [retainAvailable m] else []) @
     (if maxPacketSize m \<noteq> 1 then MaximumMessageLength # u32_bytes (maxPacketSize m) else []) @
     (if length (assignedIdentifier m) > 0 then AssignCustomerIdentifiers # lp_wire (assignedIdentifier m) else []) @
     (if topicAliasMax m > 0 then MaximumLengthOfTopicAlias # u16_bytes (topicAliasMax m) else []) @
     (if length (reasonStr m) > 0 then ReasonString # lp_wire (reasonStr m) else []) @
     up_wire (userProperties m) @
     (if wildcardSubscriptionAvailable m \<noteq> 1 then WildcardSubscriptionAvailability # [wildcardSubscriptionAvailable m] else []) @
     (if subscriptionIdentifierAvailable m \<noteq> 1 then AvailabilityOfSubscriptionIdentifiers # [subscriptionIdentifierAvailable m] else []) @
     (if sharedSubscriptionAvailable m \<noteq> 1 then SharedSubscriptionAvailability # [sharedSubscriptionAvailable m] else []) @
     (if serverKeepAlive m > 0 then ServerSurvivalTime # u16_bytes (serverKeepAlive m) else []) @
     (if length (responseInformation m) > 0 then SolicitedMessage # lp_wire (responseInformation m) else []) @
     (if length (serverReference m) > 0 then ServerReference # lp_wire (serverReference m) else []) @
     (if length (authMethod m) > 0 then AuthenticationMethod # lp_wire (authMethod m) else []) @
     (if length (authData m) > 0 then AuthenticationData # lp_wire (authData m) else [])"

definition ck_body :: "connack \<Rightarrow> bytes" where
  "ck_body m = [if sessionPresent m then 1 else 0, reasonCode m] @ lb_wire (ck_plen m) @ ck_props m"

definition ck_built :: "connack \<Rightarrow> connack" where
  "ck_built m =
     m\<lparr>receiveMaximum := (if ck_limited m then receiveMaximum m else 65535), propertiesLen := word_of_nat (ck_plen m),
       remlen := word_of_nat (length (ck_body m)), dirty := True\<rparr>"

definition ck_wire :: "connack \<Rightarrow> bytes" where "ck_wire m = header_wire (ck_built m) @ ck_body m"

text \<open>A maximum packet size of 0 or 1 is counted and not written, or written and not counted.\<close>

definition ck_ok :: "connack \<Rightarrow> bool" where
  "ck_ok m \<longleftrightarrow>
     length (mtypeflags m) = 1 \<and> mtype m = CONNACK \<and> flags_ok m \<and> maxPacketSize m > 1 \<and>
     reasonCode m \<le> UnsupportedWildcardSubscriptions \<and>
     list_all short [assignedIdentifier m, reasonStr m, responseInformation m, serverReference m, authMethod m, authData m] \<and>
     list_all short (userProperties m) \<and> length (ck_body m) \<le> 268435455"

text \<open>The encoder as it is on a slice of zeros.\<close>

definition ck_w0 :: "connack \<Rightarrow> bytes \<Rightarrow> nat \<Rightarrow> bytes outcome" where
  "ck_w0 m = run [w_bytes [if sessionPresent m then 1 else 0], ck_refuse m, w_bytes [reasonCode m], w_lb (propertiesLen m), ck_w_props m]"

lemma ck_built_frame [simp]:
  "mtypeflags (ck_built m) = mtypeflags m" "dirty (ck_built m)" "sessionPresent (ck_built m) = sessionPresent m"
  "reasonCode (ck_built m) = reasonCode m" "sessionExpiryInterval (ck_built m) = sessionExpiryInterval m"
  "maxQos (ck_built m) = maxQos m" "retainAvailable (ck_built m) = retainAvailable m"
  "maxPacketSize (ck_built m) = maxPacketSize m" "assignedIdentifier (ck_built m) = assignedIdentifier m"
  "topicAliasMax (ck_built m) = topicAliasMax m" "reasonStr (ck_built m) = reasonStr m"
  "userProperties (ck_built m) = userProperties m"
  "wildcardSubscriptionAvailable (ck_built m) = wildcardSubscriptionAvailable m"
  "subscriptionIdentifierAvailable (ck_built m) = subscriptionIdentifierAvailable m"
  "sharedSubscriptionAvailable (ck_built m) = sharedSubscriptionAvailable m" "serverKeepAlive (ck_built m) = serverKeepAlive m"
  "responseInformation (ck_built m) = responseInformation m" "serverReference (ck_built m) = serverReference m"
  "authMethod (ck_built m) = authMethod m" "authData (ck_built m) = authData m" "ck_limited (ck_built m) = ck_limited m"
  "ck_limited m \<Longrightarrow> receiveMaximum (ck_built m) = receiveMaximum m"
  by (simp_all add: ck_built_def ck_limited_def)

lemma ck_props_built [simp]: "ck_props (ck_built m) = ck_props m"
  by (simp add: ck_props_def)

lemma length_ck_props: "maxPacketSize m > 1 \<Longrightarrow> length (ck_props m) = ck_plen m"
proof -
  assume "maxPacketSize m > 1"
  then have "maxPacketSize m > 0" "maxPacketSize m \<noteq> 1" by (auto simp: word_less_nat_alt)
  then show ?thesis by (simp add: ck_props_def ck_plen_def length_wire lp_len_def)
qed

lemma ck_unat:
  assumes "ck_ok m"
  shows "unat (remlen (ck_built m)) = length (ck_body m)" "unat (propertiesLen (ck_built m)) = ck_plen m" "ck_plen m < 268435456"
    "length (ck_body m) = 2 + length (lb_wire (ck_plen m)) + ck_plen m"
proof -
  show l: "length (ck_body m) = 2 + length (lb_wire (ck_plen m)) + ck_plen m"
    using assms length_ck_props [of m] by (simp add: ck_body_def ck_ok_def)
  then show p: "ck_plen m < 268435456" using assms by (simp add: ck_ok_def)
  show "unat (remlen (ck_built m)) = length (ck_body m)" "unat (propertiesLen (ck_built m)) = ck_plen m"
    using assms p by (simp_all add: ck_built_def unat_small ck_ok_def)
qed

lemma ck_build_built:
  assumes ok: "ck_ok m"
  shows "ck_build m = Some (ck_built m)"
proof -
  note u = ck_unat [OF ok]
  have lb: "lbEncode (word_of_nat (ck_plen m)) = Some (lb_wire (ck_plen m))"
    using u(3) by (simp add: lbEncode_spec word_less_nat_alt unat_small)
  have n: "\<not> (word_of_nat (length (ck_body m)) :: u32) > maxRemainingLength"
    using ok by (simp add: ck_ok_def maxRemainingLength_def word_less_nat_alt unat_small)
  show ?thesis
    using n lb by (simp add: ck_build_def Let_def SetRemainingLength_def ck_built_def u(4) ac_simps)
qed

lemma ck_props_emit:
  fixes m :: connack
  assumes ok: "ck_ok m"
  shows "emits_w (ck_w_props (ck_built m)) (ck_props m)" "emits_b (ck_b_props (ck_built m)) (ck_props m)"
proof -
  let ?n = "ck_built m"
  have s: "short (assignedIdentifier ?n)" "short (reasonStr ?n)" "short (responseInformation ?n)" "short (serverReference ?n)"
    "short (authMethod ?n)" "short (authData ?n)" "list_all short (userProperties ?n)"
    using ok by (simp_all add: ck_ok_def)
  have w: "ck_props m = (if sessionExpiryInterval ?n > 0 then [SessionExpirationInterval] @ u32_bytes (sessionExpiryInterval ?n) @ [] else []) @
      (if ck_limited ?n then [MaximumQuantityReceived] @ u16_bytes (receiveMaximum ?n) @ [] else []) @
      (if maxQos ?n > 0 then [MaximumQoS] @ [maxQos ?n] @ [] else []) @
      (if retainAvailable ?n \<noteq> 1 then [PreservePropertyAvailability] @ [retainAvailable ?n] @ [] else []) @
      (if maxPacketSize ?n \<noteq> 1 then [MaximumMessageLength] @ u32_bytes (maxPacketSize ?n) @ [] else []) @
      (if length (assignedIdentifier ?n) > 0 then [AssignCustomerIdentifiers] @ lp_wire (assignedIdentifier ?n) @ [] else []) @
      (if topicAliasMax ?n > 0 then [MaximumLengthOfTopicAlias] @ u16_bytes (topicAliasMax ?n) @ [] else []) @
      (if length (reasonStr ?n) > 0 then [ReasonString] @ lp_wire (reasonStr ?n) @ [] else []) @
      up_wire (userProperties ?n) @
      (if wildcardSubscriptionAvailable ?n \<noteq> 1 then [WildcardSubscriptionAvailability] @ [wildcardSubscriptionAvailable ?n] @ [] else []) @
      (if subscriptionIdentifierAvailable ?n \<noteq> 1 then [AvailabilityOfSubscriptionIdentifiers] @ [subscriptionIdentifierAvailable ?n] @ [] else []) @
      (if sharedSubscriptionAvailable ?n \<noteq> 1 then [SharedSubscriptionAvailability] @ [sharedSubscriptionAvailable ?n] @ [] else []) @
      (if serverKeepAlive ?n > 0 then [ServerSurvivalTime] @ u16_bytes (serverKeepAlive ?n) @ [] else []) @
      (if length (responseInformation ?n) > 0 then [SolicitedMessage] @ lp_wire (responseInformation ?n) @ [] else []) @
      (if length (serverReference ?n) > 0 then [ServerReference] @ lp_wire (serverReference ?n) @ [] else []) @
      (if length (authMethod ?n) > 0 then [AuthenticationMethod] @ lp_wire (authMethod ?n) @ [] else []) @
      (if length (authData ?n) > 0 then [AuthenticationData] @ lp_wire (authData ?n) @ [] else []) @ []"
    by (simp add: ck_props_def)
  show "emits_w (ck_w_props ?n) (ck_props m)"
    unfolding ck_w_props_def w by (intro emits s)
  show "emits_b (ck_b_props ?n) (ck_props m)"
    unfolding ck_b_props_def w by (intro emits s)
qed

lemma ck_refuse_emits:
  "reasonCode m \<le> UnsupportedWildcardSubscriptions \<Longrightarrow> emits_w (ck_refuse m) []"
  "reasonCode m \<le> UnsupportedWildcardSubscriptions \<Longrightarrow> emits_b (ck_refuse m) []"
  by (auto simp: emits_w_def emits_b_def ck_refuse_def dest: leD)

lemma ck_emits:
  assumes ok: "ck_ok m"
  shows "emits_w (ck_w0 (ck_built m)) (ck_body m)" "emits_b (ck_b (ck_built m)) (ck_body m)"
proof -
  let ?n = "ck_built m"
  have p: "propertiesLen ?n < 268435456" using ck_unat(2,3) [OF ok] by (simp add: word_less_nat_alt)
  have r: "reasonCode ?n \<le> UnsupportedWildcardSubscriptions" using ok by (simp add: ck_ok_def)
  have w: "ck_body m = [if sessionPresent ?n then 1 else 0] @ [] @ [reasonCode ?n] @ lb_wire (unat (propertiesLen ?n)) @ ck_props m @ []"
    by (simp add: ck_body_def ck_unat(2) [OF ok])
  show "emits_w (ck_w0 ?n) (ck_body m)" unfolding ck_w0_def w by (intro emits ck_props_emit ck_refuse_emits p r ok)
  show "emits_b (ck_b ?n) (ck_body m)" unfolding ck_b_def w by (intro emits ck_props_emit ck_refuse_emits p r ok)
qed

lemma ck_header:
  assumes ok: "ck_ok m"
  shows "header_ok (ck_built m)" "flags_ok (ck_built m)" "mtype (ck_built m) = CONNACK"
proof -
  show t: "mtype (ck_built m) = CONNACK" using ok mtype_cong [of "ck_built m" m] by (simp add: ck_ok_def)
  show "header_ok (ck_built m)"
    using ck_unat(1) [OF ok] ok
    by (simp add: header_ok_def t maxRemainingLength_def word_le_nat_alt) (simp add: ck_ok_def type_Valid_def CONNACK_def)
  show "flags_ok (ck_built m)" using ok flags_ok_cong [of "ck_built m" m] by (simp add: ck_ok_def)
qed

interpretation connack: plain_packet ck_build ck_built ck_body ck_ok ck_w0 ck_b
  using ck_build_built ck_header ck_unat(1) ck_emits by unfold_locales simp_all

lemma ck_w_zero: "t < length dst \<Longrightarrow> dst ! t = 0 \<Longrightarrow> ck_w m dst t = ck_w0 m dst t"
proof -
  assume t: "t < length dst" "dst ! t = 0"
  then have "take t dst @ 0 # drop (Suc t) dst = dst" by (metis id_take_nth_drop)
  then show ?thesis using t(1) by (simp add: ck_w_def ck_w0_def w_bytes_def w_skip_def)
qed

lemma ck_encoders:
  assumes "dirty m" "ck_ok m" "length (ck_wire m) \<le> k"
  shows "ck_Len m = Some (ck_built m, length (ck_wire m))"
    "ck_Encode m (replicate k 0) = (ck_built m, Ret (ck_wire m @ replicate (k - length (ck_wire m)) 0) (length (ck_wire m)))"
    "ck_EncodeToBuf m buf = (ck_built m, Ret (buf @ ck_wire m) (length buf + length (ck_wire m)))"
proof -
  note h = ck_header(1) [OF assms(2)] and again = connack.set_again [OF assms(2)] and built = ck_build_built [OF assms(2)]
  have l: "length (header_wire (ck_built m)) = hmsglen (ck_built m)" by (rule length_header_wire [OF h])
  have room: "hmsglen (ck_built m) + length (ck_body m) \<le> length (replicate k (0 :: byte))"
    using assms(3) l by (simp add: ck_wire_def)
  note fw = frame_encode [OF h ck_emits(1) [OF assms(2)] room]
  note fb = frame_buf [OF h ck_emits(2) [OF assms(2)], of buf]
  let ?d = "header_wire (ck_built m) @ drop (hmsglen (ck_built m)) (replicate k (0 :: byte))"
  have z: "hmsglen (ck_built m) < length ?d" "?d ! hmsglen (ck_built m) = 0"
    using room ck_unat(4) [OF assms(2)] by (simp_all add: l nth_append)
  show "ck_Len m = Some (ck_built m, length (ck_wire m))"
    using connack.encoders_agree(1) [OF assms(1,2), of "replicate k 0"] assms(3) by (simp add: ck_Len_def ck_wire_def)
  show "ck_Encode m (replicate k 0) = (ck_built m, Ret (ck_wire m @ replicate (k - length (ck_wire m)) 0) (length (ck_wire m)))"
    using fw(2) room assms(1) ck_w_zero [OF z]
    by (simp add: ck_Encode_def built again fw(1) ck_unat(1) [OF assms(2)] not_less ck_wire_def)
  show "ck_EncodeToBuf m buf = (ck_built m, Ret (buf @ ck_wire m) (length buf + length (ck_wire m)))"
    using fb(2) assms(1) by (simp add: ck_EncodeToBuf_def built again fb(1) ck_wire_def)
qed

section \<open>Decoding the packet\<close>

lemma consumes_prop_or_reject:
  assumes "not_next pid rest" and "c \<Longrightarrow> consumes b bs f rest" and "c \<Longrightarrow> (\<And>m. \<not> q (f m))"
  shows "consumes (\<lambda>src. prop_or src pid (run [b src, reject (\<lambda>src m t. q m \<or> again pid src m t) src]) g)
    (if c then pid # bs else []) (if c then f else g) rest"
proof (cases c)
  case True
  then show ?thesis
    using consumes_prop_test [where c = c and q = q and f = f, OF assms] by (auto simp: consumes_def prop_at_def prop_or_def at_is_app)
next
  case False
  then show ?thesis using assms(1) by (simp add: consumes_def prop_or_def at_is_next)
qed

lemmas ck_ids = SessionExpirationInterval_def MaximumQuantityReceived_def MaximumQoS_def PreservePropertyAvailability_def
  MaximumMessageLength_def AssignCustomerIdentifiers_def MaximumLengthOfTopicAlias_def ReasonString_def UserProperty_def
  WildcardSubscriptionAvailability_def AvailabilityOfSubscriptionIdentifiers_def SharedSubscriptionAvailability_def
  ServerSurvivalTime_def SolicitedMessage_def ServerReference_def AuthenticationMethod_def AuthenticationData_def

lemma ca_sessionExpiryInterval_eats:
  assumes "not_next SessionExpirationInterval rest" "\<not> c \<Longrightarrow> v = sessionExpiryInterval x"
  shows "eats ca_sessionExpiryInterval (if c then SessionExpirationInterval # u32_bytes v else []) rest x
    (x\<lparr>sessionExpiryInterval := v\<rparr>)"
  unfolding ca_sessionExpiryInterval_def
  by (rule eats_eq [OF eats_consumes [OF consumes_prop_again [OF _ consumes_u32]] refl])
     (use assms in simp_all)

lemma ca_receiveMaximum_eats:
  assumes "not_next MaximumQuantityReceived rest" "c \<Longrightarrow> v \<noteq> 0"
  shows "eats ca_receiveMaximum (if c then MaximumQuantityReceived # u16_bytes v else []) rest x
    (x\<lparr>receiveMaximum := (if c then v else 65535)\<rparr>)"
  unfolding ca_receiveMaximum_def
  by (rule eats_eq [OF eats_consumes [OF consumes_prop_or_reject [OF _ consumes_u16]] refl])
     (use assms in simp_all)

lemma ca_maxQos_eats:
  assumes "not_next MaximumQoS rest" "c \<Longrightarrow> \<not> v > 2"
  shows "eats ca_maxQos (if c then MaximumQoS # [v] else []) rest x
    (x\<lparr>maxQos := (if c then v else 2)\<rparr>)"
  unfolding ca_maxQos_def
  by (rule eats_eq [OF eats_consumes [OF consumes_prop_or_reject [OF _ consumes_u8]] refl])
     (use assms in simp_all)

lemma ca_retainAvailable_eats:
  assumes "not_next PreservePropertyAvailability rest" "c \<Longrightarrow> v = 0 \<or> v = 1"
  shows "eats ca_retainAvailable (if c then PreservePropertyAvailability # [v] else []) rest x
    (x\<lparr>retainAvailable := (if c then v else 1)\<rparr>)"
  unfolding ca_retainAvailable_def
  by (rule eats_eq [OF eats_consumes [OF consumes_prop_or_reject [OF _ consumes_u8]] refl])
     (use assms in simp_all)

lemma ca_maxPacketSize_eats:
  assumes "not_next MaximumMessageLength rest" "\<not> c \<Longrightarrow> v = maxPacketSize x" "c \<Longrightarrow> v \<noteq> 0"
  shows "eats ca_maxPacketSize (if c then MaximumMessageLength # u32_bytes v else []) rest x
    (x\<lparr>maxPacketSize := v\<rparr>)"
  unfolding ca_maxPacketSize_def
  by (rule eats_eq [OF eats_consumes [OF consumes_prop_test [OF _ consumes_u32]] refl])
     (use assms in simp_all)

lemma ca_assignedIdentifier_eats:
  assumes "not_next AssignCustomerIdentifiers rest" "\<not> c \<Longrightarrow> v = assignedIdentifier x" "short v"
  shows "eats ca_assignedIdentifier (if c then AssignCustomerIdentifiers # lp_wire v else []) rest x
    (x\<lparr>assignedIdentifier := v\<rparr>)"
  unfolding ca_assignedIdentifier_def
  by (rule eats_eq [OF eats_consumes [OF consumes_prop_stop [OF _ consumes_lp]] refl])
     (use assms in simp_all)

lemma ca_reasonStr_eats:
  assumes "not_next ReasonString rest" "\<not> c \<Longrightarrow> v = reasonStr x" "short v"
  shows "eats ca_reasonStr (if c then ReasonString # lp_wire v else []) rest x
    (x\<lparr>reasonStr := v\<rparr>)"
  unfolding ca_reasonStr_def
  by (rule eats_eq [OF eats_consumes [OF consumes_prop_stop [OF _ consumes_lp]] refl])
     (use assms in simp_all)

lemma ca_responseInformation_eats:
  assumes "not_next SolicitedMessage rest" "\<not> c \<Longrightarrow> v = responseInformation x" "short v"
  shows "eats ca_responseInformation (if c then SolicitedMessage # lp_wire v else []) rest x
    (x\<lparr>responseInformation := v\<rparr>)"
  unfolding ca_responseInformation_def
  by (rule eats_eq [OF eats_consumes [OF consumes_prop_stop [OF _ consumes_lp]] refl])
     (use assms in simp_all)

lemma ca_serverReference_eats:
  assumes "not_next ServerReference rest" "\<not> c \<Longrightarrow> v = serverReference x" "short v"
  shows "eats ca_serverReference (if c then ServerReference # lp_wire v else []) rest x
    (x\<lparr>serverReference := v\<rparr>)"
  unfolding ca_serverReference_def
  by (rule eats_eq [OF eats_consumes [OF consumes_prop_stop [OF _ consumes_lp]] refl])
     (use assms in simp_all)

lemma ca_authMethod_eats:
  assumes "not_next AuthenticationMethod rest" "\<not> c \<Longrightarrow> v = authMethod x" "short v"
  shows "eats ca_authMethod (if c then AuthenticationMethod # lp_wire v else []) rest x
    (x\<lparr>authMethod := v\<rparr>)"
  unfolding ca_authMethod_def
  by (rule eats_eq [OF eats_consumes [OF consumes_prop_stop [OF _ consumes_lp]] refl])
     (use assms in simp_all)

lemma ca_authData_eats:
  assumes "not_next AuthenticationData rest" "\<not> c \<Longrightarrow> v = authData x" "short v"
  shows "eats ca_authData (if c then AuthenticationData # lp_wire v else []) rest x
    (x\<lparr>authData := v\<rparr>)"
  unfolding ca_authData_def
  by (rule eats_eq [OF eats_consumes [OF consumes_prop_stop [OF _ consumes_lp]] refl])
     (use assms in simp_all)

lemma ca_topicAliasMax_eats:
  assumes "not_next MaximumLengthOfTopicAlias rest" "\<not> c \<Longrightarrow> v = topicAliasMax x"
  shows "eats ca_topicAliasMax (if c then MaximumLengthOfTopicAlias # u16_bytes v else []) rest x
    (x\<lparr>topicAliasMax := v\<rparr>)"
  unfolding ca_topicAliasMax_def
  by (rule eats_eq [OF eats_consumes [OF consumes_prop_again [OF _ consumes_u16]] refl])
     (use assms in simp_all)

lemma ca_userProperties_eats:
  assumes "list_all short v" "even (length v)" "not_next UserProperty rest"
  shows "eats ca_userProperties (up_wire v) rest x (x\<lparr>userProperties := v\<rparr>)"
  unfolding ca_userProperties_def [abs_def] by (rule eats_consumes, rule consumes_up) (rule assms)+

lemma ca_wildcard_eats:
  assumes "not_next WildcardSubscriptionAvailability rest" "c \<Longrightarrow> v = 0 \<or> v = 1"
  shows "eats ca_wildcard (if c then WildcardSubscriptionAvailability # [v] else []) rest x
    (x\<lparr>wildcardSubscriptionAvailable := (if c then v else 1)\<rparr>)"
  unfolding ca_wildcard_def
  by (rule eats_eq [OF eats_consumes [OF consumes_prop_or_reject [OF _ consumes_u8]] refl])
     (use assms in simp_all)

lemma ca_subIdentifier_eats:
  assumes "not_next AvailabilityOfSubscriptionIdentifiers rest" "c \<Longrightarrow> v = 0 \<or> v = 1"
  shows "eats ca_subIdentifier (if c then AvailabilityOfSubscriptionIdentifiers # [v] else []) rest x
    (x\<lparr>subscriptionIdentifierAvailable := (if c then v else 1)\<rparr>)"
  unfolding ca_subIdentifier_def
  by (rule eats_eq [OF eats_consumes [OF consumes_prop_or_reject [OF _ consumes_u8]] refl])
     (use assms in simp_all)

lemma ca_shared_eats:
  assumes "not_next SharedSubscriptionAvailability rest" "c \<Longrightarrow> v = 0 \<or> v = 1"
  shows "eats ca_shared (if c then SharedSubscriptionAvailability # [v] else []) rest x
    (if c then x\<lparr>sharedSubscriptionAvailable := v\<rparr> else x\<lparr>subscriptionIdentifierAvailable := 1\<rparr>)"
  unfolding ca_shared_def
  by (rule eats_eq [OF eats_consumes [OF consumes_prop_or_reject [OF _ consumes_u8]] refl])
     (use assms in simp_all)

lemma ca_serverKeepAlive_absent: "not_next ServerSurvivalTime rest \<Longrightarrow> eats ca_serverKeepAlive [] rest x x"
  by (simp add: eats_def ca_serverKeepAlive_def prop_at_def at_is_next)

text \<open>
  The messages that come through: the decoder cannot read a keep alive time behind which anything follows.
  A maximum QoS of 0 is not written, and a missing one is read as 2; where shared subscriptions are
  available the property is not written either, and reading none sets the wrong field.
\<close>

definition ck_readable :: "connack \<Rightarrow> bool" where
  "ck_readable m \<longleftrightarrow>
     ValidConnAckReasonCode (reasonCode m) \<and> maxQos m \<le> 2 \<and> retainAvailable m \<le> 1 \<and> wildcardSubscriptionAvailable m \<le> 1 \<and>
     subscriptionIdentifierAvailable m \<le> 1 \<and> sharedSubscriptionAvailable m \<le> 1 \<and> serverKeepAlive m = 0 \<and>
     even (length (userProperties m))"

definition ck_start_read :: "connack \<Rightarrow> connack \<Rightarrow> connack" where
  "ck_start_read n x =
     x\<lparr>sessionPresent := sessionPresent n, reasonCode := reasonCode n, propertiesLen := word_of_nat (ck_plen n)\<rparr>"

definition ck_props_read :: "connack \<Rightarrow> connack \<Rightarrow> connack" where
  "ck_props_read n x =
     x\<lparr>sessionExpiryInterval := sessionExpiryInterval n, receiveMaximum := (if ck_limited n then receiveMaximum n else 65535),
       maxQos := (if maxQos n > 0 then maxQos n else 2), retainAvailable := retainAvailable n, maxPacketSize := maxPacketSize n,
       assignedIdentifier := assignedIdentifier n, topicAliasMax := topicAliasMax n, reasonStr := reasonStr n,
       userProperties := userProperties n, wildcardSubscriptionAvailable := wildcardSubscriptionAvailable n,
       subscriptionIdentifierAvailable := (if sharedSubscriptionAvailable n \<noteq> 1 then subscriptionIdentifierAvailable n else 1),
       sharedSubscriptionAvailable := (if sharedSubscriptionAvailable n \<noteq> 1 then sharedSubscriptionAvailable n else sharedSubscriptionAvailable x),
       responseInformation := responseInformation n, serverReference := serverReference n, authMethod := authMethod n,
       authData := authData n\<rparr>"

definition ck_fresh :: "connack \<Rightarrow> bool" where
  "ck_fresh x \<longleftrightarrow>
     sessionExpiryInterval x = 0 \<and> assignedIdentifier x = [] \<and> topicAliasMax x = 0 \<and> reasonStr x = [] \<and>
     responseInformation x = [] \<and> serverReference x = [] \<and> authMethod x = [] \<and> authData x = []"

lemma ck_start_eats:
  assumes ok: "ck_ok n" and rd: "ck_readable n"
  shows "eats ca_start ([if sessionPresent n then 1 else 0, reasonCode n] @ lb_wire (ck_plen n)) rest x (ck_start_read n x)"
proof -
  have f: "eats ca_flags [if p then 1 else 0] r y (y\<lparr>sessionPresent := p\<rparr>)" for p r y
    by (simp add: eats_def ca_flags_def sat_app)
  have c: "eats ca_reason [reasonCode n] r y (y\<lparr>reasonCode := reasonCode n\<rparr>)" for r y
    using ok rd by (auto simp: eats_def ca_reason_def sat_app ck_ok_def ck_readable_def dest: leD)
  have l: "ck_plen n < 268435456" by (rule ck_unat(3) [OF ok])
  have w: "[if sessionPresent n then 1 else 0, reasonCode n] @ lb_wire (ck_plen n) =
      [if sessionPresent n then 1 else 0] @ [reasonCode n] @ lb_wire (ck_plen n) @ []" by simp
  show ?thesis
    unfolding ca_start_def w
    by (rule eats_eq [OF eats_Cons [OF f eats_Cons [OF c eats_Cons [OF eats_consumes [OF consumes_lb [OF l]] eats_Nil]]] refl])
       (simp add: ck_start_read_def)
qed

lemma ck_props_eats:
  assumes ok: "ck_ok n" and rd: "ck_readable n" and x: "ck_fresh x"
  shows "eats ca_props (ck_props n) [] x (ck_props_read n x)"
proof -
  have s: "short (assignedIdentifier n)" "short (reasonStr n)" "short (responseInformation n)" "short (serverReference n)"
    "short (authMethod n)" "short (authData n)" "list_all short (userProperties n)"
    using ok by (simp_all add: ck_ok_def)
  have v: "retainAvailable n = 0 \<or> retainAvailable n = 1"
    "wildcardSubscriptionAvailable n = 0 \<or> wildcardSubscriptionAvailable n = 1"
    "subscriptionIdentifierAvailable n = 0 \<or> subscriptionIdentifierAvailable n = 1"
    "sharedSubscriptionAvailable n = 0 \<or> sharedSubscriptionAvailable n = 1"
    "\<not> 2 < maxQos n" "even (length (userProperties n))" "serverKeepAlive n = 0"
    using rd by (auto simp: ck_readable_def byte_le(1) dest: leD)
  have r: "ck_limited n \<Longrightarrow> receiveMaximum n \<noteq> 0" "maxPacketSize n \<noteq> 1 \<Longrightarrow> maxPacketSize n \<noteq> 0" "maxPacketSize n \<noteq> 1"
    using ok by (auto simp: ck_limited_def ck_ok_def)
  have w: "ck_props n = ck_props n @ []" by simp
  have k: "(if serverKeepAlive n > 0 then ServerSurvivalTime # u16_bytes (serverKeepAlive n) else []) = []" by (simp add: v)
  have "eats ca_props (ck_props n @ []) [] x (ck_props_read n x)"
    unfolding ca_props_def ck_props_def append_assoc k
    by (rule eats_eq [OF _ refl],
        rule eats_Cons [OF ca_sessionExpiryInterval_eats eats_Cons [OF ca_receiveMaximum_eats eats_Cons [OF ca_maxQos_eats
          eats_Cons [OF ca_retainAvailable_eats eats_Cons [OF ca_maxPacketSize_eats eats_Cons [OF ca_assignedIdentifier_eats
          eats_Cons [OF ca_topicAliasMax_eats eats_Cons [OF ca_reasonStr_eats eats_Cons [OF ca_userProperties_eats
          eats_Cons [OF ca_wildcard_eats eats_Cons [OF ca_subIdentifier_eats eats_Cons [OF ca_shared_eats
          eats_Cons [OF ca_serverKeepAlive_absent eats_Cons [OF ca_responseInformation_eats
          eats_Cons [OF ca_serverReference_eats eats_Cons [OF ca_authMethod_eats eats_Cons [OF ca_authData_eats
          eats_Nil]]]]]]]]]]]]]]]]])
       (use v r x in \<open>auto simp: s ck_ids ck_props_read_def ck_fresh_def word_gt_0\<close>)
  then show ?thesis by simp
qed

lemma NewConnackMessage_eq:
  "NewConnackMessage =
     \<lparr>remlen = 0, mtypeflags = [0x20], packetId = [], dbuf = Slice [] [], dirty = True, sessionPresent = False, reasonCode = 0,
       propertiesLen = 0, sessionExpiryInterval = 0, receiveMaximum = 0, maxQos = 0, retainAvailable = 1, maxPacketSize = 1024,
       assignedIdentifier = [], topicAliasMax = 0, reasonStr = [], userProperties = [], wildcardSubscriptionAvailable = 0,
       subscriptionIdentifierAvailable = 0, sharedSubscriptionAvailable = 0, serverKeepAlive = 0, responseInformation = [],
       serverReference = [], authMethod = [], authData = []\<rparr>"
  by code_simp

lemma ck_Decode_wire:
  assumes ok: "ck_ok n" and rd: "ck_readable n"
  shows "ck_Decode (Slice (ck_wire n) ex) NewConnackMessage =
    Ret ((ck_props_read n (ck_start_read n (NewConnackMessage\<lparr>dbuf := Slice (ck_wire n) ex, mtypeflags := mtypeflags n,
      remlen := remlen (ck_built n)\<rparr>)))\<lparr>dirty := False\<rparr>) (length (ck_wire n))"
proof -
  let ?x = "NewConnackMessage\<lparr>dbuf := Slice (ck_wire n) ex, mtypeflags := mtypeflags n, remlen := remlen (ck_built n)\<rparr>"
  have m0: "length (mtypeflags NewConnackMessage) = 1" "mtype NewConnackMessage = CONNACK"
    by (simp_all add: NewConnackMessage_eq mtype_def alloc_flags_def CONNACK_def)
  have h: "hdecode (Slice (ck_wire n) ex) NewConnackMessage = Ret ?x (length (header_wire (ck_built n)))"
    using connack.header_decoded [OF ok refl _ m0(1), of ex] m0(2) ck_header(3) [OF ok]
    by (simp add: ck_wire_def) (simp add: ck_body_def)
  have fr: "ck_fresh (ck_start_read n ?x)" by (simp add: ck_fresh_def ck_start_read_def NewConnackMessage_eq)
  have w: "ck_body n = ([if sessionPresent n then 1 else 0, reasonCode n] @ lb_wire (ck_plen n)) @ ck_props n @ []"
    by (simp add: ck_body_def)
  have "eats (\<lambda>src. run [ca_start src, ca_props src]) (ck_body n) [] ?x (ck_props_read n (ck_start_read n ?x))"
    unfolding w by (rule eats_Cons [OF ck_start_eats [OF ok rd] eats_Cons [OF _ eats_Nil]]) (simp add: ck_props_eats [OF ok rd fr])
  from eatsD [OF this refl, of "header_wire (ck_built n)" ex]
  have "run [ca_start (Slice (ck_wire n) ex), ca_props (Slice (ck_wire n) ex)] ?x (length (header_wire (ck_built n))) =
      Ret (ck_props_read n (ck_start_read n ?x)) (length (ck_wire n))"
    by (simp add: ck_wire_def del: run.simps)
  then show ?thesis by (simp add: ck_Decode_def h del: run.simps)
qed

text \<open>C31: Take a CONNACK that is dirty and can be sent (\<open>ck_ok\<close>: a maximum packet size above 1, a known reason code,
  strings of less than 65536 bytes) and read (\<open>ck_readable\<close>: a valid reason code, a maximum QoS of at most 2, flags of
  at most 1, no server keep alive, user properties in pairs). It is written to a slice of zeros and to a buffer as the
  same packet, whose length \<open>Len\<close> reports, and a new CONNACK that decodes the packet gets the fields back except
  these: a maximum QoS of 0 becomes 2, a receive maximum of 0 becomes 65535, and an available shared
  subscription is lost and makes the subscription identifiers available.\<close>

theorem connack_codec:
  assumes "dirty n" "ck_ok n" "length (ck_wire n) \<le> k" "ck_readable n"
  shows "ck_Len n = Some (ck_built n, length (ck_wire n)) \<and>
    ck_Encode n (replicate k 0) = (ck_built n, Ret (ck_wire n @ replicate (k - length (ck_wire n)) 0) (length (ck_wire n))) \<and>
    ck_EncodeToBuf n buf = (ck_built n, Ret (buf @ ck_wire n) (length buf + length (ck_wire n))) \<and>
    (\<exists>m. ck_Decode (Slice (ck_wire n) ex) NewConnackMessage = Ret m (length (ck_wire n)) \<and>
      sessionPresent m = sessionPresent n \<and> reasonCode m = reasonCode n \<and> sessionExpiryInterval m = sessionExpiryInterval n \<and>
      receiveMaximum m = (if receiveMaximum n = 0 then 65535 else receiveMaximum n) \<and>
      maxQos m = (if maxQos n = 0 then 2 else maxQos n) \<and> retainAvailable m = retainAvailable n \<and>
      maxPacketSize m = maxPacketSize n \<and> assignedIdentifier m = assignedIdentifier n \<and> topicAliasMax m = topicAliasMax n \<and>
      reasonStr m = reasonStr n \<and> userProperties m = userProperties n \<and>
      wildcardSubscriptionAvailable m = wildcardSubscriptionAvailable n \<and>
      subscriptionIdentifierAvailable m = (if sharedSubscriptionAvailable n = 1 then 1 else subscriptionIdentifierAvailable n) \<and>
      sharedSubscriptionAvailable m = 0 \<and>
      responseInformation m = responseInformation n \<and> serverReference m = serverReference n \<and>
      authMethod m = authMethod n \<and> authData m = authData n)"
proof -
  have q: "\<not> 0 < maxQos n \<longleftrightarrow> maxQos n = 0" by (simp add: word_gt_0)
  have r: "(if ck_limited n then receiveMaximum n else 65535) = (if receiveMaximum n = 0 then 65535 else receiveMaximum n)"
  proof -
    have "receiveMaximum n = 65535" if "\<not> receiveMaximum n < 65535"
      using that unsigned_less [of "receiveMaximum n", where ?'a = nat] by (simp add: word_less_nat_alt word_unat_eq_iff)
    then show ?thesis by (auto simp: ck_limited_def word_gt_0)
  qed
  have s: "sharedSubscriptionAvailable n = 0 \<or> sharedSubscriptionAvailable n = 1"
    using assms(4) by (simp add: ck_readable_def byte_le(1))
  let ?m = "(ck_props_read n (ck_start_read n (NewConnackMessage\<lparr>dbuf := Slice (ck_wire n) ex, mtypeflags := mtypeflags n,
      remlen := remlen (ck_built n)\<rparr>)))\<lparr>dirty := False\<rparr>"
  have "sessionPresent ?m = sessionPresent n \<and> reasonCode ?m = reasonCode n \<and> sessionExpiryInterval ?m = sessionExpiryInterval n \<and>
      receiveMaximum ?m = (if ck_limited n then receiveMaximum n else 65535) \<and>
      maxQos ?m = (if maxQos n = 0 then 2 else maxQos n) \<and> retainAvailable ?m = retainAvailable n \<and>
      maxPacketSize ?m = maxPacketSize n \<and> assignedIdentifier ?m = assignedIdentifier n \<and> topicAliasMax ?m = topicAliasMax n \<and>
      reasonStr ?m = reasonStr n \<and> userProperties ?m = userProperties n \<and>
      wildcardSubscriptionAvailable ?m = wildcardSubscriptionAvailable n \<and>
      subscriptionIdentifierAvailable ?m = (if sharedSubscriptionAvailable n = 1 then 1 else subscriptionIdentifierAvailable n) \<and>
      sharedSubscriptionAvailable ?m = 0 \<and>
      responseInformation ?m = responseInformation n \<and> serverReference ?m = serverReference n \<and>
      authMethod ?m = authMethod n \<and> authData ?m = authData n"
    using s by (auto simp: ck_props_read_def ck_start_read_def NewConnackMessage_eq q)
  then show ?thesis
    unfolding r [symmetric] using ck_encoders [OF assms(1-3)] ck_Decode_wire [OF assms(2,4), of ex] by blast
qed

section \<open>Witnesses\<close>

definition demo_connack :: connack where
  "demo_connack = AddUserProperty [118] (AddUserProperty [107] (SetSharedSubscriptionAvailable 1 (SetMaxQos 1
     (SetSessionPresent True NewConnackMessage))))"

lemma demo_connack_eq:
  "demo_connack =
     \<lparr>remlen = 0, mtypeflags = [0x20], packetId = [], dbuf = Slice [] [], dirty = True, sessionPresent = True, reasonCode = 0,
       propertiesLen = 0, sessionExpiryInterval = 0, receiveMaximum = 0, maxQos = 1, retainAvailable = 1, maxPacketSize = 1024,
       assignedIdentifier = [], topicAliasMax = 0, reasonStr = [], userProperties = [[107], [118]],
       wildcardSubscriptionAvailable = 0, subscriptionIdentifierAvailable = 0, sharedSubscriptionAvailable = 1,
       serverKeepAlive = 0, responseInformation = [], serverReference = [], authMethod = [], authData = []\<rparr>"
  by code_simp

lemma demo_connack_ok: "ck_ok demo_connack" "ck_readable demo_connack" "length (ck_wire demo_connack) \<le> 64"
proof -
  have t: "mtype demo_connack = CONNACK" "flags_ok demo_connack" "ck_plen demo_connack = 18" by code_simp+
  have m: "maxPacketSize demo_connack > 1" by (simp add: demo_connack_eq)
  have b: "length (ck_body demo_connack) \<le> 25"
    using length_ck_props [OF m] length_lb_wire [of 18] t(3) by (simp add: ck_body_def)
  then show ok: "ck_ok demo_connack"
    using t by (simp add: ck_ok_def) (simp add: demo_connack_eq short_def)
  have "length (lb_wire (unat (remlen (ck_built demo_connack)))) \<le> 4"
    using b by (intro length_lb_wire) (simp add: ck_unat(1) [OF ok])
  then show "length (ck_wire demo_connack) \<le> 64" using b by (simp add: ck_wire_def header_wire_def)
  show "ck_readable demo_connack" by code_simp
qed

theorem connack_codec_witness:
  "ck_Encode demo_connack (replicate 64 0) =
      (ck_built demo_connack, Ret (ck_wire demo_connack @ replicate (64 - length (ck_wire demo_connack)) 0) (length (ck_wire demo_connack))) \<and>
    (\<exists>m. ck_Decode (Slice (ck_wire demo_connack) []) NewConnackMessage = Ret m (length (ck_wire demo_connack)) \<and>
      sessionPresent m \<and> maxQos m = 1 \<and> subscriptionIdentifierAvailable m = 1 \<and> sharedSubscriptionAvailable m = 0 \<and>
      userProperties m = [[107], [118]])"
proof -
  have d: "dirty demo_connack" "sessionPresent demo_connack" "maxQos demo_connack = 1" "sharedSubscriptionAvailable demo_connack = 1"
    "userProperties demo_connack = [[107], [118]]" by (simp_all add: demo_connack_eq)
  show ?thesis
    using connack_codec [OF d(1) demo_connack_ok(1,3,2), of "[]" "[]"] d(2-5) by auto
qed

section \<open>Remarks\<close>

text \<open>On a slice that is not zeroed the flags byte keeps what was there, so a client may read a session as present.\<close>

lemma flags_byte_kept: "\<not> sessionPresent m \<Longrightarrow> ck_w m dst t = run [ck_refuse m, w_bytes [reasonCode m], w_lb (propertiesLen m), ck_w_props m] dst (t + 1)"
  by (simp add: ck_w_def w_skip_def)

text \<open>A maximum packet size of 1 is counted by \<open>build\<close> and not written.\<close>

lemma packet_size_one: "maxPacketSize m = 1 \<Longrightarrow> length (ck_props m) + 5 = ck_plen m"
  by (simp add: ck_props_def ck_plen_def length_wire lp_len_def)

end
