(* ===== verification/Auth.thy ===== *)
theory Auth
  imports Disconnect
begin

text \<open>
  AUTH (\<open>corev5/v2/message/auth.go\<close>): the message of the enhanced authentication, its setters, \<open>build\<close>,
  both encoders and the decoder.
\<close>

section \<open>State\<close>

record auth = header +
  reasonCode :: byte
  propertiesLen :: u32
  authMethod :: bytes
  authData :: bytes
  reasonStr :: bytes
  userProperty :: "bytes list"

definition ContinueAuthentication :: byte where "ContinueAuthentication = 0x18"
definition ReAuthentication :: byte where "ReAuthentication = 0x19"

definition ValidAuthReasonCode :: "byte \<Rightarrow> bool" where
  "ValidAuthReasonCode c \<longleftrightarrow> c = Success \<or> c = ContinueAuthentication \<or> c = ReAuthentication"

definition NewAuthMessage :: auth where
  "NewAuthMessage =
     fst (SetType AUTH \<lparr>remlen = 0, mtypeflags = [], packetId = [], dbuf = Slice [] [], dirty = False,
       reasonCode = 0, propertiesLen = 0, authMethod = [], authData = [], reasonStr = [], userProperty = []\<rparr>)"

definition SetReasonCode :: "byte \<Rightarrow> auth \<Rightarrow> auth" where "SetReasonCode v m = m\<lparr>reasonCode := v, dirty := True\<rparr>"
definition SetPropertiesLen :: "u32 \<Rightarrow> auth \<Rightarrow> auth" where "SetPropertiesLen v m = m\<lparr>propertiesLen := v, dirty := True\<rparr>"
definition SetAuthMethod :: "bytes \<Rightarrow> auth \<Rightarrow> auth" where "SetAuthMethod v m = m\<lparr>authMethod := v, dirty := True\<rparr>"
definition SetAuthData :: "bytes \<Rightarrow> auth \<Rightarrow> auth" where "SetAuthData v m = m\<lparr>authData := v, dirty := True\<rparr>"
definition SetReasonStr :: "bytes \<Rightarrow> auth \<Rightarrow> auth" where "SetReasonStr v m = m\<lparr>reasonStr := v, dirty := True\<rparr>"
definition SetUserProperties :: "bytes list \<Rightarrow> auth \<Rightarrow> auth" where "SetUserProperties v m = m\<lparr>userProperty := v, dirty := True\<rparr>"

definition AddUserPropertys :: "bytes list \<Rightarrow> auth \<Rightarrow> auth" where
  "AddUserPropertys ups m = m\<lparr>userProperty := userProperty m @ ups, dirty := True\<rparr>"

definition AddUserProperty :: "bytes \<Rightarrow> auth \<Rightarrow> auth" where
  "AddUserProperty up m = m\<lparr>userProperty := userProperty m @ [up], dirty := True\<rparr>"

section \<open>Decoding\<close>

definition au_method :: "slice \<Rightarrow> auth \<Rightarrow> nat \<Rightarrow> auth outcome" where
  "au_method src =
     prop_at src AuthenticationMethod
       (run [\<lambda>m t. assign (read_lp src t) (\<lambda>v. authMethod_update (\<lambda>_. v)) m t,
             stop ProtocolError (again AuthenticationMethod) src])"

definition au_data :: "slice \<Rightarrow> auth \<Rightarrow> nat \<Rightarrow> auth outcome" where
  "au_data src =
     prop_at src AuthenticationData
       (run [\<lambda>m t. assign (read_lp src t) (\<lambda>v. authData_update (\<lambda>_. v)) m t,
             stop ProtocolError (again AuthenticationData) src])"

definition au_reasonStr :: "slice \<Rightarrow> auth \<Rightarrow> nat \<Rightarrow> auth outcome" where
  "au_reasonStr src =
     prop_at src ReasonString
       (run [\<lambda>m t. assign (read_lp src t) (\<lambda>v. reasonStr_update (\<lambda>_. v)) m t,
             stop ProtocolError (again ReasonString) src])"

definition au_userProperty :: "slice \<Rightarrow> auth \<Rightarrow> nat \<Rightarrow> auth outcome" where
  "au_userProperty src m t = assign (read_up src t) (\<lambda>v. userProperty_update (\<lambda>_. v)) m t"

definition au_variable :: "slice \<Rightarrow> auth \<Rightarrow> nat \<Rightarrow> auth outcome" where
  "au_variable src =
     run [\<lambda>m t. assign (rd_u8 src t) (\<lambda>v. reasonCode_update (\<lambda>_. v)) m t,
          stop ProtocolError (\<lambda>src m t. \<not> ValidAuthReasonCode (reasonCode m)) src,
          \<lambda>m t. assign (read_lb src t) (\<lambda>v. propertiesLen_update (\<lambda>_. v)) m t,
          au_method src, au_data src, au_reasonStr src, au_userProperty src]"

definition au_Decode :: "slice \<Rightarrow> auth \<Rightarrow> auth outcome" where
  "au_Decode src m =
     (case hdecode src m of
        Ret m1 hn \<Rightarrow>
          (if unat (remlen m1) > slen src - hn then Fail m1 (int hn) (Reason ProtocolError)
           else if remlen m1 = 0 then Ret (m1\<lparr>reasonCode := Success\<rparr>) hn
           else case au_variable src m1 hn of Ret m2 t \<Rightarrow> Ret (m2\<lparr>dirty := False\<rparr>) t | r \<Rightarrow> r)
      | r \<Rightarrow> r)"

section \<open>Encoding\<close>

definition au_plen :: "auth \<Rightarrow> nat" where
  "au_plen m = lp_len (authMethod m) + lp_len (authData m) + lp_len (reasonStr m) + buildUserPropertyLen (userProperty m)"

definition au_build :: "auth \<Rightarrow> auth option" where
  "au_build m0 =
     (let m = m0\<lparr>propertiesLen := word_of_nat (au_plen m0)\<rparr> in
      if propertiesLen m = 0 \<and> reasonCode m = Success then Some (fst (SetRemainingLength 0 m))
      else case lbEncode (propertiesLen m) of
        None \<Rightarrow> None
      | Some b \<Rightarrow> Some (fst (SetRemainingLength (word_of_nat (1 + au_plen m + length b)) m)))"

definition au_Len :: "auth \<Rightarrow> (auth \<times> nat) option" where "au_Len = plain_Len au_build"

definition au_empty :: "auth \<Rightarrow> bool" where
  "au_empty m \<longleftrightarrow> reasonCode m = Success \<and> authMethod m = [] \<and> authData m = [] \<and> reasonStr m = [] \<and> userProperty m = []"

definition au_w :: "auth \<Rightarrow> bytes \<Rightarrow> nat \<Rightarrow> bytes outcome" where
  "au_w m =
     guarded (\<not> au_empty m)
       (run [w_bytes [reasonCode m],
             w_lb (propertiesLen m),
             guarded (length (authMethod m) > 0) (run [w_bytes [AuthenticationMethod], writeLPBytes (authMethod m)]),
             guarded (length (authData m) > 0) (run [w_bytes [AuthenticationData], writeLPBytes (authData m)]),
             guarded (length (reasonStr m) > 0) (run [w_bytes [ReasonString], writeLPBytes (reasonStr m)]),
             writeUserProperty (userProperty m)])"

definition au_b :: "auth \<Rightarrow> bytes \<Rightarrow> nat \<Rightarrow> bytes outcome" where
  "au_b m =
     guarded (\<not> au_empty m)
       (run [b_bytes [reasonCode m],
             b_lb (propertiesLen m),
             guarded (length (authMethod m) > 0) (run [b_bytes [AuthenticationMethod], writeToBufLPBytes (authMethod m)]),
             guarded (length (authData m) > 0) (run [b_bytes [AuthenticationData], writeToBufLPBytes (authData m)]),
             guarded (length (reasonStr m) > 0) (run [b_bytes [ReasonString], writeToBufLPBytes (reasonStr m)]),
             writeUserPropertyByBuf (userProperty m)])"

definition au_Encode :: "auth \<Rightarrow> bytes \<Rightarrow> auth \<times> bytes outcome" where
  "au_Encode m dst =
     (if dirty m \<and> mtype m \<noteq> AUTH then (m, Fail dst 0 (Errorf ''auth/Encode: Invalid message type.''))
      else plain_Encode ''auth/Encode: Insufficient buffer size.'' ''auth/Encode: Insufficient buffer size.'' au_build au_w m dst)"

definition au_EncodeToBuf :: "auth \<Rightarrow> bytes \<Rightarrow> auth \<times> bytes outcome" where
  "au_EncodeToBuf m buf =
     (if dirty m \<and> mtype m \<noteq> AUTH then (m, Fail buf 0 (Errorf ''auth/Encode: Invalid message type.''))
      else plain_EncodeToBuf au_build au_b m buf)"

section \<open>The packet a message stands for\<close>

definition au_props :: "auth \<Rightarrow> bytes" where
  "au_props m =
     (if length (authMethod m) > 0 then AuthenticationMethod # lp_wire (authMethod m) else []) @
     (if length (authData m) > 0 then AuthenticationData # lp_wire (authData m) else []) @
     (if length (reasonStr m) > 0 then ReasonString # lp_wire (reasonStr m) else []) @
     up_wire (userProperty m)"

definition au_body :: "auth \<Rightarrow> bytes" where
  "au_body m = (if au_empty m then [] else reasonCode m # lb_wire (au_plen m) @ au_props m)"

definition au_built :: "auth \<Rightarrow> auth" where
  "au_built m = m\<lparr>propertiesLen := word_of_nat (au_plen m), remlen := word_of_nat (length (au_body m)), dirty := True\<rparr>"

definition au_wire :: "auth \<Rightarrow> bytes" where "au_wire m = header_wire (au_built m) @ au_body m"

definition au_ok :: "auth \<Rightarrow> bool" where
  "au_ok m \<longleftrightarrow>
     length (mtypeflags m) = 1 \<and> mtype m = AUTH \<and> flags_ok m \<and> short (authMethod m) \<and> short (authData m) \<and>
     short (reasonStr m) \<and> list_all short (userProperty m) \<and> au_plen m \<le> 268435450"

lemma au_built_frame [simp]:
  "mtypeflags (au_built m) = mtypeflags m" "dirty (au_built m)" "reasonCode (au_built m) = reasonCode m"
  "authMethod (au_built m) = authMethod m" "authData (au_built m) = authData m" "reasonStr (au_built m) = reasonStr m"
  "userProperty (au_built m) = userProperty m" "au_plen (au_built m) = au_plen m" "au_props (au_built m) = au_props m"
  "au_empty (au_built m) = au_empty m" "propertiesLen (au_built m) = word_of_nat (au_plen m)"
  by (simp_all add: au_built_def au_plen_def au_props_def au_empty_def)

lemma length_au_props: "length (au_props m) = au_plen m"
  by (simp add: au_props_def au_plen_def length_wire lp_len_def)

lemma length_au_body:
  "length (au_body m) = (if au_empty m then 0 else 1 + length (lb_wire (au_plen m)) + au_plen m)"
  by (simp add: au_body_def length_au_props)

lemma buildUserPropertyLen_zero: "buildUserPropertyLen ups = 0 \<longleftrightarrow> ups = []"
  by (cases ups rule: buildUserPropertyLen.cases) simp_all

text \<open>\<open>build\<close> and the writers use different tests for the short packet; they agree.\<close>

lemma au_empty_plen: "au_empty m \<longleftrightarrow> reasonCode m = Success \<and> au_plen m = 0"
  by (auto simp: au_empty_def au_plen_def lp_len_def buildUserPropertyLen_zero)

lemma au_body_bound: "au_ok m \<Longrightarrow> length (au_body m) \<le> 268435455"
  using length_lb_wire [of "au_plen m"] by (simp add: length_au_body au_ok_def)

lemma au_unat:
  assumes "au_ok m"
  shows "unat (remlen (au_built m)) = length (au_body m)" "unat (word_of_nat (au_plen m) :: u32) = au_plen m"
  using au_body_bound [OF assms] assms by (simp_all add: au_built_def unat_small au_ok_def)

lemma au_build_built:
  assumes ok: "au_ok m" shows "au_build m = Some (au_built m)"
proof -
  have u: "unat (word_of_nat (au_plen m) :: u32) = au_plen m" by (rule au_unat(2) [OF ok])
  then have z: "(word_of_nat (au_plen m) :: u32) = 0 \<longleftrightarrow> au_plen m = 0" by (metis unat_0 unat_eq_zero)
  have lb: "lbEncode (word_of_nat (au_plen m)) = Some (lb_wire (au_plen m))"
    using ok u by (simp add: lbEncode_spec word_less_nat_alt au_ok_def)
  have n: "\<not> (word_of_nat (length (au_body m)) :: u32) > maxRemainingLength"
    using au_body_bound [OF ok] by (simp add: maxRemainingLength_def word_less_nat_alt unat_small)
  have p: "au_plen (m\<lparr>propertiesLen := x\<rparr>) = au_plen m" for x by (simp add: au_plen_def)
  show ?thesis
    using n lb by (auto simp: au_build_def Let_def z au_empty_plen length_au_body SetRemainingLength_def au_built_def p
        ac_simps maxRemainingLength_def)
qed

lemma au_emits:
  assumes ok: "au_ok m"
  shows "emits_w (au_w (au_built m)) (au_body m)" "emits_b (au_b (au_built m)) (au_body m)"
proof -
  let ?n = "au_built m"
  have s: "short (authMethod ?n)" "short (authData ?n)" "short (reasonStr ?n)" "list_all short (userProperty ?n)"
    and p: "propertiesLen ?n < 268435456"
    using ok au_unat(2) [OF ok] by (simp_all add: au_ok_def word_less_nat_alt)
  have w: "au_body m = (if \<not> au_empty ?n then
      [reasonCode ?n] @
      lb_wire (unat (propertiesLen ?n)) @
      (if length (authMethod ?n) > 0 then [AuthenticationMethod] @ lp_wire (authMethod ?n) @ [] else []) @
      (if length (authData ?n) > 0 then [AuthenticationData] @ lp_wire (authData ?n) @ [] else []) @
      (if length (reasonStr ?n) > 0 then [ReasonString] @ lp_wire (reasonStr ?n) @ [] else []) @
      up_wire (userProperty ?n) @ [] else [])"
    by (simp add: au_body_def au_props_def au_unat(2) [OF ok])
  show "emits_w (au_w ?n) (au_body m)" unfolding au_w_def w by (intro emits s p)
  show "emits_b (au_b ?n) (au_body m)" unfolding au_b_def w by (intro emits s p)
qed

lemma au_header:
  assumes ok: "au_ok m"
  shows "header_ok (au_built m)" "flags_ok (au_built m)" "mtype (au_built m) = AUTH"
proof -
  show t: "mtype (au_built m) = AUTH" using ok mtype_cong [of "au_built m" m] by (simp add: au_ok_def)
  show "header_ok (au_built m)"
    using au_unat(1) [OF ok] au_body_bound [OF ok] ok
    by (simp add: header_ok_def t maxRemainingLength_def word_le_nat_alt) (simp add: au_ok_def type_Valid_def AUTH_def)
  show "flags_ok (au_built m)" using ok flags_ok_cong [of "au_built m" m] by (simp add: au_ok_def)
qed

interpretation auth: plain_packet au_build au_built au_body au_ok au_w au_b
  using au_build_built au_header au_unat(1) au_emits by unfold_locales simp_all

section \<open>Decoding the packet\<close>

lemma au_method_eats:
  assumes "not_next AuthenticationMethod rest" "\<not> c \<Longrightarrow> v = authMethod x" "short v"
  shows "eats au_method (if c then AuthenticationMethod # lp_wire v else []) rest x (x\<lparr>authMethod := v\<rparr>)"
  unfolding au_method_def
  by (rule eats_eq [OF eats_consumes [OF consumes_prop_stop [OF _ consumes_lp]] refl]) (use assms in simp_all)

lemma au_data_eats:
  assumes "not_next AuthenticationData rest" "\<not> c \<Longrightarrow> v = authData x" "short v"
  shows "eats au_data (if c then AuthenticationData # lp_wire v else []) rest x (x\<lparr>authData := v\<rparr>)"
  unfolding au_data_def
  by (rule eats_eq [OF eats_consumes [OF consumes_prop_stop [OF _ consumes_lp]] refl]) (use assms in simp_all)

lemma au_reasonStr_eats:
  assumes "not_next ReasonString rest" "\<not> c \<Longrightarrow> v = reasonStr x" "short v"
  shows "eats au_reasonStr (if c then ReasonString # lp_wire v else []) rest x (x\<lparr>reasonStr := v\<rparr>)"
  unfolding au_reasonStr_def
  by (rule eats_eq [OF eats_consumes [OF consumes_prop_stop [OF _ consumes_lp]] refl]) (use assms in simp_all)

lemma au_userProperty_eats:
  assumes "list_all short ups" "even (length ups)" "not_next UserProperty rest"
  shows "eats au_userProperty (up_wire ups) rest x (x\<lparr>userProperty := ups\<rparr>)"
  unfolding au_userProperty_def [abs_def] by (rule eats_consumes, rule consumes_up) (rule assms)+

lemmas au_ids = AuthenticationMethod_def AuthenticationData_def ReasonString_def UserProperty_def

lemma au_body_decoded:
  assumes ok: "au_ok n" and v: "ValidAuthReasonCode (reasonCode n)" and ev: "even (length (userProperty n))"
    and ns: "\<not> au_empty n" and x: "authMethod x = []" "authData x = []" "reasonStr x = []"
  shows "eats au_variable (au_body n) [] x
    (x\<lparr>reasonCode := reasonCode n, propertiesLen := word_of_nat (au_plen n), authMethod := authMethod n,
      authData := authData n, reasonStr := reasonStr n, userProperty := userProperty n\<rparr>)"
proof -
  have s: "short (authMethod n)" "short (authData n)" "short (reasonStr n)" "list_all short (userProperty n)"
    "au_plen n < 268435456"
    using ok by (simp_all add: au_ok_def)
  have w: "au_body n = [reasonCode n] @ [] @ lb_wire (au_plen n) @
      (if length (authMethod n) > 0 then AuthenticationMethod # lp_wire (authMethod n) else []) @
      (if length (authData n) > 0 then AuthenticationData # lp_wire (authData n) else []) @
      (if length (reasonStr n) > 0 then ReasonString # lp_wire (reasonStr n) else []) @
      up_wire (userProperty n) @ []"
    using ns by (simp add: au_body_def au_props_def)
  have u: "not_next pid (up_wire (userProperty n))" if "pid \<noteq> UserProperty" for pid
    using not_next_simps(3) [of pid "userProperty n" "[]"] that by (auto simp: not_next_def split: if_splits)
  show ?thesis
    unfolding au_variable_def w
    by (rule eats_eq [OF eats_Cons [OF eats_consumes [OF consumes_u8 [where f = "\<lambda>v. reasonCode_update (\<lambda>_. v)"]]
          eats_Cons [OF eats_test(1) eats_Cons [OF eats_consumes [OF consumes_lb [OF s(5)]]
          eats_Cons [OF au_method_eats eats_Cons [OF au_data_eats eats_Cons [OF au_reasonStr_eats
          eats_Cons [OF au_userProperty_eats eats_Nil]]]]]]] refl])
       (use v ev x in \<open>auto simp: s u au_ids\<close>)
qed

lemma NewAuthMessage_eq:
  "NewAuthMessage =
     \<lparr>remlen = 0, mtypeflags = [0xF0], packetId = [], dbuf = Slice [] [], dirty = True,
       reasonCode = 0, propertiesLen = 0, authMethod = [], authData = [], reasonStr = [], userProperty = []\<rparr>"
  by code_simp

lemma au_Decode_wire:
  assumes ok: "au_ok n" and v: "ValidAuthReasonCode (reasonCode n)" and ev: "even (length (userProperty n))"
  shows "\<exists>m'. au_Decode (Slice (au_wire n) ex) NewAuthMessage = Ret m' (length (au_wire n)) \<and>
    reasonCode m' = reasonCode n \<and> authMethod m' = authMethod n \<and> authData m' = authData n \<and>
    reasonStr m' = reasonStr n \<and> userProperty m' = userProperty n"
proof -
  define x1 where "x1 = NewAuthMessage\<lparr>dbuf := Slice (au_wire n) ex, mtypeflags := mtypeflags n, remlen := remlen (au_built n)\<rparr>"
  have m0: "length (mtypeflags NewAuthMessage) = 1" "mtype NewAuthMessage = AUTH"
    by (simp_all add: NewAuthMessage_eq mtype_def alloc_flags_def AUTH_def)
  have h: "hdecode (Slice (au_wire n) ex) NewAuthMessage = Ret x1 (length (header_wire (au_built n)))"
    using auth.header_decoded [OF ok refl _ m0(1), of ex] m0(2) au_header(3) [OF ok]
    by (simp add: au_wire_def x1_def remlen_optional_def type_defs)
  have room: "\<not> unat (remlen x1) > slen (Slice (au_wire n) ex) - length (header_wire (au_built n))"
    using au_unat(1) [OF ok] by (simp add: x1_def slen_def au_wire_def)
  show ?thesis
  proof (cases "au_empty n")
    case True
    then have b: "au_body n = []" by (simp add: au_body_def)
    then have "remlen x1 = 0" using au_unat(1) [OF ok] unat_eq_zero [of "remlen (au_built n)"] by (simp add: x1_def)
    then show ?thesis
      using h room True b by (simp add: au_Decode_def au_wire_def au_empty_def) (simp add: x1_def NewAuthMessage_eq)
  next
    case False
    have "length (au_body n) \<noteq> 0" using False by (simp add: au_body_def)
    then have "remlen x1 \<noteq> 0" using au_unat(1) [OF ok] by (auto simp: x1_def)
    moreover have x: "authMethod x1 = []" "authData x1 = []" "reasonStr x1 = []"
      by (simp_all add: x1_def NewAuthMessage_eq)
    moreover have "au_variable (Slice (au_wire n) ex) x1 (length (header_wire (au_built n))) =
        Ret (x1\<lparr>reasonCode := reasonCode n, propertiesLen := word_of_nat (au_plen n), authMethod := authMethod n,
          authData := authData n, reasonStr := reasonStr n, userProperty := userProperty n\<rparr>) (length (au_wire n))"
      using eatsD [OF au_body_decoded [OF ok v ev False x] refl, of "header_wire (au_built n)" ex]
      by (simp add: au_wire_def)
    ultimately show ?thesis using room by (simp add: au_Decode_def h)
  qed
qed

text \<open>An AUTH that is dirty and can be sent is written to a slice and to a buffer as the same packet, whose length
  \<open>Len\<close> reports; a new AUTH that decodes the packet gets the reason code and the properties back.\<close>

theorem auth_codec:
  assumes "dirty n" "au_ok n" "length (au_wire n) \<le> length dst"
  shows "au_Len n = Some (au_built n, length (au_wire n)) \<and>
    au_Encode n dst = (au_built n, Ret (au_wire n @ drop (length (au_wire n)) dst) (length (au_wire n))) \<and>
    au_EncodeToBuf n buf = (au_built n, Ret (buf @ au_wire n) (length buf + length (au_wire n))) \<and>
    (ValidAuthReasonCode (reasonCode n) \<and> even (length (userProperty n)) \<longrightarrow>
      (\<exists>m'. au_Decode (Slice (au_wire n) ex) NewAuthMessage = Ret m' (length (au_wire n)) \<and>
        reasonCode m' = reasonCode n \<and> authMethod m' = authMethod n \<and> authData m' = authData n \<and>
        reasonStr m' = reasonStr n \<and> userProperty m' = userProperty n))"
proof -
  have t: "mtype n = AUTH" using assms(2) by (simp add: au_ok_def)
  show ?thesis
    using auth.encoders_agree [OF assms(1,2), folded au_wire_def, OF assms(3)] au_Decode_wire [OF assms(2)] t
    by (simp add: au_Len_def au_Encode_def au_EncodeToBuf_def)
qed

section \<open>Witnesses\<close>

definition demo_auth :: auth where
  "demo_auth = SetAuthData [7, 8] (SetAuthMethod [120] (SetReasonCode ContinueAuthentication NewAuthMessage))"

lemma demo_auth_eq:
  "demo_auth =
     \<lparr>remlen = 0, mtypeflags = [0xF0], packetId = [], dbuf = Slice [] [], dirty = True,
       reasonCode = 0x18, propertiesLen = 0, authMethod = [120], authData = [7, 8], reasonStr = [], userProperty = []\<rparr>"
  by code_simp

lemma demo_auth_ok: "au_ok demo_auth" "length (au_wire demo_auth) \<le> 64"
proof -
  have "mtype demo_auth = AUTH" "flags_ok demo_auth" "au_plen demo_auth = 9" by code_simp+
  then show ok: "au_ok demo_auth" by (simp add: au_ok_def) (simp add: demo_auth_eq short_def)
  have "length (au_body demo_auth) \<le> 14"
    using \<open>au_plen demo_auth = 9\<close> length_lb_wire [of 9] by (simp add: length_au_body)
  moreover have "length (lb_wire (unat (remlen (au_built demo_auth)))) \<le> 4"
    using au_body_bound [OF ok] by (intro length_lb_wire) (simp add: au_unat(1) [OF ok])
  ultimately show "length (au_wire demo_auth) \<le> 64" by (simp add: au_wire_def header_wire_def)
qed

theorem auth_codec_witness:
  "au_Encode demo_auth (replicate 64 0) =
      (au_built demo_auth, Ret (au_wire demo_auth @ drop (length (au_wire demo_auth)) (replicate 64 0)) (length (au_wire demo_auth))) \<and>
    (\<exists>m'. au_Decode (Slice (au_wire demo_auth) []) NewAuthMessage = Ret m' (length (au_wire demo_auth)) \<and>
      reasonCode m' = 0x18 \<and> authMethod m' = [120] \<and> authData m' = [7, 8])"
proof -
  have d: "dirty demo_auth" "ValidAuthReasonCode (reasonCode demo_auth)" "even (length (userProperty demo_auth))"
    "reasonCode demo_auth = 0x18" "authMethod demo_auth = [120]" "authData demo_auth = [7, 8]"
    by (simp_all add: demo_auth_eq ValidAuthReasonCode_def ContinueAuthentication_def)
  have l: "length (au_wire demo_auth) \<le> length (replicate 64 (0 :: byte))" using demo_auth_ok(2) by simp
  show ?thesis using auth_codec [OF d(1) demo_auth_ok(1) l, of "[]" "[]"] d(2-6) by auto
qed

section \<open>Remarks\<close>

text \<open>
  The reason code the server sends for an unknown authentication method is none that the decoder of
  DISCONNECT accepts.
\<close>

definition InvalidAuthenticationMethod :: byte where "InvalidAuthenticationMethod = 0x8C"

lemma invalid_method_undecodable: "\<not> ValidDisconnectReasonCode InvalidAuthenticationMethod"
  by (simp add: ValidDisconnectReasonCode_def InvalidAuthenticationMethod_def)

end
