(* ===== verification/ConnRead.thy ===== *)
theory ConnRead
  imports SendRecv
begin

text \<open>
  Reading a packet from a connection. During the handshake the server reads from the \<open>net.Conn\<close>
  itself (\<open>getMessageBuffer\<close> of \<open>corev5/v2/service/misc.go\<close>), later getty hands what it has received to
  the package handler (\<open>getty_pkg_handler.go\<close>).
\<close>

section \<open>A connection\<close>

text \<open>
  What the network delivers comes in segments, possibly empty, in whatever sizes; \<open>cn_err\<close> is the error of a
  \<open>Read\<close> when no more comes. \<open>cn_out\<close> is the state of the sending side.
\<close>

record 'w conn =
  cn_in :: "bytes list"
  cn_err :: goerr
  cn_out :: 'w

definition conn_Read :: "nat \<Rightarrow> 'w conn \<Rightarrow> 'w conn \<times> (goerr + bytes)" where
  "conn_Read k c =
     (case cn_in c of
        [] \<Rightarrow> (c, Inl (cn_err c))
      | s # ss \<Rightarrow>
          if length s \<le> k then (c\<lparr>cn_in := ss\<rparr>, Inr s) else (c\<lparr>cn_in := drop k s # ss\<rparr>, Inr (take k s)))"

section \<open>getMessageBuffer\<close>

text \<open>
  How much a connection has to deliver, counting its segments. Every successful read makes it less, so the
  two loops end.
\<close>

definition cn_left :: "'w conn \<Rightarrow> nat" where "cn_left c = sum_list (map (\<lambda>s. Suc (length s)) (cn_in c))"

lemma conn_Read_left: "(c', Inr b) = conn_Read k c \<Longrightarrow> 0 < k \<Longrightarrow> cn_left c' < cn_left c"
  by (auto simp: conn_Read_def cn_left_def split: list.splits if_splits)

text \<open>
  The header, byte by byte. A read of one byte that returns none is tried again. More than five bytes
  are refused when the loop comes round, so a remaining length of five bytes is accepted.
\<close>

function read_head :: "bytes \<Rightarrow> 'w conn \<Rightarrow> 'w conn \<times> (goerr + bytes)" where
  "read_head buf c =
     (if length buf > 5 then
        (c, Inl (Errorf ''connect/getMessage: 4th byte of remaining length has continuation bit set''))
      else case conn_Read 1 c of
        (c', Inl e) \<Rightarrow> (c', Inl e)
      | (c', Inr []) \<Rightarrow> read_head buf c'
      | (c', Inr (b # _)) \<Rightarrow>
          (if length (buf @ [b]) > 1 \<and> b < 0x80 then (c', Inr (buf @ [b])) else read_head (buf @ [b]) c'))"
  by pat_completeness auto
termination
  by (relation "measure (\<lambda>(buf, c). cn_left c)") (simp_all add: conn_Read_left)

text \<open>The rest: \<open>need\<close> bytes of \<open>buf\<close> are still missing.\<close>

function read_rest :: "nat \<Rightarrow> bytes \<Rightarrow> 'w conn \<Rightarrow> 'w conn \<times> (goerr + bytes)" where
  "read_rest need buf c =
     (if need = 0 then (c, Inr buf)
      else case conn_Read need c of
        (c', Inl e) \<Rightarrow> (c', Inl e)
      | (c', Inr b) \<Rightarrow> read_rest (need - length b) (buf @ b) c')"
  by pat_completeness auto
termination
  by (relation "measure (\<lambda>(need, buf, c). cn_left c)") (simp_all add: conn_Read_left)

declare read_head.simps [simp del] read_rest.simps [simp del]

definition getMessageBuffer :: "'w conn \<Rightarrow> 'w conn \<times> (goerr + bytes)" where
  "getMessageBuffer c =
     (case read_head [] c of
        (c', Inl e) \<Rightarrow> (c', Inl e)
      | (c', Inr buf) \<Rightarrow> read_rest (unat (fst (Uvarint (tl buf)))) buf c')"

section \<open>The package handler\<close>

text \<open>
  The loop over the length bytes. Where \<open>data\<close> is too short it goes round without a change, for ever:
  then it has no value.
\<close>

partial_function (option) getty_head :: "nat \<Rightarrow> bytes \<Rightarrow> (goerr option) option" where
  [code]: "getty_head cnt data =
     (if cnt > 5 then Some (Some (Errorf ''sendrecv/peekMessageSize: 4th byte of remaining length has continuation bit set''))
      else if length data < cnt then getty_head cnt data
      else if data ! (cnt - 1) \<ge> 0x80 then getty_head (cnt + 1) data
      else Some None)"

text \<open>
  The result: the error, nothing because the packet is not complete, or what the decoder makes of it.
\<close>

datatype 'm got_pkg = NoPkg | BadPkg goerr | Pkg "'m outcome"

definition getty_Read ::
    "(byte \<Rightarrow> goerr + 'm) \<Rightarrow> (slice \<Rightarrow> 'm \<Rightarrow> 'm outcome) \<Rightarrow> bytes \<Rightarrow> 'm got_pkg option" where
  "getty_Read New Decode data =
     (case getty_head 2 data of
        None \<Rightarrow> None
      | Some (Some e) \<Rightarrow> Some (BadPkg e)
      | Some None \<Rightarrow>
          (case Uvarint (tl data) of (rl, m) \<Rightarrow>
             (let total = sint rl + 1 + m in
              if total > int (length data) then Some NoPkg
              else case New (drop_bit 4 (data ! 0)) of
                Inl e \<Rightarrow> Some (BadPkg e)
              | Inr msg \<Rightarrow> Some (Pkg (Decode (Slice (take (nat total) data) (drop (nat total) data)) msg)))))"

section \<open>A packet is read whatever the segments\<close>

lemma conn_Read_concat:
  "conn_Read k c = (c', Inr b) \<Longrightarrow> concat (cn_in c) = b @ concat (cn_in c') \<and> length b \<le> k \<and> cn_err c' = cn_err c \<and> cn_out c' = cn_out c"
  by (auto simp: conn_Read_def split: list.splits if_splits)

lemma conn_Read_fails: "conn_Read k c = (c', Inl e) \<Longrightarrow> cn_in c = [] \<and> c' = c \<and> e = cn_err c"
  by (auto simp: conn_Read_def split: list.splits if_splits)

definition consumed :: "'w conn \<Rightarrow> bytes \<Rightarrow> 'w conn \<Rightarrow> bool" where
  "consumed c bs c' \<longleftrightarrow> concat (cn_in c) = bs @ concat (cn_in c') \<and> cn_err c' = cn_err c \<and> cn_out c' = cn_out c"

lemma read_rest_ok:
  "need \<le> length (concat (cn_in c)) \<Longrightarrow>
     \<exists>c'. read_rest need buf c = (c', Inr (buf @ take need (concat (cn_in c)))) \<and> consumed c (take need (concat (cn_in c))) c'"
proof (induction need buf c rule: read_rest.induct)
  case (1 need buf c)
  show ?case
  proof (cases "need = 0")
    case True
    then show ?thesis by (simp add: read_rest.simps [of 0] consumed_def)
  next
    case False
    obtain c1 r where r: "conn_Read need c = (c1, r)" by force
    show ?thesis
    proof (cases r)
      case (Inl e)
      then show ?thesis using conn_Read_fails [of need c c1 e] r 1(2) False by auto
    next
      case (Inr b)
      note rd = conn_Read_concat [of need c c1 b, unfolded r Inr, OF refl]
      have "need - length b \<le> length (concat (cn_in c1))" using rd 1(2) by simp
      from 1(1) [OF False r [symmetric] Inr this] obtain c2 where
        c2: "read_rest (need - length b) (buf @ b) c1 = (c2, Inr ((buf @ b) @ take (need - length b) (concat (cn_in c1))))"
          "consumed c1 (take (need - length b) (concat (cn_in c1))) c2" by blast
      have "read_rest need buf c = read_rest (need - length b) (buf @ b) c1"
        using False r Inr by (simp add: read_rest.simps [of need])
      then show ?thesis using c2 rd by (simp add: consumed_def)
    qed
  qed
qed

lemma read_rest_short:
  "length (concat (cn_in c)) < need \<Longrightarrow> \<exists>c'. read_rest need buf c = (c', Inl (cn_err c)) \<and> concat (cn_in c') = []"
proof (induction need buf c rule: read_rest.induct)
  case (1 need buf c)
  have nz: "need \<noteq> 0" using 1(2) by simp
  obtain c1 r where r: "conn_Read need c = (c1, r)" by force
  show ?case
  proof (cases r)
    case (Inl e)
    then show ?thesis using conn_Read_fails [of need c c1 e] r nz by (simp add: read_rest.simps [of need])
  next
    case (Inr b)
    note rd = conn_Read_concat [of need c c1 b, unfolded r Inr, OF refl]
    have "length (concat (cn_in c1)) < need - length b" using rd 1(2) by simp
    from 1(1) [OF nz r [symmetric] Inr this] show ?thesis using r Inr nz rd by (simp add: read_rest.simps [of need])
  qed
qed

lemma header_end:
  assumes "0 < i" "i \<le> length (lb_wire n)"
  shows "(b0 # lb_wire n) ! i < 128 \<longleftrightarrow> i = length (lb_wire n)"
proof (cases "i = length (lb_wire n)")
  case True
  then have "(b0 # lb_wire n) ! i = last (lb_wire n)" using assms(1) by (simp add: last_conv_nth)
  then show ?thesis using True lb_wire_last by simp
next
  case False
  then show ?thesis using lb_wire_continued [of "i - 1" n] assms by (simp add: not_less nth_Cons')
qed

lemma take_header:
  "i \<le> length (lb_wire n) \<Longrightarrow> take (Suc i) (b0 # lb_wire n) = take i (b0 # lb_wire n) @ [(b0 # lb_wire n) ! i]"
  by (rule take_Suc_conv_app_nth) simp

text \<open>Where the loop has read \<open>i\<close> bytes of the header, and the next read gives one more.\<close>

lemma read_head_step:
  assumes "conn_Read 1 c = (c1, Inr (b # bs))" "i \<le> length (lb_wire n)" "length (lb_wire n) \<le> 4"
    "concat (cn_in c) = ((b0 # lb_wire n) ! i) # suffix"
  shows "bs = []" "b = (b0 # lb_wire n) ! i" "concat (cn_in c1) = suffix"
    "read_head (take i (b0 # lb_wire n)) c =
      (if i = length (lb_wire n) then (c1, Inr (b0 # lb_wire n)) else read_head (take (Suc i) (b0 # lb_wire n)) c1)"
proof -
  let ?H = "b0 # lb_wire n"
  show b: "bs = []" "b = ?H ! i" "concat (cn_in c1) = suffix"
    using conn_Read_concat [OF assms(1)] assms(4) by auto
  have t: "take i ?H @ [b] = take (Suc i) ?H" unfolding b(2) by (rule take_header [symmetric]) (rule assms(2))
  have "0 < length (lb_wire n)" by (cases "lb_wire n") auto
  then have e: "length (take (Suc i) ?H) > 1 \<and> b < 128 \<longleftrightarrow> i = length (lb_wire n)"
    using assms(2) header_end [of i n b0] by (cases "i = 0") (auto simp: b(2))
  have full: "i = length (lb_wire n) \<Longrightarrow> take (Suc i) ?H = ?H" by simp
  have "read_head (take i ?H) c =
      (if length (take (Suc i) ?H) > 1 \<and> b < 128 then (c1, Inr (take (Suc i) ?H)) else read_head (take (Suc i) ?H) c1)"
    unfolding t [symmetric] using assms(1-3) by (subst read_head.simps) simp
  then show "read_head (take i ?H) c = (if i = length (lb_wire n) then (c1, Inr ?H) else read_head (take (Suc i) ?H) c1)"
    unfolding e using full by (simp split: if_splits)
qed

lemma read_head_again: "conn_Read 1 c = (c1, Inr []) \<Longrightarrow> length buf \<le> 5 \<Longrightarrow> read_head buf c = read_head buf c1"
  by (subst read_head.simps) simp

lemma read_head_ok:
  "buf = take i (b0 # lb_wire n) \<Longrightarrow> i \<le> length (lb_wire n) \<Longrightarrow> length (lb_wire n) \<le> 4 \<Longrightarrow>
     concat (cn_in c) = drop i (b0 # lb_wire n) @ rest \<Longrightarrow>
     \<exists>c'. read_head buf c = (c', Inr (b0 # lb_wire n)) \<and> concat (cn_in c') = rest \<and> cn_err c' = cn_err c \<and> cn_out c' = cn_out c"
proof (induction buf c arbitrary: i rule: read_head.induct)
  case (1 buf c)
  let ?H = "b0 # lb_wire n"
  have short: "\<not> 5 < length buf" using "1.prems"(1-3) by simp
  obtain c1 r where r: "conn_Read 1 c = (c1, r)" by force
  have st: "concat (cn_in c) = ?H ! i # drop (Suc i) ?H @ rest"
    using "1.prems"(2,4) by (simp add: Cons_nth_drop_Suc del: drop_Suc_Cons)
  show ?case
  proof (cases r)
    case (Inl e)
    then show ?thesis using conn_Read_fails [of 1 c c1 e] r st by simp
  next
    case (Inr bb)
    note rd = conn_Read_concat [of 1 c c1 bb, unfolded r Inr, OF refl]
    show ?thesis
    proof (cases bb)
      case Nil
      have "\<exists>c'. read_head buf c1 = (c', Inr ?H) \<and> concat (cn_in c') = rest \<and> cn_err c' = cn_err c1 \<and> cn_out c' = cn_out c1"
        by (rule "1.IH"(1) [OF short r [symmetric] Inr Nil "1.prems"(1-3)]) (use rd Nil "1.prems"(4) in simp)
      then show ?thesis using read_head_again [of c c1 buf] r Inr Nil short rd by auto
    next
      case (Cons b bs)
      note step = read_head_step [OF r [unfolded Inr Cons] "1.prems"(2,3) st]
      show ?thesis
      proof (cases "i = length (lb_wire n)")
        case True
        then show ?thesis using step(3,4) rd "1.prems"(1) by simp
      next
        case False
        have nx: "\<not> (1 < length (buf @ [b]) \<and> b < 128)"
          using False header_end [of i n b0] "1.prems"(1,2) step(2) by (cases "i = 0") auto
        have "buf @ [b] = take (Suc i) ?H" using "1.prems"(1) step(2) take_header [OF "1.prems"(2), of b0] by (simp only:)
        from "1.IH"(2) [OF short r [symmetric] Inr Cons nx this _ "1.prems"(3)] step(3) False "1.prems"(2)
        show ?thesis using step(4) False rd "1.prems"(1) \<open>buf @ [b] = take (Suc i) ?H\<close> by auto
      qed
    qed
  qed
qed

lemma read_head_short:
  "buf = take i (b0 # lb_wire n) \<Longrightarrow> i \<le> k \<Longrightarrow> k \<le> length (lb_wire n) \<Longrightarrow> length (lb_wire n) \<le> 4 \<Longrightarrow>
     concat (cn_in c) = drop i (take k (b0 # lb_wire n)) \<Longrightarrow>
     \<exists>c'. read_head buf c = (c', Inl (cn_err c)) \<and> concat (cn_in c') = []"
proof (induction buf c arbitrary: i rule: read_head.induct)
  case (1 buf c)
  let ?H = "b0 # lb_wire n"
  have short: "\<not> 5 < length buf" using "1.prems"(1-4) by simp
  obtain c1 r where r: "conn_Read 1 c = (c1, r)" by force
  show ?case
  proof (cases r)
    case (Inl e)
    then show ?thesis using conn_Read_fails [of 1 c c1 e] r short by (subst read_head.simps) simp
  next
    case (Inr bb)
    note rd = conn_Read_concat [of 1 c c1 bb, unfolded r Inr, OF refl]
    show ?thesis
    proof (cases bb)
      case Nil
      have "\<exists>c'. read_head buf c1 = (c', Inl (cn_err c1)) \<and> concat (cn_in c') = []"
        by (rule "1.IH"(1) [OF short r [symmetric] Inr Nil "1.prems"(1-4)]) (use rd Nil "1.prems"(5) in simp)
      then show ?thesis using read_head_again [of c c1 buf] r Inr Nil short rd by auto
    next
      case (Cons b bs)
      have ik: "i < k" using rd Cons "1.prems"(2,5) by (cases "i = k") auto
      have st: "concat (cn_in c) = ?H ! i # drop (Suc i) (take k ?H)"
        using "1.prems"(5,3) ik by (simp add: Cons_nth_drop_Suc [symmetric] del: drop_Suc_Cons take_Suc_Cons)
      have il: "i \<le> length (lb_wire n)" "i \<noteq> length (lb_wire n)" using ik "1.prems"(3) by simp_all
      note step = read_head_step [OF r [unfolded Inr Cons] il(1) "1.prems"(4) st]
      have nx: "\<not> (1 < length (buf @ [b]) \<and> b < 128)"
        using il header_end [of i n b0] "1.prems"(1) step(2) by (cases "i = 0") auto
      have "buf @ [b] = take (Suc i) ?H" using "1.prems"(1) step(2) take_header [OF il(1), of b0] by (simp only:)
      from "1.IH"(2) [OF short r [symmetric] Inr Cons nx this _ "1.prems"(3,4)] step(3) ik
      show ?thesis using step(4) il rd "1.prems"(1) \<open>buf @ [b] = take (Suc i) ?H\<close> by auto
    qed
  qed
qed

lemma body_length:
  assumes "length body < 2 ^ 28"
  shows "unat (fst (Uvarint (lb_wire (length body)))) = length body" "length (lb_wire (length body)) \<le> 4"
proof -
  show "length (lb_wire (length body)) \<le> 4" using length_lb_wire(2) [of "length body"] assms by simp
  have "Uvarint (lb_wire (length body)) = (word_of_nat (length body), int (length (lb_wire (length body))))"
    using Uvarint_wire [of "length body" "[]"] assms by simp
  moreover have "unat (word_of_nat (length body) :: u64) = length body"
    using assms by (simp add: unsigned_of_nat take_bit_nat_eq_self)
  ultimately show "unat (fst (Uvarint (lb_wire (length body)))) = length body" by simp
qed

lemma getMessageBuffer_head:
  assumes "length body < 2 ^ 28"
  shows "concat (cn_in c) = (b0 # lb_wire (length body)) @ suffix \<Longrightarrow>
      \<exists>c1. read_head [] c = (c1, Inr (b0 # lb_wire (length body))) \<and> concat (cn_in c1) = suffix \<and> cn_err c1 = cn_err c \<and> cn_out c1 = cn_out c"
    and "read_head [] c = (c1, Inr (b0 # lb_wire (length body))) \<Longrightarrow>
      getMessageBuffer c = read_rest (length body) (b0 # lb_wire (length body)) c1"
  using read_head_ok [of "[]" 0 b0 "length body" c suffix] body_length [OF assms] by (simp_all add: getMessageBuffer_def)

lemma getMessageBuffer_whole:
  assumes "length body < 2 ^ 28" "concat (cn_in c) = packet b0 body @ rest"
  shows "\<exists>c'. getMessageBuffer c = (c', Inr (packet b0 body)) \<and> concat (cn_in c') = rest \<and> cn_err c' = cn_err c \<and> cn_out c' = cn_out c"
proof -
  let ?L = "lb_wire (length body)"
  obtain c1 where c1: "read_head [] c = (c1, Inr (b0 # ?L))" "concat (cn_in c1) = body @ rest" "cn_err c1 = cn_err c" "cn_out c1 = cn_out c"
    using getMessageBuffer_head(1) [OF assms(1), of c b0 "body @ rest"] assms(2) by (auto simp: packet_def)
  then show ?thesis
    using read_rest_ok [of "length body" c1 "b0 # ?L"] getMessageBuffer_head(2) [OF assms(1) c1(1)] by (auto simp: consumed_def packet_def)
qed

lemma getMessageBuffer_part:
  assumes "length body < 2 ^ 28" and k: "k < length (packet b0 body)" "concat (cn_in c) = take k (packet b0 body)"
  shows "\<exists>c'. getMessageBuffer c = (c', Inl (cn_err c)) \<and> concat (cn_in c') = []"
proof (cases "k \<le> length (lb_wire (length body))")
  case True
  then have "concat (cn_in c) = take k (b0 # lb_wire (length body))" using k(2) by (cases k) (simp_all add: packet_def)
  then obtain c1 where "read_head [] c = (c1, Inl (cn_err c))" "concat (cn_in c1) = []"
    using read_head_short [of "[]" 0 b0 "length body" k c] True body_length(2) [OF assms(1)] by auto
  then show ?thesis by (simp add: getMessageBuffer_def)
next
  let ?L = "lb_wire (length body)"
  case False
  have "concat (cn_in c) = (b0 # ?L) @ take (k - Suc (length ?L)) body"
    using k(2) False by (cases k) (simp_all add: packet_def)
  then obtain c1 where c1: "read_head [] c = (c1, Inr (b0 # ?L))" "concat (cn_in c1) = take (k - Suc (length ?L)) body" "cn_err c1 = cn_err c"
    using getMessageBuffer_head(1) [OF assms(1)] by blast
  have "length (concat (cn_in c1)) < length body" using k(1) False c1(2) by (simp add: packet_def)
  from read_rest_short [OF this, of "b0 # ?L"] show ?thesis using getMessageBuffer_head(2) [OF assms(1) c1(1)] c1(3) by auto
qed

text \<open>C35: In whatever segments the bytes of a packet arrive, empty ones included, \<open>getMessageBuffer\<close> returns the packet and
  leaves what follows it on the connection; where the connection ends within the packet it returns the
  connection's error.\<close>

theorem getMessageBuffer_packet:
  assumes "length body < 2 ^ 28"
  shows "(\<forall>rest. concat (cn_in c) = packet b0 body @ rest \<longrightarrow>
      (\<exists>c'. getMessageBuffer c = (c', Inr (packet b0 body)) \<and> concat (cn_in c') = rest \<and> cn_err c' = cn_err c \<and> cn_out c' = cn_out c)) \<and>
    (\<forall>k < length (packet b0 body). concat (cn_in c) = take k (packet b0 body) \<longrightarrow>
      (\<exists>c'. getMessageBuffer c = (c', Inl (cn_err c)) \<and> concat (cn_in c') = []))"
  using getMessageBuffer_whole [OF assms] getMessageBuffer_part [OF assms] by blast

section \<open>When the package handler returns\<close>

lemma getty_head_spins: "length data < cnt \<Longrightarrow> cnt \<le> 5 \<Longrightarrow> getty_head cnt data = None"
proof (rule ccontr)
  let ?P = "\<lambda>cnt (data :: bytes) (y :: goerr option). \<not> (length data < cnt \<and> cnt \<le> 5)"
  assume a: "length data < cnt" "cnt \<le> 5" "getty_head cnt data \<noteq> None"
  then obtain y where y: "getty_head cnt data = Some y" by blast
  have "?P cnt data y"
  proof (rule getty_head.raw_induct [where P = ?P, OF _ y])
    fix g cnt' data' y'
    assume ih: "\<And>cnt data y. g cnt data = Some y \<Longrightarrow> ?P cnt data y"
      and s: "(if cnt' > 5 then Some (Some (Errorf ''sendrecv/peekMessageSize: 4th byte of remaining length has continuation bit set''))
        else if length data' < cnt' then g cnt' data'
        else if data' ! (cnt' - 1) \<ge> 0x80 then g (cnt' + 1) data'
        else Some None) = Some y'"
    show "?P cnt' data' y'"
    proof
      assume b: "length data' < cnt' \<and> cnt' \<le> 5"
      then have "g cnt' data' = Some y'" using s by simp
      from ih [OF this] b show False by blast
    qed
  qed
  with a show False by blast
qed

lemma getty_head_unfold:
  "getty_head cnt data =
     (if cnt > 5 then Some (Some (Errorf ''sendrecv/peekMessageSize: 4th byte of remaining length has continuation bit set''))
      else if length data < cnt then None
      else if data ! (cnt - 1) \<ge> 0x80 then getty_head (cnt + 1) data
      else Some None)"
  using getty_head_spins [of data cnt] by (subst getty_head.simps) auto

lemma getty_head_four:
  "getty_head 2 data =
     (if length data < 2 then None else if data ! 1 < 0x80 then Some None
      else if length data < 3 then None else if data ! 2 < 0x80 then Some None
      else if length data < 4 then None else if data ! 3 < 0x80 then Some None
      else if length data < 5 then None else if data ! 4 < 0x80 then Some None
      else Some (Some (Errorf ''sendrecv/peekMessageSize: 4th byte of remaining length has continuation bit set'')))"
  by (simp add: getty_head_unfold [of 2] getty_head_unfold [of 3] getty_head_unfold [of 4] getty_head_unfold [of 5]
      getty_head_unfold [of 6] not_le [symmetric])

text \<open>C36: The package handler returns exactly where the length bytes are complete: if one of the four bytes behind the type
  is there and has no continuation bit, or all four are there. On less, the single type byte included, the loop goes
  round for ever and the goroutine of the connection never returns to wait for more.\<close>

theorem getty_Read_returns:
  "getty_Read New Decode data \<noteq> None \<longleftrightarrow> length data \<ge> 5 \<or> (\<exists>i \<in> {1..4}. i < length data \<and> data ! i < 0x80)"
proof -
  have "getty_Read New Decode data \<noteq> None \<longleftrightarrow> getty_head 2 data \<noteq> None"
    by (auto simp: getty_Read_def Let_def split: option.splits prod.splits sum.splits)
  moreover have "(\<exists>i \<in> {1..4}. P i) \<longleftrightarrow> P 1 \<or> P 2 \<or> P 3 \<or> P (4 :: nat)" for P
    by (auto simp: numeral_eq_Suc le_Suc_eq)
  ultimately show ?thesis by (auto simp: getty_head_four)
qed

text \<open>On a complete packet the handler returns what the decoder makes of it.\<close>

lemma getty_Read_packet:
  assumes "length body < 2 ^ 28"
  shows "getty_Read New Decode (packet b0 body @ rest) =
    Some (case New (drop_bit 4 b0) of Inl e \<Rightarrow> BadPkg e | Inr m \<Rightarrow> Pkg (Decode (Slice (packet b0 body) rest) m))"
proof -
  let ?L = "lb_wire (length body)" and ?d = "packet b0 body @ rest"
  note L = body_length [OF assms]
  have at: "?d ! Suc i = ?L ! i" if "i < length ?L" for i using that by (rule packet_nth)
  have l: "Suc (length ?L) \<le> length ?d" by (simp add: packet_def)
  have nz: "0 < length ?L" by (cases ?L) auto
  have small: "?d ! i < 128 \<longleftrightarrow> i = length ?L" if "0 < i" "i \<le> length ?L" for i
    using header_end [of i "length body" b0] that at [of "i - 1"] by (cases i) auto
  have h: "getty_head cnt ?d = Some None" if "2 \<le> cnt" "cnt \<le> Suc (length ?L)" for cnt
    using that
  proof (induction "Suc (length ?L) - cnt" arbitrary: cnt rule: less_induct)
    case less
    have c: "cnt \<le> 5" "\<not> length ?d < cnt" using less.prems L(2) l by simp_all
    show ?case
    proof (cases "cnt = Suc (length ?L)")
      case True
      then have "\<not> 128 \<le> ?d ! (cnt - 1)" using small [of "cnt - 1"] nz by (simp add: not_le)
      then show ?thesis using c by (subst getty_head_unfold) simp
    next
      case False
      then have "cnt - 1 \<noteq> length ?L" "cnt - 1 \<le> length ?L" "0 < cnt - 1" using less.prems by simp_all
      then have "128 \<le> ?d ! (cnt - 1)" using small [of "cnt - 1"] by (simp add: not_less [symmetric])
      then have "getty_head cnt ?d = getty_head (cnt + 1) ?d" using c by (subst getty_head_unfold) simp
      then show ?thesis using less.hyps [of "cnt + 1"] less.prems False by simp
    qed
  qed
  have u: "Uvarint (tl ?d) = (word_of_nat (length body), int (length ?L))"
    using Uvarint_wire [of "length body" "body @ rest"] assms by (simp add: packet_def)
  have t: "sint (word_of_nat (length body) :: u64) + 1 + int (length ?L) = int (length (packet b0 body))"
    using sint_small [of "length body"] assms by (simp add: packet_def)
  have "getty_head 2 ?d = Some None" by (intro h) (use nz in linarith)+
  moreover have "nat (1 + (int (length ?L) + int (length body))) = Suc (length ?L + length body)" by linarith
  ultimately show ?thesis by (simp add: getty_Read_def u t) (simp add: packet_def Let_def split: sum.splits)
qed

section \<open>Witnesses\<close>

theorem getMessageBuffer_packet_witness:
  "\<exists>c'. getMessageBuffer \<lparr>cn_in = [[0x10], [], [2, 7], [8, 9]], cn_err = EOF, cn_out = ()\<rparr> = (c', Inr [0x10, 2, 7, 8]) \<and>
    concat (cn_in c') = [9]"
proof -
  have p: "packet 0x10 [7, 8] = [0x10, 2, 7, 8]" by (simp add: packet_def lb_wire.simps [of "Suc (Suc 0)"])
  let ?c = "\<lparr>cn_in = [[0x10], [], [2, 7], [8, 9]], cn_err = EOF, cn_out = ()\<rparr>"
  have "length [7, 8 :: byte] < 2 ^ 28" "concat (cn_in ?c) = packet 0x10 [7, 8] @ [9]" by (simp_all add: p)
  from getMessageBuffer_packet [THEN conjunct1, rule_format, OF this] show ?thesis unfolding p by blast
qed

end
