(* ===== verification/Handshake.thy ===== *)
theory Handshake
  imports ConnRead Connack Auth Message Service
begin

text \<open>
  The handshake of a connection: \<open>conAuth\<close> and \<open>auth\<close> of \<open>corev5/v2/service/server.go\<close> with the functions of
  \<open>misc.go\<close> that read and write single messages, and the authenticators of \<open>corev5/v2/auth\<close>. \<open>None\<close> is a panic.
\<close>

section \<open>Environment\<close>

text \<open>
  The configuration of the broker, the sending side of \<open>net.Conn\<close>, the \<open>Authenticator\<close>, and the verifiers of
  the allowed methods of enhanced authentication with their state \<open>'v\<close>. The error of \<open>Verify\<close> stands as its text,
  which is all that is used of it. \<open>hs_spare n\<close> is the capacity behind the \<open>n\<close> bytes \<open>getMessageBuffer\<close> returns.
\<close>

record ('w, 'v) hs_env =
  hs_Write :: "bytes \<Rightarrow> 'w \<Rightarrow> 'w \<times> goerr option"
  hs_spare :: "nat \<Rightarrow> bytes"
  hs_Authenticate :: "bytes \<Rightarrow> bytes \<Rightarrow> goerr option"
  hs_Allows :: "bytes list"
  hs_Verify :: "bytes \<Rightarrow> bytes \<Rightarrow> 'v \<Rightarrow> 'v \<times> (bytes + bytes \<times> bool)"
  hs_CloseShareSub :: bool
  hs_AllowZeroLengthClientId :: bool
  hs_MaxKeepalive :: u16
  hs_MaxPacketSize :: u32
  hs_MaxQos :: int
  hs_RetainAvailable :: bool
  hs_RedirectOpen :: bool
  hs_RedirectIsForEver :: bool
  hs_Redirects :: "bytes list"
  hs_Keepalive :: int

definition UserNameOrPasswordIsIncorrect :: byte where "UserNameOrPasswordIsIncorrect = 0x86"
definition UnAuthorized :: byte where "UnAuthorized = 0x87"
definition MessageTooLong :: byte where "MessageTooLong = 0x95"
definition UseOtherServers :: byte where "UseOtherServers = 0x9C"
definition ServerHasMoved :: byte where "ServerHasMoved = 0x9D"

section \<open>Authenticators\<close>

definition noAuth_Authenticate :: "bytes \<Rightarrow> bytes \<Rightarrow> goerr option" where "noAuth_Authenticate i cred = None"

text \<open>The verifier of a method counts its calls; the counters of the methods are the state.\<close>

definition defaultAuth_Verify :: "bytes \<Rightarrow> bytes \<Rightarrow> (bytes \<Rightarrow> int) \<Rightarrow> (bytes \<Rightarrow> int) \<times> (bytes + bytes \<times> bool)" where
  "defaultAuth_Verify method ad v =
     (if v method < 5 then (v(method := v method + 1), Inr ([99, 111, 110, 116, 105, 110, 117, 101], True))
      else (v(method := 0), Inr ([], False)))"

section \<open>Single messages\<close>

text \<open>\<open>writeMessage\<close> of \<open>misc.go\<close>: \<open>r\<close> is what \<open>EncodeToBuf\<close> returns on an empty buffer.\<close>

definition conn_write :: "('w, 'v) hs_env \<Rightarrow> bytes outcome \<Rightarrow> 'w conn \<Rightarrow> ('w conn \<times> goerr option) option" where
  "conn_write E r c =
     (case r of
        Panic \<Rightarrow> None
      | Fail d n e \<Rightarrow> Some (c, Some e)
      | Ret d n \<Rightarrow> (case hs_Write E d (cn_out c) of (w, e) \<Rightarrow> Some (c\<lparr>cn_out := w\<rparr>, e)))"

abbreviation write_disconnect :: "('w, 'v) hs_env \<Rightarrow> disconnect \<Rightarrow> 'w conn \<Rightarrow> ('w conn \<times> goerr option) option" where
  "write_disconnect E m \<equiv> conn_write E (snd (di_EncodeToBuf m []))"

definition getConnectMessage :: "('w, 'v) hs_env \<Rightarrow> 'w conn \<Rightarrow> ('w conn \<times> (goerr + connect)) option" where
  "getConnectMessage E c =
     (case getMessageBuffer c of
        (c', Inl e) \<Rightarrow> Some (c', Inl e)
      | (c', Inr buf) \<Rightarrow>
          (case conn_Decode (Slice buf (hs_spare E (length buf))) NewConnectMessage of
             Panic \<Rightarrow> None
           | Fail m n e \<Rightarrow> Some (c', Inl e)
           | Ret m n \<Rightarrow> Some (c', Inr m)))"

datatype auth_reply = GotDisconnect disconnect | GotAuth auth | GotConnack connack

text \<open>
  A DISCONNECT is returned even where its decoder reports an error. A message of another type is
  decoded, then refused.
\<close>

definition read_reply :: "slice \<Rightarrow> byte \<Rightarrow> (goerr + auth_reply) option" where
  "read_reply src tp =
     (if tp = DISCONNECT then
        (case di_Decode src NewDisconnectMessage of
           Panic \<Rightarrow> None | Fail m n e \<Rightarrow> Some (Inr (GotDisconnect m)) | Ret m n \<Rightarrow> Some (Inr (GotDisconnect m)))
      else if tp = AUTH then
        (case au_Decode src NewAuthMessage of
           Panic \<Rightarrow> None | Fail m n e \<Rightarrow> Some (Inl e) | Ret m n \<Rightarrow> Some (Inr (GotAuth m)))
      else if tp = CONNACK then
        (case ck_Decode src NewConnackMessage of
           Panic \<Rightarrow> None | Fail m n e \<Rightarrow> Some (Inl e) | Ret m n \<Rightarrow> Some (Inr (GotConnack m)))
      else if tp = CONNECT then
        (case conn_Decode src NewConnectMessage of
           Panic \<Rightarrow> None | _ \<Rightarrow> Some (Inl (Errorf ''error type %v,  %v'')))
      else case mqtt_New tp of
        Inl e \<Rightarrow> Some (Inl e)
      | Inr m \<Rightarrow> (case mqtt_Decode src m of Panic \<Rightarrow> None | _ \<Rightarrow> Some (Inl (Errorf ''error type %v,  %v''))))"

definition getAuthMessageOrOther :: "('w, 'v) hs_env \<Rightarrow> 'w conn \<Rightarrow> ('w conn \<times> (goerr + auth_reply)) option" where
  "getAuthMessageOrOther E c =
     (case getMessageBuffer c of
        (c', Inl e) \<Rightarrow> Some (c', Inl e)
      | (c', Inr buf) \<Rightarrow> map_option (Pair c') (read_reply (Slice buf (hs_spare E (length buf))) (drop_bit 4 (buf ! 0))))"

section \<open>auth\<close>

text \<open>
  One round of the enhanced authentication: \<open>Stop\<close> with the result of \<open>auth\<close> (the connection, the
  verifiers, the CONNACK and the error), or \<open>Again\<close> with the data the client has sent.
\<close>

type_synonym ('w, 'v) authed = "('w conn \<times> 'v \<times> connack \<times> goerr option) option"

datatype ('w, 'v) round = Stop "('w, 'v) authed" | Again bytes "'w conn" 'v

definition method_changed :: disconnect where
  "method_changed = Disconnect.SetReasonStr
     (map of_char ''auth method is different from last time'')
     (Disconnect.SetReasonCode InvalidAuthenticationMethod NewDisconnectMessage)"

definition auth_continue ::
    "('w, 'v) hs_env \<Rightarrow> bytes \<Rightarrow> connack \<Rightarrow> 'v \<Rightarrow> 'w conn \<Rightarrow> ('w, 'v) round" where
  "auth_continue E method resp v c =
     (case getAuthMessageOrOther E c of
        None \<Rightarrow> Stop None
      | Some (c1, Inl e) \<Rightarrow> Stop (Some (c1, v, resp, Some e))
      | Some (c1, Inr (GotDisconnect d)) \<Rightarrow> Stop (Some (c1, v, resp, Some (Errorf ''disconnect in auth'')))
      | Some (c1, Inr (GotAuth m)) \<Rightarrow>
          (if auth.authMethod m \<noteq> method then
             Stop (case write_disconnect E method_changed c1 of
                     None \<Rightarrow> None
                   | Some (c2, Some e) \<Rightarrow> Some (c2, v, resp, Some e)
                   | Some (c2, None) \<Rightarrow>
                       Some (c2, v, resp, Some (Errorf ''authplus: the authentication method is different from last time.'')))
           else Again (auth.authData m) c1 v)
      | Some (c1, Inr (GotConnack m)) \<Rightarrow> Stop (Some (c1, v, resp, Some (Errorf ''unSupport deal msg %s''))))"

definition auth_round ::
    "('w, 'v) hs_env \<Rightarrow> bytes \<Rightarrow> connack \<Rightarrow> bytes \<Rightarrow> 'w conn \<Rightarrow> 'v \<Rightarrow> ('w, 'v) round" where
  "auth_round E method resp ad c v =
     (case hs_Verify E method ad v of
        (v1, Inl txt) \<Rightarrow>
          Stop (map_option (\<lambda>(c1, e). (c1, v1, resp, e))
            (write_disconnect E (Disconnect.SetReasonStr txt (Disconnect.SetReasonCode UnAuthorized NewDisconnectMessage)) c))
      | (v1, Inr (authContinueData, continueAuth)) \<Rightarrow>
          (if continueAuth then
             (case conn_write E (snd (au_EncodeToBuf (Auth.SetAuthData authContinueData (Auth.SetAuthMethod method
                 (Auth.SetReasonCode ContinueAuthentication NewAuthMessage))) [])) c of
                None \<Rightarrow> Stop None
              | Some (c1, Some e) \<Rightarrow> Stop (Some (c1, v1, resp, Some e))
              | Some (c1, None) \<Rightarrow> auth_continue E method resp v1 c1)
           else Stop (Some (c, v1, Connack.SetAuthMethod method (Connack.SetReasonCode Success resp), None))))"

text \<open>Every round reads a packet, so the rounds end.\<close>

lemma read_head_left: "read_head buf c = (c', Inr b) \<Longrightarrow> cn_left c' < cn_left c"
proof (induction buf c rule: read_head.induct)
  case (1 buf c)
  obtain c1 r where r: "conn_Read 1 c = (c1, r)" by force
  note eq = "1.prems" [unfolded read_head.simps [of buf c] r]
  have short: "\<not> 5 < length buf" using eq by (auto split: if_splits)
  obtain bb where bb: "r = Inr bb" using eq short by (cases r) simp_all
  have l: "cn_left c1 < cn_left c" using conn_Read_left [of c1 bb 1 c] r bb by simp
  show ?case
  proof (cases bb)
    case Nil
    have "cn_left c' < cn_left c1"
      by (rule "1.IH"(1) [OF short r [symmetric] bb Nil]) (use eq short bb Nil in simp)
    then show ?thesis using l by simp
  next
    case (Cons x xs)
    show ?thesis
    proof (cases "length (buf @ [x]) > 1 \<and> x < 0x80")
      case True
      then show ?thesis using eq short bb Cons l by simp
    next
      case False
      have "cn_left c' < cn_left c1"
        by (rule "1.IH"(2) [OF short r [symmetric] bb Cons False]) (use eq short bb Cons False in \<open>simp split: if_splits\<close>)
      then show ?thesis using l by simp
    qed
  qed
qed

lemma read_rest_left: "read_rest need buf c = (c', Inr b) \<Longrightarrow> cn_left c' \<le> cn_left c"
proof (induction need buf c rule: read_rest.induct)
  case (1 need buf c)
  obtain c1 r where r: "conn_Read need c = (c1, r)" by force
  note eq = "1.prems" [unfolded read_rest.simps [of need buf c] r]
  show ?case
  proof (cases "need = 0")
    case True
    then show ?thesis using eq by simp
  next
    case False
    obtain bb where bb: "r = Inr bb" using eq False by (cases r) simp_all
    have "cn_left c' \<le> cn_left c1"
      by (rule "1.IH" [OF False r [symmetric] bb]) (use eq False bb in simp)
    then show ?thesis using conn_Read_left [of c1 bb need c] r bb False by simp
  qed
qed

lemma getMessageBuffer_left: "getMessageBuffer c = (c', Inr b) \<Longrightarrow> cn_left c' < cn_left c"
  by (auto simp: getMessageBuffer_def split: prod.splits sum.splits dest: read_head_left read_rest_left)
    (meson le_less_trans read_head_left read_rest_left)

lemma conn_write_left: "conn_write E r c = Some (c', e) \<Longrightarrow> cn_left c' = cn_left c"
  by (auto simp: conn_write_def cn_left_def split: outcome.splits prod.splits)

lemma auth_continue_left: "auth_continue E method resp v c = Again d c' v' \<Longrightarrow> cn_left c' < cn_left c"
  by (auto simp: auth_continue_def getAuthMessageOrOther_def
      split: option.splits prod.splits sum.splits auth_reply.splits if_splits dest: getMessageBuffer_left)

lemma auth_round_left: "auth_round E method resp ad c v = Again d c' v' \<Longrightarrow> cn_left c' < cn_left c"
  by (auto simp: auth_round_def split: option.splits prod.splits sum.splits if_splits
      dest!: auth_continue_left conn_write_left)

function auth_loop ::
    "('w, 'v) hs_env \<Rightarrow> bytes \<Rightarrow> connack \<Rightarrow> bytes \<Rightarrow> 'w conn \<Rightarrow> 'v \<Rightarrow> ('w, 'v) authed" where
  "auth_loop E method resp ad c v =
     (case auth_round E method resp ad c v of
        Stop r \<Rightarrow> r
      | Again d c' v' \<Rightarrow> auth_loop E method resp d c' v')"
  by pat_completeness auto
termination
  by (relation "measure (\<lambda>(E, method, resp, ad, c, v). cn_left c)") (simp_all add: auth_round_left)

declare auth_loop.simps [simp del]

definition server_auth :: "('w, 'v) hs_env \<Rightarrow> connack \<Rightarrow> connect \<Rightarrow> 'w conn \<Rightarrow> 'v \<Rightarrow> ('w, 'v) authed" where
  "server_auth E resp req c v =
     (let am = connect.authMethod req in
      if length am > 0 then
        (if am \<notin> set (hs_Allows E) then
           map_option (\<lambda>(c1, e). (c1, v, resp, e))
             (write_disconnect E (Disconnect.SetReasonCode InvalidAuthenticationMethod NewDisconnectMessage) c)
         else auth_loop E am resp (connect.authData req) c v)
      else case hs_Authenticate E (connect.username req) (connect.password req) of
        Some e \<Rightarrow>
          (case ck_EncodeToBuf (Connack.SetSessionPresent False (Connack.SetReasonCode UserNameOrPasswordIsIncorrect resp)) [] of
             (resp1, r) \<Rightarrow> map_option (\<lambda>(c1, e). (c1, v, resp1, e)) (conn_write E r c))
      | None \<Rightarrow> Some (c, v, resp, None))"

section \<open>conAuth\<close>

text \<open>
  The result is an error, nothing where the client is sent to another server (\<open>nil, nil, nil\<close>), or the
  CONNECT and the CONNACK.
\<close>

type_synonym ('w, 'v) con_authed = "('w conn \<times> 'v \<times> (goerr + (connect \<times> connack) option)) option"

text \<open>A DISCONNECT is written, whose own error is dropped, and the connection refused.\<close>

definition refuse :: "('w, 'v) hs_env \<Rightarrow> disconnect \<Rightarrow> goerr + (connect \<times> connack) option \<Rightarrow> 'w conn \<Rightarrow> 'v \<Rightarrow> ('w, 'v) con_authed" where
  "refuse E dis r c v = map_option (\<lambda>(c1, _). (c1, v, r)) (write_disconnect E dis c)"

definition redirect :: "('w, 'v) hs_env \<Rightarrow> 'w conn \<Rightarrow> 'v \<Rightarrow> ('w, 'v) con_authed" where
  "redirect E c v =
     (let dis = Disconnect.SetReasonCode (if hs_RedirectIsForEver E then ServerHasMoved else UseOtherServers) NewDisconnectMessage in
      case hs_Redirects E of
        [] \<Rightarrow> None
      | r # _ \<Rightarrow> refuse E (Disconnect.SetServerReference r dis) (Inr None) c v)"

definition new_connack :: "('w, 'v) hs_env \<Rightarrow> connack" where
  "new_connack E = (if \<not> hs_CloseShareSub E then SetSharedSubscriptionAvailable 1 NewConnackMessage else NewConnackMessage)"

text \<open>What comes behind the checks: the authentication and the defaults.\<close>

definition finish_connect :: "('w, 'v) hs_env \<Rightarrow> connack \<Rightarrow> connect \<Rightarrow> 'w conn \<Rightarrow> 'v \<Rightarrow> ('w, 'v) con_authed" where
  "finish_connect E resp req c v =
     (case server_auth E resp req c v of
        None \<Rightarrow> None
      | Some (c1, v1, resp1, Some e) \<Rightarrow> Some (c1, v1, Inl e)
      | Some (c1, v1, resp1, None) \<Rightarrow>
          (let req1 = (if keepAlive req = 0 then SetKeepAlive (word_of_int (hs_Keepalive E)) req else req);
               resp2 = (if requestRespInfo req = 0 then SetResponseInformation [] resp1 else resp1)
           in Some (c1, v1, Inr (Some (req1, resp2)))))"

definition check_retain :: "('w, 'v) hs_env \<Rightarrow> connack \<Rightarrow> connect \<Rightarrow> 'w conn \<Rightarrow> 'v \<Rightarrow> ('w, 'v) con_authed" where
  "check_retain E resp req c v =
     (if \<not> hs_RetainAvailable E \<and> WillRetain req
      then refuse E (NewDiscMessageWithCodeInfo UnsupportedRetention []) (Inl (Errorf ''unSupport retain message'')) c v
      else
        (let resp1 = SetRetainAvailable (if hs_RetainAvailable E then 1 else 0) resp in
         if hs_RedirectOpen E then redirect E c v else finish_connect E resp1 req c v))"

definition check_qos :: "('w, 'v) hs_env \<Rightarrow> connack \<Rightarrow> connect \<Rightarrow> 'w conn \<Rightarrow> 'v \<Rightarrow> ('w, 'v) con_authed" where
  "check_qos E resp req c v =
     (if hs_MaxQos E < uint (WillQos req)
      then refuse E (NewDiscMessageWithCodeInfo UnsupportedQoSLevel []) (Inl (Errorf ''exceeds the max qos: '')) c v
      else check_retain E (SetMaxQos (word_of_int (hs_MaxQos E)) resp) req c v)"

text \<open>\<open>Len\<close> is asked for only where there is a limit; it builds a message that is dirty.\<close>

definition check_size :: "('w, 'v) hs_env \<Rightarrow> connack \<Rightarrow> connect \<Rightarrow> 'w conn \<Rightarrow> 'v \<Rightarrow> ('w, 'v) con_authed" where
  "check_size E resp req c v =
     (case (if hs_MaxPacketSize E > 0 then conn_Len req else Some (req, 0)) of
        None \<Rightarrow> None
      | Some (req1, l) \<Rightarrow>
          (if hs_MaxPacketSize E > 0 \<and> l > unat (hs_MaxPacketSize E)
           then refuse E (NewDiscMessageWithCodeInfo MessageTooLong (map of_char ''exceeds the maximum package size''))
             (Inl (Errorf ''exceeds the maximum package size'')) c v
           else check_qos E (Connack.SetMaxPacketSize (hs_MaxPacketSize E) resp) req1 c v))"

definition check_connect :: "('w, 'v) hs_env \<Rightarrow> connack \<Rightarrow> connect \<Rightarrow> 'w conn \<Rightarrow> 'v \<Rightarrow> ('w, 'v) con_authed" where
  "check_connect E resp req c v =
     (if length (clientId req) = 0 \<and> \<not> hs_AllowZeroLengthClientId E
      then refuse E (NewDiscMessageWithCodeInfo CustomerIdentifierInvalid (map of_char ''the length of the client ID cannot be zero''))
        (Inl (Errorf ''the length of the client ID cannot be zero'')) c v
      else if hs_MaxKeepalive E > 0 \<and> keepAlive req > hs_MaxKeepalive E
      then refuse E (NewDiscMessageWithCodeInfo UnspecifiedError (map of_char ''the keepalive value exceeds the maximum value''))
        (Inl (Errorf ''the keepalive value exceeds the maximum value'')) c v
      else check_size E resp req c v)"

definition conAuth :: "('w, 'v) hs_env \<Rightarrow> 'w conn \<Rightarrow> 'v \<Rightarrow> ('w, 'v) con_authed" where
  "conAuth E c v =
     (let resp = new_connack E in
      case getConnectMessage E c of
        None \<Rightarrow> None
      | Some (c1, Inl e) \<Rightarrow>
          (case e of
             Reason code \<Rightarrow>
               (case conn_write E (snd (ck_EncodeToBuf (Connack.SetSessionPresent False (Connack.SetReasonCode code resp)) [])) c1 of
                  Some (c2, None) \<Rightarrow> Some (c2, v, Inl e)
                | _ \<Rightarrow> None)
           | _ \<Rightarrow> Some (c1, v, Inl e))
      | Some (c1, Inr req) \<Rightarrow> check_connect E resp req c1 v)"

section \<open>A CONNECT that arrives\<close>

text \<open>What the server has of a CONNECT \<open>n\<close>, which reason it finds to refuse it, and the CONNACK so far.\<close>

definition conn_got :: "('w, 'v) hs_env \<Rightarrow> connect \<Rightarrow> connect" where
  "conn_got E n =
     (conn_received n (NewConnectMessage\<lparr>dbuf := Slice (conn_wire n) (hs_spare E (length (conn_wire n))),
       mtypeflags := mtypeflags n, remlen := remlen (conn_built n)\<rparr>))\<lparr>dirty := False\<rparr>"

definition connect_refusal :: "('w, 'v) hs_env \<Rightarrow> connect \<Rightarrow> byte option" where
  "connect_refusal E n =
     (if hs_MaxKeepalive E > 0 \<and> keepAlive n > hs_MaxKeepalive E then Some UnspecifiedError
      else if hs_MaxPacketSize E > 0 \<and> length (conn_wire n) > unat (hs_MaxPacketSize E) then Some MessageTooLong
      else if hs_MaxQos E < uint (WillQos n) then Some UnsupportedQoSLevel
      else if \<not> hs_RetainAvailable E \<and> WillRetain n then Some UnsupportedRetention
      else None)"

definition connack_so_far :: "('w, 'v) hs_env \<Rightarrow> connack" where
  "connack_so_far E = SetRetainAvailable (if hs_RetainAvailable E then 1 else 0)
     (SetMaxQos (word_of_int (hs_MaxQos E)) (Connack.SetMaxPacketSize (hs_MaxPacketSize E) (new_connack E)))"

definition cid_of :: "connect \<Rightarrow> bytes" where "cid_of n = (if clientId n = [] then defaultCId else clientId n)"
definition user_of :: "connect \<Rightarrow> bytes" where "user_of n = (if UsernameFlag n then username n else [])"
definition password_of :: "connect \<Rightarrow> bytes" where "password_of n = (if PasswordFlag n then password n else [])"

lemma conn_got_fields [simp]:
  "\<not> dirty (conn_got E n)" "dbuf (conn_got E n) = Slice (conn_wire n) (hs_spare E (length (conn_wire n)))"
  "connectFlags (conn_got E n) = connectFlags n" "keepAlive (conn_got E n) = keepAlive n"
  "connect.sessionExpiryInterval (conn_got E n) = connect.sessionExpiryInterval n" "connect.authMethod (conn_got E n) = connect.authMethod n"
  "connect.authData (conn_got E n) = connect.authData n" "requestRespInfo (conn_got E n) = requestRespInfo n"
  "clientId (conn_got E n) = cid_of n"
  "username (conn_got E n) = user_of n" "password (conn_got E n) = password_of n"
  by (simp_all add: conn_got_def conn_received_def cn_payload_read_def cn_will_read_def cn_clientId_read_def cn_props_read_def
      cn_start_read_def NewConnectMessage_eq cid_of_def user_of_def password_of_def Let_def)

lemma conn_got_flags [simp]: "WillQos (conn_got E n) = WillQos n" "WillRetain (conn_got E n) = WillRetain n"
  by (simp_all add: WillQos_def WillRetain_def)

lemma conn_wire_packet:
  assumes "conn_ok n"
  shows "conn_wire n = packet (mtypeflags n ! 0) (conn_body n)" "length (conn_body n) < 2 ^ 28"
  using assms by (simp_all add: conn_wire_def packet_def header_wire_def unat_conn(1) [OF assms] conn_ok_def)

lemma getConnectMessage_wire:
  assumes ok: "conn_ok n" "conn_readable n" and c: "concat (cn_in c) = conn_wire n @ rest"
  shows "\<exists>c1. getConnectMessage E c = Some (c1, Inr (conn_got E n)) \<and> concat (cn_in c1) = rest \<and> cn_out c1 = cn_out c"
proof -
  have f: "fresh NewConnectMessage" "fresh_will NewConnectMessage" "length (mtypeflags NewConnectMessage) = 1"
    "mtype NewConnectMessage = CONNECT"
    by (simp_all add: NewConnectMessage_eq fresh_def fresh_will_def mtype_def alloc_flags_def CONNECT_def)
  obtain c1 where "getMessageBuffer c = (c1, Inr (conn_wire n))" "concat (cn_in c1) = rest" "cn_out c1 = cn_out c"
    using getMessageBuffer_whole [OF conn_wire_packet(2) [OF ok(1)], of c "mtypeflags n ! 0" rest] c
    unfolding conn_wire_packet(1) [OF ok(1)] by blast
  then show ?thesis
    using conn_Decode_wire [OF ok f, of "hs_spare E (length (conn_wire n))"] by (simp add: getConnectMessage_def conn_got_def)
qed

lemma cid_of_nonempty [simp]: "cid_of n \<noteq> []"
  by (simp add: cid_of_def defaultCId_def)

text \<open>The checks, on a CONNECT that nothing refuses, and on one that is refused.\<close>

lemma conn_Len_got: "conn_Len (conn_got E n) = Some (conn_got E n, length (conn_wire n))"
  by (simp add: conn_Len_def plain_Len_def slen_def)

lemmas checks = check_connect_def check_size_def check_qos_def check_retain_def conn_Len_got

lemma check_connect_passes:
  assumes "connect_refusal E n = None" "\<not> hs_RedirectOpen E"
  shows "check_connect E (new_connack E) (conn_got E n) c v = finish_connect E (connack_so_far E) (conn_got E n) c v"
  using assms by (auto simp: checks connect_refusal_def connack_so_far_def split: if_splits)

definition refused_with :: "('w, 'v) hs_env \<Rightarrow> byte \<Rightarrow> 'w conn \<Rightarrow> 'v \<Rightarrow> ('w, 'v) con_authed \<Rightarrow> bool" where
  "refused_with E code c v r \<longleftrightarrow>
     (\<exists>d e. r = Some (c\<lparr>cn_out := fst (hs_Write E (di_wire d) (cn_out c))\<rparr>, v, Inl e) \<and> disconnect.reasonCode d = code)"

lemma refuse_writes:
  assumes "short str"
  shows "refused_with E code c v (refuse E (NewDiscMessageWithCodeInfo code str) (Inl e) c v)"
proof -
  let ?d = "NewDiscMessageWithCodeInfo code str"
  have d: "?d = NewDisconnectMessage\<lparr>disconnect.reasonCode := code, disconnect.reasonStr := str, dirty := True\<rparr>"
    by (simp add: NewDiscMessageWithCodeInfo_def Disconnect.SetReasonStr_def Disconnect.SetReasonCode_def)
  have "mtype ?d = DISCONNECT" "flags_ok ?d" unfolding d NewDisconnectMessage_eq by code_simp+
  moreover have "di_plen ?d \<le> 268435450"
    using assms unfolding d NewDisconnectMessage_eq by (simp add: di_plen_def short_def lp_len_def)
  ultimately have ok: "di_ok ?d" using assms unfolding d NewDisconnectMessage_eq by (simp add: di_ok_def short_def)
  have "snd (di_EncodeToBuf ?d []) = Ret (di_wire ?d) (length (di_wire ?d))"
    using disconnect.encoders_agree(3) [OF _ ok, folded di_wire_def, where buf = "[]" and dst = "di_wire ?d"]
    by (simp add: di_EncodeToBuf_def d)
  then show ?thesis
    by (auto simp: refused_with_def refuse_def conn_write_def d split: prod.splits intro!: exI [of _ ?d])
qed

lemma check_connect_refuses:
  assumes "connect_refusal E n = Some code"
  shows "refused_with E code c v (check_connect E (new_connack E) (conn_got E n) c v)"
proof -
  have "refused_with E code c v (refuse E (NewDiscMessageWithCodeInfo code str) (Inl e) c v)"
    if "str \<in> {[], map of_char ''exceeds the maximum package size'', map of_char ''the keepalive value exceeds the maximum value''}" for str e
    by (rule refuse_writes) (use that in \<open>auto simp: short_def\<close>)
  then show ?thesis
    using assms by (auto simp: checks connect_refusal_def split: if_splits)
qed

text \<open>The CONNACK that tells the client its user name or password is wrong.\<close>

definition wrong_login :: "('w, 'v) hs_env \<Rightarrow> connack" where
  "wrong_login E = Connack.SetSessionPresent False (Connack.SetReasonCode UserNameOrPasswordIsIncorrect (connack_so_far E))"

lemma connack_so_far_eq:
  "connack_so_far E = NewConnackMessage\<lparr>connack.maxQos := word_of_int (hs_MaxQos E), connack.maxPacketSize := hs_MaxPacketSize E,
     connack.retainAvailable := (if hs_RetainAvailable E then 1 else 0),
     connack.sharedSubscriptionAvailable := (if hs_CloseShareSub E then 0 else 1), dirty := True\<rparr>"
  by (simp add: connack_so_far_def SetRetainAvailable_def SetMaxQos_def Connack.SetMaxPacketSize_def new_connack_def
      SetSharedSubscriptionAvailable_def NewConnackMessage_eq)

lemma new_connack_header: "mtype NewConnackMessage = CONNACK" "flags_ok NewConnackMessage"
  by code_simp+

lemma ck_ok_small:
  assumes "mtypeflags k = mtypeflags NewConnackMessage" "1 < connack.maxPacketSize k" "connack.reasonCode k \<le> 0x86"
    and empty: "assignedIdentifier k = []" "connack.reasonStr k = []" "responseInformation k = []" "connack.serverReference k = []"
      "connack.authMethod k = []" "connack.authData k = []" "connack.userProperties k = []"
  shows "ck_ok k"
proof -
  have t: "mtype k = CONNACK" "flags_ok k" "length (mtypeflags k) = 1"
    using mtype_cong [of k NewConnackMessage] flags_ok_cong [of k NewConnackMessage] new_connack_header assms(1)
    by (simp_all add: NewConnackMessage_eq)
  have "ck_plen k \<le> 100" by (simp add: empty ck_plen_def lp_len_def)
  then have "length (ck_body k) \<le> 268435455"
    using length_ck_props [OF assms(2)] length_lb_wire [of "ck_plen k"] by (simp add: ck_body_def)
  moreover have "connack.reasonCode k \<le> UnsupportedWildcardSubscriptions"
    using assms(3) by (rule order_trans) (simp add: UnsupportedWildcardSubscriptions_def)
  ultimately show ?thesis using t assms(2) by (simp add: ck_ok_def empty short_def)
qed

lemma wrong_login_eq:
  "wrong_login E = (connack_so_far E)\<lparr>connack.reasonCode := 0x86, sessionPresent := False, dirty := True\<rparr>"
  by (simp add: wrong_login_def Connack.SetSessionPresent_def Connack.SetReasonCode_def UserNameOrPasswordIsIncorrect_def)

lemma wrong_login_written:
  assumes "1 < hs_MaxPacketSize E"
  shows "ck_EncodeToBuf (wrong_login E) [] = (ck_built (wrong_login E), Ret (ck_wire (wrong_login E)) (length (ck_wire (wrong_login E))))"
proof -
  have "ck_ok (wrong_login E)"
    by (rule ck_ok_small) (simp_all add: wrong_login_eq connack_so_far_eq NewConnackMessage_eq assms)
  from ck_encoders(3) [OF _ this order_refl, of "[]"] show ?thesis by (simp add: wrong_login_eq)
qed

lemma conAuth_checked:
  assumes con: "conn_ok n" "conn_readable n" and c: "concat (cn_in c) = conn_wire n @ rest"
  shows "\<exists>c1. conAuth E c v = check_connect E (new_connack E) (conn_got E n) c1 v \<and> concat (cn_in c1) = rest \<and> cn_out c1 = cn_out c"
proof -
  obtain c1 where "getConnectMessage E c = Some (c1, Inr (conn_got E n))" "concat (cn_in c1) = rest" "cn_out c1 = cn_out c"
    using getConnectMessage_wire [OF con c, of E] by blast
  then show ?thesis by (intro exI [of _ c1]) (simp add: conAuth_def)
qed

text \<open>C38: A CONNECT that breaks a limit of the broker (its keep alive, the size of its packet, the QoS or the retain flag of its
  will, in this order) is refused: one DISCONNECT with the reason of the first limit it breaks is written, an
  error is returned, and neither the verifiers nor the bytes behind the packet are touched.\<close>

theorem conAuth_refuses:
  assumes con: "conn_ok n" "conn_readable n" and c: "concat (cn_in c) = conn_wire n @ rest"
    and code: "connect_refusal E n = Some code"
  shows "\<exists>c' d e. conAuth E c v = Some (c', v, Inl e) \<and> disconnect.reasonCode d = code \<and> concat (cn_in c') = rest \<and>
    cn_out c' = fst (hs_Write E (di_wire d) (cn_out c))"
proof -
  obtain c1 where c1: "conAuth E c v = check_connect E (new_connack E) (conn_got E n) c1 v" "concat (cn_in c1) = rest" "cn_out c1 = cn_out c"
    using conAuth_checked [OF con c, of E v] by (elim exE conjE)
  obtain d e where d: "check_connect E (new_connack E) (conn_got E n) c1 v =
      Some (c1\<lparr>cn_out := fst (hs_Write E (di_wire d) (cn_out c1))\<rparr>, v, Inl e)" "disconnect.reasonCode d = code"
    using check_connect_refuses [OF code, of c1 v] unfolding refused_with_def by blast
  show ?thesis
    by (intro exI [of _ "c1\<lparr>cn_out := fst (hs_Write E (di_wire d) (cn_out c1))\<rparr>"] exI [of _ d] exI [of _ e])
      (simp add: c1 d)
qed

text \<open>The CONNACK after the login, with what becomes of the CONNECT and the CONNACK at the end.\<close>

definition login_connack :: "('w, 'v) hs_env \<Rightarrow> connect \<Rightarrow> connack" where
  "login_connack E n = (if hs_Authenticate E (user_of n) (password_of n) = None then connack_so_far E else ck_built (wrong_login E))"

definition final_connect :: "('w, 'v) hs_env \<Rightarrow> connect \<Rightarrow> connect" where
  "final_connect E n = (if keepAlive n = 0 then SetKeepAlive (word_of_int (hs_Keepalive E)) (conn_got E n) else conn_got E n)"

definition final_connack :: "('w, 'v) hs_env \<Rightarrow> connect \<Rightarrow> connack" where
  "final_connack E n = (if requestRespInfo n = 0 then SetResponseInformation [] (login_connack E n) else login_connack E n)"

definition after_login :: "('w, 'v) hs_env \<Rightarrow> connect \<Rightarrow> 'w \<Rightarrow> 'w" where
  "after_login E n w =
     (if hs_Authenticate E (user_of n) (password_of n) = None then w else fst (hs_Write E (ck_wire (wrong_login E)) w))"

lemma login_connack_fields:
  "mtypeflags (login_connack E n) = mtypeflags NewConnackMessage" "connack.maxPacketSize (login_connack E n) = hs_MaxPacketSize E"
  "connack.maxQos (login_connack E n) = word_of_int (hs_MaxQos E)" "dirty (login_connack E n)"
  "connack.reasonCode (login_connack E n) = (if hs_Authenticate E (user_of n) (password_of n) = None then Success else UserNameOrPasswordIsIncorrect)"
  "assignedIdentifier (login_connack E n) = []" "connack.reasonStr (login_connack E n) = []" "responseInformation (login_connack E n) = []"
  "connack.serverReference (login_connack E n) = []" "connack.authMethod (login_connack E n) = []" "connack.authData (login_connack E n) = []"
  "connack.userProperties (login_connack E n) = []"
  by (simp_all add: login_connack_def ck_built_def wrong_login_eq connack_so_far_eq NewConnackMessage_eq Success_def
      UserNameOrPasswordIsIncorrect_def)

lemma conAuth_result:
  assumes con: "conn_ok n" "conn_readable n" "connect.authMethod n = []"
    and c: "concat (cn_in c) = conn_wire n @ rest"
    and fit: "connect_refusal E n = None" "\<not> hs_RedirectOpen E" "1 < hs_MaxPacketSize E"
    and net: "\<And>d w. snd (hs_Write E d w) = None"
  shows "\<exists>c'. conAuth E c v = Some (c', v, Inr (Some (final_connect E n, final_connack E n))) \<and> concat (cn_in c') = rest \<and>
    cn_out c' = after_login E n (cn_out c)"
proof -
  let ?q = "conn_got E n"
  obtain c1 where c1: "conAuth E c v = finish_connect E (connack_so_far E) ?q c1 v" "concat (cn_in c1) = rest" "cn_out c1 = cn_out c"
    using conAuth_checked [OF con(1,2) c, of E v] unfolding check_connect_passes [OF fit(1,2)] by (elim exE conjE)
  note defs = finish_connect_def server_auth_def Let_def login_connack_def final_connect_def final_connack_def after_login_def
  show ?thesis
  proof (cases "hs_Authenticate E (user_of n) (password_of n)")
    case None
    then show ?thesis using c1 con(3) by (simp add: defs)
  next
    case (Some e)
    obtain w where w: "hs_Write E (ck_wire (wrong_login E)) (cn_out c) = (w, None)"
      using net [of "ck_wire (wrong_login E)" "cn_out c"] by (cases "hs_Write E (ck_wire (wrong_login E)) (cn_out c)") auto
    show ?thesis
      using Some c1 con(3) w wrong_login_written [OF fit(3)] by (simp add: defs conn_write_def wrong_login_def [symmetric])
  qed
qed

text \<open>C37: A CONNECT without enhanced authentication that breaks no limit is let in whatever the authenticator says: its flags,
  session expiry and client identifier (\<open>default\<close> for an empty one) are those sent and a keep alive of 0 is replaced. Where the
  authenticator refuses the login, a CONNACK with reason 0x86 is written, and then the client is let in all the same.\<close>

theorem conAuth_lets_in:
  assumes con: "conn_ok n" "conn_readable n" "connect.authMethod n = []"
    and c: "concat (cn_in c) = conn_wire n @ rest"
    and fit: "connect_refusal E n = None" "\<not> hs_RedirectOpen E" "1 < hs_MaxPacketSize E"
    and net: "\<And>d w. snd (hs_Write E d w) = None"
  shows "\<exists>c' req resp. conAuth E c v = Some (c', v, Inr (Some (req, resp))) \<and> concat (cn_in c') = rest \<and>
    connectFlags req = connectFlags n \<and> connect.sessionExpiryInterval req = connect.sessionExpiryInterval n \<and>
    clientId req = (if clientId n = [] then defaultCId else clientId n) \<and>
    keepAlive req = (if keepAlive n = 0 then word_of_int (hs_Keepalive E) else keepAlive n) \<and>
    connack.maxQos resp = word_of_int (hs_MaxQos E) \<and> connack.maxPacketSize resp = hs_MaxPacketSize E \<and>
    (if hs_Authenticate E (user_of n) (password_of n) = None
     then connack.reasonCode resp = Success \<and> cn_out c' = cn_out c
     else connack.reasonCode resp = UserNameOrPasswordIsIncorrect \<and>
       cn_out c' = fst (hs_Write E (ck_wire (wrong_login E)) (cn_out c)))"
proof -
  obtain c' where "conAuth E c v = Some (c', v, Inr (Some (final_connect E n, final_connack E n)))" "concat (cn_in c') = rest"
    "cn_out c' = after_login E n (cn_out c)"
    using conAuth_result [OF con c fit net, of v] by (elim exE conjE)
  then show ?thesis
    by (simp add: final_connect_def final_connack_def SetKeepAlive_def SetResponseInformation_def login_connack_fields after_login_def cid_of_def)
qed

section \<open>What enhanced authentication lets pass\<close>

text \<open>What \<open>EncodeToBuf\<close> made of a message was written to the connection, without an error.\<close>

definition sent :: "('w, 'v) hs_env \<Rightarrow> bytes outcome \<Rightarrow> 'w conn \<Rightarrow> 'w conn \<Rightarrow> bool" where
  "sent E r c c' \<longleftrightarrow> (\<exists>d n w. r = Ret d n \<and> hs_Write E d (cn_out c) = (w, None) \<and> c' = c\<lparr>cn_out := w\<rparr>)"

definition refusal_of :: "bytes \<Rightarrow> disconnect" where
  "refusal_of txt = Disconnect.SetReasonStr txt (Disconnect.SetReasonCode UnAuthorized NewDisconnectMessage)"

definition continue_with :: "bytes \<Rightarrow> bytes \<Rightarrow> auth" where
  "continue_with method ad = Auth.SetAuthData ad (Auth.SetAuthMethod method (Auth.SetReasonCode ContinueAuthentication NewAuthMessage))"

text \<open>
  The runs of enhanced authentication that end without an error, from the data \<open>ad\<close>, the connection and the state of
  the verifiers: the verifier accepts; it refuses, and a DISCONNECT with its text is written; or it asks for a round,
  an AUTH with its data is written, and the next packet of the client is an AUTH that decodes and names the same method,
  with whose data the run goes on.
\<close>

inductive auth_run ::
    "('w, 'v) hs_env \<Rightarrow> bytes \<Rightarrow> bytes \<Rightarrow> 'w conn \<Rightarrow> 'v \<Rightarrow> 'w conn \<Rightarrow> 'v \<Rightarrow> bool \<Rightarrow> bool"
  for E :: "('w, 'v) hs_env" and am :: bytes where
  auth_accepts: "hs_Verify E am ad v = (v1, Inr (x, False)) \<Longrightarrow> auth_run E am ad c v c v1 True"
| auth_refuses:
    "hs_Verify E am ad v = (v1, Inl txt) \<Longrightarrow> sent E (snd (di_EncodeToBuf (refusal_of txt) [])) c c1 \<Longrightarrow>
     auth_run E am ad c v c1 v1 False"
| auth_goes_on:
    "hs_Verify E am ad v = (v1, Inr (x, True)) \<Longrightarrow> sent E (snd (au_EncodeToBuf (continue_with am x) [])) c c1 \<Longrightarrow>
     getMessageBuffer c1 = (c2, Inr buf) \<Longrightarrow> drop_bit 4 (buf ! 0) = AUTH \<Longrightarrow>
     au_Decode (Slice buf (hs_spare E (length buf))) NewAuthMessage = Ret m n \<Longrightarrow> auth.authMethod m = am \<Longrightarrow>
     auth_run E am (auth.authData m) c2 v1 c3 v3 a \<Longrightarrow> auth_run E am ad c v c3 v3 a"

definition accepted_connack :: "bytes \<Rightarrow> connack \<Rightarrow> connack" where
  "accepted_connack method resp = Connack.SetAuthMethod method (Connack.SetReasonCode Success resp)"

lemma conn_write_sent: "conn_write E r c = Some (c', None) \<longleftrightarrow> sent E r c c'"
  by (auto simp: conn_write_def sent_def split: outcome.splits prod.splits)

lemma reply_auth:
  "read_reply src tp = Some (Inr (GotAuth m)) \<longleftrightarrow> tp = AUTH \<and> (\<exists>n. au_Decode src NewAuthMessage = Ret m n)"
  by (auto simp: read_reply_def type_defs split: outcome.splits sum.splits if_splits)

lemma continue_again:
  "auth_continue E method resp v c = Again d c' v' \<longleftrightarrow>
     v' = v \<and> (\<exists>buf m n. getMessageBuffer c = (c', Inr buf) \<and> drop_bit 4 (buf ! 0) = AUTH \<and>
       au_Decode (Slice buf (hs_spare E (length buf))) NewAuthMessage = Ret m n \<and> auth.authMethod m = method \<and> d = auth.authData m)"
proof -
  have "auth_continue E method resp v c = Again d c' v' \<longleftrightarrow>
    v' = v \<and> (\<exists>m. getAuthMessageOrOther E c = Some (c', Inr (GotAuth m)) \<and> auth.authMethod m = method \<and> d = auth.authData m)"
    by (auto simp: auth_continue_def split: option.splits prod.splits sum.splits auth_reply.splits if_splits)
  moreover have "getAuthMessageOrOther E c = Some (c', Inr (GotAuth m)) \<longleftrightarrow>
    (\<exists>buf. getMessageBuffer c = (c', Inr buf) \<and> read_reply (Slice buf (hs_spare E (length buf))) (drop_bit 4 (buf ! 0)) = Some (Inr (GotAuth m)))" for m
    by (auto simp: getAuthMessageOrOther_def split: prod.splits sum.splits)
  ultimately show ?thesis by (auto simp: reply_auth)
qed

lemma continue_never_passes: "auth_continue E am resp v c \<noteq> Stop (Some (c', v', resp', None))"
  by (auto simp: auth_continue_def split: option.splits prod.splits sum.splits auth_reply.splits if_splits)

lemma round_again:
  "auth_round E am resp ad c v = Again d c' v' \<longleftrightarrow>
     (\<exists>x c1 buf m n. hs_Verify E am ad v = (v', Inr (x, True)) \<and> sent E (snd (au_EncodeToBuf (continue_with am x) [])) c c1 \<and>
       getMessageBuffer c1 = (c', Inr buf) \<and> drop_bit 4 (buf ! 0) = AUTH \<and>
       au_Decode (Slice buf (hs_spare E (length buf))) NewAuthMessage = Ret m n \<and> auth.authMethod m = am \<and> d = auth.authData m)"
  by (auto simp: auth_round_def continue_with_def [symmetric] conn_write_sent [symmetric] continue_again
      split: option.splits prod.splits sum.splits if_splits)

lemma round_stop:
  "auth_round E am resp ad c v = Stop (Some (c', v', resp', None)) \<longleftrightarrow>
     (\<exists>x. hs_Verify E am ad v = (v', Inr (x, False)) \<and> c' = c \<and> resp' = accepted_connack am resp) \<or>
     (\<exists>txt. hs_Verify E am ad v = (v', Inl txt) \<and> sent E (snd (di_EncodeToBuf (refusal_of txt) [])) c c' \<and> resp' = resp)"
  by (auto simp: auth_round_def refusal_of_def [symmetric] conn_write_sent [symmetric] accepted_connack_def continue_never_passes
      split: option.splits prod.splits sum.splits if_splits)

lemma run_loop:
  "auth_run E am ad c v c' v' a \<Longrightarrow>
     auth_loop E am resp ad c v = Some (c', v', if a then accepted_connack am resp else resp, None)"
proof (induction rule: auth_run.induct)
  case (auth_goes_on ad v v1 x c c1 c2 buf m n c3 v3 a)
  have "auth_round E am resp ad c v = Again (auth.authData m) c2 v1"
    unfolding round_again using auth_goes_on.hyps by blast
  then show ?case using auth_goes_on.IH by (simp add: auth_loop.simps [of E am resp ad])
next
  case (auth_accepts ad v v1 x c)
  then have "auth_round E am resp ad c v = Stop (Some (c, v1, accepted_connack am resp, None))" by (simp add: round_stop)
  then show ?case by (simp add: auth_loop.simps [of E am resp ad])
next
  case (auth_refuses ad v v1 t c c1)
  then have "auth_round E am resp ad c v = Stop (Some (c1, v1, resp, None))" by (simp add: round_stop)
  then show ?case by (simp add: auth_loop.simps [of E am resp ad])
qed

lemma loop_run:
  "auth_loop E am resp ad c v = Some (c', v', resp', None) \<Longrightarrow>
     \<exists>a. auth_run E am ad c v c' v' a \<and> resp' = (if a then accepted_connack am resp else resp)"
proof (induction E am resp ad c v rule: auth_loop.induct)
  case (1 E am resp ad c v)
  show ?case
  proof (cases "auth_round E am resp ad c v")
    case (Stop r)
    then have "auth_round E am resp ad c v = Stop (Some (c', v', resp', None))"
      using 1(2) by (simp add: auth_loop.simps [of E am resp ad])
    then show ?thesis unfolding round_stop by (auto intro: auth_accepts auth_refuses)
  next
    case (Again d c1 v1)
    have "auth_loop E am resp d c1 v1 = Some (c', v', resp', None)"
      using 1(2) Again by (simp add: auth_loop.simps [of E am resp ad])
    from 1(1) [OF Again this] obtain a where "auth_run E am d c1 v1 c' v' a" "resp' = (if a then accepted_connack am resp else resp)"
      by blast
    then show ?thesis using Again unfolding round_again by (blast intro: auth_goes_on)
  qed
qed

text \<open>C39: Where a CONNECT names a method of enhanced authentication, \<open>auth\<close> returns without an error exactly in these runs:
  the method is not allowed and a DISCONNECT with reason \<open>InvalidAuthenticationMethod\<close> was written; or, after any number of rounds
  in which an AUTH was written and answered by an AUTH of the same method, the verifier accepted, and then the
  CONNACK has reason 0 and the method, or it refused, a DISCONNECT with its text was written, and the CONNACK is
  unchanged: such a refusal is lost. A client that disconnects, changes the method or sends another packet never passes.\<close>

theorem server_auth_passes:
  assumes "connect.authMethod req \<noteq> []"
  shows "server_auth E resp req c v = Some (c', v', resp', None) \<longleftrightarrow>
    (if connect.authMethod req \<notin> set (hs_Allows E)
     then sent E (snd (di_EncodeToBuf (Disconnect.SetReasonCode InvalidAuthenticationMethod NewDisconnectMessage) [])) c c' \<and>
       v' = v \<and> resp' = resp
     else \<exists>a. auth_run E (connect.authMethod req) (connect.authData req) c v c' v' a \<and>
       resp' = (if a then Connack.SetAuthMethod (connect.authMethod req) (Connack.SetReasonCode Success resp) else resp))"
proof (cases "connect.authMethod req \<in> set (hs_Allows E)")
  case True
  then have "server_auth E resp req c v = auth_loop E (connect.authMethod req) resp (connect.authData req) c v"
    using assms by (simp add: server_auth_def Let_def)
  then show ?thesis
    using True run_loop [of E "connect.authMethod req" "connect.authData req" c v c' v' _ resp]
      loop_run [of E "connect.authMethod req" resp "connect.authData req" c v c' v' resp']
    unfolding accepted_connack_def by (simp only: not_True_eq_False if_False) blast
next
  case False
  then show ?thesis using assms
    by (auto simp: server_auth_def Let_def conn_write_sent [symmetric])
qed

section \<open>Witnesses\<close>

definition sample_hs :: "u16 \<Rightarrow> (bytes list, bytes \<Rightarrow> int) hs_env" where
  "sample_hs k = \<lparr>hs_Write = \<lambda>d w. (w @ [d], None), hs_spare = \<lambda>n. [],
     hs_Authenticate = \<lambda>u p. if p = [113] then None else Some (Errorf ''auth: Authentication failure''),
     hs_Allows = [[120]], hs_Verify = defaultAuth_Verify, hs_CloseShareSub = False, hs_AllowZeroLengthClientId = True,
     hs_MaxKeepalive = k, hs_MaxPacketSize = 1024, hs_MaxQos = 2, hs_RetainAvailable = True, hs_RedirectOpen = False,
     hs_RedirectIsForEver = False, hs_Redirects = [], hs_Keepalive = 100\<rparr>"

definition sample_conn :: "bytes list conn" where
  "sample_conn = \<lparr>cn_in = [conn_wire demo_connect, [0xC0, 0]], cn_err = EOF, cn_out = []\<rparr>"

lemma sample_conn_in: "concat (cn_in sample_conn) = conn_wire demo_connect @ [0xC0, 0]"
  by (simp add: sample_conn_def)

theorem conAuth_refuses_witness:
  "\<exists>c' d e. conAuth (sample_hs 30) sample_conn (\<lambda>_. 0) = Some (c', (\<lambda>_. 0), Inl e) \<and> disconnect.reasonCode d = 0x80 \<and>
    concat (cn_in c') = [0xC0, 0] \<and> cn_out c' = [di_wire d]"
proof -
  have "connect_refusal (sample_hs 30) demo_connect = Some UnspecifiedError"
    by (simp add: connect_refusal_def sample_hs_def demo_connect_eq)
  from conAuth_refuses [OF demo_connect_ok demo_connect_flags(4) sample_conn_in this, of "\<lambda>_. 0"] show ?thesis
    by (simp add: sample_hs_def UnspecifiedError_def) (simp add: sample_conn_def)
qed

theorem conAuth_lets_in_witness:
  "\<exists>c' req resp. conAuth (sample_hs 300) sample_conn (\<lambda>_. 0) = Some (c', (\<lambda>_. 0), Inr (Some (req, resp))) \<and>
    clientId req = [100, 101, 118] \<and> connack.reasonCode resp = 0x86 \<and> cn_out c' = [ck_wire (wrong_login (sample_hs 300))]"
proof -
  have r: "connect_refusal (sample_hs 300) demo_connect = None" "\<not> hs_RedirectOpen (sample_hs 300)" "1 < hs_MaxPacketSize (sample_hs 300)"
    using length_demo_connect by (simp_all add: connect_refusal_def sample_hs_def demo_connect_eq WillQos_def)
  have w: "snd (hs_Write (sample_hs 300) d w) = None" for d w by (simp add: sample_hs_def)
  have a: "connect.authMethod demo_connect = []" by (simp add: demo_connect_eq)
  have d: "clientId demo_connect = [100, 101, 118]" "password_of demo_connect = [112]" "keepAlive demo_connect \<noteq> 0"
    using demo_connect_flags(3) by (simp_all add: password_of_def) (simp_all add: demo_connect_eq)
  have f: "hs_Authenticate (sample_hs 300) u [112] \<noteq> None" "hs_Write (sample_hs 300) x (cn_out sample_conn) = ([x], None)" for u x
    by (simp_all add: sample_hs_def sample_conn_def)
  obtain c' req resp where
    c: "conAuth (sample_hs 300) sample_conn (\<lambda>_. 0) = Some (c', (\<lambda>_. 0), Inr (Some (req, resp)))" "clientId req = [100, 101, 118]"
      "connack.reasonCode resp = UserNameOrPasswordIsIncorrect" "cn_out c' = fst (hs_Write (sample_hs 300) (ck_wire (wrong_login (sample_hs 300))) (cn_out sample_conn))"
    using conAuth_lets_in [OF demo_connect_ok demo_connect_flags(4) a sample_conn_in r w, of "\<lambda>_. 0"] d f(1) by auto
  show ?thesis
    by (intro exI [of _ c'] exI [of _ req] exI [of _ resp]) (simp add: c f(2) UserNameOrPasswordIsIncorrect_def)
qed

theorem server_auth_passes_witness:
  "\<exists>a. auth_run (sample_hs 300) [120] [] sample_conn (\<lambda>_. 5) sample_conn ((\<lambda>_. 5)([120] := 0)) a \<and>
     Connack.SetAuthMethod [120] (Connack.SetReasonCode Success NewConnackMessage) =
       (if a then Connack.SetAuthMethod [120] (Connack.SetReasonCode Success NewConnackMessage) else NewConnackMessage)"
proof -
  let ?req = "demo_connect\<lparr>connect.authMethod := [120], connect.authData := []\<rparr>" and ?v = "\<lambda>_ :: bytes. 5 :: int"
  have r: "server_auth (sample_hs 300) NewConnackMessage ?req sample_conn ?v =
      Some (sample_conn, ?v([120] := 0), Connack.SetAuthMethod [120] (Connack.SetReasonCode Success NewConnackMessage), None)"
  proof -
    have "hs_Allows (sample_hs 300) = [[120]]" "hs_Verify (sample_hs 300) [120] ad ?v = (?v([120] := 0), Inr ([], False))" for ad
      by (simp_all add: sample_hs_def defaultAuth_Verify_def)
    then show ?thesis by (simp add: server_auth_def Let_def auth_loop.simps [of "sample_hs 300"] auth_round_def)
  qed
  have am: "connect.authMethod ?req \<noteq> []" "connect.authMethod ?req \<in> set (hs_Allows (sample_hs 300))"
    by (simp_all add: sample_hs_def)
  have eq: "connect.authMethod ?req = [120]" "connect.authData ?req = []" by simp_all
  show ?thesis using server_auth_passes [OF am(1), THEN iffD1, OF r] am(2) unfolding eq by (simp only: not_True_eq_False if_False)
qed

section \<open>Remarks\<close>

text \<open>The counter of a verifier is shared by all clients of its method: a client may need fewer rounds where others are at it.\<close>

lemma shared_counter:
  "v method = 5 \<Longrightarrow> defaultAuth_Verify method ad v = (v(method := 0), Inr ([], False))"
  "v method = 4 \<Longrightarrow> fst (defaultAuth_Verify method ad v) method = 5"
  by (simp_all add: defaultAuth_Verify_def)

text \<open>The check for an empty client identifier never fires: the decoder has replaced it.\<close>

lemma never_empty: "conn_ok n \<Longrightarrow> conn_readable n \<Longrightarrow> clientId (conn_got E n) \<noteq> []"
  by simp

text \<open>A CONNACK that cannot be written ends the program: \<open>MustPanic\<close>.\<close>

lemma refusal_panics:
  assumes "getConnectMessage E c = Some (c1, Inl (Reason code))"
    "\<And>k. conn_write E (snd (ck_EncodeToBuf k [])) c1 = Some (c2, Some e)"
  shows "conAuth E c v = None"
  using assms by (simp add: conAuth_def)

end
