(* ===== verification/Store.thy ===== *)
theory Store
  imports Message
begin

text \<open>
  The stores in memory, \<open>cluster/store/memImpl\<close>: \<open>memSessionStore\<close> keeps sessions, subscriptions,
  messages in flight and messages for clients that are offline, \<open>memMessageStore\<close> wills and retained
  messages. A Go map is an association list. A call takes one mutex and is one step.
\<close>

section \<open>State\<close>

text \<open>A table of tables: by client, and by packet identifier or filter. \<open>'s\<close> is a session.\<close>

type_synonym ('k, 'v) table = "(bytes \<times> ('k \<times> 'v) list) list"

record 's memSessionStore =
  st_db :: "(bytes \<times> 's) list"
  st_subCache :: "(bytes, subscribe) table"
  st_offlineTable :: "(bytes \<times> mqtt list) list"
  st_msgMaxNum :: nat
  st_recCache :: "(u16, mqtt) table"
  st_sendCache :: "(u16, mqtt) table"
  st_secTwoCache :: "(u16, unit) table"

definition NewMemSessionStore :: "'s memSessionStore" where
  "NewMemSessionStore = \<lparr>st_db = [], st_subCache = [], st_offlineTable = [], st_msgMaxNum = 1000, st_recCache = [],
     st_sendCache = [], st_secTwoCache = []\<rparr>"

record memMessageStore =
  st_willTable :: "(bytes \<times> publish) list"
  st_retainTable :: "(bytes \<times> publish) list"

definition NewMemMessageStore :: memMessageStore where
  "NewMemMessageStore = \<lparr>st_willTable = [], st_retainTable = []\<rparr>"

section \<open>Tables\<close>

text \<open>
  A client without a table gets an empty one. The tables the code shares by reference are replaced in
  the outer table.
\<close>

definition tb_of :: "bytes \<Rightarrow> ('k, 'v) table \<Rightarrow> ('k \<times> 'v) list" where
  "tb_of c T = (case map_of T c of None \<Rightarrow> [] | Some t \<Rightarrow> t)"

definition tb_put :: "bytes \<Rightarrow> 'k \<Rightarrow> 'v \<Rightarrow> ('k, 'v) table \<Rightarrow> ('k, 'v) table" where
  "tb_put c k v T = AList.update c (AList.update k v (tb_of c T)) T"

definition tb_del :: "bytes \<Rightarrow> 'k \<Rightarrow> ('k, 'v) table \<Rightarrow> ('k, 'v) table" where
  "tb_del c k T = (case map_of T c of None \<Rightarrow> T | Some t \<Rightarrow> AList.update c (AList.delete k t) T)"

definition tb_dels :: "bytes \<Rightarrow> 'k list \<Rightarrow> ('k, 'v) table \<Rightarrow> ('k, 'v) table" where
  "tb_dels c ks T = (case map_of T c of None \<Rightarrow> T | Some t \<Rightarrow> AList.update c (fold AList.delete ks t) T)"

definition tb_at :: "('k, 'v) table \<Rightarrow> bytes \<Rightarrow> 'k \<Rightarrow> 'v option" where
  "tb_at T c k = map_of (tb_of c T) k"

section \<open>Sessions and subscriptions\<close>

definition GetSession :: "bytes \<Rightarrow> 's memSessionStore \<Rightarrow> goerr + 's" where
  "GetSession c m = (case map_of (st_db m) c of None \<Rightarrow> Inl (Errorf ''session no exist'') | Some s \<Rightarrow> Inr s)"

definition StoreSession :: "bytes \<Rightarrow> 's \<Rightarrow> 's memSessionStore \<Rightarrow> 's memSessionStore \<times> goerr option" where
  "StoreSession c s m = (m\<lparr>st_db := AList.update c s (st_db m)\<rparr>, None)"

definition ClearOfflineMsgs :: "bytes \<Rightarrow> 's memSessionStore \<Rightarrow> 's memSessionStore \<times> goerr option" where
  "ClearOfflineMsgs c m = (m\<lparr>st_offlineTable := AList.delete c (st_offlineTable m)\<rparr>, None)"

definition ClearSession :: "bytes \<Rightarrow> bool \<Rightarrow> 's memSessionStore \<Rightarrow> 's memSessionStore \<times> goerr option" where
  "ClearSession c off m =
     (let m1 = m\<lparr>st_db := AList.delete c (st_db m)\<rparr> in if off then ClearOfflineMsgs c m1 else (m1, None))"

text \<open>\<open>StoreSubscription\<close> stores the clones under the filters at the same positions.\<close>

definition StoreSubscription :: "bytes \<Rightarrow> subscribe \<Rightarrow> 's memSessionStore \<Rightarrow> ('s memSessionStore \<times> goerr option) option" where
  "StoreSubscription c sub m =
     (case Clone sub of
        None \<Rightarrow> None
      | Some subs \<Rightarrow>
          Some (m\<lparr>st_subCache := AList.update c
            (fold (\<lambda>(tp, s). AList.update tp s) (zip (subscribe.topics sub) subs) (tb_of c (st_subCache m))) (st_subCache m)\<rparr>, None))"

definition DelSubscription :: "bytes \<Rightarrow> bytes \<Rightarrow> 's memSessionStore \<Rightarrow> 's memSessionStore \<times> goerr option" where
  "DelSubscription c tp m =
     (if map_of (st_subCache m) c = None then (m, Some (Errorf ''no subscription''))
      else (m\<lparr>st_subCache := tb_del c tp (st_subCache m)\<rparr>, None))"

definition ClearSubscriptions :: "bytes \<Rightarrow> 's memSessionStore \<Rightarrow> 's memSessionStore \<times> goerr option" where
  "ClearSubscriptions c m = (m\<lparr>st_subCache := AList.delete c (st_subCache m)\<rparr>, None)"

definition GetSubscriptions :: "bytes \<Rightarrow> 's memSessionStore \<Rightarrow> subscribe list" where
  "GetSubscriptions c m = map snd (tb_of c (st_subCache m))"

section \<open>Messages in flight\<close>

text \<open>
  Three tables with the same operations: publications of the client that wait for PUBREL, publications
  for the client that wait for an answer, and identifiers that wait for PUBCOMP.
\<close>

definition CacheInflowMsg :: "bytes \<Rightarrow> mqtt \<Rightarrow> 's memSessionStore \<Rightarrow> 's memSessionStore \<times> goerr option" where
  "CacheInflowMsg c msg m = (m\<lparr>st_recCache := tb_put c (mqtt_pid msg) msg (st_recCache m)\<rparr>, None)"

definition ReleaseInflowMsg :: "bytes \<Rightarrow> u16 \<Rightarrow> 's memSessionStore \<Rightarrow> 's memSessionStore \<times> (goerr + mqtt)" where
  "ReleaseInflowMsg c p m =
     (case tb_at (st_recCache m) c p of
        None \<Rightarrow> (m, Inl (Errorf ''no inflow msg''))
      | Some msg \<Rightarrow> (m\<lparr>st_recCache := tb_del c p (st_recCache m)\<rparr>, Inr msg))"

definition ReleaseInflowMsgs :: "bytes \<Rightarrow> u16 list \<Rightarrow> 's memSessionStore \<Rightarrow> 's memSessionStore \<times> goerr option" where
  "ReleaseInflowMsgs c ps m = (m\<lparr>st_recCache := tb_dels c ps (st_recCache m)\<rparr>, None)"

definition ReleaseAllInflowMsg :: "bytes \<Rightarrow> 's memSessionStore \<Rightarrow> 's memSessionStore \<times> goerr option" where
  "ReleaseAllInflowMsg c m = (m\<lparr>st_recCache := AList.delete c (st_recCache m)\<rparr>, None)"

definition GetAllInflowMsg :: "bytes \<Rightarrow> 's memSessionStore \<Rightarrow> mqtt list" where
  "GetAllInflowMsg c m = map snd (tb_of c (st_recCache m))"

definition CacheOutflowMsg :: "bytes \<Rightarrow> mqtt \<Rightarrow> 's memSessionStore \<Rightarrow> 's memSessionStore \<times> goerr option" where
  "CacheOutflowMsg c msg m = (m\<lparr>st_sendCache := tb_put c (mqtt_pid msg) msg (st_sendCache m)\<rparr>, None)"

definition GetAllOutflowMsg :: "bytes \<Rightarrow> 's memSessionStore \<Rightarrow> mqtt list" where
  "GetAllOutflowMsg c m = map snd (tb_of c (st_sendCache m))"

definition ReleaseOutflowMsg :: "bytes \<Rightarrow> u16 \<Rightarrow> 's memSessionStore \<Rightarrow> 's memSessionStore \<times> (goerr + mqtt)" where
  "ReleaseOutflowMsg c p m =
     (case tb_at (st_sendCache m) c p of
        None \<Rightarrow> (m, Inl (Errorf ''no out inflow msg''))
      | Some msg \<Rightarrow> (m\<lparr>st_sendCache := tb_del c p (st_sendCache m)\<rparr>, Inr msg))"

definition ReleaseOutflowMsgs :: "bytes \<Rightarrow> u16 list \<Rightarrow> 's memSessionStore \<Rightarrow> 's memSessionStore \<times> goerr option" where
  "ReleaseOutflowMsgs c ps m = (m\<lparr>st_sendCache := tb_dels c ps (st_sendCache m)\<rparr>, None)"

definition ReleaseAllOutflowMsg :: "bytes \<Rightarrow> 's memSessionStore \<Rightarrow> 's memSessionStore \<times> goerr option" where
  "ReleaseAllOutflowMsg c m = (m\<lparr>st_sendCache := AList.delete c (st_sendCache m)\<rparr>, None)"

definition CacheOutflowSecMsgId :: "bytes \<Rightarrow> u16 \<Rightarrow> 's memSessionStore \<Rightarrow> 's memSessionStore \<times> goerr option" where
  "CacheOutflowSecMsgId c p m = (m\<lparr>st_secTwoCache := tb_put c p () (st_secTwoCache m)\<rparr>, None)"

definition GetAllOutflowSecMsg :: "bytes \<Rightarrow> 's memSessionStore \<Rightarrow> u16 list" where
  "GetAllOutflowSecMsg c m = map fst (tb_of c (st_secTwoCache m))"

definition ReleaseOutflowSecMsgId :: "bytes \<Rightarrow> u16 \<Rightarrow> 's memSessionStore \<Rightarrow> 's memSessionStore \<times> goerr option" where
  "ReleaseOutflowSecMsgId c p m =
     (if map_of (st_secTwoCache m) c = None then (m, Some (Errorf ''no out inflow msg''))
      else (m\<lparr>st_secTwoCache := tb_del c p (st_secTwoCache m)\<rparr>, None))"

definition ReleaseOutflowSecMsgIds :: "bytes \<Rightarrow> u16 list \<Rightarrow> 's memSessionStore \<Rightarrow> 's memSessionStore \<times> goerr option" where
  "ReleaseOutflowSecMsgIds c ps m = (m\<lparr>st_secTwoCache := tb_dels c ps (st_secTwoCache m)\<rparr>, None)"

definition ReleaseAllOutflowSecMsg :: "bytes \<Rightarrow> 's memSessionStore \<Rightarrow> 's memSessionStore \<times> goerr option" where
  "ReleaseAllOutflowSecMsg c m = (m\<lparr>st_secTwoCache := AList.delete c (st_secTwoCache m)\<rparr>, None)"

section \<open>Messages for clients that are offline\<close>

text \<open>
  The list of a client that has none is made, and the message put into it; the list is not put into the
  table.
\<close>

definition StoreOfflineMsg :: "bytes \<Rightarrow> mqtt \<Rightarrow> 's memSessionStore \<Rightarrow> 's memSessionStore \<times> goerr option" where
  "StoreOfflineMsg c msg m =
     (case map_of (st_offlineTable m) c of
        None \<Rightarrow> if 0 \<ge> st_msgMaxNum m then (m, Some (Errorf ''too many msg'')) else (m, None)
      | Some v \<Rightarrow>
          if length v \<ge> st_msgMaxNum m then (m, Some (Errorf ''too many msg''))
          else (m\<lparr>st_offlineTable := AList.update c (v @ [msg]) (st_offlineTable m)\<rparr>, None))"

text \<open>The decimal digits of a number, \<open>strconv.Itoa\<close>.\<close>

fun Itoa :: "nat \<Rightarrow> bytes" where
  "Itoa n = (if n < 10 then [word_of_nat (48 + n)] else Itoa (n div 10) @ [word_of_nat (48 + n mod 10)])"

declare Itoa.simps [simp del]

definition GetAllOfflineMsg :: "bytes \<Rightarrow> 's memSessionStore \<Rightarrow> mqtt list \<times> bytes list" where
  "GetAllOfflineMsg c m =
     (case map_of (st_offlineTable m) c of
        None \<Rightarrow> ([], [])
      | Some v \<Rightarrow> (v, map (\<lambda>msg. Itoa (unat (mqtt_pid msg))) v))"

text \<open>
  An identifier in the list deletes one message and is used up; the empty string, which marks a used
  one, deletes none. \<open>use_id\<close> is the loop over the identifiers for one message.
\<close>

fun use_id :: "bytes \<Rightarrow> bytes list \<Rightarrow> bytes list option" where
  "use_id i [] = None"
| "use_id i (x # xs) = (if x \<noteq> [] \<and> i = x then Some ([] # xs) else map_option (Cons x) (use_id i xs))"

fun clear_ids :: "bytes list \<Rightarrow> mqtt list \<Rightarrow> bytes list \<times> mqtt list" where
  "clear_ids ids [] = (ids, [])"
| "clear_ids ids (msg # v) =
     (case use_id (Itoa (unat (mqtt_pid msg))) ids of
        Some ids' \<Rightarrow> clear_ids ids' v
      | None \<Rightarrow> (case clear_ids ids v of (ids', v') \<Rightarrow> (ids', msg # v')))"

definition ClearOfflineMsgById :: "bytes \<Rightarrow> bytes list \<Rightarrow> 's memSessionStore \<Rightarrow> bytes list \<times> 's memSessionStore \<times> goerr option" where
  "ClearOfflineMsgById c ids m =
     (case map_of (st_offlineTable m) c of
        None \<Rightarrow> (ids, m, None)
      | Some v \<Rightarrow>
          if v = [] then (ids, m, None)
          else (case clear_ids ids v of (ids', v') \<Rightarrow> (ids', m\<lparr>st_offlineTable := AList.update c v' (st_offlineTable m)\<rparr>, None)))"

section \<open>Wills and retained messages\<close>

definition StoreWillMessage :: "bytes \<Rightarrow> publish \<Rightarrow> memMessageStore \<Rightarrow> memMessageStore \<times> goerr option" where
  "StoreWillMessage c msg m = (m\<lparr>st_willTable := AList.update c msg (st_willTable m)\<rparr>, None)"

definition ClearWillMessage :: "bytes \<Rightarrow> memMessageStore \<Rightarrow> memMessageStore \<times> goerr option" where
  "ClearWillMessage c m = (m\<lparr>st_willTable := AList.delete c (st_willTable m)\<rparr>, None)"

definition GetWillMessage :: "bytes \<Rightarrow> memMessageStore \<Rightarrow> goerr + publish" where
  "GetWillMessage c m = (case map_of (st_willTable m) c of Some msg \<Rightarrow> Inr msg | None \<Rightarrow> Inl (Errorf ''no will msg''))"

definition StoreRetainMessage :: "bytes \<Rightarrow> publish \<Rightarrow> memMessageStore \<Rightarrow> memMessageStore \<times> goerr option" where
  "StoreRetainMessage tp msg m = (m\<lparr>st_retainTable := AList.update tp msg (st_retainTable m)\<rparr>, None)"

definition ClearRetainMessage :: "bytes \<Rightarrow> memMessageStore \<Rightarrow> memMessageStore \<times> goerr option" where
  "ClearRetainMessage tp m = (m\<lparr>st_retainTable := AList.delete tp (st_retainTable m)\<rparr>, None)"

definition GetRetainMessage :: "bytes \<Rightarrow> memMessageStore \<Rightarrow> goerr + publish" where
  "GetRetainMessage tp m = (case map_of (st_retainTable m) tp of Some msg \<Rightarrow> Inr msg | None \<Rightarrow> Inl (Errorf ''no retain msg''))"

definition GetAllRetainMsg :: "memMessageStore \<Rightarrow> publish list" where
  "GetAllRetainMsg m = map snd (st_retainTable m)"

section \<open>What a table promises\<close>

text \<open>The keys of a client's table are distinct, so what is listed is what the table holds.\<close>

definition tb_ok :: "('k, 'v) table \<Rightarrow> bool" where
  "tb_ok T \<longleftrightarrow> (\<forall>c. distinct (map fst (tb_of c T)))"

lemma tb_of_update: "tb_of c' (AList.update c t T) = (if c' = c then t else tb_of c' T)"
  by (simp add: tb_of_def update_conv')

lemma tb_of_delete: "tb_of c' (AList.delete c T) = (if c' = c then [] else tb_of c' T)"
  by (simp add: tb_of_def delete_conv')

lemma tb_cases:
  "map_of T c = None \<Longrightarrow> tb_of c T = [] \<and> tb_del c k T = T \<and> tb_dels c ks T = T"
  "map_of T c = Some t \<Longrightarrow> tb_of c T = t \<and> tb_del c k T = AList.update c (AList.delete k t) T \<and>
     tb_dels c ks T = AList.update c (fold AList.delete ks t) T"
  by (simp_all add: tb_of_def tb_del_def tb_dels_def)

lemma fold_delete_map: "map_of (fold AList.delete ks t) = (map_of t) |` (- set ks)"
proof (induction ks arbitrary: t)
  case (Cons k ks)
  then show ?case by (auto simp: delete_conv' restrict_map_def fun_eq_iff)
qed (simp add: fun_eq_iff)

lemma fold_delete_distinct: "distinct (map fst t) \<Longrightarrow> distinct (map fst (fold AList.delete ks t))"
  by (induction ks arbitrary: t) (simp_all add: distinct_delete)

locale client_table =
  fixes put :: "bytes \<Rightarrow> 'k \<Rightarrow> 'v \<Rightarrow> 't \<Rightarrow> 't"
    and del :: "bytes \<Rightarrow> 'k \<Rightarrow> 't \<Rightarrow> 't"
    and dels :: "bytes \<Rightarrow> 'k list \<Rightarrow> 't \<Rightarrow> 't"
    and drop :: "bytes \<Rightarrow> 't \<Rightarrow> 't"
    and at :: "'t \<Rightarrow> bytes \<Rightarrow> 'k \<Rightarrow> 'v option"
    and all :: "bytes \<Rightarrow> 't \<Rightarrow> ('k \<times> 'v) list"
    and ok :: "'t \<Rightarrow> bool"
  assumes put: "ok t \<Longrightarrow> ok (put c k v t) \<and> at (put c k v t) = (at t)(c := (at t c)(k \<mapsto> v))"
    and del: "ok t \<Longrightarrow> ok (del c k t) \<and> at (del c k t) = (at t)(c := (at t c)(k := None))"
    and dels: "ok t \<Longrightarrow> ok (dels c ks t) \<and> at (dels c ks t) = (at t)(c := (at t c) |` (- set ks))"
    and drop: "ok t \<Longrightarrow> ok (drop c t) \<and> at (drop c t) = (at t)(c := Map.empty)"
    and all: "ok t \<Longrightarrow> distinct (map fst (all c t)) \<and> map_of (all c t) = at t c"
begin

lemma all_values: "ok t \<Longrightarrow> set (map snd (all c t)) = ran (at t c)"
  using all [of t c] by (metis list.set_map ran_distinct)

lemma all_keys: "ok t \<Longrightarrow> distinct (map fst (all c t)) \<and> set (map fst (all c t)) = dom (at t c)"
  using all [of t c] by (metis dom_map_of_conv_image_fst list.set_map)

end

interpretation tb: client_table tb_put tb_del tb_dels AList.delete tb_at tb_of tb_ok
proof (unfold_locales, goal_cases)
  case (1 t c k v)
  then show ?case
    by (auto simp: tb_ok_def tb_put_def tb_of_update tb_at_def update_conv' distinct_update fun_eq_iff)
next
  case (2 t c k)
  then have d: "distinct (map fst (tb_of c t))" by (simp add: tb_ok_def)
  show ?case
  proof (cases "map_of t c")
    case None
    with 2 tb_cases(1) [OF this] show ?thesis by (auto simp: tb_at_def fun_eq_iff)
  next
    case (Some u)
    with 2 d tb_cases(2) [OF this] show ?thesis
      by (auto simp: tb_ok_def tb_of_update tb_at_def delete_conv' distinct_delete fun_eq_iff)
  qed
next
  case (3 t c ks)
  then have d: "distinct (map fst (tb_of c t))" by (simp add: tb_ok_def)
  show ?case
  proof (cases "map_of t c")
    case None
    with 3 tb_cases(1) [OF this] show ?thesis by (auto simp: tb_at_def restrict_map_def fun_eq_iff)
  next
    case (Some u)
    with 3 d tb_cases(2) [OF this] show ?thesis
      by (auto simp: tb_ok_def tb_of_update tb_at_def fold_delete_map fold_delete_distinct restrict_map_def fun_eq_iff)
  qed
next
  case (4 t c)
  then show ?case by (auto simp: tb_ok_def tb_of_delete tb_at_def fun_eq_iff)
next
  case (5 t c)
  then show ?case by (auto simp: tb_ok_def tb_at_def fun_eq_iff)
qed

section \<open>The session store over any sequence of calls\<close>

datatype 's store_call =
    CallStoreSession bytes 's
  | CallClearSession bytes bool
  | CallStoreSubscription bytes subscribe
  | CallDelSubscription bytes bytes
  | CallClearSubscriptions bytes
  | CallCacheInflow bytes mqtt
  | CallReleaseInflow bytes u16
  | CallReleaseInflows bytes "u16 list"
  | CallReleaseAllInflow bytes
  | CallCacheOutflow bytes mqtt
  | CallReleaseOutflow bytes u16
  | CallReleaseOutflows bytes "u16 list"
  | CallReleaseAllOutflow bytes
  | CallCacheOutflowSec bytes u16
  | CallReleaseOutflowSec bytes u16
  | CallReleaseOutflowSecs bytes "u16 list"
  | CallReleaseAllOutflowSec bytes
  | CallStoreOffline bytes mqtt
  | CallClearOffline bytes
  | CallClearOfflineById bytes "bytes list"

fun store_exec :: "'s store_call \<Rightarrow> 's memSessionStore \<Rightarrow> 's memSessionStore option" where
  "store_exec (CallStoreSession c s) m = Some (fst (StoreSession c s m))"
| "store_exec (CallClearSession c off) m = Some (fst (ClearSession c off m))"
| "store_exec (CallStoreSubscription c sub) m = map_option fst (StoreSubscription c sub m)"
| "store_exec (CallDelSubscription c tp) m = Some (fst (DelSubscription c tp m))"
| "store_exec (CallClearSubscriptions c) m = Some (fst (ClearSubscriptions c m))"
| "store_exec (CallCacheInflow c msg) m = Some (fst (CacheInflowMsg c msg m))"
| "store_exec (CallReleaseInflow c p) m = Some (fst (ReleaseInflowMsg c p m))"
| "store_exec (CallReleaseInflows c ps) m = Some (fst (ReleaseInflowMsgs c ps m))"
| "store_exec (CallReleaseAllInflow c) m = Some (fst (ReleaseAllInflowMsg c m))"
| "store_exec (CallCacheOutflow c msg) m = Some (fst (CacheOutflowMsg c msg m))"
| "store_exec (CallReleaseOutflow c p) m = Some (fst (ReleaseOutflowMsg c p m))"
| "store_exec (CallReleaseOutflows c ps) m = Some (fst (ReleaseOutflowMsgs c ps m))"
| "store_exec (CallReleaseAllOutflow c) m = Some (fst (ReleaseAllOutflowMsg c m))"
| "store_exec (CallCacheOutflowSec c p) m = Some (fst (CacheOutflowSecMsgId c p m))"
| "store_exec (CallReleaseOutflowSec c p) m = Some (fst (ReleaseOutflowSecMsgId c p m))"
| "store_exec (CallReleaseOutflowSecs c ps) m = Some (fst (ReleaseOutflowSecMsgIds c ps m))"
| "store_exec (CallReleaseAllOutflowSec c) m = Some (fst (ReleaseAllOutflowSecMsg c m))"
| "store_exec (CallStoreOffline c msg) m = Some (fst (StoreOfflineMsg c msg m))"
| "store_exec (CallClearOffline c) m = Some (fst (ClearOfflineMsgs c m))"
| "store_exec (CallClearOfflineById c ids) m = Some (fst (snd (ClearOfflineMsgById c ids m)))"

fun store_run :: "'s store_call list \<Rightarrow> 's memSessionStore \<Rightarrow> 's memSessionStore option" where
  "store_run [] m = Some m"
| "store_run (x # xs) m = (case store_exec x m of None \<Rightarrow> None | Some m' \<Rightarrow> store_run xs m')"

text \<open>
  What the calls mean for maps from client and key. A subscription is stored under each of its filters,
  the whole message every time.
\<close>

record 's store_view =
  sw_db :: "bytes \<Rightarrow> 's option"
  sw_sub :: "bytes \<Rightarrow> bytes \<Rightarrow> subscribe option"
  sw_rec :: "bytes \<Rightarrow> u16 \<Rightarrow> mqtt option"
  sw_send :: "bytes \<Rightarrow> u16 \<Rightarrow> mqtt option"
  sw_sec :: "bytes \<Rightarrow> u16 \<Rightarrow> unit option"

definition store_view :: "'s memSessionStore \<Rightarrow> 's store_view" where
  "store_view m = \<lparr>sw_db = map_of (st_db m), sw_sub = tb_at (st_subCache m), sw_rec = tb_at (st_recCache m),
     sw_send = tb_at (st_sendCache m), sw_sec = tb_at (st_secTwoCache m)\<rparr>"

definition empty_view :: "'s store_view" where
  "empty_view = \<lparr>sw_db = Map.empty, sw_sub = (\<lambda>_. Map.empty), sw_rec = (\<lambda>_. Map.empty), sw_send = (\<lambda>_. Map.empty),
     sw_sec = (\<lambda>_. Map.empty)\<rparr>"

abbreviation at_client :: "bytes \<Rightarrow> (('k \<Rightarrow> 'v option) \<Rightarrow> 'k \<Rightarrow> 'v option) \<Rightarrow> (bytes \<Rightarrow> 'k \<Rightarrow> 'v option) \<Rightarrow> bytes \<Rightarrow> 'k \<Rightarrow> 'v option" where
  "at_client c f T \<equiv> T(c := f (T c))"

fun store_spec :: "'s store_call \<Rightarrow> 's store_view \<Rightarrow> 's store_view" where
  "store_spec (CallStoreSession c s) v = v\<lparr>sw_db := (sw_db v)(c \<mapsto> s)\<rparr>"
| "store_spec (CallClearSession c off) v = v\<lparr>sw_db := (sw_db v)(c := None)\<rparr>"
| "store_spec (CallStoreSubscription c sub) v =
     v\<lparr>sw_sub := at_client c (\<lambda>t tp. if tp \<in> set (subscribe.topics sub) then Some sub else t tp) (sw_sub v)\<rparr>"
| "store_spec (CallDelSubscription c tp) v = v\<lparr>sw_sub := at_client c (\<lambda>t. t(tp := None)) (sw_sub v)\<rparr>"
| "store_spec (CallClearSubscriptions c) v = v\<lparr>sw_sub := (sw_sub v)(c := Map.empty)\<rparr>"
| "store_spec (CallCacheInflow c msg) v = v\<lparr>sw_rec := at_client c (\<lambda>t. t(mqtt_pid msg \<mapsto> msg)) (sw_rec v)\<rparr>"
| "store_spec (CallReleaseInflow c p) v = v\<lparr>sw_rec := at_client c (\<lambda>t. t(p := None)) (sw_rec v)\<rparr>"
| "store_spec (CallReleaseInflows c ps) v = v\<lparr>sw_rec := at_client c (\<lambda>t. t |` (- set ps)) (sw_rec v)\<rparr>"
| "store_spec (CallReleaseAllInflow c) v = v\<lparr>sw_rec := (sw_rec v)(c := Map.empty)\<rparr>"
| "store_spec (CallCacheOutflow c msg) v = v\<lparr>sw_send := at_client c (\<lambda>t. t(mqtt_pid msg \<mapsto> msg)) (sw_send v)\<rparr>"
| "store_spec (CallReleaseOutflow c p) v = v\<lparr>sw_send := at_client c (\<lambda>t. t(p := None)) (sw_send v)\<rparr>"
| "store_spec (CallReleaseOutflows c ps) v = v\<lparr>sw_send := at_client c (\<lambda>t. t |` (- set ps)) (sw_send v)\<rparr>"
| "store_spec (CallReleaseAllOutflow c) v = v\<lparr>sw_send := (sw_send v)(c := Map.empty)\<rparr>"
| "store_spec (CallCacheOutflowSec c p) v = v\<lparr>sw_sec := at_client c (\<lambda>t. t(p \<mapsto> ())) (sw_sec v)\<rparr>"
| "store_spec (CallReleaseOutflowSec c p) v = v\<lparr>sw_sec := at_client c (\<lambda>t. t(p := None)) (sw_sec v)\<rparr>"
| "store_spec (CallReleaseOutflowSecs c ps) v = v\<lparr>sw_sec := at_client c (\<lambda>t. t |` (- set ps)) (sw_sec v)\<rparr>"
| "store_spec (CallReleaseAllOutflowSec c) v = v\<lparr>sw_sec := (sw_sec v)(c := Map.empty)\<rparr>"
| "store_spec (CallStoreOffline c msg) v = v"
| "store_spec (CallClearOffline c) v = v"
| "store_spec (CallClearOfflineById c ids) v = v"

definition store_ok :: "'s memSessionStore \<Rightarrow> bool" where
  "store_ok m \<longleftrightarrow> tb_ok (st_subCache m) \<and> tb_ok (st_recCache m) \<and> tb_ok (st_sendCache m) \<and> tb_ok (st_secTwoCache m) \<and>
     st_offlineTable m = []"

text \<open>\<open>Clone\<close> reads the first option of every kind, so a subscription has options if it has a filter.\<close>

fun call_ok :: "'s store_call \<Rightarrow> bool" where
  "call_ok (CallStoreSubscription c sub) = Subscribe.aligned sub"
| "call_ok _ = True"

lemma store_topics:
  "map_of (fold (\<lambda>(tp, s). AList.update tp s) (zip tps (map (\<lambda>i. sub) [0..<length tps])) t) tp =
     (if tp \<in> set tps then Some sub else map_of t tp)"
proof -
  have "map_of (fold (\<lambda>(tp, s). AList.update tp s) (map (\<lambda>x. (x, sub)) tps) t) tp =
      (if tp \<in> set tps then Some sub else map_of t tp)"
    by (induction tps arbitrary: t) (simp_all add: update_conv')
  then show ?thesis by (simp add: map_replicate_trivial zip_replicate2)
qed

lemma store_topics_distinct:
  "distinct (map fst t) \<Longrightarrow> distinct (map fst (fold (\<lambda>(tp, s). AList.update tp s) xs t))"
  by (induction xs arbitrary: t) (simp_all add: split_def distinct_update)

lemma tb_absent: "map_of T c = None \<Longrightarrow> tb_at T c = Map.empty"
  by (simp add: tb_at_def tb_of_def fun_eq_iff)

lemma release_spec:
  assumes "tb_ok T"
  shows "tb_at (if tb_at T c k = None then T else tb_del c k T) = at_client c (\<lambda>t. t(k := None)) (tb_at T)"
    "tb_ok (if tb_at T c k = None then T else tb_del c k T)"
  using tb.del [OF assms, of c k] assms by (auto simp: fun_eq_iff)

lemma store_exec_spec:
  assumes ok: "store_ok m" and c: "call_ok x"
  shows "\<exists>m'. store_exec x m = Some m' \<and> store_ok m' \<and> store_view m' = store_spec x (store_view m)"
proof -
  have t: "tb_ok (st_subCache m)" "tb_ok (st_recCache m)" "tb_ok (st_sendCache m)" "tb_ok (st_secTwoCache m)"
    "st_offlineTable m = []"
    using ok by (simp_all add: store_ok_def)
  note ops = store_ok_def store_view_def t tb.put tb.del tb.dels tb.drop
  show ?thesis
  proof (cases x)
    case (CallStoreSubscription c sub)
    have cl: "Clone sub = Some (map (\<lambda>i. sub) [0..<length (subscribe.topics sub)])"
      using c by (auto simp: CallStoreSubscription Clone_def aligned_def)
    show ?thesis
      using t by (auto simp: CallStoreSubscription StoreSubscription_def cl store_ok_def store_view_def tb_ok_def tb_at_def tb_of_update
          store_topics store_topics_distinct fun_eq_iff)
  next
    case (CallReleaseInflow c p)
    then show ?thesis
      using release_spec [OF t(2), of c p] t by (auto simp: ReleaseInflowMsg_def store_ok_def store_view_def split: option.splits)
  next
    case (CallReleaseOutflow c p)
    then show ?thesis
      using release_spec [OF t(3), of c p] t by (auto simp: ReleaseOutflowMsg_def store_ok_def store_view_def split: option.splits)
  next
    case (CallDelSubscription c tp)
    then show ?thesis
      using tb_absent [of "st_subCache m" c] by (auto simp: DelSubscription_def ops fun_eq_iff)
  next
    case (CallReleaseOutflowSec c p)
    then show ?thesis
      using tb_absent [of "st_secTwoCache m" c] by (auto simp: ReleaseOutflowSecMsgId_def ops fun_eq_iff)
  next
    case (CallStoreSession c s)
    then show ?thesis by (auto simp: StoreSession_def ops update_conv' fun_eq_iff)
  next
    case (CallClearSession c off)
    then show ?thesis by (auto simp: ClearSession_def ClearOfflineMsgs_def Let_def ops delete_conv' fun_eq_iff)
  qed (auto simp: ops ClearSubscriptions_def CacheInflowMsg_def ReleaseInflowMsgs_def ReleaseAllInflowMsg_def CacheOutflowMsg_def
      ReleaseOutflowMsgs_def ReleaseAllOutflowMsg_def CacheOutflowSecMsgId_def ReleaseOutflowSecMsgIds_def
      ReleaseAllOutflowSecMsg_def StoreOfflineMsg_def ClearOfflineMsgs_def ClearOfflineMsgById_def)
qed

lemma store_run_spec:
  "store_ok m \<Longrightarrow> list_all call_ok cs \<Longrightarrow>
     \<exists>m'. store_run cs m = Some m' \<and> store_ok m' \<and> store_view m' = fold store_spec cs (store_view m)"
proof (induction cs arbitrary: m)
  case (Cons x cs)
  obtain m1 where m1: "store_exec x m = Some m1" "store_ok m1" "store_view m1 = store_spec x (store_view m)"
    using store_exec_spec [OF Cons.prems(1), of x] Cons.prems(2) by auto
  show ?case using Cons.IH [OF m1(2)] Cons.prems(2) m1 by simp
qed simp

lemma new_store: "store_ok NewMemSessionStore" "store_view NewMemSessionStore = empty_view"
  by (simp_all add: store_ok_def NewMemSessionStore_def tb_ok_def tb_of_def store_view_def empty_view_def tb_at_def fun_eq_iff)

text \<open>What a store gives back is what its tables hold, each entry once.\<close>

lemma store_gets:
  assumes "store_ok m"
  shows "set (GetAllInflowMsg c m) = ran (sw_rec (store_view m) c)"
    "set (GetAllOutflowMsg c m) = ran (sw_send (store_view m) c)"
    "set (GetAllOutflowSecMsg c m) = dom (sw_sec (store_view m) c)" "distinct (GetAllOutflowSecMsg c m)"
    "set (GetSubscriptions c m) = ran (sw_sub (store_view m) c)"
    "GetAllOfflineMsg c m = ([], [])"
  using assms tb.all_values [of "st_recCache m" c] tb.all_values [of "st_sendCache m" c] tb.all_values [of "st_subCache m" c]
    tb.all_keys [of "st_secTwoCache m" c]
  by (simp_all add: store_ok_def store_view_def GetAllInflowMsg_def GetAllOutflowMsg_def GetAllOutflowSecMsg_def
      GetSubscriptions_def GetAllOfflineMsg_def)

text \<open>C32: The session store in memory behaves over any sequence of calls like maps from client and key, and no client's
  calls change what another client has there. It never gives a message for an offline client back: after
  any sequence of calls the messages stored for a client that was offline are lost.\<close>

theorem store_refines:
  assumes "list_all call_ok cs"
  shows "\<exists>m. store_run cs NewMemSessionStore = Some (m :: 's memSessionStore) \<and>
    store_view m = fold store_spec cs empty_view \<and>
    (\<forall>c. set (GetAllInflowMsg c m) = ran (sw_rec (store_view m) c) \<and>
      set (GetAllOutflowMsg c m) = ran (sw_send (store_view m) c) \<and>
      set (GetAllOutflowSecMsg c m) = dom (sw_sec (store_view m) c) \<and>
      set (GetSubscriptions c m) = ran (sw_sub (store_view m) c) \<and>
      GetAllOfflineMsg c m = ([], []))"
  using store_run_spec [OF new_store(1) assms] store_gets by (metis new_store(2))

section \<open>Witnesses\<close>

theorem store_refines_witness:
  "\<exists>m. store_run [CallStoreOffline [1] (MPingreq NewPingreqMessage), CallStoreSubscription [1] demo_subscribe,
      CallCacheInflow [1] (MPingreq NewPingreqMessage), CallClearSession [1] True] NewMemSessionStore = Some (m :: unit memSessionStore) \<and>
    GetAllOfflineMsg [1] m = ([], []) \<and> set (GetSubscriptions [1] m) = {demo_subscribe}"
proof -
  let ?cs = "[CallStoreOffline [1] (MPingreq NewPingreqMessage), CallStoreSubscription [1] demo_subscribe,
      CallCacheInflow [1] (MPingreq NewPingreqMessage), CallClearSession [1] True] :: unit store_call list"
  have a: "Subscribe.aligned demo_subscribe" by (simp add: aligned_def demo_subscribe_eq)
  have t: "subscribe.topics demo_subscribe \<noteq> []" by (simp add: demo_subscribe_eq)
  have c: "list_all call_ok ?cs" using a by simp
  have v: "sw_sub (fold store_spec ?cs empty_view) [1] = (\<lambda>tp. if tp \<in> set (subscribe.topics demo_subscribe) then Some demo_subscribe else None)"
    by (simp add: empty_view_def fun_eq_iff)
  have r: "ran (sw_sub (fold store_spec ?cs empty_view) [1]) = {demo_subscribe}"
    using t unfolding v by (cases "subscribe.topics demo_subscribe") (auto simp: ran_def)
  obtain m where m: "store_run ?cs NewMemSessionStore = Some m" "store_view m = fold store_spec ?cs empty_view"
    "set (GetSubscriptions [1] m) = ran (sw_sub (store_view m) [1])" "GetAllOfflineMsg [1] m = ([], [])"
    using store_refines [OF c] by blast
  then show ?thesis using r by (simp only: m(2)) blast
qed

end
