(* ===== verification/DbSession.thy ===== *)
theory DbSession
  imports Store Qos2
begin

text \<open>
  Sessions that outlive their connection (\<open>corev5/v2/sessions/impl/db_ackqueue.go\<close>, \<open>db_session.go\<close>, and
  \<open>InitSample\<close> of \<open>mem_session.go\<close>): a queue that writes every waiting message to the session store before
  it keeps it in memory, and a session that is made again from what the store holds. The store is the one
  in memory. A message in the store is the value it had when it was stored; the counter \<open>g\<close> is the one
  packet identifiers are drawn from.
\<close>

section \<open>The queue\<close>

text \<open>\<open>dq_cachePkId\<close> is the buffered channel of identifiers for a deletion in bulk, \<open>None\<close> where it is nil.\<close>

record dbAckqueue =
  dq_memAQ :: "unit ackqueue"
  dq_clientId :: bytes
  dq_isIn :: bool
  dq_cachePkId :: "u16 list option"
  dq_lastDeleteTime :: int
  dq_batchNum :: int

definition newMemAckQueue :: "u64 \<Rightarrow> unit ackqueue" where "newMemAckQueue n = newAckqueue n"

definition newDbAckQueue :: "u64 \<Rightarrow> bytes \<Rightarrow> bool \<Rightarrow> bool \<Rightarrow> dbAckqueue" where
  "newDbAckQueue n c isIn isBatchOp =
     \<lparr>dq_memAQ = newMemAckQueue n, dq_clientId = c, dq_isIn = isIn,
      dq_cachePkId = (if isBatchOp then Some [] else None), dq_lastDeleteTime = 0, dq_batchNum = 100\<rparr>"

definition GetNum :: "dbAckqueue \<Rightarrow> nat" where
  "GetNum d = (case dq_cachePkId d of None \<Rightarrow> 0 | Some ch \<Rightarrow> length ch)"

text \<open>The loop compares its counter with the length of the channel it takes from.\<close>

fun batch_take :: "nat \<Rightarrow> u16 list \<Rightarrow> u16 list \<times> u16 list" where
  "batch_take i [] = ([], [])"
| "batch_take i (x # ch) = (if i < length (x # ch) then apfst (Cons x) (batch_take (i + 1) ch) else ([], x # ch))"

definition batch_ids :: "dbAckqueue \<Rightarrow> u16 list \<times> dbAckqueue" where
  "batch_ids d =
     (case dq_cachePkId d of
        None \<Rightarrow> ([], d)
      | Some ch \<Rightarrow> (case batch_take 0 ch of (pks, ch') \<Rightarrow> (pks, d\<lparr>dq_cachePkId := Some ch'\<rparr>)))"

definition BatchReleaseOutflowMsg :: "int \<Rightarrow> dbAckqueue \<Rightarrow> 's memSessionStore \<Rightarrow> goerr option \<times> dbAckqueue \<times> 's memSessionStore" where
  "BatchReleaseOutflowMsg now d st =
     (case batch_ids d of
        (pks, d1) \<Rightarrow>
          (case ReleaseOutflowMsgs (dq_clientId d) pks st of
             (st', Some e) \<Rightarrow> (Some e, d1, st')
           | (st', None) \<Rightarrow> (None, d1\<lparr>dq_lastDeleteTime := now\<rparr>, st')))"

definition BatchReleaseOutflowSecMsgId :: "int \<Rightarrow> dbAckqueue \<Rightarrow> 's memSessionStore \<Rightarrow> goerr option \<times> dbAckqueue \<times> 's memSessionStore" where
  "BatchReleaseOutflowSecMsgId now d st =
     (case batch_ids d of
        (pks, d1) \<Rightarrow>
          (case ReleaseOutflowSecMsgIds (dq_clientId d) pks st of
             (st', Some e) \<Rightarrow> (Some e, d1, st')
           | (st', None) \<Rightarrow> (None, d1\<lparr>dq_lastDeleteTime := now\<rparr>, st')))"

text \<open>What \<open>Wait\<close> writes to the store, and the error that keeps the message out of the queue.\<close>

definition db_keep :: "mqtt \<Rightarrow> dbAckqueue \<Rightarrow> 's memSessionStore \<Rightarrow> ('s memSessionStore \<times> goerr option) option" where
  "db_keep msg d st =
     (case msg of
        MPublish p \<Rightarrow>
          Some (if QoS p = QosAtMostOnce then (st, Some errWaitMessage)
                else if QoS p = QosExactlyOnce \<and> dq_isIn d then CacheInflowMsg (dq_clientId d) msg st
                else if QoS p = QosExactlyOnce \<and> \<not> dq_isIn d then CacheOutflowMsg (dq_clientId d) msg st
                else if QoS p = QosAtLeastOnce \<and> \<not> dq_isIn d then CacheOutflowMsg (dq_clientId d) msg st
                else (st, None))
      | MSubscribe s \<Rightarrow> StoreSubscription (dq_clientId d) s st
      | MUnsubscribe _ \<Rightarrow> Some (st, None)
      | MPingreq _ \<Rightarrow> Some (st, None)
      | _ \<Rightarrow> Some (st, Some errWaitMessage))"

definition db_Wait ::
    "u64 \<Rightarrow> mqtt \<Rightarrow> unit option \<Rightarrow> dbAckqueue \<Rightarrow> 's memSessionStore \<Rightarrow>
     (goerr option \<times> u64 \<times> dbAckqueue \<times> 's memSessionStore) option" where
  "db_Wait g msg cb d st =
     do {
       (st1, e) \<leftarrow> db_keep msg d st;
       if e \<noteq> None then Some (e, g, d, st1)
       else do {
         (e1, g1, m1, q) \<leftarrow> queue_Wait g msg cb (dq_memAQ d);
         Some (e1, g1, d\<lparr>dq_memAQ := q\<rparr>, st1)
       }
     }"

text \<open>What \<open>Ack\<close> removes from the store and writes to it.\<close>

definition db_forget :: "mqtt \<Rightarrow> dbAckqueue \<Rightarrow> 's memSessionStore \<Rightarrow> 's memSessionStore \<times> goerr option" where
  "db_forget msg d st =
     (let c = dq_clientId d; p = mqtt_pid msg in
      if mqtt_type msg = PUBACK then
        (case ReleaseOutflowMsg c p st of (st1, Inl e) \<Rightarrow> (st1, Some e) | (st1, Inr _) \<Rightarrow> (st1, None))
      else if mqtt_type msg = PUBREC then
        (case ReleaseOutflowMsg c p st of (st1, Inl e) \<Rightarrow> (st1, Some e) | (st1, Inr _) \<Rightarrow> CacheOutflowSecMsgId c p st1)
      else if mqtt_type msg = PUBREL then
        (case ReleaseInflowMsg c p st of (st1, Inl e) \<Rightarrow> (st1, Some e) | (st1, Inr _) \<Rightarrow> (st1, None))
      else if mqtt_type msg = PUBCOMP then ReleaseOutflowSecMsgId c p st
      else if mqtt_type msg = PINGRESP then (st, None)
      else (st, Some errAckMessage))"

definition db_Ack :: "u64 \<Rightarrow> mqtt \<Rightarrow> dbAckqueue \<Rightarrow> 's memSessionStore \<Rightarrow> (goerr option \<times> dbAckqueue \<times> 's memSessionStore) option" where
  "db_Ack g msg d st =
     (case db_forget msg d st of
        (st1, Some e) \<Rightarrow> Some (Some e, d, st1)
      | (st1, None) \<Rightarrow> do { (e, q) \<leftarrow> queue_Ack g msg (dq_memAQ d); Some (e, d\<lparr>dq_memAQ := q\<rparr>, st1) })"

definition db_Acked :: "dbAckqueue \<Rightarrow> (unit ackmsg list \<times> dbAckqueue) option" where
  "db_Acked d = map_option (apsnd (\<lambda>q. d\<lparr>dq_memAQ := q\<rparr>)) (aq_Acked (dq_memAQ d))"

section \<open>The session\<close>

text \<open>The six queues, and the rest of the session in memory, whose own queues are not used.\<close>

record dbSession =
  ds_memSession :: "unit session"
  ds_pub1ack :: dbAckqueue
  ds_pub2in :: dbAckqueue
  ds_pub2out :: dbAckqueue
  ds_suback :: dbAckqueue
  ds_unsuback :: dbAckqueue
  ds_pingack :: dbAckqueue
  ds_offline :: "mqtt list"

text \<open>The sessions a store is handed: those of the memory provider and those of this file.\<close>

datatype stored = StoredMem "unit session" | StoredDb dbSession

type_synonym store = "stored memSessionStore"

definition nil_queue :: dbAckqueue where
  "nil_queue = \<lparr>dq_memAQ = no_queue, dq_clientId = [], dq_isIn = False, dq_cachePkId = None, dq_lastDeleteTime = 0,
     dq_batchNum = 0\<rparr>"

definition NewDBSession :: "bytes \<Rightarrow> dbSession" where
  "NewDBSession i = \<lparr>ds_memSession = NewMemSession i, ds_pub1ack = nil_queue, ds_pub2in = nil_queue,
     ds_pub2out = nil_queue, ds_suback = nil_queue, ds_unsuback = nil_queue, ds_pingack = nil_queue, ds_offline = []\<rparr>"

text \<open>\<open>InitSample\<close>: unlike \<open>Init\<close>, the will has no expiry interval.\<close>

definition sample_will :: "connect \<Rightarrow> publish" where
  "sample_will cm =
     SetRetain (WillRetain cm)
       (SetPayload (willMessage cm)
         (fst (SetTopic (willTopic cm) (fst (SetQoS (WillQos cm) NewPublishMessage)))))"

definition InitSample :: "connect \<Rightarrow> sub list \<Rightarrow> dbSession \<Rightarrow> (connect \<times> dbSession \<times> goerr option) option" where
  "InitSample msg tps d =
     (let s = ds_memSession d in
      if ss_initted s then Some (msg, d, Some (Errorf ''session already initialized''))
      else case keep_connect msg s of
        None \<Rightarrow> None
      | Some (msg', s1, Some e) \<Rightarrow> Some (msg', d\<lparr>ds_memSession := s1\<rparr>, Some e)
      | Some (msg', s1, None) \<Rightarrow>
          (let cm = ss_cmessage s1;
               s2 = (if WillFlag cm then s1\<lparr>ss_will := Some (sample_will cm)\<rparr> else s1);
               c = clientId msg'
           in Some (msg', d\<lparr>
                ds_memSession := s2\<lparr>ss_topicAlice := [], ss_topicAliceRe := [], ss_id := c,
                  ss_topics := fold (\<lambda>sb. AList.update (subTopic sb) sb) tps [], ss_status := ONLINE, ss_initted := True\<rparr>,
                ds_pub1ack := newDbAckQueue (push_bit 1 defaultQueueSize) c False True,
                ds_pub2in := newDbAckQueue (push_bit 1 defaultQueueSize) c True False,
                ds_pub2out := newDbAckQueue (push_bit 1 defaultQueueSize) c False True,
                ds_suback := newDbAckQueue (drop_bit 4 defaultQueueSize) c False False,
                ds_unsuback := newDbAckQueue (drop_bit 4 defaultQueueSize) c False False,
                ds_pingack := newDbAckQueue (drop_bit 4 defaultQueueSize) c False False\<rparr>, None)))"

text \<open>One round of the goroutine \<open>runBatch\<close>.\<close>

definition batch_round :: "int \<Rightarrow> dbSession \<Rightarrow> store \<Rightarrow> dbSession \<times> store" where
  "batch_round now d st =
     (let (d1, st1) =
            (if GetNum (ds_pub2out d) > 0
             then (case BatchReleaseOutflowSecMsgId now (ds_pub2out d) st of (e, q, st1) \<Rightarrow> (d\<lparr>ds_pub2out := q\<rparr>, st1))
             else (d, st))
      in if GetNum (ds_pub1ack d1) > 0
         then (case BatchReleaseOutflowMsg now (ds_pub1ack d1) st1 of (e, q, st2) \<Rightarrow> (d1\<lparr>ds_pub1ack := q\<rparr>, st2))
         else (d1, st1))"

text \<open>
  The subscription a stored SUBSCRIBE stands for: its first filter. A message without filters leaves the
  zero value.
\<close>

definition init_topic :: "subscribe \<Rightarrow> sub option" where
  "init_topic s =
     (case subscribe.topics s of
        [] \<Rightarrow> Some no_sub
      | tp # _ \<Rightarrow>
          do {
            q \<leftarrow> at_i 0 (subscribe.qos s);
            nl \<leftarrow> TopicNoLocal tp s;
            rap \<leftarrow> TopicRetainAsPublished tp s;
            rh \<leftarrow> TopicRetainHandling tp s;
            Some \<lparr>subTopic = tp, subQos = q, subNoLocal = nl, subRetainAsPublished = rap, subRetainHandling = rh,
              subSubIdentifier = subscribe.subscriptionIdentifier s\<rparr>
          })"

fun init_topics :: "subscribe list \<Rightarrow> sub list option" where
  "init_topics [] = Some []"
| "init_topics (s # ss) = do { t \<leftarrow> init_topic s; ts \<leftarrow> init_topics ss; Some (t # ts) }"

text \<open>Messages put back into a queue; errors are dropped.\<close>

fun wait_all :: "u64 \<Rightarrow> mqtt list \<Rightarrow> dbAckqueue \<Rightarrow> store \<Rightarrow> (u64 \<times> dbAckqueue \<times> store) option" where
  "wait_all g [] d st = Some (g, d, st)"
| "wait_all g (m # ms) d st = do { (e, g1, d1, st1) \<leftarrow> db_Wait g m (Some ()) d st; wait_all g1 ms d1 st1 }"

text \<open>Outgoing messages go to the queue of their QoS; one that is no PUBLISH is a panic.\<close>

fun wait_out :: "u64 \<Rightarrow> mqtt list \<Rightarrow> dbSession \<Rightarrow> store \<Rightarrow> (u64 \<times> dbSession \<times> store) option" where
  "wait_out g [] d st = Some (g, d, st)"
| "wait_out g (m # ms) d st =
     (case m of
        MPublish p \<Rightarrow>
          (if QoS p = 2
           then do { (e, g1, q, st1) \<leftarrow> db_Wait g m (Some ()) (ds_pub2out d) st; wait_out g1 ms (d\<lparr>ds_pub2out := q\<rparr>) st1 }
           else do { (e, g1, q, st1) \<leftarrow> db_Wait g m (Some ()) (ds_pub1ack d) st; wait_out g1 ms (d\<lparr>ds_pub1ack := q\<rparr>) st1 })
      | _ \<Rightarrow> None)"

definition db_Init :: "u64 \<Rightarrow> connect \<Rightarrow> dbSession \<Rightarrow> store \<Rightarrow> (u64 \<times> connect \<times> dbSession \<times> store \<times> goerr option) option" where
  "db_Init g msg d st =
     (let cid = clientId msg in
      do {
        tps \<leftarrow> init_topics (GetSubscriptions cid st);
        (msg', d1, e) \<leftarrow> InitSample msg tps d;
        if e \<noteq> None then Some (g, msg', d1, st, e)
        else do {
          (g1, qin, st1) \<leftarrow> wait_all g (GetAllInflowMsg cid st) (ds_pub2in d1) st;
          (g2, d2, st2) \<leftarrow> wait_out g1 (GetAllOutflowMsg cid st1) (d1\<lparr>ds_pub2in := qin\<rparr>) st1;
          (g3, qout, st3) \<leftarrow> wait_all g2 (map (\<lambda>p. MPublish (SetPacketId p NewPublishMessage)) (GetAllOutflowSecMsg cid st2))
            (ds_pub2out d2) st2;
          let d3 = d2\<lparr>ds_pub2out := qout\<rparr>;
              offline = fst (GetAllOfflineMsg cid st3);
              (d4, st4) = (if length offline > 0 then (d3\<lparr>ds_offline := offline\<rparr>, fst (ClearOfflineMsgs cid st3)) else (d3, st3));
              (st5, e5) = StoreSession cid (StoredMem (ds_memSession d4)) st4
          in Some (g3, msg', d4, st5, e5)
        }
      })"

definition db_Update :: "connect \<Rightarrow> dbSession \<Rightarrow> store \<Rightarrow> (connect \<times> dbSession \<times> store \<times> goerr option) option" where
  "db_Update msg d st =
     (case StoreSession (clientId msg) (StoredMem (NewMemSessionByCon msg)) st of
        (st1, Some e) \<Rightarrow> Some (msg, d, st1, Some e)
      | (st1, None) \<Rightarrow>
          do { (msg', s, e) \<leftarrow> sess_Update msg (ds_memSession d); Some (msg', d\<lparr>ds_memSession := s\<rparr>, st1, None) })"

definition db_AddTopic :: "sub \<Rightarrow> dbSession \<Rightarrow> store \<Rightarrow> (dbSession \<times> store \<times> goerr option) option" where
  "db_AddTopic sb d st =
     do {
       (s, e) \<leftarrow> AddTopicAll (subTopic sb) (subQos sb) (subNoLocal sb) (subRetainAsPublished sb) (subRetainHandling sb)
         NewSubscribeMessage;
       if e \<noteq> None then Some (d, st, e)
       else do {
         (st1, e1) \<leftarrow> StoreSubscription (sess_ClientId (ds_memSession d))
           (Subscribe.SetSubscriptionIdentifier (subSubIdentifier sb) s) st;
         if e1 \<noteq> None then Some (d, st1, e1)
         else Some (d\<lparr>ds_memSession := fst (sess_AddTopic sb (ds_memSession d))\<rparr>, st1, None)
       }
     }"

definition db_RemoveTopic :: "bytes \<Rightarrow> dbSession \<Rightarrow> store \<Rightarrow> dbSession \<times> store \<times> goerr option" where
  "db_RemoveTopic tp d st =
     (case DelSubscription (sess_ClientId (ds_memSession d)) tp st of
        (st1, Some e) \<Rightarrow> (d, st1, Some e)
      | (st1, None) \<Rightarrow> (d\<lparr>ds_memSession := fst (sess_RemoveTopic tp (ds_memSession d))\<rparr>, st1, None))"

definition db_SetStatus :: "int \<Rightarrow> status \<Rightarrow> dbSession \<Rightarrow> store \<Rightarrow> dbSession \<times> store" where
  "db_SetStatus now v d st =
     (let d1 = d\<lparr>ds_memSession := sess_SetOfflineTime now (sess_SetStatus v (ds_memSession d))\<rparr>
      in (d1, fst (StoreSession (sess_ClientId (ds_memSession d1)) (StoredDb d1) st)))"

section \<open>What waits is in the store\<close>

text \<open>The messages a queue writes to the store, and the table it writes them to.\<close>

definition waitable :: "bool \<Rightarrow> mqtt \<Rightarrow> bool" where
  "waitable isIn m \<longleftrightarrow> (case m of MPublish p \<Rightarrow> QoS p = QosExactlyOnce \<or> \<not> isIn \<and> QoS p = QosAtLeastOnce | _ \<Rightarrow> False)"

text \<open>The packet of a message, which does not depend on the counter for packet identifiers.\<close>

definition msg_packet :: "mqtt \<Rightarrow> bytes" where
  "msg_packet m = fst (m_encode (mqtt_ops 0) m)"

definition encodes :: "mqtt \<Rightarrow> bool" where
  "encodes m \<longleftrightarrow> (\<forall>g. \<exists>g' m' n. enc g m = Some (g', m', msg_packet m, n, None))"

text \<open>The packet of a message waits in a queue for its first acknowledgement.\<close>

definition queued :: "dbAckqueue \<Rightarrow> mqtt \<Rightarrow> bool" where
  "queued d m \<longleftrightarrow> (\<exists>x\<in>set (aq_list (dq_memAQ d)). Pktid x = mqtt_pid m \<and> State x = RESERVED \<and> Msgbuf x = msg_packet m)"

definition held :: "bool \<Rightarrow> bytes \<Rightarrow> 's memSessionStore \<Rightarrow> u16 \<Rightarrow> mqtt option" where
  "held isIn c st = tb_at (if isIn then st_recCache st else st_sendCache st) c"

definition good_held :: "bool \<Rightarrow> bytes \<Rightarrow> 's memSessionStore \<Rightarrow> bool" where
  "good_held isIn c st \<longleftrightarrow> (\<forall>p m. held isIn c st p = Some m \<longrightarrow> mqtt_pid m = p \<and> waitable isIn m \<and> encodes m)"

definition good_both :: "bytes \<Rightarrow> 's memSessionStore \<Rightarrow> bool" where
  "good_both c st \<longleftrightarrow> good_held True c st \<and> good_held False c st"

lemma good_bothD: "good_both c st \<Longrightarrow> good_held isIn c st"
  by (cases isIn) (simp_all add: good_both_def)

lemma good_bothI: "(\<And>isIn. good_held isIn c st) \<Longrightarrow> good_both c st"
  by (simp add: good_both_def)

definition reserved :: "dbAckqueue \<Rightarrow> u16 set" where
  "reserved d = Pktid ` {x \<in> set (aq_list (dq_memAQ d)). State x = RESERVED}"

text \<open>The message \<open>Wait\<close> was called with last, for each packet identifier.\<close>

definition note_wait :: "(mqtt, unit) aq_op \<Rightarrow> (u16 \<Rightarrow> mqtt option) \<Rightarrow> u16 \<Rightarrow> mqtt option" where
  "note_wait c w = (case c of Wait_op m cb \<Rightarrow> w(mqtt_pid m \<mapsto> m) | _ \<Rightarrow> w)"

definition last_wait :: "(mqtt, unit) aq_op list \<Rightarrow> u16 \<Rightarrow> mqtt option" where
  "last_wait cs = fold note_wait cs Map.empty"

definition durable :: "(u16 \<Rightarrow> mqtt option) \<Rightarrow> dbAckqueue \<Rightarrow> 's memSessionStore \<Rightarrow> bool" where
  "durable w d st \<longleftrightarrow>
     aq_inv (dq_memAQ d) \<and> store_ok st \<and> good_both (dq_clientId d) st \<and>
     (\<forall>p\<in>reserved d. \<exists>m. w p = Some m \<and> held (dq_isIn d) (dq_clientId d) st p = Some m)"

fun db_run :: "(mqtt, unit) aq_op list \<Rightarrow> u64 \<Rightarrow> dbAckqueue \<Rightarrow> 's memSessionStore \<Rightarrow> (u64 \<times> dbAckqueue \<times> 's memSessionStore) option" where
  "db_run [] g d st = Some (g, d, st)"
| "db_run (Wait_op m cb # cs) g d st = do { (e, g1, d1, st1) \<leftarrow> db_Wait g m cb d st; db_run cs g1 d1 st1 }"
| "db_run (Ack_op m # cs) g d st = do { (e, d1, st1) \<leftarrow> db_Ack g m d st; db_run cs g d1 st1 }"
| "db_run (Acked_op # cs) g d st = do { (ams, d1) \<leftarrow> db_Acked d; db_run cs g d1 st }"

definition op_ok :: "bool \<Rightarrow> (mqtt, unit) aq_op \<Rightarrow> bool" where
  "op_ok isIn c \<longleftrightarrow>
     (case c of Wait_op m cb \<Rightarrow> waitable isIn m \<and> encodes m | Ack_op m \<Rightarrow> (\<forall>g. enc g m \<noteq> None) | Acked_op \<Rightarrow> True)"

text \<open>Nothing but the tables of messages in flight changes, and the queue stays the queue of its client.\<close>

definition same_queue :: "dbAckqueue \<Rightarrow> 's memSessionStore \<Rightarrow> dbAckqueue \<Rightarrow> 's memSessionStore \<Rightarrow> bool" where
  "same_queue d st d' st' \<longleftrightarrow>
     dq_isIn d' = dq_isIn d \<and> dq_clientId d' = dq_clientId d \<and> st_subCache st' = st_subCache st"

lemma same_queue_trans: "same_queue d st d1 st1 \<Longrightarrow> same_queue d1 st1 d2 st2 \<Longrightarrow> same_queue d st d2 st2"
  by (simp add: same_queue_def)

lemma queue_Wait_spec:
  assumes "aq_inv q" "encodes m" "m = MPublish p" "QoS p \<noteq> QosAtMostOnce"
  shows "\<exists>g' m' q'. queue_Wait g m cb q = Some (None, g', m', q') \<and> aq_inv q' \<and>
    aq_list q' = (if mqtt_pid m \<in> Pktid ` set (aq_list q) then aq_list q else aq_list q @ [new_ackmsg (mqtt_ops g) m cb])"
proof -
  obtain g1 m1 b n where e: "enc g m = Some (g1, m1, b, n, None)" using assms(2) unfolding encodes_def by blast
  have enc: "snd (m_encode (mqtt_ops g) m) = None" by (simp add: mqtt_ops_def e)
  have M: "m_dyntype (mqtt_ops g) m = PUBLISH" "m_qos (mqtt_ops g) m \<noteq> QosAtMostOnce" "m_pid (mqtt_ops g) m = mqtt_pid m"
    using assms(3,4) by (simp_all add: mqtt_ops_def)
  have w: "spec_Wait (mqtt_ops g) m cb (aq_view q) =
      (None, if mqtt_pid m \<in> Pktid ` set (aq_list q) then aq_list q else aq_list q @ [new_ackmsg (mqtt_ops g) m cb], aq_ping q)"
    using M enc by (simp add: spec_Wait_def aq_view_def PUBLISH_def PINGREQ_def)
  obtain q' where q': "aq_Wait (mqtt_ops g) m cb q = Some (None, q')" "aq_inv q'"
    "aq_list q' = (if mqtt_pid m \<in> Pktid ` set (aq_list q) then aq_list q else aq_list q @ [new_ackmsg (mqtt_ops g) m cb])"
    using aq_Wait_inv [OF assms(1), of "mqtt_ops g" m cb] unfolding w by (auto simp: aq_view_def)
  show ?thesis using q' e by (auto simp: queue_Wait_def)
qed

lemma new_ackmsg_mqtt: "Pktid (new_ackmsg (mqtt_ops g) m cb) = mqtt_pid m" "State (new_ackmsg (mqtt_ops g) m cb) = RESERVED"
  by (simp_all add: new_ackmsg_def mqtt_ops_def)

lemma waitableE:
  assumes "waitable isIn m"
  obtains p where "m = MPublish p" "QoS p \<noteq> QosAtMostOnce"
  using assms by (cases m) (auto simp: waitable_def QosAtMostOnce_def QosAtLeastOnce_def QosExactlyOnce_def)

lemma db_keep_waitable:
  assumes "waitable (dq_isIn d) m" "store_ok st"
  shows "\<exists>st1. db_keep m d st = Some (st1, None) \<and> store_ok st1 \<and> st_subCache st1 = st_subCache st \<and>
    held (dq_isIn d) (dq_clientId d) st1 = (held (dq_isIn d) (dq_clientId d) st)(mqtt_pid m \<mapsto> m) \<and>
    held (\<not> dq_isIn d) (dq_clientId d) st1 = held (\<not> dq_isIn d) (dq_clientId d) st \<and>
    (dq_isIn d \<longrightarrow> st_sendCache st1 = st_sendCache st)"
proof -
  obtain p where p: "m = MPublish p" "QoS p \<noteq> QosAtMostOnce" using assms(1) by (rule waitableE)
  have t: "tb_ok (st_recCache st)" "tb_ok (st_sendCache st)" using assms(2) by (simp_all add: store_ok_def)
  show ?thesis
  proof (cases "dq_isIn d")
    case True
    then have "QoS p = QosExactlyOnce" using assms(1) p by (simp add: waitable_def)
    then show ?thesis
      using p True assms(2) tb.put [OF t(1), of "dq_clientId d" "PacketId p" m]
      by (auto simp: db_keep_def CacheInflowMsg_def store_ok_def held_def)
  next
    case False
    then have "QoS p = QosExactlyOnce \<or> QoS p = QosAtLeastOnce" using assms(1) p by (simp add: waitable_def)
    then show ?thesis
      using p False assms(2) tb.put [OF t(2), of "dq_clientId d" "PacketId p" m]
      by (auto simp: db_keep_def CacheOutflowMsg_def store_ok_def held_def)
  qed
qed

lemma db_Wait_waitable:
  assumes w: "waitable (dq_isIn d) m" "encodes m" and q: "aq_inv (dq_memAQ d)" and st: "store_ok st"
  shows "\<exists>g1 d1 st1. db_Wait g m cb d st = Some (None, g1, d1, st1) \<and> same_queue d st d1 st1 \<and> store_ok st1 \<and>
    aq_inv (dq_memAQ d1) \<and> reserved d1 \<subseteq> insert (mqtt_pid m) (reserved d) \<and>
    (mqtt_pid m \<notin> Pktid ` set (aq_list (dq_memAQ d)) \<longrightarrow> queued d1 m) \<and>
    set (aq_list (dq_memAQ d)) \<subseteq> set (aq_list (dq_memAQ d1)) \<and>
    Pktid ` set (aq_list (dq_memAQ d1)) = insert (mqtt_pid m) (Pktid ` set (aq_list (dq_memAQ d))) \<and>
    held (dq_isIn d) (dq_clientId d) st1 = (held (dq_isIn d) (dq_clientId d) st)(mqtt_pid m \<mapsto> m) \<and>
    held (\<not> dq_isIn d) (dq_clientId d) st1 = held (\<not> dq_isIn d) (dq_clientId d) st \<and>
    (dq_isIn d \<longrightarrow> st_sendCache st1 = st_sendCache st)"
proof -
  obtain p where p: "m = MPublish p" "QoS p \<noteq> QosAtMostOnce" using w(1) by (rule waitableE)
  obtain st1 where k: "db_keep m d st = Some (st1, None)" "store_ok st1" "st_subCache st1 = st_subCache st"
    "held (dq_isIn d) (dq_clientId d) st1 = (held (dq_isIn d) (dq_clientId d) st)(mqtt_pid m \<mapsto> m)"
    "held (\<not> dq_isIn d) (dq_clientId d) st1 = held (\<not> dq_isIn d) (dq_clientId d) st"
    "dq_isIn d \<longrightarrow> st_sendCache st1 = st_sendCache st"
    using db_keep_waitable [OF w(1) st] by blast
  obtain g1 m1 q1 where q1: "queue_Wait g m cb (dq_memAQ d) = Some (None, g1, m1, q1)" "aq_inv q1"
    "aq_list q1 = (if mqtt_pid m \<in> Pktid ` set (aq_list (dq_memAQ d)) then aq_list (dq_memAQ d)
       else aq_list (dq_memAQ d) @ [new_ackmsg (mqtt_ops g) m cb])"
    using queue_Wait_spec [OF q w(2) p] by blast
  have buf: "Msgbuf (new_ackmsg (mqtt_ops g) m cb) = msg_packet m"
    using w(2) [unfolded encodes_def, rule_format, of g] by (auto simp: new_ackmsg_def mqtt_ops_def)
  let ?d1 = "d\<lparr>dq_memAQ := q1\<rparr>"
  have w: "db_Wait g m cb d st = Some (None, g1, ?d1, st1)" by (simp add: db_Wait_def k(1) q1(1))
  have sq: "same_queue d st ?d1 st1" by (simp add: same_queue_def k(3))
  have r: "reserved ?d1 \<subseteq> insert (mqtt_pid m) (reserved d)"
    and l: "Pktid ` set (aq_list (dq_memAQ ?d1)) = insert (mqtt_pid m) (Pktid ` set (aq_list (dq_memAQ d)))"
    and i: "aq_inv (dq_memAQ ?d1)"
    using q1(2,3) by (auto simp: reserved_def new_ackmsg_mqtt image_iff)
  have n: "mqtt_pid m \<notin> Pktid ` set (aq_list (dq_memAQ d)) \<longrightarrow> queued ?d1 m"
    and s: "set (aq_list (dq_memAQ d)) \<subseteq> set (aq_list (dq_memAQ ?d1))"
    using q1(3) by (auto simp: queued_def new_ackmsg_mqtt buf)
  show ?thesis by (rule exI [of _ g1], rule exI [of _ ?d1], rule exI [of _ st1]) (intro conjI w sq k(2) i r n s l k(4-6))
qed

text \<open>An acknowledgement takes at most its own identifier out of the table.\<close>

definition only_at :: "u16 \<Rightarrow> bool \<Rightarrow> bytes \<Rightarrow> 's memSessionStore \<Rightarrow> 's memSessionStore \<Rightarrow> bool" where
  "only_at p isIn c st st' \<longleftrightarrow>
     held isIn c st' = held isIn c st \<or> held isIn c st' = (held isIn c st)(p := None)"

lemma release_in:
  assumes "store_ok st" "ReleaseInflowMsg c p st = (st1, r)"
  shows "store_ok st1 \<and> st_subCache st1 = st_subCache st \<and> only_at p isIn c st st1 \<and>
    (r \<noteq> Inr (the (tb_at (st_recCache st) c p)) \<longrightarrow> st1 = st)"
proof -
  have t: "tb_ok (st_recCache st)" using assms(1) by (simp add: store_ok_def)
  show ?thesis
    using assms tb.del [OF t, of c p]
    by (auto simp: ReleaseInflowMsg_def store_ok_def only_at_def held_def split: option.splits)
qed

lemma release_out:
  assumes "store_ok st" "ReleaseOutflowMsg c p st = (st1, r)"
  shows "store_ok st1 \<and> st_subCache st1 = st_subCache st \<and> only_at p isIn c st st1 \<and>
    (r \<noteq> Inr (the (tb_at (st_sendCache st) c p)) \<longrightarrow> st1 = st)"
proof -
  have t: "tb_ok (st_sendCache st)" using assms(1) by (simp add: store_ok_def)
  show ?thesis
    using assms tb.del [OF t, of c p]
    by (auto simp: ReleaseOutflowMsg_def store_ok_def only_at_def held_def split: option.splits)
qed

lemma cache_sec:
  "store_ok st \<Longrightarrow> CacheOutflowSecMsgId c p st = (st1, e) \<Longrightarrow>
     store_ok st1 \<and> st_subCache st1 = st_subCache st \<and> held isIn c' st1 = held isIn c' st \<and> e = None"
  using tb.put [of "st_secTwoCache st" c p "()"] by (auto simp: CacheOutflowSecMsgId_def store_ok_def held_def)

lemma release_sec:
  "store_ok st \<Longrightarrow> ReleaseOutflowSecMsgId c p st = (st1, e) \<Longrightarrow>
     store_ok st1 \<and> st_subCache st1 = st_subCache st \<and> held isIn c' st1 = held isIn c' st"
  using tb.del [of "st_secTwoCache st" c p] by (auto simp: ReleaseOutflowSecMsgId_def store_ok_def held_def split: if_splits)

lemma db_forget_held:
  assumes "store_ok st" "db_forget m d st = (st1, e)"
  shows "store_ok st1 \<and> st_subCache st1 = st_subCache st \<and> only_at (mqtt_pid m) isIn (dq_clientId d) st st1 \<and>
    (e \<noteq> None \<longrightarrow> held isIn (dq_clientId d) st1 = held isIn (dq_clientId d) st) \<and>
    (mqtt_type m \<notin> ack_types \<longrightarrow> held isIn (dq_clientId d) st1 = held isIn (dq_clientId d) st)"
proof -
  let ?c = "dq_clientId d" and ?p = "mqtt_pid m"
  obtain st2 r where o: "ReleaseOutflowMsg ?c ?p st = (st2, r)" by force
  obtain st3 r3 where i: "ReleaseInflowMsg ?c ?p st = (st3, r3)" by force
  obtain st4 e4 where c: "CacheOutflowSecMsgId ?c ?p st2 = (st4, e4)" by force
  obtain st5 e5 where x: "ReleaseOutflowSecMsgId ?c ?p st = (st5, e5)" by force
  have c2: "held isIn ?c st4 = held isIn ?c st2" "store_ok st4" "st_subCache st4 = st_subCache st2" "e4 = None"
    using cache_sec [OF _ c] release_out [OF assms(1) o] by simp_all
  show ?thesis
    using assms release_out [OF assms(1) o, of isIn] release_in [OF assms(1) i, of isIn] c2 release_sec [OF assms(1) x, of isIn ?c]
    by (auto simp: db_forget_def Let_def o i c x ack_types_def only_at_def split: if_splits sum.splits)
qed

lemma db_Ack_durable:
  assumes du: "durable w d st" and m: "\<forall>g. enc g m \<noteq> None"
  shows "\<exists>e d1 st1. db_Ack g m d st = Some (e, d1, st1) \<and> durable w d1 st1 \<and> same_queue d st d1 st1"
proof -
  let ?c = "dq_clientId d" and ?in = "dq_isIn d" and ?p = "mqtt_pid m"
  have a: "aq_inv (dq_memAQ d)" "store_ok st" "good_both ?c st" "\<forall>p\<in>reserved d. \<exists>m. w p = Some m \<and> held ?in ?c st p = Some m"
    using du by (simp_all add: durable_def)
  obtain st1 e where f: "db_forget m d st = (st1, e)" by force
  note fh = db_forget_held [OF a(2) f, of ?in]
  have gh: "good_both ?c st1"
  proof (rule good_bothI)
    fix isIn
    show "good_held isIn ?c st1"
      using db_forget_held [OF a(2) f, of isIn] good_bothD [OF a(3), of isIn]
      by (auto simp: good_held_def only_at_def split: if_splits)
  qed
  show ?thesis
  proof (cases e)
    case (Some x)
    then have "durable w d st1" using fh gh a by (simp add: durable_def)
    then show ?thesis using f Some fh by (simp add: db_Ack_def same_queue_def)
  next
    case None
    obtain q' where q': "aq_Ack (mqtt_ops g) m (dq_memAQ d) = Some (fst (spec_Ack (mqtt_ops g) m (aq_view (dq_memAQ d))), q')"
      "aq_inv q'" "aq_view q' = snd (spec_Ack (mqtt_ops g) m (aq_view (dq_memAQ d)))"
      using aq_Ack_inv [OF a(1), of "mqtt_ops g" m] by blast
    let ?d1 = "d\<lparr>dq_memAQ := q'\<rparr>"
    have k: "db_Ack g m d st = Some (fst (spec_Ack (mqtt_ops g) m (aq_view (dq_memAQ d))), ?d1, st1)"
      using q'(1) m by (simp add: db_Ack_def f None queue_Ack_def)
    have l: "aq_list q' = (if mqtt_type m \<in> ack_types
        then map (\<lambda>x. if Pktid x = ?p then x\<lparr>State := mqtt_type m, Ackbuf := fst (m_encode (mqtt_ops g) m)\<rparr> else x) (aq_list (dq_memAQ d))
        else aq_list (dq_memAQ d))"
      using q'(3) by (auto simp: spec_Ack_def aq_view_def mqtt_ops_def split: if_splits)
    have nz: "mqtt_type m \<in> ack_types \<Longrightarrow> mqtt_type m \<noteq> RESERVED"
      by (auto simp: ack_types_def RESERVED_def type_defs)
    have "\<forall>p\<in>reserved ?d1. \<exists>m. w p = Some m \<and> held ?in ?c st1 p = Some m"
    proof (cases "mqtt_type m \<in> ack_types")
      case True
      then have "reserved ?d1 \<subseteq> reserved d - {?p}"
        using nz by (auto simp: reserved_def l split: if_splits)
      moreover have "held ?in ?c st1 p = held ?in ?c st p" if "p \<noteq> ?p" for p
        using fh that by (auto simp: only_at_def)
      ultimately show ?thesis using a(4) by (metis Diff_iff insertCI subsetD)
    next
      case False
      then show ?thesis using a(4) fh by (auto simp: reserved_def l)
    qed
    then have "durable w ?d1 st1" using q'(2) fh gh by (simp add: durable_def)
    then show ?thesis using k fh by (auto simp: same_queue_def)
  qed
qed

lemma db_Acked_durable:
  assumes du: "durable w d st"
  shows "\<exists>ams d1. db_Acked d = Some (ams, d1) \<and> durable w d1 st \<and> same_queue d st d1 st"
proof -
  obtain q' where q': "aq_Acked (dq_memAQ d) = Some (fst (spec_Acked (aq_view (dq_memAQ d))), q')"
      "aq_inv q'" "aq_view q' = snd (spec_Acked (aq_view (dq_memAQ d)))"
    using aq_Acked_inv [of "dq_memAQ d"] du unfolding durable_def by blast
  have "aq_list q' = dropWhile (\<lambda>x. State x \<in> done_types) (aq_list (dq_memAQ d))"
    using q'(3) by (simp add: spec_Acked_def aq_view_def Let_def)
  then have "reserved (d\<lparr>dq_memAQ := q'\<rparr>) \<subseteq> reserved d" by (auto simp: reserved_def dest: set_dropWhileD)
  then show ?thesis using du q'(1,2) by (auto simp: db_Acked_def durable_def same_queue_def)
qed

lemma db_Wait_durable:
  assumes du: "durable w d st" and m: "waitable (dq_isIn d) m" "encodes m"
  shows "\<exists>g1 d1 st1. db_Wait g m cb d st = Some (None, g1, d1, st1) \<and> durable (w(mqtt_pid m \<mapsto> m)) d1 st1 \<and> same_queue d st d1 st1"
proof -
  have d: "aq_inv (dq_memAQ d)" "store_ok st" using du by (simp_all add: durable_def)
  obtain g1 d1 st1 where w: "db_Wait g m cb d st = Some (None, g1, d1, st1)" "same_queue d st d1 st1" "store_ok st1"
    "aq_inv (dq_memAQ d1)" "reserved d1 \<subseteq> insert (mqtt_pid m) (reserved d)"
    "held (dq_isIn d) (dq_clientId d) st1 = (held (dq_isIn d) (dq_clientId d) st)(mqtt_pid m \<mapsto> m)"
    "held (\<not> dq_isIn d) (dq_clientId d) st1 = held (\<not> dq_isIn d) (dq_clientId d) st"
    using db_Wait_waitable [OF m d, of g cb] by blast
  have "good_both (dq_clientId d) st1"
  proof (rule good_bothI)
    fix isIn
    show "good_held isIn (dq_clientId d) st1"
      using w(6,7) m good_bothD [of "dq_clientId d" st isIn] du
      by (cases "isIn = dq_isIn d") (auto simp: durable_def good_held_def)
  qed
  then have "durable (w(mqtt_pid m \<mapsto> m)) d1 st1"
    using w du by (auto simp: durable_def same_queue_def)
  then show ?thesis using w(1,2) by blast
qed

lemma db_run_durable:
  "durable w d st \<Longrightarrow> list_all (op_ok (dq_isIn d)) cs \<Longrightarrow>
     \<exists>g1 d1 st1. db_run cs g d st = Some (g1, d1, st1) \<and> durable (fold note_wait cs w) d1 st1 \<and> same_queue d st d1 st1"
proof (induction cs arbitrary: w g d st)
  case Nil
  then show ?case by (simp add: same_queue_def)
next
  case (Cons c cs)
  have "\<exists>g1 d1 st1. db_run (c # cs) g d st = db_run cs g1 d1 st1 \<and> durable (note_wait c w) d1 st1 \<and> same_queue d st d1 st1"
  proof (cases c)
    case (Wait_op m cb)
    then show ?thesis using db_Wait_durable [OF Cons.prems(1), of m g cb] Cons.prems(2) by (fastforce simp: op_ok_def note_wait_def)
  next
    case (Ack_op m)
    then show ?thesis using db_Ack_durable [OF Cons.prems(1), of m g] Cons.prems(2) by (fastforce simp: op_ok_def note_wait_def)
  next
    case Acked_op
    then show ?thesis using db_Acked_durable [OF Cons.prems(1)] by (fastforce simp: note_wait_def)
  qed
  then obtain g1 d1 st1 where c: "db_run (c # cs) g d st = db_run cs g1 d1 st1" "durable (note_wait c w) d1 st1" "same_queue d st d1 st1"
    by blast
  have "list_all (op_ok (dq_isIn d1)) cs" using Cons.prems(2) c(3) by (simp add: same_queue_def)
  from Cons.IH [OF c(2) this, of g1] c show ?case by (auto intro: same_queue_trans)
qed

section \<open>A session made again\<close>

lemma queued_mono: "queued d m \<Longrightarrow> set (aq_list (dq_memAQ d)) \<subseteq> set (aq_list (dq_memAQ d')) \<Longrightarrow> queued d' m"
  by (auto simp: queued_def)

text \<open>Messages with identifiers of their own, none of them in the queue yet.\<close>

definition restorable :: "bool \<Rightarrow> u16 set \<Rightarrow> mqtt list \<Rightarrow> bool" where
  "restorable isIn ps ms \<longleftrightarrow>
     list_all (\<lambda>m. waitable isIn m \<and> encodes m) ms \<and> distinct (map mqtt_pid ms) \<and> mqtt_pid ` set ms \<inter> ps = {}"

lemma restorable_Cons:
  "restorable isIn ps (m # ms) \<longleftrightarrow>
     waitable isIn m \<and> encodes m \<and> mqtt_pid m \<notin> ps \<and> restorable isIn (insert (mqtt_pid m) ps) ms"
  by (auto simp: restorable_def)

lemma wait_all_ok:
  "restorable (dq_isIn d) (Pktid ` set (aq_list (dq_memAQ d))) ms \<Longrightarrow> aq_inv (dq_memAQ d) \<Longrightarrow> store_ok st \<Longrightarrow>
     \<exists>g' d' st'. wait_all g ms d st = Some (g', d', st') \<and> store_ok st' \<and> (\<forall>m\<in>set ms. queued d' m) \<and>
       set (aq_list (dq_memAQ d)) \<subseteq> set (aq_list (dq_memAQ d')) \<and> (dq_isIn d \<longrightarrow> st_sendCache st' = st_sendCache st)"
proof (induction ms arbitrary: g d st)
  case Nil
  then show ?case by simp
next
  case (Cons m ms)
  have m: "waitable (dq_isIn d) m" "encodes m" "mqtt_pid m \<notin> Pktid ` set (aq_list (dq_memAQ d))"
    using Cons.prems(1) by (simp_all add: restorable_Cons)
  obtain g1 d1 st1 where w: "db_Wait g m (Some ()) d st = Some (None, g1, d1, st1)" "same_queue d st d1 st1" "store_ok st1"
    "aq_inv (dq_memAQ d1)" "queued d1 m" "set (aq_list (dq_memAQ d)) \<subseteq> set (aq_list (dq_memAQ d1))"
    "Pktid ` set (aq_list (dq_memAQ d1)) = insert (mqtt_pid m) (Pktid ` set (aq_list (dq_memAQ d)))"
    "dq_isIn d \<longrightarrow> st_sendCache st1 = st_sendCache st"
    using db_Wait_waitable [OF m(1,2) Cons.prems(2,3), of g "Some ()"] m(3) by blast
  have i: "dq_isIn d1 = dq_isIn d" using w(2) by (simp add: same_queue_def)
  have "restorable (dq_isIn d1) (Pktid ` set (aq_list (dq_memAQ d1))) ms"
    using Cons.prems(1) by (simp add: restorable_Cons w(7) i)
  from Cons.IH [OF this w(4,3), of g1] obtain g2 d2 st2 where r: "wait_all g1 ms d1 st1 = Some (g2, d2, st2)" "store_ok st2"
    "\<forall>m\<in>set ms. queued d2 m" "set (aq_list (dq_memAQ d1)) \<subseteq> set (aq_list (dq_memAQ d2))"
    "dq_isIn d1 \<longrightarrow> st_sendCache st2 = st_sendCache st1" by blast
  have "wait_all g (m # ms) d st = Some (g2, d2, st2)" using w(1) r(1) by simp
  moreover have "queued d2 m" using w(5) r(4) by (rule queued_mono)
  ultimately show ?case using r w(6,8) i by auto
qed

text \<open>The two outgoing queues together: QoS 2 goes to one, QoS 1 to the other.\<close>

definition out_queue :: "mqtt \<Rightarrow> dbSession \<Rightarrow> dbAckqueue" where
  "out_queue m d = (case m of MPublish p \<Rightarrow> if QoS p = QosExactlyOnce then ds_pub2out d else ds_pub1ack d | _ \<Rightarrow> ds_pub1ack d)"

definition out_pids :: "dbSession \<Rightarrow> u16 set" where
  "out_pids d = Pktid ` set (aq_list (dq_memAQ (ds_pub1ack d))) \<union> Pktid ` set (aq_list (dq_memAQ (ds_pub2out d)))"

definition out_ok :: "dbSession \<Rightarrow> bool" where
  "out_ok d \<longleftrightarrow> aq_inv (dq_memAQ (ds_pub1ack d)) \<and> aq_inv (dq_memAQ (ds_pub2out d)) \<and> \<not> dq_isIn (ds_pub1ack d) \<and> \<not> dq_isIn (ds_pub2out d)"

definition out_grows :: "dbSession \<Rightarrow> dbSession \<Rightarrow> bool" where
  "out_grows d d' \<longleftrightarrow> set (aq_list (dq_memAQ (ds_pub1ack d))) \<subseteq> set (aq_list (dq_memAQ (ds_pub1ack d'))) \<and>
     set (aq_list (dq_memAQ (ds_pub2out d))) \<subseteq> set (aq_list (dq_memAQ (ds_pub2out d'))) \<and>
     ds_memSession d' = ds_memSession d \<and> ds_pub2in d' = ds_pub2in d"

lemma out_grows_queued: "queued (out_queue m d) m \<Longrightarrow> out_grows d d' \<Longrightarrow> queued (out_queue m d') m"
  by (auto simp: out_queue_def out_grows_def split: mqtt.splits if_splits elim: queued_mono)

lemma wait_out_step:
  assumes "waitable False m" "encodes m" "mqtt_pid m \<notin> out_pids d" "out_ok d" "store_ok st"
  shows "\<exists>g1 d1 st1. wait_out g (m # ms) d st = wait_out g1 ms d1 st1 \<and> out_ok d1 \<and> store_ok st1 \<and>
      out_pids d1 = insert (mqtt_pid m) (out_pids d) \<and> queued (out_queue m d1) m \<and> out_grows d d1"
proof -
  obtain p where p: "m = MPublish p" using assms(1) by (rule waitableE)
  have q: "aq_inv (dq_memAQ (ds_pub2out d))" "waitable (dq_isIn (ds_pub2out d)) m" "aq_inv (dq_memAQ (ds_pub1ack d))"
    "waitable (dq_isIn (ds_pub1ack d)) m" "mqtt_pid m \<notin> Pktid ` set (aq_list (dq_memAQ (ds_pub2out d)))"
    "mqtt_pid m \<notin> Pktid ` set (aq_list (dq_memAQ (ds_pub1ack d)))"
    using assms(1,3,4) by (simp_all add: out_ok_def out_pids_def)
  show ?thesis
  proof (cases "QoS p = QosExactlyOnce")
    case True
    obtain g1 q1 st1 where w: "db_Wait g m (Some ()) (ds_pub2out d) st = Some (None, g1, q1, st1)" "same_queue (ds_pub2out d) st q1 st1"
      "store_ok st1" "aq_inv (dq_memAQ q1)" "queued q1 m" "set (aq_list (dq_memAQ (ds_pub2out d))) \<subseteq> set (aq_list (dq_memAQ q1))"
      "Pktid ` set (aq_list (dq_memAQ q1)) = insert (mqtt_pid m) (Pktid ` set (aq_list (dq_memAQ (ds_pub2out d))))"
      using db_Wait_waitable [OF q(2) assms(2) q(1) assms(5), of g "Some ()"] q(5) by blast
    show ?thesis
      using w assms(4) p True
      by (intro exI [of _ g1] exI [of _ "d\<lparr>ds_pub2out := q1\<rparr>"] exI [of _ st1])
         (auto simp: out_ok_def out_pids_def same_queue_def out_queue_def out_grows_def QosExactlyOnce_def)
  next
    case False
    obtain g1 q1 st1 where w: "db_Wait g m (Some ()) (ds_pub1ack d) st = Some (None, g1, q1, st1)" "same_queue (ds_pub1ack d) st q1 st1"
      "store_ok st1" "aq_inv (dq_memAQ q1)" "queued q1 m" "set (aq_list (dq_memAQ (ds_pub1ack d))) \<subseteq> set (aq_list (dq_memAQ q1))"
      "Pktid ` set (aq_list (dq_memAQ q1)) = insert (mqtt_pid m) (Pktid ` set (aq_list (dq_memAQ (ds_pub1ack d))))"
      using db_Wait_waitable [OF q(4) assms(2) q(3) assms(5), of g "Some ()"] q(6) by blast
    show ?thesis
      using w assms(4) p False
      by (intro exI [of _ g1] exI [of _ "d\<lparr>ds_pub1ack := q1\<rparr>"] exI [of _ st1])
         (auto simp: out_ok_def out_pids_def same_queue_def out_queue_def out_grows_def QosExactlyOnce_def)
  qed
qed

lemma wait_out_ok:
  "restorable False (out_pids d) ms \<Longrightarrow> out_ok d \<Longrightarrow> store_ok st \<Longrightarrow>
     \<exists>g' d' st'. wait_out g ms d st = Some (g', d', st') \<and> store_ok st' \<and> (\<forall>m\<in>set ms. queued (out_queue m d') m) \<and>
       out_grows d d'"
proof (induction ms arbitrary: g d st)
  case Nil
  then show ?case by (simp add: out_grows_def)
next
  case (Cons m ms)
  have m: "waitable False m" "encodes m" "mqtt_pid m \<notin> out_pids d" "restorable False (insert (mqtt_pid m) (out_pids d)) ms"
    using Cons.prems(1) by (simp_all add: restorable_Cons)
  obtain g1 d1 st1 where c: "wait_out g (m # ms) d st = wait_out g1 ms d1 st1" "out_ok d1" "store_ok st1"
      "out_pids d1 = insert (mqtt_pid m) (out_pids d)" "queued (out_queue m d1) m" "out_grows d d1"
    using wait_out_step [OF m(1-3) Cons.prems(2,3)] by blast
  obtain g2 d2 st2 where r: "wait_out g1 ms d1 st1 = Some (g2, d2, st2)" "store_ok st2"
      "\<forall>m\<in>set ms. queued (out_queue m d2) m" "out_grows d1 d2"
    using Cons.IH [OF m(4) [folded c(4)] c(2,3)] by blast
  have "queued (out_queue m d2) m" using c(5) r(4) by (rule out_grows_queued)
  moreover have "out_grows d d2" using c(6) r(4) by (auto simp: out_grows_def)
  ultimately show ?case using c(1) r(1-3) by auto
qed

text \<open>
  What stands for an identifier in the second phase is a PUBLISH of QoS 0, which no queue accepts: the
  second phase is not taken up again.
\<close>

lemma second_phase_lost:
  "wait_all g (map (\<lambda>p. MPublish (SetPacketId p NewPublishMessage)) ps) d st = Some (g, d, st)"
proof (induction ps)
  case (Cons p ps)
  have "QoS NewPublishMessage = QosAtMostOnce" by code_simp
  then have "QoS (SetPacketId p NewPublishMessage) = QosAtMostOnce"
    by (simp add: SetPacketId_def QoS_def Flags_def alloc_flags_def)
  then show ?case using Cons by (simp add: db_Wait_def db_keep_def errWaitMessage_def)
qed simp

text \<open>The filters and the queues after \<open>Init\<close>.\<close>

definition good_subs :: "bytes \<Rightarrow> 's memSessionStore \<Rightarrow> bool" where
  "good_subs c st \<longleftrightarrow>
     (\<forall>tp s. tb_at (st_subCache st) c tp = Some s \<longrightarrow> (\<exists>sb. init_topic s = Some sb \<and> subTopic sb = tp))"

lemma init_topics_map:
  "\<forall>(tp, s) \<in> set t. \<exists>sb. init_topic s = Some sb \<and> subTopic sb = tp \<Longrightarrow> distinct (map fst t) \<Longrightarrow>
     \<exists>ts. init_topics (map snd t) = Some ts \<and>
       (\<forall>acc tp. map_of (fold (\<lambda>sb. AList.update (subTopic sb) sb) ts acc) tp =
         (case map_of t tp of None \<Rightarrow> map_of acc tp | Some s \<Rightarrow> init_topic s))"
proof (induction t)
  case Nil
  then show ?case by simp
next
  case (Cons x t)
  obtain tp s where x: "x = (tp, s)" by force
  obtain sb where sb: "init_topic s = Some sb" "subTopic sb = tp" using Cons.prems(1) x by auto
  obtain ts where ts: "init_topics (map snd t) = Some ts"
    "\<And>acc tp. map_of (fold (\<lambda>sb. AList.update (subTopic sb) sb) ts acc) tp =
         (case map_of t tp of None \<Rightarrow> map_of acc tp | Some s \<Rightarrow> init_topic s)"
    using Cons by auto
  have "map_of t tp = None" using Cons.prems(2) x by (simp add: map_of_eq_None_iff)
  then show ?case using x sb ts by (auto simp: update_conv' split: option.splits)
qed

text \<open>What a store gives back can be put into empty queues.\<close>

lemma restorable_table:
  assumes "distinct (map fst t)" "\<forall>p m. map_of t p = Some m \<longrightarrow> mqtt_pid m = p \<and> waitable isIn m \<and> encodes m"
  shows "restorable isIn {} (map snd t)"
proof -
  have e: "mqtt_pid m = p \<and> waitable isIn m \<and> encodes m" if "(p, m) \<in> set t" for p m
    using assms that by (auto simp: map_of_eq_Some_iff)
  then have "map mqtt_pid (map snd t) = map fst t" by (induction t) auto
  then have "distinct (map mqtt_pid (map snd t))" by (simp only: assms(1))
  then show ?thesis using e by (auto simp: restorable_def list_all_iff)
qed

lemma stored_restorable:
  assumes "store_ok st" "good_both c st"
  shows "restorable True {} (GetAllInflowMsg c st)" "restorable False {} (GetAllOutflowMsg c st)"
  using assms restorable_table [of "tb_of c (st_recCache st)" True] restorable_table [of "tb_of c (st_sendCache st)" False]
  by (simp_all add: store_ok_def tb_ok_def good_both_def good_held_def held_def tb_at_def GetAllInflowMsg_def GetAllOutflowMsg_def)

lemma db_Init_ok:
  assumes con: "dirty con" "conn_ok con" "conn_readable con" "clientId con = c"
    and st: "store_ok st" "good_both c st" "good_subs c st"
  shows "\<exists>g' d' st'. db_Init g con (NewDBSession i) st = Some (g', conn_built con, d', st', None) \<and>
    (\<forall>p m. held True c st p = Some m \<longrightarrow> queued (ds_pub2in d') m) \<and>
    (\<forall>p m. held False c st p = Some m \<longrightarrow> queued (out_queue m d') m) \<and>
    ss_initted (ds_memSession d') \<and>
    (\<forall>tp. map_of (ss_topics (ds_memSession d')) tp = Option.bind (tb_at (st_subCache st) c tp) init_topic)"
proof -
  have dt: "distinct (map fst (tb_of c (st_subCache st)))" using st(1) by (simp add: store_ok_def tb_ok_def)
  have "\<forall>(tp, s) \<in> set (tb_of c (st_subCache st)). \<exists>sb. init_topic s = Some sb \<and> subTopic sb = tp"
    using st(3) dt by (auto simp: good_subs_def tb_at_def map_of_eq_Some_iff)
  from init_topics_map [OF this dt] obtain ts where ts: "init_topics (GetSubscriptions c st) = Some ts"
    "\<And>tp. map_of (fold (\<lambda>sb. AList.update (subTopic sb) sb) ts []) tp =
         (case tb_at (st_subCache st) c tp of None \<Rightarrow> None | Some s \<Rightarrow> init_topic s)"
    unfolding GetSubscriptions_def tb_at_def by (auto cong: option.case_cong)
  have cb: "clientId (conn_built con) = c" using con(4) by (simp add: conn_built_def)
  have fresh: "ss_cmessage (NewMemSession i :: unit session) = NewConnectMessage" "\<not> ss_initted (NewMemSession i :: unit session)"
    by (simp_all add: NewMemSession_def NewMemSessionByCon_def)
  obtain d1 where d1: "InitSample con ts (NewDBSession i) = Some (conn_built con, d1, None)"
    "ss_topics (ds_memSession d1) = fold (\<lambda>sb. AList.update (subTopic sb) sb) ts []" "ss_initted (ds_memSession d1)"
    "ds_pub2in d1 = newDbAckQueue (push_bit 1 defaultQueueSize) c True False"
    "ds_pub1ack d1 = newDbAckQueue (push_bit 1 defaultQueueSize) c False True"
    "ds_pub2out d1 = newDbAckQueue (push_bit 1 defaultQueueSize) c False True"
    using keep_connect_received [OF con(1-3) fresh(1)] fresh(2) cb
    by (fastforce simp: InitSample_def NewDBSession_def Let_def)
  have q: "aq_inv (dq_memAQ (ds_pub2in d1))" "dq_isIn (ds_pub2in d1)" "out_ok d1"
    using new_queues by (simp_all add: d1 newDbAckQueue_def newMemAckQueue_def out_ok_def)
  have empty: "Pktid ` set (aq_list (dq_memAQ (ds_pub2in d1))) = {}" "out_pids d1 = {}"
    using new_queues by (simp_all add: d1 newDbAckQueue_def newMemAckQueue_def out_pids_def)
  have r_in: "restorable True {} (GetAllInflowMsg c st)" and r_out: "restorable False {} (GetAllOutflowMsg c st)"
    using stored_restorable [OF st(1,2)] by simp_all
  obtain g1 qin st1 where w: "wait_all g (GetAllInflowMsg c st) (ds_pub2in d1) st = Some (g1, qin, st1)" "store_ok st1"
    "\<forall>m\<in>set (GetAllInflowMsg c st). queued qin m" "st_sendCache st1 = st_sendCache st"
    using wait_all_ok [of "ds_pub2in d1" "GetAllInflowMsg c st" st g] r_in q(1,2) st(1) empty(1) by auto
  have go: "GetAllOutflowMsg c st1 = GetAllOutflowMsg c st" by (simp add: GetAllOutflowMsg_def w(4))
  have q2: "out_ok (d1\<lparr>ds_pub2in := qin\<rparr>)" "out_pids (d1\<lparr>ds_pub2in := qin\<rparr>) = {}"
    using q(3) empty(2) by (simp_all add: out_ok_def out_pids_def)
  obtain g2 d2 st2 where o: "wait_out g1 (GetAllOutflowMsg c st1) (d1\<lparr>ds_pub2in := qin\<rparr>) st1 = Some (g2, d2, st2)" "store_ok st2"
    "\<forall>m\<in>set (GetAllOutflowMsg c st). queued (out_queue m d2) m" "ds_memSession d2 = ds_memSession d1" "ds_pub2in d2 = qin"
    using wait_out_ok [of "d1\<lparr>ds_pub2in := qin\<rparr>" "GetAllOutflowMsg c st" st1 g1] r_out q2 w(2) by (auto simp: go out_grows_def)
  have off: "GetAllOfflineMsg c st2 = ([], [])" by (rule store_gets(6) [OF o(2)])
  obtain st3 where r: "db_Init g con (NewDBSession i) st = Some (g2, conn_built con, d2, st3, None)"
    by (auto simp: db_Init_def con(4) ts(1) d1(1) w(1) o(1) second_phase_lost off StoreSession_def)
  have i: "\<forall>p m. held True c st p = Some m \<longrightarrow> queued (ds_pub2in d2) m"
    using w(3) by (auto simp: o(5) held_def tb_at_def GetAllInflowMsg_def dest!: map_of_SomeD)
  have j: "\<forall>p m. held False c st p = Some m \<longrightarrow> queued (out_queue m d2) m"
    using o(3) by (auto simp: held_def tb_at_def GetAllOutflowMsg_def dest!: map_of_SomeD)
  have k: "\<forall>tp. map_of (ss_topics (ds_memSession d2)) tp = Option.bind (tb_at (st_subCache st) c tp) init_topic"
    by (simp add: o(4) d1(2) ts(2) split: option.splits)
  show ?thesis
    by (intro exI [of _ g2] exI [of _ d2] exI [of _ st3] conjI r i j k) (simp add: o(4) d1(3))
qed

text \<open>C33: The queue of a persistent session loses no message in its first phase when the broker restarts. Take any
  sequence of calls of \<open>Wait\<close>, \<open>Ack\<close> and \<open>Acked\<close> on the queue, with publications that encode. For every entry
  that no acknowledgement has been seen for (state \<open>RESERVED\<close>), the session that \<open>Init\<close> makes from the store
  holds the packet of the message that \<open>Wait\<close> was last called with for its identifier, waiting again, in the queue
  it belongs to: \<open>pub2in\<close> for an incoming one, \<open>pub2out\<close> or \<open>pub1ack\<close> for an outgoing one of QoS 2 or 1. What waits for
  PUBCOMP is lost (\<open>second_phase_lost\<close>).\<close>

theorem restart_keeps_waiting:
  assumes con: "dirty con" "conn_ok con" "conn_readable con" "clientId con = c"
    and st: "store_ok st" "good_both c st" "good_subs c st"
    and ops: "list_all (op_ok isIn) cs"
  shows "\<exists>g1 d st1 g2 ds st2.
    db_run cs g (newDbAckQueue (push_bit 1 defaultQueueSize) c isIn b) st = Some (g1, d, st1) \<and>
    db_Init g1 con (NewDBSession i) st1 = Some (g2, conn_built con, ds, st2, None) \<and>
    (\<forall>p\<in>reserved d. \<exists>m. last_wait cs p = Some m \<and> mqtt_pid m = p \<and>
       queued (if isIn then ds_pub2in ds else out_queue m ds) m)"
proof -
  let ?d0 = "newDbAckQueue (push_bit 1 defaultQueueSize) c isIn b"
  have d0: "durable Map.empty ?d0 st" "dq_isIn ?d0 = isIn" "dq_clientId ?d0 = c"
    using st by (simp_all add: durable_def newDbAckQueue_def newMemAckQueue_def reserved_def new_queues [simplified])
  obtain g1 d st1 where r: "db_run cs g ?d0 st = Some (g1, d, st1)" "durable (last_wait cs) d st1" "same_queue ?d0 st d st1"
    using db_run_durable [OF d0(1), of cs g] ops d0(2) by (auto simp: last_wait_def)
  have q: "store_ok st1" "good_both c st1" "good_subs c st1"
    "\<forall>p\<in>reserved d. \<exists>m. last_wait cs p = Some m \<and> held isIn c st1 p = Some m"
    using r(2,3) st(3) d0(2,3) by (simp_all add: durable_def same_queue_def good_subs_def)
  obtain g2 ds st2 where i: "db_Init g1 con (NewDBSession i) st1 = Some (g2, conn_built con, ds, st2, None)"
    "\<forall>p m. held True c st1 p = Some m \<longrightarrow> queued (ds_pub2in ds) m"
    "\<forall>p m. held False c st1 p = Some m \<longrightarrow> queued (out_queue m ds) m"
    using db_Init_ok [OF con q(1-3), of g1 i] by blast
  have "\<exists>m. last_wait cs p = Some m \<and> mqtt_pid m = p \<and> queued (if isIn then ds_pub2in ds else out_queue m ds) m"
    if "p \<in> reserved d" for p
  proof -
    obtain m where m: "last_wait cs p = Some m" "held isIn c st1 p = Some m" using q(4) \<open>p \<in> reserved d\<close> by blast
    moreover have "mqtt_pid m = p" using good_bothD [OF q(2), of isIn] m(2) by (simp add: good_held_def)
    moreover have "queued (if isIn then ds_pub2in ds else out_queue m ds) m" using i(2,3) m(2) by (cases isIn) auto
    ultimately show ?thesis by blast
  qed
  then show ?thesis using r(1) i(1) by blast
qed

section \<open>Subscriptions of a persistent session\<close>

datatype sess_op = OpAddTopic sub | OpRemoveTopic bytes

fun db_subs :: "sess_op list \<Rightarrow> dbSession \<Rightarrow> store \<Rightarrow> (dbSession \<times> store) option" where
  "db_subs [] d st = Some (d, st)"
| "db_subs (OpAddTopic sb # cs) d st = do { (d1, st1, e) \<leftarrow> db_AddTopic sb d st; db_subs cs d1 st1 }"
| "db_subs (OpRemoveTopic tp # cs) d st = (case db_RemoveTopic tp d st of (d1, st1, e) \<Rightarrow> db_subs cs d1 st1)"

text \<open>The session and the store hold the same subscriptions.\<close>

definition subs_synced :: "bytes \<Rightarrow> dbSession \<Rightarrow> store \<Rightarrow> bool" where
  "subs_synced c d st \<longleftrightarrow>
     ss_initted (ds_memSession d) \<and> sess_ClientId (ds_memSession d) = c \<and> store_ok st \<and> good_both c st \<and> good_subs c st \<and>
     (\<forall>tp. map_of (ss_topics (ds_memSession d)) tp = Option.bind (tb_at (st_subCache st) c tp) init_topic)"

definition stored_sub :: "sub \<Rightarrow> subscribe" where
  "stored_sub sb = Subscribe.SetSubscriptionIdentifier (subSubIdentifier sb) (NewSubscribeMessage\<lparr>subscribe.topics := [subTopic sb],
     qos := [subQos sb], noLocal := [flag (subNoLocal sb)], retainAsPub := [flag (subRetainAsPublished sb)],
     retainHandling := [subRetainHandling sb], dirty := True\<rparr>)"

lemma stored_sub:
  "init_topic (stored_sub sb) = Some sb" "Subscribe.aligned (stored_sub sb)" "subscribe.topics (stored_sub sb) = [subTopic sb]"
  by (simp_all add: stored_sub_def Subscribe.SetSubscriptionIdentifier_def init_topic_def at_i_def TopicNoLocal_def
      TopicRetainAsPublished_def TopicRetainHandling_def flag_def aligned_def)

lemma AddTopicAll_new:
  "AddTopicAll tp q nl rap rh NewSubscribeMessage =
     (if \<not> ValidQos q then Some (NewSubscribeMessage, Some (Errorf ''Invalid QoS''))
      else if rh > 2 then Some (NewSubscribeMessage, Some (Errorf ''Invalid Sub Option RetainHandling''))
      else Some (NewSubscribeMessage\<lparr>subscribe.topics := [tp], qos := [q], noLocal := [flag nl], retainAsPub := [flag rap],
        retainHandling := [rh], dirty := True\<rparr>, None))"
proof -
  have "subscribe.topics NewSubscribeMessage = []" "subscribe.qos NewSubscribeMessage = []"
    "subscribe.noLocal NewSubscribeMessage = []" "subscribe.retainAsPub NewSubscribeMessage = []"
    "subscribe.retainHandling NewSubscribeMessage = []"
    by code_simp+
  then show ?thesis by (simp add: AddTopicAll_def)
qed

lemma db_AddTopic_synced:
  assumes sy: "subs_synced c d st"
  shows "\<exists>d1 st1 e. db_AddTopic sb d st = Some (d1, st1, e) \<and> subs_synced c d1 st1"
proof (cases "ValidQos (subQos sb) \<and> \<not> subRetainHandling sb > 2")
  case False
  then show ?thesis using sy by (auto simp: db_AddTopic_def AddTopicAll_new)
next
  case True
  have ok: "store_ok st" and cid: "sess_ClientId (ds_memSession d) = c" using sy by (simp_all add: subs_synced_def)
  obtain st1 where s: "StoreSubscription c (stored_sub sb) st = Some (st1, None)" "store_ok st1"
    "store_view st1 = store_spec (CallStoreSubscription c (stored_sub sb)) (store_view st)"
    using store_exec_spec [OF ok, of "CallStoreSubscription c (stored_sub sb)"] stored_sub(2)
    by (auto simp: StoreSubscription_def split: option.splits)
  have v: "tb_at (st_subCache st1) = (tb_at (st_subCache st))(c := (tb_at (st_subCache st) c)(subTopic sb \<mapsto> stored_sub sb))"
    "tb_at (st_recCache st1) = tb_at (st_recCache st)" "tb_at (st_sendCache st1) = tb_at (st_sendCache st)"
    using s(3) by (auto simp: store_view_def stored_sub(3) fun_eq_iff)
  have a: "db_AddTopic sb d st = Some (d\<lparr>ds_memSession := fst (sess_AddTopic sb (ds_memSession d))\<rparr>, st1, None)"
    using True s(1) by (simp add: db_AddTopic_def AddTopicAll_new cid stored_sub_def)
  have "subs_synced c (d\<lparr>ds_memSession := fst (sess_AddTopic sb (ds_memSession d))\<rparr>) st1"
    using sy s(2) by (auto simp: subs_synced_def sess_AddTopic_def sess_ClientId_def good_both_def good_held_def held_def
        good_subs_def v stored_sub(1) update_conv')
  then show ?thesis using a by blast
qed

lemma db_RemoveTopic_synced:
  assumes sy: "subs_synced c d st" and r: "db_RemoveTopic tp d st = (d1, st1, e)"
  shows "subs_synced c d1 st1"
proof (cases "map_of (st_subCache st) c")
  case None
  then show ?thesis using sy r by (auto simp: subs_synced_def db_RemoveTopic_def DelSubscription_def)
next
  case (Some t)
  have ok: "store_ok st" and cid: "sess_ClientId (ds_memSession d) = c" using sy by (simp_all add: subs_synced_def)
  have t: "tb_ok (st_subCache st)" using ok by (simp add: store_ok_def)
  show ?thesis
    using sy r Some tb.del [OF t, of c tp]
    by (auto simp: subs_synced_def db_RemoveTopic_def DelSubscription_def cid sess_RemoveTopic_def sess_ClientId_def store_ok_def
        good_both_def good_held_def held_def good_subs_def delete_conv' split: if_splits)
qed

lemma db_subs_synced: "subs_synced c d st \<Longrightarrow> \<exists>d1 st1. db_subs cs d st = Some (d1, st1) \<and> subs_synced c d1 st1"
proof (induction cs arbitrary: d st)
  case (Cons x cs)
  show ?case
  proof (cases x)
    case (OpAddTopic sb)
    then show ?thesis using db_AddTopic_synced [OF Cons.prems, of sb] Cons.IH by fastforce
  next
    case (OpRemoveTopic tp)
    then show ?thesis
      using db_RemoveTopic_synced [OF Cons.prems] Cons.IH by (cases "db_RemoveTopic tp d st") (auto split: prod.splits)
  qed
qed simp

text \<open>C34: The subscriptions of a persistent session survive a restart: whatever filters were added and removed, and
  whatever calls were refused, the session that \<open>Init\<close> makes from the store has exactly the filters the old
  one had, with the options of each.\<close>

theorem subscriptions_survive_restart:
  assumes con: "dirty con" "conn_ok con" "conn_readable con" "clientId con = c" and sy: "subs_synced c d st"
  shows "\<exists>d1 st1 g2 ds st2. db_subs cs d st = Some (d1, st1) \<and>
    db_Init g con (NewDBSession i) st1 = Some (g2, conn_built con, ds, st2, None) \<and>
    map_of (ss_topics (ds_memSession ds)) = map_of (ss_topics (ds_memSession d1))"
proof -
  obtain d1 st1 where s: "db_subs cs d st = Some (d1, st1)" "subs_synced c d1 st1" using db_subs_synced [OF sy] by blast
  have st1: "store_ok st1" "good_both c st1" "good_subs c st1" using s(2) by (simp_all add: subs_synced_def)
  have t: "map_of (ss_topics (ds_memSession d1)) tp = Option.bind (tb_at (st_subCache st1) c tp) init_topic" for tp
    using s(2) by (simp add: subs_synced_def)
  obtain g2 ds st2 where i: "db_Init g con (NewDBSession i) st1 = Some (g2, conn_built con, ds, st2, None)"
    "\<And>tp. map_of (ss_topics (ds_memSession ds)) tp = Option.bind (tb_at (st_subCache st1) c tp) init_topic"
    using db_Init_ok [OF con st1, of g i] by blast
  show ?thesis using s(1) i by (auto simp: t fun_eq_iff)
qed

section \<open>Witnesses\<close>

lemma sample_pub_encodes: "encodes (MPublish sample_pub)"
proof -
  have "enc g (MPublish sample_pub) =
      Some (g, MPublish (pub_built sample_pub), pub_wire sample_pub, length (pub_wire sample_pub), None)" for g
    by (intro enc_publish sample_pub_ok) (simp_all add: id_ok_def assign_id_def sample_pub_fields, simp add: sample_pub_def)
  then show ?thesis by (simp add: encodes_def msg_packet_def mqtt_ops_def)
qed

lemma empty_store:
  "store_ok NewMemSessionStore" "good_both c NewMemSessionStore" "good_subs c NewMemSessionStore"
  "tb_at (st_subCache NewMemSessionStore) c tp = None"
  using new_store(1) by (simp_all add: good_both_def good_held_def held_def good_subs_def NewMemSessionStore_def tb_at_def tb_of_def)

lemma demo_connect_id: "dirty demo_connect" "clientId demo_connect = [100, 101, 118]"
  by (simp_all add: demo_connect_eq)

theorem restart_keeps_waiting_witness:
  "\<exists>g1 d st1 g2 ds st2.
    db_run [Wait_op (MPublish sample_pub) None, Acked_op] 0
      (newDbAckQueue (push_bit 1 defaultQueueSize) [100, 101, 118] True False) NewMemSessionStore = Some (g1, d, st1) \<and>
    db_Init g1 demo_connect (NewDBSession []) st1 = Some (g2, conn_built demo_connect, ds, st2, None) \<and>
    (\<forall>p\<in>reserved d. \<exists>m. last_wait [Wait_op (MPublish sample_pub) None, Acked_op] p = Some m \<and> mqtt_pid m = p \<and>
       queued (if True then ds_pub2in ds else out_queue m ds) m)"
proof -
  have ops: "list_all (op_ok True) [Wait_op (MPublish sample_pub) None, Acked_op]"
    by (simp add: op_ok_def waitable_def sample_pub_encodes sample_pub_fields)
  show ?thesis
    by (rule restart_keeps_waiting [OF demo_connect_id(1) demo_connect_ok demo_connect_flags(4) demo_connect_id(2) empty_store(1-3) ops])
qed

definition sample_db :: dbSession where
  "sample_db = (NewDBSession [])\<lparr>ds_memSession := (NewMemSessionByCon demo_connect)\<lparr>ss_initted := True\<rparr>\<rparr>"

theorem subscriptions_survive_restart_witness:
  "\<exists>d1 st1 g2 ds st2.
    db_subs [OpAddTopic \<lparr>subTopic = [97], subQos = 1, subNoLocal = True, subRetainAsPublished = False, subRetainHandling = 2,
      subSubIdentifier = 5\<rparr>, OpRemoveTopic [98]] sample_db NewMemSessionStore = Some (d1, st1) \<and>
    db_Init 0 demo_connect (NewDBSession []) st1 = Some (g2, conn_built demo_connect, ds, st2, None) \<and>
    map_of (ss_topics (ds_memSession ds)) = map_of (ss_topics (ds_memSession d1))"
proof -
  have "subs_synced [100, 101, 118] sample_db NewMemSessionStore"
    by (simp add: subs_synced_def empty_store) (simp add: sample_db_def sess_ClientId_def NewMemSessionByCon_def demo_connect_id)
  then show ?thesis
    by (rule subscriptions_survive_restart [OF demo_connect_id(1) demo_connect_ok demo_connect_flags(4) demo_connect_id(2)])
qed

section \<open>Remarks\<close>

text \<open>A deletion in bulk takes half of the identifiers out of the channel.\<close>

lemma batch_take_half: "batch_take i ch = (take ((length ch - i + 1) div 2) ch, drop ((length ch - i + 1) div 2) ch)"
proof (induction i ch rule: batch_take.induct)
  case (2 i x ch)
  show ?case
  proof (cases "i < length (x # ch)")
    case True
    have "(length (x # ch) - i + 1) div 2 = Suc ((length ch - (i + 1) + 1) div 2)" if "i < length ch"
      using that by simp
    then show ?thesis using True 2 by (cases "i = length ch") auto
  next
    case False
    then show ?thesis by simp
  qed
qed simp

text \<open>
  \<open>Wait\<close> with an identifier that waits already leaves the queue as it is and puts the new message into the
  store: after a restart another packet waits than before.
\<close>

lemma wait_again_overwrites:
  assumes "waitable (dq_isIn d) m" "encodes m" "aq_inv (dq_memAQ d)" "store_ok st"
    "mqtt_pid m \<in> Pktid ` set (aq_list (dq_memAQ d))"
  shows "\<exists>g1 d1 st1. db_Wait g m cb d st = Some (None, g1, d1, st1) \<and> aq_list (dq_memAQ d1) = aq_list (dq_memAQ d) \<and>
    held (dq_isIn d) (dq_clientId d) st1 (mqtt_pid m) = Some m"
proof -
  obtain p where p: "m = MPublish p" "QoS p \<noteq> QosAtMostOnce" using assms(1) by (rule waitableE)
  obtain st1 where k: "db_keep m d st = Some (st1, None)"
    "held (dq_isIn d) (dq_clientId d) st1 = (held (dq_isIn d) (dq_clientId d) st)(mqtt_pid m \<mapsto> m)"
    using db_keep_waitable [OF assms(1,4)] by blast
  obtain g1 m1 q1 where "queue_Wait g m cb (dq_memAQ d) = Some (None, g1, m1, q1)" "aq_list q1 = aq_list (dq_memAQ d)"
    using queue_Wait_spec [OF assms(3,2) p, of g cb] assms(5) by auto
  then show ?thesis using k by (simp add: db_Wait_def)
qed

text \<open>
  Clearing the session of a client leaves its subscriptions and its messages in flight in the store, so a
  client that asks for a clean start gets them back.
\<close>

lemma clean_start_keeps:
  assumes con: "dirty con" "conn_ok con" "conn_readable con" "clientId con = c"
    and st: "store_ok st" "good_both c st" "good_subs c st"
  shows "\<exists>g' d' st'. db_Init g con (NewDBSession i) (fst (ClearSession c True st)) = Some (g', conn_built con, d', st', None) \<and>
    (\<forall>p m. held True c st p = Some m \<longrightarrow> queued (ds_pub2in d') m) \<and>
    (\<forall>p m. held False c st p = Some m \<longrightarrow> queued (out_queue m d') m) \<and>
    (\<forall>tp. map_of (ss_topics (ds_memSession d')) tp = Option.bind (tb_at (st_subCache st) c tp) init_topic)"
proof -
  let ?st = "fst (ClearSession c True st)"
  have h: "held isIn c ?st = held isIn c st" "st_subCache ?st = st_subCache st" for isIn
    by (simp_all add: ClearSession_def ClearOfflineMsgs_def held_def)
  have st': "store_ok ?st" "good_both c ?st" "good_subs c ?st"
    using st by (simp_all add: good_both_def good_held_def good_subs_def h)
       (simp add: store_ok_def ClearSession_def ClearOfflineMsgs_def)
  show ?thesis using db_Init_ok [OF con st', of g i] unfolding h by blast
qed

end
