(* ===== verification/SessionMgr.thy ===== *)
theory SessionMgr
  imports Handshake DbSession
begin

text \<open>
  Which session a connection gets: the provider \<open>sessions/impl/mem_provider.go\<close>, \<open>getSession\<close> of
  \<open>service/server.go\<close>, the opening of a connection (\<open>NewGettyService\<close> and \<open>OnOpen\<close>), and what \<open>stop\<close> does to the
  session. \<open>None\<close> is a panic.
\<close>

section \<open>State\<close>

text \<open>
  Sessions are shared by the provider and the services, so they have addresses. The session store keeps
  values: nothing here reads a session from it. Of the delayed tasks, \<open>mg_jobs\<close> are the entries of the schedule by
  their number, \<open>mg_ids\<close> is the map \<open>ids\<close> of \<open>ScheduleCron\<close> from a client to the number of its last one.
\<close>

record 'k sessmgr =
  mg_heap :: "nat \<Rightarrow> stored"
  mg_next :: nat
  mg_st :: "(bytes \<times> nat) list"
  mg_store :: store
  mg_g :: u64
  mg_ids :: "(bytes \<times> nat) list"
  mg_jobs :: "(nat \<times> 'k) list"
  mg_nextJob :: nat

definition mem_of :: "stored \<Rightarrow> unit session" where
  "mem_of x = (case x of StoredMem s \<Rightarrow> s | StoredDb d \<Rightarrow> ds_memSession d)"

definition Cmsg :: "stored \<Rightarrow> connect" where "Cmsg x = ss_cmessage (mem_of x)"
definition OfflineTime :: "stored \<Rightarrow> int" where "OfflineTime x = ss_offlineTime (mem_of x)"
definition sess_ID :: "stored \<Rightarrow> bytes" where "sess_ID x = clientId (Cmsg x)"

section \<open>The provider\<close>

text \<open>\<open>rid\<close> is what \<open>sessionId\<close> draws.\<close>

definition prv_New :: "bytes \<Rightarrow> bytes \<Rightarrow> bool \<Rightarrow> u32 \<Rightarrow> 'k sessmgr \<Rightarrow> nat \<times> 'k sessmgr" where
  "prv_New rid i cleanStart expiryTime mg =
     (let i' = (if i = [] then rid else i); a = mg_next mg;
          x = (if expiryTime = 0 then StoredMem (NewMemSession i') else StoredDb (NewDBSession i'));
          mg1 = mg\<lparr>mg_heap := (mg_heap mg)(a := x), mg_next := a + 1, mg_st := AList.update i' a (mg_st mg)\<rparr>
      in (a, if expiryTime = 0 then mg1 else mg1\<lparr>mg_store := fst (StoreSession i' x (mg_store mg))\<rparr>))"

definition prv_Get :: "bytes \<Rightarrow> 'k sessmgr \<Rightarrow> goerr + nat" where
  "prv_Get i mg = (case map_of (mg_st mg) i of None \<Rightarrow> Inl (Errorf ''store/Get: No session found for key %s'') | Some a \<Rightarrow> Inr a)"

definition prv_Del :: "bytes \<Rightarrow> 'k sessmgr \<Rightarrow> 'k sessmgr" where
  "prv_Del i mg = mg\<lparr>mg_store := fst (ClearSession i True (mg_store mg)), mg_st := AList.delete i (mg_st mg)\<rparr>"

section \<open>Calls on a session\<close>

definition stored_Init :: "connect \<Rightarrow> nat \<Rightarrow> 'k sessmgr \<Rightarrow> (connect \<times> 'k sessmgr \<times> goerr option) option" where
  "stored_Init req a mg =
     (case mg_heap mg a of
        StoredMem s \<Rightarrow>
          (case sess_Init req [] s of
             None \<Rightarrow> None
           | Some (req1, s1, e) \<Rightarrow> Some (req1, mg\<lparr>mg_heap := (mg_heap mg)(a := StoredMem s1)\<rparr>, e))
      | StoredDb d \<Rightarrow>
          (case db_Init (mg_g mg) req d (mg_store mg) of
             None \<Rightarrow> None
           | Some (g, req1, d1, st1, e) \<Rightarrow>
               Some (req1, mg\<lparr>mg_heap := (mg_heap mg)(a := StoredDb d1), mg_store := st1, mg_g := g\<rparr>, e)))"

definition stored_Update :: "connect \<Rightarrow> nat \<Rightarrow> 'k sessmgr \<Rightarrow> (connect \<times> 'k sessmgr \<times> goerr option) option" where
  "stored_Update req a mg =
     (case mg_heap mg a of
        StoredMem s \<Rightarrow>
          (case sess_Update req s of
             None \<Rightarrow> None
           | Some (req1, s1, e) \<Rightarrow> Some (req1, mg\<lparr>mg_heap := (mg_heap mg)(a := StoredMem s1)\<rparr>, e))
      | StoredDb d \<Rightarrow>
          (case db_Update req d (mg_store mg) of
             None \<Rightarrow> None
           | Some (req1, d1, st1, e) \<Rightarrow> Some (req1, mg\<lparr>mg_heap := (mg_heap mg)(a := StoredDb d1), mg_store := st1\<rparr>, e)))"

section \<open>getSession\<close>

fun dec :: "nat \<Rightarrow> bytes" where
  "dec n = (if n < 10 then [word_of_nat (48 + n)] else dec (n div 10) @ [word_of_nat (48 + n mod 10)])"

declare dec.simps [simp del]

definition named :: "nat \<Rightarrow> connect \<Rightarrow> connect" where
  "named i req =
     (if length (clientId req) = 0 then SetCleanSession True (fst (SetClientId (map of_char ''internalclient'' @ dec i) req)) else req)"

text \<open>The expiry interval, in seconds, is added to a time in nanoseconds.\<close>

definition expired :: "int \<Rightarrow> stored \<Rightarrow> bool" where
  "expired now x \<longleftrightarrow>
     connect.sessionExpiryInterval (Cmsg x) = 0 \<or> OfflineTime x + uint (connect.sessionExpiryInterval (Cmsg x)) \<le> now"

text \<open>\<open>ClearSession\<close> of the store, then \<open>Del\<close> of the provider.\<close>

definition drop_session :: "bytes \<Rightarrow> 'k sessmgr \<Rightarrow> 'k sessmgr \<times> goerr option" where
  "drop_session cid mg =
     (case ClearSession cid True (mg_store mg) of
        (st1, Some e) \<Rightarrow> (mg\<lparr>mg_store := st1\<rparr>, Some e)
      | (st1, None) \<Rightarrow> (prv_Del cid (mg\<lparr>mg_store := st1\<rparr>), None))"

type_synonym 'k got_session = "((goerr + nat) \<times> connect \<times> connack \<times> 'k sessmgr) option"

text \<open>
  \<open>ScheduleCron\<close>: a job gets the next number of the schedule, which replaces the number of an earlier job of the
  same client; \<open>Cancel\<close> removes the job whose number is noted, and no other.
\<close>

definition AddJob :: "bytes \<Rightarrow> 'k \<Rightarrow> 'k sessmgr \<Rightarrow> 'k sessmgr" where
  "AddJob i k mg = mg\<lparr>mg_jobs := mg_jobs mg @ [(mg_nextJob mg, k)], mg_ids := AList.update i (mg_nextJob mg) (mg_ids mg),
     mg_nextJob := mg_nextJob mg + 1\<rparr>"

definition cancel_task :: "bytes \<Rightarrow> 'k sessmgr \<Rightarrow> 'k sessmgr" where
  "cancel_task i mg =
     (case map_of (mg_ids mg) i of
        None \<Rightarrow> mg
      | Some e \<Rightarrow> mg\<lparr>mg_ids := AList.delete i (mg_ids mg), mg_jobs := AList.delete e (mg_jobs mg)\<rparr>)"

lemma cancel_task_frame [simp]:
  "mg_heap (cancel_task i mg) = mg_heap mg" "mg_next (cancel_task i mg) = mg_next mg" "mg_st (cancel_task i mg) = mg_st mg"
  "mg_store (cancel_task i mg) = mg_store mg" "mg_g (cancel_task i mg) = mg_g mg"
  by (simp_all add: cancel_task_def split: option.split)

lemma cancel_task_jobs:
  "map_of (mg_ids (cancel_task i mg)) = (map_of (mg_ids mg))(i := None)"
  "map_of (mg_jobs (cancel_task i mg)) =
     (case map_of (mg_ids mg) i of None \<Rightarrow> map_of (mg_jobs mg) | Some e \<Rightarrow> (map_of (mg_jobs mg))(e := None))"
  by (auto simp: cancel_task_def delete_conv' fun_upd_idem split: option.split)

definition fresh_session :: "bytes \<Rightarrow> bytes \<Rightarrow> connect \<Rightarrow> connack \<Rightarrow> 'k sessmgr \<Rightarrow> 'k got_session" where
  "fresh_session rid cid req resp mg =
     (case prv_New rid cid (CleanStart req) (connect.sessionExpiryInterval req) mg of
        (a, mg1) \<Rightarrow>
          (let resp1 = Connack.SetSessionPresent False resp in
           case stored_Init req a mg1 of
             None \<Rightarrow> None
           | Some (req1, mg2, Some e) \<Rightarrow> Some (Inl e, req1, resp1, mg2)
           | Some (req1, mg2, None) \<Rightarrow> Some (Inr a, req1, resp1, cancel_task (clientId req1) mg2)))"

definition renew_session :: "bytes \<Rightarrow> bytes \<Rightarrow> connect \<Rightarrow> connack \<Rightarrow> 'k sessmgr \<Rightarrow> 'k got_session" where
  "renew_session rid cid req resp mg =
     (case drop_session cid mg of
        (mg1, Some e) \<Rightarrow> Some (Inl e, req, resp, mg1)
      | (mg1, None) \<Rightarrow> fresh_session rid cid req resp mg1)"

definition resume_session :: "connect \<Rightarrow> connack \<Rightarrow> nat \<Rightarrow> 'k sessmgr \<Rightarrow> 'k got_session" where
  "resume_session req resp a mg =
     (let resp1 = Connack.SetSessionPresent True resp in
      case stored_Update req a mg of
        None \<Rightarrow> None
      | Some (req1, mg1, Some e) \<Rightarrow> Some (Inl e, req1, resp1, mg1)
      | Some (req1, mg1, None) \<Rightarrow> Some (Inr a, req1, resp1, cancel_task (clientId req1) mg1))"

definition getSession :: "int \<Rightarrow> bytes \<Rightarrow> nat \<Rightarrow> connect \<Rightarrow> connack \<Rightarrow> 'k sessmgr \<Rightarrow> 'k got_session" where
  "getSession now rid i req0 resp mg =
     (let req = named i req0; cid = clientId req in
      if \<not> CleanStart req then
        (case prv_Get cid mg of
           Inl _ \<Rightarrow> fresh_session rid cid req resp mg
         | Inr a \<Rightarrow>
             (if expired now (mg_heap mg a) then renew_session rid cid req resp mg else resume_session req resp a mg))
      else renew_session rid cid req resp mg)"

section \<open>Opening and closing\<close>

text \<open>
  The service that is made: its name, its session, and the period in which \<open>OnCron\<close> expects a packet. The
  counter of services is drawn from twice; \<open>i\<close> is the first draw. \<open>wp\<close> sends what \<open>WritePkg\<close> of getty has got from
  the package handler. After a redirect \<open>OnOpen\<close> dereferences the CONNECT it has not got.
\<close>

record opened =
  op_ccid :: bytes
  op_sess :: nat
  op_cron :: u16

definition NewGettyService ::
    "('w, 'v) hs_env \<Rightarrow> bytes \<Rightarrow> int \<Rightarrow> bytes \<Rightarrow> nat \<Rightarrow> 'w conn \<Rightarrow> 'v \<Rightarrow> 'k sessmgr \<Rightarrow>
     ('w conn \<times> 'v \<times> 'k sessmgr \<times> (goerr + (bytes \<times> nat \<times> connect \<times> connack) option)) option" where
  "NewGettyService E pre now rid i c v mg =
     (case conAuth E c v of
        None \<Rightarrow> None
      | Some (c1, v1, Inl e) \<Rightarrow> Some (c1, v1, mg, Inl e)
      | Some (c1, v1, Inr None) \<Rightarrow> Some (c1, v1, mg, Inr None)
      | Some (c1, v1, Inr (Some (req, resp))) \<Rightarrow>
          (case getSession now rid i req resp mg of
             None \<Rightarrow> None
           | Some (Inl e, req1, resp1, mg1) \<Rightarrow> Some (c1, v1, mg1, Inl e)
           | Some (Inr a, req1, resp1, mg1) \<Rightarrow>
               Some (c1, v1, mg1, Inr (Some (pre @ dec i @ [47] @ sess_ID (mg_heap mg1 a), a, req1, resp1)))))"

definition OnOpen ::
    "('w, 'v) hs_env \<Rightarrow> (bytes \<Rightarrow> 'w \<Rightarrow> 'w \<times> goerr option) \<Rightarrow> bytes \<Rightarrow> int \<Rightarrow> bytes \<Rightarrow> nat \<Rightarrow> 'w conn \<Rightarrow> 'v \<Rightarrow> 'k sessmgr \<Rightarrow>
     ('w conn \<times> 'v \<times> 'k sessmgr \<times> (goerr + opened)) option" where
  "OnOpen E wp pre now rid i c v mg =
     (case NewGettyService E pre now rid i c v mg of
        None \<Rightarrow> None
      | Some (c1, v1, mg1, Inl e) \<Rightarrow> Some (c1, v1, mg1, Inl e)
      | Some (c1, v1, mg1, Inr None) \<Rightarrow> None
      | Some (c1, v1, mg1, Inr (Some (ccid, a, req, resp))) \<Rightarrow>
          (case ck_Len (Connack.SetReasonCode Success resp) of
             None \<Rightarrow> None
           | Some (resp1, l) \<Rightarrow>
               (case snd (ck_Encode resp1 (replicate l 0)) of
                  Panic \<Rightarrow> None
                | Fail d n e \<Rightarrow> Some (c1, v1, mg1, Inl e)
                | Ret d n \<Rightarrow>
                    (case wp d (cn_out c1) of
                       (w, Some e) \<Rightarrow> Some (c1\<lparr>cn_out := w\<rparr>, v1, mg1, Inl e)
                     | (w, None) \<Rightarrow>
                         Some (c1\<lparr>cn_out := w\<rparr>, v1, mg1, Inr \<lparr>op_ccid = ccid, op_sess = a, op_cron = keepAlive req\<rparr>)))))"

text \<open>What \<open>stop\<close> does at its end to the session of its service.\<close>

definition stop_session :: "int \<Rightarrow> nat \<Rightarrow> 'k sessmgr \<Rightarrow> 'k sessmgr" where
  "stop_session now a mg =
     (case mg_heap mg a of
        StoredMem s \<Rightarrow>
          prv_Del (clientId (ss_cmessage s)) (mg\<lparr>mg_heap := (mg_heap mg)(a := StoredMem (sess_SetStatus OFFLINE s))\<rparr>)
      | StoredDb d \<Rightarrow>
          (case db_SetStatus now OFFLINE d (mg_store mg) of
             (d1, st1) \<Rightarrow>
               prv_Del (clientId (ss_cmessage (ds_memSession d1)))
                 (mg\<lparr>mg_heap := (mg_heap mg)(a := StoredDb d1), mg_store := st1\<rparr>)))"

section \<open>Histories\<close>

text \<open>Clients that connect, with their CONNECT and the CONNACK so far, and services that stop. A service has a session that is initialised.\<close>

datatype smgr_event = Connects int bytes nat connect connack | Stops int nat

fun smgr_step :: "smgr_event \<Rightarrow> 'k sessmgr \<Rightarrow> ((nat \<times> connack) option \<times> 'k sessmgr) option" where
  "smgr_step (Connects now rid i req resp) mg =
     (case getSession now rid i req resp mg of
        None \<Rightarrow> None
      | Some (Inl e, req1, resp1, mg1) \<Rightarrow> Some (None, mg1)
      | Some (Inr a, req1, resp1, mg1) \<Rightarrow> Some (Some (a, resp1), mg1))"
| "smgr_step (Stops now a) mg = Some (None, if ss_initted (mem_of (mg_heap mg a)) then stop_session now a mg else mg)"

fun smgr_run :: "smgr_event list \<Rightarrow> 'k sessmgr \<Rightarrow> ((nat \<times> connack) list \<times> 'k sessmgr) option" where
  "smgr_run [] mg = Some ([], mg)"
| "smgr_run (ev # evs) mg =
     (case smgr_step ev mg of
        None \<Rightarrow> None
      | Some (r, mg1) \<Rightarrow>
          (case smgr_run evs mg1 of
             None \<Rightarrow> None
           | Some (rs, mg2) \<Rightarrow> Some ((case r of None \<Rightarrow> rs | Some x \<Rightarrow> x # rs), mg2)))"

definition new_mgr :: "store \<Rightarrow> 'k sessmgr" where
  "new_mgr st = \<lparr>mg_heap = (\<lambda>_. StoredMem (NewMemSession [])), mg_next = 0, mg_st = [], mg_store = st, mg_g = 0, mg_ids = [], mg_jobs = [], mg_nextJob = 1\<rparr>"

section \<open>When a session is resumed\<close>

lemma prv_New_frame:
  assumes "prv_New rid i cs ex mg = (a, mg1)" "i \<noteq> []"
  shows "a = mg_next mg" "mg_next mg1 = Suc a" "mg_st mg1 = AList.update i a (mg_st mg)"
    "mg_heap mg1 = (mg_heap mg)(a := (if ex = 0 then StoredMem (NewMemSession i) else StoredDb (NewDBSession i)))" "mg_ids mg1 = mg_ids mg" "mg_jobs mg1 = mg_jobs mg"
  using assms by (auto simp: prv_New_def Let_def split: if_splits)

lemma stored_Init_frame:
  "stored_Init req a mg = Some (req1, mg1, e) \<Longrightarrow>
     mg_st mg1 = mg_st mg \<and> mg_next mg1 = mg_next mg \<and> mg_ids mg1 = mg_ids mg \<and> mg_jobs mg1 = mg_jobs mg \<and> (\<forall>b. b \<noteq> a \<longrightarrow> mg_heap mg1 b = mg_heap mg b)"
  by (auto simp: stored_Init_def split: stored.splits option.splits prod.splits)

lemma stored_Update_frame:
  "stored_Update req a mg = Some (req1, mg1, e) \<Longrightarrow>
     mg_st mg1 = mg_st mg \<and> mg_next mg1 = mg_next mg \<and> mg_ids mg1 = mg_ids mg \<and> mg_jobs mg1 = mg_jobs mg \<and> (\<forall>b. b \<noteq> a \<longrightarrow> mg_heap mg1 b = mg_heap mg b)"
  by (auto simp: stored_Update_def split: stored.splits option.splits prod.splits)

lemma drop_session_ok: "drop_session cid mg = (prv_Del cid (mg\<lparr>mg_store := fst (ClearSession cid True (mg_store mg))\<rparr>), None)"
  by (simp add: drop_session_def ClearSession_def ClearOfflineMsgs_def)

lemma fresh_session_result:
  assumes "fresh_session rid cid req resp mg = Some (Inr a, req', resp', mg')" "cid \<noteq> []"
  shows "\<not> sessionPresent resp' \<and> a = mg_next mg \<and> mg_next mg' = Suc a \<and> mg_st mg' = AList.update cid a (mg_st mg) \<and>
    (\<forall>b. b \<noteq> a \<longrightarrow> mg_heap mg' b = mg_heap mg b)"
proof -
  obtain a1 mg1 where n: "prv_New rid cid (CleanStart req) (connect.sessionExpiryInterval req) mg = (a1, mg1)" by force
  obtain mg2 where i: "stored_Init req a1 mg1 = Some (req', mg2, None)" "a = a1" "resp' = Connack.SetSessionPresent False resp"
    "mg' = cancel_task (clientId req') mg2"
    using assms(1) by (auto simp: fresh_session_def n Let_def split: option.splits prod.splits)
  show ?thesis
    using prv_New_frame [OF n assms(2)] stored_Init_frame [OF i(1)] i(2-4)
    by (auto simp: Connack.SetSessionPresent_def)
qed

lemma renew_session_eq:
  "renew_session rid cid req resp mg =
     fresh_session rid cid req resp (prv_Del cid (mg\<lparr>mg_store := fst (ClearSession cid True (mg_store mg))\<rparr>))"
  by (simp add: renew_session_def drop_session_ok)

lemma renew_session_result:
  assumes "renew_session rid cid req resp mg = Some (Inr a, req', resp', mg')" "cid \<noteq> []"
  shows "\<not> sessionPresent resp' \<and> a = mg_next mg \<and> mg_next mg' = Suc a \<and> map_of (mg_st mg') = (map_of (mg_st mg))(cid \<mapsto> a) \<and>
    (\<forall>b. b \<noteq> a \<longrightarrow> mg_heap mg' b = mg_heap mg b)"
  using fresh_session_result [OF assms(1) [unfolded renew_session_eq] assms(2)]
  by (auto simp: prv_Del_def update_conv' delete_conv')

lemma resume_session_result:
  assumes "resume_session req resp a0 mg = Some (Inr a, req', resp', mg')"
  shows "sessionPresent resp' \<and> a = a0 \<and> mg_next mg' = mg_next mg \<and> mg_st mg' = mg_st mg \<and> (\<forall>b. b \<noteq> a \<longrightarrow> mg_heap mg' b = mg_heap mg b)"
  using assms by (auto simp: resume_session_def Let_def Connack.SetSessionPresent_def
      split: option.splits prod.splits dest: stored_Update_frame)

lemma named_id [simp]: "clientId req \<noteq> [] \<Longrightarrow> named i req = req"
  by (simp add: named_def)

text \<open>C40: The session a client gets. It is an old one, announced as present in the CONNACK, exactly where the client asks for no
  clean start and the provider has a session for its identifier that has not expired. Else it is a new one at a new address under
  which the provider finds the client from now on, and no other client's session is lost. Because seconds are added to
  nanoseconds, a session whose client has been away for 4.3 seconds has expired, whatever its expiry interval is.\<close>

theorem getSession_resumes:
  assumes "getSession now rid i req resp mg = Some (Inr a, req', resp', mg')" "clientId req \<noteq> []"
  shows "(sessionPresent resp' \<longleftrightarrow>
      \<not> CleanStart req \<and> (\<exists>a0. map_of (mg_st mg) (clientId req) = Some a0 \<and> \<not> expired now (mg_heap mg a0))) \<and>
    (if sessionPresent resp'
     then map_of (mg_st mg) (clientId req) = Some a \<and> map_of (mg_st mg') = map_of (mg_st mg) \<and> now < OfflineTime (mg_heap mg a) + 2 ^ 32
     else a = mg_next mg \<and> map_of (mg_st mg') = (map_of (mg_st mg))(clientId req \<mapsto> a)) \<and>
    (\<forall>b. b \<noteq> a \<longrightarrow> mg_heap mg' b = mg_heap mg b)"
proof -
  note g = assms(1) [unfolded getSession_def named_id [OF assms(2)] Let_def]
  have late: "now < OfflineTime x + 2 ^ 32" if "\<not> expired now x" for x
    using that unsigned_less [of "connect.sessionExpiryInterval (Cmsg x)", where ?'a = int] by (simp add: expired_def)
  show ?thesis
  proof (cases "\<not> CleanStart req \<and> map_of (mg_st mg) (clientId req) \<noteq> None")
    case False
    then have r: "renew_session rid (clientId req) req resp mg = Some (Inr a, req', resp', mg') \<and> CleanStart req \<or>
        fresh_session rid (clientId req) req resp mg = Some (Inr a, req', resp', mg') \<and> map_of (mg_st mg) (clientId req) = None"
      using g by (auto simp: prv_Get_def split: option.splits if_splits)
    then show ?thesis
      using renew_session_result [OF _ assms(2), of rid req resp mg a req' resp' mg']
        fresh_session_result [OF _ assms(2), of rid req resp mg a req' resp' mg'] by (auto simp: update_conv')
  next
    case True
    then obtain a0 where a0: "map_of (mg_st mg) (clientId req) = Some a0" by auto
    show ?thesis
    proof (cases "expired now (mg_heap mg a0)")
      case True
      then show ?thesis
        using g a0 \<open>\<not> CleanStart req \<and> _\<close> renew_session_result [OF _ assms(2), of rid req resp mg a req' resp' mg']
        by (auto simp: prv_Get_def)
    next
      case False
      then show ?thesis
        using g a0 late \<open>\<not> CleanStart req \<and> _\<close> resume_session_result [of req resp a0 mg a req' resp' mg'] by (auto simp: prv_Get_def)
    qed
  qed
qed

section \<open>No session is ever resumed\<close>

text \<open>
  A session that the provider has is online, under the identifier of its CONNECT: \<open>stop\<close> sets the time
  of a session that goes offline, and deletes it.
\<close>

definition online_only :: "'k sessmgr \<Rightarrow> bool" where
  "online_only mg \<longleftrightarrow>
     (\<forall>i a. map_of (mg_st mg) i = Some a \<longrightarrow>
        a < mg_next mg \<and> OfflineTime (mg_heap mg a) = 0 \<and> (ss_initted (mem_of (mg_heap mg a)) \<longrightarrow> sess_ID (mg_heap mg a) = i))"

text \<open>A CONNECT that a new session keeps with its identifier.\<close>

definition echoes :: "connect \<Rightarrow> bool" where
  "echoes req \<longleftrightarrow> clientId req \<noteq> [] \<and>
     (\<forall>s :: unit session. ss_cmessage s = NewConnectMessage \<longrightarrow>
        (\<exists>req' b cm. keep_connect req s = Some (req', s\<lparr>ss_cbuf := b, ss_cmessage := cm\<rparr>, None) \<and> clientId cm = clientId req))"

lemma new_session: "ss_cmessage (NewMemSession i) = NewConnectMessage" "ss_offlineTime (NewMemSession i) = 0" "\<not> ss_initted (NewMemSession i)"
  by (simp_all add: NewMemSession_def NewMemSessionByCon_def)

lemma sess_Init_echoes:
  assumes "echoes req" "sess_Init req [] (NewMemSession i :: unit session) = Some (req1, s, e)"
  shows "clientId (ss_cmessage s) = clientId req \<and> ss_offlineTime s = 0"
proof -
  obtain req' b cm where "keep_connect req (NewMemSession i :: unit session) =
      Some (req', (NewMemSession i)\<lparr>ss_cbuf := b, ss_cmessage := cm\<rparr>, None)" "clientId cm = clientId req"
    using assms(1) new_session unfolding echoes_def by blast
  then show ?thesis using assms(2) by (auto simp: sess_Init_def new_session Let_def)
qed

lemma InitSample_echoes:
  assumes "echoes req" "InitSample req tps (NewDBSession i) = Some (req1, d, e)"
  shows "clientId (ss_cmessage (ds_memSession d)) = clientId req \<and> ss_offlineTime (ds_memSession d) = 0"
proof -
  obtain req' b cm where "keep_connect req (NewMemSession i :: unit session) =
      Some (req', (NewMemSession i)\<lparr>ss_cbuf := b, ss_cmessage := cm\<rparr>, None)" "clientId cm = clientId req"
    using assms(1) new_session unfolding echoes_def by blast
  then show ?thesis using assms(2) by (auto simp: InitSample_def NewDBSession_def new_session Let_def)
qed

lemma wait_out_session: "wait_out g ms d st = Some (g', d', st') \<Longrightarrow> ds_memSession d' = ds_memSession d"
proof (induction ms arbitrary: g d st)
  case (Cons m ms)
  then show ?case by (cases m) (fastforce simp: bind_eq_Some_conv split: if_splits)+
qed simp

lemma db_Init_echoes:
  assumes "echoes req" "db_Init g req (NewDBSession i) st = Some (g', req1, d, st', e)"
  shows "clientId (ss_cmessage (ds_memSession d)) = clientId req \<and> ss_offlineTime (ds_memSession d) = 0"
proof -
  obtain tps d1 e1 where i: "InitSample req tps (NewDBSession i) = Some (req1, d1, e1)" "ds_memSession d = ds_memSession d1"
    using assms(2) by (auto simp: db_Init_def Let_def bind_eq_Some_conv split: if_splits prod.splits dest!: wait_out_session)
  then show ?thesis using InitSample_echoes [OF assms(1)] by simp
qed

lemma fresh_online:
  assumes on: "online_only mg" and ec: "echoes req"
    and f: "fresh_session rid (clientId req) req resp mg = Some (r, req', resp', mg')"
  shows "online_only mg' \<and> \<not> sessionPresent resp'"
proof -
  let ?c = "clientId req"
  have ne: "?c \<noteq> []" using ec by (simp add: echoes_def)
  obtain a mg1 where n: "prv_New rid ?c (CleanStart req) (connect.sessionExpiryInterval req) mg = (a, mg1)" by force
  note nf = prv_New_frame [OF n ne]
  obtain mg2 e where i: "stored_Init req a mg1 = Some (req', mg2, e)" "resp' = Connack.SetSessionPresent False resp"
    and mg': "mg_st mg' = mg_st mg2" "mg_heap mg' = mg_heap mg2" "mg_next mg' = mg_next mg2"
    using f by (auto simp: fresh_session_def n Let_def split: option.splits prod.splits)
  note fr = stored_Init_frame [OF i(1)]
  have new: "sess_ID (mg_heap mg2 a) = ?c \<and> OfflineTime (mg_heap mg2 a) = 0"
    using i(1) sess_Init_echoes [OF ec] db_Init_echoes [OF ec]
    by (auto simp: stored_Init_def nf sess_ID_def OfflineTime_def Cmsg_def mem_of_def split: option.splits prod.splits if_splits)
  have "online_only mg'"
    unfolding online_only_def
  proof (intro allI impI)
    fix j b assume j: "map_of (mg_st mg') j = Some b"
    show "b < mg_next mg' \<and> OfflineTime (mg_heap mg' b) = 0 \<and> (ss_initted (mem_of (mg_heap mg' b)) \<longrightarrow> sess_ID (mg_heap mg' b) = j)"
    proof (cases "j = ?c")
      case True
      then show ?thesis using j new fr nf mg' by (simp add: update_conv')
    next
      case False
      then have old: "map_of (mg_st mg) j = Some b" using j fr nf mg' by (simp add: update_conv')
      then have b: "b < mg_next mg" using on by (simp add: online_only_def)
      then have "mg_heap mg' b = mg_heap mg b" "mg_next mg' = Suc (mg_next mg)" using fr nf mg' by simp_all
      then show ?thesis using old on b by (simp add: online_only_def less_SucI)
    qed
  qed
  then show ?thesis using i(2) by (simp add: Connack.SetSessionPresent_def)
qed

lemma Del_online: "online_only mg \<Longrightarrow> online_only (prv_Del i (mg\<lparr>mg_store := st\<rparr>))"
  by (simp add: online_only_def prv_Del_def delete_conv')

lemma getSession_online:
  assumes on: "online_only mg" and ec: "echoes req" and now: "2 ^ 32 \<le> now"
    and g: "getSession now rid i req resp mg = Some (r, req', resp', mg')"
  shows "online_only mg' \<and> \<not> sessionPresent resp'"
proof -
  let ?c = "clientId req"
  have ne: "?c \<noteq> []" using ec by (simp add: echoes_def)
  have ex: "expired now (mg_heap mg a)" if "map_of (mg_st mg) ?c = Some a" for a
    using that on now unsigned_less [of "connect.sessionExpiryInterval (Cmsg (mg_heap mg a))", where ?'a = int]
    by (auto simp: expired_def online_only_def)
  have "fresh_session rid ?c req resp mg = Some (r, req', resp', mg') \<or> renew_session rid ?c req resp mg = Some (r, req', resp', mg')"
    using g ex by (auto simp: getSession_def named_id [OF ne] Let_def prv_Get_def split: option.splits if_splits)
  then show ?thesis
    using fresh_online [OF on ec] fresh_online [OF Del_online [OF on] ec] by (auto simp: renew_session_eq)
qed

lemma stop_online:
  assumes on: "online_only mg" and init: "ss_initted (mem_of (mg_heap mg a))"
  shows "online_only (stop_session now a mg)"
proof -
  have gone: "map_of (mg_st mg) i = Some a \<Longrightarrow> i = sess_ID (mg_heap mg a)" for i
    using on init by (simp add: online_only_def)
  show ?thesis
  proof (cases "mg_heap mg a")
    case (StoredMem s)
    then show ?thesis
      using on gone by (auto simp: online_only_def stop_session_def prv_Del_def delete_conv' sess_ID_def Cmsg_def mem_of_def)
  next
    case (StoredDb d)
    then show ?thesis
      using on gone by (auto simp: online_only_def stop_session_def prv_Del_def delete_conv' sess_ID_def Cmsg_def mem_of_def
          db_SetStatus_def Let_def sess_SetOfflineTime_def sess_SetStatus_def split: prod.splits)
  qed
qed

definition ev_ok :: "smgr_event \<Rightarrow> bool" where
  "ev_ok ev = (case ev of Connects now rid i req resp \<Rightarrow> echoes req \<and> 2 ^ 32 \<le> now | Stops now a \<Rightarrow> True)"

lemma step_online:
  assumes "online_only mg" "ev_ok ev" "smgr_step ev mg = Some (r, mg')"
  shows "online_only mg' \<and> (\<forall>a k. r = Some (a, k) \<longrightarrow> \<not> sessionPresent k)"
proof (cases ev)
  case (Connects now rid i req resp)
  then show ?thesis
    using assms getSession_online [OF assms(1)] by (fastforce simp: ev_ok_def split: option.splits prod.splits sum.splits)
next
  case (Stops now a)
  then show ?thesis using assms stop_online [OF assms(1)] by auto
qed

text \<open>C8: In no history of clients that connect (at any time after the first 4.3 seconds of 1970) and services that stop is a
  session ever resumed: no CONNACK announces a session as present, whatever expiry intervals the clients ask for. \<open>stop\<close> deletes the
  session of a client that goes away, and one whose client is still online counts as expired.\<close>

theorem never_resumed:
  assumes "list_all ev_ok evs" "smgr_run evs (new_mgr st) = Some (rs, mg)"
  shows "online_only mg \<and> (\<forall>(a, k) \<in> set rs. \<not> sessionPresent k)"
proof -
  have "list_all ev_ok evs \<Longrightarrow> online_only mg0 \<Longrightarrow> smgr_run evs mg0 = Some (rs, mg) \<Longrightarrow>
      online_only mg \<and> (\<forall>(a, k) \<in> set rs. \<not> sessionPresent k)" for mg0 rs
  proof (induction evs arbitrary: mg0 rs)
    case (Cons ev evs)
    obtain r mg1 rs1 where st: "smgr_step ev mg0 = Some (r, mg1)" "smgr_run evs mg1 = Some (rs1, mg)"
      "rs = (case r of None \<Rightarrow> rs1 | Some x \<Rightarrow> x # rs1)"
      using Cons.prems(3) by (auto split: option.splits prod.splits)
    note s = step_online [OF Cons.prems(2) _ st(1)]
    have "online_only mg1" "\<forall>a k. r = Some (a, k) \<longrightarrow> \<not> sessionPresent k" using s Cons.prems(1) by auto
    then show ?case using Cons.IH [OF _ _ st(2)] Cons.prems(1) st(3) by (auto split: option.splits)
  qed simp
  moreover have "online_only (new_mgr st)" by (simp add: new_mgr_def online_only_def)
  ultimately show ?thesis using assms by blast
qed

section \<open>From the first byte to the CONNACK\<close>

text \<open>The CONNECT as the server has received it is kept by a new session as it was sent.\<close>

lemma keep_connect_got:
  assumes con: "conn_ok n" "conn_readable n" and s: "ss_cmessage s = NewConnectMessage"
  shows "keep_connect (conn_got E n) s =
    Some (conn_got E n, s\<lparr>ss_cbuf := conn_wire n, ss_cmessage := conn_got (E\<lparr>hs_spare := \<lambda>_. []\<rparr>) n\<rparr>, None)"
proof -
  have f: "fresh NewConnectMessage" "fresh_will NewConnectMessage" "length (mtypeflags NewConnectMessage) = 1"
    "mtype NewConnectMessage = CONNECT"
    by (simp_all add: NewConnectMessage_eq fresh_def fresh_will_def mtype_def alloc_flags_def CONNECT_def)
  have e: "conn_Encode (conn_got E n) (replicate (length (conn_wire n)) 0) = (conn_got E n, Ret (conn_wire n) (length (conn_wire n)))"
    by (simp add: conn_Encode_def conn_refused_def plain_Encode_def w_copy_def slen_def)
  show ?thesis
    unfolding keep_connect_def s conn_Len_got
    by (simp add: e conn_Decode_wire [OF con f]) (simp add: conn_got_def)
qed

lemma echoes_got: "conn_ok n \<Longrightarrow> conn_readable n \<Longrightarrow> echoes (conn_got E n)"
  unfolding echoes_def
proof (intro conjI allI impI)
  fix s :: "unit session" assume n: "conn_ok n" "conn_readable n" and "ss_cmessage s = NewConnectMessage"
  then show "\<exists>req' b cm. keep_connect (conn_got E n) s = Some (req', s\<lparr>ss_cbuf := b, ss_cmessage := cm\<rparr>, None) \<and>
      clientId cm = clientId (conn_got E n)"
    using keep_connect_got [OF n, of s E] by (intro exI conjI) (assumption, simp)
qed simp

text \<open>The CONNACK that opens its connection.\<close>

definition opening_connack :: "('w, 'v) hs_env \<Rightarrow> connect \<Rightarrow> connack" where
  "opening_connack E n = Connack.SetReasonCode Success (Connack.SetSessionPresent False (final_connack E n))"

lemma opening_connack_fields:
  "connack.reasonCode (opening_connack E n) = Success" "\<not> sessionPresent (opening_connack E n)"
  "connack.maxQos (opening_connack E n) = word_of_int (hs_MaxQos E)" "connack.maxPacketSize (opening_connack E n) = hs_MaxPacketSize E"
  "dirty (opening_connack E n)"
  by (simp_all add: opening_connack_def final_connack_def Connack.SetReasonCode_def Connack.SetSessionPresent_def
      SetResponseInformation_def login_connack_fields)

lemma opening_connack_ok: "1 < hs_MaxPacketSize E \<Longrightarrow> ck_ok (opening_connack E n)"
  by (rule ck_ok_small)
    (simp_all add: opening_connack_def final_connack_def Connack.SetReasonCode_def Connack.SetSessionPresent_def
      SetResponseInformation_def login_connack_fields Success_def)

lemma ck_built_again:
  assumes "ck_ok m"
  shows "dirty (ck_built m)" "ck_ok (ck_built m)" "ck_wire (ck_built m) = ck_wire m"
proof -
  have lim: "ck_limited (ck_built m) = ck_limited m" by (simp add: ck_limited_def ck_built_def)
  have rm: "receiveMaximum (ck_built m) = (if ck_limited m then receiveMaximum m else 65535)" by (simp add: ck_built_def)
  have l: "ck_plen (ck_built m) = ck_plen m" by (simp only: ck_plen_def lim ck_built_frame)
  have p: "ck_props (ck_built m) = ck_props m" by (simp only: ck_props_def lim ck_built_frame rm cong: if_cong) simp
  have b: "ck_body (ck_built m) = ck_body m" by (simp only: ck_body_def l p ck_built_frame)
  have i: "ck_built (ck_built m) = ck_built m" by (simp add: ck_built_def [of "ck_built m"] l b lim rm) (simp add: ck_built_def)
  show "ck_wire (ck_built m) = ck_wire m" by (simp only: ck_wire_def i b)
  show "dirty (ck_built m)" by simp
  have "mtype (ck_built m) = mtype m" "flags_ok (ck_built m) = flags_ok m" by (rule mtype_cong flags_ok_cong; simp)+
  then show "ck_ok (ck_built m)" using assms by (simp only: ck_ok_def b ck_built_frame)
qed

lemma opening_connack_written:
  assumes "1 < hs_MaxPacketSize E"
  shows "\<exists>k l. ck_Len (opening_connack E n) = Some (k, l) \<and>
    snd (ck_Encode k (replicate l 0)) = Ret (ck_wire (opening_connack E n)) (length (ck_wire (opening_connack E n)))"
proof -
  let ?m = "opening_connack E n"
  have ok: "ck_ok ?m" by (rule opening_connack_ok [OF assms])
  note again = ck_built_again [OF ok]
  show ?thesis
    using ck_encoders(1) [OF opening_connack_fields(5) ok order_refl] ck_encoders(2) [OF _ again(2) order_refl] again(3) by simp
qed

text \<open>A session in memory that is new.\<close>

lemma new_memory_session:
  assumes con: "conn_ok n" "conn_readable n"
  shows "\<exists>s. sess_Init (conn_got E n) [] (NewMemSession i :: unit session) = Some (conn_got E n, s, None) \<and> sess_ok s \<and>
    ss_topics s = [] \<and> ss_status s = ONLINE \<and> clientId (ss_cmessage s) = cid_of n \<and>
    ss_will s = (if WillFlag n then Some (will_of (conn_got (E\<lparr>hs_spare := \<lambda>_. []\<rparr>) n)) else None)"
  using new_queues
  by (simp add: sess_Init_def new_session keep_connect_got [OF con new_session(1)] Let_def sess_ok_def cid_of_def WillFlag_def)
    (simp add: NewMemSession_def NewMemSessionByCon_def)

lemma fresh_memory:
  assumes con: "conn_ok n" "conn_readable n" "connect.sessionExpiryInterval n = 0"
  shows "\<exists>s. fresh_session rid (cid_of n) (conn_got E n) resp mg =
      Some (Inr (mg_next mg), conn_got E n, Connack.SetSessionPresent False resp,
        cancel_task (cid_of n) (mg\<lparr>mg_heap := (mg_heap mg)(mg_next mg := StoredMem s), mg_next := Suc (mg_next mg),
          mg_st := AList.update (cid_of n) (mg_next mg) (mg_st mg)\<rparr>)) \<and>
    sess_ok s \<and> ss_topics s = [] \<and> ss_status s = ONLINE \<and> clientId (ss_cmessage s) = cid_of n \<and>
    ss_will s = (if WillFlag n then Some (will_of (conn_got (E\<lparr>hs_spare := \<lambda>_. []\<rparr>) n)) else None)"
proof -
  obtain s where s: "sess_Init (conn_got E n) [] (NewMemSession (cid_of n) :: unit session) = Some (conn_got E n, s, None)"
    "sess_ok s" "ss_topics s = []" "ss_status s = ONLINE" "clientId (ss_cmessage s) = cid_of n"
    "ss_will s = (if WillFlag n then Some (will_of (conn_got (E\<lparr>hs_spare := \<lambda>_. []\<rparr>) n)) else None)"
    using new_memory_session [OF con(1,2), of E "cid_of n"] by blast
  show ?thesis
    by (intro exI [of _ s]) (cases mg, simp add: fresh_session_def prv_New_def stored_Init_def Let_def con(3) s)
qed

text \<open>C4: From the bytes of a CONNECT to the open connection, in whatever segments they arrive: a client without enhanced
  authentication and session expiry that breaks no limit and whose session is not there, or not wanted, gets a new
  well-formed session in memory with its identifier and no subscription, under which the provider finds it from then on; the
  delayed will registered last for it is cancelled, the sessions of the others stay, one CONNACK with reason 0 and no session present closes
  the handshake, and what follows the CONNECT is left on the connection. All of this also after a refused login.\<close>

theorem client_connects:
  assumes con: "conn_ok n" "conn_readable n" "connect.authMethod n = []" "connect.sessionExpiryInterval n = 0" "keepAlive n \<noteq> 0"
    and c: "concat (cn_in c) = conn_wire n @ rest"
    and fit: "connect_refusal E n = None" "\<not> hs_RedirectOpen E" "1 < hs_MaxPacketSize E"
    and net: "\<And>d w. snd (hs_Write E d w) = None" "\<And>d w. snd (wp d w) = None"
    and start: "CleanStart n \<or> map_of (mg_st mg) (cid_of n) = None"
  shows "\<exists>c' mg' s. OnOpen E wp pre now rid i c v mg =
      Some (c', v, mg', Inr \<lparr>op_ccid = pre @ dec i @ [47] @ cid_of n, op_sess = mg_next mg, op_cron = keepAlive n\<rparr>) \<and>
    concat (cn_in c') = rest \<and> cn_out c' = fst (wp (ck_wire (opening_connack E n)) (after_login E n (cn_out c))) \<and>
    connack.reasonCode (opening_connack E n) = Success \<and> \<not> sessionPresent (opening_connack E n) \<and>
    mg_heap mg' = (mg_heap mg)(mg_next mg := StoredMem s) \<and> sess_ok s \<and> ss_topics s = [] \<and> ss_status s = ONLINE \<and>
    clientId (ss_cmessage s) = cid_of n \<and> map_of (mg_st mg') = (map_of (mg_st mg))(cid_of n \<mapsto> mg_next mg) \<and>
    map_of (mg_ids mg') = (map_of (mg_ids mg))(cid_of n := None) \<and>
    map_of (mg_jobs mg') =
      (case map_of (mg_ids mg) (cid_of n) of None \<Rightarrow> map_of (mg_jobs mg) | Some e \<Rightarrow> (map_of (mg_jobs mg))(e := None))"
proof -
  let ?q = "conn_got E n" and ?r = "Connack.SetSessionPresent False (final_connack E n)" and ?k = "opening_connack E n"
  have ne: "CleanStart ?q = CleanStart n" by (simp add: CleanStart_def)
  obtain c1 where c1: "conAuth E c v = Some (c1, v, Inr (Some (?q, final_connack E n)))" "concat (cn_in c1) = rest"
    "cn_out c1 = after_login E n (cn_out c)"
    using conAuth_result [OF con(1-3) c fit net(1), of v] con(5) by (auto simp: final_connect_def)
  let ?new = "\<lambda>mg0 s. cancel_task (cid_of n) (mg0\<lparr>mg_heap := (mg_heap mg)(mg_next mg := StoredMem s), mg_next := Suc (mg_next mg),
      mg_st := AList.update (cid_of n) (mg_next mg) (mg_st mg0)\<rparr>)"
  obtain mg0 s where g: "getSession now rid i ?q (final_connack E n) mg = Some (Inr (mg_next mg), ?q, ?r, ?new mg0 s)"
    and mg0: "mg_st mg0 = mg_st mg \<or> mg_st mg0 = AList.delete (cid_of n) (mg_st mg)"
    and jobs: "mg_ids mg0 = mg_ids mg" "mg_jobs mg0 = mg_jobs mg"
    and s: "sess_ok s" "ss_topics s = []" "ss_status s = ONLINE" "clientId (ss_cmessage s) = cid_of n"
  proof -
    let ?d = "prv_Del (cid_of n) (mg\<lparr>mg_store := fst (ClearSession (cid_of n) True (mg_store mg))\<rparr>)"
    have "getSession now rid i ?q (final_connack E n) mg = fresh_session rid (cid_of n) ?q (final_connack E n) (if CleanStart n then ?d else mg)"
      using start ne by (cases "CleanStart n") (simp_all add: getSession_def Let_def prv_Get_def renew_session_eq)
    then show ?thesis
      using fresh_memory [OF con(1,2,4), of rid E "final_connack E n" mg]
        fresh_memory [OF con(1,2,4), of rid E "final_connack E n" ?d] that [of mg] that [of ?d]
      by (cases "CleanStart n") (auto simp: prv_Del_def)
  qed
  obtain k l where k: "ck_Len ?k = Some (k, l)" "snd (ck_Encode k (replicate l 0)) = Ret (ck_wire ?k) (length (ck_wire ?k))"
    using opening_connack_written [OF fit(3)] by blast
  obtain w where w: "wp (ck_wire ?k) (cn_out c1) = (w, None)"
    using net(2) [of "ck_wire ?k" "cn_out c1"] by (cases "wp (ck_wire ?k) (cn_out c1)") auto
  have "OnOpen E wp pre now rid i c v mg = Some (c1\<lparr>cn_out := w\<rparr>, v, ?new mg0 s,
      Inr \<lparr>op_ccid = pre @ dec i @ [47] @ cid_of n, op_sess = mg_next mg, op_cron = keepAlive n\<rparr>)"
    by (simp add: OnOpen_def NewGettyService_def c1(1) g opening_connack_def [symmetric] k w sess_ID_def Cmsg_def mem_of_def s(4))
  moreover have "map_of (mg_st (?new mg0 s)) = (map_of (mg_st mg))(cid_of n \<mapsto> mg_next mg)"
    using mg0 by (auto simp: update_conv' delete_conv')
  ultimately show ?thesis
    using c1(2,3) w s opening_connack_fields(1,2) [of E n]
    by (intro exI [of _ "c1\<lparr>cn_out := w\<rparr>"] exI [of _ "?new mg0 s"] exI [of _ s]) (simp add: cancel_task_jobs jobs cong: option.case_cong)
qed

section \<open>Witnesses\<close>

definition mem_connect :: connect where "mem_connect = Connect.SetSessionExpiryInterval 0 demo_connect"

lemma mem_connect_eq: "mem_connect = demo_connect\<lparr>connect.sessionExpiryInterval := 0\<rparr>"
  by (simp add: mem_connect_def Connect.SetSessionExpiryInterval_def demo_connect_eq)

lemma mem_connect_flags: "conn_readable mem_connect" "mtype mem_connect = CONNECT" "flags_ok mem_connect" "CleanStart mem_connect"
  "length (conn_body mem_connect) = 53"
  by code_simp+

lemma mem_connect_ok: "conn_ok mem_connect" "cid_of mem_connect = [100, 101, 118]" "connect.sessionExpiryInterval mem_connect = 0"
  "connect.authMethod mem_connect = []" "keepAlive mem_connect = 60"
proof -
  have "conn_strings_ok mem_connect = conn_strings_ok demo_connect" "conn_flags_ok mem_connect = conn_flags_ok demo_connect"
    by (simp_all add: mem_connect_eq conn_strings_ok_def conn_flags_ok_def WillFlag_def UsernameFlag_def PasswordFlag_def)
  then show "conn_ok mem_connect"
    using mem_connect_flags demo_connect_ok by (simp add: conn_ok_def) (simp add: mem_connect_eq)
qed (simp_all add: mem_connect_eq demo_connect_eq cid_of_def)

lemma sample_echoes: "echoes (conn_got (sample_hs 300) mem_connect)"
  by (rule echoes_got [OF mem_connect_ok(1) mem_connect_flags(1)])

lemma sample_got:
  "\<exists>mg. getSession now rid i (conn_got (sample_hs 300) mem_connect) resp (new_mgr st :: unit sessmgr) =
    Some (Inr 0, conn_got (sample_hs 300) mem_connect, Connack.SetSessionPresent False resp, mg)"
proof -
  have n: "CleanStart (conn_got (sample_hs 300) mem_connect)" using mem_connect_flags(4) by (simp add: CleanStart_def)
  have "mg_next (prv_Del c (new_mgr st\<lparr>mg_store := st'\<rparr>)) = 0" for c st' by (simp add: prv_Del_def new_mgr_def)
  then show ?thesis
    using fresh_memory [OF mem_connect_ok(1) mem_connect_flags(1) mem_connect_ok(3), of rid "sample_hs 300" resp
        "prv_Del (cid_of mem_connect) (new_mgr st\<lparr>mg_store := fst (ClearSession (cid_of mem_connect) True st)\<rparr>) :: unit sessmgr"] n
    by (auto simp: getSession_def Let_def renew_session_eq) (simp add: new_mgr_def)
qed

theorem getSession_resumes_witness:
  "\<exists>mg'. getSession 5 [] 1 (conn_got (sample_hs 300) mem_connect) NewConnackMessage (new_mgr NewMemSessionStore :: unit sessmgr) =
      Some (Inr 0, conn_got (sample_hs 300) mem_connect, Connack.SetSessionPresent False NewConnackMessage, mg') \<and>
    map_of (mg_st mg') [100, 101, 118] = Some 0"
proof -
  let ?q = "conn_got (sample_hs 300) mem_connect"
  have id: "clientId ?q = [100, 101, 118]" using mem_connect_ok(2) by simp
  obtain mg' where g: "getSession 5 [] 1 ?q NewConnackMessage (new_mgr NewMemSessionStore :: unit sessmgr) =
      Some (Inr 0, ?q, Connack.SetSessionPresent False NewConnackMessage, mg')"
    using sample_got by blast
  have "\<not> sessionPresent (Connack.SetSessionPresent False NewConnackMessage)" by (simp add: Connack.SetSessionPresent_def)
  then show ?thesis using getSession_resumes [OF g] g id by simp
qed

theorem never_resumed_witness:
  "\<exists>mg. smgr_run [Connects 5000000000 [] 1 (conn_got (sample_hs 300) mem_connect) NewConnackMessage, Stops 5000000001 0]
      (new_mgr NewMemSessionStore :: unit sessmgr) = Some ([(0, Connack.SetSessionPresent False NewConnackMessage)], mg) \<and> online_only mg"
proof -
  let ?q = "conn_got (sample_hs 300) mem_connect" and ?k = "Connack.SetSessionPresent False NewConnackMessage"
  obtain mg' where g: "getSession 5000000000 [] 1 ?q NewConnackMessage (new_mgr NewMemSessionStore :: unit sessmgr) =
      Some (Inr 0, ?q, ?k, mg')"
    using sample_got by blast
  let ?evs = "[Connects 5000000000 [] 1 ?q NewConnackMessage, Stops 5000000001 0]"
  obtain mg where r: "smgr_run ?evs (new_mgr NewMemSessionStore :: unit sessmgr) = Some ([(0, ?k)], mg)" by (simp add: g del: One_nat_def)
  have "list_all ev_ok ?evs" using sample_echoes by (simp add: ev_ok_def)
  from never_resumed [OF this r] r show ?thesis by blast
qed

theorem client_connects_witness:
  "\<exists>c' mg' s. OnOpen (sample_hs 300) (\<lambda>d w. (w @ [d], None)) [97] 5000000000 [] 7
      \<lparr>cn_in = [conn_wire mem_connect, [0xC0], [0]], cn_err = EOF, cn_out = []\<rparr> (\<lambda>_. 0) (new_mgr NewMemSessionStore :: unit sessmgr) =
      Some (c', (\<lambda>_. 0), mg', Inr \<lparr>op_ccid = [97, 55, 47, 100, 101, 118], op_sess = 0, op_cron = 60\<rparr>) \<and>
    concat (cn_in c') = [0xC0, 0] \<and> mg_heap mg' 0 = StoredMem s \<and> sess_ok s \<and> clientId (ss_cmessage s) = [100, 101, 118] \<and>
    map_of (mg_st mg') [100, 101, 118] = Some 0"
proof -
  let ?E = "sample_hs 300" and ?c = "\<lparr>cn_in = [conn_wire mem_connect, [0xC0], [0]], cn_err = EOF, cn_out = []\<rparr> :: bytes list conn"
  have l: "length (conn_wire mem_connect) \<le> 60"
    using length_lb_wire [of 53] by (simp add: conn_wire_packet [OF mem_connect_ok(1)] packet_def mem_connect_flags(5))
  have fit: "connect_refusal ?E mem_connect = None" "\<not> hs_RedirectOpen ?E" "1 < hs_MaxPacketSize ?E"
    using l by (simp_all add: connect_refusal_def sample_hs_def mem_connect_eq demo_connect_eq WillQos_def)
  define wp :: "bytes \<Rightarrow> bytes list \<Rightarrow> bytes list \<times> goerr option" where "wp = (\<lambda>d w. (w @ [d], None))"
  have net: "snd (hs_Write ?E d w) = None" "snd (wp d w) = None" for d w
    by (simp_all add: sample_hs_def wp_def)
  have ka: "keepAlive mem_connect \<noteq> 0" by (simp add: mem_connect_ok)
  have bytes: "concat (cn_in ?c) = conn_wire mem_connect @ [0xC0, 0]" by simp
  have start: "CleanStart mem_connect \<or> map_of (mg_st (new_mgr NewMemSessionStore :: unit sessmgr)) (cid_of mem_connect) = None"
    using mem_connect_flags(4) by simp
  have n: "mg_next (new_mgr NewMemSessionStore :: unit sessmgr) = 0" "dec 7 = [55]" by (simp_all add: new_mgr_def dec.simps [of 7])
  let ?mg = "new_mgr NewMemSessionStore :: unit sessmgr"
  obtain c' mg' s where r: "OnOpen ?E wp [97] 5000000000 [] 7 ?c (\<lambda>_. 0) ?mg =
      Some (c', (\<lambda>_. 0), mg', Inr \<lparr>op_ccid = [97] @ [55] @ [47] @ [100, 101, 118], op_sess = 0, op_cron = 60\<rparr>)"
    "concat (cn_in c') = [0xC0, 0]" "mg_heap mg' = (mg_heap ?mg)(0 := StoredMem s)" "sess_ok s"
    "clientId (ss_cmessage s) = [100, 101, 118]" "map_of (mg_st mg') = (map_of (mg_st ?mg))([100, 101, 118] \<mapsto> 0)"
    using client_connects [where E = ?E and wp = wp and c = ?c, OF mem_connect_ok(1) mem_connect_flags(1) mem_connect_ok(4,3) ka bytes
        fit net start, where pre = "[97]" and now = 5000000000 and rid = "[]" and i = 7 and v = "\<lambda>_. 0"]
    unfolding n mem_connect_ok(2,5) by (elim exE conjE) (rule that)
  show ?thesis
    unfolding wp_def [symmetric]
    by (rule exI [of _ c'], rule exI [of _ mg'], rule exI [of _ s]) (use r in simp)
qed

section \<open>Remarks\<close>

text \<open>Of two delayed wills of a client only the one registered last is cancelled; the other stays scheduled.\<close>

lemma earlier_job_stays:
  assumes "\<forall>e\<in>fst ` set (mg_jobs mg). e < mg_nextJob mg"
  shows "map_of (mg_jobs (cancel_task i (AddJob i k2 (AddJob i k1 mg)))) (mg_nextJob mg) = Some k1"
proof -
  have "map_of (mg_jobs mg) (mg_nextJob mg) = None" using assms by (auto simp: map_of_eq_None_iff)
  then show ?thesis by (simp add: cancel_task_jobs AddJob_def update_conv' map_add_def)
qed

text \<open>
  Where a client connects while its old connection is still open, the old one stays; when it stops it deletes
  the session of the new one from the provider.
\<close>

lemma old_stop_drops_new:
  "map_of (mg_st (stop_session now a mg)) (sess_ID (mg_heap mg a)) = None"
  by (auto simp: stop_session_def prv_Del_def delete_conv' sess_ID_def Cmsg_def mem_of_def db_SetStatus_def Let_def
      sess_SetOfflineTime_def sess_SetStatus_def split: stored.splits prod.splits)

end
