(* ===== verification/Spec2Isabelle.thy ===== *)
theory Spec2Isabelle
  imports TopicsMgr Publish NodeMap Subscribe Unsubscribe SubackPackets SendRecv Disconnect Session Qos2 Connack Auth SessionMgr
begin

text \<open>
  Verification of the MQTT 5 broker core of si-mqtt. All paths below are under \<open>src/corev5/v2\<close> unless
  they start with \<open>cluster\<close>. Names of definitions are those of the Go code where Isabelle allows it;
  the theories are listed from the bottom up.

  \<^bold>\<open>How the parts of the program interact.\<close> Bytes arrive on a connection and are framed
  (\<open>service/sendrecv.go\<close>, \<open>getty_pkg_handler.go\<close>), through a byte ring where the connection has one
  (\<open>buffer.go\<close>), and decoded into messages (\<open>message/\<close>). A service (\<open>service/service.go\<close>,
  \<open>process.go\<close>) handles the messages of one client: it stores unacknowledged messages in the queues of
  the session (\<open>sessions/impl\<close>), subscribes and unsubscribes at the topics manager (\<open>topics/impl\<close>), which
  routes to the tree of ordinary, shared (\<open>topics/share\<close>) and system subscriptions (\<open>topics/sys\<close>) and to
  the tree of retained messages, and hands publications to the services of the subscribers and to the
  nodes of the cluster (\<open>topics/topic_map_node\<close>).
\<close>

text \<open>
  \<^bold>\<open>Vocabulary.\<close>

  \<^item> \<open>Prelude\<close>: bytes and words, a Go slice with its spare capacity (\<open>slice\<close>), Go errors (\<open>goerr\<close>) and
    the outcome of a function that mutates its receiver and returns \<open>(int, error)\<close>: \<open>Ret\<close>, \<open>Fail\<close> or
    \<open>Panic\<close>. Elsewhere a panic is the value \<open>None\<close> of an option.
  \<^item> \<open>Codec\<close> (\<open>message/util.go\<close>, \<open>message.go\<close>): variable byte integers, length-prefixed strings, user
    properties, integers on the wire. \<open>Steps\<close>: what the message decoders are made of, with \<open>consumes\<close>,
    which says what a step does on a packet that continues with the field it reads. \<open>Frame\<close>: locales for
    the encoders (\<open>built_packet\<close>, \<open>plain_packet\<close>, \<open>drawn_packet\<close>): from a \<open>build\<close> that fixes the length
    and a writer of the body follow \<open>Len\<close>, both encoders and their agreement, once for all messages.

  \<^bold>\<open>Messages.\<close> One record per message extends the record of the fixed header. Each theory has the setters,
  \<open>build\<close>, \<open>Len\<close>, \<open>Encode\<close>, \<open>EncodeToBuf\<close> and \<open>Decode\<close>, the last as a sequence of blocks in the order of
  the code. The theorems: both encoders write the same packet, of the length \<open>Len\<close> reports, and the
  decoder gives the fields back, under the conditions the code needs (\<open>*_ok\<close>, \<open>*_readable\<close>).

  \<^item> \<open>Header\<close> (\<open>header.go\<close>), \<open>AckPackets\<close> (\<open>puback.go\<close>, \<open>pubrec.go\<close>, \<open>pubrel.go\<close>, \<open>pubcomp.go\<close>, which
    differ in their type and flags only), \<open>Publish\<close>, \<open>Subscribe\<close>, \<open>Unsubscribe\<close>, \<open>SubackPackets\<close>
    (\<open>suback.go\<close>, \<open>unsuback.go\<close>), \<open>Connect\<close>, \<open>Connack\<close>, \<open>Disconnect\<close> (with \<open>pingreq.go\<close>, \<open>pingresp.go\<close>),
    \<open>Auth\<close>.
  \<^item> \<open>Message\<close>: the interface \<open>Message\<close> over these, \<open>mqtt\<close>, and what the acknowledgement queue asks of it.

  \<^bold>\<open>Byte ring and framing.\<close> \<open>Buffer\<close> (\<open>service/buffer.go\<close>): the operations. \<open>RingLog\<close>: the ring refines a
  stream, a log with two positions, where the operations come one after the other. \<open>RingThreads\<close>: producer,
  consumer and closing goroutines as interleaved steps, with mutexes, condition variables and broadcasts; what
  the consumer receives, and which wake-ups can be lost. \<open>SendRecv\<close> (\<open>sendrecv.go\<close>): framing over the ring. \<open>ConnRead\<close> (\<open>service/misc.go\<close>,
  \<open>getty_pkg_handler.go\<close>): reading a packet from the segments of a connection, and where the loop of the
  package handler returns.
\<close>

text \<open>
  \<^bold>\<open>Topics.\<close> \<open>TopicLevel\<close> (\<open>consts/const.go\<close>, \<open>nextTopicLevel\<close>): names, filters and levels. \<open>SubStore\<close>:
  the contract of a subscription tree as the locale \<open>sub_store\<close>, whose consequence for any sequence of
  calls the trees inherit. \<open>SubTree\<close> (\<open>snode\<close> of \<open>topics/impl/memtopics.go\<close>), \<open>ShareTree\<close>, \<open>SysTree\<close>:
  insertion, removal and matching, with the subscribers a match returns. \<open>RetainTree\<close> (\<open>rnode\<close>): storing,
  removing and matching retained messages. \<open>TopicsMgr\<close> (\<open>memTopics\<close>): the manager over the four trees. \<open>NodeMap\<close>
  (\<open>topics/topic_map_node/tmn.go\<close>): which cluster nodes have subscribers of a shared filter, and the
  weighted draw between them.

  \<^bold>\<open>Sessions and services.\<close>

  \<^item> \<open>AckQueue\<close> (\<open>sessions/impl/mem_ackqueue.go\<close>): the growing ring with its map from packet identifiers;
    it refines a list (locale \<open>ack_queue\<close>).
  \<^item> \<open>Session\<close> (\<open>mem_session.go\<close>): queues, CONNECT message, will, subscriptions, topic aliases.
  \<^item> \<open>Service\<close> (\<open>service.go\<close>, \<open>getty_server.go\<close>, \<open>pipiline.go\<close>): the record \<open>service\<close>, the record \<open>broker\<close>
    with all services, flow control, \<open>writeMessage\<close>, \<open>onPub\<close>, \<open>reloadSub\<close>, the will and \<open>stop\<close>.
  \<^item> \<open>Process\<close> (\<open>process.go\<close>): \<open>processIncoming\<close> and a definition for every handler it calls.
  \<^item> \<open>Delivery\<close>: what handing out publications can change in the broker (\<open>delivers\<close>).
  \<^item> \<open>Broker\<close>: the events of a broker and the locale \<open>broker_invariant\<close>; every reachable broker is sound, and
    every subscription of the manager is in the session of its service. \<open>Qos2\<close>: over any sequence of events the
    QoS 2 publications of a client form a run (\<open>qos2_run\<close>) of packets that are stored and of calls of \<open>onPublish\<close>
    for the packets that are released.
  \<^item> \<open>Store\<close> (\<open>cluster/store/memImpl\<close>): the stores in memory, a refinement of finite maps (locale
    \<open>client_table\<close>). \<open>DbSession\<close> (\<open>sessions/impl/db_session.go\<close>, \<open>db_ackqueue.go\<close>): sessions that write to a
    store; what a restart of the broker brings back: the packets that wait for their first acknowledgement and the
    subscriptions, but not the second phase of QoS 2. The store is the one in memory, a message in it a value.

  \<^bold>\<open>Opening a connection.\<close> \<open>Handshake\<close> (\<open>service/server.go\<close>, \<open>misc.go\<close>, \<open>auth\<close>): \<open>conAuth\<close> with its checks and the
  rounds of enhanced authentication, whose runs without an error are characterised (\<open>auth_run\<close>); every round
  reads a packet, which ends the recursion. \<open>SessionMgr\<close>
  (\<open>sessions/impl/mem_provider.go\<close>, \<open>getSession\<close>, \<open>NewGettyService\<close>, \<open>OnOpen\<close>): sessions with addresses, which one a
  client gets, and the way from the bytes of a CONNECT to the CONNACK, with the theorem \<open>client_connects\<close>; histories
  of connections and what \<open>stop\<close> does to their sessions.
\<close>

text \<open>
  \<^bold>\<open>Choices of the model.\<close>

  \<^item> A handler of \<open>process.go\<close> is one step: services interleave between handlers, not within one. Only
    the byte ring is modelled at the level of its threads.
  \<^item> A connection delivers its bytes in segments and then an error. A read that returns bytes together
    with an error, which \<open>getMessageBuffer\<close> would drop, is not modelled, nor is a connection that is \<open>nil\<close>.
  \<^item> Delayed wills (\<open>util/cron\<close>) are the jobs of a schedule with the number kept for each client. When a job
    is due is an event of the broker; the schedule of \<open>SessionMgr\<close> is the one a new connection cancels from.
  \<^item> Connections are getty sessions. What getty, the databases, the random sources and the spare memory
    of a pooled buffer do are fields of the environment record \<open>env\<close>, or parameters of the definitions.
  \<^item> A Go map is an association list; where the code ranges over one, the order is the list's, and the
    theorems that speak of such a result speak of its set or hold for the list's order.
  \<^item> Retained messages and messages in a queue are values. The code copies a message before storing it,
    by encoding and decoding, and that is what the model does.
  \<^item> Integers have their Go width as words where they are sent, compared or wrap; \<open>int\<close> lengths and
    positions that are never negative are naturals.
  \<^item> Loops that may run for ever in Go: the copy loop of the ring is given as many steps as bound a returning
    run, and \<open>ringCopy_total\<close> says exactly when it returns; the loop of the package handler is a
    partial function, and \<open>getty_Read_returns\<close> says the same of it. All other
    recursions are structural or have a termination proof, so a definition returns wherever its value is
    not a panic.

  \<^item> In \<open>Service\<close> and \<open>Broker\<close> a service owns its session as a value in memory; that sessions are shared through
    the provider is in \<open>SessionMgr\<close>.

  \<^bold>\<open>Not modelled.\<close> The start of the process and of the server, configuration, logging and metrics; the
  database stores of \<open>cluster/store\<close> on MongoDB and MySQL, which are calls of their drivers; the transports
  between cluster nodes (\<open>cluster/stat\<close>); the goroutines and sockets of the ring mode (\<open>service.start\<close>,
  \<open>receiver\<close>, \<open>sender\<close>), beyond the ring itself; the client side of a service; the second tree of retained
  messages in the packages \<open>share\<close> and \<open>sys\<close>, which no caller reaches; the \<open>String\<close> methods.
\<close>

end
